(* ===== verification/Zgw_Prelude.thy ===== *)
theory Zgw_Prelude
  imports Main "HOL-Library.Word"
begin

text \<open>
  The vocabulary the component theories share: names for the C integer types of the
  gateway, the single-bit lemmas on machine words, and a few facts about lists that are
  updated by index.  Nothing here models a particular source file.
\<close>

unbundle bit_operations_syntax

section \<open>Machine types\<close>

type_synonym u8 = "8 word"
type_synonym u16 = "16 word"
type_synonym u32 = "32 word"

type_synonym nodeid = "u16"
type_synonym bytes = "u8 list"

text \<open>Facts that move a word expression to its bits or to its natural number.\<close>

named_theorems word_bits

section \<open>Single bits\<close>

lemma bit_u8_bound [dest]: "bit (w :: u8) n \<Longrightarrow> n < 8"
  using bit_imp_le_length [of w n] by simp

lemma set_bit_or [word_bits]:
  "bit (w OR 2 ^ k :: 'a::len word) n \<longleftrightarrow> bit w n \<or> (n = k \<and> k < LENGTH('a))"
  by (auto simp: bit_simps)

lemma clear_bit_and [word_bits]:
  "bit (w AND NOT (2 ^ k) :: 'a::len word) n \<longleftrightarrow> bit w n \<and> n \<noteq> k"
  by (auto simp: bit_simps dest: bit_imp_le_length)

lemma drop_bit_and_one [word_bits]:
  "drop_bit k (w :: 'a::len word) AND 1 = (if bit w k then 1 else 0)"
proof (rule bit_word_eqI)
  fix n assume "n < LENGTH('a)"
  show "bit (drop_bit k w AND 1) n \<longleftrightarrow> bit (if bit w k then 1 else 0 :: 'a word) n"
    by (cases n) (simp_all add: bit_simps)
qed

lemma word_xor_eq_0_iff: "(a :: 'a::len word) XOR b = 0 \<longleftrightarrow> a = b"
  by (auto simp: bit_eq_iff bit_xor_iff)

lemma unat_and_le: "unat ((a :: 'a::len word) AND b) \<le> unat b"
  by (metis word_and_le1 word_and_le2 word_le_nat_alt and.commute)

section \<open>Splitting an index into a byte and a bit\<close>

lemma nat_drop_bit_3: "drop_bit 3 (n :: nat) = n div 8"
  by (simp add: drop_bit_eq_div)

lemma nat_and_7: "(n :: nat) AND 7 = n mod 8"
  using take_bit_eq_mask [of 3 n] by (simp add: take_bit_eq_mod mask_eq_exp_minus_1)

lemma div_mod_8_eq_iff: "(a :: nat) div 8 = b div 8 \<and> a mod 8 = b mod 8 \<longleftrightarrow> a = b"
  by (metis div_mod_decomp)

section \<open>Lists updated by index\<close>

lemma nth_list_update_if:
  "j < length xs \<Longrightarrow> xs[i := v] ! j = (if i = j then v else xs ! j)"
  by simp


lemma mult_add_div_mod:
  "y < n \<Longrightarrow> (n * x + y) div n = (x :: nat)" "y < n \<Longrightarrow> (n * x + y) mod n = (y :: nat)"
  by simp_all

lemma take_eq_map_nth: "n \<le> length xs \<Longrightarrow> take n xs = map ((!) xs) [0..<n]"
  by (rule nth_equalityI) simp_all


section \<open>Return codes of the command handlers\<close>

datatype command_handler_codes_t =
    COMMAND_HANDLED | COMMAND_PARSE_ERROR | COMMAND_BUSY | COMMAND_NOT_SUPPORTED
  | CLASS_NOT_SUPPORTED | COMMAND_POSTPONED | COMMAND_CLASS_DISABLED

section \<open>Options and lists\<close>

lemma unat_u8: "unat (x :: u8) < 256"
proof -
  have "unat x < 2 ^ LENGTH(8)" by (rule unsigned_less)
  then show ?thesis by simp
qed

lemma unat_of_nat_u8: "n < 256 \<Longrightarrow> unat (of_nat n :: u8) = n"
  by (simp add: unat_of_nat)

lemma option_eqI: "(\<And>v. a = Some v \<longleftrightarrow> b = Some v) \<Longrightarrow> a = b"
  by (cases a; cases b) auto

section \<open>Searching and updating arrays\<close>

text \<open>The index of the first element with a property: a C loop with an early return.\<close>

fun find_idx :: "('a \<Rightarrow> bool) \<Rightarrow> 'a list \<Rightarrow> nat option" where
  "find_idx P [] = None"
| "find_idx P (x # xs) = (if P x then Some 0 else map_option Suc (find_idx P xs))"

lemma find_idx_Some_iff:
  "find_idx P xs = Some i \<longleftrightarrow> i < length xs \<and> P (xs ! i) \<and> (\<forall>j < i. \<not> P (xs ! j))"
proof (induction xs arbitrary: i)
  case (Cons x xs)
  show ?case
    by (cases i) (auto simp: Cons.IH All_less_Suc2 split: if_splits)
qed simp

lemma find_idx_None_iff: "find_idx P xs = None \<longleftrightarrow> (\<forall>x \<in> set xs. \<not> P x)"
  by (induction xs) auto

lemma find_idx_SomeD:
  assumes "find_idx P xs = Some i"
  shows "i < length xs" and "P (xs ! i)"
  using assms by (auto simp: find_idx_Some_iff)

lemma find_idx_cong:
  "(\<And>x. x \<in> set xs \<Longrightarrow> P x = Q x) \<Longrightarrow> find_idx P xs = find_idx Q xs"
  by (induction xs) auto

text \<open>Updating one element of an array.\<close>

definition upd_idx :: "nat \<Rightarrow> ('a \<Rightarrow> 'a) \<Rightarrow> 'a list \<Rightarrow> 'a list" where
  "upd_idx i f xs = xs[i := f (xs ! i)]"

lemma length_upd_idx [simp]: "length (upd_idx i f xs) = length xs"
  by (simp add: upd_idx_def)

lemma nth_upd_idx: "j < length xs \<Longrightarrow> upd_idx i f xs ! j = (if i = j then f (xs ! j) else xs ! j)"
  by (simp add: upd_idx_def nth_list_update_if)

lemma set_upd_idx_subset: "i < length xs \<Longrightarrow> set (upd_idx i f xs) \<subseteq> insert (f (xs ! i)) (set xs)"
  unfolding upd_idx_def by (rule set_update_subset_insert)

end
