(* ===== verification/Nodemask.thy ===== *)
theory Nodemask
  imports Zgw_Prelude
begin

text \<open>
  Node masks: \<^verbatim>\<open>src/src/utls/zgw_nodemask.c\<close> and its header.  A node mask is a byte array with
  one bit per node id.  Classic ids (1 to 232) use bit \<open>id - 1\<close>, Long Range ids
  (256 to 4000) use bit \<open>id\<close>; every other id is rejected.  The theory models the bit
  macros and the three exported operations, abstracts a mask to the set of its node ids,
  and shows that the operations implement the set operations.
\<close>

type_synonym nodemask_t = bytes

definition ZW_CLASSIC_MAX_NODES :: nat where "ZW_CLASSIC_MAX_NODES = 232"
definition ZW_LR_MIN_NODE_ID :: nat where "ZW_LR_MIN_NODE_ID = 256"
definition ZW_LR_MAX_NODE_ID :: nat where "ZW_LR_MAX_NODE_ID = 4000"
definition ZW_MAX_NODES :: nat where "ZW_MAX_NODES = ZW_LR_MAX_NODE_ID"

lemmas node_limits =
  ZW_CLASSIC_MAX_NODES_def ZW_LR_MIN_NODE_ID_def ZW_LR_MAX_NODE_ID_def ZW_MAX_NODES_def

text \<open>The size of the array type: \<^verbatim>\<open>uint8_t[ZW_MAX_NODES/8 + 1]\<close>.\<close>

definition nodemask_size :: nat where "nodemask_size = ZW_MAX_NODES div 8 + 1"

definition BIT8_TST :: "nat \<Rightarrow> bytes \<Rightarrow> u8" where
  "BIT8_TST bitnum array = drop_bit (bitnum AND 7) (array ! drop_bit 3 bitnum) AND 1"

definition BIT8_SET :: "nat \<Rightarrow> bytes \<Rightarrow> bytes" where
  "BIT8_SET bitnum array =
     array[drop_bit 3 bitnum := array ! drop_bit 3 bitnum OR push_bit (bitnum AND 7) 1]"

definition BIT8_CLR :: "nat \<Rightarrow> bytes \<Rightarrow> bytes" where
  "BIT8_CLR bitnum array =
     array[drop_bit 3 bitnum := array ! drop_bit 3 bitnum AND NOT (push_bit (bitnum AND 7) 1)]"

definition is_classic_node :: "nodeid \<Rightarrow> bool" where
  "is_classic_node nodeid \<longleftrightarrow> 0 < unat nodeid \<and> unat nodeid \<le> ZW_CLASSIC_MAX_NODES"

definition is_lr_node :: "nodeid \<Rightarrow> bool" where
  "is_lr_node nodeid \<longleftrightarrow> ZW_LR_MIN_NODE_ID \<le> unat nodeid \<and> unat nodeid \<le> ZW_LR_MAX_NODE_ID"

definition nodemask_nodeid_is_valid :: "nodeid \<Rightarrow> bool" where
  "nodemask_nodeid_is_valid nodeid \<longleftrightarrow> is_classic_node nodeid \<or> is_lr_node nodeid"

definition nodemask_nodeid_is_invalid :: "nodeid \<Rightarrow> bool" where
  "nodemask_nodeid_is_invalid nodeid \<longleftrightarrow> \<not> is_classic_node nodeid \<and> \<not> is_lr_node nodeid"

definition nodemask_clear :: "nodemask_t" where
  "nodemask_clear = replicate nodemask_size 0"

text \<open>\<open>memcmp\<close>: the difference at the first place where the blocks differ, and 0 for equal blocks.\<close>

definition memcmp :: "bytes \<Rightarrow> bytes \<Rightarrow> nat \<Rightarrow> int" where
  "memcmp a b n = (case filter (\<lambda>(x, y). x \<noteq> y) (zip (take n a) (take n b)) of [] \<Rightarrow> 0 | (x, y) # _ \<Rightarrow> uint x - uint y)"

definition nodemask_equal :: "nodemask_t \<Rightarrow> nodemask_t \<Rightarrow> int" where
  "nodemask_equal m1 m2 = memcmp m1 m2 nodemask_size"

definition nodemask_add_node :: "nodeid \<Rightarrow> nodemask_t \<Rightarrow> nat \<times> nodemask_t" where
  "nodemask_add_node nodeID nodelist_mask =
     (if nodemask_nodeid_is_invalid nodeID then (0, nodelist_mask)
      else if is_classic_node nodeID then (1, BIT8_SET (unat nodeID - 1) nodelist_mask)
      else (1, BIT8_SET (unat nodeID) nodelist_mask))"

definition nodemask_test_node :: "nodeid \<Rightarrow> nodemask_t \<Rightarrow> u8" where
  "nodemask_test_node nodeID nodelist_mask =
     (if nodemask_nodeid_is_invalid nodeID then 0
      else if is_classic_node nodeID then BIT8_TST (unat nodeID - 1) nodelist_mask
      else BIT8_TST (unat nodeID) nodelist_mask)"

definition nodemask_remove_node :: "nodeid \<Rightarrow> nodemask_t \<Rightarrow> nat \<times> nodemask_t" where
  "nodemask_remove_node nodeID nodelist_mask =
     (if nodemask_nodeid_is_invalid nodeID then (0, nodelist_mask)
      else if is_classic_node nodeID then (1, BIT8_CLR (unat nodeID - 1) nodelist_mask)
      else (1, BIT8_CLR (unat nodeID) nodelist_mask))"

section \<open>The bit of a node\<close>

definition wf_nodemask :: "nodemask_t \<Rightarrow> bool" where
  "wf_nodemask m \<longleftrightarrow> length m = nodemask_size"

lemma memcmp_0_iff:
  assumes "n \<le> length a" "n \<le> length b"
  shows "memcmp a b n = 0 \<longleftrightarrow> take n a = take n b"
proof -
  let ?d = "filter (\<lambda>(x, y). x \<noteq> y) (zip (take n a) (take n b))"
  have "memcmp a b n = 0 \<longleftrightarrow> ?d = []"
  proof (cases ?d)
    case (Cons p ds)
    then have "fst p \<noteq> snd p" by (auto simp: filter_eq_Cons_iff)
    then show ?thesis using Cons by (cases p) (auto simp: memcmp_def dest: word_uint_eqI)
  qed (simp add: memcmp_def)
  also have "\<dots> \<longleftrightarrow> take n a = take n b"
    using assms by (auto simp: filter_empty_conv list_eq_iff_zip_eq [of "take n a" "take n b"])
  finally show ?thesis .
qed

lemma nodemask_equal_0: "wf_nodemask m1 \<Longrightarrow> wf_nodemask m2 \<Longrightarrow> nodemask_equal m1 m2 = 0 \<longleftrightarrow> m1 = m2"
  using memcmp_0_iff [of nodemask_size m1 m2] by (simp add: nodemask_equal_def wf_nodemask_def)

lemma nodemask_equal_refl: "nodemask_equal m m = 0"
  by (simp add: nodemask_equal_def memcmp_def filter_empty_conv zip_same_conv_map split: list.split)

definition node_bit :: "nodeid \<Rightarrow> nat" where
  "node_bit n = (if is_classic_node n then unat n - 1 else unat n)"

definition nodes_of :: "nodemask_t \<Rightarrow> nodeid set" where
  "nodes_of m = {n. nodemask_test_node n m \<noteq> 0}"

lemma nodemask_nodeid_is_invalid_iff:
  "nodemask_nodeid_is_invalid n \<longleftrightarrow> \<not> nodemask_nodeid_is_valid n"
  by (simp add: nodemask_nodeid_is_invalid_def nodemask_nodeid_is_valid_def)

lemma node_bit_bound:
  "nodemask_nodeid_is_valid n \<Longrightarrow> node_bit n div 8 < nodemask_size"
  by (auto simp: nodemask_nodeid_is_valid_def is_classic_node_def is_lr_node_def node_bit_def
      nodemask_size_def node_limits)

lemma node_bit_inj:
  assumes "nodemask_nodeid_is_valid n" and "nodemask_nodeid_is_valid k"
  shows "node_bit n = node_bit k \<longleftrightarrow> n = k"
proof -
  have "node_bit n = node_bit k \<longleftrightarrow> unat n = unat k"
    using assms
    by (auto simp: nodemask_nodeid_is_valid_def is_classic_node_def is_lr_node_def node_bit_def
        node_limits)
  then show ?thesis by (simp add: word_unat_eq_iff)
qed

lemma BIT8_TST_bit:
  "BIT8_TST b m = (if bit (m ! (b div 8)) (b mod 8) then 1 else 0)"
  by (simp add: BIT8_TST_def nat_drop_bit_3 nat_and_7 drop_bit_and_one)

lemma bit_BIT8_SET:
  assumes "b div 8 < length m" and "a div 8 < length m"
  shows "bit (BIT8_SET b m ! (a div 8)) (a mod 8) \<longleftrightarrow> a = b \<or> bit (m ! (a div 8)) (a mod 8)"
  using assms div_mod_8_eq_iff [of a b]
  by (auto simp: BIT8_SET_def nat_drop_bit_3 nat_and_7 nth_list_update_if set_bit_or)

lemma bit_BIT8_CLR:
  assumes "b div 8 < length m" and "a div 8 < length m"
  shows "bit (BIT8_CLR b m ! (a div 8)) (a mod 8) \<longleftrightarrow> a \<noteq> b \<and> bit (m ! (a div 8)) (a mod 8)"
  using assms div_mod_8_eq_iff [of a b]
  by (auto simp: BIT8_CLR_def nat_drop_bit_3 nat_and_7 nth_list_update_if clear_bit_and)

lemma length_BIT8 [simp]: "length (BIT8_SET b m) = length m" "length (BIT8_CLR b m) = length m"
  by (simp_all add: BIT8_SET_def BIT8_CLR_def)

lemma mem_nodes_of:
  "n \<in> nodes_of m \<longleftrightarrow> nodemask_nodeid_is_valid n \<and> bit (m ! (node_bit n div 8)) (node_bit n mod 8)"
  by (simp add: nodes_of_def nodemask_test_node_def nodemask_nodeid_is_invalid_iff node_bit_def
      BIT8_TST_bit)

lemma nodemask_add_node_alt:
  "nodemask_add_node n m =
     (if nodemask_nodeid_is_valid n then (1, BIT8_SET (node_bit n) m) else (0, m))"
  by (simp add: nodemask_add_node_def nodemask_nodeid_is_invalid_iff node_bit_def)

lemma nodemask_remove_node_alt:
  "nodemask_remove_node n m =
     (if nodemask_nodeid_is_valid n then (1, BIT8_CLR (node_bit n) m) else (0, m))"
  by (simp add: nodemask_remove_node_def nodemask_nodeid_is_invalid_iff node_bit_def)

section \<open>The operations are the set operations\<close>

lemma nodes_of_clear: "nodes_of nodemask_clear = {}"
  using node_bit_bound by (auto simp: mem_nodes_of nodemask_clear_def)

lemma wf_nodemask_clear: "wf_nodemask nodemask_clear"
  by (simp add: wf_nodemask_def nodemask_clear_def)

lemma wf_nodemask_add: "wf_nodemask m \<Longrightarrow> wf_nodemask (snd (nodemask_add_node n m))"
  by (simp add: wf_nodemask_def nodemask_add_node_alt)

lemma wf_nodemask_remove: "wf_nodemask m \<Longrightarrow> wf_nodemask (snd (nodemask_remove_node n m))"
  by (simp add: wf_nodemask_def nodemask_remove_node_alt)

lemma nodes_of_add:
  assumes "wf_nodemask m" and "nodemask_nodeid_is_valid n"
  shows "nodes_of (snd (nodemask_add_node n m)) = insert n (nodes_of m)"
  using assms node_bit_bound node_bit_inj
  by (auto simp: mem_nodes_of nodemask_add_node_alt wf_nodemask_def bit_BIT8_SET)

lemma nodes_of_remove:
  assumes "wf_nodemask m" and "nodemask_nodeid_is_valid n"
  shows "nodes_of (snd (nodemask_remove_node n m)) = nodes_of m - {n}"
  using assms node_bit_bound node_bit_inj
  by (auto simp: mem_nodes_of nodemask_remove_node_alt wf_nodemask_def bit_BIT8_CLR)

text \<open>
  C26.  Adding, removing and clearing node ids implement insertion, removal and the empty set
  on the set of node ids a mask stands for, for every valid node id and every mask of the
  array's size, and both operations report success and keep the size of the array.
\<close>

theorem nodemask_refines_set:
  assumes "wf_nodemask m" and "nodemask_nodeid_is_valid n"
  shows "nodes_of (snd (nodemask_add_node n m)) = insert n (nodes_of m)
    \<and> nodes_of (snd (nodemask_remove_node n m)) = nodes_of m - {n}
    \<and> nodes_of nodemask_clear = {}
    \<and> fst (nodemask_add_node n m) = 1 \<and> fst (nodemask_remove_node n m) = 1
    \<and> wf_nodemask (snd (nodemask_add_node n m)) \<and> wf_nodemask (snd (nodemask_remove_node n m))"
  using assms
  by (simp add: nodes_of_add nodes_of_remove nodes_of_clear wf_nodemask_add wf_nodemask_remove)
    (simp add: nodemask_add_node_alt nodemask_remove_node_alt)

theorem nodemask_refines_set_witness:
  "nodes_of (snd (nodemask_add_node 300 nodemask_clear)) = {300}"
proof -
  have v: "nodemask_nodeid_is_valid 300"
    by (simp add: nodemask_nodeid_is_valid_def is_classic_node_def is_lr_node_def node_limits)
  show ?thesis
    using nodemask_refines_set [OF wf_nodemask_clear v] by simp
qed

end
