(* ===== verification/Crc.thy ===== *)
theory Crc
  imports Zgw_Prelude
begin

text \<open>
  The two checksums of the gateway's own code: the CRC-16 of
  \<^verbatim>\<open>src/src/utls/zgw_crc.c\<close> (frame integrity) and the table-driven CRC-32 of
  \<^verbatim>\<open>src/src/crc32alg.c\<close> (duplicate detection in the node queue).  The CRC-16 is shown to be
  linear, to be computable in pieces and to detect every corruption of one byte; the
  CRC-32 table is shown to be the table of the bitwise algorithm the file's comment
  describes, so that the optimised routine computes the bitwise CRC.
\<close>

section \<open>CRC-16\<close>

definition CRC_POLY :: u16 where "CRC_POLY = 0x1021"
definition CRC_INIT_VALUE :: u16 where "CRC_INIT_VALUE = 0x1D0F"

text \<open>The body of the loop over \<^verbatim>\<open>bitmask\<close>.\<close>

definition crc16_step :: "u8 \<Rightarrow> u8 \<Rightarrow> u16 \<Rightarrow> u16" where
  "crc16_step crc_data bitmask crc16 =
     (let new_bit = ((crc_data AND bitmask \<noteq> 0) \<noteq> (crc16 AND 0x8000 \<noteq> 0));
          crc16 = push_bit 1 crc16
      in if new_bit then crc16 XOR CRC_POLY else crc16)"

text \<open>\<^verbatim>\<open>for (bitmask = 0x80; bitmask != 0; bitmask >>= 1)\<close>.\<close>

function crc16_bits :: "u8 \<Rightarrow> u8 \<Rightarrow> u16 \<Rightarrow> u16" where
  "crc16_bits crc_data bitmask crc16 =
     (if bitmask = 0 then crc16
      else crc16_bits crc_data (drop_bit 1 bitmask) (crc16_step crc_data bitmask crc16))"
  by pat_completeness auto
termination
proof (relation "measure (\<lambda>(d, m, c). unat m)")
  fix d m :: u8 and c :: u16
  assume "m \<noteq> 0"
  then have "0 < unat m" by (simp add: unat_gt_0)
  then show "((d, drop_bit 1 m, crc16_step d m c), (d, m, c)) \<in> measure (\<lambda>(d, m, c). unat m)"
    by (simp add: unat_drop_bit_eq drop_bit_Suc unat_div)
qed simp

declare crc16_bits.simps [simp del]

fun zgw_crc16 :: "u16 \<Rightarrow> bytes \<Rightarrow> u16" where
  "zgw_crc16 crc16 [] = crc16"
| "zgw_crc16 crc16 (b # data) = zgw_crc16 (crc16_bits b 0x80 crc16) data"

section \<open>CRC-32\<close>

definition crc32_tab :: "u32 list" where
  "crc32_tab = [
    0x00000000, 0x77073096, 0xee0e612c, 0x990951ba, 0x076dc419, 0x706af48f,
    0xe963a535, 0x9e6495a3, 0x0edb8832, 0x79dcb8a4, 0xe0d5e91e, 0x97d2d988,
    0x09b64c2b, 0x7eb17cbd, 0xe7b82d07, 0x90bf1d91, 0x1db71064, 0x6ab020f2,
    0xf3b97148, 0x84be41de, 0x1adad47d, 0x6ddde4eb, 0xf4d4b551, 0x83d385c7,
    0x136c9856, 0x646ba8c0, 0xfd62f97a, 0x8a65c9ec, 0x14015c4f, 0x63066cd9,
    0xfa0f3d63, 0x8d080df5, 0x3b6e20c8, 0x4c69105e, 0xd56041e4, 0xa2677172,
    0x3c03e4d1, 0x4b04d447, 0xd20d85fd, 0xa50ab56b, 0x35b5a8fa, 0x42b2986c,
    0xdbbbc9d6, 0xacbcf940, 0x32d86ce3, 0x45df5c75, 0xdcd60dcf, 0xabd13d59,
    0x26d930ac, 0x51de003a, 0xc8d75180, 0xbfd06116, 0x21b4f4b5, 0x56b3c423,
    0xcfba9599, 0xb8bda50f, 0x2802b89e, 0x5f058808, 0xc60cd9b2, 0xb10be924,
    0x2f6f7c87, 0x58684c11, 0xc1611dab, 0xb6662d3d, 0x76dc4190, 0x01db7106,
    0x98d220bc, 0xefd5102a, 0x71b18589, 0x06b6b51f, 0x9fbfe4a5, 0xe8b8d433,
    0x7807c9a2, 0x0f00f934, 0x9609a88e, 0xe10e9818, 0x7f6a0dbb, 0x086d3d2d,
    0x91646c97, 0xe6635c01, 0x6b6b51f4, 0x1c6c6162, 0x856530d8, 0xf262004e,
    0x6c0695ed, 0x1b01a57b, 0x8208f4c1, 0xf50fc457, 0x65b0d9c6, 0x12b7e950,
    0x8bbeb8ea, 0xfcb9887c, 0x62dd1ddf, 0x15da2d49, 0x8cd37cf3, 0xfbd44c65,
    0x4db26158, 0x3ab551ce, 0xa3bc0074, 0xd4bb30e2, 0x4adfa541, 0x3dd895d7,
    0xa4d1c46d, 0xd3d6f4fb, 0x4369e96a, 0x346ed9fc, 0xad678846, 0xda60b8d0,
    0x44042d73, 0x33031de5, 0xaa0a4c5f, 0xdd0d7cc9, 0x5005713c, 0x270241aa,
    0xbe0b1010, 0xc90c2086, 0x5768b525, 0x206f85b3, 0xb966d409, 0xce61e49f,
    0x5edef90e, 0x29d9c998, 0xb0d09822, 0xc7d7a8b4, 0x59b33d17, 0x2eb40d81,
    0xb7bd5c3b, 0xc0ba6cad, 0xedb88320, 0x9abfb3b6, 0x03b6e20c, 0x74b1d29a,
    0xead54739, 0x9dd277af, 0x04db2615, 0x73dc1683, 0xe3630b12, 0x94643b84,
    0x0d6d6a3e, 0x7a6a5aa8, 0xe40ecf0b, 0x9309ff9d, 0x0a00ae27, 0x7d079eb1,
    0xf00f9344, 0x8708a3d2, 0x1e01f268, 0x6906c2fe, 0xf762575d, 0x806567cb,
    0x196c3671, 0x6e6b06e7, 0xfed41b76, 0x89d32be0, 0x10da7a5a, 0x67dd4acc,
    0xf9b9df6f, 0x8ebeeff9, 0x17b7be43, 0x60b08ed5, 0xd6d6a3e8, 0xa1d1937e,
    0x38d8c2c4, 0x4fdff252, 0xd1bb67f1, 0xa6bc5767, 0x3fb506dd, 0x48b2364b,
    0xd80d2bda, 0xaf0a1b4c, 0x36034af6, 0x41047a60, 0xdf60efc3, 0xa867df55,
    0x316e8eef, 0x4669be79, 0xcb61b38c, 0xbc66831a, 0x256fd2a0, 0x5268e236,
    0xcc0c7795, 0xbb0b4703, 0x220216b9, 0x5505262f, 0xc5ba3bbe, 0xb2bd0b28,
    0x2bb45a92, 0x5cb36a04, 0xc2d7ffa7, 0xb5d0cf31, 0x2cd99e8b, 0x5bdeae1d,
    0x9b64c2b0, 0xec63f226, 0x756aa39c, 0x026d930a, 0x9c0906a9, 0xeb0e363f,
    0x72076785, 0x05005713, 0x95bf4a82, 0xe2b87a14, 0x7bb12bae, 0x0cb61b38,
    0x92d28e9b, 0xe5d5be0d, 0x7cdcefb7, 0x0bdbdf21, 0x86d3d2d4, 0xf1d4e242,
    0x68ddb3f8, 0x1fda836e, 0x81be16cd, 0xf6b9265b, 0x6fb077e1, 0x18b74777,
    0x88085ae6, 0xff0f6a70, 0x66063bca, 0x11010b5c, 0x8f659eff, 0xf862ae69,
    0x616bffd3, 0x166ccf45, 0xa00ae278, 0xd70dd2ee, 0x4e048354, 0x3903b3c2,
    0xa7672661, 0xd06016f7, 0x4969474d, 0x3e6e77db, 0xaed16a4a, 0xd9d65adc,
    0x40df0b66, 0x37d83bf0, 0xa9bcae53, 0xdebb9ec5, 0x47b2cf7f, 0x30b5ffe9,
    0xbdbdf21c, 0xcabac28a, 0x53b39330, 0x24b4a3a6, 0xbad03605, 0xcdd70693,
    0x54de5729, 0x23d967bf, 0xb3667a2e, 0xc4614ab8, 0x5d681b02, 0x2a6f2b94,
    0xb40bbe37, 0xc30c8ea1, 0x5a05df1b, 0x2d02ef8d]"

text \<open>One round of \<^verbatim>\<open>crc = crc32_tab[(crc ^ *p++) & 0xFF] ^ (crc >> 8)\<close>.\<close>

definition crc32_round :: "u32 \<Rightarrow> u8 \<Rightarrow> u32" where
  "crc32_round crc b = (crc32_tab ! unat ((crc XOR ucast b) AND 0xFF)) XOR drop_bit 8 crc"

definition crc32 :: "bytes \<Rightarrow> u32 \<Rightarrow> u32" where
  "crc32 buf crc = foldl crc32_round (crc XOR NOT 0) buf XOR NOT 0"

text \<open>
  The reference: the shift register of the file's comment, polynomial
  \<^verbatim>\<open>$edb88320\<close>, one bit at a time, shifting towards the right.
\<close>

definition crc32_shift :: "u32 \<Rightarrow> u32" where
  "crc32_shift c = (if bit c 0 then drop_bit 1 c XOR 0xEDB88320 else drop_bit 1 c)"

definition crc32_round_bitwise :: "u32 \<Rightarrow> u8 \<Rightarrow> u32" where
  "crc32_round_bitwise crc b = (crc32_shift ^^ 8) (crc XOR ucast b)"

definition crc32_bitwise :: "bytes \<Rightarrow> u32 \<Rightarrow> u32" where
  "crc32_bitwise buf crc = foldl crc32_round_bitwise (crc XOR NOT 0) buf XOR NOT 0"

section \<open>The CRC-16 as a linear shift register\<close>

text \<open>The same register, fed with the message bits as booleans, most significant first.\<close>

definition crc_shift_in :: "bool \<Rightarrow> u16 \<Rightarrow> u16" where
  "crc_shift_in b c = (if b \<noteq> bit c 15 then push_bit 1 c XOR CRC_POLY else push_bit 1 c)"

definition byte_bits :: "u8 \<Rightarrow> bool list" where
  "byte_bits d = map (\<lambda>i. bit d i) [7, 6, 5, 4, 3, 2, 1, 0]"

abbreviation crc_run :: "bool list \<Rightarrow> u16 \<Rightarrow> u16" where
  "crc_run bs c \<equiv> fold crc_shift_in bs c"

lemma and_power_eq_0_iff: "(w :: 'a::len word) AND 2 ^ n \<noteq> 0 \<longleftrightarrow> bit w n"
  by (simp add: bit_iff_and_push_bit_not_eq_0)

lemma and_mask_bits:
  "(d :: u8) AND 0x80 \<noteq> 0 \<longleftrightarrow> bit d 7" "d AND 0x40 \<noteq> 0 \<longleftrightarrow> bit d 6"
  "d AND 0x20 \<noteq> 0 \<longleftrightarrow> bit d 5" "d AND 0x10 \<noteq> 0 \<longleftrightarrow> bit d 4"
  "d AND 8 \<noteq> 0 \<longleftrightarrow> bit d 3" "d AND 4 \<noteq> 0 \<longleftrightarrow> bit d 2"
  "d AND 2 \<noteq> 0 \<longleftrightarrow> bit d 1" "d AND 1 \<noteq> 0 \<longleftrightarrow> bit d 0"
  "(c :: u16) AND 0x8000 \<noteq> 0 \<longleftrightarrow> bit c 15"
  using and_power_eq_0_iff [of d 7] and_power_eq_0_iff [of d 6] and_power_eq_0_iff [of d 5]
    and_power_eq_0_iff [of d 4] and_power_eq_0_iff [of d 3] and_power_eq_0_iff [of d 2]
    and_power_eq_0_iff [of d 1] and_power_eq_0_iff [of d 0] and_power_eq_0_iff [of c 15]
  by simp_all

lemma crc16_step_shift_in:
  "crc16_step d m c = crc_shift_in (d AND m \<noteq> 0) c"
  by (simp only: crc16_step_def crc_shift_in_def Let_def and_mask_bits)

lemma crc16_bits_run: "crc16_bits d 0x80 c = crc_run (byte_bits d) c"
  by (simp add: crc16_bits.simps crc16_step_shift_in byte_bits_def and_mask_bits [simplified])

lemma zgw_crc16_run: "zgw_crc16 c data = crc_run (concat (map byte_bits data)) c"
  by (induction data arbitrary: c) (simp_all add: crc16_bits_run)

lemma crc_shift_in_xor:
  "crc_shift_in b c XOR crc_shift_in b' c' = crc_shift_in (b \<noteq> b') (c XOR c')"
  by (rule bit_word_eqI) (auto simp: crc_shift_in_def bit_simps)

lemma crc_run_xor:
  assumes "length bs = length bs'"
  shows "crc_run bs c XOR crc_run bs' c' = crc_run (map2 (\<noteq>) bs bs') (c XOR c')"
  using assms
  by (induction bs bs' arbitrary: c c' rule: list_induct2) (simp_all add: crc_shift_in_xor)

section \<open>Error detection\<close>

lemma bit_CRC_POLY_0: "bit CRC_POLY 0"
  by (simp add: CRC_POLY_def)

text \<open>The lowest bit of the register is the bit that was fed back.\<close>

lemma bit_double_word:
  "bit (c * 2 :: 'a::len word) n \<longleftrightarrow> 0 < n \<and> n < LENGTH('a) \<and> bit c (n - 1)"
  using bit_push_bit_iff [of 1 c n] by (auto simp: Suc_le_eq)

lemma bit_crc_shift_in_0: "bit (crc_shift_in b c) 0 \<longleftrightarrow> b \<noteq> bit c 15"
  by (simp add: crc_shift_in_def bit_CRC_POLY_0 bit_double_word bit_xor_iff)

lemma crc_shift_in_no_feedback:
  "\<not> bit (crc_shift_in b c) 0 \<Longrightarrow> crc_shift_in b c = push_bit 1 c \<and> b = bit c 15"
  unfolding bit_crc_shift_in_0 by (simp add: crc_shift_in_def)

lemma crc_shift_in_eq_0:
  assumes "crc_shift_in False c = 0"
  shows "c = 0"
proof (rule bit_word_eqI)
  fix n assume "n < LENGTH(16)"
  moreover have "push_bit 1 c = 0" "\<not> bit c 15"
    using assms crc_shift_in_no_feedback [of False c] by auto
  then have "\<not> bit (push_bit 1 c) (Suc n)" by simp
  ultimately show "bit c n \<longleftrightarrow> bit 0 n"
    using \<open>\<not> bit c 15\<close> by (cases "n = 15") (auto simp: bit_double_word)
qed

lemma crc_run_zeros_eq_0: "crc_run (replicate n False) c = 0 \<Longrightarrow> c = 0"
  by (induction n arbitrary: c) (auto dest: crc_shift_in_eq_0)

text \<open>
  A register whose low \<open>k\<close> bits are clear after at most \<open>k\<close> steps has had no feedback in any
  of them: the steps were plain shifts.
\<close>

lemma crc_run_low_clear:
  assumes "\<forall>i < k. \<not> bit (crc_run bs c) i" and "length bs \<le> k" and "k \<le> 16"
  shows "crc_run bs c = push_bit (length bs) c \<and>
    (\<forall>i < length bs. bs ! i = bit (push_bit i c) 15)"
  using assms
proof (induction bs arbitrary: k rule: rev_induct)
  case Nil
  then show ?case by simp
next
  case (snoc b bs)
  let ?c = "crc_run bs c"
  have nf: "crc_shift_in b ?c = push_bit 1 ?c" "b = bit ?c 15"
    using snoc.prems crc_shift_in_no_feedback [of b ?c] by auto
  have "\<forall>i < k - 1. \<not> bit ?c i"
  proof (intro allI impI)
    fix i assume "i < k - 1"
    then have "\<not> bit (?c * 2) (Suc i)"
      using snoc.prems nf by auto
    with \<open>i < k - 1\<close> snoc.prems show "\<not> bit ?c i" by (auto simp: bit_double_word)
  qed
  then have IH: "?c = push_bit (length bs) c" "\<forall>i < length bs. bs ! i = bit (push_bit i c) 15"
    using snoc.IH [of "k - 1"] snoc.prems by auto
  then show ?case
    using nf by (auto simp: nth_append less_Suc_eq push_bit_push_bit)
qed

lemma crc_run_short_eq_0:
  assumes "crc_run bs 0 = 0" and "length bs \<le> 16"
  shows "bs = replicate (length bs) False"
  using crc_run_low_clear [of 16 bs 0] assms by (auto intro!: nth_equalityI)

lemma map2_neq_False_iff:
  "length bs = length bs' \<Longrightarrow>
     map2 (\<noteq>) bs bs' = replicate (length bs) False \<longleftrightarrow> bs = bs'"
  by (induction bs bs' rule: list_induct2) auto

lemma byte_bits_inject: "byte_bits d = byte_bits e \<longleftrightarrow> d = e"
proof
  assume "byte_bits d = byte_bits e"
  then have "\<forall>n < 8. bit d n = bit e n"
    by (simp add: byte_bits_def eval_nat_numeral less_Suc_eq)
  then show "d = e" by (auto intro: bit_word_eqI)
qed simp

lemma length_byte_bits [simp]: "length (byte_bits d) = 8"
  by (simp add: byte_bits_def)

lemma crc_run_inject:
  assumes "crc_run bs c = crc_run bs c'"
  shows "c = c'"
proof -
  have "crc_run (replicate (length bs) False) (c XOR c') = 0"
    using assms crc_run_xor [of bs bs c c'] map2_neq_False_iff [of bs bs] by simp
  then have "c XOR c' = 0" by (rule crc_run_zeros_eq_0)
  then show ?thesis by (simp add: word_xor_eq_0_iff)
qed

lemma crc_run_short_inject:
  assumes "crc_run bs c = crc_run bs' c" and "length bs = length bs'" and "length bs \<le> 16"
  shows "bs = bs'"
proof -
  have "crc_run (map2 (\<noteq>) bs bs') 0 = 0"
    using assms crc_run_xor [of bs bs' c c] by simp
  then show ?thesis
    using crc_run_short_eq_0 [of "map2 (\<noteq>) bs bs'"] assms map2_neq_False_iff [of bs bs'] by simp
qed

lemma zgw_crc16_two_bytes_inject:
  assumes "zgw_crc16 c (pre @ [a, b] @ post) = zgw_crc16 c (pre @ [a', b'] @ post)"
  shows "a = a' \<and> b = b'"
proof -
  have "crc_run (byte_bits a @ byte_bits b) (zgw_crc16 c pre)
      = crc_run (byte_bits a' @ byte_bits b') (zgw_crc16 c pre)"
    using assms by (auto simp: zgw_crc16_run dest: crc_run_inject)
  then have "byte_bits a @ byte_bits b = byte_bits a' @ byte_bits b'"
    by (rule crc_run_short_inject) simp_all
  then show ?thesis by (simp add: byte_bits_inject)
qed

text \<open>
  The CRC-16 detects every corruption of two adjacent bytes: two messages that agree
  except in two neighbouring bytes have the same checksum only when those bytes agree too.
\<close>

theorem zgw_crc16_detects_two_bytes:
  assumes "zgw_crc16 c (pre @ [a, b] @ post) = zgw_crc16 c (pre @ [a', b'] @ post)"
  shows "a = a' \<and> b = b'"
  using assms by (rule zgw_crc16_two_bytes_inject)

theorem zgw_crc16_detects_two_bytes_witness:
  "zgw_crc16 CRC_INIT_VALUE ([1] @ [2, 3] @ [4]) \<noteq> zgw_crc16 CRC_INIT_VALUE ([1] @ [3, 3] @ [4])"
  using zgw_crc16_detects_two_bytes [of CRC_INIT_VALUE "[1]" 2 3 "[4]" 3 3] by auto

text \<open>
  The CRC-16 can be computed in pieces (the checksum of a prefix is the initial value
  for the rest) and is linear: the checksums of two messages of the same length differ by
  the checksum, from a zero register, of the bytewise difference of the messages.
\<close>

theorem zgw_crc16_linear:
  "zgw_crc16 c (xs @ ys) = zgw_crc16 (zgw_crc16 c xs) ys
   \<and> zgw_crc16 c (map fst ds) XOR zgw_crc16 c (map snd ds)
     = zgw_crc16 0 (map (\<lambda>(a, b). a XOR b) ds)"
proof
  have "map2 (\<noteq>) (byte_bits a) (byte_bits b) = byte_bits (a XOR b)" for a b
    by (simp add: byte_bits_def bit_xor_iff)
  then have "map2 (\<noteq>) (concat (map byte_bits (map fst ds))) (concat (map byte_bits (map snd ds)))
      = concat (map byte_bits (map (\<lambda>(a, b). a XOR b) ds))"
    by (induction ds) (auto simp: zip_append)
  moreover have "length (concat (map byte_bits (map fst ds)))
      = length (concat (map byte_bits (map snd ds)))"
    by (induction ds) auto
  ultimately show "zgw_crc16 c (map fst ds) XOR zgw_crc16 c (map snd ds)
     = zgw_crc16 0 (map (\<lambda>(a, b). a XOR b) ds)"
    by (simp only: zgw_crc16_run crc_run_xor) simp
qed (simp add: zgw_crc16_run)

section \<open>The CRC-32 table\<close>

text \<open>
  The table of a linear function doubles: the second half is the first half combined with
  the value at the new bit.  This evaluates 256 entries with 255 exclusive-ors.
\<close>

definition doubled_table :: "u32 list \<Rightarrow> u32 list" where
  "doubled_table basis = foldl (\<lambda>t v. t @ map (\<lambda>x. x XOR v) t) [0] basis"

definition crc32_linear :: "(u32 \<Rightarrow> u32) \<Rightarrow> bool" where
  "crc32_linear f \<longleftrightarrow> (\<forall>a b. f (a XOR b) = f a XOR f b)"

lemma crc32_linear_shift: "crc32_linear crc32_shift"
  unfolding crc32_linear_def
  by (intro allI, rule bit_word_eqI) (auto simp: crc32_shift_def bit_simps)

lemma crc32_linear_funpow: "crc32_linear f \<Longrightarrow> crc32_linear (f ^^ n)"
  by (induction n) (auto simp: crc32_linear_def)

lemma crc32_linear_0: "crc32_linear f \<Longrightarrow> f 0 = 0"
  unfolding crc32_linear_def by (metis xor_self_eq)

lemma of_nat_add_power_xor:
  assumes "i < 2 ^ n"
  shows "(of_nat (2 ^ n + i) :: u32) = of_nat i XOR 2 ^ n"
proof -
  have "\<not> bit i k \<or> k < n" for k
    using assms by (metis bit_take_bit_iff take_bit_nat_eq_self)
  then have "i AND 2 ^ n = 0"
    by (metis and_exp_eq_0_iff_not_bit less_irrefl)
  then have "i XOR 2 ^ n = 2 ^ n + i"
    by (simp add: disjunctive_add_eq_xor [symmetric])
  then show ?thesis
    by (metis of_nat_xor_eq of_nat_power of_nat_numeral)
qed

lemma doubled_table_eq:
  assumes "crc32_linear f"
  shows "doubled_table (map (\<lambda>k. f (2 ^ k)) [0..<n]) = map (\<lambda>i. f (of_nat i)) [0..<2 ^ n]"
proof (induction n)
  case 0
  then show ?case using assms by (simp add: doubled_table_def crc32_linear_0)
next
  case (Suc n)
  have "map (\<lambda>i. f (of_nat i)) [2 ^ n..<2 ^ Suc n]
      = map (\<lambda>i. f (of_nat i) XOR f (2 ^ n)) [0..<2 ^ n]"
    using assms
    by (intro nth_equalityI)
      (simp_all add: crc32_linear_def of_nat_add_power_xor del: of_nat_add)
  moreover have "[0..<2 ^ Suc n] = [0..<2 ^ n] @ [2 ^ n..<2 ^ Suc n :: nat]"
    using upt_add_eq_append [of 0 "2 ^ n" "2 ^ n"] by (simp add: mult_2)
  ultimately show ?case
    using Suc by (simp add: doubled_table_def o_def)
qed

lemma funpow_8: "(f ^^ 8) x = f (f (f (f (f (f (f (f x)))))))"
  by (simp add: numeral_eq_Suc)

lemma crc32_basis:
  "map (\<lambda>k. (crc32_shift ^^ 8) (2 ^ k)) [0..<8] =
     [0x77073096, 0xee0e612c, 0x076dc419, 0x0edb8832, 0x1db71064, 0x3b6e20c8, 0x76dc4190,
      0xedb88320]"
  by (simp add: funpow_8 crc32_shift_def upt_rec)

lemma crc32_tab_doubled:
  "doubled_table [0x77073096, 0xee0e612c, 0x076dc419, 0x0edb8832, 0x1db71064, 0x3b6e20c8,
     0x76dc4190, 0xedb88320] = crc32_tab"
  by (simp add: doubled_table_def crc32_tab_def)

lemma crc32_tab_bitwise: "crc32_tab = map (\<lambda>i. (crc32_shift ^^ 8) (of_nat i)) [0..<256]"
  using doubled_table_eq [OF crc32_linear_funpow [OF crc32_linear_shift], of 8 8]
  by (simp only: crc32_basis crc32_tab_doubled) simp

text \<open>A register splits into its low byte, which the table replaces, and the rest, which shifts.\<close>

lemma crc32_shift_drop:
  "crc32_linear f \<Longrightarrow> f (a XOR b) = f a XOR f b"
  by (simp add: crc32_linear_def)

lemma crc32_shift_even: "\<not> bit c 0 \<Longrightarrow> crc32_shift c = drop_bit 1 c"
  by (simp add: crc32_shift_def)

lemma crc32_shifts_high:
  "\<forall>i < n. \<not> bit c i \<Longrightarrow> (crc32_shift ^^ n) c = drop_bit n c"
proof (induction n)
  case 0
  then show ?case by simp
next
  case (Suc n)
  then have "(crc32_shift ^^ n) c = drop_bit n c" by simp
  moreover have "\<not> bit (drop_bit n c) 0"
    using Suc.prems by (simp add: bit_drop_bit_eq)
  ultimately show ?case by (simp add: crc32_shift_even)
qed

lemma crc32_round_eq_bitwise: "crc32_round crc b = crc32_round_bitwise crc b"
proof -
  let ?w = "crc XOR ucast b"
  let ?lo = "?w AND 0xFF"
  have mask: "(0xFF :: u32) = mask 8"
    by (simp add: mask_eq_exp_minus_1)
  have lo: "?lo = take_bit 8 ?w"
    by (simp add: mask take_bit_eq_mask)
  have "unat ?lo < 256"
    using unat_and_le [of ?w "0xFF"] by simp
  then have tab: "crc32_tab ! unat ?lo = (crc32_shift ^^ 8) ?lo"
    by (simp add: crc32_tab_bitwise)
  have split: "?w = ?lo XOR push_bit 8 (drop_bit 8 crc)"
    by (rule bit_word_eqI) (auto simp: lo bit_simps dest: bit_u8_bound)
  have high: "(crc32_shift ^^ 8) (push_bit 8 (drop_bit 8 crc)) = drop_bit 8 crc"
    by (subst crc32_shifts_high)
      (auto simp: bit_simps intro!: bit_word_eqI dest!: bit_imp_le_length [of crc])
  have "(crc32_shift ^^ 8) ?w = (crc32_shift ^^ 8) ?lo XOR drop_bit 8 crc"
    using crc32_shift_drop [OF crc32_linear_funpow [OF crc32_linear_shift], of 8 ?lo
        "push_bit 8 (drop_bit 8 crc)"] split high by simp
  then show ?thesis
    by (simp add: crc32_round_def crc32_round_bitwise_def tab)
qed

text \<open>
  C29.  The table-driven CRC-32 computes, for every buffer and every start value, the bitwise
  shift-register CRC for the polynomial the file documents.
\<close>

theorem crc32_table_correct: "crc32 buf crc = crc32_bitwise buf crc"
proof -
  have "crc32_round = crc32_round_bitwise"
    by (intro ext) (rule crc32_round_eq_bitwise)
  then show ?thesis by (simp add: crc32_def crc32_bitwise_def)
qed

end
