(* ===== verification/Mcast_Group.thy ===== *)
theory Mcast_Group
  imports Nodemask
begin

text \<open>
  The multicast group manager, \<^verbatim>\<open>src/src/multicast_group_manager.c\<close>: a fixed table of groups,
  each with a node mask, threaded by a circular doubly linked list in order of last use.
  A request for a node mask returns the group that needs the fewest added nodes, or a free
  group, or recycles the least recently used one.

  The table is a list of records and group ids are natural numbers, \<open>1\<close> to the table size;
  \<^verbatim>\<open>MCAST_MAX_GROUPS\<close> (10 or 254, depending on the build) is the length of the list.  The
  invariant bounds every stored id by the table size, so the source's \<^verbatim>\<open>uint8_t\<close> ids never
  wrap.  The abstraction is the list of ids from most to least recently used.
\<close>

section \<open>The model\<close>

definition MCAST_DIST_INF :: nat where "MCAST_DIST_INF = 0xFFFF"

record mcast_group =
  g_in_use :: nat
  g_prev :: nat
  g_next :: nat
  g_nlist :: nodemask_t

record mcast_state =
  mcast_groups_list :: "mcast_group list"
  mcast_group_use_age_head :: nat

definition mcast_get_entry :: "mcast_state \<Rightarrow> nat \<Rightarrow> mcast_group" where
  "mcast_get_entry st gid = mcast_groups_list st ! (gid - 1)"

text \<open>Assignments through \<^verbatim>\<open>mcast_get_entry(id).field = v\<close>.\<close>

definition mcast_upd :: "nat \<Rightarrow> (mcast_group \<Rightarrow> mcast_group) \<Rightarrow> mcast_state \<Rightarrow> mcast_state" where
  "mcast_upd gid f st =
     st\<lparr>mcast_groups_list := (mcast_groups_list st)[gid - 1 := f (mcast_get_entry st gid)]\<rparr>"

definition mcast_group_use_age_get_oldest :: "mcast_state \<Rightarrow> nat" where
  "mcast_group_use_age_get_oldest st = g_prev (mcast_get_entry st (mcast_group_use_age_head st))"

definition mcast_group_use_age_element_remove :: "nat \<Rightarrow> mcast_state \<Rightarrow> mcast_state" where
  "mcast_group_use_age_element_remove group_id st =
     (let nxt = g_next (mcast_get_entry st group_id);
          prv = g_prev (mcast_get_entry st group_id);
          st = mcast_upd prv (g_next_update (\<lambda>_. nxt)) st
      in mcast_upd nxt (g_prev_update (\<lambda>_. prv)) st)"

definition mcast_group_use_age_element_insert_head :: "nat \<Rightarrow> mcast_state \<Rightarrow> mcast_state" where
  "mcast_group_use_age_element_insert_head group_id st =
     (let head = mcast_group_use_age_head st;
          tail = g_prev (mcast_get_entry st head);
          st = mcast_upd group_id (g_next_update (\<lambda>_. head)) st;
          st = mcast_upd group_id (g_prev_update (\<lambda>_. tail)) st;
          st = mcast_upd head (g_prev_update (\<lambda>_. group_id)) st;
          st = mcast_upd tail (g_next_update (\<lambda>_. group_id)) st
      in st\<lparr>mcast_group_use_age_head := group_id\<rparr>)"

definition mcast_group_use_age_element_insert_new :: "nat \<Rightarrow> mcast_state \<Rightarrow> mcast_state" where
  "mcast_group_use_age_element_insert_new group_id st =
     (if mcast_group_use_age_head st = 0
      then (let st = mcast_upd group_id (g_prev_update (\<lambda>_. group_id)) st;
                st = mcast_upd group_id (g_next_update (\<lambda>_. group_id)) st
            in st\<lparr>mcast_group_use_age_head := group_id\<rparr>)
      else mcast_group_use_age_element_insert_head group_id st)"

text \<open>
  The source asserts that the list is not empty; \<open>mcast_inv\<close> below shows that the assertion
  holds at every call.
\<close>

definition mcast_group_use_age_update :: "nat \<Rightarrow> mcast_state \<Rightarrow> mcast_state" where
  "mcast_group_use_age_update group_id st =
     (if group_id = mcast_group_use_age_head st then st
      else mcast_group_use_age_element_insert_head group_id
             (mcast_group_use_age_element_remove group_id st))"

definition mcast_group_get_nodemask_by_id :: "mcast_state \<Rightarrow> nat \<Rightarrow> nodemask_t option" where
  "mcast_group_get_nodemask_by_id st group_id =
     (if group_id = 0 \<or> length (mcast_groups_list st) < group_id then None
      else if g_in_use (mcast_get_entry st group_id) = 1
      then Some (g_nlist (mcast_get_entry st group_id))
      else None)"

text \<open>\<^verbatim>\<open>while (tmp > 0) { tmp &= tmp-1; dist++; }\<close>\<close>

function kernighan_count :: "u8 \<Rightarrow> nat \<Rightarrow> nat" where
  "kernighan_count tmp dist =
     (if 0 < tmp then kernighan_count (tmp AND (tmp - 1)) (dist + 1) else dist)"
  by pat_completeness auto
termination
proof (relation "measure (\<lambda>(tmp, dist). unat tmp)")
  fix tmp :: u8 and dist :: nat
  assume "0 < tmp"
  then have "unat (tmp - 1) < unat tmp"
    by (simp add: unat_minus_one word_greater_zero_iff unat_gt_0)
  then show "((tmp AND (tmp - 1), dist + 1), (tmp, dist)) \<in> measure (\<lambda>(tmp, dist). unat tmp)"
    using unat_and_le [of tmp "tmp - 1"] by simp
qed simp

declare kernighan_count.simps [simp del]

definition mcast_byte_distance :: "u8 \<Rightarrow> u8 \<Rightarrow> nat" where
  "mcast_byte_distance old new =
     (if old = new then 0
      else if old AND NOT new \<noteq> 0 then MCAST_DIST_INF
      else kernighan_count (old XOR new) 0)"

text \<open>The loop over the bytes of the two masks, with its early return.\<close>

fun mcast_distance_from :: "nat \<Rightarrow> bytes \<Rightarrow> bytes \<Rightarrow> nat" where
  "mcast_distance_from dist (a # old_group) (b # new_group) =
     (let byte_dist = mcast_byte_distance a b
      in if byte_dist = MCAST_DIST_INF then MCAST_DIST_INF
         else mcast_distance_from (dist + byte_dist) old_group new_group)"
| "mcast_distance_from dist _ _ = dist"

definition mcast_nodemask_distance :: "nodemask_t \<Rightarrow> nodemask_t \<Rightarrow> nat" where
  "mcast_nodemask_distance old_group new_group =
     mcast_distance_from 0 (take nodemask_size old_group) (take nodemask_size new_group)"

text \<open>
  The loop of \<open>mcast_group_get_id_by_nodemask\<close>, on the groups from index \<open>ii\<close> on, with its
  three accumulators.
\<close>

fun mcast_scan ::
  "nodemask_t \<Rightarrow> nat \<Rightarrow> mcast_group list \<Rightarrow> nat \<times> nat \<times> nat \<Rightarrow> nat \<times> nat \<times> nat" where
  "mcast_scan nodemask ii [] acc = acc"
| "mcast_scan nodemask ii (g # gs) (candidate, first_unused, lowest_dist) =
     mcast_scan nodemask (ii + 1) gs
       (if g_in_use g \<noteq> 0
        then (let tmp = mcast_nodemask_distance (g_nlist g) nodemask
              in if tmp < lowest_dist then (ii + 1, first_unused, tmp)
                 else (candidate, first_unused, lowest_dist))
        else (candidate, if first_unused = 0 then ii + 1 else first_unused, lowest_dist))"

definition mcast_group_get_id_by_nodemask ::
  "nodemask_t \<Rightarrow> mcast_state \<Rightarrow> nat \<times> mcast_state" where
  "mcast_group_get_id_by_nodemask nodemask st =
     (if nodemask_equal nodemask nodemask_clear = 0 then (0, st)
      else
        (case mcast_scan nodemask 0 (mcast_groups_list st) (0, 0, 0xFF) of
           (candidate, first_unused, lowest_dist) \<Rightarrow>
             if candidate \<noteq> 0 then
               (let st = (if lowest_dist \<noteq> 0
                          then mcast_upd candidate (g_nlist_update (\<lambda>_. nodemask)) st else st)
                in (candidate, mcast_group_use_age_update candidate st))
             else if first_unused = 0 then
               (let oldest = mcast_group_use_age_get_oldest st;
                    st = mcast_group_use_age_update oldest st
                in (oldest, mcast_upd oldest (g_nlist_update (\<lambda>_. nodemask)) st))
             else
               (let st = mcast_upd first_unused (g_in_use_update (\<lambda>_. 1)) st;
                    st = mcast_group_use_age_element_insert_new first_unused st
                in (first_unused, mcast_upd first_unused (g_nlist_update (\<lambda>_. nodemask)) st))))"

definition mcast_group_empty :: mcast_group where
  "mcast_group_empty = \<lparr>g_in_use = 0, g_prev = 0, g_next = 0, g_nlist = nodemask_clear\<rparr>"

definition mcast_group_init :: "nat \<Rightarrow> mcast_state" where
  "mcast_group_init max_groups =
     \<lparr>mcast_groups_list = replicate max_groups mcast_group_empty, mcast_group_use_age_head = 0\<rparr>"

section \<open>Counting bits\<close>

lemma bits_nat_Suc: "{i. bit (n :: nat) i} = (if odd n then {0} else {}) \<union> Suc ` {i. bit (n div 2) i}"
  by (auto simp: bit_0 bit_Suc image_iff) (metis bit_0 bit_Suc not0_implies_Suc)+

lemma finite_bits_nat [simp]: "finite {i. bit (n :: nat) i}"
proof (induction n rule: less_induct)
  case (less n)
  show ?case
  proof (cases "n = 0")
    case False
    then have "finite {i. bit (n div 2) i}" using less by simp
    then show ?thesis by (subst bits_nat_Suc) simp
  qed simp
qed

lemma card_bits_nat: "card {i. bit (n :: nat) i} = n mod 2 + card {i. bit (n div 2) i}"
proof -
  have "card (Suc ` {i. bit (n div 2) i}) = card {i. bit (n div 2) i}"
    by (rule card_image) simp
  then show ?thesis
    by (subst bits_nat_Suc) (auto simp: card_insert_if odd_iff_mod_2_eq_one)
qed

lemma card_bits_clear_lowest:
  "0 < n \<Longrightarrow> Suc (card {i. bit ((n :: nat) AND (n - 1)) i}) = card {i. bit n i}"
proof (induction n rule: less_induct)
  case (less n)
  show ?case
  proof (cases "even n")
    case True
    with less.prems obtain m where m: "n = 2 * m" "0 < m" by (auto elim!: evenE)
    have "n AND (n - 1) = 2 * (m AND (m - 1))"
    proof -
      have "(n - 1) div 2 = m - 1" using m by simp
      then show ?thesis using m by (subst and_nat_rec) simp
    qed
    then show ?thesis
      using less.IH [of m] m card_bits_nat [of n] card_bits_nat [of "n AND (n - 1)"] by simp
  next
    case False
    then obtain m where m: "n = 2 * m + 1" by (auto elim!: oddE)
    have "n AND (n - 1) = 2 * m"
      using m by (simp add: and_nat_rec)
    then show ?thesis
      using m card_bits_nat [of n] card_bits_nat [of "2 * m"] by simp
  qed
qed


lemma bits_word_unat: "{i. bit (unat w) i} = {i. bit (w :: u8) i}"
  by (auto simp: bit_unsigned_iff)

lemma kernighan_count_card: "kernighan_count tmp dist = dist + card {i. bit tmp i}"
proof (induction tmp dist rule: kernighan_count.induct)
  case (1 tmp dist)
  show ?case
  proof (cases "0 < tmp")
    case True
    then have pos: "0 < unat tmp" by (simp add: word_greater_zero_iff unat_gt_0)
    have "unat (tmp AND (tmp - 1)) = unat tmp AND (unat tmp - 1)"
      using True by (simp add: unsigned_and_eq unat_minus_one word_greater_zero_iff)
    then have "Suc (card {i. bit (tmp AND (tmp - 1)) i}) = card {i. bit tmp i}"
      using card_bits_clear_lowest [OF pos] bits_word_unat [of tmp]
        bits_word_unat [of "tmp AND (tmp - 1)"] by simp
    then show ?thesis using 1 True by (simp add: kernighan_count.simps [of tmp dist])
  next
    case False
    then have "tmp = 0" by (simp add: word_greater_zero_iff)
    then show ?thesis by (simp add: kernighan_count.simps)
  qed
qed

section \<open>The distance between two masks\<close>

text \<open>The bits set in a mask, as pairs of a byte index and a bit index.\<close>

definition mask_bits :: "bytes \<Rightarrow> (nat \<times> nat) set" where
  "mask_bits m = {(i, b). i < length m \<and> bit (m ! i) b}"

lemma finite_bits_u8 [simp]: "finite {b. bit (w :: u8) b}"
  by (rule finite_subset [of _ "{..<8}"]) auto

lemma card_bits_u8: "card {b. bit (w :: u8) b} \<le> 8"
  using card_mono [of "{..<8}" "{b. bit w b}"] by auto

lemma byte_subset_iff: "old AND NOT new = 0 \<longleftrightarrow> {b. bit (old :: u8) b} \<subseteq> {b. bit new b}"
  by (auto simp: bit_eq_iff bit_simps)

lemma mcast_byte_distance_eq:
  "mcast_byte_distance old new =
     (if {b. bit old b} \<subseteq> {b. bit new b}
      then card ({b. bit new b} - {b. bit old b}) else MCAST_DIST_INF)"
proof -
  have "{b. bit old b} \<subseteq> {b. bit new b} \<Longrightarrow>
      {b. bit (old XOR new) b} = {b. bit new b} - {b. bit old b}"
    by (auto simp: bit_xor_iff)
  then show ?thesis
    by (auto simp: mcast_byte_distance_def kernighan_count_card byte_subset_iff)
qed

lemma mcast_byte_distance_finite:
  "mcast_byte_distance old new \<noteq> MCAST_DIST_INF \<longleftrightarrow> {b. bit old b} \<subseteq> {b. bit new b}"
proof -
  have "card ({b. bit new b} - {b. bit old b}) \<le> 8"
    using card_mono [of "{b. bit new b}" "{b. bit new b} - {b. bit old b}"] card_bits_u8 [of new]
    by auto
  then show ?thesis by (auto simp: mcast_byte_distance_eq MCAST_DIST_INF_def)
qed

lemma mask_bits_Cons:
  "mask_bits (a # m) = Pair 0 ` {b. bit a b} \<union> (\<lambda>(i, b). (Suc i, b)) ` mask_bits m"
  by (auto simp: mask_bits_def less_Suc_eq_0_disj image_iff split: prod.splits)

lemma finite_mask_bits [simp]: "finite (mask_bits m)"
  by (induction m) (simp_all add: mask_bits_Cons, simp add: mask_bits_def)

lemma mask_bits_Cons_subset:
  "mask_bits (a # m) \<subseteq> mask_bits (b # n) \<longleftrightarrow>
     {i. bit a i} \<subseteq> {i. bit b i} \<and> mask_bits m \<subseteq> mask_bits n"
  by (auto simp: mask_bits_Cons)

lemma card_mask_bits_Cons_diff:
  "card (mask_bits (b # n) - mask_bits (a # m)) =
     card ({i. bit b i} - {i. bit a i}) + card (mask_bits n - mask_bits m)"
proof -
  let ?s = "\<lambda>(i :: nat, b :: nat). (Suc i, b)"
  have "mask_bits (b # n) - mask_bits (a # m) =
      Pair 0 ` ({i. bit b i} - {i. bit a i}) \<union> ?s ` (mask_bits n - mask_bits m)"
    by (auto simp: mask_bits_Cons)
  moreover have "Pair 0 ` ({i. bit b i} - {i. bit a i}) \<inter> ?s ` (mask_bits n - mask_bits m) = {}"
    by auto
  moreover have "card (Pair (0 :: nat) ` ({i. bit b i} - {i. bit a i}))
      = card ({i. bit b i} - {i. bit a i})"
    by (rule card_image) (simp add: inj_on_def)
  moreover have "card (?s ` (mask_bits n - mask_bits m)) = card (mask_bits n - mask_bits m)"
    by (rule card_image) (auto simp: inj_on_def)
  ultimately show ?thesis by (simp add: card_Un_disjoint)
qed

lemma mcast_distance_from_eq:
  "length old = length new \<Longrightarrow> mcast_distance_from dist old new =
     (if mask_bits old \<subseteq> mask_bits new
      then dist + card (mask_bits new - mask_bits old) else MCAST_DIST_INF)"
proof (induction old new arbitrary: dist rule: list_induct2)
  case Nil
  then show ?case by (simp add: mask_bits_def)
next
  case (Cons a old b new)
  show ?case
    using mcast_byte_distance_finite [of a b] mcast_byte_distance_eq [of a b]
    by (auto simp: Let_def Cons.IH mask_bits_Cons_subset card_mask_bits_Cons_diff)
qed

lemma mcast_nodemask_distance_eq:
  assumes "wf_nodemask old" and "wf_nodemask new"
  shows "mcast_nodemask_distance old new =
    (if mask_bits old \<subseteq> mask_bits new
     then card (mask_bits new - mask_bits old) else MCAST_DIST_INF)"
  using assms by (simp add: mcast_nodemask_distance_def mcast_distance_from_eq wf_nodemask_def)

section \<open>Circular lists\<close>

text \<open>\<open>path f a xs b\<close>: following \<open>f\<close> from \<open>a\<close> visits the elements of \<open>xs\<close> and arrives at \<open>b\<close>.\<close>

fun path :: "(nat \<Rightarrow> nat) \<Rightarrow> nat \<Rightarrow> nat list \<Rightarrow> nat \<Rightarrow> bool" where
  "path f a [] b \<longleftrightarrow> f a = b"
| "path f a (x # xs) b \<longleftrightarrow> f a = x \<and> path f x xs b"

lemma path_append: "path f a (xs @ c # ys) b \<longleftrightarrow> path f a xs c \<and> path f c ys b"
  by (induction xs arbitrary: a) auto

lemma path_upd_other: "c \<notin> set (a # xs) \<Longrightarrow> path (f(c := d)) a xs b \<longleftrightarrow> path f a xs b"
  by (induction xs arbitrary: a) auto

lemma path_hd: "path f a xs b \<Longrightarrow> f a = hd (xs @ [b])"
  by (cases xs) auto

text \<open>Redirecting the last link of a path changes its end only.\<close>

lemma path_redirect:
  "path f a xs b \<Longrightarrow> distinct (a # xs) \<Longrightarrow> path (f(last (a # xs) := c)) a xs c"
proof (induction xs arbitrary: a)
  case (Cons x xs)
  then show ?case by (auto simp: path_upd_other split: if_splits)
qed simp

text \<open>Bypassing an element of a path.\<close>

lemma path_bypass:
  assumes "path f a (xs @ x # ys) b" and "distinct (a # xs @ x # ys)"
  shows "path (f(last (a # xs) := f x)) a (xs @ ys) b"
proof -
  have px: "path f a xs x" and py: "path f x ys b"
    using assms(1) by (auto simp: path_append)
  have red: "path (f(last (a # xs) := f x)) a xs (f x)"
    using px assms(2) by (intro path_redirect) auto
  show ?thesis
  proof (cases ys)
    case Nil
    then show ?thesis using red py by simp
  next
    case (Cons y zs)
    have "last (a # xs) \<in> set (a # xs)" by (rule last_in_set) simp
    then have "last (a # xs) \<notin> set (y # zs)"
      using assms(2) Cons by (auto simp del: last.simps)
    moreover have "f x = y" and "path f y zs b" using py Cons by auto
    ultimately show ?thesis
      using red Cons by (simp add: path_append path_upd_other del: last.simps)
  qed
qed

definition ring :: "(nat \<Rightarrow> nat) \<Rightarrow> (nat \<Rightarrow> nat) \<Rightarrow> nat list \<Rightarrow> bool" where
  "ring nx pv xs \<longleftrightarrow>
     (case xs of [] \<Rightarrow> True | h # ys \<Rightarrow> path nx h ys h \<and> path pv h (rev ys) h)"

lemma ring_prev_hd: "ring nx pv (h # ys) \<Longrightarrow> pv h = last (h # ys)"
  using path_hd [of pv h "rev ys" h] by (cases ys rule: rev_cases) (auto simp: ring_def)

lemma hd_append_last: "hd (ys @ [h]) = last (h # rev ys)"
  by (cases ys) simp_all

lemma ring_remove:
  assumes "ring nx pv (h # xs @ x # ys)" and "distinct (h # xs @ x # ys)"
  shows "ring (nx(pv x := nx x)) (pv(nx x := pv x)) (h # xs @ ys)"
proof -
  have n: "path nx h (xs @ x # ys) h" and p: "path pv h (rev ys @ x # rev xs) h"
    using assms(1) by (auto simp: ring_def)
  have nx: "nx x = last (h # rev ys)" and pv: "pv x = last (h # xs)"
    using n p path_hd [of nx x ys h] path_hd [of pv x "rev xs" h]
    by (auto simp: path_append hd_append_last)
  have "path (nx(last (h # xs) := nx x)) h (xs @ ys) h"
    using n assms(2) by (rule path_bypass)
  moreover have "path (pv(last (h # rev ys) := pv x)) h (rev ys @ rev xs) h"
    using p by (rule path_bypass) (use assms(2) in auto)
  ultimately show ?thesis
    unfolding ring_def nx pv by simp
qed

lemma ring_insert:
  assumes "ring nx pv (h # ys)" and "distinct (h # ys)" and "g \<notin> set (h # ys)"
  shows "ring (nx(g := h, pv h := g)) (pv(g := pv h, h := g)) (g # h # ys)"
proof -
  have t: "pv h = last (h # ys)" using ring_prev_hd assms(1) by blast
  have tg: "pv h \<noteq> g" unfolding t using assms(3) last_in_set [of "h # ys"] by auto
  have "path (nx(g := h)) h ys h"
    using assms by (simp add: ring_def path_upd_other)
  then have "path (nx(g := h, pv h := g)) h ys g"
    unfolding t using assms(2) by (rule path_redirect)
  moreover have "path (pv(g := pv h, h := g)) g (rev ys @ [h]) g"
  proof (cases "rev ys")
    case Nil
    then show ?thesis using t by (simp split: if_splits)
  next
    case (Cons z zs)
    have "path pv z zs h" and "pv h = z"
      using assms(1) Cons by (auto simp: ring_def)
    moreover have "g \<notin> set (z # zs)" and "h \<notin> set (z # zs)"
      using assms(2,3) Cons by (metis Un_iff distinct.simps(2) list.set_intros(2) set_rev)+
    ultimately show ?thesis
      using Cons assms(3) by (auto simp: path_append path_upd_other)
  qed
  ultimately show ?thesis
    using tg by (simp add: ring_def)
qed

section \<open>The use-age list\<close>

definition nx_of :: "mcast_state \<Rightarrow> nat \<Rightarrow> nat" where
  "nx_of st i = (if i = 0 then 0 else g_next (mcast_get_entry st i))"

definition pv_of :: "mcast_state \<Rightarrow> nat \<Rightarrow> nat" where
  "pv_of st i = (if i = 0 then 0 else g_prev (mcast_get_entry st i))"

definition mask_of :: "mcast_state \<Rightarrow> nat \<Rightarrow> nodemask_t" where
  "mask_of st i = g_nlist (mcast_get_entry st i)"

abbreviation n_groups :: "mcast_state \<Rightarrow> nat" where
  "n_groups st \<equiv> length (mcast_groups_list st)"

definition use_age_repr :: "mcast_state \<Rightarrow> nat list \<Rightarrow> bool" where
  "use_age_repr st xs \<longleftrightarrow>
     distinct xs \<and> set xs \<subseteq> {1..n_groups st}
     \<and> mcast_group_use_age_head st = (case xs of [] \<Rightarrow> 0 | h # _ \<Rightarrow> h)
     \<and> ring (nx_of st) (pv_of st) xs"

text \<open>What an assignment changes, field by field.\<close>

lemma mcast_get_entry_upd:
  "0 < i \<Longrightarrow> i \<le> n_groups st \<Longrightarrow> 0 < j \<Longrightarrow>
     mcast_get_entry (mcast_upd i f st) j =
       (if i = j then f (mcast_get_entry st j) else mcast_get_entry st j)"
  by (auto simp: mcast_get_entry_def mcast_upd_def nth_list_update)

lemma mcast_upd_frame [simp]:
  "n_groups (mcast_upd i f st) = n_groups st"
  "mcast_group_use_age_head (mcast_upd i f st) = mcast_group_use_age_head st"
  by (simp_all add: mcast_upd_def)

lemma mcast_head_upd [simp]:
  "mcast_get_entry (st\<lparr>mcast_group_use_age_head := h\<rparr>) i = mcast_get_entry st i"
  by (simp add: mcast_get_entry_def)

lemma mcast_get_entry_nx: "0 < i \<Longrightarrow> g_next (mcast_get_entry st i) = nx_of st i"
  by (simp add: nx_of_def)

lemma mcast_get_entry_pv: "0 < i \<Longrightarrow> g_prev (mcast_get_entry st i) = pv_of st i"
  by (simp add: pv_of_def)

lemma links_upd_next:
  assumes "0 < i" and "i \<le> n_groups st"
  shows "nx_of (mcast_upd i (g_next_update (\<lambda>_. v)) st) = (nx_of st)(i := v)"
    and "pv_of (mcast_upd i (g_next_update (\<lambda>_. v)) st) = pv_of st"
  using assms by (auto simp: fun_eq_iff nx_of_def pv_of_def mcast_get_entry_upd)

lemma links_upd_prev:
  assumes "0 < i" and "i \<le> n_groups st"
  shows "nx_of (mcast_upd i (g_prev_update (\<lambda>_. v)) st) = nx_of st"
    and "pv_of (mcast_upd i (g_prev_update (\<lambda>_. v)) st) = (pv_of st)(i := v)"
  using assms by (auto simp: fun_eq_iff nx_of_def pv_of_def mcast_get_entry_upd)

lemma links_upd_other:
  assumes "0 < i" and "i \<le> n_groups st"
  shows "nx_of (mcast_upd i (g_nlist_update f) st) = nx_of st"
    and "pv_of (mcast_upd i (g_nlist_update f) st) = pv_of st"
    and "nx_of (mcast_upd i (g_in_use_update h) st) = nx_of st"
    and "pv_of (mcast_upd i (g_in_use_update h) st) = pv_of st"
  using assms by (auto simp: fun_eq_iff nx_of_def pv_of_def mcast_get_entry_upd)

lemma links_head_upd [simp]:
  "nx_of (st\<lparr>mcast_group_use_age_head := h\<rparr>) = nx_of st"
  "pv_of (st\<lparr>mcast_group_use_age_head := h\<rparr>) = pv_of st"
  by (simp_all add: fun_eq_iff nx_of_def pv_of_def)

lemmas links_upd = links_upd_next links_upd_prev links_upd_other

lemma use_age_repr_cong:
  "n_groups st' = n_groups st \<Longrightarrow>
   mcast_group_use_age_head st' = mcast_group_use_age_head st \<Longrightarrow>
   nx_of st' = nx_of st \<Longrightarrow> pv_of st' = pv_of st \<Longrightarrow> use_age_repr st' xs = use_age_repr st xs"
  by (simp add: use_age_repr_def)

text \<open>In a ring of valid ids, both neighbours of a member are valid ids.\<close>

lemma path_target_mem: "path f a xs b \<Longrightarrow> x \<in> set (a # xs) \<Longrightarrow> f x \<in> set (b # xs)"
  by (induction xs arbitrary: a) auto

lemma ring_neighbours:
  "ring nx pv xs \<Longrightarrow> x \<in> set xs \<Longrightarrow> nx x \<in> set xs \<and> pv x \<in> set xs"
  using path_target_mem [of nx "hd xs" "tl xs" "hd xs" x]
    path_target_mem [of pv "hd xs" "rev (tl xs)" "hd xs" x]
  by (cases xs) (auto simp: ring_def)

lemma use_age_repr_neighbours:
  assumes "use_age_repr st xs" and "x \<in> set xs"
  shows "0 < x" "x \<le> n_groups st" "0 < nx_of st x" "nx_of st x \<le> n_groups st"
    "0 < pv_of st x" "pv_of st x \<le> n_groups st"
  using assms ring_neighbours [of "nx_of st" "pv_of st" xs x]
  by (auto simp: use_age_repr_def subset_iff Suc_le_eq)

lemma use_age_remove_links:
  assumes "use_age_repr st xs" and "x \<in> set xs"
  defines "st' \<equiv> mcast_group_use_age_element_remove x st"
  shows "nx_of st' = (nx_of st)(pv_of st x := nx_of st x)"
    and "pv_of st' = (pv_of st)(nx_of st x := pv_of st x)"
    and "n_groups st' = n_groups st"
    and "mcast_group_use_age_head st' = mcast_group_use_age_head st"
  using use_age_repr_neighbours [OF assms(1,2)]
  by (simp_all add: st'_def mcast_group_use_age_element_remove_def Let_def links_upd
      mcast_get_entry_nx mcast_get_entry_pv)

lemma use_age_repr_remove:
  assumes "use_age_repr st (h # xs @ x # ys)"
  shows "use_age_repr (mcast_group_use_age_element_remove x st) (h # xs @ ys)"
  using assms use_age_remove_links [OF assms, of x]
    ring_remove [of "nx_of st" "pv_of st" h xs x ys]
  by (auto simp: use_age_repr_def)

lemma use_age_repr_insert_head:
  assumes "use_age_repr st (h # ys)" and "g \<notin> set (h # ys)" and "0 < g" and "g \<le> n_groups st"
  shows "use_age_repr (mcast_group_use_age_element_insert_head g st) (g # h # ys)"
proof -
  have head: "mcast_group_use_age_head st = h" using assms(1) by (simp add: use_age_repr_def)
  note b = use_age_repr_neighbours [OF assms(1), of h, simplified]
  have "ring ((nx_of st)(g := h, pv_of st h := g)) ((pv_of st)(g := pv_of st h, h := g)) (g # h # ys)"
    using assms by (intro ring_insert) (auto simp: use_age_repr_def)
  then show ?thesis
    using assms b
    by (simp add: use_age_repr_def mcast_group_use_age_element_insert_head_def Let_def head
        links_upd mcast_get_entry_pv Suc_le_eq)
qed

lemma use_age_repr_insert_new:
  assumes "use_age_repr st xs" and "g \<notin> set xs" and "0 < g" and "g \<le> n_groups st"
  shows "use_age_repr (mcast_group_use_age_element_insert_new g st) (g # xs)"
proof (cases xs)
  case Nil
  then show ?thesis
    using assms
    by (simp add: use_age_repr_def mcast_group_use_age_element_insert_new_def Let_def links_upd
        ring_def Suc_le_eq)
next
  case (Cons h ys)
  then have "mcast_group_use_age_head st = h" "0 < h"
    using assms(1) by (auto simp: use_age_repr_def)
  then show ?thesis
    using assms Cons use_age_repr_insert_head [of st h ys g]
    by (simp add: mcast_group_use_age_element_insert_new_def)
qed

lemma use_age_repr_update:
  assumes "use_age_repr st xs" and "g \<in> set xs"
  shows "use_age_repr (mcast_group_use_age_update g st) (g # remove1 g xs)"
proof -
  obtain h zs where xs: "xs = h # zs" using assms(2) by (cases xs) auto
  then have head: "mcast_group_use_age_head st = h" using assms(1) by (simp add: use_age_repr_def)
  show ?thesis
  proof (cases "g = h")
    case True
    then show ?thesis using assms(1) xs head by (simp add: mcast_group_use_age_update_def)
  next
    case False
    then obtain as bs where zs: "zs = as @ g # bs"
      using assms(2) xs by (auto dest: split_list)
    let ?st = "mcast_group_use_age_element_remove g st"
    have d: "g \<notin> set (h # as @ bs)"
      using assms(1) xs zs by (auto simp: use_age_repr_def)
    have "use_age_repr ?st (h # as @ bs)"
      using assms(1) xs zs by (auto intro: use_age_repr_remove)
    moreover have "n_groups ?st = n_groups st"
      using use_age_remove_links(3) [OF assms] .
    ultimately have "use_age_repr (mcast_group_use_age_element_insert_head g ?st) (g # h # as @ bs)"
      using use_age_repr_insert_head d use_age_repr_neighbours(1,2) [OF assms] by auto
    then show ?thesis
      using False head xs zs d by (simp add: mcast_group_use_age_update_def remove1_append)
  qed
qed

lemma use_age_repr_oldest:
  assumes "use_age_repr st xs" and "xs \<noteq> []"
  shows "mcast_group_use_age_get_oldest st = last xs"
proof -
  obtain h ys where xs: "xs = h # ys" using assms(2) by (cases xs) auto
  then have "mcast_group_use_age_head st = h" "0 < h" "ring (nx_of st) (pv_of st) (h # ys)"
    using assms(1) by (auto simp: use_age_repr_def)
  then show ?thesis
    using ring_prev_hd xs by (simp add: mcast_group_use_age_get_oldest_def mcast_get_entry_pv)
qed

text \<open>
  What the rest of the manager needs of the use-age list: a representation as a list of
  distinct ids that a use moves to the front, a new id extends at the front, and whose last
  element is reported as the oldest.
\<close>

locale recency_list =
  fixes repr :: "'s \<Rightarrow> nat list \<Rightarrow> bool"
    and valid :: "'s \<Rightarrow> nat \<Rightarrow> bool"
    and touch :: "nat \<Rightarrow> 's \<Rightarrow> 's"
    and insert_new :: "nat \<Rightarrow> 's \<Rightarrow> 's"
    and oldest :: "'s \<Rightarrow> nat"
  assumes repr_distinct: "repr s xs \<Longrightarrow> distinct xs"
    and repr_touch: "repr s xs \<Longrightarrow> g \<in> set xs \<Longrightarrow> repr (touch g s) (g # remove1 g xs)"
    and repr_insert_new: "repr s xs \<Longrightarrow> g \<notin> set xs \<Longrightarrow> valid s g \<Longrightarrow> repr (insert_new g s) (g # xs)"
    and oldest_last: "repr s xs \<Longrightarrow> xs \<noteq> [] \<Longrightarrow> oldest s = last xs"
begin

lemma repr_recycle:
  assumes "repr s xs" and "xs \<noteq> []"
  shows "repr (touch (oldest s) s) (last xs # butlast xs)"
proof -
  obtain ys y where xs: "xs = ys @ [y]" using assms(2) by (cases xs rule: rev_cases) auto
  then have "remove1 y xs = ys" using repr_distinct [OF assms(1)] by (simp add: remove1_append)
  then show ?thesis
    using repr_touch [OF assms(1), of y] oldest_last [OF assms] xs by simp
qed

text \<open>
  Using ids one after the other brings them to the front in reverse order and leaves the
  unused ones behind them in their old order, so the oldest id is never one of those just
  used as long as another one is left.
\<close>

lemma repr_touch_all:
  assumes "repr s xs" and "set gs \<subseteq> set xs"
  shows "\<exists>ys. repr (fold touch gs s) ys \<and> set ys = set xs
    \<and> filter (\<lambda>x. x \<notin> set gs) ys = filter (\<lambda>x. x \<notin> set gs) xs
    \<and> (\<forall>x \<in> set xs - set gs. \<exists>us vs. ys = us @ vs \<and> set gs \<subseteq> set us \<and> x \<in> set vs)"
  using assms
proof (induction gs arbitrary: s xs rule: rev_induct)
  case Nil
  then show ?case
    by (intro exI [of _ xs]) (simp, metis append_Nil)
next
  case (snoc g gs)
  have "set gs \<subseteq> set xs" using snoc.prems by simp
  from snoc.IH [OF snoc.prems(1) this] obtain ys where ys: "repr (fold touch gs s) ys" "set ys = set xs"
      "filter (\<lambda>x. x \<notin> set gs) ys = filter (\<lambda>x. x \<notin> set gs) xs"
      "\<forall>x \<in> set xs - set gs. \<exists>us vs. ys = us @ vs \<and> set gs \<subseteq> set us \<and> x \<in> set vs"
    by blast
  have g: "g \<in> set ys" using snoc.prems ys by simp
  let ?zs = "g # remove1 g ys"
  have d: "distinct ys" using ys(1) by (rule repr_distinct)
  have "repr (fold touch (gs @ [g]) s) ?zs" using repr_touch [OF ys(1) g] by simp
  moreover have "set ?zs = set xs" using g d ys(2) by auto
  moreover have "filter (\<lambda>x. x \<notin> set (gs @ [g])) ?zs = filter (\<lambda>x. x \<notin> set (gs @ [g])) xs"
  proof -
    have "filter (\<lambda>x. x \<notin> set (gs @ [g])) ?zs = filter (\<lambda>x. x \<noteq> g) (filter (\<lambda>x. x \<notin> set gs) ys)"
      using d by (simp add: distinct_remove1_removeAll removeAll_filter_not_eq conj_commute)
        (metis (mono_tags, lifting))
    then show ?thesis using ys(3) by (simp add: conj_commute)
  qed
  moreover have "\<exists>us vs. ?zs = us @ vs \<and> set (gs @ [g]) \<subseteq> set us \<and> x \<in> set vs"
    if "x \<in> set xs - set (gs @ [g])" for x
  proof -
    have "x \<in> set xs - set gs" using that by simp
    then obtain us vs where uv: "ys = us @ vs" "set gs \<subseteq> set us" "x \<in> set vs"
      using ys(4) by blast
    have "?zs = (g # removeAll g us) @ removeAll g vs"
      using d uv(1) by (simp add: distinct_remove1_removeAll)
    moreover have "set (gs @ [g]) \<subseteq> set (g # removeAll g us)" "x \<in> set (removeAll g vs)"
      using uv that by auto
    ultimately show ?thesis by blast
  qed
  ultimately show ?case by blast
qed

end

interpretation use_age: recency_list use_age_repr "\<lambda>st g. 0 < g \<and> g \<le> n_groups st"
  mcast_group_use_age_update mcast_group_use_age_element_insert_new mcast_group_use_age_get_oldest
  by unfold_locales
    (auto simp: use_age_repr_update use_age_repr_insert_new use_age_repr_oldest,
      simp add: use_age_repr_def)

section \<open>The choice of a group\<close>

definition scan_ok :: "nodemask_t \<Rightarrow> mcast_group list \<Rightarrow> nat \<times> nat \<times> nat \<Rightarrow> bool" where
  "scan_ok m gs acc = (case acc of (c, u, l) \<Rightarrow>
     c \<le> length gs \<and> u \<le> length gs
     \<and> (if c = 0 then l = 0xFF
        else g_in_use (gs ! (c - 1)) \<noteq> 0 \<and> l = mcast_nodemask_distance (g_nlist (gs ! (c - 1))) m
          \<and> l < 0xFF)
     \<and> (\<forall>i < length gs. g_in_use (gs ! i) \<noteq> 0 \<longrightarrow> l \<le> mcast_nodemask_distance (g_nlist (gs ! i)) m)
     \<and> (if u = 0 then \<forall>i < length gs. g_in_use (gs ! i) \<noteq> 0
        else g_in_use (gs ! (u - 1)) = 0 \<and> (\<forall>i < u - 1. g_in_use (gs ! i) \<noteq> 0)))"

lemma scan_ok_step:
  assumes "scan_ok m pre (c, u, l)"
  shows "scan_ok m (pre @ [g])
    (if g_in_use g \<noteq> 0
     then (let tmp = mcast_nodemask_distance (g_nlist g) m
           in if tmp < l then (length pre + 1, u, tmp) else (c, u, l))
     else (c, if u = 0 then length pre + 1 else u, l))"
proof -
  have "\<forall>i < length pre. g_in_use (pre ! i) \<noteq> 0 \<longrightarrow>
      mcast_nodemask_distance (g_nlist g) m < l \<longrightarrow>
      mcast_nodemask_distance (g_nlist g) m \<le> mcast_nodemask_distance (g_nlist (pre ! i)) m"
    using assms unfolding scan_ok_def by (auto intro: less_imp_le order_trans)
  then show ?thesis
    using assms by (auto simp: scan_ok_def Let_def nth_append less_Suc_eq split: if_splits)
qed

lemma mcast_scan_ok:
  "scan_ok m pre acc \<Longrightarrow> scan_ok m (pre @ gs) (mcast_scan m (length pre) gs acc)"
proof (induction gs arbitrary: pre acc)
  case (Cons g gs)
  obtain c u l where acc: "acc = (c, u, l)" by (cases acc)
  show ?case
    using Cons.IH [OF scan_ok_step [OF Cons.prems [unfolded acc], of g]]
    by (simp add: acc)
qed simp

lemma mcast_scan_init: "scan_ok m gs (mcast_scan m 0 gs (0, 0, 0xFF))"
  using mcast_scan_ok [of m "[]" "(0, 0, 0xFF)" gs] by (simp add: scan_ok_def)

section \<open>The invariant of the manager\<close>

definition mcast_inv :: "mcast_state \<Rightarrow> nat list \<Rightarrow> bool" where
  "mcast_inv st xs \<longleftrightarrow>
     use_age_repr st xs \<and> 0 < n_groups st \<and> n_groups st \<le> 254
     \<and> (\<forall>i. 0 < i \<and> i \<le> n_groups st \<longrightarrow>
          g_in_use (mcast_get_entry st i) = (if i \<in> set xs then 1 else 0)
          \<and> wf_nodemask (mask_of st i))"

lemma mcast_inv_init: "0 < n \<Longrightarrow> n \<le> 254 \<Longrightarrow> mcast_inv (mcast_group_init n) []"
  by (auto simp: mcast_inv_def use_age_repr_def mcast_group_init_def ring_def mask_of_def
      mcast_get_entry_def mcast_group_empty_def wf_nodemask_clear)

text \<open>The link operations change no other field.\<close>

lemma use_age_frame:
  assumes "use_age_repr st xs" and "g \<in> set xs" and "0 < i"
  shows "g_in_use (mcast_get_entry (mcast_group_use_age_update g st) i)
      = g_in_use (mcast_get_entry st i)"
    and "mask_of (mcast_group_use_age_update g st) i = mask_of st i"
    and "n_groups (mcast_group_use_age_update g st) = n_groups st"
proof -
  let ?st = "mcast_group_use_age_element_remove g st"
  note b = use_age_repr_neighbours [OF assms(1,2)]
  note l = use_age_remove_links [OF assms(1,2)]
  have rem: "g_in_use (mcast_get_entry ?st i) = g_in_use (mcast_get_entry st i)
      \<and> mask_of ?st i = mask_of st i"
    using b assms(3)
    by (auto simp: mcast_group_use_age_element_remove_def Let_def mask_of_def mcast_get_entry_upd
        mcast_get_entry_nx mcast_get_entry_pv)
  obtain h zs where xs: "xs = h # zs" using assms(2) by (cases xs) auto
  then have head: "mcast_group_use_age_head st = h" "0 < h" "h \<le> n_groups st"
    using assms(1) by (auto simp: use_age_repr_def)
  have "g_in_use (mcast_get_entry (mcast_group_use_age_update g st) i)
        = g_in_use (mcast_get_entry st i)
      \<and> mask_of (mcast_group_use_age_update g st) i = mask_of st i
      \<and> n_groups (mcast_group_use_age_update g st) = n_groups st"
  proof (cases "g = h")
    case True
    then show ?thesis using head by (simp add: mcast_group_use_age_update_def)
  next
    case False
    then obtain as bs where zs: "zs = as @ g # bs" using assms(2) xs by (auto dest: split_list)
    then have "use_age_repr ?st (h # as @ bs)"
      using assms(1) xs by (auto intro: use_age_repr_remove)
    note t = use_age_repr_neighbours [OF this, of h, simplified]
    show ?thesis
      using False head b t rem l assms(3)
      by (auto simp: mcast_group_use_age_update_def mcast_group_use_age_element_insert_head_def
          Let_def mask_of_def mcast_get_entry_upd mcast_get_entry_pv)
  qed
  then show "g_in_use (mcast_get_entry (mcast_group_use_age_update g st) i)
      = g_in_use (mcast_get_entry st i)"
    and "mask_of (mcast_group_use_age_update g st) i = mask_of st i"
    and "n_groups (mcast_group_use_age_update g st) = n_groups st"
    by auto
qed

lemma use_age_insert_frame:
  assumes "use_age_repr st xs" and "g \<notin> set xs" and "0 < g" and "g \<le> n_groups st" and "0 < i"
  shows "g_in_use (mcast_get_entry (mcast_group_use_age_element_insert_new g st) i)
      = g_in_use (mcast_get_entry st i)"
    and "mask_of (mcast_group_use_age_element_insert_new g st) i = mask_of st i"
    and "n_groups (mcast_group_use_age_element_insert_new g st) = n_groups st"
proof -
  have "0 < mcast_group_use_age_head st \<Longrightarrow> mcast_group_use_age_head st \<in> set xs"
    using assms(1) by (auto simp: use_age_repr_def split: list.splits)
  note b = use_age_repr_neighbours [OF assms(1) this]
  show "g_in_use (mcast_get_entry (mcast_group_use_age_element_insert_new g st) i)
      = g_in_use (mcast_get_entry st i)"
    and "mask_of (mcast_group_use_age_element_insert_new g st) i = mask_of st i"
    and "n_groups (mcast_group_use_age_element_insert_new g st) = n_groups st"
    using assms b
    by (auto simp: mcast_group_use_age_element_insert_new_def
        mcast_group_use_age_element_insert_head_def Let_def mask_of_def mcast_get_entry_upd
        mcast_get_entry_pv)
qed

section \<open>A request\<close>

text \<open>
  A group can be extended to a mask when it is a subset of it and fewer than 255 bits have
  to be added (the start value of \<^verbatim>\<open>lowest_dist\<close>).
\<close>

definition extension_cost :: "nodemask_t \<Rightarrow> nodemask_t \<Rightarrow> nat" where
  "extension_cost old new = card (mask_bits new - mask_bits old)"

definition extendable :: "nodemask_t \<Rightarrow> nodemask_t \<Rightarrow> bool" where
  "extendable old new \<longleftrightarrow> mask_bits old \<subseteq> mask_bits new \<and> extension_cost old new < 255"

lemma distance_lt_iff:
  assumes "wf_nodemask old" and "wf_nodemask new"
  shows "mcast_nodemask_distance old new < 255 \<longleftrightarrow> extendable old new"
    and "extendable old new \<Longrightarrow> mcast_nodemask_distance old new = extension_cost old new"
  using assms
  by (auto simp: mcast_nodemask_distance_eq extendable_def extension_cost_def MCAST_DIST_INF_def)

lemma wf_mask_distance_0:
  assumes "wf_nodemask old" and "wf_nodemask new" and "mcast_nodemask_distance old new = 0"
  shows "old = new"
proof -
  have "extendable old new" "extension_cost old new = 0"
    using distance_lt_iff [OF assms(1,2)] assms(3) by auto
  then have "mask_bits old = mask_bits new"
    by (auto simp: extendable_def extension_cost_def)
  then have "bit (old ! i) b = bit (new ! i) b" if "i < nodemask_size" for i b
    using that assms(1,2) by (auto simp: mask_bits_def wf_nodemask_def set_eq_iff)
  then show ?thesis
    using assms(1,2) by (auto simp: wf_nodemask_def intro!: nth_equalityI bit_word_eqI)
qed

definition mcast_outcome ::
  "nodemask_t \<Rightarrow> mcast_state \<Rightarrow> nat list \<Rightarrow> nat \<Rightarrow> mcast_state \<Rightarrow> nat list \<Rightarrow> bool" where
  "mcast_outcome m st xs g st' xs' \<longleftrightarrow>
     mcast_inv st' xs' \<and> n_groups st' = n_groups st \<and> hd xs' = g \<and> 0 < g \<and> g \<le> n_groups st
     \<and> mask_of st' g = m
     \<and> (\<forall>k. 0 < k \<and> k \<le> n_groups st \<and> k \<noteq> g \<longrightarrow> mask_of st' k = mask_of st k)
     \<and> (if \<exists>k \<in> set xs. extendable (mask_of st k) m
        then g \<in> set xs \<and> extendable (mask_of st g) m \<and> xs' = g # remove1 g xs
          \<and> (\<forall>k \<in> set xs. extendable (mask_of st k) m \<longrightarrow>
               extension_cost (mask_of st g) m \<le> extension_cost (mask_of st k) m)
        else if length xs < n_groups st
        then g \<notin> set xs \<and> (\<forall>k. 0 < k \<and> k < g \<longrightarrow> k \<in> set xs) \<and> xs' = g # xs
        else g = last xs \<and> xs' = g # butlast xs)"

lemma mcast_inv_set_mask:
  assumes "mcast_inv st xs" and "wf_nodemask m" and "0 < g" and "g \<le> n_groups st"
  shows "mcast_inv (mcast_upd g (g_nlist_update (\<lambda>_. m)) st) xs"
    and "0 < k \<Longrightarrow> mask_of (mcast_upd g (g_nlist_update (\<lambda>_. m)) st) k
      = (if k = g then m else mask_of st k)"
proof -
  let ?st = "mcast_upd g (g_nlist_update (\<lambda>_. m)) st"
  have "use_age_repr ?st xs"
    using assms by (simp add: mcast_inv_def use_age_repr_def links_upd)
  then show "mcast_inv ?st xs"
    using assms by (auto simp: mcast_inv_def mcast_get_entry_upd mask_of_def)
  show "0 < k \<Longrightarrow> mask_of ?st k = (if k = g then m else mask_of st k)"
    using assms by (auto simp: mcast_get_entry_upd mask_of_def)
qed

lemma mcast_inv_touch:
  assumes "mcast_inv st xs" and "g \<in> set xs"
  shows "mcast_inv (mcast_group_use_age_update g st) (g # remove1 g xs)"
proof -
  have r: "use_age_repr st xs" using assms(1) by (simp add: mcast_inv_def)
  have "set (g # remove1 g xs) = set xs"
    using assms(2) use_age.repr_distinct [OF r] by auto
  then show ?thesis
    using use_age.repr_touch [OF r assms(2)] assms(1) use_age_frame(1,2) [OF r assms(2)]
      use_age_frame(3) [OF r assms(2), of 1]
    by (simp add: mcast_inv_def)
qed

lemma mcast_inv_add:
  assumes "mcast_inv st xs" and "g \<notin> set xs" and "0 < g" and "g \<le> n_groups st"
  defines "st1 \<equiv> mcast_upd g (g_in_use_update (\<lambda>_. 1)) st"
  shows "mcast_inv (mcast_group_use_age_element_insert_new g st1) (g # xs)"
    and "0 < k \<Longrightarrow> mask_of (mcast_group_use_age_element_insert_new g st1) k = mask_of st k"
    and "n_groups (mcast_group_use_age_element_insert_new g st1) = n_groups st"
proof -
  have r: "use_age_repr st1 xs"
    using assms(1,3,4) by (simp add: st1_def mcast_inv_def use_age_repr_def links_upd)
  note f = use_age_insert_frame [OF r assms(2,3)]
  show "0 < k \<Longrightarrow> mask_of (mcast_group_use_age_element_insert_new g st1) k = mask_of st k"
    and n: "n_groups (mcast_group_use_age_element_insert_new g st1) = n_groups st"
    using f [of k] f(3) [of 1] assms(3,4) by (auto simp: st1_def mcast_get_entry_upd mask_of_def)
  show "mcast_inv (mcast_group_use_age_element_insert_new g st1) (g # xs)"
    using assms f(1,2) n use_age.repr_insert_new [OF r assms(2)]
    by (auto simp: mcast_inv_def st1_def mcast_get_entry_upd mask_of_def)
qed

text \<open>The three branches of a request, each from what the scan reports.\<close>

lemma mcast_outcome_candidate:
  assumes "mcast_inv st xs" and "wf_nodemask m" and "c \<in> set xs" and "extendable (mask_of st c) m"
    and "\<forall>k \<in> set xs. extendable (mask_of st k) m \<longrightarrow>
      extension_cost (mask_of st c) m \<le> extension_cost (mask_of st k) m"
    and "l = mcast_nodemask_distance (mask_of st c) m"
  defines "st1 \<equiv> (if l \<noteq> 0 then mcast_upd c (g_nlist_update (\<lambda>_. m)) st else st)"
  shows "mcast_outcome m st xs c (mcast_group_use_age_update c st1) (c # remove1 c xs)"
proof -
  have r: "use_age_repr st xs" using assms(1) by (simp add: mcast_inv_def)
  note c = use_age_repr_neighbours(1,2) [OF r assms(3)]
  have wf: "wf_nodemask (mask_of st c)" using assms(1) c by (simp add: mcast_inv_def)
  have inv1: "mcast_inv st1 xs" and n1: "n_groups st1 = n_groups st"
    and mask1: "0 < k \<Longrightarrow> mask_of st1 k = (if k = c then m else mask_of st k)" for k
    using assms(1,2,6) c mcast_inv_set_mask [OF assms(1,2) c]
      wf_mask_distance_0 [OF wf assms(2)] by (auto simp: st1_def)
  have r1: "use_age_repr st1 xs" using inv1 by (simp add: mcast_inv_def)
  show ?thesis
    using mcast_inv_touch [OF inv1 assms(3)] use_age_frame(2) [OF r1 assms(3)]
      use_age_frame(3) [OF r1 assms(3), of 1] n1 mask1 c assms(3,4,5)
    by (auto simp: mcast_outcome_def)
qed

lemma mcast_outcome_new:
  assumes "mcast_inv st xs" and "wf_nodemask m" and "\<forall>k \<in> set xs. \<not> extendable (mask_of st k) m"
    and "0 < u" and "u \<le> n_groups st" and "u \<notin> set xs" and "\<forall>k. 0 < k \<and> k < u \<longrightarrow> k \<in> set xs"
  defines "st1 \<equiv> mcast_group_use_age_element_insert_new u
    (mcast_upd u (g_in_use_update (\<lambda>_. 1)) st)"
  shows "mcast_outcome m st xs u (mcast_upd u (g_nlist_update (\<lambda>_. m)) st1) (u # xs)"
proof -
  note a = mcast_inv_add [OF assms(1,6,4,5), folded st1_def]
  have "set xs \<subseteq> {1..n_groups st} - {u}"
    using assms(1,6) by (auto simp: mcast_inv_def use_age_repr_def)
  then have "card (set xs) \<le> card ({1..n_groups st} - {u})"
    by (intro card_mono) auto
  then have "length xs < n_groups st"
    using assms(1,4,5) distinct_card [of xs] by (auto simp: mcast_inv_def use_age_repr_def)
  then show ?thesis
    using mcast_inv_set_mask [OF a(1) assms(2,4)] a assms(3-7)
    by (auto simp: mcast_outcome_def)
qed

lemma mcast_outcome_recycle:
  assumes "mcast_inv st xs" and "wf_nodemask m" and "\<forall>k \<in> set xs. \<not> extendable (mask_of st k) m"
    and "\<forall>k. 0 < k \<and> k \<le> n_groups st \<longrightarrow> k \<in> set xs"
  defines "g \<equiv> mcast_group_use_age_get_oldest st"
  shows "mcast_outcome m st xs g
    (mcast_upd g (g_nlist_update (\<lambda>_. m)) (mcast_group_use_age_update g st)) (last xs # butlast xs)"
proof -
  have r: "use_age_repr st xs" using assms(1) by (simp add: mcast_inv_def)
  have "{1..n_groups st} = set xs"
    using assms(1,4) by (auto simp: mcast_inv_def use_age_repr_def)
  then have "card (set xs) = n_groups st" by (metis card_atLeastAtMost diff_Suc_1)
  moreover have "distinct xs" "0 < n_groups st"
    using assms(1) by (auto simp: mcast_inv_def use_age_repr_def)
  ultimately have len: "length xs = n_groups st" and ne: "xs \<noteq> []"
    using distinct_card [of xs] by auto
  have g: "g = last xs" unfolding g_def using r ne by (rule use_age.oldest_last)
  then have gin: "g \<in> set xs" using ne by simp
  note c = use_age_repr_neighbours(1,2) [OF r gin]
  let ?st = "mcast_group_use_age_update g st"
  have "use_age_repr ?st (last xs # butlast xs)"
    unfolding g_def using r ne by (rule use_age.repr_recycle)
  moreover have "set (last xs # butlast xs) = set xs"
    using ne by (cases xs rule: rev_cases) auto
  ultimately have inv: "mcast_inv ?st (last xs # butlast xs)"
    using assms(1) use_age_frame(1,2) [OF r gin] use_age_frame(3) [OF r gin, of 1]
    by (simp add: mcast_inv_def)
  show ?thesis
    using mcast_inv_set_mask [OF inv assms(2) c(1)] use_age_frame(2) [OF r gin]
      use_age_frame(3) [OF r gin, of 1] c len assms(3) g
    by (auto simp: mcast_outcome_def)
qed

lemma mcast_request_inv:
  assumes "mcast_inv st xs" and "wf_nodemask m" and "m \<noteq> nodemask_clear"
    and "mcast_group_get_id_by_nodemask m st = (g, st')"
  shows "\<exists>xs'. mcast_outcome m st xs g st' xs'"
proof -
  obtain c u l where scan: "mcast_scan m 0 (mcast_groups_list st) (0, 0, 0xFF) = (c, u, l)"
    by (cases "mcast_scan m 0 (mcast_groups_list st) (0, 0, 0xFF)")
  have ok: "scan_ok m (mcast_groups_list st) (c, u, l)"
    using mcast_scan_init [of m "mcast_groups_list st"] scan by simp
  have r: "use_age_repr st xs" using assms(1) by (simp add: mcast_inv_def)
  have sub: "0 < k \<and> k \<le> n_groups st" if "k \<in> set xs" for k
    using use_age_repr_neighbours(1,2) [OF r that] by simp
  have use: "g_in_use (mcast_groups_list st ! (k - 1)) \<noteq> 0 \<longleftrightarrow> k \<in> set xs"
    and wf: "wf_nodemask (mask_of st k)" if "0 < k" "k \<le> n_groups st" for k
    using assms(1) that by (auto simp: mcast_inv_def mcast_get_entry_def)
  have best: "l \<le> mcast_nodemask_distance (mask_of st k) m" if "k \<in> set xs" for k
    using ok sub [OF that] use [of k] that
    by (auto simp: scan_ok_def mask_of_def mcast_get_entry_def)
  have noneq: "nodemask_equal m nodemask_clear \<noteq> 0"
    using assms(2,3) nodemask_equal_0 [of m nodemask_clear] by (simp add: wf_nodemask_def nodemask_clear_def)
  note body = assms(4) [unfolded mcast_group_get_id_by_nodemask_def, simplified noneq scan]
  show ?thesis
  proof (cases "c = 0")
    case False
    then have c: "0 < c" "c \<le> n_groups st" "c \<in> set xs" "l < 255"
      "l = mcast_nodemask_distance (mask_of st c) m"
      using ok use [of c] by (auto simp: scan_ok_def mask_of_def mcast_get_entry_def)
    have "extendable (mask_of st c) m"
      using c distance_lt_iff(1) [OF wf assms(2)] by auto
    moreover have "\<forall>k \<in> set xs. extendable (mask_of st k) m \<longrightarrow>
        extension_cost (mask_of st c) m \<le> extension_cost (mask_of st k) m"
      using best distance_lt_iff(2) [OF wf assms(2)] calculation c sub by metis
    ultimately show ?thesis
      using mcast_outcome_candidate [OF assms(1,2) c(3) _ _ c(5)] False body
      by (auto simp: Let_def)
  next
    case True
    then have "l = 255" using ok by (simp add: scan_ok_def)
    have none: "\<forall>k \<in> set xs. \<not> extendable (mask_of st k) m"
    proof
      fix k assume k: "k \<in> set xs"
      then have "wf_nodemask (mask_of st k)" using wf sub by blast
      then show "\<not> extendable (mask_of st k) m"
        using best [OF k] distance_lt_iff(1) [OF _ assms(2), of "mask_of st k"] \<open>l = 255\<close>
        by (simp add: not_less [symmetric])
    qed
    show ?thesis
    proof (cases "u = 0")
      case True
      then have "\<forall>i < n_groups st. g_in_use (mcast_groups_list st ! i) \<noteq> 0"
        using ok by (simp add: scan_ok_def)
      then have "\<forall>k. 0 < k \<and> k \<le> n_groups st \<longrightarrow> k \<in> set xs"
        using use by (metis Suc_le_eq Suc_pred')
      then show ?thesis
        using mcast_outcome_recycle [OF assms(1,2) none] \<open>c = 0\<close> True body
        by (auto simp: Let_def)
    next
      case False
      then have u: "0 < u" "u \<le> n_groups st" "g_in_use (mcast_groups_list st ! (u - 1)) = 0"
        "\<forall>i < u - 1. g_in_use (mcast_groups_list st ! i) \<noteq> 0"
        using ok by (auto simp: scan_ok_def)
      then have "u \<notin> set xs" using use [of u] by simp
      moreover have "k \<in> set xs" if "0 < k" "k < u" for k
      proof -
        have "k - 1 < u - 1" using that by simp
        then show ?thesis using u use [of k] that by auto
      qed
      ultimately show ?thesis
        using mcast_outcome_new [OF assms(1,2) none u(1,2)] \<open>c = 0\<close> False body
        by (auto simp: Let_def)
    qed
  qed
qed

text \<open>
  C30.  A request for a non-empty node mask keeps the invariant of the group table (the
  circular list threads exactly the groups in use), returns a valid group whose mask is then
  the requested one, leaves every other group's mask alone, and makes the group the most
  recently used.  The group is the one in use that needs the fewest added nodes when some
  group in use can be extended; otherwise the lowest free one; otherwise the least recently
  used one.
\<close>

theorem mcast_group_request:
  assumes "mcast_inv st xs" and "wf_nodemask m" and "m \<noteq> nodemask_clear"
    and "mcast_group_get_id_by_nodemask m st = (g, st')"
  shows "\<exists>xs'. mcast_outcome m st xs g st' xs'"
  using assms by (rule mcast_request_inv)

text \<open>A concrete request: the first mask ever asked for gets group 1.\<close>

definition sample_mask :: nodemask_t where
  "sample_mask = snd (nodemask_add_node 1 nodemask_clear)"

lemma sample_mask: "wf_nodemask sample_mask" "sample_mask \<noteq> nodemask_clear"
proof -
  have v: "nodemask_nodeid_is_valid 1"
    by (simp add: nodemask_nodeid_is_valid_def is_classic_node_def node_limits)
  show "wf_nodemask sample_mask"
    by (simp add: sample_mask_def wf_nodemask_add wf_nodemask_clear)
  have "nodes_of sample_mask \<noteq> nodes_of nodemask_clear"
    using nodes_of_add [OF wf_nodemask_clear v] by (simp add: sample_mask_def nodes_of_clear)
  then show "sample_mask \<noteq> nodemask_clear" by auto
qed

theorem mcast_group_request_witness:
  "\<exists>g st' xs'. mcast_outcome sample_mask (mcast_group_init 10) [] g st' xs'"
proof -
  obtain g st' where req:
    "mcast_group_get_id_by_nodemask sample_mask (mcast_group_init 10) = (g, st')"
    by (cases "mcast_group_get_id_by_nodemask sample_mask (mcast_group_init 10)")
  have "mcast_inv (mcast_group_init 10) []" by (rule mcast_inv_init) simp_all
  then show ?thesis
    using mcast_group_request [OF _ sample_mask req] by blast
qed

section \<open>Reachable states\<close>

text \<open>The states the exported operations can reach from \<open>mcast_group_init\<close>.\<close>

inductive mcast_reachable :: "nat \<Rightarrow> mcast_state \<Rightarrow> bool" for n where
  init: "mcast_reachable n (mcast_group_init n)"
| request: "mcast_reachable n st \<Longrightarrow> wf_nodemask m \<Longrightarrow>
    mcast_reachable n (snd (mcast_group_get_id_by_nodemask m st))"

lemma mcast_reachable_inv:
  assumes "mcast_reachable n st" and "0 < n" and "n \<le> 254"
  shows "\<exists>xs. mcast_inv st xs"
  using assms(1)
proof (induction rule: mcast_reachable.induct)
  case init
  show ?case using mcast_inv_init [OF assms(2,3)] by blast
next
  case (request st m)
  then obtain xs where inv: "mcast_inv st xs" by blast
  obtain g st' where req: "mcast_group_get_id_by_nodemask m st = (g, st')"
    by (cases "mcast_group_get_id_by_nodemask m st")
  show ?case
  proof (cases "m = nodemask_clear")
    case True
    then show ?thesis
      using inv req by (auto simp: mcast_group_get_id_by_nodemask_def nodemask_equal_refl)
  next
    case False
    then show ?thesis
      using mcast_request_inv [OF inv request.hyps(2) False req] req by (auto simp: mcast_outcome_def)
  qed
qed


text \<open>
  No two groups ever hold the same mask: a request for a mask some group already holds costs
  nothing there, so that group is the one chosen.
\<close>

definition masks_distinct :: "mcast_state \<Rightarrow> nat list \<Rightarrow> bool" where
  "masks_distinct st xs \<longleftrightarrow> inj_on (mask_of st) (set xs)"

lemma extendable_self: "extendable m m" "extension_cost m m = 0"
  by (simp_all add: extendable_def extension_cost_def)

lemma extension_free_eq:
  assumes "wf_nodemask a" and "wf_nodemask b" and "extendable a b" and "extension_cost a b = 0"
  shows "a = b"
  using wf_mask_distance_0 [OF assms(1,2)] distance_lt_iff(2) [OF assms(1-3)] assms(4) by simp

lemma mcast_outcomeD:
  assumes "mcast_outcome m st xs g st' xs'"
  shows "mcast_inv st' xs'" and "mask_of st' g = m" and "g \<in> set xs'"
    and "set xs' \<subseteq> insert g (set xs)"
    and "k \<noteq> g \<Longrightarrow> k \<in> set xs' \<Longrightarrow> mask_of st' k = mask_of st k"
proof -
  show inv: "mcast_inv st' xs'" and "mask_of st' g = m"
    using assms by (simp_all only: mcast_outcome_def)
  have "xs' \<in> {g # remove1 g xs, g # xs, g # butlast xs}"
    using assms unfolding mcast_outcome_def by (metis insertCI)
  then show "g \<in> set xs'" and "set xs' \<subseteq> insert g (set xs)"
    by (auto dest: in_set_butlastD set_remove1_subset [THEN subsetD])
  assume k: "k \<noteq> g" "k \<in> set xs'"
  then have "0 < k \<and> k \<le> n_groups st'"
    using inv use_age_repr_neighbours(1,2) [of st' xs' k] by (simp add: mcast_inv_def)
  then show "mask_of st' k = mask_of st k"
    using assms k(1) unfolding mcast_outcome_def by metis
qed

lemma mcast_outcome_holder:
  assumes "mcast_inv st xs" and "wf_nodemask m" and "mcast_outcome m st xs g st' xs'"
    and "k \<in> set xs" and "mask_of st k = m"
  shows "g \<in> set xs" and "mask_of st g = m"
proof -
  have "\<exists>k \<in> set xs. extendable (mask_of st k) m" using assms(4,5) extendable_self(1) by metis
  then have g: "g \<in> set xs" "extendable (mask_of st g) m"
    "extension_cost (mask_of st g) m \<le> extension_cost (mask_of st k) m"
    using assms(3-5) extendable_self(1) unfolding mcast_outcome_def by metis+
  then show "g \<in> set xs" by simp
  have "wf_nodemask (mask_of st g)"
    using assms(1) g(1) use_age_repr_neighbours(1,2) [of st xs g] by (simp add: mcast_inv_def)
  then show "mask_of st g = m"
    using extension_free_eq assms(2,5) g(2,3) extendable_self(2) by (metis le_zero_eq)
qed

lemma mcast_outcome_distinct:
  assumes "mcast_inv st xs" and "masks_distinct st xs" and "wf_nodemask m"
    and "mcast_outcome m st xs g st' xs'"
  shows "masks_distinct st' xs'"
proof -
  note out = mcast_outcomeD [OF assms(4)]
  have old: "mask_of st' k = mask_of st k" and sub: "k \<in> set xs" if "k \<in> set xs'" "k \<noteq> g" for k
    using that out(4,5) by auto
  have "mask_of st k \<noteq> m" if k: "k \<in> set xs'" "k \<noteq> g" for k
  proof
    assume "mask_of st k = m"
    note h = mcast_outcome_holder [OF assms(1,3,4) sub [OF k] this]
    then show False using assms(2) sub [OF k] k(2) \<open>mask_of st k = m\<close>
      by (auto simp: masks_distinct_def inj_on_def)
  qed
  then show ?thesis
    using out(2) old sub assms(2) unfolding masks_distinct_def inj_on_def by metis
qed

lemma mcast_reachable_distinct:
  assumes "mcast_reachable n st" and "0 < n" and "n \<le> 254"
  shows "\<exists>xs. mcast_inv st xs \<and> masks_distinct st xs"
  using assms(1)
proof (induction rule: mcast_reachable.induct)
  case init
  show ?case using mcast_inv_init [OF assms(2,3)] by (auto simp: masks_distinct_def)
next
  case (request st m)
  then obtain xs where inv: "mcast_inv st xs" "masks_distinct st xs" by blast
  obtain g st' where req: "mcast_group_get_id_by_nodemask m st = (g, st')"
    by (cases "mcast_group_get_id_by_nodemask m st")
  show ?case
  proof (cases "m = nodemask_clear")
    case True
    then show ?thesis
      using inv req by (auto simp: mcast_group_get_id_by_nodemask_def nodemask_equal_refl)
  next
    case False
    from mcast_request_inv [OF inv(1) request.hyps(2) False req]
    obtain xs' where "mcast_outcome m st xs g st' xs'" by blast
    then show ?thesis
      using mcast_outcome_distinct [OF inv request.hyps(2)] mcast_outcomeD(1) req
      by (metis snd_conv)
  qed
qed

lemma mcast_lookup_eq:
  assumes "mcast_inv st xs"
  shows "mcast_group_get_nodemask_by_id st k = (if k \<in> set xs then Some (mask_of st k) else None)"
  using assms use_age_repr_neighbours(1,2) [of st xs k]
  by (auto simp: mcast_group_get_nodemask_by_id_def mcast_inv_def mask_of_def)

text \<open>
  In every reachable state of the group table, the id a request returns is the only one
  that the lookup by id maps to the requested mask, and asking again for the same mask gives
  the same id.
\<close>

theorem mcast_request_lookup:
  assumes "mcast_reachable n st" and "0 < n" and "n \<le> 254"
    and "wf_nodemask m" and "m \<noteq> nodemask_clear"
    and "mcast_group_get_id_by_nodemask m st = (g, st')"
  shows "(mcast_group_get_nodemask_by_id st' k = Some m \<longleftrightarrow> k = g)
    \<and> fst (mcast_group_get_id_by_nodemask m st') = g"
proof -
  obtain xs where inv: "mcast_inv st xs" "masks_distinct st xs"
    using mcast_reachable_distinct [OF assms(1-3)] by blast
  obtain xs' where out: "mcast_outcome m st xs g st' xs'"
    using mcast_request_inv [OF inv(1) assms(4-6)] by blast
  then have inv': "mcast_inv st' xs'" "masks_distinct st' xs'"
    using mcast_outcome_distinct [OF inv assms(4)] mcast_outcomeD(1) by auto
  note g = mcast_outcomeD(3,2) [OF out]
  obtain g2 st2 where again: "mcast_group_get_id_by_nodemask m st' = (g2, st2)"
    by (cases "mcast_group_get_id_by_nodemask m st'")
  obtain xs2 where "mcast_outcome m st' xs' g2 st2 xs2"
    using mcast_request_inv [OF inv'(1) assms(4,5) again] by blast
  from mcast_outcome_holder [OF inv'(1) assms(4) this g]
  have "g2 = g" using g inv'(2) by (auto simp: masks_distinct_def inj_on_def)
  moreover have "mcast_group_get_nodemask_by_id st' k = Some m \<longleftrightarrow> k = g"
    using mcast_lookup_eq [OF inv'(1)] g inv'(2) by (auto simp: masks_distinct_def inj_on_def)
  ultimately show ?thesis using again by simp
qed

theorem mcast_request_lookup_witness:
  "mcast_group_get_nodemask_by_id (snd (mcast_group_get_id_by_nodemask sample_mask
      (mcast_group_init 10))) (fst (mcast_group_get_id_by_nodemask sample_mask
      (mcast_group_init 10))) = Some sample_mask"
  using mcast_request_lookup [OF mcast_reachable.init [of 10] _ _ sample_mask surjective_pairing]
  by simp

end
