(* ===== verification/Zgw_Str.thy ===== *)
theory Zgw_Str
  imports Zgw_Prelude
begin

unbundle bit_operations_syntax

text \<open>
  String validation of \<^verbatim>\<open>src/utls/zgw_str.c\<close>: UTF-8 well-formedness and the rules for mDNS
  names and locations.  The UTF-8 loop is compared with an encoder: a text without NUL bytes
  is accepted exactly when it is a sequence of encoded scalar values.
\<close>

section \<open>The code\<close>

text \<open>
  The loop of \<open>is_valid_utf8_string\<close>, on the bytes from \<^verbatim>\<open>s\<close> on.  The loop condition
  \<^verbatim>\<open>*s && (len > 0)\<close> also loads the byte after the text when \<open>len = 0\<close>; its value does not
  matter then.
\<close>

function utf8_loop :: "bytes \<Rightarrow> nat \<Rightarrow> bool" where
  "utf8_loop s len =
     (if 0 < len \<and> s ! 0 \<noteq> 0 then
        if s ! 0 \<le> 127 \<and> 1 \<le> len then utf8_loop (drop 1 s) (len - 1)
        else if s ! 0 AND 0xe0 = 0xc0 \<and> 2 \<le> len then
          if s ! 0 AND 0xfe = 0xc0 \<or> s ! 1 AND 0xc0 \<noteq> 0x80 then False
          else utf8_loop (drop 2 s) (len - 2)
        else if s ! 0 AND 0xf0 = 0xe0 \<and> 3 \<le> len then
          if (s ! 0 = 0xe0 \<and> s ! 1 AND 0xe0 = 0x80)
             \<or> s ! 1 AND 0xc0 \<noteq> 0x80 \<or> s ! 2 AND 0xc0 \<noteq> 0x80
             \<or> (s ! 0 = 0xed \<and> s ! 1 AND 0xe0 = 0xa0)
             \<or> (s ! 0 = 0xef \<and> s ! 1 = 0xbf \<and> s ! 2 AND 0xfe = 0xbe) then False
          else utf8_loop (drop 3 s) (len - 3)
        else if s ! 0 AND 0xf8 = 0xf0 \<and> 4 \<le> len then
          if (s ! 0 = 0xf0 \<and> s ! 1 AND 0xf0 = 0x80)
             \<or> s ! 1 AND 0xc0 \<noteq> 0x80 \<or> s ! 2 AND 0xc0 \<noteq> 0x80 \<or> s ! 3 AND 0xc0 \<noteq> 0x80
             \<or> (s ! 0 = 0xf4 \<and> 0x8f < s ! 1) \<or> 0xf4 < s ! 0 then False
          else utf8_loop (drop 4 s) (len - 4)
        else False
      else True)"
  by pat_completeness auto
termination by (relation "measure snd") auto

declare utf8_loop.simps [simp del]

text \<open>\<open>None\<close> is the null pointer.\<close>

definition is_valid_utf8_string :: "bytes option \<Rightarrow> nat \<Rightarrow> bool" where
  "is_valid_utf8_string ss len = (case ss of None \<Rightarrow> False | Some s \<Rightarrow> utf8_loop s len)"

text \<open>The scan for \<^verbatim>\<open>.\<close> and \<^verbatim>\<open>_\<close> in the first \<open>len\<close> bytes.\<close>

definition has_dot_or_underscore :: "bytes \<Rightarrow> bool" where
  "has_dot_or_underscore name = list_ex (\<lambda>c. c = 0x2e \<or> c = 0x5f) name"

definition is_valid_mdns_name :: "bytes \<Rightarrow> nat \<Rightarrow> bool" where
  "is_valid_mdns_name name len =
     (if len = 0 then True
      else if has_dot_or_underscore (take len name) then False
      else if name ! (len - 1) = 0x2d then False
      else if name ! (len - 1) = 0 then False
      else is_valid_utf8_string (Some name) len)"

text \<open>The loop of \<open>is_valid_mdns_location\<close> from index \<open>i\<close> to \<open>len\<close>.\<close>

definition location_byte_ok :: "bytes \<Rightarrow> nat \<Rightarrow> nat \<Rightarrow> bool" where
  "location_byte_ok location len i \<longleftrightarrow>
     location ! i \<noteq> 0x5f
     \<and> \<not> (1 \<le> i \<and> i \<le> len - 1 \<and> location ! i = 0x2e \<and> location ! (i - 1) = 0x2d)"

definition is_valid_mdns_location :: "bytes \<Rightarrow> nat \<Rightarrow> bool" where
  "is_valid_mdns_location location len =
     (if len = 0 then True
      else if location ! 0 = 0x2e \<or> location ! (len - 1) = 0x2e then False
      else if \<not> list_all (location_byte_ok location len) [0..<len] then False
      else is_valid_utf8_string (Some location) len)"

section \<open>UTF-8\<close>

text \<open>
  The scalar values the check admits: no NUL, no surrogate, neither U+FFFE nor U+FFFF, at
  most U+10FFFF.
\<close>

definition utf8_scalar :: "nat \<Rightarrow> bool" where
  "utf8_scalar c \<longleftrightarrow> 0 < c \<and> c < 0x110000 \<and> \<not> (0xd800 \<le> c \<and> c < 0xe000) \<and> c \<noteq> 0xfffe \<and> c \<noteq> 0xffff"

definition utf8_encode :: "nat \<Rightarrow> nat list" where
  "utf8_encode c =
     (if c < 0x80 then [c]
      else if c < 0x800 then [0xc0 + c div 0x40, 0x80 + c mod 0x40]
      else if c < 0x10000 then [0xe0 + c div 0x1000, 0x80 + c div 0x40 mod 0x40, 0x80 + c mod 0x40]
      else [0xf0 + c div 0x40000, 0x80 + c div 0x1000 mod 0x40, 0x80 + c div 0x40 mod 0x40,
            0x80 + c mod 0x40])"

text \<open>The bit tests of the loop as ranges.\<close>

lemma unat_and_high_bits:
  fixes x :: "'a::len word"
  shows "unat (x AND NOT (mask k)) = unat x div 2 ^ k * 2 ^ k"
proof -
  have "unat (x AND NOT (mask k)) = push_bit k (drop_bit k (unat x))"
    by (rule bit_eqI) (auto simp: bit_simps dest: bit_imp_le_length)
  then show ?thesis by (simp add: push_bit_eq_mult drop_bit_eq_div)
qed

lemma and_high_bits_eq_iff:
  fixes x y :: "'a::len word"
  assumes "unat y = c * 2 ^ k"
  shows "x AND NOT (mask k) = y \<longleftrightarrow> unat y \<le> unat x \<and> unat x < unat y + 2 ^ k"
proof -
  have "x AND NOT (mask k) = y \<longleftrightarrow> unat x div 2 ^ k = c"
    by (simp add: word_unat_eq_iff unat_and_high_bits assms)
  also have "\<dots> \<longleftrightarrow> c * 2 ^ k \<le> unat x \<and> unat x < (c + 1) * 2 ^ k"
    by (metis (no_types, lifting) Suc_eq_plus1 div_less_iff_less_mult less_Suc_eq_le order.antisym
       less_eq_div_iff_mult_less_eq order_refl zero_less_numeral zero_less_power)
  finally show ?thesis by (simp add: assms add.commute)
qed

lemma high_masks_u8:
  "(0xfe :: u8) = NOT (mask 1)" "(0xf8 :: u8) = NOT (mask 3)" "(0xf0 :: u8) = NOT (mask 4)"
  "(0xe0 :: u8) = NOT (mask 5)" "(0xc0 :: u8) = NOT (mask 6)"
  by (simp_all add: mask_eq_exp_minus_1)

lemma u8_class:
  fixes x :: u8
  shows "x AND 0xe0 = 0xc0 \<longleftrightarrow> 0xc0 \<le> unat x \<and> unat x < 0xe0"
    and "x AND 0xf0 = 0xe0 \<longleftrightarrow> 0xe0 \<le> unat x \<and> unat x < 0xf0"
    and "x AND 0xf8 = 0xf0 \<longleftrightarrow> 0xf0 \<le> unat x \<and> unat x < 0xf8"
    and "x AND 0xfe = 0xc0 \<longleftrightarrow> 0xc0 \<le> unat x \<and> unat x < 0xc2"
    and "x AND 0xc0 = 0x80 \<longleftrightarrow> 0x80 \<le> unat x \<and> unat x < 0xc0"
    and "x AND 0xe0 = 0x80 \<longleftrightarrow> 0x80 \<le> unat x \<and> unat x < 0xa0"
    and "x AND 0xe0 = 0xa0 \<longleftrightarrow> 0xa0 \<le> unat x \<and> unat x < 0xc0"
    and "x AND 0xfe = 0xbe \<longleftrightarrow> 0xbe \<le> unat x \<and> unat x < 0xc0"
    and "x AND 0xf0 = 0x80 \<longleftrightarrow> 0x80 \<le> unat x \<and> unat x < 0x90"
  using and_high_bits_eq_iff [of "0xc0 :: u8" 6 5 x, folded high_masks_u8]
    and_high_bits_eq_iff [of "0xe0 :: u8" 14 4 x, folded high_masks_u8]
    and_high_bits_eq_iff [of "0xf0 :: u8" 30 3 x, folded high_masks_u8]
    and_high_bits_eq_iff [of "0xc0 :: u8" 96 1 x, folded high_masks_u8]
    and_high_bits_eq_iff [of "0x80 :: u8" 2 6 x, folded high_masks_u8]
    and_high_bits_eq_iff [of "0x80 :: u8" 4 5 x, folded high_masks_u8]
    and_high_bits_eq_iff [of "0xa0 :: u8" 5 5 x, folded high_masks_u8]
    and_high_bits_eq_iff [of "0xbe :: u8" 95 1 x, folded high_masks_u8]
    and_high_bits_eq_iff [of "0x80 :: u8" 8 4 x, folded high_masks_u8]
  by simp_all

lemma u8_literals:
  fixes x :: u8
  shows "x = 0 \<longleftrightarrow> unat x = 0" and "x = 0xe0 \<longleftrightarrow> unat x = 0xe0" and "x = 0xed \<longleftrightarrow> unat x = 0xed"
    and "x = 0xef \<longleftrightarrow> unat x = 0xef" and "x = 0xbf \<longleftrightarrow> unat x = 0xbf"
    and "x = 0xf0 \<longleftrightarrow> unat x = 0xf0" and "x = 0xf4 \<longleftrightarrow> unat x = 0xf4"
    and "x \<le> 127 \<longleftrightarrow> unat x \<le> 127" and "0x8f < x \<longleftrightarrow> 0x8f < unat x" and "0xf4 < x \<longleftrightarrow> 0xf4 < unat x"
  by (simp_all add: word_unat_eq_iff word_le_nat_alt word_less_nat_alt)

lemmas u8_tests = u8_class u8_literals


text \<open>Decoding of one accepted sequence, on the unsigned values of its bytes.\<close>

lemma utf8_decode:
  shows "0 < a \<Longrightarrow> a < 0x80 \<Longrightarrow> \<exists>c. utf8_scalar c \<and> utf8_encode c = [a]"
    and "0xc2 \<le> a \<Longrightarrow> a < 0xe0 \<Longrightarrow> 0x80 \<le> b \<Longrightarrow> b < 0xc0 \<Longrightarrow>
      \<exists>c. utf8_scalar c \<and> utf8_encode c = [a, b]"
    and "0xe0 \<le> a \<Longrightarrow> a < 0xf0 \<Longrightarrow> 0x80 \<le> b \<Longrightarrow> b < 0xc0 \<Longrightarrow> 0x80 \<le> d \<Longrightarrow> d < 0xc0 \<Longrightarrow>
      (a = 0xe0 \<Longrightarrow> 0xa0 \<le> b) \<Longrightarrow> (a = 0xed \<Longrightarrow> b < 0xa0) \<Longrightarrow> (a = 0xef \<Longrightarrow> b = 0xbf \<Longrightarrow> d < 0xbe) \<Longrightarrow>
      \<exists>c. utf8_scalar c \<and> utf8_encode c = [a, b, d]"
    and "0xf0 \<le> a \<Longrightarrow> a \<le> 0xf4 \<Longrightarrow> 0x80 \<le> b \<Longrightarrow> b < 0xc0 \<Longrightarrow> 0x80 \<le> d \<Longrightarrow> d < 0xc0 \<Longrightarrow>
      0x80 \<le> e \<Longrightarrow> e < 0xc0 \<Longrightarrow> (a = 0xf0 \<Longrightarrow> 0x90 \<le> b) \<Longrightarrow> (a = 0xf4 \<Longrightarrow> b < 0x90) \<Longrightarrow>
      \<exists>c. utf8_scalar c \<and> utf8_encode c = [a, b, d, e]"
proof -
  show "\<exists>c. utf8_scalar c \<and> utf8_encode c = [a]" if "0 < a" "a < 0x80"
    using that by (intro exI [of _ a]) (simp add: utf8_scalar_def utf8_encode_def)
  show "\<exists>c. utf8_scalar c \<and> utf8_encode c = [a, b]"
    if "0xc2 \<le> a" "a < 0xe0" "0x80 \<le> b" "b < 0xc0"
  proof -
    define x y where "x = a - 0xc0" and "y = b - 0x80"
    have v: "a = 0xc0 + x" "b = 0x80 + y" "2 \<le> x" "x < 0x20" "y < 0x40"
      using that by (auto simp: x_def y_def)
    then have "(0x40 * x + y) div 0x40 = x" "(0x40 * x + y) mod 0x40 = y" by simp_all
    then show ?thesis
      using v by (intro exI [of _ "0x40 * x + y"]) (simp add: utf8_scalar_def utf8_encode_def)
  qed
  show "\<exists>c. utf8_scalar c \<and> utf8_encode c = [a, b, d]"
    if "0xe0 \<le> a" "a < 0xf0" "0x80 \<le> b" "b < 0xc0" "0x80 \<le> d" "d < 0xc0"
      "a = 0xe0 \<Longrightarrow> 0xa0 \<le> b" "a = 0xed \<Longrightarrow> b < 0xa0" "a = 0xef \<Longrightarrow> b = 0xbf \<Longrightarrow> d < 0xbe"
  proof -
    define x y z where "x = a - 0xe0" and "y = b - 0x80" and "z = d - 0x80"
    have eq: "a = 0xe0 + x" "b = 0x80 + y" "d = 0x80 + z"
      using that by (simp_all add: x_def y_def z_def)
    note v = that [unfolded eq] eq
    let ?c = "0x40 * (0x40 * x + y) + z"
    have d: "?c div 0x40 = 0x40 * x + y" "?c mod 0x40 = z"
      using v mult_add_div_mod [of z "0x40" "0x40 * x + y"] by simp_all
    have "?c div 0x1000 = x" "?c div 0x40 mod 0x40 = y"
      using v d div_mult2_eq [of ?c "0x40" "0x40"] mult_add_div_mod [of y "0x40" x] by simp_all
    moreover have "utf8_scalar ?c" "0x800 \<le> ?c" "?c < 0x10000"
      unfolding utf8_scalar_def using v by (cases "x = 0"; cases "x = 0xd"; cases "x = 0xf"; auto)+
    ultimately show ?thesis
      using v d by (intro exI [of _ ?c]) (simp add: utf8_encode_def)
  qed
  show "\<exists>c. utf8_scalar c \<and> utf8_encode c = [a, b, d, e]"
    if "0xf0 \<le> a" "a \<le> 0xf4" "0x80 \<le> b" "b < 0xc0" "0x80 \<le> d" "d < 0xc0" "0x80 \<le> e" "e < 0xc0"
      "a = 0xf0 \<Longrightarrow> 0x90 \<le> b" "a = 0xf4 \<Longrightarrow> b < 0x90"
  proof -
    define x y z w where "x = a - 0xf0" and "y = b - 0x80" and "z = d - 0x80" and "w = e - 0x80"
    have eq: "a = 0xf0 + x" "b = 0x80 + y" "d = 0x80 + z" "e = 0x80 + w"
      using that by (simp_all add: x_def y_def z_def w_def)
    note v = that [unfolded eq] eq
    let ?c = "0x40 * (0x40 * (0x40 * x + y) + z) + w"
    define c where "c = ?c"
    have d: "?c div 0x40 = 0x40 * (0x40 * x + y) + z" "?c mod 0x40 = w"
      using v mult_add_div_mod [of w "0x40" "0x40 * (0x40 * x + y) + z"] by simp_all
    have d2: "?c div 0x1000 = 0x40 * x + y" "?c div 0x40 mod 0x40 = z"
      using v d div_mult2_eq [of ?c "0x40" "0x40"] mult_add_div_mod [of z "0x40" "0x40 * x + y"]
      by simp_all
    have "?c div 0x40000 = x" "?c div 0x1000 mod 0x40 = y"
      using v d2 div_mult2_eq [of ?c "0x1000" "0x40"] mult_add_div_mod [of y "0x40" x] by simp_all
    note d3 = this d d2
    have "utf8_scalar ?c" "0x10000 \<le> ?c"
      unfolding utf8_scalar_def using v by (cases "x = 0"; cases "x = 4"; auto)+
    then show ?thesis
      using d3(1-2,4-6) unfolding eq c_def [symmetric]
      by (intro exI [of _ c]) (simp add: utf8_encode_def)
  qed
qed

text \<open>The loop on a text by the range of its first byte.\<close>

lemma utf8_loop_lead:
  fixes s :: bytes
  defines "a \<equiv> unat (s ! 0)" and "b \<equiv> unat (s ! 1)" and "d \<equiv> unat (s ! 2)" and "e \<equiv> unat (s ! 3)"
  assumes "s \<noteq> []" and "0 < a"
  shows "a < 0x80 \<Longrightarrow> utf8_loop s (length s) = utf8_loop (drop 1 s) (length s - 1)"
    and "0x80 \<le> a \<Longrightarrow> a < 0xc0 \<Longrightarrow> \<not> utf8_loop s (length s)"
    and "0xc0 \<le> a \<Longrightarrow> a < 0xe0 \<Longrightarrow> utf8_loop s (length s) \<longleftrightarrow>
      2 \<le> length s \<and> \<not> a < 0xc2 \<and> (0x80 \<le> b \<and> b < 0xc0) \<and> utf8_loop (drop 2 s) (length s - 2)"
    and "0xe0 \<le> a \<Longrightarrow> a < 0xf0 \<Longrightarrow> utf8_loop s (length s) \<longleftrightarrow>
      3 \<le> length s \<and> \<not> (a = 0xe0 \<and> 0x80 \<le> b \<and> b < 0xa0) \<and> (0x80 \<le> b \<and> b < 0xc0)
      \<and> (0x80 \<le> d \<and> d < 0xc0) \<and> \<not> (a = 0xed \<and> 0xa0 \<le> b \<and> b < 0xc0)
      \<and> \<not> (a = 0xef \<and> b = 0xbf \<and> 0xbe \<le> d \<and> d < 0xc0) \<and> utf8_loop (drop 3 s) (length s - 3)"
    and "0xf0 \<le> a \<Longrightarrow> utf8_loop s (length s) \<longleftrightarrow>
      4 \<le> length s \<and> a < 0xf8 \<and> \<not> (a = 0xf0 \<and> 0x80 \<le> b \<and> b < 0x90) \<and> (0x80 \<le> b \<and> b < 0xc0)
      \<and> (0x80 \<le> d \<and> d < 0xc0) \<and> (0x80 \<le> e \<and> e < 0xc0)
      \<and> \<not> (a = 0xf4 \<and> 0x8f < b) \<and> \<not> 0xf4 < a \<and> utf8_loop (drop 4 s) (length s - 4)"
proof -
  have len: "0 < length s" "s ! 0 \<noteq> 0" using assms(5,6) by (auto simp: a_def)
  note unf = utf8_loop.simps [of s "length s", unfolded u8_class, unfolded u8_literals(2-),
      folded assms(1-4)]
  show "a < 0x80 \<Longrightarrow> utf8_loop s (length s) = utf8_loop (drop 1 s) (length s - 1)"
    unfolding unf using len by (simp add: Suc_leI)
  show "0x80 \<le> a \<Longrightarrow> a < 0xc0 \<Longrightarrow> \<not> utf8_loop s (length s)"
    unfolding unf using len by simp
  show "0xc0 \<le> a \<Longrightarrow> a < 0xe0 \<Longrightarrow> utf8_loop s (length s) \<longleftrightarrow>
      2 \<le> length s \<and> \<not> a < 0xc2 \<and> (0x80 \<le> b \<and> b < 0xc0) \<and> utf8_loop (drop 2 s) (length s - 2)"
    unfolding unf using len by (simp; blast)
  show "0xe0 \<le> a \<Longrightarrow> a < 0xf0 \<Longrightarrow> utf8_loop s (length s) \<longleftrightarrow>
      3 \<le> length s \<and> \<not> (a = 0xe0 \<and> 0x80 \<le> b \<and> b < 0xa0) \<and> (0x80 \<le> b \<and> b < 0xc0)
      \<and> (0x80 \<le> d \<and> d < 0xc0) \<and> \<not> (a = 0xed \<and> 0xa0 \<le> b \<and> b < 0xc0)
      \<and> \<not> (a = 0xef \<and> b = 0xbf \<and> 0xbe \<le> d \<and> d < 0xc0) \<and> utf8_loop (drop 3 s) (length s - 3)"
    unfolding unf using len by (simp; blast)
  show "0xf0 \<le> a \<Longrightarrow> utf8_loop s (length s) \<longleftrightarrow>
      4 \<le> length s \<and> a < 0xf8 \<and> \<not> (a = 0xf0 \<and> 0x80 \<le> b \<and> b < 0x90) \<and> (0x80 \<le> b \<and> b < 0xc0)
      \<and> (0x80 \<le> d \<and> d < 0xc0) \<and> (0x80 \<le> e \<and> e < 0xc0)
      \<and> \<not> (a = 0xf4 \<and> 0x8f < b) \<and> \<not> 0xf4 < a \<and> utf8_loop (drop 4 s) (length s - 4)"
    unfolding unf using len by (simp; blast)
qed

lemma utf8_loop_encoded:
  assumes "utf8_scalar c" and "map unat u = utf8_encode c"
  shows "utf8_loop (u @ v) (length (u @ v)) = utf8_loop v (length v)"
proof -
  consider "c < 0x80" | "0x80 \<le> c" "c < 0x800" | "0x800 \<le> c" "c < 0x10000" | "0x10000 \<le> c"
    by linarith
  then show ?thesis
  proof cases
    case 1
    then obtain x where "u = [x]" "unat x = c"
      using assms(2) by (auto simp: utf8_encode_def)
    then show ?thesis
      using 1 assms(1) utf8_loop_lead(1) [of "u @ v"] by (simp add: utf8_scalar_def)
  next
    case 2
    then obtain x y where u: "u = [x, y]" "unat x = 0xc0 + c div 0x40" "unat y = 0x80 + c mod 0x40"
      using assms(2) by (auto simp: utf8_encode_def map_eq_Cons_conv)
    have "2 \<le> c div 0x40" "c div 0x40 < 0x20" "c mod 0x40 < 0x40"
      using 2 by (simp_all add: less_eq_div_iff_mult_less_eq div_less_iff_less_mult)
    then show ?thesis
      using u utf8_loop_lead(3) [of "u @ v"] by simp
  next
    case 3
    then obtain x y z where u: "u = [x, y, z]" "unat x = 0xe0 + c div 0x1000"
        "unat y = 0x80 + c div 0x40 mod 0x40" "unat z = 0x80 + c mod 0x40"
      using assms(2) by (auto simp: utf8_encode_def map_eq_Cons_conv)
    define p q r where pqr: "p = c div 0x1000" "q = c div 0x40 mod 0x40" "r = c mod 0x40"
    have c: "c = 0x1000 * p + 0x40 * q + r"
      using div_mult2_eq [of c "0x40" "0x40", simplified] mult_div_mod_eq [of "0x40" c]
        mult_div_mod_eq [of "0x40" "c div 0x40"] unfolding pqr by linarith
    have "p < 0x10" "q < 0x40" "r < 0x40"
      using 3 by (simp_all add: pqr div_less_iff_less_mult)
    moreover have "p = 0 \<longrightarrow> 0x20 \<le> q" using c 3(1) calculation by linarith
    moreover have "p = 0xd \<longrightarrow> q < 0x20"
      using c assms(1) calculation unfolding utf8_scalar_def by linarith
    moreover have "p = 0xf \<and> q = 0x3f \<longrightarrow> c = 0xffc0 + r" using c by simp
    then have "p = 0xf \<and> q = 0x3f \<longrightarrow> r < 0x3e"
      using assms(1) \<open>r < 0x40\<close> by (auto simp: utf8_scalar_def)
    ultimately show ?thesis
      using u [folded pqr] utf8_loop_lead(4) [of "u @ v"] by (simp add: numeral_2_eq_2) linarith
  next
    case 4
    then obtain x y z w where u: "u = [x, y, z, w]" "unat x = 0xf0 + c div 0x40000"
        "unat y = 0x80 + c div 0x1000 mod 0x40" "unat z = 0x80 + c div 0x40 mod 0x40"
        "unat w = 0x80 + c mod 0x40"
      using assms(2) by (auto simp: utf8_encode_def map_eq_Cons_conv)
    define p q r t where pqr: "p = c div 0x40000" "q = c div 0x1000 mod 0x40"
      "r = c div 0x40 mod 0x40" "t = c mod 0x40"
    have c: "c = 0x40000 * p + 0x1000 * q + 0x40 * r + t"
      using div_mult2_eq [of c "0x1000" "0x40", simplified]
        div_mult2_eq [of c "0x40" "0x40", simplified] mult_div_mod_eq [of "0x40" c]
        mult_div_mod_eq [of "0x40" "c div 0x40"] mult_div_mod_eq [of "0x40" "c div 0x1000"] unfolding pqr by linarith
    have "p < 5" "q < 0x40" "r < 0x40" "t < 0x40"
      using assms(1) by (simp_all add: pqr div_less_iff_less_mult utf8_scalar_def)
    moreover have "p = 0 \<longrightarrow> 0x10 \<le> q" "p = 4 \<longrightarrow> q < 0x10"
      using c 4 assms(1) calculation by (auto simp: utf8_scalar_def)
    ultimately show ?thesis
      using u [folded pqr] utf8_loop_lead(5) [of "u @ v"]
      by (simp add: numeral_2_eq_2 numeral_3_eq_3) linarith
  qed
qed


lemma utf8_loop_accepts:
  assumes "utf8_loop s (length s)" and "s \<noteq> []" and "s ! 0 \<noteq> 0"
  obtains u v c where "s = u @ v" and "u \<noteq> []" and "map unat u = utf8_encode c" and "utf8_scalar c"
    and "utf8_loop v (length v)"
proof -
  let ?b = "\<lambda>i. unat (s ! i)"
  note ret = that
  have cont: thesis
    if dec: "\<exists>c. utf8_scalar c \<and> utf8_encode c = map ?b [0..<n]"
      and n: "utf8_loop (drop n s) (length s - n)" "0 < n" "n \<le> length s" for n
  proof -
    obtain c where "utf8_scalar c" "utf8_encode c = map ?b [0..<n]" using dec by blast
    moreover from this have "map unat (take n s) = utf8_encode c"
      using n(3) by (simp add: take_eq_map_nth)
    ultimately show thesis
      using n assms(2) by (intro ret [of "take n s" "drop n s" c]) simp_all
  qed
  have "0 < length s" "0 < ?b 0" using assms(2,3) by (simp_all add: unat_gt_0)
  note lead = utf8_loop_lead [OF assms(2) this(2)]
  consider "?b 0 < 0x80" | "0x80 \<le> ?b 0" "?b 0 < 0xc0" | "0xc0 \<le> ?b 0" "?b 0 < 0xe0"
    | "0xe0 \<le> ?b 0" "?b 0 < 0xf0" | "0xf0 \<le> ?b 0" by linarith
  then show thesis
  proof cases
    case 1
    then show thesis
      using lead(1) assms(1) utf8_decode(1) [of "?b 0"] \<open>0 < ?b 0\<close> \<open>0 < length s\<close>
      by (intro cont [of 1]) (simp_all add: Suc_leI del: length_greater_0_conv)
  next
    case 2
    then show thesis using lead(2) assms(1) by simp
  next
    case 3
    note c = lead(3) [OF 3, THEN iffD1, OF assms(1)]
    have "\<exists>c. utf8_scalar c \<and> utf8_encode c = [?b 0, ?b 1]"
      by (rule utf8_decode) (use c 3 in auto)
    then show thesis using c by (intro cont [of 2]) (simp_all add: upt_rec)
  next
    case 4
    note c = lead(4) [OF 4, THEN iffD1, OF assms(1)]
    have "\<exists>c. utf8_scalar c \<and> utf8_encode c = [?b 0, ?b 1, ?b 2]"
      by (rule utf8_decode) (use c 4 in auto)
    then show thesis using c by (intro cont [of 3]) (simp_all add: upt_rec numeral_2_eq_2)
  next
    case 5
    note c = lead(5) [OF 5, THEN iffD1, OF assms(1)]
    have "\<exists>c. utf8_scalar c \<and> utf8_encode c = [?b 0, ?b 1, ?b 2, ?b 3]"
      by (rule utf8_decode) (use c 5 in auto)
    then show thesis
      using c by (intro cont [of 4]) (simp_all add: upt_rec numeral_2_eq_2 numeral_3_eq_3)
  qed
qed

text \<open>
  C31.  The validation accepts a text without NUL bytes exactly when it is a sequence of UTF-8
  encoded scalar values: every overlong form, stray continuation byte, truncated sequence,
  surrogate, U+FFFE, U+FFFF and value above U+10FFFF is rejected, and everything else is
  accepted.
\<close>

theorem utf8_validation_exact:
  assumes "0 \<notin> set s"
  shows "is_valid_utf8_string (Some s) (length s) \<longleftrightarrow>
    (\<exists>cs. (\<forall>c \<in> set cs. utf8_scalar c) \<and> map unat s = concat (map utf8_encode cs))"
proof
  assume "is_valid_utf8_string (Some s) (length s)"
  then have "utf8_loop s (length s)" by (simp add: is_valid_utf8_string_def)
  then show "\<exists>cs. (\<forall>c \<in> set cs. utf8_scalar c) \<and> map unat s = concat (map utf8_encode cs)"
    using assms
  proof (induction s rule: length_induct)
    case (1 s)
    show ?case
    proof (cases "s = []")
      case False
      then have "s ! 0 \<noteq> 0" using 1(3) by (metis length_greater_0_conv nth_mem)
      from utf8_loop_accepts [OF 1(2) False this] obtain u v c where
        uv: "s = u @ v" "u \<noteq> []" "map unat u = utf8_encode c" "utf8_scalar c"
          "utf8_loop v (length v)" .
      then have "length v < length s" "0 \<notin> set v" using 1(3) by auto
      with uv(5) 1(1) obtain cs where
        "\<forall>c \<in> set cs. utf8_scalar c" "map unat v = concat (map utf8_encode cs)" by blast
      then show ?thesis using uv by (intro exI [of _ "c # cs"]) simp
    qed (auto intro: exI [of _ "[]"])
  qed
next
  assume "\<exists>cs. (\<forall>c \<in> set cs. utf8_scalar c) \<and> map unat s = concat (map utf8_encode cs)"
  then obtain cs where "\<forall>c \<in> set cs. utf8_scalar c" "map unat s = concat (map utf8_encode cs)"
    by blast
  then have "utf8_loop s (length s)"
  proof (induction cs arbitrary: s)
    case Nil
    then show ?case by (simp add: utf8_loop.simps)
  next
    case (Cons c cs)
    then obtain u v where "s = u @ v" "map unat u = utf8_encode c"
        "map unat v = concat (map utf8_encode cs)"
      by (auto simp: map_eq_append_conv)
    then show ?case using Cons utf8_loop_encoded [of c u v] by simp
  qed
  then show "is_valid_utf8_string (Some s) (length s)" by (simp add: is_valid_utf8_string_def)
qed


lemma nat_4: "4 = Suc (Suc (Suc (Suc 0)))" by simp

text \<open>The euro sign and a bare lead byte.\<close>

theorem utf8_validation_exact_witness:
  "is_valid_utf8_string (Some [0x41, 0xe2, 0x82, 0xac]) 4
   \<and> \<not> is_valid_utf8_string (Some [0x41, 0xe2, 0x82]) 3"
proof
  have "is_valid_utf8_string (Some [0x41, 0xe2, 0x82, 0xac])
      (length [0x41, 0xe2, 0x82, 0xac :: u8])"
    by (subst utf8_validation_exact)
      (auto simp: utf8_scalar_def utf8_encode_def intro!: exI [of _ "[0x41, 0x20ac]"])
  then show "is_valid_utf8_string (Some [0x41, 0xe2, 0x82, 0xac]) 4" by (simp add: nat_4)
  show "\<not> is_valid_utf8_string (Some [0x41, 0xe2, 0x82]) 3"
    by (simp add: is_valid_utf8_string_def utf8_loop.simps)
qed

section \<open>mDNS names\<close>

text \<open>The loop stops at a NUL byte, and what follows is not validated.\<close>

lemma utf8_loop_nul: "s ! 0 = 0 \<Longrightarrow> utf8_loop s len"
  by (simp add: utf8_loop.simps)

definition split_dots :: "bytes \<Rightarrow> bytes list" where
  "split_dots s = foldr (\<lambda>c acc. if c = 0x2e then [] # acc else (c # hd acc) # tl acc) s [[]]"

lemma split_dots_Cons:
  "split_dots (c # s) = (if c = 0x2e then [] # split_dots s
     else (c # hd (split_dots s)) # tl (split_dots s))"
  by (simp add: split_dots_def)

lemma split_dots_Nil [simp]: "split_dots [] = [[]]" by (simp add: split_dots_def)

lemma split_dots_neq [simp]: "split_dots s \<noteq> []"
  by (cases s) (simp_all add: split_dots_Cons)

lemma all_less_split: "(\<forall>j < n. R j) \<longleftrightarrow> (0 < n \<longrightarrow> R 0) \<and> (\<forall>j. Suc j < n \<longrightarrow> R (Suc j))"
  by (metis not0_implies_Suc neq0_conv)

lemma dash_dot_iff:
  "(\<forall>i. Suc i < length s \<longrightarrow> \<not> (s ! Suc i = 0x2e \<and> s ! i = 0x2d)) \<longleftrightarrow>
   (\<forall>p \<in> set (butlast (split_dots s)). p \<noteq> [] \<longrightarrow> last p \<noteq> 0x2d)"
proof (induction s)
  case (Cons c s)
  have shift: "(\<forall>i. Suc i < length (c # s) \<longrightarrow> \<not> ((c # s) ! Suc i = 0x2e \<and> (c # s) ! i = 0x2d))
    \<longleftrightarrow> (s \<noteq> [] \<longrightarrow> \<not> (s ! 0 = 0x2e \<and> c = 0x2d))
      \<and> (\<forall>i. Suc i < length s \<longrightarrow> \<not> (s ! Suc i = 0x2e \<and> s ! i = 0x2d))"
    using all_less_split [of "length s" "\<lambda>i. \<not> (s ! i = 0x2e \<and> (c # s) ! i = 0x2d)"] by simp
  obtain p ps where ps: "split_dots s = p # ps" by (cases "split_dots s") auto
  have hd: "s \<noteq> [] \<and> s ! 0 = 0x2e \<longleftrightarrow> p = [] \<and> ps \<noteq> []"
    using ps by (cases s) (auto simp: split_dots_Cons split: if_splits)
  show ?case
    unfolding shift Cons.IH ps split_dots_Cons using hd by (cases "ps = []") auto
qed simp

text \<open>
  The check of an mDNS location accepts a non-empty text exactly when it is valid UTF-8
  without an underscore, neither starts nor ends with a dot, and none of its dot-separated
  parts but the last ends with a dash.  The last part is not checked for a final dash.
\<close>

theorem mdns_location_exact:
  assumes "s \<noteq> []"
  shows "is_valid_mdns_location s (length s) \<longleftrightarrow>
    hd s \<noteq> 0x2e \<and> last s \<noteq> 0x2e \<and> 0x5f \<notin> set s \<and> is_valid_utf8_string (Some s) (length s)
    \<and> (\<forall>p \<in> set (butlast (split_dots s)). p \<noteq> [] \<longrightarrow> last p \<noteq> 0x2d)"
proof -
  have "list_all (location_byte_ok s (length s)) [0..<length s] \<longleftrightarrow>
      (\<forall>i < length s. s ! i \<noteq> 0x5f)
      \<and> (\<forall>i. Suc i < length s \<longrightarrow> \<not> (s ! Suc i = 0x2e \<and> s ! i = 0x2d))"
  proof -
    have "(\<forall>i < length s. \<not> (1 \<le> i \<and> i \<le> length s - 1 \<and> s ! i = 0x2e \<and> s ! (i - 1) = 0x2d))
        \<longleftrightarrow> (\<forall>i. Suc i < length s \<longrightarrow> \<not> (s ! Suc i = 0x2e \<and> s ! i = 0x2d))"
      by (subst all_less_split) auto
    then show ?thesis by (auto simp: list_all_iff location_byte_ok_def)
  qed
  moreover have "(\<forall>i < length s. s ! i \<noteq> 0x5f) \<longleftrightarrow> 0x5f \<notin> set s"
    by (auto simp: in_set_conv_nth)
  ultimately show ?thesis
    using assms unfolding dash_dot_iff [of s]
    by (auto simp: is_valid_mdns_location_def hd_conv_nth last_conv_nth)
qed

text \<open>The location \<open>a-\<close> passes, although its only part ends with a dash.\<close>

theorem mdns_location_exact_witness:
  "is_valid_mdns_location [0x61, 0x2d] 2 \<and> \<not> is_valid_mdns_location [0x61, 0x2d, 0x2e, 0x62] 4"
proof
  have "is_valid_mdns_location [0x61, 0x2d] (length [0x61, 0x2d :: u8])"
    by (subst mdns_location_exact)
      (simp_all add: split_dots_Cons is_valid_utf8_string_def utf8_loop.simps)
  then show "is_valid_mdns_location [0x61, 0x2d] 2" by (simp add: numeral_2_eq_2)
  have "\<not> is_valid_mdns_location [0x61, 0x2d, 0x2e, 0x62] (length [0x61, 0x2d, 0x2e, 0x62 :: u8])"
    by (subst mdns_location_exact) (simp_all add: split_dots_Cons)
  then show "\<not> is_valid_mdns_location [0x61, 0x2d, 0x2e, 0x62] 4" by (simp add: nat_4)
qed

end
