(* ===== verification/Slot_Table.thy ===== *)
theory Slot_Table
  imports Zgw_Prelude
begin

text \<open>
  Fixed-size arrays of slots searched by key: several components of the gateway keep their
  entries this way (the provisioning list, the address table, the request table).  A slot is
  blank or holds an entry with a key; the table then stands for a map from keys to values.
\<close>

definition tbl_abs :: "('s \<Rightarrow> 'k option) \<Rightarrow> ('s \<Rightarrow> 'v) \<Rightarrow> 's list \<Rightarrow> 'k \<Rightarrow> 'v option" where
  "tbl_abs key val xs k = map_option (\<lambda>i. val (xs ! i)) (find_idx (\<lambda>s. key s = Some k) xs)"

definition keys_distinct :: "('s \<Rightarrow> 'k option) \<Rightarrow> 's list \<Rightarrow> bool" where
  "keys_distinct key xs \<longleftrightarrow>
     (\<forall>i < length xs. \<forall>j < length xs. key (xs ! i) = key (xs ! j) \<longrightarrow> key (xs ! i) \<noteq> None \<longrightarrow> i = j)"

definition tbl_inv :: "('s \<Rightarrow> 'k option) \<Rightarrow> ('s \<Rightarrow> bool) \<Rightarrow> 's list \<Rightarrow> bool" where
  "tbl_inv key valid xs \<longleftrightarrow> (\<forall>s \<in> set xs. valid s) \<and> keys_distinct key xs"

lemma tbl_invD:
  assumes "tbl_inv key valid xs" and "i < length xs"
  shows "valid (xs ! i)"
    and "j < length xs \<Longrightarrow> key (xs ! i) = Some k \<Longrightarrow> key (xs ! j) = Some k \<Longrightarrow> i = j"
  using assms by (auto simp: tbl_inv_def keys_distinct_def)

text \<open>A key is found at the one slot that has it.\<close>

lemma find_key:
  assumes "tbl_inv key valid xs" and "i < length xs" and "key (xs ! i) = Some k"
  shows "find_idx (\<lambda>s. key s = Some k) xs = Some i"
proof -
  have "key (xs ! j) \<noteq> Some k" if "j < i" for j
    using tbl_invD(2) [OF assms(1,2), of j k] assms(2,3) that by auto
  then show ?thesis using assms(2,3) by (simp add: find_idx_Some_iff)
qed

lemma tbl_abs_slot:
  assumes "tbl_inv key valid xs" and "i < length xs" and "key (xs ! i) = Some k"
  shows "tbl_abs key val xs k = Some (val (xs ! i))"
  by (simp add: tbl_abs_def find_key [OF assms])

lemma tbl_abs_None_iff: "tbl_abs key val xs k = None \<longleftrightarrow> (\<forall>s \<in> set xs. key s \<noteq> Some k)"
  by (simp add: tbl_abs_def find_idx_None_iff)

lemma tbl_abs_SomeE:
  assumes "tbl_abs key val xs k = Some v"
  obtains i where "i < length xs" and "key (xs ! i) = Some k" and "v = val (xs ! i)"
  using assms by (auto simp: tbl_abs_def find_idx_Some_iff)

lemma tbl_abs_eqI:
  assumes "tbl_inv key valid xs"
    and "\<And>i. i < length xs \<Longrightarrow> key (xs ! i) = Some k \<Longrightarrow> v = Some (val (xs ! i))"
    and "(\<And>i. i < length xs \<Longrightarrow> key (xs ! i) \<noteq> Some k) \<Longrightarrow> v = None"
  shows "tbl_abs key val xs k = v"
proof (cases "\<exists>i < length xs. key (xs ! i) = Some k")
  case True
  then obtain i where "i < length xs" "key (xs ! i) = Some k" by blast
  then show ?thesis using assms(2) tbl_abs_slot [OF assms(1)] by simp
next
  case False
  then have "tbl_abs key val xs k = None"
    unfolding tbl_abs_None_iff by (metis in_set_conv_nth)
  then show ?thesis using assms(3) False by simp
qed

text \<open>Changing one slot: its old key leaves the map, its new key (if any) enters it.\<close>

definition key_fresh :: "('s \<Rightarrow> 'k option) \<Rightarrow> 's list \<Rightarrow> nat \<Rightarrow> 's \<Rightarrow> bool" where
  "key_fresh key xs i s \<longleftrightarrow>
     (\<forall>k j. key s = Some k \<longrightarrow> j < length xs \<longrightarrow> j \<noteq> i \<longrightarrow> key (xs ! j) \<noteq> Some k)"

lemma key_freshD:
  "key_fresh key xs i s \<Longrightarrow> key s = Some k \<Longrightarrow> j < length xs \<Longrightarrow> j \<noteq> i \<Longrightarrow> key (xs ! j) \<noteq> Some k"
  by (simp add: key_fresh_def)

lemma key_fresh_same:
  assumes "tbl_inv key valid xs" and "i < length xs" and "key s = key (xs ! i)"
  shows "key_fresh key xs i s"
  unfolding key_fresh_def using assms(3) tbl_invD(2) [OF assms(1,2)] by metis

lemma key_fresh_None [simp]: "key s = None \<Longrightarrow> key_fresh key xs i s"
  by (simp add: key_fresh_def)

lemma key_fresh_new:
  "key s = Some k \<Longrightarrow> (\<And>t. t \<in> set xs \<Longrightarrow> key t \<noteq> Some k) \<Longrightarrow> key_fresh key xs i s"
  by (simp add: key_fresh_def)

lemma tbl_inv_update:
  assumes "tbl_inv key valid xs" and "i < length xs" and "valid s"
    and "key_fresh key xs i s"
  shows "tbl_inv key valid (xs[i := s])"
proof -
  have "\<forall>t \<in> set (xs[i := s]). valid t"
    using assms(1,3) set_update_subset_insert [of xs i s] by (auto simp: tbl_inv_def)
  moreover have "keys_distinct key (xs[i := s])"
    unfolding keys_distinct_def length_list_update
  proof (intro allI impI)
    fix a b
    assume ab: "a < length xs" "b < length xs" "key (xs[i := s] ! a) = key (xs[i := s] ! b)"
      "key (xs[i := s] ! a) \<noteq> None"
    then obtain k where "key (xs[i := s] ! a) = Some k" "key (xs[i := s] ! b) = Some k" by auto
    then show "a = b"
      using ab(1,2) key_freshD [OF assms(4), of k a] key_freshD [OF assms(4), of k b] tbl_invD(2) [OF assms(1) ab(1,2), of k]
      by (cases "a = i"; cases "b = i") simp_all
  qed
  ultimately show ?thesis by (simp add: tbl_inv_def)
qed

lemma tbl_abs_update:
  assumes "tbl_inv key valid xs" and "i < length xs" and "valid s"
    and "key_fresh key xs i s"
  shows "tbl_abs key val (xs[i := s]) k =
    (if key s = Some k then Some (val s)
     else if key (xs ! i) = Some k then None else tbl_abs key val xs k)"
proof -
  note inv' = tbl_inv_update [OF assms]
  show ?thesis
  proof (rule tbl_abs_eqI [OF inv'])
    fix a assume a: "a < length (xs[i := s])" "key (xs[i := s] ! a) = Some k"
    show "(if key s = Some k then Some (val s)
        else if key (xs ! i) = Some k then None else tbl_abs key val xs k)
        = Some (val (xs[i := s] ! a))"
      using a key_freshD [OF assms(4), of k a] tbl_abs_slot [OF assms(1), of a k val]
        tbl_invD(2) [OF assms(1,2), of a k]
      by (cases "a = i"; cases "key s = Some k"; cases "key (xs ! i) = Some k") simp_all
  next
    assume none: "\<And>a. a < length (xs[i := s]) \<Longrightarrow> key (xs[i := s] ! a) \<noteq> Some k"
    then have "key s \<noteq> Some k" using assms(2) by fastforce
    moreover have "tbl_abs key val xs k = None" if "key (xs ! i) \<noteq> Some k"
    proof -
      have "key (xs ! a) \<noteq> Some k" if "a < length xs" for a
        using none [of a] that \<open>key (xs ! i) \<noteq> Some k\<close> by (cases "a = i") simp_all
      then show ?thesis by (auto simp: tbl_abs_None_iff in_set_conv_nth)
    qed
    ultimately show "(if key s = Some k then Some (val s)
        else if key (xs ! i) = Some k then None else tbl_abs key val xs k) = None"
      by simp
  qed
qed

lemma tbl_inv_replicate: "valid s \<Longrightarrow> key s = None \<Longrightarrow> tbl_inv key valid (replicate n s)"
  by (auto simp: tbl_inv_def keys_distinct_def)

lemma tbl_abs_empty: "(\<And>s. s \<in> set xs \<Longrightarrow> key s = None) \<Longrightarrow> tbl_abs key val xs = Map.empty"
  by (rule ext) (auto simp: tbl_abs_None_iff)

lemma tbl_inv_map_None:
  assumes "\<And>s. s \<in> set xs \<Longrightarrow> valid (f s) \<and> key (f s) = None"
  shows "tbl_inv key valid (map f xs)"
  using assms by (auto simp: tbl_inv_def keys_distinct_def)

text \<open>
  The size of the map is the number of slots with a key.
\<close>

lemma dom_tbl_abs: "dom (tbl_abs key val xs) = {k. \<exists>s \<in> set xs. key s = Some k}"
proof (rule set_eqI)
  fix k
  show "k \<in> dom (tbl_abs key val xs) \<longleftrightarrow> k \<in> {k. \<exists>s \<in> set xs. key s = Some k}"
    unfolding domIff tbl_abs_None_iff by simp
qed

lemma card_dom_tbl_abs:
  assumes "keys_distinct key xs"
  shows "card (dom (tbl_abs key val xs)) = length (filter (\<lambda>s. key s \<noteq> None) xs)"
proof -
  let ?I = "{i. i < length xs \<and> key (xs ! i) \<noteq> None}"
  have "dom (tbl_abs key val xs) = (\<lambda>i. the (key (xs ! i))) ` ?I"
    unfolding dom_tbl_abs by (fastforce simp: in_set_conv_nth image_iff)
  moreover have "inj_on (\<lambda>i. the (key (xs ! i))) ?I"
    using assms by (auto simp: inj_on_def keys_distinct_def)
  ultimately show ?thesis
    by (simp add: card_image length_filter_conv_card)
qed

text \<open>Tables as lists of their used entries: compacting a table keeps its map.\<close>

lemma keys_distinct_Cons:
  "keys_distinct key (x # xs) \<longleftrightarrow> (key x \<noteq> None \<longrightarrow> key x \<notin> key ` set xs) \<and> keys_distinct key xs"
proof -
  have split: "(\<forall>i < Suc n. P i) \<longleftrightarrow> P 0 \<and> (\<forall>i < n. P (Suc i))" for n :: nat and P
    by (metis less_Suc_eq_0_disj)
  have img: "key x \<in> key ` set xs \<longleftrightarrow> (\<exists>j < length xs. key (xs ! j) = key x)"
    unfolding image_iff by (metis in_set_conv_nth)
  show ?thesis
    unfolding keys_distinct_def length_Cons split nth_Cons_0 nth_Cons_Suc img by auto
qed

lemma set_map_filter: "set (List.map_filter f xs) = {k. \<exists>x \<in> set xs. f x = Some k}"
  by (induction xs) (auto simp: map_filter_simps split: option.splits)

lemma keys_distinct_compact:
  "keys_distinct key xs \<longleftrightarrow> distinct (List.map_filter key xs)"
proof (induction xs)
  case (Cons x xs)
  show ?case
    using Cons
    by (cases "key x") (auto simp: keys_distinct_Cons map_filter_simps set_map_filter image_iff)
qed (simp add: keys_distinct_def map_filter_simps)

lemma tbl_abs_compact:
  "tbl_abs key val xs =
     map_of (List.map_filter (\<lambda>s. map_option (\<lambda>k. (k, val s)) (key s)) xs)"
proof (rule ext)
  fix k
  show "tbl_abs key val xs k =
      map_of (List.map_filter (\<lambda>s. map_option (\<lambda>k. (k, val s)) (key s)) xs) k"
  proof (induction xs)
    case (Cons x xs)
    then show ?case
      by (cases "key x") (auto simp: tbl_abs_def map_filter_simps option.map_comp comp_def)
  qed (simp add: tbl_abs_def map_filter_simps)
qed

lemma map_filter_append: "List.map_filter f (xs @ ys) = List.map_filter f xs @ List.map_filter f ys"
  by (simp add: map_filter_def)

lemma map_filter_blank: "(\<And>x. x \<in> set xs \<Longrightarrow> f x = None) \<Longrightarrow> List.map_filter f xs = []"
  by (induction xs) (auto simp: map_filter_simps)

lemma map_filter_used:
  "(\<And>x. \<not> P x \<Longrightarrow> f x = None) \<Longrightarrow> (\<And>x. x \<in> set xs \<Longrightarrow> P x \<Longrightarrow> f (g x) = f x) \<Longrightarrow>
   List.map_filter f (map g (filter P xs)) = List.map_filter f xs"
  by (induction xs) (auto simp: map_filter_simps split: option.splits)

section \<open>The interface of a table with lookup, insertion and deletion\<close>

text \<open>
  What a client of such a table relies on: the state stands for a map, \<open>get\<close> finds the
  slot of a key, and the operations change the map at one key.
\<close>

locale slot_table =
  fixes inv :: "'st \<Rightarrow> bool" and lookup :: "'st \<Rightarrow> 'k \<Rightarrow> 'v option"
    and good :: "'k \<Rightarrow> bool" and mk :: "'a \<Rightarrow> 'v"
    and put :: "'k \<Rightarrow> 'a \<Rightarrow> 'st \<Rightarrow> bool \<times> 'st" and del :: "'k \<Rightarrow> 'st \<Rightarrow> 'st"
    and capacity :: nat
  assumes put_inv: "inv st \<Longrightarrow> good k \<Longrightarrow> put k v st = (ok, st') \<Longrightarrow> inv st'"
    and put_lookup: "inv st \<Longrightarrow> good k \<Longrightarrow> put k v st = (ok, st') \<Longrightarrow>
      lookup st' = (if ok then (lookup st)(k \<mapsto> mk v) else lookup st)"
    and put_fresh: "inv st \<Longrightarrow> good k \<Longrightarrow> put k v st = (True, st') \<Longrightarrow> lookup st k = None"
    and del_inv: "inv st \<Longrightarrow> good k \<Longrightarrow> inv (del k st)"
    and del_lookup: "inv st \<Longrightarrow> good k \<Longrightarrow> lookup (del k st) = (lookup st)(k := None)"
    and bounded: "inv st \<Longrightarrow> finite (dom (lookup st)) \<and> card (dom (lookup st)) \<le> capacity"
begin

lemma del_put:
  assumes "inv st" and "good k" and "put k v st = (True, st')"
  shows "lookup (del k st') = lookup st"
proof -
  have "inv st'" using put_inv [OF assms] .
  then have "lookup (del k st') = (lookup st')(k := None)" using del_lookup assms(2) by blast
  then show ?thesis
    using put_lookup [OF assms] put_fresh [OF assms] by (auto simp: fun_eq_iff)
qed

text \<open>A table that is full takes no new key.\<close>

lemma full:
  assumes "inv st" and "card (dom (lookup st)) = capacity" and "good k"
    and "put k v st = (ok, st')"
  shows "\<not> ok"
proof
  assume ok
  then have "lookup st' = (lookup st)(k \<mapsto> mk v)" "lookup st k = None"
    using put_lookup [OF assms(1,3,4)] put_fresh [OF assms(1,3)] assms(4) by auto
  then have "card (dom (lookup st')) = Suc capacity"
    using assms(2) bounded [OF assms(1)] by (simp add: domIff)
  then show False using bounded [OF put_inv [OF assms(1,3,4)]] by simp
qed

text \<open>A sequence of insertions that all succeed adds exactly the inserted keys.\<close>

fun put_all :: "('k \<times> 'a) list \<Rightarrow> 'st \<Rightarrow> bool \<times> 'st" where
  "put_all [] st = (True, st)"
| "put_all ((k, v) # kvs) st =
     (case put k v st of (ok, st1) \<Rightarrow> if ok then put_all kvs st1 else (False, st1))"

lemma put_all_lookup:
  assumes "inv st" and "\<forall>(k, v) \<in> set kvs. good k" and "put_all kvs st = (True, st')"
  shows "inv st' \<and> distinct (map fst kvs) \<and> (\<forall>k \<in> fst ` set kvs. lookup st k = None)
    \<and> lookup st' = lookup st ++ map_of (map (\<lambda>(k, v). (k, mk v)) kvs)"
  using assms
proof (induction kvs arbitrary: st)
  case (Cons kv kvs)
  obtain k v where kv: "kv = (k, v)" by (cases kv)
  obtain ok st1 where put: "put k v st = (ok, st1)" by (cases "put k v st")
  then have ok: "ok" and rest: "put_all kvs st1 = (True, st')"
    using Cons.prems(3) by (auto simp: kv split: if_splits)
  have good: "good k" using Cons.prems(2) by (simp add: kv)
  have inv1: "inv st1" using put_inv [OF Cons.prems(1) good put] .
  have look1: "lookup st1 = (lookup st)(k \<mapsto> mk v)" "lookup st k = None"
    using put_lookup [OF Cons.prems(1) good put] put_fresh [OF Cons.prems(1) good] put ok by auto
  from Cons.IH [OF inv1 _ rest] Cons.prems(2)
  have IH: "inv st'" "distinct (map fst kvs)" "\<forall>k \<in> fst ` set kvs. lookup st1 k = None"
    "lookup st' = lookup st1 ++ map_of (map (\<lambda>(k, v). (k, mk v)) kvs)" by auto
  have "k \<notin> fst ` set kvs" using IH(3) look1(1) by auto
  moreover have "map_of (map (\<lambda>(k, v). (k, mk v)) kvs) k = None"
    using calculation by (auto simp: map_of_eq_None_iff image_image case_prod_unfold)
  moreover have "lookup st l = None" if "l \<in> fst ` set kvs" for l
    using IH(3) that look1(1) calculation(1) by (metis fun_upd_other)
  ultimately show ?case
    using IH look1 by (simp add: kv map_add_upd_left domIff)
      (auto simp: fun_eq_iff map_add_def split: option.splits)
qed simp

end

end
