(* ===== verification/Provisioning.thy ===== *)
theory Provisioning
  imports Slot_Table
begin

unbundle bit_operations_syntax

text \<open>
  The provisioning list of \<^verbatim>\<open>src/provisioning_list.c\<close>: a table of devices, each identified
  by its DSK and carrying a list of TLVs, mirrored in a store file.  The table is refined to
  a finite map from DSKs to devices; the store file is shown to bring the same map back
  after a restart.

  Memory and files are the parts of the C library the code uses: \<open>heap_ok n\<close> tells whether
  the \<open>n\<close>-th allocation succeeds, \<open>can_create f\<close> whether \<open>fopen (f, w)\<close> does, and \<open>files f\<close> is
  the contents of \<open>f\<close> as the sequence of the objects written to it.
\<close>

section \<open>The code\<close>

datatype pvs_result_t = PVS_ERROR | PVS_SUCCESS

definition PROVISIONING_LIST_SIZE :: nat where "PROVISIONING_LIST_SIZE = 1000"
definition PROVISIONING_LIST_DSK_MAX_SIZE :: nat where "PROVISIONING_LIST_DSK_MAX_SIZE = 16"

definition PVS_TLV_TYPE_PRODUCT_TYPE :: u8 where "PVS_TLV_TYPE_PRODUCT_TYPE = 0"
definition PVS_TLV_TYPE_PRODUCT_ID :: u8 where "PVS_TLV_TYPE_PRODUCT_ID = 1"
definition PVS_TLV_TYPE_MAX_INCL_REQ_INTERVAL :: u8 where "PVS_TLV_TYPE_MAX_INCL_REQ_INTERVAL = 2"
definition PVS_TLV_TYPE_UUID16 :: u8 where "PVS_TLV_TYPE_UUID16 = 3"
definition PVS_TLV_TYPE_NAME :: u8 where "PVS_TLV_TYPE_NAME = 0x32"
definition PVS_TLV_TYPE_LOCATION :: u8 where "PVS_TLV_TYPE_LOCATION = 0x33"
definition PVS_TLV_TYPE_STATUS :: u8 where "PVS_TLV_TYPE_STATUS = 0x34"
definition PVS_TLV_TYPE_ADV_JOIN :: u8 where "PVS_TLV_TYPE_ADV_JOIN = 0x35"
definition PVS_TLV_TYPE_BOOTSTRAP_MODE :: u8 where "PVS_TLV_TYPE_BOOTSTRAP_MODE = 0x36"
definition PVS_TLV_TYPE_NETWORK_INFO :: u8 where "PVS_TLV_TYPE_NETWORK_INFO = 0x37"

definition PVS_BOOTMODE_S2 :: nat where "PVS_BOOTMODE_S2 = 0"
definition PVS_BOOTMODE_SMART_START :: nat where "PVS_BOOTMODE_SMART_START = 1"
definition PVS_BOOTMODE_LONG_RANGE_SMART_START :: nat where
  "PVS_BOOTMODE_LONG_RANGE_SMART_START = 2"
definition PVS_STATUS_PENDING :: nat where "PVS_STATUS_PENDING = 0"
definition PVS_STATUS_PASSIVE :: nat where "PVS_STATUS_PASSIVE = 2"
definition PVS_STATUS_IGNORED :: nat where "PVS_STATUS_IGNORED = 3"

lemmas pvs_consts = PROVISIONING_LIST_DSK_MAX_SIZE_def
  PVS_TLV_TYPE_PRODUCT_TYPE_def PVS_TLV_TYPE_PRODUCT_ID_def PVS_TLV_TYPE_MAX_INCL_REQ_INTERVAL_def
  PVS_TLV_TYPE_UUID16_def PVS_TLV_TYPE_NAME_def PVS_TLV_TYPE_LOCATION_def PVS_TLV_TYPE_STATUS_def
  PVS_TLV_TYPE_ADV_JOIN_def PVS_TLV_TYPE_BOOTSTRAP_MODE_def PVS_TLV_TYPE_NETWORK_INFO_def
  PVS_BOOTMODE_S2_def PVS_BOOTMODE_SMART_START_def PVS_BOOTMODE_LONG_RANGE_SMART_START_def
  PVS_STATUS_PENDING_def PVS_STATUS_PASSIVE_def PVS_STATUS_IGNORED_def

text \<open>A TLV; the \<^verbatim>\<open>next\<close> links are the order of the list.\<close>

record pvs_tlv =
  tlv_type :: u8
  tlv_length :: u8
  tlv_value :: bytes

text \<open>The DSK pointer of a slot: null, an allocated block, or a block already freed.\<close>

datatype dsk_ptr = DskNull | DskPtr bytes | DskFreed

record provision =
  dsk :: dsk_ptr
  dsk_len :: u8
  pvs_status :: nat
  bootmode :: nat
  tlv_list :: "pvs_tlv list"

text \<open>
  The objects the store file is made of: the file header, the header of an entry, the image of
  a \<^verbatim>\<open>struct provision\<close> (of its pointers only \<^verbatim>\<open>tlv_list != NULL\<close> is ever used), the image of
  a \<^verbatim>\<open>struct pvs_tlv\<close> (with \<^verbatim>\<open>next != NULL\<close>) and raw bytes.
\<close>

datatype pvs_chunk =
    Ch_header string
  | Ch_entry nat
  | Ch_provision u8 nat nat bool
  | Ch_tlv u8 u8 bool
  | Ch_bytes bytes

record pvs_state =
  pvs_list :: "provision list"
  pvs_store_filename :: "string option"
  files :: "string \<Rightarrow> pvs_chunk list option"
  can_create :: "string \<Rightarrow> bool"
  heap_ok :: "nat \<Rightarrow> bool"
  n_alloc :: nat

definition pvs_malloc :: "pvs_state \<Rightarrow> bool \<times> pvs_state" where
  "pvs_malloc st = (heap_ok st (n_alloc st), st\<lparr>n_alloc := Suc (n_alloc st)\<rparr>)"

definition fopen_w :: "string \<Rightarrow> pvs_state \<Rightarrow> bool \<times> pvs_state" where
  "fopen_w f st =
     (if can_create st f then (True, st\<lparr>files := (files st)(f := Some [])\<rparr>) else (False, st))"

definition pvs_store_hdr :: string where "pvs_store_hdr = ''zgwpvsstorev1.0''"

text \<open>\<open>memcmp\<close> of a block with a buffer: equality of the first \<open>n\<close> bytes.\<close>

definition mem_eq :: "nat \<Rightarrow> dsk_ptr \<Rightarrow> nat \<Rightarrow> bytes \<Rightarrow> bool" where
  "mem_eq n p start buf =
     (case p of DskPtr b \<Rightarrow> take n (drop start b) = take n buf | _ \<Rightarrow> False)"

subsection \<open>The store file\<close>

fun store_tlvs :: "pvs_tlv list \<Rightarrow> pvs_chunk list" where
  "store_tlvs [] = []"
| "store_tlvs (t # ts) =
     Ch_tlv (tlv_type t) (tlv_length t) (ts \<noteq> [])
     # Ch_bytes (take (unat (tlv_length t)) (tlv_value t)) # store_tlvs ts"

definition dsk_bytes :: "provision \<Rightarrow> bytes" where
  "dsk_bytes p = (case dsk p of DskPtr b \<Rightarrow> b | _ \<Rightarrow> [])"

definition pvs_list_dev_store :: "provision \<Rightarrow> nat \<Rightarrow> pvs_chunk list" where
  "pvs_list_dev_store p ii =
     Ch_entry ii
     # Ch_provision (dsk_len p) (pvs_status p) (bootmode p) (tlv_list p \<noteq> [])
     # Ch_bytes (take (unat (dsk_len p)) (dsk_bytes p)) # store_tlvs (tlv_list p)"

text \<open>The loop over the slots from index \<open>ii\<close> on.\<close>

fun store_slots :: "nat \<Rightarrow> provision list \<Rightarrow> pvs_chunk list" where
  "store_slots ii [] = []"
| "store_slots ii (p # ps) =
     (if dsk_len p \<noteq> 0 then pvs_list_dev_store p ii else []) @ store_slots (Suc ii) ps"

definition pvs_list_persist_in_file :: "pvs_state \<Rightarrow> pvs_state" where
  "pvs_list_persist_in_file st =
     (case pvs_store_filename st of
        None \<Rightarrow> st
      | Some f \<Rightarrow>
          (case fopen_w f st of
             (False, st) \<Rightarrow> st
           | (True, st) \<Rightarrow>
               st\<lparr>files := (files st)(f := Some (Ch_header pvs_store_hdr
                     # store_slots 0 (pvs_list st)))\<rparr>))"

subsection \<open>TLVs\<close>

definition pvs_tlv_insert_front :: "pvs_tlv list \<Rightarrow> pvs_tlv \<Rightarrow> pvs_tlv list" where
  "pvs_tlv_insert_front tlvs new = new # tlvs"

text \<open>The first TLV of a type, as its position in the list.\<close>

definition pvs_tlv_get :: "pvs_tlv list \<Rightarrow> u8 \<Rightarrow> nat option" where
  "pvs_tlv_get tlvs type = find_idx (\<lambda>t. tlv_type t = type) tlvs"

text \<open>
  \<open>pvs_tlv_set\<close> on the TLV list of an entry; \<open>tmp_tlv\<close> is the position of the TLV to
  overwrite, if there is one.
\<close>

definition pvs_tlv_set ::
  "pvs_tlv list \<Rightarrow> u8 \<Rightarrow> u8 \<Rightarrow> bytes \<Rightarrow> nat option \<Rightarrow> pvs_state
     \<Rightarrow> pvs_result_t \<times> pvs_tlv list \<times> pvs_state" where
  "pvs_tlv_set tlvs type len val tmp_tlv st =
     (case pvs_malloc st of
        (False, st) \<Rightarrow> (PVS_ERROR, tlvs, st)
      | (True, st) \<Rightarrow>
          let new = \<lparr>tlv_type = type, tlv_length = len, tlv_value = take (unat len) val\<rparr>
          in (case tmp_tlv of
                None \<Rightarrow>
                  (case pvs_malloc st of
                     (False, st) \<Rightarrow> (PVS_ERROR, tlvs, st)
                   | (True, st) \<Rightarrow> (PVS_SUCCESS, pvs_tlv_insert_front tlvs new, st))
              | Some k \<Rightarrow> (PVS_SUCCESS, tlvs[k := new], st)))"

text \<open>Unlinking the first TLV of a type, if there is one.\<close>

fun tlv_unlink :: "u8 \<Rightarrow> pvs_tlv list \<Rightarrow> pvs_tlv list option" where
  "tlv_unlink type [] = None"
| "tlv_unlink type (t # ts) =
     (if tlv_type t = type then Some ts else map_option ((#) t) (tlv_unlink type ts))"

text \<open>The slot \<open>i\<close> of the table, updated.\<close>

definition pvs_upd :: "nat \<Rightarrow> (provision \<Rightarrow> provision) \<Rightarrow> pvs_state \<Rightarrow> pvs_state" where
  "pvs_upd i f st = st\<lparr>pvs_list := upd_idx i f (pvs_list st)\<rparr>"

text \<open>A pointer to a provision is the index of its slot; \<open>None\<close> is the null pointer.\<close>

definition provisioning_list_tlv_get :: "pvs_state \<Rightarrow> nat option \<Rightarrow> u8 \<Rightarrow> nat option" where
  "provisioning_list_tlv_get st pvs type =
     (case pvs of
        None \<Rightarrow> None
      | Some i \<Rightarrow> if dsk_len (pvs_list st ! i) = 0 then None
                  else pvs_tlv_get (tlv_list (pvs_list st ! i)) type)"

definition provisioning_list_tlv_set ::
  "nat option \<Rightarrow> u8 \<Rightarrow> u8 \<Rightarrow> bytes option \<Rightarrow> pvs_state \<Rightarrow> pvs_result_t \<times> pvs_state" where
  "provisioning_list_tlv_set pvs type len val st =
     (case (pvs, val) of
        (Some i, Some v) \<Rightarrow>
          if 0 < dsk_len (pvs_list st ! i) \<and> 0 < len then
            (let tmp_tlv = provisioning_list_tlv_get st pvs type
             in (case pvs_tlv_set (tlv_list (pvs_list st ! i)) type len v tmp_tlv st of
                   (PVS_SUCCESS, tlvs, st) \<Rightarrow>
                     (PVS_SUCCESS,
                      pvs_list_persist_in_file (pvs_upd i (tlv_list_update (\<lambda>_. tlvs)) st))
                 | (PVS_ERROR, tlvs, st) \<Rightarrow>
                     (PVS_ERROR, pvs_upd i (tlv_list_update (\<lambda>_. tlvs)) st)))
          else (PVS_ERROR, st)
      | _ \<Rightarrow> (PVS_ERROR, st))"

definition provisioning_list_tlv_remove ::
  "nat option \<Rightarrow> u8 \<Rightarrow> pvs_state \<Rightarrow> pvs_result_t \<times> pvs_state" where
  "provisioning_list_tlv_remove pvs type st =
     (case pvs of
        None \<Rightarrow> (PVS_ERROR, st)
      | Some i \<Rightarrow>
          if dsk_len (pvs_list st ! i) = 0 then (PVS_ERROR, st)
          else (case tlv_unlink type (tlv_list (pvs_list st ! i)) of
                  None \<Rightarrow> (PVS_ERROR, st)
                | Some tlvs \<Rightarrow>
                    (PVS_SUCCESS,
                     pvs_list_persist_in_file (pvs_upd i (tlv_list_update (\<lambda>_. tlvs)) st))))"

definition provisioning_list_tlv_crt_flag :: "u8 \<Rightarrow> u8" where
  "provisioning_list_tlv_crt_flag type = (if type = PVS_TLV_TYPE_ADV_JOIN then 0x01 else 0)"

subsection \<open>Devices\<close>

definition provisioning_list_dev_get :: "pvs_state \<Rightarrow> u8 \<Rightarrow> bytes \<Rightarrow> nat option" where
  "provisioning_list_dev_get st len key =
     (if len < 4 then None
      else find_idx (\<lambda>p. \<not> (dsk_len p \<noteq> len \<or> dsk p = DskNull) \<and> mem_eq (unat len) (dsk p) 0 key)
             (pvs_list st))"

definition provisioning_list_tlv_dsk_get :: "pvs_state \<Rightarrow> u8 \<Rightarrow> bytes \<Rightarrow> u8 \<Rightarrow> nat option" where
  "provisioning_list_tlv_dsk_get st len key type =
     (case provisioning_list_dev_get st len key of
        None \<Rightarrow> None
      | Some i \<Rightarrow> pvs_tlv_get (tlv_list (pvs_list st ! i)) type)"

text \<open>The home id a device with this DSK would use in the S2 inclusion.\<close>

definition homeid_of_dsk :: "bytes \<Rightarrow> bytes" where
  "homeid_of_dsk b = [b ! 8 OR 0xC0, b ! 9, b ! 10, b ! 11 AND 0xFE]"

definition provisioning_list_dev_get_homeid :: "pvs_state \<Rightarrow> bytes \<Rightarrow> nat option" where
  "provisioning_list_dev_get_homeid st homeid =
     find_idx (\<lambda>p. \<not> (dsk_len p < 12 \<or> dsk p = DskNull)
         \<and> (case dsk p of DskPtr b \<Rightarrow> homeid_of_dsk b = take 4 homeid | _ \<Rightarrow> False))
       (pvs_list st)"

definition pvs_dev_get_idx :: "pvs_state \<Rightarrow> u8 \<Rightarrow> bytes \<Rightarrow> u8 \<Rightarrow> nat option" where
  "pvs_dev_get_idx st len key start_idx =
     (let min_len = unat len + unat start_idx
      in find_idx (\<lambda>p. \<not> (unat (dsk_len p) < min_len \<or> dsk p = DskNull)
             \<and> mem_eq (unat len) (dsk p) (unat start_idx) key) (pvs_list st))"

definition provisioning_list_dev_match_challenge :: "pvs_state \<Rightarrow> u8 \<Rightarrow> bytes \<Rightarrow> nat option" where
  "provisioning_list_dev_match_challenge st challenge_len challenge =
     (if challenge_len \<le> 2 then None
      else let challenge_len = (if 16 < challenge_len then 16 else challenge_len)
           in pvs_dev_get_idx st (challenge_len - 2) (drop 2 challenge) 2)"

definition pvs_dev_add :: "u8 \<Rightarrow> bytes \<Rightarrow> nat \<Rightarrow> pvs_state \<Rightarrow> nat option \<times> pvs_state" where
  "pvs_dev_add len key bm st =
     (case find_idx (\<lambda>p. dsk_len p = 0) (pvs_list st) of
        None \<Rightarrow> (None, st)
      | Some i \<Rightarrow>
          (case pvs_malloc st of
             (False, st) \<Rightarrow> (None, pvs_upd i (dsk_update (\<lambda>_. DskNull)) st)
           | (True, st) \<Rightarrow>
               (Some i,
                pvs_list_persist_in_file
                  (pvs_upd i (\<lambda>_. \<lparr>dsk = DskPtr (take (unat len) key), dsk_len = len,
                       pvs_status = PVS_STATUS_PENDING, bootmode = bm, tlv_list = []\<rparr>) st))))"

definition provisioning_list_dev_add ::
  "u8 \<Rightarrow> bytes \<Rightarrow> nat \<Rightarrow> pvs_state \<Rightarrow> nat option \<times> pvs_state" where
  "provisioning_list_dev_add len key bm st =
     (if len < 4 then (None, st)
      else if provisioning_list_dev_get st len key \<noteq> None then (None, st)
      else pvs_dev_add len key bm st)"

definition provisioning_list_dev_set ::
  "u8 \<Rightarrow> bytes \<Rightarrow> nat \<Rightarrow> pvs_state \<Rightarrow> nat option \<times> pvs_state" where
  "provisioning_list_dev_set len key bm st =
     (if len < 4 then (None, st)
      else (case provisioning_list_dev_get st len key of
              Some i \<Rightarrow> (Some i, pvs_list_persist_in_file (pvs_upd i (bootmode_update (\<lambda>_. bm)) st))
            | None \<Rightarrow> pvs_dev_add len key bm st))"

definition provisioning_list_dev_remove :: "u8 \<Rightarrow> bytes \<Rightarrow> pvs_state \<Rightarrow> pvs_result_t \<times> pvs_state" where
  "provisioning_list_dev_remove len key st =
     (if len < 4 then (PVS_ERROR, st)
      else (case find_idx (\<lambda>p. dsk p \<noteq> DskNull \<and> dsk_len p = len \<and> mem_eq (unat len) (dsk p) 0 key)
                   (pvs_list st) of
              None \<Rightarrow> (PVS_ERROR, st)
            | Some i \<Rightarrow>
                (PVS_SUCCESS,
                 pvs_list_persist_in_file
                   (pvs_upd i (\<lambda>p. p\<lparr>dsk_len := 0, dsk := DskFreed, tlv_list := []\<rparr>) st))))"

definition provisioning_list_bootmode_set ::
  "nat option \<Rightarrow> nat \<Rightarrow> pvs_state \<Rightarrow> pvs_result_t \<times> pvs_state" where
  "provisioning_list_bootmode_set pvs bm st =
     (case pvs of
        None \<Rightarrow> (PVS_ERROR, st)
      | Some i \<Rightarrow>
          (PVS_SUCCESS, pvs_list_persist_in_file (pvs_upd i (bootmode_update (\<lambda>_. bm)) st)))"

definition provisioning_list_status_set ::
  "nat option \<Rightarrow> nat \<Rightarrow> pvs_state \<Rightarrow> pvs_result_t \<times> pvs_state" where
  "provisioning_list_status_set pvs s st =
     (case pvs of
        None \<Rightarrow> (PVS_ERROR, st)
      | Some i \<Rightarrow>
          (PVS_SUCCESS, pvs_list_persist_in_file (pvs_upd i (pvs_status_update (\<lambda>_. s)) st)))"

subsection \<open>The whole list\<close>

definition provisioning_list_get_count :: "pvs_state \<Rightarrow> nat" where
  "provisioning_list_get_count st = length (filter (\<lambda>p. dsk_len p \<noteq> 0) (pvs_list st))"

text \<open>\<open>rd\<close> is the lookup by DSK in the resource directory, \<open>rd_lookup_by_dsk\<close>.\<close>

definition provisioning_list_pending_count :: "(bytes \<Rightarrow> 'n option) \<Rightarrow> pvs_state \<Rightarrow> nat" where
  "provisioning_list_pending_count rd st =
     length (filter (\<lambda>p. dsk_len p \<noteq> 0 \<and> pvs_status p = PVS_STATUS_PENDING
         \<and> (bootmode p = PVS_BOOTMODE_SMART_START
            \<or> bootmode p = PVS_BOOTMODE_LONG_RANGE_SMART_START)
         \<and> rd (take (unat (dsk_len p)) (dsk_bytes p)) = None) (pvs_list st))"

definition provisioning_list_clear :: "pvs_state \<Rightarrow> pvs_state" where
  "provisioning_list_clear st =
     pvs_list_persist_in_file
       (st\<lparr>pvs_list := map (\<lambda>p. if dsk_len p = 0 then p
                                else p\<lparr>dsk_len := 0, dsk := DskNull, tlv_list := []\<rparr>) (pvs_list st)\<rparr>)"

record pvs_iter =
  it_cnt :: nat
  it_next :: nat
  it_id :: nat
  it_entries :: "(u8 \<times> bytes) list"

text \<open>The loop that copies the DSKs of the table into the iterator.\<close>

definition iter_entries :: "provision list \<Rightarrow> (u8 \<times> bytes) list" where
  "iter_entries ps =
     map (\<lambda>p. (dsk_len p, take (unat (dsk_len p)) (dsk_bytes p)))
       (filter (\<lambda>p. \<not> (dsk p = DskNull \<or> dsk_len p < 4
                        \<or> PROVISIONING_LIST_DSK_MAX_SIZE < unat (dsk_len p))) ps)"

definition provisioning_list_iterator_get :: "nat \<Rightarrow> pvs_state \<Rightarrow> pvs_iter option \<times> pvs_state" where
  "provisioning_list_iterator_get ident st =
     (let cnt = provisioning_list_get_count st
      in (case pvs_malloc st of
            (False, st) \<Rightarrow> (None, st)
          | (True, st) \<Rightarrow>
              if cnt = 0 then (Some \<lparr>it_cnt = 0, it_next = 0, it_id = ident, it_entries = []\<rparr>, st)
              else (case pvs_malloc st of
                      (False, st) \<Rightarrow> (None, st)
                    | (True, st) \<Rightarrow>
                        (let es = iter_entries (pvs_list st)
                         in (Some \<lparr>it_cnt = length es, it_next = 0, it_id = ident, it_entries = es\<rparr>, st)))))"

definition provisioning_list_iter_get_next ::
  "pvs_state \<Rightarrow> pvs_iter option \<Rightarrow> nat option \<times> pvs_iter option" where
  "provisioning_list_iter_get_next st iter =
     (case iter of
        None \<Rightarrow> (None, None)
      | Some it \<Rightarrow>
          if it_cnt it \<le> it_next it then (None, Some it)
          else (let (l, d) = it_entries it ! it_next it
                in (provisioning_list_dev_get st l d, Some (it\<lparr>it_next := it_next it + 1\<rparr>))))"

definition provisioning_list_iter_get_index :: "pvs_state \<Rightarrow> pvs_iter option \<Rightarrow> nat \<Rightarrow> nat option" where
  "provisioning_list_iter_get_index st iter idx =
     (case iter of
        None \<Rightarrow> None
      | Some it \<Rightarrow>
          if it_cnt it \<le> idx then None
          else (let (l, d) = it_entries it ! idx in provisioning_list_dev_get st l d))"


subsection \<open>Import and initialisation\<close>

text \<open>
  What reading back one entry gives.  \<open>Misread\<close> stands for a file that is not a sequence of
  complete entries: the code then goes on with uninitialised or misaligned data.
\<close>

datatype 'a imported = Imported 'a | Import_error | Misread

text \<open>The TLVs of an entry: the first one and the loop over \<^verbatim>\<open>tlv.next\<close>, which repeats its body.\<close>

fun import_tlvs ::
  "pvs_chunk list \<Rightarrow> pvs_tlv list \<Rightarrow> pvs_state
     \<Rightarrow> pvs_tlv list imported \<times> pvs_chunk list \<times> pvs_state" where
  "import_tlvs (Ch_tlv type len nx # Ch_bytes v # strm) tlvs st =
     (if len = 0 then (Import_error, strm, st)
      else if length v \<noteq> unat len then (Misread, strm, st)
      else (case pvs_tlv_set tlvs type len v None st of
              (PVS_ERROR, tlvs, st) \<Rightarrow> (Import_error, strm, st)
            | (PVS_SUCCESS, tlvs, st) \<Rightarrow>
                if nx then import_tlvs strm tlvs st else (Imported tlvs, strm, st)))"
| "import_tlvs [] tlvs st = (Import_error, [], st)"
| "import_tlvs [Ch_tlv type len nx] tlvs st = (Import_error, [], st)"
| "import_tlvs strm tlvs st = (Misread, strm, st)"

fun pvs_list_dev_import ::
  "pvs_chunk list \<Rightarrow> pvs_state \<Rightarrow> provision imported \<times> pvs_chunk list \<times> pvs_state" where
  "pvs_list_dev_import [] st = (Import_error, [], st)"
| "pvs_list_dev_import (Ch_entry n # Ch_provision len s bm has_tlvs # strm) st =
     (if len < 4 then (Import_error, strm, st)
      else (case pvs_malloc st of
              (False, st) \<Rightarrow> (Import_error, strm, st)
            | (True, st) \<Rightarrow>
                (case strm of
                   Ch_bytes d # strm \<Rightarrow>
                     if length d \<noteq> unat len then (Misread, strm, st)
                     else let p = \<lparr>dsk = DskPtr d, dsk_len = len, pvs_status = s, bootmode = bm,
                                   tlv_list = []\<rparr>
                          in if has_tlvs then
                               (case import_tlvs strm [] st of
                                  (Imported tlvs, strm, st) \<Rightarrow>
                                    (Imported (p\<lparr>tlv_list := tlvs\<rparr>), strm, st)
                                | (Import_error, strm, st) \<Rightarrow> (Import_error, strm, st)
                                | (Misread, strm, st) \<Rightarrow> (Misread, strm, st))
                             else (Imported p, strm, st)
                 | _ \<Rightarrow> (Misread, strm, st))))"
| "pvs_list_dev_import strm st = (Misread, strm, st)"

text \<open>The loop over the slots \<open>ii\<close>, \<open>ii + 1\<close>, \dots, of which \<open>k\<close> are left.\<close>

fun import_slots :: "nat \<Rightarrow> nat \<Rightarrow> pvs_chunk list \<Rightarrow> pvs_state \<Rightarrow> pvs_state option" where
  "import_slots 0 ii strm st = Some st"
| "import_slots (Suc k) ii strm st =
     (case pvs_list_dev_import strm st of
        (Imported p, strm, st) \<Rightarrow> import_slots k (ii + 1) strm (pvs_upd ii (\<lambda>_. p) st)
      | (Import_error, strm, st) \<Rightarrow> Some st
      | (Misread, strm, st) \<Rightarrow> None)"

definition pvs_list_import_file ::
  "pvs_chunk list \<Rightarrow> pvs_state \<Rightarrow> (pvs_result_t \<times> pvs_state) option" where
  "pvs_list_import_file strm st =
     (case strm of
        Ch_header h # strm \<Rightarrow>
          if h \<noteq> pvs_store_hdr then Some (PVS_ERROR, st)
          else map_option (Pair PVS_SUCCESS) (import_slots PROVISIONING_LIST_SIZE 0 strm st)
      | _ \<Rightarrow> Some (PVS_ERROR, st))"

definition pvs_list_store_find_file :: "string \<Rightarrow> pvs_state \<Rightarrow> pvs_result_t" where
  "pvs_list_store_find_file f st = (if files st f \<noteq> None then PVS_SUCCESS else PVS_ERROR)"

text \<open>The default name, \<^verbatim>\<open>PROVISIONING_LIST_STORE_FILENAME_DEFAULT\<close>, depends on the build.\<close>

definition pvs_list_store_find :: "string \<Rightarrow> string option \<Rightarrow> pvs_state \<Rightarrow> pvs_result_t" where
  "pvs_list_store_find dflt f st =
     (case f of
        Some f \<Rightarrow> pvs_list_store_find_file f st
      | None \<Rightarrow> pvs_list_store_find_file dflt st)"

definition pvs_list_store_writeable_test :: "string \<Rightarrow> pvs_state \<Rightarrow> pvs_result_t \<times> pvs_state" where
  "pvs_list_store_writeable_test f st =
     (case fopen_w f st of (True, st) \<Rightarrow> (PVS_SUCCESS, st) | (False, st) \<Rightarrow> (PVS_ERROR, st))"

definition pvs_list_store_setup_and_import_file ::
  "string option \<Rightarrow> bool \<Rightarrow> pvs_state \<Rightarrow> (pvs_result_t \<times> pvs_state) option" where
  "pvs_list_store_setup_and_import_file f protect_file st =
     (case f of
        None \<Rightarrow> Some (PVS_ERROR, st)
      | Some f \<Rightarrow>
          (case files st f of
             Some strm \<Rightarrow>
               (case pvs_list_import_file strm st of
                  None \<Rightarrow> None
                | Some (res, st) \<Rightarrow>
                    Some (if res = PVS_ERROR \<and> protect_file then PVS_ERROR else PVS_SUCCESS, st))
           | None \<Rightarrow> Some (pvs_list_store_writeable_test f st)))"

definition pvs_list_store_setup_and_import ::
  "string \<Rightarrow> string option \<Rightarrow> pvs_state \<Rightarrow> pvs_state option" where
  "pvs_list_store_setup_and_import dflt f st =
     (case pvs_list_store_setup_and_import_file f True st of
        None \<Rightarrow> None
      | Some (PVS_ERROR, st) \<Rightarrow>
          (let st = st\<lparr>pvs_store_filename := Some dflt\<rparr>
           in (case pvs_list_store_setup_and_import_file (Some dflt) False st of
                 None \<Rightarrow> None
               | Some (PVS_ERROR, st) \<Rightarrow> Some (st\<lparr>pvs_store_filename := None\<rparr>)
               | Some (PVS_SUCCESS, st) \<Rightarrow> Some st))
      | Some (PVS_SUCCESS, st) \<Rightarrow> Some (st\<lparr>pvs_store_filename := f\<rparr>))"

text \<open>
  The configuration file has a parser of its own (\<open>pvs_parse_config_file\<close>, generated from
  \<^verbatim>\<open>pvs_cfg.y\<close>): the parameter \<open>parse\<close>, which returns its result code.
\<close>

definition pvs_list_cfg_read_file ::
  "(string \<Rightarrow> pvs_state \<Rightarrow> nat \<times> pvs_state) \<Rightarrow> (string \<Rightarrow> bool) \<Rightarrow> string option \<Rightarrow> pvs_state
     \<Rightarrow> pvs_result_t \<times> pvs_state" where
  "pvs_list_cfg_read_file parse exists f st =
     (case f of
        None \<Rightarrow> (PVS_ERROR, st)
      | Some f \<Rightarrow>
          if exists f then
            (case parse f st of (res, st) \<Rightarrow> (if res \<noteq> 0 then PVS_ERROR else PVS_SUCCESS, st))
          else (PVS_SUCCESS, st))"

definition provision_zero :: provision where
  "provision_zero = \<lparr>dsk = DskNull, dsk_len = 0, pvs_status = 0, bootmode = 0, tlv_list = []\<rparr>"

definition provisioning_list_init ::
  "(string \<Rightarrow> pvs_state \<Rightarrow> nat \<times> pvs_state) \<Rightarrow> (string \<Rightarrow> bool) \<Rightarrow> string
     \<Rightarrow> string option \<Rightarrow> string option \<Rightarrow> pvs_state \<Rightarrow> pvs_state option" where
  "provisioning_list_init parse cfg_exists dflt storage_filename cfg_filename st =
     (let st = st\<lparr>pvs_list := replicate PROVISIONING_LIST_SIZE provision_zero\<rparr>
      in map_option pvs_list_persist_in_file
        (if pvs_list_store_find dflt storage_filename st = PVS_ERROR then
           let (ok, st) = (case storage_filename of
                             None \<Rightarrow> (PVS_ERROR, st)
                           | Some f \<Rightarrow> pvs_list_store_writeable_test f st);
               st = (if ok = PVS_SUCCESS then st\<lparr>pvs_store_filename := storage_filename\<rparr>
                     else (case pvs_list_store_writeable_test dflt st of
                             (PVS_SUCCESS, st) \<Rightarrow> st\<lparr>pvs_store_filename := Some dflt\<rparr>
                           | (PVS_ERROR, st) \<Rightarrow> st\<lparr>pvs_store_filename := None\<rparr>))
           in Some (snd (pvs_list_cfg_read_file parse cfg_exists cfg_filename st))
         else pvs_list_store_setup_and_import dflt storage_filename st))"


section \<open>The invariant and the map it stands for\<close>

definition tlvs_ok :: "pvs_tlv list \<Rightarrow> bool" where
  "tlvs_ok ts \<longleftrightarrow> distinct (map tlv_type ts)
     \<and> (\<forall>t \<in> set ts. tlv_length t \<noteq> 0 \<and> length (tlv_value t) = unat (tlv_length t))"

text \<open>
  A used slot has a live DSK block of the recorded length, at least four bytes, and
  non-empty TLVs of distinct types; an unused slot has no TLVs.
\<close>

definition slot_ok :: "provision \<Rightarrow> bool" where
  "slot_ok p \<longleftrightarrow>
     (if dsk_len p = 0 then tlv_list p = []
      else 4 \<le> dsk_len p \<and> dsk p = DskPtr (dsk_bytes p)
        \<and> length (dsk_bytes p) = unat (dsk_len p) \<and> tlvs_ok (tlv_list p))"

definition slot_key :: "provision \<Rightarrow> bytes option" where
  "slot_key p = (if dsk_len p = 0 then None else Some (dsk_bytes p))"

definition tlv_map :: "pvs_tlv list \<Rightarrow> u8 \<Rightarrow> bytes option" where
  "tlv_map ts = map_of (map (\<lambda>t. (tlv_type t, tlv_value t)) ts)"

text \<open>A device: status, boot mode and TLVs by type.\<close>

type_synonym device = "nat \<times> nat \<times> (u8 \<Rightarrow> bytes option)"

definition device_of :: "provision \<Rightarrow> device" where
  "device_of p = (pvs_status p, bootmode p, tlv_map (tlv_list p))"

definition pvs_inv :: "pvs_state \<Rightarrow> bool" where
  "pvs_inv st \<longleftrightarrow> length (pvs_list st) = PROVISIONING_LIST_SIZE
     \<and> tbl_inv slot_key slot_ok (pvs_list st)"

definition pvs_abs :: "pvs_state \<Rightarrow> bytes \<Rightarrow> device option" where
  "pvs_abs st = tbl_abs slot_key device_of (pvs_list st)"

lemma slot_key_Some_iff:
  "slot_ok p \<Longrightarrow> slot_key p = Some k \<longleftrightarrow>
     dsk_len p \<noteq> 0 \<and> dsk p = DskPtr k \<and> unat (dsk_len p) = length k"
  by (cases "dsk_len p = 0"; cases "dsk p") (auto simp: slot_key_def slot_ok_def dsk_bytes_def)

lemma dsk_bytes_update [simp]:
  "dsk_bytes (p\<lparr>bootmode := bm\<rparr>) = dsk_bytes p" "dsk_bytes (p\<lparr>pvs_status := s\<rparr>) = dsk_bytes p"
  "dsk_bytes (p\<lparr>tlv_list := ts\<rparr>) = dsk_bytes p"
  by (simp_all add: dsk_bytes_def)

lemma slot_key_None_iff: "slot_key p = None \<longleftrightarrow> dsk_len p = 0"
  by (simp add: slot_key_def)

lemma mem_eq_key:
  assumes "slot_ok p" and "4 \<le> len" and "unat len \<le> length buf"
  shows "dsk_len p = len \<and> dsk p \<noteq> DskNull \<and> mem_eq (unat len) (dsk p) 0 buf
    \<longleftrightarrow> slot_key p = Some (take (unat len) buf)"
proof -
  have "len \<noteq> 0" using assms(2) by auto
  then show ?thesis
    using assms word_unat_eq_iff [of "dsk_len p" len]
    by (cases "dsk p") (auto simp: slot_ok_def slot_key_def mem_eq_def dsk_bytes_def)
qed

lemma pvs_invD:
  assumes "pvs_inv st"
  shows "length (pvs_list st) = PROVISIONING_LIST_SIZE"
    and "tbl_inv slot_key slot_ok (pvs_list st)"
    and "p \<in> set (pvs_list st) \<Longrightarrow> slot_ok p"
    and "i < PROVISIONING_LIST_SIZE \<Longrightarrow> slot_ok (pvs_list st ! i)"
  using assms by (auto simp: pvs_inv_def tbl_inv_def)

lemma dev_get_eq:
  assumes "pvs_inv st" and "unat len \<le> length buf"
  shows "provisioning_list_dev_get st len buf =
    (if len < 4 then None
     else find_idx (\<lambda>p. slot_key p = Some (take (unat len) buf)) (pvs_list st))"
  unfolding provisioning_list_dev_get_def
  using mem_eq_key [OF pvs_invD(3) [OF assms(1)] _ assms(2)]
  by (auto simp: not_less intro!: find_idx_cong)

lemma pvs_list_malloc [simp]:
  "pvs_list (snd (pvs_malloc st)) = pvs_list st"
  by (simp add: pvs_malloc_def)

lemma pvs_list_persist [simp]: "pvs_list (pvs_list_persist_in_file st) = pvs_list st"
  by (auto simp: pvs_list_persist_in_file_def fopen_w_def split: option.splits)

lemma pvs_inv_persist [simp]:
  "pvs_inv (pvs_list_persist_in_file st) = pvs_inv st"
  "pvs_abs (pvs_list_persist_in_file st) = pvs_abs st"
  by (simp_all add: pvs_inv_def pvs_abs_def)

lemma pvs_alloc_irrelevant [simp]:
  "pvs_inv (st\<lparr>n_alloc := n\<rparr>) = pvs_inv st" "pvs_abs (st\<lparr>n_alloc := n\<rparr>) = pvs_abs st"
  by (simp_all add: pvs_inv_def pvs_abs_def)

text \<open>One slot replaced, keeping its key.\<close>

lemma pvs_upd_same_key:
  assumes "pvs_inv st" and "i < PROVISIONING_LIST_SIZE"
    and "slot_ok (f (pvs_list st ! i))" and "slot_key (f (pvs_list st ! i)) = slot_key (pvs_list st ! i)"
  shows "pvs_inv (pvs_upd i f st)"
    and "slot_key (pvs_list st ! i) = Some k \<Longrightarrow>
      pvs_abs (pvs_upd i f st) = (pvs_abs st)(k \<mapsto> device_of (f (pvs_list st ! i)))"
    and "slot_key (pvs_list st ! i) = None \<Longrightarrow> pvs_abs (pvs_upd i f st) = pvs_abs st"
proof -
  note inv = pvs_invD [OF assms(1)]
  have i: "i < length (pvs_list st)" using assms(2) inv(1) by simp
  note other = key_fresh_same [OF inv(2) i assms(4)]
  note upd = tbl_inv_update [OF inv(2) i assms(3) other]
    tbl_abs_update [where val = device_of, OF inv(2) i assms(3) other]
  show "pvs_inv (pvs_upd i f st)"
    using upd(1) inv(1) by (simp add: pvs_inv_def pvs_upd_def upd_idx_def)
  show "pvs_abs (pvs_upd i f st) = (pvs_abs st)(k \<mapsto> device_of (f (pvs_list st ! i)))"
    if "slot_key (pvs_list st ! i) = Some k"
    using that assms(4) by (auto simp: pvs_abs_def pvs_upd_def upd_idx_def fun_eq_iff upd(2))
  show "pvs_abs (pvs_upd i f st) = pvs_abs st" if "slot_key (pvs_list st ! i) = None"
    using that assms(4) by (auto simp: pvs_abs_def pvs_upd_def upd_idx_def fun_eq_iff upd(2))
qed


lemma pvs_upd_clear_key:
  assumes "pvs_inv st" and "i < PROVISIONING_LIST_SIZE" and "slot_key (pvs_list st ! i) = Some k"
    and "slot_ok (f (pvs_list st ! i))" and "slot_key (f (pvs_list st ! i)) = None"
  shows "pvs_inv (pvs_upd i f st)" and "pvs_abs (pvs_upd i f st) = (pvs_abs st)(k := None)"
proof -
  note inv = pvs_invD [OF assms(1)]
  have i: "i < length (pvs_list st)" using assms(2) inv(1) by simp
  have other: "key_fresh slot_key (pvs_list st) i (f (pvs_list st ! i))"
    using assms(5) by (rule key_fresh_None)
  show "pvs_inv (pvs_upd i f st)"
    using tbl_inv_update [OF inv(2) i assms(4) other] inv(1)
    by (simp add: pvs_inv_def pvs_upd_def upd_idx_def)
  show "pvs_abs (pvs_upd i f st) = (pvs_abs st)(k := None)"
    using assms(3,5) tbl_abs_update [OF inv(2) i assms(4) other, where val = device_of]
    by (auto simp: pvs_abs_def pvs_upd_def upd_idx_def fun_eq_iff)
qed

lemma pvs_upd_new_key:
  assumes "pvs_inv st" and "i < PROVISIONING_LIST_SIZE" and "slot_key (pvs_list st ! i) = None"
    and "slot_ok p" and "slot_key p = Some k" and "pvs_abs st k = None"
  shows "pvs_inv (pvs_upd i (\<lambda>_. p) st)"
    and "pvs_abs (pvs_upd i (\<lambda>_. p) st) = (pvs_abs st)(k \<mapsto> device_of p)"
proof -
  note inv = pvs_invD [OF assms(1)]
  have i: "i < length (pvs_list st)" using assms(2) inv(1) by simp
  have other: "key_fresh slot_key (pvs_list st) i p"
    using assms(5,6) by (intro key_fresh_new) (auto simp: pvs_abs_def tbl_abs_None_iff)
  show "pvs_inv (pvs_upd i (\<lambda>_. p) st)"
    using tbl_inv_update [OF inv(2) i assms(4) other] inv(1)
    by (simp add: pvs_inv_def pvs_upd_def upd_idx_def)
  show "pvs_abs (pvs_upd i (\<lambda>_. p) st) = (pvs_abs st)(k \<mapsto> device_of p)"
    using assms(3,5) tbl_abs_update [OF inv(2) i assms(4) other, where val = device_of]
    by (auto simp: pvs_abs_def pvs_upd_def upd_idx_def fun_eq_iff)
qed

section \<open>Devices: the operations on the map\<close>

lemma pvs_abs_None_iff: "pvs_abs st k = None \<longleftrightarrow> (\<forall>p \<in> set (pvs_list st). slot_key p \<noteq> Some k)"
  by (simp add: pvs_abs_def tbl_abs_None_iff)

lemma dev_get_Some:
  assumes "pvs_inv st" and "unat len \<le> length buf" and "provisioning_list_dev_get st len buf = Some i"
  shows "i < PROVISIONING_LIST_SIZE" and "slot_key (pvs_list st ! i) = Some (take (unat len) buf)"
    and "pvs_abs st (take (unat len) buf) = Some (device_of (pvs_list st ! i))" and "4 \<le> len"
proof -
  have f: "find_idx (\<lambda>p. slot_key p = Some (take (unat len) buf)) (pvs_list st) = Some i" "4 \<le> len"
    using assms(3) by (auto simp: dev_get_eq [OF assms(1,2)] split: if_splits)
  then show i: "i < PROVISIONING_LIST_SIZE" "slot_key (pvs_list st ! i) = Some (take (unat len) buf)"
    "4 \<le> len"
    using find_idx_SomeD [OF f(1)] pvs_invD(1) [OF assms(1)] by auto
  show "pvs_abs st (take (unat len) buf) = Some (device_of (pvs_list st ! i))"
    using f(1) by (simp add: pvs_abs_def tbl_abs_def)
qed

lemma dev_get_None:
  assumes "pvs_inv st" and "unat len \<le> length buf" and "provisioning_list_dev_get st len buf = None"
    and "4 \<le> len"
  shows "pvs_abs st (take (unat len) buf) = None"
  using assms(3,4) by (auto simp: dev_get_eq [OF assms(1,2)] pvs_abs_None_iff find_idx_None_iff
      split: if_splits)

lemma card_pvs_abs:
  "pvs_inv st \<Longrightarrow> card (dom (pvs_abs st)) = provisioning_list_get_count st"
  using pvs_invD(2) [of st]
  by (simp add: pvs_abs_def card_dom_tbl_abs tbl_inv_def provisioning_list_get_count_def
      slot_key_None_iff)

lemma finite_dom_pvs_abs: "finite (dom (pvs_abs st))"
proof (rule finite_subset)
  show "dom (pvs_abs st) \<subseteq> (\<lambda>p. the (slot_key p)) ` set (pvs_list st)"
    unfolding pvs_abs_def dom_tbl_abs by (clarsimp simp: image_iff) (metis option.sel)
qed simp

lemma count_le: "pvs_inv st \<Longrightarrow> provisioning_list_get_count st \<le> PROVISIONING_LIST_SIZE"
  using pvs_invD(1) [of st] by (simp add: provisioning_list_get_count_def) (metis length_filter_le)

text \<open>While a slot is free there are fewer devices than slots.\<close>

lemma blank_slot_count:
  assumes "pvs_inv st" and "i < PROVISIONING_LIST_SIZE" and "slot_key (pvs_list st ! i) = None"
  shows "card (dom (pvs_abs st)) < PROVISIONING_LIST_SIZE"
proof -
  have len: "length (pvs_list st) = PROVISIONING_LIST_SIZE" by (rule pvs_invD(1) [OF assms(1)])
  have "length (filter (\<lambda>p. dsk_len p \<noteq> 0) (pvs_list st)) < length (pvs_list st)"
    by (rule length_filter_less [of "pvs_list st ! i"]) (use assms(2,3) len in \<open>auto simp: slot_key_None_iff\<close>)
  then show ?thesis using len card_pvs_abs [OF assms(1)] by (simp add: provisioning_list_get_count_def)
qed

text \<open>
  A new device: \<open>pvs_dev_add\<close> succeeds unless the table is full or memory runs out, and
  then changes nothing.
\<close>

lemma slot_ok_new:
  assumes "4 \<le> len" and "unat len \<le> length buf"
  shows "slot_ok \<lparr>dsk = DskPtr (take (unat len) buf), dsk_len = len, pvs_status = s, bootmode = bm,
      tlv_list = []\<rparr>"
    and "slot_key \<lparr>dsk = DskPtr (take (unat len) buf), dsk_len = len, pvs_status = s, bootmode = bm,
      tlv_list = []\<rparr> = Some (take (unat len) buf)"
  using assms by (auto simp: slot_ok_def slot_key_def dsk_bytes_def tlvs_ok_def)

lemma pvs_dev_add_outcome:
  assumes "pvs_inv st" and "4 \<le> len" and "unat len \<le> length buf"
    and "pvs_abs st (take (unat len) buf) = None" and "pvs_dev_add len buf bm st = (r, st')"
  shows "pvs_inv st'"
    and "r = Some i \<Longrightarrow> i < PROVISIONING_LIST_SIZE
      \<and> slot_key (pvs_list st' ! i) = Some (take (unat len) buf)
      \<and> card (dom (pvs_abs st)) < PROVISIONING_LIST_SIZE \<and> heap_ok st (n_alloc st)
      \<and> pvs_abs st' = (pvs_abs st)(take (unat len) buf \<mapsto> (PVS_STATUS_PENDING, bm, Map.empty))"
    and "r = None \<Longrightarrow> pvs_abs st' = pvs_abs st
      \<and> (card (dom (pvs_abs st)) = PROVISIONING_LIST_SIZE \<or> \<not> heap_ok st (n_alloc st))"
proof -
  let ?p = "\<lparr>dsk = DskPtr (take (unat len) buf), dsk_len = len, pvs_status = PVS_STATUS_PENDING,
      bootmode = bm, tlv_list = []\<rparr>"
  note len = pvs_invD(1) [OF assms(1)]
  have "pvs_inv st' \<and> (case r of
      Some i \<Rightarrow> i < PROVISIONING_LIST_SIZE \<and> slot_key (pvs_list st' ! i) = Some (take (unat len) buf)
        \<and> card (dom (pvs_abs st)) < PROVISIONING_LIST_SIZE \<and> heap_ok st (n_alloc st)
        \<and> pvs_abs st' = (pvs_abs st)(take (unat len) buf \<mapsto> (PVS_STATUS_PENDING, bm, Map.empty))
    | None \<Rightarrow> pvs_abs st' = pvs_abs st
        \<and> (card (dom (pvs_abs st)) = PROVISIONING_LIST_SIZE \<or> \<not> heap_ok st (n_alloc st)))"
  proof (cases "find_idx (\<lambda>p. dsk_len p = 0) (pvs_list st)")
    case None
    then have "provisioning_list_get_count st = PROVISIONING_LIST_SIZE"
      using len by (simp add: find_idx_None_iff provisioning_list_get_count_def filter_id_conv)
    then show ?thesis
      using None assms(1,5) by (auto simp: pvs_dev_add_def card_pvs_abs)
  next
    case (Some i)
    then have i: "i < PROVISIONING_LIST_SIZE" "slot_key (pvs_list st ! i) = None"
      using find_idx_SomeD [OF Some] len by (auto simp: slot_key_None_iff)
    show ?thesis
    proof (cases "heap_ok st (n_alloc st)")
      case False
      have "slot_ok (pvs_list st ! i)" using pvs_invD(4) [OF assms(1) i(1)] .
      then have "slot_ok ((pvs_list st ! i)\<lparr>dsk := DskNull\<rparr>)"
        and "slot_key ((pvs_list st ! i)\<lparr>dsk := DskNull\<rparr>) = slot_key (pvs_list st ! i)"
        using i(2) by (auto simp: slot_ok_def slot_key_def split: if_splits)
      then show ?thesis
        using Some False assms(1,5) i pvs_upd_same_key(1,3) [of "st\<lparr>n_alloc := Suc (n_alloc st)\<rparr>" i
            "dsk_update (\<lambda>_. DskNull)"]
        by (auto simp: pvs_dev_add_def pvs_malloc_def)
    next
      case True
      note upd = pvs_upd_new_key [OF _ i(1) _ slot_ok_new [OF assms(2,3),
            of PVS_STATUS_PENDING bm], of "st\<lparr>n_alloc := Suc (n_alloc st)\<rparr>"]
      have st': "st' = pvs_list_persist_in_file
          (pvs_upd i (\<lambda>_. ?p) (st\<lparr>n_alloc := Suc (n_alloc st)\<rparr>))" "r = Some i"
        using Some True assms(5) by (auto simp: pvs_dev_add_def pvs_malloc_def)
      moreover have "card (dom (pvs_abs st)) < PROVISIONING_LIST_SIZE"
        using blank_slot_count [OF assms(1) i] .
      moreover have "slot_key (pvs_list st' ! i) = Some (take (unat len) buf)"
        using st' i(1) len slot_ok_new [OF assms(2,3)] by (simp add: pvs_upd_def upd_idx_def)
      ultimately show ?thesis
        using upd assms(1,4) i True by (simp add: device_of_def tlv_map_def)
    qed
  qed
  then show "pvs_inv st'"
    and "r = Some i \<Longrightarrow> i < PROVISIONING_LIST_SIZE
      \<and> slot_key (pvs_list st' ! i) = Some (take (unat len) buf)
      \<and> card (dom (pvs_abs st)) < PROVISIONING_LIST_SIZE \<and> heap_ok st (n_alloc st)
      \<and> pvs_abs st' = (pvs_abs st)(take (unat len) buf \<mapsto> (PVS_STATUS_PENDING, bm, Map.empty))"
    and "r = None \<Longrightarrow> pvs_abs st' = pvs_abs st
      \<and> (card (dom (pvs_abs st)) = PROVISIONING_LIST_SIZE \<or> \<not> heap_ok st (n_alloc st))"
    by (auto split: option.splits)
qed


text \<open>
  The pointer that an operation returns is that of the slot with the device.
\<close>

definition dev_at :: "bytes \<Rightarrow> nat \<Rightarrow> pvs_state \<Rightarrow> bool" where
  "dev_at k i st \<longleftrightarrow> i < PROVISIONING_LIST_SIZE \<and> slot_key (pvs_list st ! i) = Some k"

definition dev_add_spec ::
  "bytes \<Rightarrow> nat \<Rightarrow> pvs_state \<Rightarrow> nat option \<Rightarrow> pvs_state \<Rightarrow> bool" where
  "dev_add_spec k bm st r st' \<longleftrightarrow>
     (if length k < 4 \<or> pvs_abs st k \<noteq> None then r = None \<and> st' = st
      else (case r of
              Some i \<Rightarrow> dev_at k i st' \<and> card (dom (pvs_abs st)) < PROVISIONING_LIST_SIZE \<and> heap_ok st (n_alloc st)
                \<and> pvs_abs st' = (pvs_abs st)(k \<mapsto> (PVS_STATUS_PENDING, bm, Map.empty))
            | None \<Rightarrow> pvs_abs st' = pvs_abs st
                \<and> (card (dom (pvs_abs st)) = PROVISIONING_LIST_SIZE \<or> \<not> heap_ok st (n_alloc st))))"

definition dev_set_spec ::
  "bytes \<Rightarrow> nat \<Rightarrow> pvs_state \<Rightarrow> nat option \<Rightarrow> pvs_state \<Rightarrow> bool" where
  "dev_set_spec k bm st r st' \<longleftrightarrow>
     (if length k < 4 then r = None \<and> st' = st
      else (case pvs_abs st k of
              Some (s, _, tlvs) \<Rightarrow> (\<exists>i. r = Some i \<and> dev_at k i st') \<and> pvs_abs st' = (pvs_abs st)(k \<mapsto> (s, bm, tlvs))
            | None \<Rightarrow> dev_add_spec k bm st r st'))"

lemma u8_less_4: "(x :: u8) < 4 \<longleftrightarrow> unat x < 4"
  by (simp add: word_less_nat_alt)

lemma dev_add_refines:
  assumes "pvs_inv st" and "unat len \<le> length buf"
    and "provisioning_list_dev_add len buf bm st = (r, st')"
  shows "pvs_inv st'" and "dev_add_spec (take (unat len) buf) bm st r st'"
proof -
  have "pvs_inv st' \<and> dev_add_spec (take (unat len) buf) bm st r st'"
  proof (cases "len < 4 \<or> provisioning_list_dev_get st len buf \<noteq> None")
    case True
    then have "unat len < 4 \<or> pvs_abs st (take (unat len) buf) \<noteq> None"
      using dev_get_Some(3) [OF assms(1,2)] by (metis u8_less_4 not_None_eq)
    moreover have "r = None" "st' = st"
      using True assms(3) by (auto simp: provisioning_list_dev_add_def split: if_splits)
    ultimately show ?thesis using assms(1,2) by (simp add: dev_add_spec_def)
  next
    case False
    then have len: "4 \<le> len" "\<not> unat len < 4" using u8_less_4 [of len] by (auto simp: not_less)
    have "pvs_abs st (take (unat len) buf) = None" using dev_get_None [OF assms(1,2) _ len(1)] False by simp
    note out = pvs_dev_add_outcome [OF assms(1) len(1) assms(2) this, of bm r st']
    moreover have "pvs_dev_add len buf bm st = (r, st')"
      using False assms(3) by (simp add: provisioning_list_dev_add_def)
    ultimately show ?thesis
      using len \<open>pvs_abs st _ = None\<close> assms(2) by (auto simp: dev_add_spec_def dev_at_def split: option.splits)
  qed
  then show "pvs_inv st'" and "dev_add_spec (take (unat len) buf) bm st r st'" by auto
qed

text \<open>Rewriting a field of a used slot that is not part of its key.\<close>

lemma pvs_upd_field:
  assumes "pvs_inv st" and "i < PROVISIONING_LIST_SIZE" and "slot_key (pvs_list st ! i) = Some k"
  shows "pvs_inv (pvs_upd i (bootmode_update (\<lambda>_. bm)) st)"
    and "pvs_abs (pvs_upd i (bootmode_update (\<lambda>_. bm)) st) =
      (pvs_abs st)(k \<mapsto> (pvs_status (pvs_list st ! i), bm, tlv_map (tlv_list (pvs_list st ! i))))"
    and "pvs_inv (pvs_upd i (pvs_status_update (\<lambda>_. s)) st)"
    and "pvs_abs (pvs_upd i (pvs_status_update (\<lambda>_. s)) st) =
      (pvs_abs st)(k \<mapsto> (s, bootmode (pvs_list st ! i), tlv_map (tlv_list (pvs_list st ! i))))"
    and "tlvs_ok ts \<Longrightarrow> pvs_inv (pvs_upd i (tlv_list_update (\<lambda>_. ts)) st)"
    and "tlvs_ok ts \<Longrightarrow> pvs_abs (pvs_upd i (tlv_list_update (\<lambda>_. ts)) st) =
      (pvs_abs st)(k \<mapsto> (pvs_status (pvs_list st ! i), bootmode (pvs_list st ! i), tlv_map ts))"
proof -
  have ok: "slot_ok (pvs_list st ! i)" using pvs_invD(4) [OF assms(1,2)] .
  have frame: "slot_ok (f (pvs_list st ! i)) \<and> slot_key (f (pvs_list st ! i)) = slot_key (pvs_list st ! i)"
    if "f \<in> {bootmode_update (\<lambda>_. bm), pvs_status_update (\<lambda>_. s)} \<or>
      (tlvs_ok ts \<and> f = tlv_list_update (\<lambda>_. ts))" for f
    using that ok assms(3) by (auto simp: slot_ok_def slot_key_def split: if_splits)
  note upd = pvs_upd_same_key(1,2) [OF assms(1,2)]
  show "pvs_inv (pvs_upd i (bootmode_update (\<lambda>_. bm)) st)"
    and "pvs_abs (pvs_upd i (bootmode_update (\<lambda>_. bm)) st) =
      (pvs_abs st)(k \<mapsto> (pvs_status (pvs_list st ! i), bm, tlv_map (tlv_list (pvs_list st ! i))))"
    and "pvs_inv (pvs_upd i (pvs_status_update (\<lambda>_. s)) st)"
    and "pvs_abs (pvs_upd i (pvs_status_update (\<lambda>_. s)) st) =
      (pvs_abs st)(k \<mapsto> (s, bootmode (pvs_list st ! i), tlv_map (tlv_list (pvs_list st ! i))))"
    and "tlvs_ok ts \<Longrightarrow> pvs_inv (pvs_upd i (tlv_list_update (\<lambda>_. ts)) st)"
    and "tlvs_ok ts \<Longrightarrow> pvs_abs (pvs_upd i (tlv_list_update (\<lambda>_. ts)) st) =
      (pvs_abs st)(k \<mapsto> (pvs_status (pvs_list st ! i), bootmode (pvs_list st ! i), tlv_map ts))"
    using upd [of "bootmode_update (\<lambda>_. bm)"] upd [of "pvs_status_update (\<lambda>_. s)"]
      upd [of "tlv_list_update (\<lambda>_. ts)"] frame assms(3)
    by (simp_all add: device_of_def)
qed

lemma dev_set_refines:
  assumes "pvs_inv st" and "unat len \<le> length buf"
    and "provisioning_list_dev_set len buf bm st = (r, st')"
  shows "pvs_inv st'" and "dev_set_spec (take (unat len) buf) bm st r st'"
proof -
  let ?k = "take (unat len) buf"
  have "pvs_inv st' \<and> dev_set_spec ?k bm st r st'"
  proof (cases "len < 4")
    case True
    then show ?thesis
      using assms by (auto simp: provisioning_list_dev_set_def dev_set_spec_def u8_less_4)
  next
    case len: False
    show ?thesis
    proof (cases "provisioning_list_dev_get st len buf")
      case None
      then have none: "pvs_abs st ?k = None" using dev_get_None [OF assms(1,2)] len by simp
      have "pvs_dev_add len buf bm st = (r, st')"
        using None len assms(3) by (simp add: provisioning_list_dev_set_def)
      then have "provisioning_list_dev_add len buf bm st = (r, st')"
        using None len by (simp add: provisioning_list_dev_add_def)
      from dev_add_refines [OF assms(1,2) this] show ?thesis
        using none len assms(2) by (simp add: dev_set_spec_def u8_less_4)
    next
      case (Some i)
      note get = dev_get_Some [OF assms(1,2) Some]
      have "r = Some i"
        "st' = pvs_list_persist_in_file (pvs_upd i (bootmode_update (\<lambda>_. bm)) st)"
        using Some len assms(3) by (auto simp: provisioning_list_dev_set_def)
      moreover have "dev_at ?k i (pvs_list_persist_in_file (pvs_upd i (bootmode_update (\<lambda>_. bm)) st))"
        using get(1,2) pvs_invD(1) [OF assms(1)] by (auto simp: dev_at_def pvs_upd_def upd_idx_def slot_key_def split: if_splits)
      ultimately show ?thesis
        using len assms(2) get pvs_upd_field(1,2) [OF assms(1) get(1,2), of bm]
        by (simp add: dev_set_spec_def u8_less_4 device_of_def)
    qed
  qed
  then show "pvs_inv st'" and "dev_set_spec ?k bm st r st'" by auto
qed


lemma dev_remove_refines:
  assumes "pvs_inv st" and "unat len \<le> length buf" and "4 \<le> len"
    and "provisioning_list_dev_remove len buf st = (r, st')"
  shows "pvs_inv st' \<and> (if pvs_abs st (take (unat len) buf) = None then r = PVS_ERROR \<and> st' = st
    else r = PVS_SUCCESS \<and> pvs_abs st' = (pvs_abs st)(take (unat len) buf := None))"
proof -
  let ?k = "take (unat len) buf"
  have same: "find_idx (\<lambda>p. dsk p \<noteq> DskNull \<and> dsk_len p = len \<and> mem_eq (unat len) (dsk p) 0 buf)
      (pvs_list st) = provisioning_list_dev_get st len buf"
    unfolding provisioning_list_dev_get_def
    using assms(3) by (auto simp: not_less [symmetric] intro!: find_idx_cong)
  show ?thesis
  proof (cases "provisioning_list_dev_get st len buf")
    case None
    then have "pvs_abs st ?k = None" using dev_get_None [OF assms(1,2) _ assms(3)] by simp
    moreover have "r = PVS_ERROR" "st' = st"
      using None assms(3,4) same by (auto simp: provisioning_list_dev_remove_def not_less [symmetric])
    ultimately show ?thesis using assms(1) by auto
  next
    case (Some i)
    note get = dev_get_Some [OF assms(1,2) Some]
    let ?f = "\<lambda>p. p\<lparr>dsk_len := 0, dsk := DskFreed, tlv_list := []\<rparr>"
    have "r = PVS_SUCCESS" "st' = pvs_list_persist_in_file (pvs_upd i ?f st)"
      using Some assms(3,4) same by (auto simp: provisioning_list_dev_remove_def not_less [symmetric])
    moreover have "slot_ok (?f p)" "slot_key (?f p) = None" for p
      by (simp_all add: slot_ok_def slot_key_def)
    ultimately show ?thesis
      using get(3) pvs_upd_clear_key [OF assms(1) get(1,2), of ?f] by auto
  qed
qed

lemma clear_refines:
  assumes "pvs_inv st"
  shows "pvs_inv (provisioning_list_clear st)" and "pvs_abs (provisioning_list_clear st) = Map.empty"
proof -
  let ?f = "\<lambda>p. if dsk_len p = 0 then p else p\<lparr>dsk_len := 0, dsk := DskNull, tlv_list := []\<rparr>"
  have f: "slot_ok (?f p) \<and> slot_key (?f p) = None" if "p \<in> set (pvs_list st)" for p
    using pvs_invD(3) [OF assms that] by (auto simp: slot_ok_def slot_key_def)
  then show "pvs_inv (provisioning_list_clear st)"
    using pvs_invD(1) [OF assms] tbl_inv_map_None [of "pvs_list st" slot_ok ?f slot_key]
    by (simp add: provisioning_list_clear_def) (simp add: pvs_inv_def)
  show "pvs_abs (provisioning_list_clear st) = Map.empty"
    by (simp add: provisioning_list_clear_def)
      (auto simp: pvs_abs_def slot_key_def intro!: tbl_abs_empty)
qed

section \<open>TLVs: the operations on the map of a device\<close>

lemma tlv_map_Cons: "tlv_map (t # ts) = (tlv_map ts)(tlv_type t \<mapsto> tlv_value t)"
  by (simp add: tlv_map_def)

lemma tlv_map_None_iff: "tlv_map ts type = None \<longleftrightarrow> type \<notin> tlv_type ` set ts"
  by (auto simp: tlv_map_def map_of_eq_None_iff image_image)

lemma tlvs_ok_Cons:
  "tlvs_ok (t # ts) \<longleftrightarrow> tlv_type t \<notin> tlv_type ` set ts \<and> tlv_length t \<noteq> 0
     \<and> length (tlv_value t) = unat (tlv_length t) \<and> tlvs_ok ts"
  by (auto simp: tlvs_ok_def)

lemma tlv_overwrite:
  assumes "tlvs_ok ts" and "pvs_tlv_get ts type = Some k" and "tlv_type t = type"
    and "tlv_length t \<noteq> 0" and "length (tlv_value t) = unat (tlv_length t)"
  shows "tlvs_ok (ts[k := t]) \<and> tlv_map (ts[k := t]) = (tlv_map ts)(type \<mapsto> tlv_value t)
    \<and> tlv_type ` set (ts[k := t]) = tlv_type ` set ts"
  using assms(1,2)
proof (induction ts arbitrary: k)
  case (Cons u us)
  show ?case
  proof (cases "tlv_type u = type")
    case True
    then show ?thesis
      using Cons.prems assms(3-5) by (auto simp: pvs_tlv_get_def tlvs_ok_Cons tlv_map_Cons)
  next
    case False
    then obtain j where j: "k = Suc j" "pvs_tlv_get us type = Some j"
      using Cons.prems(2) by (auto simp: pvs_tlv_get_def)
    with Cons.IH [of j] Cons.prems(1) False show ?thesis
      by (auto simp: tlvs_ok_Cons tlv_map_Cons fun_upd_twist)
  qed
qed (simp add: pvs_tlv_get_def)

lemma tlv_unlink_outcome:
  assumes "tlvs_ok ts"
  shows "case tlv_unlink type ts of
      None \<Rightarrow> tlv_map ts type = None
    | Some us \<Rightarrow> tlv_map ts type \<noteq> None \<and> tlvs_ok us \<and> tlv_map us = (tlv_map ts)(type := None)
        \<and> tlv_type ` set us \<subseteq> tlv_type ` set ts"
  using assms
proof (induction ts)
  case (Cons u us)
  show ?case
  proof (cases "tlv_type u = type")
    case True
    then show ?thesis
      using Cons.prems tlv_map_None_iff [of us type] by (auto simp: tlvs_ok_Cons tlv_map_Cons)
  next
    case False
    then show ?thesis
      using Cons by (auto simp: tlvs_ok_Cons tlv_map_Cons fun_upd_twist split: option.splits)
  qed
qed (simp add: tlv_map_def)

lemma pvs_tlv_set_outcome:
  assumes "tlvs_ok ts" and "len \<noteq> 0" and "unat len \<le> length v"
    and "pvs_tlv_set ts type len v (pvs_tlv_get ts type) st = (r, ts', st')"
  shows "\<exists>n. st' = st\<lparr>n_alloc := n\<rparr>" and "tlvs_ok ts'"
    and "tlv_map ts' = (if r = PVS_SUCCESS then (tlv_map ts)(type \<mapsto> take (unat len) v) else tlv_map ts)"
    and "r = PVS_ERROR \<Longrightarrow> \<not> (heap_ok st (n_alloc st) \<and> heap_ok st (Suc (n_alloc st)))"
proof -
  let ?t = "\<lparr>tlv_type = type, tlv_length = len, tlv_value = take (unat len) v\<rparr>"
  have new: "tlvs_ok (?t # ts)" if "pvs_tlv_get ts type = None"
    using that assms(1-3) by (auto simp: tlvs_ok_Cons pvs_tlv_get_def find_idx_None_iff)
  have old: "tlvs_ok (ts[k := ?t]) \<and> tlv_map (ts[k := ?t]) = (tlv_map ts)(type \<mapsto> take (unat len) v)"
    if "pvs_tlv_get ts type = Some k" for k
    using tlv_overwrite [OF assms(1) that, of ?t] assms(2,3) by simp
  show "\<exists>n. st' = st\<lparr>n_alloc := n\<rparr>" and "tlvs_ok ts'"
    and "tlv_map ts' = (if r = PVS_SUCCESS then (tlv_map ts)(type \<mapsto> take (unat len) v) else tlv_map ts)"
    and "r = PVS_ERROR \<Longrightarrow> \<not> (heap_ok st (n_alloc st) \<and> heap_ok st (Suc (n_alloc st)))"
    using assms(1,4) old new
    by (auto simp: pvs_tlv_set_def pvs_malloc_def pvs_tlv_insert_front_def tlv_map_Cons Let_def
        split: option.splits bool.splits)
qed


text \<open>What the TLV operations do to a device.\<close>

definition tlv_set_spec ::
  "bytes \<Rightarrow> u8 \<Rightarrow> u8 \<Rightarrow> bytes \<Rightarrow> pvs_state \<Rightarrow> pvs_result_t \<Rightarrow> pvs_state \<Rightarrow> bool" where
  "tlv_set_spec k type len v st r st' \<longleftrightarrow>
     (case r of
        PVS_SUCCESS \<Rightarrow> len \<noteq> 0 \<and> (\<exists>s bm tlvs. pvs_abs st k = Some (s, bm, tlvs)
          \<and> pvs_abs st' = (pvs_abs st)(k \<mapsto> (s, bm, tlvs(type \<mapsto> take (unat len) v))))
      | PVS_ERROR \<Rightarrow> pvs_abs st' = pvs_abs st
          \<and> (len = 0 \<or> \<not> (heap_ok st (n_alloc st) \<and> heap_ok st (Suc (n_alloc st)))))"

lemma slot_abs:
  assumes "pvs_inv st" and "i < PROVISIONING_LIST_SIZE" and "slot_key (pvs_list st ! i) = Some k"
  shows "pvs_abs st k = Some (device_of (pvs_list st ! i))" and "tlvs_ok (tlv_list (pvs_list st ! i))"
    and "dsk_len (pvs_list st ! i) \<noteq> 0"
  using tbl_abs_slot [OF pvs_invD(2) [OF assms(1)], of i k device_of] assms pvs_invD(1,4) [OF assms(1)]
  by (auto simp: pvs_abs_def slot_key_def slot_ok_def split: if_splits)

lemma tlv_set_refines:
  assumes "pvs_inv st" and "i < PROVISIONING_LIST_SIZE" and "slot_key (pvs_list st ! i) = Some k"
    and "unat len \<le> length v" and "provisioning_list_tlv_set (Some i) type len (Some v) st = (r, st')"
  shows "pvs_inv st'" and "tlv_set_spec k type len v st r st'"
    and "slot_key (pvs_list st' ! i) = Some k"
proof -
  note slot = slot_abs [OF assms(1-3)]
  have "pvs_inv st' \<and> tlv_set_spec k type len v st r st' \<and> slot_key (pvs_list st' ! i) = Some k"
  proof (cases "len = 0")
    case True
    then show ?thesis
      using assms(1,3,5) by (auto simp: provisioning_list_tlv_set_def tlv_set_spec_def)
  next
    case False
    let ?ts = "tlv_list (pvs_list st ! i)"
    obtain r1 ts' st1 where set: "pvs_tlv_set ?ts type len v (pvs_tlv_get ?ts type) st = (r1, ts', st1)"
      by (metis prod_cases3)
    note out = pvs_tlv_set_outcome [OF slot(2) False assms(4) set]
    obtain n where st1: "st1 = st\<lparr>n_alloc := n\<rparr>" using out(1) by blast
    note upd = pvs_upd_field(5,6) [of st1 i k ts', unfolded st1, simplified, OF assms(1-3) out(2)]
    have res: "r = r1" "st' = (if r1 = PVS_SUCCESS then pvs_list_persist_in_file else (\<lambda>s. s))
        (pvs_upd i (tlv_list_update (\<lambda>_. ts')) (st\<lparr>n_alloc := n\<rparr>))"
      using assms(5) False slot(3) set st1
      by (auto simp: provisioning_list_tlv_set_def provisioning_list_tlv_get_def word_gt_0
          split: pvs_result_t.splits)
    then have "pvs_list st' = upd_idx i (tlv_list_update (\<lambda>_. ts')) (pvs_list st)"
      by (simp add: pvs_upd_def)
    then have "slot_key (pvs_list st' ! i) = Some k"
      using assms(2,3) pvs_invD(1) [OF assms(1)] by (simp add: nth_upd_idx slot_key_def split: if_splits)
    moreover have "pvs_abs st' = (if r = PVS_SUCCESS
        then (pvs_abs st)(k \<mapsto> (pvs_status (pvs_list st ! i), bootmode (pvs_list st ! i),
               (tlv_map ?ts)(type \<mapsto> take (unat len) v)))
        else pvs_abs st)"
      using res upd(2) out(3) slot(1) by (auto simp: device_of_def)
    ultimately show ?thesis
      using upd(1) res out(4) slot(1) False
      by (auto simp: tlv_set_spec_def device_of_def split: pvs_result_t.splits)
  qed
  then show "pvs_inv st'" and "tlv_set_spec k type len v st r st'"
    and "slot_key (pvs_list st' ! i) = Some k" by auto
qed

lemma tlv_remove_refines:
  assumes "pvs_inv st" and "i < PROVISIONING_LIST_SIZE" and "slot_key (pvs_list st ! i) = Some k"
    and "provisioning_list_tlv_remove (Some i) type st = (r, st')"
  shows "pvs_inv st'"
    and "\<exists>s bm tlvs. pvs_abs st k = Some (s, bm, tlvs) \<and> (r = PVS_SUCCESS \<longleftrightarrow> tlvs type \<noteq> None)
      \<and> pvs_abs st' = (pvs_abs st)(k \<mapsto> (s, bm, tlvs(type := None)))"
proof -
  note slot = slot_abs [OF assms(1-3)]
  note un = tlv_unlink_outcome [OF slot(2), of type]
  have "pvs_inv st' \<and> (r = PVS_SUCCESS \<longleftrightarrow> tlv_map (tlv_list (pvs_list st ! i)) type \<noteq> None)
    \<and> pvs_abs st' = (pvs_abs st)(k \<mapsto> (pvs_status (pvs_list st ! i), bootmode (pvs_list st ! i),
        (tlv_map (tlv_list (pvs_list st ! i)))(type := None)))"
  proof (cases "tlv_unlink type (tlv_list (pvs_list st ! i))")
    case None
    then have "r = PVS_ERROR" "st' = st"
      using assms(4) slot(3) by (auto simp: provisioning_list_tlv_remove_def)
    then show ?thesis
      using un None slot(1) assms(1) by (auto simp: device_of_def fun_eq_iff)
  next
    case (Some ts)
    then have "r = PVS_SUCCESS"
      "st' = pvs_list_persist_in_file (pvs_upd i (tlv_list_update (\<lambda>_. ts)) st)"
      using assms(4) slot(3) by (auto simp: provisioning_list_tlv_remove_def)
    then show ?thesis
      using un Some pvs_upd_field(5,6) [OF assms(1-3), of ts] by simp
  qed
  then show "pvs_inv st'"
    and "\<exists>s bm tlvs. pvs_abs st k = Some (s, bm, tlvs) \<and> (r = PVS_SUCCESS \<longleftrightarrow> tlvs type \<noteq> None)
      \<and> pvs_abs st' = (pvs_abs st)(k \<mapsto> (s, bm, tlvs(type := None)))"
    using slot(1) by (auto simp: device_of_def)
qed

text \<open>The device operations are a table in the sense of \<open>slot_table\<close>.\<close>

definition pvs_good_key :: "bytes \<Rightarrow> bool" where
  "pvs_good_key k \<longleftrightarrow> 4 \<le> length k \<and> length k < 256"

definition pvs_put :: "bytes \<Rightarrow> nat \<Rightarrow> pvs_state \<Rightarrow> bool \<times> pvs_state" where
  "pvs_put k bm st =
     (case provisioning_list_dev_add (of_nat (length k)) k bm st of (r, st') \<Rightarrow> (r \<noteq> None, st'))"

definition pvs_del :: "bytes \<Rightarrow> pvs_state \<Rightarrow> pvs_state" where
  "pvs_del k st = snd (provisioning_list_dev_remove (of_nat (length k)) k st)"

lemma unat_length_key: "pvs_good_key k \<Longrightarrow> unat (of_nat (length k) :: u8) = length k"
  by (simp add: pvs_good_key_def unat_of_nat)

interpretation pvs: slot_table pvs_inv pvs_abs pvs_good_key
  "\<lambda>bm. (PVS_STATUS_PENDING, bm, Map.empty)" pvs_put pvs_del PROVISIONING_LIST_SIZE
proof
  fix st k bm ok st'
  assume inv: "pvs_inv st" and good: "pvs_good_key k"
  have len: "unat (of_nat (length k) :: u8) \<le> length k" "take (unat (of_nat (length k) :: u8)) k = k"
    "4 \<le> (of_nat (length k) :: u8)" "\<not> length k < 4"
    using unat_length_key [OF good] good by (simp_all add: word_le_nat_alt pvs_good_key_def)
  obtain r0 st0 where rem: "provisioning_list_dev_remove (of_nat (length k)) k st = (r0, st0)"
    by (cases "provisioning_list_dev_remove (of_nat (length k)) k st")
  note del = dev_remove_refines [OF inv len(1,3) rem]
  show "pvs_inv (pvs_del k st)" "pvs_abs (pvs_del k st) = (pvs_abs st)(k := None)"
    using del rem by (auto simp: pvs_del_def len fun_upd_idem split: if_splits)
  assume "pvs_put k bm st = (ok, st')"
  then obtain r where add: "provisioning_list_dev_add (of_nat (length k)) k bm st = (r, st')"
      "ok = (r \<noteq> None)"
    by (auto simp: pvs_put_def split: prod.splits)
  note out = dev_add_refines [OF inv len(1) add(1), unfolded len(2)]
  show "pvs_inv st'" using out(1) .
  show "pvs_abs st' = (if ok then (pvs_abs st)(k \<mapsto> (PVS_STATUS_PENDING, bm, Map.empty)) else pvs_abs st)"
    using out(2) add(2) len(4) by (auto simp: dev_add_spec_def split: option.splits if_splits)
next
  fix st k bm st'
  assume inv: "pvs_inv st" and good: "pvs_good_key k" and "pvs_put k bm st = (True, st')"
  then obtain r where add: "provisioning_list_dev_add (of_nat (length k)) k bm st = (r, st')" "r \<noteq> None"
    by (auto simp: pvs_put_def split: prod.splits)
  then show "pvs_abs st k = None"
    using dev_add_refines(2) [OF inv _ add(1)] unat_length_key [OF good] unfolding dev_add_spec_def
    by (metis order_refl take_all)
next
  fix st assume "pvs_inv st"
  then show "finite (dom (pvs_abs st)) \<and> card (dom (pvs_abs st)) \<le> PROVISIONING_LIST_SIZE"
    using finite_dom_pvs_abs card_pvs_abs count_le by simp
qed


section \<open>The store file brings the list back\<close>

abbreviation used :: "provision list \<Rightarrow> provision list" where
  "used ps \<equiv> filter (\<lambda>p. dsk_len p \<noteq> 0) ps"

text \<open>TLVs are read back in reverse: each one is inserted in front of the earlier ones.\<close>

definition rev_tlvs :: "provision \<Rightarrow> provision" where
  "rev_tlvs p = p\<lparr>tlv_list := rev (tlv_list p)\<rparr>"

lemma import_store_tlvs:
  assumes "ts \<noteq> []" and "\<forall>t \<in> set ts. tlv_length t \<noteq> 0 \<and> length (tlv_value t) = unat (tlv_length t)"
    and "\<forall>n. heap_ok st n"
  shows "\<exists>n. import_tlvs (store_tlvs ts @ strm) acc st = (Imported (rev ts @ acc), strm, st\<lparr>n_alloc := n\<rparr>)"
  using assms
proof (induction ts arbitrary: acc st)
  case (Cons t ts)
  let ?st = "st\<lparr>n_alloc := Suc (Suc (n_alloc st))\<rparr>"
  have step: "import_tlvs (store_tlvs (t # ts) @ strm) acc st =
      (if ts \<noteq> [] then import_tlvs (store_tlvs ts @ strm) (t # acc) ?st
       else (Imported (t # acc), strm, ?st))"
    using Cons.prems by (cases t) (auto simp: pvs_tlv_set_def pvs_malloc_def pvs_tlv_insert_front_def)
  show ?case
  proof (cases "ts = []")
    case True
    then show ?thesis unfolding step by auto
  next
    case False
    then show ?thesis
      unfolding step using Cons.IH [OF False, of ?st "t # acc"] Cons.prems(2,3) by simp
  qed
qed simp

lemma import_store_dev:
  assumes "slot_ok p" and "dsk_len p \<noteq> 0" and "\<forall>n. heap_ok st n"
  shows "\<exists>n. pvs_list_dev_import (pvs_list_dev_store p ii @ strm) st
    = (Imported (rev_tlvs p), strm, st\<lparr>n_alloc := n\<rparr>)"
proof -
  let ?st = "st\<lparr>n_alloc := Suc (n_alloc st)\<rparr>"
  have p: "4 \<le> dsk_len p" "dsk p = DskPtr (dsk_bytes p)" "length (dsk_bytes p) = unat (dsk_len p)"
    "\<forall>t \<in> set (tlv_list p). tlv_length t \<noteq> 0 \<and> length (tlv_value t) = unat (tlv_length t)"
    using assms(1,2) by (auto simp: slot_ok_def tlvs_ok_def)
  have rec: "p = \<lparr>dsk = DskPtr (dsk_bytes p), dsk_len = dsk_len p, pvs_status = pvs_status p,
      bootmode = bootmode p, tlv_list = tlv_list p\<rparr>" using p(2) by simp
  show ?thesis
  proof (cases "tlv_list p = []")
    case True
    then show ?thesis
      using p assms(3) rec
      by (intro exI [of _ "Suc (n_alloc st)"])
        (simp add: pvs_list_dev_store_def pvs_malloc_def rev_tlvs_def not_less [symmetric])
  next
    case False
    from import_store_tlvs [OF this p(4), of ?st strm "[]"] assms(3)
    obtain n where "import_tlvs (store_tlvs (tlv_list p) @ strm) [] ?st
        = (Imported (rev (tlv_list p)), strm, st\<lparr>n_alloc := n\<rparr>)" by auto
    then show ?thesis
      using p assms(3) rec False
      by (intro exI [of _ n])
        (simp add: pvs_list_dev_store_def pvs_malloc_def rev_tlvs_def not_less [symmetric])
  qed
qed

lemma import_store_slots:
  assumes "\<forall>p \<in> set ps. slot_ok p" and "\<forall>n. heap_ok st n"
    and "length (used ps) \<le> k" and "ii + length (used ps) \<le> length (pvs_list st)"
  shows "\<exists>n. import_slots k ii (store_slots jj ps) st = Some (st\<lparr>n_alloc := n,
      pvs_list := take ii (pvs_list st) @ map rev_tlvs (used ps)
        @ drop (ii + length (used ps)) (pvs_list st)\<rparr>)"
  using assms
proof (induction ps arbitrary: k ii jj st)
  case Nil
  have "import_slots k ii (store_slots jj []) st = Some st" by (cases k) simp_all
  then show ?case by (intro exI [of _ "n_alloc st"]) simp
next
  case (Cons p ps)
  show ?case
  proof (cases "dsk_len p = 0")
    case True
    then show ?thesis using Cons by simp
  next
    case False
    then obtain k' where k: "k = Suc k'" using Cons.prems(3) by (cases k) auto
    obtain n where imp: "pvs_list_dev_import (pvs_list_dev_store p jj @ store_slots (Suc jj) ps) st
        = (Imported (rev_tlvs p), store_slots (Suc jj) ps, st\<lparr>n_alloc := n\<rparr>)"
      using import_store_dev [of p st jj "store_slots (Suc jj) ps"] Cons.prems(1,2) False by auto
    let ?st = "pvs_upd ii (\<lambda>_. rev_tlvs p) (st\<lparr>n_alloc := n\<rparr>)"
    have "\<exists>n. import_slots k' (ii + 1) (store_slots (Suc jj) ps) ?st = Some (?st\<lparr>n_alloc := n,
      pvs_list := take (ii + 1) (pvs_list ?st) @ map rev_tlvs (used ps)
        @ drop (ii + 1 + length (used ps)) (pvs_list ?st)\<rparr>)"
      using Cons.prems False k by (intro Cons.IH) (simp_all add: pvs_upd_def)
    then show ?thesis
      using False k imp Cons.prems(4)
      by (auto simp: pvs_upd_def upd_idx_def take_Suc_conv_app_nth drop_update_cancel)
  qed
qed


lemma tlv_map_rev: "tlvs_ok ts \<Longrightarrow> tlv_map (rev ts) = tlv_map ts"
proof (rule ext)
  fix type
  assume ok: "tlvs_ok ts"
  let ?ps = "map (\<lambda>t. (tlv_type t, tlv_value t)) ts"
  have d: "distinct (map fst ?ps)" using ok by (simp add: tlvs_ok_def comp_def)
  then have "distinct (map fst (rev ?ps))" by (simp only: rev_map [symmetric] distinct_rev)
  then have "map_of (rev ?ps) type = Some v \<longleftrightarrow> map_of ?ps type = Some v" for v
    using map_of_eq_Some_iff [OF d, of type v] map_of_eq_Some_iff [of "rev ?ps" type v]
    by (simp only: set_rev)
  then have "map_of (rev ?ps) type = map_of ?ps type" by (rule option_eqI)
  then show "tlv_map (rev ts) type = tlv_map ts type" by (simp only: tlv_map_def rev_map)
qed

lemma rev_tlvs_same:
  assumes "slot_ok p"
  shows "slot_ok (rev_tlvs p)" and "slot_key (rev_tlvs p) = slot_key p"
    and "dsk_len p \<noteq> 0 \<Longrightarrow> device_of (rev_tlvs p) = device_of p"
proof -
  have "tlvs_ok (rev ts) = tlvs_ok ts" for ts by (simp add: tlvs_ok_def rev_map [symmetric])
  then show "slot_ok (rev_tlvs p)" and "slot_key (rev_tlvs p) = slot_key p"
    and "dsk_len p \<noteq> 0 \<Longrightarrow> device_of (rev_tlvs p) = device_of p"
    using assms
    by (simp_all add: slot_ok_def slot_key_def device_of_def rev_tlvs_def tlv_map_rev split: if_splits)
qed

lemma pvs_compact:
  assumes "pvs_inv st" and "pvs_list st' = map rev_tlvs (used (pvs_list st)) @ replicate m provision_zero"
    and "length (used (pvs_list st)) + m = PROVISIONING_LIST_SIZE"
  shows "pvs_inv st'" and "pvs_abs st' = pvs_abs st"
proof -
  note inv = pvs_invD [OF assms(1)]
  note same = rev_tlvs_same [OF inv(3)]
  have zero: "slot_ok provision_zero" "slot_key provision_zero = None"
    by (simp_all add: slot_ok_def slot_key_def provision_zero_def)
  have keys: "List.map_filter slot_key (pvs_list st') = List.map_filter slot_key (pvs_list st)"
    unfolding assms(2) map_filter_append
    using map_filter_used [of "\<lambda>p. dsk_len p \<noteq> 0" slot_key "pvs_list st" rev_tlvs] same(2)
      map_filter_blank [of "replicate m provision_zero" slot_key] zero
    by (auto simp: slot_key_None_iff)
  let ?f = "\<lambda>p. map_option (\<lambda>k. (k, device_of p)) (slot_key p)"
  have vals: "List.map_filter ?f (pvs_list st') = List.map_filter ?f (pvs_list st)"
    unfolding assms(2) map_filter_append
    using map_filter_used [of "\<lambda>p. dsk_len p \<noteq> 0" ?f "pvs_list st" rev_tlvs] same(2,3)
      map_filter_blank [of "replicate m provision_zero" ?f] zero
    by (auto simp: slot_key_None_iff)
  show "pvs_abs st' = pvs_abs st"
    by (simp add: pvs_abs_def tbl_abs_compact vals)
  show "pvs_inv st'"
    using inv zero same(1) assms(3) keys
    by (auto simp: pvs_inv_def tbl_inv_def keys_distinct_compact assms(2))
qed

lemma import_persisted:
  assumes "pvs_inv st" and "\<forall>n. heap_ok st' n"
    and "pvs_list st' = replicate PROVISIONING_LIST_SIZE provision_zero"
  obtains st'' where "pvs_list_import_file (Ch_header pvs_store_hdr # store_slots 0 (pvs_list st)) st'
      = Some (PVS_SUCCESS, st'')"
    and "pvs_inv st''" and "pvs_abs st'' = pvs_abs st"
proof -
  have count: "length (used (pvs_list st)) \<le> PROVISIONING_LIST_SIZE"
    using count_le [OF assms(1)] by (simp add: provisioning_list_get_count_def)
  obtain n where imp: "import_slots PROVISIONING_LIST_SIZE 0 (store_slots 0 (pvs_list st)) st' =
      Some (st'\<lparr>n_alloc := n, pvs_list := map rev_tlvs (used (pvs_list st))
        @ drop (length (used (pvs_list st))) (pvs_list st')\<rparr>)"
    using import_store_slots [of "pvs_list st" st' PROVISIONING_LIST_SIZE 0 0] pvs_invD(3) [OF assms(1)]
      assms(2,3) count by auto
  let ?st = "st'\<lparr>n_alloc := n, pvs_list := map rev_tlvs (used (pvs_list st))
        @ drop (length (used (pvs_list st))) (pvs_list st')\<rparr>"
  have "pvs_inv ?st" "pvs_abs ?st = pvs_abs st"
    using count assms(3)
    by (intro pvs_compact [OF assms(1), where m = "PROVISIONING_LIST_SIZE - length (used (pvs_list st))"];
        simp)+
  then show thesis using that [of ?st] imp by (simp add: pvs_list_import_file_def)
qed

text \<open>
  C22.  A restart loses nothing: when the store file holds what the last change of the list
  wrote, initialising from it gives a list that satisfies the invariant and stands for the
  same devices, with the same status, boot mode and TLVs, and goes on using that file.
\<close>

theorem provisioning_restart:
  assumes "pvs_inv st" and "pvs_store_filename st = Some f" and "can_create st f"
    and "\<forall>n. heap_ok st' n" and "files st' f = files (pvs_list_persist_in_file st) f"
  shows "\<exists>st''. provisioning_list_init parse cfg_exists dflt (Some f) cfg st' = Some st''
    \<and> pvs_inv st'' \<and> pvs_abs st'' = pvs_abs st \<and> pvs_store_filename st'' = Some f"
proof -
  let ?st = "st'\<lparr>pvs_list := replicate PROVISIONING_LIST_SIZE provision_zero\<rparr>"
  have stored: "files st' f = Some (Ch_header pvs_store_hdr # store_slots 0 (pvs_list st))"
    using assms(2,3,5) by (simp add: pvs_list_persist_in_file_def fopen_w_def)
  obtain st1 where st1: "pvs_list_import_file (Ch_header pvs_store_hdr # store_slots 0 (pvs_list st)) ?st
      = Some (PVS_SUCCESS, st1)" "pvs_inv st1" "pvs_abs st1 = pvs_abs st"
    using import_persisted [OF assms(1), of ?st] assms(4) by auto
  have "pvs_list_store_setup_and_import dflt (Some f) ?st = Some (st1\<lparr>pvs_store_filename := Some f\<rparr>)"
    using stored st1(1)
    by (simp add: pvs_list_store_setup_and_import_def pvs_list_store_setup_and_import_file_def)
  moreover have "pvs_list_store_find dflt (Some f) ?st = PVS_SUCCESS"
    using stored by (simp add: pvs_list_store_find_def pvs_list_store_find_file_def)
  moreover have "pvs_store_filename (pvs_list_persist_in_file (st1\<lparr>pvs_store_filename := Some f\<rparr>)) = Some f"
    by (auto simp: pvs_list_persist_in_file_def fopen_w_def split: option.splits)
  moreover have "pvs_inv (st1\<lparr>pvs_store_filename := Some f\<rparr>)"
    "pvs_abs (st1\<lparr>pvs_store_filename := Some f\<rparr>) = pvs_abs st1"
    using st1(2) by (simp_all add: pvs_inv_def pvs_abs_def)
  ultimately show ?thesis
    using st1 by (auto simp: provisioning_list_init_def Let_def)
qed


section \<open>The properties of the provisioning list\<close>

text \<open>
  C20.  The device operations implement a map from DSKs to devices of at most 1000 entries, on a list that satisfies the invariant and a key no shorter than its length says:
  adding a device inserts it as pending without TLVs and returns the slot that holds it; it fails without any change when the DSK
  is shorter than four bytes or known, and otherwise fails exactly when the table is full or
  memory runs out, with the same devices as before; setting changes the boot mode of a known device and returns its slot, and adds an unknown one;
  removing deletes exactly the device with that DSK, and fails without any change when the DSK is shorter than four bytes or there is no such device;
  clearing deletes all, and the count is that of the devices.  Every operation keeps the invariant.
\<close>

theorem provisioning_devices_refine:
  assumes "pvs_inv st" and "unat len \<le> length buf" and "k = take (unat len) buf"
  shows "(case provisioning_list_dev_add len buf bm st of (r, st1) \<Rightarrow> pvs_inv st1 \<and> dev_add_spec k bm st r st1)
    \<and> (case provisioning_list_dev_set len buf bm st of (r, st1) \<Rightarrow> pvs_inv st1 \<and> dev_set_spec k bm st r st1)
    \<and> (case provisioning_list_dev_remove len buf st of (r, st1) \<Rightarrow> pvs_inv st1
         \<and> (if len < 4 \<or> pvs_abs st k = None then r = PVS_ERROR \<and> st1 = st
            else r = PVS_SUCCESS \<and> pvs_abs st1 = (pvs_abs st)(k := None)))
    \<and> pvs_inv (provisioning_list_clear st) \<and> pvs_abs (provisioning_list_clear st) = Map.empty
    \<and> provisioning_list_get_count st = card (dom (pvs_abs st))"
proof -
  have "case provisioning_list_dev_remove len buf st of (r, st1) \<Rightarrow> pvs_inv st1
         \<and> (if len < 4 \<or> pvs_abs st k = None then r = PVS_ERROR \<and> st1 = st
            else r = PVS_SUCCESS \<and> pvs_abs st1 = (pvs_abs st)(k := None))"
  proof (cases "len < 4")
    case True
    then show ?thesis using assms(1) by (simp add: provisioning_list_dev_remove_def)
  next
    case False
    then have "4 \<le> len" by simp
    obtain r st1 where r: "provisioning_list_dev_remove len buf st = (r, st1)" by (cases "provisioning_list_dev_remove len buf st")
    show ?thesis using dev_remove_refines [OF assms(1,2) \<open>4 \<le> len\<close> r] False unfolding r assms(3) by simp
  qed
  moreover have "case provisioning_list_dev_add len buf bm st of (r, st1) \<Rightarrow> pvs_inv st1 \<and> dev_add_spec k bm st r st1"
    using dev_add_refines [OF assms(1,2)] unfolding assms(3) by (simp split: prod.split)
  moreover have "case provisioning_list_dev_set len buf bm st of (r, st1) \<Rightarrow> pvs_inv st1 \<and> dev_set_spec k bm st r st1"
    using dev_set_refines [OF assms(1,2)] unfolding assms(3) by (simp split: prod.split)
  ultimately show ?thesis using clear_refines [OF assms(1)] card_pvs_abs [OF assms(1)] by simp
qed

definition pvs_fresh :: pvs_state where
  "pvs_fresh = \<lparr>pvs_list = replicate PROVISIONING_LIST_SIZE provision_zero,
     pvs_store_filename = Some ''pvs'', files = Map.empty, can_create = (\<lambda>_. True),
     heap_ok = (\<lambda>_. True), n_alloc = 0\<rparr>"

lemma pvs_inv_fresh: "pvs_inv pvs_fresh" "pvs_abs pvs_fresh = Map.empty"
  by (auto simp: pvs_inv_def pvs_abs_def pvs_fresh_def provision_zero_def slot_ok_def slot_key_def
      intro!: tbl_inv_replicate tbl_abs_empty)

lemma heap_ok_fresh: "heap_ok pvs_fresh n"
  by (simp add: pvs_fresh_def)

lemma dev_add_fresh:
  assumes "dev_add_spec k bm pvs_fresh r st1" and "4 \<le> length k"
  shows "pvs_abs st1 = [k \<mapsto> (PVS_STATUS_PENDING, bm, Map.empty)]"
  using assms by (auto simp: dev_add_spec_def pvs_inv_fresh heap_ok_fresh PROVISIONING_LIST_SIZE_def
      split: option.splits)

theorem provisioning_devices_refine_witness:
  "case provisioning_list_dev_add 4 [1, 2, 3, 4] 1 pvs_fresh of
     (r, st1) \<Rightarrow> dev_add_spec [1, 2, 3, 4] 1 pvs_fresh r st1 \<and> provisioning_list_get_count st1 = 1"
proof -
  obtain r st1 where add: "provisioning_list_dev_add 4 [1, 2, 3, 4] 1 pvs_fresh = (r, st1)"
    by (cases "provisioning_list_dev_add 4 [1, 2, 3, 4] 1 pvs_fresh")
  from provisioning_devices_refine [OF pvs_inv_fresh(1) _ refl, of 4 "[1, 2, 3, 4]" 1] add
  have out: "pvs_inv st1" "dev_add_spec [1, 2, 3, 4] 1 pvs_fresh r st1" by simp_all
  moreover have "pvs_abs st1 = [[1, 2, 3, 4] \<mapsto> (PVS_STATUS_PENDING, 1, Map.empty)]"
    using dev_add_fresh [OF out(2)] by simp
  moreover have "unat (4 :: u8) \<le> length [0 :: u8, 0, 0, 0]" by simp
  from provisioning_devices_refine [OF out(1) this refl, of 0]
  have "provisioning_list_get_count st1 = card (dom (pvs_abs st1))" by blast
  ultimately show ?thesis using add by simp
qed

theorem provisioning_restart_witness:
  "\<exists>st''. provisioning_list_init (\<lambda>_ st. (0, st)) (\<lambda>_. False) ''dflt'' (Some ''pvs'') None
      (pvs_list_persist_in_file (snd (provisioning_list_dev_add 4 [1, 2, 3, 4] 1 pvs_fresh))) = Some st''
    \<and> pvs_abs st'' [1, 2, 3, 4] = Some (0, 1, Map.empty)"
proof -
  let ?st = "snd (provisioning_list_dev_add 4 [1, 2, 3, 4] 1 pvs_fresh)"
  obtain r where add: "provisioning_list_dev_add 4 [1, 2, 3, 4] 1 pvs_fresh = (r, ?st)"
    by (cases "provisioning_list_dev_add 4 [1, 2, 3, 4] 1 pvs_fresh") simp
  have out: "pvs_inv ?st" "dev_add_spec [1, 2, 3, 4] 1 pvs_fresh r ?st"
    using dev_add_refines [OF pvs_inv_fresh(1) _ add] by simp_all
  have abs: "pvs_abs ?st [1, 2, 3, 4] = Some (0, 1, Map.empty)"
    using dev_add_fresh [OF out(2)] by (simp add: PVS_STATUS_PENDING_def)
  have frame: "pvs_store_filename ?st = Some ''pvs''" "can_create ?st = (\<lambda>_. True)"
    "heap_ok (pvs_list_persist_in_file ?st) = (\<lambda>_. True)"
    by (auto simp: provisioning_list_dev_add_def pvs_dev_add_def pvs_malloc_def pvs_upd_def
        pvs_list_persist_in_file_def fopen_w_def pvs_fresh_def split: option.splits)
  show ?thesis
    using provisioning_restart [OF out(1) frame(1), of "pvs_list_persist_in_file ?st"
        "\<lambda>_ st. (0, st)" "\<lambda>_. False" "''dflt''" None] frame abs by auto
qed


text \<open>
  The TLV operations on a device of the list change that device's map from types to values
  and nothing else: setting a TLV overwrites or adds its value (and fails without a change
  for an empty value or when memory runs out), removing deletes it and reports whether it
  was there.
\<close>

theorem provisioning_tlvs_refine:
  assumes "pvs_inv st" and "i < PROVISIONING_LIST_SIZE" and "slot_key (pvs_list st ! i) = Some k"
  shows "(unat len \<le> length v \<longrightarrow> (case provisioning_list_tlv_set (Some i) type len (Some v) st of (r, st1) \<Rightarrow>
        pvs_inv st1 \<and> tlv_set_spec k type len v st r st1 \<and> slot_key (pvs_list st1 ! i) = Some k))
    \<and> (case provisioning_list_tlv_remove (Some i) type st of (r, st1) \<Rightarrow>
        pvs_inv st1 \<and> (\<exists>s bm tlvs. pvs_abs st k = Some (s, bm, tlvs) \<and> (r = PVS_SUCCESS \<longleftrightarrow> tlvs type \<noteq> None)
          \<and> pvs_abs st1 = (pvs_abs st)(k \<mapsto> (s, bm, tlvs(type := None)))))"
proof -
  note refines = tlv_set_refines [OF assms] tlv_remove_refines [OF assms]
  show ?thesis by (intro conjI impI) (use refines in \<open>simp_all split: prod.split\<close>)
qed

theorem provisioning_tlvs_refine_witness:
  "case provisioning_list_dev_add 4 [1, 2, 3, 4] 1 pvs_fresh of (i, st) \<Rightarrow>
     (case provisioning_list_tlv_set i PVS_TLV_TYPE_NAME 2 (Some [65, 66]) st of (r, st1) \<Rightarrow>
        tlv_set_spec [1, 2, 3, 4] PVS_TLV_TYPE_NAME 2 [65, 66] st r st1)"
proof -
  have blank: "find_idx (\<lambda>p. dsk_len p = 0) (pvs_list pvs_fresh) = Some 0"
    by (simp add: find_idx_Some_iff pvs_fresh_def provision_zero_def PROVISIONING_LIST_SIZE_def)
  have none: "provisioning_list_dev_get pvs_fresh 4 [1, 2, 3, 4] = None"
    using dev_get_Some(3) [OF pvs_inv_fresh(1), of 4 "[1, 2, 3, 4]"]
    by (cases "provisioning_list_dev_get pvs_fresh 4 [1, 2, 3, 4]") (simp_all add: pvs_inv_fresh)
  obtain i st where add: "provisioning_list_dev_add 4 [1, 2, 3, 4] 1 pvs_fresh = (i, st)"
    by (cases "provisioning_list_dev_add 4 [1, 2, 3, 4] 1 pvs_fresh")
  then have dev: "pvs_dev_add 4 [1, 2, 3, 4] 1 pvs_fresh = (i, st)"
    using none by (simp add: provisioning_list_dev_add_def)
  then have i: "i = Some 0"
    using blank by (auto simp: pvs_dev_add_def pvs_malloc_def heap_ok_fresh)
  note out = pvs_dev_add_outcome [OF pvs_inv_fresh(1) _ _ _ dev]
  have inv: "pvs_inv st" "slot_key (pvs_list st ! 0) = Some [1, 2, 3, 4]"
    using out(1) out(2) [OF _ _ _ i] by (simp_all add: pvs_inv_fresh)
  obtain r st1 where set: "provisioning_list_tlv_set i PVS_TLV_TYPE_NAME 2 (Some [65, 66]) st = (r, st1)"
    by (cases "provisioning_list_tlv_set i PVS_TLV_TYPE_NAME 2 (Some [65, 66]) st")
  have "tlv_set_spec [1, 2, 3, 4] PVS_TLV_TYPE_NAME 2 [65, 66] st r st1"
    using provisioning_tlvs_refine [OF inv(1) _ inv(2), of 2 "[65, 66]" PVS_TLV_TYPE_NAME] set [unfolded i]
    by (simp add: PROVISIONING_LIST_SIZE_def)
  then show ?thesis using add set by simp
qed

lemma iter_entries_eq:
  assumes "pvs_inv st"
  shows "iter_entries (pvs_list st) = map (\<lambda>k. (of_nat (length k), k))
    (filter (\<lambda>k. length k \<le> 16) (List.map_filter slot_key (pvs_list st)))"
proof -
  have "iter_entries ps = map (\<lambda>k. (of_nat (length k), k))
      (filter (\<lambda>k. length k \<le> 16) (List.map_filter slot_key ps))" if "\<forall>p \<in> set ps. slot_ok p" for ps
    using that
  proof (induction ps)
    case (Cons p ps)
    have "dsk_len p \<noteq> 0 \<Longrightarrow> 4 \<le> dsk_len p \<and> dsk p = DskPtr (dsk_bytes p) \<and>
        length (dsk_bytes p) = unat (dsk_len p)"
      using Cons.prems by (simp add: slot_ok_def)
    then show ?case
      using Cons by (cases "dsk_len p = 0")
        (auto simp: iter_entries_def map_filter_simps slot_key_def not_less [symmetric]
          PROVISIONING_LIST_DSK_MAX_SIZE_def)
  qed (simp add: iter_entries_def map_filter_simps)
  then show ?thesis using pvs_invD(3) [OF assms] by blast
qed

lemma set_compact_keys:
  "set (List.map_filter slot_key (pvs_list st)) = dom (pvs_abs st)"
  by (simp add: pvs_abs_def dom_tbl_abs set_map_filter)

text \<open>
  An iterator holds every DSK of the list of at most sixteen bytes exactly once, and looking
  up its entries in the unchanged list gives the slots of those devices, so stepping through
  it visits every such device once and then ends.
\<close>

theorem provisioning_iterator_complete:
  assumes "pvs_inv st" and "provisioning_list_iterator_get ident st = (Some it, st')"
  shows "distinct (it_entries it) \<and> it_cnt it = length (it_entries it) \<and> it_next it = 0
    \<and> snd ` set (it_entries it) = {k \<in> dom (pvs_abs st). length k \<le> 16}
    \<and> (\<forall>j < it_cnt it. \<exists>i < PROVISIONING_LIST_SIZE.
         provisioning_list_iter_get_next st' (Some (it\<lparr>it_next := j\<rparr>)) =
           (Some i, Some (it\<lparr>it_next := j + 1\<rparr>))
         \<and> slot_key (pvs_list st' ! i) = Some (snd (it_entries it ! j)))
    \<and> provisioning_list_iter_get_next st' (Some (it\<lparr>it_next := it_cnt it\<rparr>)) =
        (None, Some (it\<lparr>it_next := it_cnt it\<rparr>))"
proof -
  let ?keys = "List.map_filter slot_key (pvs_list st)"
  let ?es = "iter_entries (pvs_list st)"
  note es = iter_entries_eq [OF assms(1)]
  have "it_entries it = ?es \<and> it_cnt it = length ?es \<and> it_next it = 0 \<and> pvs_list st' = pvs_list st"
  proof (cases "provisioning_list_get_count st = 0")
    case True
    then have "dom (pvs_abs st) = {}"
      using card_pvs_abs [OF assms(1)] finite_dom_pvs_abs [of st] by auto
    then have "?es = []" using set_compact_keys [of st] es by simp
    then show ?thesis
      using True assms(2)
      by (auto simp: provisioning_list_iterator_get_def pvs_malloc_def split: bool.splits)
  next
    case False
    then show ?thesis
      using assms(2)
      by (auto simp: provisioning_list_iterator_get_def pvs_malloc_def Let_def split: bool.splits)
  qed
  then have it: "it_entries it = ?es" "it_cnt it = length ?es" "it_next it = 0"
    "pvs_list st' = pvs_list st" by auto
  have inv': "pvs_inv st'" using assms(1) it(4) by (simp add: pvs_inv_def)
  have "distinct ?keys"
    using pvs_invD(2) [OF assms(1)] by (simp add: tbl_inv_def keys_distinct_compact)
  then have "distinct ?es" by (simp add: es distinct_map inj_on_def)
  moreover have "snd ` set ?es = {k \<in> dom (pvs_abs st). length k \<le> 16}"
    by (auto simp: es image_image set_compact_keys)
  moreover have "\<exists>i < PROVISIONING_LIST_SIZE.
      provisioning_list_iter_get_next st' (Some (it\<lparr>it_next := j\<rparr>)) =
        (Some i, Some (it\<lparr>it_next := j + 1\<rparr>))
      \<and> slot_key (pvs_list st' ! i) = Some (snd (it_entries it ! j))" if j: "j < length ?es" for j
  proof -
    obtain l k where e: "?es ! j = (l, k)" by (cases "?es ! j")
    then have "(l, k) \<in> set ?es" using j nth_mem by metis
    then have k: "l = of_nat (length k)" "length k \<le> 16" "k \<in> dom (pvs_abs st)"
      by (auto simp: es set_compact_keys)
    then obtain p where p: "p \<in> set (pvs_list st)" "slot_key p = Some k"
      by (auto simp: pvs_abs_def dom_tbl_abs)
    note ok = pvs_invD(3) [OF assms(1) p(1)]
    have l: "unat l = length k" using k(1,2) by (simp add: unat_of_nat)
    have "dsk_len p \<noteq> 0" "l = dsk_len p"
      using slot_key_Some_iff [OF ok, of k] p(2) l word_unat_eq_iff [of l "dsk_len p"] by simp_all
    then have "4 \<le> l" using ok by (simp add: slot_ok_def)
    note l = l this
    have "pvs_abs st' k \<noteq> None" using k(3) it(4) unfolding pvs_abs_def by (simp add: domIff)
    then have "provisioning_list_dev_get st' l k \<noteq> None"
      using dev_get_None [OF inv', of l k] l by force
    then obtain i where i: "provisioning_list_dev_get st' l k = Some i" by auto
    then have "i < PROVISIONING_LIST_SIZE" "slot_key (pvs_list st' ! i) = Some k"
      using dev_get_Some(1,2) [OF inv' _ i] l(1) by simp_all
    moreover have "provisioning_list_iter_get_next st' (Some (it\<lparr>it_next := j\<rparr>)) =
        (Some i, Some (it\<lparr>it_next := j + 1\<rparr>))"
      using j e i by (simp add: provisioning_list_iter_get_next_def it(1,2))
    ultimately show ?thesis using e it(1) by auto
  qed
  ultimately show ?thesis
    using it by (simp add: provisioning_list_iter_get_next_def)
qed

theorem provisioning_iterator_complete_witness:
  "\<exists>it st'. provisioning_list_iterator_get 0 pvs_fresh = (Some it, st') \<and> it_entries it = []"
proof -
  have "fst (provisioning_list_iterator_get 0 pvs_fresh) \<noteq> None"
    by (simp add: provisioning_list_iterator_get_def pvs_malloc_def pvs_fresh_def Let_def)
  then obtain it st' where it: "provisioning_list_iterator_get 0 pvs_fresh = (Some it, st')"
    by (cases "provisioning_list_iterator_get 0 pvs_fresh") auto
  then show ?thesis
    using provisioning_iterator_complete [OF pvs_inv_fresh(1) it] by (simp add: pvs_inv_fresh)
qed

end
