(* ===== verification/Provisioning_Cc.thy ===== *)
theory Provisioning_Cc
  imports Provisioning Zgw_Str Nodemask
begin

text \<open>
  The Provisioning List command class of \<^verbatim>\<open>src/CC_provisioning_list.c\<close>: the handler
  \<open>PVL_CommandHandler\<close> with its four commands, the TLV parser of the set command and the
  reports.  The frame is the buffer \<open>pData\<close> of which \<open>bDatalen\<close> bytes were received; what
  \<^verbatim>\<open>ZW_SendDataZIP\<close> sends is collected in \<open>sent\<close>, and the calls of
  \<^verbatim>\<open>NetworkManagement_smart_start_init_if_pending\<close> are counted.
\<close>

section \<open>The code\<close>

definition COMMAND_CLASS_PROVISIONING_LIST :: u8 where "COMMAND_CLASS_PROVISIONING_LIST = 0x78"
definition COMMAND_PROVISION_SET :: u8 where "COMMAND_PROVISION_SET = 0x01"
definition COMMAND_PROVISION_DELETE :: u8 where "COMMAND_PROVISION_DELETE = 0x02"
definition COMMAND_PROVISION_ITER_GET :: u8 where "COMMAND_PROVISION_ITER_GET = 0x03"
definition COMMAND_PROVISION_ITER_REPORT :: u8 where "COMMAND_PROVISION_ITER_REPORT = 0x04"
definition COMMAND_PROVISION_GET :: u8 where "COMMAND_PROVISION_GET = 0x05"
definition COMMAND_PROVISION_REPORT :: u8 where "COMMAND_PROVISION_REPORT = 0x06"
definition PROVISIONING_LIST_OPT_CRITICAL_FLAG :: u8 where "PROVISIONING_LIST_OPT_CRITICAL_FLAG = 0x01"
definition PROVISIONING_LIST_DSK_LENGTH_MASK :: u8 where "PROVISIONING_LIST_DSK_LENGTH_MASK = 0x1F"
definition TLV_NOT_PRESENT :: nat where "TLV_NOT_PRESENT = 0xFFFF"

lemmas pvl_consts = COMMAND_CLASS_PROVISIONING_LIST_def COMMAND_PROVISION_SET_def
  COMMAND_PROVISION_DELETE_def COMMAND_PROVISION_ITER_GET_def COMMAND_PROVISION_ITER_REPORT_def
  COMMAND_PROVISION_GET_def COMMAND_PROVISION_REPORT_def PROVISIONING_LIST_OPT_CRITICAL_FLAG_def
  PROVISIONING_LIST_DSK_LENGTH_MASK_def

record pvl_state =
  pvs :: pvs_state
  curr_iter :: "pvs_iter option"
  sent :: "bytes list"
  smart_start_inits :: nat

text \<open>
  What the set command collects from the TLVs: pointers into the frame (with their lengths)
  and the values that fit an integer.
\<close>

record provision_set =
  ps_name :: "bytes option"
  ps_location :: "bytes option"
  ps_product_id :: "bytes option"
  ps_product_type :: "bytes option"
  ps_uuid16 :: "bytes option"
  ps_max_incl_req_interval :: nat
  ps_bootstrap_mode :: nat
  ps_prov_status :: nat
  ps_prov_granted_keys :: nat

definition provision_set_init :: provision_set where
  "provision_set_init = \<lparr>ps_name = None, ps_location = None, ps_product_id = None,
     ps_product_type = None, ps_uuid16 = None, ps_max_incl_req_interval = TLV_NOT_PRESENT,
     ps_bootstrap_mode = TLV_NOT_PRESENT, ps_prov_status = TLV_NOT_PRESENT,
     ps_prov_granted_keys = TLV_NOT_PRESENT\<rparr>"

text \<open>The \<^verbatim>\<open>switch\<close> on one TLV; \<open>None\<close> is the parse error.\<close>

definition set_tlv_switch :: "bytes \<Rightarrow> provision_set \<Rightarrow> provision_set option" where
  "set_tlv_switch tlv ps =
     (let type = tlv ! 0; len = unat (tlv ! 1); val = take len (drop 2 tlv); t = drop_bit 1 type
      in if t = PVS_TLV_TYPE_NAME then Some (ps\<lparr>ps_name := Some val\<rparr>)
         else if t = PVS_TLV_TYPE_LOCATION then Some (ps\<lparr>ps_location := Some val\<rparr>)
         else if t = PVS_TLV_TYPE_BOOTSTRAP_MODE then Some (ps\<lparr>ps_bootstrap_mode := unat (tlv ! 2)\<rparr>)
         else if t = PVS_TLV_TYPE_PRODUCT_TYPE then
           if len < 4 then None else Some (ps\<lparr>ps_product_type := Some val\<rparr>)
         else if t = PVS_TLV_TYPE_PRODUCT_ID then
           if len < 8 then None else Some (ps\<lparr>ps_product_id := Some val\<rparr>)
         else if t = PVS_TLV_TYPE_STATUS then
           if len < 1 then None else Some (ps\<lparr>ps_prov_status := unat (tlv ! 2)\<rparr>)
         else if t = PVS_TLV_TYPE_NETWORK_INFO then Some ps
         else if t = PVS_TLV_TYPE_ADV_JOIN then
           if len < 1 then None else Some (ps\<lparr>ps_prov_granted_keys := unat (tlv ! 2)\<rparr>)
         else if t = PVS_TLV_TYPE_MAX_INCL_REQ_INTERVAL then
           if len < 1 then None else Some (ps\<lparr>ps_max_incl_req_interval := unat (tlv ! 2)\<rparr>)
         else if t = PVS_TLV_TYPE_UUID16 then
           if len < 17 then None else Some (ps\<lparr>ps_uuid16 := Some (take 17 (drop 2 tlv))\<rparr>)
         else if type AND PROVISIONING_LIST_OPT_CRITICAL_FLAG \<noteq> 0 then None
         else Some ps)"

text \<open>\<^verbatim>\<open>while (tlv < end-2) { ... if (end < tlv+2+len) break; switch ...; tlv += 2+len; }\<close>\<close>

function parse_set_tlvs :: "bytes \<Rightarrow> provision_set \<Rightarrow> provision_set option" where
  "parse_set_tlvs tlv ps =
     (if 2 < length tlv then
        let len = unat (tlv ! 1)
        in if length tlv < 2 + len then Some ps
           else (case set_tlv_switch tlv ps of
                   None \<Rightarrow> None
                 | Some ps \<Rightarrow> parse_set_tlvs (drop (2 + len) tlv) ps)
      else Some ps)"
  by pat_completeness auto
termination by (relation "measure (\<lambda>(tlv, ps). length tlv)") auto

declare parse_set_tlvs.simps [simp del]

definition mdns_ok :: "provision_set \<Rightarrow> bool" where
  "mdns_ok ps \<longleftrightarrow>
     (case ps_name ps of None \<Rightarrow> True
      | Some s \<Rightarrow> s = [] \<or> is_valid_mdns_name s (length s))
     \<and> (case ps_location ps of None \<Rightarrow> True
        | Some s \<Rightarrow> s = [] \<or> is_valid_mdns_location s (length s))"

definition set_tlv_if :: "nat \<Rightarrow> u8 \<Rightarrow> bytes option \<Rightarrow> pvs_state \<Rightarrow> pvs_state" where
  "set_tlv_if i type val st =
     (case val of
        None \<Rightarrow> st
      | Some v \<Rightarrow> snd (provisioning_list_tlv_set (Some i) type (of_nat (length v)) (Some v) st))"

definition set_byte_if :: "nat \<Rightarrow> u8 \<Rightarrow> nat \<Rightarrow> pvs_state \<Rightarrow> pvs_state" where
  "set_byte_if i type v st =
     (if v \<noteq> TLV_NOT_PRESENT
      then snd (provisioning_list_tlv_set (Some i) type 1 (Some [of_nat (v mod 256)]) st) else st)"

text \<open>The TLVs stored for the entry, in the order of the code.\<close>

definition store_set_tlvs :: "nat \<Rightarrow> provision_set \<Rightarrow> pvs_state \<Rightarrow> pvs_state" where
  "store_set_tlvs i ps st =
     (let st = set_tlv_if i PVS_TLV_TYPE_NAME (ps_name ps) st;
          st = set_tlv_if i PVS_TLV_TYPE_LOCATION (ps_location ps) st;
          st = set_byte_if i PVS_TLV_TYPE_ADV_JOIN (ps_prov_granted_keys ps) st;
          st = set_tlv_if i PVS_TLV_TYPE_PRODUCT_TYPE (ps_product_type ps) st;
          st = set_tlv_if i PVS_TLV_TYPE_PRODUCT_ID (ps_product_id ps) st;
          st = set_byte_if i PVS_TLV_TYPE_MAX_INCL_REQ_INTERVAL (ps_max_incl_req_interval ps) st
      in set_tlv_if i PVS_TLV_TYPE_UUID16 (ps_uuid16 ps) st)"

text \<open>\<^verbatim>\<open>case COMMAND_PROVISION_SET\<close>\<close>

definition provision_set_cmd ::
  "bytes \<Rightarrow> nat \<Rightarrow> pvs_state \<Rightarrow> command_handler_codes_t \<times> pvs_state" where
  "provision_set_cmd pData bDatalen st =
     (let dsklen = pData ! 3 AND PROVISIONING_LIST_DSK_LENGTH_MASK; dsk = drop 4 pData
      in if bDatalen < 4 + unat dsklen then (COMMAND_PARSE_ERROR, st)
         else if dsklen < 16 then (COMMAND_PARSE_ERROR, st)
         else (case parse_set_tlvs (drop (4 + unat dsklen) (take bDatalen pData)) provision_set_init of
                 None \<Rightarrow> (COMMAND_PARSE_ERROR, st)
               | Some ps \<Rightarrow>
                   if \<not> mdns_ok ps then (COMMAND_PARSE_ERROR, st)
                   else
                     (let (entry, st) =
                        (case provisioning_list_dev_get st dsklen dsk of
                           None \<Rightarrow>
                             provisioning_list_dev_add dsklen dsk
                               (if ps_bootstrap_mode ps = TLV_NOT_PRESENT then PVS_BOOTMODE_SMART_START
                                else ps_bootstrap_mode ps) st
                         | Some i \<Rightarrow>
                             (Some i,
                              if ps_bootstrap_mode ps \<noteq> TLV_NOT_PRESENT
                              then snd (provisioning_list_bootmode_set (Some i) (ps_bootstrap_mode ps) st)
                              else st))
                      in (case entry of
                            None \<Rightarrow> (COMMAND_HANDLED, st)
                          | Some i \<Rightarrow>
                              let st = (if ps_prov_status ps \<noteq> TLV_NOT_PRESENT
                                        then snd (provisioning_list_status_set (Some i) (ps_prov_status ps) st)
                                        else st)
                              in (COMMAND_HANDLED, store_set_tlvs i ps st)))))"

text \<open>\<^verbatim>\<open>case COMMAND_PROVISION_DELETE\<close>\<close>

definition provision_delete_cmd ::
  "bytes \<Rightarrow> nat \<Rightarrow> pvs_state \<Rightarrow> command_handler_codes_t \<times> pvs_state" where
  "provision_delete_cmd pData bDatalen st =
     (let dsklen = pData ! 3 AND PROVISIONING_LIST_DSK_LENGTH_MASK
      in if 4 \<le> bDatalen \<and> dsklen = 0 then (COMMAND_HANDLED, provisioning_list_clear st)
         else if bDatalen < 4 + unat dsklen then (COMMAND_PARSE_ERROR, st)
         else (COMMAND_HANDLED, snd (provisioning_list_dev_remove dsklen (drop 4 pData) st)))"

text \<open>
  The TLV part of a report.  \<open>rd\<close> is \<^verbatim>\<open>rd_lookup_by_dsk\<close>: the node id and whether its state
  is \<^verbatim>\<open>STATUS_FAILING\<close>.
\<close>

definition CC_provisioning_list_add_tlvs ::
  "(bytes \<Rightarrow> (nodeid \<times> bool) option) \<Rightarrow> provision \<Rightarrow> bytes" where
  "CC_provisioning_list_add_tlvs rd entry =
     [PVS_TLV_TYPE_BOOTSTRAP_MODE * 2 OR 1, 1, of_nat (bootmode entry),
      PVS_TLV_TYPE_STATUS * 2 OR 1, 1, of_nat (pvs_status entry),
      PVS_TLV_TYPE_NETWORK_INFO * 2, 4]
     @ (case rd (take (unat (dsk_len entry)) (dsk_bytes entry)) of
          None \<Rightarrow> [0, 0, 0, 0]
        | Some (nodeid, failing) \<Rightarrow>
            [if is_lr_node nodeid then 0 else ucast nodeid, if failing then 2 else 1]
            @ (if is_lr_node nodeid then [ucast (drop_bit 8 nodeid), ucast nodeid] else [0, 0]))
     @ concat (map (\<lambda>t. [tlv_type t * 2 OR provisioning_list_tlv_crt_flag (tlv_type t), tlv_length t]
                        @ take (unat (tlv_length t)) (tlv_value t)) (tlv_list entry))"

definition CC_provisioning_list_build_report ::
  "(bytes \<Rightarrow> (nodeid \<times> bool) option) \<Rightarrow> provision option \<Rightarrow> u8 \<Rightarrow> bytes" where
  "CC_provisioning_list_build_report rd entry seqNo =
     [COMMAND_CLASS_PROVISIONING_LIST, COMMAND_PROVISION_REPORT, seqNo]
     @ (case entry of
          None \<Rightarrow> [0]
        | Some e \<Rightarrow>
            [dsk_len e AND PROVISIONING_LIST_DSK_LENGTH_MASK]
            @ take (unat (dsk_len e)) (dsk_bytes e) @ CC_provisioning_list_add_tlvs rd e)"

text \<open>
  The answer to an iteration request, once the iterator is chosen.  \<open>None\<close> is the access
  through the null pointer \<^verbatim>\<open>curr_iter\<close> after a failed allocation.
\<close>

definition provision_iter_report ::
  "(bytes \<Rightarrow> (nodeid \<times> bool) option) \<Rightarrow> u8 \<Rightarrow> pvl_state \<Rightarrow> pvl_state option" where
  "provision_iter_report rd seqNo st =
     (case provisioning_list_iter_get_next (pvs st) (curr_iter st) of
        (entry, None) \<Rightarrow> None
      | (entry, Some it) \<Rightarrow>
          let st = st\<lparr>curr_iter := Some it\<rparr>;
              hdr = [COMMAND_CLASS_PROVISIONING_LIST, COMMAND_PROVISION_ITER_REPORT, seqNo,
                     of_int (int (it_cnt it) - int (it_next it))]
          in (case entry of
                None \<Rightarrow> Some (st\<lparr>sent := sent st @ [hdr @ [0]]\<rparr>)
              | Some i \<Rightarrow>
                  let st = (if pvs_status (pvs_list (pvs st) ! i) = PVS_STATUS_PASSIVE
                            then st\<lparr>pvs := snd (provisioning_list_status_set (Some i)
                                       PVS_STATUS_PENDING (pvs st))\<rparr>
                            else st);
                      e = pvs_list (pvs st) ! i;
                      report = hdr @ [dsk_len e AND PROVISIONING_LIST_DSK_LENGTH_MASK]
                        @ take (unat (dsk_len e)) (dsk_bytes e)
                        @ CC_provisioning_list_add_tlvs rd e
                  in Some (st\<lparr>sent := sent st @ [report]\<rparr>)))"

text \<open>\<^verbatim>\<open>case COMMAND_PROVISION_ITER_GET\<close>\<close>

definition provision_iter_get_cmd ::
  "(bytes \<Rightarrow> (nodeid \<times> bool) option) \<Rightarrow> bytes \<Rightarrow> pvl_state
     \<Rightarrow> (command_handler_codes_t \<times> pvl_state) option" where
  "provision_iter_get_cmd rd pData st =
     (let remaining = pData ! 3
      in if remaining = 0xFF then
           (case provisioning_list_iterator_get 0 (pvs st) of
              (it, p) \<Rightarrow> map_option (Pair COMMAND_HANDLED)
                (provision_iter_report rd (pData ! 2) (st\<lparr>pvs := p, curr_iter := it\<rparr>)))
         else if (case curr_iter st of
                    None \<Rightarrow> True
                  | Some it \<Rightarrow> int (unat remaining) \<noteq> int (it_cnt it) - int (it_next it))
         then Some (COMMAND_PARSE_ERROR, st)
         else map_option (Pair COMMAND_HANDLED) (provision_iter_report rd (pData ! 2) st))"

text \<open>\<^verbatim>\<open>case COMMAND_PROVISION_GET\<close>\<close>

definition provision_get_cmd ::
  "(bytes \<Rightarrow> (nodeid \<times> bool) option) \<Rightarrow> bytes \<Rightarrow> pvl_state \<Rightarrow> pvl_state" where
  "provision_get_cmd rd pData st =
     (let entry = provisioning_list_dev_get (pvs st) (pData ! 3) (drop 4 pData)
      in st\<lparr>sent := sent st @ [CC_provisioning_list_build_report rd
                                 (map_option ((!) (pvs_list (pvs st))) entry) (pData ! 2)]\<rparr>)"

definition PVL_CommandHandler ::
  "(bytes \<Rightarrow> (nodeid \<times> bool) option) \<Rightarrow> bytes \<Rightarrow> nat \<Rightarrow> pvl_state
     \<Rightarrow> (command_handler_codes_t \<times> pvl_state) option" where
  "PVL_CommandHandler rd pData bDatalen st =
     map_option (\<lambda>(rc, st). (rc, st\<lparr>smart_start_inits := smart_start_inits st + 1\<rparr>))
       (if bDatalen < 2 then Some (COMMAND_PARSE_ERROR, st)
        else let cmd = pData ! 1
             in if cmd = COMMAND_PROVISION_SET then
                  (case provision_set_cmd pData bDatalen (pvs st) of (rc, p) \<Rightarrow> Some (rc, st\<lparr>pvs := p\<rparr>))
                else if cmd = COMMAND_PROVISION_DELETE then
                  (case provision_delete_cmd pData bDatalen (pvs st) of (rc, p) \<Rightarrow> Some (rc, st\<lparr>pvs := p\<rparr>))
                else if cmd = COMMAND_PROVISION_ITER_GET then provision_iter_get_cmd rd pData st
                else if cmd = COMMAND_PROVISION_GET then
                  Some (COMMAND_HANDLED, provision_get_cmd rd pData st)
                else Some (COMMAND_NOT_SUPPORTED, st))"


section \<open>The handler looks at the received bytes only\<close>

lemma dev_ops_take:
  "provisioning_list_dev_get st len buf = provisioning_list_dev_get st len (take (unat len) buf)"
  "provisioning_list_dev_add len buf bm st = provisioning_list_dev_add len (take (unat len) buf) bm st"
  "provisioning_list_dev_remove len buf st = provisioning_list_dev_remove len (take (unat len) buf) st"
proof -
  have m: "mem_eq (unat len) d 0 (take (unat len) buf) = mem_eq (unat len) d 0 buf" for d
    by (simp add: mem_eq_def split: dsk_ptr.splits)
  show get: "provisioning_list_dev_get st len buf = provisioning_list_dev_get st len (take (unat len) buf)"
    by (simp add: provisioning_list_dev_get_def m)
  show "provisioning_list_dev_add len buf bm st = provisioning_list_dev_add len (take (unat len) buf) bm st"
    unfolding provisioning_list_dev_add_def pvs_dev_add_def get [symmetric] take_take min.idem ..
  show "provisioning_list_dev_remove len buf st = provisioning_list_dev_remove len (take (unat len) buf) st"
    by (simp add: provisioning_list_dev_remove_def m)
qed

lemma take_frame:
  assumes "take n p = take n q" and "n \<le> length p" and "n \<le> length q"
  shows "i < n \<Longrightarrow> p ! i = q ! i" and "i + m \<le> n \<Longrightarrow> take m (drop i p) = take m (drop i q)"
proof -
  show "p ! i = q ! i" if "i < n" using assms(1) that by (metis nth_take)
  have "take m (drop i p) = drop i (take (i + m) p)" for p :: "'a list"
    by (simp add: drop_take)
  moreover have "take (i + m) p = take (i + m) q" if "i + m \<le> n"
  proof -
    have "take (i + m) (take n p) = take (i + m) (take n q)" using assms(1) by simp
    then show ?thesis using that by (simp add: min_absorb1)
  qed
  ultimately show "i + m \<le> n \<Longrightarrow> take m (drop i p) = take m (drop i q)" by simp
qed

text \<open>
  For the set and the delete command the handler reads no byte beyond the received frame,
  however short the frame is: its result is the same for any two buffers that agree on the
  received bytes.
\<close>

theorem pvl_set_delete_in_frame:
  assumes "take n p = take n q" and "n \<le> length p" and "n \<le> length q"
    and "p ! 1 = COMMAND_PROVISION_SET \<or> p ! 1 = COMMAND_PROVISION_DELETE"
  shows "PVL_CommandHandler rd p n st = PVL_CommandHandler rd q n st"
proof -
  note frame = take_frame [OF assms(1-3)]
  have cmds: "provision_set_cmd p n st' = provision_set_cmd q n st'
      \<and> provision_delete_cmd p n st' = provision_delete_cmd q n st'" for st'
  proof (cases "n < 4")
    case True
    then show ?thesis by (simp add: provision_set_cmd_def provision_delete_cmd_def Let_def)
  next
    case False
    have "p ! 3 = q ! 3" using False by (intro frame(1)) simp
    define d where "d = q ! 3 AND PROVISIONING_LIST_DSK_LENGTH_MASK"
    have "take (unat d) (drop 4 p) = take (unat d) (drop 4 q)" if "\<not> n < 4 + unat d"
      using that by (intro frame(2)) simp
    then have ops: "\<not> n < 4 + unat d \<Longrightarrow>
        provisioning_list_dev_get x d (drop 4 p) = provisioning_list_dev_get x d (drop 4 q)
        \<and> provisioning_list_dev_add d (drop 4 p) bm x = provisioning_list_dev_add d (drop 4 q) bm x
        \<and> provisioning_list_dev_remove d (drop 4 p) x = provisioning_list_dev_remove d (drop 4 q) x"
      for x bm
      using dev_ops_take(1) [of x d] dev_ops_take(2) [of d _ bm x] dev_ops_take(3) [of d _ x] by metis
    show ?thesis
    proof (cases "n < 4 + unat d")
      case True
      then show ?thesis
        by (auto simp: provision_set_cmd_def provision_delete_cmd_def \<open>p ! 3 = q ! 3\<close> Let_def d_def)
    next
      case False
      note same = ops [OF this]
      show ?thesis
        unfolding provision_set_cmd_def provision_delete_cmd_def Let_def \<open>p ! 3 = q ! 3\<close>
          d_def [symmetric] assms(1) by (simp only: same simp_thms)
    qed
  qed
  show ?thesis
  proof (cases "n < 2")
    case False
    then have "p ! 1 = q ! 1" by (intro frame(1)) simp
    then show ?thesis
      using False assms(4) cmds
      by (auto simp: PVL_CommandHandler_def Let_def pvl_consts)
  qed (simp add: PVL_CommandHandler_def)
qed

definition pvl_fresh :: pvl_state where
  "pvl_fresh = \<lparr>pvs = pvs_fresh, curr_iter = None, sent = [], smart_start_inits = 0\<rparr>"

theorem pvl_set_delete_in_frame_witness:
  "PVL_CommandHandler (\<lambda>_. None) [0x78, 0x02, 1, 4, 1, 2, 3, 4, 0xAA] 8 pvl_fresh =
   PVL_CommandHandler (\<lambda>_. None) [0x78, 0x02, 1, 4, 1, 2, 3, 4, 0xBB] 8 pvl_fresh"
  by (rule pvl_set_delete_in_frame) (simp_all add: pvl_consts)


section \<open>The effect of the set command\<close>

definition tlv_put :: "u8 \<Rightarrow> bytes option \<Rightarrow> (u8 \<Rightarrow> bytes option) \<Rightarrow> u8 \<Rightarrow> bytes option" where
  "tlv_put type val m = (case val of None \<Rightarrow> m | Some v \<Rightarrow> if v = [] then m else m(type \<mapsto> v))"

definition byte_option :: "nat \<Rightarrow> bytes option" where
  "byte_option v = (if v = TLV_NOT_PRESENT then None else Some [of_nat v])"

text \<open>
  What a set command makes of a device: a new one starts as pending Smart Start without TLVs;
  the status, the boot mode and the TLVs that are present in the command replace the old ones.
\<close>

definition set_tlvs_map :: "provision_set \<Rightarrow> (u8 \<Rightarrow> bytes option) \<Rightarrow> u8 \<Rightarrow> bytes option" where
  "set_tlvs_map ps t =
     tlv_put PVS_TLV_TYPE_UUID16 (ps_uuid16 ps)
       (tlv_put PVS_TLV_TYPE_MAX_INCL_REQ_INTERVAL (byte_option (ps_max_incl_req_interval ps))
         (tlv_put PVS_TLV_TYPE_PRODUCT_ID (ps_product_id ps)
           (tlv_put PVS_TLV_TYPE_PRODUCT_TYPE (ps_product_type ps)
             (tlv_put PVS_TLV_TYPE_ADV_JOIN (byte_option (ps_prov_granted_keys ps))
               (tlv_put PVS_TLV_TYPE_LOCATION (ps_location ps)
                 (tlv_put PVS_TLV_TYPE_NAME (ps_name ps) t))))))"

definition apply_provision_set :: "provision_set \<Rightarrow> device option \<Rightarrow> device" where
  "apply_provision_set ps old =
     (let (s, b, t) = (case old of
                         None \<Rightarrow> (PVS_STATUS_PENDING, PVS_BOOTMODE_SMART_START, Map.empty)
                       | Some d \<Rightarrow> d)
      in (if ps_prov_status ps = TLV_NOT_PRESENT then s else ps_prov_status ps,
          if ps_bootstrap_mode ps = TLV_NOT_PRESENT then b else ps_bootstrap_mode ps,
          set_tlvs_map ps t))"

text \<open>The slot \<open>i\<close> holds device \<open>d\<close> with DSK \<open>k\<close>; the other devices are those of \<open>m\<close>.\<close>

definition at_dev ::
  "pvs_state \<Rightarrow> nat \<Rightarrow> bytes \<Rightarrow> (bytes \<Rightarrow> device option) \<Rightarrow> device \<Rightarrow> bool" where
  "at_dev st i k m d \<longleftrightarrow> pvs_inv st \<and> i < PROVISIONING_LIST_SIZE \<and> slot_key (pvs_list st ! i) = Some k
     \<and> pvs_abs st = m(k \<mapsto> d) \<and> (\<forall>n. heap_ok st n)"

lemma heap_ok_frame [simp]:
  "heap_ok (pvs_list_persist_in_file st) = heap_ok st" "heap_ok (pvs_upd i f st) = heap_ok st"
  by (auto simp: pvs_list_persist_in_file_def fopen_w_def pvs_upd_def split: option.splits)

lemma heap_ok_tlv_set: "heap_ok (snd (provisioning_list_tlv_set p type len v st)) = heap_ok st"
proof -
  have "heap_ok (snd (snd (pvs_tlv_set ts type len w k st))) = heap_ok st" for ts w k
    by (auto simp: pvs_tlv_set_def pvs_malloc_def Let_def split: option.splits bool.splits)
  then show ?thesis
    by (auto simp: provisioning_list_tlv_set_def Let_def split: option.splits pvs_result_t.splits
        prod.splits) (metis snd_conv)+
qed

lemma heap_ok_dev_add: "heap_ok (snd (provisioning_list_dev_add len k bm st)) = heap_ok st"
  by (auto simp: provisioning_list_dev_add_def pvs_dev_add_def pvs_malloc_def split: option.splits
      bool.splits)

lemma at_dev_tlv_set:
  assumes "at_dev st i k m (s, b, t)" and "v \<noteq> []" and "length v < 256"
  shows "at_dev (snd (provisioning_list_tlv_set (Some i) type (of_nat (length v)) (Some v) st)) i k m
    (s, b, t(type \<mapsto> v))"
proof -
  have len: "unat (of_nat (length v) :: u8) = length v" "of_nat (length v) \<noteq> (0 :: u8)"
    using assms(2,3) by (simp_all add: unat_of_nat word_unat_eq_iff)
  obtain r st' where set: "provisioning_list_tlv_set (Some i) type (of_nat (length v)) (Some v) st = (r, st')"
    by (cases "provisioning_list_tlv_set (Some i) type (of_nat (length v)) (Some v) st")
  note at = assms(1) [unfolded at_dev_def]
  note out = tlv_set_refines [OF _ _ _ _ set, of k]
  have "heap_ok st' = heap_ok st" using heap_ok_tlv_set set by (metis snd_conv)
  moreover have "pvs_abs st' = m(k \<mapsto> (s, b, t(type \<mapsto> v)))"
    using out(2) at len by (auto simp: tlv_set_spec_def split: pvs_result_t.splits)
  ultimately show ?thesis
    using out at len set by (simp add: at_dev_def)
qed

lemma at_dev_status_set:
  assumes "at_dev st i k m (s, b, t)"
  shows "at_dev (snd (provisioning_list_status_set (Some i) s' st)) i k m (s', b, t)"
proof -
  note at = assms [unfolded at_dev_def]
  have dev: "device_of (pvs_list st ! i) = (s, b, t)" using slot_abs(1) [of st i k] at by simp
  have "slot_key (pvs_list (pvs_upd i (pvs_status_update (\<lambda>_. s')) st) ! i) = Some k"
    using at pvs_invD(1) [of st] by (simp add: pvs_upd_def nth_upd_idx slot_key_def split: if_splits)
  then show ?thesis
    using at dev pvs_upd_field(3,4) [of st i k s']
    by (simp add: at_dev_def provisioning_list_status_set_def device_of_def)
qed

lemma at_dev_set_tlv_if:
  assumes "at_dev st i k m (s, b, t)" and "\<And>v. val = Some v \<Longrightarrow> length v < 256"
  shows "at_dev (set_tlv_if i type val st) i k m (s, b, tlv_put type val t)"
proof (cases val)
  case (Some v)
  show ?thesis
  proof (cases "v = []")
    case True
    have "provisioning_list_tlv_set (Some i) type 0 (Some []) st = (PVS_ERROR, st)"
      by (simp add: provisioning_list_tlv_set_def)
    then show ?thesis using assms(1) Some True by (simp add: set_tlv_if_def tlv_put_def)
  next
    case False
    then show ?thesis
      using at_dev_tlv_set [OF assms(1) False] assms(2) Some by (simp add: set_tlv_if_def tlv_put_def)
  qed
qed (use assms(1) in \<open>simp add: set_tlv_if_def tlv_put_def\<close>)

lemma at_dev_set_byte_if:
  assumes "at_dev st i k m (s, b, t)" and "v < 256 \<or> v = TLV_NOT_PRESENT"
  shows "at_dev (set_byte_if i type v st) i k m (s, b, tlv_put type (byte_option v) t)"
  using assms at_dev_tlv_set [OF assms(1), of "[of_nat v]" type]
  by (auto simp: set_byte_if_def byte_option_def tlv_put_def)

definition opt_ok :: "bytes option \<Rightarrow> bool" where
  "opt_ok v \<longleftrightarrow> (case v of None \<Rightarrow> True | Some x \<Rightarrow> length x < 256)"

definition num_ok :: "nat \<Rightarrow> bool" where
  "num_ok n \<longleftrightarrow> n < 256 \<or> n = TLV_NOT_PRESENT"

definition ps_wf :: "provision_set \<Rightarrow> bool" where
  "ps_wf ps \<longleftrightarrow>
     opt_ok (ps_name ps) \<and> opt_ok (ps_location ps) \<and> opt_ok (ps_product_id ps)
     \<and> opt_ok (ps_product_type ps) \<and> opt_ok (ps_uuid16 ps) \<and> num_ok (ps_max_incl_req_interval ps)
     \<and> num_ok (ps_bootstrap_mode ps) \<and> num_ok (ps_prov_status ps) \<and> num_ok (ps_prov_granted_keys ps)"

lemma opt_ok_take [simp]:
  "opt_ok (Some (take (unat (x :: u8)) xs))" "opt_ok (Some (take 17 xs))" "opt_ok None"
  "num_ok (unat (x :: u8))" "num_ok TLV_NOT_PRESENT"
  using unat_u8 [of x] by (auto simp: opt_ok_def num_ok_def)

lemma ps_wf_init: "ps_wf provision_set_init"
  by (simp add: ps_wf_def provision_set_init_def)

lemma at_dev_store_set_tlvs:
  assumes "at_dev st i k m (s, b, t)" and "ps_wf ps"
  shows "at_dev (store_set_tlvs i ps st) i k m (s, b, set_tlvs_map ps t)"
  unfolding store_set_tlvs_def Let_def set_tlvs_map_def
  using assms by (intro at_dev_set_tlv_if at_dev_set_byte_if) (auto simp: ps_wf_def opt_ok_def num_ok_def)

lemma set_tlv_switch_wf: "ps_wf ps \<Longrightarrow> set_tlv_switch tlv ps = Some ps' \<Longrightarrow> ps_wf ps'"
  unfolding set_tlv_switch_def Let_def by (auto simp: ps_wf_def split: if_splits)

lemma parse_set_tlvs_wf: "ps_wf ps \<Longrightarrow> parse_set_tlvs tlv ps = Some ps' \<Longrightarrow> ps_wf ps'"
proof (induction tlv ps rule: parse_set_tlvs.induct)
  case (1 tlv ps)
  then show ?case
    by (subst (asm) (2) parse_set_tlvs.simps)
      (auto simp: Let_def set_tlv_switch_wf split: if_splits option.splits)
qed


text \<open>The set command a frame carries: its DSK and its parsed TLVs.\<close>

definition set_frame :: "bytes \<Rightarrow> nat \<Rightarrow> (bytes \<times> provision_set) option" where
  "set_frame pData n =
     (let dsklen = pData ! 3 AND PROVISIONING_LIST_DSK_LENGTH_MASK
      in if n < 4 + unat dsklen \<or> dsklen < 16 then None
         else (case parse_set_tlvs (drop (4 + unat dsklen) (take n pData)) provision_set_init of
                 Some ps \<Rightarrow> if mdns_ok ps then Some (take (unat dsklen) (drop 4 pData), ps) else None
               | None \<Rightarrow> None))"

lemma set_entry_at_dev:
  assumes "pvs_inv st" and "\<forall>n. heap_ok st n" and "4 \<le> len" and "unat len \<le> length buf"
    and "k = take (unat len) buf"
    and "pvs_abs st k \<noteq> None \<or> card (dom (pvs_abs st)) < PROVISIONING_LIST_SIZE"
    and entry: "(case provisioning_list_dev_get st len buf of
        None \<Rightarrow> provisioning_list_dev_add len buf (if bm = TLV_NOT_PRESENT then PVS_BOOTMODE_SMART_START else bm) st
      | Some i \<Rightarrow> (Some i, if bm \<noteq> TLV_NOT_PRESENT
          then snd (provisioning_list_bootmode_set (Some i) bm st) else st)) = (e, st')"
  shows "\<exists>i s b t. e = Some i
    \<and> (case pvs_abs st k of None \<Rightarrow> (PVS_STATUS_PENDING, PVS_BOOTMODE_SMART_START, Map.empty)
       | Some d \<Rightarrow> d) = (s, b, t)
    \<and> at_dev st' i k (pvs_abs st) (s, if bm = TLV_NOT_PRESENT then b else bm, t)"
proof (cases "provisioning_list_dev_get st len buf")
  case None
  let ?bm = "if bm = TLV_NOT_PRESENT then PVS_BOOTMODE_SMART_START else bm"
  have none: "pvs_abs st k = None" using dev_get_None [OF assms(1,4) None assms(3)] assms(5) by simp
  have add: "provisioning_list_dev_add len buf ?bm st = (e, st')" using entry None by simp
  then have "pvs_dev_add len buf ?bm st = (e, st')"
    using None assms(3) by (simp add: provisioning_list_dev_add_def not_less [symmetric])
  note out = pvs_dev_add_outcome [OF assms(1,3,4) none [unfolded assms(5)] this]
  have "e \<noteq> None"
    using out(3) assms(2,6) none by auto
  then obtain i where i: "e = Some i" by auto
  have "heap_ok st' = heap_ok st" using heap_ok_dev_add [of len buf ?bm st] add by simp
  then show ?thesis
    using i out(1) out(2) [OF i] none assms(2,5) by (auto simp: at_dev_def)
next
  case (Some i)
  note get = dev_get_Some [OF assms(1,4) Some]
  note upd = pvs_upd_field(1,2) [OF assms(1) get(1,2), of bm]
  have "st' = (if bm \<noteq> TLV_NOT_PRESENT then
      pvs_list_persist_in_file (pvs_upd i (bootmode_update (\<lambda>_. bm)) st) else st)" "e = Some i"
    using entry unfolding Some provisioning_list_bootmode_set_def by auto
  moreover have "slot_key (pvs_list (pvs_upd i (bootmode_update (\<lambda>_. bm)) st) ! i) = Some k"
    using get(1,2) pvs_invD(1) [OF assms(1)] assms(5)
    by (simp add: pvs_upd_def nth_upd_idx slot_key_def split: if_splits)
  ultimately show ?thesis
    using get upd assms(1,2,5)
    by (auto simp: at_dev_def device_of_def fun_upd_idem)
qed

text \<open>
  A set command with a complete frame, a DSK of at least sixteen bytes, acceptable TLVs and
  valid name and location updates exactly the device with that DSK, creating it when it is
  new and there is room: the values present in the command replace the old ones and the
  others stay.  Any other set command is answered with a parse error and changes nothing.
\<close>

theorem pvl_set_effect:
  assumes "pvs_inv st" and "\<forall>n. heap_ok st n" and "n \<le> length pData"
    and "provision_set_cmd pData n st = (rc, st')"
  shows "(case set_frame pData n of
      None \<Rightarrow> rc = COMMAND_PARSE_ERROR \<and> st' = st
    | Some (k, ps) \<Rightarrow>
        pvs_abs st k \<noteq> None \<or> card (dom (pvs_abs st)) < PROVISIONING_LIST_SIZE \<longrightarrow>
        rc = COMMAND_HANDLED \<and> pvs_inv st'
        \<and> pvs_abs st' = (pvs_abs st)(k \<mapsto> apply_provision_set ps (pvs_abs st k)))"
proof (cases "set_frame pData n")
  case None
  then show ?thesis
    using assms(4) by (auto simp: set_frame_def provision_set_cmd_def Let_def
        split: if_splits option.splits)
next
  case (Some kp)
  obtain k ps where kp: "kp = (k, ps)" by (cases kp)
  define d where "d = pData ! 3 AND PROVISIONING_LIST_DSK_LENGTH_MASK"
  have fr: "\<not> n < 4 + unat d" "\<not> d < 16" "mdns_ok ps" "k = take (unat d) (drop 4 pData)"
    "parse_set_tlvs (drop (4 + unat d) (take n pData)) provision_set_init = Some ps"
    using Some kp by (auto simp: set_frame_def Let_def d_def split: if_splits option.splits)
  have eff: "rc = COMMAND_HANDLED \<and> pvs_inv st'
      \<and> pvs_abs st' = (pvs_abs st)(k \<mapsto> apply_provision_set ps (pvs_abs st k))"
    if room: "pvs_abs st k \<noteq> None \<or> card (dom (pvs_abs st)) < PROVISIONING_LIST_SIZE"
  proof -
    have "16 \<le> d" using fr(2) by (simp add: not_less)
    then have len: "4 \<le> d" "unat d \<le> length (drop 4 pData)"
      using fr(1) assms(3) by (auto intro: order_trans [of 4 16 d])
    let ?entry = "case provisioning_list_dev_get st d (drop 4 pData) of
        None \<Rightarrow> provisioning_list_dev_add d (drop 4 pData)
          (if ps_bootstrap_mode ps = TLV_NOT_PRESENT then PVS_BOOTMODE_SMART_START
           else ps_bootstrap_mode ps) st
      | Some i \<Rightarrow> (Some i, if ps_bootstrap_mode ps \<noteq> TLV_NOT_PRESENT
          then snd (provisioning_list_bootmode_set (Some i) (ps_bootstrap_mode ps) st) else st)"
    obtain e st1 where e: "?entry = (e, st1)" by (cases ?entry)
    obtain i s b t where i: "e = Some i" "(case pvs_abs st k of
        None \<Rightarrow> (PVS_STATUS_PENDING, PVS_BOOTMODE_SMART_START, Map.empty) | Some d \<Rightarrow> d) = (s, b, t)"
      and at1: "at_dev st1 i k (pvs_abs st)
        (s, if ps_bootstrap_mode ps = TLV_NOT_PRESENT then b else ps_bootstrap_mode ps, t)"
      using set_entry_at_dev [OF assms(1,2) len fr(4) room e] by blast
    let ?st2 = "if ps_prov_status ps \<noteq> TLV_NOT_PRESENT
      then snd (provisioning_list_status_set (Some i) (ps_prov_status ps) st1) else st1"
    have at2: "at_dev ?st2 i k (pvs_abs st)
        (if ps_prov_status ps = TLV_NOT_PRESENT then s else ps_prov_status ps,
         if ps_bootstrap_mode ps = TLV_NOT_PRESENT then b else ps_bootstrap_mode ps, t)"
      using at1 by (auto intro: at_dev_status_set)
    have ret: "rc = COMMAND_HANDLED" "st' = store_set_tlvs i ps ?st2"
      using assms(4) fr e i(1) unfolding provision_set_cmd_def Let_def d_def [symmetric] by auto
    have "ps_wf ps" using parse_set_tlvs_wf [OF ps_wf_init fr(5)] .
    from at_dev_store_set_tlvs [OF at2 this] show ?thesis
      using ret i(2) by (simp add: at_dev_def apply_provision_set_def Let_def)
  qed
  then show ?thesis using Some kp by simp
qed


definition sample_set_frame :: bytes where
  "sample_set_frame = [0x78, 0x01, 7, 16] @ map of_nat [1..<17] @ [0x64, 2, 65, 66]"

theorem pvl_set_effect_witness:
  "case provision_set_cmd sample_set_frame 24 pvs_fresh of (rc, st') \<Rightarrow>
     pvs_abs st' (map of_nat [1..<17]) = Some (0, 1, [PVS_TLV_TYPE_NAME \<mapsto> [65, 66]])"
proof -
  obtain rc st' where cmd: "provision_set_cmd sample_set_frame 24 pvs_fresh = (rc, st')"
    by (cases "provision_set_cmd sample_set_frame 24 pvs_fresh")
  have tlv: "parse_set_tlvs [0x64, 2, 65, 66] provision_set_init
      = Some (provision_set_init\<lparr>ps_name := Some [65, 66]\<rparr>)"
    by (simp add: parse_set_tlvs.simps set_tlv_switch_def Let_def pvs_consts drop_bit_Suc)
  have "mdns_ok (provision_set_init\<lparr>ps_name := Some [65, 66]\<rparr>)"
    by (simp add: mdns_ok_def is_valid_mdns_name_def has_dot_or_underscore_def
        is_valid_utf8_string_def utf8_loop.simps provision_set_init_def)
  then have "set_frame sample_set_frame 24 =
      Some (map of_nat [1..<17], provision_set_init\<lparr>ps_name := Some [65, 66]\<rparr>)"
    using tlv by (simp add: set_frame_def sample_set_frame_def PROVISIONING_LIST_DSK_LENGTH_MASK_def
        Let_def)
  then have "pvs_abs st' (map of_nat [1..<17]) =
      Some (apply_provision_set (provision_set_init\<lparr>ps_name := Some [65, 66]\<rparr>) None)"
    using pvl_set_effect [OF pvs_inv_fresh(1) _ _ cmd]
    by (simp add: heap_ok_fresh pvs_inv_fresh PROVISIONING_LIST_SIZE_def sample_set_frame_def)
  then show ?thesis
    using cmd by (simp add: apply_provision_set_def set_tlvs_map_def tlv_put_def byte_option_def
        provision_set_init_def pvs_consts)
qed


section \<open>Iterating over the list\<close>

abbreviation slot_keys :: "pvs_state \<Rightarrow> bytes option list" where
  "slot_keys st \<equiv> map slot_key (pvs_list st)"

text \<open>The DSK of an iteration report.\<close>

definition report_dsk :: "bytes \<Rightarrow> bytes" where
  "report_dsk r = take (unat (r ! 4)) (drop 5 r)"

definition iter_keys :: "pvs_state \<Rightarrow> bytes list" where
  "iter_keys st = filter (\<lambda>k. length k \<le> 16) (List.map_filter slot_key (pvs_list st))"

lemma iter_keys_cong: "slot_keys st = slot_keys st' \<Longrightarrow> iter_keys st = iter_keys st'"
proof -
  have "List.map_filter slot_key ps = List.map_filter id (map slot_key ps)" for ps
    by (simp add: map_filter_def comp_def filter_map)
  then show "slot_keys st = slot_keys st' \<Longrightarrow> iter_keys st = iter_keys st'" by (simp add: iter_keys_def)
qed

lemma and_1F: "unat (x :: u8) < 32 \<Longrightarrow> x AND 0x1F = x"
proof -
  assume "unat x < 32"
  then have "take_bit 5 (unat x) = unat x" by (simp add: take_bit_nat_eq_self)
  then have "take_bit 5 x = x" by (metis unsigned_take_bit_eq word_unat_eq_iff)
  moreover have "x AND mask 5 = take_bit 5 x" by (simp add: take_bit_eq_mask)
  moreover have "mask 5 = (0x1F :: u8)" by (simp add: mask_eq_exp_minus_1)
  ultimately show ?thesis by simp
qed

text \<open>The iterator stands at entry \<open>j\<close> of the keys \<open>ks\<close>, which are those of the list.\<close>

definition iter_at :: "pvl_state \<Rightarrow> bytes list \<Rightarrow> nat \<Rightarrow> bool" where
  "iter_at st ks j \<longleftrightarrow> pvs_inv (pvs st) \<and> (\<forall>n. heap_ok (pvs st) n) \<and> iter_keys (pvs st) = ks
     \<and> (\<exists>it. curr_iter st = Some it \<and> it_next it = j \<and> it_cnt it = length ks
          \<and> it_entries it = map (\<lambda>k. (of_nat (length k), k)) ks)"

lemma iter_at_report:
  assumes "iter_at st ks j" and "j < length ks"
  shows "\<exists>st' r. provision_iter_report rd seqNo st = Some st' \<and> iter_at st' ks (j + 1)
    \<and> sent st' = sent st @ [r] \<and> r ! 3 = of_nat (length ks - (j + 1)) \<and> report_dsk r = ks ! j"
proof -
  obtain it where it: "curr_iter st = Some it" "it_next it = j" "it_cnt it = length ks"
      "it_entries it = map (\<lambda>k. (of_nat (length k), k)) ks"
    and inv: "pvs_inv (pvs st)" and ks: "iter_keys (pvs st) = ks" and heap: "\<forall>n. heap_ok (pvs st) n"
    using assms(1) by (auto simp: iter_at_def)
  define k where "k = ks ! j"
  have "k \<in> set ks" using assms(2) by (simp add: k_def)
  then obtain p where p: "p \<in> set (pvs_list (pvs st))" "slot_key p = Some k" and k16: "length k \<le> 16"
    by (auto simp: ks [symmetric] iter_keys_def set_map_filter)
  note pk = slot_key_Some_iff [OF pvs_invD(3) [OF inv p(1)], of k] pvs_invD(3) [OF inv p(1)]
  have len: "unat (of_nat (length k) :: u8) = length k" using k16 by (simp add: unat_of_nat)
  have "dsk_len p \<noteq> 0" "of_nat (length k) = dsk_len p"
    using pk(1) p(2) len word_unat_eq_iff [of "of_nat (length k)" "dsk_len p"] by simp_all
  then have four: "4 \<le> (of_nat (length k) :: u8)" using pk(2) by (simp add: slot_ok_def)
  have "pvs_abs (pvs st) k \<noteq> None"
    using p by (simp add: pvs_abs_None_iff) blast
  then obtain i where get: "provisioning_list_dev_get (pvs st) (of_nat (length k)) k = Some i"
    using dev_get_None [OF inv, of "of_nat (length k)" k] len four by fastforce
  have i: "i < PROVISIONING_LIST_SIZE" "slot_key (pvs_list (pvs st) ! i) = Some k"
    using dev_get_Some(1,2) [OF inv _ get] len by simp_all
  let ?it = "it\<lparr>it_next := j + 1\<rparr>"
  have nxt: "provisioning_list_iter_get_next (pvs st) (curr_iter st) = (Some i, Some ?it)"
    using it assms(2) get by (simp add: provisioning_list_iter_get_next_def k_def)
  define pv where "pv = (if pvs_status (pvs_list (pvs st) ! i) = PVS_STATUS_PASSIVE
    then snd (provisioning_list_status_set (Some i) PVS_STATUS_PENDING (pvs st)) else pvs st)"
  have lst: "i < length (pvs_list (pvs st))" using i(1) pvs_invD(1) [OF inv] by simp
  have pv: "pvs_inv pv" "slot_keys pv = slot_keys (pvs st)"
    using pvs_upd_field(3) [OF inv i] inv lst
    by (auto simp: pv_def provisioning_list_status_set_def pvs_upd_def upd_idx_def map_update
        slot_key_def list_update_same_conv)
  have "slot_key (pvs_list pv ! i) = Some k"
    using pv(2) i(2) lst by (metis length_map nth_map)
  moreover have "slot_ok (pvs_list pv ! i)" using pvs_invD(4) [OF pv(1) i(1)] .
  ultimately have e: "dsk_bytes (pvs_list pv ! i) = k" "unat (dsk_len (pvs_list pv ! i)) = length k"
    using slot_key_Some_iff [of "pvs_list pv ! i" k] by (auto simp: dsk_bytes_def)
  then have "dsk_len (pvs_list pv ! i) AND 0x1F = dsk_len (pvs_list pv ! i)"
    using k16 by (intro and_1F) simp
  note e = e this
  let ?r = "[COMMAND_CLASS_PROVISIONING_LIST, COMMAND_PROVISION_ITER_REPORT, seqNo,
      of_int (int (length ks) - int (j + 1))]
    @ [dsk_len (pvs_list pv ! i) AND PROVISIONING_LIST_DSK_LENGTH_MASK]
    @ take (unat (dsk_len (pvs_list pv ! i))) (dsk_bytes (pvs_list pv ! i))
    @ CC_provisioning_list_add_tlvs rd (pvs_list pv ! i)"
  let ?st' = "st\<lparr>curr_iter := Some ?it, pvs := pv, sent := sent st @ [?r]\<rparr>"
  have "provision_iter_report rd seqNo st = Some ?st'"
    unfolding provision_iter_report_def nxt by (simp add: Let_def pv_def it(3))
  moreover have "heap_ok pv = heap_ok (pvs st)"
    by (simp add: pv_def provisioning_list_status_set_def)
  then have "iter_at ?st' ks (j + 1)"
    using pv it ks heap iter_keys_cong [OF pv(2)] by (simp add: iter_at_def)
  moreover have "report_dsk ?r = k"
    using e by (simp add: report_dsk_def PROVISIONING_LIST_DSK_LENGTH_MASK_def)
  moreover have "?r ! 3 = of_nat (length ks - (j + 1))"
    using assms(2) by (simp add: of_nat_diff)
  ultimately show ?thesis unfolding k_def by (intro exI [of _ ?st'] exI [of _ ?r]) simp
qed


lemma iter_start:
  assumes "pvs_inv (pvs st)" and "\<forall>n. heap_ok (pvs st) n"
    and "provisioning_list_iterator_get 0 (pvs st) = (it, p)"
  shows "iter_at (st\<lparr>pvs := p, curr_iter := it\<rparr>) (iter_keys (pvs st)) 0"
proof -
  have es: "iter_entries (pvs_list (pvs st)) = map (\<lambda>k. (of_nat (length k), k)) (iter_keys (pvs st))"
    using iter_entries_eq [OF assms(1)] by (simp add: iter_keys_def)
  have zero: "iter_keys (pvs st) = []" if "provisioning_list_get_count (pvs st) = 0"
  proof -
    have "dom (pvs_abs (pvs st)) = {}"
      using that card_pvs_abs [OF assms(1)] finite_dom_pvs_abs [of "pvs st"] by auto
    then show ?thesis using set_compact_keys [of "pvs st"] by (simp add: iter_keys_def)
  qed
  have "slot_keys p = slot_keys (pvs st)" "pvs_list p = pvs_list (pvs st)"
    "heap_ok p = heap_ok (pvs st)"
    using assms(2,3) by (auto simp: provisioning_list_iterator_get_def pvs_malloc_def Let_def
        split: if_splits)
  moreover have "pvs_inv p" using assms(1) calculation(2) by (simp add: pvs_inv_def)
  ultimately show ?thesis
    using assms(2,3) es zero iter_keys_cong [of p "pvs st"]
    by (auto simp: iter_at_def provisioning_list_iterator_get_def pvs_malloc_def Let_def
        split: if_splits)
qed

text \<open>
  A client's iteration: the first request asks with 0xFF, each later one with the remaining
  count of the last report.
\<close>

definition iter_request :: "u8 \<Rightarrow> bytes" where
  "iter_request remaining =
     [COMMAND_CLASS_PROVISIONING_LIST, COMMAND_PROVISION_ITER_GET, 0, remaining]"

fun iter_run :: "(bytes \<Rightarrow> (nodeid \<times> bool) option) \<Rightarrow> nat \<Rightarrow> pvl_state \<Rightarrow> pvl_state option" where
  "iter_run rd 0 st = Some st"
| "iter_run rd (Suc n) st =
     (case iter_run rd n st of
        None \<Rightarrow> None
      | Some st1 \<Rightarrow>
          (case PVL_CommandHandler rd (iter_request (if n = 0 then 0xFF else last (sent st1) ! 3)) 4 st1 of
             Some (COMMAND_HANDLED, st2) \<Rightarrow> Some st2
           | _ \<Rightarrow> None))"

lemma iter_request_nth [simp]: "iter_request r ! 3 = r" "iter_request r ! 2 = 0"
  by (simp_all add: iter_request_def)

lemma handler_iter:
  "PVL_CommandHandler rd (iter_request r) 4 st =
     map_option (\<lambda>(rc, st). (rc, st\<lparr>smart_start_inits := smart_start_inits st + 1\<rparr>))
       (provision_iter_get_cmd rd (iter_request r) st)"
  by (simp add: PVL_CommandHandler_def iter_request_def pvl_consts)

lemma iter_at_frame [simp]: "iter_at (st\<lparr>smart_start_inits := n\<rparr>) ks j = iter_at st ks j"
  by (simp add: iter_at_def)

lemma iter_first:
  assumes "pvs_inv (pvs st)" and "\<forall>n. heap_ok (pvs st) n" and "iter_keys (pvs st) \<noteq> []"
  shows "\<exists>st' r. PVL_CommandHandler rd (iter_request 0xFF) 4 st = Some (COMMAND_HANDLED, st')
    \<and> iter_at st' (iter_keys (pvs st)) 1 \<and> sent st' = sent st @ [r]
    \<and> r ! 3 = of_nat (length (iter_keys (pvs st)) - 1) \<and> report_dsk r = hd (iter_keys (pvs st))"
proof -
  obtain it p where get: "provisioning_list_iterator_get 0 (pvs st) = (it, p)"
    by (cases "provisioning_list_iterator_get 0 (pvs st)")
  from iter_at_report [OF iter_start [OF assms(1,2) get], of rd 0] assms(3)
  obtain st' r where "provision_iter_report rd 0 (st\<lparr>pvs := p, curr_iter := it\<rparr>) = Some st'"
    "iter_at st' (iter_keys (pvs st)) 1" "sent st' = sent st @ [r]"
    "r ! 3 = of_nat (length (iter_keys (pvs st)) - 1)" "report_dsk r = iter_keys (pvs st) ! 0" by auto
  then show ?thesis
    using get assms(3) by (simp add: handler_iter provision_iter_get_cmd_def hd_conv_nth)
qed

text \<open>
  A client that asks for the first entry and then keeps echoing the remaining count of the
  last report gets one report per device, in the order of the table, as long as the list has
  at most 255 devices with DSKs of at most sixteen bytes: the j-th report carries the j-th
  DSK and the number of devices still to come, and no request is rejected.
\<close>

theorem pvl_iteration_complete:
  assumes "pvs_inv (pvs st)" and "\<forall>n. heap_ok (pvs st) n" and "sent st = []"
    and "length (iter_keys (pvs st)) \<le> 255" and "n \<le> length (iter_keys (pvs st))"
  shows "\<exists>st'. iter_run rd n st = Some st' \<and> map report_dsk (sent st') = take n (iter_keys (pvs st))
    \<and> (\<forall>j < n. sent st' ! j ! 3 = of_nat (length (iter_keys (pvs st)) - (j + 1)))"
proof -
  let ?ks = "iter_keys (pvs st)"
  have "\<exists>st'. iter_run rd n st = Some st' \<and> map report_dsk (sent st') = take n ?ks
      \<and> (\<forall>j < n. sent st' ! j ! 3 = of_nat (length ?ks - (j + 1)))
      \<and> (0 < n \<longrightarrow> iter_at st' ?ks n)"
    using assms(5)
  proof (induction n)
    case (Suc n)
    then obtain st1 where st1: "iter_run rd n st = Some st1" "map report_dsk (sent st1) = take n ?ks"
        "\<forall>j < n. sent st1 ! j ! 3 = of_nat (length ?ks - (j + 1))" "0 < n \<longrightarrow> iter_at st1 ?ks n"
      by auto
    have len: "length (sent st1) = n"
      using arg_cong [OF st1(2), of length] Suc.prems by simp
    obtain st2 r where step: "PVL_CommandHandler rd (iter_request
          (if n = 0 then 0xFF else last (sent st1) ! 3)) 4 st1 = Some (COMMAND_HANDLED, st2)"
        "iter_at st2 ?ks (n + 1)" "sent st2 = sent st1 @ [r]"
        "r ! 3 = of_nat (length ?ks - (n + 1))" "report_dsk r = ?ks ! n"
    proof (cases "n = 0")
      case True
      then show thesis
        using iter_first [OF assms(1,2), of rd] st1(1) Suc.prems that
        by (cases ?ks) auto
    next
      case False
      then obtain m where m: "n = Suc m" by (cases n) auto
      have last: "last (sent st1) ! 3 = of_nat (length ?ks - n)"
        using st1(3) len m last_conv_nth [of "sent st1"] by (cases "sent st1 = []") simp_all
      have rem: "0 < length ?ks - n" "length ?ks - n < 255" using Suc.prems assms(4) m by auto
      have u: "unat (of_nat (length ?ks - n) :: u8) = length ?ks - n"
        by (rule unat_of_nat_u8) (use rem in simp)
      then have "(of_nat (length ?ks - n) :: u8) \<noteq> 0xFF" using rem by auto
      moreover obtain it where "curr_iter st1 = Some it" "it_cnt it = length ?ks" "it_next it = n"
        using st1(4) m by (auto simp: iter_at_def)
      ultimately have "provision_iter_get_cmd rd (iter_request (of_nat (length ?ks - n))) st1 =
          map_option (Pair COMMAND_HANDLED) (provision_iter_report rd 0 st1)"
        using u Suc.prems by (simp add: provision_iter_get_cmd_def of_nat_diff)
      then show thesis
        using iter_at_report [of st1 ?ks n rd 0] st1(4) m Suc.prems that
        by (auto simp: handler_iter last)
    qed
    have "map report_dsk (sent st2) = take (Suc n) ?ks"
      using step(3,5) st1(2) Suc.prems by (simp add: take_Suc_conv_app_nth)
    moreover have "sent st2 ! j ! 3 = of_nat (length ?ks - (j + 1))" if "j < Suc n" for j
      using that step(3,4) st1(3) len by (cases "j = n") (auto simp: nth_append)
    ultimately show ?case using step(1,2) st1(1) by auto
  qed (use assms(3) in simp)
  then show ?thesis by blast
qed


text \<open>
  With 256 devices the iteration never gets past the first one: its report announces 255
  remaining devices, and a request that echoes 255 is taken as a request to start again.
\<close>

theorem pvl_iteration_restarts_at_256:
  assumes "pvs_inv (pvs st)" and "\<forall>n. heap_ok (pvs st) n"
    and "length (iter_keys (pvs st)) = 256"
  shows "\<exists>st1 st2 r1 r2. PVL_CommandHandler rd (iter_request 0xFF) 4 st = Some (COMMAND_HANDLED, st1)
    \<and> sent st1 = sent st @ [r1]
    \<and> PVL_CommandHandler rd (iter_request (r1 ! 3)) 4 st1 = Some (COMMAND_HANDLED, st2)
    \<and> sent st2 = sent st1 @ [r2] \<and> report_dsk r2 = report_dsk r1"
proof -
  let ?ks = "iter_keys (pvs st)"
  have ne: "?ks \<noteq> []" using assms(3) by auto
  from iter_first [OF assms(1,2) ne, of rd] obtain st1 r1 where
    st1: "PVL_CommandHandler rd (iter_request 0xFF) 4 st = Some (COMMAND_HANDLED, st1)"
      "iter_at st1 ?ks 1" "sent st1 = sent st @ [r1]" "r1 ! 3 = of_nat (length ?ks - 1)"
      "report_dsk r1 = hd ?ks" by blast
  have ff: "r1 ! 3 = 0xFF" using st1(4) assms(3) by simp
  have at1: "pvs_inv (pvs st1)" "\<forall>n. heap_ok (pvs st1) n" "iter_keys (pvs st1) = ?ks"
    using st1(2) by (auto simp: iter_at_def)
  from iter_first [OF at1(1,2), of rd] at1(3) ne obtain st2 r2 where
    "PVL_CommandHandler rd (iter_request 0xFF) 4 st1 = Some (COMMAND_HANDLED, st2)"
      "sent st2 = sent st1 @ [r2]" "report_dsk r2 = hd ?ks" by auto
  then show ?thesis using st1 ff by auto
qed


text \<open>A list of \<open>n\<close> devices.\<close>

definition sample_device :: "nat \<Rightarrow> provision" where
  "sample_device i = \<lparr>dsk = DskPtr [0, 0, 0, of_nat i], dsk_len = 4, pvs_status = 0, bootmode = 1,
     tlv_list = []\<rparr>"

definition sample_list :: "nat \<Rightarrow> pvl_state" where
  "sample_list n = pvl_fresh\<lparr>pvs := pvs_fresh\<lparr>pvs_list :=
     map sample_device [0..<n] @ replicate (PROVISIONING_LIST_SIZE - n) provision_zero\<rparr>\<rparr>"

lemma sample_list:
  assumes "n \<le> 256"
  shows "pvs_inv (pvs (sample_list n))"
    and "iter_keys (pvs (sample_list n)) = map (\<lambda>i. [0, 0, 0, of_nat i]) [0..<n]"
    and "\<forall>m. heap_ok (pvs (sample_list n)) m" and "sent (sample_list n) = []"
proof -
  have dev: "slot_ok (sample_device i)" "slot_key (sample_device i) = Some [0, 0, 0, of_nat i]" for i
    by (simp_all add: slot_ok_def slot_key_def sample_device_def dsk_bytes_def tlvs_ok_def)
  have zero: "slot_ok provision_zero" "slot_key provision_zero = None"
    by (simp_all add: slot_ok_def slot_key_def provision_zero_def)
  have "List.map_filter slot_key (map sample_device [0..<n]) = map (\<lambda>i. [0, 0, 0, of_nat i]) [0..<n]"
    by (simp add: map_filter_def dev comp_def)
  moreover have "List.map_filter slot_key (replicate m provision_zero) = []" for m
    by (rule map_filter_blank) (simp add: zero)
  ultimately have keys: "List.map_filter slot_key (pvs_list (pvs (sample_list n)))
      = map (\<lambda>i. [0, 0, 0, of_nat i]) [0..<n]"
    by (simp add: sample_list_def map_filter_append)
  have inj: "i = j" if "i < n" "j < n" "(of_nat i :: u8) = of_nat j" for i j
    using that assms unat_of_nat_u8 [of i] unat_of_nat_u8 [of j] by (metis order.strict_trans2)
  then have "distinct (map (\<lambda>i. [0, 0, 0, of_nat i :: u8]) [0..<n])"
    by (auto simp: distinct_map inj_on_def)
  then show "pvs_inv (pvs (sample_list n))"
    using dev zero assms keys
    by (auto simp: pvs_inv_def tbl_inv_def keys_distinct_compact sample_list_def PROVISIONING_LIST_SIZE_def)
  show "iter_keys (pvs (sample_list n)) = map (\<lambda>i. [0, 0, 0, of_nat i]) [0..<n]"
    by (simp add: iter_keys_def keys)
  show "\<forall>m. heap_ok (pvs (sample_list n)) m" "sent (sample_list n) = []"
    by (simp_all add: sample_list_def pvl_fresh_def heap_ok_fresh)
qed

theorem pvl_iteration_complete_witness:
  "\<exists>st'. iter_run (\<lambda>_. None) 3 (sample_list 3) = Some st'
     \<and> map report_dsk (sent st') = [[0, 0, 0, 0], [0, 0, 0, 1], [0, 0, 0, 2]]"
proof -
  have three: "(3 :: nat) \<le> 256" by simp
  note s = sample_list [OF three]
  show ?thesis
    using pvl_iteration_complete [OF s(1,3,4), of 3 "\<lambda>_. None"]
    by (auto simp: s(2) upt_rec numeral_2_eq_2)
qed

theorem pvl_iteration_restarts_at_256_witness:
  "\<exists>st1 st2 r1 r2. PVL_CommandHandler (\<lambda>_. None) (iter_request 0xFF) 4 (sample_list 256)
       = Some (COMMAND_HANDLED, st1) \<and> sent st1 = [r1]
     \<and> PVL_CommandHandler (\<lambda>_. None) (iter_request (r1 ! 3)) 4 st1 = Some (COMMAND_HANDLED, st2)
     \<and> sent st2 = [r1, r2] \<and> report_dsk r2 = report_dsk r1"
proof -
  have n: "(256 :: nat) \<le> 256" by simp
  note s = sample_list [OF n]
  show ?thesis
    using pvl_iteration_restarts_at_256 [OF s(1,3), of "\<lambda>_. None"] by (auto simp: s(2,4))
qed

section \<open>The report buffer\<close>

text \<open>
  The reports fit the static buffer of 2000 bytes: an entry whose TLVs have the types the set
  command stores takes at most 1846 bytes, because every type occurs at most once.
\<close>

theorem pvl_report_fits:
  assumes "slot_ok e"
    and "tlv_type ` set (tlv_list e) \<subseteq> {PVS_TLV_TYPE_PRODUCT_TYPE, PVS_TLV_TYPE_PRODUCT_ID,
      PVS_TLV_TYPE_MAX_INCL_REQ_INTERVAL, PVS_TLV_TYPE_UUID16, PVS_TLV_TYPE_NAME,
      PVS_TLV_TYPE_LOCATION, PVS_TLV_TYPE_ADV_JOIN}"
    and "unat (dsk_len e) < 32"
  shows "length (CC_provisioning_list_build_report rd (Some e) seqNo) \<le> 1846"
proof -
  let ?ts = "tlv_list e"
  have ok: "distinct (map tlv_type ?ts)"
    using assms(1) by (auto simp: slot_ok_def tlvs_ok_def split: if_splits)
  let ?types = "[PVS_TLV_TYPE_PRODUCT_TYPE, PVS_TLV_TYPE_PRODUCT_ID, PVS_TLV_TYPE_MAX_INCL_REQ_INTERVAL,
    PVS_TLV_TYPE_UUID16, PVS_TLV_TYPE_NAME, PVS_TLV_TYPE_LOCATION, PVS_TLV_TYPE_ADV_JOIN]"
  have "card (tlv_type ` set ?ts) \<le> card (set ?types)"
    using assms(2) by (intro card_mono) auto
  also have "\<dots> \<le> 7" using card_length [of ?types] by simp
  finally have "card (tlv_type ` set ?ts) \<le> 7" .
  then have len: "length ?ts \<le> 7" using ok distinct_card [OF ok] by simp
  have "length (concat (map (\<lambda>t. [tlv_type t * 2 OR provisioning_list_tlv_crt_flag (tlv_type t),
      tlv_length t] @ take (unat (tlv_length t)) (tlv_value t)) ts)) \<le> 257 * length ts" for ts
  proof (induction ts)
    case (Cons t ts)
    then show ?case using unat_u8 [of "tlv_length t"] by simp
  qed simp
  from this [of ?ts] len
  have "length (CC_provisioning_list_add_tlvs rd e) \<le> 12 + 1799"
    by (auto simp: CC_provisioning_list_add_tlvs_def split: option.splits)
  moreover have "length (take (unat (dsk_len e)) (dsk_bytes e)) \<le> 31" using assms(3) by simp
  ultimately show ?thesis by (simp add: CC_provisioning_list_build_report_def)
qed


theorem pvl_report_fits_witness:
  "length (CC_provisioning_list_build_report (\<lambda>_. None) (Some (sample_device 1)) 0) \<le> 1846"
  by (rule pvl_report_fits)
    (simp_all add: sample_device_def slot_ok_def dsk_bytes_def tlvs_ok_def)

end
