(* ===== verification/Conhandle.thy ===== *)
theory Conhandle
  imports Zgw_Prelude
begin

unbundle bit_operations_syntax

text \<open>
  The frame layer of the serial link to the Z-Wave chip, \<^verbatim>\<open>src/serialapi/conhandle.c\<close>:
  building a frame with its checksum and the receiving state machine with its
  acknowledgements and timeouts.

  The serial port is part of the state: \<open>rx\<close> holds the bytes the chip has sent and that are
  not read yet, \<open>tx\<close> the bytes written.  Reading a frame waits until all its bytes have
  come; a call that is still waiting is \<open>Inl Blocked\<close>.  Writing past an array is
  \<open>Inl Overrun\<close>.  Timers follow the Contiki timers: started at a time, expired when their
  interval has passed.
\<close>

section \<open>The code\<close>

datatype con_state_t = stateSOFHunt | stateLen | stateType | stateCmd | stateData | stateChecksum

datatype T_CON_TYPE =
    conIdle | conFrameReceived | conFrameSent | conFrameErr | conRxTimeout | conTxTimeout
  | conTxErr | conTxWait

datatype con_fault = Blocked | Overrun

definition SOF :: u8 where "SOF = 0x01"
definition ACK :: u8 where "ACK = 0x06"
definition NAK :: u8 where "NAK = 0x15"
definition CAN :: u8 where "CAN = 0x18"

definition SERBUF_MAX :: nat where "SERBUF_MAX = 0xff"
definition FRAME_LENGTH_MIN :: nat where "FRAME_LENGTH_MIN = 3"
definition FRAME_LENGTH_MAX :: nat where "FRAME_LENGTH_MAX = SERBUF_MAX"
definition RX_ACK_TIMEOUT_DEFAULT :: nat where "RX_ACK_TIMEOUT_DEFAULT = 150"
definition RX_BYTE_TIMEOUT_DEFAULT :: nat where "RX_BYTE_TIMEOUT_DEFAULT = 150"

lemmas con_consts = SOF_def ACK_def NAK_def CAN_def SERBUF_MAX_def FRAME_LENGTH_MIN_def
  FRAME_LENGTH_MAX_def

record con =
  serBuf :: bytes
  serBufLen :: u8
  con_state :: con_state_t
  bChecksum_RX :: u8
  rxActive :: bool
  AckNakNeeded :: bool
  timeOutACK :: nat
  timeOutRX :: nat
  rx :: bytes
  tx :: bytes

text \<open>The exclusive-or over a range of bytes, started at 0xFF.\<close>

definition checksum :: "bytes \<Rightarrow> u8" where
  "checksum bs = fold (\<lambda>b acc. acc XOR b) bs 0xFF"

definition SerialPutByte :: "u8 \<Rightarrow> con \<Rightarrow> con" where
  "SerialPutByte c st = st\<lparr>tx := tx st @ [c]\<rparr>"

text \<open>
  \<open>ConTxFrame\<close>: the frame has \<open>len + 5\<close> bytes and \<^verbatim>\<open>tx_buffer\<close> 255, so a longer payload than 250
  bytes writes past the buffer.
\<close>

definition ConTxFrame :: "nat \<Rightarrow> u8 \<Rightarrow> u8 \<Rightarrow> bytes \<Rightarrow> u8 \<Rightarrow> con \<Rightarrow> con_fault + con" where
  "ConTxFrame now cmd type Buf len st =
     (if 255 < unat len + 5 then Inl Overrun
      else let body = [len + 3, type, cmd] @ take (unat len) Buf;
               frame = [SOF] @ body @ [checksum body]
           in Inr (st\<lparr>tx := tx st @ frame, AckNakNeeded := True, timeOutACK := now\<rparr>))"

text \<open>\<^verbatim>\<open>case stateLen\<close>: the length byte, then the rest of the frame at once.\<close>

definition con_frame :: "bool \<Rightarrow> u8 \<Rightarrow> con \<Rightarrow> con_fault + T_CON_TYPE \<times> con" where
  "con_frame acknowledge c st =
     (if unat c < FRAME_LENGTH_MIN \<or> FRAME_LENGTH_MAX < unat c
      then Inr (conIdle, st\<lparr>con_state := stateSOFHunt, rxActive := False\<rparr>)
      else if SERBUF_MAX < 1 + unat c then Inl Overrun
      else if length (rx st) < unat c then Inl Blocked
      else let st = st\<lparr>serBuf := [c] @ take (unat c) (rx st) @ drop (1 + unat c) (serBuf st),
                       serBufLen := c, rx := drop (unat c) (rx st)\<rparr>;
               st = st\<lparr>bChecksum_RX := checksum (take (1 + unat c) (serBuf st))\<rparr>;
               (ret, st) = (if acknowledge then
                              if bChecksum_RX st = 0 then (conFrameReceived, SerialPutByte ACK st)
                              else (conFrameErr, SerialPutByte NAK st)
                            else (conIdle, SerialPutByte CAN st))
           in Inr (ret, st\<lparr>con_state := stateSOFHunt, rxActive := False\<rparr>))"

text \<open>One byte through the \<^verbatim>\<open>switch\<close>.\<close>

definition con_byte :: "nat \<Rightarrow> bool \<Rightarrow> u8 \<Rightarrow> con \<Rightarrow> con_fault + T_CON_TYPE \<times> con" where
  "con_byte now acknowledge c st =
     (case con_state st of
        stateSOFHunt \<Rightarrow>
          Inr (if c = SOF then
                 (conIdle, st\<lparr>bChecksum_RX := 0xff, serBufLen := 0, rxActive := True,
                              con_state := stateLen, timeOutRX := now\<rparr>)
               else if AckNakNeeded st then
                 if c = ACK then (conFrameSent, st\<lparr>AckNakNeeded := False\<rparr>)
                 else if c = NAK then (conTxErr, st\<lparr>AckNakNeeded := False\<rparr>)
                 else if c = CAN then (conTxWait, st\<lparr>AckNakNeeded := False\<rparr>)
                 else (conIdle, st)
               else (conIdle, st))
      | stateLen \<Rightarrow> con_frame acknowledge c st
      | _ \<Rightarrow> Inr (conIdle, st\<lparr>con_state := stateSOFHunt, rxActive := False\<rparr>))"

lemma con_byte_consumes:
  assumes "con_byte now acknowledge c st = Inr (ret, st')"
  shows "length (rx st') \<le> length (rx st)"
  using assms
  by (auto simp: con_byte_def con_frame_def SerialPutByte_def Let_def
      split: con_state_t.splits if_splits)

text \<open>The loop \<^verbatim>\<open>do { ... } while ((retVal == conIdle) && SerialCheck())\<close>.\<close>

function con_loop :: "nat \<Rightarrow> bool \<Rightarrow> con \<Rightarrow> con_fault + T_CON_TYPE \<times> con" where
  "con_loop now acknowledge st =
     (case rx st of
        [] \<Rightarrow> Inr (conIdle, st)
      | c # r \<Rightarrow>
          (case con_byte now acknowledge c (st\<lparr>rx := r\<rparr>) of
             Inl e \<Rightarrow> Inl e
           | Inr (ret, st') \<Rightarrow>
               if ret = conIdle then con_loop now acknowledge st' else Inr (ret, st')))"
  by pat_completeness auto
termination
proof (relation "measure (\<lambda>(now, acknowledge, st). length (rx st))")
  fix now acknowledge st c r x ret st'
  assume "rx st = c # r" "con_byte now acknowledge c (st\<lparr>rx := r\<rparr>) = Inr x" "(ret, st') = x"
  then have "length (rx st') \<le> length r"
    using con_byte_consumes [of now acknowledge c "st\<lparr>rx := r\<rparr>" ret st'] by simp
  then show "((now, acknowledge, st'), (now, acknowledge, st))
      \<in> measure (\<lambda>(now, acknowledge, st). length (rx st))"
    using \<open>rx st = c # r\<close> by simp
qed simp

declare con_loop.simps [simp del]

definition expired :: "nat \<Rightarrow> nat \<Rightarrow> nat \<Rightarrow> bool" where
  "expired now interval start \<longleftrightarrow> interval \<le> now - start"

definition ConUpdate :: "nat \<Rightarrow> bool \<Rightarrow> con \<Rightarrow> con_fault + T_CON_TYPE \<times> con" where
  "ConUpdate now acknowledge st =
     (case con_loop now acknowledge st of
        Inl e \<Rightarrow> Inl e
      | Inr (ret, st) \<Rightarrow>
          if ret = conIdle then
            (let (ret, st) = (if rxActive st \<and> expired now (RX_BYTE_TIMEOUT_DEFAULT * 10) (timeOutRX st)
                              then (conRxTimeout, st\<lparr>con_state := stateSOFHunt, rxActive := False\<rparr>)
                              else (ret, st));
                 (ret, st) = (if AckNakNeeded st \<and> expired now (RX_ACK_TIMEOUT_DEFAULT * 10) (timeOutACK st)
                              then (conTxTimeout, st\<lparr>AckNakNeeded := False\<rparr>)
                              else (ret, st))
             in Inr (ret, st))
          else Inr (ret, st))"

text \<open>\<open>ConInit\<close>: \<open>ok\<close> is the result of \<^verbatim>\<open>SerialInit\<close>.\<close>

definition ConInit :: "nat \<Rightarrow> bool \<Rightarrow> con \<Rightarrow> bool \<times> con" where
  "ConInit now ok st =
     (let st = st\<lparr>serBufLen := 0, con_state := stateSOFHunt, timeOutACK := now, timeOutRX := now\<rparr>
      in (ok, if ok then SerialPutByte ACK st else st))"

definition serFrameLen :: "con \<Rightarrow> u8" where "serFrameLen st = serBuf st ! 0"
definition serFrameType :: "con \<Rightarrow> u8" where "serFrameType st = serBuf st ! 1"
definition serFrameCmd :: "con \<Rightarrow> u8" where "serFrameCmd st = serBuf st ! 2"
definition serFrameData :: "con \<Rightarrow> bytes" where
  "serFrameData st = take (unat (serFrameLen st) - 3) (drop 3 (serBuf st))"


section \<open>Checksums\<close>

lemma checksum_snoc: "checksum (bs @ [b]) = checksum bs XOR b"
  by (simp add: checksum_def)

lemma checksum_append_self: "checksum (bs @ [checksum bs]) = 0"
  by (simp add: checksum_snoc)

lemma xor_cancel: "(a XOR x) XOR x = (a :: u8)" "a XOR b = (a XOR x) XOR (x XOR b)"
  by (rule bit_word_eqI; auto simp: bit_simps)+

lemma fold_xor:
  "fold (\<lambda>b acc. acc XOR b) bs a = a XOR fold (\<lambda>b acc. acc XOR b) bs (0 :: u8)"
proof (induction bs arbitrary: a)
  case (Cons x bs)
  show ?case
    unfolding fold_Cons comp_def Cons.IH [of "a XOR x"] Cons.IH [of "0 XOR x"] by (simp add: xor.assoc)
qed simp

lemma checksum_Cons: "fold (\<lambda>b acc. acc XOR b) (x # bs) a = (a XOR x) XOR fold (\<lambda>b acc. acc XOR b) bs (0 :: u8)"
  by (subst fold_xor [symmetric]) simp

lemma checksum_update:
  assumes "i < length bs"
  shows "checksum (bs[i := b]) = checksum bs XOR (bs ! i XOR b)"
proof -
  have "fold (\<lambda>b acc. acc XOR b) (bs[i := b]) a = fold (\<lambda>b acc. acc XOR b) bs a XOR (bs ! i XOR b)" for a
    using assms
  proof (induction bs arbitrary: i a)
    case (Cons x bs)
    show ?case
    proof (cases i)
      case 0
      then show ?thesis
        unfolding 0 list_update_code checksum_Cons nth_Cons_0
        by (subst xor_cancel(2) [of a b x]) (simp only: ac_simps)
    next
      case (Suc j)
      then show ?thesis using Cons.IH [of j "a XOR x"] Cons.prems by simp
    qed
  qed simp
  then show ?thesis by (simp add: checksum_def)
qed

section \<open>Receiving one frame\<close>

definition con_inv :: "con \<Rightarrow> bool" where
  "con_inv st \<longleftrightarrow> length (serBuf st) = SERBUF_MAX
     \<and> (con_state st = stateSOFHunt \<and> \<not> rxActive st \<or> con_state st = stateLen \<and> rxActive st)"

lemma con_byte_inv:
  assumes "con_inv st" and "con_byte now ack c st = Inr (ret, st')"
  shows "con_inv st'"
  using assms
  by (auto simp: con_inv_def con_byte_def con_frame_def SerialPutByte_def Let_def SERBUF_MAX_def
      split: if_splits)

lemma con_byte_ret:
  "con_byte now ack c st = Inr (ret, st') \<Longrightarrow> ret \<noteq> conRxTimeout \<and> ret \<noteq> conTxTimeout"
  by (auto simp: con_byte_def con_frame_def Let_def split: con_state_t.splits if_splits)

lemma con_loop_inv:
  "con_inv st \<Longrightarrow> con_loop now ack st = Inr (ret, st') \<Longrightarrow> con_inv st' \<and> (ret = conIdle \<longrightarrow> rx st' = [])
     \<and> ret \<noteq> conRxTimeout \<and> ret \<noteq> conTxTimeout"
proof (induction now ack st rule: con_loop.induct)
  case (1 now ack st)
  show ?case
  proof (cases "rx st")
    case Nil
    then show ?thesis using 1(2,3) by (simp add: con_loop.simps [of now ack st])
  next
    case (Cons c r)
    have inv: "con_inv (st\<lparr>rx := r\<rparr>)" using 1(2) by (simp add: con_inv_def)
    obtain ret1 st1 where byte: "con_byte now ack c (st\<lparr>rx := r\<rparr>) = Inr (ret1, st1)"
      using 1(3) Cons by (auto simp: con_loop.simps [of now ack st] split: sum.splits)
    note inv1 = con_byte_inv [OF inv byte]
    show ?thesis
    proof (cases "ret1 = conIdle")
      case True
      then have "con_loop now ack st1 = Inr (ret, st')"
        using 1(3) Cons byte by (simp add: con_loop.simps [of now ack st])
      then show ?thesis using 1(1) [OF Cons byte refl] True inv1 by simp
    next
      case False
      then have "ret = ret1" "st' = st1"
        using 1(3) Cons byte by (auto simp: con_loop.simps [of now ack st])
      then show ?thesis using inv1 False con_byte_ret [OF byte] by simp
    qed
  qed
qed

text \<open>
  Every call of \<open>ConUpdate\<close> that returns leaves the receiver hunting for a start byte or waiting
  for a length byte (and marked active exactly then), with the receive buffer intact; when it
  reports nothing or a timeout, it has read all there was.
\<close>

theorem con_update_invariant:
  assumes "con_inv st" and "ConUpdate now ack st = Inr (ret, st')"
  shows "con_inv st' \<and> (ret \<in> {conIdle, conRxTimeout, conTxTimeout} \<longrightarrow> rx st' = [])
    \<and> (ret = conTxTimeout \<longrightarrow> \<not> AckNakNeeded st') \<and> (ret = conRxTimeout \<longrightarrow> con_state st' = stateSOFHunt)"
proof -
  obtain ret1 st1 where loop: "con_loop now ack st = Inr (ret1, st1)"
    using assms(2) by (auto simp: ConUpdate_def split: sum.splits)
  note l = con_loop_inv [OF assms(1) loop]
  show ?thesis
  proof (cases "ret1 = conIdle")
    case True
    then show ?thesis
      using l assms(2) loop
      by (auto simp: ConUpdate_def con_inv_def Let_def split: if_splits)
  next
    case False
    then have "ret = ret1" "st' = st1" using assms(2) loop by (auto simp: ConUpdate_def)
    then show ?thesis using l False by auto
  qed
qed


text \<open>A complete frame in the input: what the receiver makes of it.\<close>

definition after_frame :: "nat \<Rightarrow> u8 \<Rightarrow> bytes \<Rightarrow> bytes \<Rightarrow> con \<Rightarrow> con" where
  "after_frame now c d rest st = st\<lparr>serBuf := (c # d) @ drop (1 + length d) (serBuf st), serBufLen := c,
     con_state := stateSOFHunt, bChecksum_RX := checksum (c # d), rxActive := False, timeOutRX := now,
     rx := rest, tx := tx st @ [if checksum (c # d) = 0 then ACK else NAK]\<rparr>"

lemma con_update_frame:
  assumes "con_inv st" and "con_state st = stateSOFHunt" and "rx st = SOF # c # d @ rest"
    and "length d = unat c" and "3 \<le> unat c" and "unat c \<le> 254"
  shows "ConUpdate now True st =
    Inr (if checksum (c # d) = 0 then conFrameReceived else conFrameErr, after_frame now c d rest st)"
proof -
  let ?st1 = "st\<lparr>bChecksum_RX := 0xff, serBufLen := 0, rxActive := True, con_state := stateLen,
      timeOutRX := now, rx := d @ rest\<rparr>"
  have sof: "con_byte now True SOF (st\<lparr>rx := c # d @ rest\<rparr>) = Inr (conIdle, ?st1\<lparr>rx := c # d @ rest\<rparr>)"
    using assms(2) by (simp add: con_byte_def)
  have frm: "con_byte now True c ?st1 =
      Inr (if checksum (c # d) = 0 then conFrameReceived else conFrameErr, after_frame now c d rest st)"
    using assms(4-6)
    by (auto simp: con_byte_def con_frame_def con_consts(5-7) SerialPutByte_def after_frame_def Let_def)
  have "con_loop now True st =
      Inr (if checksum (c # d) = 0 then conFrameReceived else conFrameErr, after_frame now c d rest st)"
    using sof frm assms(3) by (simp add: con_loop.simps)
  then show ?thesis by (simp add: ConUpdate_def)
qed

lemma con_tx_frame:
  assumes "ConTxFrame now cmd type Buf len st = Inr st'" and "unat len \<le> length Buf"
  shows "\<exists>d. length d = unat (len + 3) \<and> checksum ((len + 3) # d) = 0
    \<and> tx st' = tx st @ SOF # (len + 3) # d \<and> unat len \<le> 250 \<and> unat (len + 3) = unat len + 3
    \<and> d = [type, cmd] @ take (unat len) Buf @ [checksum ([len + 3, type, cmd] @ take (unat len) Buf)]"
proof -
  have len: "unat len \<le> 250" using assms(1) by (auto simp: ConTxFrame_def split: if_splits)
  then have u: "unat (len + 3) = unat len + 3"
    using unat_add_lem [of len 3] by simp
  let ?d = "[type, cmd] @ take (unat len) Buf
    @ [checksum ([len + 3, type, cmd] @ take (unat len) Buf)]"
  have "checksum ((len + 3) # ?d) = 0"
    using checksum_append_self [of "[len + 3, type, cmd] @ take (unat len) Buf"] by simp
  then show ?thesis
    using assms len u by (intro exI [of _ ?d]) (auto simp: ConTxFrame_def Let_def)
qed

text \<open>
  C23.  What \<open>ConTxFrame\<close> sends, \<open>ConUpdate\<close> receives: a payload of up to 250 bytes arrives as a valid
  frame with the same command, type and data, is acknowledged with an ACK, and the rest of
  the input is left for the next call.
\<close>

theorem con_frame_roundtrip:
  assumes "con_inv st" and "con_state st = stateSOFHunt" and "unat len \<le> length Buf"
    and "ConTxFrame now cmd type Buf len peer = Inr peer'" and "tx peer = []"
    and "rx st = tx peer' @ rest"
  shows "\<exists>st'. ConUpdate now' True st = Inr (conFrameReceived, st') \<and> con_inv st'
    \<and> serFrameCmd st' = cmd \<and> serFrameType st' = type \<and> serFrameData st' = take (unat len) Buf
    \<and> rx st' = rest \<and> tx st' = tx st @ [ACK]"
proof -
  obtain d where d: "length d = unat (len + 3)" "checksum ((len + 3) # d) = 0"
      "tx peer' = SOF # (len + 3) # d" "unat len \<le> 250" "unat (len + 3) = unat len + 3"
      "d = [type, cmd] @ take (unat len) Buf @ [checksum ([len + 3, type, cmd] @ take (unat len) Buf)]"
    using con_tx_frame [OF assms(4,3)] assms(5) by auto
  let ?st = "after_frame now' (len + 3) d rest st"
  have "ConUpdate now' True st = Inr (conFrameReceived, ?st)"
    using con_update_frame [OF assms(1,2), of "len + 3" d rest now'] assms(6) d by simp
  moreover have "con_inv ?st"
    using assms(1) d(1,4,5) by (simp add: con_inv_def after_frame_def SERBUF_MAX_def)
  moreover have "serFrameCmd ?st = cmd" "serFrameType ?st = type"
    by (simp_all add: serFrameCmd_def serFrameType_def after_frame_def d(6))
  moreover have "serFrameData ?st = take (unat len) Buf"
    using assms(3) d(5) by (simp add: serFrameData_def serFrameLen_def after_frame_def d(6))
  ultimately show ?thesis using d(2) by (simp add: after_frame_def)
qed

definition con_ready :: con where
  "con_ready = \<lparr>serBuf = replicate 255 0, serBufLen = 0, con_state = stateSOFHunt, bChecksum_RX = 0,
     rxActive = False, AckNakNeeded = False, timeOutACK = 0, timeOutRX = 0, rx = [], tx = []\<rparr>"

lemma con_ready: "con_inv (con_ready\<lparr>rx := r\<rparr>)" "con_state (con_ready\<lparr>rx := r\<rparr>) = stateSOFHunt"
  "tx con_ready = []"
  by (simp_all add: con_ready_def con_inv_def SERBUF_MAX_def)

theorem con_frame_roundtrip_witness:
  "\<exists>st'. ConUpdate 5 True (con_ready\<lparr>rx := [0x01, 0x05, 0, 0x13, 0xAA, 0xBB, 0xF8]\<rparr>)
      = Inr (conFrameReceived, st') \<and> serFrameCmd st' = 0x13 \<and> serFrameData st' = [0xAA, 0xBB]"
proof -
  have "ConTxFrame 0 0x13 0 [0xAA, 0xBB] 2 con_ready = Inr (con_ready\<lparr>tx := [0x01, 0x05, 0, 0x13, 0xAA,
      0xBB, 0xF8], AckNakNeeded := True, timeOutACK := 0\<rparr>)"
    by (simp add: ConTxFrame_def con_ready_def SOF_def checksum_def Let_def)
  from con_frame_roundtrip [OF con_ready(1,2) _ this con_ready(3),
      of "[0x01, 0x05, 0, 0x13, 0xAA, 0xBB, 0xF8]" "[]" 5]
  show ?thesis by auto
qed

theorem con_update_invariant_witness:
  "\<exists>ret st'. ConUpdate 5 True (con_ready\<lparr>rx := [0x01]\<rparr>) = Inr (ret, st') \<and> con_inv st' \<and> rx st' = []"
proof -
  have run: "ConUpdate 5 True (con_ready\<lparr>rx := [0x01]\<rparr>) = Inr (conIdle, con_ready\<lparr>bChecksum_RX := 0xff,
      rxActive := True, con_state := stateLen, timeOutRX := 5\<rparr>)"
    by (simp add: ConUpdate_def con_loop.simps con_byte_def con_ready_def SOF_def expired_def
        RX_BYTE_TIMEOUT_DEFAULT_def)
  then show ?thesis using con_update_invariant [OF con_ready(1) run] by auto
qed

text \<open>
  C32.  A frame with one corrupted byte behind its length byte is never delivered: it is reported as an
  error and answered with a NAK.
\<close>

theorem con_single_error_detected:
  assumes "con_inv st" and "con_state st = stateSOFHunt" and "unat len \<le> length Buf"
    and "ConTxFrame now cmd type Buf len peer = Inr peer'" and "tx peer = []"
    and "2 \<le> i" and "i < length (tx peer')" and "b \<noteq> tx peer' ! i"
    and "rx st = (tx peer')[i := b] @ rest"
  shows "\<exists>st'. ConUpdate now' True st = Inr (conFrameErr, st') \<and> tx st' = tx st @ [NAK] \<and> rx st' = rest"
proof -
  obtain d where "length d = unat (len + 3)" "checksum ((len + 3) # d) = 0"
      "tx peer' = tx peer @ SOF # (len + 3) # d" "unat len \<le> 250" "unat (len + 3) = unat len + 3"
    using con_tx_frame [OF assms(4,3)] by blast
  note d = this [unfolded assms(5) append_Nil]
  obtain j where j: "i = Suc (Suc j)" using assms(6) by (metis Suc_le_D numeral_2_eq_2 Suc_le_mono)
  have jd: "j < length d" "b \<noteq> d ! j" using assms(7,8) d(3) j by simp_all
  have "checksum (((len + 3) # d)[Suc j := b]) = d ! j XOR b"
    using checksum_update [of "Suc j" "(len + 3) # d" b] jd(1) d(2) by simp
  then have bad: "checksum ((len + 3) # d[j := b]) \<noteq> 0"
    using jd(2) by (auto simp: word_xor_eq_0_iff)
  show ?thesis
    using con_update_frame [OF assms(1,2), of "len + 3" "d[j := b]" rest now'] assms(9) d j bad
    by (simp add: after_frame_def)
qed

theorem con_single_error_detected_witness:
  "\<exists>st'. ConUpdate 5 True (con_ready\<lparr>rx := [0x01, 0x05, 0, 0x13, 0xAA, 0xBC, 0xF8]\<rparr>)
      = Inr (conFrameErr, st') \<and> tx st' = [NAK]"
proof -
  have "ConTxFrame 0 0x13 0 [0xAA, 0xBB] 2 con_ready = Inr (con_ready\<lparr>tx := [0x01, 0x05, 0, 0x13, 0xAA,
      0xBB, 0xF8], AckNakNeeded := True, timeOutACK := 0\<rparr>)"
    by (simp add: ConTxFrame_def con_ready_def SOF_def checksum_def Let_def)
  from con_single_error_detected [OF con_ready(1,2) _ this con_ready(3), of 5 "0xBC"
      "[0x01, 0x05, 0, 0x13, 0xAA, 0xBC, 0xF8]" "[]" 5]
  show ?thesis by (auto simp: con_ready_def)
qed


text \<open>
  A length byte of 255 passes the length check, although the receive buffer has room for the
  length byte and 254 more: the read then runs one byte past the buffer, whatever follows.
\<close>

theorem con_length_255_overruns:
  assumes "con_state st = stateSOFHunt" and "rx st = SOF # 0xFF # r"
  shows "ConUpdate now ack st = Inl Overrun"
proof -
  have "con_byte now ack SOF (st\<lparr>rx := 0xFF # r\<rparr>) = Inr (conIdle, st\<lparr>bChecksum_RX := 0xff, serBufLen := 0,
      rxActive := True, con_state := stateLen, timeOutRX := now, rx := 0xFF # r\<rparr>)"
    using assms(1) by (simp add: con_byte_def)
  then show ?thesis
    using assms(2) by (simp add: ConUpdate_def con_loop.simps con_byte_def con_frame_def con_consts(5-7))
qed

theorem con_length_255_overruns_witness:
  "ConUpdate 0 True (con_ready\<lparr>rx := [0x01, 0xFF]\<rparr>) = Inl Overrun"
  by (rule con_length_255_overruns [where r = "[]"]) (simp_all add: con_ready_def SOF_def)

end
