(* ===== verification/Command_Handler.thy ===== *)
theory Command_Handler
  imports Zgw_Prelude
begin

text \<open>
  The dispatcher for command classes (\<^verbatim>\<open>src/command_handler.c\<close>): every command class registers a
  handler with the lowest security scheme it accepts; a received frame is validated, checked against
  the scheme it came with and the list of disabled classes, and given to the handler.  The same
  table gives the node information frames.

  The frame validator is generated during the build and is a parameter, as are the handlers: a handler
  maps the scheme, the frame and the state of the gateway to a code and a new state.
\<close>

unbundle bit_operations_syntax

section \<open>The code\<close>

datatype security_scheme_t = NO_SCHEME | AUTO_SCHEME | NET_SCHEME | USE_CRC16 | SECURITY_SCHEME_0
  | SECURITY_SCHEME_2_UNAUTHENTICATED | SECURITY_SCHEME_2_AUTHENTICATED | SECURITY_SCHEME_2_ACCESS
  | SECURITY_SCHEME_UDP

definition scheme_prio :: "security_scheme_t \<Rightarrow> nat" where
  "scheme_prio a = (case a of
      SECURITY_SCHEME_UDP \<Rightarrow> 0xFFFF
    | SECURITY_SCHEME_2_ACCESS \<Rightarrow> 4
    | SECURITY_SCHEME_2_AUTHENTICATED \<Rightarrow> 3
    | SECURITY_SCHEME_2_UNAUTHENTICATED \<Rightarrow> 2
    | SECURITY_SCHEME_0 \<Rightarrow> 1
    | _ \<Rightarrow> 0)"

definition scheme_compare :: "security_scheme_t \<Rightarrow> security_scheme_t \<Rightarrow> bool" where
  "scheme_compare a b \<longleftrightarrow> scheme_prio a \<ge> scheme_prio b"

datatype validator_result_t = UNKNOWN_CLASS | UNKNOWN_COMMAND | UNKNOWN_PARAMETER | PARSE_FAIL | PARSE_OK

text \<open>Both enumerations are compared as numbers by the dispatcher.\<close>

definition code_nr :: "command_handler_codes_t \<Rightarrow> u8" where
  "code_nr c = (case c of COMMAND_HANDLED \<Rightarrow> 0 | COMMAND_PARSE_ERROR \<Rightarrow> 1 | COMMAND_BUSY \<Rightarrow> 2
    | COMMAND_NOT_SUPPORTED \<Rightarrow> 3 | CLASS_NOT_SUPPORTED \<Rightarrow> 4 | COMMAND_POSTPONED \<Rightarrow> 5 | COMMAND_CLASS_DISABLED \<Rightarrow> 6)"

definition validator_nr :: "validator_result_t \<Rightarrow> u8" where
  "validator_nr r = (case r of UNKNOWN_CLASS \<Rightarrow> 0 | UNKNOWN_COMMAND \<Rightarrow> 1 | UNKNOWN_PARAMETER \<Rightarrow> 2
    | PARSE_FAIL \<Rightarrow> 3 | PARSE_OK \<Rightarrow> 4)"

record 'w command_handler_t =
  handler :: "security_scheme_t \<Rightarrow> bytes \<Rightarrow> nat \<Rightarrow> 'w \<Rightarrow> u8 \<times> 'w"
  init_fn :: "('w \<Rightarrow> 'w) option"
  cmdClass :: u16
  version :: u8
  minimal_scheme :: security_scheme_t

text \<open>The static configuration: the registered handlers, the disabled classes, the scheme of the network.\<close>

record 'w ch_conf =
  handlers :: "'w command_handler_t list"
  disable_command_list :: "u16 list"
  net_scheme :: security_scheme_t

definition is_in_disabled_list :: "'w ch_conf \<Rightarrow> 'w command_handler_t \<Rightarrow> bool" where
  "is_in_disabled_list cf fn = list_ex (\<lambda>c. cmdClass fn = c) (disable_command_list cf)"

definition supports_frame_at_security_level :: "'w ch_conf \<Rightarrow> 'w command_handler_t \<Rightarrow> security_scheme_t \<Rightarrow> bool" where
  "supports_frame_at_security_level cf fn scheme0 =
     (let scheme = (if scheme0 = USE_CRC16 then NO_SCHEME else scheme0)
      in if minimal_scheme fn = NET_SCHEME then scheme = net_scheme cf \<or> scheme = SECURITY_SCHEME_UDP
         else minimal_scheme fn = NO_SCHEME
              \<or> (scheme_compare scheme (net_scheme cf) \<and> scheme_compare scheme (minimal_scheme fn)))"

definition exception_CC_security_level_check :: "'w ch_conf \<Rightarrow> security_scheme_t \<Rightarrow> u8 \<Rightarrow> u8 \<Rightarrow> bool" where
  "exception_CC_security_level_check cf scheme cls cmd \<longleftrightarrow>
     net_scheme cf = SECURITY_SCHEME_0 \<and> cls = 0x72 \<and> scheme = NO_SCHEME \<and> cmd = 0x04"

text \<open>The code stored for the result of the validator.\<close>

definition validation_rc :: "validator_result_t \<Rightarrow> u8" where
  "validation_rc result =
     (if result \<noteq> PARSE_OK then
        (case result of
           UNKNOWN_CLASS \<Rightarrow> code_nr CLASS_NOT_SUPPORTED
         | UNKNOWN_COMMAND \<Rightarrow> code_nr COMMAND_NOT_SUPPORTED
         | UNKNOWN_PARAMETER \<Rightarrow> code_nr COMMAND_PARSE_ERROR
         | PARSE_FAIL \<Rightarrow> code_nr COMMAND_PARSE_ERROR
         | PARSE_OK \<Rightarrow> validator_nr PARSE_OK)
      else code_nr CLASS_NOT_SUPPORTED)"

text \<open>The loop over the handlers: \<open>Inl\<close> is an early return.\<close>

fun security_check ::
  "'w ch_conf \<Rightarrow> security_scheme_t \<Rightarrow> bytes \<Rightarrow> 'w command_handler_t option \<Rightarrow> 'w command_handler_t list
     \<Rightarrow> u8 + 'w command_handler_t option" where
  "security_check cf scheme payload checked [] = Inr checked"
| "security_check cf scheme payload checked (fn # fns) =
     (if cmdClass fn = ucast (payload ! 0) then
        (if supports_frame_at_security_level cf fn scheme
            \<or> exception_CC_security_level_check cf scheme (payload ! 0) (payload ! 1) then
           (if is_in_disabled_list cf fn then Inl (code_nr COMMAND_CLASS_DISABLED)
            else security_check cf scheme payload (Some fn) fns)
         else Inl (code_nr CLASS_NOT_SUPPORTED))
      else security_check cf scheme payload checked fns)"

definition ZW_command_handler_run ::
  "(bytes \<Rightarrow> nat \<Rightarrow> validator_result_t) \<Rightarrow> (bytes \<Rightarrow> nat \<Rightarrow> 'w \<Rightarrow> 'w) \<Rightarrow> 'w ch_conf
     \<Rightarrow> security_scheme_t \<Rightarrow> bytes \<Rightarrow> nat \<Rightarrow> bool \<Rightarrow> 'w \<Rightarrow> u8 \<times> 'w" where
  "ZW_command_handler_run ZW_command_validator ApplicationCommandHandlerZIP cf scheme payload len
       bSupervisionUnwrapped w =
     (let rc = validation_rc (ZW_command_validator payload len)
      in if bSupervisionUnwrapped \<and> payload ! 0 = 0x84 \<and> (payload ! 1 = 0x07 \<or> payload ! 1 = 0x06) then
           (code_nr COMMAND_HANDLED, ApplicationCommandHandlerZIP payload len w)
         else (case security_check cf scheme payload None (handlers cf) of
                 Inl code \<Rightarrow> (code, w)
               | Inr None \<Rightarrow> (code_nr CLASS_NOT_SUPPORTED, w)
               | Inr (Some fn) \<Rightarrow>
                   if rc = validator_nr PARSE_OK then handler fn scheme payload len w else (rc, w)))"

fun version_get_loop :: "'w ch_conf \<Rightarrow> security_scheme_t \<Rightarrow> u16 \<Rightarrow> 'w command_handler_t list \<Rightarrow> u8" where
  "version_get_loop cf scheme cls [] = 0"
| "version_get_loop cf scheme cls (fn # fns) =
     (if is_in_disabled_list cf fn then version_get_loop cf scheme cls fns
      else if cmdClass fn = cls \<and> supports_frame_at_security_level cf fn scheme then version fn
      else version_get_loop cf scheme cls fns)"

definition ZW_comamnd_handler_version_get :: "'w ch_conf \<Rightarrow> security_scheme_t \<Rightarrow> u16 \<Rightarrow> u8" where
  "ZW_comamnd_handler_version_get cf scheme cls = version_get_loop cf scheme cls (handlers cf)"

text \<open>Building the list of classes; the function returns when the next class does not fit.\<close>

fun get_nif_loop :: "'w ch_conf \<Rightarrow> security_scheme_t \<Rightarrow> u8 \<Rightarrow> bytes \<Rightarrow> 'w command_handler_t list \<Rightarrow> bytes" where
  "get_nif_loop cf scheme max_len nif [] = nif"
| "get_nif_loop cf scheme max_len nif (fn # fns) =
     (if is_in_disabled_list cf fn then get_nif_loop cf scheme max_len nif fns
      else if supports_frame_at_security_level cf fn scheme then
        (if scheme \<noteq> NO_SCHEME \<and> supports_frame_at_security_level cf fn NO_SCHEME then
           get_nif_loop cf scheme max_len nif fns
         else if cmdClass fn = 0x5E then get_nif_loop cf scheme max_len nif fns
         else if cmdClass fn AND 0xF0 = 0xF0 then
           (if unat max_len < length nif + 2 then nif
            else get_nif_loop cf scheme max_len
                   (nif @ [ucast (drop_bit 8 (cmdClass fn) AND 0xFF), ucast (cmdClass fn AND 0xFF)]) fns)
         else
           (if unat max_len < length nif + 1 then nif
            else get_nif_loop cf scheme max_len (nif @ [ucast (cmdClass fn AND 0xFF)]) fns))
      else get_nif_loop cf scheme max_len nif fns)"

definition ZW_command_handler_get_nif :: "'w ch_conf \<Rightarrow> security_scheme_t \<Rightarrow> u8 \<Rightarrow> bytes" where
  "ZW_command_handler_get_nif cf scheme max_len = get_nif_loop cf scheme max_len [] (handlers cf)"

definition ZW_command_handler_init :: "'w ch_conf \<Rightarrow> 'w \<Rightarrow> 'w" where
  "ZW_command_handler_init cf w =
     foldl (\<lambda>w fn. case init_fn fn of None \<Rightarrow> w | Some f \<Rightarrow> f w) w (handlers cf)"

definition ZW_command_handler_disable_list :: "u16 list \<Rightarrow> u8 \<Rightarrow> 'w ch_conf \<Rightarrow> 'w ch_conf" where
  "ZW_command_handler_disable_list cmdList cmdListLen cf =
     cf \<lparr> disable_command_list := take (unat cmdListLen) cmdList \<rparr>"

section \<open>The security check\<close>

definition handles :: "bytes \<Rightarrow> 'w command_handler_t \<Rightarrow> bool" where
  "handles payload fn \<longleftrightarrow> cmdClass fn = ucast (payload ! 0)"

definition passes :: "'w ch_conf \<Rightarrow> security_scheme_t \<Rightarrow> bytes \<Rightarrow> 'w command_handler_t \<Rightarrow> bool" where
  "passes cf scheme payload fn \<longleftrightarrow> supports_frame_at_security_level cf fn scheme
     \<or> exception_CC_security_level_check cf scheme (payload ! 0) (payload ! 1)"

lemma security_check_Cons:
  "security_check cf scheme payload checked (fn # fns) =
     (if handles payload fn then
        (if passes cf scheme payload fn then
           (if is_in_disabled_list cf fn then Inl (code_nr COMMAND_CLASS_DISABLED)
            else security_check cf scheme payload (Some fn) fns)
         else Inl (code_nr CLASS_NOT_SUPPORTED))
      else security_check cf scheme payload checked fns)"
  by (simp add: handles_def passes_def)

lemma security_check_Inr:
  "security_check cf scheme payload checked fns = Inr r \<longleftrightarrow>
     (\<forall>fn \<in> set fns. handles payload fn \<longrightarrow> passes cf scheme payload fn \<and> \<not> is_in_disabled_list cf fn)
     \<and> r = (if filter (handles payload) fns = [] then checked else Some (last (filter (handles payload) fns)))"
  by (induction fns arbitrary: checked) (auto simp: security_check_Cons simp del: security_check.simps(2))

lemma security_check_Inl:
  "security_check cf scheme payload checked fns = Inl c \<Longrightarrow>
     (\<exists>fn \<in> set fns. handles payload fn \<and> c = code_nr COMMAND_CLASS_DISABLED \<and> is_in_disabled_list cf fn)
     \<or> (\<exists>fn \<in> set fns. handles payload fn \<and> c = code_nr CLASS_NOT_SUPPORTED \<and> \<not> passes cf scheme payload fn)"
  by (induction fns arbitrary: checked)
     (auto simp: security_check_Cons simp del: security_check.simps(2) split: if_splits)

lemma validation_rc_ok: "validation_rc r = validator_nr PARSE_OK \<longleftrightarrow> r = PARSE_OK \<or> r = UNKNOWN_CLASS"
  by (cases r) (auto simp: validation_rc_def validator_nr_def code_nr_def)

text \<open>The classes of a node information frame.\<close>

definition in_nif :: "'w ch_conf \<Rightarrow> security_scheme_t \<Rightarrow> 'w command_handler_t \<Rightarrow> bool" where
  "in_nif cf scheme fn \<longleftrightarrow> \<not> is_in_disabled_list cf fn \<and> supports_frame_at_security_level cf fn scheme
     \<and> (scheme = NO_SCHEME \<or> \<not> supports_frame_at_security_level cf fn NO_SCHEME) \<and> cmdClass fn \<noteq> 0x5E"

definition class_bytes :: "u16 \<Rightarrow> bytes" where
  "class_bytes c = (if c AND 0xF0 = 0xF0 then [ucast (drop_bit 8 c AND 0xFF), ucast (c AND 0xFF)] else [ucast (c AND 0xFF)])"

lemma get_nif_loop_Cons:
  "get_nif_loop cf scheme max_len nif (fn # fns) =
     (if in_nif cf scheme fn then
        (if length nif + length (class_bytes (cmdClass fn)) \<le> unat max_len
         then get_nif_loop cf scheme max_len (nif @ class_bytes (cmdClass fn)) fns else nif)
      else get_nif_loop cf scheme max_len nif fns)"
  by (auto simp: in_nif_def class_bytes_def)

text \<open>The bytes of the listed classes, and the classes that are listed when the space is limited.\<close>

definition nif_bytes :: "'w command_handler_t list \<Rightarrow> bytes" where
  "nif_bytes fns = concat (map (class_bytes \<circ> cmdClass) fns)"

lemma nif_bytes_simps [simp]: "nif_bytes [] = []" "nif_bytes (fn # fns) = class_bytes (cmdClass fn) @ nif_bytes fns"
  by (simp_all add: nif_bytes_def)

definition nif_listed :: "nat \<Rightarrow> 'w command_handler_t list \<Rightarrow> 'w command_handler_t list \<Rightarrow> bool" where
  "nif_listed room cs listed \<longleftrightarrow> (\<exists>rest. cs = listed @ rest \<and> length (nif_bytes listed) \<le> room
     \<and> (case rest of [] \<Rightarrow> True | fn # _ \<Rightarrow> length (nif_bytes (listed @ [fn])) > room))"

lemma nif_listed_Cons:
  "length (class_bytes (cmdClass fn)) \<le> room \<Longrightarrow>
   nif_listed (room - length (class_bytes (cmdClass fn))) cs listed \<Longrightarrow> nif_listed room (fn # cs) (fn # listed)"
  unfolding nif_listed_def by (erule exE, rule exI, auto split: list.splits)

lemma get_nif_loop_eq:
  assumes "length nif \<le> unat max_len"
  shows "\<exists>listed. nif_listed (unat max_len - length nif) (filter (in_nif cf scheme) fns) listed
    \<and> get_nif_loop cf scheme max_len nif fns = nif @ nif_bytes listed"
  using assms
proof (induction fns arbitrary: nif)
  case Nil
  show ?case by (auto simp: nif_listed_def)
next
  case (Cons fn fns)
  let ?b = "class_bytes (cmdClass fn)"
  consider "\<not> in_nif cf scheme fn" | "in_nif cf scheme fn" "length nif + length ?b \<le> unat max_len"
    | "in_nif cf scheme fn" "\<not> length nif + length ?b \<le> unat max_len" by blast
  then show ?case
  proof cases
    case 1
    then show ?thesis using Cons by (simp add: get_nif_loop_Cons del: get_nif_loop.simps(2))
  next
    case 2
    then obtain listed where l: "nif_listed (unat max_len - length (nif @ ?b)) (filter (in_nif cf scheme) fns) listed"
        "get_nif_loop cf scheme max_len (nif @ ?b) fns = (nif @ ?b) @ nif_bytes listed"
      using Cons.IH [of "nif @ ?b"] by auto
    then have "nif_listed (unat max_len - length nif) (fn # filter (in_nif cf scheme) fns) (fn # listed)"
      using 2 by (intro nif_listed_Cons) (auto simp: diff_diff_left)
    then show ?thesis using l(2) 2 by (intro exI [of _ "fn # listed"])
        (simp add: get_nif_loop_Cons del: get_nif_loop.simps(2))
  next
    case 3
    then have "nif_listed (unat max_len - length nif) (fn # filter (in_nif cf scheme) fns) []"
      using Cons.prems by (auto simp: nif_listed_def)
    then show ?thesis using 3 by (intro exI [of _ "[]"]) (simp add: get_nif_loop_Cons del: get_nif_loop.simps(2))
  qed
qed

section \<open>Properties\<close>

definition dispatch_ok :: "'w ch_conf \<Rightarrow> security_scheme_t \<Rightarrow> bytes \<Rightarrow> bool" where
  "dispatch_ok cf scheme payload \<longleftrightarrow> list_ex (handles payload) (handlers cf)
     \<and> list_all (\<lambda>fn. handles payload fn \<longrightarrow> passes cf scheme payload fn \<and> \<not> is_in_disabled_list cf fn) (handlers cf)"

lemma dispatch_check:
  "dispatch_ok cf scheme payload \<longleftrightarrow>
     (\<exists>fn. security_check cf scheme payload None (handlers cf) = Inr (Some fn))"
  by (auto simp: dispatch_ok_def security_check_Inr list_ex_iff list_all_iff filter_empty_conv)

text \<open>The minimal scheme of a handler and the scheme of the network are lower bounds.\<close>

lemma security_floor:
  assumes "supports_frame_at_security_level cf fn scheme" and "minimal_scheme fn \<notin> {NO_SCHEME, NET_SCHEME}"
  shows "scheme_prio (net_scheme cf) \<le> scheme_prio scheme \<and> scheme_prio (minimal_scheme fn) \<le> scheme_prio scheme"
  using assms by (auto simp: supports_frame_at_security_level_def scheme_compare_def scheme_prio_def Let_def split: if_splits)

lemma security_same:
  assumes "supports_frame_at_security_level cf fn scheme" and "minimal_scheme fn = NET_SCHEME"
  shows "scheme \<in> {net_scheme cf, SECURITY_SCHEME_UDP} \<union> (if net_scheme cf = NO_SCHEME then {USE_CRC16} else {})"
  using assms by (auto simp: supports_frame_at_security_level_def Let_def split: if_splits)


definition sample_ch :: "nat ch_conf" where
  "sample_ch = \<lparr> handlers = [\<lparr> handler = (\<lambda>_ _ _ w. (0, w + 1)), init_fn = None, cmdClass = 0x98, version = 1,
      minimal_scheme = SECURITY_SCHEME_0 \<rparr>], disable_command_list = [0x20], net_scheme = SECURITY_SCHEME_2_ACCESS \<rparr>"


text \<open>
  The node information frame for a scheme lists, in the order of registration, the enabled
  classes that are supported on that scheme and, for a secure frame, not already without
  security: all of them when they fit, and otherwise those before the first that does not fit.
\<close>

theorem nif_exact:
  "\<exists>listed. nif_listed (unat max_len) (filter (in_nif cf scheme) (handlers cf)) listed
    \<and> ZW_command_handler_get_nif cf scheme max_len = nif_bytes listed"
  using get_nif_loop_eq [of "[]" max_len cf scheme "handlers cf"] by (simp add: ZW_command_handler_get_nif_def)

text \<open>
  A class that is announced in the node information frame of a scheme is served on that scheme:
  a valid frame of an announced class reaches the handler, when each class is registered once.
\<close>

theorem nif_classes_served:
  assumes fn: "fn \<in> set (handlers cf)" "in_nif cf scheme fn" and uniq: "distinct (map cmdClass (handlers cf))"
    and cls: "cmdClass fn = ucast (payload ! 0)" and "payload ! 0 \<noteq> 0x84" and "validator payload len = PARSE_OK"
  shows "ZW_command_handler_run validator ach cf scheme payload len supervised w = handler fn scheme payload len w"
proof -
  have same: "g = fn" if "g \<in> set (handlers cf)" "handles payload g" for g
    using uniq fn(1) that cls by (auto simp: handles_def distinct_map inj_on_def)
  then have "\<forall>g \<in> set (handlers cf). handles payload g \<longrightarrow> passes cf scheme payload g \<and> \<not> is_in_disabled_list cf g"
    using fn(2) by (auto simp: in_nif_def passes_def)
  moreover have ne: "filter (handles payload) (handlers cf) \<noteq> []"
    using fn(1) cls by (auto simp: handles_def filter_empty_conv)
  moreover have "last (filter (handles payload) (handlers cf)) = fn"
    using last_in_set [OF ne] same by auto
  ultimately have "security_check cf scheme payload None (handlers cf) = Inr (Some fn)"
    by (simp add: security_check_Inr)
  then show ?thesis
    using assms(5,6) validation_rc_ok [of PARSE_OK] by (simp add: ZW_command_handler_run_def Let_def)
qed

theorem nif_classes_served_witness:
  "ZW_command_handler_run (\<lambda>_ _. PARSE_OK) (\<lambda>_ _ w. w) sample_ch SECURITY_SCHEME_2_ACCESS [0x98, 0x02] 2 False 7 = (0, 8)"
  using nif_classes_served [of "hd (handlers sample_ch)" sample_ch SECURITY_SCHEME_2_ACCESS "[0x98, 0x02]"
      "\<lambda>_ _. PARSE_OK" 2 "\<lambda>_ _ w. w" False 7]
  by (simp add: sample_ch_def in_nif_def supports_frame_at_security_level_def scheme_compare_def scheme_prio_def
      is_in_disabled_list_def)

end
