(* ===== verification/Ext_Header.thy ===== *)
theory Ext_Header
  imports Command_Handler
begin

text \<open>
  The extended header of a Z/IP packet (\<^verbatim>\<open>src/multicast_tlv.c\<close>): a sequence of options, each
  with a type, a length and a value, behind a length byte; the writer adds an option to the header of a
  packet under construction, the parser reads the options of a received packet.  The conversion of the
  encapsulation format option is in \<^verbatim>\<open>src/ZW_udp_server.c\<close>.

  The multicast options exist only in builds for a test (\<^verbatim>\<open>TEST_MULTICAST_TX\<close>) and are left out.
  A packet under construction is the whole buffer, starting at the command class byte.
\<close>

section \<open>The parser\<close>

definition efi_to_shceme :: "u8 \<Rightarrow> u8 \<Rightarrow> security_scheme_t" where
  "efi_to_shceme ext1 ext2 =
     (if ext1 = 0x00 then (if ext2 AND 1 \<noteq> 0 then USE_CRC16 else NO_SCHEME)
      else if ext1 = 0x80 then SECURITY_SCHEME_0
      else if ext1 = 0x01 then SECURITY_SCHEME_2_UNAUTHENTICATED
      else if ext1 = 0x02 then SECURITY_SCHEME_2_AUTHENTICATED
      else if ext1 = 0x04 then SECURITY_SCHEME_2_ACCESS
      else NO_SCHEME)"

datatype return_codes_zip_ext_hdr_t = ZIP_EXT_HDR_SUCCESS | DROP_FRAME | OPT_ERROR

definition INSTALLATION_MAINTENANCE_GET :: u8 where "INSTALLATION_MAINTENANCE_GET = 2"
definition ENCAPSULATION_FORMAT_INFO :: u8 where "ENCAPSULATION_FORMAT_INFO = 4"
definition EXT_ZIP_PACKET_HEADER_LENGTH :: u8 where "EXT_ZIP_PACKET_HEADER_LENGTH = 6"
definition ZIP_EXT_HDR_OPTION_CRITICAL_FLAG :: u8 where "ZIP_EXT_HDR_OPTION_CRITICAL_FLAG = 0x80"
definition ZIP_EXT_HDR_OPTION_TYPE_MASK :: u8 where "ZIP_EXT_HDR_OPTION_TYPE_MASK = 0x7F"
definition ZIP_HEADER_SIZE :: nat where "ZIP_HEADER_SIZE = 7"

text \<open>What the parser sets: \<^verbatim>\<open>cur_send_ima\<close> and \<^verbatim>\<open>zw.scheme\<close>.\<close>

record ext_hdr =
  cur_send_ima :: bool
  zw_scheme :: security_scheme_t

function parse_ext_loop :: "bytes \<Rightarrow> nat \<Rightarrow> nat \<Rightarrow> ext_hdr \<Rightarrow> return_codes_zip_ext_hdr_t \<times> ext_hdr" where
  "parse_ext_loop buf tail tlv st =
     (if tlv < tail then
        (let type = buf ! tlv; len = buf ! (tlv + 1); following = tlv + (unat len + 2)
         in if type AND ZIP_EXT_HDR_OPTION_TYPE_MASK = INSTALLATION_MAINTENANCE_GET then
              parse_ext_loop buf tail following (st \<lparr> cur_send_ima := True \<rparr>)
            else if type AND ZIP_EXT_HDR_OPTION_TYPE_MASK = ENCAPSULATION_FORMAT_INFO then
              (if len < 2 then (OPT_ERROR, st)
               else parse_ext_loop buf tail following
                      (st \<lparr> zw_scheme := efi_to_shceme (buf ! (tlv + 2)) (buf ! (tlv + 3)) \<rparr>))
            else if type AND ZIP_EXT_HDR_OPTION_CRITICAL_FLAG \<noteq> 0 then (OPT_ERROR, st)
            else parse_ext_loop buf tail following st)
      else if tlv \<noteq> tail then (DROP_FRAME, st)
      else (ZIP_EXT_HDR_SUCCESS, st))"
  by pat_completeness auto
termination by (relation "measure (\<lambda>(_, tail, tlv, _). tail - tlv)") auto

text \<open>The last component is the size reported through \<^verbatim>\<open>ext_hdr_size\<close>.\<close>

definition parse_CC_ZIP_EXT_HDR ::
  "bytes \<Rightarrow> u16 \<Rightarrow> security_scheme_t \<Rightarrow> return_codes_zip_ext_hdr_t \<times> ext_hdr \<times> u16" where
  "parse_CC_ZIP_EXT_HDR payload len scheme =
     (case parse_ext_loop payload (unat len) 0 \<lparr> cur_send_ima = False, zw_scheme = scheme \<rparr> of
        (rc, st) \<Rightarrow> (rc, st, len))"

section \<open>The writer\<close>

text \<open>Writing a block of bytes at an offset; \<open>None\<close> when it leaves the buffer.\<close>

definition write_at :: "nat \<Rightarrow> bytes \<Rightarrow> bytes \<Rightarrow> bytes option" where
  "write_at i bs buf =
     (if i + length bs \<le> length buf then Some (take i buf @ bs @ drop (i + length bs) buf) else None)"

text \<open>The size of the header before the option and whether it has the two-byte length option.\<close>

definition ext_size_before :: "bytes \<Rightarrow> u16 \<times> bool" where
  "ext_size_before pkt =
     (if (pkt ! 3) AND 0x80 \<noteq> 0 then
        (if pkt ! 7 = 0xFF \<and> (pkt ! 8) AND ZIP_EXT_HDR_OPTION_TYPE_MASK = EXT_ZIP_PACKET_HEADER_LENGTH
         then (push_bit 8 (ucast (pkt ! 10)) OR ucast (pkt ! 11), True)
         else (ucast (pkt ! 7), False))
      else (0, False))"

text \<open>
  The function works on 16-bit sizes; it returns the number of bytes added, 0 for a refusal.  \<open>None\<close>
  is a write outside the buffer.  The three assertions only print a message.
\<close>

definition option_bytes :: "u8 \<Rightarrow> bytes \<Rightarrow> u8 \<Rightarrow> bytes" where
  "option_bytes opt_type opt_val opt_len_size =
     opt_type # (if opt_len_size = 2 then [ucast (drop_bit 8 (of_nat (length opt_val) :: u16))] else [])
       @ [ucast (of_nat (length opt_val) :: u16)] @ opt_val"

definition length_fields :: "u16 \<Rightarrow> bool \<Rightarrow> bytes \<Rightarrow> (u16 \<times> bytes) option" where
  "length_fields payload_size_after has_length_option pkt =
     (if payload_size_after > 255 then
        (case (if has_length_option then Some (payload_size_after, pkt)
               else map_option (\<lambda>b. (payload_size_after + 4, b))
                      (write_at 12 (take (unat payload_size_after - 1) (drop 8 pkt)) pkt)) of
           None \<Rightarrow> None
         | Some (hlen, pkt) \<Rightarrow>
             map_option (\<lambda>b. (hlen, b))
               (write_at 7 [255, ZIP_EXT_HDR_OPTION_CRITICAL_FLAG OR EXT_ZIP_PACKET_HEADER_LENGTH, 2,
                            ucast (drop_bit 8 hlen), ucast hlen] pkt))
      else map_option (\<lambda>b. (payload_size_after, b)) (write_at 7 [ucast payload_size_after] pkt))"

definition add_ext_header :: "bytes \<Rightarrow> nat \<Rightarrow> u8 \<Rightarrow> bytes \<Rightarrow> u8 \<Rightarrow> (u16 \<times> bytes) option" where
  "add_ext_header pkt bufsize opt_type opt_val opt_len_size =
     (if opt_len_size = 1 \<and> length opt_val > 255 then Some (0, pkt)
      else (let (payload_size_before, has_length_option) = ext_size_before pkt;
                new_option_offset = (if (pkt ! 3) AND 0x80 \<noteq> 0 then payload_size_before else 1);
                payload_size_after = new_option_offset + 1 + ucast opt_len_size + of_nat (length opt_val);
                required_buffer_size = of_nat ZIP_HEADER_SIZE + payload_size_after
                  + (if payload_size_after > 255 \<and> \<not> has_length_option then 4 else 0)
            in if unat required_buffer_size > bufsize then Some (0, pkt)
               else (case write_at (ZIP_HEADER_SIZE + unat new_option_offset)
                            (option_bytes opt_type opt_val opt_len_size) pkt of
                       None \<Rightarrow> None
                     | Some pkt \<Rightarrow>
                         (case length_fields payload_size_after has_length_option pkt of
                            None \<Rightarrow> None
                          | Some (hlen, pkt) \<Rightarrow>
                              Some (hlen - payload_size_before, pkt[3 := (pkt ! 3) OR 0x80])))))"


section \<open>What a header stands for\<close>

type_synonym opt = "u8 \<times> bytes"

definition enc_opt :: "opt \<Rightarrow> bytes" where
  "enc_opt p = fst p # of_nat (length (snd p)) # snd p"

definition enc_opts :: "opt list \<Rightarrow> bytes" where "enc_opts opts = concat (map enc_opt opts)"

definition opt_ok :: "opt \<Rightarrow> bool" where "opt_ok p \<longleftrightarrow> length (snd p) \<le> 255"

text \<open>The meaning of a sequence of options.\<close>

fun parse_opts :: "opt list \<Rightarrow> ext_hdr \<Rightarrow> return_codes_zip_ext_hdr_t \<times> ext_hdr" where
  "parse_opts [] st = (ZIP_EXT_HDR_SUCCESS, st)"
| "parse_opts ((type, v) # opts) st =
     (if type AND ZIP_EXT_HDR_OPTION_TYPE_MASK = INSTALLATION_MAINTENANCE_GET then
        parse_opts opts (st \<lparr> cur_send_ima := True \<rparr>)
      else if type AND ZIP_EXT_HDR_OPTION_TYPE_MASK = ENCAPSULATION_FORMAT_INFO then
        (if length v < 2 then (OPT_ERROR, st)
         else parse_opts opts (st \<lparr> zw_scheme := efi_to_shceme (v ! 0) (v ! 1) \<rparr>))
      else if type AND ZIP_EXT_HDR_OPTION_CRITICAL_FLAG \<noteq> 0 then (OPT_ERROR, st)
      else parse_opts opts st)"

text \<open>
  The same without the order of the parser: which options are acceptable, and what a sequence of them means.  An option that
  is not known must not be marked as critical, and an encapsulation format has two bytes at least.  The request for installation and
  maintenance data is set when any option asks for it, and the last encapsulation format gives the security scheme.
\<close>

definition opt_kind :: "opt \<Rightarrow> u8" where "opt_kind p = fst p AND ZIP_EXT_HDR_OPTION_TYPE_MASK"

definition acceptable :: "opt \<Rightarrow> bool" where
  "acceptable p \<longleftrightarrow> opt_kind p = INSTALLATION_MAINTENANCE_GET \<or> opt_kind p = ENCAPSULATION_FORMAT_INFO \<and> 2 \<le> length (snd p)
     \<or> opt_kind p \<noteq> ENCAPSULATION_FORMAT_INFO \<and> fst p AND ZIP_EXT_HDR_OPTION_CRITICAL_FLAG = 0"

definition hdr_meaning :: "security_scheme_t \<Rightarrow> opt list \<Rightarrow> ext_hdr" where
  "hdr_meaning scheme opts = \<lparr> cur_send_ima = (INSTALLATION_MAINTENANCE_GET \<in> opt_kind ` set opts),
     zw_scheme = (case rev (filter (\<lambda>p. opt_kind p = ENCAPSULATION_FORMAT_INFO) opts) of
                    [] \<Rightarrow> scheme | p # _ \<Rightarrow> efi_to_shceme (snd p ! 0) (snd p ! 1)) \<rparr>"

lemma kinds_differ: "INSTALLATION_MAINTENANCE_GET \<noteq> ENCAPSULATION_FORMAT_INFO"
  by (simp add: INSTALLATION_MAINTENANCE_GET_def ENCAPSULATION_FORMAT_INFO_def)

lemma parse_opts_refused: "\<not> list_all acceptable opts \<Longrightarrow> fst (parse_opts opts st) = OPT_ERROR"
  by (induction opts st rule: parse_opts.induct) (auto simp: acceptable_def opt_kind_def kinds_differ)

lemma parse_opts_accepted:
  "list_all acceptable opts \<Longrightarrow> parse_opts opts st = (ZIP_EXT_HDR_SUCCESS,
     \<lparr> cur_send_ima = (cur_send_ima st \<or> cur_send_ima (hdr_meaning (zw_scheme st) opts)), zw_scheme = zw_scheme (hdr_meaning (zw_scheme st) opts) \<rparr>)"
proof (induction opts arbitrary: st)
  case (Cons p opts)
  let ?f = "rev (filter (\<lambda>p. opt_kind p = ENCAPSULATION_FORMAT_INFO) opts)"
  consider (ima) "opt_kind p = INSTALLATION_MAINTENANCE_GET" | (efi) "opt_kind p = ENCAPSULATION_FORMAT_INFO" "2 \<le> length (snd p)"
    | (other) "opt_kind p \<noteq> INSTALLATION_MAINTENANCE_GET" "opt_kind p \<noteq> ENCAPSULATION_FORMAT_INFO" "fst p AND ZIP_EXT_HDR_OPTION_CRITICAL_FLAG = 0"
    using Cons.prems by (auto simp: acceptable_def)
  then show ?case
  proof cases
    case ima
    then show ?thesis using Cons kinds_differ by (cases p; cases ?f) (simp_all add: opt_kind_def hdr_meaning_def)
  next
    case efi
    then show ?thesis using Cons kinds_differ [symmetric] by (cases p; cases ?f) (simp_all add: opt_kind_def hdr_meaning_def)
  next
    case other
    then show ?thesis using Cons by (cases p) (auto simp: opt_kind_def hdr_meaning_def)
  qed
qed (simp add: hdr_meaning_def)

lemma parse_opts_meaning:
  "list_all acceptable opts \<Longrightarrow> parse_opts opts \<lparr> cur_send_ima = False, zw_scheme = scheme \<rparr> = (ZIP_EXT_HDR_SUCCESS, hdr_meaning scheme opts)"
  by (simp add: parse_opts_accepted)

declare parse_ext_loop.simps [simp del]

lemma length_enc_opt [simp]: "length (enc_opt p) = 2 + length (snd p)"
  by (simp add: enc_opt_def)

lemma enc_opts_simps [simp]:
  "enc_opts [] = []" "enc_opts (p # ps) = enc_opt p @ enc_opts ps" "enc_opts (ps @ qs) = enc_opts ps @ enc_opts qs"
  by (simp_all add: enc_opts_def)

lemma unat_len: "length v \<le> 255 \<Longrightarrow> unat (of_nat (length v) :: u8) = length v"
  by (simp add: unat_of_nat take_bit_nat_eq_self)

lemma len_lt_2: "length v \<le> 255 \<Longrightarrow> (of_nat (length v) :: u8) < 2 \<longleftrightarrow> length v < 2"
  by (simp add: word_less_nat_alt unat_len del: unsigned_of_nat)

lemma parse_ext_loop_opts:
  assumes "list_all opt_ok opts" and "tail = length pre + length (enc_opts opts)"
  shows "parse_ext_loop (pre @ enc_opts opts @ post) tail (length pre) st = parse_opts opts st"
  using assms
proof (induction opts arbitrary: pre st)
  case Nil
  then show ?case by (simp add: parse_ext_loop.simps)
next
  case (Cons p opts)
  obtain type v where p: "p = (type, v)" by (cases p)
  let ?buf = "pre @ enc_opts (p # opts) @ post"
  have len: "length v \<le> 255" using Cons.prems(1) p by (simp add: opt_ok_def)
  have rd: "?buf ! length pre = type" "?buf ! Suc (length pre) = of_nat (length v)"
    by (simp_all add: p enc_opt_def nth_append)
  have vals: "?buf ! (length pre + 2) = v ! 0" "?buf ! (length pre + 3) = v ! 1" if "2 \<le> length v"
    using that by (auto simp: p enc_opt_def nth_append)
  have IH: "parse_ext_loop ?buf tail (length pre + (length v + 2)) st = parse_opts opts st" for st
    using Cons.IH [of "pre @ enc_opt p" st] Cons.prems p by (simp add: add.assoc)
  have lt: "length pre < tail" using Cons.prems(2) p by simp
  show ?case
    unfolding parse_ext_loop.simps [of ?buf tail "length pre" st]
    using lt rd vals IH len by (auto simp: p Let_def unat_len len_lt_2 not_less simp del: unsigned_of_nat)
qed

lemma parse_ext_loop_beyond: "tail < tlv \<Longrightarrow> parse_ext_loop buf tail tlv st = (DROP_FRAME, st)"
  by (simp add: parse_ext_loop.simps)

text \<open>Conversely, an accepted header is a sequence of options.\<close>

lemma parse_ext_loop_success:
  assumes "parse_ext_loop buf tail tlv st = (ZIP_EXT_HDR_SUCCESS, st')" and "tail \<le> length buf" and "tlv \<le> tail"
  shows "\<exists>opts. list_all opt_ok opts \<and> take (tail - tlv) (drop tlv buf) = enc_opts opts"
  using assms
proof (induction buf tail tlv st rule: parse_ext_loop.induct)
  case (1 buf tail tlv st)
  show ?case
  proof (cases "tlv < tail")
    case False
    then show ?thesis using 1 by (intro exI [of _ "[]"]) simp
  next
    case True
    let ?n = "unat (buf ! (tlv + 1))" let ?next = "tlv + (?n + 2)"
    obtain st1 where s: "parse_ext_loop buf tail ?next st1 = (ZIP_EXT_HDR_SUCCESS, st')"
      using "1.prems"(1) True by (simp add: parse_ext_loop.simps [of buf tail tlv st] Let_def split: if_splits)
    have le: "?next \<le> tail"
      using s parse_ext_loop_beyond [of tail ?next buf st1] by (cases "?next \<le> tail") auto
    have "\<exists>opts. list_all opt_ok opts \<and> take (tail - ?next) (drop ?next buf) = enc_opts opts"
      using "1.IH" "1.prems" True le
      by (simp add: parse_ext_loop.simps [of buf tail tlv st] Let_def split: if_splits)
    then obtain opts where o: "list_all opt_ok opts" "take (tail - ?next) (drop ?next buf) = enc_opts opts" by blast
    let ?v = "take ?n (drop (tlv + 2) buf)"
    have v: "length ?v = ?n" using le "1.prems"(2) by simp
    have "take (tail - tlv) (drop tlv buf) = buf ! tlv # buf ! (tlv + 1) # ?v @ take (tail - ?next) (drop ?next buf)"
    proof -
      have "drop tlv buf = buf ! tlv # buf ! (tlv + 1) # drop (tlv + 2) buf"
        using le "1.prems"(2) by (simp add: Cons_nth_drop_Suc)
      moreover have "tail - tlv = Suc (Suc (?n + (tail - ?next)))" using le by simp
      moreover have "take (?n + (tail - ?next)) (drop (tlv + 2) buf) = ?v @ take (tail - ?next) (drop ?next buf)"
        using take_add [of ?n "tail - ?next" "drop (tlv + 2) buf"] by (simp add: add.commute add.left_commute)
      ultimately show ?thesis by (simp only: take_Suc_Cons)
    qed
    moreover have "of_nat (length ?v) = buf ! (tlv + 1)" using v by simp
    moreover have "opt_ok (buf ! tlv, ?v)"
      unfolding opt_ok_def snd_conv v using unat_u8 [of "buf ! (tlv + 1)"] by simp
    ultimately show ?thesis
      using o by (intro exI [of _ "(buf ! tlv, ?v) # opts"]) (simp add: enc_opt_def)
  qed
qed


section \<open>Adding an option\<close>

text \<open>A packet carries the given options, in the form with a one-byte length.\<close>

definition header_opts :: "bytes \<Rightarrow> opt list \<Rightarrow> bool" where
  "header_opts pkt opts \<longleftrightarrow>
     (if (pkt ! 3) AND 0x80 = 0 then opts = []
      else pkt ! 7 = of_nat (1 + length (enc_opts opts)) \<and> 1 + length (enc_opts opts) \<le> 255
           \<and> take (length (enc_opts opts)) (drop 8 pkt) = enc_opts opts)"

lemma write_at_Some:
  "i + length bs \<le> length buf \<Longrightarrow> write_at i bs buf = Some (take i buf @ bs @ drop (i + length bs) buf)"
  by (simp add: write_at_def)

lemma write_at_byte: "i < length buf \<Longrightarrow> write_at i [b] buf = Some (buf[i := b])"
  by (simp add: write_at_def upd_conv_take_nth_drop)

lemma or_80_bit: "(b OR 0x80) AND 0x80 \<noteq> (0 :: u8)"
proof -
  have "bit ((b OR 0x80) AND 0x80) 7" by (simp add: bit_simps)
  then show ?thesis by (metis bit_0_eq bot_apply bot_bool_def)
qed

lemma ucast_of_nat_16: "n < 256 \<Longrightarrow> (ucast (of_nat n :: u8) :: u16) = of_nat n"
  by (rule word_unat_eq_iff [THEN iffD2]) (simp add: unsigned_ucast_eq unat_of_nat take_bit_eq_mod)

lemma ucast_u16_u8: "(ucast (of_nat n :: u16) :: u8) = of_nat n"
  by (rule word_unat_eq_iff [THEN iffD2]) (simp add: unsigned_ucast_eq unat_of_nat take_bit_eq_mod mod_mod_cancel)

lemma unat_u8_max: "unat (0xFF :: u8) = 255" by simp

lemma header_size_before:
  assumes "header_opts pkt opts" and "1 + length (enc_opts opts) < 255" and "(pkt ! 3) AND 0x80 \<noteq> 0"
  shows "ext_size_before pkt = (of_nat (1 + length (enc_opts opts)), False)"
proof -
  let ?n = "1 + length (enc_opts opts)"
  have u: "unat (of_nat ?n :: u8) = ?n" using assms(2) by (simp add: unat_of_nat take_bit_nat_eq_self del: of_nat_add of_nat_Suc)
  have 7: "pkt ! 7 = of_nat ?n" using assms by (simp add: header_opts_def)
  have "pkt ! 7 \<noteq> 0xFF"
  proof
    assume "pkt ! 7 = 0xFF"
    then have "unat (of_nat ?n :: u8) = 255" using 7 by (metis unat_u8_max)
    then show False using u assms(2) by simp
  qed
  moreover have "(ucast (pkt ! 7) :: u16) = of_nat ?n"
    unfolding 7 by (rule ucast_of_nat_16) (use assms(2) in simp)
  ultimately show ?thesis using assms(3) by (simp add: ext_size_before_def)
qed


text \<open>The effect on the bytes of the packet, while the header stays below 256 bytes.\<close>

lemma add_short:
  fixes pkt :: bytes and type :: u8
  assumes hdr: "header_opts pkt opts" and v: "length v \<le> 255"
    and fit: "1 + length (enc_opts opts) + 2 + length v \<le> 255"
    and room: "7 + (1 + length (enc_opts opts) + 2 + length v) \<le> bufsize" "bufsize \<le> length pkt"
  defines "off \<equiv> 1 + length (enc_opts opts)"
  defines "after \<equiv> off + 2 + length v"
  defines "w \<equiv> (take (7 + off) pkt @ enc_opt (type, v) @ drop (7 + after) pkt)[7 := of_nat after]"
  shows "add_ext_header pkt bufsize type v 1 =
    Some (of_nat after - (if (pkt ! 3) AND 0x80 = 0 then 0 else of_nat off), w[3 := (w ! 3) OR 0x80])"
proof -
  have off: "off < 255" and aft: "after \<le> 255" using fit by (auto simp: off_def after_def)
  obtain before where b: "ext_size_before pkt = (before, False)" "before = (if (pkt ! 3) AND 0x80 = 0 then 0 else of_nat off)"
  proof (cases "(pkt ! 3) AND 0x80 = 0")
    case True
    then show ?thesis using that by (simp add: ext_size_before_def)
  next
    case False
    then show ?thesis using that header_size_before [OF hdr _ False] off by (simp add: off_def)
  qed
  have offw: "(if (pkt ! 3) AND 0x80 \<noteq> 0 then before else 1) = (of_nat off :: u16)"
    using b hdr by (auto simp: header_opts_def off_def)
  have aftw: "of_nat off + 1 + ucast (1 :: u8) + of_nat (length v) = (of_nat after :: u16)"
    by (simp add: after_def)
  have ua: "unat (of_nat after :: u16) = after" "unat (of_nat off :: u16) = off"
    using aft off by (simp_all add: unat_of_nat take_bit_nat_eq_self)
  have small: "\<not> (of_nat after :: u16) > 255"
    unfolding word_less_nat_alt ua(1) using aft by simp
  have req: "unat (of_nat ZIP_HEADER_SIZE + of_nat after :: u16) = 7 + after"
  proof -
    have "(of_nat ZIP_HEADER_SIZE + of_nat after :: u16) = of_nat (7 + after)" by (simp add: ZIP_HEADER_SIZE_def)
    then show ?thesis using aft by (simp add: unat_of_nat take_bit_nat_eq_self del: of_nat_add)
  qed
  have ob: "option_bytes type v 1 = enc_opt (type, v)"
    using v by (simp add: option_bytes_def enc_opt_def ucast_u16_u8)
  have wr: "write_at (ZIP_HEADER_SIZE + off) (enc_opt (type, v)) pkt =
      Some (take (7 + off) pkt @ enc_opt (type, v) @ drop (7 + after) pkt)"
    using room by (subst write_at_Some) (auto simp: ZIP_HEADER_SIZE_def off_def after_def)
  have l7: "7 < length (take (7 + off) pkt @ enc_opt (type, v) @ drop (7 + after) pkt)"
    using room by (simp add: off_def)
  have lf: "length_fields (of_nat after) False (take (7 + off) pkt @ enc_opt (type, v) @ drop (7 + after) pkt) =
      Some (of_nat after, w)"
    using small room l7 by (simp add: length_fields_def write_at_byte w_def ucast_u16_u8)
  have rm: "\<not> bufsize < 8" "\<not> 7 + after > bufsize" using room by (auto simp: off_def after_def)
  show ?thesis
    unfolding add_ext_header_def Let_def b(1) prod.case offw aftw
    using small req ob wr lf rm v by (simp add: ua b(2) del: of_nat_add)
qed


text \<open>The packet with the added option carries the old options and the new one.\<close>

lemma add_short_opts:
  fixes pkt :: bytes and type :: u8
  assumes hdr: "header_opts pkt opts" and v: "length v \<le> 255"
    and fit: "1 + length (enc_opts opts) + 2 + length v \<le> 255"
    and room: "7 + (1 + length (enc_opts opts) + 2 + length v) \<le> bufsize" "bufsize \<le> length pkt"
  shows "\<exists>n pkt'. add_ext_header pkt bufsize type v 1 = Some (n, pkt') \<and> length pkt' = length pkt
    \<and> (pkt' ! 3) AND 0x80 \<noteq> 0 \<and> header_opts pkt' (opts @ [(type, v)])
    \<and> n = of_nat (2 + length v) + (if (pkt ! 3) AND 0x80 = 0 then 1 else 0)
    \<and> drop (7 + 1 + length (enc_opts (opts @ [(type, v)]))) pkt' = drop (7 + 1 + length (enc_opts (opts @ [(type, v)]))) pkt"
proof -
  let ?e = "enc_opts opts" let ?off = "1 + length ?e" let ?after = "?off + 2 + length v"
  let ?o = "enc_opt (type, v)"
  define u where "u = take (7 + ?off) pkt @ ?o @ drop (7 + ?after) pkt"
  define w where "w = u[7 := of_nat ?after]"
  define pkt' where "pkt' = w[3 := (w ! 3) OR 0x80]"
  have add: "add_ext_header pkt bufsize type v 1 =
      Some (of_nat ?after - (if (pkt ! 3) AND 0x80 = 0 then 0 else of_nat ?off), pkt')"
    using add_short [OF hdr v fit room, of type] by (simp only: pkt'_def w_def u_def)
  have lu: "length u = length pkt" using room by (simp add: u_def)
  then have len: "length pkt' = length pkt" by (simp add: pkt'_def w_def)
  have l8: "8 < length pkt" using room by simp
  have 3: "(pkt' ! 3) AND 0x80 \<noteq> 0" using or_80_bit l8 lu by (simp add: pkt'_def w_def)
  have 7: "pkt' ! 7 = of_nat ?after" using l8 lu by (simp add: pkt'_def w_def)
  have dr: "drop k pkt' = drop k u" if "8 \<le> k" for k using that by (simp add: pkt'_def w_def)
  have old: "take (length ?e) (drop 8 pkt) = ?e"
    using hdr by (auto simp: header_opts_def split: if_splits)
  have "drop 8 u = take (length ?e) (drop 8 pkt) @ ?o @ drop (7 + ?after) pkt"
    using room by (simp add: u_def drop_take)
  then have d8: "drop 8 pkt' = ?e @ ?o @ drop (7 + ?after) pkt" using dr [of 8] old by simp
  have "header_opts pkt' (opts @ [(type, v)])"
    using 3 7 d8 fit by (simp add: header_opts_def)
  moreover have "drop (7 + ?after) pkt' = drop (7 + ?after) pkt"
  proof -
    have "drop (7 + ?after) pkt' = drop (length (?e @ ?o)) (drop 8 pkt')" by (simp add: add.commute add.left_commute)
    then show ?thesis unfolding d8 by simp
  qed
  moreover have "(pkt ! 3) AND 0x80 = 0 \<Longrightarrow> ?e = []" using hdr by (simp add: header_opts_def)
  ultimately show ?thesis
    using add len 3 by (auto simp: add.commute add.left_commute)
qed

lemma header_parse:
  assumes "header_opts pkt opts" and "(pkt ! 3) AND 0x80 \<noteq> 0" and "list_all opt_ok opts"
  shows "parse_CC_ZIP_EXT_HDR (drop 8 pkt) (ucast (pkt ! 7) - 1) scheme =
    (case parse_opts opts \<lparr> cur_send_ima = False, zw_scheme = scheme \<rparr> of
       (rc, st) \<Rightarrow> (rc, st, of_nat (length (enc_opts opts))))"
proof -
  let ?n = "length (enc_opts opts)"
  have h: "pkt ! 7 = of_nat (1 + ?n)" "1 + ?n \<le> 255" "take ?n (drop 8 pkt) = enc_opts opts"
    using assms(1,2) by (auto simp: header_opts_def)
  have l: "(ucast (pkt ! 7) - 1 :: u16) = of_nat ?n"
    unfolding h(1) using h(2) ucast_of_nat_16 [of "1 + ?n"] by simp
  have u: "unat (of_nat ?n :: u16) = ?n" using h(2) by (simp add: unat_of_nat take_bit_nat_eq_self)
  have "drop 8 pkt = [] @ enc_opts opts @ drop ?n (drop 8 pkt)" using h(3) append_take_drop_id [of ?n "drop 8 pkt"] by simp
  then have "parse_ext_loop (drop 8 pkt) ?n 0 st = parse_opts opts st" for st
    using parse_ext_loop_opts [OF assms(3), of ?n "[]" "drop ?n (drop 8 pkt)" st] by (metis add_0 list.size(3))
  then show ?thesis unfolding l by (simp add: parse_CC_ZIP_EXT_HDR_def u)
qed

section \<open>Properties\<close>

text \<open>
  C28.  An option added to a packet is read back by the parser: after \<^verbatim>\<open>add_ext_header\<close> the header holds the
  options it had and the new one, in order, the bytes behind the header are untouched, and the parser accepts the
  header with the meaning of that sequence of options, or refuses it when one of them is not acceptable.  This is the form with one byte for
  the length of an option, in a header of 255 bytes at most that fits the buffer; a longer header starts with an option that the
  parser itself refuses.
\<close>

theorem ext_header_roundtrip:
  fixes pkt :: bytes and type :: u8
  assumes "header_opts pkt opts" and "list_all opt_ok opts" and "length v \<le> 255"
    and "1 + length (enc_opts opts) + 2 + length v \<le> 255"
    and "7 + (1 + length (enc_opts opts) + 2 + length v) \<le> bufsize" and "bufsize \<le> length pkt"
  shows "\<exists>n pkt'. add_ext_header pkt bufsize type v 1 = Some (n, pkt') \<and> header_opts pkt' (opts @ [(type, v)])
    \<and> drop (8 + length (enc_opts (opts @ [(type, v)]))) pkt' = drop (8 + length (enc_opts (opts @ [(type, v)]))) pkt
    \<and> (if list_all acceptable (opts @ [(type, v)])
       then parse_CC_ZIP_EXT_HDR (drop 8 pkt') (ucast (pkt' ! 7) - 1) scheme =
              (ZIP_EXT_HDR_SUCCESS, hdr_meaning scheme (opts @ [(type, v)]), of_nat (length (enc_opts (opts @ [(type, v)]))))
       else fst (parse_CC_ZIP_EXT_HDR (drop 8 pkt') (ucast (pkt' ! 7) - 1) scheme) = OPT_ERROR)"
proof -
  have ok: "list_all opt_ok (opts @ [(type, v)])" using assms(2,3) by (simp add: opt_ok_def)
  obtain n pkt' where p: "add_ext_header pkt bufsize type v 1 = Some (n, pkt')" "(pkt' ! 3) AND 0x80 \<noteq> 0"
      "header_opts pkt' (opts @ [(type, v)])"
      "drop (7 + 1 + length (enc_opts (opts @ [(type, v)]))) pkt' = drop (7 + 1 + length (enc_opts (opts @ [(type, v)]))) pkt"
    using add_short_opts [OF assms(1,3,4,5,6), of type] by blast
  have "fst (case x of (rc, st) \<Rightarrow> (rc, st, n)) = fst x" for x :: "return_codes_zip_ext_hdr_t \<times> ext_hdr" and n :: u16 by (cases x) simp
  then show ?thesis
    using p header_parse [OF p(3,2) ok, of scheme] parse_opts_meaning [of "opts @ [(type, v)]" scheme]
      parse_opts_refused [of "opts @ [(type, v)]" "\<lparr> cur_send_ima = False, zw_scheme = scheme \<rparr>"]
    by (intro exI [of _ n] exI [of _ pkt']) (simp del: list_all_append parse_opts.simps)
qed

theorem ext_header_roundtrip_witness:
  "\<exists>n pkt'. add_ext_header (replicate 40 0) 40 ENCAPSULATION_FORMAT_INFO [0x80, 0] 1 = Some (n, pkt')
    \<and> parse_CC_ZIP_EXT_HDR (drop 8 pkt') (ucast (pkt' ! 7) - 1) NO_SCHEME =
        (ZIP_EXT_HDR_SUCCESS, \<lparr> cur_send_ima = False, zw_scheme = SECURITY_SCHEME_0 \<rparr>, 4)"
proof -
  have "opt_kind (ENCAPSULATION_FORMAT_INFO, v) = ENCAPSULATION_FORMAT_INFO" for v
    by (simp add: opt_kind_def ENCAPSULATION_FORMAT_INFO_def ZIP_EXT_HDR_OPTION_TYPE_MASK_def)
  then have "acceptable (ENCAPSULATION_FORMAT_INFO, [0x80, 0])"
      "hdr_meaning NO_SCHEME [(ENCAPSULATION_FORMAT_INFO, [0x80, 0])] = \<lparr> cur_send_ima = False, zw_scheme = SECURITY_SCHEME_0 \<rparr>"
    using kinds_differ by (simp_all add: acceptable_def hdr_meaning_def efi_to_shceme_def)
  moreover have "header_opts (replicate 40 0) []" by (simp add: header_opts_def)
  ultimately show ?thesis
    using ext_header_roundtrip [of "replicate 40 0" "[]" "[0x80, 0]" 40 ENCAPSULATION_FORMAT_INFO NO_SCHEME] by auto
qed

text \<open>
  C35.  The parser accepts exactly the headers that are sequences of complete options without an unknown critical
  one and without an encapsulation format of fewer than two bytes, and what it stores is the meaning of the sequence: whether any option asks for
  installation and maintenance data, and the security scheme of the last encapsulation format, or the scheme it had.  The parser always ends.
\<close>

theorem ext_header_accepted_iff:
  assumes "unat len \<le> length payload"
  shows "parse_CC_ZIP_EXT_HDR payload len scheme = (ZIP_EXT_HDR_SUCCESS, st, n) \<longleftrightarrow>
    (\<exists>opts. list_all opt_ok opts \<and> take (unat len) payload = enc_opts opts \<and> list_all acceptable opts
      \<and> st = hdr_meaning scheme opts \<and> n = len)"
proof -
  let ?s = "\<lparr> cur_send_ima = False, zw_scheme = scheme \<rparr>"
  have eq: "parse_ext_loop payload (unat len) 0 ?s = parse_opts opts ?s"
    if "list_all opt_ok opts" "take (unat len) payload = enc_opts opts" for opts
  proof -
    have "length (enc_opts opts) = unat len" using that(2) assms by (metis length_take min.absorb2)
    moreover have "payload = [] @ enc_opts opts @ drop (unat len) payload"
      using that(2) append_take_drop_id [of "unat len" payload] by simp
    ultimately show ?thesis
      using parse_ext_loop_opts [OF that(1), of "unat len" "[]" "drop (unat len) payload" ?s] by (metis add_0 list.size(3))
  qed
  have f: "parse_CC_ZIP_EXT_HDR payload len scheme = (ZIP_EXT_HDR_SUCCESS, st, n) \<longleftrightarrow>
      parse_ext_loop payload (unat len) 0 ?s = (ZIP_EXT_HDR_SUCCESS, st) \<and> n = len"
    by (auto simp: parse_CC_ZIP_EXT_HDR_def split: prod.splits)
  show ?thesis
  proof
    assume "parse_CC_ZIP_EXT_HDR payload len scheme = (ZIP_EXT_HDR_SUCCESS, st, n)"
    then have s: "parse_ext_loop payload (unat len) 0 ?s = (ZIP_EXT_HDR_SUCCESS, st)" and n: "n = len" using f by blast+
    then obtain opts where o: "list_all opt_ok opts" "take (unat len) payload = enc_opts opts"
      using parse_ext_loop_success [OF s] assms by auto
    have p: "parse_opts opts ?s = (ZIP_EXT_HDR_SUCCESS, st)" using eq [OF o] s by simp
    then have a: "list_all acceptable opts" using parse_opts_refused [of opts ?s] by force
    then show "\<exists>opts. list_all opt_ok opts \<and> take (unat len) payload = enc_opts opts \<and> list_all acceptable opts
        \<and> st = hdr_meaning scheme opts \<and> n = len"
      using o p n parse_opts_meaning [OF a, of scheme] by (intro exI [of _ opts]) simp
  next
    assume "\<exists>opts. list_all opt_ok opts \<and> take (unat len) payload = enc_opts opts \<and> list_all acceptable opts
        \<and> st = hdr_meaning scheme opts \<and> n = len"
    then show "parse_CC_ZIP_EXT_HDR payload len scheme = (ZIP_EXT_HDR_SUCCESS, st, n)"
      using f eq parse_opts_meaning by metis
  qed
qed

theorem ext_header_accepted_iff_witness:
  "parse_CC_ZIP_EXT_HDR [2, 0, 9] 2 NO_SCHEME = (ZIP_EXT_HDR_SUCCESS, \<lparr> cur_send_ima = True, zw_scheme = NO_SCHEME \<rparr>, 2)"
proof -
  have "list_all opt_ok [(2, [])]" "take (unat (2 :: u16)) [2, 0, 9] = enc_opts [(2, [])]"
    by (simp_all add: opt_ok_def enc_opts_def enc_opt_def)
  moreover have "opt_kind (2, []) = INSTALLATION_MAINTENANCE_GET"
    by (simp add: opt_kind_def INSTALLATION_MAINTENANCE_GET_def ZIP_EXT_HDR_OPTION_TYPE_MASK_def)
  then have "list_all acceptable [(2, [])]" "\<lparr> cur_send_ima = True, zw_scheme = NO_SCHEME \<rparr> = hdr_meaning NO_SCHEME [(2, [])]"
    using kinds_differ by (simp_all add: acceptable_def hdr_meaning_def)
  ultimately show ?thesis
    using ext_header_accepted_iff [of 2 "[2, 0, 9]" NO_SCHEME "\<lparr> cur_send_ima = True, zw_scheme = NO_SCHEME \<rparr>" 2] by fastforce
qed

end
