(* ===== verification/Node_Address.thy ===== *)
theory Node_Address
  imports Zgw_Prelude
begin

text \<open>
  Addresses of Z-Wave nodes: the IPv6 and MAC addresses of a node
  (\<^verbatim>\<open>src/zip_router_ipv6_utils.c\<close>) and the table that gives every node an IPv4 address
  (\<^verbatim>\<open>src/ipv46_nat.c\<close>).

  An IPv6 address is its sixteen bytes.  An IPv4 address is its two 16-bit halves as the code reads them
  from memory; only bitwise operations are done on them, so the byte order does not matter, and
  the little-endian one is used to read an IPv4 address out of an IPv6 address.  The address list of the
  IPv6 stack is a parameter (\<open>is_my_addr\<close>).
\<close>

unbundle bit_operations_syntax

section \<open>The code\<close>

type_synonym ipv4 = "u16 \<times> u16"

record nat_table_entry =
  entry_node :: nodeid
  ip_suffix :: u16

definition MAX_NAT_ENTRIES :: nat where "MAX_NAT_ENTRIES = 1000"

record addr_cfg =
  MyNodeID :: nodeid
  homeID :: u32
  lan_addr :: bytes
  pan_prefix :: bytes
  uip_lladdr :: bytes
  uip_hostaddr :: ipv4
  uip_netmask :: ipv4
  is_my_addr :: "bytes \<Rightarrow> bool"

datatype nat_effect = Dhcp_release nat_table_entry | Dhcp_check_for_new_sessions

record nat_state =
  nat_table :: "nat_table_entry list"
  nat_table_size :: u16
  nat_log :: "nat_effect list"

text \<open>The entries the loops \<^verbatim>\<open>for(i = 0; i < nat_table_size; i++)\<close> visit.\<close>

definition nat_entries :: "nat_state \<Rightarrow> nat_table_entry list" where
  "nat_entries s = take (unat (nat_table_size s)) (nat_table s)"

definition uip_ipaddr_maskcmp :: "ipv4 \<Rightarrow> ipv4 \<Rightarrow> ipv4 \<Rightarrow> bool" where
  "uip_ipaddr_maskcmp a b m \<longleftrightarrow> fst a AND fst m = fst b AND fst m \<and> snd a AND snd m = snd b AND snd m"

definition ipv46nat_get_nat_addr :: "addr_cfg \<Rightarrow> ipv4 \<Rightarrow> nat_state \<Rightarrow> nodeid" where
  "ipv46nat_get_nat_addr cf ip s =
     (if uip_ipaddr_maskcmp ip (uip_hostaddr cf) (uip_netmask cf) then
        (case find (\<lambda>e. ip_suffix e = snd ip AND NOT (snd (uip_netmask cf))) (nat_entries s) of
           None \<Rightarrow> 0 | Some e \<Rightarrow> entry_node e)
      else 0)"

text \<open>The result type is \<^verbatim>\<open>u8_t\<close>: the size of the table is cut to eight bits.\<close>

definition ipv46nat_add_entry :: "addr_cfg \<Rightarrow> nodeid \<Rightarrow> nat_state \<Rightarrow> u8 \<times> nat_state" where
  "ipv46nat_add_entry cf node s =
     (if unat (nat_table_size s) \<ge> MAX_NAT_ENTRIES then (0, s)
      else if list_ex (\<lambda>e. entry_node e = node) (nat_entries s) then (ucast (nat_table_size s), s)
      else (let e = \<lparr> entry_node = node,
                      ip_suffix = (if node = MyNodeID cf then snd (uip_hostaddr cf) AND NOT (snd (uip_netmask cf)) else 0) \<rparr>;
                s = s \<lparr> nat_table := (nat_table s)[unat (nat_table_size s) := e],
                        nat_table_size := nat_table_size s + 1,
                        nat_log := nat_log s @ [Dhcp_check_for_new_sessions] \<rparr>
            in (ucast (nat_table_size s), s)))"

text \<open>One pass over the table that moves every entry behind the removed one down.\<close>

function del_loop ::
  "nodeid \<Rightarrow> nat \<Rightarrow> nat \<Rightarrow> bool \<Rightarrow> nat_table_entry list \<Rightarrow> nat_effect list
     \<Rightarrow> bool \<times> nat_table_entry list \<times> nat_effect list" where
  "del_loop node n i removing tab log =
     (if i < n then
        (if removing then del_loop node n (i + 1) True (tab[i - 1 := tab ! i]) log
         else if entry_node (tab ! i) = node then
           del_loop node n (i + 1) True tab (log @ [Dhcp_release (tab ! i)])
         else del_loop node n (i + 1) False tab log)
      else (removing, tab, log))"
  by pat_completeness auto
termination by (relation "measure (\<lambda>(_, n, i, _). n - i)") auto

definition ipv46nat_del_entry :: "addr_cfg \<Rightarrow> nodeid \<Rightarrow> nat_state \<Rightarrow> u8 \<times> nat_state" where
  "ipv46nat_del_entry cf node s =
     (if node = MyNodeID cf then (0, s)
      else (case del_loop node (unat (nat_table_size s)) 0 False (nat_table s) (nat_log s) of
              (removing, tab, log) \<Rightarrow>
                (of_bool removing,
                 s \<lparr> nat_table := tab, nat_table_size := nat_table_size s - of_bool removing, nat_log := log \<rparr>)))"

fun del_all_loop :: "nodeid \<Rightarrow> nat \<Rightarrow> nat \<Rightarrow> nat_table_entry list \<Rightarrow> nat_effect list \<Rightarrow> nat \<times> nat_effect list" where
  "del_all_loop my i my_index [] log = (my_index, log)"
| "del_all_loop my i my_index (e # es) log =
     (if entry_node e = my then del_all_loop my (i + 1) i es log
      else del_all_loop my (i + 1) my_index es (log @ [Dhcp_release e]))"

definition ipv46nat_del_all_nodes :: "addr_cfg \<Rightarrow> nat_state \<Rightarrow> nat_state" where
  "ipv46nat_del_all_nodes cf s =
     (case del_all_loop (MyNodeID cf) 0 0 (nat_entries s) (nat_log s) of
        (my_index, log) \<Rightarrow>
          s \<lparr> nat_table := (nat_table s)[0 := nat_table s ! my_index], nat_table_size := 1, nat_log := log \<rparr>)"

definition ipv46nat_init :: "nat_state \<Rightarrow> nat_state" where "ipv46nat_init s = s \<lparr> nat_table_size := 0 \<rparr>"

definition ipv46nat_ipv4addr_of_entry :: "addr_cfg \<Rightarrow> nat_table_entry \<Rightarrow> ipv4" where
  "ipv46nat_ipv4addr_of_entry cf e =
     (fst (uip_hostaddr cf), (snd (uip_hostaddr cf) AND snd (uip_netmask cf)) OR ip_suffix e)"

definition ipv46nat_ipv4addr_of_node :: "addr_cfg \<Rightarrow> nodeid \<Rightarrow> nat_state \<Rightarrow> ipv4 option" where
  "ipv46nat_ipv4addr_of_node cf node s =
     map_option (ipv46nat_ipv4addr_of_entry cf)
       (find (\<lambda>e. entry_node e = node \<and> ip_suffix e \<noteq> 0) (nat_entries s))"

definition ipv46nat_all_nodes_has_ip :: "nat_state \<Rightarrow> bool" where
  "ipv46nat_all_nodes_has_ip s \<longleftrightarrow> \<not> list_ex (\<lambda>e. ip_suffix e = 0) (nat_entries s)"

definition ipv46nat_rename_node :: "nodeid \<Rightarrow> nodeid \<Rightarrow> nat_state \<Rightarrow> nat_state" where
  "ipv46nat_rename_node old_id new_id s =
     s \<lparr> nat_table := map (\<lambda>e. if entry_node e = old_id then e \<lparr> entry_node := new_id \<rparr> else e) (nat_entries s)
          @ drop (unat (nat_table_size s)) (nat_table s) \<rparr>"

definition ipOfNode :: "addr_cfg \<Rightarrow> nodeid \<Rightarrow> bytes" where
  "ipOfNode cf node =
     (if node = MyNodeID cf then lan_addr cf
      else (pan_prefix cf)[14 := ucast (drop_bit 8 node), 15 := ucast node])"

definition macOfNode :: "addr_cfg \<Rightarrow> nodeid \<Rightarrow> bytes" where
  "macOfNode cf node =
     (if node = MyNodeID cf then uip_lladdr cf
      else [ucast (drop_bit 24 (homeID cf) AND 0xFF), ucast (drop_bit 16 (homeID cf) AND 0xFF),
            ucast (drop_bit 8 (homeID cf) AND 0xFF), ucast (homeID cf AND 0xFF),
            ucast (drop_bit 8 node AND 0xFF), ucast (node AND 0xFF)])"

definition uip_is_4to6_addr :: "bytes \<Rightarrow> bool" where
  "uip_is_4to6_addr ip \<longleftrightarrow> take 12 ip = [0, 0, 0, 0, 0, 0, 0, 0, 0, 0, 0xFF, 0xFF]"

text \<open>The 16-bit half at an offset, as the code reads it.\<close>

definition raw16 :: "bytes \<Rightarrow> nat \<Rightarrow> u16" where
  "raw16 b i = ucast (b ! i) OR push_bit 8 (ucast (b ! (i + 1)))"

definition nodeOfIP :: "addr_cfg \<Rightarrow> nat_state \<Rightarrow> bytes \<Rightarrow> nodeid" where
  "nodeOfIP cf s ip =
     (if take 8 ip = take 8 (pan_prefix cf) then push_bit 8 (ucast (ip ! 14)) OR ucast (ip ! 15)
      else if is_my_addr cf ip then MyNodeID cf
      else if uip_is_4to6_addr ip then ipv46nat_get_nat_addr cf (raw16 ip 12, raw16 ip 14) s
      else 0)"


section \<open>The table of IPv4 addresses\<close>

text \<open>The table holds at most its capacity, and every node once.\<close>

definition nat_inv :: "nat_state \<Rightarrow> bool" where
  "nat_inv s \<longleftrightarrow> length (nat_table s) = MAX_NAT_ENTRIES \<and> unat (nat_table_size s) \<le> MAX_NAT_ENTRIES
     \<and> distinct (map entry_node (nat_entries s))"

definition nat_nodes :: "nat_state \<Rightarrow> nodeid list" where "nat_nodes s = map entry_node (nat_entries s)"

lemma nat_size_succ:
  "unat (nat_table_size s) < MAX_NAT_ENTRIES \<Longrightarrow> unat (nat_table_size s + 1) = unat (nat_table_size s) + 1"
  by (simp add: MAX_NAT_ENTRIES_def unat_word_ariths)

lemma nat_entries_length: "nat_inv s \<Longrightarrow> length (nat_entries s) = unat (nat_table_size s)"
  by (simp add: nat_inv_def nat_entries_def)

definition new_entry :: "addr_cfg \<Rightarrow> nodeid \<Rightarrow> nat_table_entry" where
  "new_entry cf node = \<lparr> entry_node = node,
     ip_suffix = (if node = MyNodeID cf then snd (uip_hostaddr cf) AND NOT (snd (uip_netmask cf)) else 0) \<rparr>"

lemma add_entry_result:
  assumes inv: "nat_inv s"
  obtains t where "ipv46nat_add_entry cf node s = (if length (nat_entries s) = MAX_NAT_ENTRIES then 0 else of_nat (length (nat_entries t)), t)"
    "nat_inv t" "if node \<in> set (nat_nodes s) \<or> length (nat_entries s) = MAX_NAT_ENTRIES then t = s
       else nat_entries t = nat_entries s @ [new_entry cf node] \<and> nat_log t = nat_log s @ [Dhcp_check_for_new_sessions]"
proof (cases "node \<in> set (nat_nodes s) \<or> unat (nat_table_size s) \<ge> MAX_NAT_ENTRIES")
  case True
  have "length (nat_entries s) = unat (nat_table_size s)" "unat (nat_table_size s) \<le> MAX_NAT_ENTRIES"
    using nat_entries_length [OF inv] inv by (simp_all add: nat_inv_def)
  then have "ipv46nat_add_entry cf node s = (if length (nat_entries s) = MAX_NAT_ENTRIES then 0 else of_nat (length (nat_entries s)), s)"
    using True by (auto simp: ipv46nat_add_entry_def nat_nodes_def list_ex_iff)
  then show thesis using True inv \<open>length (nat_entries s) = unat (nat_table_size s)\<close> \<open>unat (nat_table_size s) \<le> MAX_NAT_ENTRIES\<close>
    by (intro that [of s]) auto
next
  case False
  let ?n = "unat (nat_table_size s)"
  define t where "t = snd (ipv46nat_add_entry cf node s)"
  have t: "nat_table t = (nat_table s)[?n := new_entry cf node]" "nat_table_size t = nat_table_size s + 1"
      "nat_log t = nat_log s @ [Dhcp_check_for_new_sessions]" "ipv46nat_add_entry cf node s = (ucast (nat_table_size t), t)"
    using False by (auto simp: t_def ipv46nat_add_entry_def nat_nodes_def list_ex_iff Let_def new_entry_def)
  have sz: "unat (nat_table_size t) = ?n + 1" using False nat_size_succ [of s] t by simp
  have en: "nat_entries t = nat_entries s @ [new_entry cf node]"
    using False inv unfolding nat_entries_def sz t(1) by (simp add: take_Suc_conv_app_nth nat_inv_def)
  then have "nat_inv t" using False inv t(1) sz by (auto simp: nat_inv_def nat_nodes_def new_entry_def)
  moreover have "(ucast (nat_table_size t) :: u8) = of_nat (length (nat_entries t))"
    using nat_entries_length [OF \<open>nat_inv t\<close>] by simp
  moreover have "length (nat_entries s) \<noteq> MAX_NAT_ENTRIES" using False nat_entries_length [OF inv] by simp
  ultimately show thesis using en t(3,4) False by (intro that [of t]) simp_all
qed

text \<open>The pass that moves entries down removes the first entry of the node.\<close>

declare del_loop.simps [simp del]

lemma del_loop_simps:
  "i \<ge> n \<Longrightarrow> del_loop node n i r tab log = (r, tab, log)"
  "i < n \<Longrightarrow> del_loop node n i True tab log = del_loop node n (Suc i) True (tab[i - 1 := tab ! i]) log"
  "i < n \<Longrightarrow> entry_node (tab ! i) = node \<Longrightarrow>
     del_loop node n i False tab log = del_loop node n (Suc i) True tab (log @ [Dhcp_release (tab ! i)])"
  "i < n \<Longrightarrow> entry_node (tab ! i) \<noteq> node \<Longrightarrow>
     del_loop node n i False tab log = del_loop node n (Suc i) False tab log"
  by (simp_all add: del_loop.simps [of node n i])

lemma take_split_nth: "i < n \<Longrightarrow> n \<le> length xs \<Longrightarrow>
    take n xs = take i xs @ xs ! i # take (n - Suc i) (drop (Suc i) xs)"
  by (metis Cons_nth_drop_Suc Suc_diff_Suc add_diff_inverse_nat less_imp_not_less order_less_le_trans take_Suc_Cons take_add)

lemma del_loop_shift:
  assumes "0 < i" and "i \<le> n" and "n \<le> length tab"
  shows "\<exists>tab'. del_loop node n i True tab log = (True, tab', log) \<and> length tab' = length tab
    \<and> take (n - 1) tab' = take (i - 1) tab @ take (n - i) (drop i tab)"
  using assms
proof (induction "n - i" arbitrary: i tab)
  case 0
  then show ?case by (simp add: del_loop_simps(1))
next
  case (Suc k)
  let ?tab = "tab[i - 1 := tab ! i]"
  have i: "i < n" "i < length tab" using Suc.hyps(2) Suc.prems by auto
  have k: "k = n - Suc i" using Suc.hyps(2) by simp
  obtain tab' where t: "del_loop node n (Suc i) True ?tab log = (True, tab', log)" "length tab' = length ?tab"
      "take (n - 1) tab' = take (Suc i - 1) ?tab @ take (n - Suc i) (drop (Suc i) ?tab)"
    using Suc.hyps(1) [of "Suc i" ?tab] k Suc.prems(3) i(1) by auto
  have "take i ?tab = take (i - 1) tab @ [tab ! i]"
    using i Suc.prems(1) take_Suc_conv_app_nth [of "i - 1" ?tab] by simp
  moreover have "take (n - i) (drop i tab) = tab ! i # take (n - Suc i) (drop (Suc i) tab)"
    using i Cons_nth_drop_Suc [of i tab] by (metis Suc_diff_Suc take_Suc_Cons)
  ultimately have "take (n - 1) tab' = take (i - 1) tab @ take (n - i) (drop i tab)" using t(3) Suc.prems(1) by simp
  then show ?case using t(1,2) i by (simp add: del_loop_simps(2))
qed

lemma del_loop_find:
  assumes "i \<le> n" and "n \<le> length tab" and "\<forall>e \<in> set (take i tab). entry_node e \<noteq> node"
  shows "if node \<in> entry_node ` set (take n tab)
    then \<exists>us e vs tab'. take n tab = us @ e # vs \<and> entry_node e = node \<and> node \<notin> entry_node ` set us
         \<and> del_loop node n i False tab log = (True, tab', log @ [Dhcp_release e]) \<and> length tab' = length tab
         \<and> take (n - 1) tab' = us @ vs
    else del_loop node n i False tab log = (False, tab, log)"
  using assms
proof (induction "n - i" arbitrary: i)
  case 0
  then show ?case by (auto simp: del_loop_simps(1))
next
  case (Suc k)
  have i: "i < n" "i < length tab" using Suc.hyps(2) Suc.prems by auto
  have k: "k = n - Suc i" using Suc.hyps(2) by simp
  show ?case
  proof (cases "entry_node (tab ! i) = node")
    case False
    have fresh: "\<forall>e \<in> set (take (Suc i) tab). entry_node e \<noteq> node"
      using Suc.prems(3) False i by (auto simp: take_Suc_conv_app_nth)
    show ?thesis
      using Suc.hyps(1) [OF k Suc_leI [OF i(1)] Suc.prems(2) fresh] unfolding del_loop_simps(4) [OF i(1) False] .
  next
    case True
    let ?log = "log @ [Dhcp_release (tab ! i)]"
    obtain tab' where t: "del_loop node n (Suc i) True tab ?log = (True, tab', ?log)" "length tab' = length tab"
        "take (n - 1) tab' = take i tab @ take (n - Suc i) (drop (Suc i) tab)"
      using del_loop_shift [of "Suc i" n tab node ?log] i Suc.prems(2) by auto
    have split: "take n tab = take i tab @ tab ! i # take (n - Suc i) (drop (Suc i) tab)"
      by (rule take_split_nth [OF i(1) Suc.prems(2)])
    have "node \<in> entry_node ` set (take n tab)" unfolding split using True by auto
    moreover have "node \<notin> entry_node ` set (take i tab)" using Suc.prems(3) by auto
    moreover have "del_loop node n i False tab log = (True, tab', ?log)"
      using t(1) True i(1) by (simp add: del_loop_simps(3))
    ultimately show ?thesis using split t(2,3) True by (metis (no_types, lifting))
  qed
qed

lemma del_entry_result:
  assumes inv: "nat_inv s" and other: "node \<noteq> MyNodeID cf"
  shows "case find (\<lambda>e. entry_node e = node) (nat_entries s) of
      None \<Rightarrow> ipv46nat_del_entry cf node s = (0, s)
    | Some e \<Rightarrow> \<exists>t. ipv46nat_del_entry cf node s = (1, t) \<and> nat_inv t \<and> nat_entries t = remove1 e (nat_entries s)
        \<and> nat_log t = nat_log s @ [Dhcp_release e]"
proof -
  let ?n = "unat (nat_table_size s)"
  have n: "?n \<le> length (nat_table s)" using inv by (simp add: nat_inv_def)
  note f = del_loop_find [of 0 ?n "nat_table s" node "nat_log s", simplified, OF n]
  show ?thesis
  proof (cases "node \<in> entry_node ` set (take ?n (nat_table s))")
    case False
    then have "find (\<lambda>e. entry_node e = node) (nat_entries s) = None" by (auto simp: find_None_iff nat_entries_def)
    then show ?thesis using False f other by (simp add: ipv46nat_del_entry_def)
  next
    case True
    then obtain us e vs tab' where t: "take ?n (nat_table s) = us @ e # vs" "entry_node e = node"
        "node \<notin> entry_node ` set us"
        "del_loop node ?n 0 False (nat_table s) (nat_log s) = (True, tab', nat_log s @ [Dhcp_release e])"
        "length tab' = length (nat_table s)" "take (?n - 1) tab' = us @ vs"
      using f by auto
    define u where "u = s \<lparr> nat_table := tab', nat_table_size := nat_table_size s - 1, nat_log := nat_log s @ [Dhcp_release e] \<rparr>"
    have d: "ipv46nat_del_entry cf node s = (1, u)" using t(4) other by (simp add: ipv46nat_del_entry_def u_def)
    have "0 < ?n" using t(1) by (cases ?n) auto
    then have sz: "unat (nat_table_size s - 1) = ?n - 1" by (simp add: unat_minus_one unat_gt_0)
    have en: "nat_entries u = us @ vs" using t(6) sz by (simp add: u_def nat_entries_def)
    have es: "nat_entries s = us @ e # vs" using t(1) by (simp add: nat_entries_def)
    have "find (\<lambda>e. entry_node e = node) (us @ e # vs) = Some e" using t(2,3) by (induction us) auto
    then have "find (\<lambda>e. entry_node e = node) (nat_entries s) = Some e" by (simp add: es)
    moreover have "remove1 e (nat_entries s) = us @ vs" using t(2,3) es by (auto simp: remove1_append)
    moreover have "nat_inv u"
    proof -
      have "distinct (map entry_node (us @ vs))" using inv es by (simp add: nat_inv_def)
      then show ?thesis using inv t(5) sz en by (auto simp: nat_inv_def u_def)
    qed
    ultimately show ?thesis using d en by (simp add: u_def)
  qed
qed

lemma del_all_loop_log:
  "snd (del_all_loop my i m es log) = log @ map Dhcp_release (filter (\<lambda>e. entry_node e \<noteq> my) es)"
  by (induction my i m es log rule: del_all_loop.induct) auto


lemma del_all_loop_absent:
  "my \<notin> entry_node ` set es \<Longrightarrow> fst (del_all_loop my i m es log) = m"
  by (induction my i m es log rule: del_all_loop.induct) auto

lemma del_all_loop_present:
  "my \<notin> entry_node ` set us \<Longrightarrow> entry_node e = my \<Longrightarrow> my \<notin> entry_node ` set vs \<Longrightarrow>
   fst (del_all_loop my i m (us @ e # vs) log) = i + length us"
  by (induction us arbitrary: i log) (auto simp: del_all_loop_absent)

lemma del_all_result:
  fixes cf s
  assumes inv: "nat_inv s"
  defines "t \<equiv> ipv46nat_del_all_nodes cf s"
  shows "nat_inv t" and "nat_entries t = [case find (\<lambda>e. entry_node e = MyNodeID cf) (nat_entries s) of Some e \<Rightarrow> e | None \<Rightarrow> nat_table s ! 0]"
    and "nat_log t = nat_log s @ map Dhcp_release (filter (\<lambda>x. entry_node x \<noteq> MyNodeID cf) (nat_entries s))"
proof -
  let ?n = "unat (nat_table_size s)" and ?my = "MyNodeID cf"
  let ?l = "del_all_loop ?my 0 0 (nat_entries s) (nat_log s)"
  let ?e = "case find (\<lambda>e. entry_node e = ?my) (nat_entries s) of Some e \<Rightarrow> e | None \<Rightarrow> nat_table s ! 0"
  have len: "length (nat_entries s) = ?n" "length (nat_table s) = MAX_NAT_ENTRIES"
    using nat_entries_length [OF inv] inv by (auto simp: nat_inv_def)
  have e: "nat_table s ! fst ?l = ?e"
  proof (cases "find (\<lambda>e. entry_node e = ?my) (nat_entries s)")
    case None
    then have "?my \<notin> entry_node ` set (nat_entries s)" by (auto simp: find_None_iff)
    then show ?thesis using None by (simp add: del_all_loop_absent)
  next
    case (Some e)
    then have my: "e \<in> set (nat_entries s)" "entry_node e = ?my" by (auto simp: find_Some_iff)
    then obtain us vs where uv: "nat_entries s = us @ e # vs" by (meson split_list)
    have "?my \<notin> entry_node ` set us" "?my \<notin> entry_node ` set vs" using inv my(2) unfolding nat_inv_def uv by auto
    then have idx: "fst ?l = length us" using del_all_loop_present my(2) unfolding uv by simp
    have "length us < ?n" using uv len(1) by simp
    then have "nat_table s ! length us = nat_entries s ! length us" by (simp add: nat_entries_def)
    then show ?thesis using idx Some by (simp add: uv)
  qed
  have t: "nat_table t = (nat_table s)[0 := ?e]" "nat_table_size t = 1" "nat_log t = snd ?l"
    unfolding t_def e [symmetric] by (simp_all add: ipv46nat_del_all_nodes_def split: prod.splits)
  have "nat_table s \<noteq> []" using len(2) by (auto simp: MAX_NAT_ENTRIES_def)
  then show en: "nat_entries t = [?e]" unfolding nat_entries_def t by (cases "nat_table s") simp_all
  show "nat_inv t" using len t by (simp add: nat_inv_def en MAX_NAT_ENTRIES_def)
  show "nat_log t = nat_log s @ map Dhcp_release (filter (\<lambda>x. entry_node x \<noteq> ?my) (nat_entries s))"
    by (simp add: t del_all_loop_log)
qed

lemma rename_result:
  fixes s old_id new_id
  assumes inv: "nat_inv s"
  defines "t \<equiv> ipv46nat_rename_node old_id new_id s"
  shows "nat_entries t = map (\<lambda>e. if entry_node e = old_id then e \<lparr> entry_node := new_id \<rparr> else e) (nat_entries s)"
    and "nat_log t = nat_log s" and "nat_inv t \<longleftrightarrow> \<not> (old_id \<in> set (nat_nodes s) \<and> new_id \<in> set (nat_nodes s) - {old_id})"
proof -
  let ?f = "\<lambda>n. if n = old_id then new_id else n"
  have len: "length (nat_entries s) = unat (nat_table_size s)" by (rule nat_entries_length [OF inv])
  show en: "nat_entries t = map (\<lambda>e. if entry_node e = old_id then e \<lparr> entry_node := new_id \<rparr> else e) (nat_entries s)"
    using len unfolding nat_entries_def [of t] by (simp add: t_def ipv46nat_rename_node_def)
  show "nat_log t = nat_log s" by (simp add: t_def ipv46nat_rename_node_def)
  have nodes: "map entry_node (nat_entries t) = map ?f (nat_nodes s)" by (auto simp: nat_nodes_def en)
  have d: "distinct (nat_nodes s)" using inv by (simp add: nat_inv_def nat_nodes_def)
  have "distinct (map ?f (nat_nodes s)) \<longleftrightarrow> inj_on ?f (set (nat_nodes s))" using d by (simp add: distinct_map)
  also have "\<dots> \<longleftrightarrow> \<not> (old_id \<in> set (nat_nodes s) \<and> new_id \<in> set (nat_nodes s) - {old_id})"
    by (auto simp: inj_on_def split: if_splits)
  finally show "nat_inv t \<longleftrightarrow> \<not> (old_id \<in> set (nat_nodes s) \<and> new_id \<in> set (nat_nodes s) - {old_id})"
    using inv len nodes by (simp add: nat_inv_def t_def ipv46nat_rename_node_def)
qed

lemma find_first_key:
  "distinct (map f (filter P xs)) \<Longrightarrow> e \<in> set xs \<Longrightarrow> (\<And>x. f x = f e \<Longrightarrow> P x) \<Longrightarrow>
   find (\<lambda>x. f x = f e) xs = Some e"
proof (induction xs)
  case (Cons a xs)
  show ?case
  proof (cases "f a = f e")
    case True
    then have "P a" using Cons.prems(3) by blast
    then have "f e \<notin> f ` set (filter P xs)" using Cons.prems(1) True by simp
    then have "e \<notin> set xs" using Cons.prems(3) by auto
    then show ?thesis using Cons.prems(2) True by simp
  next
    case False
    then show ?thesis using Cons by (auto split: if_splits)
  qed
qed simp

section \<open>Properties\<close>

text \<open>
  C27.  The table of IPv4 addresses implements a bounded list of entries for distinct nodes, with every change and every release of an
  address pinned down.  Adding appends an entry for a node that is not there while there is room, without an address except for the gateway itself, and
  has the DHCP client look for new sessions; the result is the number of entries, cut to eight bits, or 0 when the table is full.  Deleting the gateway
  does nothing; deleting another node takes its entry out, keeps the order of the others and releases its address.  Renaming changes the node of
  the entry and nothing else, and the nodes stay distinct unless the new one is already there.  Deleting all
  nodes releases the addresses of all but the gateway and leaves exactly one entry, that of the gateway; when the gateway has none, the
  first entry of the array stays although its address has been released.
\<close>

theorem nat_table_refines:
  assumes inv: "nat_inv s"
  shows "(\<exists>t. ipv46nat_add_entry cf node s = (if length (nat_entries s) = MAX_NAT_ENTRIES then 0 else of_nat (length (nat_entries t)), t) \<and> nat_inv t
       \<and> (if node \<in> set (nat_nodes s) \<or> length (nat_entries s) = MAX_NAT_ENTRIES then t = s
          else nat_entries t = nat_entries s @ [new_entry cf node] \<and> nat_log t = nat_log s @ [Dhcp_check_for_new_sessions]))
    \<and> (if node = MyNodeID cf then ipv46nat_del_entry cf node s = (0, s)
       else case find (\<lambda>e. entry_node e = node) (nat_entries s) of
              None \<Rightarrow> ipv46nat_del_entry cf node s = (0, s)
            | Some e \<Rightarrow> \<exists>t. ipv46nat_del_entry cf node s = (1, t) \<and> nat_inv t \<and> nat_entries t = remove1 e (nat_entries s)
                \<and> nat_log t = nat_log s @ [Dhcp_release e])
    \<and> (let t = ipv46nat_rename_node node new_id s
       in nat_entries t = map (\<lambda>e. if entry_node e = node then e \<lparr> entry_node := new_id \<rparr> else e) (nat_entries s) \<and> nat_log t = nat_log s
          \<and> (nat_inv t \<longleftrightarrow> \<not> (node \<in> set (nat_nodes s) \<and> new_id \<in> set (nat_nodes s) - {node})))
    \<and> (let t = ipv46nat_del_all_nodes cf s
       in nat_inv t \<and> nat_entries t = [case find (\<lambda>e. entry_node e = MyNodeID cf) (nat_entries s) of Some e \<Rightarrow> e | None \<Rightarrow> nat_table s ! 0]
          \<and> nat_log t = nat_log s @ map Dhcp_release (filter (\<lambda>x. entry_node x \<noteq> MyNodeID cf) (nat_entries s)))"
proof -
  obtain t where t: "ipv46nat_add_entry cf node s = (if length (nat_entries s) = MAX_NAT_ENTRIES then 0 else of_nat (length (nat_entries t)), t)" "nat_inv t"
      "if node \<in> set (nat_nodes s) \<or> length (nat_entries s) = MAX_NAT_ENTRIES then t = s
       else nat_entries t = nat_entries s @ [new_entry cf node] \<and> nat_log t = nat_log s @ [Dhcp_check_for_new_sessions]"
    by (rule add_entry_result [OF inv])
  have my: "ipv46nat_del_entry cf (MyNodeID cf) s = (0, s)" by (simp add: ipv46nat_del_entry_def)
  show ?thesis
    using t del_entry_result [OF inv, of node cf] my rename_result [OF inv, of node new_id] del_all_result [OF inv, of cf]
    unfolding Let_def by (intro conjI exI [of _ t]) auto
qed

definition sample_addr :: addr_cfg where
  "sample_addr = \<lparr> MyNodeID = 1, homeID = 0xDEADBEEF, lan_addr = 0xFD # replicate 15 0, pan_prefix = 0xFC # replicate 15 0,
     uip_lladdr = replicate 6 0, uip_hostaddr = (0xA8C0, 0x0A00), uip_netmask = (0xFFFF, 0x00FF),
     is_my_addr = (\<lambda>ip. ip = 0xFD # replicate 15 0) \<rparr>"

definition sample_nat :: nat_state where
  "sample_nat = \<lparr> nat_table = [\<lparr> entry_node = 1, ip_suffix = 0x0A00 \<rparr>, \<lparr> entry_node = 7, ip_suffix = 0x0B00 \<rparr>]
       @ replicate 998 \<lparr> entry_node = 0, ip_suffix = 0 \<rparr>, nat_table_size = 2, nat_log = [] \<rparr>"

lemma sample_nat_entries:
  "nat_entries sample_nat = [\<lparr> entry_node = 1, ip_suffix = 0x0A00 \<rparr>, \<lparr> entry_node = 7, ip_suffix = 0x0B00 \<rparr>]"
  "nat_inv sample_nat"
  by (simp_all add: nat_entries_def sample_nat_def nat_inv_def MAX_NAT_ENTRIES_def)

theorem nat_table_refines_witness:
  "\<exists>t. ipv46nat_del_entry sample_addr 7 sample_nat = (1, t) \<and> nat_entries t = [\<lparr> entry_node = 1, ip_suffix = 0x0A00 \<rparr>]
     \<and> nat_log t = [Dhcp_release \<lparr> entry_node = 7, ip_suffix = 0x0B00 \<rparr>]"
proof -
  have m: "(7 :: nodeid) \<noteq> MyNodeID sample_addr" "nat_log sample_nat = []" by (simp_all add: sample_addr_def sample_nat_def)
  have f: "find (\<lambda>e. entry_node e = 7) (nat_entries sample_nat) = Some \<lparr> entry_node = 7, ip_suffix = 0x0B00 \<rparr>"
      "remove1 \<lparr> entry_node = 7, ip_suffix = 0x0B00 \<rparr> (nat_entries sample_nat) = [\<lparr> entry_node = 1, ip_suffix = 0x0A00 \<rparr>]"
    by (simp_all add: sample_nat_entries)
  have "if 7 = MyNodeID sample_addr then ipv46nat_del_entry sample_addr 7 sample_nat = (0, sample_nat)
      else case find (\<lambda>e. entry_node e = 7) (nat_entries sample_nat) of
             None \<Rightarrow> ipv46nat_del_entry sample_addr 7 sample_nat = (0, sample_nat)
           | Some e \<Rightarrow> \<exists>t. ipv46nat_del_entry sample_addr 7 sample_nat = (1, t) \<and> nat_inv t \<and> nat_entries t = remove1 e (nat_entries sample_nat)
               \<and> nat_log t = nat_log sample_nat @ [Dhcp_release e]"
    by (rule nat_table_refines [OF sample_nat_entries(2), where cf = sample_addr and node = 7, THEN conjunct2, THEN conjunct1])
  then show ?thesis unfolding f if_not_P [OF m(1)] option.case m(2) by auto
qed

text \<open>
  The IPv4 address that is announced for a node leads back to that node, when the addresses in the table
  are distinct and lie in the host part of the network.
\<close>

theorem nat_ipv4_roundtrip:
  assumes "ipv46nat_ipv4addr_of_node cf node s = Some ip"
    and "distinct (map ip_suffix (filter (\<lambda>e. ip_suffix e \<noteq> 0) (nat_entries s)))"
    and "\<forall>e \<in> set (nat_entries s). ip_suffix e AND snd (uip_netmask cf) = 0"
  shows "ipv46nat_get_nat_addr cf ip s = node"
proof -
  obtain e where e: "find (\<lambda>e. entry_node e = node \<and> ip_suffix e \<noteq> 0) (nat_entries s) = Some e"
      "ip = ipv46nat_ipv4addr_of_entry cf e"
    using assms(1) by (auto simp: ipv46nat_ipv4addr_of_node_def)
  have en: "e \<in> set (nat_entries s)" "entry_node e = node" "ip_suffix e \<noteq> 0"
    using e(1) by (auto simp: find_Some_iff)
  have z: "ip_suffix e AND snd (uip_netmask cf) = 0" using assms(3) en(1) by blast
  have host: "snd ip AND NOT (snd (uip_netmask cf)) = ip_suffix e"
    using z by (simp add: e(2) ipv46nat_ipv4addr_of_entry_def bit_eq_iff bit_simps) blast
  have net: "uip_ipaddr_maskcmp ip (uip_hostaddr cf) (uip_netmask cf)"
    using z by (simp add: e(2) ipv46nat_ipv4addr_of_entry_def uip_ipaddr_maskcmp_def bit_eq_iff bit_simps) blast
  have "find (\<lambda>x. ip_suffix x = ip_suffix e) (nat_entries s) = Some e"
    using assms(2) en(1,3) by (intro find_first_key [where P = "\<lambda>e. ip_suffix e \<noteq> 0"]) auto
  then show ?thesis using host net en(2) by (simp add: ipv46nat_get_nat_addr_def)
qed


theorem nat_ipv4_roundtrip_witness:
  "ipv46nat_get_nat_addr sample_addr (0xA8C0, 0x0B00) sample_nat = 7"
  using nat_ipv4_roundtrip [of sample_addr 7 sample_nat "(0xA8C0, 0x0B00)"]
  by (simp add: ipv46nat_ipv4addr_of_node_def ipv46nat_ipv4addr_of_entry_def sample_nat_entries sample_addr_def)

text \<open>Halves of a node number.\<close>

lemma ucast_bytes_u16: "push_bit 8 (ucast (ucast (drop_bit 8 n) :: u8)) OR ucast (ucast n :: u8) = (n :: u16)"
  by (rule bit_eqI) (auto simp: bit_simps)

lemma split_bytes_u16:
  "(ucast (drop_bit 8 (m :: u16)) :: u8) = ucast (drop_bit 8 n) \<Longrightarrow> (ucast m :: u8) = ucast n \<Longrightarrow> m = n"
  by (metis ucast_bytes_u16)

lemma ucast_low_byte: "(ucast (x AND 0xFF) :: u8) = ucast (x :: u16)"
proof -
  have "x AND 0xFF = take_bit 8 x" by (simp add: take_bit_eq_mask mask_eq_exp_minus_1)
  then show ?thesis by (simp add: unsigned_take_bit_eq take_bit_word_eq_self)
qed

lemma macOfNode_inj: "m \<noteq> MyNodeID cf \<Longrightarrow> n \<noteq> MyNodeID cf \<Longrightarrow> macOfNode cf m = macOfNode cf n \<Longrightarrow> m = n"
  by (rule split_bytes_u16) (auto simp: macOfNode_def ucast_low_byte)

text \<open>
  The IPv6 address of a node leads back to the node, for the gateway as well when its own address is known to
  the IPv6 stack and lies outside the prefix of the Z-Wave network; and two nodes other than the gateway have
  different MAC addresses.
\<close>

theorem node_ipv6_roundtrip:
  assumes "length (pan_prefix cf) = 16" and "is_my_addr cf (lan_addr cf)" and "take 8 (lan_addr cf) \<noteq> take 8 (pan_prefix cf)"
  shows "nodeOfIP cf s (ipOfNode cf node) = node
    \<and> (m \<noteq> MyNodeID cf \<longrightarrow> node \<noteq> MyNodeID cf \<longrightarrow> macOfNode cf m = macOfNode cf node \<longrightarrow> m = node)"
proof (cases "node = MyNodeID cf")
  case False
  have "take 8 ((pan_prefix cf)[14 := x, 15 := y]) = take 8 (pan_prefix cf)" for x y by simp
  then show ?thesis
    using False assms(1) ucast_bytes_u16 [of node] macOfNode_inj by (simp add: nodeOfIP_def ipOfNode_def)
qed (use assms in \<open>simp add: nodeOfIP_def ipOfNode_def\<close>)

theorem node_ipv6_roundtrip_witness: "nodeOfIP sample_addr sample_nat (ipOfNode sample_addr 0x0102) = 0x0102"
  using node_ipv6_roundtrip [of sample_addr sample_nat "0x0102"] by (simp add: sample_addr_def)

text \<open>
  The result of adding an entry is the size of the table cut to eight bits: the 256th node is added but
  reported as a failure.
\<close>

theorem nat_add_256_reports_failure:
  assumes "nat_inv s" and "nat_table_size s = 255" and "node \<notin> set (nat_nodes s)"
  shows "\<exists>t. ipv46nat_add_entry cf node s = (0, t) \<and> nat_nodes t = nat_nodes s @ [node]"
proof -
  have "length (nat_nodes s) = 255" using nat_entries_length [OF assms(1)] assms(2) by (simp add: nat_nodes_def)
  then have le: "length (nat_entries s) \<noteq> MAX_NAT_ENTRIES" by (simp add: nat_nodes_def MAX_NAT_ENTRIES_def)
  obtain t where t: "ipv46nat_add_entry cf node s = (if length (nat_entries s) = MAX_NAT_ENTRIES then 0 else of_nat (length (nat_entries t)), t)"
      "if node \<in> set (nat_nodes s) \<or> length (nat_entries s) = MAX_NAT_ENTRIES then t = s
       else nat_entries t = nat_entries s @ [new_entry cf node] \<and> nat_log t = nat_log s @ [Dhcp_check_for_new_sessions]"
    by (rule add_entry_result [OF assms(1)])
  have "nat_entries t = nat_entries s @ [new_entry cf node]" using t(2) assms(3) le by simp
  then have "nat_nodes (snd (ipv46nat_add_entry cf node s)) = nat_nodes s @ [node]" using t(1) by (simp add: nat_nodes_def new_entry_def)
  moreover have "fst (ipv46nat_add_entry cf node s) = 0"
    using assms(2,3) by (simp add: ipv46nat_add_entry_def MAX_NAT_ENTRIES_def nat_nodes_def list_ex_iff Let_def image_iff)
      (metis)
  ultimately show ?thesis by (metis prod.collapse)
qed

definition full_nat :: nat_state where
  "full_nat = \<lparr> nat_table = map (\<lambda>i. \<lparr> entry_node = of_nat i, ip_suffix = 0 \<rparr>) [0..<1000], nat_table_size = 255, nat_log = [] \<rparr>"

lemma inj_on_of_nat_u16: "inj_on (of_nat :: nat \<Rightarrow> u16) {..<65536}"
proof (rule inj_onI)
  fix i j :: nat assume ij: "i \<in> {..<65536}" "j \<in> {..<65536}" "(of_nat i :: u16) = of_nat j"
  have "unat (of_nat i :: u16) = i" "unat (of_nat j :: u16) = j"
    using ij(1,2) by (simp_all add: unat_of_nat take_bit_nat_eq_self)
  then show "i = j" using ij(3) by metis
qed

lemma full_nat_nodes: "nat_nodes full_nat = map of_nat [0..<255]" "nat_inv full_nat"
proof -
  have "take 255 [0..<1000] = [0..<255]" by (simp add: take_upt)
  then show n: "nat_nodes full_nat = map of_nat [0..<255]"
    by (simp add: nat_nodes_def nat_entries_def full_nat_def take_map)
  have "inj_on (of_nat :: nat \<Rightarrow> u16) {0..<255}"
    by (rule inj_on_subset [OF inj_on_of_nat_u16]) auto
  then show "nat_inv full_nat"
    using n by (simp add: nat_inv_def full_nat_def nat_nodes_def distinct_map MAX_NAT_ENTRIES_def)
qed

theorem nat_add_256_reports_failure_witness: "fst (ipv46nat_add_entry sample_addr 300 full_nat) = 0"
proof -
  have "(of_nat i :: u16) \<noteq> 300" if "i < 255" for i
  proof
    assume "(of_nat i :: u16) = 300"
    then have "unat (of_nat i :: u16) = 300" by simp
    then show False using that by (simp add: unat_of_nat take_bit_nat_eq_self del: unsigned_of_nat)
  qed
  then have "(300 :: u16) \<notin> set (nat_nodes full_nat)" by (auto simp: full_nat_nodes(1))
  then show ?thesis
    using nat_add_256_reports_failure [OF full_nat_nodes(2), of 300 sample_addr] by (auto simp: full_nat_def)
qed

end
