(* ===== verification/Contiki_Mem.thy ===== *)
theory Contiki_Mem
  imports Zgw_Prelude
begin

text \<open>
  The two Contiki library modules the gateway's queues are built on: linked lists
  (\<^verbatim>\<open>contiki/core/lib/list.c\<close>) and pools of equal blocks (\<^verbatim>\<open>contiki/core/lib/memb.c\<close>).

  Addresses are natural numbers and 0 is the null pointer; \<open>nxt\<close> gives the \<^verbatim>\<open>next\<close> field of
  every address.  The loops of the list module follow these pointers and end only on
  well-formed lists, so they are partial functions: \<open>None\<close> means that the loop does not end.
\<close>

section \<open>Linked lists: the code\<close>

type_synonym addr = nat
type_synonym links = "addr \<Rightarrow> addr"

definition list_head :: "addr \<Rightarrow> addr" where "list_head l = l"

partial_function (option) list_tail_loop :: "links \<Rightarrow> addr \<Rightarrow> addr option" where
  "list_tail_loop nxt l = (if nxt l \<noteq> 0 then list_tail_loop nxt (nxt l) else Some l)"

definition list_tail :: "links \<Rightarrow> addr \<Rightarrow> addr option" where
  "list_tail nxt list = (if list = 0 then Some 0 else list_tail_loop nxt list)"

partial_function (option) list_remove_loop ::
  "addr \<Rightarrow> addr \<Rightarrow> addr \<Rightarrow> addr \<Rightarrow> links \<Rightarrow> (addr \<times> links) option" where
  "list_remove_loop item list r l nxt =
     (if l = 0 then Some (list, nxt)
      else if l = item then
        (if r = 0 then Some (nxt l, nxt(l := 0))
         else Some (list, (nxt(r := nxt l))(l := 0)))
      else list_remove_loop item list l (nxt l) nxt)"

definition list_remove :: "addr \<Rightarrow> addr \<Rightarrow> links \<Rightarrow> (addr \<times> links) option" where
  "list_remove list item nxt =
     (if list = 0 then Some (list, nxt) else list_remove_loop item list 0 list nxt)"

definition list_add :: "addr \<Rightarrow> addr \<Rightarrow> links \<Rightarrow> (addr \<times> links) option" where
  "list_add list item nxt =
     (case list_remove list item nxt of
        None \<Rightarrow> None
      | Some (list, nxt) \<Rightarrow>
          (let nxt = nxt(item := 0)
           in (case list_tail nxt list of
                 None \<Rightarrow> None
               | Some l \<Rightarrow> if l = 0 then Some (item, nxt) else Some (list, nxt(l := item)))))"

definition list_push :: "addr \<Rightarrow> addr \<Rightarrow> links \<Rightarrow> (addr \<times> links) option" where
  "list_push list item nxt =
     (case list_remove list item nxt of
        None \<Rightarrow> None
      | Some (list, nxt) \<Rightarrow> Some (item, nxt(item := list)))"

definition list_pop :: "addr \<Rightarrow> links \<Rightarrow> addr \<times> addr" where
  "list_pop list nxt = (list, if list \<noteq> 0 then nxt list else list)"

partial_function (option) list_chop_loop :: "links \<Rightarrow> addr \<Rightarrow> addr option" where
  "list_chop_loop nxt l = (if nxt (nxt l) \<noteq> 0 then list_chop_loop nxt (nxt l) else Some l)"

definition list_chop :: "addr \<Rightarrow> links \<Rightarrow> (addr \<times> addr \<times> links) option" where
  "list_chop list nxt =
     (if list = 0 then Some (0, list, nxt)
      else if nxt list = 0 then Some (list, 0, nxt)
      else (case list_chop_loop nxt list of
              None \<Rightarrow> None
            | Some l \<Rightarrow> Some (nxt l, list, nxt(l := 0))))"

partial_function (option) list_length_loop :: "links \<Rightarrow> addr \<Rightarrow> nat \<Rightarrow> nat option" where
  "list_length_loop nxt l n = (if l \<noteq> 0 then list_length_loop nxt (nxt l) (n + 1) else Some n)"

definition list_length :: "addr \<Rightarrow> links \<Rightarrow> nat option" where
  "list_length list nxt = list_length_loop nxt list 0"

definition list_item_next :: "links \<Rightarrow> addr \<Rightarrow> addr" where
  "list_item_next nxt item = (if item = 0 then 0 else nxt item)"

partial_function (option) list_contains_loop :: "links \<Rightarrow> addr \<Rightarrow> addr \<Rightarrow> bool option" where
  "list_contains_loop nxt item l =
     (if l \<noteq> 0 then if l = item then Some True else list_contains_loop nxt item (nxt l)
      else Some False)"

definition list_contains :: "addr \<Rightarrow> addr \<Rightarrow> links \<Rightarrow> bool option" where
  "list_contains list item nxt = list_contains_loop nxt item list"

definition list_insert_after :: "addr \<Rightarrow> addr \<Rightarrow> addr \<Rightarrow> links \<Rightarrow> (addr \<times> links) option" where
  "list_insert_after list previtem newitem nxt =
     (if previtem = 0 then list_push list newitem nxt
      else Some (list, (nxt(newitem := nxt previtem))(previtem := newitem)))"

section \<open>Linked lists: what they stand for\<close>

fun linked :: "links \<Rightarrow> addr \<Rightarrow> addr list \<Rightarrow> bool" where
  "linked nxt h [] \<longleftrightarrow> h = 0"
| "linked nxt h (x # xs) \<longleftrightarrow> h = x \<and> x \<noteq> 0 \<and> linked nxt (nxt x) xs"

definition is_list :: "links \<Rightarrow> addr \<Rightarrow> addr list \<Rightarrow> bool" where
  "is_list nxt h xs \<longleftrightarrow> linked nxt h xs \<and> distinct xs"

text \<open>A path ends at a given address instead of the null pointer.\<close>

fun segment :: "links \<Rightarrow> addr \<Rightarrow> addr list \<Rightarrow> addr \<Rightarrow> bool" where
  "segment nxt h [] e \<longleftrightarrow> h = e"
| "segment nxt h (x # xs) e \<longleftrightarrow> h = x \<and> x \<noteq> 0 \<and> segment nxt (nxt x) xs e"

lemma linked_append: "linked nxt h (xs @ ys) \<longleftrightarrow> (\<exists>e. segment nxt h xs e \<and> linked nxt e ys)"
  by (induction xs arbitrary: h) auto

lemma segment_null: "segment nxt h xs 0 \<longleftrightarrow> linked nxt h xs"
  by (induction xs arbitrary: h) auto

lemma segment_append: "segment nxt h (xs @ ys) e \<longleftrightarrow> (\<exists>m. segment nxt h xs m \<and> segment nxt m ys e)"
  by (induction xs arbitrary: h) auto

lemma segment_nonnull: "segment nxt h xs e \<Longrightarrow> 0 \<notin> set xs"
  by (induction xs arbitrary: h) auto

lemma linked_frame: "(\<And>x. x \<in> set xs \<Longrightarrow> nxt x = nxt' x) \<Longrightarrow> linked nxt h xs = linked nxt' h xs"
  by (induction xs arbitrary: h) auto

lemma segment_frame: "(\<And>x. x \<in> set xs \<Longrightarrow> nxt x = nxt' x) \<Longrightarrow> segment nxt h xs e = segment nxt' h xs e"
  by (induction xs arbitrary: h) auto

lemma linked_upd [simp]: "a \<notin> set xs \<Longrightarrow> linked (nxt(a := b)) h xs = linked nxt h xs"
  by (rule linked_frame) auto

lemma segment_upd [simp]: "a \<notin> set xs \<Longrightarrow> segment (nxt(a := b)) h xs e = segment nxt h xs e"
  by (rule segment_frame) auto

lemma linked_from_null [simp]: "linked nxt 0 xs \<longleftrightarrow> xs = []"
  by (cases xs) auto

lemma linked_nonnull: "linked nxt h xs \<Longrightarrow> 0 \<notin> set xs"
  by (induction xs arbitrary: h) auto

lemma linked_head: "linked nxt h xs \<Longrightarrow> h = 0 \<longleftrightarrow> xs = []" "linked nxt h xs \<Longrightarrow> xs \<noteq> [] \<Longrightarrow> h = hd xs"
  by (cases xs; auto)+

lemma segment_last:
  "segment nxt h xs e \<Longrightarrow> xs \<noteq> [] \<Longrightarrow> nxt (last xs) = e"
  by (induction xs arbitrary: h) auto

lemma segment_redirect:
  assumes "segment nxt h xs e" and "xs \<noteq> []" and "distinct xs"
  shows "segment (nxt(last xs := e')) h xs e'"
  using assms
proof (induction xs arbitrary: h)
  case (Cons x xs)
  then show ?case by (cases "xs = []") auto
qed simp

lemma list_tail_loop_linked:
  "linked nxt h xs \<Longrightarrow> xs \<noteq> [] \<Longrightarrow> list_tail_loop nxt h = Some (last xs)"
proof (induction xs arbitrary: h)
  case (Cons x xs)
  then show ?case
    by (cases "xs = []") (auto simp: list_tail_loop.simps [of nxt x] linked_head(1) dest: linked_head(2))
qed simp

lemma list_tail_linked: "linked nxt h xs \<Longrightarrow> list_tail nxt h = Some (if xs = [] then 0 else last xs)"
  using list_tail_loop_linked [of nxt h xs] linked_head(1) [of nxt h xs] by (auto simp: list_tail_def)

lemma list_length_loop_linked: "linked nxt h xs \<Longrightarrow> list_length_loop nxt h n = Some (n + length xs)"
  by (induction xs arbitrary: h n) (auto simp: list_length_loop.simps)

lemma list_length_linked: "linked nxt h xs \<Longrightarrow> list_length h nxt = Some (length xs)"
  by (simp add: list_length_def list_length_loop_linked)

lemma list_contains_linked: "linked nxt h xs \<Longrightarrow> list_contains h item nxt = Some (item \<in> set xs)"
proof -
  have "linked nxt h xs \<Longrightarrow> list_contains_loop nxt item h = Some (item \<in> set xs)" for h xs
    by (induction xs arbitrary: h) (auto simp: list_contains_loop.simps)
  then show "linked nxt h xs \<Longrightarrow> list_contains h item nxt = Some (item \<in> set xs)"
    by (simp add: list_contains_def)
qed

lemma list_remove_loop_linked:
  assumes "segment nxt list us l" and "linked nxt l xs" and "distinct (us @ xs)" and "item \<notin> set us"
    and "r = (if us = [] then 0 else last us)"
  shows "\<exists>h' nxt'. list_remove_loop item list r l nxt = Some (h', nxt')
    \<and> linked nxt' h' (us @ remove1 item xs) \<and> (\<forall>y. y \<notin> set (us @ xs) \<longrightarrow> nxt' y = nxt y)"
  using assms
proof (induction xs arbitrary: us l r)
  case Nil
  then show ?case
    by (auto simp: list_remove_loop.simps linked_append segment_null)
next
  case (Cons x xs)
  have x: "l = x" "x \<noteq> 0" "linked nxt (nxt x) xs" using Cons.prems(2) by auto
  show ?case
  proof (cases "x = item")
    case True
    show ?thesis
    proof (cases "us = []")
      case us: True
      have "linked (nxt(x := 0)) (nxt x) xs"
        using x(3) Cons.prems(3) by simp
      then show ?thesis
        using True us x Cons.prems(5) by (simp add: list_remove_loop.simps [of item list 0 item nxt])
    next
      case False
      let ?nxt = "(nxt(last us := nxt x))(x := 0)"
      have l0: "last us \<noteq> 0" "r = last us"
        using Cons.prems(5) False segment_nonnull [OF Cons.prems(1)] last_in_set [OF False]
        by (metis, simp)
      have "segment (nxt(last us := nxt x)) list us (nxt x)"
        using segment_redirect [OF Cons.prems(1) False] Cons.prems(3) by simp
      then have "segment ?nxt list us (nxt x)"
        using Cons.prems(3) by simp
      moreover have "linked ?nxt (nxt x) xs"
        using x(3) Cons.prems(3) last_in_set [OF False] by (subst linked_upd, simp, subst linked_upd) auto
      ultimately have "linked ?nxt list (us @ xs)" by (auto simp: linked_append simp del: fun_upd_apply)
      moreover have "list_remove_loop item list r l nxt = Some (list, ?nxt)"
        using True x l0 by (simp add: list_remove_loop.simps [of item list "last us" item nxt])
      moreover have "\<forall>y. y \<notin> set (us @ x # xs) \<longrightarrow> ?nxt y = nxt y"
        using last_in_set [OF False] by auto
      ultimately show ?thesis using True by auto
    qed
  next
    case False
    have "segment nxt list (us @ [x]) (nxt x)"
      using Cons.prems(1) x by (auto simp: segment_append)
    then have "\<exists>h' nxt'. list_remove_loop item list x (nxt x) nxt = Some (h', nxt')
        \<and> linked nxt' h' ((us @ [x]) @ remove1 item xs) \<and> (\<forall>y. y \<notin> set ((us @ [x]) @ xs) \<longrightarrow> nxt' y = nxt y)"
      using x Cons.prems(3,4) False by (intro Cons.IH) auto
    then show ?thesis
      using False x by (simp add: list_remove_loop.simps [of item list r x nxt])
  qed
qed

text \<open>
  Every operation of the module ends on a well-formed list, does to the items what its name
  says and leaves the link of every item outside the list alone.
\<close>

lemma list_remove_linked:
  assumes "is_list nxt h xs"
  shows "\<exists>h' nxt'. list_remove h item nxt = Some (h', nxt') \<and> is_list nxt' h' (remove1 item xs)
    \<and> (\<forall>y. y \<notin> set xs \<longrightarrow> nxt' y = nxt y)"
proof (cases "h = 0")
  case True
  then have "xs = []" using assms by (simp add: is_list_def linked_head(1))
  then show ?thesis using True by (simp add: list_remove_def is_list_def)
next
  case False
  then show ?thesis
    using list_remove_loop_linked [of nxt h "[]" h xs item 0] assms
    by (auto simp: list_remove_def is_list_def)
qed

lemma list_add_linked:
  assumes xs: "is_list nxt h xs" and "item \<noteq> 0"
  shows "\<exists>h' nxt'. list_add h item nxt = Some (h', nxt') \<and> is_list nxt' h' (remove1 item xs @ [item])
    \<and> (\<forall>y. y \<notin> set xs \<and> y \<noteq> item \<longrightarrow> nxt' y = nxt y)"
proof -
  obtain g m where r: "list_remove h item nxt = Some (g, m)" "is_list m g (remove1 item xs)"
      "\<forall>y. y \<notin> set xs \<longrightarrow> m y = nxt y"
    using list_remove_linked [OF xs] by blast
  let ?ys = "remove1 item xs" and ?m = "m(item := 0)"
  have d: "distinct ?ys" "item \<notin> set ?ys" using xs by (auto simp: is_list_def)
  have l: "linked ?m g ?ys"
    using r(2) d by (simp add: is_list_def)
  have t: "list_tail ?m g = Some (if ?ys = [] then 0 else last ?ys)"
    by (rule list_tail_linked [OF l])
  show ?thesis
  proof (cases "?ys = []")
    case True
    then show ?thesis
      using r t assms(2) by (auto simp: list_add_def is_list_def)
  next
    case False
    have nz: "last ?ys \<noteq> 0" "last ?ys \<noteq> item" "last ?ys \<in> set xs"
      using linked_nonnull [OF l] last_in_set [OF False] d set_remove1_subset [of item xs]
      by (metis, metis, blast)
    have "segment (?m(last ?ys := item)) g ?ys item"
      using segment_redirect [of ?m g ?ys 0 item] l False d(1) by (simp add: segment_null)
    moreover have "linked (?m(last ?ys := item)) item [item]" using nz assms(2) by simp
    ultimately have "linked (?m(last ?ys := item)) g (?ys @ [item])"
      by (auto simp: linked_append simp del: fun_upd_apply linked.simps(2))
    then show ?thesis
      using r t nz False d by (auto simp: list_add_def is_list_def)
  qed
qed

lemma list_push_linked:
  assumes xs: "is_list nxt h xs" and "item \<noteq> 0"
  shows "\<exists>nxt'. list_push h item nxt = Some (item, nxt') \<and> is_list nxt' item (item # remove1 item xs)
    \<and> (\<forall>y. y \<notin> set xs \<and> y \<noteq> item \<longrightarrow> nxt' y = nxt y)"
proof -
  obtain g m where r: "list_remove h item nxt = Some (g, m)" "is_list m g (remove1 item xs)"
      "\<forall>y. y \<notin> set xs \<longrightarrow> m y = nxt y"
    using list_remove_linked [OF xs] by blast
  have d: "item \<notin> set (remove1 item xs)" using xs by (auto simp: is_list_def)
  then have "linked (m(item := g)) g (remove1 item xs)"
    using r(2) by (simp add: is_list_def)
  then show ?thesis
    using r d assms by (auto simp: list_push_def is_list_def)
qed

lemma list_pop_linked:
  assumes "is_list nxt h xs"
  shows "list_pop h nxt = (if xs = [] then 0 else hd xs, snd (list_pop h nxt))"
    and "is_list nxt (snd (list_pop h nxt)) (tl xs)"
  using assms by (cases xs; auto simp: list_pop_def is_list_def)+

lemma list_chop_loop_linked:
  assumes "linked nxt h (us @ [p, z])" and "distinct (us @ [p, z])"
  shows "list_chop_loop nxt h = Some p"
  using assms
proof (induction us arbitrary: h)
  case Nil
  then show ?case by (simp add: list_chop_loop.simps)
next
  case (Cons u us)
  have "nxt (nxt u) \<noteq> 0" using Cons.prems by (cases us; cases "tl us") auto
  then show ?case using Cons by (auto simp: list_chop_loop.simps [of nxt u])
qed

lemma two_last: "\<not> length xs \<le> 1 \<Longrightarrow> \<exists>us p z. xs = us @ [p, z]"
proof (induction xs rule: rev_induct)
  case (snoc z xs)
  then show ?case by (cases xs rule: rev_cases) auto
qed simp

lemma list_chop_linked:
  assumes xs: "is_list nxt h xs"
  shows "\<exists>h' nxt'. list_chop h nxt = Some (if xs = [] then 0 else last xs, h', nxt')
    \<and> is_list nxt' h' (butlast xs) \<and> (\<forall>y. y \<notin> set xs \<longrightarrow> nxt' y = nxt y)"
proof (cases "length xs \<le> 1")
  case True
  then show ?thesis
    using xs by (cases xs) (auto simp: list_chop_def is_list_def)
next
  case False
  then obtain us p z where d: "xs = us @ [p, z]"
    using two_last by blast
  have l: "linked nxt h (us @ [p, z])" "distinct (us @ [p, z])" using xs d by (auto simp: is_list_def)
  have h: "h \<noteq> 0" "nxt h \<noteq> 0" using l by (cases us; cases "tl us"; auto)+
  have pz: "nxt p = z" "p \<noteq> z" using l by (auto simp: linked_append)
  have "segment nxt h (us @ [p]) z" using l(1) by (auto simp: linked_append segment_append)
  then have "segment (nxt(p := 0)) h (us @ [p]) 0"
    using segment_redirect [of nxt h "us @ [p]" z 0] l(2) by simp
  then have "linked (nxt(p := 0)) h (us @ [p])" by (simp add: segment_null)
  then show ?thesis
    using d l h pz list_chop_loop_linked [OF l] by (auto simp: list_chop_def is_list_def butlast_append)
qed

text \<open>
  On a well-formed list every call of the list module ends and does its job: adding moves the
  item to the end, pushing moves it to the front, removing takes it out, chopping and popping
  take off the last and the first item, the length and membership are those of the list; the links of
  items outside the list are not touched.
\<close>

theorem list_module_correct:
  assumes "is_list nxt h xs" and "item \<noteq> 0"
  shows "(\<exists>h' nxt'. list_add h item nxt = Some (h', nxt') \<and> is_list nxt' h' (remove1 item xs @ [item])
            \<and> (\<forall>y. y \<in> set xs \<or> y = item \<or> nxt' y = nxt y))
    \<and> (\<exists>nxt'. list_push h item nxt = Some (item, nxt') \<and> is_list nxt' item (item # remove1 item xs)
            \<and> (\<forall>y. y \<in> set xs \<or> y = item \<or> nxt' y = nxt y))
    \<and> (\<exists>h' nxt'. list_remove h item nxt = Some (h', nxt') \<and> is_list nxt' h' (remove1 item xs)
            \<and> (\<forall>y. y \<in> set xs \<or> nxt' y = nxt y))
    \<and> (\<exists>h' nxt'. list_chop h nxt = Some (if xs = [] then 0 else last xs, h', nxt')
            \<and> is_list nxt' h' (butlast xs) \<and> (\<forall>y. y \<in> set xs \<or> nxt' y = nxt y))
    \<and> (\<exists>h'. list_pop h nxt = (if xs = [] then 0 else hd xs, h') \<and> is_list nxt h' (tl xs))
    \<and> list_length h nxt = Some (length xs) \<and> list_contains h item nxt = Some (item \<in> set xs)"
proof -
  have l: "linked nxt h xs" using assms(1) by (simp add: is_list_def)
  show ?thesis
    using list_add_linked [OF assms] list_push_linked [OF assms] list_remove_linked [OF assms(1), of item]
      list_chop_linked [OF assms(1)] list_pop_linked [OF assms(1)] list_length_linked [OF l]
      list_contains_linked [OF l, of item] by meson
qed

theorem list_module_correct_witness:
  "\<exists>h' nxt'. list_remove 3 5 ((\<lambda>_. 0)(3 := 5, 5 := 2)) = Some (h', nxt') \<and> is_list nxt' h' [3, 2]"
  using list_module_correct [of "(\<lambda>_. 0)(3 := 5, 5 := 2)" 3 "[3, 5, 2]" 5]
  by (auto simp: is_list_def)

section \<open>Memory blocks\<close>

text \<open>
  A pool is its reference counts; the block with index \<open>i\<close> has address \<open>i + 1\<close>, so that 0 stays
  the null pointer.  The counts are C's \<^verbatim>\<open>char\<close>, but no code path of the gateway raises one above 1.
\<close>

type_synonym memb = "nat list"

definition memb_init :: "nat \<Rightarrow> memb" where "memb_init num = replicate num 0"

definition memb_alloc :: "memb \<Rightarrow> addr \<times> memb" where
  "memb_alloc m = (case find_idx (\<lambda>c. c = 0) m of
      None \<Rightarrow> (0, m)
    | Some i \<Rightarrow> (Suc i, m[i := Suc (m ! i)]))"

definition memb_free :: "memb \<Rightarrow> addr \<Rightarrow> int \<times> memb" where
  "memb_free m p =
     (if 0 < p \<and> p \<le> length m
      then (let c = m ! (p - 1) - 1 in (int c, m[p - 1 := c]))
      else (- 1, m))"

definition memb_inmemb :: "memb \<Rightarrow> addr \<Rightarrow> bool" where
  "memb_inmemb m p \<longleftrightarrow> 0 < p \<and> p \<le> length m"

definition memb_slot_number :: "memb \<Rightarrow> addr \<Rightarrow> int" where
  "memb_slot_number m p = (if 0 < p \<and> p \<le> length m then int p - 1 else - 1)"

definition memb_free_count :: "memb \<Rightarrow> nat" where
  "memb_free_count m = length (filter (\<lambda>c. c = 0) m)"

text \<open>The blocks in use.\<close>

definition used_blocks :: "memb \<Rightarrow> addr set" where
  "used_blocks m = {p. 0 < p \<and> p \<le> length m \<and> m ! (p - 1) \<noteq> 0}"

text \<open>No block is referenced twice: the pools of the gateway only ever allocate and free.\<close>

definition memb_ok :: "memb \<Rightarrow> bool" where "memb_ok m \<longleftrightarrow> (\<forall>c \<in> set m. c \<le> 1)"

lemma memb_init_ok: "memb_ok (memb_init num)" "used_blocks (memb_init num) = {}"
proof -
  have "p \<notin> used_blocks (memb_init num)" for p
    by (cases p) (auto simp: memb_init_def used_blocks_def)
  then show "used_blocks (memb_init num) = {}" by blast
qed (auto simp: memb_ok_def memb_init_def)

lemma finite_used_blocks: "finite (used_blocks m)"
  by (rule finite_subset [of _ "{0..length m}"]) (auto simp: used_blocks_def)

lemma card_used_blocks: "card (used_blocks m) + memb_free_count m = length m"
proof -
  have "used_blocks m = Suc ` {i. i < length m \<and> m ! i \<noteq> 0}"
    by (auto simp: used_blocks_def image_def) (metis Suc_le_eq Suc_pred)
  then have "card (used_blocks m) = length (filter (\<lambda>c. c \<noteq> 0) m)"
    by (simp add: card_image length_filter_conv_card)
  then show ?thesis
    using sum_length_filter_compl [of "\<lambda>c. c = 0" m] by (simp add: memb_free_count_def)
qed

lemma memb_alloc_None: "fst (memb_alloc m) = 0 \<longleftrightarrow> memb_free_count m = 0"
proof (cases "find_idx (\<lambda>c. c = 0) m")
  case None
  then have "\<forall>c \<in> set m. c \<noteq> 0" by (simp add: find_idx_None_iff)
  then show ?thesis
    using None by (simp add: memb_alloc_def memb_free_count_def filter_empty_conv)
next
  case (Some i)
  then show ?thesis
    using find_idx_SomeD [OF Some] by (auto simp: memb_alloc_def memb_free_count_def filter_empty_conv in_set_conv_nth)
qed

lemma memb_alloc_fail: "memb_alloc m = (0, m') \<Longrightarrow> m' = m"
  by (auto simp: memb_alloc_def split: option.splits)

lemma memb_alloc_Some:
  assumes "memb_alloc m = (p, m')" and "p \<noteq> 0"
  shows "p \<notin> used_blocks m" "used_blocks m' = insert p (used_blocks m)" "length m' = length m"
    "p \<le> length m" "memb_ok m \<Longrightarrow> memb_ok m'"
proof -
  obtain i where i: "find_idx (\<lambda>c. c = 0) m = Some i" "p = Suc i" "m' = m[i := Suc (m ! i)]"
    using assms by (auto simp: memb_alloc_def split: option.splits)
  have d: "i < length m" "m ! i = 0" using find_idx_SomeD [OF i(1)] by auto
  show "p \<notin> used_blocks m" "used_blocks m' = insert p (used_blocks m)" "length m' = length m"
    "p \<le> length m" using i d by (auto simp: used_blocks_def nth_list_update split: if_splits)
  show "memb_ok m \<Longrightarrow> memb_ok m'"
    using i d set_update_subset_insert [of m i 1] by (auto simp: memb_ok_def)
qed

lemma memb_free_used:
  assumes "memb_ok m" and "p \<in> used_blocks m"
  shows "used_blocks (snd (memb_free m p)) = used_blocks m - {p}" "fst (memb_free m p) = 0"
    "length (snd (memb_free m p)) = length m" "memb_ok (snd (memb_free m p))"
proof -
  have p: "0 < p" "p \<le> length m" "m ! (p - 1) \<noteq> 0" using assms by (auto simp: used_blocks_def)
  then have "m ! (p - 1) \<in> set m" by simp
  then have c: "m ! (p - 1) = 1" using assms(1) p(3) by (force simp: memb_ok_def)
  show "used_blocks (snd (memb_free m p)) = used_blocks m - {p}" "fst (memb_free m p) = 0"
    "length (snd (memb_free m p)) = length m"
    using p c by (auto simp: memb_free_def used_blocks_def nth_list_update split: if_splits)
  show "memb_ok (snd (memb_free m p))"
    using p c assms(1) set_update_subset_insert [of m "p - 1" 0] by (auto simp: memb_free_def memb_ok_def)
qed

end
