(* ===== verification/Packet_Queue.thy ===== *)
theory Packet_Queue
  imports Contiki_Mem
begin

text \<open>
  The packet queues (\<^verbatim>\<open>contiki/core/net/uip-packetqueue.c\<close>): any number of queues whose
  packets all come from one pool of 64 buffers.  A queue is a linked list hanging off a handle; a
  packet leaves its queue when it is popped or when its lifetime timer expires.
  The operations are written over the list and pool modules of \<^verbatim>\<open>Contiki_Mem\<close>; the
  theorems show that together they behave as a family of first-in first-out queues of frames
  (locale \<open>fifo_pool\<close>), which is all that the users of the queues rely on.
\<close>

section \<open>The code\<close>

definition MAX_NUM_QUEUED_PACKETS :: nat where "MAX_NUM_QUEUED_PACKETS = 64"

text \<open>The size of a packet buffer, \<^verbatim>\<open>UIP_BUFSIZE - UIP_LLH_LEN\<close>.\<close>

definition PACKET_BUF_SIZE :: nat where "PACKET_BUF_SIZE = 1544 - 14"

record uip_packetqueue_packet =
  queue_buf :: bytes
  queue_buf_len :: u16
  lifetimer :: "nat option"
  pkt_handle :: nat

text \<open>
  The pool, the \<^verbatim>\<open>next\<close> fields and the other fields of the packets, and the \<^verbatim>\<open>list\<close>
  field of every handle.
\<close>

record packetqueue =
  packets_memb :: memb
  pkt_next :: links
  pkt_at :: "addr \<Rightarrow> uip_packetqueue_packet"
  handle_list :: "nat \<Rightarrow> addr"

definition packet_timedout :: "addr \<Rightarrow> packetqueue \<Rightarrow> packetqueue option" where
  "packet_timedout p s =
     (let h = pkt_handle (pkt_at s p)
      in (case list_remove (handle_list s h) p (pkt_next s) of
            None \<Rightarrow> None
          | Some (l, nxt) \<Rightarrow>
              Some (s \<lparr> pkt_next := nxt, handle_list := (handle_list s)(h := l),
                       packets_memb := snd (memb_free (packets_memb s) p) \<rparr>)))"

text \<open>The timer module calls \<^verbatim>\<open>packet_timedout\<close> after it has taken the timer off its list.\<close>

definition lifetimer_expired :: "addr \<Rightarrow> packetqueue \<Rightarrow> packetqueue option" where
  "lifetimer_expired p s =
     (if lifetimer (pkt_at s p) = None then Some s
      else packet_timedout p (s \<lparr> pkt_at := (pkt_at s)(p := (pkt_at s p) \<lparr> lifetimer := None \<rparr>) \<rparr>))"

definition uip_packetqueue_new :: "nat \<Rightarrow> packetqueue \<Rightarrow> packetqueue" where
  "uip_packetqueue_new h s = s \<lparr> handle_list := (handle_list s)(h := 0) \<rparr>"

text \<open>A frame that does not fit the buffer overruns it, which the model has as \<open>None\<close>.\<close>

definition uip_packetqueue_alloc ::
  "nat \<Rightarrow> bytes \<Rightarrow> nat \<Rightarrow> packetqueue \<Rightarrow> (addr \<times> packetqueue) option" where
  "uip_packetqueue_alloc h data lifetime s =
     (case memb_alloc (packets_memb s) of
        (p, m) \<Rightarrow>
          if p \<noteq> 0 then
            if length data > PACKET_BUF_SIZE then None
            else (let pk = pkt_at s p;
                      pk = pk \<lparr> queue_buf := data @ drop (length data) (queue_buf pk),
                               queue_buf_len := of_nat (length data),
                               lifetimer := Some lifetime, pkt_handle := h \<rparr>
                  in (case list_add (handle_list s h) p (pkt_next s) of
                        None \<Rightarrow> None
                      | Some (l, nxt) \<Rightarrow>
                          Some (p, s \<lparr> packets_memb := m, pkt_next := nxt, pkt_at := (pkt_at s)(p := pk),
                                      handle_list := (handle_list s)(h := l) \<rparr>)))
          else Some (0, s))"

definition uip_packetqueue_pop :: "nat \<Rightarrow> packetqueue \<Rightarrow> packetqueue" where
  "uip_packetqueue_pop h s =
     (let p = list_head (handle_list s h)
      in if p \<noteq> 0
         then s \<lparr> pkt_at := (pkt_at s)(p := (pkt_at s p) \<lparr> lifetimer := None \<rparr>),
                 packets_memb := snd (memb_free (packets_memb s) p),
                 handle_list := (handle_list s)(h := snd (list_pop (handle_list s h) (pkt_next s))) \<rparr>
         else s)"

text \<open>The buffer of the first packet; \<open>None\<close> is the null pointer.\<close>

definition uip_packetqueue_buf :: "nat \<Rightarrow> packetqueue \<Rightarrow> bytes option" where
  "uip_packetqueue_buf h s =
     (let p = list_head (handle_list s h) in if p \<noteq> 0 then Some (queue_buf (pkt_at s p)) else None)"

definition uip_packetqueue_buflen :: "nat \<Rightarrow> packetqueue \<Rightarrow> u16" where
  "uip_packetqueue_buflen h s =
     (let p = list_head (handle_list s h) in if p \<noteq> 0 then queue_buf_len (pkt_at s p) else 0)"

definition uip_packetqueue_set_buflen :: "nat \<Rightarrow> u16 \<Rightarrow> packetqueue \<Rightarrow> packetqueue" where
  "uip_packetqueue_set_buflen h len s =
     (let p = list_head (handle_list s h)
      in if p \<noteq> 0 then s \<lparr> pkt_at := (pkt_at s)(p := (pkt_at s p) \<lparr> queue_buf_len := len \<rparr>) \<rparr> else s)"

definition uip_packetqueue_len :: "nat \<Rightarrow> packetqueue \<Rightarrow> nat option" where
  "uip_packetqueue_len h s = list_length (handle_list s h) (pkt_next s)"

definition uip_packetqueue_free_len :: "packetqueue \<Rightarrow> nat" where
  "uip_packetqueue_free_len s = memb_free_count (packets_memb s)"

text \<open>The queues at boot: static memory is zero.\<close>

definition packetqueue_init :: packetqueue where
  "packetqueue_init = \<lparr> packets_memb = memb_init MAX_NUM_QUEUED_PACKETS, pkt_next = (\<lambda>_. 0),
     pkt_at = (\<lambda>_. \<lparr> queue_buf = replicate PACKET_BUF_SIZE 0, queue_buf_len = 0, lifetimer = None, pkt_handle = 0 \<rparr>),
     handle_list = (\<lambda>_. 0) \<rparr>"

section \<open>The queues a state stands for\<close>

fun chain :: "nat \<Rightarrow> links \<Rightarrow> addr \<Rightarrow> addr list" where
  "chain 0 nxt a = []"
| "chain (Suc n) nxt a = (if a = 0 then [] else a # chain n nxt (nxt a))"

lemma chain_linked: "linked nxt h xs \<Longrightarrow> length xs \<le> n \<Longrightarrow> chain n nxt h = xs"
proof (induction xs arbitrary: h n)
  case Nil
  then show ?case by (cases n) auto
next
  case (Cons x xs)
  then show ?case by (cases n) auto
qed

definition packets :: "packetqueue \<Rightarrow> nat \<Rightarrow> addr list" where
  "packets s h = chain MAX_NUM_QUEUED_PACKETS (pkt_next s) (handle_list s h)"

definition frame_at :: "packetqueue \<Rightarrow> addr \<Rightarrow> bytes" where
  "frame_at s p = take (unat (queue_buf_len (pkt_at s p))) (queue_buf (pkt_at s p))"

definition frames :: "packetqueue \<Rightarrow> nat \<Rightarrow> bytes list" where
  "frames s h = map (frame_at s) (packets s h)"

text \<open>
  The invariant: the lists are well formed, made of allocated packets that know the queue they
  are in and whose timer runs; the pool's counts are 0 or 1.
\<close>

definition queue_ok :: "packetqueue \<Rightarrow> nat \<Rightarrow> addr list \<Rightarrow> bool" where
  "queue_ok s h xs \<longleftrightarrow> is_list (pkt_next s) (handle_list s h) xs \<and> set xs \<subseteq> used_blocks (packets_memb s)
     \<and> (\<forall>p \<in> set xs. pkt_handle (pkt_at s p) = h)"

definition packet_ok :: "packetqueue \<Rightarrow> addr \<Rightarrow> bool" where
  "packet_ok s p \<longleftrightarrow> length (queue_buf (pkt_at s p)) = PACKET_BUF_SIZE
     \<and> unat (queue_buf_len (pkt_at s p)) \<le> PACKET_BUF_SIZE
     \<and> (p \<in> used_blocks (packets_memb s) \<longleftrightarrow> lifetimer (pkt_at s p) \<noteq> None)"

definition pq_inv :: "packetqueue \<Rightarrow> bool" where
  "pq_inv s \<longleftrightarrow> memb_ok (packets_memb s) \<and> length (packets_memb s) = MAX_NUM_QUEUED_PACKETS
     \<and> (\<forall>h. queue_ok s h (packets s h)) \<and> (\<forall>p. packet_ok s p)"

lemma queue_length: "queue_ok s h xs \<Longrightarrow> length xs \<le> length (packets_memb s)"
proof -
  assume q: "queue_ok s h xs"
  have "length xs = card (set xs)" using q by (simp add: queue_ok_def is_list_def distinct_card)
  also have "\<dots> \<le> card (used_blocks (packets_memb s))"
    using q by (intro card_mono finite_used_blocks) (simp add: queue_ok_def)
  finally show ?thesis using card_used_blocks [of "packets_memb s"] by linarith
qed

text \<open>To show the invariant it is enough to name the queues.\<close>

lemma pq_invI:
  assumes "memb_ok (packets_memb s)" and "length (packets_memb s) = MAX_NUM_QUEUED_PACKETS"
    and "\<And>h. queue_ok s h (qs h)" and "\<And>p. packet_ok s p"
  shows "pq_inv s \<and> packets s = qs"
proof -
  have "packets s h = qs h" for h
    using assms(2) queue_length [OF assms(3) [of h]] assms(3) [of h]
    by (auto simp: packets_def queue_ok_def is_list_def intro!: chain_linked)
  then show ?thesis using assms by (auto simp: pq_inv_def)
qed

lemma pq_inv_init: "pq_inv packetqueue_init" "packets packetqueue_init h = []"
    "frames packetqueue_init h = []" "uip_packetqueue_free_len packetqueue_init = 64"
proof -
  have "pq_inv packetqueue_init \<and> packets packetqueue_init = (\<lambda>_. [])"
    by (rule pq_invI) (auto simp: packetqueue_init_def memb_init_ok queue_ok_def is_list_def packet_ok_def,
        simp add: memb_init_def)
  then show "pq_inv packetqueue_init" "packets packetqueue_init h = []" "frames packetqueue_init h = []"
    by (auto simp: frames_def)
  show "uip_packetqueue_free_len packetqueue_init = 64"
    by (simp add: uip_packetqueue_free_len_def packetqueue_init_def memb_free_count_def memb_init_def
        MAX_NUM_QUEUED_PACKETS_def)
qed

lemma pq_inv_queue:
  assumes "pq_inv s"
  shows "is_list (pkt_next s) (handle_list s h) (packets s h)" "distinct (packets s h)"
    "set (packets s h) \<subseteq> used_blocks (packets_memb s)" "0 \<notin> set (packets s h)"
    "p \<in> set (packets s h) \<Longrightarrow> pkt_handle (pkt_at s p) = h"
  using assms linked_nonnull by (auto simp: pq_inv_def queue_ok_def is_list_def)

lemma packets_disjoint:
  "pq_inv s \<Longrightarrow> p \<in> set (packets s h) \<Longrightarrow> p \<in> set (packets s h') \<Longrightarrow> h' = h"
  using pq_inv_queue(5) by blast

lemma handle_list_packets:
  "pq_inv s \<Longrightarrow> handle_list s h = (if packets s h = [] then 0 else hd (packets s h))"
  "pq_inv s \<Longrightarrow> handle_list s h = 0 \<longleftrightarrow> packets s h = []"
  using pq_inv_queue(1) [of s h] by (cases "packets s h"; auto simp: is_list_def)+

text \<open>
  A step that replaces one queue, leaves the links of all other packets alone and keeps their
  contents, keeps all other queues.
\<close>

lemma queue_ok_other:
  assumes "pq_inv s" and "h' \<noteq> h"
    and "\<And>p. p \<in> set (packets s h') \<Longrightarrow> pkt_next t p = pkt_next s p \<and> pkt_handle (pkt_at t p) = pkt_handle (pkt_at s p)
           \<and> p \<in> used_blocks (packets_memb t)"
    and "handle_list t h' = handle_list s h'"
  shows "queue_ok t h' (packets s h')"
proof -
  have "linked (pkt_next t) (handle_list s h') (packets s h')"
    using linked_frame [of "packets s h'" "pkt_next t" "pkt_next s" "handle_list s h'"] assms(3)
      pq_inv_queue(1) [OF assms(1), of h'] by (auto simp: is_list_def)
  then show ?thesis
    using assms pq_inv_queue(2,3) [OF assms(1), of h'] pq_inv_queue(5) [OF assms(1)]
    by (auto simp: queue_ok_def is_list_def)
qed


text \<open>Allocation: the frame goes to the end of its queue, or nothing happens when the pool is used up.\<close>

lemma alloc_fail:
  "uip_packetqueue_free_len s = 0 \<Longrightarrow> uip_packetqueue_alloc h data lifetime s = Some (0, s)"
  using memb_alloc_None [of "packets_memb s"]
  by (auto simp: uip_packetqueue_alloc_def uip_packetqueue_free_len_def split: prod.splits)

lemma alloc_step:
  assumes inv: "pq_inv s" and free: "uip_packetqueue_free_len s \<noteq> 0" and len: "length data \<le> PACKET_BUF_SIZE"
  shows "\<exists>p t. uip_packetqueue_alloc h data lifetime s = Some (p, t) \<and> p \<noteq> 0 \<and> pq_inv t
    \<and> packets t = (packets s)(h := packets s h @ [p]) \<and> p \<notin> used_blocks (packets_memb s)
    \<and> frame_at t p = data \<and> (\<forall>q. q \<noteq> p \<longrightarrow> pkt_at t q = pkt_at s q)
    \<and> lifetimer (pkt_at t p) = Some lifetime
    \<and> uip_packetqueue_free_len t = uip_packetqueue_free_len s - 1"
proof -
  obtain p m where a: "memb_alloc (packets_memb s) = (p, m)" by (cases "memb_alloc (packets_memb s)") auto
  have p: "p \<noteq> 0" using memb_alloc_None [of "packets_memb s"] free a by (simp add: uip_packetqueue_free_len_def)
  note m = memb_alloc_Some [OF a p]
  have pn: "p \<notin> set (packets s k)" for k using m(1) pq_inv_queue(3) [OF inv] by blast
  obtain l nxt where la: "list_add (handle_list s h) p (pkt_next s) = Some (l, nxt)"
      "is_list nxt l (packets s h @ [p])" "\<And>y. y \<notin> set (packets s h) \<Longrightarrow> y \<noteq> p \<Longrightarrow> nxt y = pkt_next s y"
    using list_add_linked [OF pq_inv_queue(1) [OF inv] p, of h] pn by (auto simp: remove1_idem)
  define w :: u16 where "w = of_nat (length data)"
  define pk where "pk = (pkt_at s p) \<lparr> queue_buf := data @ drop (length data) (queue_buf (pkt_at s p)),
      queue_buf_len := w, lifetimer := Some lifetime, pkt_handle := h \<rparr>"
  define t where "t = s \<lparr> packets_memb := m, pkt_next := nxt, pkt_at := (pkt_at s)(p := pk),
      handle_list := (handle_list s)(h := l) \<rparr>"
  have un: "unat w = length data"
    using len by (simp add: w_def PACKET_BUF_SIZE_def unat_of_nat take_bit_nat_eq_self)
  have ok0: "packet_ok s q" for q using inv by (simp add: pq_inv_def)
  have ok: "packet_ok t q" for q
  proof (cases "q = p")
    case True
    have "length (data @ drop (length data) (queue_buf (pkt_at s p))) = PACKET_BUF_SIZE"
      using ok0 [of p] len by (simp add: packet_ok_def)
    then show ?thesis using True len m(2) un by (simp add: packet_ok_def t_def pk_def)
  qed (use ok0 [of q] m(2) in \<open>simp add: packet_ok_def t_def\<close>)
  have others: "queue_ok t k (packets s k)" if "k \<noteq> h" for k
  proof (rule queue_ok_other [OF inv that])
    fix q assume q: "q \<in> set (packets s k)"
    have "q \<noteq> p" using pn [of k] q by blast
    moreover have "q \<notin> set (packets s h)" using packets_disjoint [OF inv q, of h] that by blast
    ultimately show "pkt_next t q = pkt_next s q \<and> pkt_handle (pkt_at t q) = pkt_handle (pkt_at s q)
        \<and> q \<in> used_blocks (packets_memb t)"
      using la(3) m(2) pq_inv_queue(3) [OF inv, of k] q by (auto simp: t_def)
  qed (use that in \<open>simp add: t_def\<close>)
  have "queue_ok t h (packets s h @ [p])"
    using la(2) m(2) pq_inv_queue(3) [OF inv, of h] pq_inv_queue(5) [OF inv] pn
    by (auto simp: queue_ok_def t_def pk_def)
  then have q: "queue_ok t k (((packets s)(h := packets s h @ [p])) k)" for k using others by simp
  have "pq_inv t \<and> packets t = (packets s)(h := packets s h @ [p])"
    using inv m(3,5) by (intro pq_invI q ok) (auto simp: pq_inv_def t_def)
  moreover have "uip_packetqueue_alloc h data lifetime s = Some (p, t)"
    using a p len la(1) by (simp add: uip_packetqueue_alloc_def t_def pk_def w_def Let_def)
  moreover have "frame_at t p = data" using un by (simp add: frame_at_def t_def pk_def)
  moreover have "uip_packetqueue_free_len t = uip_packetqueue_free_len s - 1"
    using card_used_blocks [of m] card_used_blocks [of "packets_memb s"] m(1,2,3)
    by (simp add: uip_packetqueue_free_len_def t_def finite_used_blocks)
  ultimately show ?thesis using p m(1) by (auto simp: t_def pk_def)
qed

text \<open>Releasing a packet that is no longer linked.\<close>

lemma release_step:
  assumes inv: "pq_inv s" and u: "p \<in> used_blocks (packets_memb s)" and hp: "pkt_handle (pkt_at s p) = h"
    and q: "is_list nxt l (remove1 p (packets s h))" and nxt: "\<And>y. y \<notin> set (packets s h) \<Longrightarrow> nxt y = pkt_next s y"
    and t: "t = s \<lparr> pkt_at := (pkt_at s)(p := (pkt_at s p) \<lparr> lifetimer := None \<rparr>), pkt_next := nxt,
                  packets_memb := snd (memb_free (packets_memb s) p), handle_list := (handle_list s)(h := l) \<rparr>"
  shows "pq_inv t \<and> packets t = (packets s)(h := remove1 p (packets s h))
    \<and> frames t = (frames s)(h := map (frame_at s) (remove1 p (packets s h)))
    \<and> uip_packetqueue_free_len t = uip_packetqueue_free_len s + 1"
proof -
  have mo: "memb_ok (packets_memb s)" using inv by (simp add: pq_inv_def)
  note m = memb_free_used [OF mo u]
  have ok0: "packet_ok s k" for k using inv by (simp add: pq_inv_def)
  have ok: "packet_ok t k" for k
    using ok0 [of k] m(1) by (cases "k = p") (simp_all add: packet_ok_def t)
  have others: "queue_ok t k (packets s k)" if "k \<noteq> h" for k
  proof (rule queue_ok_other [OF inv that])
    fix y assume y: "y \<in> set (packets s k)"
    have "y \<notin> set (packets s h)" "y \<noteq> p"
      using packets_disjoint [OF inv y, of h] pq_inv_queue(5) [OF inv y] hp that by blast+
    then show "pkt_next t y = pkt_next s y \<and> pkt_handle (pkt_at t y) = pkt_handle (pkt_at s y)
        \<and> y \<in> used_blocks (packets_memb t)"
      using nxt m(1) pq_inv_queue(3) [OF inv, of k] y by (auto simp: t)
  qed (use that in \<open>simp add: t\<close>)
  have "queue_ok t h (remove1 p (packets s h))"
    using q m(1) pq_inv_queue(2,3) [OF inv, of h] pq_inv_queue(5) [OF inv]
    by (auto simp: queue_ok_def t)
  then have qs: "queue_ok t k (((packets s)(h := remove1 p (packets s h))) k)" for k using others by simp
  have pk: "pq_inv t \<and> packets t = (packets s)(h := remove1 p (packets s h))"
    using inv m(3,4) by (intro pq_invI qs ok) (auto simp: pq_inv_def t)
  have "frame_at t y = frame_at s y" for y by (simp add: frame_at_def t)
  then have "frames t = (frames s)(h := map (frame_at s) (remove1 p (packets s h)))"
    using pk by (auto simp: frames_def fun_eq_iff)
  moreover have "uip_packetqueue_free_len t = uip_packetqueue_free_len s + 1"
  proof -
    have "card (used_blocks (packets_memb s)) = Suc (card (used_blocks (packets_memb t)))"
      using m(1) card_Suc_Diff1 [OF finite_used_blocks u] by (simp add: t del: card_Diff_insert)
    then show ?thesis
      using card_used_blocks [of "packets_memb t"] card_used_blocks [of "packets_memb s"] m(3)
      by (simp add: uip_packetqueue_free_len_def t)
  qed
  ultimately show ?thesis using pk by simp
qed

lemma pop_step:
  assumes inv: "pq_inv s"
  shows "pq_inv (uip_packetqueue_pop h s)"
    and "packets (uip_packetqueue_pop h s) = (packets s)(h := tl (packets s h))"
    and "frames (uip_packetqueue_pop h s) = (frames s)(h := tl (frames s h))"
    and "uip_packetqueue_free_len (uip_packetqueue_pop h s) =
           uip_packetqueue_free_len s + (if frames s h = [] then 0 else 1)"
proof -
  have "pq_inv (uip_packetqueue_pop h s)
    \<and> packets (uip_packetqueue_pop h s) = (packets s)(h := tl (packets s h))
    \<and> frames (uip_packetqueue_pop h s) = (frames s)(h := tl (frames s h))
    \<and> uip_packetqueue_free_len (uip_packetqueue_pop h s) =
           uip_packetqueue_free_len s + (if frames s h = [] then 0 else 1)"
  proof (cases "packets s h")
    case Nil
    then show ?thesis
      using inv handle_list_packets(2) [OF inv, of h]
      by (auto simp: uip_packetqueue_pop_def list_head_def frames_def fun_eq_iff)
  next
    case (Cons p ps)
    have h: "handle_list s h = p" "p \<noteq> 0" using handle_list_packets [OF inv, of h] Cons by auto
    have p: "p \<in> used_blocks (packets_memb s)" "pkt_handle (pkt_at s p) = h"
      using Cons pq_inv_queue(3) [OF inv, of h] pq_inv_queue(5) [OF inv, of p h] by auto
    have l: "is_list (pkt_next s) (snd (list_pop p (pkt_next s))) (remove1 p (packets s h))"
      using list_pop_linked(2) [OF pq_inv_queue(1) [OF inv], of h] Cons h by simp
    have t: "uip_packetqueue_pop h s = s \<lparr> pkt_at := (pkt_at s)(p := (pkt_at s p) \<lparr> lifetimer := None \<rparr>),
        pkt_next := pkt_next s, packets_memb := snd (memb_free (packets_memb s) p),
        handle_list := (handle_list s)(h := snd (list_pop p (pkt_next s))) \<rparr>"
      using h by (simp add: uip_packetqueue_pop_def list_head_def)
    have "tl (frames s h) = map (frame_at s) ps" "frames s h \<noteq> []" using Cons by (simp_all add: frames_def)
    then show ?thesis using release_step [OF inv p l _ t] Cons by simp
  qed
  then show "pq_inv (uip_packetqueue_pop h s)"
    and "packets (uip_packetqueue_pop h s) = (packets s)(h := tl (packets s h))"
    and "frames (uip_packetqueue_pop h s) = (frames s)(h := tl (frames s h))"
    and "uip_packetqueue_free_len (uip_packetqueue_pop h s) =
           uip_packetqueue_free_len s + (if frames s h = [] then 0 else 1)" by auto
qed

lemma timeout_step:
  assumes inv: "pq_inv s" and p: "p \<in> used_blocks (packets_memb s)" and hp: "pkt_handle (pkt_at s p) = h"
  shows "\<exists>t. lifetimer_expired p s = Some t \<and> pq_inv t
    \<and> frames t = (frames s)(h := map (frame_at s) (remove1 p (packets s h)))
    \<and> packets t = (packets s)(h := remove1 p (packets s h))
    \<and> uip_packetqueue_free_len t = uip_packetqueue_free_len s + 1"
proof -
  have lt: "lifetimer (pkt_at s p) \<noteq> None" using p inv by (auto simp: pq_inv_def packet_ok_def)
  obtain l nxt where r: "list_remove (handle_list s h) p (pkt_next s) = Some (l, nxt)"
      "is_list nxt l (remove1 p (packets s h))" "\<And>y. y \<notin> set (packets s h) \<Longrightarrow> nxt y = pkt_next s y"
    using list_remove_linked [OF pq_inv_queue(1) [OF inv], of h p] by auto
  have "lifetimer_expired p s = Some (s \<lparr> pkt_at := (pkt_at s)(p := (pkt_at s p) \<lparr> lifetimer := None \<rparr>),
      pkt_next := nxt, packets_memb := snd (memb_free (packets_memb s) p),
      handle_list := (handle_list s)(h := l) \<rparr>)"
    using hp lt r(1) by (auto simp: lifetimer_expired_def packet_timedout_def)
  then show ?thesis using release_step [OF inv p hp r(2,3) refl] by auto
qed

text \<open>The timer of a packet that is not allocated is not running.\<close>

lemma timeout_free:
  "pq_inv s \<Longrightarrow> p \<notin> used_blocks (packets_memb s) \<Longrightarrow> lifetimer_expired p s = Some s"
  by (simp add: pq_inv_def packet_ok_def lifetimer_expired_def)

text \<open>Resetting a handle forgets its packets; they stay allocated until their timers expire.\<close>

lemma new_step:
  assumes inv: "pq_inv s"
  shows "pq_inv (uip_packetqueue_new h s)" and "frames (uip_packetqueue_new h s) = (frames s)(h := [])"
    and "uip_packetqueue_free_len (uip_packetqueue_new h s) = uip_packetqueue_free_len s"
proof -
  let ?t = "uip_packetqueue_new h s"
  have "queue_ok ?t k (((packets s)(h := [])) k)" for k
    using queue_ok_other [OF inv, of k h ?t] pq_inv_queue(3) [OF inv, of k]
    by (auto simp: uip_packetqueue_new_def queue_ok_def is_list_def)
  then have "pq_inv ?t \<and> packets ?t = (packets s)(h := [])"
    using inv by (intro pq_invI) (auto simp: pq_inv_def packet_ok_def uip_packetqueue_new_def)
  then show "pq_inv ?t" "frames ?t = (frames s)(h := [])"
    by (auto simp: frames_def fun_eq_iff frame_at_def uip_packetqueue_new_def)
  show "uip_packetqueue_free_len ?t = uip_packetqueue_free_len s"
    by (simp add: uip_packetqueue_free_len_def uip_packetqueue_new_def)
qed

lemma queue_reads:
  assumes inv: "pq_inv s"
  shows "uip_packetqueue_len h s = Some (length (frames s h))"
    and "uip_packetqueue_buflen h s = (if frames s h = [] then 0 else of_nat (length (hd (frames s h))))"
    and "uip_packetqueue_buf h s = None \<longleftrightarrow> frames s h = []"
    and "uip_packetqueue_buf h s = Some b \<Longrightarrow>
           take (length (hd (frames s h))) b = hd (frames s h) \<and> length b = PACKET_BUF_SIZE"
proof -
  have ok: "packet_ok s p" for p using inv by (simp add: pq_inv_def)
  have len: "length (frame_at s p) = unat (queue_buf_len (pkt_at s p))" for p
    using ok [of p] by (simp add: frame_at_def packet_ok_def)
  show "uip_packetqueue_len h s = Some (length (frames s h))"
    using list_length_linked pq_inv_queue(1) [OF inv, of h]
    by (auto simp: uip_packetqueue_len_def frames_def is_list_def)
  show "uip_packetqueue_buflen h s = (if frames s h = [] then 0 else of_nat (length (hd (frames s h))))"
    "uip_packetqueue_buf h s = None \<longleftrightarrow> frames s h = []"
    using handle_list_packets [OF inv, of h] len
    by (auto simp: uip_packetqueue_buflen_def uip_packetqueue_buf_def list_head_def frames_def hd_map)
  show "uip_packetqueue_buf h s = Some b \<Longrightarrow>
      take (length (hd (frames s h))) b = hd (frames s h) \<and> length b = PACKET_BUF_SIZE"
    using handle_list_packets [OF inv, of h] len ok [of "hd (packets s h)"]
    by (auto simp: uip_packetqueue_buf_def list_head_def frames_def hd_map frame_at_def packet_ok_def
        split: if_splits)
qed


section \<open>The contract the users of the queues rely on\<close>

text \<open>
  A family of queues of frames with a common number of free places: \<open>put\<close> appends or
  reports that there is no place, \<open>pop\<close> removes the first frame.
\<close>

locale fifo_pool =
  fixes inv :: "'s \<Rightarrow> bool" and q :: "'s \<Rightarrow> 'h \<Rightarrow> 'f list" and free :: "'s \<Rightarrow> nat" and fits :: "'f \<Rightarrow> bool"
    and put :: "'h \<Rightarrow> 'f \<Rightarrow> 's \<Rightarrow> (bool \<times> 's) option" and pop :: "'h \<Rightarrow> 's \<Rightarrow> 's"
  assumes put_full: "inv s \<Longrightarrow> free s = 0 \<Longrightarrow> put h f s = Some (False, s)"
    and put_ok: "inv s \<Longrightarrow> free s \<noteq> 0 \<Longrightarrow> fits f \<Longrightarrow>
      \<exists>t. put h f s = Some (True, t) \<and> inv t \<and> q t = (q s)(h := q s h @ [f]) \<and> free t = free s - 1"
    and pop_inv: "inv s \<Longrightarrow> inv (pop h s)"
    and pop_q: "inv s \<Longrightarrow> q (pop h s) = (q s)(h := tl (q s h))"
    and pop_free: "inv s \<Longrightarrow> free (pop h s) = free s + (if q s h = [] then 0 else 1)"
begin

lemma put_total:
  "inv s \<Longrightarrow> fits f \<Longrightarrow> \<exists>r t. put h f s = Some (r, t) \<and> inv t \<and> (r \<longleftrightarrow> free s \<noteq> 0)
     \<and> q t = (if r then (q s)(h := q s h @ [f]) else q s)"
  using put_full [of s h f] put_ok [of s f h] by (cases "free s = 0") auto

text \<open>Appending a copy of a frame and then popping the first frame of a queue moves the frame.\<close>

lemma move:
  assumes "inv s" and "free s \<noteq> 0" and "fits f" and "q s a \<noteq> []" and "put b f s = Some (r, t)"
  shows "inv (pop a t)" and "free (pop a t) = free s"
    and "q (pop a t) = (if a = b then (q s)(a := tl (q s a) @ [f])
                        else (q s)(a := tl (q s a), b := q s b @ [f]))"
proof -
  have t: "inv t" "q t = (q s)(b := q s b @ [f])" "free t = free s - 1"
    using put_ok [OF assms(1,2,3), of b] assms(5) by auto
  show "inv (pop a t)" using t pop_inv by simp
  have "q t a \<noteq> []" using t(2) assms(4) by simp
  then show "free (pop a t) = free s" using t pop_free [of t a] assms(2) by simp
  have "tl (q s a @ [f]) = tl (q s a) @ [f]" using assms(4) by (cases "q s a") auto
  then show "q (pop a t) = (if a = b then (q s)(a := tl (q s a) @ [f])
                        else (q s)(a := tl (q s a), b := q s b @ [f]))"
    using t pop_q [of t a] by (auto simp: fun_eq_iff)
qed

text \<open>With no free place the frame is lost.\<close>

lemma move_full:
  assumes "inv s" and "free s = 0" and "put b f s = Some (r, t)"
  shows "inv (pop a t)" and "q (pop a t) = (q s)(a := tl (q s a))"
  using assms put_full [OF assms(1,2), of b f] pop_inv pop_q by auto

lemma drain:
  assumes "inv s"
  shows "inv ((pop a ^^ n) s) \<and> q ((pop a ^^ n) s) = (q s)(a := drop n (q s a))
    \<and> free ((pop a ^^ n) s) = free s + min n (length (q s a))"
proof (induction n)
  case 0
  then show ?case using assms by simp
next
  case (Suc n)
  then show ?case
    using pop_inv [of "(pop a ^^ n) s" a] pop_q [of "(pop a ^^ n) s" a] pop_free [of "(pop a ^^ n) s" a]
    by (auto simp: drop_Suc tl_drop fun_eq_iff min_def)
qed

end

definition pq_put :: "nat \<Rightarrow> nat \<Rightarrow> bytes \<Rightarrow> packetqueue \<Rightarrow> (bool \<times> packetqueue) option" where
  "pq_put lifetime h data s = map_option (\<lambda>(p, t). (p \<noteq> 0, t)) (uip_packetqueue_alloc h data lifetime s)"

definition frame_fits :: "bytes \<Rightarrow> bool" where "frame_fits f \<longleftrightarrow> length f \<le> PACKET_BUF_SIZE"

lemma frames_append:
  "packets t = (packets s)(h := packets s h @ [p]) \<Longrightarrow> frame_at t p = f \<Longrightarrow>
   (\<And>x. x \<noteq> p \<Longrightarrow> pkt_at t x = pkt_at s x) \<Longrightarrow> (\<And>k. p \<notin> set (packets s k)) \<Longrightarrow>
   frames t = (frames s)(h := frames s h @ [f])"
  by (rule ext) (auto simp: frames_def frame_at_def intro!: map_cong; metis)

interpretation pq: fifo_pool pq_inv frames uip_packetqueue_free_len frame_fits "pq_put lifetime"
  uip_packetqueue_pop for lifetime
proof
  show "pq_inv s \<Longrightarrow> uip_packetqueue_free_len s = 0 \<Longrightarrow> pq_put lifetime h f s = Some (False, s)" for s h f
    by (simp add: pq_put_def alloc_fail)
  fix s :: packetqueue and h and f :: bytes
  assume a: "pq_inv s" "uip_packetqueue_free_len s \<noteq> 0" "frame_fits f"
  obtain p t where t: "uip_packetqueue_alloc h f lifetime s = Some (p, t)" "p \<noteq> 0" "pq_inv t"
      "packets t = (packets s)(h := packets s h @ [p])" "p \<notin> used_blocks (packets_memb s)" "frame_at t p = f"
      "\<And>x. x \<noteq> p \<Longrightarrow> pkt_at t x = pkt_at s x" "uip_packetqueue_free_len t = uip_packetqueue_free_len s - 1"
    using alloc_step [of s f h lifetime] a by (auto simp: frame_fits_def)
  have "p \<notin> set (packets s k)" for k using pq_inv_queue(3) [OF a(1)] t(5) by blast
  then have "frames t = (frames s)(h := frames s h @ [f])" using frames_append t by blast
  then show "\<exists>t. pq_put lifetime h f s = Some (True, t) \<and> pq_inv t \<and> frames t = (frames s)(h := frames s h @ [f])
      \<and> uip_packetqueue_free_len t = uip_packetqueue_free_len s - 1"
    using t by (simp add: pq_put_def)
qed (simp_all add: pop_step)


section \<open>Properties\<close>

text \<open>
  C4.  The packet queues are first-in first-out queues over one pool: allocating appends the frame
  to its queue, and succeeds exactly when a buffer is free; popping removes the oldest frame and
  gives its buffer back; the other queues do not change, and the reading functions show the oldest
  frame and the length.
\<close>

theorem packetqueue_fifo:
  assumes "pq_inv s" and "length data \<le> PACKET_BUF_SIZE"
  shows "(\<exists>r t. uip_packetqueue_alloc h data lifetime s = Some (r, t) \<and> pq_inv t
            \<and> (r \<noteq> 0 \<longleftrightarrow> uip_packetqueue_free_len s \<noteq> 0)
            \<and> frames t = (if r \<noteq> 0 then (frames s)(h := frames s h @ [data]) else frames s))
      \<and> pq_inv (uip_packetqueue_pop h s)
      \<and> frames (uip_packetqueue_pop h s) = (frames s)(h := tl (frames s h))
      \<and> uip_packetqueue_free_len (uip_packetqueue_pop h s) =
           uip_packetqueue_free_len s + (if frames s h = [] then 0 else 1)
      \<and> uip_packetqueue_len h s = Some (length (frames s h))
      \<and> map_option (take (unat (uip_packetqueue_buflen h s))) (uip_packetqueue_buf h s) =
           (if frames s h = [] then None else Some (hd (frames s h)))"
proof (intro conjI)
  obtain r t where "pq_put lifetime h data s = Some (r, t)" "pq_inv t" "r \<longleftrightarrow> uip_packetqueue_free_len s \<noteq> 0"
      "frames t = (if r then (frames s)(h := frames s h @ [data]) else frames s)"
    using pq.put_total [OF assms(1), of data lifetime h] assms(2) by (auto simp: frame_fits_def)
  then show "\<exists>r t. uip_packetqueue_alloc h data lifetime s = Some (r, t) \<and> pq_inv t
            \<and> (r \<noteq> 0 \<longleftrightarrow> uip_packetqueue_free_len s \<noteq> 0)
            \<and> frames t = (if r \<noteq> 0 then (frames s)(h := frames s h @ [data]) else frames s)"
    by (auto simp: pq_put_def)
  show "map_option (take (unat (uip_packetqueue_buflen h s))) (uip_packetqueue_buf h s) =
           (if frames s h = [] then None else Some (hd (frames s h)))"
    using handle_list_packets [OF assms(1), of h]
    by (auto simp: uip_packetqueue_buf_def uip_packetqueue_buflen_def list_head_def frames_def hd_map frame_at_def)
qed (simp_all add: pop_step queue_reads assms(1))

theorem packetqueue_fifo_witness:
  "\<exists>r t. uip_packetqueue_alloc 5 [1, 2, 3] 60000 packetqueue_init = Some (r, t) \<and> frames t 5 = [[1, 2, 3]]"
proof -
  obtain r t where "uip_packetqueue_alloc 5 [1, 2, 3] 60000 packetqueue_init = Some (r, t)" "r \<noteq> 0"
      "frames t = (if r \<noteq> 0 then (frames packetqueue_init)(5 := frames packetqueue_init 5 @ [[1, 2, 3]])
                   else frames packetqueue_init)"
    using packetqueue_fifo [OF pq_inv_init(1), of "[1, 2, 3]" 5 60000]
    by (auto simp: pq_inv_init(4) PACKET_BUF_SIZE_def)
  then show ?thesis by (simp add: pq_inv_init)
qed

text \<open>
  When the lifetime of an allocated packet expires, that packet alone leaves its queue, the
  frames around it keep their order, its buffer is free again and no other queue changes; the call
  always ends, even for a packet whose handle was reset in the meantime.
\<close>

theorem packetqueue_timeout:
  assumes "pq_inv s" and "p \<in> used_blocks (packets_memb s)"
  shows "\<exists>t. lifetimer_expired p s = Some t \<and> pq_inv t
    \<and> (\<forall>h. frames t h = map (frame_at s) (filter (\<lambda>x. x \<noteq> p) (packets s h)))
    \<and> uip_packetqueue_free_len t = uip_packetqueue_free_len s + 1"
proof -
  let ?h = "pkt_handle (pkt_at s p)"
  obtain t where t: "lifetimer_expired p s = Some t" "pq_inv t"
      "frames t = (frames s)(?h := map (frame_at s) (remove1 p (packets s ?h)))"
      "uip_packetqueue_free_len t = uip_packetqueue_free_len s + 1"
    using timeout_step [OF assms refl] by auto
  have "remove1 p (packets s ?h) = filter (\<lambda>x. x \<noteq> p) (packets s ?h)"
    using distinct_remove1_removeAll [OF pq_inv_queue(2) [OF assms(1)]] by (simp add: removeAll_filter_not_eq eq_commute)
  moreover have "filter (\<lambda>x. x \<noteq> p) (packets s h) = packets s h" if "h \<noteq> ?h" for h
    using pq_inv_queue(5) [OF assms(1)] that by (auto simp: filter_id_conv)
  ultimately have "\<forall>h. frames t h = map (frame_at s) (filter (\<lambda>x. x \<noteq> p) (packets s h))"
    using t(3) by (auto simp: frames_def)
  then show ?thesis using t by blast
qed

theorem packetqueue_timeout_witness:
  "\<exists>s p t. p \<in> used_blocks (packets_memb s) \<and> frames s 5 = [[1, 2]] \<and> lifetimer_expired p s = Some t
     \<and> frames t 5 = []"
proof -
  obtain p s where s: "pq_inv s" "packets s = (packets packetqueue_init)(5 := packets packetqueue_init 5 @ [p])"
      "frame_at s p = [1, 2]"
    using alloc_step [OF pq_inv_init(1), of "[1, 2]" 5 7] by (auto simp: pq_inv_init PACKET_BUF_SIZE_def)
  have p: "packets s 5 = [p]" "p \<in> used_blocks (packets_memb s)"
    using s pq_inv_queue(3) [OF s(1), of 5] by (auto simp: pq_inv_init)
  obtain t where "lifetimer_expired p s = Some t"
      "\<forall>h. frames t h = map (frame_at s) (filter (\<lambda>x. x \<noteq> p) (packets s h))"
    using packetqueue_timeout [OF s(1) p(2)] by auto
  then show ?thesis using p s(3) by (intro exI [of _ s] exI [of _ p] exI [of _ t]) (simp add: frames_def)
qed

text \<open>Calls and timer expirations in any order.\<close>

datatype pq_event = PqAlloc nat bytes nat | PqPop nat | PqNew nat | PqExpire addr

fun pq_event_step :: "pq_event \<Rightarrow> packetqueue \<Rightarrow> packetqueue option" where
  "pq_event_step (PqAlloc h data lifetime) s = map_option snd (uip_packetqueue_alloc h data lifetime s)"
| "pq_event_step (PqPop h) s = Some (uip_packetqueue_pop h s)"
| "pq_event_step (PqNew h) s = Some (uip_packetqueue_new h s)"
| "pq_event_step (PqExpire p) s = lifetimer_expired p s"

fun pq_run :: "pq_event list \<Rightarrow> packetqueue \<Rightarrow> packetqueue option" where
  "pq_run [] s = Some s"
| "pq_run (e # es) s = (case pq_event_step e s of None \<Rightarrow> None | Some t \<Rightarrow> pq_run es t)"

fun pq_event_fits :: "pq_event \<Rightarrow> bool" where
  "pq_event_fits (PqAlloc h data lifetime) = (length data \<le> PACKET_BUF_SIZE)"
| "pq_event_fits _ = True"

lemma pq_event_step_ok: "pq_inv s \<Longrightarrow> pq_event_fits e \<Longrightarrow> \<exists>t. pq_event_step e s = Some t \<and> pq_inv t"
proof (cases e)
  case (PqAlloc h data lifetime)
  assume "pq_inv s" "pq_event_fits e"
  then show ?thesis
    using pq.put_total [of s data lifetime h] PqAlloc by (auto simp: frame_fits_def pq_put_def)
next
  case (PqExpire p)
  assume "pq_inv s"
  then show ?thesis
    using timeout_step [of s p] timeout_free [of s p] PqExpire
    by (cases "p \<in> used_blocks (packets_memb s)") fastforce+
qed (auto simp: pop_step new_step)

text \<open>
  Every sequence of calls and timer expirations from boot runs to its end, as long as no frame
  is longer than a packet buffer, and the queues stay well formed; so no operation ever walks
  into a cycle or frees a packet twice.
\<close>

theorem packetqueue_runs:
  assumes "list_all pq_event_fits es"
  shows "\<exists>t. pq_run es packetqueue_init = Some t \<and> pq_inv t"
proof -
  have "pq_inv s \<Longrightarrow> \<exists>t. pq_run es s = Some t \<and> pq_inv t" for s
    using assms
  proof (induction es arbitrary: s)
    case (Cons e es)
    then show ?case using pq_event_step_ok [of s e] by auto
  qed simp
  then show ?thesis using pq_inv_init(1) by blast
qed

theorem packetqueue_runs_witness:
  "\<exists>t. pq_run [PqAlloc 1 [7] 10, PqAlloc 2 [8, 9] 10, PqExpire 1, PqNew 2, PqExpire 2, PqPop 1] packetqueue_init
     = Some t \<and> pq_inv t"
  using packetqueue_runs
    [of "[PqAlloc 1 [7] 10, PqAlloc 2 [8, 9] 10, PqExpire 1, PqNew 2, PqExpire 2, PqPop 1]"]
  by (simp add: PACKET_BUF_SIZE_def)

end
