(* ===== verification/Node_Queue.thy ===== *)
theory Node_Queue
  imports Packet_Queue Crc
begin

text \<open>
  The node queues (\<^verbatim>\<open>src/node_queue.c\<close>): frames for the Z-Wave network wait in the first attempt
  queue or in the long queue, one frame is being sent at a time, and the outcome of a transmission
  decides whether the frame is dropped, kept, moved to the long queue or handed to the mailbox.

  The packet queues are those of \<^verbatim>\<open>Packet_Queue\<close>.  The resource directory, the address
  resolution, the configuration and the sender \<^verbatim>\<open>ClassicZIPNode_input\<close> belong to other parts
  of the gateway and are parameters (\<open>nq_env\<close>, \<open>zip_input_reply\<close>); calls into them are recorded
  in a log.  \<open>None\<close> stands for an access through a null pointer, a buffer overrun or a loop that does not
  end; a failed assertion only prints a message (\<^verbatim>\<open>contiki/core/lib/assert.c\<close>).
\<close>

section \<open>State and environment\<close>

datatype en_queue_state = QS_IDLE | QS_SENDING_FIRST | QS_SENDING_LONG

datatype nq_effect =
    Mb_post_uipbuf bytes
  | Mb_node_transmission_ok nodeid
  | Post_queue_updated
  | Post_component_done
  | Set_tx_options u8
  | Send_nack bool
  | Zip_node_input nodeid bytes bool
  | Keep_alive_ack nodeid
  | Dtls_input bytes
  | Extend_probe_timeout
  | Abort_sending

record nq_env =
  node_of_ip :: "bytes \<Rightarrow> nodeid"
  rd_get_node_mode :: "nodeid \<Rightarrow> u16"
  mb_conf_mode :: nat
  newly_included :: nodeid
  uip_ext_len :: u8

text \<open>The callback gets a buffer and the number of bytes of the frame in it; \<open>None\<close> is the null pointer.\<close>

type_synonym sent_buffer = "bytes \<times> u16"

definition sent_frame :: "sent_buffer \<Rightarrow> bytes" where
  "sent_frame sent = take (unat (snd sent)) (fst sent)"

text \<open>What the sender does while it is called: it may report at once, and it returns a truth value.\<close>

record zip_input_reply =
  reply_callback :: "(u8 \<times> sent_buffer option) option"
  reply_value :: bool

text \<open>\<open>uip_buf\<close> is the packet buffer from \<^verbatim>\<open>UIP_LLH_LEN\<close> on.\<close>

record node_queue =
  nq_packets :: packetqueue
  queue_state :: en_queue_state
  black_list_crc32 :: "u32 list"
  black_list_n :: u8
  uip_buf :: bytes
  uip_len :: u16
  queue_timer :: bool
  nq_log :: "nq_effect list"

definition first_attempt_queue :: nat where "first_attempt_queue = 1"
definition long_queue :: nat where "long_queue = 2"

definition BLACKLIST_LENGTH :: nat where "BLACKLIST_LENGTH = 2"

definition TRANSMIT_COMPLETE_OK :: u8 where "TRANSMIT_COMPLETE_OK = 0"
definition TRANSMIT_COMPLETE_NO_ACK :: u8 where "TRANSMIT_COMPLETE_NO_ACK = 1"
definition TRANSMIT_COMPLETE_FAIL :: u8 where "TRANSMIT_COMPLETE_FAIL = 2"
definition TRANSMIT_COMPLETE_ERROR :: u8 where "TRANSMIT_COMPLETE_ERROR = 0xFF"
definition TRANSMIT_COMPLETE_REQUEUE :: u8 where "TRANSMIT_COMPLETE_REQUEUE = 0xFE"
definition TRANSMIT_COMPLETE_REQUEUE_QUEUED :: u8 where "TRANSMIT_COMPLETE_REQUEUE_QUEUED = 0xFD"

definition MODE_FREQUENTLYLISTENING :: u16 where "MODE_FREQUENTLYLISTENING = 3"
definition MODE_MAILBOX :: u16 where "MODE_MAILBOX = 4"

definition UIP_IPH_LEN :: nat where "UIP_IPH_LEN = 40"
definition UIP_IPUDPH_LEN :: nat where "UIP_IPUDPH_LEN = 48"
definition ZWAVE_PORT :: u16 where "ZWAVE_PORT = 4123"
definition DTLS_PORT :: u16 where "DTLS_PORT = 41230"

definition nq_emit :: "nq_effect \<Rightarrow> node_queue \<Rightarrow> node_queue" where
  "nq_emit e s = s \<lparr> nq_log := nq_log s @ [e] \<rparr>"

text \<open>The frame in the packet buffer, and a 16-bit field in network order.\<close>

definition uip_frame :: "node_queue \<Rightarrow> bytes" where
  "uip_frame s = take (unat (uip_len s)) (uip_buf s)"

definition be16 :: "bytes \<Rightarrow> nat \<Rightarrow> u16" where
  "be16 b i = push_bit 8 (ucast (b ! i)) OR ucast (b ! (i + 1))"

text \<open>The destination address field of the IPv6 header.\<close>

definition destipaddr :: "bytes \<Rightarrow> bytes" where "destipaddr b = take 16 (drop 24 b)"

section \<open>Duplicate detection\<close>

definition fingerprint :: "bytes \<Rightarrow> u32" where "fingerprint f = crc32 f 0xFFFF"

definition add_fingerprint_uip_buf :: "node_queue \<Rightarrow> node_queue" where
  "add_fingerprint_uip_buf s =
     (let n = black_list_n s;
          s = s \<lparr> black_list_crc32 := (black_list_crc32 s)[unat n := fingerprint (uip_frame s)] \<rparr>;
          n = n + 1
      in s \<lparr> black_list_n := (if unat n \<ge> BLACKLIST_LENGTH then 0 else n) \<rparr>)"

text \<open>The local \<^verbatim>\<open>crc\<close> is a \<^verbatim>\<open>uint16_t\<close>: the checksum is truncated before the comparison.\<close>

definition check_fingerprint_uip_buf :: "node_queue \<Rightarrow> bool" where
  "check_fingerprint_uip_buf s =
     (let crc = (ucast (fingerprint (uip_frame s)) :: u16)
      in list_ex (\<lambda>b. ucast crc = b) (black_list_crc32 s))"

section \<open>Queueing a frame\<close>

partial_function (option) queued_elements_loop ::
  "nq_env \<Rightarrow> packetqueue \<Rightarrow> nodeid \<Rightarrow> addr \<Rightarrow> addr option" where
  "queued_elements_loop env q node p =
     (if p = 0 then Some 0
      else if node_of_ip env (destipaddr (queue_buf (pkt_at q p))) = node then Some p
      else queued_elements_loop env q node (list_item_next (pkt_next q) p))"

definition queued_elements_existes :: "nq_env \<Rightarrow> packetqueue \<Rightarrow> nodeid \<Rightarrow> addr option" where
  "queued_elements_existes env q node =
     queued_elements_loop env q node (list_head (handle_list q long_queue))"

definition handle_keep_alive :: "nq_env \<Rightarrow> u8 \<Rightarrow> node_queue \<Rightarrow> node_queue" where
  "handle_keep_alive env ack_req_byte s =
     (if ack_req_byte AND 0x80 \<noteq> 0
      then nq_emit (Keep_alive_ack (node_of_ip env (destipaddr (uip_buf s)))) s else s)"

text \<open>Whether a frame for the node skips the first attempt queue.\<close>

definition use_long_q :: "nq_env \<Rightarrow> nodeid \<Rightarrow> packetqueue \<Rightarrow> bool option" where
  "use_long_q env node q =
     (let node_rd_mode = rd_get_node_mode env node
      in if mb_conf_mode env = 0 \<or> node_rd_mode \<noteq> MODE_MAILBOX then
           (case queued_elements_existes env q node of
              None \<Rightarrow> None
            | Some p \<Rightarrow>
                if p \<noteq> 0 then Some True
                else if node_rd_mode AND 0xFF = MODE_FREQUENTLYLISTENING then Some True
                else (case (uip_packetqueue_len first_attempt_queue q, uip_packetqueue_len long_queue q) of
                        (Some m, Some n) \<Rightarrow> Some (m = 0 \<and> n = 0)
                      | _ \<Rightarrow> None))
         else Some False)"

definition node_input_enqueue :: "nq_env \<Rightarrow> nodeid \<Rightarrow> node_queue \<Rightarrow> (bool \<times> node_queue) option" where
  "node_input_enqueue env node s =
     (case use_long_q env node (nq_packets s) of
        None \<Rightarrow> None
      | Some long \<Rightarrow>
          (case uip_packetqueue_alloc (if long then long_queue else first_attempt_queue)
                  (uip_frame s) 60000 (nq_packets s) of
             None \<Rightarrow> None
           | Some (p, q) \<Rightarrow>
               Some (p \<noteq> 0, nq_emit Post_queue_updated (s \<lparr> nq_packets := q \<rparr>))))"

definition node_input_queued :: "nq_env \<Rightarrow> nodeid \<Rightarrow> bool \<Rightarrow> node_queue \<Rightarrow> (bool \<times> node_queue) option" where
  "node_input_queued env node decrypted s =
     (let destport = be16 (uip_buf s) (UIP_IPH_LEN + unat (uip_ext_len env) + 2);
          cc = drop UIP_IPUDPH_LEN (uip_buf s)
      in if destport = DTLS_PORT \<and> \<not> decrypted then
           (let s = s \<lparr> uip_len := uip_len s - of_nat UIP_IPUDPH_LEN \<rparr>
            in Some (True, nq_emit (Dtls_input (take (unat (uip_len s)) cc)) s))
         else if (destport = DTLS_PORT \<or> destport = ZWAVE_PORT) \<and> cc ! 0 = 0x23 \<and> cc ! 1 = 0x03 then
           Some (True, handle_keep_alive env (cc ! 2) s)
         else if check_fingerprint_uip_buf s then Some (True, s)
         else node_input_enqueue env node (add_fingerprint_uip_buf s))"

section \<open>Sending\<close>

definition queue_send_timeout :: "node_queue \<Rightarrow> node_queue" where
  "queue_send_timeout s = nq_emit Abort_sending s"

text \<open>\<^verbatim>\<open>is_zip_pkt\<close> of \<^verbatim>\<open>Mailbox.c\<close>.\<close>

definition is_zip_pkt :: "nq_env \<Rightarrow> bytes \<Rightarrow> bool" where
  "is_zip_pkt env pkt =
     (let destport = be16 pkt (UIP_IPH_LEN + unat (uip_ext_len env) + 2)
      in if pkt ! 6 \<noteq> 17 then False
         else if destport \<noteq> DTLS_PORT \<and> destport \<noteq> ZWAVE_PORT then False
         else if pkt ! UIP_IPUDPH_LEN \<noteq> 0x23 then False
         else if pkt ! (UIP_IPUDPH_LEN + 1) \<noteq> 0x02 then False
         else True)"

definition is_wu_no_more_info_frame :: "nq_env \<Rightarrow> bytes \<Rightarrow> bool" where
  "is_wu_no_more_info_frame env pkt =
     (if is_zip_pkt env pkt then
        (let zip_pkt = drop UIP_IPUDPH_LEN pkt;
             ext_hdr_len = (if (zip_pkt ! 3) AND 0x80 \<noteq> 0 then unat (zip_pkt ! 7) else 0);
             pCmd = drop (7 + ext_hdr_len) zip_pkt
         in pCmd ! 0 = 0x84 \<and> pCmd ! 1 = 0x08)
      else False)"

definition isPacketRequeued :: "bytes \<Rightarrow> bool" where "isPacketRequeued buf \<longleftrightarrow> (buf ! 0) AND 1 \<noteq> 0"

definition setPacketRequeued :: "bytes \<Rightarrow> bytes" where "setPacketRequeued buf = buf[0 := (buf ! 0) OR 1]"

definition queue_move_to_mailbox ::
  "nq_env \<Rightarrow> u16 \<Rightarrow> sent_buffer \<Rightarrow> node_queue \<Rightarrow> bool \<times> node_queue" where
  "queue_move_to_mailbox env node_rd_mode sent s =
     (if mb_conf_mode env \<noteq> 0 \<and> node_rd_mode = MODE_MAILBOX then
        (if is_wu_no_more_info_frame env (fst sent) then (False, s)
         else (let f = sent_frame sent
               in (True, nq_emit (Mb_post_uipbuf f)
                          (s \<lparr> uip_buf := f @ drop (length f) (uip_buf s), uip_len := 0 \<rparr>))))
      else (False, s))"

definition requeue_long :: "sent_buffer \<Rightarrow> node_queue \<Rightarrow> node_queue option" where
  "requeue_long sent s =
     (case uip_packetqueue_alloc long_queue (sent_frame sent) 60000 (nq_packets s) of
        None \<Rightarrow> None
      | Some (p, q) \<Rightarrow> Some (s \<lparr> nq_packets := q \<rparr>))"

definition nq_pop :: "nat \<Rightarrow> node_queue \<Rightarrow> node_queue" where
  "nq_pop h s = s \<lparr> nq_packets := uip_packetqueue_pop h (nq_packets s) \<rparr>"

definition sending_queue :: "en_queue_state \<Rightarrow> nat" where
  "sending_queue st = (if st = QS_SENDING_FIRST then first_attempt_queue else long_queue)"

definition queue_send_done :: "nq_env \<Rightarrow> u8 \<Rightarrow> sent_buffer option \<Rightarrow> node_queue \<Rightarrow> node_queue option" where
  "queue_send_done env status sent s0 =
     (let s = s0 \<lparr> queue_timer := False \<rparr>
      in if queue_state s = QS_IDLE then Some s
      else (case uip_packetqueue_buf (sending_queue (queue_state s)) (nq_packets s) of
        None \<Rightarrow> Some (s \<lparr> queue_state := QS_IDLE \<rparr>)
      | Some data \<Rightarrow>
        (let node = node_of_ip env (destipaddr data);
             node_rd_mode = rd_get_node_mode env node;
             s = (if status = TRANSMIT_COMPLETE_OK then nq_emit (Mb_node_transmission_ok node) s else s)
         in if status = TRANSMIT_COMPLETE_REQUEUE then Some (s \<lparr> queue_state := QS_IDLE \<rparr>)
            else if status = TRANSMIT_COMPLETE_REQUEUE_QUEUED then
              (case sent of
                 None \<Rightarrow> None
               | Some (buf, len) \<Rightarrow>
                   (case (case queue_move_to_mailbox env node_rd_mode (buf, len) s of
                            (moved, s) \<Rightarrow>
                              if \<not> moved then
                                requeue_long (if node_rd_mode AND 0xFF \<noteq> MODE_FREQUENTLYLISTENING
                                              then setPacketRequeued buf else buf, len) s
                              else Some s) of
                      None \<Rightarrow> None
                    | Some s \<Rightarrow>
                        Some ((nq_pop (sending_queue (queue_state s)) s) \<lparr> queue_state := QS_IDLE \<rparr>)))
            else
              (case (if queue_state s = QS_SENDING_FIRST then
                       (case (if status = TRANSMIT_COMPLETE_NO_ACK then sent else None) of
                          None \<Rightarrow> Some s
                        | Some (buf, len) \<Rightarrow>
                            if len = 0 then Some s
                            else (case queue_move_to_mailbox env node_rd_mode (buf, len) s of
                                    (moved, s) \<Rightarrow>
                                      if \<not> moved then requeue_long (setPacketRequeued buf, len) s else Some s))
                     else Some s) of
                 None \<Rightarrow> None
               | Some s \<Rightarrow>
                   Some (nq_emit Post_queue_updated
                     ((nq_pop (sending_queue (queue_state s)) s) \<lparr> queue_state := QS_IDLE \<rparr>))))))"

text \<open>The first half of \<^verbatim>\<open>process_node_queues\<close>: choose the queue to send from.\<close>

definition select_queue :: "node_queue \<Rightarrow> (nat option \<times> node_queue) option" where
  "select_queue s =
     (if queue_state s = QS_IDLE then
        (case uip_packetqueue_len first_attempt_queue (nq_packets s) of
           None \<Rightarrow> None
         | Some m \<Rightarrow>
             if m \<noteq> 0 then
               Some (Some first_attempt_queue,
                 (nq_emit (Send_nack False) (nq_emit (Set_tx_options 0x01) (s \<lparr> queue_state := QS_SENDING_FIRST \<rparr>)))
                   \<lparr> queue_timer := True \<rparr>)
             else (case uip_packetqueue_len long_queue (nq_packets s) of
                     None \<Rightarrow> None
                   | Some n \<Rightarrow>
                       if n \<noteq> 0 then
                         Some (Some long_queue,
                           nq_emit (Send_nack True) (nq_emit (Set_tx_options 0x25) (s \<lparr> queue_state := QS_SENDING_LONG \<rparr>)))
                       else Some (None, s)))
      else Some (None, s))"

text \<open>
  The call of \<^verbatim>\<open>ClassicZIPNode_input\<close>: it may report through \<^verbatim>\<open>queue_send_done\<close> before it
  returns, and a refused frame is reported as failed.
\<close>

definition zip_input_called :: "nq_env \<Rightarrow> zip_input_reply \<Rightarrow> node_queue \<Rightarrow> node_queue option" where
  "zip_input_called env reply s =
     (case (case reply_callback reply of
              None \<Rightarrow> Some s
            | Some (status, sent) \<Rightarrow> queue_send_done env status sent s) of
        None \<Rightarrow> None
      | Some s \<Rightarrow> if reply_value reply then Some s else queue_send_done env TRANSMIT_COMPLETE_FAIL None s)"

definition send_from :: "nq_env \<Rightarrow> zip_input_reply \<Rightarrow> nat \<Rightarrow> node_queue \<Rightarrow> node_queue option" where
  "send_from env reply q s =
     (let len = uip_packetqueue_buflen q (nq_packets s); s = s \<lparr> uip_len := len \<rparr>
      in if len \<noteq> 0 then
           (case uip_packetqueue_buf q (nq_packets s) of
              None \<Rightarrow> None
            | Some data \<Rightarrow>
                (let s = s \<lparr> uip_buf := take (unat len) data @ drop (unat len) (uip_buf s) \<rparr>;
                     node = node_of_ip env (destipaddr (uip_buf s))
                 in (let s = (if node = newly_included env then nq_emit Extend_probe_timeout s else s);
                         s = nq_emit (Zip_node_input node (uip_frame s) (isPacketRequeued data)) s
                     in map_option (\<lambda>s. s \<lparr> uip_len := 0 \<rparr>) (zip_input_called env reply s))))
         else Some (nq_pop q (s \<lparr> queue_state := QS_IDLE \<rparr>)))"

definition process_node_queues :: "nq_env \<Rightarrow> zip_input_reply \<Rightarrow> node_queue \<Rightarrow> node_queue option" where
  "process_node_queues env reply s =
     (case select_queue s of
        None \<Rightarrow> None
      | Some (None, s) \<Rightarrow> Some (nq_emit Post_component_done s)
      | Some (Some q, s) \<Rightarrow> send_from env reply q s)"

partial_function (option) drain_queue :: "nat \<Rightarrow> packetqueue \<Rightarrow> packetqueue option" where
  "drain_queue h q =
     (case uip_packetqueue_len h q of
        None \<Rightarrow> None
      | Some n \<Rightarrow> if n \<noteq> 0 then drain_queue h (uip_packetqueue_pop h q) else Some q)"

definition node_queue_init :: "node_queue \<Rightarrow> node_queue option" where
  "node_queue_init s =
     (case (if queue_state s \<noteq> QS_IDLE
            then (case drain_queue first_attempt_queue (nq_packets s) of
                    None \<Rightarrow> None | Some q \<Rightarrow> drain_queue long_queue q)
            else Some (nq_packets s)) of
        None \<Rightarrow> None
      | Some q \<Rightarrow>
          Some (s \<lparr> nq_packets := uip_packetqueue_new long_queue (uip_packetqueue_new first_attempt_queue q),
                   queue_state := QS_IDLE \<rparr>))"

definition get_queue_state :: "node_queue \<Rightarrow> en_queue_state" where
  "get_queue_state s = queue_state s"

definition node_queue_idle :: "node_queue \<Rightarrow> bool option" where
  "node_queue_idle s =
     (if get_queue_state s = QS_IDLE then
        (case uip_packetqueue_len first_attempt_queue (nq_packets s) of
           None \<Rightarrow> None
         | Some m \<Rightarrow>
             if m = 0 then (case uip_packetqueue_len long_queue (nq_packets s) of
                              None \<Rightarrow> None | Some n \<Rightarrow> Some (n = 0))
             else Some False)
      else Some False)"


section \<open>The queues as sequences of frames\<close>

abbreviation nq_frames :: "node_queue \<Rightarrow> nat \<Rightarrow> bytes list" where
  "nq_frames s \<equiv> frames (nq_packets s)"

abbreviation nq_free :: "node_queue \<Rightarrow> nat" where
  "nq_free s \<equiv> uip_packetqueue_free_len (nq_packets s)"

abbreviation nq_sending :: "node_queue \<Rightarrow> nat" where
  "nq_sending s \<equiv> sending_queue (queue_state s)"

lemma queues_differ [simp]: "first_attempt_queue \<noteq> long_queue" "long_queue \<noteq> first_attempt_queue"
  by (simp_all add: first_attempt_queue_def long_queue_def)

lemma sending_queue_simps [simp]:
  "sending_queue QS_SENDING_FIRST = first_attempt_queue" "sending_queue QS_SENDING_LONG = long_queue"
  by (simp_all add: sending_queue_def)

lemma nq_emit_simps [simp]:
  "nq_packets (nq_emit e s) = nq_packets s" "queue_state (nq_emit e s) = queue_state s"
  "black_list_crc32 (nq_emit e s) = black_list_crc32 s" "black_list_n (nq_emit e s) = black_list_n s"
  "uip_buf (nq_emit e s) = uip_buf s" "uip_len (nq_emit e s) = uip_len s"
  "queue_timer (nq_emit e s) = queue_timer s" "nq_log (nq_emit e s) = nq_log s @ [e]"
  by (simp_all add: nq_emit_def)

lemma nq_pop_simps [simp]:
  "nq_packets (nq_pop h s) = uip_packetqueue_pop h (nq_packets s)" "queue_state (nq_pop h s) = queue_state s"
  "black_list_crc32 (nq_pop h s) = black_list_crc32 s" "black_list_n (nq_pop h s) = black_list_n s"
  "uip_buf (nq_pop h s) = uip_buf s" "uip_len (nq_pop h s) = uip_len s"
  "queue_timer (nq_pop h s) = queue_timer s" "nq_log (nq_pop h s) = nq_log s"
  by (simp_all add: nq_pop_def)

text \<open>What becomes of the frame at the head of the sending queue.\<close>

datatype fate = Keep | Drop | To_mailbox bytes | To_long bytes

definition wants_mailbox :: "nq_env \<Rightarrow> u16 \<Rightarrow> bytes \<Rightarrow> bool" where
  "wants_mailbox env mode buf \<longleftrightarrow>
     mb_conf_mode env \<noteq> 0 \<and> mode = MODE_MAILBOX \<and> \<not> is_wu_no_more_info_frame env buf"

fun frame_fate :: "nq_env \<Rightarrow> u8 \<Rightarrow> en_queue_state \<Rightarrow> u16 \<Rightarrow> sent_buffer option \<Rightarrow> fate" where
  "frame_fate env status st mode sent =
     (if status = TRANSMIT_COMPLETE_REQUEUE then Keep
      else (case sent of
              None \<Rightarrow> Drop
            | Some (buf, len) \<Rightarrow>
                if status = TRANSMIT_COMPLETE_REQUEUE_QUEUED
                   \<or> (status = TRANSMIT_COMPLETE_NO_ACK \<and> st = QS_SENDING_FIRST \<and> len \<noteq> 0)
                then if wants_mailbox env mode buf then To_mailbox (sent_frame (buf, len))
                     else if status = TRANSMIT_COMPLETE_REQUEUE_QUEUED \<and> mode AND 0xFF = MODE_FREQUENTLYLISTENING
                          then To_long (sent_frame (buf, len))
                          else To_long (sent_frame (setPacketRequeued buf, len))
                else Drop))"

text \<open>The effect of a fate on the two queues; \<open>q\<close> is the sending queue.\<close>

fun fate_frames :: "fate \<Rightarrow> nat \<Rightarrow> bool \<Rightarrow> (nat \<Rightarrow> bytes list) \<Rightarrow> nat \<Rightarrow> bytes list" where
  "fate_frames Keep q room fr = fr"
| "fate_frames Drop q room fr = fr(q := tl (fr q))"
| "fate_frames (To_mailbox f) q room fr = fr(q := tl (fr q))"
| "fate_frames (To_long f) q room fr =
     (if \<not> room then fr(q := tl (fr q))
      else if q = long_queue then fr(q := tl (fr q) @ [f])
      else fr(q := tl (fr q), long_queue := fr long_queue @ [f]))"

fun fate_posts :: "fate \<Rightarrow> nq_effect list" where
  "fate_posts (To_mailbox f) = [Mb_post_uipbuf f]"
| "fate_posts _ = []"

definition head_mode :: "nq_env \<Rightarrow> node_queue \<Rightarrow> u16" where
  "head_mode env s =
     (case uip_packetqueue_buf (nq_sending s) (nq_packets s) of
        None \<Rightarrow> 0 | Some data \<Rightarrow> rd_get_node_mode env (node_of_ip env (destipaddr data)))"

definition sent_ok :: "u8 \<Rightarrow> sent_buffer option \<Rightarrow> bool" where
  "sent_ok status sent \<longleftrightarrow>
     (case sent of
        None \<Rightarrow> status \<noteq> TRANSMIT_COMPLETE_REQUEUE_QUEUED
      | Some (buf, len) \<Rightarrow> unat len \<le> PACKET_BUF_SIZE)"

lemma sent_frame_fits: "unat len \<le> PACKET_BUF_SIZE \<Longrightarrow> frame_fits (sent_frame (buf, len))"
  by (simp add: sent_frame_def frame_fits_def)

lemma status_distinct [simp]:
  "TRANSMIT_COMPLETE_REQUEUE \<noteq> TRANSMIT_COMPLETE_REQUEUE_QUEUED"
  "TRANSMIT_COMPLETE_REQUEUE_QUEUED \<noteq> TRANSMIT_COMPLETE_REQUEUE"
  "TRANSMIT_COMPLETE_NO_ACK \<noteq> TRANSMIT_COMPLETE_REQUEUE" "TRANSMIT_COMPLETE_NO_ACK \<noteq> TRANSMIT_COMPLETE_REQUEUE_QUEUED"
  "TRANSMIT_COMPLETE_FAIL \<noteq> TRANSMIT_COMPLETE_REQUEUE" "TRANSMIT_COMPLETE_FAIL \<noteq> TRANSMIT_COMPLETE_REQUEUE_QUEUED"
  "TRANSMIT_COMPLETE_FAIL \<noteq> TRANSMIT_COMPLETE_NO_ACK" "TRANSMIT_COMPLETE_FAIL \<noteq> TRANSMIT_COMPLETE_OK"
  "TRANSMIT_COMPLETE_NO_ACK \<noteq> TRANSMIT_COMPLETE_OK" "TRANSMIT_COMPLETE_REQUEUE_QUEUED \<noteq> TRANSMIT_COMPLETE_OK"
  "TRANSMIT_COMPLETE_REQUEUE \<noteq> TRANSMIT_COMPLETE_OK"
  by (simp_all add: TRANSMIT_COMPLETE_REQUEUE_def TRANSMIT_COMPLETE_REQUEUE_QUEUED_def TRANSMIT_COMPLETE_NO_ACK_def
      TRANSMIT_COMPLETE_FAIL_def TRANSMIT_COMPLETE_OK_def)

text \<open>Moving to the long queue and popping, seen as one step on the frames.\<close>

lemma requeue_pop:
  assumes inv: "pq_inv (nq_packets s)" and len: "unat len \<le> PACKET_BUF_SIZE" and ne: "nq_frames s q \<noteq> []"
  shows "\<exists>p. requeue_long (buf, len) s = Some (s \<lparr> nq_packets := p \<rparr>) \<and> pq_inv (uip_packetqueue_pop q p)
    \<and> frames (uip_packetqueue_pop q p) =
        fate_frames (To_long (sent_frame (buf, len))) q (nq_free s \<noteq> 0) (nq_frames s)"
proof -
  note fits = sent_frame_fits [OF len, of buf]
  obtain r p where p: "pq_put 60000 long_queue (sent_frame (buf, len)) (nq_packets s) = Some (r, p)"
    using pq.put_total [OF inv fits, of 60000 long_queue] by auto
  then have e: "requeue_long (buf, len) s = Some (s \<lparr> nq_packets := p \<rparr>)"
    by (auto simp: requeue_long_def pq_put_def)
  show ?thesis
  proof (cases "nq_free s = 0")
    case True
    then show ?thesis using e pq.move_full [OF inv True p, of q] by auto
  next
    case False
    then show ?thesis using e pq.move [OF inv False fits ne p] by (auto simp: fun_upd_twist)
  qed
qed


lemma move_to_mailbox_cases:
  "queue_move_to_mailbox env mode (buf, len) s =
     (if wants_mailbox env mode buf
      then (True, nq_emit (Mb_post_uipbuf (sent_frame (buf, len)))
              (s \<lparr> uip_buf := sent_frame (buf, len) @ drop (length (sent_frame (buf, len))) (uip_buf s), uip_len := 0 \<rparr>))
      else (False, s))"
  by (simp add: queue_move_to_mailbox_def wants_mailbox_def Let_def)

definition done_events :: "nq_env \<Rightarrow> u8 \<Rightarrow> node_queue \<Rightarrow> nq_effect list" where
  "done_events env status s =
     (if status = TRANSMIT_COMPLETE_OK
      then [Mb_node_transmission_ok (node_of_ip env (destipaddr (the (uip_packetqueue_buf (nq_sending s) (nq_packets s)))))]
      else [])"

definition update_events :: "u8 \<Rightarrow> nq_effect list" where
  "update_events status =
     (if status = TRANSMIT_COMPLETE_REQUEUE \<or> status = TRANSMIT_COMPLETE_REQUEUE_QUEUED then []
      else [Post_queue_updated])"

text \<open>What a callback leaves behind: the queues, the log and the parts it must not touch.\<close>

definition done_result :: "nq_env \<Rightarrow> u8 \<Rightarrow> sent_buffer option \<Rightarrow> node_queue \<Rightarrow> node_queue \<Rightarrow> bool" where
  "done_result env status sent s t \<longleftrightarrow>
     (let fate = frame_fate env status (queue_state s) (head_mode env s) sent
      in pq_inv (nq_packets t) \<and> queue_state t = QS_IDLE \<and> \<not> queue_timer t
         \<and> nq_frames t = fate_frames fate (nq_sending s) (nq_free s \<noteq> 0) (nq_frames s)
         \<and> nq_log t = nq_log s @ done_events env status s @ fate_posts fate @ update_events status
         \<and> black_list_crc32 t = black_list_crc32 s \<and> black_list_n t = black_list_n s)"

lemma head_frames:
  "pq_inv (nq_packets s) \<Longrightarrow> uip_packetqueue_buf h (nq_packets s) = Some data \<Longrightarrow> nq_frames s h \<noteq> []"
  using queue_reads(3) [of "nq_packets s" h] by auto

lemma head_mode_eq:
  "uip_packetqueue_buf (nq_sending s) (nq_packets s) = Some data \<Longrightarrow>
   head_mode env s = rd_get_node_mode env (node_of_ip env (destipaddr data))"
  by (simp add: head_mode_def)

lemma done_requeue:
  assumes "pq_inv (nq_packets s)" and "queue_state s \<noteq> QS_IDLE"
    and "uip_packetqueue_buf (nq_sending s) (nq_packets s) = Some data"
  shows "\<exists>t. queue_send_done env TRANSMIT_COMPLETE_REQUEUE sent s = Some t
    \<and> done_result env TRANSMIT_COMPLETE_REQUEUE sent s t"
  using assms
  by (auto simp: queue_send_done_def done_result_def Let_def done_events_def update_events_def)

lemma done_requeue_queued:
  assumes inv: "pq_inv (nq_packets s)" and busy: "queue_state s \<noteq> QS_IDLE"
    and data: "uip_packetqueue_buf (nq_sending s) (nq_packets s) = Some data"
    and len: "unat len \<le> PACKET_BUF_SIZE"
  shows "\<exists>t. queue_send_done env TRANSMIT_COMPLETE_REQUEUE_QUEUED (Some (buf, len)) s = Some t
    \<and> done_result env TRANSMIT_COMPLETE_REQUEUE_QUEUED (Some (buf, len)) s t"
proof (cases "wants_mailbox env (head_mode env s) buf")
  case True
  then show ?thesis
    using inv busy data pop_step [OF inv, of "nq_sending s"] head_mode_eq [OF data]
    by (auto simp: queue_send_done_def done_result_def Let_def move_to_mailbox_cases done_events_def update_events_def)
next
  case False
  define b where "b = (if head_mode env s AND 0xFF \<noteq> MODE_FREQUENTLYLISTENING then setPacketRequeued buf else buf)"
  obtain p where p: "requeue_long (b, len) (s \<lparr> queue_timer := False \<rparr>)
        = Some (s \<lparr> queue_timer := False, nq_packets := p \<rparr>)"
      "pq_inv (uip_packetqueue_pop (nq_sending s) p)"
      "frames (uip_packetqueue_pop (nq_sending s) p) =
        fate_frames (To_long (sent_frame (b, len))) (nq_sending s) (nq_free s \<noteq> 0) (nq_frames s)"
    using requeue_pop [of "s \<lparr> queue_timer := False \<rparr>" len "nq_sending s" b] inv len head_frames [OF inv data]
    by auto
  have f: "frame_fate env TRANSMIT_COMPLETE_REQUEUE_QUEUED (queue_state s) (head_mode env s) (Some (buf, len))
      = To_long (sent_frame (b, len))"
    using False by (simp add: b_def)
  have "queue_send_done env TRANSMIT_COMPLETE_REQUEUE_QUEUED (Some (buf, len)) s =
      Some ((nq_pop (nq_sending s) (s \<lparr> queue_timer := False, nq_packets := p \<rparr>)) \<lparr> queue_state := QS_IDLE \<rparr>)"
    using p(1) busy data False head_mode_eq [OF data, of env]
    by (cases "head_mode env s AND 0xFF = MODE_FREQUENTLYLISTENING")
       (simp_all add: queue_send_done_def Let_def move_to_mailbox_cases b_def)
  then show ?thesis
    using p(2,3) f by (simp add: done_result_def Let_def done_events_def update_events_def
        del: frame_fate.simps fate_frames.simps)
qed

text \<open>All other outcomes take the frame out of its queue; one of them moves it on first.\<close>

lemma done_other:
  assumes inv: "pq_inv (nq_packets s)" and busy: "queue_state s \<noteq> QS_IDLE"
    and data: "uip_packetqueue_buf (nq_sending s) (nq_packets s) = Some data"
    and status: "status \<noteq> TRANSMIT_COMPLETE_REQUEUE" "status \<noteq> TRANSMIT_COMPLETE_REQUEUE_QUEUED"
    and drop: "frame_fate env status (queue_state s) (head_mode env s) sent = Drop"
  shows "\<exists>t. queue_send_done env status sent s = Some t \<and> done_result env status sent s t"
proof -
  have "status = TRANSMIT_COMPLETE_NO_ACK \<and> queue_state s = QS_SENDING_FIRST \<Longrightarrow>
      sent = None \<or> (\<exists>buf. sent = Some (buf, 0))"
    using drop status by (auto split: if_splits option.splits prod.splits)
  then have "queue_send_done env status sent s =
      Some (nq_emit Post_queue_updated ((nq_pop (nq_sending s)
        ((if status = TRANSMIT_COMPLETE_OK
          then nq_emit (Mb_node_transmission_ok (node_of_ip env (destipaddr data))) (s \<lparr> queue_timer := False \<rparr>)
          else s \<lparr> queue_timer := False \<rparr>))) \<lparr> queue_state := QS_IDLE \<rparr>))"
    using status busy data
    by (cases "status = TRANSMIT_COMPLETE_NO_ACK \<and> queue_state s = QS_SENDING_FIRST")
       (auto simp: queue_send_done_def Let_def)
  then show ?thesis
    using inv data drop status pop_step [OF inv, of "nq_sending s"]
    by (auto simp: done_result_def Let_def done_events_def update_events_def simp del: frame_fate.simps)
qed

lemma done_no_ack:
  assumes inv: "pq_inv (nq_packets s)" and busy: "queue_state s = QS_SENDING_FIRST"
    and data: "uip_packetqueue_buf first_attempt_queue (nq_packets s) = Some data"
    and len: "unat len \<le> PACKET_BUF_SIZE" "len \<noteq> 0"
  shows "\<exists>t. queue_send_done env TRANSMIT_COMPLETE_NO_ACK (Some (buf, len)) s = Some t
    \<and> done_result env TRANSMIT_COMPLETE_NO_ACK (Some (buf, len)) s t"
proof (cases "wants_mailbox env (head_mode env s) buf")
  case True
  then show ?thesis
    using inv busy data len pop_step [OF inv, of first_attempt_queue] head_mode_eq [of s data env]
    by (auto simp: queue_send_done_def done_result_def Let_def move_to_mailbox_cases done_events_def update_events_def)
next
  case False
  let ?b = "setPacketRequeued buf"
  obtain p where p: "requeue_long (?b, len) (s \<lparr> queue_timer := False \<rparr>)
        = Some (s \<lparr> queue_timer := False, nq_packets := p \<rparr>)"
      "pq_inv (uip_packetqueue_pop first_attempt_queue p)"
      "frames (uip_packetqueue_pop first_attempt_queue p) =
        fate_frames (To_long (sent_frame (?b, len))) first_attempt_queue (nq_free s \<noteq> 0) (nq_frames s)"
    using requeue_pop [of "s \<lparr> queue_timer := False \<rparr>" len first_attempt_queue ?b] inv len head_frames [OF inv data]
    by auto
  have "queue_send_done env TRANSMIT_COMPLETE_NO_ACK (Some (buf, len)) s =
      Some (nq_emit Post_queue_updated ((nq_pop first_attempt_queue (s \<lparr> queue_timer := False, nq_packets := p \<rparr>))
        \<lparr> queue_state := QS_IDLE \<rparr>))"
    using p(1) busy data False len head_mode_eq [of s data env]
    by (simp add: queue_send_done_def Let_def move_to_mailbox_cases)
  then show ?thesis
    using p(2,3) False busy len
    by (simp add: done_result_def Let_def done_events_def update_events_def del: fate_frames.simps)
qed

lemma queue_send_done_result:
  assumes inv: "pq_inv (nq_packets s)" and busy: "queue_state s \<noteq> QS_IDLE"
    and ne: "nq_frames s (nq_sending s) \<noteq> []" and sent: "sent_ok status sent"
  shows "\<exists>t. queue_send_done env status sent s = Some t \<and> done_result env status sent s t"
proof -
  obtain data where data: "uip_packetqueue_buf (nq_sending s) (nq_packets s) = Some data"
    using queue_reads(3) [OF inv, of "nq_sending s"] ne by blast
  consider (requeue) "status = TRANSMIT_COMPLETE_REQUEUE"
    | (queued) buf len where "status = TRANSMIT_COMPLETE_REQUEUE_QUEUED" "sent = Some (buf, len)"
    | (no_ack) buf len where "status = TRANSMIT_COMPLETE_NO_ACK" "sent = Some (buf, len)" "len \<noteq> 0"
        "queue_state s = QS_SENDING_FIRST"
    | (other) "status \<noteq> TRANSMIT_COMPLETE_REQUEUE" "status \<noteq> TRANSMIT_COMPLETE_REQUEUE_QUEUED"
        "frame_fate env status (queue_state s) (head_mode env s) sent = Drop"
  proof (cases sent)
    case None
    then show ?thesis using sent that(1,4) by (auto simp: sent_ok_def)
  next
    case (Some x)
    then show ?thesis
      using that
      by (cases x; cases "status = TRANSMIT_COMPLETE_REQUEUE"; cases "status = TRANSMIT_COMPLETE_REQUEUE_QUEUED";
          cases "status = TRANSMIT_COMPLETE_NO_ACK \<and> queue_state s = QS_SENDING_FIRST \<and> snd x \<noteq> 0") auto
  qed
  then show ?thesis
  proof cases
    case queued
    then show ?thesis using done_requeue_queued [OF inv busy data] sent by (auto simp: sent_ok_def)
  next
    case no_ack
    then show ?thesis using done_no_ack [OF inv no_ack(4)] data sent by (auto simp: sent_ok_def)
  next
    case other
    then show ?thesis using done_other [OF inv busy data] by blast
  qed (use done_requeue [OF inv busy data] in simp)
qed


section \<open>What may happen to the node queues\<close>

text \<open>
  A state is well formed when its packet queues are, the buffer and the list of fingerprints
  have their sizes, and all frames of the first attempt queue have the property \<open>P\<close> that the received frames
  have.
\<close>

definition nq_inv :: "(bytes \<Rightarrow> bool) \<Rightarrow> node_queue \<Rightarrow> bool" where
  "nq_inv P s \<longleftrightarrow> pq_inv (nq_packets s) \<and> length (uip_buf s) = PACKET_BUF_SIZE
     \<and> length (black_list_crc32 s) = BLACKLIST_LENGTH \<and> unat (black_list_n s) < BLACKLIST_LENGTH
     \<and> (\<forall>f \<in> set (nq_frames s first_attempt_queue). P f)"

definition reply_ok :: "zip_input_reply \<Rightarrow> bool" where
  "reply_ok reply \<longleftrightarrow> (case reply_callback reply of None \<Rightarrow> True | Some (status, sent) \<Rightarrow> sent_ok status sent)"

text \<open>
  The events inside the module: the queues are processed, the sender reports
  or its timer expires, the lifetime of a packet ends, the module is initialised again.
\<close>

inductive nq_step :: "node_queue \<Rightarrow> node_queue \<Rightarrow> bool" where
  process: "reply_ok reply \<Longrightarrow> process_node_queues env reply s = Some t \<Longrightarrow> nq_step s t"
| finished: "sent_ok status sent \<Longrightarrow> queue_send_done env status sent s = Some t \<Longrightarrow> nq_step s t"
| abort: "queue_timer s \<Longrightarrow> nq_step s (queue_send_timeout (s \<lparr> queue_timer := False \<rparr>))"
| expire: "lifetimer_expired p (nq_packets s) = Some q \<Longrightarrow> nq_step s (s \<lparr> nq_packets := q \<rparr>)"
| restart: "node_queue_init s = Some t \<Longrightarrow> nq_step s t"

lemma uip_frame_flag:
  "unat len > 0 \<Longrightarrow> isPacketRequeued (take (unat len) buf) = isPacketRequeued buf"
  by (simp add: isPacketRequeued_def)

lemma fate_frames_first:
  "set (fate_frames fate q room fr first_attempt_queue) \<subseteq> set (fr first_attempt_queue)"
  by (cases fate) (auto simp: list.set_sel(2) dest: list.set_sel(2) split: if_splits, (metis list.sel(2) list.set_sel(2))+)

lemma done_result_inv:
  assumes "nq_inv P s" and "done_result env status sent s t" and "length (uip_buf t) = PACKET_BUF_SIZE"
  shows "nq_inv P t"
  using assms fate_frames_first by (auto simp: nq_inv_def done_result_def Let_def) blast

lemma uip_buf_done:
  assumes "queue_send_done env status sent s = Some t" and "sent_ok status sent"
    and "length (uip_buf s) = PACKET_BUF_SIZE"
  shows "length (uip_buf t) = PACKET_BUF_SIZE"
  using assms
  by (auto simp: queue_send_done_def Let_def queue_move_to_mailbox_def requeue_long_def sent_ok_def sent_frame_def
      split: if_splits option.splits prod.splits)


lemma queued_elements_loop_linked:
  "linked (pkt_next q) p ps \<Longrightarrow>
   queued_elements_loop env q node p =
     Some (case find (\<lambda>x. node_of_ip env (destipaddr (queue_buf (pkt_at q x))) = node) ps of None \<Rightarrow> 0 | Some x \<Rightarrow> x)"
proof (induction ps arbitrary: p)
  case Nil
  then show ?case by (simp add: queued_elements_loop.simps)
next
  case (Cons x ps)
  then show ?case by (auto simp: queued_elements_loop.simps [of env q node x] list_item_next_def)
qed

text \<open>The choice of the queue for a new frame.\<close>

definition long_queue_has :: "nq_env \<Rightarrow> packetqueue \<Rightarrow> nodeid \<Rightarrow> bool" where
  "long_queue_has env q node \<longleftrightarrow>
     list_ex (\<lambda>p. node_of_ip env (destipaddr (queue_buf (pkt_at q p))) = node) (packets q long_queue)"

definition goes_long :: "nq_env \<Rightarrow> nodeid \<Rightarrow> packetqueue \<Rightarrow> bool" where
  "goes_long env node q \<longleftrightarrow>
     (mb_conf_mode env = 0 \<or> rd_get_node_mode env node \<noteq> MODE_MAILBOX)
     \<and> (long_queue_has env q node \<or> rd_get_node_mode env node AND 0xFF = MODE_FREQUENTLYLISTENING
         \<or> (frames q first_attempt_queue = [] \<and> frames q long_queue = []))"

lemma queued_elements_existes_iff:
  assumes inv: "pq_inv q"
  shows "\<exists>p. queued_elements_existes env q node = Some p \<and> (p \<noteq> 0 \<longleftrightarrow> long_queue_has env q node)"
proof -
  have l: "linked (pkt_next q) (handle_list q long_queue) (packets q long_queue)"
    using pq_inv_queue(1) [OF inv] by (simp add: is_list_def)
  show ?thesis
    using queued_elements_loop_linked [OF l, of env node] pq_inv_queue(4) [OF inv, of long_queue]
    by (auto simp: queued_elements_existes_def list_head_def long_queue_has_def list_ex_iff find_None_iff
        find_Some_iff set_conv_nth split: option.splits)
qed

lemma use_long_q_eq: "pq_inv q \<Longrightarrow> use_long_q env node q = Some (goes_long env node q)"
  using queued_elements_existes_iff [of q env node] queue_reads(1) [of q]
  by (auto simp: use_long_q_def goes_long_def Let_def)

definition target_queue :: "nq_env \<Rightarrow> nodeid \<Rightarrow> packetqueue \<Rightarrow> nat" where
  "target_queue env node q = (if goes_long env node q then long_queue else first_attempt_queue)"

lemma enqueue_result:
  assumes inv: "pq_inv (nq_packets s)" and len: "unat (uip_len s) \<le> PACKET_BUF_SIZE"
  shows "\<exists>q. node_input_enqueue env node s =
        Some (nq_free s \<noteq> 0, nq_emit Post_queue_updated (s \<lparr> nq_packets := q \<rparr>)) \<and> pq_inv q
      \<and> frames q = (let h = target_queue env node (nq_packets s)
                     in if nq_free s \<noteq> 0 then (nq_frames s)(h := nq_frames s h @ [uip_frame s]) else nq_frames s)"
proof -
  have "frame_fits (uip_frame s)" using len by (simp add: frame_fits_def uip_frame_def)
  then obtain r q where q: "pq_put 60000 (target_queue env node (nq_packets s)) (uip_frame s) (nq_packets s) = Some (r, q)"
      "pq_inv q" "r \<longleftrightarrow> nq_free s \<noteq> 0"
      "frames q = (if r then (nq_frames s)(target_queue env node (nq_packets s) :=
                     nq_frames s (target_queue env node (nq_packets s)) @ [uip_frame s]) else nq_frames s)"
    using pq.put_total [OF inv] by blast
  then show ?thesis
    using len use_long_q_eq [OF inv, of env node]
    by (auto simp: node_input_enqueue_def target_queue_def pq_put_def Let_def split: if_splits)
qed

lemma add_fingerprint_simps [simp]:
  "nq_packets (add_fingerprint_uip_buf s) = nq_packets s" "queue_state (add_fingerprint_uip_buf s) = queue_state s"
  "uip_buf (add_fingerprint_uip_buf s) = uip_buf s" "uip_len (add_fingerprint_uip_buf s) = uip_len s"
  "uip_frame (add_fingerprint_uip_buf s) = uip_frame s" "nq_log (add_fingerprint_uip_buf s) = nq_log s"
  "length (black_list_crc32 (add_fingerprint_uip_buf s)) = length (black_list_crc32 s)"
  by (simp_all add: add_fingerprint_uip_buf_def Let_def uip_frame_def)

lemma add_fingerprint_n:
  "unat (black_list_n s) < BLACKLIST_LENGTH \<Longrightarrow> unat (black_list_n (add_fingerprint_uip_buf s)) < BLACKLIST_LENGTH"
  by (simp add: add_fingerprint_uip_buf_def Let_def BLACKLIST_LENGTH_def)

lemma handle_keep_alive_simps [simp]:
  "nq_packets (handle_keep_alive env b s) = nq_packets s" "queue_state (handle_keep_alive env b s) = queue_state s"
  "black_list_crc32 (handle_keep_alive env b s) = black_list_crc32 s" "black_list_n (handle_keep_alive env b s) = black_list_n s"
  "uip_buf (handle_keep_alive env b s) = uip_buf s"
  by (simp_all add: handle_keep_alive_def)


text \<open>Choosing the queue to send from: the first attempt queue has priority.\<close>

definition next_queue :: "node_queue \<Rightarrow> en_queue_state" where
  "next_queue s = (if nq_frames s first_attempt_queue \<noteq> [] then QS_SENDING_FIRST
                   else if nq_frames s long_queue \<noteq> [] then QS_SENDING_LONG else QS_IDLE)"

definition select_events :: "en_queue_state \<Rightarrow> nq_effect list" where
  "select_events st = (if st = QS_SENDING_FIRST then [Set_tx_options 0x01, Send_nack False]
                       else [Set_tx_options 0x25, Send_nack True])"

lemma select_queue_result:
  assumes inv: "pq_inv (nq_packets s)"
  shows "queue_state s \<noteq> QS_IDLE \<or> next_queue s = QS_IDLE \<Longrightarrow> select_queue s = Some (None, s)"
    and "queue_state s = QS_IDLE \<Longrightarrow> next_queue s \<noteq> QS_IDLE \<Longrightarrow>
      select_queue s = Some (Some (sending_queue (next_queue s)),
        s \<lparr> queue_state := next_queue s, nq_log := nq_log s @ select_events (next_queue s),
           queue_timer := (next_queue s = QS_SENDING_FIRST \<or> queue_timer s) \<rparr>)"
  using queue_reads(1) [OF inv]
  by (auto simp: select_queue_def next_queue_def select_events_def nq_emit_def split: if_splits)

lemma next_queue_frames: "next_queue s \<noteq> QS_IDLE \<Longrightarrow> nq_frames s (sending_queue (next_queue s)) \<noteq> []"
  by (auto simp: next_queue_def split: if_splits)

text \<open>The call of the sender.\<close>

definition offer_head :: "nq_env \<Rightarrow> nat \<Rightarrow> node_queue \<Rightarrow> node_queue" where
  "offer_head env q s =
     (let f = hd (nq_frames s q); buf = f @ drop (length f) (uip_buf s); node = node_of_ip env (destipaddr buf)
      in s \<lparr> nq_log := nq_log s @ (if node = newly_included env then [Extend_probe_timeout] else [])
                  @ [Zip_node_input node f (isPacketRequeued f)], uip_buf := buf, uip_len := of_nat (length f) \<rparr>)"

lemma hd_frame:
  assumes "pq_inv q" and "frames q h \<noteq> []"
  shows "\<exists>data. uip_packetqueue_buf h q = Some data \<and> hd (frames q h) = take (unat (uip_packetqueue_buflen h q)) data
    \<and> length (hd (frames q h)) = unat (uip_packetqueue_buflen h q) \<and> length data = PACKET_BUF_SIZE
    \<and> length (hd (frames q h)) \<le> PACKET_BUF_SIZE"
  using handle_list_packets [OF assms(1), of h] assms
  by (auto simp: uip_packetqueue_buf_def uip_packetqueue_buflen_def list_head_def frames_def hd_map frame_at_def
      pq_inv_def packet_ok_def)

lemma send_from_result:
  assumes inv: "pq_inv (nq_packets s)" and ne: "nq_frames s q \<noteq> []" and f: "hd (nq_frames s q) \<noteq> []"
  shows "send_from env reply q s =
    map_option (\<lambda>t. t \<lparr> uip_len := 0 \<rparr>) (zip_input_called env reply (offer_head env q s))"
proof -
  let ?len = "uip_packetqueue_buflen q (nq_packets s)" and ?f = "hd (nq_frames s q)"
  obtain data where d: "uip_packetqueue_buf q (nq_packets s) = Some data" "?f = take (unat ?len) data"
      "length ?f = unat ?len" "length data = PACKET_BUF_SIZE"
    using hd_frame [OF inv ne] by blast
  have len: "0 < unat ?len" using d(3) f by (metis length_greater_0_conv)
  then have nz: "?len \<noteq> 0" by (metis less_irrefl unat_0)
  have flag: "isPacketRequeued ?f = isPacketRequeued data"
    unfolding d(2) by (rule uip_frame_flag [OF len])
  have w: "of_nat (length ?f) = ?len" using d(3) by simp
  let ?b = "?f @ drop (length ?f) (uip_buf s)"
  have uf: "take (unat ?len) ?b = ?f" using d(3) by simp
  have o: "offer_head env q s =
      (let s = s \<lparr> uip_len := ?len, uip_buf := ?b \<rparr>; n = node_of_ip env (destipaddr ?b);
           s = (if n = newly_included env then nq_emit Extend_probe_timeout s else s)
       in nq_emit (Zip_node_input n ?f (isPacketRequeued data)) s)"
    using w flag by (simp add: offer_head_def Let_def nq_emit_def)
  show ?thesis
    using nz d(1,2,3) uf unfolding o
    by (simp add: send_from_def Let_def uip_frame_def nq_emit_def)
qed


lemma drain_queue_result:
  assumes "pq_inv q"
  shows "\<exists>t. drain_queue h q = Some t \<and> pq_inv t \<and> frames t = (frames q)(h := [])
    \<and> uip_packetqueue_free_len t = uip_packetqueue_free_len q + length (frames q h)"
  using assms
proof (induction "length (frames q h)" arbitrary: q)
  case 0
  then show ?case using queue_reads(1) [of q h] by (auto simp: drain_queue.simps [of h q])
next
  case (Suc n)
  let ?q = "uip_packetqueue_pop h q"
  have q: "pq_inv ?q" "frames ?q = (frames q)(h := tl (frames q h))"
      "uip_packetqueue_free_len ?q = uip_packetqueue_free_len q + 1" "frames q h \<noteq> []"
    using pop_step [OF Suc.prems, of h] Suc.hyps(2) by auto
  have n: "n = length (frames ?q h)" using q(2) Suc.hyps(2) by simp
  obtain t where "drain_queue h ?q = Some t" "pq_inv t" "frames t = (frames ?q)(h := [])"
      "uip_packetqueue_free_len t = uip_packetqueue_free_len ?q + length (frames ?q h)"
    using Suc.hyps(1) [OF n q(1)] by blast
  then show ?case
    using queue_reads(1) [OF Suc.prems, of h] q by (auto simp: drain_queue.simps [of h q] Suc.hyps(2) [symmetric])
qed

lemma init_result:
  assumes "pq_inv (nq_packets s)"
  shows "\<exists>q. node_queue_init s = Some (s \<lparr> nq_packets := q, queue_state := QS_IDLE \<rparr>) \<and> pq_inv q
    \<and> frames q = (nq_frames s)(first_attempt_queue := [], long_queue := [])
    \<and> uip_packetqueue_free_len q = nq_free s + (if queue_state s = QS_IDLE then 0
        else length (nq_frames s first_attempt_queue) + length (nq_frames s long_queue))"
proof -
  obtain q1 where q1: "drain_queue first_attempt_queue (nq_packets s) = Some q1" "pq_inv q1"
      "frames q1 = (nq_frames s)(first_attempt_queue := [])"
      "uip_packetqueue_free_len q1 = nq_free s + length (nq_frames s first_attempt_queue)"
    using drain_queue_result [OF assms] by blast
  obtain q2 where q2: "drain_queue long_queue q1 = Some q2" "pq_inv q2" "frames q2 = (frames q1)(long_queue := [])"
      "uip_packetqueue_free_len q2 = uip_packetqueue_free_len q1 + length (frames q1 long_queue)"
    using drain_queue_result [OF q1(2)] by blast
  have new: "pq_inv q \<Longrightarrow> pq_inv (uip_packetqueue_new long_queue (uip_packetqueue_new first_attempt_queue q))
      \<and> frames (uip_packetqueue_new long_queue (uip_packetqueue_new first_attempt_queue q)) =
          (frames q)(first_attempt_queue := [], long_queue := [])
      \<and> uip_packetqueue_free_len (uip_packetqueue_new long_queue (uip_packetqueue_new first_attempt_queue q)) =
          uip_packetqueue_free_len q" for q
    by (simp add: new_step)
  show ?thesis
  proof (cases "queue_state s = QS_IDLE")
    case True
    show ?thesis
      by (rule exI [of _ "uip_packetqueue_new long_queue (uip_packetqueue_new first_attempt_queue (nq_packets s))"])
         (simp add: node_queue_init_def new [OF assms] True)
  next
    case False
    show ?thesis
      by (rule exI [of _ "uip_packetqueue_new long_queue (uip_packetqueue_new first_attempt_queue q2)"])
         (simp add: node_queue_init_def new [OF q2(2)] False q1 q2 fun_upd_twist)
  qed
qed

lemma receive_inv:
  assumes inv: "nq_inv P s" and buf: "length buf = PACKET_BUF_SIZE" "UIP_IPH_LEN < unat len" "unat len \<le> PACKET_BUF_SIZE"
      "P (take (unat len) buf)"
    and r: "node_input_queued env node decrypted (s \<lparr> uip_buf := buf, uip_len := len \<rparr>) = Some (r, t)"
  shows "nq_inv P t"
proof -
  let ?s = "s \<lparr> uip_buf := buf, uip_len := len \<rparr>" and ?n = "add_fingerprint_uip_buf (s \<lparr> uip_buf := buf, uip_len := len \<rparr>)"
  have "nq_inv P t" if e: "node_input_enqueue env node ?n = Some (r, t)"
  proof -
    have "P (uip_frame ?s)" using buf(4) by (simp add: uip_frame_def)
    then show ?thesis
      using enqueue_result [of ?n env node] buf inv add_fingerprint_n [of ?s] e
      by (auto simp: nq_inv_def Let_def split: if_splits)
  qed
  then show ?thesis
    using r inv buf by (auto simp: node_input_queued_def Let_def nq_inv_def split: if_splits)
qed

lemma done_inv:
  assumes "nq_inv P s" and "sent_ok status sent" and "queue_send_done env status sent s = Some t"
  shows "nq_inv P t"
proof (cases "queue_state s = QS_IDLE \<or> nq_frames s (nq_sending s) = []")
  case True
  then show ?thesis
    using assms queue_reads(3) [of "nq_packets s" "nq_sending s"]
    by (auto simp: queue_send_done_def nq_inv_def Let_def split: if_splits)
next
  case False
  then have "done_result env status sent s t"
    using queue_send_done_result [of s status sent env] assms by (auto simp: nq_inv_def)
  moreover have "length (uip_buf t) = PACKET_BUF_SIZE"
    using uip_buf_done [OF assms(3,2)] assms(1) by (simp add: nq_inv_def)
  ultimately show ?thesis by (rule done_result_inv [OF assms(1)])
qed

lemma zip_input_called_inv:
  assumes "nq_inv P s" and "reply_ok reply" and "zip_input_called env reply s = Some t"
  shows "nq_inv P t"
proof -
  obtain u where u: "(case reply_callback reply of None \<Rightarrow> Some s
        | Some (status, sent) \<Rightarrow> queue_send_done env status sent s) = Some u"
      "(if reply_value reply then Some u else queue_send_done env TRANSMIT_COMPLETE_FAIL None u) = Some t"
    using assms(3) unfolding zip_input_called_def by (auto split: option.split_asm)
  have "nq_inv P u"
    using u(1) assms(1,2) by (auto simp: reply_ok_def split: option.splits prod.splits intro: done_inv)
  moreover have "sent_ok TRANSMIT_COMPLETE_FAIL None" by (simp add: sent_ok_def)
  ultimately show ?thesis using u(2) by (auto split: if_splits intro: done_inv)
qed

lemma pop_inv:
  assumes "nq_inv P s"
  shows "nq_inv P (nq_pop q s)"
proof -
  have "pq_inv (nq_packets s)" using assms by (simp add: nq_inv_def)
  then have "pq_inv (uip_packetqueue_pop q (nq_packets s))"
      "set (frames (uip_packetqueue_pop q (nq_packets s)) first_attempt_queue) \<subseteq> set (nq_frames s first_attempt_queue)"
    using pop_step [of "nq_packets s" q] by (auto dest: list.set_sel(2) split: if_splits)
  then show ?thesis using assms by (auto simp: nq_inv_def nq_pop_def)
qed

lemma process_inv:
  assumes inv: "nq_inv P s" and reply: "reply_ok reply" and p: "process_node_queues env reply s = Some t"
  shows "nq_inv P t"
proof -
  have pinv: "pq_inv (nq_packets s)" using inv by (simp add: nq_inv_def)
  show ?thesis
  proof (cases "queue_state s = QS_IDLE \<and> next_queue s \<noteq> QS_IDLE")
    case False
    then show ?thesis
      using p select_queue_result(1) [OF pinv] inv by (auto simp: process_node_queues_def nq_inv_def)
  next
    case True
    define s1 where "s1 = s \<lparr> queue_state := next_queue s, nq_log := nq_log s @ select_events (next_queue s),
           queue_timer := (next_queue s = QS_SENDING_FIRST \<or> queue_timer s) \<rparr>"
    let ?q = "sending_queue (next_queue s)"
    have sf: "send_from env reply ?q s1 = Some t"
      using p select_queue_result(2) [OF pinv] True by (simp add: process_node_queues_def s1_def)
    have ne: "nq_frames s1 ?q \<noteq> []" using next_queue_frames True by (simp add: s1_def)
    have i1: "nq_inv P s1" using inv by (simp add: nq_inv_def s1_def)
    obtain data where d: "hd (nq_frames s1 ?q) = take (unat (uip_packetqueue_buflen ?q (nq_packets s1))) data"
        "length (hd (nq_frames s1 ?q)) = unat (uip_packetqueue_buflen ?q (nq_packets s1))"
        "length (hd (nq_frames s1 ?q)) \<le> PACKET_BUF_SIZE" "uip_packetqueue_buf ?q (nq_packets s1) = Some data"
      using hd_frame [of "nq_packets s1" ?q] i1 ne unfolding nq_inv_def by blast
    show ?thesis
    proof (cases "uip_packetqueue_buflen ?q (nq_packets s1) = 0")
      case True
      then have "t = nq_pop ?q (s1 \<lparr> uip_len := 0, queue_state := QS_IDLE \<rparr>)"
        using sf by (simp add: send_from_def)
      moreover have "nq_inv P (s1 \<lparr> uip_len := 0, queue_state := QS_IDLE \<rparr>)" using i1 by (simp add: nq_inv_def)
      ultimately show ?thesis using pop_inv by simp
    next
      case False
      then have "hd (nq_frames s1 ?q) \<noteq> []" using d(2) by (metis list.size(3) unsigned_eq_0_iff)
      then have "map_option (\<lambda>t. t \<lparr> uip_len := 0 \<rparr>) (zip_input_called env reply (offer_head env ?q s1)) = Some t"
        using send_from_result [of s1 ?q env reply] sf i1 ne by (simp add: nq_inv_def)
      then obtain t1 where t1: "zip_input_called env reply (offer_head env ?q s1) = Some t1" "t = t1 \<lparr> uip_len := 0 \<rparr>"
        unfolding map_option_eq_Some by blast
      have "nq_inv P (offer_head env ?q s1)" using i1 d(3) by (simp add: nq_inv_def offer_head_def Let_def)
      then have "nq_inv P t1" by (rule zip_input_called_inv [OF _ reply t1(1)])
      then show ?thesis using t1(2) by (simp add: nq_inv_def)
    qed
  qed
qed

lemma expire_inv:
  assumes inv: "nq_inv P s" and e: "lifetimer_expired p (nq_packets s) = Some q"
  shows "nq_inv P (s \<lparr> nq_packets := q \<rparr>)"
proof -
  have pinv: "pq_inv (nq_packets s)" using inv by (simp add: nq_inv_def)
  have "pq_inv q \<and> set (frames q first_attempt_queue) \<subseteq> set (nq_frames s first_attempt_queue)"
  proof (cases "p \<in> used_blocks (packets_memb (nq_packets s))")
    case True
    then show ?thesis
      using timeout_step [OF pinv True refl] e set_remove1_subset [of p] by (fastforce simp: frames_def split: if_splits)
  next
    case False
    then show ?thesis using timeout_free [OF pinv False] e pinv by simp
  qed
  then show ?thesis using inv by (auto simp: nq_inv_def)
qed

lemma nq_step_inv: "nq_step s t \<Longrightarrow> nq_inv P s \<Longrightarrow> nq_inv P t"
proof (induction rule: nq_step.induct)
  case (restart s t)
  then show ?case using init_result [of s] by (auto simp: nq_inv_def)
next
  case (abort s)
  then show ?case by (simp add: queue_send_timeout_def nq_inv_def)
qed (auto intro: process_inv done_inv expire_inv)


text \<open>The state at boot, after \<^verbatim>\<open>node_queue_init\<close>.\<close>

definition node_queue_boot :: node_queue where
  "node_queue_boot = \<lparr> nq_packets = packetqueue_init, queue_state = QS_IDLE, black_list_crc32 = [0, 0],
     black_list_n = 0, uip_buf = replicate PACKET_BUF_SIZE 0, uip_len = 0, queue_timer = False, nq_log = [] \<rparr>"

lemma nq_inv_boot: "nq_inv P node_queue_boot"
  by (simp add: nq_inv_def node_queue_boot_def pq_inv_init BLACKLIST_LENGTH_def)

text \<open>
  The states that can be reached from there, with the frames that have been received so far: a frame with an IP header
  arrives in the packet buffer, or an event happens.
\<close>

inductive nq_reachable :: "bytes list \<Rightarrow> node_queue \<Rightarrow> bool" where
  boot: "nq_reachable [] node_queue_boot"
| receive: "nq_reachable rs s \<Longrightarrow> length buf = PACKET_BUF_SIZE \<Longrightarrow> UIP_IPH_LEN < unat len \<Longrightarrow> unat len \<le> PACKET_BUF_SIZE \<Longrightarrow>
    node_input_queued env node decrypted (s \<lparr> uip_buf := buf, uip_len := len \<rparr>) = Some (r, t) \<Longrightarrow>
    nq_reachable (rs @ [take (unat len) buf]) t"
| event: "nq_reachable rs s \<Longrightarrow> nq_step s t \<Longrightarrow> nq_reachable rs t"

lemma nq_inv_mono: "nq_inv P s \<Longrightarrow> (\<And>f. P f \<Longrightarrow> Q f) \<Longrightarrow> nq_inv Q s"
  by (auto simp: nq_inv_def)

lemma reachable_inv_nq: "nq_reachable rs s \<Longrightarrow> nq_inv (\<lambda>f. f \<in> set rs) s"
proof (induction rule: nq_reachable.induct)
  case boot
  show ?case by (rule nq_inv_boot)
next
  case (receive rs s buf len env node decrypted r t)
  have "nq_inv (\<lambda>f. f \<in> set (rs @ [take (unat len) buf])) s" using receive.IH by (rule nq_inv_mono) simp
  then show ?case by (rule receive_inv [OF _ receive.hyps(2-4) _ receive.hyps(5)]) simp
next
  case (event rs s t)
  show ?case by (rule nq_step_inv [OF event.hyps(2) event.IH])
qed

text \<open>A sample environment and a sample state with one frame in a queue.\<close>

definition sample_env :: nq_env where
  "sample_env = \<lparr> node_of_ip = (\<lambda>_. 7), rd_get_node_mode = (\<lambda>_. 2), mb_conf_mode = 1, newly_included = 0, uip_ext_len = 0 \<rparr>"

definition sample_frame :: bytes where "sample_frame = 0x60 # replicate 40 0"

lemma replicate_40: "replicate 40 (0 :: u8) =
    [0,0,0,0,0,0,0,0,0,0,0,0,0,0,0,0,0,0,0,0,0,0,0,0,0,0,0,0,0,0,0,0,0,0,0,0,0,0,0,0]"
  by (simp add: numeral_eq_Suc)

lemma sample_fingerprint: "(ucast (ucast (fingerprint sample_frame) :: u16) :: u32) \<noteq> 0"
  unfolding fingerprint_def sample_frame_def replicate_40 by (simp add: crc32_def crc32_round_def crc32_tab_def)

lemma sample_queue:
  "\<exists>q. pq_inv q \<and> frames q = (\<lambda>_. [])(h := [sample_frame]) \<and> uip_packetqueue_free_len q = 63"
proof -
  have "frames packetqueue_init = (\<lambda>_. [])" by (rule ext) (rule pq_inv_init(3))
  then show ?thesis
    using pq.put_ok [OF pq_inv_init(1), of sample_frame _ h]
    by (auto simp: pq_inv_init(4) frame_fits_def PACKET_BUF_SIZE_def sample_frame_def)
qed

section \<open>Properties\<close>

text \<open>
  C3.  The outcome of a transmission decides the fate of the frame at the head of the sending
  queue: it stays in place on REQUEUE, it goes to the mailbox or to the end of the long
  queue (marked as re-queued, except for a frequently listening node) on REQUEUE_QUEUED and when the
  first attempt is not acknowledged, and it is dropped otherwise.  In every case the module
  is idle afterwards, and no other frame of either queue is touched.
\<close>

theorem node_queue_send_done:
  assumes "pq_inv (nq_packets s)" and "queue_state s \<noteq> QS_IDLE"
    and "frames (nq_packets s) (sending_queue (queue_state s)) \<noteq> []" and "sent_ok status sent"
  shows "\<exists>t. queue_send_done env status sent s = Some t \<and> pq_inv (nq_packets t) \<and> queue_state t = QS_IDLE
    \<and> frames (nq_packets t) =
        fate_frames (frame_fate env status (queue_state s) (head_mode env s) sent) (sending_queue (queue_state s))
          (uip_packetqueue_free_len (nq_packets s) \<noteq> 0) (frames (nq_packets s))
    \<and> nq_log t = nq_log s @ done_events env status s
        @ fate_posts (frame_fate env status (queue_state s) (head_mode env s) sent) @ update_events status"
  using queue_send_done_result [OF assms, of env] by (auto simp: done_result_def Let_def simp del: frame_fate.simps)

theorem node_queue_send_done_witness:
  "\<exists>s t. frames (nq_packets s) first_attempt_queue = [sample_frame]
     \<and> queue_send_done sample_env TRANSMIT_COMPLETE_NO_ACK (Some (sample_frame, 41)) s = Some t
     \<and> frames (nq_packets t) first_attempt_queue = []
     \<and> frames (nq_packets t) long_queue = [setPacketRequeued sample_frame]"
proof -
  obtain q where q: "pq_inv q" "frames q = (\<lambda>_. [])(first_attempt_queue := [sample_frame])"
      "uip_packetqueue_free_len q = 63"
    using sample_queue by blast
  let ?s = "node_queue_boot \<lparr> nq_packets := q, queue_state := QS_SENDING_FIRST \<rparr>"
  have "sent_frame (setPacketRequeued sample_frame, 41) = setPacketRequeued sample_frame"
    by (simp add: sent_frame_def setPacketRequeued_def sample_frame_def)
  moreover have "head_mode sample_env ?s = 2"
    using queue_reads(3) [OF q(1), of first_attempt_queue] q(2)
    by (auto simp: head_mode_def sample_env_def split: option.splits)
  ultimately obtain t where "queue_send_done sample_env TRANSMIT_COMPLETE_NO_ACK (Some (sample_frame, 41)) ?s = Some t"
      "frames (nq_packets t) = (frames q)(first_attempt_queue := [], long_queue := [setPacketRequeued sample_frame])"
    using node_queue_send_done [of ?s TRANSMIT_COMPLETE_NO_ACK "Some (sample_frame, 41)" sample_env] q
    by (auto simp: sent_ok_def PACKET_BUF_SIZE_def wants_mailbox_def MODE_MAILBOX_def)
  then show ?thesis using q(2) by (intro exI [of _ ?s] exI [of _ t]) simp
qed

text \<open>
  C24.  The first attempt queue only holds frames as they have been received: in every state the module can reach from boot, each
  of its frames is, byte for byte, one of the frames that have come in.  A frame that is put back after an attempt, with or without the mark
  for re-queued frames, never gets there; a marked frame does only when a client has sent it with that bit set, which the check of the
  IP version lets pass.
\<close>

theorem node_queue_first_not_requeued:
  assumes "nq_reachable received s" and "f \<in> set (frames (nq_packets s) first_attempt_queue)"
  shows "f \<in> set received \<and> (isPacketRequeued f \<longrightarrow> list_ex isPacketRequeued received)"
  using reachable_inv_nq [OF assms(1)] assms(2) by (auto simp: nq_inv_def list_ex_iff)

theorem node_queue_first_not_requeued_witness:
  "\<exists>s f. nq_reachable [sample_frame] s \<and> f \<in> set (frames (nq_packets s) first_attempt_queue) \<and> f = sample_frame \<and> \<not> isPacketRequeued f"
proof -
  let ?buf = "sample_frame @ replicate (PACKET_BUF_SIZE - 41) 0"
  let ?env = "sample_env \<lparr> rd_get_node_mode := (\<lambda>_. 4) \<rparr>"
  let ?s = "node_queue_boot \<lparr> uip_buf := ?buf, uip_len := 41 \<rparr>"
  let ?n = "add_fingerprint_uip_buf ?s"
  have len: "length ?buf = PACKET_BUF_SIZE" by (simp add: sample_frame_def PACKET_BUF_SIZE_def)
  have fr: "uip_frame ?s = sample_frame" by (simp add: uip_frame_def sample_frame_def)
  have fl: "\<not> isPacketRequeued sample_frame" by (simp add: isPacketRequeued_def sample_frame_def)
  have tk: "take (unat (41 :: u16)) ?buf = sample_frame" by (simp add: sample_frame_def)
  have port: "be16 ?buf 42 = 0"
    by (simp add: be16_def sample_frame_def nth_append PACKET_BUF_SIZE_def)
  have "\<not> check_fingerprint_uip_buf ?s"
    using fr sample_fingerprint by (simp add: check_fingerprint_uip_buf_def Let_def node_queue_boot_def)
  then have e: "node_input_queued ?env 7 True ?s = node_input_enqueue ?env 7 ?n"
    using port by (simp add: node_input_queued_def Let_def UIP_IPH_LEN_def sample_env_def DTLS_PORT_def ZWAVE_PORT_def)
  have t: "target_queue ?env 7 packetqueue_init = first_attempt_queue"
    by (simp add: target_queue_def goes_long_def sample_env_def MODE_MAILBOX_def)
  obtain q where q: "node_input_enqueue ?env 7 ?n = Some (True, nq_emit Post_queue_updated (?n \<lparr> nq_packets := q \<rparr>))"
      "frames q first_attempt_queue = [sample_frame]"
    using enqueue_result [of ?n ?env 7] t fr
    by (auto simp: node_queue_boot_def pq_inv_init UIP_IPH_LEN_def PACKET_BUF_SIZE_def Let_def)
  have "nq_reachable ([] @ [take (unat (41 :: u16)) ?buf]) (nq_emit Post_queue_updated (?n \<lparr> nq_packets := q \<rparr>))"
    by (rule nq_reachable.receive [OF nq_reachable.boot len, of 41 ?env 7 True True])
       (simp add: UIP_IPH_LEN_def, simp add: PACKET_BUF_SIZE_def, simp only: e q(1))
  then have r: "nq_reachable [sample_frame] (nq_emit Post_queue_updated (?n \<lparr> nq_packets := q \<rparr>))"
    unfolding tk append_Nil .
  show ?thesis
    using node_queue_first_not_requeued [OF r, of sample_frame] r q(2) fl
    by (intro exI [of _ "nq_emit Post_queue_updated (?n \<lparr> nq_packets := q \<rparr>)"] exI [of _ sample_frame]) auto
qed

text \<open>
  What the sender has said about a frame when its call returns: a report it made during the call, a failure when it
  refused the frame, or nothing yet.
\<close>

fun reported :: "zip_input_reply \<Rightarrow> (u8 \<times> sent_buffer option) option" where
  "reported reply = (case reply_callback reply of
      Some x \<Rightarrow> Some x | None \<Rightarrow> if reply_value reply then None else Some (TRANSMIT_COMPLETE_FAIL, None))"

text \<open>A report during the call or a refusal is a report to \<^verbatim>\<open>queue_send_done\<close>; what comes after it finds the module idle.\<close>

lemma zip_input_called_result:
  assumes inv: "pq_inv (nq_packets s)" and busy: "queue_state s \<noteq> QS_IDLE" and ne: "nq_frames s (nq_sending s) \<noteq> []"
    and ok: "reply_ok reply"
  shows "case reported reply of None \<Rightarrow> zip_input_called env reply s = Some s
    | Some (status, sent) \<Rightarrow> \<exists>t. zip_input_called env reply s = Some t \<and> done_result env status sent s t"
proof (cases "reply_callback reply")
  case None
  have "\<exists>t. queue_send_done env TRANSMIT_COMPLETE_FAIL None s = Some t \<and> done_result env TRANSMIT_COMPLETE_FAIL None s t"
    using queue_send_done_result [OF inv busy ne, of TRANSMIT_COMPLETE_FAIL None env] by (simp add: sent_ok_def)
  then show ?thesis using None by (simp add: zip_input_called_def)
next
  case (Some x)
  obtain status sent where x: "x = (status, sent)" by fastforce
  then have "sent_ok status sent" using ok Some by (simp add: reply_ok_def)
  then obtain t where t: "queue_send_done env status sent s = Some t" "done_result env status sent s t"
    using queue_send_done_result [OF inv busy ne] by blast
  then have "queue_state t = QS_IDLE" "\<not> queue_timer t" by (simp_all add: done_result_def Let_def)
  then have "queue_send_done env TRANSMIT_COMPLETE_FAIL None t = Some t" by (simp add: queue_send_done_def Let_def)
  then show ?thesis using Some x t by (simp add: zip_input_called_def)
qed

text \<open>
  C33.  Processing the idle queues sends the head of the first attempt queue or, when that queue
  is empty, of the long queue, with the transmit options of the queue.  A frame the sender
  accepts without reporting stays at the head, and the module is busy.  When the sender reports before it returns, or refuses the frame, which counts as a
  failed transmission, the frame has the fate that the report gives it, and the module is idle again.  The frame has
  at least the length of an IP header.
\<close>

theorem node_queue_process:
  assumes inv: "pq_inv (nq_packets s)" and idle: "queue_state s = QS_IDLE" and "next_queue s \<noteq> QS_IDLE"
    and "q = sending_queue (next_queue s)" and f: "f = hd (frames (nq_packets s) q)" "UIP_IPH_LEN \<le> length f"
    and node: "node = node_of_ip env (destipaddr f)" and reply: "reply_ok reply"
  shows "\<exists>t. process_node_queues env reply s = Some t \<and> pq_inv (nq_packets t)
    \<and> (let sent = nq_log s @ select_events (next_queue s)
          @ (if node = newly_included env then [Extend_probe_timeout] else []) @ [Zip_node_input node f (isPacketRequeued f)]
       in case reported reply of
            None \<Rightarrow> queue_state t = next_queue s \<and> frames (nq_packets t) = frames (nq_packets s) \<and> nq_log t = sent
          | Some (status, buf) \<Rightarrow>
              let fate = frame_fate env status (next_queue s) (rd_get_node_mode env node) buf
              in queue_state t = QS_IDLE
                 \<and> frames (nq_packets t) = fate_frames fate q (uip_packetqueue_free_len (nq_packets s) \<noteq> 0) (frames (nq_packets s))
                 \<and> nq_log t = sent @ (if status = TRANSMIT_COMPLETE_OK then [Mb_node_transmission_ok node] else [])
                     @ fate_posts fate @ update_events status)"
proof -
  define s1 where "s1 = s \<lparr> queue_state := next_queue s, nq_log := nq_log s @ select_events (next_queue s),
         queue_timer := (next_queue s = QS_SENDING_FIRST \<or> queue_timer s) \<rparr>"
  have s1: "nq_packets s1 = nq_packets s" "queue_state s1 = next_queue s" "uip_buf s1 = uip_buf s"
      "nq_log s1 = nq_log s @ select_events (next_queue s)" by (simp_all add: s1_def)
  have ne: "nq_frames s q \<noteq> []" using next_queue_frames [OF assms(3)] assms(4) by simp
  have fne: "f \<noteq> []" using f(2) by (auto simp: UIP_IPH_LEN_def)
  have "destipaddr (f @ drop (length f) (uip_buf s)) = destipaddr f"
    using f(2) by (simp add: destipaddr_def UIP_IPH_LEN_def)
  then have o: "offer_head env q s1 =
      s1 \<lparr> nq_log := nq_log s1 @ (if node = newly_included env then [Extend_probe_timeout] else [])
           @ [Zip_node_input node f (isPacketRequeued f)], uip_buf := f @ drop (length f) (uip_buf s),
           uip_len := of_nat (length f) \<rparr>"
    using f(1) node s1 by (simp add: offer_head_def Let_def)
  have p: "process_node_queues env reply s =
      map_option (\<lambda>t. t \<lparr> uip_len := 0 \<rparr>) (zip_input_called env reply (offer_head env q s1))"
    using send_from_result [of s1 q env reply] inv ne fne f(1) s1 select_queue_result(2) [OF inv idle assms(3)] assms(4)
    by (simp add: process_node_queues_def s1_def [symmetric])
  let ?o = "offer_head env q s1"
  have os: "sending_queue (queue_state ?o) = q" "queue_state ?o = next_queue s" "nq_packets ?o = nq_packets s"
      "nq_log ?o = nq_log s @ select_events (next_queue s)
        @ (if node = newly_included env then [Extend_probe_timeout] else [])
        @ [Zip_node_input node f (isPacketRequeued f)]"
    unfolding o using assms(4) s1 by simp_all
  obtain data where d: "uip_packetqueue_buf q (nq_packets s) = Some data" "f = take (length f) data"
    using hd_frame [OF inv ne] f(1) by metis
  have "destipaddr (take (length f) data) = destipaddr data"
    using f(2) by (simp add: destipaddr_def UIP_IPH_LEN_def drop_take)
  then have "destipaddr f = destipaddr data" using d(2) by simp
  then have hm: "head_mode env ?o = rd_get_node_mode env node"
      "done_events env status ?o = (if status = TRANSMIT_COMPLETE_OK then [Mb_node_transmission_ok node] else [])" for status
    using d(1) node os(1,3) by (simp_all add: head_mode_def done_events_def)
  have r: "case reported reply of None \<Rightarrow> zip_input_called env reply ?o = Some ?o
    | Some (status, sent) \<Rightarrow> \<exists>t. zip_input_called env reply ?o = Some t \<and> done_result env status sent ?o t"
    by (rule zip_input_called_result [OF _ _ _ reply]) (use inv ne os assms(3) in simp_all)
  show ?thesis
  proof (cases "reported reply")
    case None
    then show ?thesis using p r inv os(2-4) by simp
  next
    case (Some x)
    then obtain status sent t where x: "reported reply = Some (status, sent)" "zip_input_called env reply ?o = Some t"
        "done_result env status sent ?o t" using r by (cases x) auto
    show ?thesis
      unfolding p x(1,2) using x(3) assms(4) unfolding done_result_def os hm
      by (simp add: Let_def del: frame_fate.simps)
  qed
qed

theorem node_queue_process_witness:
  "\<exists>s t. process_node_queues sample_env \<lparr> reply_callback = None, reply_value = True \<rparr> s = Some t
     \<and> queue_state t = QS_SENDING_LONG \<and> frames (nq_packets t) long_queue = [sample_frame]"
proof -
  obtain q where q: "pq_inv q" "frames q = (\<lambda>_. [])(long_queue := [sample_frame])" using sample_queue by blast
  let ?s = "node_queue_boot \<lparr> nq_packets := q \<rparr>" and ?r = "\<lparr> reply_callback = None, reply_value = True \<rparr>"
  have "next_queue ?s = QS_SENDING_LONG" using q(2) by (simp add: next_queue_def)
  moreover have "queue_state ?s = QS_IDLE" by (simp add: node_queue_boot_def)
  ultimately obtain t where "process_node_queues sample_env ?r ?s = Some t" "queue_state t = QS_SENDING_LONG"
      "frames (nq_packets t) = frames q"
    using node_queue_process [of ?s long_queue sample_frame 7 sample_env ?r] q
    by (auto simp: reply_ok_def UIP_IPH_LEN_def sample_frame_def sample_env_def)
  then show ?thesis using q(2) by (intro exI [of _ ?s] exI [of _ t]) simp
qed

text \<open>
  C34.  A frame that is neither for the DTLS server, nor a keep-alive, nor taken for a duplicate is
  appended to exactly one queue while a buffer is free.  It skips the first attempt queue exactly when
  it cannot go to the mailbox and the node has frames in the long queue, is frequently
  listening, or nothing at all is queued.
\<close>

theorem node_input_queued_routes:
  assumes inv: "pq_inv (nq_packets s)" and len: "UIP_IPH_LEN < unat (uip_len s)" "unat (uip_len s) \<le> PACKET_BUF_SIZE"
    and port: "be16 (uip_buf s) (UIP_IPH_LEN + unat (uip_ext_len env) + 2) = DTLS_PORT \<longrightarrow> decrypted"
    and no_ka: "\<not> (uip_buf s ! 48 = 0x23 \<and> uip_buf s ! 49 = 0x03)" "50 \<le> length (uip_buf s)"
    and fresh: "\<not> check_fingerprint_uip_buf s"
  shows "\<exists>t. node_input_queued env node decrypted s = Some (uip_packetqueue_free_len (nq_packets s) \<noteq> 0, t)
    \<and> pq_inv (nq_packets t)
    \<and> frames (nq_packets t) =
        (let h = target_queue env node (nq_packets s)
         in if uip_packetqueue_free_len (nq_packets s) = 0 then frames (nq_packets s)
            else (frames (nq_packets s))(h := frames (nq_packets s) h @ [uip_frame s]))
    \<and> nq_log t = nq_log s @ [Post_queue_updated]"
proof -
  let ?n = "add_fingerprint_uip_buf s"
  have "node_input_queued env node decrypted s = node_input_enqueue env node ?n"
    using port no_ka fresh by (auto simp: node_input_queued_def Let_def UIP_IPUDPH_LEN_def)
  then show ?thesis using enqueue_result [of ?n env node] inv len by (auto simp: Let_def)
qed

theorem node_input_queued_routes_witness:
  "\<exists>t. node_input_queued sample_env 7 True
         (node_queue_boot \<lparr> uip_buf := sample_frame @ replicate (PACKET_BUF_SIZE - 41) 0, uip_len := 41 \<rparr>) = Some (True, t)
       \<and> frames (nq_packets t) long_queue = [sample_frame]"
proof -
  let ?s = "node_queue_boot \<lparr> uip_buf := sample_frame @ replicate (PACKET_BUF_SIZE - 41) 0, uip_len := 41 \<rparr>"
  have f: "uip_frame ?s = sample_frame" by (simp add: uip_frame_def sample_frame_def)
  have l: "50 \<le> length (uip_buf ?s)" "uip_buf ?s ! 48 = 0"
    by (simp_all add: sample_frame_def PACKET_BUF_SIZE_def nth_append)
  have c: "\<not> check_fingerprint_uip_buf ?s"
    using f sample_fingerprint by (simp add: check_fingerprint_uip_buf_def Let_def node_queue_boot_def)
  have h: "target_queue sample_env 7 packetqueue_init = long_queue"
    by (simp add: target_queue_def goes_long_def pq_inv_init sample_env_def MODE_MAILBOX_def)
  have p: "nq_packets ?s = packetqueue_init" by (simp add: node_queue_boot_def)
  have u: "unat (uip_len ?s) = 41" by simp
  show ?thesis
    using node_input_queued_routes [of ?s sample_env True 7] c f l h
    unfolding p u by (auto simp: pq_inv_init UIP_IPH_LEN_def PACKET_BUF_SIZE_def Let_def)
qed

text \<open>
  The duplicate filter compares a checksum truncated to 16 bits with the stored 32-bit
  checksums.  A frame that arrives a second time right after it was queued is recognised by its own
  fingerprint only if the upper half of its checksum is zero.
\<close>

theorem duplicate_detection_truncated:
  assumes "length (black_list_crc32 s) = BLACKLIST_LENGTH" and "unat (black_list_n s) < BLACKLIST_LENGTH"
    and others: "\<forall>c \<in> set (black_list_crc32 s). unat c \<ge> 2 ^ 16"
  shows "check_fingerprint_uip_buf (add_fingerprint_uip_buf s) \<longleftrightarrow> unat (fingerprint (uip_frame s)) < 2 ^ 16"
proof -
  let ?c = "fingerprint (uip_frame s)" and ?i = "unat (black_list_n s)"
  have t: "unat (ucast (ucast ?c :: u16) :: u32) = unat ?c mod 2 ^ 16"
    by (simp add: unsigned_ucast_eq unsigned_take_bit_eq take_bit_eq_mod unat_mod)
  have small: "unat (ucast (ucast ?c :: u16) :: u32) < 2 ^ 16" unfolding t by simp
  have eq: "ucast (ucast ?c :: u16) = ?c \<longleftrightarrow> unat ?c < 2 ^ 16"
    unfolding word_unat_eq_iff [of _ ?c] t by (metis mod_less mod_less_divisor zero_less_numeral zero_less_power)
  have "set ((black_list_crc32 s)[?i := ?c]) \<subseteq> insert ?c (set (black_list_crc32 s))" by (rule set_update_subset_insert)
  moreover have "?c \<in> set ((black_list_crc32 s)[?i := ?c])" using assms(1,2) by (simp add: set_update_memI)
  moreover have "x \<noteq> ucast (ucast ?c :: u16)" if "x \<in> set (black_list_crc32 s)" for x
    using others that small by fastforce
  ultimately show ?thesis
    using eq by (auto simp: check_fingerprint_uip_buf_def add_fingerprint_uip_buf_def Let_def list_ex_iff uip_frame_def)
qed

theorem duplicate_detection_truncated_witness:
  "\<not> check_fingerprint_uip_buf (add_fingerprint_uip_buf
       (node_queue_boot \<lparr> black_list_crc32 := [0xFFFFFFFF, 0xFFFFFFFF], uip_buf := [0x60], uip_len := 1 \<rparr>))"
  using duplicate_detection_truncated
    [of "node_queue_boot \<lparr> black_list_crc32 := [0xFFFFFFFF, 0xFFFFFFFF], uip_buf := [0x60], uip_len := 1 \<rparr>"]
  by (simp add: node_queue_boot_def BLACKLIST_LENGTH_def uip_frame_def fingerprint_def crc32_def crc32_round_def crc32_tab_def)

text \<open>
  If the lifetime of a frame ends while that frame is being sent, the report of the sender is taken for the
  frame behind it: with the report of success that frame leaves the queue although it was never given to the
  sender.
\<close>

theorem expiry_while_sending_loses_next:
  assumes "pq_inv (nq_packets s)" and "queue_state s \<noteq> QS_IDLE" and "sent_ok TRANSMIT_COMPLETE_OK sent"
    and "packets (nq_packets s) (sending_queue (queue_state s)) = p # ps"
    and "frames (nq_packets s) (sending_queue (queue_state s)) = f # fs"
  shows "\<exists>q t. lifetimer_expired p (nq_packets s) = Some q
    \<and> queue_send_done env TRANSMIT_COMPLETE_OK sent (s \<lparr> nq_packets := q \<rparr>) = Some t
    \<and> queue_state t = QS_IDLE
    \<and> frames (nq_packets t) = (frames (nq_packets s))(sending_queue (queue_state s) := tl fs)"
proof -
  let ?h = "sending_queue (queue_state s)"
  have p: "p \<in> used_blocks (packets_memb (nq_packets s))" "pkt_handle (pkt_at (nq_packets s) p) = ?h"
    using pq_inv_queue(3,5) [OF assms(1)] assms(4) by (metis list.set_intros(1) subsetD)+
  have fs: "map (frame_at (nq_packets s)) ps = fs" using assms(4,5) by (simp add: frames_def)
  obtain q where q: "lifetimer_expired p (nq_packets s) = Some q" "pq_inv q"
      "frames q = (frames (nq_packets s))(?h := fs)"
    using timeout_step [OF assms(1) p] assms(4) fs by auto
  let ?s = "s \<lparr> nq_packets := q \<rparr>"
  show ?thesis
  proof (cases "fs = []")
    case True
    then have "uip_packetqueue_buf ?h q = None" using queue_reads(3) [OF q(2), of ?h] q(3) by simp
    then show ?thesis using q True assms(2) by (simp add: queue_send_done_def Let_def)
  next
    case False
    then obtain t where "queue_send_done env TRANSMIT_COMPLETE_OK sent ?s = Some t"
        "done_result env TRANSMIT_COMPLETE_OK sent ?s t"
      using queue_send_done_result [of ?s TRANSMIT_COMPLETE_OK sent env] q assms(2,3) by auto
    moreover have "frame_fate env TRANSMIT_COMPLETE_OK a m sent = Drop" for a m
      by (simp add: TRANSMIT_COMPLETE_OK_def TRANSMIT_COMPLETE_REQUEUE_def TRANSMIT_COMPLETE_REQUEUE_QUEUED_def
          TRANSMIT_COMPLETE_NO_ACK_def split: option.split)
    ultimately show ?thesis using q by (auto simp: done_result_def Let_def)
  qed
qed

theorem expiry_while_sending_loses_next_witness:
  "\<exists>s p q t. nq_inv P s \<and> frames (nq_packets s) long_queue = [sample_frame, sample_frame]
     \<and> lifetimer_expired p (nq_packets s) = Some q
     \<and> queue_send_done sample_env TRANSMIT_COMPLETE_OK (Some (sample_frame, 41)) (s \<lparr> nq_packets := q \<rparr>) = Some t
     \<and> frames (nq_packets t) long_queue = []"
proof -
  obtain q0 where q0: "pq_inv q0" "frames q0 = (\<lambda>_. [])(long_queue := [sample_frame])" "uip_packetqueue_free_len q0 = 63"
    using sample_queue by blast
  then obtain q where q: "pq_inv q" "frames q = (\<lambda>_. [])(long_queue := [sample_frame, sample_frame])"
    using pq.put_ok [OF q0(1), of sample_frame _ long_queue]
    by (auto simp: frame_fits_def PACKET_BUF_SIZE_def sample_frame_def)
  let ?s = "node_queue_boot \<lparr> nq_packets := q, queue_state := QS_SENDING_LONG \<rparr>"
  have "packets q long_queue \<noteq> []" using q(2) by (metis frames_def fun_upd_same list.distinct(1) list.simps(8))
  then obtain p ps where "packets q long_queue = p # ps" by (metis list.exhaust)
  moreover have "nq_inv P ?s" using nq_inv_boot q by (simp add: nq_inv_def)
  ultimately show ?thesis
    using expiry_while_sending_loses_next [of ?s "Some (sample_frame, 41)" p ps sample_frame "[sample_frame]" sample_env] q
    by (intro exI [of _ ?s] exI [of _ p]) (auto simp: sent_ok_def sample_frame_def PACKET_BUF_SIZE_def TRANSMIT_COMPLETE_OK_def)
qed

text \<open>
  Initialising the module empties both queues and ends, but it gives the buffers back only when
  a transmission was going on; otherwise the buffers stay allocated until the packets expire.
\<close>

theorem node_queue_init_empties:
  assumes "pq_inv (nq_packets s)"
  shows "\<exists>t. node_queue_init s = Some t \<and> queue_state t = QS_IDLE \<and> pq_inv (nq_packets t)
    \<and> node_queue_idle t = Some True
    \<and> uip_packetqueue_free_len (nq_packets t) = uip_packetqueue_free_len (nq_packets s)
        + (if queue_state s = QS_IDLE then 0
           else length (frames (nq_packets s) first_attempt_queue) + length (frames (nq_packets s) long_queue))"
proof -
  obtain q where "node_queue_init s = Some (s \<lparr> nq_packets := q, queue_state := QS_IDLE \<rparr>)" "pq_inv q"
      "frames q = (nq_frames s)(first_attempt_queue := [], long_queue := [])"
      "uip_packetqueue_free_len q = nq_free s + (if queue_state s = QS_IDLE then 0
        else length (nq_frames s first_attempt_queue) + length (nq_frames s long_queue))"
    using init_result [OF assms] by blast
  then show ?thesis using queue_reads(1) [of q] by (simp add: node_queue_idle_def get_queue_state_def)
qed

theorem node_queue_init_empties_witness:
  "\<exists>t. node_queue_init (node_queue_boot \<lparr> queue_state := QS_SENDING_LONG \<rparr>) = Some t \<and> node_queue_idle t = Some True"
  using node_queue_init_empties [of "node_queue_boot \<lparr> queue_state := QS_SENDING_LONG \<rparr>"]
  by (auto simp: node_queue_boot_def pq_inv_init)

end
