(* ===== verification/Mailbox.thy ===== *)
theory Mailbox
  imports Node_Queue Node_Address Ext_Header
begin

text \<open>
  The mailbox (\<^verbatim>\<open>src/Mailbox.c\<close>): frames for nodes that sleep are kept in a list and sent when
  the node reports that it is awake.  The mailbox can also serve another gateway (proxy) or forward
  its frames to a mailbox service.

  The messages are blocks of a pool, linked into one list (\<^verbatim>\<open>Contiki_Mem\<close>); \<open>last_entry\<close> points to
  the message that is being sent.  Senders, resource directory, network management, clock and address
  resolution belong to other parts of the gateway: they are parameters (\<open>mb_env\<close>), and calls
  into them are recorded in a log.  A sender may report while it is called; what it does is a
  function of the log, so that each call can be answered differently.  \<open>None\<close> stands for an
  access through a null pointer, a buffer overrun or a call that does not end.  A failed assertion only prints a
  message (\<^verbatim>\<open>contiki/core/lib/assert.c\<close>) and the code goes on.
\<close>

section \<open>State and environment\<close>

type_synonym u64 = "64 word"

record mailbox_t =
  data :: bytes
  data_len :: u16
  m_handle :: u8
  proxy :: bytes
  waiting_enabled :: bool
  waiting_timer :: "nat option"
  queued_time :: u64

datatype mb_fsm_state =
    MB_STATE_IDLE | MB_STATE_PROBE_WAKEUP_INTERVAL | MB_STATE_SENDING | MB_STATE_SENDING_THROUGH_PROXY
  | MB_STATE_SENDING_FROM_PROXY | MB_STATE_SENDING_LAST_FORM_PROXY | MB_STATE_SEND_NO_MORE_INFO
  | MB_STATE_SEND_NO_MORE_INFO_DELAYED | MB_STATE_SENDING_PING | MB_STATE_PING_ZIPCLIENTS

datatype mb_event_t =
    MB_EVENT_SEND_DONE | MB_EVENT_WAKEUP | MB_EVENT_POP | MB_EVENT_POPLAST | MB_EVENT_TIMEOUT
  | MB_EVNET_PING_REQ | MB_EVNET_TIME_TO_PING | MB_EVENT_TRANSITION | MB_EVENT_FRAME_SENT_TO_NODE

text \<open>Ports are kept as the 16-bit values the program handles (network order is a matter of bytes).\<close>

record zwave_connection_t =
  lipaddr :: bytes
  ripaddr :: bytes
  lport :: u16
  rport :: u16
  rendpoint :: u8
  lendpoint :: u8
  seq :: u8
  scheme :: security_scheme_t

record mb_state_t =
  state :: mb_fsm_state
  node :: nodeid
  udp_session :: zwave_connection_t
  st_handle :: u8
  send_no_more :: bool
  txStatus :: u8
  last_entry :: addr
  broadcast_wun :: bool

datatype mb_effect =
    Send_udp_status u8 u8 zwave_connection_t
  | Send_zip bytes bytes u16 bytes
  | Send_zip_ack bytes bytes u16 bytes
  | Ping_client zwave_connection_t
  | Ping_address bytes bytes u16
  | Reply zwave_connection_t bytes
  | Classic_input nodeid bytes
  | Send_appl nodeid bytes
  | Send_request nodeid bytes
  | Wake_queues
  | Rd_set_wakeup_interval nodeid nat
  | Config_mode u8
  | Config_port u16
  | Config_destination bytes
  | Abort_classic

text \<open>\<^verbatim>\<open>ClassicZIPNode_input\<close> refuses a frame, or it takes it and reports later or at once.\<close>

datatype zip_reply = Refused | Reports_later | Reports_now u8

record rd_dbe =
  wakeUp_interval :: u32
  lastAwake :: u32

record mb_env =
  queue_env :: nq_env
  ip_of_node :: "nodeid \<Rightarrow> bytes"
  MyNodeID :: nodeid
  lan_addr :: bytes
  clock_seconds :: u64
  node_failing :: "nodeid \<Rightarrow> bool"
  rd_get_node_dbe :: "nodeid \<Rightarrow> rd_dbe option"
  rd_probe_in_progress :: bool
  rd_node_in_probe :: "nodeid \<Rightarrow> bool"
  in_firmware_upgrade :: "nodeid \<Rightarrow> bool"
  nm_idle :: bool
  zip_input :: "mb_effect list \<Rightarrow> zip_reply"
  ping_reply :: "mb_effect list \<Rightarrow> u8 option"
  appl_accepts :: "mb_effect list \<Rightarrow> bool"
  buf_after :: "mb_effect list \<Rightarrow> bytes \<times> u16"

text \<open>\<open>mb_uip_buf\<close> is the packet buffer from \<^verbatim>\<open>UIP_LLH_LEN\<close> on; the \<open>cfg_\<close> fields are those of
  \<^verbatim>\<open>cfg\<close> that the module writes.\<close>

record mailbox =
  mb_list :: addr
  mb_next :: links
  mb_entry :: "addr \<Rightarrow> mailbox_t"
  mb_memb :: memb
  mb_state :: mb_state_t
  ping_timer :: "nat option"
  no_more_timer :: "nat option"
  black_list_crc16 :: "u16 list"
  mb_uip_buf :: bytes
  mb_uip_len :: u16
  cfg_mb_mode :: u8
  cfg_mb_destination :: bytes
  cfg_mb_port :: u16
  mb_log :: "mb_effect list"

definition MAX_MAILBOX_ENTRIES :: nat where "MAX_MAILBOX_ENTRIES = 2000"
definition MAX_MAIL_BOX_PAYLOAD :: nat where "MAX_MAIL_BOX_PAYLOAD = 1544"
definition PING_TIMEOUT_SEC :: nat where "PING_TIMEOUT_SEC = 600"
definition WAITING_TIMEOUT :: nat where "WAITING_TIMEOUT = 60"
definition NO_MORE_TIMEOUT :: nat where "NO_MORE_TIMEOUT = 3"
definition CLOCK_SECOND :: nat where "CLOCK_SECOND = 1000"

definition DISABLE_MAILBOX :: u8 where "DISABLE_MAILBOX = 0"
definition ENABLE_MAILBOX_SERVICE :: u8 where "ENABLE_MAILBOX_SERVICE = 1"
definition ENABLE_MAILBOX_PROXY_FORWARDING :: u8 where "ENABLE_MAILBOX_PROXY_FORWARDING = 2"


definition MAILBOX_PUSH :: u8 where "MAILBOX_PUSH = 0"
definition MAILBOX_POP :: u8 where "MAILBOX_POP = 1"
definition MAILBOX_WAITING :: u8 where "MAILBOX_WAITING = 2"
definition MAILBOX_PING :: u8 where "MAILBOX_PING = 3"
definition MAILBOX_ACK :: u8 where "MAILBOX_ACK = 4"
definition MAILBOX_NAK :: u8 where "MAILBOX_NAK = 5"
definition MAILBOX_QUEUE_FULL :: u8 where "MAILBOX_QUEUE_FULL = 6"

definition uip_htons :: "u16 \<Rightarrow> u16" where
  "uip_htons x = push_bit 8 x OR drop_bit 8 x"

lemma uip_htons_twice: "uip_htons (uip_htons x) = x"
  by (rule bit_word_eqI) (auto simp: uip_htons_def bit_simps)

text \<open>A call of another part: it is recorded and may leave anything in the packet buffer.\<close>

definition mb_call :: "mb_env \<Rightarrow> mb_effect \<Rightarrow> mailbox \<Rightarrow> mailbox" where
  "mb_call env e s =
     (let log = mb_log s @ [e]
      in s \<lparr> mb_log := log, mb_uip_buf := fst (buf_after env log), mb_uip_len := snd (buf_after env log) \<rparr>)"

text \<open>A call that leaves the packet buffer alone.\<close>

definition mb_note :: "mb_effect \<Rightarrow> mailbox \<Rightarrow> mailbox" where
  "mb_note e s = s \<lparr> mb_log := mb_log s @ [e] \<rparr>"

definition upd_st :: "(mb_state_t \<Rightarrow> mb_state_t) \<Rightarrow> mailbox \<Rightarrow> mailbox" where
  "upd_st f s = s \<lparr> mb_state := f (mb_state s) \<rparr>"

definition goto :: "mb_fsm_state \<Rightarrow> mailbox \<Rightarrow> mailbox" where
  "goto q = upd_st (\<lambda>st. st \<lparr> state := q \<rparr>)"

definition upd_entry :: "addr \<Rightarrow> (mailbox_t \<Rightarrow> mailbox_t) \<Rightarrow> mailbox \<Rightarrow> mailbox" where
  "upd_entry p f s = s \<lparr> mb_entry := (mb_entry s)(p := f (mb_entry s p)) \<rparr>"

text \<open>Writing \<open>xs\<close> over the first bytes of a buffer.\<close>

definition copy_to :: "bytes \<Rightarrow> bytes \<Rightarrow> bytes" where
  "copy_to buf xs = xs @ drop (length xs) buf"

definition uip_is_addr_unspecified :: "bytes \<Rightarrow> bool" where
  "uip_is_addr_unspecified ip \<longleftrightarrow> ip = replicate 16 0"

section \<open>Frames in the packet buffer\<close>

definition is_more_info_set :: "mailbox \<Rightarrow> bool" where
  "is_more_info_set s \<longleftrightarrow> (mb_uip_buf s ! (UIP_IPUDPH_LEN + 3)) AND 0x20 \<noteq> 0"

definition get_udp_conn :: "mb_env \<Rightarrow> bytes \<Rightarrow> zwave_connection_t" where
  "get_udp_conn env b =
     (let udp = UIP_IPH_LEN + unat (uip_ext_len (queue_env env))
      in \<lparr> lipaddr = take 16 (drop 24 b), ripaddr = take 16 (drop 8 b), lport = raw16 b (udp + 2),
           rport = raw16 b udp, rendpoint = 0, lendpoint = 0, seq = 0, scheme = NO_SCHEME \<rparr>)"

definition get_zw_conn :: "mb_env \<Rightarrow> mailbox \<Rightarrow> zwave_connection_t" where
  "get_zw_conn env s =
     (let b = mb_uip_buf s
      in (get_udp_conn env b) \<lparr> lendpoint := b ! (UIP_IPUDPH_LEN + 5), rendpoint := b ! (UIP_IPUDPH_LEN + 6),
                               seq := b ! (UIP_IPUDPH_LEN + 4) \<rparr>)"

definition send_waiting :: "mb_env \<Rightarrow> bytes \<Rightarrow> mailbox \<Rightarrow> mailbox" where
  "send_waiting env ipbuf s =
     (let s = s \<lparr> mb_uip_buf := copy_to (mb_uip_buf s) (take (UIP_IPUDPH_LEN + ZIP_HEADER_SIZE) ipbuf) \<rparr>;
          f1 = (mb_uip_buf s ! (UIP_IPUDPH_LEN + 3)) AND 0x10
      in mb_call env (Send_udp_status (0x20 OR 0x10) f1 (get_zw_conn env s)) s)"

definition mb_send_queue_full :: "mb_env \<Rightarrow> mailbox \<Rightarrow> mailbox" where
  "mb_send_queue_full env s =
     (let f1 = (mb_uip_buf s ! (UIP_IPUDPH_LEN + 3)) AND 0x10
      in mb_call env (Send_udp_status (0x20 OR 0x08) f1 (get_zw_conn env s)) s)"

definition mb_get_dnode :: "mb_env \<Rightarrow> bytes \<Rightarrow> nodeid" where
  "mb_get_dnode env ip_pkt = node_of_ip (queue_env env) (destipaddr ip_pkt)"

definition load_uipbuf_with :: "mailbox_t \<Rightarrow> mailbox \<Rightarrow> mailbox option" where
  "load_uipbuf_with m s =
     (if length (mb_uip_buf s) < unat (data_len m) then None
      else Some (s \<lparr> mb_uip_buf := copy_to (mb_uip_buf s) (take (unat (data_len m)) (data m)),
                    mb_uip_len := data_len m \<rparr>))"

section \<open>The messages\<close>

definition mb_free_entry :: "addr \<Rightarrow> mailbox \<Rightarrow> mailbox option" where
  "mb_free_entry m s =
     (if m = 0 then None
      else (let s = upd_entry m (\<lambda>e. e \<lparr> waiting_timer := None \<rparr>) s
            in (case list_remove (mb_list s) m (mb_next s) of
                  None \<Rightarrow> None
                | Some (l, nxt) \<Rightarrow>
                    Some (s \<lparr> mb_list := l, mb_next := nxt, mb_memb := snd (memb_free (mb_memb s) m) \<rparr>))))"

text \<open>The block that carries the command is given back at once; its \<^verbatim>\<open>handle\<close> field is the one sent.\<close>

definition send_mb_proxy_queue_command :: "mb_env \<Rightarrow> u8 \<Rightarrow> addr \<Rightarrow> mailbox \<Rightarrow> mailbox option" where
  "send_mb_proxy_queue_command env cmd entry s =
     (case memb_alloc (mb_memb s) of
        (m, pool) \<Rightarrow>
          if m = 0 then None
          else (let e = mb_entry s entry;
                    head = [0x69, 0x04, cmd, m_handle (mb_entry s m)];
                    n = unat (data_len e);
                    s = s \<lparr> mb_memb := pool \<rparr>;
                    s = upd_entry m (\<lambda>b. b \<lparr> data := copy_to (data b) (head @ take n (data e)) \<rparr>) s;
                    s = mb_call env (Send_zip (ip_of_node env (MyNodeID env)) (proxy e) (uip_htons DTLS_PORT)
                                      (take (n + 4) (data (mb_entry s m)))) s
                in Some (s \<lparr> mb_memb := snd (memb_free (mb_memb s) m) \<rparr>)))"

definition msg_expired :: "mb_env \<Rightarrow> mailbox_t \<Rightarrow> bool" where
  "msg_expired env e \<longleftrightarrow> queued_time e + 11 * 60 < clock_seconds env"

definition mb_drop_message :: "mb_env \<Rightarrow> addr \<Rightarrow> mailbox \<Rightarrow> mailbox option" where
  "mb_drop_message env m s =
     (let e = mb_entry s m;
          s = (if is_zip_pkt (queue_env env) (data e) \<and> uip_is_addr_unspecified (proxy e)
               then (let s = s \<lparr> mb_uip_buf := copy_to (mb_uip_buf s) (take (UIP_IPUDPH_LEN + ZIP_HEADER_SIZE) (data e)) \<rparr>
                     in mb_call env (Send_udp_status 0x20 0 (get_zw_conn env s)) s)
               else s)
      in mb_free_entry m s)"

partial_function (option) failing_notify_loop :: "mb_env \<Rightarrow> bytes \<Rightarrow> addr \<Rightarrow> mailbox \<Rightarrow> mailbox option" where
  "failing_notify_loop env ip mb s =
     (if mb = 0 then Some s
      else (let m = mb; mb = list_item_next (mb_next s) m
            in if destipaddr (data (mb_entry s m)) = ip \<and> msg_expired env (mb_entry s m)
               then Option.bind (mb_drop_message env m s) (failing_notify_loop env ip mb)
               else failing_notify_loop env ip mb s))"

definition mb_failing_notify_byip :: "mb_env \<Rightarrow> bytes \<Rightarrow> mailbox \<Rightarrow> mailbox option" where
  "mb_failing_notify_byip env ip s = failing_notify_loop env ip (list_head (mb_list s)) s"

definition mb_purge_messages :: "mb_env \<Rightarrow> nodeid \<Rightarrow> mailbox \<Rightarrow> mailbox option" where
  "mb_purge_messages env n s =
     (if cfg_mb_mode s = ENABLE_MAILBOX_PROXY_FORWARDING
      then Some (mb_call env (Send_zip (lan_addr env) (cfg_mb_destination s) (cfg_mb_port s)
                               ([0x69, 0x06] @ ip_of_node env n)) s)
      else mb_failing_notify_byip env (ip_of_node env n) s)"

definition mb_failing_notify :: "mb_env \<Rightarrow> nodeid \<Rightarrow> mailbox \<Rightarrow> mailbox option" where
  "mb_failing_notify env n s = mb_purge_messages env n s"

definition send_waiting_timeout :: "mb_env \<Rightarrow> addr \<Rightarrow> mailbox \<Rightarrow> mailbox option" where
  "send_waiting_timeout env mb s =
     (let e = mb_entry s mb
      in Option.bind
           (if waiting_enabled e
            then if uip_is_addr_unspecified (proxy e) then Some (send_waiting env (data e) s)
                 else send_mb_proxy_queue_command env MAILBOX_WAITING mb s
            else Some s)
           (\<lambda>s. Some (upd_entry mb (\<lambda>e. e \<lparr> waiting_timer := Some (WAITING_TIMEOUT * CLOCK_SECOND) \<rparr>) s)))"

text \<open>
  \<^verbatim>\<open>mb_post_uipbuf\<close>: \<open>prox\<close> is \<open>None\<close> for the null pointer.  The result tells whether the mailbox has
  taken charge of the frame.
\<close>

definition mb_store :: "mb_env \<Rightarrow> bytes option \<Rightarrow> u8 \<Rightarrow> nodeid \<Rightarrow> addr \<Rightarrow> mailbox \<Rightarrow> (bool \<times> mailbox) option" where
  "mb_store env prox hnd dnode m s =
     (if length (mb_uip_buf s) < unat (mb_uip_len s) then None
      else
        (let frame = take (unat (mb_uip_len s)) (mb_uip_buf s);
             s = upd_entry m (\<lambda>e. e \<lparr> data_len := mb_uip_len s, waiting_enabled := is_zip_pkt (queue_env env) (mb_uip_buf s),
                                   data := copy_to (data e) frame, queued_time := clock_seconds env,
                                   waiting_timer := Some 200 \<rparr>) s;
             s = (case prox of
                    Some ip \<Rightarrow> upd_entry m (\<lambda>e. e \<lparr> proxy := ip, m_handle := hnd \<rparr>) s
                  | None \<Rightarrow> upd_entry m (\<lambda>e. e \<lparr> proxy := replicate 16 0 \<rparr>) s)
         in if prox \<noteq> None \<and> memb_free_count (mb_memb s) = 1
            then Option.bind (send_mb_proxy_queue_command env MAILBOX_QUEUE_FULL m s)
                   (\<lambda>s. Option.bind (mb_free_entry m s) (\<lambda>s. Some (True, s)))
            else (case list_add (mb_list s) m (mb_next s) of
                    None \<Rightarrow> None
                  | Some (l, nxt) \<Rightarrow>
                      (let s = s \<lparr> mb_list := l, mb_next := nxt \<rparr>
                       in if node_failing env dnode
                          then Option.bind (mb_failing_notify env dnode s) (\<lambda>s. Some (True, s))
                          else Some (True, s)))))"

definition mb_forward :: "mb_env \<Rightarrow> nodeid \<Rightarrow> mailbox \<Rightarrow> mailbox option" where
  "mb_forward env dnode s =
     (case memb_alloc (mb_memb s) of
        (m, pool) \<Rightarrow>
          if m = 0 \<or> length (mb_uip_buf s) < unat (mb_uip_len s) then None
          else (let n = unat (mb_uip_len s);
                    head = [0x69, 0x04, MAILBOX_PUSH, ucast dnode];
                    waiting = is_zip_pkt (queue_env env) (mb_uip_buf s);
                    s = s \<lparr> mb_memb := pool \<rparr>;
                    s = upd_entry m (\<lambda>e. e \<lparr> data_len := mb_uip_len s, waiting_enabled := waiting,
                                          data := copy_to (data e) (head @ take n (mb_uip_buf s)) \<rparr>) s;
                    s = mb_call env (Send_zip_ack (ip_of_node env (MyNodeID env)) (cfg_mb_destination s)
                                      (cfg_mb_port s) (take (n + 4) (data (mb_entry s m)))) s
                in Some (s \<lparr> mb_memb := snd (memb_free (mb_memb s) m) \<rparr>)))"

definition mb_post_uipbuf :: "mb_env \<Rightarrow> bytes option \<Rightarrow> u8 \<Rightarrow> mailbox \<Rightarrow> (bool \<times> mailbox) option" where
  "mb_post_uipbuf env prox hnd s =
     (let dnode = mb_get_dnode env (mb_uip_buf s);
          icmp = UIP_IPH_LEN + unat (uip_ext_len (queue_env env))
      in if mb_uip_buf s ! 6 = 58 \<and> mb_uip_buf s ! icmp \<noteq> 128 then Some (False, s)
         else if unat (mb_uip_len s) < UIP_IPUDPH_LEN then Some (False, s)
         else if cfg_mb_mode s = DISABLE_MAILBOX then Some (True, s)
         else if cfg_mb_mode s = ENABLE_MAILBOX_PROXY_FORWARDING
         then Option.bind (mb_forward env dnode s) (\<lambda>s. Some (True, s))
         else (case memb_alloc (mb_memb s) of
                 (m, pool) \<Rightarrow>
                   if m = 0 then Some (False, if prox = None then mb_send_queue_full env s else s)
                   else mb_store env prox hnd dnode m (s \<lparr> mb_memb := pool \<rparr>)))"

section \<open>The state machine\<close>

text \<open>
  \<^verbatim>\<open>mb_send_no_more_information\<close>: the status, if any, with which the code calls \<^verbatim>\<open>mb_send_done\<close> at once.
\<close>

definition mb_send_no_more_information :: "mb_env \<Rightarrow> nodeid \<Rightarrow> mailbox \<Rightarrow> u8 option \<times> mailbox" where
  "mb_send_no_more_information env n s =
     (if \<not> broadcast_wun (mb_state s)
      then (let s = mb_call env (Send_appl n [0x84, 0x08]) s
            in (if appl_accepts env (mb_log s) then None else Some TRANSMIT_COMPLETE_FAIL, s))
      else (Some TRANSMIT_COMPLETE_OK, upd_st (\<lambda>st. st \<lparr> broadcast_wun := False \<rparr>) s))"

text \<open>Only the first three bytes of the status frame are sent: the handle is not among them.\<close>

definition mb_send_proxy_status :: "mb_env \<Rightarrow> u8 \<Rightarrow> mailbox \<Rightarrow> mailbox" where
  "mb_send_proxy_status env status s =
     (let st = mb_state s
      in if rport (udp_session st) \<noteq> 0
         then mb_call env (Reply (udp_session st) (take 3 [0x69, 0x04, status, st_handle st])) s
         else s)"

definition proxy_status_of :: "mailbox \<Rightarrow> u8" where
  "proxy_status_of s = (if txStatus (mb_state s) = TRANSMIT_COMPLETE_OK then MAILBOX_ACK else MAILBOX_NAK)"

definition set_status :: "u8 \<Rightarrow> mailbox \<Rightarrow> mailbox" where
  "set_status status = upd_st (\<lambda>st. st \<lparr> txStatus := status \<rparr>)"

definition set_last_entry :: "addr \<Rightarrow> mailbox \<Rightarrow> mailbox" where
  "set_last_entry p = upd_st (\<lambda>st. st \<lparr> last_entry := p \<rparr>)"

definition set_no_more_timer :: "mailbox \<Rightarrow> mailbox" where
  "set_no_more_timer s = s \<lparr> no_more_timer := Some (NO_MORE_TIMEOUT * CLOCK_SECOND) \<rparr>"

definition set_ping_timer :: "mailbox \<Rightarrow> mailbox" where
  "set_ping_timer s = s \<lparr> ping_timer := Some (PING_TIMEOUT_SEC * CLOCK_SECOND) \<rparr>"

text \<open>
  Whether the wake-up interval has to be read again: the node was failing or reported at another
  time than expected.  The differences are those of C's 32-bit \<^verbatim>\<open>int\<close>.
\<close>

definition wakeup_off_schedule :: "mb_env \<Rightarrow> rd_dbe \<Rightarrow> bool" where
  "wakeup_off_schedule env n =
     (let awake = ucast (clock_seconds env - ucast (lastAwake n)) :: u32;
          diff = sint (wakeUp_interval n - awake);
          a = (if diff < 0 then - diff else diff)
      in uint (word_of_int a :: u32) > uint (drop_bit 3 (wakeUp_interval n)))"

text \<open>The next entry for the node being served, from \<open>last_entry\<close> on.\<close>

partial_function (option) next_for_node :: "mb_env \<Rightarrow> nodeid \<Rightarrow> addr \<Rightarrow> mailbox \<Rightarrow> addr option" where
  "next_for_node env n p s =
     (if p = 0 then Some 0
      else if mb_get_dnode env (data (mb_entry s p)) = n then Some p
      else next_for_node env n (list_item_next (mb_next s) p) s)"

text \<open>The first entry that belongs to the proxy session, and whether there is no second one.\<close>

partial_function (option) match_proxy :: "addr \<Rightarrow> nat \<Rightarrow> bool \<Rightarrow> mailbox \<Rightarrow> (nat \<times> bool \<times> mailbox) option" where
  "match_proxy mb count lst s =
     (if mb = 0 then Some (count, lst, s)
      else (let st = mb_state s; nxt = list_item_next (mb_next s) mb
            in if proxy (mb_entry s mb) = ripaddr (udp_session st) \<and> st_handle st = m_handle (mb_entry s mb)
               then if count = 0 then match_proxy nxt (count + 1) lst (set_last_entry mb s)
                    else match_proxy nxt (count + 1) False s
               else match_proxy nxt count lst s))"

definition ping_connection :: "mb_env \<Rightarrow> mailbox_t \<Rightarrow> zwave_connection_t" where
  "ping_connection env e =
     (let b = data e; udp = UIP_IPH_LEN + unat (uip_ext_len (queue_env env))
      in \<lparr> lipaddr = take 16 (drop 24 b), ripaddr = take 16 (drop 8 b), lport = raw16 b (udp + 2), rport = raw16 b udp,
           rendpoint = b ! (UIP_IPUDPH_LEN + 5), lendpoint = b ! (UIP_IPUDPH_LEN + 6), seq = 0,
           scheme = AUTO_SCHEME \<rparr>)"

text \<open>The handling of the entry that was being sent, on entering \<^verbatim>\<open>MB_STATE_SENDING\<close> or when sending is done.\<close>

definition sending_entry :: "mb_event_t \<Rightarrow> mailbox \<Rightarrow> mailbox option" where
  "sending_entry event s =
     (if event = MB_EVENT_SEND_DONE then
        (let mb = last_entry (mb_state s);
             s = set_last_entry (list_item_next (mb_next s) mb) s
         in if txStatus (mb_state s) = TRANSMIT_COMPLETE_OK then mb_free_entry mb s else Some s)
      else if event = MB_EVENT_TRANSITION then Some (set_last_entry (list_head (mb_list s)) s)
      else Some s)"

definition ping_done :: "mailbox \<Rightarrow> mailbox option" where
  "ping_done s =
     (let p = last_entry (mb_state s)
      in if p = 0 then None
         else Some (set_last_entry (list_item_next (mb_next s) p)
                     (upd_entry p (\<lambda>e. e \<lparr> waiting_enabled := (txStatus (mb_state s) = TRANSMIT_COMPLETE_OK) \<rparr>) s)))"

text \<open>Handing the frame in the packet buffer to the sender.\<close>

definition classic_input :: "mb_env \<Rightarrow> mailbox \<Rightarrow> zip_reply \<times> mailbox" where
  "classic_input env s =
     (let s = mb_call env (Classic_input (node (mb_state s)) (take (unat (mb_uip_len s)) (mb_uip_buf s))) s
      in (zip_input env (mb_log s), s))"

text \<open>
  The branches of \<^verbatim>\<open>mb_state_transition\<close>, one per state; \<open>tr\<close> is the function itself, which they call again.
\<close>

type_synonym mb_handler = "mb_event_t \<Rightarrow> mailbox \<Rightarrow> mailbox option"

definition on_idle :: "mb_handler \<Rightarrow> mb_env \<Rightarrow> mb_handler" where
  "on_idle tr env event s =
   (if event = MB_EVNET_TIME_TO_PING then
        tr MB_EVENT_TRANSITION
          (goto MB_STATE_PING_ZIPCLIENTS (set_last_entry (list_head (mb_list s)) s))
      else if event = MB_EVNET_PING_REQ then
        (let b = mb_uip_buf s;
             udp = UIP_IPH_LEN + unat (uip_ext_len (queue_env env));
             s = mb_call env (Ping_address (lan_addr env) (take 16 (drop 8 b)) (raw16 b udp)) s
         in (case ping_reply env (mb_log s) of
               None \<Rightarrow> Some (goto MB_STATE_SENDING_PING s)
             | Some status \<Rightarrow>
                 Option.bind (tr MB_EVENT_SEND_DONE (set_status status s)) (\<lambda>s. Some (goto MB_STATE_SENDING_PING s))))
      else if event = MB_EVENT_WAKEUP then
        if node (mb_state s) = 0 then
          tr MB_EVENT_TRANSITION
            (goto MB_STATE_SENDING_THROUGH_PROXY (set_last_entry (list_head (mb_list s)) s))
        else
          (case rd_get_node_dbe env (node (mb_state s)) of
             Some n \<Rightarrow>
               if node_failing env (node (mb_state s)) \<or> wakeup_off_schedule env n
               then tr MB_EVENT_TRANSITION (goto MB_STATE_PROBE_WAKEUP_INTERVAL s)
               else tr MB_EVENT_TRANSITION (goto MB_STATE_SENDING s)
           | None \<Rightarrow>
               (case mb_send_no_more_information env (node (mb_state s)) (goto MB_STATE_SEND_NO_MORE_INFO s) of
                  (None, s) \<Rightarrow> Some s
                | (Some status, s) \<Rightarrow> tr MB_EVENT_SEND_DONE (set_status status s)))
      else if event = MB_EVENT_POP then
        (case classic_input env (goto MB_STATE_SENDING_FROM_PROXY s) of
           (Refused, s) \<Rightarrow> tr MB_EVENT_SEND_DONE (set_status TRANSMIT_COMPLETE_FAIL s)
         | (Reports_later, s) \<Rightarrow> Some s
         | (Reports_now status, s) \<Rightarrow> tr MB_EVENT_SEND_DONE (set_status status s))
      else if event = MB_EVENT_POPLAST then
        (case classic_input env (goto MB_STATE_SENDING_LAST_FORM_PROXY s) of
           (Refused, s) \<Rightarrow> tr MB_EVENT_SEND_DONE (set_status TRANSMIT_COMPLETE_FAIL s)
         | (Reports_later, s) \<Rightarrow> Some s
         | (Reports_now status, s) \<Rightarrow> tr MB_EVENT_SEND_DONE (set_status status s))
      else if event = MB_EVENT_TRANSITION then Some (mb_note Wake_queues s)
      else Some s)"

definition on_probe_wakeup :: "mb_handler \<Rightarrow> mb_env \<Rightarrow> mb_handler" where
  "on_probe_wakeup tr env event s =
   (if event = MB_EVENT_TRANSITION then
        (let s = mb_call env (Send_request (node (mb_state s)) [0x84, 0x05]) s
         in if appl_accepts env (mb_log s) then Some s
            else tr MB_EVENT_SEND_DONE s)
      else if event = MB_EVENT_SEND_DONE then
        tr MB_EVENT_TRANSITION (goto MB_STATE_SENDING s)
      else Some s)"

definition on_ping_zipclients :: "mb_handler \<Rightarrow> mb_env \<Rightarrow> mb_handler" where
  "on_ping_zipclients tr env event s =
   (if event = MB_EVENT_TRANSITION then
        if last_entry (mb_state s) = 0 then
          tr MB_EVENT_TRANSITION (goto MB_STATE_IDLE (set_ping_timer s))
        else if \<not> waiting_enabled (mb_entry s (last_entry (mb_state s))) then
          tr MB_EVENT_TRANSITION
            (set_last_entry (list_item_next (mb_next s) (last_entry (mb_state s))) s)
        else if uip_is_addr_unspecified (proxy (mb_entry s (last_entry (mb_state s)))) then
          (let s = mb_call env (Ping_client (ping_connection env (mb_entry s (last_entry (mb_state s))))) s
           in (case ping_reply env (mb_log s) of
                 None \<Rightarrow> Some s
               | Some status \<Rightarrow> tr MB_EVENT_SEND_DONE (set_status status s)))
        else send_mb_proxy_queue_command env MAILBOX_PING (last_entry (mb_state s)) s
      else if event = MB_EVENT_SEND_DONE then
        Option.bind (ping_done s) (tr MB_EVENT_TRANSITION)
      else Some s)"

definition on_sending_through_proxy :: "mb_handler \<Rightarrow> mb_env \<Rightarrow> mb_handler" where
  "on_sending_through_proxy tr env event s =
   (if event = MB_EVENT_TIMEOUT then
        tr MB_EVENT_TRANSITION (goto MB_STATE_IDLE s)
      else if event = MB_EVENT_TRANSITION \<or> event = MB_EVENT_SEND_DONE then
        (let lst = \<not> is_more_info_set s
         in Option.bind
              (if event = MB_EVENT_SEND_DONE \<and> txStatus (mb_state s) = TRANSMIT_COMPLETE_OK
               then mb_free_entry (last_entry (mb_state s)) s else Some s)
              (\<lambda>s. Option.bind (match_proxy (list_head (mb_list s)) 0 lst s)
                 (\<lambda>(count, lst, s).
                    if count \<noteq> 0
                    then send_mb_proxy_queue_command env ((if lst then 8 else 0) OR MAILBOX_POP)
                           (last_entry (mb_state s)) s
                    else tr MB_EVENT_TRANSITION
                           (goto MB_STATE_IDLE (set_last_entry 0 s)))))
      else Some s)"

definition on_sending :: "mb_handler \<Rightarrow> mb_env \<Rightarrow> mb_handler" where
  "on_sending tr env event s =
   (Option.bind (sending_entry event s)
        (\<lambda>s. Option.bind (next_for_node env (node (mb_state s)) (last_entry (mb_state s)) s)
           (\<lambda>p. let s = set_last_entry p s
                 in if p \<noteq> 0 then
                      Option.bind (load_uipbuf_with (mb_entry s p) s)
                        (\<lambda>s. let s = (if is_more_info_set s
                                        then upd_st (\<lambda>st. st \<lparr> send_no_more := False \<rparr>) s else s)
                              in (case classic_input env s of
                                    (reply, s) \<Rightarrow>
                                      Option.bind
                                        (if reply = Refused
                                         then tr MB_EVENT_TRANSITION
                                                (goto MB_STATE_SEND_NO_MORE_INFO s)
                                         else (case reply of
                                                 Reports_now status \<Rightarrow> tr MB_EVENT_SEND_DONE (set_status status s)
                                               | _ \<Rightarrow> Some s))
                                        (\<lambda>s. Some (s \<lparr> mb_uip_len := 0 \<rparr>))))
                    else if send_no_more (mb_state s) then
                      tr MB_EVENT_TRANSITION (goto MB_STATE_SEND_NO_MORE_INFO s)
                    else Some (mb_note Wake_queues
                                (set_no_more_timer (goto MB_STATE_SEND_NO_MORE_INFO_DELAYED s))))))"

definition on_no_more_info_delayed :: "mb_handler \<Rightarrow> mb_env \<Rightarrow> mb_handler" where
  "on_no_more_info_delayed tr env event s =
   (if event = MB_EVENT_TIMEOUT then
        if rd_node_in_probe env (node (mb_state s)) \<or> in_firmware_upgrade env (node (mb_state s)) then Some (set_no_more_timer s)
        else (case mb_send_no_more_information env (node (mb_state s)) (goto MB_STATE_SEND_NO_MORE_INFO s) of
                (None, s) \<Rightarrow> Some s
              | (Some status, s) \<Rightarrow> tr MB_EVENT_SEND_DONE (set_status status s))
      else if event = MB_EVENT_FRAME_SENT_TO_NODE then Some (set_no_more_timer s)
      else Some s)"

definition on_send_no_more_info :: "mb_handler \<Rightarrow> mb_env \<Rightarrow> mb_handler" where
  "on_send_no_more_info tr env event s =
   (if event = MB_EVENT_TRANSITION then
        (let s = mb_send_proxy_status env (proxy_status_of s) s
         in (case mb_send_no_more_information env (node (mb_state s)) s of
                   (None, s) \<Rightarrow> Some s
                 | (Some status, s) \<Rightarrow> tr MB_EVENT_SEND_DONE (set_status status s)))
      else if event = MB_EVENT_SEND_DONE then
        tr MB_EVENT_TRANSITION (goto MB_STATE_IDLE s)
      else Some s)"

definition on_sending_from_proxy :: "mb_handler \<Rightarrow> mb_env \<Rightarrow> mb_handler" where
  "on_sending_from_proxy tr env event s =
   (if event = MB_EVENT_SEND_DONE then
        tr MB_EVENT_TRANSITION (goto MB_STATE_IDLE (mb_send_proxy_status env (proxy_status_of s) s))
      else Some s)"

definition on_sending_last_from_proxy :: "mb_handler \<Rightarrow> mb_env \<Rightarrow> mb_handler" where
  "on_sending_last_from_proxy tr env event s =
   (if event = MB_EVENT_SEND_DONE then
        tr MB_EVENT_TRANSITION (goto MB_STATE_SEND_NO_MORE_INFO s)
      else Some s)"

definition on_sending_ping :: "mb_handler \<Rightarrow> mb_env \<Rightarrow> mb_handler" where
  "on_sending_ping tr env event s =
   tr MB_EVENT_TRANSITION (goto MB_STATE_IDLE (mb_send_proxy_status env (proxy_status_of s) s))"

text \<open>The branches use the recursive calls monotonically, which makes the recursion below well defined.\<close>

lemma mono_case_option:
  "mono_option A \<Longrightarrow> (\<And>y. mono_option (\<lambda>f. B f y)) \<Longrightarrow>
   mono_option (\<lambda>f. case x of None \<Rightarrow> A f | Some y \<Rightarrow> B f y)"
  by (cases x) auto

lemma mono_case_zip_reply:
  "mono_option A \<Longrightarrow> mono_option B \<Longrightarrow> (\<And>y. mono_option (\<lambda>f. C f y)) \<Longrightarrow>
   mono_option (\<lambda>f. case x of Refused \<Rightarrow> A f | Reports_later \<Rightarrow> B f | Reports_now y \<Rightarrow> C f y)"
  by (cases x) auto

lemma mono_case_prod:
  "(\<And>a b. mono_option (\<lambda>f. A f a b)) \<Longrightarrow> mono_option (\<lambda>f. case x of (a, b) \<Rightarrow> A f a b)"
  by (cases x) auto

lemmas handler_mono = partial_function_mono mono_case_option mono_case_zip_reply mono_case_prod

lemma on_idle_mono [partial_function_mono]:
  assumes "\<And>ev s. mono_option (\<lambda>f. B f ev s)"
  shows "mono_option (\<lambda>f. on_idle (B f) env event s)"
  unfolding on_idle_def Let_def by (intro handler_mono assms)

lemma on_probe_wakeup_mono [partial_function_mono]:
  assumes "\<And>ev s. mono_option (\<lambda>f. B f ev s)"
  shows "mono_option (\<lambda>f. on_probe_wakeup (B f) env event s)"
  unfolding on_probe_wakeup_def Let_def by (intro handler_mono assms)

lemma on_ping_zipclients_mono [partial_function_mono]:
  assumes "\<And>ev s. mono_option (\<lambda>f. B f ev s)"
  shows "mono_option (\<lambda>f. on_ping_zipclients (B f) env event s)"
  unfolding on_ping_zipclients_def Let_def by (intro handler_mono assms)

lemma on_sending_through_proxy_mono [partial_function_mono]:
  assumes "\<And>ev s. mono_option (\<lambda>f. B f ev s)"
  shows "mono_option (\<lambda>f. on_sending_through_proxy (B f) env event s)"
  unfolding on_sending_through_proxy_def Let_def by (intro handler_mono assms)

lemma on_sending_mono [partial_function_mono]:
  assumes "\<And>ev s. mono_option (\<lambda>f. B f ev s)"
  shows "mono_option (\<lambda>f. on_sending (B f) env event s)"
  unfolding on_sending_def Let_def by (intro handler_mono assms)

lemma on_no_more_info_delayed_mono [partial_function_mono]:
  assumes "\<And>ev s. mono_option (\<lambda>f. B f ev s)"
  shows "mono_option (\<lambda>f. on_no_more_info_delayed (B f) env event s)"
  unfolding on_no_more_info_delayed_def Let_def by (intro handler_mono assms)

lemma on_send_no_more_info_mono [partial_function_mono]:
  assumes "\<And>ev s. mono_option (\<lambda>f. B f ev s)"
  shows "mono_option (\<lambda>f. on_send_no_more_info (B f) env event s)"
  unfolding on_send_no_more_info_def Let_def by (intro handler_mono assms)

lemma on_sending_from_proxy_mono [partial_function_mono]:
  assumes "\<And>ev s. mono_option (\<lambda>f. B f ev s)"
  shows "mono_option (\<lambda>f. on_sending_from_proxy (B f) env event s)"
  unfolding on_sending_from_proxy_def Let_def by (intro handler_mono assms)

lemma on_sending_last_from_proxy_mono [partial_function_mono]:
  assumes "\<And>ev s. mono_option (\<lambda>f. B f ev s)"
  shows "mono_option (\<lambda>f. on_sending_last_from_proxy (B f) env event s)"
  unfolding on_sending_last_from_proxy_def Let_def by (intro handler_mono assms)

lemma on_sending_ping_mono [partial_function_mono]:
  assumes "\<And>ev s. mono_option (\<lambda>f. B f ev s)"
  shows "mono_option (\<lambda>f. on_sending_ping (B f) env event s)"
  unfolding on_sending_ping_def Let_def by (intro handler_mono assms)

partial_function (option) mb_state_transition :: "mb_env \<Rightarrow> mb_event_t \<Rightarrow> mailbox \<Rightarrow> mailbox option" where
  "mb_state_transition env event s =
     (case state (mb_state s) of
        MB_STATE_IDLE \<Rightarrow> on_idle (mb_state_transition env) env event s
      | MB_STATE_PROBE_WAKEUP_INTERVAL \<Rightarrow> on_probe_wakeup (mb_state_transition env) env event s
      | MB_STATE_PING_ZIPCLIENTS \<Rightarrow> on_ping_zipclients (mb_state_transition env) env event s
      | MB_STATE_SENDING_THROUGH_PROXY \<Rightarrow> on_sending_through_proxy (mb_state_transition env) env event s
      | MB_STATE_SENDING \<Rightarrow> on_sending (mb_state_transition env) env event s
      | MB_STATE_SEND_NO_MORE_INFO_DELAYED \<Rightarrow> on_no_more_info_delayed (mb_state_transition env) env event s
      | MB_STATE_SEND_NO_MORE_INFO \<Rightarrow> on_send_no_more_info (mb_state_transition env) env event s
      | MB_STATE_SENDING_FROM_PROXY \<Rightarrow> on_sending_from_proxy (mb_state_transition env) env event s
      | MB_STATE_SENDING_LAST_FORM_PROXY \<Rightarrow> on_sending_last_from_proxy (mb_state_transition env) env event s
      | MB_STATE_SENDING_PING \<Rightarrow> on_sending_ping (mb_state_transition env) env event s)"

section \<open>Entry points\<close>

definition mb_send_done_event :: "mb_env \<Rightarrow> u8 \<Rightarrow> mailbox \<Rightarrow> mailbox option" where
  "mb_send_done_event env status s = mb_state_transition env MB_EVENT_SEND_DONE (set_status status s)"

definition mb_send_done :: "mb_env \<Rightarrow> u8 \<Rightarrow> mailbox \<Rightarrow> mailbox option" where
  "mb_send_done env status s = mb_state_transition env MB_EVENT_SEND_DONE (set_status status s)"

definition mb_udp_ping_reply :: "mb_env \<Rightarrow> u8 \<Rightarrow> mailbox \<Rightarrow> mailbox option" where
  "mb_udp_ping_reply env status s = mb_state_transition env MB_EVENT_SEND_DONE (set_status status s)"

definition send_ping_timeout :: "mb_env \<Rightarrow> mailbox \<Rightarrow> mailbox option" where
  "send_ping_timeout env s =
     Option.bind (mb_state_transition env MB_EVNET_TIME_TO_PING s) (\<lambda>s. Some (set_ping_timer s))"

definition no_more_timeout :: "mb_env \<Rightarrow> mailbox \<Rightarrow> mailbox option" where
  "no_more_timeout env s = mb_state_transition env MB_EVENT_TIMEOUT s"

text \<open>The report is the three bytes of the interval; the node has to be in the resource directory.\<close>

definition mb_probe_wakeup_callback :: "mb_env \<Rightarrow> u8 \<Rightarrow> u8 \<times> u8 \<times> u8 \<Rightarrow> mailbox \<Rightarrow> mailbox option" where
  "mb_probe_wakeup_callback env status seconds s =
     (let n = node (mb_state s)
      in Option.bind
           (if status = TRANSMIT_COMPLETE_OK \<and> state (mb_state s) = MB_STATE_PROBE_WAKEUP_INTERVAL
            then if rd_get_node_dbe env n = None then None
                 else (case seconds of (s1, s2, s3) \<Rightarrow>
                         Some (mb_note (Rd_set_wakeup_interval n
                                 (push_bit 16 (unat s1) OR push_bit 8 (unat s2) OR unat s3)) s))
            else Some s)
           (mb_state_transition env MB_EVENT_SEND_DONE))"

definition mb_probe_node_callback :: "mb_env \<Rightarrow> mailbox \<Rightarrow> mailbox option" where
  "mb_probe_node_callback env s = mb_state_transition env MB_EVENT_TRANSITION (goto MB_STATE_SENDING s)"

definition mb_init :: "mailbox \<Rightarrow> mailbox" where
  "mb_init s =
     s \<lparr> mb_memb := memb_init MAX_MAILBOX_ENTRIES, mb_list := 0,
        black_list_crc16 := replicate MAX_MAILBOX_ENTRIES 0, ping_timer := Some (60 * CLOCK_SECOND) \<rparr>"

definition mb_wakeup_event :: "mb_env \<Rightarrow> nodeid \<Rightarrow> bool \<Rightarrow> mailbox \<Rightarrow> mailbox option" where
  "mb_wakeup_event env n is_broadcast s =
     (if \<not> nm_idle env then Some s
      else if cfg_mb_mode s = DISABLE_MAILBOX then Some s
      else if cfg_mb_mode s = ENABLE_MAILBOX_SERVICE then
        if \<not> rd_probe_in_progress env \<and> state (mb_state s) = MB_STATE_IDLE
        then mb_state_transition env MB_EVENT_WAKEUP
               (upd_st (\<lambda>st. st \<lparr> node := n, send_no_more := True, broadcast_wun := is_broadcast \<rparr>) s)
        else Some s
      else if cfg_mb_mode s = ENABLE_MAILBOX_PROXY_FORWARDING then
        Some (mb_call env (Send_zip (ip_of_node env (MyNodeID env)) (cfg_mb_destination s) (cfg_mb_port s)
                            [0x69, 0x05, ucast n]) s)
      else Some s)"

definition mb_put_node_to_sleep_later :: "nodeid \<Rightarrow> mailbox \<Rightarrow> mailbox" where
  "mb_put_node_to_sleep_later n s =
     (if state (mb_state s) = MB_STATE_IDLE
      then upd_st (\<lambda>st. st \<lparr> node := n \<rparr>) (goto MB_STATE_SEND_NO_MORE_INFO_DELAYED (set_no_more_timer s))
      else s)"

definition mb_enabled :: "mailbox \<Rightarrow> bool" where "mb_enabled s \<longleftrightarrow> cfg_mb_mode s \<noteq> DISABLE_MAILBOX"

definition mb_is_busy :: "mailbox \<Rightarrow> bool" where
  "mb_is_busy s \<longleftrightarrow> \<not> (state (mb_state s) = MB_STATE_IDLE \<or> state (mb_state s) = MB_STATE_SENDING_PING
      \<or> state (mb_state s) = MB_STATE_PING_ZIPCLIENTS
      \<or> state (mb_state s) = MB_STATE_SEND_NO_MORE_INFO_DELAYED)"

definition mb_idle :: "mailbox \<Rightarrow> bool" where "mb_idle s \<longleftrightarrow> state (mb_state s) = MB_STATE_IDLE"

definition mb_abort_sending :: "mailbox \<Rightarrow> mailbox" where
  "mb_abort_sending s = (if mb_is_busy s then mb_note Abort_classic (goto MB_STATE_IDLE s) else s)"

definition mb_node_transmission_ok_event :: "mb_env \<Rightarrow> nodeid \<Rightarrow> mailbox \<Rightarrow> mailbox option" where
  "mb_node_transmission_ok_event env n s =
     (if node (mb_state s) = n then mb_state_transition env MB_EVENT_FRAME_SENT_TO_NODE s else Some s)"

definition mb_get_active_node :: "mailbox \<Rightarrow> nodeid" where
  "mb_get_active_node s = (if mb_idle s then 0 else node (mb_state s))"

section \<open>The command class\<close>

text \<open>
  \<open>pData\<close> is the buffer that holds the command and \<open>bDatalen\<close> the length of the command.
  The code does not compare the two with the lengths of the structures it reads: a read outside the
  buffer is \<open>None\<close>.
\<close>

definition mb_configuration_report :: "mailbox \<Rightarrow> bytes" where
  "mb_configuration_report s =
     (let port = uip_htons (cfg_mb_port s)
      in [0x69, 0x03, 0x08 OR 0x10 OR (cfg_mb_mode s AND 7),
          of_nat (MAX_MAILBOX_ENTRIES div 256), of_nat (MAX_MAILBOX_ENTRIES mod 256)]
         @ cfg_mb_destination s @ [ucast port, ucast (drop_bit 8 port)])"

definition mb_configuration_set :: "bytes \<Rightarrow> mailbox \<Rightarrow> mailbox option" where
  "mb_configuration_set pData s =
     (if length pData < 21 then None
      else (let s = s \<lparr> cfg_mb_destination := take 16 (drop 3 pData), cfg_mb_mode := pData ! 2 AND 7 \<rparr>;
                s = mb_note (Config_mode (cfg_mb_mode s)) s;
                s = s \<lparr> cfg_mb_port := uip_htons (raw16 pData 19) \<rparr>;
                s = mb_note (Config_port (cfg_mb_port s)) s
            in Some (mb_note (Config_destination (cfg_mb_destination s)) s)))"

definition mb_queue_command :: "mb_env \<Rightarrow> zwave_connection_t \<Rightarrow> bytes \<Rightarrow> u16 \<Rightarrow> mailbox \<Rightarrow> mailbox option" where
  "mb_queue_command env c pData bDatalen s =
     (let n = bDatalen - 3
      in if length pData < 4 + unat n \<or> length (mb_uip_buf s) < unat n then None
         else
           (let mode = pData ! 2 AND 7; hnd = pData ! 3;
                s = s \<lparr> mb_uip_len := n,
                       mb_uip_buf := copy_to (mb_uip_buf s) (take (unat n) (drop 4 pData)) \<rparr>
            in if mode = MAILBOX_ACK then mb_send_done env TRANSMIT_COMPLETE_OK s
               else if mode = MAILBOX_NAK then mb_send_done env TRANSMIT_COMPLETE_FAIL s
               else if mode = MAILBOX_QUEUE_FULL then Some (mb_send_queue_full env s)
               else if mode = MAILBOX_WAITING then Some (send_waiting env (mb_uip_buf s) s)
               else if mode = MAILBOX_PING then
                 mb_state_transition env MB_EVNET_PING_REQ
                   (upd_st (\<lambda>st. st \<lparr> udp_session := c, st_handle := hnd \<rparr>) s)
               else if mode = MAILBOX_PUSH then map_option snd (mb_post_uipbuf env (Some (ripaddr c)) hnd s)
               else if mode = MAILBOX_POP then
                 if state (mb_state s) \<noteq> MB_STATE_IDLE then Some s
                 else if length pData < 44 then None
                 else (let s = upd_st (\<lambda>st. st \<lparr> node := mb_get_dnode env (drop 4 pData), st_handle := hnd,
                                            udp_session := c, send_no_more := True \<rparr>) s
                       in mb_state_transition env
                            (if pData ! 2 AND 8 \<noteq> 0 then MB_EVENT_POPLAST else MB_EVENT_POP) s)
               else Some s))"

definition mb_command_handler ::
  "mb_env \<Rightarrow> zwave_connection_t \<Rightarrow> bytes \<Rightarrow> u16 \<Rightarrow> mailbox \<Rightarrow> (command_handler_codes_t \<times> mailbox) option" where
  "mb_command_handler env c pData bDatalen s =
     (if length pData < 2 then None
      else (let handled = map_option (Pair COMMAND_HANDLED); cmd = pData ! 1
            in if cmd = 0x05 then
                 if length pData < 3 then None
                 else handled (mb_state_transition env MB_EVENT_WAKEUP
                        (upd_st (\<lambda>st. st \<lparr> node := 0, st_handle := pData ! 2,
                                   udp_session := (udp_session st) \<lparr> lipaddr := lipaddr c, ripaddr := ripaddr c,
                                                                  lport := lport c, rport := rport c \<rparr>,
                                   broadcast_wun := False \<rparr>) s))
               else if cmd = 0x01 then handled (Some (mb_call env (Reply c (mb_configuration_report s)) s))
               else if cmd = 0x02 then handled (mb_configuration_set pData s)
               else if cmd = 0x06 then
                 if length pData < 18 then None
                 else handled (mb_failing_notify_byip env (take 16 (drop 2 pData)) s)
               else if cmd = 0x04 then handled (mb_queue_command env c pData bDatalen s)
               else Some (COMMAND_NOT_SUPPORTED, s)))"

end
