(* ===== verification/Pool_List.thy ===== *)
theory Pool_List
  imports Contiki_Mem
begin

text \<open>
  A linked list whose items are the blocks of a pool, the way several modules of the gateway keep their
  records: a record is allocated and appended, looked up by a scan from the head, and taken out of the
  list and given back to the pool.
\<close>

definition pool_list :: "nat \<Rightarrow> addr \<Rightarrow> links \<Rightarrow> memb \<Rightarrow> addr list \<Rightarrow> bool" where
  "pool_list k h nxt pool xs \<longleftrightarrow> is_list nxt h xs \<and> memb_ok pool \<and> length pool = k \<and> used_blocks pool = set xs"

text \<open>A scan for the first item with a property; 0 when there is none.\<close>

partial_function (option) list_find :: "(addr \<Rightarrow> bool) \<Rightarrow> links \<Rightarrow> addr \<Rightarrow> addr option" where
  "list_find P nxt p = (if p = 0 then Some 0 else if P p then Some p else list_find P nxt (list_item_next nxt p))"

definition first_or_null :: "addr list \<Rightarrow> addr" where
  "first_or_null xs = (case xs of [] \<Rightarrow> 0 | x # _ \<Rightarrow> x)"

lemma list_find_linked: "linked nxt p xs \<Longrightarrow> list_find P nxt p = Some (first_or_null (filter P xs))"
proof (induction xs arbitrary: p)
  case Nil
  then show ?case by (simp add: list_find.simps first_or_null_def)
next
  case (Cons x xs)
  then show ?case by (auto simp: list_find.simps [of P nxt x] first_or_null_def list_item_next_def)
qed

text \<open>A head determines its list, and an item that is taken out of a list has a null link.\<close>

lemma linked_unique: "linked nxt h xs \<Longrightarrow> linked nxt h ys \<Longrightarrow> xs = ys"
proof (induction xs arbitrary: h ys)
  case Nil
  then show ?case by (cases ys) auto
next
  case (Cons x xs)
  then show ?case by (cases ys) auto
qed

lemma linked_suffix:
  assumes "linked nxt h (us @ p # vs)"
  shows "linked nxt p (p # vs)" "linked nxt (nxt p) vs"
  using assms by (auto simp: linked_append)

lemma is_list_unique: "is_list nxt h xs \<Longrightarrow> is_list nxt h ys \<Longrightarrow> xs = ys"
  by (auto simp: is_list_def dest: linked_unique)

lemma list_remove_loop_clears:
  assumes "linked nxt l ys" and "item \<in> set ys" and "distinct ys"
  shows "\<exists>h' nxt'. list_remove_loop item lst r l nxt = Some (h', nxt') \<and> nxt' item = 0"
  using assms
proof (induction ys arbitrary: l r)
  case (Cons y ys)
  show ?case
  proof (cases "y = item")
    case True
    then have "l = item" "item \<noteq> 0" using Cons.prems by auto
    then show ?thesis by (simp add: list_remove_loop.simps [of item lst r item])
  next
    case False
    then show ?thesis
      using Cons by (auto simp: list_remove_loop.simps [of item lst r y])
  qed
qed simp

lemma list_remove_clears:
  assumes "is_list nxt h xs" and "item \<in> set xs" and "list_remove h item nxt = Some (h', nxt')"
  shows "nxt' item = 0"
proof -
  have "h \<noteq> 0" using assms(1,2) linked_head(1) [of nxt h xs] by (auto simp: is_list_def)
  then show ?thesis
    using list_remove_loop_clears [of nxt h xs item h 0] assms by (auto simp: is_list_def list_remove_def)
qed

text \<open>The records in the pool.\<close>

lemma pool_list_init: "pool_list k 0 nxt (memb_init k) []"
  by (auto simp: pool_list_def is_list_def memb_init_ok) (simp add: memb_init_def)

lemma pool_list_find: "pool_list k h nxt pool xs \<Longrightarrow> list_find P nxt (list_head h) = Some (first_or_null (filter P xs))"
  by (rule list_find_linked) (simp add: pool_list_def is_list_def list_head_def)

lemma pool_list_nonnull: "pool_list k h nxt pool xs \<Longrightarrow> 0 \<notin> set xs"
  using linked_nonnull by (auto simp: pool_list_def is_list_def)

lemma pool_list_distinct: "pool_list k h nxt pool xs \<Longrightarrow> distinct xs"
  by (simp add: pool_list_def is_list_def)

lemma pool_list_head: "pool_list k h nxt pool xs \<Longrightarrow> list_head h = first_or_null xs"
  by (cases xs) (auto simp: pool_list_def is_list_def first_or_null_def list_head_def)

lemma first_or_null_null: "0 \<notin> set xs \<Longrightarrow> first_or_null xs = 0 \<longleftrightarrow> xs = []"
  by (cases xs) (auto simp: first_or_null_def)

lemma pool_list_free_count:
  assumes "pool_list k h nxt pool xs"
  shows "memb_free_count pool = k - length xs" "length xs \<le> k"
proof -
  have "card (used_blocks pool) = length xs" using assms by (simp add: pool_list_def is_list_def distinct_card)
  then show "memb_free_count pool = k - length xs" "length xs \<le> k"
    using card_used_blocks [of pool] assms by (auto simp: pool_list_def)
qed

lemma pool_list_full:
  assumes "pool_list k h nxt pool xs" and "\<not> length xs < k"
  shows "memb_alloc pool = (0, pool)"
proof -
  obtain p m where a: "memb_alloc pool = (p, m)" by (cases "memb_alloc pool")
  moreover have "p = 0" using memb_alloc_None [of pool] pool_list_free_count [OF assms(1)] assms(2) a by simp
  ultimately show ?thesis using memb_alloc_fail by blast
qed

text \<open>Allocating a record and appending it.\<close>

lemma pool_list_append:
  assumes "pool_list k h nxt pool xs" and "length xs < k"
  obtains m pool' h' nxt' where "memb_alloc pool = (m, pool')" "m \<noteq> 0" "m \<notin> set xs" "list_add h m nxt = Some (h', nxt')"
    "pool_list k h' nxt' pool' (xs @ [m])"
proof -
  obtain m pool' where a: "memb_alloc pool = (m, pool')" by (cases "memb_alloc pool")
  have m: "m \<noteq> 0" using memb_alloc_None [of pool] pool_list_free_count [OF assms(1)] assms(2) a by simp
  note s = memb_alloc_Some [OF a m]
  have x: "m \<notin> set xs" using s(1) assms(1) by (simp add: pool_list_def)
  have il: "is_list nxt h xs" using assms(1) by (simp add: pool_list_def)
  obtain h' nxt' where l: "list_add h m nxt = Some (h', nxt')" "is_list nxt' h' (xs @ [m])"
    using list_add_linked [OF il m] x by (auto simp: remove1_idem)
  have "pool_list k h' nxt' pool' (xs @ [m])" using assms(1) s l(2) by (auto simp: pool_list_def)
  then show ?thesis using that a m x l(1) by blast
qed

text \<open>Taking a record out and giving it back.\<close>

lemma pool_list_remove:
  assumes "pool_list k h nxt pool xs" and "m \<in> set xs"
  obtains h' nxt' where "list_remove h m nxt = Some (h', nxt')" "pool_list k h' nxt' (snd (memb_free pool m)) (remove1 m xs)"
proof -
  have il: "is_list nxt h xs" using assms(1) by (simp add: pool_list_def)
  obtain h' nxt' where l: "list_remove h m nxt = Some (h', nxt')" "is_list nxt' h' (remove1 m xs)"
    using list_remove_linked [OF il] by blast
  have u: "memb_ok pool" "m \<in> used_blocks pool" using assms by (simp_all add: pool_list_def)
  have "pool_list k h' nxt' (snd (memb_free pool m)) (remove1 m xs)"
    using memb_free_used [OF u] l(2) assms(1) il by (simp add: pool_list_def is_list_def)
  then show ?thesis using that l(1) by blast
qed

text \<open>Removing a record that is no longer there changes nothing.\<close>

lemma memb_free_unused: "p \<notin> used_blocks m \<Longrightarrow> snd (memb_free m p) = m"
  using list_update_id [of m "p - 1"]
  by (cases "0 < p \<and> p \<le> length m") (auto simp: memb_free_def used_blocks_def Let_def)

lemma pool_list_remove_absent:
  assumes "pool_list k h nxt pool xs" and "m \<notin> set xs"
  obtains h' nxt' where "list_remove h m nxt = Some (h', nxt')" "pool_list k h' nxt' (snd (memb_free pool m)) xs"
proof -
  have il: "is_list nxt h xs" using assms(1) by (simp add: pool_list_def)
  obtain h' nxt' where l: "list_remove h m nxt = Some (h', nxt')" "is_list nxt' h' (remove1 m xs)"
    using list_remove_linked [OF il] by blast
  have "m \<notin> used_blocks pool" using assms by (simp add: pool_list_def)
  then have "pool_list k h' nxt' (snd (memb_free pool m)) xs"
    using memb_free_unused l(2) assms by (simp add: pool_list_def remove1_idem)
  then show ?thesis using that l(1) by blast
qed

end
