(* ===== verification/Mailbox_Correct.thy ===== *)
theory Mailbox_Correct
  imports Mailbox Pool_List
begin

text \<open>
  What the mailbox of \<^verbatim>\<open>Mailbox\<close> guarantees: the pool and the list of messages stay well formed,
  posted messages are kept in order, expired ones are dropped, a node that wakes up gets its messages
  one after the other, and as long as no messages are kept for another gateway no sequence of calls makes the
  module fail.
\<close>

section \<open>The invariant\<close>

definition entry_ok :: "mailbox_t \<Rightarrow> bool" where
  "entry_ok e \<longleftrightarrow> length (data e) = MAX_MAIL_BOX_PAYLOAD \<and> unat (data_len e) \<le> PACKET_BUF_SIZE"

definition mb_inv :: "mailbox \<Rightarrow> addr list \<Rightarrow> bool" where
  "mb_inv s xs \<longleftrightarrow> is_list (mb_next s) (mb_list s) xs \<and> memb_ok (mb_memb s)
     \<and> length (mb_memb s) = MAX_MAILBOX_ENTRIES \<and> used_blocks (mb_memb s) = set xs
     \<and> (\<forall>p. p \<notin> set xs \<longrightarrow> mb_next s p = 0) \<and> (\<forall>p. entry_ok (mb_entry s p))
     \<and> (\<forall>p \<in> set xs. data_len (mb_entry s p) \<noteq> 0) \<and> length (mb_uip_buf s) = PACKET_BUF_SIZE"

text \<open>The packet buffer keeps its size, whatever other parts put into it.\<close>

definition bufs_ok :: "mb_env \<Rightarrow> bool" where
  "bufs_ok env \<longleftrightarrow> (\<forall>l. length (fst (buf_after env l)) = PACKET_BUF_SIZE)"

lemmas small_defs = mb_call_def mb_note_def upd_st_def goto_def set_status_def set_last_entry_def
  set_no_more_timer_def set_ping_timer_def Let_def

lemma inv_call [simp]: "bufs_ok env \<Longrightarrow> mb_inv s xs \<Longrightarrow> mb_inv (mb_call env e s) xs"
  by (simp add: mb_inv_def small_defs bufs_ok_def)

lemma inv_frame [simp]:
  "mb_inv (mb_note e s) xs = mb_inv s xs" "mb_inv (upd_st f s) xs = mb_inv s xs"
  "mb_inv (set_no_more_timer s) xs = mb_inv s xs" "mb_inv (set_ping_timer s) xs = mb_inv s xs"
  "mb_inv (s \<lparr> mb_uip_len := n \<rparr>) xs = mb_inv s xs"
  by (simp_all add: mb_inv_def small_defs)

lemma inv_frame_st [simp]:
  "mb_inv (goto q s) xs = mb_inv s xs" "mb_inv (set_status c s) xs = mb_inv s xs"
  "mb_inv (set_last_entry p s) xs = mb_inv s xs"
  by (simp_all add: goto_def set_status_def set_last_entry_def)

lemma length_copy_to: "length xs \<le> length buf \<Longrightarrow> length (copy_to buf xs) = length buf"
  by (simp add: copy_to_def)

lemma take_copy_to: "take (length xs) (copy_to buf xs) = xs"
  by (simp add: copy_to_def)

text \<open>Freeing an entry takes it out of the list; freeing a block that is not in use changes nothing.\<close>

lemma free_entry:
  assumes inv: "mb_inv s xs" and m: "m \<noteq> 0"
  shows "\<exists>l nxt pool. mb_free_entry m s = Some (upd_entry m (\<lambda>e. e \<lparr> waiting_timer := None \<rparr>) s
      \<lparr> mb_list := l, mb_next := nxt, mb_memb := pool \<rparr>)
    \<and> mb_inv (upd_entry m (\<lambda>e. e \<lparr> waiting_timer := None \<rparr>) s \<lparr> mb_list := l, mb_next := nxt, mb_memb := pool \<rparr>) (remove1 m xs)"
proof -
  have il: "is_list (mb_next s) (mb_list s) xs" using inv by (simp add: mb_inv_def)
  obtain l nxt where r: "list_remove (mb_list s) m (mb_next s) = Some (l, nxt)" "is_list nxt l (remove1 m xs)"
      "\<forall>y. y \<notin> set xs \<longrightarrow> nxt y = mb_next s y" using list_remove_linked [OF il] by blast
  let ?pool = "snd (memb_free (mb_memb s) m)"
  let ?t = "upd_entry m (\<lambda>e. e \<lparr> waiting_timer := None \<rparr>) s \<lparr> mb_list := l, mb_next := nxt, mb_memb := ?pool \<rparr>"
  have d: "distinct xs" using il by (simp add: is_list_def)
  have pool: "memb_ok ?pool \<and> length ?pool = MAX_MAILBOX_ENTRIES \<and> used_blocks ?pool = set xs - {m}"
    using inv memb_free_used [of "mb_memb s" m] memb_free_unused [of m "mb_memb s"]
    by (cases "m \<in> used_blocks (mb_memb s)") (auto simp: mb_inv_def)
  have nx: "nxt y = 0" if "y \<notin> set (remove1 m xs)" for y
    using list_remove_clears [OF il _ r(1)] r(3) inv that d by (cases "y = m") (auto simp: mb_inv_def)
  have "mb_inv ?t (remove1 m xs)"
    using inv pool r(2) nx d by (auto simp: mb_inv_def upd_entry_def entry_ok_def)
  moreover have "mb_free_entry m s = Some ?t"
    using m r(1) by (simp add: mb_free_entry_def upd_entry_def Let_def)
  ultimately show ?thesis by blast
qed

text \<open>Every address heads a chain of links: the list from there on, or just the block itself.\<close>

lemma chain_from:
  assumes inv: "mb_inv s xs"
  obtains ys where "linked (mb_next s) p ys"
proof (cases "p \<in> set xs")
  case True
  then obtain us vs where "xs = us @ p # vs" by (meson split_list)
  then have "linked (mb_next s) p (p # vs)"
    using inv linked_suffix(1) [of "mb_next s" "mb_list s" us p vs] by (simp add: mb_inv_def is_list_def)
  then show ?thesis by (rule that)
next
  case False
  then have "mb_next s p = 0" using inv by (simp add: mb_inv_def)
  then have "linked (mb_next s) p (if p = 0 then [] else [p])" by simp
  then show ?thesis using that by blast
qed

text \<open>Taking out the entry the chain hangs off leaves the chain alone.\<close>

lemma chain_after_free:
  assumes inv: "mb_inv s xs" and t: "mb_inv t (remove1 m xs)"
    and ys: "linked (mb_next s) (mb_next s m) ys"
  shows "linked (mb_next t) (mb_next s m) ys"
proof (cases "m \<in> set xs")
  case True
  then obtain us vs where xs: "xs = us @ m # vs" by (meson split_list)
  have d: "m \<notin> set us" using inv xs by (auto simp: mb_inv_def is_list_def)
  have "linked (mb_next s) (mb_next s m) vs"
    using inv xs linked_suffix(2) [of "mb_next s" "mb_list s" us m vs] by (auto simp: mb_inv_def is_list_def)
  then have v: "ys = vs" "vs = [] \<longleftrightarrow> mb_next s m = 0" "vs \<noteq> [] \<Longrightarrow> hd vs = mb_next s m"
    using ys linked_unique linked_head by (metis, metis, metis)
  have "linked (mb_next t) (mb_list t) (us @ vs)" using t xs d by (simp add: mb_inv_def is_list_def remove1_append)
  then show ?thesis
    using v linked_suffix(1) [of "mb_next t" "mb_list t" us "hd vs" "tl vs"] by (cases vs) auto
next
  case False
  then have "mb_next s m = 0" using inv by (simp add: mb_inv_def)
  then show ?thesis using ys by simp
qed

text \<open>The search for the next message to a node.\<close>

definition for_node :: "mb_env \<Rightarrow> nodeid \<Rightarrow> mailbox \<Rightarrow> addr \<Rightarrow> bool" where
  "for_node env n s p \<longleftrightarrow> mb_get_dnode env (data (mb_entry s p)) = n"

lemma next_for_node_chain:
  assumes "linked (mb_next s) p ys"
  shows "next_for_node env n p s
    = Some (case dropWhile (\<lambda>q. \<not> for_node env n s q) ys of [] \<Rightarrow> 0 | q # _ \<Rightarrow> q)"
  using assms
proof (induction ys arbitrary: p)
  case Nil
  then show ?case by (simp add: next_for_node.simps)
next
  case (Cons y ys)
  then show ?case
    by (auto simp: next_for_node.simps [of env n y] for_node_def list_item_next_def)
qed

section \<open>The service mode never fails\<close>

text \<open>
  The gateway as its own mailbox: no message is kept for a proxy and messages are not forwarded to another
  mailbox.  Between calls the state machine is in one of nine states, and while a message is being sent or
  its sender pinged, \<open>last_entry\<close> is a block of the pool (which may have been freed in the
  meantime).
\<close>

definition calm_ok :: "mailbox \<Rightarrow> addr list \<Rightarrow> bool" where
  "calm_ok s xs \<longleftrightarrow> mb_inv s xs \<and> (\<forall>p. uip_is_addr_unspecified (proxy (mb_entry s p)))
     \<and> cfg_mb_mode s \<noteq> ENABLE_MAILBOX_PROXY_FORWARDING"

text \<open>The same with no session of a proxy open, so that no status is sent to one.\<close>

definition service_ok :: "mailbox \<Rightarrow> addr list \<Rightarrow> bool" where
  "service_ok s xs \<longleftrightarrow> mb_inv s xs \<and> rport (udp_session (mb_state s)) = 0
     \<and> (\<forall>p. uip_is_addr_unspecified (proxy (mb_entry s p))) \<and> cfg_mb_mode s \<noteq> ENABLE_MAILBOX_PROXY_FORWARDING"

lemma service_calm: "service_ok s xs \<longleftrightarrow> calm_ok s xs \<and> rport (udp_session (mb_state s)) = 0"
  by (auto simp: service_ok_def calm_ok_def)

fun fsm_ok :: "mb_fsm_state \<Rightarrow> addr \<Rightarrow> u16 \<Rightarrow> bool" where
  "fsm_ok MB_STATE_PING_ZIPCLIENTS p n \<longleftrightarrow> p \<noteq> 0"
| "fsm_ok MB_STATE_SENDING p n \<longleftrightarrow> p \<noteq> 0 \<and> n \<noteq> 0"
| "fsm_ok MB_STATE_IDLE p n \<longleftrightarrow> True"
| "fsm_ok MB_STATE_PROBE_WAKEUP_INTERVAL p n \<longleftrightarrow> True"
| "fsm_ok MB_STATE_SEND_NO_MORE_INFO p n \<longleftrightarrow> True"
| "fsm_ok MB_STATE_SEND_NO_MORE_INFO_DELAYED p n \<longleftrightarrow> True"
| "fsm_ok MB_STATE_SENDING_FROM_PROXY p n \<longleftrightarrow> True"
| "fsm_ok MB_STATE_SENDING_LAST_FORM_PROXY p n \<longleftrightarrow> True"
| "fsm_ok MB_STATE_SENDING_PING p n \<longleftrightarrow> True"
| "fsm_ok _ p n \<longleftrightarrow> False"

definition mb_ok :: "mailbox \<Rightarrow> bool" where
  "mb_ok s \<longleftrightarrow> (\<exists>xs. calm_ok s xs)
     \<and> fsm_ok (state (mb_state s)) (last_entry (mb_state s)) (data_len (mb_entry s (last_entry (mb_state s))))"

definition good :: "mailbox option \<Rightarrow> bool" where
  "good r \<longleftrightarrow> (\<exists>s. r = Some s \<and> mb_ok s)"

lemma good_Some [simp]: "good (Some s) = mb_ok s"
  by (simp add: good_def)

lemma good_bind: "good r \<Longrightarrow> (\<And>s. mb_ok s \<Longrightarrow> good (f s)) \<Longrightarrow> good (Option.bind r f)"
  by (auto simp: good_def)

lemma service_frame [simp]:
  "calm_ok (mb_note e s) xs = calm_ok s xs" "calm_ok (goto q s) xs = calm_ok s xs"
  "calm_ok (set_status c s) xs = calm_ok s xs" "calm_ok (set_last_entry p s) xs = calm_ok s xs"
  "calm_ok (set_no_more_timer s) xs = calm_ok s xs" "calm_ok (set_ping_timer s) xs = calm_ok s xs"
  "calm_ok (s \<lparr> mb_uip_len := n \<rparr>) xs = calm_ok s xs"
  "bufs_ok env \<Longrightarrow> calm_ok s xs \<Longrightarrow> calm_ok (mb_call env e s) xs"
  by (auto simp: calm_ok_def mb_inv_def bufs_ok_def small_defs)

lemma service_upd_st [simp]:
  "calm_ok (upd_st f s) xs = calm_ok s xs"
  by (simp add: calm_ok_def upd_st_def mb_inv_def)

lemma frame_simps [simp]:
  "mb_state (mb_call env e s) = mb_state s" "mb_entry (mb_call env e s) = mb_entry s"
  "mb_next (mb_call env e s) = mb_next s" "mb_list (mb_call env e s) = mb_list s"
  "mb_log (mb_call env e s) = mb_log s @ [e]"
  "mb_state (mb_note e s) = mb_state s" "mb_entry (mb_note e s) = mb_entry s"
  "mb_state (set_no_more_timer s) = mb_state s" "mb_entry (set_no_more_timer s) = mb_entry s"
  "mb_state (set_ping_timer s) = mb_state s" "mb_entry (set_ping_timer s) = mb_entry s"
  "mb_log (mb_note e s) = mb_log s @ [e]" "mb_log (set_no_more_timer s) = mb_log s"
  "mb_state (upd_st f s) = f (mb_state s)" "mb_entry (upd_st f s) = mb_entry s"
  "mb_next (upd_st f s) = mb_next s" "mb_list (upd_st f s) = mb_list s" "mb_log (upd_st f s) = mb_log s"
  by (simp_all add: small_defs)

lemma frame_simps_st [simp]:
  "mb_state (goto q s) = (mb_state s) \<lparr> state := q \<rparr>" "mb_entry (goto q s) = mb_entry s"
  "mb_next (goto q s) = mb_next s" "mb_list (goto q s) = mb_list s" "mb_log (goto q s) = mb_log s"
  "mb_state (set_status c s) = (mb_state s) \<lparr> txStatus := c \<rparr>" "mb_entry (set_status c s) = mb_entry s"
  "mb_next (set_status c s) = mb_next s" "mb_list (set_status c s) = mb_list s" "mb_log (set_status c s) = mb_log s"
  "mb_state (set_last_entry p s) = (mb_state s) \<lparr> last_entry := p \<rparr>" "mb_entry (set_last_entry p s) = mb_entry s"
  "mb_next (set_last_entry p s) = mb_next s" "mb_list (set_last_entry p s) = mb_list s"
  "mb_log (set_last_entry p s) = mb_log s"
  by (simp_all add: goto_def set_status_def set_last_entry_def)

lemma mode_simps [simp]:
  "cfg_mb_mode (mb_call env e s) = cfg_mb_mode s" "cfg_mb_mode (mb_note e s) = cfg_mb_mode s"
  "cfg_mb_mode (upd_st f s) = cfg_mb_mode s" "cfg_mb_mode (goto q s) = cfg_mb_mode s"
  "cfg_mb_mode (set_status c s) = cfg_mb_mode s" "cfg_mb_mode (set_last_entry p s) = cfg_mb_mode s"
  by (simp_all add: small_defs)

text \<open>One unfolding of the state machine per state.\<close>

lemma tr_at:
  "state (mb_state s) = MB_STATE_IDLE \<Longrightarrow>
     mb_state_transition env ev s = on_idle (mb_state_transition env) env ev s"
  "state (mb_state s) = MB_STATE_PROBE_WAKEUP_INTERVAL \<Longrightarrow>
     mb_state_transition env ev s = on_probe_wakeup (mb_state_transition env) env ev s"
  "state (mb_state s) = MB_STATE_PING_ZIPCLIENTS \<Longrightarrow>
     mb_state_transition env ev s = on_ping_zipclients (mb_state_transition env) env ev s"
  "state (mb_state s) = MB_STATE_SENDING \<Longrightarrow>
     mb_state_transition env ev s = on_sending (mb_state_transition env) env ev s"
  "state (mb_state s) = MB_STATE_SEND_NO_MORE_INFO \<Longrightarrow>
     mb_state_transition env ev s = on_send_no_more_info (mb_state_transition env) env ev s"
  "state (mb_state s) = MB_STATE_SEND_NO_MORE_INFO_DELAYED \<Longrightarrow>
     mb_state_transition env ev s = on_no_more_info_delayed (mb_state_transition env) env ev s"
  "state (mb_state s) = MB_STATE_SENDING_PING \<Longrightarrow>
     mb_state_transition env ev s = on_sending_ping (mb_state_transition env) env ev s"
  "state (mb_state s) = MB_STATE_SENDING_FROM_PROXY \<Longrightarrow>
     mb_state_transition env ev s = on_sending_from_proxy (mb_state_transition env) env ev s"
  by (simp_all add: mb_state_transition.simps)

lemma idle_transition:
  "state (mb_state s) = MB_STATE_IDLE \<Longrightarrow>
   mb_state_transition env MB_EVENT_TRANSITION s = Some (mb_note Wake_queues s)"
  by (simp add: tr_at on_idle_def)

lemma no_more_done:
  "state (mb_state s) = MB_STATE_SEND_NO_MORE_INFO \<Longrightarrow>
   mb_state_transition env MB_EVENT_SEND_DONE s = Some (mb_note Wake_queues (goto MB_STATE_IDLE s))"
  by (simp add: tr_at(5) on_send_no_more_info_def idle_transition)

text \<open>Sending the final \<^verbatim>\<open>WAKE_UP_NO_MORE_INFORMATION\<close>, with the report that may come at once.\<close>

lemma no_more_info_good:
  assumes "bufs_ok env" and "calm_ok s xs" and "state (mb_state s) = MB_STATE_SEND_NO_MORE_INFO"
  shows "good (case mb_send_no_more_information env n s of (None, s) \<Rightarrow> Some s
      | (Some status, s) \<Rightarrow> mb_state_transition env MB_EVENT_SEND_DONE (set_status status s))"
  using assms by (auto simp: mb_send_no_more_information_def no_more_done mb_ok_def Let_def intro!: exI [of _ xs])

lemma calm_proxy_status [simp]:
  "bufs_ok env \<Longrightarrow> calm_ok s xs \<Longrightarrow> calm_ok (mb_send_proxy_status env c s) xs"
  "mb_state (mb_send_proxy_status env c s) = mb_state s"
  by (simp_all add: mb_send_proxy_status_def Let_def)

lemma no_more_transition_good:
  assumes "bufs_ok env" and "calm_ok s xs" and "state (mb_state s) = MB_STATE_SEND_NO_MORE_INFO"
  shows "good (mb_state_transition env MB_EVENT_TRANSITION s)"
  using no_more_info_good [OF assms(1) calm_proxy_status(1) [OF assms(1,2)]] assms
  by (simp add: tr_at on_send_no_more_info_def Let_def)

text \<open>What is left of the messages when one has been sent.\<close>

definition msg_of :: "mailbox \<Rightarrow> addr \<Rightarrow> bytes" where
  "msg_of s p = take (unat (data_len (mb_entry s p))) (data (mb_entry s p))"

lemma sending_entry_done:
  assumes ok: "calm_ok s xs" and q: "last_entry (mb_state s) = q" "q \<noteq> 0"
    and ys: "linked (mb_next s) (mb_next s q) ys"
  shows "\<exists>t. sending_entry MB_EVENT_SEND_DONE s = Some t
    \<and> calm_ok t (if txStatus (mb_state s) = TRANSMIT_COMPLETE_OK then remove1 q xs else xs)
    \<and> mb_state t = (mb_state s) \<lparr> last_entry := mb_next s q \<rparr> \<and> linked (mb_next t) (mb_next s q) ys
    \<and> (\<forall>p. data (mb_entry t p) = data (mb_entry s p) \<and> data_len (mb_entry t p) = data_len (mb_entry s p))
    \<and> mb_log t = mb_log s"
proof (cases "txStatus (mb_state s) = TRANSMIT_COMPLETE_OK")
  case True
  let ?u = "set_last_entry (mb_next s q) s"
  have inv: "mb_inv s xs" and iu: "mb_inv ?u xs" using ok by (simp_all add: calm_ok_def)
  obtain l nxt pool where f: "mb_free_entry q ?u = Some (upd_entry q (\<lambda>e. e \<lparr> waiting_timer := None \<rparr>) ?u
      \<lparr> mb_list := l, mb_next := nxt, mb_memb := pool \<rparr>)"
    "mb_inv (upd_entry q (\<lambda>e. e \<lparr> waiting_timer := None \<rparr>) ?u \<lparr> mb_list := l, mb_next := nxt, mb_memb := pool \<rparr>) (remove1 q xs)"
    using free_entry [OF iu q(2)] by blast
  have "linked nxt (mb_next s q) ys" using chain_after_free [OF inv f(2) ys] by simp
  then show ?thesis
    using True q f ok
    by (auto simp: sending_entry_def list_item_next_def calm_ok_def upd_entry_def Let_def)
next
  case False
  then show ?thesis
    using q ok ys by (auto simp: sending_entry_def list_item_next_def Let_def)
qed

lemma send_done_split:
  assumes "state (mb_state s) = MB_STATE_SENDING" and "sending_entry MB_EVENT_SEND_DONE s = Some t"
    and "state (mb_state t) = MB_STATE_SENDING"
  shows "mb_state_transition env MB_EVENT_SEND_DONE s = mb_state_transition env MB_EVENT_TIMEOUT t"
  using assms by (simp add: tr_at on_sending_def sending_entry_def [of MB_EVENT_TIMEOUT])

lemma load_uipbuf:
  assumes "calm_ok s xs" and "data_len (mb_entry s p) \<noteq> 0"
  shows "\<exists>b. load_uipbuf_with (mb_entry s p) s = Some (s \<lparr> mb_uip_buf := b, mb_uip_len := data_len (mb_entry s p) \<rparr>)
    \<and> length b = PACKET_BUF_SIZE \<and> take (unat (data_len (mb_entry s p))) b = msg_of s p"
proof -
  let ?n = "unat (data_len (mb_entry s p))"
  have l: "length (data (mb_entry s p)) = MAX_MAIL_BOX_PAYLOAD" "?n \<le> PACKET_BUF_SIZE" "length (mb_uip_buf s) = PACKET_BUF_SIZE"
    using assms by (auto simp: calm_ok_def mb_inv_def entry_ok_def)
  have n: "length (msg_of s p) = ?n"
    using l by (simp add: msg_of_def MAX_MAIL_BOX_PAYLOAD_def PACKET_BUF_SIZE_def)
  have "take ?n (copy_to (mb_uip_buf s) (msg_of s p)) = msg_of s p"
    using take_copy_to [of "msg_of s p" "mb_uip_buf s"] n by simp
  then show ?thesis
    using assms l n length_copy_to [of "msg_of s p" "mb_uip_buf s"]
    by (auto simp: load_uipbuf_with_def msg_of_def)
qed

text \<open>
  The state after \<^verbatim>\<open>MB_STATE_SENDING\<close> has handed message \<open>q\<close> to the sender, and what
  happens next.
\<close>

definition handed_over :: "mb_env \<Rightarrow> addr \<Rightarrow> bytes \<Rightarrow> mailbox \<Rightarrow> mailbox" where
  "handed_over env q b s =
     (let s = (set_last_entry q s) \<lparr> mb_uip_buf := b, mb_uip_len := data_len (mb_entry s q) \<rparr>;
          s = (if is_more_info_set s then upd_st (\<lambda>st. st \<lparr> send_no_more := False \<rparr>) s else s)
      in mb_call env (Classic_input (node (mb_state s)) (msg_of s q)) s)"

lemma handed_over_facts:
  assumes "bufs_ok env" and "calm_ok s xs" and "length b = PACKET_BUF_SIZE"
  shows "calm_ok (handed_over env q b s) xs" "mb_next (handed_over env q b s) = mb_next s"
    "mb_entry (handed_over env q b s) = mb_entry s" "mb_list (handed_over env q b s) = mb_list s"
    "mb_state (handed_over env q b s) = (mb_state s) \<lparr> last_entry := q,
       send_no_more := (send_no_more (mb_state s) \<and> b ! (UIP_IPUDPH_LEN + 3) AND 0x20 = 0) \<rparr>"
    "mb_log (handed_over env q b s) = mb_log s @ [Classic_input (node (mb_state s)) (msg_of s q)]"
  using assms
  by (auto simp: handed_over_def Let_def is_more_info_set_def calm_ok_def mb_inv_def bufs_ok_def msg_of_def
      mb_call_def upd_st_def set_last_entry_def)

lemma sending_step:
  assumes "calm_ok s xs" and "state (mb_state s) = MB_STATE_SENDING"
    and "sending_entry ev s = Some s" and "linked (mb_next s) (last_entry (mb_state s)) (us @ q # zs)"
    and "\<forall>p \<in> set us. \<not> for_node env (node (mb_state s)) s p" and "for_node env (node (mb_state s)) s q"
    and "data_len (mb_entry s q) \<noteq> 0" and "bufs_ok env"
  shows "\<exists>b. length b = PACKET_BUF_SIZE \<and> take (unat (data_len (mb_entry s q))) b = msg_of s q
    \<and> mb_state_transition env ev s =
       (let t = handed_over env q b s
        in Option.bind
             (case zip_input env (mb_log t) of
                Refused \<Rightarrow> mb_state_transition env MB_EVENT_TRANSITION (goto MB_STATE_SEND_NO_MORE_INFO t)
              | Reports_later \<Rightarrow> Some t
              | Reports_now c \<Rightarrow> mb_state_transition env MB_EVENT_SEND_DONE (set_status c t))
             (\<lambda>s. Some (s \<lparr> mb_uip_len := 0 \<rparr>)))"
proof -
  have nx: "next_for_node env (node (mb_state s)) (last_entry (mb_state s)) s = Some q"
    using assms(5,6) by (simp add: next_for_node_chain [OF assms(4)])
  have q0: "q \<noteq> 0" using linked_nonnull [OF assms(4)] by auto
  let ?s = "set_last_entry q s"
  have "calm_ok ?s xs" "data_len (mb_entry ?s q) \<noteq> 0" using assms by auto
  from load_uipbuf [OF this] obtain b where b: "load_uipbuf_with (mb_entry s q) ?s
      = Some (?s \<lparr> mb_uip_buf := b, mb_uip_len := data_len (mb_entry s q) \<rparr>)"
      "length b = PACKET_BUF_SIZE" "take (unat (data_len (mb_entry s q))) b = msg_of s q"
    by (auto simp: msg_of_def)
  have "mb_state_transition env ev s = on_sending (mb_state_transition env) env ev s"
    using assms(2) by (rule tr_at)
  also have "\<dots> = (let t = handed_over env q b s
        in Option.bind
             (case zip_input env (mb_log t) of
                Refused \<Rightarrow> mb_state_transition env MB_EVENT_TRANSITION (goto MB_STATE_SEND_NO_MORE_INFO t)
              | Reports_later \<Rightarrow> Some t
              | Reports_now c \<Rightarrow> mb_state_transition env MB_EVENT_SEND_DONE (set_status c t))
             (\<lambda>s. Some (s \<lparr> mb_uip_len := 0 \<rparr>)))"
    using q0 b nx assms(3)
    by (cases "zip_input env (mb_log (handed_over env q b s))")
      (auto simp: on_sending_def classic_input_def handed_over_def Let_def is_more_info_set_def upd_st_def
        set_last_entry_def msg_of_def split: prod.splits)
  finally show ?thesis using b by blast
qed

lemma sending_finished:
  assumes "state (mb_state s) = MB_STATE_SENDING" and "sending_entry ev s = Some s"
    and "linked (mb_next s) (last_entry (mb_state s)) ys" and "\<forall>p \<in> set ys. \<not> for_node env (node (mb_state s)) s p"
  shows "mb_state_transition env ev s =
    (if send_no_more (mb_state s)
     then mb_state_transition env MB_EVENT_TRANSITION (goto MB_STATE_SEND_NO_MORE_INFO (set_last_entry 0 s))
     else Some (mb_note Wake_queues (set_no_more_timer (goto MB_STATE_SEND_NO_MORE_INFO_DELAYED (set_last_entry 0 s)))))"
proof -
  have "dropWhile (\<lambda>q. \<not> for_node env (node (mb_state s)) s q) ys = []" using assms(4) by simp
  then have "next_for_node env (node (mb_state s)) (last_entry (mb_state s)) s = Some 0"
    unfolding next_for_node_chain [OF assms(3)] by (simp only: list.case)
  then show ?thesis using assms(1,2) by (simp add: tr_at on_sending_def Let_def)
qed

lemma mb_okI:
  "calm_ok s xs \<Longrightarrow>
   fsm_ok (state (mb_state s)) (last_entry (mb_state s)) (data_len (mb_entry s (last_entry (mb_state s)))) \<Longrightarrow> mb_ok s"
  by (auto simp: mb_ok_def)

lemma mb_ok_uip_len [simp]: "mb_ok (s \<lparr> mb_uip_len := n \<rparr>) = mb_ok s"
  by (simp add: mb_ok_def)

lemma send_done_good:
  assumes "calm_ok u xs" and "state (mb_state u) = MB_STATE_SENDING" and "last_entry (mb_state u) = q"
    and "q \<noteq> 0" and "linked (mb_next u) (mb_next u q) zs" and "\<forall>p \<in> set zs. data_len (mb_entry u p) \<noteq> 0"
    and "\<And>v ws. calm_ok v ws \<Longrightarrow> state (mb_state v) = MB_STATE_SENDING \<Longrightarrow>
      linked (mb_next v) (last_entry (mb_state v)) zs \<Longrightarrow> \<forall>p \<in> set zs. data_len (mb_entry v p) \<noteq> 0 \<Longrightarrow>
      good (mb_state_transition env MB_EVENT_TIMEOUT v)"
  shows "good (mb_state_transition env MB_EVENT_SEND_DONE u)"
proof -
  obtain v where v: "sending_entry MB_EVENT_SEND_DONE u = Some v"
      "calm_ok v (if txStatus (mb_state u) = TRANSMIT_COMPLETE_OK then remove1 q xs else xs)"
      "mb_state v = (mb_state u) \<lparr> last_entry := mb_next u q \<rparr>" "linked (mb_next v) (mb_next u q) zs"
      "\<forall>p. data_len (mb_entry v p) = data_len (mb_entry u p)"
    using sending_entry_done [OF assms(1,3,4,5)] by blast
  have sv: "state (mb_state v) = MB_STATE_SENDING" using v(3) assms(2) by simp
  have "good (mb_state_transition env MB_EVENT_TIMEOUT v)"
    using v assms(6) sv by (intro assms(7) [OF v(2)]) simp_all
  then show ?thesis using send_done_split [OF assms(2) v(1) sv] by simp
qed

lemma first_split:
  assumes "dropWhile P ys = q # zs"
  obtains us where "ys = us @ q # zs" "\<forall>p \<in> set us. P p" "\<not> P q"
proof
  show "ys = takeWhile P ys @ q # zs" using assms takeWhile_dropWhile_id [of P ys] by simp
  show "\<forall>p \<in> set (takeWhile P ys). P p" by (auto dest: set_takeWhileD)
  show "\<not> P q" using assms hd_dropWhile [of P ys] by force
qed

text \<open>From any position in the list, sending comes to an end, also when each sender reports at once.\<close>

lemma sending_good:
  assumes "bufs_ok env" and "calm_ok s xs" and "state (mb_state s) = MB_STATE_SENDING"
    and "linked (mb_next s) (last_entry (mb_state s)) ys" and "\<forall>p \<in> set ys. data_len (mb_entry s p) \<noteq> 0"
    and "sending_entry ev s = Some s"
  shows "good (mb_state_transition env ev s)"
  using assms(2-)
proof (induction "length ys" arbitrary: s xs ys ev rule: less_induct)
  case less
  let ?P = "\<lambda>q. \<not> for_node env (node (mb_state s)) s q"
  show ?case
  proof (cases "dropWhile ?P ys")
    case Nil
    then have "\<forall>p \<in> set ys. ?P p" by (simp add: dropWhile_eq_Nil_conv)
    from sending_finished [OF less.prems(2,5,3) this] show ?thesis
      using less.prems(1)
        no_more_transition_good [OF assms(1), of "goto MB_STATE_SEND_NO_MORE_INFO (set_last_entry 0 s)" xs]
      by (auto intro!: mb_okI [of _ xs])
  next
    case (Cons q zs)
    obtain us where ys: "ys = us @ q # zs" and us: "\<forall>p \<in> set us. ?P p" and q: "\<not> ?P q"
      by (rule first_split [OF Cons])
    have n: "data_len (mb_entry s q) \<noteq> 0" using less.prems(4) ys by simp
    have l: "linked (mb_next s) (last_entry (mb_state s)) (us @ q # zs)" using less.prems(3) ys by simp
    have q0: "q \<noteq> 0" using linked_nonnull [OF l] by auto
    obtain b where b: "length b = PACKET_BUF_SIZE" and eq: "mb_state_transition env ev s =
       (let t = handed_over env q b s
        in Option.bind
             (case zip_input env (mb_log t) of
                Refused \<Rightarrow> mb_state_transition env MB_EVENT_TRANSITION (goto MB_STATE_SEND_NO_MORE_INFO t)
              | Reports_later \<Rightarrow> Some t
              | Reports_now c \<Rightarrow> mb_state_transition env MB_EVENT_SEND_DONE (set_status c t))
             (\<lambda>s. Some (s \<lparr> mb_uip_len := 0 \<rparr>)))"
      using sending_step [OF less.prems(1,2,5) l us _ n assms(1)] q by blast
    let ?t = "handed_over env q b s"
    note t = handed_over_facts [OF assms(1) less.prems(1) b, of q]
    have now: "good (mb_state_transition env MB_EVENT_SEND_DONE (set_status c ?t))" for c
    proof (rule send_done_good [where xs = xs and q = q and zs = zs])
      fix v ws assume "calm_ok v ws" "state (mb_state v) = MB_STATE_SENDING"
        "linked (mb_next v) (last_entry (mb_state v)) zs" "\<forall>p \<in> set zs. data_len (mb_entry v p) \<noteq> 0"
      then show "good (mb_state_transition env MB_EVENT_TIMEOUT v)"
        using ys by (intro less.hyps [of zs v ws]) (simp_all add: sending_entry_def)
    qed (use t q0 less.prems(2,4) ys linked_suffix(2) [OF l] in simp_all)
    have refused: "good (mb_state_transition env MB_EVENT_TRANSITION (goto MB_STATE_SEND_NO_MORE_INFO ?t))"
      using t(1) by (intro no_more_transition_good [OF assms(1), of _ xs]) simp_all
    have later: "mb_ok ?t" using t n q0 less.prems(2) by (intro mb_okI [of _ xs]) simp_all
    show ?thesis
      unfolding eq Let_def using now refused later
      by (intro good_bind) (simp_all split: zip_reply.splits)
  qed
qed

text \<open>The list from its head on, and the chain from a block that is being sent.\<close>

lemma head_chain: "calm_ok s xs \<Longrightarrow> linked (mb_next s) (mb_list s) xs \<and> (\<forall>p \<in> set xs. data_len (mb_entry s p) \<noteq> 0)"
  by (simp add: calm_ok_def mb_inv_def is_list_def)

lemma sending_chain:
  assumes "calm_ok s xs" and "p \<noteq> 0" and "data_len (mb_entry s p) \<noteq> 0"
  obtains ys where "linked (mb_next s) p (p # ys)" "\<forall>q \<in> set (p # ys). data_len (mb_entry s q) \<noteq> 0"
proof (cases "p \<in> set xs")
  case True
  then obtain us vs where xs: "xs = us @ p # vs" by (meson split_list)
  have "linked (mb_next s) p (p # vs)"
    using head_chain [OF assms(1)] xs linked_suffix(1) by blast
  then show ?thesis using that head_chain [OF assms(1)] xs by auto
next
  case False
  then have "mb_next s p = 0" using assms(1) by (simp add: calm_ok_def mb_inv_def)
  then show ?thesis using that [of "[]"] assms by simp
qed

lemma start_sending_good:
  assumes "bufs_ok env" and "calm_ok s xs"
  shows "good (mb_state_transition env MB_EVENT_TRANSITION (goto MB_STATE_SENDING s))"
proof -
  let ?s = "set_last_entry (list_head (mb_list s)) (goto MB_STATE_SENDING s)"
  have "mb_state_transition env MB_EVENT_TRANSITION (goto MB_STATE_SENDING s)
      = mb_state_transition env MB_EVENT_TIMEOUT ?s"
    by (simp add: tr_at on_sending_def sending_entry_def)
  moreover have "good (mb_state_transition env MB_EVENT_TIMEOUT ?s)"
    using assms head_chain [OF assms(2)]
    by (intro sending_good [of _ _ xs xs]) (simp_all add: sending_entry_def list_head_def)
  ultimately show ?thesis by simp
qed

lemma sending_event_good:
  assumes "bufs_ok env" and "calm_ok s xs" and "state (mb_state s) = MB_STATE_SENDING"
    and p: "last_entry (mb_state s) \<noteq> 0" "data_len (mb_entry s (last_entry (mb_state s))) \<noteq> 0"
  shows "good (mb_state_transition env ev s)"
proof -
  let ?p = "last_entry (mb_state s)"
  obtain ys where ys: "linked (mb_next s) ?p (?p # ys)" "\<forall>q \<in> set (?p # ys). data_len (mb_entry s q) \<noteq> 0"
    using sending_chain [OF assms(2) p] by blast
  consider (finished) "ev = MB_EVENT_SEND_DONE" | (start) "ev = MB_EVENT_TRANSITION"
    | (other) "sending_entry ev s = Some s" by (cases ev) (auto simp: sending_entry_def)
  then show ?thesis
  proof cases
    case finished
    show ?thesis unfolding finished
      using ys assms(1) p(1) by (intro send_done_good [OF assms(2,3) refl, of ys] sending_good [of _ _ _ ys])
        (simp_all add: sending_entry_def)
  next
    case start
    have "goto MB_STATE_SENDING s = s" using assms(3) by (simp add: goto_def upd_st_def)
    then show ?thesis using start_sending_good [OF assms(1,2)] start by simp
  next
    case other
    then show ?thesis using sending_good [OF assms(1-3) ys other] by simp
  qed
qed

text \<open>Pinging the senders of the waiting messages.\<close>

lemma service_waiting [simp]: "calm_ok (upd_entry p (\<lambda>e. e \<lparr> waiting_enabled := w \<rparr>) s) xs = calm_ok s xs"
  by (auto simp: calm_ok_def mb_inv_def upd_entry_def entry_ok_def)

lemma upd_entry_simps [simp]:
  "mb_state (upd_entry p f s) = mb_state s" "mb_next (upd_entry p f s) = mb_next s"
  "mb_list (upd_entry p f s) = mb_list s" "mb_log (upd_entry p f s) = mb_log s"
  by (simp_all add: upd_entry_def)

lemma ping_done_tr:
  "state (mb_state s) = MB_STATE_PING_ZIPCLIENTS \<Longrightarrow> last_entry (mb_state s) = p \<Longrightarrow> p \<noteq> 0 \<Longrightarrow>
   mb_state_transition env MB_EVENT_SEND_DONE s =
     mb_state_transition env MB_EVENT_TRANSITION (set_last_entry (mb_next s p)
       (upd_entry p (\<lambda>e. e \<lparr> waiting_enabled := (txStatus (mb_state s) = TRANSMIT_COMPLETE_OK) \<rparr>) s))"
  by (simp add: tr_at on_ping_zipclients_def ping_done_def list_item_next_def Let_def)

lemma ping_good:
  assumes "bufs_ok env" and "calm_ok s xs" and "state (mb_state s) = MB_STATE_PING_ZIPCLIENTS"
    and "linked (mb_next s) (last_entry (mb_state s)) ys"
  shows "good (mb_state_transition env MB_EVENT_TRANSITION s)"
  using assms(2-)
proof (induction ys arbitrary: s xs)
  case Nil
  then show ?case
    by (auto simp: tr_at(3) on_ping_zipclients_def idle_transition intro!: mb_okI [of _ xs])
next
  case (Cons y ys)
  have y: "last_entry (mb_state s) = y" "y \<noteq> 0" "linked (mb_next s) (mb_next s y) ys" using Cons.prems(3) by auto
  let ?t = "mb_call env (Ping_client (ping_connection env (mb_entry s y))) s"
  have up: "uip_is_addr_unspecified (proxy (mb_entry s y))" using Cons.prems(1) by (simp add: calm_ok_def)
  have skip: "good (mb_state_transition env MB_EVENT_TRANSITION (set_last_entry (mb_next s y) s))"
    using Cons.prems y by (intro Cons.IH [of _ xs]) simp_all
  have later: "good (mb_state_transition env MB_EVENT_SEND_DONE (set_status c ?t))" for c
    using Cons.prems y assms(1) by (simp add: ping_done_tr [of _ y] del: service_waiting)
      (intro Cons.IH [of _ xs], simp_all)
  have "mb_ok ?t" using Cons.prems y assms(1) by (intro mb_okI [of _ xs]) simp_all
  then show ?case
    using Cons.prems(2) y up skip later
    by (auto simp: tr_at on_ping_zipclients_def list_item_next_def Let_def split: option.splits)
qed

text \<open>
  The events, in every state; a proxy that asks for its messages has an address (and has none here).
\<close>

definition service_event :: "mb_event_t \<Rightarrow> mailbox \<Rightarrow> bool" where
  "service_event ev s \<longleftrightarrow> (ev = MB_EVENT_WAKEUP \<and> node (mb_state s) = 0 \<longrightarrow>
     \<not> uip_is_addr_unspecified (ripaddr (udp_session (mb_state s))))"

lemma match_proxy_none:
  assumes "linked (mb_next s) p ys" and "\<forall>q. uip_is_addr_unspecified (proxy (mb_entry s q))"
    and "\<not> uip_is_addr_unspecified (ripaddr (udp_session (mb_state s)))"
  shows "match_proxy p n lst s = Some (n, lst, s)"
  using assms(1)
proof (induction ys arbitrary: p)
  case Nil
  then show ?case by (simp add: match_proxy.simps)
next
  case (Cons y ys)
  have "proxy (mb_entry s y) \<noteq> ripaddr (udp_session (mb_state s))" using assms(2,3) by metis
  then show ?case using Cons by (simp add: match_proxy.simps [of y] list_item_next_def Let_def)
qed

lemma no_proxy_messages:
  assumes "calm_ok s xs" and "state (mb_state s) = MB_STATE_SENDING_THROUGH_PROXY"
    and "\<not> uip_is_addr_unspecified (ripaddr (udp_session (mb_state s)))"
  shows "good (mb_state_transition env MB_EVENT_TRANSITION s)"
proof -
  have "linked (mb_next s) (list_head (mb_list s)) xs" "\<forall>q. uip_is_addr_unspecified (proxy (mb_entry s q))"
    using assms(1) by (simp_all add: calm_ok_def mb_inv_def is_list_def list_head_def)
  from match_proxy_none [OF this assms(3)] show ?thesis
    using assms(1,2) by (simp add: mb_state_transition.simps [of env MB_EVENT_TRANSITION s] on_sending_through_proxy_def
        idle_transition mb_okI [of _ xs] Let_def)
qed

text \<open>The states in which the gateway serves as the sender of another mailbox.\<close>

lemma from_proxy_good:
  assumes "bufs_ok env" and "calm_ok s xs"
    and "state (mb_state s) \<in> {MB_STATE_SENDING_FROM_PROXY, MB_STATE_SENDING_LAST_FORM_PROXY, MB_STATE_SENDING_PING}"
  shows "good (mb_state_transition env ev s)"
proof -
  have last: "good (mb_state_transition env MB_EVENT_TRANSITION (goto MB_STATE_SEND_NO_MORE_INFO s))"
    using assms(2) by (intro no_more_transition_good [OF assms(1), of _ xs]) simp_all
  have idle: "mb_ok (mb_note Wake_queues (goto MB_STATE_IDLE (mb_send_proxy_status env c s)))" for c
    using assms(1,2) by (intro mb_okI [of _ xs]) simp_all
  have stay: "mb_ok s" using assms(2,3) by (intro mb_okI [of _ xs]) auto
  show ?thesis
    using assms(3) last idle stay
    by (auto simp: mb_state_transition.simps [of env ev s] on_sending_from_proxy_def on_sending_last_from_proxy_def
        on_sending_ping_def idle_transition)
qed

lemma pop_good:
  assumes "bufs_ok env" and "calm_ok s xs" and "q \<in> {MB_STATE_SENDING_FROM_PROXY, MB_STATE_SENDING_LAST_FORM_PROXY}"
  shows "good (case classic_input env (goto q s) of
      (Refused, s) \<Rightarrow> mb_state_transition env MB_EVENT_SEND_DONE (set_status TRANSMIT_COMPLETE_FAIL s)
    | (Reports_later, s) \<Rightarrow> Some s
    | (Reports_now status, s) \<Rightarrow> mb_state_transition env MB_EVENT_SEND_DONE (set_status status s))"
proof -
  obtain r t where c: "classic_input env (goto q s) = (r, t)" by fastforce
  then have t: "calm_ok t xs" "state (mb_state t) = q"
    using assms(1,2) by (auto simp: classic_input_def Let_def)
  have "good (mb_state_transition env MB_EVENT_SEND_DONE (set_status x t))" for x
    using t assms(3) by (intro from_proxy_good [OF assms(1), of _ xs]) auto
  moreover have "mb_ok t" using t assms(3) by (intro mb_okI [of _ xs]) auto
  ultimately show ?thesis using c by (simp split: zip_reply.splits)
qed

lemma ping_event_good:
  assumes "bufs_ok env" and "calm_ok s xs" and "state (mb_state s) = MB_STATE_PING_ZIPCLIENTS"
    and p: "last_entry (mb_state s) \<noteq> 0"
  shows "good (mb_state_transition env ev s)"
proof -
  let ?p = "last_entry (mb_state s)"
  have inv: "mb_inv s xs" using assms(2) by (simp add: calm_ok_def)
  obtain ys where ys: "linked (mb_next s) ?p ys" using chain_from [OF inv] by blast
  then have n: "linked (mb_next s) (mb_next s ?p) (tl ys)" using p by (cases ys) auto
  show ?thesis
  proof (cases "ev = MB_EVENT_SEND_DONE \<or> ev = MB_EVENT_TRANSITION")
    case True
    have "good (mb_state_transition env MB_EVENT_SEND_DONE s)"
      using assms(2,3) n p by (simp add: ping_done_tr [of _ ?p]) (intro ping_good [OF assms(1), of _ xs], simp_all)
    then show ?thesis using True ping_good [OF assms(1-3) ys] by auto
  next
    case False
    then show ?thesis using assms by (auto simp: tr_at on_ping_zipclients_def intro!: mb_okI [of _ xs])
  qed
qed

lemma woken_good:
  assumes "bufs_ok env" and "calm_ok s xs" and "state (mb_state s) = MB_STATE_IDLE" and n: "node (mb_state s) \<noteq> 0"
  shows "good (mb_state_transition env MB_EVENT_WAKEUP s)"
proof -
  have probe: "good (mb_state_transition env MB_EVENT_TRANSITION (goto MB_STATE_PROBE_WAKEUP_INTERVAL s))"
    using assms(1,2) start_sending_good [OF assms(1), of "mb_call env (Send_request (node (mb_state s)) [0x84, 0x05]) (goto MB_STATE_PROBE_WAKEUP_INTERVAL s)" xs]
    by (auto simp: tr_at on_probe_wakeup_def Let_def intro!: mb_okI [of _ xs])
  have unknown: "good (case mb_send_no_more_information env (node (mb_state s)) (goto MB_STATE_SEND_NO_MORE_INFO s) of
      (None, s) \<Rightarrow> Some s | (Some status, s) \<Rightarrow> mb_state_transition env MB_EVENT_SEND_DONE (set_status status s))"
    using assms(2) by (intro no_more_info_good [OF assms(1), of _ xs]) simp_all
  show ?thesis
    using n assms(3) probe unknown start_sending_good [OF assms(1,2)]
    by (auto simp: tr_at on_idle_def split: option.splits)
qed

lemma idle_event_good:
  assumes "bufs_ok env" and "calm_ok s xs" and "state (mb_state s) = MB_STATE_IDLE" and "service_event ev s"
  shows "good (mb_state_transition env ev s)"
proof (cases ev)
  case MB_EVNET_TIME_TO_PING
  let ?t = "goto MB_STATE_PING_ZIPCLIENTS (set_last_entry (list_head (mb_list s)) s)"
  have "good (mb_state_transition env MB_EVENT_TRANSITION ?t)"
    using assms(2) head_chain [OF assms(2)] by (intro ping_good [OF assms(1), of _ xs xs]) (simp_all add: list_head_def)
  then show ?thesis using assms(3) MB_EVNET_TIME_TO_PING by (simp add: tr_at on_idle_def)
next
  case MB_EVENT_WAKEUP
  let ?t = "goto MB_STATE_SENDING_THROUGH_PROXY (set_last_entry (list_head (mb_list s)) s)"
  have "good (mb_state_transition env MB_EVENT_TRANSITION ?t)" if "node (mb_state s) = 0"
    using assms(2,4) that MB_EVENT_WAKEUP by (intro no_proxy_messages [of _ xs]) (simp_all add: service_event_def)
  then show ?thesis
    using woken_good [OF assms(1-3)] assms(3) MB_EVENT_WAKEUP by (auto simp: tr_at on_idle_def)
next
  case MB_EVNET_PING_REQ
  let ?t = "mb_call env (Ping_address (lan_addr env) (take 16 (drop 8 (mb_uip_buf s)))
      (raw16 (mb_uip_buf s) (UIP_IPH_LEN + unat (uip_ext_len (queue_env env))))) s"
  have "mb_ok (goto MB_STATE_SENDING_PING ?t)" "mb_ok (goto MB_STATE_SENDING_PING (set_status c ?t))" for c
    using assms(1,2) by (intro mb_okI [of _ xs]; simp)+
  moreover have "mb_state_transition env MB_EVENT_SEND_DONE (set_status c ?t) = Some (set_status c ?t)" for c
    using assms(3) by (simp add: tr_at on_idle_def)
  ultimately show ?thesis
    using assms(3) MB_EVNET_PING_REQ by (auto simp: tr_at on_idle_def Let_def split: option.splits)
qed (use assms(2,3) pop_good [OF assms(1,2)] in \<open>auto simp: tr_at on_idle_def intro!: mb_okI [of _ xs]\<close>)

lemma probe_event_good:
  assumes "bufs_ok env" and "calm_ok s xs" and "state (mb_state s) = MB_STATE_PROBE_WAKEUP_INTERVAL"
  shows "good (mb_state_transition env ev s)"
  using assms start_sending_good [OF assms(1), of s xs]
    start_sending_good [OF assms(1), of "mb_call env (Send_request (node (mb_state s)) [0x84, 0x05]) s" xs]
  by (auto simp: tr_at on_probe_wakeup_def Let_def intro!: mb_okI [of _ xs])

lemma delayed_event_good:
  assumes "bufs_ok env" and "calm_ok s xs" and "state (mb_state s) = MB_STATE_SEND_NO_MORE_INFO_DELAYED"
  shows "good (mb_state_transition env ev s)"
  using assms no_more_info_good [OF assms(1), of "goto MB_STATE_SEND_NO_MORE_INFO s" xs "node (mb_state s)"]
  by (auto simp: tr_at on_no_more_info_delayed_def intro!: mb_okI [of _ xs])

lemma no_more_event_good:
  assumes "bufs_ok env" and "calm_ok s xs" and "state (mb_state s) = MB_STATE_SEND_NO_MORE_INFO"
  shows "good (mb_state_transition env ev s)"
  using assms no_more_transition_good [OF assms] no_more_done [OF assms(3), of env]
  by (cases ev) (auto simp: tr_at on_send_no_more_info_def intro!: mb_okI [of _ xs])

lemma transition_good:
  assumes "bufs_ok env" and "mb_ok s" and "service_event ev s"
  shows "good (mb_state_transition env ev s)"
proof -
  obtain xs where s: "calm_ok s xs" using assms(2) by (auto simp: mb_ok_def)
  show ?thesis
    using assms s idle_event_good [OF assms(1) s] probe_event_good [OF assms(1) s] delayed_event_good [OF assms(1) s]
      no_more_event_good [OF assms(1) s] ping_event_good [OF assms(1) s] sending_event_good [OF assms(1) s]
      from_proxy_good [OF assms(1) s]
    by (cases "state (mb_state s)") (auto simp: mb_ok_def)
qed

section \<open>Dropping expired messages\<close>

definition drops :: "mb_env \<Rightarrow> bytes \<Rightarrow> mailbox_t \<Rightarrow> bool" where
  "drops env ip e \<longleftrightarrow> destipaddr (data e) = ip \<and> msg_expired env e"

definition wants_nack :: "mb_env \<Rightarrow> mailbox_t \<Rightarrow> bool" where
  "wants_nack env e \<longleftrightarrow> is_zip_pkt (queue_env env) (data e) \<and> uip_is_addr_unspecified (proxy e)"

definition srcipaddr :: "bytes \<Rightarrow> bytes" where "srcipaddr b = take 16 (drop 8 b)"

fun nack_dest :: "mb_effect \<Rightarrow> bytes option" where
  "nack_dest (Send_udp_status f0 f1 c) = (if f0 = 0x20 then Some (ripaddr c) else None)"
| "nack_dest _ = None"

definition same_msg :: "mailbox_t \<Rightarrow> mailbox_t \<Rightarrow> bool" where
  "same_msg e f \<longleftrightarrow> e \<lparr> waiting_timer := None \<rparr> = f \<lparr> waiting_timer := None \<rparr>"

lemma same_msgD:
  "same_msg e f \<Longrightarrow> data e = data f \<and> data_len e = data_len f \<and> proxy e = proxy f \<and> m_handle e = m_handle f
     \<and> waiting_enabled e = waiting_enabled f \<and> queued_time e = queued_time f"
  by (cases e; cases f) (simp add: same_msg_def)

lemma same_msg_trans: "same_msg e f \<Longrightarrow> same_msg f g \<Longrightarrow> same_msg e g"
  by (simp add: same_msg_def)

lemma srcip_copied: "length d = MAX_MAIL_BOX_PAYLOAD \<Longrightarrow> srcipaddr (copy_to b (take (UIP_IPUDPH_LEN + ZIP_HEADER_SIZE) d)) = srcipaddr d"
  by (simp add: srcipaddr_def copy_to_def UIP_IPUDPH_LEN_def ZIP_HEADER_SIZE_def MAX_MAIL_BOX_PAYLOAD_def
      min_def drop_take)

lemma zw_conn_ripaddr: "ripaddr (get_zw_conn env s) = srcipaddr (mb_uip_buf s)"
  by (simp add: get_zw_conn_def get_udp_conn_def srcipaddr_def Let_def)

lemma drop_message:
  assumes "bufs_ok env" and "mb_inv s xs" and "m \<noteq> 0"
  shows "\<exists>t nacks. mb_drop_message env m s = Some t \<and> mb_inv t (remove1 m xs) \<and> mb_state t = mb_state s
    \<and> cfg_mb_mode t = cfg_mb_mode s \<and> (\<forall>q. same_msg (mb_entry t q) (mb_entry s q))
    \<and> (\<forall>q. q \<noteq> m \<longrightarrow> mb_entry t q = mb_entry s q) \<and> mb_log t = mb_log s @ nacks
    \<and> map nack_dest nacks = (if wants_nack env (mb_entry s m) then [Some (srcipaddr (data (mb_entry s m)))] else [])"
proof -
  let ?b = "copy_to (mb_uip_buf s) (take (UIP_IPUDPH_LEN + ZIP_HEADER_SIZE) (data (mb_entry s m)))"
  let ?u = "s \<lparr> mb_uip_buf := ?b \<rparr>"
  let ?e = "Send_udp_status 0x20 0 (get_zw_conn env ?u)"
  define v where "v = (if wants_nack env (mb_entry s m) then mb_call env ?e ?u else s)"
  have l: "length (data (mb_entry s m)) = MAX_MAIL_BOX_PAYLOAD" using assms(2) by (simp add: mb_inv_def entry_ok_def)
  have v: "mb_inv v xs" "mb_state v = mb_state s" "mb_entry v = mb_entry s" "cfg_mb_mode v = cfg_mb_mode s"
    using assms(1,2) by (auto simp: v_def mb_inv_def bufs_ok_def mb_call_def Let_def)
  have log: "mb_log v = mb_log s @ (if wants_nack env (mb_entry s m) then [?e] else [])"
    by (simp add: v_def)
  have "mb_drop_message env m s = mb_free_entry m v"
    by (simp add: mb_drop_message_def v_def wants_nack_def Let_def)
  then show ?thesis
    using free_entry [OF v(1) assms(3)] v log srcip_copied [OF l, of "mb_uip_buf s"] zw_conn_ripaddr [of env ?u]
    by (auto simp: upd_entry_def same_msg_def)
qed

lemma failing_notify_loop:
  assumes "bufs_ok env" and "mb_inv s (us @ ys)" and "linked (mb_next s) p ys"
  shows "\<exists>t nacks. failing_notify_loop env ip p s = Some t
    \<and> mb_inv t (us @ filter (\<lambda>q. \<not> drops env ip (mb_entry s q)) ys) \<and> mb_state t = mb_state s
    \<and> cfg_mb_mode t = cfg_mb_mode s \<and> (\<forall>q. same_msg (mb_entry t q) (mb_entry s q))
    \<and> mb_log t = mb_log s @ nacks
    \<and> map nack_dest nacks = map (\<lambda>q. Some (srcipaddr (data (mb_entry s q))))
         (filter (\<lambda>q. drops env ip (mb_entry s q) \<and> wants_nack env (mb_entry s q)) ys)"
  using assms(2,3)
proof (induction ys arbitrary: us p s)
  case Nil
  then show ?case by (simp add: failing_notify_loop.simps same_msg_def)
next
  case (Cons y ys)
  have y: "p = y" "y \<noteq> 0" "linked (mb_next s) (mb_next s y) ys" using Cons.prems(2) by auto
  have d: "y \<notin> set us" using Cons.prems(1) by (simp add: mb_inv_def is_list_def)
  show ?case
  proof (cases "drops env ip (mb_entry s y)")
    case True
    obtain t nacks where t: "mb_drop_message env y s = Some t" "mb_inv t (us @ ys)" "mb_state t = mb_state s"
        "cfg_mb_mode t = cfg_mb_mode s" "\<forall>q. same_msg (mb_entry t q) (mb_entry s q)" "mb_log t = mb_log s @ nacks"
        "map nack_dest nacks = (if wants_nack env (mb_entry s y) then [Some (srcipaddr (data (mb_entry s y)))] else [])"
      using drop_message [OF assms(1) Cons.prems(1) y(2)] d by (auto simp: remove1_append)
    have l: "linked (mb_next t) (mb_next s y) ys"
      using chain_after_free [OF Cons.prems(1) _ y(3), of t] t(2) d by (simp add: remove1_append)
    have same: "drops env ip (mb_entry t q) = drops env ip (mb_entry s q)"
        "wants_nack env (mb_entry t q) = wants_nack env (mb_entry s q)"
        "data (mb_entry t q) = data (mb_entry s q)" for q
      using same_msgD [OF t(5) [rule_format, of q]] by (simp_all add: drops_def wants_nack_def msg_expired_def)
    have "failing_notify_loop env ip p s = failing_notify_loop env ip (mb_next s y) t"
      using True y t(1) by (simp add: failing_notify_loop.simps [of env ip y] drops_def list_item_next_def Let_def)
    then show ?thesis
      using Cons.IH [OF t(2) l] True t same same_msg_trans by (force simp: list_item_next_def)
  next
    case False
    then have "failing_notify_loop env ip p s = failing_notify_loop env ip (mb_next s y) s"
      using y by (auto simp: failing_notify_loop.simps [of env ip y] drops_def list_item_next_def Let_def)
    then show ?thesis using Cons.IH [of s "us @ [y]" "mb_next s y"] Cons.prems(1) y False by simp
  qed
qed

lemma purge_messages:
  assumes "bufs_ok env" and "mb_inv s xs" and "cfg_mb_mode s \<noteq> ENABLE_MAILBOX_PROXY_FORWARDING"
  shows "\<exists>t nacks. mb_purge_messages env n s = Some t
    \<and> mb_inv t (filter (\<lambda>q. \<not> drops env (ip_of_node env n) (mb_entry s q)) xs) \<and> mb_state t = mb_state s
    \<and> cfg_mb_mode t = cfg_mb_mode s \<and> (\<forall>q. same_msg (mb_entry t q) (mb_entry s q)) \<and> mb_log t = mb_log s @ nacks
    \<and> map nack_dest nacks = map (\<lambda>q. Some (srcipaddr (data (mb_entry s q))))
         (filter (\<lambda>q. drops env (ip_of_node env n) (mb_entry s q) \<and> wants_nack env (mb_entry s q)) xs)"
  using failing_notify_loop [OF assms(1), of s "[]" xs "mb_list s" "ip_of_node env n"] assms(2,3)
  by (simp add: mb_purge_messages_def mb_failing_notify_byip_def list_head_def mb_inv_def is_list_def)

section \<open>A sample mailbox\<close>

text \<open>Node 5 wakes up every 100 seconds; the mailbox holds one Z/IP packet for it in block 1.\<close>

definition sample_mb_env :: mb_env where
  "sample_mb_env = \<lparr> queue_env = \<lparr> node_of_ip = (\<lambda>ip. ucast (ip ! 15)), rd_get_node_mode = (\<lambda>_. MODE_MAILBOX),
       mb_conf_mode = 1, newly_included = 0, uip_ext_len = 0 \<rparr>,
     ip_of_node = (\<lambda>n. replicate 15 0 @ [ucast n]), MyNodeID = 1, lan_addr = replicate 16 0, clock_seconds = 5000,
     node_failing = (\<lambda>_. False), rd_get_node_dbe = (\<lambda>_. Some \<lparr> wakeUp_interval = 100, lastAwake = 4900 \<rparr>),
     rd_probe_in_progress = False, rd_node_in_probe = (\<lambda>_. False), in_firmware_upgrade = (\<lambda>_. False), nm_idle = True,
     zip_input = (\<lambda>_. Reports_later), ping_reply = (\<lambda>_. None), appl_accepts = (\<lambda>_. True),
     buf_after = (\<lambda>_. (replicate PACKET_BUF_SIZE 0, 0)) \<rparr>"

definition sample_packet :: bytes where
  "sample_packet = [0x60, 0, 0, 0, 0, 20, 17, 64] @ replicate 16 9 @ (replicate 15 0 @ [5])
     @ [0, 1, 0x10, 0x1B, 0, 20, 0, 0] @ [0x23, 0x02, 0x80, 0x40, 1, 0, 0, 0x20, 0x01, 0xFF, 0, 0]"

definition mb_zero :: mailbox where
  "mb_zero = \<lparr> mb_list = 0, mb_next = (\<lambda>_. 0),
     mb_entry = (\<lambda>_. \<lparr> data = replicate MAX_MAIL_BOX_PAYLOAD 0, data_len = 0, m_handle = 0, proxy = replicate 16 0,
                     waiting_enabled = False, waiting_timer = None, queued_time = 0 \<rparr>),
     mb_memb = [],
     mb_state = \<lparr> state = MB_STATE_IDLE, node = 0,
       udp_session = \<lparr> lipaddr = replicate 16 0, ripaddr = replicate 16 0, lport = 0, rport = 0, rendpoint = 0,
                       lendpoint = 0, seq = 0, scheme = NO_SCHEME \<rparr>,
       st_handle = 0, send_no_more = False, txStatus = 0, last_entry = 0, broadcast_wun = False \<rparr>,
     ping_timer = None, no_more_timer = None, black_list_crc16 = [], mb_uip_buf = replicate PACKET_BUF_SIZE 0,
     mb_uip_len = 0, cfg_mb_mode = ENABLE_MAILBOX_SERVICE, cfg_mb_destination = replicate 16 0, cfg_mb_port = 0,
     mb_log = [] \<rparr>"

definition mb_boot :: mailbox where "mb_boot = mb_init mb_zero"

definition sample_entry :: mailbox_t where
  "sample_entry = \<lparr> data = sample_packet @ replicate (MAX_MAIL_BOX_PAYLOAD - 60) 0, data_len = 60, m_handle = 0,
     proxy = replicate 16 0, waiting_enabled = True, waiting_timer = Some 200, queued_time = 1000 \<rparr>"

definition sample_mb :: mailbox where
  "sample_mb = mb_boot \<lparr> mb_list := 1, mb_entry := (mb_entry mb_boot)(1 := sample_entry),
     mb_memb := 1 # replicate (MAX_MAILBOX_ENTRIES - 1) 0 \<rparr>"

lemma length_sample_packet [simp]: "length sample_packet = 60"
  by (simp add: sample_packet_def)

lemma sample_env_simps [simp]: "\<not> node_failing sample_mb_env n" "ping_reply sample_mb_env l = None" "nm_idle sample_mb_env"
    "\<not> rd_probe_in_progress sample_mb_env" "rd_get_node_dbe sample_mb_env n = Some \<lparr> wakeUp_interval = 100, lastAwake = 4900 \<rparr>"
  by (simp_all add: sample_mb_env_def)

lemma sample_bufs [simp]: "bufs_ok sample_mb_env"
  by (simp add: bufs_ok_def sample_mb_env_def)

definition sample_buf :: bytes where "sample_buf = sample_packet @ replicate (PACKET_BUF_SIZE - 60) 0"

lemma sample_buf_simps [simp]: "length sample_buf = PACKET_BUF_SIZE" "take 60 sample_buf = sample_packet" "sample_buf ! 6 = 17"
  by (simp_all add: sample_buf_def PACKET_BUF_SIZE_def nth_append) (simp add: sample_packet_def)

lemma sample_modes [simp]:
  "cfg_mb_mode sample_mb = ENABLE_MAILBOX_SERVICE" "cfg_mb_mode mb_boot = ENABLE_MAILBOX_SERVICE"
  "ENABLE_MAILBOX_SERVICE \<noteq> ENABLE_MAILBOX_PROXY_FORWARDING"
  by (simp_all add: sample_mb_def mb_boot_def mb_zero_def mb_init_def ENABLE_MAILBOX_SERVICE_def
      ENABLE_MAILBOX_PROXY_FORWARDING_def)

lemma sample_service_zero: "uip_is_addr_unspecified (proxy (mb_entry sample_mb p))" "uip_is_addr_unspecified (proxy (mb_entry mb_boot p))"
  "rport (udp_session (mb_state sample_mb)) = 0" "rport (udp_session (mb_state mb_boot)) = 0"
  by (simp_all add: sample_mb_def mb_boot_def mb_zero_def mb_init_def sample_entry_def uip_is_addr_unspecified_def)

lemma inv_boot: "mb_inv mb_boot []"
  by (auto simp: mb_inv_def mb_boot_def mb_zero_def mb_init_def memb_init_ok is_list_def entry_ok_def)
    (simp add: memb_init_def)

lemma inv_sample: "mb_inv sample_mb [1]"
proof -
  have "p \<in> used_blocks (1 # replicate k 0) \<longleftrightarrow> p = 1" for p k
    by (cases p; cases "p - 1") (auto simp: used_blocks_def)
  then have "used_blocks (1 # replicate k 0) = {1}" for k by blast
  then show ?thesis
    by (auto simp: mb_inv_def sample_mb_def sample_entry_def mb_boot_def mb_zero_def mb_init_def is_list_def entry_ok_def
        memb_ok_def MAX_MAILBOX_ENTRIES_def MAX_MAIL_BOX_PAYLOAD_def PACKET_BUF_SIZE_def)
qed

section \<open>Posting\<close>

text \<open>The entry a posted frame becomes.\<close>

definition posted_entry :: "mb_env \<Rightarrow> mailbox \<Rightarrow> mailbox_t \<Rightarrow> mailbox_t" where
  "posted_entry env s e = e \<lparr> data_len := mb_uip_len s, waiting_enabled := is_zip_pkt (queue_env env) (mb_uip_buf s),
     data := copy_to (data e) (take (unat (mb_uip_len s)) (mb_uip_buf s)), queued_time := clock_seconds env,
     waiting_timer := Some 200, proxy := replicate 16 0 \<rparr>"

lemma free_count: "mb_inv s xs \<Longrightarrow> memb_free_count (mb_memb s) = MAX_MAILBOX_ENTRIES - length xs"
  using card_used_blocks [of "mb_memb s"] by (simp add: mb_inv_def is_list_def distinct_card)

lemma alloc_entry:
  assumes "mb_inv s xs" and "length xs < MAX_MAILBOX_ENTRIES"
  obtains m pool where "memb_alloc (mb_memb s) = (m, pool)" "m \<noteq> 0" "m \<notin> set xs" "used_blocks pool = insert m (set xs)"
    "memb_ok pool" "length pool = MAX_MAILBOX_ENTRIES"
proof -
  obtain m pool where a: "memb_alloc (mb_memb s) = (m, pool)" by (cases "memb_alloc (mb_memb s)")
  have "m \<noteq> 0" using memb_alloc_None [of "mb_memb s"] free_count [OF assms(1)] assms(2) a by simp
  then show ?thesis using that memb_alloc_Some [OF a] assms(1) a by (auto simp: mb_inv_def)
qed

text \<open>Storing the frame in a fresh block puts it at the end of the list.\<close>

lemma store_appends:
  assumes inv: "mb_inv s xs" and m: "m \<noteq> 0" "m \<notin> set xs" "used_blocks pool = insert m (set xs)" "memb_ok pool"
      "length pool = MAX_MAILBOX_ENTRIES"
    and len: "mb_uip_len s \<noteq> 0" "unat (mb_uip_len s) \<le> PACKET_BUF_SIZE"
  shows "\<exists>l nxt. (let t = s \<lparr> mb_memb := pool, mb_entry := (mb_entry s)(m := posted_entry env s (mb_entry s m)),
                         mb_list := l, mb_next := nxt \<rparr>
    in mb_inv t (xs @ [m])
       \<and> mb_store env None hnd dnode m (s \<lparr> mb_memb := pool \<rparr>) =
           (if node_failing env dnode then Option.bind (mb_purge_messages env dnode t) (\<lambda>s. Some (True, s))
            else Some (True, t)))"
proof -
  have il: "is_list (mb_next s) (mb_list s) xs" using inv by (simp add: mb_inv_def)
  obtain l nxt where a: "list_add (mb_list s) m (mb_next s) = Some (l, nxt)" "is_list nxt l (xs @ [m])"
      "\<And>y. y \<notin> set xs \<Longrightarrow> y \<noteq> m \<Longrightarrow> nxt y = mb_next s y"
    using list_add_linked [OF il m(1)] m(2) by (auto simp: remove1_idem)
  have b: "length (mb_uip_buf s) = PACKET_BUF_SIZE" using inv by (simp add: mb_inv_def)
  have e: "entry_ok (posted_entry env s (mb_entry s m))"
    using inv b len(2) length_copy_to [of "take (unat (mb_uip_len s)) (mb_uip_buf s)" "data (mb_entry s m)"]
    by (simp add: entry_ok_def posted_entry_def mb_inv_def MAX_MAIL_BOX_PAYLOAD_def PACKET_BUF_SIZE_def)
  let ?t = "s \<lparr> mb_memb := pool, mb_entry := (mb_entry s)(m := posted_entry env s (mb_entry s m)), mb_list := l, mb_next := nxt \<rparr>"
  have "mb_inv ?t (xs @ [m])"
    using inv a m e len(1) by (auto simp: mb_inv_def) (auto simp: posted_entry_def)
  moreover have "mb_store env None hnd dnode m (s \<lparr> mb_memb := pool \<rparr>) =
      (if node_failing env dnode then Option.bind (mb_purge_messages env dnode ?t) (\<lambda>s. Some (True, s))
       else Some (True, ?t))"
    using len b a(1)
    by (simp add: mb_store_def upd_entry_def posted_entry_def mb_failing_notify_def Let_def)
  ultimately show ?thesis by (auto simp: Let_def)
qed

lemma post_stored:
  assumes "mb_inv s xs" and "length xs < MAX_MAILBOX_ENTRIES" and "cfg_mb_mode s = ENABLE_MAILBOX_SERVICE"
    and "UIP_IPUDPH_LEN \<le> unat (mb_uip_len s)" and "unat (mb_uip_len s) \<le> PACKET_BUF_SIZE"
    and "mb_uip_buf s ! 6 \<noteq> 58" and "\<not> node_failing env (mb_get_dnode env (mb_uip_buf s))"
  obtains t m l nxt pool where "mb_post_uipbuf env None hnd s = Some (True, t)" "memb_alloc (mb_memb s) = (m, pool)"
    "t = s \<lparr> mb_memb := pool, mb_entry := (mb_entry s)(m := posted_entry env s (mb_entry s m)), mb_list := l, mb_next := nxt \<rparr>"
    "mb_inv t (xs @ [m])" "msg_of t m = take (unat (mb_uip_len s)) (mb_uip_buf s)"
proof -
  obtain m pool where a: "memb_alloc (mb_memb s) = (m, pool)" "m \<noteq> 0" "m \<notin> set xs" "used_blocks pool = insert m (set xs)"
      "memb_ok pool" "length pool = MAX_MAILBOX_ENTRIES" by (rule alloc_entry [OF assms(1,2)])
  have l0: "mb_uip_len s \<noteq> 0" using assms(4) by (auto simp: UIP_IPUDPH_LEN_def)
  have "length (mb_uip_buf s) = PACKET_BUF_SIZE" using assms(1) by (simp add: mb_inv_def)
  then have "take (unat (mb_uip_len s)) (copy_to b (take (unat (mb_uip_len s)) (mb_uip_buf s))) = take (unat (mb_uip_len s)) (mb_uip_buf s)" for b
    using take_copy_to [of "take (unat (mb_uip_len s)) (mb_uip_buf s)" b] assms(5) by simp
  then show ?thesis
    using store_appends [OF assms(1) a(2-6) l0 assms(5), of env hnd "mb_get_dnode env (mb_uip_buf s)"] a(1,2) assms(3,4,6,7) that
    by (auto simp: mb_post_uipbuf_def posted_entry_def msg_of_def Let_def ENABLE_MAILBOX_SERVICE_def DISABLE_MAILBOX_def
        ENABLE_MAILBOX_PROXY_FORWARDING_def)
qed

lemma post_full:
  assumes "mb_inv s xs" and "\<not> length xs < MAX_MAILBOX_ENTRIES" and "cfg_mb_mode s = ENABLE_MAILBOX_SERVICE"
    and "UIP_IPUDPH_LEN \<le> unat (mb_uip_len s)" and "mb_uip_buf s ! 6 \<noteq> 58"
  shows "mb_post_uipbuf env None hnd s = Some (False, mb_send_queue_full env s)"
proof -
  have "cfg_mb_mode s \<noteq> DISABLE_MAILBOX" "cfg_mb_mode s \<noteq> ENABLE_MAILBOX_PROXY_FORWARDING"
    using assms(3) by (simp_all add: ENABLE_MAILBOX_SERVICE_def DISABLE_MAILBOX_def ENABLE_MAILBOX_PROXY_FORWARDING_def)
  moreover have "fst (memb_alloc (mb_memb s)) = 0"
    using memb_alloc_None [of "mb_memb s"] free_count [OF assms(1)] assms(2) by simp
  ultimately show ?thesis using assms(4,5) by (auto simp: mb_post_uipbuf_def Let_def split: prod.splits)
qed

lemma posted_service:
  assumes "service_ok s xs" and "mb_inv t ys"
    and "t = s \<lparr> mb_memb := pool, mb_entry := (mb_entry s)(m := posted_entry env s (mb_entry s m)), mb_list := l, mb_next := nxt \<rparr>"
  shows "service_ok t ys"
  using assms by (auto simp: service_ok_def posted_entry_def uip_is_addr_unspecified_def)

text \<open>
  In the service mode a frame for a node that is not failing is put at the end of the mailbox, whole
  and with the current time, and the messages before it are not touched.  When all 2000 blocks are in use the
  frame is refused and its sender told that the queue is full.
\<close>

theorem mb_post_keeps_order:
  assumes "bufs_ok env" and "mb_inv s xs" and "cfg_mb_mode s = ENABLE_MAILBOX_SERVICE"
    and "UIP_IPUDPH_LEN \<le> unat (mb_uip_len s)" and "unat (mb_uip_len s) \<le> PACKET_BUF_SIZE"
    and "mb_uip_buf s ! 6 \<noteq> 58" and "\<not> node_failing env (mb_get_dnode env (mb_uip_buf s))"
  shows "\<exists>t m. mb_post_uipbuf env None hnd s = Some (length xs < MAX_MAILBOX_ENTRIES, t)
    \<and> (if length xs < MAX_MAILBOX_ENTRIES
       then mb_inv t (xs @ [m]) \<and> msg_of t m = take (unat (mb_uip_len s)) (mb_uip_buf s)
          \<and> queued_time (mb_entry t m) = clock_seconds env \<and> (\<forall>p. p = m \<or> mb_entry t p = mb_entry s p)
          \<and> mb_log t = mb_log s
       else t = mb_send_queue_full env s)"
proof (cases "length xs < MAX_MAILBOX_ENTRIES")
  case True
  show ?thesis
    by (rule post_stored [OF assms(2) True assms(3-7), of hnd]) (use True in \<open>auto simp: posted_entry_def\<close>)
next
  case False
  then show ?thesis using post_full [OF assms(2) False assms(3,4,6), of env hnd] by auto
qed

theorem mb_post_keeps_order_witness:
  "\<exists>t m. mb_post_uipbuf sample_mb_env None 0 (sample_mb \<lparr> mb_uip_buf := sample_buf, mb_uip_len := 60 \<rparr>) = Some (True, t)
    \<and> mb_inv t [1, m] \<and> msg_of t m = sample_packet"
proof -
  have "mb_inv (sample_mb \<lparr> mb_uip_buf := sample_buf, mb_uip_len := 60 \<rparr>) [1]"
    using inv_sample by (simp add: mb_inv_def)
  from mb_post_keeps_order [OF sample_bufs this, of 0] show ?thesis
    by (auto simp: UIP_IPUDPH_LEN_def PACKET_BUF_SIZE_def MAX_MAILBOX_ENTRIES_def)
qed

section \<open>Delivery on wake-up\<close>

fun reports_sent :: "mb_env \<Rightarrow> nat \<Rightarrow> mailbox \<Rightarrow> mailbox option" where
  "reports_sent env 0 s = Some s"
| "reports_sent env (Suc k) s = Option.bind (mb_send_done_event env TRANSMIT_COMPLETE_OK s) (reports_sent env k)"

text \<open>A sender that takes every frame and reports later.\<close>

definition patient :: "mb_env \<Rightarrow> bool" where
  "patient env \<longleftrightarrow> (\<forall>l. zip_input env l = Reports_later \<and> appl_accepts env l)"

definition more_info :: "bytes \<Rightarrow> bool" where
  "more_info f \<longleftrightarrow> (f ! (UIP_IPUDPH_LEN + 3)) AND 0x20 \<noteq> 0"

definition final_effect :: "nodeid \<Rightarrow> bool \<Rightarrow> mb_effect" where
  "final_effect n silent = (if silent then Send_appl n [0x84, 0x08] else Wake_queues)"

definition final_state :: "bool \<Rightarrow> mb_fsm_state" where
  "final_state silent = (if silent then MB_STATE_SEND_NO_MORE_INFO else MB_STATE_SEND_NO_MORE_INFO_DELAYED)"

lemma delivery_end:
  assumes "bufs_ok env" and "patient env" and "calm_ok s xs" and "state (mb_state s) = MB_STATE_SENDING"
    and "sending_entry ev s = Some s" and "linked (mb_next s) (last_entry (mb_state s)) ys"
    and "\<forall>p \<in> set ys. \<not> for_node env (node (mb_state s)) s p" and "\<not> broadcast_wun (mb_state s)"
    and "rport (udp_session (mb_state s)) = 0"
  shows "\<exists>t. mb_state_transition env ev s = Some t \<and> mb_inv t xs \<and> state (mb_state t) = final_state (send_no_more (mb_state s))
    \<and> mb_log t = mb_log s @ [final_effect (node (mb_state s)) (send_no_more (mb_state s))]"
proof -
  have "mb_inv s xs" using assms(3) by (simp add: calm_ok_def)
  then show ?thesis
    using sending_finished [OF assms(4-7)] assms(1,2,8,9)
    by (auto simp: tr_at(5) on_send_no_more_info_def mb_send_proxy_status_def mb_send_no_more_information_def
        patient_def final_state_def final_effect_def Let_def)
qed

text \<open>The report that message \<open>q\<close> has been sent removes it and goes on with the next one.\<close>

lemma sent_next:
  assumes "calm_ok t xs" and "state (mb_state t) = MB_STATE_SENDING" and "last_entry (mb_state t) = q" and "q \<noteq> 0"
    and "linked (mb_next t) (mb_next t q) zs"
  shows "\<exists>v. mb_send_done_event env TRANSMIT_COMPLETE_OK (t \<lparr> mb_uip_len := 0 \<rparr>) = mb_state_transition env MB_EVENT_TIMEOUT v
    \<and> calm_ok v (remove1 q xs) \<and> linked (mb_next v) (last_entry (mb_state v)) zs
    \<and> mb_state v = (mb_state t) \<lparr> last_entry := mb_next t q, txStatus := TRANSMIT_COMPLETE_OK \<rparr>
    \<and> (\<forall>p. data (mb_entry v p) = data (mb_entry t p) \<and> data_len (mb_entry v p) = data_len (mb_entry t p)) \<and> mb_log v = mb_log t"
proof -
  let ?u = "set_status TRANSMIT_COMPLETE_OK (t \<lparr> mb_uip_len := 0 \<rparr>)"
  have u: "calm_ok ?u xs" "state (mb_state ?u) = MB_STATE_SENDING" "last_entry (mb_state ?u) = q"
      "linked (mb_next ?u) (mb_next ?u q) zs" "txStatus (mb_state ?u) = TRANSMIT_COMPLETE_OK" using assms by simp_all
  obtain v where v: "sending_entry MB_EVENT_SEND_DONE ?u = Some v" "calm_ok v (remove1 q xs)"
      "mb_state v = (mb_state ?u) \<lparr> last_entry := mb_next ?u q \<rparr>" "linked (mb_next v) (mb_next ?u q) zs"
      "\<forall>p. data (mb_entry v p) = data (mb_entry ?u p) \<and> data_len (mb_entry v p) = data_len (mb_entry ?u p)"
      "mb_log v = mb_log ?u"
    using sending_entry_done [OF u(1,3) assms(4) u(4)] u(5) by auto
  have "state (mb_state v) = MB_STATE_SENDING" using v(3) u(2) by simp
  then have "mb_send_done_event env TRANSMIT_COMPLETE_OK (t \<lparr> mb_uip_len := 0 \<rparr>) = mb_state_transition env MB_EVENT_TIMEOUT v"
    using send_done_split [OF u(2) v(1)] by (simp add: mb_send_done_event_def)
  then show ?thesis using v by (intro exI [of _ v]) simp
qed

lemma delivery:
  assumes "bufs_ok env" and "patient env" and "calm_ok s (us @ ys)" and "state (mb_state s) = MB_STATE_SENDING"
    and "sending_entry ev s = Some s" and "linked (mb_next s) (last_entry (mb_state s)) ys"
    and "\<not> broadcast_wun (mb_state s)" and "\<forall>p. for_node env (node (mb_state s)) s p \<longrightarrow> 52 \<le> unat (data_len (mb_entry s p))"
    and "rport (udp_session (mb_state s)) = 0"
  shows "\<exists>t. Option.bind (mb_state_transition env ev s)
        (reports_sent env (length (filter (for_node env (node (mb_state s)) s) ys))) = Some t
    \<and> mb_inv t (us @ filter (\<lambda>p. \<not> for_node env (node (mb_state s)) s p) ys)
    \<and> (let ms = map (msg_of s) (filter (for_node env (node (mb_state s)) s) ys);
           silent = send_no_more (mb_state s) \<and> \<not> list_ex more_info ms
       in mb_log t = mb_log s @ map (Classic_input (node (mb_state s))) ms @ [final_effect (node (mb_state s)) silent]
        \<and> state (mb_state t) = final_state silent)"
  using assms(3-)
proof (induction "length ys" arbitrary: s us ys ev rule: less_induct)
  case less
  let ?n = "node (mb_state s)"
  let ?P = "\<lambda>q. \<not> for_node env ?n s q"
  show ?case
  proof (cases "dropWhile ?P ys")
    case Nil
    then have none: "\<forall>p \<in> set ys. ?P p" by (simp add: dropWhile_eq_Nil_conv)
    then have "filter (for_node env ?n s) ys = []" "filter ?P ys = ys" by (simp_all add: filter_empty_conv)
    then show ?thesis
      using delivery_end [OF assms(1,2) less.prems(1-4) none less.prems(5,7)] by (auto simp: Let_def)
  next
    case (Cons q zs)
    obtain vs where ys: "ys = vs @ q # zs" and vs: "\<forall>p \<in> set vs. ?P p" and q: "for_node env ?n s q"
      using first_split [OF Cons] by blast
    have fil: "filter (for_node env ?n s) ys = q # filter (for_node env ?n s) zs" "filter ?P ys = vs @ filter ?P zs"
      using vs q by (simp_all add: ys filter_empty_conv filter_id_conv)
    have l: "linked (mb_next s) (last_entry (mb_state s)) (vs @ q # zs)" using less.prems(4) ys by simp
    have q0: "q \<noteq> 0" using linked_nonnull [OF l] by auto
    have n: "52 \<le> unat (data_len (mb_entry s q))" "data_len (mb_entry s q) \<noteq> 0" using less.prems(6) q by auto
    obtain b where b: "length b = PACKET_BUF_SIZE" "take (unat (data_len (mb_entry s q))) b = msg_of s q"
      "mb_state_transition env ev s = Some ((handed_over env q b s) \<lparr> mb_uip_len := 0 \<rparr>)"
      using sending_step [OF less.prems(1,2,3) l vs q n(2) assms(1)] assms(2) by (auto simp: patient_def Let_def)
    let ?t = "handed_over env q b s"
    note t = handed_over_facts [OF assms(1) less.prems(1) b(1), of q]
    have mi: "more_info (msg_of s q) \<longleftrightarrow> b ! (UIP_IPUDPH_LEN + 3) AND 0x20 \<noteq> 0"
      unfolding more_info_def b(2) [symmetric] using n(1) by (simp add: UIP_IPUDPH_LEN_def)
    have st: "state (mb_state ?t) = MB_STATE_SENDING" "last_entry (mb_state ?t) = q"
        "linked (mb_next ?t) (mb_next ?t q) zs" using t less.prems(2) linked_suffix(2) [OF l] by simp_all
    obtain v where v: "mb_send_done_event env TRANSMIT_COMPLETE_OK (?t \<lparr> mb_uip_len := 0 \<rparr>) = mb_state_transition env MB_EVENT_TIMEOUT v"
        "calm_ok v (remove1 q (us @ ys))" "linked (mb_next v) (last_entry (mb_state v)) zs"
        "mb_state v = (mb_state ?t) \<lparr> last_entry := mb_next ?t q, txStatus := TRANSMIT_COMPLETE_OK \<rparr>"
        "\<forall>p. data (mb_entry v p) = data (mb_entry ?t p) \<and> data_len (mb_entry v p) = data_len (mb_entry ?t p)"
        "mb_log v = mb_log ?t"
      using sent_next [OF t(1) st(1,2) q0 st(3)] by blast
    have same: "for_node env ?n v = for_node env ?n s" "msg_of v = msg_of s" "node (mb_state v) = ?n"
      using v(4,5) t(3,5) by (auto simp: for_node_def msg_of_def fun_eq_iff)
    have r: "remove1 q (us @ ys) = (us @ vs) @ zs"
      using less.prems(1) ys by (auto simp: calm_ok_def mb_inv_def is_list_def remove1_append)
    have "length zs < length ys" "calm_ok v ((us @ vs) @ zs)" "state (mb_state v) = MB_STATE_SENDING"
      "sending_entry MB_EVENT_TIMEOUT v = Some v" "\<not> broadcast_wun (mb_state v)"
      "\<forall>p. for_node env (node (mb_state v)) v p \<longrightarrow> 52 \<le> unat (data_len (mb_entry v p))" "rport (udp_session (mb_state v)) = 0"
      using ys v r t less.prems same by (simp_all add: sending_entry_def)
    from less.hyps [OF this(1-4) v(3) this(5-7)] show ?thesis
      using b(3) fil mi same v(1,4,6) t(5,6) by (auto simp: Let_def)
  qed
qed

lemma wakeup_delivery:
  assumes "bufs_ok env" and "patient env" and "service_ok s xs" and "state (mb_state s) = MB_STATE_IDLE"
    and "cfg_mb_mode s = ENABLE_MAILBOX_SERVICE" and "nm_idle env" and "\<not> rd_probe_in_progress env" and "n \<noteq> 0"
    and "rd_get_node_dbe env n = Some d" and "\<not> node_failing env n" and "\<not> wakeup_off_schedule env d"
    and "\<forall>p. for_node env n s p \<longrightarrow> 52 \<le> unat (data_len (mb_entry s p))"
  shows "\<exists>t. Option.bind (mb_wakeup_event env n False s) (reports_sent env (length (filter (for_node env n s) xs))) = Some t
    \<and> mb_inv t (filter (\<lambda>p. \<not> for_node env n s p) xs)
    \<and> (let ms = map (msg_of s) (filter (for_node env n s) xs); silent = \<not> list_ex more_info ms
       in mb_log t = mb_log s @ map (Classic_input n) ms @ [final_effect n silent]
        \<and> state (mb_state t) = final_state silent)"
proof -
  let ?s = "upd_st (\<lambda>st. st \<lparr> node := n, send_no_more := True, broadcast_wun := False \<rparr>) s"
  let ?t = "set_last_entry (list_head (mb_list s)) (goto MB_STATE_SENDING ?s)"
  have "mb_wakeup_event env n False s = mb_state_transition env MB_EVENT_TRANSITION (goto MB_STATE_SENDING ?s)"
    using assms(4-11) by (simp add: mb_wakeup_event_def tr_at(1) on_idle_def ENABLE_MAILBOX_SERVICE_def DISABLE_MAILBOX_def)
  also have "\<dots> = mb_state_transition env MB_EVENT_TIMEOUT ?t"
    by (simp add: tr_at(4) on_sending_def sending_entry_def)
  finally have eq: "mb_wakeup_event env n False s = mb_state_transition env MB_EVENT_TIMEOUT ?t" .
  have same: "for_node env n ?t = for_node env n s" "msg_of ?t = msg_of s"
    by (simp_all add: fun_eq_iff for_node_def msg_of_def)
  have h: "linked (mb_next s) (mb_list s) xs" using head_chain [of s xs] assms(3) by (simp add: service_calm)
  show ?thesis
    using delivery [OF assms(1,2), of ?t "[]" xs MB_EVENT_TIMEOUT] assms(3,12) same h
    by (simp add: eq sending_entry_def list_head_def service_calm)
qed


lemma sample_for_node: "for_node sample_mb_env 5 sample_mb p \<longleftrightarrow> p = 1"
  by (simp add: for_node_def mb_get_dnode_def sample_mb_env_def sample_mb_def mb_boot_def mb_zero_def mb_init_def
      sample_entry_def sample_packet_def destipaddr_def MAX_MAIL_BOX_PAYLOAD_def nth_append)

lemma sample_msg: "msg_of sample_mb 1 = sample_packet"
  by (simp add: msg_of_def sample_mb_def sample_entry_def)

lemma sample_service: "service_ok sample_mb [1]" "service_ok mb_boot []"
  using inv_sample inv_boot sample_service_zero by (simp_all add: service_ok_def)


section \<open>All calls of the service mode\<close>

datatype mb_op =
    Post bytes u16
  | Purge nodeid
  | Wakeup nodeid bool
  | Sent u8
  | Ping_replied u8
  | Interval_report u8 "u8 \<times> u8 \<times> u8"
  | Node_probed
  | No_more_timer
  | Ping_timer
  | Waiting_timer addr
  | Sleep_later nodeid
  | Abort
  | Frame_sent nodeid
  | Command bytes u16 zwave_connection_t bytes u16

fun mb_apply :: "mb_env \<Rightarrow> mb_op \<Rightarrow> mailbox \<Rightarrow> mailbox option" where
  "mb_apply env (Post b n) s = map_option snd (mb_post_uipbuf env None 0 (s \<lparr> mb_uip_buf := b, mb_uip_len := n \<rparr>))"
| "mb_apply env (Purge n) s = mb_purge_messages env n s"
| "mb_apply env (Wakeup n b) s = mb_wakeup_event env n b s"
| "mb_apply env (Sent c) s = mb_send_done_event env c s"
| "mb_apply env (Ping_replied c) s = mb_udp_ping_reply env c s"
| "mb_apply env (Interval_report c r) s = mb_probe_wakeup_callback env c r s"
| "mb_apply env Node_probed s = mb_probe_node_callback env s"
| "mb_apply env No_more_timer s = no_more_timeout env s"
| "mb_apply env Ping_timer s = send_ping_timeout env s"
| "mb_apply env (Waiting_timer p) s = send_waiting_timeout env p s"
| "mb_apply env (Sleep_later n) s = Some (mb_put_node_to_sleep_later n s)"
| "mb_apply env Abort s = Some (mb_abort_sending s)"
| "mb_apply env (Frame_sent n) s = mb_node_transmission_ok_event env n s"
| "mb_apply env (Command b l c pData n) s =
     map_option snd (mb_command_handler env c pData n (s \<lparr> mb_uip_buf := b, mb_uip_len := l \<rparr>))"

text \<open>
  What the callers guarantee: frames fit the packet buffer, nodes that wake up have a number, and a node whose
  interval report arrives is in the resource directory.  Of the command class everything is
  allowed but the two commands that turn the gateway into the mailbox of a proxy or into a proxy itself, \<^verbatim>\<open>MAILBOX_PUSH\<close> and
  the configuration of the forwarding mode; the commands have the length of the structures the code reads, which it does
  not check, and come from a peer with an address.
\<close>

fun legal :: "mb_env \<Rightarrow> mb_op \<Rightarrow> bool" where
  "legal env (Post b n) \<longleftrightarrow> length b = PACKET_BUF_SIZE \<and> unat n \<le> PACKET_BUF_SIZE"
| "legal env (Wakeup n b) \<longleftrightarrow> n \<noteq> 0"
| "legal env (Interval_report c r) \<longleftrightarrow> (\<forall>n. rd_get_node_dbe env n \<noteq> None)"
| "legal env (Command b l c pData n) \<longleftrightarrow> length b = PACKET_BUF_SIZE \<and> 44 \<le> length pData
     \<and> (pData ! 1 = 0x05 \<longrightarrow> \<not> uip_is_addr_unspecified (ripaddr c))
     \<and> (pData ! 1 = 0x02 \<longrightarrow> pData ! 2 AND 7 \<noteq> ENABLE_MAILBOX_PROXY_FORWARDING)
     \<and> (pData ! 1 = 0x04 \<longrightarrow> pData ! 2 AND 7 \<noteq> MAILBOX_PUSH \<and> 4 + unat (n - 3) \<le> length pData
          \<and> unat (n - 3) \<le> PACKET_BUF_SIZE)"
| "legal env _ \<longleftrightarrow> True"

inductive mb_reachable :: "mailbox \<Rightarrow> bool" where
  boot: "mb_reachable mb_boot"
| call: "mb_reachable s \<Longrightarrow> bufs_ok env \<Longrightarrow> legal env op \<Longrightarrow> mb_apply env op s = Some t \<Longrightarrow> mb_reachable t"

lemma boot_ok: "mb_ok mb_boot"
proof (rule mb_okI)
  show "calm_ok mb_boot []"
    using inv_boot by (auto simp: calm_ok_def mb_boot_def mb_zero_def mb_init_def uip_is_addr_unspecified_def
        ENABLE_MAILBOX_SERVICE_def ENABLE_MAILBOX_PROXY_FORWARDING_def)
qed (simp add: mb_boot_def mb_zero_def mb_init_def)

lemma ok_frame [simp]:
  "mb_ok (mb_note e s) = mb_ok s" "mb_ok (set_status c s) = mb_ok s" "mb_ok (set_no_more_timer s) = mb_ok s"
  "mb_ok (set_ping_timer s) = mb_ok s"
  by (simp_all add: mb_ok_def)

lemma ok_call: "bufs_ok env \<Longrightarrow> mb_ok s \<Longrightarrow> mb_ok (mb_call env e s)"
  by (auto simp: mb_ok_def intro: service_frame(8))

lemma ok_buffer: "mb_ok s \<Longrightarrow> length b = PACKET_BUF_SIZE \<Longrightarrow> mb_ok (s \<lparr> mb_uip_buf := b \<rparr>)"
  by (auto simp: mb_ok_def calm_ok_def mb_inv_def)

lemma failing_notify_good:
  assumes "bufs_ok env" and "mb_ok s"
  shows "good (mb_failing_notify_byip env ip s)"
proof -
  obtain xs where s: "calm_ok s xs" using assms(2) by (auto simp: mb_ok_def)
  then have "mb_inv s ([] @ xs)" "linked (mb_next s) (list_head (mb_list s)) xs"
    by (simp_all add: calm_ok_def mb_inv_def is_list_def list_head_def)
  from failing_notify_loop [OF assms(1) this] obtain t ys where t: "mb_failing_notify_byip env ip s = Some t" "mb_inv t ys"
      "mb_state t = mb_state s" "cfg_mb_mode t = cfg_mb_mode s" "\<forall>q. same_msg (mb_entry t q) (mb_entry s q)"
    unfolding mb_failing_notify_byip_def by blast
  have e: "proxy (mb_entry t q) = proxy (mb_entry s q)" "data_len (mb_entry t q) = data_len (mb_entry s q)" for q
    using same_msgD [OF t(5) [rule_format, of q]] by simp_all
  have "calm_ok t ys" using s t e(1) by (simp add: calm_ok_def)
  then have "mb_ok t" using assms(2) t(3) e(2) by (auto simp: mb_ok_def)
  then show ?thesis using t(1) by simp
qed

lemma purge_good:
  assumes "bufs_ok env" and "mb_ok s"
  shows "good (mb_purge_messages env n s)"
  using failing_notify_good [OF assms] assms(2) by (auto simp: mb_purge_messages_def mb_ok_def calm_ok_def)

lemma post_good:
  assumes "bufs_ok env" and "mb_ok s" and "unat (mb_uip_len s) \<le> PACKET_BUF_SIZE"
  shows "good (map_option snd (mb_post_uipbuf env None hnd s))"
proof -
  obtain xs where s: "calm_ok s xs" using assms(2) by (auto simp: mb_ok_def)
  then have inv: "mb_inv s xs" and mode: "cfg_mb_mode s \<noteq> ENABLE_MAILBOX_PROXY_FORWARDING" by (simp_all add: calm_ok_def)
  define icmp where "icmp = UIP_IPH_LEN + unat (uip_ext_len (queue_env env))"
  show ?thesis
  proof (cases "mb_uip_buf s ! 6 = 58 \<and> mb_uip_buf s ! icmp \<noteq> 128 \<or> unat (mb_uip_len s) < UIP_IPUDPH_LEN
        \<or> cfg_mb_mode s = DISABLE_MAILBOX \<or> fst (memb_alloc (mb_memb s)) = 0")
    case True
    then show ?thesis
      using assms(1,2) mode ok_call [OF assms(1,2)]
      by (cases "memb_alloc (mb_memb s)") (auto simp: mb_post_uipbuf_def mb_send_queue_full_def icmp_def Let_def)
  next
    case False
    have stored: "unat (mb_uip_len s) \<ge> UIP_IPUDPH_LEN" "length xs < MAX_MAILBOX_ENTRIES"
      using False memb_alloc_None [of "mb_memb s"] free_count [OF inv] by auto
    have post: "mb_post_uipbuf env None hnd s = (case memb_alloc (mb_memb s) of (m, pool) \<Rightarrow>
         mb_store env None hnd (mb_get_dnode env (mb_uip_buf s)) m (s \<lparr> mb_memb := pool \<rparr>))"
      using False mode by (cases "memb_alloc (mb_memb s)") (auto simp: mb_post_uipbuf_def icmp_def Let_def)
    obtain m pool where a: "memb_alloc (mb_memb s) = (m, pool)" "m \<noteq> 0" "m \<notin> set xs" "used_blocks pool = insert m (set xs)"
        "memb_ok pool" "length pool = MAX_MAILBOX_ENTRIES" by (rule alloc_entry [OF inv stored(2)])
    have l0: "mb_uip_len s \<noteq> 0" using stored(1) by (auto simp: UIP_IPUDPH_LEN_def)
    define d where "d = mb_get_dnode env (mb_uip_buf s)"
    obtain l nxt where st: "let t = s \<lparr> mb_memb := pool, mb_entry := (mb_entry s)(m := posted_entry env s (mb_entry s m)),
                       mb_list := l, mb_next := nxt \<rparr>
        in mb_inv t (xs @ [m]) \<and> mb_store env None hnd d m (s \<lparr> mb_memb := pool \<rparr>) =
           (if node_failing env d then Option.bind (mb_purge_messages env d t) (\<lambda>s. Some (True, s)) else Some (True, t))"
      using store_appends [OF inv a(2-6) l0 assms(3)] by blast
    define t where "t = s \<lparr> mb_memb := pool, mb_entry := (mb_entry s)(m := posted_entry env s (mb_entry s m)),
        mb_list := l, mb_next := nxt \<rparr>"
    have t: "mb_inv t (xs @ [m])" "mb_store env None hnd d m (s \<lparr> mb_memb := pool \<rparr>) =
        (if node_failing env d then Option.bind (mb_purge_messages env d t) (\<lambda>s. Some (True, s)) else Some (True, t))"
      using st unfolding t_def [symmetric] by (simp_all add: Let_def)
    have "calm_ok t (xs @ [m])" using s t(1) by (auto simp: calm_ok_def posted_entry_def uip_is_addr_unspecified_def t_def)
    moreover have "fsm_ok (state (mb_state t)) (last_entry (mb_state t)) (data_len (mb_entry t (last_entry (mb_state t))))"
      using assms(2) l0 by (cases "state (mb_state s)") (auto simp: mb_ok_def posted_entry_def t_def)
    ultimately have ok: "mb_ok t" by (rule mb_okI)
    show ?thesis
      using post a(1) t(2) ok purge_good [OF assms(1) ok, of d] by (auto simp: good_def d_def)
  qed
qed

lemma waiting_timer_good:
  assumes "bufs_ok env" and "mb_ok s"
  shows "good (send_waiting_timeout env p s)"
proof -
  obtain xs where s: "calm_ok s xs" using assms(2) by (auto simp: mb_ok_def)
  have timer: "mb_ok (upd_entry p (\<lambda>e. e \<lparr> waiting_timer := w \<rparr>) t)" if "mb_ok t" for t w
    using that by (auto simp: mb_ok_def calm_ok_def mb_inv_def upd_entry_def entry_ok_def)
  have l: "length (copy_to (mb_uip_buf s) (take (UIP_IPUDPH_LEN + ZIP_HEADER_SIZE) (data (mb_entry s p)))) = PACKET_BUF_SIZE"
    using s by (subst length_copy_to) (simp_all add: calm_ok_def mb_inv_def entry_ok_def UIP_IPUDPH_LEN_def
        ZIP_HEADER_SIZE_def PACKET_BUF_SIZE_def MAX_MAIL_BOX_PAYLOAD_def)
  have "mb_ok (send_waiting env (data (mb_entry s p)) s)"
    using ok_call [OF assms(1) ok_buffer [OF assms(2) l]] by (simp add: send_waiting_def Let_def)
  then show ?thesis
    using s timer assms(2) by (simp add: send_waiting_timeout_def calm_ok_def Let_def)
qed

lemma wakeup_good:
  assumes "bufs_ok env" and "mb_ok s" and "n \<noteq> 0"
  shows "good (mb_wakeup_event env n b s)"
proof -
  let ?s = "upd_st (\<lambda>st. st \<lparr> node := n, send_no_more := True, broadcast_wun := b \<rparr>) s"
  have "mb_ok ?s" if "state (mb_state s) = MB_STATE_IDLE"
    using assms(2) that by (auto simp: mb_ok_def)
  then have "good (mb_state_transition env MB_EVENT_WAKEUP ?s)" if "state (mb_state s) = MB_STATE_IDLE"
    using transition_good [OF assms(1), of ?s MB_EVENT_WAKEUP] that assms(3) by (simp add: service_event_def)
  then show ?thesis using assms ok_call [OF assms(1,2)] by (auto simp: mb_wakeup_event_def)
qed

text \<open>The commands.\<close>

lemma ok_session:
  assumes "mb_ok s" and "\<And>st. state (f st) = state st" and "\<And>st. last_entry (f st) = last_entry st"
  shows "mb_ok (upd_st f s)"
  using assms by (simp add: mb_ok_def)

lemma queue_command_good:
  assumes "bufs_ok env" and "mb_ok s" and "legal env (Command b l c pData n)" and "pData ! 1 = 0x04"
  shows "good (mb_queue_command env c pData n s)"
proof -
  obtain xs where "calm_ok s xs" using assms(2) by (auto simp: mb_ok_def)
  then have b: "length (mb_uip_buf s) = PACKET_BUF_SIZE" by (simp add: calm_ok_def mb_inv_def)
  define u where "u = s \<lparr> mb_uip_len := n - 3, mb_uip_buf := copy_to (mb_uip_buf s) (take (unat (n - 3)) (drop 4 pData)) \<rparr>"
  have len: "unat (n - 3) \<le> PACKET_BUF_SIZE" "4 + unat (n - 3) \<le> length pData" "44 \<le> length pData"
      "pData ! 2 AND 7 \<noteq> MAILBOX_PUSH" using assms(3,4) by simp_all
  have l: "length (copy_to (mb_uip_buf s) (take (unat (n - 3)) (drop 4 pData))) = PACKET_BUF_SIZE"
    using b len by (subst length_copy_to) simp_all
  have u: "mb_ok u" using ok_buffer [OF _ l, of "s \<lparr> mb_uip_len := n - 3 \<rparr>"] assms(2) by (simp add: u_def)
  have finish: "good (mb_send_done env x u)" for x
    using transition_good [OF assms(1), of "set_status x u"] u by (simp add: mb_send_done_def service_event_def)
  have full: "mb_ok (mb_send_queue_full env u)" using ok_call [OF assms(1) u] by (simp add: mb_send_queue_full_def Let_def)
  have lu: "length (mb_uip_buf u) = PACKET_BUF_SIZE" using l by (simp add: u_def)
  have "length (copy_to (mb_uip_buf u) (take (UIP_IPUDPH_LEN + ZIP_HEADER_SIZE) (mb_uip_buf u))) = PACKET_BUF_SIZE"
    using lu by (subst length_copy_to) simp_all
  then have waiting: "mb_ok (send_waiting env (mb_uip_buf u) u)"
    using ok_call [OF assms(1) ok_buffer [OF u]] by (simp add: send_waiting_def Let_def)
  have session: "good (mb_state_transition env ev (upd_st f u))"
    if "\<And>st. state (f st) = state st" "\<And>st. last_entry (f st) = last_entry st" "ev \<noteq> MB_EVENT_WAKEUP" for f ev
    using that by (intro transition_good [OF assms(1) ok_session [OF u]]) (simp_all add: service_event_def)
  have eq: "mb_queue_command env c pData n s =
     (let mode = pData ! 2 AND 7; hnd = pData ! 3
      in if mode = MAILBOX_ACK then mb_send_done env TRANSMIT_COMPLETE_OK u
         else if mode = MAILBOX_NAK then mb_send_done env TRANSMIT_COMPLETE_FAIL u
         else if mode = MAILBOX_QUEUE_FULL then Some (mb_send_queue_full env u)
         else if mode = MAILBOX_WAITING then Some (send_waiting env (mb_uip_buf u) u)
         else if mode = MAILBOX_PING then
           mb_state_transition env MB_EVNET_PING_REQ (upd_st (\<lambda>st. st \<lparr> udp_session := c, st_handle := hnd \<rparr>) u)
         else if mode = MAILBOX_POP then
           if state (mb_state u) \<noteq> MB_STATE_IDLE then Some u
           else mb_state_transition env (if pData ! 2 AND 8 \<noteq> 0 then MB_EVENT_POPLAST else MB_EVENT_POP)
                  (upd_st (\<lambda>st. st \<lparr> node := mb_get_dnode env (drop 4 pData), st_handle := hnd,
                                   udp_session := c, send_no_more := True \<rparr>) u)
         else Some u)"
    unfolding mb_queue_command_def u_def [symmetric] Let_def using b len by simp
  show ?thesis unfolding eq Let_def using finish full waiting session u by simp
qed

lemma command_good:
  assumes "bufs_ok env" and "mb_ok s" and "legal env (Command b l c pData n)"
  shows "good (map_option snd (mb_command_handler env c pData n s))"
proof -
  have snd: "good (map_option snd (map_option (Pair x) r)) = good r" for x :: command_handler_codes_t and r
    by (simp add: option.map_comp comp_def option.map_ident)
  have len: "44 \<le> length pData" using assms(3) by simp
  have report: "mb_ok (mb_call env (Reply c (mb_configuration_report s)) s)" by (rule ok_call [OF assms(1,2)])
  have set: "good (mb_configuration_set pData s)" if "pData ! 1 = 0x02"
    using assms(2,3) that by (auto simp: mb_configuration_set_def mb_ok_def calm_ok_def mb_inv_def mb_note_def Let_def)
  have wake: "good (mb_state_transition env MB_EVENT_WAKEUP
      (upd_st (\<lambda>st. st \<lparr> node := 0, st_handle := pData ! 2,
         udp_session := (udp_session st) \<lparr> lipaddr := lipaddr c, ripaddr := ripaddr c, lport := lport c, rport := rport c \<rparr>,
         broadcast_wun := False \<rparr>) s))" if "pData ! 1 = 0x05"
    using assms(3) that by (intro transition_good [OF assms(1) ok_session [OF assms(2)]]) (simp_all add: service_event_def)
  show ?thesis
    using wake set report failing_notify_good [OF assms(1,2)] queue_command_good [OF assms] assms(2) len
    by (simp add: mb_command_handler_def Let_def snd)
qed

lemma apply_good:
  assumes "bufs_ok env" and "mb_ok s" and "legal env op"
  shows "good (mb_apply env op s)"
proof -
  have tr: "good (mb_state_transition env ev t)" if "mb_ok t" "ev \<in> {MB_EVENT_SEND_DONE, MB_EVENT_TIMEOUT,
      MB_EVNET_TIME_TO_PING, MB_EVENT_TRANSITION, MB_EVENT_FRAME_SENT_TO_NODE}" for ev t
    using transition_good [OF assms(1) that(1), of ev] that(2) by (auto simp: service_event_def)
  obtain xs where s: "calm_ok s xs" using assms(2) by (auto simp: mb_ok_def)
  show ?thesis
  proof (cases op)
    case (Post b n)
    then have "mb_ok (s \<lparr> mb_uip_buf := b, mb_uip_len := n \<rparr>)" using assms(2,3) ok_buffer [of s b] by simp
    then show ?thesis using Post post_good [OF assms(1), of "s \<lparr> mb_uip_buf := b, mb_uip_len := n \<rparr>"] assms(3) by simp
  next
    case (Interval_report c r)
    then obtain d where "rd_get_node_dbe env (node (mb_state s)) = Some d" using assms(3) by auto
    then show ?thesis
      using Interval_report tr [of _ MB_EVENT_SEND_DONE] assms(2)
      by (cases r) (simp add: mb_probe_wakeup_callback_def Let_def)
  next
    case Node_probed
    then show ?thesis using start_sending_good [OF assms(1) s] by (simp add: mb_probe_node_callback_def)
  next
    case Ping_timer
    have "good (mb_state_transition env MB_EVNET_TIME_TO_PING s)" using tr [OF assms(2)] by simp
    then have "good (send_ping_timeout env s)" unfolding send_ping_timeout_def by (rule good_bind) simp
    then show ?thesis using Ping_timer by simp
  next
    case (Sleep_later n)
    then show ?thesis using s assms(2) by (auto simp: mb_put_node_to_sleep_later_def intro!: mb_okI [of _ xs])
  next
    case (Command b l c pData n)
    then have "mb_ok (s \<lparr> mb_uip_buf := b, mb_uip_len := l \<rparr>)" using assms(2,3) ok_buffer [of s b] by simp
    then show ?thesis using command_good [OF assms(1) _ assms(3) [unfolded Command]] Command by simp
  next
    case Abort
    then show ?thesis using s assms(2) by (auto simp: mb_abort_sending_def intro!: mb_okI [of _ xs])
  qed (use assms tr purge_good wakeup_good waiting_timer_good in
      \<open>auto simp: mb_send_done_event_def mb_udp_ping_reply_def no_more_timeout_def mb_node_transmission_ok_event_def\<close>)
qed

lemma reachable_ok: "mb_reachable s \<Longrightarrow> mb_ok s"
proof (induction rule: mb_reachable.induct)
  case boot
  show ?case by (rule boot_ok)
next
  case (call s env op t)
  then show ?case using apply_good [OF call.hyps(2) call.IH call.hyps(3)] by simp
qed

text \<open>
  C1.  As long as it keeps no messages for another gateway, the mailbox cannot be brought down by its callers.  From the
  state after start, whatever calls come in whatever order (posts, purges, wake-ups, reports, timers, aborts and the frames
  of the command class) and whatever the other parts answer, every call returns: no null pointer is followed and
  the recursion of the state machine ends.  Afterwards the list and the pool are well formed, all messages in the list are
  allocated blocks, and no other block is in use.  Two commands are left out, \<^verbatim>\<open>MAILBOX_PUSH\<close>, with which
  another gateway has its messages kept here, and the configuration of the forwarding mode: with a full pool the
  status sent to the other gateway is written through a null pointer (\<^verbatim>\<open>send_mb_proxy_queue_command\<close>).  The
  callers have to keep to \<^term>\<open>legal\<close>: frames fit the buffer, commands have the lengths the code reads
  without checking, and a node that has reported its interval is in the resource directory.
\<close>

theorem mb_service_never_fails:
  assumes "mb_reachable s" and "bufs_ok env" and "legal env op"
  shows "\<exists>t xs. mb_apply env op s = Some t \<and> mb_reachable t \<and> mb_inv t xs
    \<and> used_blocks (mb_memb t) = set xs \<and> distinct xs"
proof -
  obtain t where t: "mb_apply env op s = Some t" "mb_ok t"
    using apply_good [OF assms(2) reachable_ok [OF assms(1)] assms(3)] by (auto simp: good_def)
  moreover have "mb_reachable t" using mb_reachable.call [OF assms t(1)] .
  ultimately show ?thesis by (auto simp: mb_ok_def calm_ok_def mb_inv_def is_list_def)
qed

theorem mb_service_never_fails_witness:
  "\<exists>t xs. mb_apply sample_mb_env (Wakeup 5 False) mb_boot = Some t \<and> mb_reachable t \<and> mb_inv t xs"
  using mb_service_never_fails [OF mb_reachable.boot sample_bufs, of "Wakeup 5 False"] by auto

text \<open>
  When a node is found to be failing, exactly the messages addressed to it that are older than eleven minutes are
  dropped; the others stay, unchanged and in their order.  The sender of every dropped Z/IP packet that did not come from a proxy is
  sent a negative acknowledgement, in the order of the messages, and nothing else is sent.
\<close>

theorem mb_failing_notify_drops_expired:
  assumes "bufs_ok env" and "mb_inv s xs" and "cfg_mb_mode s \<noteq> ENABLE_MAILBOX_PROXY_FORWARDING"
  shows "\<exists>t nacks. mb_failing_notify env n s = Some t
    \<and> mb_inv t (filter (\<lambda>q. \<not> drops env (ip_of_node env n) (mb_entry s q)) xs)
    \<and> (\<forall>q. msg_of t q = msg_of s q) \<and> mb_log t = mb_log s @ nacks
    \<and> map nack_dest nacks = map (\<lambda>q. Some (srcipaddr (data (mb_entry s q))))
         (filter (\<lambda>q. drops env (ip_of_node env n) (mb_entry s q) \<and> wants_nack env (mb_entry s q)) xs)"
proof -
  obtain t nacks where t: "mb_purge_messages env n s = Some t"
      "mb_inv t (filter (\<lambda>q. \<not> drops env (ip_of_node env n) (mb_entry s q)) xs)"
      "\<forall>q. same_msg (mb_entry t q) (mb_entry s q)" "mb_log t = mb_log s @ nacks"
      "map nack_dest nacks = map (\<lambda>q. Some (srcipaddr (data (mb_entry s q))))
         (filter (\<lambda>q. drops env (ip_of_node env n) (mb_entry s q) \<and> wants_nack env (mb_entry s q)) xs)"
    using purge_messages [OF assms] by blast
  have "msg_of t q = msg_of s q" for q using same_msgD [OF t(3) [rule_format, of q]] by (simp add: msg_of_def)
  then show ?thesis using t by (auto simp: mb_failing_notify_def)
qed

theorem mb_failing_notify_drops_expired_witness:
  "\<exists>t nacks. mb_failing_notify sample_mb_env 5 sample_mb = Some t \<and> mb_inv t [] \<and> map nack_dest nacks = [Some (replicate 16 9)]
    \<and> mb_log t = nacks"
proof -
  have "drops sample_mb_env (ip_of_node sample_mb_env 5) (mb_entry sample_mb 1)" "srcipaddr (data (mb_entry sample_mb 1)) = replicate 16 9"
      "mb_log sample_mb = []"
    by (simp_all add: drops_def msg_expired_def sample_mb_env_def sample_mb_def sample_entry_def sample_packet_def
        destipaddr_def srcipaddr_def mb_boot_def mb_zero_def mb_init_def)
  moreover have "wants_nack sample_mb_env (mb_entry sample_mb 1)"
    by (simp add: wants_nack_def sample_service_zero)
      (simp add: sample_mb_env_def sample_mb_def sample_entry_def sample_packet_def is_zip_pkt_def be16_def UIP_IPH_LEN_def
        UIP_IPUDPH_LEN_def ZWAVE_PORT_def DTLS_PORT_def nth_append Let_def)
  ultimately show ?thesis
    using mb_failing_notify_drops_expired [OF sample_bufs inv_sample, of 5] by auto
qed

section \<open>The configuration commands\<close>

lemma raw16_bytes:
  "ucast (raw16 b i) = b ! i" "ucast (drop_bit 8 (raw16 b i)) = b ! (i + 1)"
  by (rule bit_word_eqI; auto simp: raw16_def bit_simps)+

text \<open>
  The configuration command class is a round trip: after a \<^verbatim>\<open>MAILBOX_CONFIGURATION_SET\<close> the report carries the
  mode, the destination address and the port that were set, the capacity of 2000 messages and the
  supported modes.
\<close>

theorem mb_configuration_roundtrip:
  assumes "length pData = 21" and "pData ! 1 = 0x02"
  shows "\<exists>t. mb_command_handler env c pData n s = Some (COMMAND_HANDLED, t)
    \<and> mb_configuration_report t = [0x69, 0x03, 0x18 OR (pData ! 2 AND 7), 0x07, 0xD0] @ drop 3 pData"
proof -
  define a where "a = take 16 (drop 3 pData)"
  have "drop 19 pData = [pData ! 19, pData ! 20]"
    using assms(1) Cons_nth_drop_Suc [of 19 pData] Cons_nth_drop_Suc [of 20 pData] by simp
  then have d: "drop 3 pData = a @ [pData ! 19, pData ! 20]"
    using append_take_drop_id [of 16 "drop 3 pData"] by (simp add: a_def)
  have m: "(x AND 7) AND 7 = x AND (7 :: u8)" for x by (simp add: and.assoc)
  have o8: "8 OR 16 OR y = (24 OR y :: u8)" for y by (simp add: or.assoc [symmetric])
  have r: "ucast (raw16 pData 19) = pData ! 19" "ucast (drop_bit 8 (raw16 pData 19)) = pData ! 20"
    using raw16_bytes [of pData 19] by simp_all
  let ?t = "mb_note (Config_destination a) (mb_note (Config_port (uip_htons (raw16 pData 19)))
      ((mb_note (Config_mode (pData ! 2 AND 7)) (s \<lparr> cfg_mb_destination := a, cfg_mb_mode := pData ! 2 AND 7 \<rparr>))
       \<lparr> cfg_mb_port := uip_htons (raw16 pData 19) \<rparr>))"
  have "mb_command_handler env c pData n s = Some (COMMAND_HANDLED, ?t)"
    using assms by (simp add: mb_command_handler_def mb_configuration_set_def mb_note_def a_def Let_def)
  moreover have "mb_configuration_report ?t = [0x69, 0x03, 0x18 OR (pData ! 2 AND 7), 0x07, 0xD0] @ drop 3 pData"
    using r by (simp add: d mb_configuration_report_def mb_note_def uip_htons_twice m o8 MAX_MAILBOX_ENTRIES_def Let_def)
  ultimately show ?thesis by blast
qed

theorem mb_configuration_roundtrip_witness:
  "\<exists>t. mb_command_handler sample_mb_env (udp_session (mb_state mb_boot)) ([0x69, 0x02, 0x01] @ replicate 16 7 @ [0xA1, 0x0E]) 21 sample_mb
      = Some (COMMAND_HANDLED, t)
    \<and> mb_configuration_report t = [0x69, 0x03, 0x19, 0x07, 0xD0] @ replicate 16 7 @ [0xA1, 0x0E]"
  using mb_configuration_roundtrip [of "[0x69, 0x02, 0x01] @ replicate 16 7 @ [0xA1, 0x0E]" sample_mb_env
      "udp_session (mb_state mb_boot)" 21 sample_mb] by simp

text \<open>
  A gateway that is asked by its proxy to ping a client pings it and tells the proxy whether the client has
  answered; then it is idle and lets the node queues go on.
\<close>

theorem mb_ping_request_answered:
  assumes "state (mb_state s) = MB_STATE_IDLE" and "rport c \<noteq> 0"
    and "\<forall>l. ping_reply env l = None" and "length pData = 4 + unat (n - 3)" and "pData ! 1 = 0x04" and "pData ! 2 = MAILBOX_PING"
    and "unat (n - 3) \<le> length (mb_uip_buf s)"
  shows "\<exists>t u. mb_command_handler env c pData n s = Some (COMMAND_HANDLED, t) \<and> mb_udp_ping_reply env status t = Some u
    \<and> state (mb_state u) = MB_STATE_IDLE
    \<and> mb_log u = mb_log t @ [Reply c [0x69, 0x04, if status = TRANSMIT_COMPLETE_OK then MAILBOX_ACK else MAILBOX_NAK], Wake_queues]"
proof -
  define q where "q = s \<lparr> mb_uip_len := n - 3, mb_uip_buf := copy_to (mb_uip_buf s) (take (unat (n - 3)) (drop 4 pData)) \<rparr>"
  define u where "u = upd_st (\<lambda>st. st \<lparr> udp_session := c, st_handle := pData ! 3 \<rparr>) q"
  have "mb_command_handler env c pData n s = map_option (Pair COMMAND_HANDLED) (mb_state_transition env MB_EVNET_PING_REQ u)"
    using assms(4-7) by (simp add: mb_command_handler_def mb_queue_command_def u_def q_def Let_def MAILBOX_PING_def
        MAILBOX_ACK_def MAILBOX_NAK_def MAILBOX_QUEUE_FULL_def MAILBOX_WAITING_def)
  moreover have "\<exists>v. mb_state_transition env MB_EVNET_PING_REQ u = Some (goto MB_STATE_SENDING_PING v) \<and> mb_state v = mb_state u"
    using assms(1,3) by (auto simp: tr_at(1) on_idle_def u_def q_def Let_def)
  moreover have "udp_session (mb_state u) = c" by (simp add: u_def q_def)
  ultimately show ?thesis
    using assms(2) by (auto simp: mb_udp_ping_reply_def tr_at(7) on_sending_ping_def mb_send_proxy_status_def proxy_status_of_def
        idle_transition mb_call_def mb_note_def Let_def)
qed

theorem mb_ping_request_answered_witness:
  "\<exists>t u. mb_command_handler sample_mb_env ((udp_session (mb_state mb_boot)) \<lparr> rport := 1 \<rparr>) [0x69, 0x04, 0x03, 7, 0] 4 mb_boot
      = Some (COMMAND_HANDLED, t) \<and> mb_udp_ping_reply sample_mb_env TRANSMIT_COMPLETE_OK t = Some u
    \<and> state (mb_state u) = MB_STATE_IDLE
    \<and> mb_log u = mb_log t @ [Reply ((udp_session (mb_state mb_boot)) \<lparr> rport := 1 \<rparr>) [0x69, 0x04, MAILBOX_ACK], Wake_queues]"
  using mb_ping_request_answered [of mb_boot "(udp_session (mb_state mb_boot)) \<lparr> rport := 1 \<rparr>" sample_mb_env
      "[0x69, 0x04, 0x03, 7, 0]" 4 TRANSMIT_COMPLETE_OK]
  by (simp add: sample_mb_env_def mb_boot_def mb_zero_def mb_init_def MAILBOX_PING_def PACKET_BUF_SIZE_def)

section \<open>Where the code does not do what it means to\<close>

text \<open>
  The ping timer is not ignored while a message is being sent: it makes the mailbox hand the same message
  to the sender a second time.
\<close>

theorem mb_ping_timer_sends_again:
  assumes "bufs_ok env" and "patient env" and "service_ok s xs" and "state (mb_state s) = MB_STATE_SENDING"
    and "last_entry (mb_state s) \<in> set xs" and "for_node env (node (mb_state s)) s (last_entry (mb_state s))"
  shows "\<exists>t. send_ping_timeout env s = Some t \<and> state (mb_state t) = MB_STATE_SENDING
    \<and> mb_log t = mb_log s @ [Classic_input (node (mb_state s)) (msg_of s (last_entry (mb_state s)))]"
proof -
  let ?q = "last_entry (mb_state s)"
  have c: "calm_ok s xs" using assms(3) by (simp add: service_calm)
  have n: "?q \<noteq> 0" "data_len (mb_entry s ?q) \<noteq> 0"
    using head_chain [OF c] linked_nonnull [of "mb_next s" "mb_list s" xs] assms(5) by (metis, blast)
  obtain zs where "linked (mb_next s) ?q ([] @ ?q # zs)" using sending_chain [OF c n] by (metis append_Nil)
  then obtain b where "length b = PACKET_BUF_SIZE" "mb_state_transition env MB_EVNET_TIME_TO_PING s
      = Some ((handed_over env ?q b s) \<lparr> mb_uip_len := 0 \<rparr>)"
    using sending_step [OF c assms(4), of MB_EVNET_TIME_TO_PING "[]" ?q zs env] assms(1,2,6) n(2)
    by (auto simp: sending_entry_def patient_def Let_def)
  then show ?thesis
    using handed_over_facts [OF assms(1) c] assms(4)
    by (auto simp: send_ping_timeout_def set_ping_timer_def)
qed

theorem mb_ping_timer_sends_again_witness:
  "\<exists>t. send_ping_timeout sample_mb_env (upd_st (\<lambda>st. st \<lparr> state := MB_STATE_SENDING, node := 5, last_entry := 1 \<rparr>) sample_mb) = Some t
    \<and> mb_log t = [Classic_input 5 sample_packet]"
proof -
  let ?s = "upd_st (\<lambda>st. st \<lparr> state := MB_STATE_SENDING, node := 5, last_entry := 1 \<rparr>) sample_mb"
  have "service_ok ?s [1]" "patient sample_mb_env" using sample_service(1) by (simp_all add: service_calm patient_def sample_mb_env_def)
  moreover have "for_node sample_mb_env 5 ?s 1" "msg_of ?s 1 = sample_packet" "mb_log ?s = []"
    using sample_for_node [of 1] sample_msg
    by (simp_all add: for_node_def msg_of_def) (simp add: sample_mb_def mb_boot_def mb_zero_def mb_init_def)
  ultimately show ?thesis using mb_ping_timer_sends_again [OF sample_bufs, of ?s "[1]"] by auto
qed

text \<open>
  A message can be lost without being sent.  When the message being sent has been dropped as expired (its
  block \<open>q\<close> is no longer in the list) and the next frame posted is stored in that block, the report
  that the dropped message was sent removes the new one: the list is as before the post,
  and nothing but the end of the conversation with the node has been sent.
\<close>

theorem mb_stale_entry_loses_message:
  assumes "bufs_ok env" and "patient env" and "service_ok s xs" and "state (mb_state s) = MB_STATE_SENDING"
    and "last_entry (mb_state s) = q" and "q \<notin> set xs" and "memb_alloc (mb_memb s) = (q, pool)" and "q \<noteq> 0"
    and "cfg_mb_mode s = ENABLE_MAILBOX_SERVICE" and "UIP_IPUDPH_LEN \<le> unat (mb_uip_len s)"
    and "unat (mb_uip_len s) \<le> PACKET_BUF_SIZE" and "mb_uip_buf s ! 6 \<noteq> 58" and "\<not> broadcast_wun (mb_state s)"
    and "\<not> node_failing env (mb_get_dnode env (mb_uip_buf s))"
  shows "\<exists>t u. mb_post_uipbuf env None hnd s = Some (True, t) \<and> mb_inv t (xs @ [q]) \<and> msg_of t q = take (unat (mb_uip_len s)) (mb_uip_buf s)
    \<and> mb_send_done_event env TRANSMIT_COMPLETE_OK (t \<lparr> mb_uip_len := 0 \<rparr>) = Some u \<and> mb_inv u xs
    \<and> mb_log u = mb_log s @ [final_effect (node (mb_state s)) (send_no_more (mb_state s))]"
proof -
  have inv: "mb_inv s xs" using assms(3) by (simp add: service_ok_def)
  have len: "length xs < MAX_MAILBOX_ENTRIES"
    using memb_alloc_None [of "mb_memb s"] free_count [OF inv] assms(7,8) by simp
  obtain t m l nxt pool' where p: "mb_post_uipbuf env None hnd s = Some (True, t)" "memb_alloc (mb_memb s) = (m, pool')"
      "t = s \<lparr> mb_memb := pool', mb_entry := (mb_entry s)(m := posted_entry env s (mb_entry s m)), mb_list := l, mb_next := nxt \<rparr>"
      "mb_inv t (xs @ [m])" "msg_of t m = take (unat (mb_uip_len s)) (mb_uip_buf s)"
    by (rule post_stored [OF inv len assms(9-12,14), of hnd])
  have "m = q" "pool' = pool" using p(2) assms(7) by simp_all
  note t = p(1) p(4) [unfolded this] p(3) [unfolded this] p(5) [unfolded this]
  have ok: "calm_ok t (xs @ [q])" "rport (udp_session (mb_state t)) = 0"
    using posted_service [OF assms(3) t(2,3)] by (simp_all add: service_calm)
  have "linked (mb_next t) (mb_next t q) []"
    using linked_suffix(2) [of "mb_next t" "mb_list t" xs q "[]"] t(2) by (simp add: mb_inv_def is_list_def)
  then obtain v where v: "mb_send_done_event env TRANSMIT_COMPLETE_OK (t \<lparr> mb_uip_len := 0 \<rparr>) = mb_state_transition env MB_EVENT_TIMEOUT v"
      "calm_ok v xs" "linked (mb_next v) (last_entry (mb_state v)) []" "mb_log v = mb_log t"
      "mb_state v = (mb_state t) \<lparr> last_entry := mb_next t q, txStatus := TRANSMIT_COMPLETE_OK \<rparr>"
    using sent_next [OF ok(1), of q "[]" env] assms(4,5,6,8) t(3) by (auto simp: remove1_append)
  show ?thesis
    using delivery_end [OF assms(1,2) v(2), of MB_EVENT_TIMEOUT "[]"] v t assms(4,13) ok(2) by (auto simp: sending_entry_def)
qed

definition stale_mb :: mailbox where
  "stale_mb = upd_st (\<lambda>st. st \<lparr> state := MB_STATE_SENDING, node := 5, last_entry := 1, send_no_more := True \<rparr>)
     (mb_boot \<lparr> mb_uip_buf := sample_buf, mb_uip_len := 60 \<rparr>)"

theorem mb_stale_entry_loses_message_witness:
  "\<exists>t u. mb_post_uipbuf sample_mb_env None 0 stale_mb = Some (True, t) \<and> mb_inv t [1] \<and> msg_of t 1 = sample_packet
    \<and> mb_send_done_event sample_mb_env TRANSMIT_COMPLETE_OK (t \<lparr> mb_uip_len := 0 \<rparr>) = Some u \<and> mb_inv u []
    \<and> mb_log u = [Send_appl 5 [0x84, 0x08]]"
proof -
  have "replicate 2000 (0 :: nat) = 0 # replicate 1999 0" using replicate_Suc [of 1999 "0 :: nat"] by simp
  then have a: "\<exists>pool. memb_alloc (mb_memb stale_mb) = (1, pool)"
    by (simp add: stale_mb_def mb_boot_def mb_init_def memb_init_def MAX_MAILBOX_ENTRIES_def memb_alloc_def upd_st_def)
  have s: "service_ok stale_mb []" "patient sample_mb_env"
    using sample_service(2) by (auto simp: stale_mb_def service_ok_def mb_inv_def upd_st_def patient_def sample_mb_env_def)
  have f: "state (mb_state stale_mb) = MB_STATE_SENDING" "last_entry (mb_state stale_mb) = 1" "node (mb_state stale_mb) = 5"
      "send_no_more (mb_state stale_mb)" "\<not> broadcast_wun (mb_state stale_mb)" "mb_uip_len stale_mb = 60" "mb_uip_buf stale_mb = sample_buf"
      "cfg_mb_mode stale_mb = ENABLE_MAILBOX_SERVICE" "mb_log stale_mb = []" "\<not> node_failing sample_mb_env n" for n
    by (simp_all add: stale_mb_def upd_st_def mb_boot_def mb_zero_def mb_init_def sample_mb_env_def)
  obtain pool where "memb_alloc (mb_memb stale_mb) = (1, pool)" using a by blast
  then show ?thesis
    using mb_stale_entry_loses_message [OF sample_bufs s(2,1) f(1,2), of pool 0] f
    by (auto simp: UIP_IPUDPH_LEN_def PACKET_BUF_SIZE_def final_effect_def)
qed

end
