(* ===== verification/Nm_Queue.thy ===== *)
theory Nm_Queue
  imports Mailbox Pool_List
begin

text \<open>
  The queue of network management commands for sleeping nodes
  (\<^verbatim>\<open>src/CC_NetworkManagement_queue.c\<close>).  A command to a node that sleeps is kept until the node wakes
  up, then handed to the command handler of network management; when no command is left for the
  node, the mailbox takes over.

  The command handler is a parameter: a function of the log that gives its result code and whether it reports
  that network management is done while it is being called.  \<open>None\<close> stands for a call that does not end.
\<close>

section \<open>State\<close>

datatype zwave_udp_response_t = RES_ACK | RES_NAK | RES_WAITNG | RES_OPT_ERR

record nm_queue_element_t =
  destination_node :: nodeid
  nm_conn :: zwave_connection_t
  nm_cmd :: bytes
  nm_cmd_len :: u8
  nak_waiting :: "nat option"

datatype nm_effect =
    Udp_ack zwave_connection_t zwave_udp_response_t
  | Nm_command zwave_connection_t bytes u8
  | Send_nop nodeid
  | Mailbox_wakeup nodeid

record nm_op_queue =
  nmq_list :: addr
  nmq_next :: links
  nmq_at :: "addr \<Rightarrow> nm_queue_element_t"
  nmq_memb :: memb
  current_executing_node :: nodeid
  nmq_log :: "nm_effect list"

record nm_env =
  mb_active_node :: nodeid
  nm_node_mode :: "nodeid \<Rightarrow> u16"
  nm_handler :: "nm_effect list \<Rightarrow> command_handler_codes_t \<times> bool"

definition MAX_QUEUED_NM_OPS :: nat where "MAX_QUEUED_NM_OPS = 10"

definition NM_WAITING_TIMEOUT :: nat where "NM_WAITING_TIMEOUT = 60 * CLOCK_SECOND"

definition nm_do :: "nm_effect \<Rightarrow> nm_op_queue \<Rightarrow> nm_op_queue" where
  "nm_do e s = s \<lparr> nmq_log := nmq_log s @ [e] \<rparr>"

section \<open>Operations\<close>

definition NAK_Waiting_Timeout :: "addr \<Rightarrow> nm_op_queue \<Rightarrow> nm_op_queue" where
  "NAK_Waiting_Timeout e s =
     (if e \<noteq> 0
      then (let s = nm_do (Udp_ack (nm_conn (nmq_at s e)) RES_WAITNG) s
            in s \<lparr> nmq_at := (nmq_at s)(e := (nmq_at s e) \<lparr> nak_waiting := Some NM_WAITING_TIMEOUT \<rparr>) \<rparr>)
      else s)"

text \<open>The command is a buffer of at least seven bytes, the size of the structures that are read.\<close>

definition NetworkManagement_GetTargetNode :: "bytes \<Rightarrow> nodeid" where
  "NetworkManagement_GetTargetNode pCmd =
     (let cc = pCmd ! 0; cmd = pCmd ! 1
      in if cc = 0x52 \<and> cmd = 0x03 then
           if pCmd ! 3 AND 0xF = 0 then
             (let nid = ucast (pCmd ! 4) :: nodeid
              in if nid = 0xFF then push_bit 8 (ucast (pCmd ! 5)) OR ucast (pCmd ! 6) else nid)
           else 0
         else if cc = 0x4D \<and> cmd = 0x05 then ucast (pCmd ! 4)
         else if cc = 0x34 \<and> cmd = 0x0B then ucast (pCmd ! 3)
         else if cc = 0x34 \<and> cmd = 0x0D then ucast (pCmd ! 3)
         else if cc = 0x34 \<and> cmd = 0x0F then ucast (pCmd ! 3)
         else 0)"

definition NetworkManagement_queue_command ::
  "zwave_connection_t \<Rightarrow> nodeid \<Rightarrow> bytes \<Rightarrow> u8 \<Rightarrow> nm_op_queue \<Rightarrow> (bool \<times> nm_op_queue) option" where
  "NetworkManagement_queue_command c target pCmd len s =
     (case memb_alloc (nmq_memb s) of
        (e, pool) \<Rightarrow>
          if e = 0 then Some (False, s)
          else (let el = \<lparr> destination_node = target, nm_conn = c, nm_cmd = pCmd, nm_cmd_len = len,
                          nak_waiting = Some NM_WAITING_TIMEOUT \<rparr>;
                    s = s \<lparr> nmq_memb := pool, nmq_at := (nmq_at s)(e := el) \<rparr>;
                    s = nm_do (Udp_ack c RES_WAITNG) s
                in (case list_add (nmq_list s) e (nmq_next s) of
                      None \<Rightarrow> None
                    | Some (l, nxt) \<Rightarrow> Some (True, s \<lparr> nmq_list := l, nmq_next := nxt \<rparr>))))"

definition NetworkManagement_queue_find_element :: "nodeid \<Rightarrow> nm_op_queue \<Rightarrow> addr option" where
  "NetworkManagement_queue_find_element n s =
     list_find (\<lambda>e. destination_node (nmq_at s e) = n) (nmq_next s) (list_head (nmq_list s))"

definition NetworkManagement_queue_remove_element ::
  "addr \<Rightarrow> zwave_udp_response_t \<Rightarrow> nm_op_queue \<Rightarrow> nm_op_queue option" where
  "NetworkManagement_queue_remove_element e status s =
     (let s = nm_do (Udp_ack (nm_conn (nmq_at s e)) status) s;
          s = s \<lparr> nmq_at := (nmq_at s)(e := (nmq_at s e) \<lparr> nak_waiting := None \<rparr>) \<rparr>
      in (case list_remove (nmq_list s) e (nmq_next s) of
            None \<Rightarrow> None
          | Some (l, nxt) \<Rightarrow>
              Some (s \<lparr> nmq_list := l, nmq_next := nxt, nmq_memb := snd (memb_free (nmq_memb s) e) \<rparr>)))"

partial_function (option) NetworkManagement_queue_purge_all :: "nm_op_queue \<Rightarrow> nm_op_queue option" where
  "NetworkManagement_queue_purge_all s =
     (if list_head (nmq_list s) \<noteq> 0
      then Option.bind (NetworkManagement_queue_remove_element (list_head (nmq_list s)) RES_NAK s)
             NetworkManagement_queue_purge_all
      else Some s)"

partial_function (option) NetworkManagement_queue_purge_node :: "nodeid \<Rightarrow> nm_op_queue \<Rightarrow> nm_op_queue option" where
  "NetworkManagement_queue_purge_node n s =
     Option.bind (NetworkManagement_queue_find_element n s)
       (\<lambda>e. if e \<noteq> 0
             then Option.bind (NetworkManagement_queue_remove_element e RES_NAK s) (NetworkManagement_queue_purge_node n)
             else Some s)"

text \<open>
  \<^verbatim>\<open>NetworkManagement_queue_wakeup_event\<close> and \<^verbatim>\<open>NetworkManagement_queue_nm_done_event\<close>, which call each other when
  the command handler is done at once.
\<close>

partial_function (option) NetworkManagement_queue_wakeup_event ::
  "nm_env \<Rightarrow> nodeid \<Rightarrow> nm_op_queue \<Rightarrow> (bool \<times> nm_op_queue) option" where
  "NetworkManagement_queue_wakeup_event env n s =
     Option.bind (NetworkManagement_queue_find_element n s)
       (\<lambda>e. if e \<noteq> 0 \<and> (current_executing_node s = 0 \<or> current_executing_node s = n)
             then (let el = nmq_at s e; s = nm_do (Nm_command (nm_conn el) (nm_cmd el) (nm_cmd_len el)) s;
                       code = fst (nm_handler env (nmq_log s)); done_now = snd (nm_handler env (nmq_log s))
                   in Option.bind
                        (if done_now \<and> current_executing_node s \<noteq> 0
                         then Option.bind (NetworkManagement_queue_wakeup_event env (current_executing_node s) s)
                                (\<lambda>(r, t). if \<not> r then Some (nm_do (Mailbox_wakeup (current_executing_node s))
                                                             (t \<lparr> current_executing_node := 0 \<rparr>))
                                           else Some t)
                         else Some s)
                        (\<lambda>s. if code \<noteq> COMMAND_BUSY
                              then Option.bind (NetworkManagement_queue_remove_element e RES_ACK
                                                  (s \<lparr> current_executing_node := n \<rparr>))
                                     (\<lambda>s. Some (True, s))
                              else Some (False, s)))
             else Some (False, s))"

definition NetworkManagement_queue_nm_done_event :: "nm_env \<Rightarrow> nm_op_queue \<Rightarrow> nm_op_queue option" where
  "NetworkManagement_queue_nm_done_event env s =
     (if current_executing_node s \<noteq> 0
      then Option.bind (NetworkManagement_queue_wakeup_event env (current_executing_node s) s)
             (\<lambda>(r, t). if \<not> r then Some (nm_do (Mailbox_wakeup (current_executing_node s)) (t \<lparr> current_executing_node := 0 \<rparr>))
                        else Some t)
      else Some s)"

text \<open>
  The callback gets the address of a parameter of \<^verbatim>\<open>check_if_awake\<close>, which has returned by then: the number
  it reads is an argument here.
\<close>

definition check_if_awake_cb :: "nm_env \<Rightarrow> u8 \<Rightarrow> nodeid \<Rightarrow> nm_op_queue \<Rightarrow> nm_op_queue option" where
  "check_if_awake_cb env status n s =
     (if status = TRANSMIT_COMPLETE_OK
      then map_option snd (NetworkManagement_queue_wakeup_event env n s) else Some s)"

definition check_if_awake :: "nodeid \<Rightarrow> nm_op_queue \<Rightarrow> nm_op_queue" where
  "check_if_awake n s = nm_do (Send_nop n) s"

definition NetworkManagement_queue_if_target_is_mailbox ::
  "nm_env \<Rightarrow> zwave_connection_t \<Rightarrow> bytes \<Rightarrow> u8 \<Rightarrow> nm_op_queue \<Rightarrow> (bool \<times> nm_op_queue) option" where
  "NetworkManagement_queue_if_target_is_mailbox env c pCmd len s =
     (let target = NetworkManagement_GetTargetNode pCmd
      in if target \<noteq> 0 \<and> target \<noteq> 0xFF then
           if mb_active_node env = target then Some (False, s)
           else if nm_node_mode env target AND 0xFF = MODE_MAILBOX
           then NetworkManagement_queue_command c target pCmd len (check_if_awake target s)
           else Some (False, s)
         else Some (False, s))"

section \<open>The queue a state stands for\<close>

definition nm_inv :: "nm_op_queue \<Rightarrow> addr list \<Rightarrow> bool" where
  "nm_inv s xs \<longleftrightarrow> pool_list MAX_QUEUED_NM_OPS (nmq_list s) (nmq_next s) (nmq_memb s) xs"

definition for_dest :: "nm_op_queue \<Rightarrow> nodeid \<Rightarrow> addr \<Rightarrow> bool" where
  "for_dest s n e \<longleftrightarrow> destination_node (nmq_at s e) = n"

definition command_of :: "nm_op_queue \<Rightarrow> addr \<Rightarrow> nm_effect" where
  "command_of s e = Nm_command (nm_conn (nmq_at s e)) (nm_cmd (nmq_at s e)) (nm_cmd_len (nmq_at s e))"

definition ack_of :: "zwave_udp_response_t \<Rightarrow> nm_op_queue \<Rightarrow> addr \<Rightarrow> nm_effect" where
  "ack_of r s e = Udp_ack (nm_conn (nmq_at s e)) r"

lemma nm_do_simps [simp]:
  "nmq_list (nm_do e s) = nmq_list s" "nmq_next (nm_do e s) = nmq_next s" "nmq_at (nm_do e s) = nmq_at s"
  "nmq_memb (nm_do e s) = nmq_memb s" "current_executing_node (nm_do e s) = current_executing_node s"
  "nmq_log (nm_do e s) = nmq_log s @ [e]" "nm_inv (nm_do e s) xs = nm_inv s xs"
  by (simp_all add: nm_do_def nm_inv_def)

lemma nm_inv_current [simp]: "nm_inv (s \<lparr> current_executing_node := n \<rparr>) xs = nm_inv s xs"
  by (simp add: nm_inv_def)

lemma nm_nonnull: "nm_inv s xs \<Longrightarrow> 0 \<notin> set xs" and nm_distinct: "nm_inv s xs \<Longrightarrow> distinct xs"
  using pool_list_nonnull pool_list_distinct by (auto simp: nm_inv_def)

text \<open>Same commands in all records, apart from the timers.\<close>

definition same_cmds :: "nm_op_queue \<Rightarrow> nm_op_queue \<Rightarrow> bool" where
  "same_cmds s t \<longleftrightarrow> (\<forall>e. for_dest s = for_dest t \<and> command_of s e = command_of t e \<and> (\<forall>r. ack_of r s e = ack_of r t e))"

lemma same_cmds_refl [simp]: "same_cmds s s"
  by (simp add: same_cmds_def)

lemma same_cmds_trans: "same_cmds s t \<Longrightarrow> same_cmds t u \<Longrightarrow> same_cmds s u"
  by (auto simp: same_cmds_def)

lemma same_cmds_simps [simp]: "same_cmds s (nm_do x t) = same_cmds s t" "same_cmds (nm_do x s) t = same_cmds s t"
  "same_cmds s (t \<lparr> current_executing_node := n \<rparr>) = same_cmds s t" "same_cmds (s \<lparr> current_executing_node := n \<rparr>) t = same_cmds s t"
  by (simp_all add: same_cmds_def for_dest_def command_of_def ack_of_def fun_eq_iff)

lemma find_element:
  "nm_inv s xs \<Longrightarrow> NetworkManagement_queue_find_element n s = Some (first_or_null (filter (for_dest s n) xs))"
  using pool_list_find [of MAX_QUEUED_NM_OPS "nmq_list s" "nmq_next s" "nmq_memb s" xs "for_dest s n"]
  by (simp add: NetworkManagement_queue_find_element_def nm_inv_def for_dest_def [abs_def])

lemma remove_element:
  assumes "nm_inv s xs" and "e \<in> set xs"
  obtains t where "NetworkManagement_queue_remove_element e r s = Some t" "nm_inv t (remove1 e xs)"
    "nmq_log t = nmq_log s @ [ack_of r s e]" "same_cmds s t" "current_executing_node t = current_executing_node s"
proof -
  obtain h nxt where l: "list_remove (nmq_list s) e (nmq_next s) = Some (h, nxt)"
      "pool_list MAX_QUEUED_NM_OPS h nxt (snd (memb_free (nmq_memb s) e)) (remove1 e xs)"
    using pool_list_remove [OF assms(1) [unfolded nm_inv_def] assms(2)] by blast
  show ?thesis
    by (rule that, simp add: NetworkManagement_queue_remove_element_def l(1) Let_def)
      (use l in \<open>auto simp: nm_inv_def ack_of_def same_cmds_def for_dest_def command_of_def fun_eq_iff\<close>)
qed

lemma filter_remove1_first:
  assumes "filter P xs = y # ys" and "distinct xs"
  shows "filter P (remove1 y xs) = ys" "filter (\<lambda>x. \<not> P x) (remove1 y xs) = filter (\<lambda>x. \<not> P x) xs" "y \<in> set xs" "P y"
proof -
  have y: "y \<in> set xs" "P y" using assms(1) by (metis Cons_eq_filterD in_set_conv_decomp, metis Cons_eq_filterD)
  then show "y \<in> set xs" "P y" by blast+
  have "filter Q (remove1 y xs) = remove1 y (filter Q xs)" for Q by (simp add: filter_remove1)
  then show "filter P (remove1 y xs) = ys" "filter (\<lambda>x. \<not> P x) (remove1 y xs) = filter (\<lambda>x. \<not> P x) xs"
    using assms(1) y by (simp_all add: remove1_idem)
qed

text \<open>A sample queue: two commands for node 5, in the first two of the ten places.\<close>

definition sample_conn :: zwave_connection_t where
  "sample_conn = \<lparr> lipaddr = replicate 16 0, ripaddr = replicate 16 1, lport = 0, rport = 7, rendpoint = 0, lendpoint = 0,
     seq = 1, scheme = NO_SCHEME \<rparr>"

definition sample_nm_cmd :: bytes where "sample_nm_cmd = [0x34, 0x0B, 1, 5, 0, 0, 0]"

definition sample_nm_env :: nm_env where
  "sample_nm_env = \<lparr> mb_active_node = 0, nm_node_mode = (\<lambda>_. MODE_MAILBOX), nm_handler = (\<lambda>_. (COMMAND_HANDLED, False)) \<rparr>"

definition sample_nmq :: nm_op_queue where
  "sample_nmq = \<lparr> nmq_list = 1, nmq_next = (\<lambda>_. 0)(1 := 2),
     nmq_at = (\<lambda>_. \<lparr> destination_node = 5, nm_conn = sample_conn, nm_cmd = sample_nm_cmd, nm_cmd_len = 7, nak_waiting = None \<rparr>),
     nmq_memb = [1, 1, 0, 0, 0, 0, 0, 0, 0, 0], current_executing_node = 0, nmq_log = [] \<rparr>"

lemma nm_inv_sample: "nm_inv sample_nmq [1, 2]"
proof -
  have "p \<in> used_blocks [1, 1, 0, 0, 0, 0, 0, 0, 0, 0] \<longleftrightarrow> p = 1 \<or> p = 2" for p
    by (cases p; cases "p - 1"; cases "p - 2") (auto simp: used_blocks_def nth_Cons' split: if_splits)
  then have "used_blocks [1, 1, 0, 0, 0, 0, 0, 0, 0, 0] = {1, 2}" by blast
  then show ?thesis
    by (simp add: nm_inv_def pool_list_def sample_nmq_def is_list_def memb_ok_def MAX_QUEUED_NM_OPS_def)
qed

lemma sample_nm_simps [simp]: "for_dest sample_nmq n e \<longleftrightarrow> n = 5" "nmq_log sample_nmq = []" "current_executing_node sample_nmq = 0"
  "command_of sample_nmq e = Nm_command sample_conn sample_nm_cmd 7" "ack_of r sample_nmq e = Udp_ack sample_conn r"
  by (auto simp: for_dest_def command_of_def ack_of_def sample_nmq_def)

section \<open>Queueing\<close>

text \<open>
  A network management command is queued exactly when it names a node other than 0 and 255 that sleeps, is not
  being served by the mailbox, and one of the ten places is free.  It then becomes the last command of the queue,
  unchanged and with its connection, the sender is told to wait, and the commands before it stay as they are.
  Otherwise the queue does not change and the caller runs the command itself.
\<close>

theorem nm_command_queued:
  assumes "nm_inv s xs" and "n = NetworkManagement_GetTargetNode pCmd"
    and "sleeps \<longleftrightarrow> n \<noteq> 0 \<and> n \<noteq> 0xFF \<and> mb_active_node env \<noteq> n \<and> nm_node_mode env n AND 0xFF = MODE_MAILBOX"
  shows "\<exists>t. NetworkManagement_queue_if_target_is_mailbox env c pCmd len s = Some (sleeps \<and> length xs < MAX_QUEUED_NM_OPS, t)
    \<and> (if sleeps \<and> length xs < MAX_QUEUED_NM_OPS
       then \<exists>e. nm_inv t (xs @ [e]) \<and> command_of t e = Nm_command c pCmd len \<and> for_dest t n e
              \<and> (\<forall>x. x = e \<or> nmq_at t x = nmq_at s x) \<and> nmq_log t = nmq_log s @ [Send_nop n, Udp_ack c RES_WAITNG]
       else nm_inv t xs \<and> nmq_at t = nmq_at s)"
proof (cases "sleeps \<and> length xs < MAX_QUEUED_NM_OPS")
  case True
  have inv: "pool_list MAX_QUEUED_NM_OPS (nmq_list s) (nmq_next s) (nmq_memb s) xs" using assms(1) by (simp add: nm_inv_def)
  have l: "length xs < MAX_QUEUED_NM_OPS" using True by simp
  show ?thesis
    by (rule pool_list_append [OF inv l])
      (use True assms(2,3) in \<open>auto simp: NetworkManagement_queue_if_target_is_mailbox_def NetworkManagement_queue_command_def
        check_if_awake_def nm_inv_def command_of_def for_dest_def Let_def\<close>)
next
  case False
  have "pool_list MAX_QUEUED_NM_OPS (nmq_list s) (nmq_next s) (nmq_memb s) xs" using assms(1) by (simp add: nm_inv_def)
  then show ?thesis
    using False assms pool_list_full
    by (auto simp: NetworkManagement_queue_if_target_is_mailbox_def NetworkManagement_queue_command_def check_if_awake_def Let_def)
qed

theorem nm_command_queued_witness:
  "\<exists>t e. NetworkManagement_queue_if_target_is_mailbox sample_nm_env sample_conn sample_nm_cmd 7 sample_nmq = Some (True, t)
    \<and> nm_inv t [1, 2, e] \<and> nmq_log t = [Send_nop 5, Udp_ack sample_conn RES_WAITNG]"
proof -
  have n: "5 = NetworkManagement_GetTargetNode sample_nm_cmd"
    by (simp add: NetworkManagement_GetTargetNode_def sample_nm_cmd_def)
  have m: "mb_active_node sample_nm_env = 0" "nm_node_mode sample_nm_env 5 AND 0xFF = MODE_MAILBOX"
    by (simp_all add: sample_nm_env_def MODE_MAILBOX_def)
  show ?thesis
    using nm_command_queued [OF nm_inv_sample n, of True sample_nm_env sample_conn 7] m by (auto simp: MAX_QUEUED_NM_OPS_def)
qed

section \<open>Purging\<close>

lemma purge_node:
  assumes "nm_inv s xs"
  shows "\<exists>t. NetworkManagement_queue_purge_node n s = Some t \<and> nm_inv t (filter (\<lambda>e. \<not> for_dest s n e) xs)
    \<and> nmq_log t = nmq_log s @ map (ack_of RES_NAK s) (filter (for_dest s n) xs)"
  using assms
proof (induction "filter (for_dest s n) xs" arbitrary: s xs)
  case Nil
  then have none: "filter (for_dest s n) xs = []" by simp
  then have "filter (\<lambda>e. \<not> for_dest s n e) xs = xs" by (auto simp: filter_id_conv filter_empty_conv)
  then show ?case
    using Nil.prems find_element [OF Nil.prems, of n] none
    by (simp add: NetworkManagement_queue_purge_node.simps [of n s] first_or_null_def)
next
  case (Cons e es)
  note f = filter_remove1_first [OF Cons.hyps(2) [symmetric] nm_distinct [OF Cons.prems]]
  have e0: "e \<noteq> 0" using nm_nonnull [OF Cons.prems] f(3) by metis
  obtain t where t: "NetworkManagement_queue_remove_element e RES_NAK s = Some t" "nm_inv t (remove1 e xs)"
      "nmq_log t = nmq_log s @ [ack_of RES_NAK s e]" "same_cmds s t"
    by (rule remove_element [OF Cons.prems f(3)])
  have sc: "for_dest t = for_dest s" "ack_of RES_NAK t = ack_of RES_NAK s" using t(4) by (auto simp: same_cmds_def fun_eq_iff)
  have "NetworkManagement_queue_purge_node n s = NetworkManagement_queue_purge_node n t"
    using find_element [OF Cons.prems, of n] Cons.hyps(2) [symmetric] e0 t(1)
    by (simp add: NetworkManagement_queue_purge_node.simps [of n s] first_or_null_def)
  then show ?case using Cons.hyps(1) [of t "remove1 e xs"] t f sc Cons.hyps(2) [symmetric] by auto
qed

lemma purge_all:
  assumes "nm_inv s xs"
  shows "\<exists>t. NetworkManagement_queue_purge_all s = Some t \<and> nm_inv t [] \<and> nmq_log t = nmq_log s @ map (ack_of RES_NAK s) xs"
  using assms
proof (induction xs arbitrary: s)
  case Nil
  then have "list_head (nmq_list s) = 0"
    using pool_list_head [of MAX_QUEUED_NM_OPS "nmq_list s" "nmq_next s" "nmq_memb s" "[]"] by (simp add: nm_inv_def first_or_null_def)
  then show ?case using Nil by (simp add: NetworkManagement_queue_purge_all.simps [of s])
next
  case (Cons e xs)
  have h: "list_head (nmq_list s) = e" "e \<noteq> 0"
    using pool_list_head [of MAX_QUEUED_NM_OPS "nmq_list s" "nmq_next s" "nmq_memb s" "e # xs"] nm_nonnull [OF Cons.prems] Cons.prems
    by (auto simp: nm_inv_def first_or_null_def)
  obtain t where t: "NetworkManagement_queue_remove_element e RES_NAK s = Some t" "nm_inv t xs"
      "nmq_log t = nmq_log s @ [ack_of RES_NAK s e]" "same_cmds s t"
    using remove_element [OF Cons.prems, of e RES_NAK] by auto
  have "ack_of RES_NAK t = ack_of RES_NAK s" using t(4) by (auto simp: same_cmds_def fun_eq_iff)
  then show ?case
    using Cons.IH [OF t(2)] t h by (auto simp: NetworkManagement_queue_purge_all.simps [of s])
qed

text \<open>
  Purging a node removes its commands and no others, and sends each of their senders a negative acknowledgement, in
  the order of the queue; purging all empties the queue in the same way.  Both loops end.
\<close>

theorem nm_queue_purged:
  assumes "nm_inv s xs"
  shows "\<exists>t u. NetworkManagement_queue_purge_node n s = Some t \<and> nm_inv t (filter (\<lambda>e. \<not> for_dest s n e) xs)
    \<and> nmq_log t = nmq_log s @ map (ack_of RES_NAK s) (filter (for_dest s n) xs)
    \<and> NetworkManagement_queue_purge_all s = Some u \<and> nm_inv u [] \<and> nmq_log u = nmq_log s @ map (ack_of RES_NAK s) xs"
  using purge_node [OF assms] purge_all [OF assms] by blast

theorem nm_queue_purged_witness:
  "\<exists>t. NetworkManagement_queue_purge_node 5 sample_nmq = Some t \<and> nm_inv t []
    \<and> nmq_log t = [Udp_ack sample_conn RES_NAK, Udp_ack sample_conn RES_NAK]"
  using nm_queue_purged [OF nm_inv_sample, of 5] by auto

section \<open>Running the commands of a node\<close>

text \<open>A command handler that takes every command and is done later.\<close>

definition willing :: "nm_env \<Rightarrow> bool" where
  "willing env \<longleftrightarrow> (\<forall>l. fst (nm_handler env l) \<noteq> COMMAND_BUSY \<and> \<not> snd (nm_handler env l))"

lemma wakeup_runs_first:
  assumes "willing env" and "nm_inv s xs" and "filter (for_dest s n) xs = e # es"
    and "current_executing_node s = 0 \<or> current_executing_node s = n"
  obtains t where "NetworkManagement_queue_wakeup_event env n s = Some (True, t)" "nm_inv t (remove1 e xs)"
    "nmq_log t = nmq_log s @ [command_of s e, ack_of RES_ACK s e]" "same_cmds s t" "current_executing_node t = n"
proof -
  note f = filter_remove1_first [OF assms(3) nm_distinct [OF assms(2)]]
  have e0: "e \<noteq> 0" using nm_nonnull [OF assms(2)] f(3) by metis
  let ?u = "nm_do (command_of s e) s \<lparr> current_executing_node := n \<rparr>"
  have "nm_inv ?u xs" using assms(2) by simp
  then obtain t where t: "NetworkManagement_queue_remove_element e RES_ACK ?u = Some t" "nm_inv t (remove1 e xs)"
      "nmq_log t = nmq_log ?u @ [ack_of RES_ACK ?u e]" "same_cmds ?u t" "current_executing_node t = current_executing_node ?u"
    using remove_element f(3) by metis
  have "NetworkManagement_queue_wakeup_event env n s = Some (True, t)"
    using find_element [OF assms(2), of n] assms(1,3,4) e0 t(1)
    by (simp add: NetworkManagement_queue_wakeup_event.simps [of env n s] first_or_null_def willing_def command_of_def Let_def)
  then show ?thesis using that t by (simp add: ack_of_def)
qed

lemma wakeup_nothing:
  assumes "nm_inv s xs" and "filter (for_dest s n) xs = []"
  shows "NetworkManagement_queue_wakeup_event env n s = Some (False, s)"
  using find_element [OF assms(1), of n] assms(2)
  by (simp add: NetworkManagement_queue_wakeup_event.simps [of env n s] first_or_null_def)

fun nm_done_events :: "nm_env \<Rightarrow> nat \<Rightarrow> nm_op_queue \<Rightarrow> nm_op_queue option" where
  "nm_done_events env 0 s = Some s"
| "nm_done_events env (Suc k) s = Option.bind (NetworkManagement_queue_nm_done_event env s) (nm_done_events env k)"

definition run_of :: "nm_op_queue \<Rightarrow> addr \<Rightarrow> nm_effect list" where
  "run_of s e = [command_of s e, ack_of RES_ACK s e]"

lemma done_events_run_all:
  assumes "willing env" and "nm_inv s xs" and "current_executing_node s = n" and "n \<noteq> 0"
  shows "\<exists>t. nm_done_events env (Suc (length (filter (for_dest s n) xs))) s = Some t
    \<and> nm_inv t (filter (\<lambda>e. \<not> for_dest s n e) xs) \<and> current_executing_node t = 0
    \<and> nmq_log t = nmq_log s @ concat (map (run_of s) (filter (for_dest s n) xs)) @ [Mailbox_wakeup n]"
  using assms(2,3)
proof (induction "filter (for_dest s n) xs" arbitrary: s xs)
  case Nil
  then have none: "filter (for_dest s n) xs = []" by simp
  then have "filter (\<lambda>e. \<not> for_dest s n e) xs = xs" by (auto simp: filter_id_conv filter_empty_conv)
  then show ?case
    using Nil.prems wakeup_nothing [OF Nil.prems(1) none, of env] none assms(4)
    by (simp add: NetworkManagement_queue_nm_done_event_def)
next
  case (Cons e es)
  note f = filter_remove1_first [OF Cons.hyps(2) [symmetric] nm_distinct [OF Cons.prems(1)]]
  obtain t where t: "NetworkManagement_queue_wakeup_event env n s = Some (True, t)" "nm_inv t (remove1 e xs)"
    "nmq_log t = nmq_log s @ [command_of s e, ack_of RES_ACK s e]" "same_cmds s t" "current_executing_node t = n"
    by (rule wakeup_runs_first [OF assms(1) Cons.prems(1) Cons.hyps(2) [symmetric]]) (use Cons.prems(2) in auto)
  have sc: "for_dest t = for_dest s" "run_of t = run_of s" using t(4) by (auto simp: same_cmds_def run_of_def fun_eq_iff)
  have "NetworkManagement_queue_nm_done_event env s = Some t"
    using t(1) Cons.prems(2) assms(4) by (simp add: NetworkManagement_queue_nm_done_event_def)
  then show ?case
    using Cons.hyps(1) [of t "remove1 e xs"] Cons.hyps(2) [symmetric] t f sc by (auto simp: run_of_def)
qed

lemma wakeup_busy:
  assumes "nm_inv s xs" and "filter (for_dest s n) xs = e # es" and "current_executing_node s = 0 \<or> current_executing_node s = n"
    and "nm_handler env (nmq_log s @ [command_of s e]) = (COMMAND_BUSY, False)"
  shows "NetworkManagement_queue_wakeup_event env n s = Some (False, nm_do (command_of s e) s)"
proof -
  have e0: "e \<noteq> 0" using nm_nonnull [OF assms(1)] filter_remove1_first(3) [OF assms(2) nm_distinct [OF assms(1)]] by metis
  show ?thesis using find_element [OF assms(1), of n] assms(2-4) e0
    by (subst NetworkManagement_queue_wakeup_event.simps) (simp add: first_or_null_def Let_def command_of_def)
qed

text \<open>
  C36.  When a node with queued commands wakes up, no other node being served, and network management is never busy and never done with a command before its handler
  returns, then its commands are given to network management one after the other, each
  when the one before is done, in the order in which they were queued; each sender gets one final
  acknowledgement.  After the last one the mailbox is told that the node is awake, and the commands for other nodes
  are untouched.  When network management is busy with something else at the wake-up, all commands stay in the queue, unacknowledged.
  A command that is done before its handler returns can be run twice: \<open>nm_done_at_once_runs_twice\<close>.
\<close>

theorem nm_queue_runs_commands:
  assumes "nm_inv s xs" and "current_executing_node s = 0" and "n \<noteq> 0" and "filter (for_dest s n) xs = e # es"
  shows "(willing env \<longrightarrow> (\<exists>t u. NetworkManagement_queue_wakeup_event env n s = Some (True, t)
        \<and> nm_done_events env (length (e # es)) t = Some u
        \<and> nm_inv u (filter (\<lambda>e. \<not> for_dest s n e) xs) \<and> current_executing_node u = 0
        \<and> nmq_log u = nmq_log s @ concat (map (run_of s) (e # es)) @ [Mailbox_wakeup n]))
    \<and> (nm_handler env (nmq_log s @ [command_of s e]) = (COMMAND_BUSY, False) \<longrightarrow>
        (\<exists>t. NetworkManagement_queue_wakeup_event env n s = Some (False, t) \<and> nm_inv t xs \<and> same_cmds s t \<and> current_executing_node t = 0
           \<and> nmq_log t = nmq_log s @ [command_of s e]))"
proof (intro conjI impI)
  assume w: "willing env"
  note f = filter_remove1_first [OF assms(4) nm_distinct [OF assms(1)]]
  obtain t where t: "NetworkManagement_queue_wakeup_event env n s = Some (True, t)" "nm_inv t (remove1 e xs)"
    "nmq_log t = nmq_log s @ [command_of s e, ack_of RES_ACK s e]" "same_cmds s t" "current_executing_node t = n"
    by (rule wakeup_runs_first [OF w assms(1,4)]) (use assms(2) in auto)
  have sc: "for_dest t = for_dest s" "run_of t = run_of s" using t(4) by (auto simp: same_cmds_def run_of_def fun_eq_iff)
  show "\<exists>t u. NetworkManagement_queue_wakeup_event env n s = Some (True, t)
        \<and> nm_done_events env (length (e # es)) t = Some u
        \<and> nm_inv u (filter (\<lambda>e. \<not> for_dest s n e) xs) \<and> current_executing_node u = 0
        \<and> nmq_log u = nmq_log s @ concat (map (run_of s) (e # es)) @ [Mailbox_wakeup n]"
    using done_events_run_all [OF w t(2,5) assms(3)] t(1,3) f sc by (auto simp: run_of_def)
next
  assume "nm_handler env (nmq_log s @ [command_of s e]) = (COMMAND_BUSY, False)"
  then show "\<exists>t. NetworkManagement_queue_wakeup_event env n s = Some (False, t) \<and> nm_inv t xs \<and> same_cmds s t \<and> current_executing_node t = 0
           \<and> nmq_log t = nmq_log s @ [command_of s e]"
    using wakeup_busy [OF assms(1,4)] assms(1,2) by simp
qed

theorem nm_queue_runs_commands_witness:
  "(\<exists>t u. NetworkManagement_queue_wakeup_event sample_nm_env 5 sample_nmq = Some (True, t)
     \<and> nm_done_events sample_nm_env 2 t = Some u \<and> nm_inv u []
     \<and> nmq_log u = [Nm_command sample_conn sample_nm_cmd 7, Udp_ack sample_conn RES_ACK,
                   Nm_command sample_conn sample_nm_cmd 7, Udp_ack sample_conn RES_ACK, Mailbox_wakeup 5])
   \<and> (\<exists>t. NetworkManagement_queue_wakeup_event (sample_nm_env \<lparr> nm_handler := (\<lambda>_. (COMMAND_BUSY, False)) \<rparr>) 5 sample_nmq = Some (False, t) \<and> nm_inv t [1, 2])"
proof -
  have w: "willing sample_nm_env" "(5 :: nodeid) \<noteq> 0" "filter (for_dest sample_nmq 5) [1, 2] = 1 # [2]"
    by (simp_all add: willing_def sample_nm_env_def)
  have two: "nm_done_events sample_nm_env 2 = nm_done_events sample_nm_env (length [1, 2 :: addr])"
    by (simp add: numeral_2_eq_2)
  note c = nm_queue_runs_commands [OF nm_inv_sample _ w(2,3)]
  have "\<exists>t u. NetworkManagement_queue_wakeup_event sample_nm_env 5 sample_nmq = Some (True, t)
     \<and> nm_done_events sample_nm_env (length [1, 2 :: addr]) t = Some u \<and> nm_inv u []
     \<and> nmq_log u = [Nm_command sample_conn sample_nm_cmd 7, Udp_ack sample_conn RES_ACK,
                   Nm_command sample_conn sample_nm_cmd 7, Udp_ack sample_conn RES_ACK, Mailbox_wakeup 5]"
    using c [of sample_nm_env] w(1) by (simp add: run_of_def) blast
  moreover have "\<exists>t. NetworkManagement_queue_wakeup_event (sample_nm_env \<lparr> nm_handler := (\<lambda>_. (COMMAND_BUSY, False)) \<rparr>) 5 sample_nmq = Some (False, t) \<and> nm_inv t [1, 2]"
    using c [of "sample_nm_env \<lparr> nm_handler := (\<lambda>_. (COMMAND_BUSY, False)) \<rparr>"] by auto
  ultimately show ?thesis unfolding two by blast
qed

section \<open>A handler that is done at once\<close>

lemma remove_absent_element:
  assumes "nm_inv s xs" and "e \<notin> set xs"
  obtains t where "NetworkManagement_queue_remove_element e r s = Some t" "nm_inv t xs"
    "nmq_log t = nmq_log s @ [ack_of r s e]"
proof -
  obtain h nxt where l: "list_remove (nmq_list s) e (nmq_next s) = Some (h, nxt)"
      "pool_list MAX_QUEUED_NM_OPS h nxt (snd (memb_free (nmq_memb s) e)) xs"
    using pool_list_remove_absent [OF assms(1) [unfolded nm_inv_def] assms(2)] by blast
  show ?thesis
    by (rule that, simp add: NetworkManagement_queue_remove_element_def l(1) Let_def)
      (use l in \<open>auto simp: nm_inv_def ack_of_def\<close>)
qed

text \<open>
  A command is run twice when network management is done with it before its handler returns, while the node is
  already being served: the report looks for the next command of the node, and the one that is being handled is still
  at the front of the queue.  Its sender gets two acknowledgements.
\<close>

theorem nm_done_at_once_runs_twice:
  assumes "nm_inv s xs" and "filter (for_dest s n) xs = e # es" and "current_executing_node s = n" and "n \<noteq> 0"
    and "nm_handler env (nmq_log s @ [command_of s e]) = (COMMAND_HANDLED, True)"
    and "nm_handler env (nmq_log s @ [command_of s e, command_of s e]) = (COMMAND_HANDLED, False)"
  shows "\<exists>t. NetworkManagement_queue_wakeup_event env n s = Some (True, t) \<and> nm_inv t (remove1 e xs)
    \<and> nmq_log t = nmq_log s @ [command_of s e, command_of s e, ack_of RES_ACK s e, ack_of RES_ACK s e]"
proof -
  note f = filter_remove1_first [OF assms(2) nm_distinct [OF assms(1)]]
  have e0: "e \<noteq> 0" using nm_nonnull [OF assms(1)] f(3) by metis
  let ?s1 = "nm_do (command_of s e) s" and ?s2 = "nm_do (command_of s e) (nm_do (command_of s e) s) \<lparr> current_executing_node := n \<rparr>"
  have inv: "nm_inv ?s1 xs" "nm_inv ?s2 xs" using assms(1) by simp_all
  have fd: "for_dest ?s1 = for_dest s" "command_of ?s1 e = command_of s e" "ack_of r ?s2 e = ack_of r s e" for r
    by (simp_all add: for_dest_def command_of_def ack_of_def fun_eq_iff)
  obtain t where t: "NetworkManagement_queue_remove_element e RES_ACK ?s2 = Some t" "nm_inv t (remove1 e xs)"
      "nmq_log t = nmq_log ?s2 @ [ack_of RES_ACK ?s2 e]" "same_cmds ?s2 t" "current_executing_node t = current_executing_node ?s2"
    by (rule remove_element [OF inv(2) f(3)])
  have inner: "NetworkManagement_queue_wakeup_event env n ?s1 = Some (True, t)"
    using find_element [OF inv(1), of n] assms(2,3,6) e0 t(1) fd
    by (subst NetworkManagement_queue_wakeup_event.simps) (simp add: first_or_null_def Let_def command_of_def)
  let ?t = "t \<lparr> current_executing_node := n \<rparr>"
  have "e \<notin> set (remove1 e xs)" "nm_inv ?t (remove1 e xs)" using nm_distinct [OF assms(1)] t(2) by simp_all
  then obtain u where u: "NetworkManagement_queue_remove_element e RES_ACK ?t = Some u" "nm_inv u (remove1 e xs)"
      "nmq_log u = nmq_log ?t @ [ack_of RES_ACK ?t e]" using remove_absent_element by metis
  have at: "ack_of RES_ACK ?t e = ack_of RES_ACK s e" using t(4) fd(3) [of RES_ACK] by (simp add: same_cmds_def ack_of_def)
  have "NetworkManagement_queue_wakeup_event env n s = Some (True, u)"
    using find_element [OF assms(1), of n] assms(2-5) e0 inner u(1)
    by (subst NetworkManagement_queue_wakeup_event.simps) (simp add: first_or_null_def Let_def command_of_def)
  then show ?thesis using u t(3) at fd(3) by auto
qed

definition hasty_nm_env :: nm_env where
  "hasty_nm_env = sample_nm_env \<lparr> nm_handler := (\<lambda>l. (COMMAND_HANDLED, length l = 1)) \<rparr>"

theorem nm_done_at_once_runs_twice_witness:
  "\<exists>t. NetworkManagement_queue_wakeup_event hasty_nm_env 5 (sample_nmq \<lparr> current_executing_node := 5 \<rparr>) = Some (True, t)
    \<and> nm_inv t [2] \<and> nmq_log t = [Nm_command sample_conn sample_nm_cmd 7, Nm_command sample_conn sample_nm_cmd 7,
         Udp_ack sample_conn RES_ACK, Udp_ack sample_conn RES_ACK]"
proof -
  let ?s = "sample_nmq \<lparr> current_executing_node := 5 \<rparr>"
  have "nm_inv ?s [1, 2]" "filter (for_dest ?s 5) [1, 2] = 1 # [2]" "nmq_log ?s = []"
    using nm_inv_sample by simp_all (simp_all add: for_dest_def sample_nmq_def)
  moreover have "command_of ?s e = Nm_command sample_conn sample_nm_cmd 7" "ack_of r ?s e = Udp_ack sample_conn r" for e r
    by (simp_all add: command_of_def ack_of_def sample_nmq_def)
  ultimately show ?thesis
    using nm_done_at_once_runs_twice [of ?s "[1, 2]" 5 1 "[2]" hasty_nm_env] by (simp add: hasty_nm_env_def)
qed

end
