(* ===== verification/Ts_Param.thy ===== *)
theory Ts_Param
  imports Crc Nodemask Command_Handler
begin

text \<open>
  Transmission parameters and the choice of an encapsulation (the first half of
  \<^verbatim>\<open>src/transport/ZW_SendDataAppl.c\<close>): the structure \<^verbatim>\<open>ts_param_t\<close>, the security scheme for a frame, and the two
  encapsulations the gateway adds itself, for end points and with a checksum.  The receiver's side of the checksum is
  the branch for \<^verbatim>\<open>COMMAND_CLASS_CRC_16_ENCAP\<close> of \<^verbatim>\<open>ApplicationCommandHandlerZIP\<close> (\<^verbatim>\<open>src/ZIP_Router.c\<close>).

  What is known about the nodes (the flags of the node cache, the supported command classes) is a parameter.
\<close>

unbundle bit_operations_syntax

section \<open>Parameters\<close>

record ts_param_t =
  snode :: nodeid
  dnode :: nodeid
  sendpoint :: u8
  dendpoint :: u8
  tx_flags :: u8
  rx_flags :: u8
  ts_scheme :: security_scheme_t
  node_list :: nodemask_t
  is_mcast_with_folloup :: bool
  force_verify_delivery :: bool
  is_multicommand :: bool
  discard_timeout :: u16

record ts_env =
  my_node :: nodeid
  GetCacheEntryFlag :: "nodeid \<Rightarrow> u8"
  SupportsCmdClass :: "nodeid \<Rightarrow> u16 \<Rightarrow> bool"

definition TRANSMIT_OPTION_ACK :: u8 where "TRANSMIT_OPTION_ACK = 0x01"
definition TRANSMIT_OPTION_LOW_POWER :: u8 where "TRANSMIT_OPTION_LOW_POWER = 0x02"
definition TRANSMIT_OPTION_AUTO_ROUTE :: u8 where "TRANSMIT_OPTION_AUTO_ROUTE = 0x04"
definition TRANSMIT_OPTION_EXPLORE :: u8 where "TRANSMIT_OPTION_EXPLORE = 0x20"
definition TRANSMIT_OPTION_MULTICAST :: u8 where "TRANSMIT_OPTION_MULTICAST = 0x40"
definition RECEIVE_STATUS_LOW_POWER :: u8 where "RECEIVE_STATUS_LOW_POWER = 0x02"

definition NODE_FLAG_SECURITY0 :: u8 where "NODE_FLAG_SECURITY0 = 0x01"
definition NODE_FLAG_KNOWN_BAD :: u8 where "NODE_FLAG_KNOWN_BAD = 0x02"
definition NODE_FLAG_SECURITY2_UNAUTHENTICATED :: u8 where "NODE_FLAG_SECURITY2_UNAUTHENTICATED = 0x10"
definition NODE_FLAG_SECURITY2_AUTHENTICATED :: u8 where "NODE_FLAG_SECURITY2_AUTHENTICATED = 0x20"
definition NODE_FLAG_SECURITY2_ACCESS :: u8 where "NODE_FLAG_SECURITY2_ACCESS = 0x40"

lemmas node_flag_defs = NODE_FLAG_SECURITY0_def NODE_FLAG_KNOWN_BAD_def NODE_FLAG_SECURITY2_UNAUTHENTICATED_def
  NODE_FLAG_SECURITY2_AUTHENTICATED_def NODE_FLAG_SECURITY2_ACCESS_def

definition ts_set_std :: "'e ts_env_scheme \<Rightarrow> nodeid \<Rightarrow> ts_param_t \<Rightarrow> ts_param_t" where
  "ts_set_std env dst p = p \<lparr> dendpoint := 0, sendpoint := 0, snode := my_node env, dnode := dst,
     node_list := nodemask_clear, rx_flags := 0,
     tx_flags := TRANSMIT_OPTION_ACK OR TRANSMIT_OPTION_AUTO_ROUTE OR TRANSMIT_OPTION_EXPLORE,
     ts_scheme := AUTO_SCHEME, discard_timeout := 0, force_verify_delivery := False,
     is_mcast_with_folloup := False, is_multicommand := False \<rparr>"

definition highest_scheme :: "u8 \<Rightarrow> security_scheme_t" where
  "highest_scheme scheme_mask =
     (if scheme_mask AND NODE_FLAG_SECURITY2_ACCESS \<noteq> 0 then SECURITY_SCHEME_2_ACCESS
      else if scheme_mask AND NODE_FLAG_SECURITY2_AUTHENTICATED \<noteq> 0 then SECURITY_SCHEME_2_AUTHENTICATED
      else if scheme_mask AND NODE_FLAG_SECURITY2_UNAUTHENTICATED \<noteq> 0 then SECURITY_SCHEME_2_UNAUTHENTICATED
      else if scheme_mask AND NODE_FLAG_SECURITY0 \<noteq> 0 then SECURITY_SCHEME_0
      else NO_SCHEME)"

text \<open>The length is a byte in this function.  A scheme the destination lacks is only warned about.\<close>

definition ZW_SendData_scheme_select :: "'e ts_env_scheme \<Rightarrow> ts_param_t \<Rightarrow> u8 \<Rightarrow> security_scheme_t" where
  "ZW_SendData_scheme_select env param len =
     (let dst_scheme_mask = GetCacheEntryFlag env (dnode param);
          src_scheme_mask = GetCacheEntryFlag env (my_node env);
          dst_highest_scheme = highest_scheme dst_scheme_mask
      in if len < 2 \<or> dst_scheme_mask AND NODE_FLAG_KNOWN_BAD \<noteq> 0 \<or> src_scheme_mask AND NODE_FLAG_KNOWN_BAD \<noteq> 0 then
           (if ts_scheme param = USE_CRC16 \<and> SupportsCmdClass env (dnode param) 0x56 \<and> dst_highest_scheme = NO_SCHEME
            then USE_CRC16 else NO_SCHEME)
         else
           (let common = dst_scheme_mask AND src_scheme_mask
            in (case ts_scheme param of
                  AUTO_SCHEME \<Rightarrow>
                    (let scheme = highest_scheme common
                     in if scheme = NO_SCHEME \<and> SupportsCmdClass env (dnode param) 0x56 then USE_CRC16 else scheme)
                | NO_SCHEME \<Rightarrow> NO_SCHEME
                | USE_CRC16 \<Rightarrow> USE_CRC16
                | s \<Rightarrow> s)))"

definition ts_param_make_reply :: "'e ts_env_scheme \<Rightarrow> ts_param_t \<Rightarrow> ts_param_t \<Rightarrow> ts_param_t" where
  "ts_param_make_reply env dst src =
     dst \<lparr> snode := dnode src, dnode := snode src, sendpoint := dendpoint src, dendpoint := sendpoint src,
       ts_scheme := ZW_SendData_scheme_select env src 2, discard_timeout := 0,
       tx_flags := (if rx_flags src AND RECEIVE_STATUS_LOW_POWER \<noteq> 0 then TRANSMIT_OPTION_LOW_POWER else 0)
         OR TRANSMIT_OPTION_ACK OR TRANSMIT_OPTION_EXPLORE OR TRANSMIT_OPTION_AUTO_ROUTE \<rparr>"

definition ts_param_cmp :: "ts_param_t \<Rightarrow> ts_param_t \<Rightarrow> bool" where
  "ts_param_cmp a1 a2 \<longleftrightarrow> snode a1 = snode a2 \<and> dnode a1 = dnode a2
     \<and> sendpoint a1 = sendpoint a2 \<and> dendpoint a1 = dendpoint a2"

section \<open>Encapsulation\<close>

text \<open>The frame for an end point: four bytes in front.\<close>

definition endpoint_encap :: "ts_param_t \<Rightarrow> bytes \<Rightarrow> bytes" where
  "endpoint_encap p frame =
     (if dendpoint p \<noteq> 0 \<or> sendpoint p \<noteq> 0 then [0x60, 0x0D, sendpoint p, dendpoint p] @ frame else frame)"

definition META_DATA_MAX_DATA_SIZE :: nat where "META_DATA_MAX_DATA_SIZE = 48"

text \<open>
  The case \<^verbatim>\<open>USE_CRC16\<close> of \<^verbatim>\<open>send_endpoint\<close>, on the contents of \<^verbatim>\<open>new_buf\<close> and the length of the frame in it.
\<close>

definition crc16_encap :: "bytes \<Rightarrow> nat \<Rightarrow> bytes" where
  "crc16_encap new_buf new_len =
     (let frame = take new_len new_buf
      in if new_len < META_DATA_MAX_DATA_SIZE \<and> new_buf ! 0 \<notin> {0x55, 0x98, 0x9F, 0x56}
         then (let f = [0x56, 0x01] @ frame; crc = zgw_crc16 CRC_INIT_VALUE f
               in f @ [ucast (drop_bit 8 crc AND 0xFF), ucast (crc AND 0xFF)])
         else frame)"

text \<open>
  The receiver.  The result is the scheme, the command and the length with which the handler calls itself,
  \<open>None\<close> when the frame is dropped; the length is a 16-bit difference.
\<close>

definition crc16_decap :: "security_scheme_t \<Rightarrow> bytes \<Rightarrow> u16 \<Rightarrow> (security_scheme_t \<times> bytes \<times> u16) option" where
  "crc16_decap scheme pCmd cmdLength =
     (if pCmd ! 1 \<noteq> 0x01 then None
      else if scheme \<noteq> NO_SCHEME then None
      else if zgw_crc16 CRC_INIT_VALUE (take (unat cmdLength) pCmd) = 0 then Some (USE_CRC16, drop 2 pCmd, cmdLength - 4)
      else None)"

section \<open>The checksum of a checksummed frame\<close>

lemma u16_of_nat: "k < 65536 \<Longrightarrow> unat (of_nat k :: u16) = k"
  by (simp add: unat_of_nat take_bit_nat_eq_self)

lemma crc_shift_in_own: "crc_shift_in (bit c 15) c = push_bit 1 c"
  by (simp add: crc_shift_in_def)

lemma crc_run_own_bits:
  "k \<le> 16 \<Longrightarrow> crc_run (map (\<lambda>i. bit c (15 - i)) [0..<k]) c = push_bit k (c :: u16)"
proof (induction k)
  case (Suc k)
  have b: "bit c (15 - k) = bit (push_bit k c) 15" using Suc.prems by (simp add: bit_push_bit_iff)
  have "crc_run (map (\<lambda>i. bit c (15 - i)) [0..<Suc k]) c = crc_shift_in (bit (push_bit k c) 15) (push_bit k c)"
    using Suc b by simp
  then show ?case by (simp only: crc_shift_in_own push_bit_push_bit) simp
qed simp

lemma crc16_residue: "zgw_crc16 c (xs @ [ucast (drop_bit 8 (zgw_crc16 c xs) AND 0xFF), ucast (zgw_crc16 c xs AND 0xFF)]) = 0"
proof -
  let ?c = "zgw_crc16 c xs"
  have hi: "byte_bits (ucast (drop_bit 8 ?c AND 0xFF)) = map (\<lambda>i. bit ?c (15 - i)) [0..<8]"
    by (simp add: byte_bits_def upt_rec bit_simps numeral_eq_Suc)
  have lo: "byte_bits (ucast (?c AND 0xFF)) = map (\<lambda>i. bit ?c (15 - i)) [8..<16]"
    by (simp add: byte_bits_def upt_rec bit_simps numeral_eq_Suc)
  have "byte_bits (ucast (drop_bit 8 ?c AND 0xFF)) @ byte_bits (ucast (?c AND 0xFF))
      = map (\<lambda>i. bit ?c (15 - i)) [0..<16]"
    unfolding hi lo map_append [symmetric] using upt_add_eq_append [of 0 8 8] by (simp only: zero_le add_0 numeral_plus_numeral arith_simps)
  then have "crc_run (byte_bits (ucast (drop_bit 8 ?c AND 0xFF)) @ byte_bits (ucast (?c AND 0xFF))) ?c = push_bit 16 ?c"
    using crc_run_own_bits [of 16 ?c] by (simp only: order_refl)
  also have "\<dots> = 0" by (rule bit_word_eqI) (simp only: bit_push_bit_iff, simp)
  finally show ?thesis by (simp add: zgw_crc16_run)
qed

text \<open>No frame of the class has room for less than its checksum and a checksum that is right.\<close>

lemma crc16_class: "zgw_crc16 CRC_INIT_VALUE [0x56, 0x01] = 0x30f8"
  by (simp add: crc16_bits.simps crc16_step_def CRC_POLY_def CRC_INIT_VALUE_def)

lemma short_crc16_3: "zgw_crc16 CRC_INIT_VALUE [0x56, 0x01, b] \<noteq> 0"
proof
  let ?c = "0x30f8 :: u16"
  assume "zgw_crc16 CRC_INIT_VALUE [0x56, 0x01, b] = 0"
  then have "crc_run (byte_bits b) ?c = 0" using crc16_class by (simp add: crc16_bits_run [symmetric])
  then have "crc_run (byte_bits b) ?c = push_bit 8 ?c" using crc_run_low_clear [of 16 "byte_bits b" ?c] by simp
  then show False using \<open>crc_run (byte_bits b) ?c = 0\<close> by simp
qed

lemma short_crc16:
  assumes "2 \<le> length pCmd" and "length pCmd < 4" and "pCmd ! 0 = 0x56" and "pCmd ! 1 = 0x01"
  shows "zgw_crc16 CRC_INIT_VALUE pCmd \<noteq> 0"
proof -
  obtain x ys where x: "pCmd = x # ys" using assms(1) by (cases pCmd) auto
  obtain y zs where y: "ys = y # zs" using assms(1) x by (cases ys) auto
  have xy: "x = 0x56" "y = 0x01" using assms(3,4) x y by simp_all
  show ?thesis
  proof (cases zs)
    case Nil
    then show ?thesis using crc16_class x y xy by simp
  next
    case (Cons b bs)
    then have "bs = []" using assms(2) x y by (cases bs) auto
    then show ?thesis using short_crc16_3 x y xy Cons by simp
  qed
qed

section \<open>Properties\<close>

text \<open>The schemes of a mask of node flags.\<close>

definition flag_of :: "security_scheme_t \<Rightarrow> u8" where
  "flag_of s = (case s of SECURITY_SCHEME_2_ACCESS \<Rightarrow> NODE_FLAG_SECURITY2_ACCESS
     | SECURITY_SCHEME_2_AUTHENTICATED \<Rightarrow> NODE_FLAG_SECURITY2_AUTHENTICATED
     | SECURITY_SCHEME_2_UNAUTHENTICATED \<Rightarrow> NODE_FLAG_SECURITY2_UNAUTHENTICATED
     | SECURITY_SCHEME_0 \<Rightarrow> NODE_FLAG_SECURITY0 | _ \<Rightarrow> 0)"

definition has_scheme :: "u8 \<Rightarrow> security_scheme_t \<Rightarrow> bool" where
  "has_scheme m s \<longleftrightarrow> m AND flag_of s \<noteq> 0"

lemma has_scheme_and: "has_scheme (a AND b) s \<longleftrightarrow> has_scheme a s \<and> has_scheme b s"
  by (cases s) (simp_all add: has_scheme_def flag_of_def node_flag_defs and_mask_bits [simplified] bit_and_iff)

lemma highest_scheme_max:
  "has_scheme m s \<Longrightarrow> scheme_compare (highest_scheme m) s"
  "highest_scheme m = NO_SCHEME \<or> has_scheme m (highest_scheme m)"
  by (auto simp: has_scheme_def highest_scheme_def flag_of_def scheme_compare_def scheme_prio_def
      split: security_scheme_t.splits)

text \<open>
  A frame whose sender leaves the choice of the scheme to the gateway goes out with the strongest scheme that
  both the gateway and the destination have, provided neither is marked as bad: no common scheme is stronger.
  Without a common scheme it is sent with a checksum when the destination supports that, and plainly
  otherwise.
\<close>

theorem auto_scheme_strongest:
  assumes "ts_scheme p = AUTO_SCHEME" and "2 \<le> len"
    and "\<forall>n \<in> {my_node env, dnode p}. GetCacheEntryFlag env n AND NODE_FLAG_KNOWN_BAD = 0"
  defines "common s \<equiv> \<forall>n \<in> {my_node env, dnode p}. has_scheme (GetCacheEntryFlag env n) s"
  shows "if \<exists>s. common s
    then common (ZW_SendData_scheme_select env p len)
      \<and> (\<forall>s. common s \<longrightarrow> scheme_compare (ZW_SendData_scheme_select env p len) s)
    else ZW_SendData_scheme_select env p len = (if SupportsCmdClass env (dnode p) 0x56 then USE_CRC16 else NO_SCHEME)"
proof -
  let ?m = "GetCacheEntryFlag env (dnode p) AND GetCacheEntryFlag env (my_node env)"
  have c: "common s \<longleftrightarrow> has_scheme ?m s" for s
    by (auto simp: common_def has_scheme_and)
  have sel: "ZW_SendData_scheme_select env p len =
      (if highest_scheme ?m = NO_SCHEME \<and> SupportsCmdClass env (dnode p) 0x56 then USE_CRC16 else highest_scheme ?m)"
    using assms(1-3) by (simp add: ZW_SendData_scheme_select_def Let_def not_less [symmetric] and.commute)
  have ns: "\<not> has_scheme ?m NO_SCHEME" by (simp add: has_scheme_def flag_of_def)
  show ?thesis
  proof (cases "\<exists>s. common s")
    case True
    then obtain s where "has_scheme ?m s" using c by blast
    then have "highest_scheme ?m \<noteq> NO_SCHEME"
      using highest_scheme_max(1) [of ?m s] by (auto simp: has_scheme_def flag_of_def scheme_compare_def scheme_prio_def
          split: security_scheme_t.splits)
    then show ?thesis using True c sel highest_scheme_max [of ?m] by auto
  next
    case False
    then have "highest_scheme ?m = NO_SCHEME" using c highest_scheme_max(2) [of ?m] by blast
    then show ?thesis using False sel by simp
  qed
qed

definition sample_ts_env :: ts_env where
  "sample_ts_env = \<lparr> my_node = 1, GetCacheEntryFlag = (\<lambda>n. if n = 1 then 0x71 else 0x31), SupportsCmdClass = (\<lambda>_ _. True) \<rparr>"

definition sample_ts :: ts_param_t where
  "sample_ts = \<lparr> snode = 1, dnode = 7, sendpoint = 0, dendpoint = 0, tx_flags = 0x25, rx_flags = 0, ts_scheme = AUTO_SCHEME,
     node_list = nodemask_clear, is_mcast_with_folloup = False, force_verify_delivery = False, is_multicommand = False,
     discard_timeout = 0 \<rparr>"

theorem auto_scheme_strongest_witness:
  "ZW_SendData_scheme_select sample_ts_env sample_ts 3 = SECURITY_SCHEME_2_AUTHENTICATED"
proof -
  have "s \<in> {SECURITY_SCHEME_0, SECURITY_SCHEME_2_UNAUTHENTICATED, SECURITY_SCHEME_2_AUTHENTICATED}"
    if "\<forall>n \<in> {my_node sample_ts_env, dnode sample_ts}. has_scheme (GetCacheEntryFlag sample_ts_env n) s" for s
    using that by (cases s) (auto simp: has_scheme_def flag_of_def node_flag_defs sample_ts_def sample_ts_env_def)
  moreover have "\<forall>n \<in> {my_node sample_ts_env, dnode sample_ts}. has_scheme (GetCacheEntryFlag sample_ts_env n) SECURITY_SCHEME_2_AUTHENTICATED"
    by (simp add: has_scheme_def flag_of_def node_flag_defs sample_ts_def sample_ts_env_def)
  moreover have "ts_scheme sample_ts = AUTO_SCHEME" "2 \<le> (3 :: u8)"
      "\<forall>n \<in> {my_node sample_ts_env, dnode sample_ts}. GetCacheEntryFlag sample_ts_env n AND NODE_FLAG_KNOWN_BAD = 0"
    by (simp_all add: sample_ts_def sample_ts_env_def node_flag_defs)
  ultimately show ?thesis
    using auto_scheme_strongest [of sample_ts 3 sample_ts_env]
    by (fastforce simp: scheme_compare_def scheme_prio_def split: if_splits)
qed

text \<open>
  A frame that is sent with a checksum is accepted by the receiver and handed on unchanged; a receiver that
  gets the frame with other bytes in two neighbouring places drops it; and no frame that is too short
  for the checksum is accepted, so the length never wraps around.
\<close>

theorem crc16_encap_roundtrip:
  assumes "frame \<noteq> []" and "length frame < META_DATA_MAX_DATA_SIZE" and "hd frame \<notin> {0x55, 0x98, 0x9F, 0x56}"
  defines "sent \<equiv> crc16_encap frame (length frame)"
  shows "crc16_decap NO_SCHEME sent (of_nat (length sent)) = Some (USE_CRC16, frame @ drop (length frame + 2) sent, of_nat (length frame))
    \<and> (\<forall>i a b rx. 1 < i \<and> i + 1 < length sent \<and> rx = sent[i := a, i + 1 := b] \<and> rx \<noteq> sent
         \<longrightarrow> crc16_decap NO_SCHEME rx (of_nat (length rx)) = None)
    \<and> (\<forall>n pCmd. 2 \<le> n \<and> n < 4 \<and> length pCmd = n \<and> pCmd ! 0 = 0x56 \<longrightarrow> crc16_decap NO_SCHEME pCmd (of_nat n) = None)"
proof (intro conjI allI impI; (elim conjE)?)
  let ?f = "[0x56, 0x01] @ frame"
  define hi lo where "hi = (ucast (drop_bit 8 (zgw_crc16 CRC_INIT_VALUE ?f) AND 0xFF) :: u8)"
    and "lo = (ucast (zgw_crc16 CRC_INIT_VALUE ?f AND 0xFF) :: u8)"
  have s: "sent = ?f @ [hi, lo]"
    using assms(1-3) by (simp add: sent_def crc16_encap_def Let_def hi_def lo_def hd_conv_nth)
  have z: "zgw_crc16 CRC_INIT_VALUE sent = 0" unfolding s hi_def lo_def by (rule crc16_residue)
  have l: "unat (of_nat (length sent) :: u16) = length sent"
    using assms(2) u16_of_nat [of "length sent"] by (simp add: s META_DATA_MAX_DATA_SIZE_def)
  show "crc16_decap NO_SCHEME sent (of_nat (length sent))
      = Some (USE_CRC16, frame @ drop (length frame + 2) sent, of_nat (length frame))"
    using z l by (simp add: crc16_decap_def) (simp add: s)
  fix i a b rx
  assume rx: "1 < i" "i + 1 < length sent" "rx = sent[i := a, i + 1 := b]" "rx \<noteq> sent"
  let ?pre = "take i sent" and ?post = "drop (i + 2) sent"
  have d: "sent = ?pre @ [sent ! i, sent ! (i + 1)] @ ?post"
    using id_take_nth_drop [of i sent] Cons_nth_drop_Suc [of "i + 1" sent] rx(2) by simp
  have "(?pre @ [x, y] @ ?post)[i := a, i + 1 := b] = ?pre @ [a, b] @ ?post" for x y
    using rx(2) by (simp add: list_update_append min_def)
  then have r: "rx = ?pre @ [a, b] @ ?post" using rx(3) d by metis
  have "zgw_crc16 CRC_INIT_VALUE rx \<noteq> 0"
  proof
    assume "zgw_crc16 CRC_INIT_VALUE rx = 0"
    then have "sent ! i = a \<and> sent ! (i + 1) = b"
      using z d r by (intro zgw_crc16_two_bytes_inject [of CRC_INIT_VALUE ?pre _ _ ?post]) simp
    then show False using rx by (metis list_update_id)
  qed
  then show "crc16_decap NO_SCHEME rx (of_nat (length rx)) = None"
    using l rx(3) by (simp add: crc16_decap_def)
next
  fix n and pCmd :: bytes
  assume n: "2 \<le> n" "n < 4" "length pCmd = n" "pCmd ! 0 = 0x56"
  show "crc16_decap NO_SCHEME pCmd (of_nat n) = None"
    using n short_crc16 [of pCmd] u16_of_nat [of n] by (auto simp: crc16_decap_def)
qed

theorem crc16_encap_roundtrip_witness:
  "let sent = crc16_encap [0x20, 0x01, 0xFF] 3
   in crc16_decap NO_SCHEME sent (of_nat (length sent)) = Some (USE_CRC16, [0x20, 0x01, 0xFF] @ drop 5 sent, 3)"
proof -
  have l: "length ([0x20, 0x01, 0xFF] :: bytes) = 3" by simp
  show ?thesis
    using crc16_encap_roundtrip [of "[0x20, 0x01, 0xFF]"] unfolding l by (simp add: META_DATA_MAX_DATA_SIZE_def Let_def)
qed

text \<open>
  The parameters made for the reply to a frame match the parameters of the reply itself: they describe
  a frame from the node and end point the first frame went to, back to where it came from.
\<close>

lemma make_reply_matches:
  "ts_param_cmp (ts_param_make_reply env d p) q \<longleftrightarrow>
     snode q = dnode p \<and> dnode q = snode p \<and> sendpoint q = dendpoint p \<and> dendpoint q = sendpoint p"
  by (auto simp: ts_param_cmp_def ts_param_make_reply_def)

end
