(* ===== verification/Send_Data.thy ===== *)
theory Send_Data
  imports Ts_Param Pool_List Node_Queue
begin

text \<open>
  The sender of Z-Wave frames (\<^verbatim>\<open>src/transport/ZW_SendDataAppl.c\<close> with \<^verbatim>\<open>src/transport/zw_frame_buffer.c\<close>).  Frames wait in two
  lists of one pool of sessions: the application's frames before encapsulation, and the low-level frames that go to the radio as they
  are.  One application frame and one low-level frame are under way at a time.

  The sessions are blocks of a pool; the frame buffers are allocated from the heap, whose addresses are numbered in
  the order of allocation.  The radio, the security layers, the transport service, the node cache and the node queue belong to
  other parts: calls into them are logged, and what they answer is a function of the log (\<open>sd_env\<close>).
  A callback of the application may itself queue frames; which ones is also a function of the log.  The reports of the
  radio and of the security layers and the expiry of timers are calls from outside.  \<open>None\<close> stands
  for an access through a null or dangling pointer.
\<close>

section \<open>State and environment\<close>

type_synonym fb_addr = nat

record zw_frame_buffer_element_t =
  fb_param :: ts_param_t
  frame_data :: bytes
  frame_len :: u16

text \<open>The callback of a session: none, \<^verbatim>\<open>ZW_SendDataAppl_CallbackEx\<close>, or a function of another module.\<close>

datatype sd_callback = No_cb | Callback_ex | App_cb nat

record send_data_appl_session_t =
  s_fb :: fb_addr
  s_user :: addr
  s_callback :: sd_callback
  discard_timer :: "nat option"
  reset_span :: bool

text \<open>
  An event timer: not running, running with an interval, or taken out of the list of timers when its process exited
  (\<^verbatim>\<open>contiki/core/sys/etimer.c\<close>), which leaves it neither running nor expired.
\<close>

datatype etimer = Et_expired | Et_running nat | Et_lost

definition etimer_expired :: "etimer \<Rightarrow> bool" where "etimer_expired t \<longleftrightarrow> t = Et_expired"

definition etimer_process_exited :: "etimer \<Rightarrow> etimer" where
  "etimer_process_exited t = (case t of Et_running _ \<Rightarrow> Et_lost | _ \<Rightarrow> t)"

datatype sd_timer = Emergency_timer | Backoff_timer | Resend_lockup_timer | Soft_reset_timer

datatype sd_event = Event_timer sd_timer | SEND_EVENT_SEND_NEXT | SEND_EVENT_SEND_NEXT_LL | SEND_EVENT_SEND_NEXT_DELAYED nat

datatype sd_effect =
    Report nat u8 addr "u16 option"
  | Sec2_reset_span nodeid
  | Ima_send_data_start nodeid
  | Ima_send_data_done nodeid u8 "u16 option"
  | Sec0_send_data ts_param_t bytes addr
  | Sec2_send_data ts_param_t bytes addr
  | Transport_send ts_param_t bytes
  | Radio_send_bridge nodeid nodeid bytes u8
  | Radio_send nodeid bytes u8
  | Radio_abort
  | Sec0_abort
  | Soft_reset
  | Ncp_status nat u8

text \<open>What the application does in a callback: it queues a frame with a callback and a user value.\<close>

datatype sd_request = Req_appl ts_param_t bytes "nat option" addr | Req_ll ts_param_t bytes "nat option" addr

definition app_cb :: "nat option \<Rightarrow> sd_callback" where
  "app_cb cb = (case cb of None \<Rightarrow> No_cb | Some n \<Rightarrow> App_cb n)"

record sd_env = ts_env +
  CommandAnalyzerIsGet :: "u8 \<Rightarrow> u8 \<Rightarrow> bool"
  get_queue_state :: "sd_effect list \<Rightarrow> en_queue_state"
  sec_accepts :: "sd_effect list \<Rightarrow> bool"
  radio_accepts :: "sd_effect list \<Rightarrow> bool"
  soft_reset_ok :: "sd_effect list \<Rightarrow> bool"
  reaction :: "sd_effect list \<Rightarrow> sd_request list"
  malloc_ok :: "nat \<Rightarrow> bool"
  malloc_bytes :: "nat \<Rightarrow> bytes"
  gecko_chip :: bool
  time_resend_serial :: nat
  unsolicited_set :: "nat \<Rightarrow> bool"
  setup_unsolicited :: "nat \<Rightarrow> bool"

record sd_state =
  session_list :: addr
  send_data_list :: addr
  sd_next :: links
  session_at :: "addr \<Rightarrow> send_data_appl_session_t"
  session_memb :: memb
  fbs :: "fb_addr \<Rightarrow> zw_frame_buffer_element_t option"
  fb_allocs :: nat
  lock :: bool
  lock_ll :: bool
  resend_counter :: u8
  backoff_node :: nodeid
  current_session :: addr
  current_session_ll :: addr
  new_buf :: bytes
  timers :: "sd_timer \<Rightarrow> etimer"
  posted :: "sd_event list"
  sd_log :: "sd_effect list"

definition sd_emit :: "sd_effect \<Rightarrow> sd_state \<Rightarrow> sd_state" where
  "sd_emit e s = s \<lparr> sd_log := sd_log s @ [e] \<rparr>"

definition process_post :: "sd_event \<Rightarrow> sd_state \<Rightarrow> sd_state" where
  "process_post e s = s \<lparr> posted := posted s @ [e] \<rparr>"

definition set_timer :: "sd_timer \<Rightarrow> etimer \<Rightarrow> sd_state \<Rightarrow> sd_state" where
  "set_timer t v s = s \<lparr> timers := (timers s)(t := v) \<rparr>"

abbreviation etimer_set :: "sd_timer \<Rightarrow> nat \<Rightarrow> sd_state \<Rightarrow> sd_state" where
  "etimer_set t n \<equiv> set_timer t (Et_running n)"

abbreviation etimer_stop :: "sd_timer \<Rightarrow> sd_state \<Rightarrow> sd_state" where
  "etimer_stop t \<equiv> set_timer t Et_expired"

definition upd_session :: "addr \<Rightarrow> (send_data_appl_session_t \<Rightarrow> send_data_appl_session_t) \<Rightarrow> sd_state \<Rightarrow> sd_state" where
  "upd_session b f s = s \<lparr> session_at := (session_at s)(b := f (session_at s b)) \<rparr>"

abbreviation session_fb :: "sd_state \<Rightarrow> addr \<Rightarrow> zw_frame_buffer_element_t option" where
  "session_fb s b \<equiv> fbs s (s_fb (session_at s b))"

section \<open>Frame buffers\<close>

definition FRAME_BUFFER_ELEMENT_SIE :: nat where "FRAME_BUFFER_ELEMENT_SIE = 256"

definition zw_frame_buffer_free :: "fb_addr \<Rightarrow> sd_state \<Rightarrow> sd_state option" where
  "zw_frame_buffer_free e s =
     (if e = 0 then Some s else if fbs s e = None then None else Some (s \<lparr> fbs := (fbs s)(e := None) \<rparr>))"

text \<open>The bytes behind the frame are what the allocated memory contains.\<close>

definition zw_frame_buffer_create :: "sd_env \<Rightarrow> ts_param_t \<Rightarrow> bytes \<Rightarrow> sd_state \<Rightarrow> fb_addr \<times> sd_state" where
  "zw_frame_buffer_create env p cmd s =
     (let n = fb_allocs s; s = s \<lparr> fb_allocs := n + 1 \<rparr>
      in if malloc_ok env n \<and> length cmd < FRAME_BUFFER_ELEMENT_SIE
         then (n + 1, s \<lparr> fbs := (fbs s)(n + 1 \<mapsto>
                 \<lparr> fb_param = p, frame_data = cmd @ drop (length cmd) (malloc_bytes env n), frame_len = of_nat (length cmd) \<rparr>) \<rparr>)
         else (0, s))"

section \<open>Queueing frames\<close>

text \<open>When there is no memory for the frame, the session that was just allocated is not given back.\<close>

definition send_data :: "sd_env \<Rightarrow> ts_param_t \<Rightarrow> bytes \<Rightarrow> sd_callback \<Rightarrow> addr \<Rightarrow> sd_state \<Rightarrow> (bool \<times> sd_state) option" where
  "send_data env p cmd cb user s =
     (case memb_alloc (session_memb s) of
        (b, pool) \<Rightarrow>
          if b = 0 then Some (False, s)
          else (case zw_frame_buffer_create env p cmd (s \<lparr> session_memb := pool \<rparr>) of
                  (f, s) \<Rightarrow>
                    (let s = upd_session b (\<lambda>e. e \<lparr> s_fb := f \<rparr>) s
                     in if f = 0 then Some (False, s)
                        else (let s = upd_session b (\<lambda>e. e \<lparr> s_user := user, s_callback := cb \<rparr>) s
                              in (case list_add (send_data_list s) b (sd_next s) of
                                    None \<Rightarrow> None
                                  | Some (l, nxt) \<Rightarrow>
                                      (let s = s \<lparr> send_data_list := l, sd_next := nxt \<rparr>;
                                           s = (if discard_timeout p \<noteq> 0
                                                then upd_session b (\<lambda>e. e \<lparr> discard_timer := Some (unat (discard_timeout p)) \<rparr>) s
                                                else s)
                                       in Some (True, process_post SEND_EVENT_SEND_NEXT_LL s)))))))"

text \<open>The result is the handle of the session, 0 for failure.  The first two bytes of the frame are read.\<close>

definition ZW_SendDataAppl :: "sd_env \<Rightarrow> ts_param_t \<Rightarrow> bytes \<Rightarrow> sd_callback \<Rightarrow> addr \<Rightarrow> sd_state \<Rightarrow> (nat \<times> sd_state) option" where
  "ZW_SendDataAppl env p pData cb user s =
     (case memb_alloc (session_memb s) of
        (b, pool) \<Rightarrow>
          if b = 0 then Some (0, s)
          else (let s = s \<lparr> session_memb := pool \<rparr>;
                    s = (if pData ! 0 = 0x7A \<and> pData ! 1 = 0x08 then upd_session b (\<lambda>e. e \<lparr> reset_span := True \<rparr>) s else s)
                in (case zw_frame_buffer_create env p
                           (if pData ! 0 = 0x00 \<and> is_lr_node (dnode p) then [0x04, 0x00] else pData) s of
                      (f, s) \<Rightarrow>
                        (let s = upd_session b (\<lambda>e. e \<lparr> s_fb := f \<rparr>) s
                         in if f = 0 then Some (0, s \<lparr> session_memb := snd (memb_free (session_memb s) b) \<rparr>)
                            else (let s = upd_session b (\<lambda>e. e \<lparr> s_user := user, s_callback := cb \<rparr>) s
                                  in (case list_add (session_list s) b (sd_next s) of
                                        None \<Rightarrow> None
                                      | Some (l, nxt) \<Rightarrow>
                                          Some (b, process_post SEND_EVENT_SEND_NEXT (s \<lparr> session_list := l, sd_next := nxt \<rparr>))))))))"

section \<open>Reports\<close>

text \<open>A callback of another module: it is told the result and may queue frames.\<close>

definition react :: "sd_env \<Rightarrow> sd_request \<Rightarrow> sd_state \<Rightarrow> sd_state option" where
  "react env r s =
     (case r of
        Req_appl p d cb u \<Rightarrow> map_option snd (ZW_SendDataAppl env p d (app_cb cb) u s)
      | Req_ll p d cb u \<Rightarrow> map_option snd (send_data env p d (app_cb cb) u s))"

fun react_all :: "sd_env \<Rightarrow> sd_request list \<Rightarrow> sd_state \<Rightarrow> sd_state option" where
  "react_all env [] s = Some s"
| "react_all env (r # rs) s = Option.bind (react env r s) (react_all env rs)"

definition call_app :: "sd_env \<Rightarrow> nat \<Rightarrow> u8 \<Rightarrow> addr \<Rightarrow> u16 option \<Rightarrow> sd_state \<Rightarrow> sd_state option" where
  "call_app env cb status user ts s =
     (let s = sd_emit (Report cb status user ts) s in react_all env (reaction env (sd_log s)) s)"

text \<open>The first part of the report on an application frame: the lock, the pause after a request, the reset of the span.\<close>

definition after_report :: "sd_env \<Rightarrow> u8 \<Rightarrow> addr \<Rightarrow> u16 option \<Rightarrow> zw_frame_buffer_element_t \<Rightarrow> sd_state \<Rightarrow> sd_state" where
  "after_report env status u ts fb s =
     (let s = s \<lparr> lock := False \<rparr>;
          s = (case ts of
                 Some ticks \<Rightarrow>
                   if status = TRANSMIT_COMPLETE_OK \<and> CommandAnalyzerIsGet env (frame_data fb ! 0) (frame_data fb ! 1)
                   then etimer_set Backoff_timer (unat ticks * 10 + 250) (s \<lparr> backoff_node := dnode (fb_param fb) \<rparr>)
                   else process_post SEND_EVENT_SEND_NEXT s
               | None \<Rightarrow> process_post SEND_EVENT_SEND_NEXT s)
      in if status = TRANSMIT_COMPLETE_OK \<and> reset_span (session_at s u)
         then upd_session u (\<lambda>e. e \<lparr> reset_span := False \<rparr>) (sd_emit (Sec2_reset_span (dnode (fb_param fb))) s)
         else s)"

text \<open>
  The report on an application frame; \<open>ts\<close> is the number of ticks of the transmission, if there is a status report.
  The event \<^verbatim>\<open>SEND_EVENT_SEND_NEXT_DELAYED\<close> is posted synchronously: it starts the timer at once.
  If the callback of the session were this function itself, the inner call would find the lock open and return.
\<close>

definition ZW_SendDataAppl_CallbackEx :: "sd_env \<Rightarrow> u8 \<Rightarrow> addr \<Rightarrow> u16 option \<Rightarrow> sd_state \<Rightarrow> sd_state option" where
  "ZW_SendDataAppl_CallbackEx env status user ts s =
     (if \<not> lock s then Some s
      else
        (case session_fb s user of
           None \<Rightarrow> None
         | Some fb \<Rightarrow>
             (let s = after_report env status user ts fb s
              in Option.bind (zw_frame_buffer_free (s_fb (session_at s user)) s)
                   (\<lambda>s. let s = s \<lparr> session_memb := snd (memb_free (session_memb s) user) \<rparr>
                        in (case s_callback (session_at s user) of
                              App_cb cb \<Rightarrow> call_app env cb status (s_user (session_at s user)) ts s
                            | _ \<Rightarrow> Some s)))))"

text \<open>The call \<^verbatim>\<open>s->callback(status, s->user, ts)\<close> on a low-level session.\<close>

definition call_callback :: "sd_env \<Rightarrow> u8 \<Rightarrow> addr \<Rightarrow> u16 option \<Rightarrow> sd_state \<Rightarrow> sd_state option" where
  "call_callback env status b ts s =
     (case s_callback (session_at s b) of
        No_cb \<Rightarrow> Some s
      | Callback_ex \<Rightarrow> ZW_SendDataAppl_CallbackEx env status (s_user (session_at s b)) ts s
      | App_cb cb \<Rightarrow> call_app env cb status (s_user (session_at s b)) ts s)"

definition do_discard_timeout_memb :: "sd_env \<Rightarrow> addr \<Rightarrow> sd_state \<Rightarrow> sd_state option" where
  "do_discard_timeout_memb env b s0 =
     (let s = upd_session b (\<lambda>e. e \<lparr> discard_timer := None \<rparr>) s0
      in if b = 0 then Some s
         else (case list_remove (send_data_list s) b (sd_next s) of
                 None \<Rightarrow> None
               | Some (l, nxt) \<Rightarrow>
                   call_callback env TRANSMIT_COMPLETE_FAIL b None
                     (s \<lparr> send_data_list := l, sd_next := nxt, session_memb := snd (memb_free (session_memb s) b) \<rparr>)))"

definition send_data_fail :: "sd_env \<Rightarrow> u16 option \<Rightarrow> sd_state \<Rightarrow> sd_state option" where
  "send_data_fail env ts s =
     (case list_pop (send_data_list s) (sd_next s) of
        (b, l) \<Rightarrow>
          (let s = s \<lparr> send_data_list := l \<rparr>
           in if b = 0 then Some (process_post SEND_EVENT_SEND_NEXT_LL s)
              else Option.bind (call_callback env TRANSMIT_COMPLETE_FAIL b ts s)
                     (\<lambda>s. Option.bind (zw_frame_buffer_free (s_fb (session_at s b)) s)
                        (\<lambda>s. Some (process_post SEND_EVENT_SEND_NEXT_LL
                                  (s \<lparr> session_memb := snd (memb_free (session_memb s) b) \<rparr>))))))"

definition send_data_callback_func :: "sd_env \<Rightarrow> u8 \<Rightarrow> u16 option \<Rightarrow> sd_state \<Rightarrow> sd_state option" where
  "send_data_callback_func env status ts s =
     (let queue_state = get_queue_state env (sd_log s)
      in if \<not> lock_ll s then Some s
         else if status = TRANSMIT_COMPLETE_FAIL then
           (let s = etimer_stop Emergency_timer s
            in Option.bind (if resend_counter s = 0 then send_data_fail env ts s else Some s)
                 (\<lambda>s. Some (s \<lparr> lock_ll := False \<rparr>)))
         else
           (case list_pop (send_data_list s) (sd_next s) of
              (b, l) \<Rightarrow>
                if b = 0 then None
                else
                  (case session_fb s b of
                     None \<Rightarrow> None
                   | Some fb \<Rightarrow>
                       (let s = s \<lparr> send_data_list := l \<rparr>;
                            s = (if (queue_state = QS_SENDING_FIRST \<and> status = TRANSMIT_COMPLETE_OK) \<or> queue_state = QS_SENDING_LONG
                                 then sd_emit (Ima_send_data_done (dnode (fb_param fb)) status ts) s else s);
                            s = etimer_stop Soft_reset_timer (etimer_stop Resend_lockup_timer (etimer_stop Emergency_timer s));
                            s = s \<lparr> resend_counter := 0 \<rparr>
                        in Option.bind (zw_frame_buffer_free (s_fb (session_at s b)) s)
                             (\<lambda>s. Option.bind
                                (call_callback env status b ts (s \<lparr> session_memb := snd (memb_free (session_memb s) b) \<rparr>))
                                (\<lambda>s. Some (process_post SEND_EVENT_SEND_NEXT_LL (s \<lparr> lock_ll := False \<rparr>))))))))"

section \<open>Sending\<close>

definition UIP_BUFSIZE :: nat where "UIP_BUFSIZE = 1544"

definition copy_bytes :: "bytes \<Rightarrow> bytes \<Rightarrow> bytes" where
  "copy_bytes buf bs = bs @ drop (length bs) buf"

text \<open>
  \<^verbatim>\<open>send_endpoint\<close> for the frame of session \<open>b\<close>; the scheme is written back into the parameters of the session.
\<close>

definition send_endpoint :: "sd_env \<Rightarrow> addr \<Rightarrow> sd_state \<Rightarrow> (bool \<times> sd_state) option" where
  "send_endpoint env b s =
     (case session_fb s b of
        None \<Rightarrow> None
      | Some fb \<Rightarrow>
          (let p = fb_param fb;
               cmd = take (unat (frame_len fb)) (frame_data fb);
               frame = endpoint_encap p cmd;
               multicast = (tx_flags p AND TRANSMIT_OPTION_MULTICAST \<noteq> 0)
           in if UIP_BUFSIZE < length cmd \<or> UIP_BUFSIZE < length frame then Some (False, s)
              else
                (let s = s \<lparr> new_buf := copy_bytes (new_buf s) frame \<rparr>
                 in (case ZW_SendData_scheme_select env p (ucast (frame_len fb)) of
                       USE_CRC16 \<Rightarrow>
                         (let out = crc16_encap (new_buf s) (length frame);
                              s = s \<lparr> new_buf := copy_bytes (new_buf s) out \<rparr>
                          in send_data env p out Callback_ex b s)
                     | NO_SCHEME \<Rightarrow> if multicast then Some (False, s) else send_data env p frame Callback_ex b s
                     | SECURITY_SCHEME_0 \<Rightarrow>
                         if multicast then Some (False, s)
                         else (let s = sd_emit (Sec0_send_data p frame b) s in Some (sec_accepts env (sd_log s), s))
                     | AUTO_SCHEME \<Rightarrow> Some (False, s)
                     | NET_SCHEME \<Rightarrow> Some (False, s)
                     | SECURITY_SCHEME_UDP \<Rightarrow> Some (False, s)
                     | scheme \<Rightarrow>
                         (let p = p \<lparr> ts_scheme := scheme \<rparr>;
                              s = s \<lparr> fbs := (fbs s)(s_fb (session_at s b) \<mapsto> fb \<lparr> fb_param := p \<rparr>) \<rparr>;
                              s = sd_emit (Sec2_send_data p frame b) s
                          in Some (sec_accepts env (sd_log s), s))))))"

definition send_first :: "sd_env \<Rightarrow> sd_state \<Rightarrow> sd_state option" where
  "send_first env s =
     (case list_pop (session_list s) (sd_next s) of
        (b, l) \<Rightarrow>
          (let s = s \<lparr> session_list := l, current_session := b \<rparr>
           in if b = 0 then Some s
              else Option.bind (send_endpoint env b (s \<lparr> lock := True \<rparr>))
                     (\<lambda>(ok, s). if ok then Some s
                               else ZW_SendDataAppl_CallbackEx env TRANSMIT_COMPLETE_ERROR b None s)))"

definition ZW_SendDataApplAbort :: "sd_env \<Rightarrow> nat \<Rightarrow> sd_state \<Rightarrow> sd_state option" where
  "ZW_SendDataApplAbort env handle s =
     (if handle = 0 \<or> length (session_memb s) < handle then Some s
      else if handle = current_session s then Some (sd_emit Sec0_abort (sd_emit Radio_abort s))
      else Option.bind (list_contains (session_list s) handle (sd_next s))
             (\<lambda>found. if \<not> found then Some s
                      else Option.bind (list_remove (session_list s) handle (sd_next s))
                             (\<lambda>(l, nxt). call_callback env TRANSMIT_COMPLETE_FAIL handle None
                                (s \<lparr> session_list := l, sd_next := nxt, session_memb := snd (memb_free (session_memb s) handle) \<rparr>))))"

definition ZW_SendDataAppl_idle :: "sd_state \<Rightarrow> bool" where
  "ZW_SendDataAppl_idle s \<longleftrightarrow> current_session s = 0 \<and> current_session_ll s = 0
     \<and> list_head (session_list s) = 0 \<and> list_head (send_data_list s) = 0"

text \<open>The process is stopped and started again; its timers are taken out of the list of timers.\<close>

definition ZW_SendDataAppl_init :: "sd_state \<Rightarrow> sd_state" where
  "ZW_SendDataAppl_init s =
     (sd_emit Sec0_abort (s \<lparr> lock := False, lock_ll := False \<rparr>))
       \<lparr> session_list := 0, send_data_list := 0, session_memb := memb_init 8,
         timers := (\<lambda>t. etimer_process_exited (timers s t)) \<rparr>"

definition ZW_SendDataAppl_FrameRX_Notify :: "nodeid \<Rightarrow> sd_state \<Rightarrow> sd_state" where
  "ZW_SendDataAppl_FrameRX_Notify sender s =
     (if \<not> etimer_expired (timers s Backoff_timer) \<and> sender = backoff_node s
      then process_post SEND_EVENT_SEND_NEXT (etimer_stop Backoff_timer s)
      else s)"

definition notify_ncp_controller_status_via_unsolicited_dest :: "sd_env \<Rightarrow> u8 \<Rightarrow> sd_state \<Rightarrow> sd_state" where
  "notify_ncp_controller_status_via_unsolicited_dest env status s =
     (if \<not> unsolicited_set env 1 \<and> \<not> unsolicited_set env 2 then s
      else fold (\<lambda>i s. if setup_unsolicited env i then sd_emit (Ncp_status i status) s else s) [1, 2] s)"

section \<open>The process\<close>

text \<open>
  The case \<^verbatim>\<open>SEND_EVENT_SEND_NEXT_LL\<close>: how the frame of the session at the head is given to the radio.
\<close>

definition radio_out :: "sd_env \<Rightarrow> addr \<Rightarrow> zw_frame_buffer_element_t \<Rightarrow> sd_state \<Rightarrow> bool \<times> sd_state" where
  "radio_out env b fb s =
     (let p = fb_param fb; frame = take (unat (frame_len fb)) (frame_data fb)
      in if META_DATA_MAX_DATA_SIZE \<le> unat (frame_len fb) then
           (if SupportsCmdClass env (dnode p) 0x55
            then (let s = sd_emit (Transport_send p frame) s in (radio_accepts env (sd_log s), s))
            else (False, s))
         else if snode p \<noteq> my_node env then
           (let s = (if etimer_expired (timers s Resend_lockup_timer) \<and> time_resend_serial env \<noteq> 0
                     then etimer_set Resend_lockup_timer (1000 * time_resend_serial env) s else s);
                s = (if etimer_expired (timers s Soft_reset_timer) then etimer_set Soft_reset_timer (1000 * 120) s else s);
                s = sd_emit (Radio_send_bridge (snode p) (dnode p) frame (tx_flags p)) s
            in (radio_accepts env (sd_log s), s))
         else
           (let s = s \<lparr> fbs := (fbs s)(s_fb (session_at s b) \<mapsto> fb \<lparr> fb_param := p \<lparr> snode := 0x00FF \<rparr> \<rparr>) \<rparr>;
                s = sd_emit (Radio_send (dnode p) frame (tx_flags p)) s
            in (radio_accepts env (sd_log s), s)))"

definition send_next_ll :: "sd_env \<Rightarrow> sd_state \<Rightarrow> sd_state option" where
  "send_next_ll env s0 =
     (let b = list_head (send_data_list s0); s = s0 \<lparr> current_session_ll := b \<rparr>
      in if b \<noteq> 0 \<and> \<not> lock_ll s then
           (case session_fb s b of
              None \<Rightarrow> None
            | Some fb \<Rightarrow>
                (let s = (if discard_timeout (fb_param fb) \<noteq> 0 then upd_session b (\<lambda>e. e \<lparr> discard_timer := None \<rparr>) s else s)
                 in (case radio_out env b fb (s \<lparr> lock_ll := True \<rparr>) of
                       (rc, s) \<Rightarrow>
                         if \<not> rc then send_data_callback_func env TRANSMIT_COMPLETE_FAIL None s
                         else Some (etimer_set Emergency_timer (65 * 1000) (sd_emit (Ima_send_data_start (dnode (fb_param fb))) s)))))
         else Some s)"

definition soft_reset_timeout :: "sd_env \<Rightarrow> sd_state \<Rightarrow> sd_state" where
  "soft_reset_timeout env s =
     (if gecko_chip env then
        (let s = sd_emit Soft_reset ((etimer_stop Resend_lockup_timer s) \<lparr> resend_counter := 0 \<rparr>)
         in if soft_reset_ok env (sd_log s)
            then notify_ncp_controller_status_via_unsolicited_dest env 0x00 (process_post SEND_EVENT_SEND_NEXT_LL s)
            else notify_ncp_controller_status_via_unsolicited_dest env 0xFF s)
      else s)"

definition ZW_SendDataAppl_process :: "sd_env \<Rightarrow> sd_event \<Rightarrow> sd_state \<Rightarrow> sd_state option" where
  "ZW_SendDataAppl_process env ev s =
     (case ev of
        Event_timer Emergency_timer \<Rightarrow> send_data_callback_func env TRANSMIT_COMPLETE_FAIL None s
      | Event_timer Backoff_timer \<Rightarrow> Some (process_post SEND_EVENT_SEND_NEXT s)
      | Event_timer Resend_lockup_timer \<Rightarrow>
          Some (process_post SEND_EVENT_SEND_NEXT_LL (s \<lparr> resend_counter := resend_counter s + 1 \<rparr>))
      | Event_timer Soft_reset_timer \<Rightarrow> Some (soft_reset_timeout env s)
      | SEND_EVENT_SEND_NEXT \<Rightarrow>
          if \<not> lock s \<and> etimer_expired (timers s Backoff_timer) then send_first env s else Some s
      | SEND_EVENT_SEND_NEXT_DELAYED n \<Rightarrow> Some (etimer_set Backoff_timer n s)
      | SEND_EVENT_SEND_NEXT_LL \<Rightarrow> send_next_ll env s)"

text \<open>What happens to the sender: calls of its functions, reports, expiring timers, and the next event of its process.\<close>

datatype sd_op =
    Op_send ts_param_t bytes "nat option" addr
  | Op_send_ll ts_param_t bytes "nat option" addr
  | Op_radio_report u8 "u16 option"
  | Op_security_report u8 "u16 option"
  | Op_discard addr
  | Op_timer sd_timer
  | Op_event
  | Op_abort nat
  | Op_received nodeid

definition sd_apply :: "sd_env \<Rightarrow> sd_op \<Rightarrow> sd_state \<Rightarrow> sd_state option" where
  "sd_apply env op s =
     (case op of
        Op_send p d cb u \<Rightarrow> map_option snd (ZW_SendDataAppl env p d (app_cb cb) u s)
      | Op_send_ll p d cb u \<Rightarrow> map_option snd (send_data env p d (app_cb cb) u s)
      | Op_radio_report status ts \<Rightarrow> send_data_callback_func env status ts s
      | Op_security_report status ts \<Rightarrow> ZW_SendDataAppl_CallbackEx env status (current_session s) ts s
      | Op_discard b \<Rightarrow> if discard_timer (session_at s b) = None then Some s else do_discard_timeout_memb env b s
      | Op_timer t \<Rightarrow>
          Some (case timers s t of Et_running _ \<Rightarrow> process_post (Event_timer t) (etimer_stop t s) | _ \<Rightarrow> s)
      | Op_event \<Rightarrow> (case posted s of [] \<Rightarrow> Some s | e # es \<Rightarrow> ZW_SendDataAppl_process env e (s \<lparr> posted := es \<rparr>))
      | Op_abort h \<Rightarrow> ZW_SendDataApplAbort env h s
      | Op_received n \<Rightarrow> Some (ZW_SendDataAppl_FrameRX_Notify n s))"

end
