(* ===== verification/Send_Data_Correct.thy ===== *)
theory Send_Data_Correct
  imports Send_Data
begin

text \<open>
  What the sender of \<^verbatim>\<open>Send_Data\<close> guarantees: its lists, its pool and its frame buffers stay well formed
  whatever is called in whatever order, so that no dangling pointer is followed; frames are sent in order and each is reported.
\<close>

section \<open>Well-formed states\<close>

text \<open>
  \<open>xs\<close> and \<open>ys\<close> are the two lists, \<open>hs\<close> the sessions that are allocated but in neither list, and \<open>lost\<close> those that nobody
  will free.  All sessions but the lost ones have a frame buffer of their own.
\<close>

definition sessions_ok :: "sd_state \<Rightarrow> addr list \<Rightarrow> bool" where
  "sessions_ok s bs \<longleftrightarrow> distinct bs \<and> inj_on (\<lambda>b. s_fb (session_at s b)) (set bs) \<and> (\<forall>b \<in> set bs. session_fb s b \<noteq> None)"

definition core_inv :: "sd_state \<Rightarrow> addr list \<Rightarrow> addr list \<Rightarrow> addr list \<Rightarrow> addr set \<Rightarrow> bool" where
  "core_inv s xs ys hs lost \<longleftrightarrow>
     is_list (sd_next s) (session_list s) xs \<and> is_list (sd_next s) (send_data_list s) ys
     \<and> sessions_ok s (xs @ ys @ hs) \<and> lost \<inter> set (xs @ ys @ hs) = {}
     \<and> memb_ok (session_memb s) \<and> length (session_memb s) = 8
     \<and> used_blocks (session_memb s) = set (xs @ ys @ hs) \<union> lost
     \<and> (\<forall>a. fbs s a \<noteq> None \<longrightarrow> 0 < a \<and> a \<le> fb_allocs s)
     \<and> (\<forall>b. discard_timer (session_at s b) \<noteq> None \<longrightarrow>
            b \<in> set ys \<and> (\<forall>fb. session_fb s b = Some fb \<longrightarrow> discard_timeout (fb_param fb) \<noteq> 0))"

text \<open>The parts of the state that queueing a frame does not touch.\<close>

definition same_ctl :: "sd_state \<Rightarrow> sd_state \<Rightarrow> bool" where
  "same_ctl s t \<longleftrightarrow> lock t = lock s \<and> lock_ll t = lock_ll s \<and> current_session t = current_session s
     \<and> current_session_ll t = current_session_ll s \<and> timers t = timers s \<and> resend_counter t = resend_counter s
     \<and> backoff_node t = backoff_node s"

lemma same_ctl_refl [simp]: "same_ctl s s"
  by (simp add: same_ctl_def)

lemma same_ctl_trans: "same_ctl s t \<Longrightarrow> same_ctl t u \<Longrightarrow> same_ctl s u"
  by (simp add: same_ctl_def)

definition keeps :: "addr set \<Rightarrow> sd_state \<Rightarrow> sd_state \<Rightarrow> bool" where
  "keeps A s t \<longleftrightarrow> (\<forall>b \<in> A. session_at t b = session_at s b)"

lemma keeps_refl [simp]: "keeps A s s"
  by (simp add: keeps_def)

lemma keeps_trans: "keeps A s t \<Longrightarrow> keeps B t u \<Longrightarrow> A \<subseteq> B \<Longrightarrow> keeps A s u"
  by (auto simp: keeps_def)

lemma keeps_mono: "keeps B s t \<Longrightarrow> A \<subseteq> B \<Longrightarrow> keeps A s t"
  by (auto simp: keeps_def)

section \<open>Updates that do not matter\<close>

lemma sd_emit_simps [simp]:
  "session_list (sd_emit e s) = session_list s" "send_data_list (sd_emit e s) = send_data_list s" "sd_next (sd_emit e s) = sd_next s"
  "session_at (sd_emit e s) = session_at s" "session_memb (sd_emit e s) = session_memb s" "fbs (sd_emit e s) = fbs s"
  "fb_allocs (sd_emit e s) = fb_allocs s" "lock (sd_emit e s) = lock s" "lock_ll (sd_emit e s) = lock_ll s"
  "current_session (sd_emit e s) = current_session s" "current_session_ll (sd_emit e s) = current_session_ll s"
  "timers (sd_emit e s) = timers s" "resend_counter (sd_emit e s) = resend_counter s" "backoff_node (sd_emit e s) = backoff_node s"
  "posted (sd_emit e s) = posted s" "sd_log (sd_emit e s) = sd_log s @ [e]"
  by (simp_all add: sd_emit_def)

lemma process_post_simps [simp]:
  "session_list (process_post e s) = session_list s" "send_data_list (process_post e s) = send_data_list s"
  "sd_next (process_post e s) = sd_next s" "session_at (process_post e s) = session_at s"
  "session_memb (process_post e s) = session_memb s" "fbs (process_post e s) = fbs s" "fb_allocs (process_post e s) = fb_allocs s"
  "lock (process_post e s) = lock s" "lock_ll (process_post e s) = lock_ll s" "current_session (process_post e s) = current_session s"
  "current_session_ll (process_post e s) = current_session_ll s" "timers (process_post e s) = timers s"
  "resend_counter (process_post e s) = resend_counter s" "backoff_node (process_post e s) = backoff_node s"
  "posted (process_post e s) = posted s @ [e]" "sd_log (process_post e s) = sd_log s"
  by (simp_all add: process_post_def)

lemma set_timer_simps [simp]:
  "session_list (set_timer t v s) = session_list s" "send_data_list (set_timer t v s) = send_data_list s"
  "sd_next (set_timer t v s) = sd_next s" "session_at (set_timer t v s) = session_at s"
  "session_memb (set_timer t v s) = session_memb s" "fbs (set_timer t v s) = fbs s" "fb_allocs (set_timer t v s) = fb_allocs s"
  "lock (set_timer t v s) = lock s" "lock_ll (set_timer t v s) = lock_ll s" "current_session (set_timer t v s) = current_session s"
  "current_session_ll (set_timer t v s) = current_session_ll s" "timers (set_timer t v s) = (timers s)(t := v)"
  "resend_counter (set_timer t v s) = resend_counter s" "backoff_node (set_timer t v s) = backoff_node s"
  "posted (set_timer t v s) = posted s" "sd_log (set_timer t v s) = sd_log s"
  by (simp_all add: set_timer_def)

text \<open>The invariant reads only the memory of the module.\<close>

definition same_mem :: "sd_state \<Rightarrow> sd_state \<Rightarrow> bool" where
  "same_mem s t \<longleftrightarrow> session_list t = session_list s \<and> send_data_list t = send_data_list s \<and> sd_next t = sd_next s
     \<and> session_at t = session_at s \<and> session_memb t = session_memb s \<and> fbs t = fbs s \<and> fb_allocs t = fb_allocs s"

lemma core_inv_same_mem: "same_mem s t \<Longrightarrow> core_inv t xs ys hs lost = core_inv s xs ys hs lost"
  by (simp add: same_mem_def core_inv_def sessions_ok_def)

lemma sessions_ok_simps [simp]:
  "sessions_ok (s \<lparr> session_memb := m \<rparr>) bs = sessions_ok s bs" "sessions_ok (s \<lparr> session_list := l \<rparr>) bs = sessions_ok s bs"
  "sessions_ok (s \<lparr> send_data_list := l \<rparr>) bs = sessions_ok s bs" "sessions_ok (s \<lparr> sd_next := n \<rparr>) bs = sessions_ok s bs"
  by (simp_all add: sessions_ok_def)

lemma core_inv_simps [simp]:
  "core_inv (sd_emit e s) = core_inv s"
  "core_inv (process_post v s) = core_inv s"
  "core_inv (set_timer t w s) = core_inv s"
  "core_inv (s \<lparr> lock := b \<rparr>) = core_inv s"
  "core_inv (s \<lparr> lock_ll := b \<rparr>) = core_inv s"
  "core_inv (s \<lparr> resend_counter := n \<rparr>) = core_inv s"
  "core_inv (s \<lparr> backoff_node := d \<rparr>) = core_inv s"
  "core_inv (s \<lparr> current_session := a \<rparr>) = core_inv s"
  "core_inv (s \<lparr> current_session_ll := a \<rparr>) = core_inv s"
  "core_inv (s \<lparr> new_buf := bs \<rparr>) = core_inv s"
  "core_inv (s \<lparr> posted := es \<rparr>) = core_inv s"
  by (intro ext, rule core_inv_same_mem, simp add: same_mem_def)+

lemma core_inv_upd_neutral:
  assumes "\<And>e. s_fb (g e) = s_fb e" and "\<And>e. discard_timer (g e) = discard_timer e"
  shows "core_inv (upd_session b g s) xs ys hs lost = core_inv s xs ys hs lost"
proof -
  have fb: "s_fb (session_at (upd_session b g s) c) = s_fb (session_at s c)"
      "discard_timer (session_at (upd_session b g s) c) = discard_timer (session_at s c)" for c
    using assms by (simp_all add: upd_session_def)
  have "same_mem s (upd_session b g s \<lparr> session_at := session_at s \<rparr>)" by (simp add: same_mem_def upd_session_def)
  then show ?thesis unfolding core_inv_def sessions_ok_def fb by (simp add: upd_session_def)
qed

lemma upd_session_simps [simp]:
  "session_list (upd_session b g s) = session_list s" "send_data_list (upd_session b g s) = send_data_list s"
  "sd_next (upd_session b g s) = sd_next s" "session_at (upd_session b g s) = (session_at s)(b := g (session_at s b))"
  "session_memb (upd_session b g s) = session_memb s" "fbs (upd_session b g s) = fbs s" "fb_allocs (upd_session b g s) = fb_allocs s"
  "lock (upd_session b g s) = lock s" "lock_ll (upd_session b g s) = lock_ll s" "current_session (upd_session b g s) = current_session s"
  "current_session_ll (upd_session b g s) = current_session_ll s" "timers (upd_session b g s) = timers s"
  "resend_counter (upd_session b g s) = resend_counter s" "backoff_node (upd_session b g s) = backoff_node s"
  "posted (upd_session b g s) = posted s" "sd_log (upd_session b g s) = sd_log s"
  by (simp_all add: upd_session_def)

section \<open>The life of a session\<close>

text \<open>A new session is lost until it has a frame, and then it is held.\<close>

lemma core_alloc:
  assumes "core_inv s xs ys hs lost" and "memb_alloc (session_memb s) = (b, pool)" and "b \<noteq> 0"
  shows "core_inv (s \<lparr> session_memb := pool \<rparr>) xs ys hs (insert b lost)" "b \<notin> set (xs @ ys @ hs)" "b \<notin> lost"
proof -
  note a = memb_alloc_Some [OF assms(2,3)]
  show n: "b \<notin> set (xs @ ys @ hs)" "b \<notin> lost" using a(1) assms(1) by (simp_all add: core_inv_def)
  show "core_inv (s \<lparr> session_memb := pool \<rparr>) xs ys hs (insert b lost)"
    using a(2,3,5) assms(1) n unfolding core_inv_def sessions_ok_def by auto
qed

lemma frame_create_cases:
  assumes "zw_frame_buffer_create env p cmd s = (f, t)"
  obtains "f = 0" "t = s \<lparr> fb_allocs := fb_allocs s + 1 \<rparr>"
  | fb where "f = fb_allocs s + 1" "t = s \<lparr> fb_allocs := fb_allocs s + 1, fbs := (fbs s)(f \<mapsto> fb) \<rparr>"
      "fb_param fb = p" "unat (frame_len fb) = length cmd" "take (length cmd) (frame_data fb) = cmd"
  using assms
  by (auto simp: zw_frame_buffer_create_def Let_def FRAME_BUFFER_ELEMENT_SIE_def u16_of_nat split: if_splits)

lemma core_new_frame:
  assumes inv: "core_inv s xs ys hs (insert b lost)" and "b \<notin> lost" and c: "zw_frame_buffer_create env p cmd s = (f, t)"
  shows "core_inv (upd_session b (\<lambda>e. e \<lparr> s_fb := f \<rparr>) t) xs ys (if f = 0 then hs else b # hs) (if f = 0 then insert b lost else lost)"
  using c
proof (cases rule: frame_create_cases)
  case 1
  have "b \<notin> set (xs @ ys @ hs)" using inv by (auto simp: core_inv_def)
  then have "sessions_ok (upd_session b (\<lambda>e. e \<lparr> s_fb := f \<rparr>) t) (xs @ ys @ hs)"
    using inv 1 unfolding core_inv_def sessions_ok_def inj_on_def by auto
  then show ?thesis using inv 1 unfolding core_inv_def by auto
next
  case (2 fb)
  have b: "b \<notin> set (xs @ ys @ hs)" using inv by (auto simp: core_inv_def)
  have old: "\<forall>c \<in> set (xs @ ys @ hs). s_fb (session_at s c) \<noteq> f \<and> f \<noteq> s_fb (session_at s c)"
  proof
    fix c assume c: "c \<in> set (xs @ ys @ hs)"
    have "fbs s (s_fb (session_at s c)) \<noteq> None" using inv c by (auto simp: core_inv_def sessions_ok_def)
    then have "s_fb (session_at s c) \<le> fb_allocs s" using inv by (simp add: core_inv_def)
    then show "s_fb (session_at s c) \<noteq> f \<and> f \<noteq> s_fb (session_at s c)" using 2(1) by simp
  qed
  have "f \<noteq> 0" using 2(1) by simp
  moreover have "sessions_ok (upd_session b (\<lambda>e. e \<lparr> s_fb := f \<rparr>) t) (xs @ ys @ b # hs)"
    using inv b old unfolding core_inv_def sessions_ok_def inj_on_def 2(2) by auto
  ultimately show ?thesis using inv assms(2) b 2 old unfolding core_inv_def by auto
qed

text \<open>A held session is put into a list, and taken out of it again.\<close>

lemma is_list_frame: "is_list nxt h xs \<Longrightarrow> (\<And>x. x \<in> set xs \<Longrightarrow> nxt' x = nxt x) \<Longrightarrow> is_list nxt' h xs"
  using linked_frame [of xs nxt nxt' h] by (simp add: is_list_def)

lemma core_nonnull: "core_inv s xs ys hs lost \<Longrightarrow> b \<in> set (xs @ ys @ hs) \<Longrightarrow> b \<noteq> 0"
  by (auto simp: core_inv_def used_blocks_def)

lemma core_add:
  assumes inv: "core_inv s xs ys (b # hs) lost"
  shows "\<exists>l nxt. list_add (send_data_list s) b (sd_next s) = Some (l, nxt)
      \<and> core_inv (s \<lparr> send_data_list := l, sd_next := nxt \<rparr>) xs (ys @ [b]) hs lost"
    and "\<exists>l nxt. list_add (session_list s) b (sd_next s) = Some (l, nxt)
      \<and> core_inv (s \<lparr> session_list := l, sd_next := nxt \<rparr>) (xs @ [b]) ys hs lost"
proof -
  have b: "b \<noteq> 0" "b \<notin> set xs" "b \<notin> set ys" "set xs \<inter> set ys = {}"
    using inv core_nonnull [OF inv, of b] by (auto simp: core_inv_def sessions_ok_def)
  have lx: "is_list (sd_next s) (session_list s) xs" and ly: "is_list (sd_next s) (send_data_list s) ys"
    using inv by (simp_all add: core_inv_def)
  have ok: "sessions_ok t ((xs @ [b]) @ ys @ hs) = sessions_ok t (xs @ ys @ b # hs)"
      "sessions_ok t (xs @ (ys @ [b]) @ hs) = sessions_ok t (xs @ ys @ b # hs)" for t
    by (auto simp: sessions_ok_def insert_commute)
  obtain l nxt where a: "list_add (send_data_list s) b (sd_next s) = Some (l, nxt)" "is_list nxt l (ys @ [b])"
      "\<forall>y. y \<notin> set ys \<and> y \<noteq> b \<longrightarrow> nxt y = sd_next s y"
    using list_add_linked [OF ly b(1)] b(3) by (auto simp: remove1_idem)
  have "is_list nxt (session_list s) xs" using is_list_frame [OF lx] a(3) b by blast
  then show "\<exists>l nxt. list_add (send_data_list s) b (sd_next s) = Some (l, nxt)
      \<and> core_inv (s \<lparr> send_data_list := l, sd_next := nxt \<rparr>) xs (ys @ [b]) hs lost"
    using a inv ok(2) [of s] unfolding core_inv_def sessions_ok_def by auto
  obtain l nxt where a: "list_add (session_list s) b (sd_next s) = Some (l, nxt)" "is_list nxt l (xs @ [b])"
      "\<forall>y. y \<notin> set xs \<and> y \<noteq> b \<longrightarrow> nxt y = sd_next s y"
    using list_add_linked [OF lx b(1)] b(2) by (auto simp: remove1_idem)
  have "is_list nxt (send_data_list s) ys" using is_list_frame [OF ly] a(3) b by blast
  then show "\<exists>l nxt. list_add (session_list s) b (sd_next s) = Some (l, nxt)
      \<and> core_inv (s \<lparr> session_list := l, sd_next := nxt \<rparr>) (xs @ [b]) ys hs lost"
    using a inv ok(1) [of s] unfolding core_inv_def sessions_ok_def by auto
qed

lemma core_pop:
  "core_inv s xs (b # ys) hs lost \<Longrightarrow> discard_timer (session_at s b) = None \<Longrightarrow>
     list_pop (send_data_list s) (sd_next s) = (b, sd_next s b)
     \<and> core_inv (s \<lparr> send_data_list := sd_next s b \<rparr>) xs ys (b # hs) lost"
  "core_inv s (b # xs) ys hs lost \<Longrightarrow>
     list_pop (session_list s) (sd_next s) = (b, sd_next s b)
     \<and> core_inv (s \<lparr> session_list := sd_next s b \<rparr>) xs ys (b # hs) lost"
  "core_inv s xs [] hs lost \<Longrightarrow> send_data_list s = 0"
  "core_inv s [] ys hs lost \<Longrightarrow> session_list s = 0"
  unfolding core_inv_def sessions_ok_def is_list_def list_pop_def by (auto split: if_splits)

lemma core_remove:
  "core_inv s xs ys hs lost \<Longrightarrow> b \<in> set ys \<Longrightarrow> discard_timer (session_at s b) = None \<Longrightarrow>
     \<exists>l nxt. list_remove (send_data_list s) b (sd_next s) = Some (l, nxt)
       \<and> core_inv (s \<lparr> send_data_list := l, sd_next := nxt \<rparr>) xs (remove1 b ys) (b # hs) lost"
  "core_inv s xs ys hs lost \<Longrightarrow> b \<in> set xs \<Longrightarrow>
     \<exists>l nxt. list_remove (session_list s) b (sd_next s) = Some (l, nxt)
       \<and> core_inv (s \<lparr> session_list := l, sd_next := nxt \<rparr>) (remove1 b xs) ys (b # hs) lost"
proof -
  assume inv: "core_inv s xs ys hs lost" and b: "b \<in> set ys" and t: "discard_timer (session_at s b) = None"
  have d: "distinct (xs @ ys @ hs)" and lx: "is_list (sd_next s) (session_list s) xs" and ly: "is_list (sd_next s) (send_data_list s) ys"
    using inv by (simp_all add: core_inv_def sessions_ok_def)
  obtain l nxt where a: "list_remove (send_data_list s) b (sd_next s) = Some (l, nxt)" "is_list nxt l (remove1 b ys)"
      "\<forall>y. y \<notin> set ys \<longrightarrow> nxt y = sd_next s y"
    using list_remove_linked [OF ly] by blast
  have "is_list nxt (session_list s) xs" using is_list_frame [OF lx] a(3) d by auto
  moreover have st: "set (xs @ remove1 b ys @ b # hs) = set (xs @ ys @ hs)" using d b by auto
  moreover have "sessions_ok s (xs @ remove1 b ys @ b # hs)"
    using inv d b unfolding core_inv_def sessions_ok_def st by (auto simp: set_remove1_eq)
  ultimately show "\<exists>l nxt. list_remove (send_data_list s) b (sd_next s) = Some (l, nxt)
       \<and> core_inv (s \<lparr> send_data_list := l, sd_next := nxt \<rparr>) xs (remove1 b ys) (b # hs) lost"
    using a inv t d unfolding core_inv_def sessions_ok_def st by (auto simp: set_remove1_eq)
next
  assume inv: "core_inv s xs ys hs lost" and b: "b \<in> set xs"
  have d: "distinct (xs @ ys @ hs)" and lx: "is_list (sd_next s) (session_list s) xs" and ly: "is_list (sd_next s) (send_data_list s) ys"
    using inv by (simp_all add: core_inv_def sessions_ok_def)
  obtain l nxt where a: "list_remove (session_list s) b (sd_next s) = Some (l, nxt)" "is_list nxt l (remove1 b xs)"
      "\<forall>y. y \<notin> set xs \<longrightarrow> nxt y = sd_next s y"
    using list_remove_linked [OF lx] by blast
  have "is_list nxt (send_data_list s) ys" using is_list_frame [OF ly] a(3) d by auto
  moreover have st: "set (remove1 b xs @ ys @ b # hs) = set (xs @ ys @ hs)" using d b by auto
  moreover have "sessions_ok s (remove1 b xs @ ys @ b # hs)"
    using inv d b unfolding core_inv_def sessions_ok_def st by (auto simp: set_remove1_eq)
  ultimately show "\<exists>l nxt. list_remove (session_list s) b (sd_next s) = Some (l, nxt)
       \<and> core_inv (s \<lparr> session_list := l, sd_next := nxt \<rparr>) (remove1 b xs) ys (b # hs) lost"
    using a inv d unfolding core_inv_def sessions_ok_def st by (auto simp: set_remove1_eq)
qed

text \<open>A held session ends: with its frame, or without, when the frame is leaked.\<close>

lemma core_abandon:
  assumes inv: "core_inv s xs ys (b # hs) lost"
  shows "core_inv (s \<lparr> session_memb := snd (memb_free (session_memb s) b) \<rparr>) xs ys hs lost"
proof -
  have u: "memb_ok (session_memb s)" "b \<in> used_blocks (session_memb s)" using inv by (auto simp: core_inv_def)
  have "b \<notin> set (xs @ ys @ hs)" "b \<notin> lost" using inv by (auto simp: core_inv_def sessions_ok_def)
  then show ?thesis using memb_free_used [OF u] inv unfolding core_inv_def sessions_ok_def by auto
qed

lemma core_free_lost:
  assumes inv: "core_inv s xs ys hs (insert b lost)" and "b \<notin> lost"
  shows "core_inv (s \<lparr> session_memb := snd (memb_free (session_memb s) b) \<rparr>) xs ys hs lost"
proof -
  have u: "memb_ok (session_memb s)" "b \<in> used_blocks (session_memb s)" using inv by (auto simp: core_inv_def)
  then show ?thesis using memb_free_used [OF u] inv assms(2) unfolding core_inv_def by auto
qed

lemma core_free:
  assumes inv: "core_inv s xs ys (b # hs) lost"
  defines "t \<equiv> s \<lparr> fbs := (fbs s)(s_fb (session_at s b) := None) \<rparr>"
  shows "zw_frame_buffer_free (s_fb (session_at s b)) s = Some t"
    and "core_inv (t \<lparr> session_memb := snd (memb_free (session_memb t) b) \<rparr>) xs ys hs lost"
proof -
  let ?f = "s_fb (session_at s b)"
  have f: "fbs s ?f \<noteq> None" "?f \<noteq> 0" using inv by (auto simp: core_inv_def sessions_ok_def)
  then show "zw_frame_buffer_free ?f s = Some t" by (auto simp: zw_frame_buffer_free_def t_def)
  have "s_fb (session_at s c) \<noteq> ?f" if "c \<in> set (xs @ ys @ hs)" for c
    using inv that unfolding core_inv_def sessions_ok_def inj_on_def by auto
  then have "sessions_ok t (xs @ ys @ hs)"
    using inv unfolding core_inv_def sessions_ok_def inj_on_def t_def by auto
  moreover have "core_inv (s \<lparr> session_memb := snd (memb_free (session_memb s) b) \<rparr>) xs ys hs lost"
    using core_abandon [OF inv] .
  ultimately show "core_inv (t \<lparr> session_memb := snd (memb_free (session_memb t) b) \<rparr>) xs ys hs lost"
    unfolding core_inv_def sessions_ok_def by (auto simp: t_def)
qed

section \<open>Queueing\<close>

text \<open>What a session that has just been queued contains.\<close>

definition session_has :: "sd_state \<Rightarrow> addr \<Rightarrow> ts_param_t \<Rightarrow> bytes \<Rightarrow> sd_callback \<Rightarrow> addr \<Rightarrow> bool" where
  "session_has s b p cmd cb u \<longleftrightarrow> s_callback (session_at s b) = cb \<and> s_user (session_at s b) = u
     \<and> (\<exists>fb. session_fb s b = Some fb \<and> fb_param fb = p \<and> take (unat (frame_len fb)) (frame_data fb) = cmd
          \<and> unat (frame_len fb) = length cmd)"

definition room :: "sd_env \<Rightarrow> bytes \<Rightarrow> sd_state \<Rightarrow> bool" where
  "room env cmd s \<longleftrightarrow> memb_free_count (session_memb s) \<noteq> 0 \<and> malloc_ok env (fb_allocs s) \<and> length cmd < FRAME_BUFFER_ELEMENT_SIE"

lemma room_alloc:
  assumes "memb_alloc (session_memb s) = (b, pool)" and "zw_frame_buffer_create env p cmd u = (f, t)" and "fb_allocs u = fb_allocs s"
  shows "room env cmd s \<longleftrightarrow> b \<noteq> 0 \<and> f \<noteq> 0"
proof -
  have "f = fst (zw_frame_buffer_create env p cmd u)" using assms(2) by simp
  then have "f \<noteq> 0 \<longleftrightarrow> malloc_ok env (fb_allocs s) \<and> length cmd < FRAME_BUFFER_ELEMENT_SIE"
    by (simp add: zw_frame_buffer_create_def Let_def assms(3))
  moreover have "b \<noteq> 0 \<longleftrightarrow> memb_free_count (session_memb s) \<noteq> 0" using memb_alloc_None [of "session_memb s"] assms(1) by simp
  ultimately show ?thesis by (auto simp: room_def)
qed

lemma discard_timer_core:
  assumes "core_inv s xs ys hs lost" and "b \<in> set ys"
    and "d \<noteq> None \<Longrightarrow> session_fb s b = Some fb \<and> discard_timeout (fb_param fb) \<noteq> 0"
  shows "core_inv (upd_session b (\<lambda>e. e \<lparr> discard_timer := d \<rparr>) s) xs ys hs lost"
proof -
  have fb: "s_fb (session_at (upd_session b (\<lambda>e. e \<lparr> discard_timer := d \<rparr>) s) c) = s_fb (session_at s c)" for c by simp
  have "sessions_ok (upd_session b (\<lambda>e. e \<lparr> discard_timer := d \<rparr>) s) (xs @ ys @ hs) = sessions_ok s (xs @ ys @ hs)"
    unfolding sessions_ok_def fb by simp
  then show ?thesis using assms unfolding core_inv_def by (simp del: fun_upd_apply) simp
qed

lemma send_data_core:
  assumes inv: "core_inv s xs ys hs lost"
  obtains r t zs lost' where "send_data env p cmd cb u s = Some (r, t)" "core_inv t xs (ys @ zs) hs lost'" "same_ctl s t"
    "keeps (set (xs @ ys @ hs)) s t" "r \<longleftrightarrow> room env cmd s" "if r then \<exists>b. zs = [b] \<and> session_has t b p cmd cb u \<and> lost' = lost else zs = []"
    "sd_log t = sd_log s" "posted t = posted s @ (if r then [SEND_EVENT_SEND_NEXT_LL] else [])"
proof -
  obtain b pool where a: "memb_alloc (session_memb s) = (b, pool)" by (cases "memb_alloc (session_memb s)")
  let ?s1 = "s \<lparr> session_memb := pool \<rparr>"
  obtain f s2 where c: "zw_frame_buffer_create env p cmd ?s1 = (f, s2)" by (cases "zw_frame_buffer_create env p cmd ?s1")
  have rm: "room env cmd s \<longleftrightarrow> b \<noteq> 0 \<and> f \<noteq> 0" by (rule room_alloc [OF a c]) simp
  let ?s3 = "upd_session b (\<lambda>e. e \<lparr> s_fb := f \<rparr>) s2"
  consider "b = 0" | "b \<noteq> 0" "f = 0" | "b \<noteq> 0" "f \<noteq> 0" by blast
  then show thesis
  proof cases
    case 1
    then show ?thesis using that [of False s "[]" lost] inv a rm by (simp add: send_data_def)
  next
    case 2
    note n = core_alloc [OF inv a 2(1)]
    have "core_inv ?s3 xs ys hs (insert b lost)" using core_new_frame [OF n(1,3) c] 2 by simp
    moreover have "s2 = ?s1 \<lparr> fb_allocs := fb_allocs s + 1 \<rparr>" using c 2 by (cases rule: frame_create_cases) auto
    ultimately show ?thesis
      using that [of False ?s3 "[]" "insert b lost"] a c 2 rm n(2) by (auto simp: send_data_def Let_def same_ctl_def keeps_def)
  next
    case 3
    note n = core_alloc [OF inv a 3(1)]
    let ?s4 = "upd_session b (\<lambda>e. e \<lparr> s_user := u, s_callback := cb \<rparr>) ?s3"
    have "core_inv ?s3 xs ys (b # hs) lost" using core_new_frame [OF n(1,3) c] 3 by simp
    then have "core_inv ?s4 xs ys (b # hs) lost" by (subst core_inv_upd_neutral) simp_all
    then obtain l nxt where l: "list_add (send_data_list ?s4) b (sd_next ?s4) = Some (l, nxt)"
        "core_inv (?s4 \<lparr> send_data_list := l, sd_next := nxt \<rparr>) xs (ys @ [b]) hs lost"
      using core_add(1) by blast
    let ?s5 = "?s4 \<lparr> send_data_list := l, sd_next := nxt \<rparr>"
    let ?t = "process_post SEND_EVENT_SEND_NEXT_LL (if discard_timeout p \<noteq> 0
        then upd_session b (\<lambda>e. e \<lparr> discard_timer := Some (unat (discard_timeout p)) \<rparr>) ?s5 else ?s5)"
    obtain fb where fb: "s2 = ?s1 \<lparr> fb_allocs := fb_allocs s + 1, fbs := (fbs s)(f \<mapsto> fb) \<rparr>"
        "fb_param fb = p" "unat (frame_len fb) = length cmd" "take (length cmd) (frame_data fb) = cmd"
      using c 3 by (cases rule: frame_create_cases) auto
    have "send_data env p cmd cb u s = Some (True, ?t)"
      using a c 3 l(1) by (simp add: send_data_def Let_def)
    moreover have "core_inv ?t xs (ys @ [b]) hs lost" using l(2) discard_timer_core [OF l(2), of b _ fb] fb(1,2) by simp
    moreover have "session_has ?t b p cmd cb u" "same_ctl s ?t" "keeps (set (xs @ ys @ hs)) s ?t" "sd_log ?t = sd_log s"
        "posted ?t = posted s @ [SEND_EVENT_SEND_NEXT_LL]"
      using fb n(2) by (auto simp: session_has_def same_ctl_def keeps_def)
    ultimately show ?thesis using that [of True ?t "[b]" lost] rm 3 by auto
  qed
qed

text \<open>The frame the radio gets for a command: a command for no operation is adapted to a long range node.\<close>

definition appl_frame :: "ts_param_t \<Rightarrow> bytes \<Rightarrow> bytes" where
  "appl_frame p pData = (if pData ! 0 = 0x00 \<and> is_lr_node (dnode p) then [0x04, 0x00] else pData)"

lemma send_data_appl_core:
  assumes inv: "core_inv s xs ys hs lost"
  obtains r t zs where "ZW_SendDataAppl env p pData cb u s = Some (r, t)" "core_inv t (xs @ zs) ys hs lost" "same_ctl s t"
    "keeps (set (xs @ ys @ hs)) s t" "r \<noteq> 0 \<longleftrightarrow> room env (appl_frame p pData) s"
    "if r = 0 then zs = [] else zs = [r] \<and> session_has t r p (appl_frame p pData) cb u
       \<and> (reset_span (session_at t r) \<longleftrightarrow> pData ! 0 = 0x7A \<and> pData ! 1 = 0x08 \<or> reset_span (session_at s r))"
    "sd_log t = sd_log s" "posted t = posted s @ (if r = 0 then [] else [SEND_EVENT_SEND_NEXT])"
proof -
  obtain b pool where a: "memb_alloc (session_memb s) = (b, pool)" by (cases "memb_alloc (session_memb s)")
  let ?s0 = "s \<lparr> session_memb := pool \<rparr>"
  let ?s1 = "if pData ! 0 = 0x7A \<and> pData ! 1 = 0x08 then upd_session b (\<lambda>e. e \<lparr> reset_span := True \<rparr>) ?s0 else ?s0"
  let ?cmd = "appl_frame p pData"
  obtain f s2 where c: "zw_frame_buffer_create env p ?cmd ?s1 = (f, s2)" by (cases "zw_frame_buffer_create env p ?cmd ?s1")
  have rm: "room env ?cmd s \<longleftrightarrow> b \<noteq> 0 \<and> f \<noteq> 0" by (rule room_alloc [OF a c]) simp
  let ?s3 = "upd_session b (\<lambda>e. e \<lparr> s_fb := f \<rparr>) s2"
  consider "b = 0" | "b \<noteq> 0" "f = 0" | "b \<noteq> 0" "f \<noteq> 0" by blast
  then show thesis
  proof cases
    case 1
    then show ?thesis using that [of 0 s "[]"] inv a rm by (simp add: ZW_SendDataAppl_def)
  next
    case 2
    note n = core_alloc [OF inv a 2(1)]
    have "core_inv ?s1 xs ys hs (insert b lost)" using n(1) by (simp add: core_inv_upd_neutral)
    then have i3: "core_inv ?s3 xs ys hs (insert b lost)" using core_new_frame [OF _ n(3) c] 2 by simp
    let ?t = "?s3 \<lparr> session_memb := snd (memb_free (session_memb ?s3) b) \<rparr>"
    have "s2 = ?s1 \<lparr> fb_allocs := fb_allocs s + 1 \<rparr>" using c 2 by (cases rule: frame_create_cases) auto
    then show ?thesis
      using that [of 0 ?t "[]"] core_free_lost [OF i3 n(3)] a c 2 rm n(2)
      by (auto simp: ZW_SendDataAppl_def Let_def same_ctl_def keeps_def appl_frame_def)
  next
    case 3
    note n = core_alloc [OF inv a 3(1)]
    let ?s4 = "upd_session b (\<lambda>e. e \<lparr> s_user := u, s_callback := cb \<rparr>) ?s3"
    have "core_inv ?s1 xs ys hs (insert b lost)" using n(1) by (simp add: core_inv_upd_neutral)
    then have "core_inv ?s3 xs ys (b # hs) lost" using core_new_frame [OF _ n(3) c] 3 by simp
    then have "core_inv ?s4 xs ys (b # hs) lost" by (subst core_inv_upd_neutral) simp_all
    then obtain l nxt where l: "list_add (session_list ?s4) b (sd_next ?s4) = Some (l, nxt)"
        "core_inv (?s4 \<lparr> session_list := l, sd_next := nxt \<rparr>) (xs @ [b]) ys hs lost"
      using core_add(2) by blast
    let ?t = "process_post SEND_EVENT_SEND_NEXT (?s4 \<lparr> session_list := l, sd_next := nxt \<rparr>)"
    obtain fb where fb: "s2 = ?s1 \<lparr> fb_allocs := fb_allocs s + 1, fbs := (fbs s)(f \<mapsto> fb) \<rparr>"
        "fb_param fb = p" "unat (frame_len fb) = length ?cmd" "take (length ?cmd) (frame_data fb) = ?cmd"
      using c 3 by (cases rule: frame_create_cases) (auto simp del: One_nat_def split: if_splits)
    have "ZW_SendDataAppl env p pData cb u s = Some (b, ?t)"
      using a c 3 l(1) unfolding appl_frame_def by (simp add: ZW_SendDataAppl_def Let_def)
    moreover have "core_inv ?t (xs @ [b]) ys hs lost" using l(2) by simp
    moreover have "session_has ?t b p ?cmd cb u" "same_ctl s ?t" "keeps (set (xs @ ys @ hs)) s ?t" "sd_log ?t = sd_log s"
        "posted ?t = posted s @ [SEND_EVENT_SEND_NEXT]"
        "reset_span (session_at ?t b) \<longleftrightarrow> pData ! 0 = 0x7A \<and> pData ! 1 = 0x08 \<or> reset_span (session_at s b)"
      using fb n(2) by (auto simp: session_has_def same_ctl_def keeps_def split: if_splits)
    ultimately show ?thesis using that [of b ?t "[b]"] rm 3 by auto
  qed
qed

section \<open>Reports\<close>

text \<open>
  The callback \<^verbatim>\<open>ZW_SendDataAppl_CallbackEx\<close> is that of at most one low-level session, which carries the application frame
  under way.
\<close>

abbreviation is_ce :: "sd_state \<Rightarrow> addr \<Rightarrow> bool" where
  "is_ce s b \<equiv> s_callback (session_at s b) = Callback_ex"

definition ce_ok :: "sd_state \<Rightarrow> addr list \<Rightarrow> addr list \<Rightarrow> bool" where
  "ce_ok s xs ys \<longleftrightarrow> (\<forall>x \<in> set xs. \<not> is_ce s x) \<and> (\<forall>y \<in> set ys. is_ce s y \<longrightarrow> lock s \<and> s_user (session_at s y) = current_session s)
     \<and> length (filter (is_ce s) ys) \<le> 1"

definition flight :: "sd_state \<Rightarrow> addr list" where
  "flight s = (if lock s then [current_session s] else [])"

lemma app_cb_neq [simp]: "app_cb cb \<noteq> Callback_ex"
  by (simp add: app_cb_def split: option.split)

text \<open>Adding frames: both lists may grow at the end, by sessions of the application.\<close>

definition grown :: "sd_state \<Rightarrow> addr list \<Rightarrow> addr list \<Rightarrow> addr list \<Rightarrow> sd_state \<Rightarrow> addr list \<Rightarrow> addr list \<Rightarrow> bool" where
  "grown s xs ys hs t xs' ys' \<longleftrightarrow> (\<exists>us vs. xs' = xs @ us \<and> ys' = ys @ vs \<and> (\<forall>b \<in> set us \<union> set vs. \<not> is_ce t b))
     \<and> keeps (set (xs @ ys @ hs)) s t"

lemma grown_refl [simp]: "grown s xs ys hs s xs ys"
  by (simp add: grown_def)

lemma grown_trans:
  assumes "grown s xs ys hs t xs' ys'" and "grown t xs' ys' hs u xs'' ys''"
  shows "grown s xs ys hs u xs'' ys''"
proof -
  obtain us vs where 1: "xs' = xs @ us" "ys' = ys @ vs" "\<forall>b \<in> set us \<union> set vs. \<not> is_ce t b" using assms(1) by (auto simp: grown_def)
  obtain us' vs' where 2: "xs'' = xs' @ us'" "ys'' = ys' @ vs'" "\<forall>b \<in> set us' \<union> set vs'. \<not> is_ce u b" using assms(2) by (auto simp: grown_def)
  have k: "keeps (set (xs' @ ys' @ hs)) t u" "keeps (set (xs @ ys @ hs)) s t" using assms by (simp_all add: grown_def)
  have "\<forall>b \<in> set us \<union> set vs. \<not> is_ce u b" using 1 k(1) by (auto simp: keeps_def)
  moreover have "keeps (set (xs @ ys @ hs)) s u" using k 1 by (auto simp: keeps_def)
  ultimately show ?thesis using 1 2 unfolding grown_def by (intro conjI exI [of _ "us @ us'"] exI [of _ "vs @ vs'"]) auto
qed

lemma grown_ce_ok:
  assumes "grown s xs ys hs t xs' ys'" and "ce_ok s xs ys" and "lock t = lock s" and "current_session t = current_session s"
  shows "ce_ok t xs' ys'"
proof -
  obtain us vs where 1: "xs' = xs @ us" "ys' = ys @ vs" "\<forall>b \<in> set us \<union> set vs. \<not> is_ce t b" and k: "keeps (set (xs @ ys @ hs)) s t"
    using assms(1) by (auto simp: grown_def)
  have "filter (is_ce t) ys = filter (is_ce s) ys" using k by (intro filter_cong) (auto simp: keeps_def)
  moreover have "filter (is_ce t) vs = []" using 1(3) by (simp add: filter_empty_conv)
  ultimately show ?thesis using assms(2-4) 1 k unfolding ce_ok_def keeps_def by auto
qed

lemma react_core:
  assumes "core_inv s xs ys hs lost"
  shows "\<exists>t xs' ys' lost'. react env r s = Some t \<and> core_inv t xs' ys' hs lost' \<and> same_ctl s t \<and> grown s xs ys hs t xs' ys'"
proof (cases r)
  case (Req_appl p d cb u)
  obtain n t zs where t: "ZW_SendDataAppl env p d (app_cb cb) u s = Some (n, t)" "core_inv t (xs @ zs) ys hs lost" "same_ctl s t"
      "keeps (set (xs @ ys @ hs)) s t" "n \<noteq> 0 \<longleftrightarrow> room env (appl_frame p d) s"
      "if n = 0 then zs = [] else zs = [n] \<and> session_has t n p (appl_frame p d) (app_cb cb) u
         \<and> (reset_span (session_at t n) \<longleftrightarrow> d ! 0 = 0x7A \<and> d ! 1 = 0x08 \<or> reset_span (session_at s n))"
      "sd_log t = sd_log s" "posted t = posted s @ (if n = 0 then [] else [SEND_EVENT_SEND_NEXT])"
    by (rule send_data_appl_core [OF assms])
  then have "\<forall>b \<in> set zs. \<not> is_ce t b" by (auto simp: session_has_def split: if_splits)
  then show ?thesis using Req_appl t unfolding react_def grown_def
    by (intro exI [of _ t] exI [of _ "xs @ zs"] exI [of _ ys] exI [of _ lost]) auto
next
  case (Req_ll p d cb u)
  obtain n t zs lost' where t: "send_data env p d (app_cb cb) u s = Some (n, t)" "core_inv t xs (ys @ zs) hs lost'" "same_ctl s t"
      "keeps (set (xs @ ys @ hs)) s t" "n \<longleftrightarrow> room env d s"
      "if n then \<exists>b. zs = [b] \<and> session_has t b p d (app_cb cb) u \<and> lost' = lost else zs = []"
      "sd_log t = sd_log s" "posted t = posted s @ (if n then [SEND_EVENT_SEND_NEXT_LL] else [])"
    by (rule send_data_core [OF assms])
  then have "\<forall>b \<in> set zs. \<not> is_ce t b" by (auto simp: session_has_def split: if_splits)
  then show ?thesis using Req_ll t unfolding react_def grown_def
    by (intro exI [of _ t] exI [of _ xs] exI [of _ "ys @ zs"] exI [of _ lost']) auto
qed

lemma react_all_core:
  "core_inv s xs ys hs lost \<Longrightarrow>
     \<exists>t xs' ys' lost'. react_all env rs s = Some t \<and> core_inv t xs' ys' hs lost' \<and> same_ctl s t \<and> grown s xs ys hs t xs' ys'"
proof (induction rs arbitrary: s xs ys lost)
  case Nil
  then show ?case by (intro exI [of _ s] exI [of _ xs] exI [of _ ys] exI [of _ lost]) simp
next
  case (Cons r rs)
  obtain t xs' ys' lost' where t: "react env r s = Some t" "core_inv t xs' ys' hs lost'" "same_ctl s t" "grown s xs ys hs t xs' ys'"
    using react_core [OF Cons.prems] by blast
  obtain u xs'' ys'' lost'' where "react_all env rs t = Some u" "core_inv u xs'' ys'' hs lost''" "same_ctl t u" "grown t xs' ys' hs u xs'' ys''"
    using Cons.IH [OF t(2)] by blast
  then show ?case using t(1) same_ctl_trans [OF t(3)] grown_trans [OF t(4)]
    by (intro exI [of _ u] exI [of _ xs''] exI [of _ ys''] exI [of _ lost'']) simp
qed

lemma call_app_core:
  assumes "core_inv s xs ys hs lost"
  shows "\<exists>t xs' ys' lost'. call_app env cb status u ts s = Some t \<and> core_inv t xs' ys' hs lost' \<and> same_ctl s t \<and> grown s xs ys hs t xs' ys'"
proof -
  let ?s = "sd_emit (Report cb status u ts) s"
  have "core_inv ?s xs ys hs lost" using assms by simp
  then obtain t xs' ys' lost' where "react_all env (reaction env (sd_log ?s)) ?s = Some t" "core_inv t xs' ys' hs lost'" "same_ctl ?s t"
      "grown ?s xs ys hs t xs' ys'"
    using react_all_core by blast
  then show ?thesis unfolding call_app_def Let_def
    by (intro exI [of _ t] exI [of _ xs'] exI [of _ ys'] exI [of _ lost']) (simp add: same_ctl_def grown_def keeps_def)
qed

text \<open>The report on an application frame ends its session and opens the lock.\<close>

lemma after_report_simps [simp]:
  "lock (after_report env status u ts fb s) = False" "lock_ll (after_report env status u ts fb s) = lock_ll s"
  "current_session (after_report env status u ts fb s) = current_session s"
  "resend_counter (after_report env status u ts fb s) = resend_counter s"
  "s_fb (session_at (after_report env status u ts fb s) b) = s_fb (session_at s b)"
  "s_user (session_at (after_report env status u ts fb s) b) = s_user (session_at s b)"
  "s_callback (session_at (after_report env status u ts fb s) b) = s_callback (session_at s b)"
  "b \<noteq> u \<Longrightarrow> session_at (after_report env status u ts fb s) b = session_at s b"
  by (simp_all add: after_report_def Let_def split: option.splits)

lemma core_after_report [simp]: "core_inv (after_report env status u ts fb s) xs ys hs lost = core_inv s xs ys hs lost"
  by (simp add: after_report_def Let_def core_inv_upd_neutral split: option.splits)

lemma callback_ex_core:
  assumes inv: "core_inv s xs ys (u # hs) lost" and "lock s"
  shows "\<exists>t xs' ys' lost'. ZW_SendDataAppl_CallbackEx env status u ts s = Some t \<and> core_inv t xs' ys' hs lost'
    \<and> grown s xs ys hs t xs' ys' \<and> \<not> lock t \<and> lock_ll t = lock_ll s \<and> current_session t = current_session s"
proof -
  obtain fb where fb: "session_fb s u = Some fb" using inv by (auto simp: core_inv_def sessions_ok_def)
  let ?a = "after_report env status u ts fb s"
  let ?f = "?a \<lparr> fbs := (fbs ?a)(s_fb (session_at ?a u) := None) \<rparr>"
  let ?m = "?f \<lparr> session_memb := snd (memb_free (session_memb ?f) u) \<rparr>"
  have "core_inv ?a xs ys (u # hs) lost" using inv by simp
  note fr = core_free [OF this]
  have eq: "ZW_SendDataAppl_CallbackEx env status u ts s =
      (case s_callback (session_at s u) of App_cb cb \<Rightarrow> call_app env cb status (s_user (session_at s u)) ts ?m | _ \<Rightarrow> Some ?m)"
    unfolding ZW_SendDataAppl_CallbackEx_def using assms(2) fb fr(1) by (simp add: Let_def split: sd_callback.split)
  have "\<forall>b \<in> set (xs @ ys @ hs). b \<noteq> u" using inv by (auto simp: core_inv_def sessions_ok_def)
  then have g: "grown s xs ys hs ?m xs ys" unfolding grown_def keeps_def by auto
  show ?thesis
  proof (cases "s_callback (session_at s u)")
    case (App_cb cb)
    obtain t xs' ys' lost' where "call_app env cb status (s_user (session_at s u)) ts ?m = Some t" "core_inv t xs' ys' hs lost'"
        "same_ctl ?m t" "grown ?m xs ys hs t xs' ys'"
      using call_app_core [OF fr(2)] by blast
    then show ?thesis using eq App_cb grown_trans [OF g]
      by (intro exI [of _ t] exI [of _ xs'] exI [of _ ys'] exI [of _ lost']) (simp add: same_ctl_def)
  qed (use eq fr(2) g in \<open>intro exI [of _ ?m] exI [of _ xs] exI [of _ ys] exI [of _ lost], simp\<close>)+
qed

lemma core_swap: "core_inv s xs ys (a # b # hs) lost = core_inv s xs ys (b # a # hs) lost"
  unfolding core_inv_def sessions_ok_def by (auto simp: insert_commute)

text \<open>
  The callback of a low-level session that has left the list; \<open>held\<close> is that session, while its frame is not yet freed, or nothing.
\<close>

lemma call_callback_core:
  assumes inv: "core_inv s xs ys (held @ flight s) lost" and ce: "ce_ok s xs (b # ys)" and held: "held \<in> {[], [b]}"
  shows "\<exists>t xs' ys' lost'. call_callback env status b ts s = Some t \<and> core_inv t xs' ys' (held @ flight t) lost'
    \<and> ce_ok t xs' ys' \<and> grown s xs ys held t xs' ys' \<and> lock_ll t = lock_ll s"
proof -
  have ce': "ce_ok s xs ys" using ce by (auto simp: ce_ok_def split: if_splits)
  show ?thesis
  proof (cases "s_callback (session_at s b)")
    case No_cb
    then show ?thesis using inv ce'
      by (intro exI [of _ s] exI [of _ xs] exI [of _ ys] exI [of _ lost]) (simp add: call_callback_def)
  next
    case (App_cb cb)
    obtain t xs' ys' lost' where t: "call_app env cb status (s_user (session_at s b)) ts s = Some t"
        "core_inv t xs' ys' (held @ flight s) lost'" "same_ctl s t" "grown s xs ys (held @ flight s) t xs' ys'"
      using call_app_core [OF inv] by blast
    moreover have "flight t = flight s" using t(3) by (simp add: flight_def same_ctl_def)
    moreover have "grown s xs ys held t xs' ys'" using t(4) by (auto simp: grown_def keeps_def)
    moreover have "ce_ok t xs' ys'" using grown_ce_ok [OF t(4) ce'] t(3) by (simp add: same_ctl_def)
    ultimately show ?thesis using App_cb
      by (intro exI [of _ t] exI [of _ xs'] exI [of _ ys'] exI [of _ lost']) (simp add: call_callback_def same_ctl_def)
  next
    case Callback_ex
    then have l: "lock s" "s_user (session_at s b) = current_session s" and no: "\<forall>y \<in> set ys. \<not> is_ce s y"
      using ce by (auto simp: ce_ok_def filter_empty_conv)
    have "core_inv s xs ys (current_session s # held) lost"
      using inv l(1) held by (auto simp: flight_def core_swap)
    then obtain t xs' ys' lost' where t: "ZW_SendDataAppl_CallbackEx env status (current_session s) ts s = Some t"
        "core_inv t xs' ys' held lost'" "grown s xs ys held t xs' ys'" "\<not> lock t" "lock_ll t = lock_ll s"
      using callback_ex_core l(1) by blast
    moreover have "flight t = []" using t(4) by (simp add: flight_def)
    moreover have "\<forall>b \<in> set xs' \<union> set ys'. \<not> is_ce t b"
      using t(3) no ce' unfolding grown_def keeps_def ce_ok_def by auto
    then have "ce_ok t xs' ys'" by (auto simp: ce_ok_def filter_empty_conv [THEN iffD2])
    ultimately show ?thesis using Callback_ex l(2)
      by (intro exI [of _ t] exI [of _ xs'] exI [of _ ys'] exI [of _ lost']) (simp add: call_callback_def)
  qed
qed

section \<open>The invariant of the sender\<close>

definition sd_inv :: "sd_state \<Rightarrow> addr list \<Rightarrow> addr list \<Rightarrow> bool" where
  "sd_inv s xs ys \<longleftrightarrow> (\<exists>lost. core_inv s xs ys (flight s) lost) \<and> ce_ok s xs ys
     \<and> (lock_ll s \<longrightarrow> ys \<noteq> [] \<and> discard_timer (session_at s (hd ys)) = None)"

lemma sd_invI:
  "core_inv s xs ys (flight s) lost \<Longrightarrow> ce_ok s xs ys \<Longrightarrow> \<not> lock_ll s \<or> ys \<noteq> [] \<and> discard_timer (session_at s (hd ys)) = None \<Longrightarrow>
   sd_inv s xs ys"
  by (auto simp: sd_inv_def)

lemma flight_simps [simp]:
  "flight (sd_emit e s) = flight s" "flight (process_post v s) = flight s" "flight (set_timer tm w s) = flight s"
  "flight (upd_session b g s) = flight s" "flight (s \<lparr> lock_ll := l \<rparr>) = flight s" "flight (s \<lparr> resend_counter := n \<rparr>) = flight s"
  "flight (s \<lparr> send_data_list := h \<rparr>) = flight s" "flight (s \<lparr> session_memb := m \<rparr>) = flight s" "flight (s \<lparr> fbs := f \<rparr>) = flight s"
  "flight (s \<lparr> sd_next := nx \<rparr>) = flight s" "flight (s \<lparr> session_list := h \<rparr>) = flight s" "flight (s \<lparr> posted := es \<rparr>) = flight s"
  "flight (s \<lparr> current_session_ll := c \<rparr>) = flight s" "flight (s \<lparr> new_buf := bs \<rparr>) = flight s"
  by (simp_all add: flight_def)

text \<open>Whether the callbacks are right depends on the sessions and the lock only.\<close>

lemma ce_ok_cong:
  "(\<And>b. b \<in> set (xs @ ys) \<Longrightarrow> s_callback (session_at t b) = s_callback (session_at s b) \<and> s_user (session_at t b) = s_user (session_at s b)) \<Longrightarrow>
   lock t = lock s \<Longrightarrow> current_session t = current_session s \<Longrightarrow> ce_ok t xs ys = ce_ok s xs ys"
  unfolding ce_ok_def by (auto cong: filter_cong)

lemma ce_ok_simps [simp]:
  "ce_ok (sd_emit e s) xs ys = ce_ok s xs ys" "ce_ok (process_post v s) xs ys = ce_ok s xs ys" "ce_ok (set_timer tm w s) xs ys = ce_ok s xs ys"
  "ce_ok (s \<lparr> lock_ll := l \<rparr>) xs ys = ce_ok s xs ys" "ce_ok (s \<lparr> resend_counter := n \<rparr>) xs ys = ce_ok s xs ys"
  "ce_ok (s \<lparr> send_data_list := h \<rparr>) xs ys = ce_ok s xs ys" "ce_ok (s \<lparr> session_memb := m \<rparr>) xs ys = ce_ok s xs ys"
  "ce_ok (s \<lparr> fbs := f \<rparr>) xs ys = ce_ok s xs ys" "ce_ok (s \<lparr> sd_next := nx \<rparr>) xs ys = ce_ok s xs ys"
  "ce_ok (s \<lparr> session_list := h \<rparr>) xs ys = ce_ok s xs ys" "ce_ok (s \<lparr> posted := es \<rparr>) xs ys = ce_ok s xs ys"
  "ce_ok (s \<lparr> current_session_ll := c \<rparr>) xs ys = ce_ok s xs ys" "ce_ok (s \<lparr> new_buf := bs \<rparr>) xs ys = ce_ok s xs ys"
  "ce_ok (upd_session b (\<lambda>e. e \<lparr> discard_timer := d \<rparr>) s) xs ys = ce_ok s xs ys"
  by (rule ce_ok_cong; simp)+

text \<open>The report of the radio.\<close>

lemma send_data_fail_inv:
  assumes inv: "core_inv s xs (y # ys) (flight s) lost" and ce: "ce_ok s xs (y # ys)" and d: "discard_timer (session_at s y) = None"
  shows "\<exists>t xs' ys' lost'. send_data_fail env ts s = Some t \<and> core_inv t xs' ys' (flight t) lost' \<and> ce_ok t xs' ys'"
proof -
  let ?s = "s \<lparr> send_data_list := sd_next s y \<rparr>"
  have pop: "list_pop (send_data_list s) (sd_next s) = (y, sd_next s y)" "core_inv ?s xs ys ([y] @ flight ?s) lost"
    using core_pop(1) [OF inv d] by simp_all
  have y: "y \<noteq> 0" using core_nonnull [OF inv, of y] by simp
  obtain t xs' ys' lost' where t: "call_callback env TRANSMIT_COMPLETE_FAIL y ts ?s = Some t" "core_inv t xs' ys' ([y] @ flight t) lost'"
      "ce_ok t xs' ys'"
    using call_callback_core [OF pop(2), of y env TRANSMIT_COMPLETE_FAIL ts] ce by auto
  have "core_inv t xs' ys' (y # flight t) lost'" using t(2) by simp
  note f = core_free [OF this]
  show ?thesis
    using pop(1) y t f
    by (intro exI [of _ "process_post SEND_EVENT_SEND_NEXT_LL ((t \<lparr> fbs := (fbs t)(s_fb (session_at t y) := None) \<rparr>)
          \<lparr> session_memb := snd (memb_free (session_memb t) y) \<rparr>)"] exI [of _ xs'] exI [of _ ys'] exI [of _ lost'])
       (simp add: send_data_fail_def Let_def)
qed

lemma radio_report_inv:
  assumes "sd_inv s xs ys"
  shows "\<exists>t xs' ys'. send_data_callback_func env status ts s = Some t \<and> sd_inv t xs' ys'"
proof (cases "lock_ll s")
  case False
  then show ?thesis using assms by (auto simp: send_data_callback_func_def Let_def)
next
  case True
  obtain y zs lost where ys: "ys = y # zs" "discard_timer (session_at s y) = None" and inv: "core_inv s xs (y # zs) (flight s) lost"
      and ce: "ce_ok s xs (y # zs)"
    using assms True by (cases ys) (auto simp: sd_inv_def)
  show ?thesis
  proof (cases "status = TRANSMIT_COMPLETE_FAIL")
    case fail: True
    let ?s = "etimer_stop Emergency_timer s"
    show ?thesis
    proof (cases "resend_counter s = 0")
      case True
      obtain t xs' ys' lost' where "send_data_fail env ts ?s = Some t" "core_inv t xs' ys' (flight t) lost'" "ce_ok t xs' ys'"
        using send_data_fail_inv [of ?s xs y zs lost env ts] inv ce ys by auto
      then show ?thesis using \<open>lock_ll s\<close> fail True
        by (intro exI [of _ "t \<lparr> lock_ll := False \<rparr>"] exI [of _ xs'] exI [of _ ys'])
           (auto simp: send_data_callback_func_def Let_def sd_inv_def)
    next
      case False
      then show ?thesis using \<open>lock_ll s\<close> fail inv ce
        by (intro exI [of _ "?s \<lparr> lock_ll := False \<rparr>"] exI [of _ xs] exI [of _ "y # zs"])
           (auto simp: send_data_callback_func_def Let_def sd_inv_def)
    qed
  next
    case False
    let ?s0 = "s \<lparr> send_data_list := sd_next s y \<rparr>"
    obtain fb where fb: "session_fb s y = Some fb" using inv by (auto simp: core_inv_def sessions_ok_def)
    let ?q = "get_queue_state env (sd_log s)"
    define s1 where "s1 = (etimer_stop Soft_reset_timer (etimer_stop Resend_lockup_timer (etimer_stop Emergency_timer
        (if (?q = QS_SENDING_FIRST \<and> status = TRANSMIT_COMPLETE_OK) \<or> ?q = QS_SENDING_LONG
         then sd_emit (Ima_send_data_done (dnode (fb_param fb)) status ts) ?s0 else ?s0)))) \<lparr> resend_counter := 0 \<rparr>"
    have s1: "core_inv s1 xs zs (y # flight s1) lost" "ce_ok s1 xs (y # zs)" "session_at s1 = session_at s" "lock_ll s1 = lock_ll s"
      using core_pop(1) [OF inv ys(2)] ce by (simp_all add: s1_def)
    note f = core_free [OF s1(1)]
    let ?t = "s1 \<lparr> fbs := (fbs s1)(s_fb (session_at s1 y) := None) \<rparr>"
    let ?u = "?t \<lparr> session_memb := snd (memb_free (session_memb ?t) y) \<rparr>"
    have "core_inv ?u xs zs ([] @ flight ?u) lost" using f(2) by simp
    moreover have "ce_ok ?u xs (y # zs)" using s1(2) by simp
    ultimately obtain v xs' ys' lost' where v: "call_callback env status y ts ?u = Some v" "core_inv v xs' ys' ([] @ flight v) lost'" "ce_ok v xs' ys'"
      using call_callback_core [of ?u xs zs "[]" lost y env status ts] by blast
    have "y \<noteq> 0" "list_pop (send_data_list s) (sd_next s) = (y, sd_next s y)"
      using core_nonnull [OF inv, of y] core_pop(1) [OF inv ys(2)] by simp_all
    then have "send_data_callback_func env status ts s = Some (process_post SEND_EVENT_SEND_NEXT_LL (v \<lparr> lock_ll := False \<rparr>))"
      using \<open>lock_ll s\<close> False fb f(1) v(1) by (simp add: send_data_callback_func_def Let_def s1_def)
    then show ?thesis using v
      by (intro exI [of _ "process_post SEND_EVENT_SEND_NEXT_LL (v \<lparr> lock_ll := False \<rparr>)"] exI [of _ xs'] exI [of _ ys'])
         (auto simp: sd_inv_def)
  qed
qed

text \<open>A low-level frame that has waited too long; an application frame that is aborted.\<close>

lemma hd_remove1: "b \<noteq> hd ys \<Longrightarrow> ys \<noteq> [] \<Longrightarrow> remove1 b ys \<noteq> [] \<and> hd (remove1 b ys) = hd ys"
  by (cases ys) auto

lemma ce_ok_remove: "b \<in> set ys \<Longrightarrow> distinct ys \<Longrightarrow> ce_ok s xs ys \<Longrightarrow> ce_ok s xs (b # remove1 b ys)"
proof -
  assume a: "b \<in> set ys" "distinct ys" "ce_ok s xs ys"
  obtain us vs where "ys = us @ b # vs" "b \<notin> set us" using split_list_first [OF a(1)] by blast
  then show ?thesis using a(3) by (auto simp: ce_ok_def remove1_append)
qed

lemma discard_inv:
  assumes "sd_inv s xs ys" and t: "discard_timer (session_at s b) \<noteq> None"
  shows "\<exists>t xs' ys'. do_discard_timeout_memb env b s = Some t \<and> sd_inv t xs' ys'"
proof -
  obtain lost where inv: "core_inv s xs ys (flight s) lost" and ce: "ce_ok s xs ys"
      and ll: "lock_ll s \<longrightarrow> ys \<noteq> [] \<and> discard_timer (session_at s (hd ys)) = None" using assms(1) by (auto simp: sd_inv_def)
  have b: "b \<in> set ys" "b \<noteq> 0" "distinct ys"
    using inv t core_nonnull [OF inv, of b] by (auto simp: core_inv_def sessions_ok_def)
  let ?s = "upd_session b (\<lambda>e. e \<lparr> discard_timer := None \<rparr>) s"
  have "core_inv ?s xs ys (flight ?s) lost" using discard_timer_core [OF inv b(1), of None] by simp
  then obtain l nxt where l: "list_remove (send_data_list ?s) b (sd_next ?s) = Some (l, nxt)"
      "core_inv (?s \<lparr> send_data_list := l, sd_next := nxt \<rparr>) xs (remove1 b ys) (b # flight ?s) lost"
    using core_remove(1) [of ?s xs ys "flight ?s" lost b] b(1) by auto
  let ?u = "(?s \<lparr> send_data_list := l, sd_next := nxt \<rparr>) \<lparr> session_memb := snd (memb_free (session_memb s) b) \<rparr>"
  have "core_inv ?u xs (remove1 b ys) ([] @ flight ?u) lost" using core_abandon [OF l(2)] by simp
  moreover have "ce_ok ?u xs (b # remove1 b ys)" using ce_ok_remove [OF b(1,3) ce] by simp
  ultimately obtain v xs' ys' lost' where v: "call_callback env TRANSMIT_COMPLETE_FAIL b None ?u = Some v"
      "core_inv v xs' ys' ([] @ flight v) lost'" "ce_ok v xs' ys'" "grown ?u xs (remove1 b ys) [] v xs' ys'" "lock_ll v = lock_ll ?u"
    using call_callback_core [of ?u xs "remove1 b ys" "[]" lost b env TRANSMIT_COMPLETE_FAIL None] by blast
  have "ys' \<noteq> [] \<and> discard_timer (session_at v (hd ys')) = None" if "lock_ll v"
  proof -
    have n: "ys \<noteq> []" "discard_timer (session_at s (hd ys)) = None" using ll that v(5) by auto
    then have ne: "b \<noteq> hd ys" using t by auto
    then have h: "remove1 b ys \<noteq> []" "hd (remove1 b ys) = hd ys" "b \<noteq> hd ys" using hd_remove1 [OF ne n(1)] by simp_all
    obtain vs where "ys' = remove1 b ys @ vs" and k: "keeps (set (xs @ remove1 b ys @ [])) ?u v" using v(4) by (auto simp: grown_def)
    then have "ys' \<noteq> []" "hd ys' = hd ys" "hd ys \<in> set (remove1 b ys)" using h hd_in_set [of "remove1 b ys"] by auto
    then show ?thesis using k n h(3) by (simp add: keeps_def)
  qed
  then show ?thesis using v l(1) b(2)
    by (intro exI [of _ v] exI [of _ xs'] exI [of _ ys']) (auto simp: do_discard_timeout_memb_def Let_def sd_inv_def)
qed

text \<open>What adds frames or ends the application frame does not disturb the low-level frame under way.\<close>

lemma grown_head:
  assumes "grown s xs ys hs t xs' ys'" and "lock_ll t = lock_ll s"
    and "lock_ll s \<longrightarrow> ys \<noteq> [] \<and> discard_timer (session_at s (hd ys)) = None"
  shows "lock_ll t \<longrightarrow> ys' \<noteq> [] \<and> discard_timer (session_at t (hd ys')) = None"
proof
  assume "lock_ll t"
  then have y: "ys \<noteq> []" "discard_timer (session_at s (hd ys)) = None" using assms(2,3) by auto
  obtain vs where "ys' = ys @ vs" "keeps (set (xs @ ys @ hs)) s t" using assms(1) by (auto simp: grown_def)
  then show "ys' \<noteq> [] \<and> discard_timer (session_at t (hd ys')) = None" using y by (cases ys) (auto simp: keeps_def)
qed

lemma abort_inv:
  assumes "sd_inv s xs ys"
  shows "\<exists>t xs' ys'. ZW_SendDataApplAbort env h s = Some t \<and> sd_inv t xs' ys'"
proof -
  obtain lost where inv: "core_inv s xs ys (flight s) lost" and ce: "ce_ok s xs ys"
      and ll: "lock_ll s \<longrightarrow> ys \<noteq> [] \<and> discard_timer (session_at s (hd ys)) = None" using assms by (auto simp: sd_inv_def)
  have lx: "linked (sd_next s) (session_list s) xs" using inv by (simp add: core_inv_def is_list_def)
  have c: "list_contains (session_list s) h (sd_next s) = Some (h \<in> set xs)" by (rule list_contains_linked [OF lx])
  consider "h = 0 \<or> length (session_memb s) < h \<or> (h \<noteq> current_session s \<and> h \<notin> set xs)"
    | "\<not> (h = 0 \<or> length (session_memb s) < h)" "h = current_session s"
    | "\<not> (h = 0 \<or> length (session_memb s) < h)" "h \<noteq> current_session s" "h \<in> set xs"
    by (cases "h = 0 \<or> length (session_memb s) < h"; cases "h = current_session s"; cases "h \<in> set xs") auto
  then show ?thesis
  proof cases
    case 1
    then have "ZW_SendDataApplAbort env h s = Some s" using c by (auto simp: ZW_SendDataApplAbort_def)
    then show ?thesis using assms by blast
  next
    case 2
    then show ?thesis using inv ce ll
      by (intro exI [of _ "sd_emit Sec0_abort (sd_emit Radio_abort s)"] exI [of _ xs] exI [of _ ys])
         (auto simp: ZW_SendDataApplAbort_def sd_inv_def)
  next
    case 3
    obtain l nxt where l: "list_remove (session_list s) h (sd_next s) = Some (l, nxt)"
        "core_inv (s \<lparr> session_list := l, sd_next := nxt \<rparr>) (remove1 h xs) ys (h # flight s) lost"
      using core_remove(2) [OF inv 3(3)] by blast
    let ?u = "(s \<lparr> session_list := l, sd_next := nxt \<rparr>) \<lparr> session_memb := snd (memb_free (session_memb s) h) \<rparr>"
    have u: "core_inv ?u (remove1 h xs) ys (flight ?u) lost" using core_abandon [OF l(2)] by simp
    have ceu: "ce_ok ?u (remove1 h xs) ys" and nce: "\<not> is_ce s h"
      using ce 3(3) by (auto simp: ce_ok_def dest: notin_set_remove1)
    have "\<exists>t xs' ys' lost'. call_callback env TRANSMIT_COMPLETE_FAIL h None ?u = Some t \<and> core_inv t xs' ys' (flight t) lost'
        \<and> ce_ok t xs' ys' \<and> grown ?u (remove1 h xs) ys (flight ?u) t xs' ys' \<and> lock_ll t = lock_ll s"
    proof (cases "s_callback (session_at s h)")
      case No_cb
      then show ?thesis using u ceu
        by (intro exI [of _ ?u] exI [of _ "remove1 h xs"] exI [of _ ys] exI [of _ lost]) (simp add: call_callback_def)
    next
      case (App_cb cb)
      obtain t xs' ys' lost' where t: "call_app env cb TRANSMIT_COMPLETE_FAIL (s_user (session_at ?u h)) None ?u = Some t"
          "core_inv t xs' ys' (flight ?u) lost'" "same_ctl ?u t" "grown ?u (remove1 h xs) ys (flight ?u) t xs' ys'"
        using call_app_core [OF u] by blast
      have "flight t = flight ?u" "ce_ok t xs' ys'"
        using t(3) grown_ce_ok [OF t(4) ceu] by (simp_all add: flight_def same_ctl_def)
      then show ?thesis using t App_cb
        by (intro exI [of _ t] exI [of _ xs'] exI [of _ ys'] exI [of _ lost']) (simp add: call_callback_def same_ctl_def)
    qed (use nce in simp)
    then obtain t xs' ys' lost' where t: "call_callback env TRANSMIT_COMPLETE_FAIL h None ?u = Some t" "core_inv t xs' ys' (flight t) lost'"
        "ce_ok t xs' ys'" "grown ?u (remove1 h xs) ys (flight ?u) t xs' ys'" "lock_ll t = lock_ll s" by blast
    then have "lock_ll t \<longrightarrow> ys' \<noteq> [] \<and> discard_timer (session_at t (hd ys')) = None" using grown_head [OF t(4)] ll by simp
    then show ?thesis using t c l(1) 3
      by (intro exI [of _ t] exI [of _ xs'] exI [of _ ys']) (auto simp: ZW_SendDataApplAbort_def sd_inv_def)
  qed
qed

text \<open>The parameters of a live frame may change, but not its discard timeout.\<close>

lemma core_param:
  assumes inv: "core_inv s xs ys hs lost" and fb: "session_fb s b = Some fb" and same: "discard_timeout (fb_param fb') = discard_timeout (fb_param fb)"
  shows "core_inv (s \<lparr> fbs := (fbs s)(s_fb (session_at s b) \<mapsto> fb') \<rparr>) xs ys hs lost"
proof -
  let ?s = "s \<lparr> fbs := (fbs s)(s_fb (session_at s b) \<mapsto> fb') \<rparr>"
  have "0 < s_fb (session_at s b) \<and> s_fb (session_at s b) \<le> fb_allocs s" using inv fb by (auto simp: core_inv_def)
  moreover have "sessions_ok ?s (xs @ ys @ hs)" using inv unfolding core_inv_def sessions_ok_def by auto
  moreover have "discard_timeout (fb_param g) \<noteq> 0"
    if d: "discard_timer (session_at s c) \<noteq> None" and g: "session_fb ?s c = Some g" for c g
  proof -
    have old: "\<forall>h. session_fb s c = Some h \<longrightarrow> discard_timeout (fb_param h) \<noteq> 0" using inv d unfolding core_inv_def by blast
    show ?thesis using old g fb same by (cases "s_fb (session_at s c) = s_fb (session_at s b)") auto
  qed
  ultimately show ?thesis using inv unfolding core_inv_def by auto
qed

text \<open>The security layer reports on the application frame it was given.\<close>

lemma ce_ok_none: "\<forall>b \<in> set xs \<union> set ys. \<not> is_ce s b \<Longrightarrow> ce_ok s xs ys"
  by (auto simp: ce_ok_def filter_empty_conv [THEN iffD2])

lemma grown_none: "grown s xs ys hs t xs' ys' \<Longrightarrow> \<forall>b \<in> set xs \<union> set ys. \<not> is_ce s b \<Longrightarrow> \<forall>b \<in> set xs' \<union> set ys'. \<not> is_ce t b"
  unfolding grown_def keeps_def by auto

lemma grown_inv:
  assumes "core_inv t xs' ys' (flight t) lost" and "ce_ok t xs' ys'" and "grown s xs ys hs t xs' ys'" and "lock_ll t = lock_ll s"
    and "lock_ll s \<longrightarrow> ys \<noteq> [] \<and> discard_timer (session_at s (hd ys)) = None"
  shows "sd_inv t xs' ys'"
  using assms(1,2) grown_head [OF assms(3-5)] by (auto simp: sd_inv_def)

lemma security_report_inv:
  assumes inv: "core_inv s xs ys (flight s) lost" and l: "lock s" and no: "\<forall>b \<in> set xs \<union> set ys. \<not> is_ce s b"
    and ll: "lock_ll s \<longrightarrow> ys \<noteq> [] \<and> discard_timer (session_at s (hd ys)) = None"
  shows "\<exists>t xs' ys'. ZW_SendDataAppl_CallbackEx env status (current_session s) ts s = Some t \<and> sd_inv t xs' ys'"
proof -
  have "core_inv s xs ys (current_session s # []) lost" using inv l by (simp add: flight_def)
  then obtain t xs' ys' lost' where t: "ZW_SendDataAppl_CallbackEx env status (current_session s) ts s = Some t"
      "core_inv t xs' ys' [] lost'" "grown s xs ys [] t xs' ys'" "\<not> lock t" "lock_ll t = lock_ll s"
    using callback_ex_core l by blast
  have "core_inv t xs' ys' (flight t) lost'" using t(2,4) by (simp add: flight_def)
  then show ?thesis using t grown_inv [OF _ ce_ok_none [OF grown_none [OF t(3) no]] t(3,5) ll] by blast
qed

text \<open>The encapsulation of the application frame under way.\<close>

lemma ce_ok_push:
  assumes "\<forall>b \<in> set xs \<union> set ys. \<not> is_ce s b" and "keeps (set (xs @ ys @ hs)) s t" and "is_ce t b"
    and "lock t" and "s_user (session_at t b) = current_session t"
  shows "ce_ok t xs (ys @ [b])"
proof -
  have "\<forall>c \<in> set xs \<union> set ys. \<not> is_ce t c" using assms(1,2) by (auto simp: keeps_def)
  then show ?thesis using assms(3-5) by (auto simp: ce_ok_def filter_empty_conv [THEN iffD2])
qed

definition sending :: "sd_state \<Rightarrow> addr list \<Rightarrow> addr list \<Rightarrow> (bool \<times> sd_state) option \<Rightarrow> bool" where
  "sending s xs ys r \<longleftrightarrow> (\<exists>ok t zs lost. r = Some (ok, t) \<and> core_inv t xs (ys @ zs) (flight t) lost
     \<and> lock t \<and> lock_ll t = lock_ll s \<and> current_session t = current_session s \<and> keeps (set (xs @ ys)) s t
     \<and> (if ok then ce_ok t xs (ys @ zs) else zs = []))"

lemma sending_same:
  assumes "core_inv t xs ys (flight t) lost" and "lock t" and "\<forall>b \<in> set xs \<union> set ys. \<not> is_ce s b" and "session_at t = session_at s"
    and "lock_ll t = lock_ll s" and "current_session t = current_session s"
  shows "sending s xs ys (Some (ok, t))"
proof -
  have "ce_ok t xs ys" using assms(3,4) by (intro ce_ok_none) simp
  then show ?thesis using assms unfolding sending_def keeps_def
    by (intro exI [of _ ok] exI [of _ t] exI [of _ "[]"] exI [of _ lost]) simp
qed

lemma sending_ll:
  assumes inv: "core_inv u xs ys (flight u) lost" and "lock u" and "\<forall>b \<in> set xs \<union> set ys. \<not> is_ce s b"
    and same: "session_at u = session_at s" "lock_ll u = lock_ll s" "current_session u = current_session s"
  shows "sending s xs ys (send_data env p cmd Callback_ex (current_session s) u)"
proof -
  obtain r t zs lost' where t: "send_data env p cmd Callback_ex (current_session s) u = Some (r, t)" "core_inv t xs (ys @ zs) (flight u) lost'"
      "same_ctl u t" "keeps (set (xs @ ys @ flight u)) u t" "r \<longleftrightarrow> room env cmd u"
      "if r then \<exists>b. zs = [b] \<and> session_has t b p cmd Callback_ex (current_session s) \<and> lost' = lost else zs = []"
      "sd_log t = sd_log u" "posted t = posted u @ (if r then [SEND_EVENT_SEND_NEXT_LL] else [])"
    by (rule send_data_core [OF inv])
  have f: "flight t = flight u" "lock t" "lock_ll t = lock_ll s" "current_session t = current_session s"
    using t(3) assms(2) same by (simp_all add: flight_def same_ctl_def)
  have k: "keeps (set (xs @ ys)) s t" using t(4) same(1) by (auto simp: keeps_def)
  have "ce_ok t xs (ys @ zs)" if r: "r"
  proof -
    obtain b where b: "zs = [b]" "session_has t b p cmd Callback_ex (current_session s)" using t(6) r by auto
    have "keeps (set (xs @ ys @ [])) s t" using k by simp
    then have "ce_ok t xs (ys @ [b])" using b(2) f(2,4) by (intro ce_ok_push [OF assms(3), of "[]"]) (auto simp: session_has_def)
    then show ?thesis using b(1) by simp
  qed
  then show ?thesis using t f k unfolding sending_def
    by (intro exI [of _ r] exI [of _ t] exI [of _ zs] exI [of _ lost']) auto
qed

lemma send_endpoint_sending:
  assumes inv: "core_inv s xs ys (flight s) lost" and l: "lock s" and no: "\<forall>b \<in> set xs \<union> set ys. \<not> is_ce s b"
  shows "sending s xs ys (send_endpoint env (current_session s) s)"
proof -
  let ?b = "current_session s"
  obtain fb where fb: "session_fb s ?b = Some fb" using inv l by (auto simp: core_inv_def sessions_ok_def flight_def)
  note same = sending_same [OF _ _ no] and ll = sending_ll [OF _ _ no]
  have par: "core_inv (s \<lparr> new_buf := nb, fbs := (fbs s)(s_fb (session_at s ?b) \<mapsto> fb \<lparr> fb_param := fb_param fb \<lparr> ts_scheme := x \<rparr> \<rparr>) \<rparr>)
      xs ys (flight s) lost" for nb x
    using core_param [of "s \<lparr> new_buf := nb \<rparr>" xs ys "flight s" lost ?b fb] inv fb by simp
  show ?thesis
    unfolding send_endpoint_def
    using fb inv l par
    by (auto simp: Let_def split: security_scheme_t.split intro!: same ll)
qed

lemma send_first_inv:
  assumes "sd_inv s xs ys" and l: "\<not> lock s"
  shows "\<exists>t xs' ys'. send_first env s = Some t \<and> sd_inv t xs' ys'"
proof -
  obtain lost where inv: "core_inv s xs ys [] lost" and ce: "ce_ok s xs ys"
      and ll: "lock_ll s \<longrightarrow> ys \<noteq> [] \<and> discard_timer (session_at s (hd ys)) = None" using assms by (auto simp: sd_inv_def flight_def)
  have no: "\<forall>b \<in> set xs \<union> set ys. \<not> is_ce s b" using ce l by (auto simp: ce_ok_def)
  show ?thesis
  proof (cases xs)
    case Nil
    let ?t = "s \<lparr> session_list := 0, current_session := 0 \<rparr>"
    have "session_list s = 0" using core_pop(4) inv Nil by blast
    then have "send_first env s = Some ?t" by (simp add: send_first_def list_pop_def)
    moreover have "core_inv ?t xs ys (flight ?t) lost"
      using inv l \<open>session_list s = 0\<close> by (simp add: flight_def core_inv_def sessions_ok_def)
    moreover have "ce_ok ?t xs ys" using no by (intro ce_ok_none) simp
    ultimately show ?thesis using ll sd_invI [of ?t xs ys lost] by auto
  next
    case (Cons b us)
    let ?s = "s \<lparr> session_list := sd_next s b, current_session := b, lock := True \<rparr>"
    have pop: "list_pop (session_list s) (sd_next s) = (b, sd_next s b)" "core_inv ?s us ys (flight ?s) lost"
      using core_pop(2) [of s b us ys "[]" lost] inv Cons by (simp_all add: flight_def)
    have b: "b \<noteq> 0" using core_nonnull [OF inv, of b] Cons by simp
    have "sending ?s us ys (send_endpoint env (current_session ?s) ?s)"
      using no Cons by (intro send_endpoint_sending [OF pop(2)]) auto
    then obtain ok t zs lost' where t: "send_endpoint env b ?s = Some (ok, t)" "core_inv t us (ys @ zs) (flight t) lost'" "lock t"
        "lock_ll t = lock_ll s" "current_session t = b" "keeps (set (us @ ys)) ?s t" "if ok then ce_ok t us (ys @ zs) else zs = []"
      unfolding sending_def by auto
    have hd: "lock_ll t \<longrightarrow> ys @ zs \<noteq> [] \<and> discard_timer (session_at t (hd (ys @ zs))) = None"
      using t(4,6) ll by (auto simp: keeps_def)
    show ?thesis
    proof (cases ok)
      case True
      then have "send_first env s = Some t" using pop(1) b t(1) by (simp add: send_first_def Let_def)
      then show ?thesis using t(2,7) hd True by (auto simp: sd_inv_def)
    next
      case False
      have "\<forall>c \<in> set us \<union> set (ys @ zs). \<not> is_ce t c" using no Cons t(6,7) False by (auto simp: keeps_def)
      from security_report_inv [OF t(2,3) this hd, of env TRANSMIT_COMPLETE_ERROR None]
      obtain u xs' ys' where u: "ZW_SendDataAppl_CallbackEx env TRANSMIT_COMPLETE_ERROR b None t = Some u" "sd_inv u xs' ys'"
        using t(5) by auto
      have "send_first env s = Some u" using pop(1) b t(1) False u(1) by (simp add: send_first_def Let_def)
      then show ?thesis using u(2) by blast
    qed
  qed
qed

text \<open>The radio is given the frame at the head of the low-level list.\<close>

lemma radio_out_core:
  assumes "radio_out env b fb s = (rc, t)" and "core_inv s xs ys hs lost" and "session_fb s b = Some fb"
  shows "core_inv t xs ys hs lost \<and> session_at t = session_at s \<and> lock t = lock s \<and> lock_ll t = lock_ll s
    \<and> current_session t = current_session s \<and> session_fb t b \<noteq> None"
proof -
  have p: "core_inv (s \<lparr> fbs := (fbs s)(s_fb (session_at s b) \<mapsto> fb \<lparr> fb_param := fb_param fb \<lparr> snode := 0x00FF \<rparr> \<rparr>) \<rparr>) xs ys hs lost"
    by (rule core_param [OF assms(2,3)]) simp
  show ?thesis using assms(1) p assms(2,3) unfolding radio_out_def by (auto simp: Let_def split: if_splits)
qed

lemma send_next_ll_inv:
  assumes "sd_inv s xs ys"
  shows "\<exists>t xs' ys'. send_next_ll env s = Some t \<and> sd_inv t xs' ys'"
proof -
  obtain lost where inv: "core_inv s xs ys (flight s) lost" and ce: "ce_ok s xs ys"
      and ll: "lock_ll s \<longrightarrow> ys \<noteq> [] \<and> discard_timer (session_at s (hd ys)) = None" using assms by (auto simp: sd_inv_def)
  let ?b = "list_head (send_data_list s)"
  let ?s = "s \<lparr> current_session_ll := ?b \<rparr>"
  show ?thesis
  proof (cases "?b \<noteq> 0 \<and> \<not> lock_ll s")
    case False
    then have "send_next_ll env s = Some ?s" by (auto simp: send_next_ll_def Let_def)
    moreover have "sd_inv ?s xs ys" using inv ce ll by (auto simp: sd_inv_def)
    ultimately show ?thesis by blast
  next
    case True
    have "ys \<noteq> []" using core_pop(3) inv True by (auto simp: list_head_def)
    then obtain zs where zs: "ys = ?b # zs" using inv by (cases ys) (auto simp: core_inv_def is_list_def list_head_def)
    then obtain fb where fb: "session_fb s ?b = Some fb" using inv by (auto simp: core_inv_def sessions_ok_def)
    define u where "u = (if discard_timeout (fb_param fb) \<noteq> 0 then upd_session ?b (\<lambda>e. e \<lparr> discard_timer := None \<rparr>) ?s else ?s) \<lparr> lock_ll := True \<rparr>"
    have "?b \<in> set ys" using zs by (metis list.set_intros(1))
    then have uinv: "core_inv u xs ys (flight u) lost" "ce_ok u xs ys"
      using discard_timer_core [of ?s xs ys "flight s" lost ?b None] inv ce by (auto simp: u_def)
    have ufb: "session_fb u ?b = Some fb" using fb by (simp add: u_def)
    have ud: "discard_timer (session_at u ?b) = None" "lock_ll u"
      using inv fb by (auto simp: u_def core_inv_def)
    obtain rc v where v: "radio_out env ?b fb u = (rc, v)" by (cases "radio_out env ?b fb u")
    note r = radio_out_core [OF v uinv(1) ufb]
    have "flight v = flight u" using r by (simp add: flight_def)
    moreover have "ce_ok v xs ys" using ce_ok_cong [of xs ys v u] uinv(2) r by simp
    ultimately have vinv: "sd_inv v xs ys" using r ud zs by (auto simp: sd_inv_def)
    have eq: "send_next_ll env s = (if \<not> rc then send_data_callback_func env TRANSMIT_COMPLETE_FAIL None v
        else Some (etimer_set Emergency_timer (65 * 1000) (sd_emit (Ima_send_data_start (dnode (fb_param fb))) v)))"
      using True fb v by (simp add: send_next_ll_def Let_def u_def)
    show ?thesis
    proof (cases rc)
      case True
      moreover have "sd_inv (etimer_set Emergency_timer (65 * 1000) (sd_emit (Ima_send_data_start (dnode (fb_param fb))) v)) xs ys"
        using vinv by (auto simp: sd_inv_def)
      ultimately show ?thesis using eq by auto
    next
      case False
      then show ?thesis using eq radio_report_inv [OF vinv] by simp
    qed
  qed
qed

section \<open>Reachable states\<close>

lemma sd_inv_simps [simp]:
  "sd_inv (sd_emit e s) = sd_inv s" "sd_inv (process_post v s) = sd_inv s" "sd_inv (set_timer tm w s) = sd_inv s"
  "sd_inv (s \<lparr> resend_counter := n \<rparr>) = sd_inv s" "sd_inv (s \<lparr> posted := es \<rparr>) = sd_inv s"
  by (intro ext, simp add: sd_inv_def)+

lemma ncp_status_same:
  "sd_inv (notify_ncp_controller_status_via_unsolicited_dest env v s) xs ys = sd_inv s xs ys"
  by (simp add: notify_ncp_controller_status_via_unsolicited_dest_def)

lemma soft_reset_inv: "sd_inv s xs ys \<Longrightarrow> sd_inv (soft_reset_timeout env s) xs ys"
  by (simp add: soft_reset_timeout_def Let_def ncp_status_same)

lemma sd_inv_ex: "sd_inv s xs ys \<Longrightarrow> \<exists>xs' ys'. sd_inv s xs' ys'"
  by blast

lemma sender_process_inv:
  assumes "sd_inv s xs ys"
  shows "\<exists>t xs' ys'. ZW_SendDataAppl_process env ev s = Some t \<and> sd_inv t xs' ys'"
proof (cases ev)
  case (Event_timer tm)
  then show ?thesis
    using radio_report_inv [OF assms] sd_inv_ex [OF soft_reset_inv [OF assms]] sd_inv_ex [OF assms]
    by (cases tm) (auto simp: ZW_SendDataAppl_process_def)
next
  case SEND_EVENT_SEND_NEXT
  then show ?thesis using assms send_first_inv [OF assms] by (auto simp: ZW_SendDataAppl_process_def)
next
  case SEND_EVENT_SEND_NEXT_LL
  then show ?thesis using send_next_ll_inv [OF assms] by (simp add: ZW_SendDataAppl_process_def)
next
  case (SEND_EVENT_SEND_NEXT_DELAYED n)
  then show ?thesis using assms by (auto simp: ZW_SendDataAppl_process_def)
qed

text \<open>
  The security layers report only on a frame they were given: the application frame is under way, and no low-level frame that
  was made from it by the sender itself is waiting.
\<close>

definition security_has_frame :: "sd_state \<Rightarrow> bool" where
  "security_has_frame s \<longleftrightarrow> lock s \<and> (\<exists>ys. is_list (sd_next s) (send_data_list s) ys \<and> (\<forall>y \<in> set ys. \<not> is_ce s y))"

definition sd_allowed :: "sd_op \<Rightarrow> sd_state \<Rightarrow> bool" where
  "sd_allowed op s \<longleftrightarrow> (case op of Op_security_report _ _ \<Rightarrow> security_has_frame s | _ \<Rightarrow> True)"

definition sd_boot :: sd_state where
  "sd_boot = \<lparr> session_list = 0, send_data_list = 0, sd_next = (\<lambda>_. 0),
     session_at = (\<lambda>_. \<lparr> s_fb = 0, s_user = 0, s_callback = No_cb, discard_timer = None, reset_span = False \<rparr>),
     session_memb = memb_init 8, fbs = (\<lambda>_. None), fb_allocs = 0, lock = False, lock_ll = False, resend_counter = 0, backoff_node = 0,
     current_session = 0, current_session_ll = 0, new_buf = replicate 1544 0, timers = (\<lambda>_. Et_expired), posted = [], sd_log = [] \<rparr>"

inductive sd_reachable :: "sd_env \<Rightarrow> sd_state \<Rightarrow> bool" for env where
  boot: "sd_reachable env sd_boot"
| step: "sd_reachable env s \<Longrightarrow> sd_allowed op s \<Longrightarrow> sd_apply env op s = Some t \<Longrightarrow> sd_reachable env t"

lemma boot_inv: "sd_inv sd_boot [] []"
proof -
  have "core_inv sd_boot [] [] [] {}"
    by (auto simp: core_inv_def sessions_ok_def sd_boot_def is_list_def memb_init_ok) (simp add: memb_init_def)
  then show ?thesis by (intro sd_invI [of _ _ _ "{}"]) (simp_all add: flight_def sd_boot_def ce_ok_def)
qed

lemma apply_inv:
  assumes "sd_inv s xs ys" and "sd_allowed op s"
  shows "\<exists>t xs' ys'. sd_apply env op s = Some t \<and> sd_inv t xs' ys'"
proof -
  obtain lost where inv: "core_inv s xs ys (flight s) lost" and ce: "ce_ok s xs ys"
      and ll: "lock_ll s \<longrightarrow> ys \<noteq> [] \<and> discard_timer (session_at s (hd ys)) = None" using assms by (auto simp: sd_inv_def)
  have queue: "\<exists>t xs' ys'. react env r s = Some t \<and> sd_inv t xs' ys'" for r
  proof -
    obtain t xs' ys' lost' where t: "react env r s = Some t" "core_inv t xs' ys' (flight s) lost'" "same_ctl s t"
        "grown s xs ys (flight s) t xs' ys'"
      using react_core [OF inv] by blast
    have "flight t = flight s" "ce_ok t xs' ys'" "lock_ll t = lock_ll s"
      using t(3) grown_ce_ok [OF t(4) ce] by (simp_all add: flight_def same_ctl_def)
    then have "sd_inv t xs' ys'" using t(2) by (intro grown_inv [OF _ _ t(4) _ ll]) simp_all
    then show ?thesis using t(1) by blast
  qed
  show ?thesis
  proof (cases op)
    case (Op_send p d cb u)
    then show ?thesis using queue [of "Req_appl p d cb u"] by (simp add: react_def sd_apply_def)
  next
    case (Op_send_ll p d cb u)
    then show ?thesis using queue [of "Req_ll p d cb u"] by (simp add: react_def sd_apply_def)
  next
    case (Op_radio_report st ts)
    then show ?thesis using radio_report_inv [OF assms(1)] by (simp add: sd_apply_def)
  next
    case (Op_security_report st ts)
    then obtain zs where z: "lock s" "is_list (sd_next s) (send_data_list s) zs" "\<forall>y \<in> set zs. \<not> is_ce s y"
      using assms(2) by (auto simp: sd_allowed_def security_has_frame_def)
    have "is_list (sd_next s) (send_data_list s) ys" using inv by (simp add: core_inv_def)
    then have "zs = ys" using is_list_unique [OF z(2)] by blast
    then have "\<forall>b \<in> set xs \<union> set ys. \<not> is_ce s b" using z(3) ce by (auto simp: ce_ok_def)
    then show ?thesis using security_report_inv [OF inv z(1) _ ll] Op_security_report by (simp add: sd_apply_def)
  next
    case (Op_discard b)
    then show ?thesis using assms(1) discard_inv [OF assms(1), of b] by (auto simp: sd_apply_def)
  next
    case (Op_timer tm)
    then show ?thesis using sd_inv_ex [OF assms(1)]
      by (auto simp: sd_apply_def split: etimer.split)
  next
    case Op_event
    have "sd_inv (s \<lparr> posted := es \<rparr>) xs ys" for es using assms(1) by simp
    then show ?thesis using Op_event assms(1) sender_process_inv [of _ xs ys env] by (cases "posted s") (auto simp: sd_apply_def)
  next
    case (Op_abort h)
    then show ?thesis using abort_inv [OF assms(1)] by (simp add: sd_apply_def)
  next
    case (Op_received n)
    then show ?thesis using assms(1)
      by (auto simp: sd_apply_def ZW_SendDataAppl_FrameRX_Notify_def)
  qed
qed

lemma reachable_inv: "sd_reachable env s \<Longrightarrow> \<exists>xs ys. sd_inv s xs ys"
proof (induction rule: sd_reachable.induct)
  case boot
  show ?case using boot_inv by blast
next
  case (step s op t)
  then obtain xs ys where "sd_inv s xs ys" by blast
  from apply_inv [OF this step.hyps(2), of env] show ?case using step.hyps(3) by auto
qed

end
