(* ===== verification/Send_Data_Run.thy ===== *)
theory Send_Data_Run
  imports Send_Data_Correct
begin

text \<open>
  Whole transmissions of the sender of \<^verbatim>\<open>Send_Data\<close>: what happens to a frame from the call of \<^verbatim>\<open>ZW_SendDataAppl\<close> to the
  report to the application.
\<close>

unbundle bit_operations_syntax

primrec sd_run :: "sd_env \<Rightarrow> sd_op list \<Rightarrow> sd_state \<Rightarrow> sd_state option" where
  "sd_run env [] s = Some s"
| "sd_run env (op # ops) s = Option.bind (sd_apply env op s) (sd_run env ops)"

section \<open>Steps of a transmission\<close>

text \<open>Which session is allocated, and that queueing leaves the frames of the other sessions alone.\<close>

lemma appl_handle: "ZW_SendDataAppl env p d cb u s = Some (r, t) \<Longrightarrow> r \<noteq> 0 \<Longrightarrow>
    r = fst (memb_alloc (session_memb s)) \<and> fb_allocs t = fb_allocs s + 1"
  by (auto simp: ZW_SendDataAppl_def zw_frame_buffer_create_def Let_def split: prod.splits option.splits if_splits)

lemma send_data_frames: "send_data env p d cb u s = Some (r, t) \<Longrightarrow> r \<Longrightarrow> a \<le> fb_allocs s \<Longrightarrow> fbs t a = fbs s a"
  by (auto simp: send_data_def zw_frame_buffer_create_def Let_def split: prod.splits option.splits if_splits)

lemma send_data_allocs: "send_data env p d cb u s = Some (r, t) \<Longrightarrow> r \<Longrightarrow> fb_allocs t = fb_allocs s + 1"
  by (auto simp: send_data_def zw_frame_buffer_create_def Let_def split: prod.splits option.splits if_splits)

lemma memb_eq:
  assumes "memb_ok m" "memb_ok n" "length m = length n" "used_blocks m = used_blocks n"
  shows "m = n"
proof (rule nth_equalityI [OF assms(3)])
  fix i assume i: "i < length m"
  have "m ! i \<noteq> 0 \<longleftrightarrow> Suc i \<in> used_blocks m" using i by (simp add: used_blocks_def)
  moreover have "n ! i \<noteq> 0 \<longleftrightarrow> Suc i \<in> used_blocks n" using i assms(3) by (simp add: used_blocks_def)
  moreover have "m ! i \<le> 1" "n ! i \<le> 1" using assms(1-3) i by (simp_all add: memb_ok_def)
  ultimately show "m ! i = n ! i" using assms(4) by (cases "m ! i = 0"; cases "n ! i = 0") auto
qed

text \<open>The next application frame is encapsulated and queued for the radio.\<close>

definition plain_frame :: "sd_env \<Rightarrow> ts_param_t \<Rightarrow> bytes \<Rightarrow> bool" where
  "plain_frame env p d \<longleftrightarrow> ZW_SendData_scheme_select env p (of_nat (length d)) = NO_SCHEME
     \<and> tx_flags p AND TRANSMIT_OPTION_MULTICAST = 0 \<and> length (endpoint_encap p d) < META_DATA_MAX_DATA_SIZE"

lemma next_frame:
  assumes inv: "core_inv s [r] [] [] lost" and l: "\<not> lock s" and has: "session_has s r p d cb u" and pl: "plain_frame env p d"
    and rm: "room env (endpoint_encap p d) s"
  obtains t b where "send_first env s = Some t" "core_inv t [] [b] [r] lost" "session_has t b p (endpoint_encap p d) Callback_ex r"
    "session_has t r p d cb u" "reset_span (session_at t r) = reset_span (session_at s r)"
    "current_session t = r" "lock t" "same_ctl (s \<lparr> lock := True, current_session := r \<rparr>) t" "sd_log t = sd_log s"
    "posted t = posted s @ [SEND_EVENT_SEND_NEXT_LL]" "fb_allocs t = fb_allocs s + 1"
proof -
  let ?f = "endpoint_encap p d"
  let ?s = "s \<lparr> session_list := sd_next s r, current_session := r, lock := True \<rparr>"
  have pop: "list_pop (session_list s) (sd_next s) = (r, sd_next s r)" "core_inv ?s [] [] [r] lost"
    using core_pop(2) [OF inv] by simp_all
  have r: "r \<noteq> 0" using core_nonnull [OF inv, of r] by simp
  obtain fb where fb: "session_fb s r = Some fb" "fb_param fb = p" "take (unat (frame_len fb)) (frame_data fb) = d"
      "unat (frame_len fb) = length d" using has unfolding session_has_def by blast
  have len: "(ucast (frame_len fb) :: u8) = of_nat (length d)"
    by (simp only: fb(4) [symmetric] of_nat_unat)
  have small: "\<not> UIP_BUFSIZE < length d" "\<not> UIP_BUFSIZE < length ?f"
    using pl by (auto simp: plain_frame_def META_DATA_MAX_DATA_SIZE_def UIP_BUFSIZE_def endpoint_encap_def split: if_splits)
  let ?u = "?s \<lparr> new_buf := copy_bytes (new_buf s) ?f \<rparr>"
  have "core_inv ?u [] [] [r] lost" using pop(2) by simp
  then obtain ok t zs lost' where t: "send_data env p ?f Callback_ex r ?u = Some (ok, t)" "core_inv t [] ([] @ zs) [r] lost'" "same_ctl ?u t"
      "keeps (set ([] @ [] @ [r])) ?u t" "ok \<longleftrightarrow> room env ?f ?u"
      "if ok then \<exists>b. zs = [b] \<and> session_has t b p ?f Callback_ex r \<and> lost' = lost else zs = []"
      "sd_log t = sd_log ?u" "posted t = posted ?u @ (if ok then [SEND_EVENT_SEND_NEXT_LL] else [])"
    by (rule send_data_core)
  have ok: "ok" using t(5) rm by (simp add: room_def)
  then obtain b where b: "zs = [b]" "session_has t b p ?f Callback_ex r" "lost' = lost" using t(6) by auto
  have "send_endpoint env r ?s = Some (ok, t)"
    using fb len small pl t(1) unfolding send_endpoint_def plain_frame_def by (simp add: Let_def)
  then have "send_first env s = Some t" using pop(1) r ok by (simp add: send_first_def Let_def)
  moreover have "session_at t r = session_at s r" using t(4) by (simp add: keeps_def)
  moreover have "s_fb (session_at s r) \<le> fb_allocs s" using inv fb(1) by (auto simp: core_inv_def)
  then have "fbs t (s_fb (session_at s r)) = fbs s (s_fb (session_at s r))"
    using send_data_frames [OF t(1) ok] by simp
  then have "session_has t r p d cb u" using has \<open>session_at t r = session_at s r\<close> by (simp add: session_has_def)
  moreover have "same_ctl (s \<lparr> lock := True, current_session := r \<rparr>) t" "current_session t = r" "lock t"
    using t(3) by (simp_all add: same_ctl_def)
  ultimately show thesis
    using that [of t b] t(2,7,8) b ok send_data_allocs [OF t(1) ok] by simp
qed

text \<open>The radio gets the frame.\<close>

definition on_air :: "sd_env \<Rightarrow> ts_param_t \<Rightarrow> bytes \<Rightarrow> sd_effect" where
  "on_air env p f = (if snode p = my_node env then Radio_send (dnode p) f (tx_flags p)
     else Radio_send_bridge (snode p) (dnode p) f (tx_flags p))"

lemma radio_gets_frame:
  assumes inv: "core_inv s [] [b] [r] lost" and l: "\<not> lock_ll s" and has: "session_has s b p f Callback_ex r"
    and len: "length f < META_DATA_MAX_DATA_SIZE" and acc: "radio_accepts env (sd_log s @ [on_air env p f])"
  obtains t g where "send_next_ll env s = Some t" "core_inv t [] [b] [r] lost" "session_fb t b = Some g" "dnode (fb_param g) = dnode p"
    "is_ce t b" "s_user (session_at t b) = r" "session_at t r = session_at s r" "session_fb t r = session_fb s r"
    "lock t = lock s" "lock_ll t" "current_session t = current_session s" "discard_timer (session_at t b) = None"
    "timers t Backoff_timer = timers s Backoff_timer" "sd_log t = sd_log s @ [on_air env p f, Ima_send_data_start (dnode p)]"
    "posted t = posted s" "fb_allocs t = fb_allocs s"
proof -
  have h: "list_head (send_data_list s) = b" "b \<noteq> 0"
    using inv core_nonnull [OF inv, of b] by (auto simp: core_inv_def is_list_def list_head_def)
  obtain fb where fb: "session_fb s b = Some fb" "fb_param fb = p" "take (unat (frame_len fb)) (frame_data fb) = f"
      "unat (frame_len fb) = length f" using has unfolding session_has_def by blast
  let ?s = "s \<lparr> current_session_ll := b \<rparr>"
  define u where "u = (if discard_timeout p \<noteq> 0 then upd_session b (\<lambda>e. e \<lparr> discard_timer := None \<rparr>) ?s else ?s) \<lparr> lock_ll := True \<rparr>"
  have br: "b \<noteq> r" "s_fb (session_at s b) \<noteq> s_fb (session_at s r)"
    using inv by (auto simp: core_inv_def sessions_ok_def inj_on_def)
  have ui: "core_inv u [] [b] [r] lost"
    using discard_timer_core [of ?s "[]" "[b]" "[r]" lost b None] inv by (simp add: u_def)
  have "discard_timeout p \<noteq> 0 \<or> discard_timer (session_at s b) = None" using inv fb(1,2) by (auto simp: core_inv_def)
  then have uc: "session_fb u b = Some fb" "is_ce u b" "s_user (session_at u b) = r" "session_at u r = session_at s r" "fbs u = fbs s"
      "lock u = lock s" "lock_ll u" "current_session u = current_session s" "discard_timer (session_at u b) = None"
      "timers u = timers s" "sd_log u = sd_log s" "posted u = posted s" "fb_allocs u = fb_allocs s"
      "s_fb (session_at u b) = s_fb (session_at s b)"
    using fb(1) has br by (auto simp: u_def session_has_def)
  obtain rc v where v: "radio_out env b fb u = (rc, v)" by (cases "radio_out env b fb u")
  note core = radio_out_core [OF v ui uc(1)]
  have out: "rc" "sd_log v = sd_log s @ [on_air env p f]" "posted v = posted s" "fb_allocs v = fb_allocs s"
      "timers v Backoff_timer = timers s Backoff_timer" "fbs v (s_fb (session_at s r)) = fbs s (s_fb (session_at s r))"
      "\<exists>g. session_fb v b = Some g \<and> dnode (fb_param g) = dnode p"
    using v fb len acc uc br by (auto simp: radio_out_def Let_def on_air_def split: if_splits)
  then obtain g where g: "session_fb v b = Some g" "dnode (fb_param g) = dnode p" by blast
  let ?t = "etimer_set Emergency_timer (65 * 1000) (sd_emit (Ima_send_data_start (dnode p)) v)"
  have "send_next_ll env s = Some ?t"
    using h l fb(1,2) v out(1) by (simp add: send_next_ll_def Let_def u_def)
  then show thesis using that [of ?t g] core out g uc by simp
qed

text \<open>The radio reports, and the application is told.\<close>

definition told :: "sd_env \<Rightarrow> sd_effect list \<Rightarrow> nodeid \<Rightarrow> bool \<Rightarrow> u8 \<Rightarrow> u16 option \<Rightarrow> sd_effect list" where
  "told env log n span st ts =
     (let q = get_queue_state env log
      in (if (q = QS_SENDING_FIRST \<and> st = TRANSMIT_COMPLETE_OK) \<or> q = QS_SENDING_LONG then [Ima_send_data_done n st ts] else [])
         @ (if st = TRANSMIT_COMPLETE_OK \<and> span then [Sec2_reset_span n] else []))"

lemma report_ends_frame:
  assumes inv: "core_inv s [] [b] [r] lost" and l: "lock_ll s" "lock s" "current_session s = r" and g: "session_fb s b = Some g"
    "dnode (fb_param g) = dnode p" and ce: "is_ce s b" "s_user (session_at s b) = r" and d: "discard_timer (session_at s b) = None"
    and has: "session_has s r p d (App_cb cb) u" and nget: "\<not> CommandAnalyzerIsGet env (d ! 0) (d ! 1)" "2 \<le> length d" and st: "st \<noteq> TRANSMIT_COMPLETE_FAIL"
    and log: "log = sd_log s @ told env (sd_log s) (dnode p) (reset_span (session_at s r)) st ts @ [Report cb st u ts]" "reaction env log = []"
  obtains t where "send_data_callback_func env st ts s = Some t" "core_inv t [] [] [] lost" "\<not> lock t" "\<not> lock_ll t"
    "sd_log t = log" "posted t = posted s @ [SEND_EVENT_SEND_NEXT, SEND_EVENT_SEND_NEXT_LL]" "fb_allocs t = fb_allocs s"
    "timers t Backoff_timer = timers s Backoff_timer"
    "reset_span (session_at t r) \<longleftrightarrow> reset_span (session_at s r) \<and> st \<noteq> TRANSMIT_COMPLETE_OK"
proof -
  obtain fb where fb: "session_fb s r = Some fb" "fb_param fb = p" "take (unat (frame_len fb)) (frame_data fb) = d"
      "unat (frame_len fb) = length d" "s_callback (session_at s r) = App_cb cb" "s_user (session_at s r) = u"
    using has unfolding session_has_def by blast
  have byte: "frame_data fb ! i = d ! i" if "i < length d" for i
    using fb(3,4) that by (metis nth_take)
  have cmd: "frame_data fb ! 0 = d ! 0" "frame_data fb ! 1 = d ! 1" using nget(2) by (auto intro!: byte)
  have br: "b \<noteq> r" "s_fb (session_at s b) \<noteq> s_fb (session_at s r)" "b \<noteq> 0"
    using inv core_nonnull [OF inv, of b] by (auto simp: core_inv_def sessions_ok_def inj_on_def)
  note pop = core_pop(1) [OF inv d]
  let ?q = "get_queue_state env (sd_log s)"
  let ?s0 = "s \<lparr> send_data_list := sd_next s b \<rparr>"
  define s1 where "s1 = (etimer_stop Soft_reset_timer (etimer_stop Resend_lockup_timer (etimer_stop Emergency_timer
      (if (?q = QS_SENDING_FIRST \<and> st = TRANSMIT_COMPLETE_OK) \<or> ?q = QS_SENDING_LONG
       then sd_emit (Ima_send_data_done (dnode p) st ts) ?s0 else ?s0)))) \<lparr> resend_counter := 0 \<rparr>"
  have s1: "core_inv s1 [] [] [b, r] lost" "session_at s1 = session_at s" "fbs s1 = fbs s" "lock s1" "session_memb s1 = session_memb s"
      "posted s1 = posted s" "fb_allocs s1 = fb_allocs s" "timers s1 Backoff_timer = timers s Backoff_timer"
      "sd_log s1 = sd_log s @ (if (?q = QS_SENDING_FIRST \<and> st = TRANSMIT_COMPLETE_OK) \<or> ?q = QS_SENDING_LONG then [Ima_send_data_done (dnode p) st ts] else [])"
    using pop l by (simp_all add: s1_def)
  note f1 = core_free [OF s1(1)]
  let ?s2 = "s1 \<lparr> fbs := (fbs s1)(s_fb (session_at s1 b) := None) \<rparr>"
  let ?s3 = "?s2 \<lparr> session_memb := snd (memb_free (session_memb ?s2) b) \<rparr>"
  let ?a = "after_report env st r ts fb ?s3"
  have fb3: "session_fb ?s3 r = Some fb" using fb(1) s1 br by simp
  have "core_inv ?a [] [] [r] lost" using f1(2) by simp
  note f2 = core_free [OF this]
  let ?s4 = "?a \<lparr> fbs := (fbs ?a)(s_fb (session_at ?a r) := None) \<rparr>"
  let ?s5 = "?s4 \<lparr> session_memb := snd (memb_free (session_memb ?s4) r) \<rparr>"
  let ?t = "process_post SEND_EVENT_SEND_NEXT_LL ((sd_emit (Report cb st u ts) ?s5) \<lparr> lock_ll := False \<rparr>)"
  have a: "sd_log ?a = sd_log s @ told env (sd_log s) (dnode p) (reset_span (session_at s r)) st ts"
      "posted ?a = posted s @ [SEND_EVENT_SEND_NEXT]" "fb_allocs ?a = fb_allocs s" "timers ?a Backoff_timer = timers s Backoff_timer"
      "reset_span (session_at ?a r) \<longleftrightarrow> reset_span (session_at s r) \<and> st \<noteq> TRANSMIT_COMPLETE_OK"
    using s1 fb(2) nget(1) cmd by (auto simp: after_report_def told_def Let_def split: option.splits)
  have "call_app env cb st u ts ?s5 = Some (sd_emit (Report cb st u ts) ?s5)"
    using a(1) log by (simp add: call_app_def)
  then have "ZW_SendDataAppl_CallbackEx env st r ts ?s3 = Some (sd_emit (Report cb st u ts) ?s5)"
    unfolding ZW_SendDataAppl_CallbackEx_def using s1(2,4) fb3 f2(1) fb(5,6) by (simp add: Let_def)
  then have "call_callback env st b ts ?s3 = Some (sd_emit (Report cb st u ts) ?s5)"
    using s1(2) ce by (simp add: call_callback_def)
  then obtain v where v: "call_callback env st b ts ?s3 = Some v" "?t = process_post SEND_EVENT_SEND_NEXT_LL (v \<lparr> lock_ll := False \<rparr>)" by blast
  have "send_data_callback_func env st ts s = Option.bind (zw_frame_buffer_free (s_fb (session_at s b)) s1)
      (\<lambda>s. Option.bind (call_callback env st b ts (s \<lparr> session_memb := snd (memb_free (session_memb s) b) \<rparr>))
         (\<lambda>s. Some (process_post SEND_EVENT_SEND_NEXT_LL (s \<lparr> lock_ll := False \<rparr>))))"
    using l(1) st pop g br(3) by (simp add: send_data_callback_func_def Let_def s1_def)
  then have "send_data_callback_func env st ts s = Some (process_post SEND_EVENT_SEND_NEXT_LL (v \<lparr> lock_ll := False \<rparr>))"
    using f1(1) v(1) s1(2) by simp
  then have "send_data_callback_func env st ts s = Some ?t" using v(2) by simp
  moreover have "core_inv ?t [] [] [] lost" using f2(2) by simp
  ultimately show thesis using that [of ?t] a log by simp
qed

section \<open>A whole transmission\<close>

text \<open>What a plain frame needs: memory for it twice, a radio that accepts it, an application that only listens.\<close>

definition transmission :: "ts_param_t \<Rightarrow> bytes \<Rightarrow> nat \<Rightarrow> addr \<Rightarrow> u8 \<Rightarrow> u16 option \<Rightarrow> sd_op list" where
  "transmission p d cb u st ts = [Op_send p d (Some cb) u, Op_event, Op_event, Op_radio_report st ts, Op_event, Op_event]"

definition quiet :: "sd_state \<Rightarrow> bool" where
  "quiet s \<longleftrightarrow> ZW_SendDataAppl_idle s \<and> posted s = [] \<and> etimer_expired (timers s Backoff_timer)"

definition sent_log :: "sd_env \<Rightarrow> ts_param_t \<Rightarrow> bytes \<Rightarrow> nat \<Rightarrow> addr \<Rightarrow> u8 \<Rightarrow> u16 option \<Rightarrow> bool \<Rightarrow> sd_effect list \<Rightarrow> sd_effect list" where
  "sent_log env p d cb u st ts span log =
     (let sent = log @ [on_air env p (endpoint_encap p d), Ima_send_data_start (dnode p)]
      in sent @ told env sent (dnode p) span st ts @ [Report cb st u ts])"

definition can_send :: "sd_env \<Rightarrow> ts_param_t \<Rightarrow> bytes \<Rightarrow> sd_state \<Rightarrow> bool" where
  "can_send env p d s \<longleftrightarrow> 2 \<le> memb_free_count (session_memb s) \<and> malloc_ok env (fb_allocs s) \<and> malloc_ok env (fb_allocs s + 1)
     \<and> plain_frame env p d \<and> 2 \<le> length d \<and> d ! 0 \<noteq> 0 \<and> \<not> CommandAnalyzerIsGet env (d ! 0) (d ! 1)
     \<and> radio_accepts env (sd_log s @ [on_air env p (endpoint_encap p d)])"

lemma nothing_to_send:
  "session_list s = 0 \<Longrightarrow> send_first env s = Some (s \<lparr> session_list := 0, current_session := 0 \<rparr>)"
  "send_data_list s = 0 \<Longrightarrow> send_next_ll env s = Some (s \<lparr> current_session_ll := 0 \<rparr>)"
  by (simp_all add: send_first_def send_next_ll_def list_pop_def list_head_def Let_def)

lemma quiet_lists:
  assumes "sd_inv s xs ys" and "quiet s"
  obtains lost where "core_inv s [] [] [] lost" "\<not> lock s" "\<not> lock_ll s"
proof -
  obtain lost where inv: "core_inv s xs ys (flight s) lost" and ll: "lock_ll s \<longrightarrow> ys \<noteq> []" using assms(1) by (auto simp: sd_inv_def)
  have h: "session_list s = 0" "send_data_list s = 0" "current_session s = 0" using assms(2) by (simp_all add: quiet_def ZW_SendDataAppl_idle_def list_head_def)
  have "xs = []" "ys = []" using inv h by (cases xs; cases ys; auto simp: core_inv_def is_list_def)+
  moreover have "\<not> lock s" using inv h(3) core_nonnull [OF inv, of 0] by (auto simp: flight_def)
  ultimately show thesis using that [of lost] inv ll by (simp add: flight_def)
qed

lemma used_free: "memb_ok (session_memb s) \<Longrightarrow> card (used_blocks (session_memb s)) + memb_free_count (session_memb s) = length (session_memb s)"
  using card_used_blocks [of "session_memb s"] by simp

lemma transmission_run:
  assumes inv: "core_inv s [] [] [] lost" and l: "\<not> lock s" "\<not> lock_ll s" and q: "quiet s" and can: "can_send env p d s"
    and st: "st \<noteq> TRANSMIT_COMPLETE_FAIL"
  defines "r \<equiv> fst (memb_alloc (session_memb s))"
  defines "span \<equiv> d ! 0 = 0x7A \<and> d ! 1 = 0x08 \<or> reset_span (session_at s r)"
  assumes still: "reaction env (sent_log env p d cb u st ts span (sd_log s)) = []"
  obtains t where "sd_run env (transmission p d cb u st ts) s = Some t" "core_inv t [] [] [] lost" "\<not> lock t" "\<not> lock_ll t" "quiet t"
    "session_memb t = session_memb s" "sd_log t = sent_log env p d cb u st ts span (sd_log s)" "fb_allocs t = fb_allocs s + 2"
    "reset_span (session_at t r) \<longleftrightarrow> span \<and> st \<noteq> TRANSMIT_COMPLETE_OK"
proof -
  let ?f = "endpoint_encap p d"
  have af: "appl_frame p d = d" using can by (simp add: appl_frame_def can_send_def)
  have small: "length ?f < 48" "length d < 48"
    using can by (auto simp: can_send_def plain_frame_def META_DATA_MAX_DATA_SIZE_def endpoint_encap_def split: if_splits)
  obtain n s1 zs where s1: "ZW_SendDataAppl env p d (App_cb cb) u s = Some (n, s1)" "core_inv s1 ([] @ zs) [] [] lost" "same_ctl s s1"
      "keeps (set ([] @ [] @ [])) s s1" "n \<noteq> 0 \<longleftrightarrow> room env (appl_frame p d) s"
      "if n = 0 then zs = [] else zs = [n] \<and> session_has s1 n p (appl_frame p d) (App_cb cb) u
         \<and> (reset_span (session_at s1 n) \<longleftrightarrow> d ! 0 = 0x7A \<and> d ! 1 = 0x08 \<or> reset_span (session_at s n))"
      "sd_log s1 = sd_log s" "posted s1 = posted s @ (if n = 0 then [] else [SEND_EVENT_SEND_NEXT])"
    by (rule send_data_appl_core [OF inv])
  have "n \<noteq> 0" using s1(5) can small af by (simp add: room_def can_send_def FRAME_BUFFER_ELEMENT_SIE_def)
  then have n: "n = r" "fb_allocs s1 = fb_allocs s + 1" "r \<noteq> 0" "zs = [r]" "session_has s1 r p d (App_cb cb) u" "reset_span (session_at s1 r) = span"
      "posted s1 = [SEND_EVENT_SEND_NEXT]"
    using appl_handle [OF s1(1)] s1(6,8) q af by (auto simp: r_def span_def quiet_def)
  have r1: "core_inv s1 [r] [] [] lost" "\<not> lock s1" "\<not> lock_ll s1" "timers s1 = timers s" using s1(2,3) n(4) l by (simp_all add: same_ctl_def)
  let ?s1 = "s1 \<lparr> posted := [] \<rparr>"
  have "card (used_blocks (session_memb s1)) = Suc (card (used_blocks (session_memb s)))"
    using inv r1(1) finite_used_blocks [of "session_memb s"] by (simp add: core_inv_def)
  then have "memb_free_count (session_memb s1) \<noteq> 0"
    using can used_free [of s] used_free [of s1] inv r1(1) by (simp add: core_inv_def can_send_def)
  then have rm: "room env ?f ?s1"
    using can small n(2) by (simp add: room_def can_send_def FRAME_BUFFER_ELEMENT_SIE_def)
  have "core_inv ?s1 [r] [] [] lost" "\<not> lock ?s1" "session_has ?s1 r p d (App_cb cb) u" "plain_frame env p d"
    using r1 n(5) can by (simp_all add: session_has_def can_send_def)
  then obtain s2 b where s2: "send_first env ?s1 = Some s2" "core_inv s2 [] [b] [r] lost" "session_has s2 b p ?f Callback_ex r"
      "session_has s2 r p d (App_cb cb) u" "reset_span (session_at s2 r) = reset_span (session_at ?s1 r)"
      "current_session s2 = r" "lock s2" "same_ctl (?s1 \<lparr> lock := True, current_session := r \<rparr>) s2" "sd_log s2 = sd_log ?s1"
      "posted s2 = posted ?s1 @ [SEND_EVENT_SEND_NEXT_LL]" "fb_allocs s2 = fb_allocs ?s1 + 1"
    using rm by (rule next_frame)
  have c2: "\<not> lock_ll s2" "timers s2 = timers s" "posted s2 = [SEND_EVENT_SEND_NEXT_LL]" "sd_log s2 = sd_log s" "reset_span (session_at s2 r) = span"
    using s2(5,8-10) r1 n(6) s1(7) by (simp_all add: same_ctl_def)
  let ?s2 = "s2 \<lparr> posted := [] \<rparr>"
  have "core_inv ?s2 [] [b] [r] lost" "\<not> lock_ll ?s2" "session_has ?s2 b p ?f Callback_ex r" "length ?f < META_DATA_MAX_DATA_SIZE"
      "radio_accepts env (sd_log ?s2 @ [on_air env p ?f])"
    using s2(2,3) c2 small can by (simp_all add: session_has_def META_DATA_MAX_DATA_SIZE_def can_send_def)
  then obtain s3 g where s3: "send_next_ll env ?s2 = Some s3" "core_inv s3 [] [b] [r] lost" "session_fb s3 b = Some g" "dnode (fb_param g) = dnode p"
    "is_ce s3 b" "s_user (session_at s3 b) = r" "session_at s3 r = session_at ?s2 r" "session_fb s3 r = session_fb ?s2 r"
    "lock s3 = lock ?s2" "lock_ll s3" "current_session s3 = current_session ?s2" "discard_timer (session_at s3 b) = None"
    "timers s3 Backoff_timer = timers ?s2 Backoff_timer" "sd_log s3 = sd_log ?s2 @ [on_air env p ?f, Ima_send_data_start (dnode p)]"
    "posted s3 = posted ?s2" "fb_allocs s3 = fb_allocs ?s2"
    by (rule radio_gets_frame)
  let ?log = "sent_log env p d cb u st ts span (sd_log s)"
  have h3: "session_has s3 r p d (App_cb cb) u" "lock s3" "current_session s3 = r" "reset_span (session_at s3 r) = span"
    using s2(4,6,7) s3(7-9,11) c2(5) by (simp_all add: session_has_def)
  have lg: "?log = sd_log s3 @ told env (sd_log s3) (dnode p) (reset_span (session_at s3 r)) st ts @ [Report cb st u ts]"
    using s3(14) c2(4) h3(4) by (simp add: sent_log_def Let_def)
  have nget: "\<not> CommandAnalyzerIsGet env (d ! 0) (d ! 1)" "2 \<le> length d" using can by (simp_all add: can_send_def)
  obtain s4 where s4: "send_data_callback_func env st ts s3 = Some s4" "core_inv s4 [] [] [] lost" "\<not> lock s4" "\<not> lock_ll s4"
    "sd_log s4 = ?log" "posted s4 = posted s3 @ [SEND_EVENT_SEND_NEXT, SEND_EVENT_SEND_NEXT_LL]" "fb_allocs s4 = fb_allocs s3"
    "timers s4 Backoff_timer = timers s3 Backoff_timer"
    "reset_span (session_at s4 r) \<longleftrightarrow> reset_span (session_at s3 r) \<and> st \<noteq> TRANSMIT_COMPLETE_OK"
    by (rule report_ends_frame [OF s3(2,10) h3(2,3) s3(3-6,12) h3(1) nget st lg still])
  let ?t = "s4 \<lparr> posted := [], session_list := 0, current_session := 0, current_session_ll := 0 \<rparr>"
  have e: "session_list s4 = 0" "send_data_list s4 = 0" using core_pop(3,4) [of s4] s4(2) by blast+
  have bo: "etimer_expired (timers s Backoff_timer)" using q by (simp add: quiet_def)
  have "sd_run env (transmission p d cb u st ts) s = Some ?t"
    using s1(1) n(7) r1(2,4) bo s2(1) c2(3) s3(1,13,15) s4(1,3,6,8) e c2(2)
    by (simp add: transmission_def sd_apply_def app_cb_def ZW_SendDataAppl_process_def nothing_to_send)
  moreover have ti: "core_inv ?t [] [] [] lost" using s4(2) e by (simp add: core_inv_def sessions_ok_def)
  moreover have "quiet ?t"
    using e bo s4(8) s3(13) c2(2) by (simp add: quiet_def ZW_SendDataAppl_idle_def list_head_def)
  moreover have "session_memb ?t = session_memb s" using ti inv by (intro memb_eq) (auto simp: core_inv_def)
  ultimately show thesis using that [of ?t] s4 h3(4) s3(16) s2(11) n(2) by simp
qed

section \<open>Properties\<close>

definition sample_sd_env :: sd_env where
  "sample_sd_env = \<lparr> my_node = 1, GetCacheEntryFlag = (\<lambda>_. 0), SupportsCmdClass = (\<lambda>_ _. False), CommandAnalyzerIsGet = (\<lambda>_ _. False),
     get_queue_state = (\<lambda>_. QS_SENDING_FIRST), sec_accepts = (\<lambda>_. True), radio_accepts = (\<lambda>_. True), soft_reset_ok = (\<lambda>_. True),
     reaction = (\<lambda>_. []), malloc_ok = (\<lambda>_. True), malloc_bytes = (\<lambda>_. replicate 256 0), gecko_chip = True, time_resend_serial = 0,
     unsolicited_set = (\<lambda>_. False), setup_unsolicited = (\<lambda>_. False) \<rparr>"

text \<open>
  C6.  Whatever is called in whatever order - frames queued by the application and from inside its callbacks, reports of
  the radio and of the security layers, timeouts, aborts, events - every call of the sender returns without
  following a null or dangling pointer or an endless list, as long as the security layers report only on frames they have.  In every state
  that is reached, the two lists of frames are separate and well formed, every session in them has a frame buffer of its own, and
  the pool of eight sessions accounts for all of them.
\<close>

theorem sender_safe:
  assumes "sd_reachable env s"
  shows "(\<forall>op. sd_allowed op s \<longrightarrow> (\<exists>t. sd_apply env op s = Some t))
    \<and> (\<exists>xs ys. is_list (sd_next s) (session_list s) xs \<and> is_list (sd_next s) (send_data_list s) ys \<and> distinct (xs @ ys)
         \<and> inj_on (\<lambda>b. s_fb (session_at s b)) (set (xs @ ys)) \<and> (\<forall>b \<in> set (xs @ ys). session_fb s b \<noteq> None)
         \<and> set (xs @ ys) \<subseteq> used_blocks (session_memb s) \<and> length (xs @ ys) \<le> 8)"
proof
  obtain xs ys where i: "sd_inv s xs ys" using reachable_inv [OF assms] by blast
  then obtain lost where inv: "core_inv s xs ys (flight s) lost" by (auto simp: sd_inv_def)
  show "\<forall>op. sd_allowed op s \<longrightarrow> (\<exists>t. sd_apply env op s = Some t)" using apply_inv [OF i, of _ env] by blast
  have d: "distinct (xs @ ys)" and u: "set (xs @ ys) \<subseteq> used_blocks (session_memb s)" using inv by (auto simp: core_inv_def sessions_ok_def)
  have "card (used_blocks (session_memb s)) \<le> 8" using inv card_used_blocks [of "session_memb s"] by (simp add: core_inv_def)
  then have "length (xs @ ys) \<le> 8"
    using card_mono [OF finite_used_blocks u] distinct_card [OF d] by simp
  moreover have "inj_on (\<lambda>b. s_fb (session_at s b)) (set (xs @ ys))" "\<forall>b \<in> set (xs @ ys). session_fb s b \<noteq> None"
    using inv unfolding core_inv_def sessions_ok_def by (auto intro: inj_on_subset)
  ultimately show "\<exists>xs ys. is_list (sd_next s) (session_list s) xs \<and> is_list (sd_next s) (send_data_list s) ys \<and> distinct (xs @ ys)
         \<and> inj_on (\<lambda>b. s_fb (session_at s b)) (set (xs @ ys)) \<and> (\<forall>b \<in> set (xs @ ys). session_fb s b \<noteq> None)
         \<and> set (xs @ ys) \<subseteq> used_blocks (session_memb s) \<and> length (xs @ ys) \<le> 8"
    using inv d u by (intro exI [of _ xs] exI [of _ ys]) (simp add: core_inv_def)
qed

theorem sender_safe_witness:
  "\<exists>t. sd_apply sample_sd_env (Op_send sample_ts [0x25, 0x01, 0xFF] (Some 3) 9) sd_boot = Some t"
  using sender_safe [OF sd_reachable.boot [of sample_sd_env]] by (simp add: sd_allowed_def)

text \<open>
  C7.  A frame that needs no encapsulation and is given to a sender at rest goes to the radio exactly once, with the end points
  in front of it when there are any, and exactly one report with the radio's status reaches the application; then the sender is at rest
  again and the pool of sessions is as it was before the frame.  When the frame is acknowledged, the security state for the destination is reset if
  the frame was an activation set of the firmware update command class, or if its session still carries that mark from an earlier frame.

  The frame is sent without security and not as a multicast, has at least two bytes and fits a frame of the radio; it is neither a NOP nor a Get command
  (after which the sender pauses for the answer); two sessions and the memory for the frame are free; the radio takes the frame and reports
  any status but \<^verbatim>\<open>TRANSMIT_COMPLETE_FAIL\<close>; and the application sends nothing from within its report.
\<close>

theorem plain_frame_sent_once:
  assumes "sd_reachable env s" and "quiet s" and "can_send env p d s" and "st \<noteq> TRANSMIT_COMPLETE_FAIL"
  defines "span \<equiv> d ! 0 = 0x7A \<and> d ! 1 = 0x08 \<or> reset_span (session_at s (fst (memb_alloc (session_memb s))))"
  assumes "reaction env (sent_log env p d cb u st ts span (sd_log s)) = []"
  shows "\<exists>t. sd_run env (transmission p d cb u st ts) s = Some t \<and> quiet t \<and> session_memb t = session_memb s
    \<and> sd_log t = sent_log env p d cb u st ts span (sd_log s)"
proof -
  obtain xs ys where "sd_inv s xs ys" using reachable_inv [OF assms(1)] by blast
  then obtain lost where "core_inv s [] [] [] lost" "\<not> lock s" "\<not> lock_ll s" using assms(2) by (rule quiet_lists)
  from transmission_run [OF this assms(2-4) assms(6) [unfolded span_def]] show ?thesis unfolding span_def by blast
qed

theorem plain_frame_sent_once_witness:
  "\<exists>t. sd_run sample_sd_env (transmission sample_ts [0x25, 0x01, 0xFF] 3 9 TRANSMIT_COMPLETE_OK None) sd_boot = Some t
     \<and> sd_log t = [Radio_send 7 [0x25, 0x01, 0xFF] 0x25, Ima_send_data_start 7,
         Ima_send_data_done 7 TRANSMIT_COMPLETE_OK None, Report 3 TRANSMIT_COMPLETE_OK 9 None]"
proof -
  have c: "can_send sample_sd_env sample_ts [0x25, 0x01, 0xFF] sd_boot"
    by (simp add: can_send_def endpoint_encap_def plain_frame_def sample_sd_env_def sample_ts_def sd_boot_def memb_free_count_def memb_init_def
        ZW_SendData_scheme_select_def highest_scheme_def Let_def TRANSMIT_OPTION_MULTICAST_def META_DATA_MAX_DATA_SIZE_def)
  have q: "quiet sd_boot" by (simp add: quiet_def ZW_SendDataAppl_idle_def sd_boot_def list_head_def etimer_expired_def)
  show ?thesis
    using plain_frame_sent_once [OF sd_reachable.boot q c, of TRANSMIT_COMPLETE_OK 3 9 None]
    by (auto simp: sent_log_def told_def on_air_def endpoint_encap_def sample_sd_env_def sample_ts_def sd_boot_def Let_def
        TRANSMIT_COMPLETE_OK_def TRANSMIT_COMPLETE_FAIL_def)
qed

section \<open>Where the sender goes wrong\<close>

text \<open>The flag of a session that asks for a reset of the span outlives the session.\<close>

definition open_env :: "sd_env \<Rightarrow> bool" where
  "open_env env \<longleftrightarrow> (\<forall>l. radio_accepts env l \<and> reaction env l = []) \<and> (\<forall>n. malloc_ok env n)"

lemma sd_run_append: "sd_run env (xs @ ys) s = Option.bind (sd_run env xs s) (sd_run env ys)"
  by (induction xs arbitrary: s) (auto split: bind_splits)

definition sendable :: "sd_env \<Rightarrow> ts_param_t \<Rightarrow> bytes \<Rightarrow> bool" where
  "sendable env p d \<longleftrightarrow> plain_frame env p d \<and> 2 \<le> length d \<and> d ! 0 \<noteq> 0 \<and> \<not> CommandAnalyzerIsGet env (d ! 0) (d ! 1)"

lemma open_can_send: "open_env env \<Longrightarrow> sendable env p d \<Longrightarrow> 2 \<le> memb_free_count (session_memb s) \<Longrightarrow> can_send env p d s"
  by (simp add: open_env_def sendable_def can_send_def)

text \<open>
  When an activation set of the firmware update command class is not acknowledged, the session keeps the mark that asks for a reset of the security state,
  and the next frame, to whatever node and with whatever contents, resets the security state of its own destination.
\<close>

theorem stale_reset_span:
  assumes "sd_reachable env s" and "quiet s" and "2 \<le> memb_free_count (session_memb s)" and "open_env env"
    and "sendable env p d" and "d ! 0 = 0x7A" and "d ! 1 = 0x08" and "sendable env q e"
  shows "\<exists>t. sd_run env (transmission p d cb u TRANSMIT_COMPLETE_NO_ACK ts @ transmission q e cb' u' TRANSMIT_COMPLETE_OK ts') s = Some t
    \<and> Sec2_reset_span (dnode q) \<in> set (drop (length (sd_log s)) (sd_log t))"
proof -
  obtain xs ys where "sd_inv s xs ys" using reachable_inv [OF assms(1)] by blast
  then obtain lost where s: "core_inv s [] [] [] lost" "\<not> lock s" "\<not> lock_ll s" using assms(2) by (rule quiet_lists)
  let ?r = "fst (memb_alloc (session_memb s))"
  have ne: "TRANSMIT_COMPLETE_NO_ACK \<noteq> TRANSMIT_COMPLETE_FAIL" "TRANSMIT_COMPLETE_OK \<noteq> TRANSMIT_COMPLETE_FAIL"
      "TRANSMIT_COMPLETE_NO_ACK \<noteq> TRANSMIT_COMPLETE_OK"
    by (simp_all add: TRANSMIT_COMPLETE_NO_ACK_def TRANSMIT_COMPLETE_FAIL_def TRANSMIT_COMPLETE_OK_def)
  have still: "reaction env l = []" for l using assms(4) by (simp add: open_env_def)
  obtain m where m: "sd_run env (transmission p d cb u TRANSMIT_COMPLETE_NO_ACK ts) s = Some m" "core_inv m [] [] [] lost" "\<not> lock m" "\<not> lock_ll m"
      "quiet m" "session_memb m = session_memb s" "reset_span (session_at m ?r)"
      "sd_log m = sent_log env p d cb u TRANSMIT_COMPLETE_NO_ACK ts True (sd_log s)"
    using transmission_run [OF s assms(2) open_can_send [OF assms(4,5,3)] ne(1) still, of cb u ts] assms(6,7) ne(3) by auto
  have "2 \<le> memb_free_count (session_memb m)" using assms(3) m(6) by simp
  from transmission_run [OF m(2-5) open_can_send [OF assms(4,8) this] ne(2) still, of cb' u' ts']
  obtain t where t: "sd_run env (transmission q e cb' u' TRANSMIT_COMPLETE_OK ts') m = Some t"
      "sd_log t = sent_log env q e cb' u' TRANSMIT_COMPLETE_OK ts' True (sd_log m)"
    using m(6,7) by auto
  have "\<exists>l. sd_log t = sd_log s @ l \<and> Sec2_reset_span (dnode q) \<in> set l"
    unfolding t(2) m(8) by (simp add: sent_log_def told_def Let_def)
  then show ?thesis using m(1) t(1) by (auto simp: sd_run_append)
qed

theorem stale_reset_span_witness:
  "\<exists>t. sd_run sample_sd_env (transmission sample_ts [0x7A, 0x08, 0] 3 9 TRANSMIT_COMPLETE_NO_ACK None
       @ transmission (sample_ts \<lparr> dnode := 8 \<rparr>) [0x25, 0x01, 0xFF] 3 9 TRANSMIT_COMPLETE_OK None) sd_boot = Some t
     \<and> Sec2_reset_span 8 \<in> set (drop (length (sd_log sd_boot)) (sd_log t))"
proof -
  have q: "quiet sd_boot" "2 \<le> memb_free_count (session_memb sd_boot)" "open_env sample_sd_env"
    by (simp_all add: quiet_def ZW_SendDataAppl_idle_def sd_boot_def list_head_def etimer_expired_def memb_free_count_def memb_init_def
        open_env_def sample_sd_env_def)
  have s: "sendable sample_sd_env (sample_ts \<lparr> dnode := n \<rparr>) d" if "length d = 3" "d ! 0 \<noteq> 0" for n d
    using that by (simp add: sendable_def endpoint_encap_def plain_frame_def sample_sd_env_def sample_ts_def
        ZW_SendData_scheme_select_def highest_scheme_def Let_def TRANSMIT_OPTION_MULTICAST_def META_DATA_MAX_DATA_SIZE_def)
  have p: "sample_ts \<lparr> dnode := 7 \<rparr> = sample_ts" by (simp add: sample_ts_def)
  show ?thesis
    using stale_reset_span [OF sd_reachable.boot q s [of "[0x7A, 0x08, 0]" 7] _ _ s [of "[0x25, 0x01, 0xFF]" 8]] by (simp add: p)
qed

text \<open>The timer of a pause that was running when the process was restarted.\<close>

definition stalled :: "nodeid \<Rightarrow> sd_state \<Rightarrow> bool" where
  "stalled n s \<longleftrightarrow> \<not> lock s \<and> timers s Backoff_timer = Et_lost \<and> backoff_node s = n
     \<and> (\<forall>k. SEND_EVENT_SEND_NEXT_DELAYED k \<notin> set (posted s))"

lemma stalled_simps [simp]:
  "stalled n (sd_emit e s) = stalled n s" "\<forall>k. v \<noteq> SEND_EVENT_SEND_NEXT_DELAYED k \<Longrightarrow> stalled n (process_post v s) = stalled n s" "stalled n (upd_session b g s) = stalled n s"
  "tm \<noteq> Backoff_timer \<Longrightarrow> stalled n (set_timer tm w s) = stalled n s"
  "stalled n (s \<lparr> lock_ll := x \<rparr>) = stalled n s" "stalled n (s \<lparr> resend_counter := c \<rparr>) = stalled n s"
  "stalled n (s \<lparr> send_data_list := h \<rparr>) = stalled n s" "stalled n (s \<lparr> session_list := h \<rparr>) = stalled n s"
  "stalled n (s \<lparr> sd_next := nx \<rparr>) = stalled n s" "stalled n (s \<lparr> session_memb := m \<rparr>) = stalled n s" "stalled n (s \<lparr> fbs := f \<rparr>) = stalled n s"
  "stalled n (s \<lparr> current_session_ll := c' \<rparr>) = stalled n s"
  "stalled n (s \<lparr> fb_allocs := k \<rparr>) = stalled n s"
  by (auto simp: stalled_def)

lemma send_data_stalled: "send_data env p d cb u s = Some (r, t) \<Longrightarrow> stalled n t = stalled n s"
  by (auto simp: send_data_def zw_frame_buffer_create_def Let_def split: prod.splits option.splits if_splits)

lemma appl_stalled: "ZW_SendDataAppl env p d cb u s = Some (r, t) \<Longrightarrow> stalled n t = stalled n s"
  by (auto simp: ZW_SendDataAppl_def zw_frame_buffer_create_def Let_def split: prod.splits option.splits if_splits)

lemma react_stalled: "react env r s = Some t \<Longrightarrow> stalled n t = stalled n s"
  using send_data_stalled appl_stalled by (auto simp: react_def split: sd_request.splits)

lemma react_all_stalled: "react_all env rs s = Some t \<Longrightarrow> stalled n t = stalled n s"
  by (induction rs arbitrary: s) (auto simp: react_stalled split: bind_splits)

lemma call_app_stalled: "call_app env cb st u ts s = Some t \<Longrightarrow> stalled n t = stalled n s"
  using react_all_stalled [of env _ _ t n] by (auto simp: call_app_def Let_def)

lemma zw_frame_buffer_free_stalled: "zw_frame_buffer_free a s = Some t \<Longrightarrow> stalled n t = stalled n s"
  by (auto simp: zw_frame_buffer_free_def split: if_splits)

text \<open>While no application frame is under way, no report starts a new pause.\<close>

lemma call_callback_stalled: "call_callback env st b ts s = Some t \<Longrightarrow> stalled n s \<Longrightarrow> stalled n t"
  using call_app_stalled [of env _ st _ ts s t n]
  by (auto simp: call_callback_def ZW_SendDataAppl_CallbackEx_def split: sd_callback.splits) (simp add: stalled_def)

lemma send_data_fail_stalled: "send_data_fail env ts s = Some t \<Longrightarrow> stalled n s \<Longrightarrow> stalled n t"
  by (auto simp: send_data_fail_def Let_def split: prod.splits if_splits bind_splits
      dest!: call_callback_stalled zw_frame_buffer_free_stalled [where n = n])

lemma radio_report_stalled: "send_data_callback_func env st ts s = Some t \<Longrightarrow> stalled n s \<Longrightarrow> stalled n t"
  by (auto simp: send_data_callback_func_def Let_def split: prod.splits option.splits if_splits bind_splits
      dest!: call_callback_stalled [where n = n] send_data_fail_stalled [where n = n] zw_frame_buffer_free_stalled [where n = n])

lemma radio_out_stalled: "radio_out env b fb s = (rc, t) \<Longrightarrow> stalled n t = stalled n s"
  by (auto simp: radio_out_def Let_def split: if_splits)

lemma send_next_ll_stalled:
  assumes "send_next_ll env s = Some t" and "stalled n s"
  shows "stalled n t"
proof -
  let ?b = "list_head (send_data_list s)"
  have u: "stalled n ((if c then upd_session ?b g (s \<lparr> current_session_ll := ?b \<rparr>) else s \<lparr> current_session_ll := ?b \<rparr>) \<lparr> lock_ll := True \<rparr>)" for c g
    using assms(2) by simp
  show ?thesis
    using assms radio_report_stalled [of env TRANSMIT_COMPLETE_FAIL None _ t n] radio_out_stalled [of env ?b _ _ _ _ n] u
    unfolding send_next_ll_def Let_def by (fastforce split: if_splits option.splits prod.splits)
qed

lemma soft_reset_stalled: "stalled n (soft_reset_timeout env s) = stalled n s"
  by (simp add: soft_reset_timeout_def notify_ncp_controller_status_via_unsolicited_dest_def Let_def)

lemma process_stalled:
  assumes "ZW_SendDataAppl_process env ev s = Some t" and "stalled n s" and "\<forall>k. ev \<noteq> SEND_EVENT_SEND_NEXT_DELAYED k"
  shows "stalled n t"
proof (cases ev)
  case (Event_timer tm)
  then show ?thesis using assms radio_report_stalled [of env TRANSMIT_COMPLETE_FAIL None s t n]
    by (cases tm) (auto simp: ZW_SendDataAppl_process_def soft_reset_stalled)
next
  case SEND_EVENT_SEND_NEXT
  then show ?thesis using assms by (auto simp: ZW_SendDataAppl_process_def stalled_def etimer_expired_def)
next
  case SEND_EVENT_SEND_NEXT_LL
  then show ?thesis using assms send_next_ll_stalled by (simp add: ZW_SendDataAppl_process_def)
qed (use assms(3) in simp)

lemma apply_stalled:
  assumes "sd_apply env op s = Some t" and st: "stalled n s" and "op \<noteq> Op_received n"
  shows "stalled n t"
proof (cases op)
  case (Op_send p d cb u)
  then show ?thesis using assms appl_stalled [of env p d _ u s _ t n] by (auto simp: sd_apply_def)
next
  case (Op_send_ll p d cb u)
  then show ?thesis using assms send_data_stalled [of env p d _ u s _ t n] by (auto simp: sd_apply_def)
next
  case (Op_radio_report x ts)
  then show ?thesis using assms radio_report_stalled by (simp add: sd_apply_def)
next
  case (Op_security_report x ts)
  then show ?thesis using assms by (auto simp: sd_apply_def ZW_SendDataAppl_CallbackEx_def stalled_def)
next
  case (Op_discard b)
  then show ?thesis using assms
    by (auto simp: sd_apply_def do_discard_timeout_memb_def Let_def split: if_splits option.splits dest!: call_callback_stalled [where n = n])
next
  case (Op_timer tm)
  then show ?thesis using assms by (cases "tm = Backoff_timer") (auto simp: sd_apply_def stalled_def split: etimer.splits)
next
  case Op_event
  show ?thesis
  proof (cases "posted s")
    case (Cons e es)
    have "stalled n (s \<lparr> posted := es \<rparr>)" "\<forall>k. e \<noteq> SEND_EVENT_SEND_NEXT_DELAYED k" using st Cons by (auto simp: stalled_def)
    then show ?thesis using process_stalled [of env e "s \<lparr> posted := es \<rparr>" t n] assms Op_event Cons by (simp add: sd_apply_def)
  qed (use assms Op_event in \<open>simp add: sd_apply_def\<close>)
next
  case (Op_abort h)
  then show ?thesis using assms
    by (auto simp: sd_apply_def ZW_SendDataApplAbort_def split: if_splits bind_splits prod.splits dest!: call_callback_stalled [where n = n])
next
  case (Op_received m)
  then show ?thesis using assms by (auto simp: sd_apply_def ZW_SendDataAppl_FrameRX_Notify_def stalled_def)
qed

lemma run_stalled: "sd_run env ops s = Some t \<Longrightarrow> stalled n s \<Longrightarrow> Op_received n \<notin> set ops \<Longrightarrow> stalled n t"
  by (induction ops arbitrary: s) (auto dest: apply_stalled split: bind_splits)

text \<open>
  When the sender is initialized again while it pauses for the answer of a node, the timer of the pause is lost without having expired: until
  a frame from that node arrives, whatever else happens, no event starts an application frame, and they all stay in the queue.
\<close>

theorem restart_during_pause_stalls:
  assumes "timers s Backoff_timer = Et_running k" and "\<forall>k. SEND_EVENT_SEND_NEXT_DELAYED k \<notin> set (posted s)"
    and "sd_run env ops (ZW_SendDataAppl_init s) = Some t" and "Op_received (backoff_node s) \<notin> set ops"
  shows "ZW_SendDataAppl_process env SEND_EVENT_SEND_NEXT t = Some t"
proof -
  have "stalled (backoff_node s) (ZW_SendDataAppl_init s)"
    using assms(1,2) by (simp add: stalled_def ZW_SendDataAppl_init_def etimer_process_exited_def)
  then show ?thesis using run_stalled [OF assms(3) _ assms(4)]
    by (simp add: ZW_SendDataAppl_process_def stalled_def etimer_expired_def)
qed

theorem restart_during_pause_stalls_witness:
  "\<exists>t. sd_run sample_sd_env [Op_timer Backoff_timer, Op_received 3, Op_event]
       (ZW_SendDataAppl_init (sd_boot \<lparr> timers := (\<lambda>_. Et_running 250), backoff_node := 7 \<rparr>)) = Some t
     \<and> ZW_SendDataAppl_process sample_sd_env SEND_EVENT_SEND_NEXT t = Some t"
proof -
  let ?s = "sd_boot \<lparr> timers := (\<lambda>_. Et_running 250), backoff_node := 7 \<rparr>" and ?ops = "[Op_timer Backoff_timer, Op_received 3, Op_event]"
  have "sd_run sample_sd_env ?ops (ZW_SendDataAppl_init ?s) = Some (ZW_SendDataAppl_init ?s)"
    by (simp add: sd_apply_def ZW_SendDataAppl_init_def etimer_process_exited_def ZW_SendDataAppl_FrameRX_Notify_def sd_emit_def sd_boot_def)
  then show ?thesis using restart_during_pause_stalls [of ?s 250 sample_sd_env ?ops] by (simp add: sd_boot_def)
qed

end
