(* ===== verification/Send_Request.thy ===== *)
theory Send_Request
  imports Ts_Param Pool_List Node_Queue
begin

text \<open>
  Requests and their answers (\<^verbatim>\<open>src/transport/ZW_SendRequest.c\<close>): a frame is sent, and when the radio has delivered it the module waits for
  the answer with a timeout.  Up to four requests are kept in a list whose items are blocks of a pool.

  The frames go through \<^verbatim>\<open>ZW_SendDataAppl\<close>; whether it accepts a frame is a function of the log of the calls, as is the result of an
  application's callback and the requests that the callback makes.  The sender's report, the expiry of a timer and the received commands are calls
  from outside.  \<open>None\<close> stands for a walk along a list that does not end.
\<close>

section \<open>State\<close>

datatype req_state_t = REQ_SENDING | REQ_WAITING | REQ_DONE

record send_request_state_t =
  req_param :: ts_param_t
  req_state :: req_state_t
  req_class :: u8
  req_cmd :: u8
  req_timeout :: u16
  req_user :: addr
  req_callback :: nat
  req_timer :: "nat option"
  round_trip_start :: nat

text \<open>What the module does: it hands a frame to the sender, and it tells the application about an answer or its absence.\<close>

datatype sr_effect =
    Sr_send ts_param_t bytes addr
  | Sr_result nat u8 u8 "bytes option" u16 addr

text \<open>A request of the application.  A null callback is refused.\<close>

datatype sr_request = Sr_request (rq_p: ts_param_t) (rq_data: bytes) (rq_response: u8) (rq_timeout: u16) (rq_user: addr) (rq_callback: "nat option")

record sr_env = ts_env +
  appl_accepts :: "sr_effect list \<Rightarrow> bool"
  more_expected :: "sr_effect list \<Rightarrow> bool"
  sr_reaction :: "sr_effect list \<Rightarrow> sr_request list"

record sr_state =
  reqs_list :: addr
  req_next :: links
  req_at :: "addr \<Rightarrow> send_request_state_t"
  reqs :: memb
  sr_clock :: nat
  sr_log :: "sr_effect list"

definition NUM_REQS :: nat where "NUM_REQS = 4"
definition ROUTING_RETRANSMISSION_DELAY :: nat where "ROUTING_RETRANSMISSION_DELAY = 250"

definition sr_emit :: "sr_effect \<Rightarrow> sr_state \<Rightarrow> sr_state" where
  "sr_emit e s = s \<lparr> sr_log := sr_log s @ [e] \<rparr>"

definition upd_req :: "addr \<Rightarrow> (send_request_state_t \<Rightarrow> send_request_state_t) \<Rightarrow> sr_state \<Rightarrow> sr_state" where
  "upd_req b f s = s \<lparr> req_at := (req_at s)(b := f (req_at s b)) \<rparr>"

section \<open>Operations\<close>

definition ZW_SendRequest_init :: "sr_state \<Rightarrow> sr_state" where
  "ZW_SendRequest_init s = s \<lparr> reqs := memb_init NUM_REQS, reqs_list := 0 \<rparr>"

definition ZW_SendRequest :: "sr_env \<Rightarrow> sr_request \<Rightarrow> sr_state \<Rightarrow> (bool \<times> sr_state) option" where
  "ZW_SendRequest env rq s =
     (case rq_callback rq of
        None \<Rightarrow> Some (False, s)
      | Some cb \<Rightarrow>
          (case memb_alloc (reqs s) of
             (b, pool) \<Rightarrow>
               if b = 0 then Some (False, s)
               else (case list_add (reqs_list s) b (req_next s) of
                       None \<Rightarrow> None
                     | Some (l, nxt) \<Rightarrow>
                         (let s = s \<lparr> reqs := pool, reqs_list := l, req_next := nxt \<rparr>;
                              s = upd_req b (\<lambda>e. e \<lparr> req_param := ts_param_make_reply env (req_param e) (rq_p rq), req_state := REQ_SENDING,
                                    req_class := rq_data rq ! 0, req_cmd := rq_response rq, req_user := rq_user rq, req_callback := cb,
                                    req_timeout := rq_timeout rq, round_trip_start := sr_clock s \<rparr>) s;
                              s = sr_emit (Sr_send (rq_p rq) (rq_data rq) b) s
                          in if appl_accepts env (sr_log s) then Some (True, s)
                             else (case list_remove (reqs_list s) b (req_next s) of
                                     None \<Rightarrow> None
                                   | Some (l, nxt) \<Rightarrow>
                                       Some (False, s \<lparr> reqs_list := l, req_next := nxt, reqs := snd (memb_free (reqs s) b) \<rparr>))))))"

primrec sr_react :: "sr_env \<Rightarrow> sr_request list \<Rightarrow> sr_state \<Rightarrow> sr_state option" where
  "sr_react env [] s = Some s"
| "sr_react env (r # rs) s = Option.bind (ZW_SendRequest env r s) (\<lambda>(_, s). sr_react env rs s)"

text \<open>The call of a callback; its result says whether more answers are expected.\<close>

definition sr_call :: "sr_env \<Rightarrow> addr \<Rightarrow> u8 \<Rightarrow> u8 \<Rightarrow> bytes option \<Rightarrow> u16 \<Rightarrow> sr_state \<Rightarrow> (bool \<times> sr_state) option" where
  "sr_call env b st rx cmd len s =
     (let s = sr_emit (Sr_result (req_callback (req_at s b)) st rx cmd len (req_user (req_at s b))) s
      in map_option (\<lambda>t. (more_expected env (sr_log s), t)) (sr_react env (sr_reaction env (sr_log s)) s))"

definition request_timeout :: "sr_env \<Rightarrow> addr \<Rightarrow> sr_state \<Rightarrow> sr_state option" where
  "request_timeout env b s =
     (let s = upd_req b (\<lambda>e. e \<lparr> req_param := (req_param e) \<lparr> dnode := 0 \<rparr>, req_state := REQ_DONE, req_timer := None \<rparr>) s
      in (case list_remove (reqs_list s) b (req_next s) of
            None \<Rightarrow> None
          | Some (l, nxt) \<Rightarrow>
              map_option snd (sr_call env b TRANSMIT_COMPLETE_FAIL 0 None 0
                (s \<lparr> reqs_list := l, req_next := nxt, reqs := snd (memb_free (reqs s) b) \<rparr>))))"

text \<open>The report of the sender; the time is that of the clock.\<close>

definition ZW_SendRequest_Callback :: "sr_env \<Rightarrow> u8 \<Rightarrow> addr \<Rightarrow> sr_state \<Rightarrow> sr_state option" where
  "ZW_SendRequest_Callback env status b s =
     (let started = round_trip_start (req_at s b);
          round_trip_duration = (if started < sr_clock s then sr_clock s - started else 10) + ROUTING_RETRANSMISSION_DELAY
      in if status = TRANSMIT_COMPLETE_OK \<and> req_state (req_at s b) = REQ_SENDING
         then Some (upd_req b (\<lambda>e. e \<lparr> req_state := REQ_WAITING, req_timer := Some (unat (req_timeout e) * 10 + round_trip_duration) \<rparr>) s)
         else request_timeout env b s)"

text \<open>The loop of \<^verbatim>\<open>ZW_Abort_SendRequest\<close>, from the item \<open>b\<close>: the link of an item is followed after the item was removed.\<close>

partial_function (option) abort_loop :: "sr_env \<Rightarrow> nodeid \<Rightarrow> addr \<Rightarrow> sr_state \<Rightarrow> sr_state option" where
  "abort_loop env n b s =
     (if b = 0 then Some s
      else if req_state (req_at s b) = REQ_WAITING \<and> snode (req_param (req_at s b)) = n then
        (let s = upd_req b (\<lambda>e. e \<lparr> req_state := REQ_DONE, req_timer := None \<rparr>) s
         in Option.bind (list_remove (reqs_list s) b (req_next s))
              (\<lambda>(l, nxt). Option.bind (sr_call env b TRANSMIT_COMPLETE_FAIL 0 None 0
                   (s \<lparr> reqs_list := l, req_next := nxt, reqs := snd (memb_free (reqs s) b) \<rparr>))
                 (\<lambda>(_, s). abort_loop env n (list_item_next (req_next s) b) s)))
      else abort_loop env n (list_item_next (req_next s) b) s)"

definition ZW_Abort_SendRequest :: "sr_env \<Rightarrow> nodeid \<Rightarrow> sr_state \<Rightarrow> sr_state option" where
  "ZW_Abort_SendRequest env n s = abort_loop env n (list_head (reqs_list s)) s"

text \<open>
  A received command is given to the first request that waits for it; a request that waits for the
  command with another scheme is passed over.
\<close>

definition awaits :: "ts_param_t \<Rightarrow> u8 \<Rightarrow> u8 \<Rightarrow> send_request_state_t \<Rightarrow> bool" where
  "awaits p cls cmd e \<longleftrightarrow> req_state e = REQ_WAITING \<and> ts_param_cmp (req_param e) p \<and> req_class e = cls \<and> req_cmd e = cmd
     \<and> ts_scheme (req_param e) = ts_scheme p"

definition SendRequest_ApplicationCommandHandler :: "sr_env \<Rightarrow> ts_param_t \<Rightarrow> bytes \<Rightarrow> u16 \<Rightarrow> sr_state \<Rightarrow> (bool \<times> sr_state) option" where
  "SendRequest_ApplicationCommandHandler env p pCmd cmdLength s =
     (case list_find (\<lambda>b. awaits p (pCmd ! 0) (pCmd ! 1) (req_at s b)) (req_next s) (list_head (reqs_list s)) of
        None \<Rightarrow> None
      | Some b \<Rightarrow>
          if b = 0 then Some (False, s)
          else
            (let s = upd_req b (\<lambda>e. e \<lparr> req_state := REQ_DONE, req_timer := None \<rparr>) s
             in Option.bind (list_remove (reqs_list s) b (req_next s))
                  (\<lambda>(l, nxt). Option.bind (sr_call env b TRANSMIT_COMPLETE_OK (rx_flags p) (Some pCmd) cmdLength
                       (s \<lparr> reqs_list := l, req_next := nxt \<rparr>))
                     (\<lambda>(again, s).
                        if again then
                          (let s = upd_req b (\<lambda>e. e \<lparr> req_state := REQ_WAITING, req_timer := Some (unat (req_timeout e) * 10) \<rparr>) s
                           in Option.bind (list_add (reqs_list s) b (req_next s))
                                (\<lambda>(l, nxt). Some (True, s \<lparr> reqs_list := l, req_next := nxt \<rparr>)))
                        else Some (True, s \<lparr> reqs := snd (memb_free (reqs s) b) \<rparr>)))))"

section \<open>The invariant\<close>

text \<open>
  \<open>xs\<close> is the list of pending requests and \<open>hs\<close> holds the request whose callback is running, if any.  A pending request is
  with the sender, without a timer, or waits with its timer running.
\<close>

definition pending_ok :: "send_request_state_t \<Rightarrow> bool" where
  "pending_ok e \<longleftrightarrow> (req_state e = REQ_SENDING \<and> req_timer e = None) \<or> (req_state e = REQ_WAITING \<and> req_timer e \<noteq> None)"

definition sr_inv :: "sr_state \<Rightarrow> addr list \<Rightarrow> addr list \<Rightarrow> bool" where
  "sr_inv s xs hs \<longleftrightarrow> is_list (req_next s) (reqs_list s) xs \<and> distinct (xs @ hs) \<and> memb_ok (reqs s) \<and> length (reqs s) = NUM_REQS
     \<and> used_blocks (reqs s) = set (xs @ hs) \<and> (\<forall>b \<in> set xs. pending_ok (req_at s b)) \<and> (\<forall>b. b \<notin> set xs \<longrightarrow> req_timer (req_at s b) = None)"

lemma sr_inv_emit [simp]: "sr_inv (sr_emit e s) xs hs = sr_inv s xs hs"
  by (simp add: sr_inv_def sr_emit_def)

lemma sr_inv_clock [simp]: "sr_inv (s \<lparr> sr_clock := c \<rparr>) xs hs = sr_inv s xs hs"
  by (simp add: sr_inv_def)

lemma sr_emit_simps [simp]:
  "reqs_list (sr_emit e s) = reqs_list s" "req_next (sr_emit e s) = req_next s" "req_at (sr_emit e s) = req_at s" "reqs (sr_emit e s) = reqs s"
  "sr_clock (sr_emit e s) = sr_clock s" "sr_log (sr_emit e s) = sr_log s @ [e]"
  by (simp_all add: sr_emit_def)

lemma upd_req_simps [simp]:
  "reqs_list (upd_req b f s) = reqs_list s" "req_next (upd_req b f s) = req_next s" "req_at (upd_req b f s) = (req_at s)(b := f (req_at s b))"
  "reqs (upd_req b f s) = reqs s" "sr_clock (upd_req b f s) = sr_clock s" "sr_log (upd_req b f s) = sr_log s"
  by (simp_all add: upd_req_def)

lemma sr_nonnull: "sr_inv s xs hs \<Longrightarrow> b \<in> set (xs @ hs) \<Longrightarrow> b \<noteq> 0"
  by (auto simp: sr_inv_def used_blocks_def)

text \<open>A request enters the list, leaves it, and leaves the pool.\<close>

lemma sr_enter:
  assumes inv: "sr_inv s xs (b # hs)" and e: "pending_ok e"
  obtains l nxt where "list_add (reqs_list s) b (req_next s) = Some (l, nxt)" "\<forall>c. c \<notin> set xs \<and> c \<noteq> b \<longrightarrow> nxt c = req_next s c"
    "sr_inv (s \<lparr> reqs_list := l, req_next := nxt, req_at := (req_at s)(b := e) \<rparr>) (xs @ [b]) hs"
proof -
  have il: "is_list (req_next s) (reqs_list s) xs" and b: "b \<noteq> 0" "b \<notin> set xs" using inv sr_nonnull [OF inv, of b] by (auto simp: sr_inv_def)
  obtain l nxt where l: "list_add (reqs_list s) b (req_next s) = Some (l, nxt)" "is_list nxt l (xs @ [b])"
      "\<forall>c. c \<notin> set xs \<and> c \<noteq> b \<longrightarrow> nxt c = req_next s c"
    using list_add_linked [OF il b(1)] b(2) by (auto simp: remove1_idem)
  then have "sr_inv (s \<lparr> reqs_list := l, req_next := nxt, req_at := (req_at s)(b := e) \<rparr>) (xs @ [b]) hs"
    using inv e b(2) unfolding sr_inv_def by auto
  then show thesis using that l(1,3) by blast
qed

lemma sr_leave:
  assumes inv: "sr_inv s xs hs" and b: "b \<in> set xs" and e: "req_timer e = None"
  obtains l nxt where "list_remove (reqs_list s) b (req_next s) = Some (l, nxt)" "\<forall>c. c \<notin> set xs \<longrightarrow> nxt c = req_next s c" "nxt b = 0"
    "sr_inv (s \<lparr> reqs_list := l, req_next := nxt, req_at := (req_at s)(b := e) \<rparr>) (remove1 b xs) (b # hs)"
proof -
  have il: "is_list (req_next s) (reqs_list s) xs" and d: "distinct xs" using inv by (auto simp: sr_inv_def)
  obtain l nxt where l: "list_remove (reqs_list s) b (req_next s) = Some (l, nxt)" "is_list nxt l (remove1 b xs)"
      "\<forall>c. c \<notin> set xs \<longrightarrow> nxt c = req_next s c"
    using list_remove_linked [OF il] by blast
  have "nxt b = 0" using il b l(1) by (rule list_remove_clears)
  have "set (remove1 b xs @ b # hs) = set (xs @ hs)" "distinct (remove1 b xs @ b # hs)" using inv b d by (auto simp: sr_inv_def)
  moreover have "\<forall>c \<in> set (remove1 b xs). pending_ok (((req_at s)(b := e)) c)"
      "\<forall>c. c \<notin> set (remove1 b xs) \<longrightarrow> req_timer (((req_at s)(b := e)) c) = None"
    using inv d e by (auto simp: sr_inv_def)
  ultimately have "sr_inv (s \<lparr> reqs_list := l, req_next := nxt, req_at := (req_at s)(b := e) \<rparr>) (remove1 b xs) (b # hs)"
    using inv l(2) unfolding sr_inv_def by simp
  then show thesis using that l(1,3) \<open>nxt b = 0\<close> by blast
qed

lemma sr_free:
  assumes inv: "sr_inv s xs (b # hs)"
  shows "sr_inv (s \<lparr> reqs := snd (memb_free (reqs s) b) \<rparr>) xs hs"
proof -
  have "memb_ok (reqs s)" "b \<in> used_blocks (reqs s)" using inv by (auto simp: sr_inv_def)
  from memb_free_used [OF this] show ?thesis using inv unfolding sr_inv_def by auto
qed

lemma sr_alloc:
  assumes "sr_inv s xs hs" and "memb_alloc (reqs s) = (b, pool)" and "b \<noteq> 0"
  shows "sr_inv (s \<lparr> reqs := pool \<rparr>) xs (b # hs)"
  using memb_alloc_Some [OF assms(2,3)] assms(1) unfolding sr_inv_def by auto

text \<open>A new request: the list grows at its end or stays; the pending requests and the held one do not change.\<close>

definition sr_grown :: "sr_state \<Rightarrow> addr list \<Rightarrow> addr list \<Rightarrow> sr_state \<Rightarrow> addr list \<Rightarrow> bool" where
  "sr_grown s xs hs t ys \<longleftrightarrow> (\<exists>zs. ys = xs @ zs \<and> (\<forall>b \<in> set zs. req_state (req_at t b) = REQ_SENDING))
     \<and> (\<forall>b \<in> set (xs @ hs). req_at t b = req_at s b) \<and> (\<forall>c. c \<notin> set ys \<longrightarrow> req_next s c = 0 \<longrightarrow> req_next t c = 0)
     \<and> (\<exists>l. sr_log t = sr_log s @ l)"

definition request_of :: "sr_env \<Rightarrow> sr_request \<Rightarrow> send_request_state_t \<Rightarrow> bool" where
  "request_of env rq e \<longleftrightarrow> (\<exists>d. req_param e = ts_param_make_reply env d (rq_p rq)) \<and> req_class e = rq_data rq ! 0 \<and> req_cmd e = rq_response rq
     \<and> req_user e = rq_user rq \<and> rq_callback rq = Some (req_callback e) \<and> req_timeout e = rq_timeout rq"

lemma send_request_inv:
  assumes inv: "sr_inv s xs hs"
  shows "\<exists>r t ys. ZW_SendRequest env rq s = Some (r, t) \<and> sr_inv t ys hs \<and> sr_grown s xs hs t ys
    \<and> (if r then ys = xs @ [fst (memb_alloc (reqs s))] \<and> request_of env rq (req_at t (fst (memb_alloc (reqs s)))) else ys = xs)"
proof (cases "rq_callback rq")
  case None
  then show ?thesis using inv by (intro exI [of _ False] exI [of _ s] exI [of _ xs]) (simp add: ZW_SendRequest_def sr_grown_def)
next
  case (Some cb)
  obtain b pool where a: "memb_alloc (reqs s) = (b, pool)" by (cases "memb_alloc (reqs s)")
  show ?thesis
  proof (cases "b = 0")
    case True
    then show ?thesis using inv Some a
      by (intro exI [of _ False] exI [of _ s] exI [of _ xs]) (simp add: ZW_SendRequest_def sr_grown_def)
  next
    case False
    let ?s = "s \<lparr> reqs := pool \<rparr>"
    have i: "sr_inv ?s xs (b # hs)" by (rule sr_alloc [OF inv a False])
    then have nt: "req_timer (req_at s b) = None" "b \<notin> set (xs @ hs)" by (auto simp: sr_inv_def)
    let ?e = "(req_at s b) \<lparr> req_param := ts_param_make_reply env (req_param (req_at s b)) (rq_p rq), req_state := REQ_SENDING,
        req_class := rq_data rq ! 0, req_cmd := rq_response rq, req_user := rq_user rq, req_callback := cb,
        req_timeout := rq_timeout rq, round_trip_start := sr_clock s \<rparr>"
    have "pending_ok ?e" using nt by (simp add: pending_ok_def)
    then obtain l nxt where l: "list_add (reqs_list s) b (req_next s) = Some (l, nxt)"
        "\<forall>c. c \<notin> set xs \<and> c \<noteq> b \<longrightarrow> nxt c = req_next s c"
        "sr_inv (?s \<lparr> reqs_list := l, req_next := nxt, req_at := (req_at s)(b := ?e) \<rparr>) (xs @ [b]) hs"
      using sr_enter [OF i] by auto
    let ?t = "sr_emit (Sr_send (rq_p rq) (rq_data rq) b) (?s \<lparr> reqs_list := l, req_next := nxt, req_at := (req_at s)(b := ?e) \<rparr>)"
    have ti: "sr_inv ?t (xs @ [b]) hs" using l(3) by simp
    have eq: "ZW_SendRequest env rq s = (if appl_accepts env (sr_log ?t) then Some (True, ?t)
        else (case list_remove (reqs_list ?t) b (req_next ?t) of None \<Rightarrow> None
              | Some (l, nxt) \<Rightarrow> Some (False, ?t \<lparr> reqs_list := l, req_next := nxt, reqs := snd (memb_free (reqs ?t) b) \<rparr>)))"
      using Some a False l(1) by (simp add: ZW_SendRequest_def Let_def upd_req_def sr_emit_def split: option.split)
    show ?thesis
    proof (cases "appl_accepts env (sr_log ?t)")
      case True
      then show ?thesis using eq ti nt(2) l(2)
        by (intro exI [of _ True] exI [of _ ?t] exI [of _ "xs @ [b]"]) (auto simp: sr_grown_def request_of_def a Some)
    next
      case False
      have "b \<in> set (xs @ [b])" "req_timer (req_at ?t b) = None" using nt by simp_all
      then obtain l' nxt' where l': "list_remove (reqs_list ?t) b (req_next ?t) = Some (l', nxt')"
          "\<forall>c. c \<notin> set (xs @ [b]) \<longrightarrow> nxt' c = req_next ?t c" "nxt' b = 0"
          "sr_inv (?t \<lparr> reqs_list := l', req_next := nxt', req_at := (req_at ?t)(b := req_at ?t b) \<rparr>) (remove1 b (xs @ [b])) (b # hs)"
        by (rule sr_leave [OF ti])
      have "remove1 b (xs @ [b]) = xs" using nt(2) by (simp add: remove1_append)
      then have "sr_inv ((?t \<lparr> reqs_list := l', req_next := nxt' \<rparr>) \<lparr> reqs := snd (memb_free (reqs ?t) b) \<rparr>) xs hs"
        using sr_free [OF l'(4)] by (simp add: sr_inv_def)
      moreover have "nxt' c = 0" if "c \<notin> set xs" "req_next s c = 0" for c
        using that l'(2,3) l(2) by (cases "c = b") auto
      ultimately show ?thesis using eq False l'(1) nt(2)
        by (intro exI [of _ False] exI [of _ "?t \<lparr> reqs_list := l', req_next := nxt', reqs := snd (memb_free (reqs ?t) b) \<rparr>"] exI [of _ xs])
           (auto simp: sr_grown_def)
    qed
  qed
qed

lemma sr_grown_refl [simp]: "sr_grown s xs hs s xs"
  by (simp add: sr_grown_def)

lemma sr_grown_trans:
  assumes "sr_grown s xs hs t ys" and "sr_grown t ys hs u zs"
  shows "sr_grown s xs hs u zs"
proof -
  obtain as where 1: "ys = xs @ as" "\<forall>b \<in> set as. req_state (req_at t b) = REQ_SENDING" using assms(1) by (auto simp: sr_grown_def)
  obtain bs where 2: "zs = ys @ bs" "\<forall>b \<in> set bs. req_state (req_at u b) = REQ_SENDING" using assms(2) by (auto simp: sr_grown_def)
  have "zs = xs @ (as @ bs) \<and> (\<forall>b \<in> set (as @ bs). req_state (req_at u b) = REQ_SENDING)"
    using 1 2 assms(2) by (auto simp: sr_grown_def)
  moreover have "\<exists>l. sr_log u = sr_log s @ l" using assms by (auto simp: sr_grown_def)
  moreover have "\<forall>b \<in> set (xs @ hs). req_at u b = req_at s b" using assms 1(1) by (auto simp: sr_grown_def)
  moreover have "\<forall>c. c \<notin> set zs \<longrightarrow> req_next s c = 0 \<longrightarrow> req_next u c = 0" using assms 2(1) by (auto simp: sr_grown_def)
  ultimately show ?thesis unfolding sr_grown_def by blast
qed

lemma sr_react_inv: "sr_inv s xs hs \<Longrightarrow> \<exists>t ys. sr_react env rs s = Some t \<and> sr_inv t ys hs \<and> sr_grown s xs hs t ys"
proof (induction rs arbitrary: s xs)
  case Nil
  then show ?case by (intro exI [of _ s] exI [of _ xs]) simp
next
  case (Cons r rs)
  obtain ok t ys where t: "ZW_SendRequest env r s = Some (ok, t)" "sr_inv t ys hs" "sr_grown s xs hs t ys"
    using send_request_inv [OF Cons.prems] by blast
  obtain u zs where "sr_react env rs t = Some u" "sr_inv u zs hs" "sr_grown t ys hs u zs" using Cons.IH [OF t(2)] by blast
  then show ?case using t(1) sr_grown_trans [OF t(3)] by (intro exI [of _ u] exI [of _ zs]) simp
qed

lemma sr_call_inv:
  assumes "sr_inv s xs hs"
  shows "\<exists>r t ys. sr_call env b st rx cmd len s = Some (r, t) \<and> sr_inv t ys hs \<and> sr_grown s xs hs t ys
    \<and> r = more_expected env (sr_log s @ [Sr_result (req_callback (req_at s b)) st rx cmd len (req_user (req_at s b))])
    \<and> (\<exists>l. sr_log t = sr_log s @ Sr_result (req_callback (req_at s b)) st rx cmd len (req_user (req_at s b)) # l)"
proof -
  let ?s = "sr_emit (Sr_result (req_callback (req_at s b)) st rx cmd len (req_user (req_at s b))) s"
  have "sr_inv ?s xs hs" using assms by simp
  then obtain t ys where "sr_react env (sr_reaction env (sr_log ?s)) ?s = Some t" "sr_inv t ys hs" "sr_grown ?s xs hs t ys"
    using sr_react_inv by blast
  then show ?thesis unfolding sr_call_def Let_def by (intro exI [of _ "more_expected env (sr_log ?s)"] exI [of _ t] exI [of _ ys]) (auto simp: sr_grown_def)
qed

lemma timeout_inv:
  assumes inv: "sr_inv s xs []" and b: "b \<in> set xs"
  shows "\<exists>t ys. request_timeout env b s = Some t \<and> sr_inv t ys []"
proof -
  let ?e = "(req_at s b) \<lparr> req_param := (req_param (req_at s b)) \<lparr> dnode := 0 \<rparr>, req_state := REQ_DONE, req_timer := None \<rparr>"
  obtain l nxt where l: "list_remove (reqs_list s) b (req_next s) = Some (l, nxt)"
      "\<forall>c. c \<notin> set xs \<longrightarrow> nxt c = req_next s c" "nxt b = 0" "sr_inv (s \<lparr> reqs_list := l, req_next := nxt, req_at := (req_at s)(b := ?e) \<rparr>) (remove1 b xs) [b]"
    using sr_leave [OF inv b, of ?e] by auto
  let ?u = "(upd_req b (\<lambda>e. e \<lparr> req_param := (req_param e) \<lparr> dnode := 0 \<rparr>, req_state := REQ_DONE, req_timer := None \<rparr>) s)
      \<lparr> reqs_list := l, req_next := nxt, reqs := snd (memb_free (reqs s) b) \<rparr>"
  have "sr_inv ?u (remove1 b xs) []" using sr_free [OF l(4)] by (simp add: sr_inv_def)
  then obtain r t ys where "sr_call env b TRANSMIT_COMPLETE_FAIL 0 None 0 ?u = Some (r, t)" "sr_inv t ys []"
    using sr_call_inv by blast
  then show ?thesis using l(1) by (intro exI [of _ t] exI [of _ ys]) (simp add: request_timeout_def Let_def)
qed

lemma report_inv:
  assumes inv: "sr_inv s xs []" and b: "b \<in> set xs"
  shows "\<exists>t ys. ZW_SendRequest_Callback env st b s = Some t \<and> sr_inv t ys []"
proof (cases "st = TRANSMIT_COMPLETE_OK \<and> req_state (req_at s b) = REQ_SENDING")
  case True
  have "sr_inv (upd_req b (\<lambda>e. e \<lparr> req_state := REQ_WAITING, req_timer := Some n \<rparr>) s) xs []" for n
    using inv b unfolding sr_inv_def by (auto simp: pending_ok_def)
  then show ?thesis using True by (auto simp: ZW_SendRequest_Callback_def Let_def upd_req_def)
next
  case False
  then show ?thesis using timeout_inv [OF assms, of env] by (auto simp: ZW_SendRequest_Callback_def Let_def)
qed

definition answer_to :: "sr_state \<Rightarrow> addr \<Rightarrow> ts_param_t \<Rightarrow> bytes \<Rightarrow> u16 \<Rightarrow> sr_effect" where
  "answer_to s b p cmd len = Sr_result (req_callback (req_at s b)) TRANSMIT_COMPLETE_OK (rx_flags p) (Some cmd) len (req_user (req_at s b))"

lemma command_inv:
  assumes inv: "sr_inv s xs []"
  shows "\<exists>r t ys. SendRequest_ApplicationCommandHandler env p cmd len s = Some (r, t) \<and> sr_inv t ys []
    \<and> (case filter (\<lambda>b. awaits p (cmd ! 0) (cmd ! 1) (req_at s b)) xs of
         [] \<Rightarrow> \<not> r \<and> t = s
       | b # _ \<Rightarrow> r \<and> (\<exists>l. sr_log t = sr_log s @ answer_to s b p cmd len # l)
           \<and> (b \<notin> set ys \<or> more_expected env (sr_log s @ [answer_to s b p cmd len])))"
proof -
  let ?P = "\<lambda>b. awaits p (cmd ! 0) (cmd ! 1) (req_at s b)"
  have il: "linked (req_next s) (list_head (reqs_list s)) xs" using inv by (simp add: sr_inv_def is_list_def list_head_def)
  note f = list_find_linked [OF il, of ?P]
  show ?thesis
  proof (cases "filter ?P xs")
    case Nil
    then have "SendRequest_ApplicationCommandHandler env p cmd len s = Some (False, s)"
      using f by (simp add: SendRequest_ApplicationCommandHandler_def first_or_null_def)
    then show ?thesis using inv Nil by (intro exI [of _ False] exI [of _ s] exI [of _ xs]) simp
  next
    case (Cons b bs)
    have b: "b \<in> set xs" "b \<noteq> 0" "?P b"
      using Cons sr_nonnull [OF inv] filter_eq_ConsD [OF Cons] by (auto dest: sym)
    let ?e = "(req_at s b) \<lparr> req_state := REQ_DONE, req_timer := None \<rparr>"
    obtain l nxt where l: "list_remove (reqs_list s) b (req_next s) = Some (l, nxt)"
        "\<forall>c. c \<notin> set xs \<longrightarrow> nxt c = req_next s c" "nxt b = 0" "sr_inv (s \<lparr> reqs_list := l, req_next := nxt, req_at := (req_at s)(b := ?e) \<rparr>) (remove1 b xs) [b]"
      using sr_leave [OF inv b(1), of ?e] by auto
    let ?u = "(upd_req b (\<lambda>e. e \<lparr> req_state := REQ_DONE, req_timer := None \<rparr>) s) \<lparr> reqs_list := l, req_next := nxt \<rparr>"
    have "sr_inv ?u (remove1 b xs) [b]" using l(4) by (simp add: sr_inv_def)
    then obtain r t ys where t: "sr_call env b TRANSMIT_COMPLETE_OK (rx_flags p) (Some cmd) len ?u = Some (r, t)" "sr_inv t ys [b]"
        "r = more_expected env (sr_log s @ [answer_to s b p cmd len])" "\<exists>l. sr_log t = sr_log s @ answer_to s b p cmd len # l"
      using sr_call_inv [of ?u "remove1 b xs" "[b]" env b TRANSMIT_COMPLETE_OK "rx_flags p" "Some cmd" len] by (auto simp: answer_to_def)
    show ?thesis
    proof (cases r)
      case True
      let ?w = "(req_at t b) \<lparr> req_state := REQ_WAITING, req_timer := Some (unat (req_timeout (req_at t b)) * 10) \<rparr>"
      have "pending_ok ?w" by (simp add: pending_ok_def)
      then obtain l' nxt' where l': "list_add (reqs_list t) b (req_next t) = Some (l', nxt')"
          "sr_inv (t \<lparr> reqs_list := l', req_next := nxt', req_at := (req_at t)(b := ?w) \<rparr>) (ys @ [b]) []"
        using sr_enter [OF t(2), of ?w] by metis
      then show ?thesis using f Cons b(2) l(1) t(1,3,4) True
        by (intro exI [of _ True] exI [of _ "t \<lparr> reqs_list := l', req_next := nxt', req_at := (req_at t)(b := ?w) \<rparr>"] exI [of _ "ys @ [b]"])
           (simp add: SendRequest_ApplicationCommandHandler_def first_or_null_def Let_def upd_req_def)
    next
      case False
      moreover have "b \<notin> set ys" using t(2) by (auto simp: sr_inv_def)
      ultimately show ?thesis using f Cons b(2) l(1) t sr_free [OF t(2)]
        by (intro exI [of _ True] exI [of _ "t \<lparr> reqs := snd (memb_free (reqs t) b) \<rparr>"] exI [of _ ys])
           (simp add: SendRequest_ApplicationCommandHandler_def first_or_null_def Let_def)
    qed
  qed
qed

lemma abort_loop_none:
  assumes "linked (req_next s) p ys" and "\<forall>b \<in> set ys. \<not> (req_state (req_at s b) = REQ_WAITING \<and> snode (req_param (req_at s b)) = n)"
  shows "abort_loop env n p s = Some s"
  using assms
proof (induction ys arbitrary: p)
  case Nil
  then show ?case by (simp add: abort_loop.simps)
next
  case (Cons y ys)
  then show ?case by (subst abort_loop.simps) (auto simp: list_item_next_def)
qed

lemma linked_from: "linked nxt h xs \<Longrightarrow> b \<in> set xs \<Longrightarrow> \<exists>us vs. xs = us @ b # vs \<and> linked nxt (nxt b) vs"
proof (induction xs arbitrary: h)
  case (Cons x xs)
  show ?case
  proof (cases "x = b")
    case True
    then show ?thesis using Cons.prems by (intro exI [of _ "[]"] exI [of _ xs]) auto
  next
    case False
    then obtain us vs where "xs = us @ b # vs" "linked nxt (nxt b) vs" using Cons.IH [of "nxt x"] Cons.prems by auto
    then show ?thesis by (intro exI [of _ "x # us"] exI [of _ vs]) auto
  qed
qed simp


definition to_abort :: "nodeid \<Rightarrow> send_request_state_t \<Rightarrow> bool" where
  "to_abort n e \<longleftrightarrow> req_state e = REQ_WAITING \<and> snode (req_param e) = n"

lemma abort_loop_first:
  assumes inv: "sr_inv s xs []" and sp: "xs = us @ b # vs" and no: "\<forall>c \<in> set us. \<not> to_abort n (req_at s c)" and yes: "to_abort n (req_at s b)"
  shows "\<exists>t ys. abort_loop env n b s = Some t \<and> sr_inv t ys [] \<and> (\<exists>zs. ys = us @ vs @ zs \<and> (\<forall>c \<in> set zs. req_state (req_at t c) = REQ_SENDING))
    \<and> (\<forall>c \<in> set (us @ vs). req_at t c = req_at s c)
    \<and> (\<exists>l. sr_log t = sr_log s @ Sr_result (req_callback (req_at s b)) TRANSMIT_COMPLETE_FAIL 0 None 0 (req_user (req_at s b)) # l)"
proof -
  let ?e = "(req_at s b) \<lparr> req_state := REQ_DONE, req_timer := None \<rparr>"
  have bx: "b \<in> set xs" "distinct xs" "b \<noteq> 0" using inv sp sr_nonnull [OF inv, of b] by (auto simp: sr_inv_def)
  have r1: "remove1 b xs = us @ vs" using sp bx(2) by (simp add: remove1_append)
  obtain l nxt where l: "list_remove (reqs_list s) b (req_next s) = Some (l, nxt)"
      "\<forall>c. c \<notin> set xs \<longrightarrow> nxt c = req_next s c" "nxt b = 0" "sr_inv (s \<lparr> reqs_list := l, req_next := nxt, req_at := (req_at s)(b := ?e) \<rparr>) (remove1 b xs) [b]"
    using sr_leave [OF inv bx(1), of ?e] by auto
  let ?u = "(upd_req b (\<lambda>e. e \<lparr> req_state := REQ_DONE, req_timer := None \<rparr>) s) \<lparr> reqs_list := l, req_next := nxt, reqs := snd (memb_free (reqs s) b) \<rparr>"
  have "sr_inv ?u (us @ vs) []" using sr_free [OF l(4)] r1 by (simp add: sr_inv_def)
  then obtain r t ys where t: "sr_call env b TRANSMIT_COMPLETE_FAIL 0 None 0 ?u = Some (r, t)" "sr_inv t ys []" "sr_grown ?u (us @ vs) [] t ys"
      "\<exists>l. sr_log t = sr_log s @ Sr_result (req_callback (req_at s b)) TRANSMIT_COMPLETE_FAIL 0 None 0 (req_user (req_at s b)) # l"
    using sr_call_inv [of ?u "us @ vs" "[]" env b TRANSMIT_COMPLETE_FAIL 0 None 0] by auto
  obtain zs where zs: "ys = us @ vs @ zs" "\<forall>c \<in> set zs. req_state (req_at t c) = REQ_SENDING" using t(3) by (auto simp: sr_grown_def)
  have same: "\<forall>c \<in> set (us @ vs). req_at t c = req_at s c" using t(3) sp bx(2) by (auto simp: sr_grown_def)
  have ll: "linked (req_next t) (reqs_list t) ys" using t(2) by (simp add: sr_inv_def is_list_def)
  have "abort_loop env n (req_next t b) t = Some t"
  proof (cases "b \<in> set ys")
    case False
    then have "req_next t b = 0" using t(3) l(3) by (simp add: sr_grown_def)
    then show ?thesis by (simp add: abort_loop.simps)
  next
    case True
    obtain as bs where b: "ys = as @ b # bs" "linked (req_next t) (req_next t b) bs" using linked_from [OF ll True] by blast
    have "b \<notin> set (us @ vs)" using sp bx(2) by auto
    then have "set bs \<subseteq> set zs" using b(1) zs(1) by (auto simp: append_eq_append_conv2 append_eq_Cons_conv Cons_eq_append_conv)
    then show ?thesis using zs(2) by (intro abort_loop_none [OF b(2)]) auto
  qed
  then have "abort_loop env n b s = Some t"
    using bx(3) yes l(1) t(1) by (subst abort_loop.simps) (simp add: to_abort_def Let_def list_item_next_def)
  then show ?thesis using t zs same by blast
qed

text \<open>The loop passes over the requests in front of the first one to abort.\<close>

lemma abort_loop_skip:
  assumes "linked (req_next s) p (us @ b # vs)" and "\<forall>c \<in> set us. \<not> to_abort n (req_at s c)"
  shows "abort_loop env n p s = abort_loop env n b s"
  using assms
proof (induction us arbitrary: p)
  case (Cons u us)
  then have "abort_loop env n p s = abort_loop env n (req_next s u) s"
    by (subst abort_loop.simps) (auto simp: to_abort_def list_item_next_def)
  then show ?case using Cons by simp
qed simp

lemma abort_cases:
  assumes inv: "sr_inv s xs []"
  shows "(if \<exists>c \<in> set xs. to_abort n (req_at s c)
      then \<exists>us b vs t zs l. xs = us @ b # vs \<and> (\<forall>c \<in> set us. \<not> to_abort n (req_at s c)) \<and> to_abort n (req_at s b)
        \<and> ZW_Abort_SendRequest env n s = Some t \<and> sr_inv t (us @ vs @ zs) [] \<and> (\<forall>c \<in> set zs. req_state (req_at t c) = REQ_SENDING)
        \<and> (\<forall>c \<in> set (us @ vs). req_at t c = req_at s c)
        \<and> sr_log t = sr_log s @ Sr_result (req_callback (req_at s b)) TRANSMIT_COMPLETE_FAIL 0 None 0 (req_user (req_at s b)) # l
      else ZW_Abort_SendRequest env n s = Some s)"
proof -
  have ll: "linked (req_next s) (list_head (reqs_list s)) xs" using inv by (simp add: sr_inv_def is_list_def list_head_def)
  show ?thesis
  proof (cases "\<exists>c \<in> set xs. to_abort n (req_at s c)")
    case True
    obtain us b vs where sp: "xs = us @ b # vs" "to_abort n (req_at s b)" "\<forall>c \<in> set us. \<not> to_abort n (req_at s c)"
      using split_list_first_prop [OF True] by blast
    have "ZW_Abort_SendRequest env n s = abort_loop env n b s"
      unfolding ZW_Abort_SendRequest_def using ll sp by (intro abort_loop_skip) auto
    then show ?thesis using abort_loop_first [OF inv sp(1,3,2), of env] sp True by fastforce
  next
    case False
    then show ?thesis using abort_loop_none [OF ll, of n env] by (auto simp: ZW_Abort_SendRequest_def to_abort_def)
  qed
qed

section \<open>Reachable states\<close>

datatype sr_op =
    Sr_op_request sr_request
  | Sr_op_report u8 addr
  | Sr_op_timer addr
  | Sr_op_abort nodeid
  | Sr_op_command ts_param_t bytes u16
  | Sr_op_tick nat

definition sr_apply :: "sr_env \<Rightarrow> sr_op \<Rightarrow> sr_state \<Rightarrow> sr_state option" where
  "sr_apply env op s =
     (case op of
        Sr_op_request rq \<Rightarrow> map_option snd (ZW_SendRequest env rq s)
      | Sr_op_report st b \<Rightarrow> ZW_SendRequest_Callback env st b s
      | Sr_op_timer b \<Rightarrow> if req_timer (req_at s b) = None then Some s else request_timeout env b s
      | Sr_op_abort n \<Rightarrow> ZW_Abort_SendRequest env n s
      | Sr_op_command p cmd len \<Rightarrow> map_option snd (SendRequest_ApplicationCommandHandler env p cmd len s)
      | Sr_op_tick k \<Rightarrow> Some (s \<lparr> sr_clock := sr_clock s + k \<rparr>))"

text \<open>The sender reports once on a request it was given.\<close>

definition sr_allowed :: "sr_op \<Rightarrow> sr_state \<Rightarrow> bool" where
  "sr_allowed op s \<longleftrightarrow> (case op of
     Sr_op_report _ b \<Rightarrow> req_state (req_at s b) = REQ_SENDING \<and> (\<exists>xs. is_list (req_next s) (reqs_list s) xs \<and> b \<in> set xs) | _ \<Rightarrow> True)"

definition sr_boot :: sr_state where
  "sr_boot = ZW_SendRequest_init \<lparr> reqs_list = 0, req_next = (\<lambda>_. 0),
     req_at = (\<lambda>_. \<lparr> req_param = sample_ts, req_state = REQ_SENDING, req_class = 0, req_cmd = 0, req_timeout = 0, req_user = 0, req_callback = 0,
       req_timer = None, round_trip_start = 0 \<rparr>), reqs = [], sr_clock = 0, sr_log = [] \<rparr>"

inductive sr_reachable :: "sr_env \<Rightarrow> sr_state \<Rightarrow> bool" for env where
  boot: "sr_reachable env sr_boot"
| step: "sr_reachable env s \<Longrightarrow> sr_allowed op s \<Longrightarrow> sr_apply env op s = Some t \<Longrightarrow> sr_reachable env t"

lemma sr_boot_inv: "sr_inv sr_boot [] []"
  by (auto simp: sr_inv_def sr_boot_def ZW_SendRequest_init_def is_list_def memb_init_ok) (simp add: memb_init_def)

lemma sr_list: "sr_inv s xs hs \<Longrightarrow> is_list (req_next s) (reqs_list s) ys \<Longrightarrow> ys = xs"
  using is_list_unique [of "req_next s" "reqs_list s" ys xs] by (simp add: sr_inv_def)

lemma sr_apply_inv:
  assumes inv: "sr_inv s xs []" and al: "sr_allowed op s"
  shows "\<exists>t ys. sr_apply env op s = Some t \<and> sr_inv t ys []"
proof (cases op)
  case (Sr_op_request rq)
  then show ?thesis using send_request_inv [OF inv, of env rq] by (auto simp: sr_apply_def)
next
  case (Sr_op_report st b)
  then have "b \<in> set xs" using al sr_list [OF inv] by (auto simp: sr_allowed_def)
  then show ?thesis using report_inv [OF inv] Sr_op_report by (simp add: sr_apply_def)
next
  case (Sr_op_timer b)
  show ?thesis
  proof (cases "req_timer (req_at s b)")
    case None
    then show ?thesis using Sr_op_timer inv by (auto simp: sr_apply_def)
  next
    case (Some k)
    then have "b \<in> set xs" using inv by (auto simp: sr_inv_def)
    then show ?thesis using timeout_inv [OF inv, of b env] Sr_op_timer Some by (simp add: sr_apply_def)
  qed
next
  case (Sr_op_abort n)
  then show ?thesis using abort_cases [OF inv, of n env] inv by (auto simp: sr_apply_def split: if_splits)
next
  case (Sr_op_command p cmd len)
  then show ?thesis using command_inv [OF inv, of env p cmd len] by (auto simp: sr_apply_def)
next
  case (Sr_op_tick k)
  have "sr_inv (s \<lparr> sr_clock := sr_clock s + k \<rparr>) xs []" using inv by simp
  then show ?thesis using Sr_op_tick by (auto simp: sr_apply_def simp del: sr_inv_clock)
qed

lemma sr_reachable_inv: "sr_reachable env s \<Longrightarrow> \<exists>xs. sr_inv s xs []"
proof (induction rule: sr_reachable.induct)
  case boot
  show ?case using sr_boot_inv by blast
next
  case (step s op t)
  then obtain xs where "sr_inv s xs []" by blast
  from sr_apply_inv [OF this step.hyps(2), of env] show ?case using step.hyps(3) by auto
qed

section \<open>Properties\<close>

definition sample_sr_env :: sr_env where
  "sample_sr_env = \<lparr> my_node = 1, GetCacheEntryFlag = (\<lambda>_. 0), SupportsCmdClass = (\<lambda>_ _. False), appl_accepts = (\<lambda>_. True),
     more_expected = (\<lambda>_. False), sr_reaction = (\<lambda>_. []) \<rparr>"

text \<open>
  C9.  Whatever requests are made, reports arrive, timers expire, commands are received and requests are aborted, in whatever order and also from
  inside the callbacks, every call returns, and no request is forgotten: there are at most four, the pool holds exactly these, and each is
  either still with the sender or waits for its answer with its timer running.
\<close>

theorem requests_never_stuck:
  assumes "sr_reachable env s"
  shows "(\<forall>op. sr_allowed op s \<longrightarrow> (\<exists>t. sr_apply env op s = Some t))
    \<and> (\<exists>xs. is_list (req_next s) (reqs_list s) xs \<and> used_blocks (reqs s) = set xs \<and> length xs \<le> NUM_REQS
         \<and> (\<forall>b \<in> set xs. (req_state (req_at s b) = REQ_SENDING \<and> req_timer (req_at s b) = None)
              \<or> (req_state (req_at s b) = REQ_WAITING \<and> req_timer (req_at s b) \<noteq> None)))"
proof
  obtain xs where inv: "sr_inv s xs []" using sr_reachable_inv [OF assms] by blast
  show "\<forall>op. sr_allowed op s \<longrightarrow> (\<exists>t. sr_apply env op s = Some t)" using sr_apply_inv [OF inv, of _ env] by blast
  have "pool_list NUM_REQS (reqs_list s) (req_next s) (reqs s) xs" using inv by (simp add: sr_inv_def pool_list_def)
  from pool_list_free_count(2) [OF this]
  show "\<exists>xs. is_list (req_next s) (reqs_list s) xs \<and> used_blocks (reqs s) = set xs \<and> length xs \<le> NUM_REQS
         \<and> (\<forall>b \<in> set xs. (req_state (req_at s b) = REQ_SENDING \<and> req_timer (req_at s b) = None)
              \<or> (req_state (req_at s b) = REQ_WAITING \<and> req_timer (req_at s b) \<noteq> None))"
    using inv by (intro exI [of _ xs]) (simp add: sr_inv_def pending_ok_def)
qed

theorem requests_never_stuck_witness:
  "\<exists>t. sr_apply sample_sr_env (Sr_op_request (Sr_request sample_ts [0x25, 0x02] 0x03 100 9 (Some 5))) sr_boot = Some t"
  using requests_never_stuck [OF sr_reachable.boot [of sample_sr_env]] by (simp add: sr_allowed_def)

text \<open>
  C8.  A request that was delivered gets the answer that comes from the node and end point it was sent to, with the command it asked for and with the
  security scheme it was sent with, unless an older request awaits the same answer: its callback is called with that command, and the request
  is over when the callback expects no more.
\<close>

theorem request_gets_its_answer:
  fixes len :: u16
  assumes "sr_reachable env s" and "is_list (req_next s) (reqs_list s) xs" and "ZW_SendRequest env rq s = Some (True, t)"
    and "snode q = dnode (rq_p rq)" "dnode q = snode (rq_p rq)" "sendpoint q = dendpoint (rq_p rq)" "dendpoint q = sendpoint (rq_p rq)"
    and "ts_scheme q = ZW_SendData_scheme_select env (rq_p rq) 2" and "cmd ! 0 = rq_data rq ! 0" and "cmd ! 1 = rq_response rq"
    and "\<forall>c \<in> set xs. \<not> awaits q (cmd ! 0) (cmd ! 1) (req_at s c)"
  defines "b \<equiv> fst (memb_alloc (reqs s))"
  defines "answer \<equiv> Sr_result (the (rq_callback rq)) TRANSMIT_COMPLETE_OK (rx_flags q) (Some cmd) len (rq_user rq)"
  shows "\<exists>u v l. ZW_SendRequest_Callback env TRANSMIT_COMPLETE_OK b t = Some u
    \<and> SendRequest_ApplicationCommandHandler env q cmd len u = Some (True, v) \<and> sr_log v = sr_log t @ answer # l
    \<and> (\<not> more_expected env (sr_log t @ [answer]) \<longrightarrow> (\<exists>ys. is_list (req_next v) (reqs_list v) ys \<and> b \<notin> set ys))"
proof -
  obtain xs' where "sr_inv s xs' []" using sr_reachable_inv [OF assms(1)] by blast
  then have inv: "sr_inv s xs []" using sr_list assms(2) by blast
  obtain ys where "sr_inv t ys []" "sr_grown s xs [] t ys" "ys = xs @ [b]" and rq: "request_of env rq (req_at t b)"
    using send_request_inv [OF inv, of env rq] assms(3) by (auto simp: b_def)
  then have ti: "sr_inv t (xs @ [b]) []" and old: "\<forall>c \<in> set xs. req_at t c = req_at s c" and st: "req_state (req_at t b) = REQ_SENDING" and d: "b \<notin> set xs"
    by (auto simp: sr_grown_def sr_inv_def)
  define u where "u = the (ZW_SendRequest_Callback env TRANSMIT_COMPLETE_OK b t)"
  have u: "ZW_SendRequest_Callback env TRANSMIT_COMPLETE_OK b t = Some u" "sr_log u = sr_log t" "req_state (req_at u b) = REQ_WAITING"
      "req_param (req_at u b) = req_param (req_at t b)" "req_class (req_at u b) = req_class (req_at t b)" "req_cmd (req_at u b) = req_cmd (req_at t b)"
      "req_callback (req_at u b) = req_callback (req_at t b)" "req_user (req_at u b) = req_user (req_at t b)"
      "\<forall>c. c \<noteq> b \<longrightarrow> req_at u c = req_at t c" "req_next u = req_next t" "reqs_list u = reqs_list t"
    using st by (auto simp: u_def ZW_SendRequest_Callback_def Let_def)
  have ui: "sr_inv u (xs @ [b]) []"
  proof -
    obtain zs where z: "sr_inv u zs []" using report_inv [OF ti, of b env TRANSMIT_COMPLETE_OK] u(1) by auto
    moreover have "is_list (req_next u) (reqs_list u) (xs @ [b])" using ti u(10,11) by (simp add: sr_inv_def)
    ultimately show ?thesis using sr_list [OF z] by simp
  qed
  have "\<forall>c \<in> set xs. \<not> awaits q (cmd ! 0) (cmd ! 1) (req_at u c)" using u(9) old assms(11) d by auto
  moreover have "awaits q (cmd ! 0) (cmd ! 1) (req_at u b)"
    using rq u assms(4-10) by (auto simp: awaits_def request_of_def make_reply_matches) (simp add: ts_param_make_reply_def)
  ultimately have "filter (\<lambda>c. awaits q (cmd ! 0) (cmd ! 1) (req_at u c)) (xs @ [b]) = [b]" by (simp add: filter_empty_conv)
  moreover have "answer_to u b q cmd len = answer" using rq u(7,8) by (auto simp: answer_to_def answer_def request_of_def)
  ultimately show ?thesis using command_inv [OF ui, of env q cmd len] u(1,2) by (auto simp: sr_inv_def)
qed

theorem request_gets_its_answer_witness:
  "\<exists>t u v l. ZW_SendRequest sample_sr_env (Sr_request sample_ts [0x25, 0x02] 0x03 100 9 (Some 5)) sr_boot = Some (True, t)
     \<and> ZW_SendRequest_Callback sample_sr_env TRANSMIT_COMPLETE_OK 1 t = Some u
     \<and> SendRequest_ApplicationCommandHandler sample_sr_env (sample_ts \<lparr> snode := 7, dnode := 1, ts_scheme := NO_SCHEME \<rparr>) [0x25, 0x03, 0xFF] 3 u = Some (True, v)
     \<and> sr_log v = sr_log t @ Sr_result 5 TRANSMIT_COMPLETE_OK 0 (Some [0x25, 0x03, 0xFF]) 3 9 # l"
proof -
  let ?rq = "Sr_request sample_ts [0x25, 0x02] 0x03 100 9 (Some 5)" and ?q = "sample_ts \<lparr> snode := 7, dnode := 1, ts_scheme := NO_SCHEME \<rparr>"
  have a: "memb_alloc (reqs sr_boot) = (1, [1, 0, 0, 0])"
    by (simp add: sr_boot_def ZW_SendRequest_init_def memb_init_def NUM_REQS_def memb_alloc_def numeral_eq_Suc)
  have l: "is_list (req_next sr_boot) (reqs_list sr_boot) []" by (simp add: sr_boot_def ZW_SendRequest_init_def is_list_def)
  obtain t where t: "ZW_SendRequest sample_sr_env ?rq sr_boot = Some (True, t)"
    using a by (auto simp: ZW_SendRequest_def sr_boot_def ZW_SendRequest_init_def Let_def sample_sr_env_def list_add_def list_remove_def list_tail_def)
  have sch: "ts_scheme ?q = ZW_SendData_scheme_select sample_sr_env (rq_p ?rq) 2"
    by (simp add: ZW_SendData_scheme_select_def highest_scheme_def sample_sr_env_def sample_ts_def Let_def)
  show ?thesis
    using request_gets_its_answer [OF sr_reachable.boot l t, of ?q "[0x25, 0x03, 0xFF]" 3] t sch a by (simp add: sample_ts_def) blast
qed

text \<open>A delivered request to an open sender, in a pool with room for it, waits for its answer.\<close>

lemma request_waits:
  assumes inv: "sr_inv s xs []" and re: "sr_reachable env s" and "length xs < NUM_REQS" and "rq_callback rq \<noteq> None" and "\<forall>l. appl_accepts env l"
  obtains u b where "sr_reachable env u" "sr_inv u (xs @ [b]) []" "\<forall>c \<in> set xs. req_at u c = req_at s c"
    "req_state (req_at u b) = REQ_WAITING" "snode (req_param (req_at u b)) = dnode (rq_p rq)"
proof -
  let ?b = "fst (memb_alloc (reqs s))"
  have "pool_list NUM_REQS (reqs_list s) (req_next s) (reqs s) xs" using inv by (simp add: sr_inv_def pool_list_def)
  then have "?b \<noteq> 0" using pool_list_append [OF _ assms(3)] by (metis fst_conv)
  moreover obtain r t ys where t: "ZW_SendRequest env rq s = Some (r, t)" "sr_inv t ys []" "sr_grown s xs [] t ys"
      "if r then ys = xs @ [?b] \<and> request_of env rq (req_at t ?b) else ys = xs"
    using send_request_inv [OF inv, of env rq] by blast
  ultimately have r: "r" using assms(4,5) by (auto simp: ZW_SendRequest_def Let_def split: prod.splits option.splits if_splits)
  have t': "sr_inv t (xs @ [?b]) []" "req_state (req_at t ?b) = REQ_SENDING" "snode (req_param (req_at t ?b)) = dnode (rq_p rq)" "?b \<notin> set xs"
      "\<forall>c \<in> set xs. req_at t c = req_at s c"
    using t r by (auto simp: sr_grown_def request_of_def ts_param_make_reply_def sr_inv_def)
  have rt: "sr_reachable env t" using sr_reachable.step [OF re, of "Sr_op_request rq"] t(1) by (simp add: sr_allowed_def sr_apply_def)
  let ?f = "\<lambda>k e. e \<lparr> req_state := REQ_WAITING, req_timer := Some k \<rparr>"
  obtain k where u: "ZW_SendRequest_Callback env TRANSMIT_COMPLETE_OK ?b t = Some (upd_req ?b (?f k) t)"
    using t'(2) by (auto simp: ZW_SendRequest_Callback_def Let_def upd_req_def)
  obtain zs where z: "sr_inv (upd_req ?b (?f k) t) zs []" using report_inv [OF t'(1), of ?b env TRANSMIT_COMPLETE_OK] u by auto
  have il: "is_list (req_next t) (reqs_list t) (xs @ [?b])" using t'(1) by (simp add: sr_inv_def)
  then have zs: "zs = xs @ [?b]" using sr_list [OF z] by simp
  have "?b \<in> set (xs @ [?b])" by simp
  then have "sr_allowed (Sr_op_report TRANSMIT_COMPLETE_OK ?b) t" using t'(2) il unfolding sr_allowed_def by auto
  moreover have "sr_apply env (Sr_op_report TRANSMIT_COMPLETE_OK ?b) t = Some (upd_req ?b (?f k) t)" using u by (simp add: sr_apply_def)
  ultimately have "sr_reachable env (upd_req ?b (?f k) t)" by (rule sr_reachable.step [OF rt])
  then show thesis using that [of "upd_req ?b (?f k) t" ?b] z zs t' by auto
qed

text \<open>
  An abort of the requests to a node ends only the oldest of those that wait: the walk along the list follows the link of the
  request it has just removed, which is null.  The other waiting requests to the node stay in the list as they were.
\<close>

theorem abort_only_first:
  assumes "sr_reachable env s" and "is_list (req_next s) (reqs_list s) xs" and "filter (\<lambda>c. to_abort n (req_at s c)) xs = b # bs"
  shows "\<exists>t ys l. ZW_Abort_SendRequest env n s = Some t \<and> is_list (req_next t) (reqs_list t) ys \<and> (\<forall>c \<in> set bs. c \<in> set ys \<and> req_at t c = req_at s c)
    \<and> sr_log t = sr_log s @ Sr_result (req_callback (req_at s b)) TRANSMIT_COMPLETE_FAIL 0 None 0 (req_user (req_at s b)) # l"
proof -
  obtain xs' where "sr_inv s xs' []" using sr_reachable_inv [OF assms(1)] by blast
  then have inv: "sr_inv s xs []" using sr_list assms(2) by blast
  have "\<exists>c \<in> set xs. to_abort n (req_at s c)" using assms(3) by (metis filter_eq_ConsD in_set_conv_decomp)
  with abort_cases [OF inv, of n env]
  obtain us c vs t zs l where sp: "xs = us @ c # vs" "\<forall>c \<in> set us. \<not> to_abort n (req_at s c)" "to_abort n (req_at s c)"
      and t: "ZW_Abort_SendRequest env n s = Some t" "sr_inv t (us @ vs @ zs) []" "\<forall>c \<in> set (us @ vs). req_at t c = req_at s c"
        "sr_log t = sr_log s @ Sr_result (req_callback (req_at s c)) TRANSMIT_COMPLETE_FAIL 0 None 0 (req_user (req_at s c)) # l"
    by auto
  have "filter (\<lambda>c. to_abort n (req_at s c)) xs = c # filter (\<lambda>c. to_abort n (req_at s c)) vs" using sp by (simp add: filter_empty_conv)
  then have "c = b" "set bs \<subseteq> set vs" using assms(3) by auto
  then show ?thesis using t by (intro exI [of _ t] exI [of _ "us @ vs @ zs"] exI [of _ l]) (auto simp: sr_inv_def)
qed

theorem abort_only_first_witness:
  "\<exists>s t ys c. sr_reachable sample_sr_env s \<and> ZW_Abort_SendRequest sample_sr_env 7 s = Some t
     \<and> is_list (req_next t) (reqs_list t) ys \<and> c \<in> set ys \<and> req_state (req_at t c) = REQ_WAITING \<and> snode (req_param (req_at t c)) = 7"
proof -
  let ?rq = "Sr_request sample_ts [0x25, 0x02] 0x03 100 9 (Some 5)"
  have rq: "rq_callback ?rq \<noteq> None" "\<forall>l. appl_accepts sample_sr_env l" "dnode (rq_p ?rq) = 7" by (simp_all add: sample_sr_env_def sample_ts_def)
  obtain s1 b where s1: "sr_reachable sample_sr_env s1" "sr_inv s1 ([] @ [b]) []" "\<forall>c \<in> set []. req_at s1 c = req_at sr_boot c"
      "req_state (req_at s1 b) = REQ_WAITING" "snode (req_param (req_at s1 b)) = dnode (rq_p ?rq)"
    using request_waits [OF sr_boot_inv sr_reachable.boot _ rq(1,2)] by (auto simp: NUM_REQS_def)
  obtain s2 c where s2: "sr_reachable sample_sr_env s2" "sr_inv s2 (([] @ [b]) @ [c]) []" "\<forall>d \<in> set ([] @ [b]). req_at s2 d = req_at s1 d"
      "req_state (req_at s2 c) = REQ_WAITING" "snode (req_param (req_at s2 c)) = dnode (rq_p ?rq)"
    using request_waits [OF s1(2,1) _ rq(1,2)] by (auto simp: NUM_REQS_def)
  have f: "filter (\<lambda>d. to_abort 7 (req_at s2 d)) [b, c] = b # [c]" using s1 s2 rq(3) by (simp add: to_abort_def)
  have il: "is_list (req_next s2) (reqs_list s2) [b, c]" using s2(2) by (simp add: sr_inv_def)
  from abort_only_first [OF s2(1) il f] show ?thesis using s2(1,4,5) rq(3) by fastforce
qed

end
