(* ===== verification/S0_Layer.thy ===== *)
theory S0_Layer
  imports Ts_Param Node_Queue
begin

text \<open>
  The security scheme 0 (\<^verbatim>\<open>src/transport/Security_Scheme0.c\<close>): the table of nonces, the sessions that encrypt and send a
  message in one or two frames, and the sessions that receive and decrypt them.

  The block cipher (\<^verbatim>\<open>SerialAPI_AES128_Encrypt\<close>), the random numbers (\<^verbatim>\<open>PRNGOutput\<close>), the low-level sender and the
  state of the inclusion are parameters; what the sender answers is a function of the log.  A session reads its message
  through a pointer; the caller leaves the message alone until the report, so the model keeps its bytes.  Every
  use of the cipher modes follows a call of \<^verbatim>\<open>aes_set_key_tpt\<close>, so key and initialization vector are arguments here.
  The reports of the low-level sender, the timers and received frames are calls from outside, and so is whatever an application does in its
  callback: each callback is the last thing its function does with the session.
\<close>

unbundle bit_operations_syntax

section \<open>State\<close>

definition NONCE_TABLE_SIZE :: nat where "NONCE_TABLE_SIZE = 15"
definition NUM_TX_SESSIONS :: nat where "NUM_TX_SESSIONS = 2"
definition MAX_ENCRYPTED_MSG_SIZE :: nat where "MAX_ENCRYPTED_MSG_SIZE = 128"
definition MAX_RXSESSIONS :: nat where "MAX_RXSESSIONS = 2"
definition NONCE_TIMEOUT :: u8 where "NONCE_TIMEOUT = 10"
definition NONCE_REQUEST_TIMEOUT_MSEC :: nat where "NONCE_REQUEST_TIMEOUT_MSEC = 500"
definition NONCE_BLACKLIST_SIZE :: nat where "NONCE_BLACKLIST_SIZE = 10"

record nonce_t =
  nc_src :: u8
  nc_dst :: u8
  nc_timeout :: u8
  nc_reply :: bool
  nc_bytes :: bytes

record nonce_blacklist_t =
  bl_nonce :: bytes
  bl_src :: u8
  bl_dst :: u8
  bl_in_use :: bool

datatype tx_state_t = NONCE_GET | NONCE_GET_SENT | ENC_MSG | ENC_MSG_SENT | ENC_MSG2 | ENC_MSG2_SENT | TX_DONE | TX_FAIL

record sec_tx_session_t =
  tx_param :: ts_param_t
  tx_data :: bytes
  tx_data_len :: u8
  tx_state :: tx_state_t
  tx_code :: u8
  transition_time :: nat
  tx_timer :: "nat option"
  crypted_msg :: bytes
  tx_seq :: u8
  tx_user :: addr
  tx_callback :: "nat option"
  tx_ext_status :: u16

datatype rx_session_state_t = RX_INIT | RX_ENC1 | RX_ENC2 | RX_SESSION_DONE

record rx_session_t =
  rx_snode :: u8
  rx_dnode :: u8
  rx_state :: rx_session_state_t
  rx_seq_nr :: u8
  rx_msg :: bytes
  rx_msg_len :: u8
  rx_timeout :: nat

text \<open>The callbacks of the frames of a session, by the number of the session.\<close>

datatype s0_cb = No_s0_cb | Noce_get_callback nat | Msg1_callback nat | Msg2_callback nat

datatype s0_effect = S0_send ts_param_t bytes s0_cb | S0_report nat u8 addr "u16 option"

record s0_env = ts_env +
  AES128 :: "bytes \<Rightarrow> bytes \<Rightarrow> bytes"
  PRNGOutput :: "nat \<Rightarrow> bytes"
  s0_send_ok :: "s0_effect list \<Rightarrow> bool"
  secure_learn_active :: "s0_effect list \<Rightarrow> bool"
  stack_param :: ts_param_t

record s0_state =
  nonce_table :: "nonce_t list"
  nonce_blacklist :: "nonce_blacklist_t list"
  blacklist_next_elem :: nat
  tx_sessions :: "sec_tx_session_t list"
  rxsessions :: "rx_session_t list"
  enckey :: bytes
  authkey :: bytes
  enckeyz :: bytes
  authkeyz :: bytes
  seq_static :: u8
  prng_count :: nat
  s0_clock :: nat
  nonce_timer :: "nat option"
  s0_log :: "s0_effect list"

definition s0_emit :: "s0_effect \<Rightarrow> s0_state \<Rightarrow> s0_state" where
  "s0_emit e s = s \<lparr> s0_log := s0_log s @ [e] \<rparr>"

abbreviation upd_tx :: "nat \<Rightarrow> (sec_tx_session_t \<Rightarrow> sec_tx_session_t) \<Rightarrow> s0_state \<Rightarrow> s0_state" where
  "upd_tx i f s \<equiv> s \<lparr> tx_sessions := upd_idx i f (tx_sessions s) \<rparr>"

section \<open>Modes of the block cipher\<close>

text \<open>The block that is encrypted again for every sixteen bytes, and the running index.\<close>

fun ofb_loop :: "(bytes \<Rightarrow> bytes) \<Rightarrow> bytes \<Rightarrow> nat \<Rightarrow> bytes \<Rightarrow> bytes" where
  "ofb_loop E iv i [] = []"
| "ofb_loop E iv i (d # ds) =
     (let iv = (if i mod 16 = 0 then E iv else iv) in (d XOR iv ! (i mod 16)) # ofb_loop E iv (i + 1) ds)"

definition aes_ofb :: "(bytes \<Rightarrow> bytes) \<Rightarrow> bytes \<Rightarrow> bytes \<Rightarrow> bytes" where
  "aes_ofb E iv ds = ofb_loop E iv 0 ds"

fun cbc_mac_loop :: "(bytes \<Rightarrow> bytes) \<Rightarrow> bytes \<Rightarrow> nat \<Rightarrow> bytes \<Rightarrow> bytes" where
  "cbc_mac_loop E mac i [] = mac"
| "cbc_mac_loop E mac i (d # ds) =
     (let mac = mac[i mod 16 := mac ! (i mod 16) XOR d];
          mac = (if i mod 16 = 15 then E mac else mac)
      in cbc_mac_loop E mac (i + 1) ds)"

definition aes_cbc_mac :: "(bytes \<Rightarrow> bytes) \<Rightarrow> bytes \<Rightarrow> bytes \<Rightarrow> bytes" where
  "aes_cbc_mac E iv ds =
     (let mac = cbc_mac_loop E (E iv) 0 ds in if length ds mod 16 \<noteq> 0 then E mac else mac)"

definition sec0_set_key :: "s0_env \<Rightarrow> bytes \<Rightarrow> s0_state \<Rightarrow> s0_state" where
  "sec0_set_key env netkey s = s \<lparr> authkey := AES128 env netkey (replicate 16 0x55), enckey := AES128 env netkey (replicate 16 0xAA),
     authkeyz := AES128 env (replicate 16 0) (replicate 16 0x55), enckeyz := AES128 env (replicate 16 0) (replicate 16 0xAA) \<rparr>"

section \<open>Nonces\<close>

definition sec0_is_nonce_blacklisted :: "u8 \<Rightarrow> u8 \<Rightarrow> bytes \<Rightarrow> s0_state \<Rightarrow> bool" where
  "sec0_is_nonce_blacklisted src dst nonce s \<longleftrightarrow>
     list_ex (\<lambda>e. bl_in_use e \<and> bl_nonce e = nonce \<and> bl_src e = src \<and> bl_dst e = dst) (nonce_blacklist s)"

definition sec0_blacklist_add_nonce :: "u8 \<Rightarrow> u8 \<Rightarrow> bytes \<Rightarrow> s0_state \<Rightarrow> s0_state" where
  "sec0_blacklist_add_nonce src dst nonce s =
     s \<lparr> nonce_blacklist := (nonce_blacklist s)[blacklist_next_elem s := \<lparr> bl_nonce = nonce, bl_src = src, bl_dst = dst, bl_in_use = True \<rparr>],
         blacklist_next_elem := (blacklist_next_elem s + 1) mod NONCE_BLACKLIST_SIZE \<rparr>"

definition nonce_of :: "u8 \<Rightarrow> u8 \<Rightarrow> nonce_t \<Rightarrow> bool" where
  "nonce_of src dst e \<longleftrightarrow> 0 < nc_timeout e \<and> nc_src e = src \<and> nc_dst e = dst"

definition register_nonce :: "u8 \<Rightarrow> u8 \<Rightarrow> bool \<Rightarrow> bytes \<Rightarrow> nonce_t list \<Rightarrow> bool \<times> nonce_t list" where
  "register_nonce src dst reply nonce tab =
     (case (if reply then find_idx (\<lambda>e. nc_reply e \<and> nonce_of src dst e) tab else None) of
        Some i \<Rightarrow> (True, upd_idx i (\<lambda>e. e \<lparr> nc_bytes := nonce, nc_timeout := NONCE_TIMEOUT \<rparr>) tab)
      | None \<Rightarrow>
          (case find_idx (\<lambda>e. nc_timeout e = 0) tab of
             Some i \<Rightarrow> (True, tab[i := \<lparr> nc_src = src, nc_dst = dst, nc_timeout = NONCE_TIMEOUT, nc_reply = reply, nc_bytes = nonce \<rparr>])
           | None \<Rightarrow> (False, tab)))"

definition has_three_nonces :: "u8 \<Rightarrow> u8 \<Rightarrow> nonce_t list \<Rightarrow> bool" where
  "has_three_nonces src dst tab \<longleftrightarrow> (of_nat (length (filter (nonce_of src dst) tab)) :: u8) = 3"

definition get_nonce :: "u8 \<Rightarrow> u8 \<Rightarrow> u8 \<Rightarrow> bool \<Rightarrow> nonce_t list \<Rightarrow> bytes option" where
  "get_nonce src dst ri any_nonce tab =
     map_option nc_bytes (List.find (\<lambda>e. nonce_of src dst e \<and> (any_nonce \<or> nc_bytes e ! 0 = ri)) tab)"

definition nonce_clear :: "u8 \<Rightarrow> u8 \<Rightarrow> nonce_t list \<Rightarrow> nonce_t list" where
  "nonce_clear src dst tab = map (\<lambda>e. if nonce_of src dst e then e \<lparr> nc_timeout := 0 \<rparr> else e) tab"

definition nonce_timer_timeout :: "s0_state \<Rightarrow> s0_state" where
  "nonce_timer_timeout s =
     s \<lparr> nonce_table := map (\<lambda>e. if 0 < nc_timeout e then e \<lparr> nc_timeout := nc_timeout e - 1 \<rparr> else e) (nonce_table s),
         nonce_timer := Some 1000 \<rparr>"

text \<open>Random bytes are drawn until their first byte is not that of a nonce in the table.\<close>

partial_function (option) fresh_nonce :: "s0_env \<Rightarrow> u8 \<Rightarrow> u8 \<Rightarrow> nonce_t list \<Rightarrow> nat \<Rightarrow> (bytes \<times> nat) option" where
  "fresh_nonce env src dst tab k =
     (let n = PRNGOutput env k
      in if get_nonce src dst (n ! 0) False tab \<noteq> None then fresh_nonce env src dst tab (k + 1) else Some (n, k + 1))"

section \<open>Sending\<close>

definition get_tx_session_by_node :: "u8 \<Rightarrow> u8 \<Rightarrow> s0_state \<Rightarrow> nat option" where
  "get_tx_session_by_node snod dnod s =
     find_idx (\<lambda>e. dnode (tx_param e) = ucast dnod \<and> snode (tx_param e) = ucast snod) (tx_sessions s)"

definition get_node_max_frame_size :: "u8 \<Rightarrow> nat" where "get_node_max_frame_size n = 46"

text \<open>The header that is authenticated.\<close>

definition auth_data :: "u8 \<Rightarrow> u8 \<Rightarrow> u8 \<Rightarrow> nat \<Rightarrow> bytes" where
  "auth_data sh sender receiver n = [sh, sender, receiver, of_nat n]"

text \<open>The frame for a part of a message: class, security header, nonce, encrypted part, the id of the receiver's nonce, tag.\<close>

definition s0_frame :: "(bytes \<Rightarrow> bytes) \<Rightarrow> (bytes \<Rightarrow> bytes) \<Rightarrow> u8 \<Rightarrow> u8 \<Rightarrow> u8 \<Rightarrow> bytes \<Rightarrow> bytes \<Rightarrow> bytes" where
  "s0_frame Eenc Eauth sh sender receiver iv plain =
     (let enc = aes_ofb Eenc iv plain;
          mac = aes_cbc_mac Eauth iv (auth_data sh sender receiver (length plain) @ enc)
      in [0x98, sh] @ take 8 iv @ enc @ [iv ! 8] @ take 8 mac)"

text \<open>The result is the length of the frame, 0 for failure.\<close>

definition encrypt_msg :: "s0_env \<Rightarrow> nat \<Rightarrow> bool \<Rightarrow> s0_state \<Rightarrow> (nat \<times> s0_state) option" where
  "encrypt_msg env i pass2 s =
     (let e = tx_sessions s ! i; p = tx_param e;
          sn = (ucast (snode p) :: u8); dn = (ucast (dnode p) :: u8);
          maxlen = get_node_max_frame_size dn;
          more_to_send = (maxlen < unat (tx_data_len e) + 20);
          len = (if more_to_send then maxlen - 20 else unat (tx_data_len e))
      in (case fresh_nonce env dn sn (nonce_table s) (prng_count s) of
            None \<Rightarrow> None
          | Some (rnd, k) \<Rightarrow>
              (let s = s \<lparr> prng_count := k \<rparr>
               in (case get_nonce dn sn 0 True (nonce_table s) of
                     None \<Rightarrow> Some (0, s)
                   | Some nonce \<Rightarrow>
                       (let s = s \<lparr> nonce_table := nonce_clear dn sn (nonce_table s) \<rparr>;
                            s = s \<lparr> nonce_table := snd (register_nonce sn dn True rnd (nonce_table s)) \<rparr>;
                            flags = (if pass2 then 0x10 OR 0x20 OR (tx_seq e AND 0xF)
                                     else if more_to_send then 0x10 OR (tx_seq e AND 0xF) else 0);
                            inclusion = (tx_data e ! 0 = 0x98 \<and> tx_data e ! 1 = 0x06);
                            sh = (if more_to_send then 0xC1 else 0x81);
                            frame = s0_frame (AES128 env (if inclusion then enckeyz s else enckey s))
                              (AES128 env (if inclusion then authkeyz s else authkey s)) sh sn dn (rnd @ nonce)
                              (flags # take len (tx_data e))
                        in Some (len + 20, upd_tx i (\<lambda>e. e \<lparr> crypted_msg := frame @ drop (length frame) (crypted_msg e),
                              tx_data := drop len (tx_data e), tx_data_len := tx_data_len e - of_nat len \<rparr>) s))))))"

text \<open>The two final states of a session.\<close>

definition tx_final :: "nat \<Rightarrow> tx_state_t \<Rightarrow> s0_state \<Rightarrow> s0_state" where
  "tx_final i st s =
     (let e = tx_sessions s ! i;
          s = upd_tx i (\<lambda>e. e \<lparr> tx_state := st, transition_time := s0_clock s, tx_param := (tx_param e) \<lparr> dnode := 0 \<rparr>, tx_timer := None \<rparr>) s;
          s = (case tx_callback e of
                 None \<Rightarrow> s
               | Some cb \<Rightarrow> s0_emit (if st = TX_DONE then S0_report cb TRANSMIT_COMPLETE_OK (tx_user e) (Some (tx_ext_status e))
                                    else S0_report cb (tx_code e) (tx_user e) None) s)
      in upd_tx i (\<lambda>e. e \<lparr> tx_ext_status := 0 \<rparr>) s)"

definition tx_fail :: "nat \<Rightarrow> s0_state \<Rightarrow> s0_state" where
  "tx_fail i s = tx_final i TX_FAIL (upd_tx i (\<lambda>e. e \<lparr> tx_code := TRANSMIT_COMPLETE_FAIL \<rparr>) s)"

text \<open>A frame of a session is given to the low-level sender; \<open>ok\<close> is what follows.\<close>

definition s0_hand_over :: "s0_env \<Rightarrow> nat \<Rightarrow> bytes \<Rightarrow> s0_cb \<Rightarrow> (s0_state \<Rightarrow> s0_state) \<Rightarrow> s0_state \<Rightarrow> s0_state" where
  "s0_hand_over env i frame cb ok s =
     (let s = s0_emit (S0_send (tx_param (tx_sessions s ! i)) frame cb) s
      in if s0_send_ok env (s0_log s) then ok s else tx_fail i s)"

definition send_encrypted :: "s0_env \<Rightarrow> nat \<Rightarrow> bool \<Rightarrow> s0_state \<Rightarrow> s0_state option" where
  "send_encrypted env i pass2 s =
     (let s = upd_tx i (\<lambda>e. e \<lparr> tx_timer := None \<rparr>) s
      in map_option (\<lambda>(len, s). if len = 0 then tx_fail i s
           else s0_hand_over env i (take len (crypted_msg (tx_sessions s ! i))) (if pass2 then Msg2_callback i else Msg1_callback i) id s)
         (encrypt_msg env i pass2 s))"

definition tx_session_state_set :: "s0_env \<Rightarrow> nat \<Rightarrow> tx_state_t \<Rightarrow> s0_state \<Rightarrow> s0_state option" where
  "tx_session_state_set env i st s0 =
     (let s = upd_tx i (\<lambda>e. e \<lparr> tx_state := st, transition_time := s0_clock s0 \<rparr>) s0;
          wait = NONCE_REQUEST_TIMEOUT_MSEC + (s0_clock s - transition_time (tx_sessions s ! i))
      in (case st of
            NONCE_GET \<Rightarrow> Some (s0_hand_over env i [0x98, 0x40] (Noce_get_callback i)
              (\<lambda>s. if secure_learn_active env (s0_log s) then upd_tx i (\<lambda>e. e \<lparr> tx_timer := Some 10000 \<rparr>) s else s) s)
          | NONCE_GET_SENT \<Rightarrow>
              Some (if \<not> secure_learn_active env (s0_log s) then upd_tx i (\<lambda>e. e \<lparr> tx_timer := Some wait \<rparr>) s else s)
          | ENC_MSG \<Rightarrow> send_encrypted env i False s
          | ENC_MSG_SENT \<Rightarrow>
              Some (if tx_data_len (tx_sessions s ! i) = 0 then tx_final i TX_DONE s else upd_tx i (\<lambda>e. e \<lparr> tx_timer := Some wait \<rparr>) s)
          | ENC_MSG2 \<Rightarrow> send_encrypted env i True s
          | ENC_MSG2_SENT \<Rightarrow> Some (tx_final i TX_DONE s)
          | TX_DONE \<Rightarrow> Some (tx_final i TX_DONE s)
          | TX_FAIL \<Rightarrow> Some (tx_final i TX_FAIL s)))"

definition tx_timeout :: "s0_env \<Rightarrow> nat \<Rightarrow> s0_state \<Rightarrow> s0_state option" where
  "tx_timeout env i s = tx_session_state_set env i TX_FAIL (upd_tx i (\<lambda>e. e \<lparr> tx_code := TRANSMIT_COMPLETE_FAIL \<rparr>) s)"

definition noce_get_callback :: "s0_env \<Rightarrow> u8 \<Rightarrow> nat \<Rightarrow> s0_state \<Rightarrow> s0_state option" where
  "noce_get_callback env status i s =
     (let s = upd_tx i (\<lambda>e. e \<lparr> tx_code := status \<rparr>) s
      in if tx_state (tx_sessions s ! i) = NONCE_GET
         then tx_session_state_set env i (if status = TRANSMIT_COMPLETE_OK then NONCE_GET_SENT else TX_FAIL) s
         else Some s)"

definition msg_callback :: "s0_env \<Rightarrow> tx_state_t \<Rightarrow> tx_state_t \<Rightarrow> u8 \<Rightarrow> nat \<Rightarrow> u16 option \<Rightarrow> s0_state \<Rightarrow> s0_state option" where
  "msg_callback env expected sent status i ts s =
     (if tx_state (tx_sessions s ! i) = expected
      then (let s = upd_tx i (\<lambda>e. e \<lparr> tx_code := status \<rparr>) s;
                s = (case ts of Some t \<Rightarrow> if status = TRANSMIT_COMPLETE_OK then upd_tx i (\<lambda>e. e \<lparr> tx_ext_status := t \<rparr>) s else s | None \<Rightarrow> s)
            in tx_session_state_set env i (if status = TRANSMIT_COMPLETE_OK then sent else TX_FAIL) s)
      else Some s)"

definition msg1_callback :: "s0_env \<Rightarrow> u8 \<Rightarrow> nat \<Rightarrow> u16 option \<Rightarrow> s0_state \<Rightarrow> s0_state option" where
  "msg1_callback env = msg_callback env ENC_MSG ENC_MSG_SENT"

definition msg2_callback :: "s0_env \<Rightarrow> u8 \<Rightarrow> nat \<Rightarrow> u16 option \<Rightarrow> s0_state \<Rightarrow> s0_state option" where
  "msg2_callback env = msg_callback env ENC_MSG2 ENC_MSG2_SENT"

definition sec0_send_data :: "s0_env \<Rightarrow> ts_param_t \<Rightarrow> bytes \<Rightarrow> u8 \<Rightarrow> nat option \<Rightarrow> addr \<Rightarrow> s0_state \<Rightarrow> (bool \<times> s0_state) option" where
  "sec0_send_data env p msg len cb user s =
     (if get_tx_session_by_node (ucast (snode p)) (ucast (dnode p)) s \<noteq> None then Some (False, s)
      else
        (case find_idx (\<lambda>e. dnode (tx_param e) = 0) (tx_sessions s) of
           None \<Rightarrow> Some (False, s)
         | Some i \<Rightarrow>
             (let s = s \<lparr> seq_static := seq_static s + 1 \<rparr>;
                  s = upd_tx i (\<lambda>e. e \<lparr> tx_param := p, tx_data := msg, tx_data_len := len, tx_callback := cb, tx_user := user,
                        tx_seq := seq_static s \<rparr>) s
              in map_option (Pair True) (tx_session_state_set env i NONCE_GET s))))"

definition sec0_register_nonce :: "s0_env \<Rightarrow> u8 \<Rightarrow> u8 \<Rightarrow> bytes \<Rightarrow> s0_state \<Rightarrow> s0_state option" where
  "sec0_register_nonce env src dst nonce s =
     (if sec0_is_nonce_blacklisted src dst nonce s then Some s
      else
        (case get_tx_session_by_node dst src s of
           None \<Rightarrow> Some s
         | Some i \<Rightarrow>
             (let s = s \<lparr> nonce_table := snd (register_nonce src dst False nonce (nonce_table s)) \<rparr>;
                  s = sec0_blacklist_add_nonce src dst nonce s;
                  e = tx_sessions s ! i
              in if tx_state e = NONCE_GET_SENT \<or> tx_state e = NONCE_GET then tx_session_state_set env i ENC_MSG s
                 else if tx_state e = ENC_MSG_SENT \<or> (tx_state e = ENC_MSG \<and> 0 < tx_data_len e) then tx_session_state_set env i ENC_MSG2 s
                 else Some s)))"

fun abort_sessions :: "nat list \<Rightarrow> s0_state \<Rightarrow> s0_state" where
  "abort_sessions [] s = s"
| "abort_sessions (i # is) s = abort_sessions is (if dnode (tx_param (tx_sessions s ! i)) \<noteq> 0 then tx_fail i s else s)"

definition sec0_abort_all_tx_sessions :: "s0_state \<Rightarrow> s0_state" where
  "sec0_abort_all_tx_sessions s = abort_sessions [0..<NUM_TX_SESSIONS] s"

section \<open>Receiving\<close>

definition is_free :: "nat \<Rightarrow> rx_session_t \<Rightarrow> bool" where
  "is_free now e \<longleftrightarrow> rx_state e = RX_SESSION_DONE \<or> rx_timeout e < now"

definition new_rx_session :: "u8 \<Rightarrow> u8 \<Rightarrow> s0_state \<Rightarrow> (nat \<times> s0_state) option" where
  "new_rx_session snod dnod s =
     (case find_idx (is_free (s0_clock s)) (rxsessions s) of
        None \<Rightarrow> None
      | Some i \<Rightarrow> Some (i, s \<lparr> rxsessions := upd_idx i (\<lambda>e. e \<lparr> rx_snode := snod, rx_dnode := dnod, rx_timeout := s0_clock s + 10000 \<rparr>) (rxsessions s) \<rparr>))"

definition get_rx_session_by_nodes :: "u8 \<Rightarrow> u8 \<Rightarrow> s0_state \<Rightarrow> nat option" where
  "get_rx_session_by_nodes snod dnod s =
     find_idx (\<lambda>e. \<not> is_free (s0_clock s) e \<and> rx_dnode e = dnod \<and> rx_snode e = snod) (rxsessions s)"

definition free_rx_session :: "nat \<Rightarrow> s0_state \<Rightarrow> s0_state" where
  "free_rx_session i s = s \<lparr> rxsessions := upd_idx i (\<lambda>e. e \<lparr> rx_state := RX_SESSION_DONE \<rparr>) (rxsessions s) \<rparr>"

text \<open>
  The sessions are cleared to zero bytes.  Zero is not a value of the type of schemes; no code reads the scheme of a
  session before it is set, and the model keeps the old one.  The nonces are kept.
\<close>

definition tx_cleared :: "sec_tx_session_t \<Rightarrow> sec_tx_session_t" where
  "tx_cleared e = \<lparr> tx_param = (tx_param e) \<lparr> snode := 0, dnode := 0, sendpoint := 0, dendpoint := 0, tx_flags := 0, rx_flags := 0,
       node_list := nodemask_clear, is_mcast_with_folloup := False, force_verify_delivery := False, is_multicommand := False, discard_timeout := 0 \<rparr>,
     tx_data = [], tx_data_len = 0, tx_state = NONCE_GET, tx_code = 0, transition_time = 0, tx_timer = None, crypted_msg = replicate 46 0,
     tx_seq = 0, tx_user = 0, tx_callback = None, tx_ext_status = 0 \<rparr>"

definition sec0_init :: "s0_state \<Rightarrow> s0_state" where
  "sec0_init s = s \<lparr> rxsessions := map (\<lambda>e. e \<lparr> rx_state := RX_SESSION_DONE \<rparr>) (rxsessions s),
     tx_sessions := map tx_cleared (tx_sessions s),
     nonce_blacklist := map (\<lambda>e. \<lparr> bl_nonce = replicate 8 0, bl_src = 0, bl_dst = 0, bl_in_use = False \<rparr>) (nonce_blacklist s),
     blacklist_next_elem := 0, nonce_timer := Some 1000 \<rparr>"

text \<open>The parameters of the reply are on the stack; what is not set in them is whatever was there.\<close>

definition sec0_send_nonce :: "s0_env \<Rightarrow> ts_param_t \<Rightarrow> s0_state \<Rightarrow> s0_state option" where
  "sec0_send_nonce env src s =
     (let me = (ucast (dnode src) :: u8); peer = (ucast (snode src) :: u8)
      in if has_three_nonces me peer (nonce_table s) then Some s
         else (case fresh_nonce env me peer (nonce_table s) (prng_count s) of
                 None \<Rightarrow> None
               | Some (nonce, k) \<Rightarrow>
                   (let s = s \<lparr> prng_count := k \<rparr>;
                        s = s0_emit (S0_send (ts_param_make_reply env (stack_param env) src) ([0x98, 0x80] @ nonce) No_s0_cb) s
                    in Some (if s0_send_ok env (s0_log s)
                             then s \<lparr> nonce_table := snd (register_nonce me peer False nonce (nonce_table s)) \<rparr> else s))))"

text \<open>
  The result is the length of the message and its bytes, 0 and nothing when there is none.  The lengths are bytes.
\<close>

definition sec0_decrypt_message :: "s0_env \<Rightarrow> u8 \<Rightarrow> u8 \<Rightarrow> bytes \<Rightarrow> u8 \<Rightarrow> s0_state \<Rightarrow> u8 \<times> bytes \<times> s0_state" where
  "sec0_decrypt_message env snod dnod enc_data enc_len s =
     (if enc_len < 20 then (0, [], s)
      else if MAX_ENCRYPTED_MSG_SIZE < unat enc_len - 20 then (0, [], s)
      else
        (let n = unat enc_len; ri = enc_data ! (n - 9)
         in (case get_nonce dnod snod ri False (nonce_table s) of
               None \<Rightarrow> (0, [], s)
             | Some nonce \<Rightarrow>
                 (let iv = take 8 (drop 2 enc_data) @ nonce;
                      s = s \<lparr> nonce_table := nonce_clear dnod snod (nonce_table s) \<rparr>
                  in (case (case get_rx_session_by_nodes snod dnod s of
                              Some i \<Rightarrow> Some (i, s)
                            | None \<Rightarrow>
                                map_option (\<lambda>(i, s). (i, s \<lparr> rxsessions := upd_idx i (\<lambda>e. e \<lparr> rx_state := RX_INIT \<rparr>) (rxsessions s) \<rparr>))
                                  (new_rx_session snod dnod s)) of
                        None \<Rightarrow> (0, [], s)
                      | Some (i, s) \<Rightarrow>
                          (let e = rxsessions s ! i
                           in if rx_state e \<noteq> RX_INIT \<and> MAX_ENCRYPTED_MSG_SIZE < unat (rx_msg_len e) + n - 20 then (0, [], s)
                              else
                                (let payload = take (n - 19) (drop 10 enc_data);
                                     mac = aes_cbc_mac (AES128 env (authkey s)) iv (auth_data (enc_data ! 1) snod dnod (n - 19) @ payload)
                                 in if take 8 mac \<noteq> take 8 (drop (n - 8) enc_data) then (0, [], s)
                                    else
                                      (let plain = aes_ofb (AES128 env (enckey s)) iv payload;
                                           flags = plain ! 0;
                                           body = take (n - 20) (drop 1 plain)
                                       in if flags AND 0x10 \<noteq> 0 then
                                            (if flags AND 0x20 = 0 then
                                               (0, [], s \<lparr> rxsessions := upd_idx i (\<lambda>e. e \<lparr> rx_seq_nr := flags AND 0xF, rx_msg_len := enc_len - 20,
                                                   rx_state := RX_ENC1, rx_msg := body @ drop (length body) (rx_msg e) \<rparr>) (rxsessions s) \<rparr>)
                                             else if rx_state e \<noteq> RX_ENC1 \<or> flags AND 0xF \<noteq> rx_seq_nr e then (0, [], s)
                                             else (rx_msg_len e + enc_len - 20, take (unat (rx_msg_len e)) (rx_msg e) @ body, free_rx_session i s))
                                          else (enc_len - 20, body, free_rx_session i s)))))))))"

end
