(* ===== verification/Key_Store.thy ===== *)
theory Key_Store
  imports S0_Layer
begin

text \<open>
  The network keys in the non-volatile memory (\<^verbatim>\<open>src/transport/s2_keystore.c\<close>, and the functions of \<^verbatim>\<open>S2_wrap.c\<close> that
  create keys): one key for each key class and a byte with the classes that are assigned.  Writing the key of scheme 0 also puts it
  into use.  Sources of random bytes are parameters.
\<close>

unbundle bit_operations_syntax

section \<open>State\<close>

definition KEY_CLASS_S0 :: u8 where "KEY_CLASS_S0 = 0x80"
definition KEY_CLASS_S2_UNAUTHENTICATED :: u8 where "KEY_CLASS_S2_UNAUTHENTICATED = 0x01"
definition KEY_CLASS_S2_AUTHENTICATED :: u8 where "KEY_CLASS_S2_AUTHENTICATED = 0x02"
definition KEY_CLASS_S2_ACCESS :: u8 where "KEY_CLASS_S2_ACCESS = 0x04"
definition KEY_CLASS_S2_AUTHENTICATED_LR :: u8 where "KEY_CLASS_S2_AUTHENTICATED_LR = 0x08"
definition KEY_CLASS_S2_ACCESS_LR :: u8 where "KEY_CLASS_S2_ACCESS_LR = 0x10"
definition KEY_CLASS_ALL :: u8 where "KEY_CLASS_ALL = 0xFF"

lemmas key_class_defs = KEY_CLASS_S0_def KEY_CLASS_S2_UNAUTHENTICATED_def KEY_CLASS_S2_AUTHENTICATED_def KEY_CLASS_S2_ACCESS_def
  KEY_CLASS_S2_AUTHENTICATED_LR_def KEY_CLASS_S2_ACCESS_LR_def

record ks_env =
  ks_s0env :: s0_env
  S2_get_hw_random :: "nat \<Rightarrow> bytes"
  AES_CTR_DRBG_Generate :: "nat \<Rightarrow> bytes"

text \<open>The part of the configuration that holds keys, the module that uses the key of scheme 0, and the number of random draws.\<close>

record ks_state =
  assigned_keys :: u8
  security_netkey :: bytes
  security2_key :: "bytes list"
  security2_lr_key :: "bytes list"
  security_scheme :: int
  ks_s0 :: s0_state
  ks_draws :: nat

datatype key_slot = Slot_netkey | Slot_key nat | Slot_lr_key nat

definition slot_of :: "u8 \<Rightarrow> key_slot option" where
  "slot_of keyclass =
     (if keyclass = KEY_CLASS_S0 then Some Slot_netkey
      else if keyclass = KEY_CLASS_S2_UNAUTHENTICATED then Some (Slot_key 0)
      else if keyclass = KEY_CLASS_S2_AUTHENTICATED then Some (Slot_key 1)
      else if keyclass = KEY_CLASS_S2_ACCESS then Some (Slot_key 2)
      else if keyclass = KEY_CLASS_S2_AUTHENTICATED_LR then Some (Slot_lr_key 0)
      else if keyclass = KEY_CLASS_S2_ACCESS_LR then Some (Slot_lr_key 1) else None)"

fun ks_slot_key :: "key_slot \<Rightarrow> ks_state \<Rightarrow> bytes" where
  "ks_slot_key Slot_netkey s = security_netkey s"
| "ks_slot_key (Slot_key i) s = security2_key s ! i"
| "ks_slot_key (Slot_lr_key i) s = security2_lr_key s ! i"

fun slot_set :: "key_slot \<Rightarrow> bytes \<Rightarrow> ks_state \<Rightarrow> ks_state" where
  "slot_set Slot_netkey k s = s \<lparr> security_netkey := k \<rparr>"
| "slot_set (Slot_key i) k s = s \<lparr> security2_key := (security2_key s)[i := k] \<rparr>"
| "slot_set (Slot_lr_key i) k s = s \<lparr> security2_lr_key := (security2_lr_key s)[i := k] \<rparr>"

section \<open>Operations\<close>

text \<open>
  Both functions answer a class that is none of the six, after a failed assertion is printed, with 0 and change nothing: the value \<open>None\<close>.
  Reading also gives 0 for a class without a key, the value \<open>Some None\<close>.
\<close>

definition keystore_network_key_read :: "u8 \<Rightarrow> ks_state \<Rightarrow> bytes option option" where
  "keystore_network_key_read keyclass s =
     (if keyclass AND assigned_keys s = 0 then Some None else map_option (\<lambda>sl. Some (ks_slot_key sl s)) (slot_of keyclass))"

definition keystore_network_key_write :: "ks_env \<Rightarrow> u8 \<Rightarrow> bytes \<Rightarrow> ks_state \<Rightarrow> ks_state option" where
  "keystore_network_key_write env keyclass buf s =
     (case slot_of keyclass of
        None \<Rightarrow> None
      | Some sl \<Rightarrow>
          (let s = slot_set sl (take 16 buf) s;
               s = (if keyclass = KEY_CLASS_S0 then s \<lparr> ks_s0 := sec0_set_key (ks_s0env env) (take 16 buf) (ks_s0 s) \<rparr> else s)
           in Some (s \<lparr> assigned_keys := assigned_keys s OR keyclass \<rparr>)))"

definition clear_class :: "ks_env \<Rightarrow> u8 \<Rightarrow> ks_state \<Rightarrow> ks_state option" where
  "clear_class env keyclass s =
     (let random_bytes = AES_CTR_DRBG_Generate env (ks_draws s); s = s \<lparr> ks_draws := ks_draws s + 1 \<rparr>
      in map_option (\<lambda>s. s \<lparr> assigned_keys := assigned_keys s AND NOT keyclass \<rparr>) (keystore_network_key_write env keyclass random_bytes s))"

fun ks_each :: "('a \<Rightarrow> 's \<Rightarrow> 's option) \<Rightarrow> 'a list \<Rightarrow> 's \<Rightarrow> 's option" where
  "ks_each f [] s = Some s"
| "ks_each f (c # cs) s = Option.bind (f c s) (ks_each f cs)"

definition keystore_network_key_clear :: "ks_env \<Rightarrow> u8 \<Rightarrow> ks_state \<Rightarrow> ks_state option" where
  "keystore_network_key_clear env keyclass s =
     (if keyclass = KEY_CLASS_ALL
      then ks_each (clear_class env) [KEY_CLASS_S0, KEY_CLASS_S2_UNAUTHENTICATED, KEY_CLASS_S2_AUTHENTICATED, KEY_CLASS_S2_ACCESS,
             KEY_CLASS_S2_AUTHENTICATED_LR, KEY_CLASS_S2_ACCESS_LR] (s \<lparr> ks_draws := ks_draws s + 1 \<rparr>)
      else clear_class env keyclass s)"

text \<open>A new random key for a class.\<close>

definition write_random :: "ks_env \<Rightarrow> u8 \<Rightarrow> ks_state \<Rightarrow> ks_state option" where
  "write_random env keyclass s = keystore_network_key_write env keyclass (S2_get_hw_random env (ks_draws s)) (s \<lparr> ks_draws := ks_draws s + 1 \<rparr>)"

definition keystore_network_generate_key_if_missing :: "ks_env \<Rightarrow> ks_state \<Rightarrow> ks_state option" where
  "keystore_network_generate_key_if_missing env s =
     (let key_store_flags = assigned_keys s
      in ks_each (\<lambda>c s. if key_store_flags AND c = 0 then write_random env c s else Some s)
           [KEY_CLASS_S0, KEY_CLASS_S2_ACCESS, KEY_CLASS_S2_AUTHENTICATED, KEY_CLASS_S2_UNAUTHENTICATED,
            KEY_CLASS_S2_AUTHENTICATED_LR, KEY_CLASS_S2_ACCESS_LR] s)"

definition S2_NUM_KEY_CLASSES :: nat where "S2_NUM_KEY_CLASSES = 6"

definition sec2_create_new_network_keys :: "ks_env \<Rightarrow> ks_state \<Rightarrow> ks_state option" where
  "sec2_create_new_network_keys env s = ks_each (\<lambda>c. write_random env (push_bit c 1)) [0..<S2_NUM_KEY_CLASSES - 1] s"

definition keystore_flags_2_node_flags :: "u8 \<Rightarrow> u8" where
  "keystore_flags_2_node_flags key_store_flags =
     (if key_store_flags AND KEY_CLASS_S0 \<noteq> 0 then NODE_FLAG_SECURITY0 else 0)
     OR (if key_store_flags AND KEY_CLASS_S2_ACCESS \<noteq> 0 then NODE_FLAG_SECURITY2_ACCESS else 0)
     OR (if key_store_flags AND KEY_CLASS_S2_AUTHENTICATED \<noteq> 0 then NODE_FLAG_SECURITY2_AUTHENTICATED else 0)
     OR (if key_store_flags AND KEY_CLASS_S2_UNAUTHENTICATED \<noteq> 0 then NODE_FLAG_SECURITY2_UNAUTHENTICATED else 0)"

definition sec2_get_my_node_flags :: "ks_state \<Rightarrow> u8" where
  "sec2_get_my_node_flags s = keystore_flags_2_node_flags (assigned_keys s)"

section \<open>A map from key classes to keys\<close>

text \<open>What the users of a store of keys rely on.  \<open>fresh\<close> is what a draw of a new key may give.\<close>

locale key_map =
  fixes inv :: "'s \<Rightarrow> bool" and classes :: "'c set" and look :: "'s \<Rightarrow> 'c \<Rightarrow> 'k option" and put :: "'c \<Rightarrow> 's \<Rightarrow> 's option" and fresh :: "'k set"
  assumes put_some: "inv s \<Longrightarrow> c \<in> classes \<Longrightarrow> \<exists>t k. put c s = Some t \<and> inv t \<and> k \<in> fresh \<and> look t = (look s)(c \<mapsto> k)"
begin

text \<open>Keys are created for the classes that \<open>miss\<close> selects, all others keep theirs.\<close>

lemma fill_missing:
  assumes "inv s" and "distinct cs" and "set cs \<subseteq> classes"
  shows "\<exists>t. ks_each (\<lambda>c s. if miss c then put c s else Some s) cs s = Some t \<and> inv t
    \<and> (\<forall>c. if c \<in> set cs \<and> miss c then (\<exists>k \<in> fresh. look t c = Some k) else look t c = look s c)"
  using assms
proof (induction cs arbitrary: s)
  case Nil
  then show ?case by simp
next
  case (Cons c cs)
  obtain u where u: "(if miss c then put c s else Some s) = Some u" "inv u" "\<forall>d. d \<noteq> c \<or> \<not> miss c \<longrightarrow> look u d = look s d"
      "miss c \<longrightarrow> (\<exists>k \<in> fresh. look u c = Some k)"
  proof (cases "miss c")
    case True
    obtain t k where "put c s = Some t" "inv t" "k \<in> fresh" "look t = (look s)(c \<mapsto> k)" using put_some [OF Cons.prems(1), of c] Cons.prems(3) by auto
    then show ?thesis using that [of t] True by auto
  next
    case False
    then show ?thesis using that [of s] Cons.prems(1) by simp
  qed
  obtain t where t: "ks_each (\<lambda>c s. if miss c then put c s else Some s) cs u = Some t" "inv t"
      "\<forall>d. if d \<in> set cs \<and> miss d then (\<exists>k \<in> fresh. look t d = Some k) else look t d = look u d"
    using Cons.IH [OF u(2)] Cons.prems by auto
  have "if d \<in> set (c # cs) \<and> miss d then (\<exists>k \<in> fresh. look t d = Some k) else look t d = look s d" for d
    using t(3) [rule_format, of d] u(3,4) Cons.prems(2) by (cases "d = c") (auto split: if_splits)
  then show ?case using u(1) t(1,2) by auto
qed

end

definition key_classes :: "u8 list" where
  "key_classes = [KEY_CLASS_S0, KEY_CLASS_S2_UNAUTHENTICATED, KEY_CLASS_S2_AUTHENTICATED, KEY_CLASS_S2_ACCESS,
     KEY_CLASS_S2_AUTHENTICATED_LR, KEY_CLASS_S2_ACCESS_LR]"

definition ks_inv :: "ks_state \<Rightarrow> bool" where
  "ks_inv s \<longleftrightarrow> length (security2_key s) = 3 \<and> length (security2_lr_key s) = 2"

text \<open>The map the store stands for.\<close>

definition ks_abs :: "ks_state \<Rightarrow> u8 \<Rightarrow> bytes option" where
  "ks_abs s c = (case slot_of c of None \<Rightarrow> None | Some sl \<Rightarrow> if c AND assigned_keys s = 0 then None else Some (ks_slot_key sl s))"

lemma slot_of_None: "slot_of c = None \<longleftrightarrow> c \<notin> set key_classes"
  by (simp add: slot_of_def key_classes_def)

lemma classes_disjoint: "c \<in> set key_classes \<Longrightarrow> d \<in> set key_classes \<Longrightarrow> c \<noteq> d \<Longrightarrow> c AND d = 0"
  by (auto simp: key_classes_def key_class_defs)

lemma and_not_other:
  fixes c d a :: u8
  assumes "d AND c = 0"
  shows "d AND (a AND NOT c) = d AND a"
proof (rule bit_word_eqI)
  fix n
  assume "n < LENGTH(8)"
  then show "bit (d AND (a AND NOT c)) n = bit (d AND a) n" using arg_cong [OF assms, of "\<lambda>w. bit w n"] by (auto simp: bit_simps)
qed

lemma class_nonzero: "c \<in> set key_classes \<Longrightarrow> c \<noteq> 0"
  by (auto simp: key_classes_def key_class_defs)

lemma slot_set_same: "ks_inv s \<Longrightarrow> slot_of c = Some sl \<Longrightarrow> ks_slot_key sl (slot_set sl k s) = k"
  by (auto simp: slot_of_def ks_inv_def split: if_splits)

lemma slot_set_other: "slot_of c = Some sl \<Longrightarrow> slot_of d = Some sm \<Longrightarrow> c \<noteq> d \<Longrightarrow> ks_slot_key sm (slot_set sl k s) = ks_slot_key sm s"
  by (auto simp: slot_of_def key_class_defs split: if_splits)

lemma slot_key_frame [simp]:
  "ks_slot_key sl (s \<lparr> ks_s0 := z \<rparr>) = ks_slot_key sl s" "ks_slot_key sl (s \<lparr> assigned_keys := a \<rparr>) = ks_slot_key sl s" "ks_slot_key sl (s \<lparr> ks_draws := n \<rparr>) = ks_slot_key sl s"
  by (cases sl; simp)+

lemma slot_set_frame [simp]:
  "assigned_keys (slot_set sl k s) = assigned_keys s" "ks_inv (slot_set sl k s) = ks_inv s" "ks_s0 (slot_set sl k s) = ks_s0 s" "ks_draws (slot_set sl k s) = ks_draws s"
  "security_scheme (slot_set sl k s) = security_scheme s"
  by (cases sl; simp add: ks_inv_def)+

lemma ks_inv_frame [simp]:
  "ks_inv (s \<lparr> ks_s0 := z \<rparr>) = ks_inv s" "ks_inv (s \<lparr> assigned_keys := a \<rparr>) = ks_inv s" "ks_inv (s \<lparr> ks_draws := n \<rparr>) = ks_inv s"
  by (simp_all add: ks_inv_def)

lemma ks_abs_draws [simp]: "ks_abs (s \<lparr> ks_draws := n \<rparr>) = ks_abs s"
  by (simp add: fun_eq_iff ks_abs_def split: option.split)

text \<open>Writing is an update of the map.\<close>

lemma key_write_map:
  assumes "ks_inv s" and "c \<in> set key_classes"
  obtains t where "keystore_network_key_write env c k s = Some t" "ks_inv t" "ks_abs t = (ks_abs s)(c \<mapsto> take 16 k)" "ks_draws t = ks_draws s"
    "assigned_keys t = assigned_keys s OR c"
    "ks_s0 t = (if c = KEY_CLASS_S0 then sec0_set_key (ks_s0env env) (take 16 k) (ks_s0 s) else ks_s0 s)"
proof -
  obtain sl where sl: "slot_of c = Some sl" using assms(2) slot_of_None by fastforce
  define t where "t = the (keystore_network_key_write env c k s)"
  have t: "keystore_network_key_write env c k s = Some t" "assigned_keys t = assigned_keys s OR c" "ks_draws t = ks_draws s" "ks_inv t"
      "ks_s0 t = (if c = KEY_CLASS_S0 then sec0_set_key (ks_s0env env) (take 16 k) (ks_s0 s) else ks_s0 s)"
      "\<And>sm. ks_slot_key sm t = ks_slot_key sm (slot_set sl (take 16 k) s)"
    using assms(1) sl by (simp_all add: t_def keystore_network_key_write_def Let_def)
  have "ks_abs t d = ((ks_abs s)(c \<mapsto> take 16 k)) d" for d
  proof (cases "d = c")
    case True
    have "c AND (assigned_keys s OR c) = c" by (simp add: or.commute)
    then show ?thesis using True sl t slot_set_same [OF assms(1) sl] class_nonzero [OF assms(2)] by (simp add: ks_abs_def)
  next
    case False
    show ?thesis
    proof (cases "slot_of d")
      case None
      then show ?thesis using False by (simp add: ks_abs_def)
    next
      case (Some sm)
      then have "d AND c = 0" using classes_disjoint [OF _ assms(2)] False slot_of_None by (metis option.distinct(1))
      then have "d AND (assigned_keys s OR c) = d AND assigned_keys s" by (simp add: bit.conj_disj_distrib)
      then show ?thesis using Some False t slot_set_other [OF sl Some] by (simp add: ks_abs_def)
    qed
  qed
  then show thesis using that t by blast
qed

lemma key_read_map: "c \<in> set key_classes \<Longrightarrow> keystore_network_key_read c s = Some (ks_abs s c)"
  using slot_of_None [of c] by (auto simp: keystore_network_key_read_def ks_abs_def split: option.split)

interpretation ks: key_map ks_inv "set key_classes" ks_abs "write_random env" "range (\<lambda>n. take 16 (S2_get_hw_random env n))" for env
proof
  fix s c
  assume "ks_inv s" "c \<in> set key_classes"
  then have "ks_inv (s \<lparr> ks_draws := ks_draws s + 1 \<rparr>)" "c \<in> set key_classes" by simp_all
  then obtain t where "keystore_network_key_write env c (S2_get_hw_random env (ks_draws s)) (s \<lparr> ks_draws := ks_draws s + 1 \<rparr>) = Some t" "ks_inv t"
      "ks_abs t = (ks_abs s)(c \<mapsto> take 16 (S2_get_hw_random env (ks_draws s)))"
    by (rule key_write_map) simp
  then show "\<exists>t k. write_random env c s = Some t \<and> ks_inv t \<and> k \<in> range (\<lambda>n. take 16 (S2_get_hw_random env n)) \<and> ks_abs t = (ks_abs s)(c \<mapsto> k)"
    by (auto simp: write_random_def)
qed

text \<open>
  C15.  The key store is a map from the six key classes to keys: a key that is written is the one read back and the other keys stay, a
  class that is cleared has no key, a key of another class is not touched, and writing the key of scheme 0 puts it into use.
\<close>

theorem key_store_is_map:
  assumes "ks_inv s" and "c \<in> set key_classes"
  shows "keystore_network_key_read c s = Some (ks_abs s c)
    \<and> (\<exists>t. keystore_network_key_write env c k s = Some t \<and> ks_inv t \<and> ks_abs t = (ks_abs s)(c \<mapsto> take 16 k)
         \<and> (c = KEY_CLASS_S0 \<longrightarrow> ks_s0 t = sec0_set_key (ks_s0env env) (take 16 k) (ks_s0 s)))
    \<and> (\<exists>t. keystore_network_key_clear env c s = Some t \<and> ks_inv t \<and> ks_abs t = (ks_abs s)(c := None))"
proof (intro conjI)
  show "keystore_network_key_read c s = Some (ks_abs s c)" by (rule key_read_map [OF assms(2)])
  show "\<exists>t. keystore_network_key_write env c k s = Some t \<and> ks_inv t \<and> ks_abs t = (ks_abs s)(c \<mapsto> take 16 k)
         \<and> (c = KEY_CLASS_S0 \<longrightarrow> ks_s0 t = sec0_set_key (ks_s0env env) (take 16 k) (ks_s0 s))"
    by (rule key_write_map [OF assms, of env k]) auto
  let ?k = "AES_CTR_DRBG_Generate env (ks_draws s)"
  have i: "ks_inv (s \<lparr> ks_draws := ks_draws s + 1 \<rparr>)" using assms(1) by simp
  obtain u where u: "keystore_network_key_write env c ?k (s \<lparr> ks_draws := ks_draws s + 1 \<rparr>) = Some u" "ks_inv u" "ks_abs u = (ks_abs s)(c \<mapsto> take 16 ?k)"
    by (rule key_write_map [OF i assms(2), of env ?k]) simp
  let ?t = "u \<lparr> assigned_keys := assigned_keys u AND NOT c \<rparr>"
  have "c \<noteq> KEY_CLASS_ALL" using assms(2) by (auto simp: key_classes_def key_class_defs KEY_CLASS_ALL_def)
  then have "keystore_network_key_clear env c s = Some ?t" using u(1) by (simp add: keystore_network_key_clear_def clear_class_def Let_def)
  moreover have "ks_abs ?t d = ((ks_abs s)(c := None)) d" for d
  proof (cases "d = c")
    case True
    have "c AND (assigned_keys u AND NOT c) = 0" by (rule bit_word_eqI) (auto simp: bit_simps)
    then show ?thesis using True by (simp add: ks_abs_def split: option.split)
  next
    case False
    have "d AND (assigned_keys u AND NOT c) = d AND assigned_keys u" if "d \<in> set key_classes"
      using and_not_other [OF classes_disjoint [OF that assms(2) False]] .
    then have "ks_abs ?t d = ks_abs u d" using slot_of_None [of d] by (cases "slot_of d") (simp_all add: ks_abs_def)
    then show ?thesis using u(3) False by simp
  qed
  ultimately show "\<exists>t. keystore_network_key_clear env c s = Some t \<and> ks_inv t \<and> ks_abs t = (ks_abs s)(c := None)"
    using u(2) by (intro exI [of _ ?t]) (auto simp: fun_eq_iff)
qed

definition ks_boot :: ks_state where
  "ks_boot = \<lparr> assigned_keys = 0x04, security_netkey = replicate 16 1, security2_key = replicate 3 (replicate 16 2), security2_lr_key = replicate 2 (replicate 16 3),
     security_scheme = 0, ks_s0 = \<lparr> nonce_table = [], nonce_blacklist = [], blacklist_next_elem = 0, tx_sessions = [], rxsessions = [],
       enckey = replicate 16 1, authkey = replicate 16 2, enckeyz = replicate 16 3, authkeyz = replicate 16 4, seq_static = 0, prng_count = 0,
       s0_clock = 5, nonce_timer = None, s0_log = [] \<rparr>, ks_draws = 0 \<rparr>"

lemma key_store_is_map_witness:
  "\<forall>env. \<exists>t. keystore_network_key_write env KEY_CLASS_S2_ACCESS (replicate 16 7) ks_boot = Some t \<and> ks_abs t KEY_CLASS_S2_ACCESS = Some (replicate 16 7)"
proof
  fix env
  show "\<exists>t. keystore_network_key_write env KEY_CLASS_S2_ACCESS (replicate 16 7) ks_boot = Some t \<and> ks_abs t KEY_CLASS_S2_ACCESS = Some (replicate 16 7)"
    using key_store_is_map [of ks_boot KEY_CLASS_S2_ACCESS env "replicate 16 7"] by (auto simp: ks_inv_def ks_boot_def key_classes_def)
qed

text \<open>Keys are created for the classes that have none.\<close>

lemma generated_keys:
  assumes "ks_inv s"
  obtains t where "keystore_network_generate_key_if_missing env s = Some t" "ks_inv t"
    "\<And>c. c \<in> set key_classes \<Longrightarrow> case ks_abs s c of Some k \<Rightarrow> ks_abs t c = Some k | None \<Rightarrow> \<exists>n. ks_abs t c = Some (take 16 (S2_get_hw_random env n))"
proof -
  let ?cs = "[KEY_CLASS_S0, KEY_CLASS_S2_ACCESS, KEY_CLASS_S2_AUTHENTICATED, KEY_CLASS_S2_UNAUTHENTICATED, KEY_CLASS_S2_AUTHENTICATED_LR, KEY_CLASS_S2_ACCESS_LR]"
  let ?miss = "\<lambda>c. assigned_keys s AND c = 0"
  have cs: "distinct ?cs" "set ?cs = set key_classes" by (auto simp: key_classes_def key_class_defs)
  obtain t where t: "ks_each (\<lambda>c s. if ?miss c then write_random env c s else Some s) ?cs s = Some t" "ks_inv t"
      "\<forall>c. if c \<in> set key_classes \<and> ?miss c then (\<exists>k \<in> range (\<lambda>n. take 16 (S2_get_hw_random env n)). ks_abs t c = Some k) else ks_abs t c = ks_abs s c"
    using ks.fill_missing [OF assms cs(1) equalityD1 [OF cs(2)], of ?miss env, unfolded cs(2)] by blast
  have m: "ks_abs s c = None \<longleftrightarrow> ?miss c" if "c \<in> set key_classes" for c
    using slot_of_None [of c] that by (auto simp: ks_abs_def and.commute split: option.splits)
  have "case ks_abs s c of Some k \<Rightarrow> ks_abs t c = Some k | None \<Rightarrow> \<exists>n. ks_abs t c = Some (take 16 (S2_get_hw_random env n))"
    if c: "c \<in> set key_classes" for c
    using t(3) [rule_format, of c] m [OF c] c by (cases "ks_abs s c") auto
  then show thesis using that [of t] t(1,2) by (simp only: keystore_network_generate_key_if_missing_def Let_def)
qed

text \<open>
  Creating the keys that are missing gives every class a key and changes none that was there.
\<close>

theorem missing_keys_created:
  assumes "ks_inv s"
  shows "\<exists>t. keystore_network_generate_key_if_missing env s = Some t \<and> ks_inv t
    \<and> (\<forall>c \<in> set key_classes. case ks_abs s c of Some k \<Rightarrow> ks_abs t c = Some k | None \<Rightarrow> \<exists>n. ks_abs t c = Some (take 16 (S2_get_hw_random env n)))"
  by (rule generated_keys [OF assms, of env]) blast

lemma missing_keys_created_witness:
  "\<forall>env. \<exists>t. keystore_network_generate_key_if_missing env ks_boot = Some t \<and> ks_abs t KEY_CLASS_S2_ACCESS = Some (replicate 16 2)"
proof -
  have "KEY_CLASS_S2_ACCESS \<in> set key_classes" "ks_abs ks_boot KEY_CLASS_S2_ACCESS = Some (replicate 16 2)"
    by (simp_all add: key_classes_def ks_abs_def slot_of_def ks_boot_def key_class_defs)
  then show ?thesis using missing_keys_created [of ks_boot] by (fastforce simp: ks_inv_def ks_boot_def)
qed

end
