(* ===== verification/Secure_Learn.thy ===== *)
theory Secure_Learn
  imports Key_Store
begin

text \<open>
  Inclusion with security scheme 0: the state machine \<^verbatim>\<open>src-gen/Secure_learn.c\<close>, the actions it calls and the rest of
  \<^verbatim>\<open>src/transport/security_layer.c\<close>, with the handler of the security command class.

  The machine has one region, so its configuration is one state.  The values of \<^verbatim>\<open>sc_integer\<close> variables are node ids, option bytes and
  scheme masks, which fit; they are integers here.  An event is raised with its value.  A time event is named by its state.  The sender, the node
  cache, the network management and the application are parameters that see the log.  \<open>None\<close> is an unknown key class, a write
  outside a buffer or a loop that does not end.  Polling the process that runs the machine is a flag.
\<close>

unbundle bit_operations_syntax

section \<open>State\<close>

datatype Secure_learnStates =
  LearnMode_Start | LearnMode_Scheme_report | LearnMode_Fail | LearnMode_NewKey | LearnMode_Inherited | LearnMode_InsecureNet | LearnMode_end
| Idle | InclusionMode_SchemeRequest | InclusionMode_SendKey | InclusionMode_SendInterit | InclusionMode_Fail | InclusionMode_end
| InclusionMode_waitVerify | Complete | SendReport | Final | Last_state

record Secure_learn =
  stateConf :: Secure_learnStates
  supported_schemes :: int
  txOptions :: int
  isController :: bool
  iface_node :: int
  iface_scheme :: int
  iface_net_scheme :: int
  learnRequest :: bool
  inclusionRequest :: "int option"
  commandsSupportedRequest :: bool
  tx_done :: bool
  tx_failed :: bool
  scheme_get :: "int option"
  scheme_inherit :: "int option"
  key_set :: "int option"
  scheme_report :: "int option"
  key_verify :: "int option"
  timeEvents :: "Secure_learnStates set"

datatype sl_effect = Sl_send ts_param_t bytes | Sl_node_flag nodeid u8 u8 | Sl_complete nat u8 | Sl_command ts_param_t bytes | Sl_s0_started

record sl_state =
  ctx :: Secure_learn
  sl_timer :: "Secure_learnStates option"
  sl_callback :: "nat option"
  cur_tsparm :: ts_param_t
  secureCommandClassesList :: bytes
  secureCommandClassesListCount :: u8
  sl_assigned_keys :: u8
  networkKey :: bytes
  sl_store :: ks_state
  MyNodeID :: nodeid
  sl_poll :: bool
  urandom_draws :: nat
  sl_log :: "sl_effect list"

record sl_env =
  sl_ks :: ks_env
  sl_send_ok :: "sl_effect list \<Rightarrow> bool"
  sl_node_flags :: "sl_effect list \<Rightarrow> nodeid \<Rightarrow> u8"
  gw_net_scheme :: "sl_effect list \<Rightarrow> security_scheme_t"
  is_controller_library :: bool
  suc_node :: nodeid
  SecureClassesPAN :: bytes
  urandom_read :: "nat \<Rightarrow> bytes"

definition isNodeBad :: "sl_env \<Rightarrow> sl_effect list \<Rightarrow> nodeid \<Rightarrow> bool" where
  "isNodeBad env log n \<longleftrightarrow> sl_node_flags env log n AND NODE_FLAG_KNOWN_BAD \<noteq> 0"

definition isNodeSecure :: "sl_env \<Rightarrow> sl_effect list \<Rightarrow> nodeid \<Rightarrow> bool" where
  "isNodeSecure env log n \<longleftrightarrow> sl_node_flags env log n AND (NODE_FLAG_SECURITY0 OR NODE_FLAG_KNOWN_BAD) = NODE_FLAG_SECURITY0"

abbreviation upd_ctx :: "(Secure_learn \<Rightarrow> Secure_learn) \<Rightarrow> sl_state \<Rightarrow> sl_state" where
  "upd_ctx f s \<equiv> s \<lparr> ctx := f (ctx s) \<rparr>"

definition sl_emit :: "sl_effect \<Rightarrow> sl_state \<Rightarrow> sl_state" where
  "sl_emit e s = s \<lparr> sl_log := sl_log s @ [e] \<rparr>"

text \<open>The environment of the S0 module: the own node id and the state of the machine are those of this module.\<close>

definition sl_s0env :: "sl_env \<Rightarrow> sl_state \<Rightarrow> s0_env" where
  "sl_s0env env s = (ks_s0env (sl_ks env)) \<lparr> my_node := MyNodeID s, secure_learn_active := (\<lambda>_. stateConf (ctx s) \<noteq> Idle) \<rparr>"

definition set_key :: "sl_env \<Rightarrow> bytes \<Rightarrow> sl_state \<Rightarrow> sl_state" where
  "set_key env k s = s \<lparr> sl_store := (sl_store s) \<lparr> ks_s0 := sec0_set_key (ks_s0env (sl_ks env)) k (ks_s0 (sl_store s)) \<rparr> \<rparr>"

section \<open>Actions of the machine\<close>

definition secure_learn_setTimer :: "Secure_learnStates \<Rightarrow> sl_state \<Rightarrow> sl_state" where
  "secure_learn_setTimer evid s = s \<lparr> sl_timer := Some evid \<rparr>"

definition secure_learn_unsetTimer :: "sl_state \<Rightarrow> sl_state" where
  "secure_learn_unsetTimer s = s \<lparr> sl_timer := None \<rparr>"

text \<open>A frame is given to the sender; a refusal raises an event at once.\<close>

definition send_and_raise_ex :: "sl_env \<Rightarrow> bytes \<Rightarrow> sl_state \<Rightarrow> sl_state" where
  "send_and_raise_ex env frame s =
     (let s = sl_emit (Sl_send (cur_tsparm s) frame) s
      in if sl_send_ok env (sl_log s) then s else (upd_ctx (\<lambda>c. c \<lparr> tx_failed := True \<rparr>) s) \<lparr> sl_poll := True \<rparr>)"

definition send_and_raise :: "sl_env \<Rightarrow> int \<Rightarrow> bytes \<Rightarrow> int \<Rightarrow> security_scheme_t \<Rightarrow> sl_state \<Rightarrow> sl_state" where
  "send_and_raise env n frame txopt sch s =
     (let p = (ts_set_std (sl_s0env env s) (of_int n) (stack_param (ks_s0env (sl_ks env)))) \<lparr> ts_scheme := sch, tx_flags := of_int txopt \<rparr>;
          s = sl_emit (Sl_send p frame) s
      in if sl_send_ok env (sl_log s) then s else (upd_ctx (\<lambda>c. c \<lparr> tx_failed := True \<rparr>) s) \<lparr> sl_poll := True \<rparr>)"

definition security_save_state :: "sl_env \<Rightarrow> sl_state \<Rightarrow> sl_state option" where
  "security_save_state env s =
     (let st = (sl_store s) \<lparr> security_scheme := signed_take_bit 7 (iface_net_scheme (ctx s)) \<rparr>
      in map_option (\<lambda>st. s \<lparr> sl_store := st \<rparr>) (keystore_network_key_write (sl_ks env) KEY_CLASS_S0 (networkKey s) st))"

definition secure_learnIface_complete :: "sl_env \<Rightarrow> int \<Rightarrow> sl_state \<Rightarrow> sl_state" where
  "secure_learnIface_complete env scheme_mask s =
     (let flags = (if scheme_mask > 0 then NODE_FLAG_SECURITY0 else if scheme_mask < 0 then NODE_FLAG_KNOWN_BAD else 0);
          s = (if scheme_mask < 0 then set_key env (networkKey s) s else s)
      in (case sl_callback s of Some cb \<Rightarrow> sl_emit (Sl_complete cb flags) s | None \<Rightarrow> s))"

definition secure_learnIfaceL_send_scheme_report :: "sl_env \<Rightarrow> int \<Rightarrow> int \<Rightarrow> sl_state \<Rightarrow> sl_state" where
  "secure_learnIfaceL_send_scheme_report env n txopt s =
     send_and_raise env n [0x98, 0x05, 0] txopt (if iface_net_scheme (ctx s) = 0 then NO_SCHEME else SECURITY_SCHEME_0) s"

definition secure_learnIfaceL_set_inclusion_key :: "sl_env \<Rightarrow> sl_state \<Rightarrow> sl_state" where
  "secure_learnIfaceL_set_inclusion_key env s = set_key env (replicate 16 0) s"

definition secure_learnIfaceL_send_key_verify :: "sl_env \<Rightarrow> int \<Rightarrow> int \<Rightarrow> sl_state \<Rightarrow> sl_state" where
  "secure_learnIfaceL_send_key_verify env n txopt s = send_and_raise env n [0x98, 0x07] txopt SECURITY_SCHEME_0 s"

definition secure_learnIfaceI_send_scheme_get :: "sl_env \<Rightarrow> int \<Rightarrow> int \<Rightarrow> sl_state \<Rightarrow> sl_state" where
  "secure_learnIfaceI_send_scheme_get env n txopt s = send_and_raise env n [0x98, 0x04, 0] txopt NO_SCHEME s"

definition secure_learnIfaceI_send_key :: "sl_env \<Rightarrow> int \<Rightarrow> int \<Rightarrow> sl_state \<Rightarrow> sl_state" where
  "secure_learnIfaceI_send_key env n txopt s =
     send_and_raise env n ([0x98, 0x06] @ networkKey s) txopt SECURITY_SCHEME_0 (set_key env (replicate 16 0) s)"

definition secure_learnIfaceI_send_scheme_inherit :: "sl_env \<Rightarrow> int \<Rightarrow> int \<Rightarrow> sl_state \<Rightarrow> sl_state" where
  "secure_learnIfaceI_send_scheme_inherit env n txopt s = send_and_raise env n [0x98, 0x08, 0] txopt SECURITY_SCHEME_0 s"

definition secure_learnIfaceI_restore_key :: "sl_env \<Rightarrow> sl_state \<Rightarrow> sl_state" where
  "secure_learnIfaceI_restore_key env s = set_key env (networkKey s) s"

definition secure_learnIfaceI_register_scheme :: "int \<Rightarrow> int \<Rightarrow> sl_state \<Rightarrow> sl_state" where
  "secure_learnIfaceI_register_scheme n sch s =
     sl_emit (Sl_node_flag (of_int n) (if sch AND 1 \<noteq> 0 then NODE_FLAG_SECURITY0 else 0) NODE_FLAG_SECURITY0) s"

text \<open>The report is built in a buffer of 64 bytes; the room that is left is a byte.\<close>

definition secure_learnIface_send_commands_supported :: "sl_env \<Rightarrow> sl_state \<Rightarrow> sl_state option" where
  "secure_learnIface_send_commands_supported env s =
     (if snode (cur_tsparm s) = MyNodeID s \<and> gw_net_scheme env (sl_log s) = SECURITY_SCHEME_0
      then (let n = unat (secureCommandClassesListCount s);
                roomLeft = (61 - of_nat n :: u8); pan = length (SecureClassesPAN env);
                copyLen = (if pan < unat roomLeft then pan else unat roomLeft)
            in if 64 < 3 + n + copyLen then None
               else Some (send_and_raise_ex env ([0x98, 0x03, 0] @ take n (secureCommandClassesList s) @ take copyLen (SecureClassesPAN env)) s))
      else Some (send_and_raise_ex env [0x98, 0x03, 0] (s \<lparr> secureCommandClassesListCount := 0 \<rparr>)))"

section \<open>The state machine\<close>

definition secure_learn_clearInEvents :: "Secure_learn \<Rightarrow> Secure_learn" where
  "secure_learn_clearInEvents c = c \<lparr> learnRequest := False, inclusionRequest := None, commandsSupportedRequest := False, tx_done := False, tx_failed := False,
     scheme_get := None, scheme_inherit := None, key_set := None, scheme_report := None, key_verify := None, timeEvents := {} \<rparr>"

definition secure_learn_init :: "Secure_learn \<Rightarrow> Secure_learn" where
  "secure_learn_init c = (secure_learn_clearInEvents c) \<lparr> stateConf := Last_state, supported_schemes := 1, txOptions := 0, isController := False,
     iface_node := 0, iface_scheme := 0, iface_net_scheme := 0 \<rparr>"

definition secure_learn_enter :: "Secure_learn \<Rightarrow> Secure_learn" where
  "secure_learn_enter c = c \<lparr> stateConf := Idle \<rparr>"

definition sl_goto :: "Secure_learnStates \<Rightarrow> sl_state \<Rightarrow> sl_state" where
  "sl_goto st s = upd_ctx (\<lambda>c. c \<lparr> stateConf := st \<rparr>) s"

text \<open>Leaving a state with a timer stops the timer.\<close>

definition leave :: "sl_state \<Rightarrow> sl_state" where "leave s = sl_goto Last_state s"
definition leave_timed :: "sl_state \<Rightarrow> sl_state" where "leave_timed s = secure_learn_unsetTimer (leave s)"

definition secure_learn_exit :: "sl_state \<Rightarrow> sl_state" where
  "secure_learn_exit s =
     (case stateConf (ctx s) of
        LearnMode_Start \<Rightarrow> leave_timed s | LearnMode_Scheme_report \<Rightarrow> leave_timed s | LearnMode_NewKey \<Rightarrow> leave_timed s
      | InclusionMode_SchemeRequest \<Rightarrow> leave_timed s | InclusionMode_SendKey \<Rightarrow> leave_timed s | InclusionMode_SendInterit \<Rightarrow> leave_timed s
      | InclusionMode_waitVerify \<Rightarrow> leave_timed s | _ \<Rightarrow> leave s)"

definition enter_learn_fail :: "sl_state \<Rightarrow> sl_state" where
  "enter_learn_fail s = sl_goto LearnMode_Fail (upd_ctx (\<lambda>c. c \<lparr> iface_scheme := - 1 \<rparr>) s)"

definition enter_inclusion_fail :: "sl_state \<Rightarrow> sl_state" where
  "enter_inclusion_fail s =
     (let s = upd_ctx (\<lambda>c. c \<lparr> iface_scheme := - 1 \<rparr>) s
      in sl_goto InclusionMode_Fail (secure_learnIfaceI_register_scheme (iface_node (ctx s)) 0 s))"

definition react_LearnMode_Start :: "sl_env \<Rightarrow> sl_state \<Rightarrow> sl_state" where
  "react_LearnMode_Start env s =
     (case scheme_get (ctx s) of
        Some v \<Rightarrow>
          (let s = upd_ctx (\<lambda>c. c \<lparr> iface_node := v \<rparr>) (leave_timed s);
               s = secure_learn_setTimer LearnMode_Scheme_report s;
               s = secure_learnIfaceL_send_scheme_report env (iface_node (ctx s)) (txOptions (ctx s)) s;
               s = secure_learnIfaceL_set_inclusion_key env s;
               s = secure_learnIfaceI_register_scheme (iface_node (ctx s)) (iface_scheme (ctx s)) s
           in sl_goto LearnMode_Scheme_report s)
      | None \<Rightarrow>
          (if LearnMode_Start \<in> timeEvents (ctx s)
           then (let s = leave_timed s
                 in if isController (ctx s) then sl_goto LearnMode_InsecureNet (upd_ctx (\<lambda>c. c \<lparr> iface_scheme := 0 \<rparr>) s)
                    else sl_goto LearnMode_end s)
           else s))"

definition react_LearnMode_Scheme_report :: "sl_env \<Rightarrow> sl_state \<Rightarrow> sl_state" where
  "react_LearnMode_Scheme_report env s =
     (if key_set (ctx s) = Some (iface_node (ctx s))
      then (let s = secure_learn_setTimer LearnMode_NewKey (leave_timed s);
                s = secure_learnIfaceL_send_key_verify env (iface_node (ctx s)) (txOptions (ctx s)) s
            in sl_goto LearnMode_NewKey (upd_ctx (\<lambda>c. c \<lparr> iface_net_scheme := iface_scheme c AND supported_schemes c \<rparr>) s))
      else if LearnMode_Scheme_report \<in> timeEvents (ctx s) \<or> tx_failed (ctx s) then enter_learn_fail (leave_timed s)
      else if tx_done (ctx s) \<and> iface_scheme (ctx s) AND supported_schemes (ctx s) = 0 then enter_learn_fail (leave_timed s)
      else s)"

definition react_LearnMode_NewKey :: "sl_env \<Rightarrow> sl_state \<Rightarrow> sl_state" where
  "react_LearnMode_NewKey env s =
     (if tx_done (ctx s) \<and> \<not> isController (ctx s) then sl_goto LearnMode_end (leave_timed s)
      else if LearnMode_NewKey \<in> timeEvents (ctx s) \<or> tx_failed (ctx s) then enter_learn_fail (leave_timed s)
      else if scheme_inherit (ctx s) = Some (iface_node (ctx s)) \<and> isController (ctx s)
      then (let s = leave_timed s
            in sl_goto LearnMode_Inherited (secure_learnIfaceL_send_scheme_report env (iface_node (ctx s)) (txOptions (ctx s)) s))
      else s)"

definition react_LearnMode_Inherited :: "sl_state \<Rightarrow> sl_state" where
  "react_LearnMode_Inherited s =
     (if tx_done (ctx s) then sl_goto LearnMode_end (leave s) else if tx_failed (ctx s) then enter_learn_fail (leave s) else s)"

definition react_LearnMode_end :: "sl_env \<Rightarrow> sl_state \<Rightarrow> sl_state option" where
  "react_LearnMode_end env s =
     map_option (\<lambda>s. sl_goto Complete (secure_learnIface_complete env (iface_scheme (ctx s)) s))
       (security_save_state env (upd_ctx (\<lambda>c. c \<lparr> iface_net_scheme := iface_scheme c \<rparr>) (leave s)))"

definition react_Idle :: "sl_env \<Rightarrow> sl_state \<Rightarrow> sl_state option" where
  "react_Idle env s =
     (if learnRequest (ctx s)
      then Some (sl_goto LearnMode_Start (upd_ctx (\<lambda>c. c \<lparr> iface_net_scheme := 0 \<rparr>) (secure_learn_setTimer LearnMode_Start (leave s))))
      else (case inclusionRequest (ctx s) of
              Some v \<Rightarrow>
                (let s = secure_learn_setTimer InclusionMode_SchemeRequest (upd_ctx (\<lambda>c. c \<lparr> iface_node := v \<rparr>) (leave s))
                 in Some (sl_goto InclusionMode_SchemeRequest (secure_learnIfaceI_send_scheme_get env (iface_node (ctx s)) (txOptions (ctx s)) s)))
            | None \<Rightarrow>
                (if commandsSupportedRequest (ctx s)
                 then map_option (sl_goto SendReport) (secure_learnIface_send_commands_supported env (leave s)) else Some s)))"

definition react_InclusionMode_SchemeRequest :: "sl_env \<Rightarrow> sl_state \<Rightarrow> sl_state" where
  "react_InclusionMode_SchemeRequest env s =
     (if scheme_report (ctx s) = Some (iface_node (ctx s))
      then (let s = leave_timed s
            in if iface_scheme (ctx s) AND 1 > 0
               then (let s = secure_learnIfaceI_register_scheme (iface_node (ctx s)) (iface_scheme (ctx s)) s;
                         s = secure_learn_setTimer InclusionMode_SendKey s
                     in sl_goto InclusionMode_SendKey (secure_learnIfaceI_send_key env (iface_node (ctx s)) (txOptions (ctx s)) s))
               else enter_inclusion_fail s)
      else if InclusionMode_SchemeRequest \<in> timeEvents (ctx s) \<or> tx_failed (ctx s) then enter_inclusion_fail (leave_timed s)
      else s)"

definition react_InclusionMode_SendKey :: "sl_env \<Rightarrow> sl_state \<Rightarrow> sl_state" where
  "react_InclusionMode_SendKey env s =
     (if tx_failed (ctx s) \<or> InclusionMode_SendKey \<in> timeEvents (ctx s) then enter_inclusion_fail (leave_timed s)
      else if tx_done (ctx s)
      then sl_goto InclusionMode_waitVerify (secure_learnIfaceI_restore_key env (secure_learn_setTimer InclusionMode_waitVerify (leave_timed s)))
      else s)"

definition react_InclusionMode_SendInterit :: "sl_state \<Rightarrow> sl_state" where
  "react_InclusionMode_SendInterit s =
     (if InclusionMode_SendInterit \<in> timeEvents (ctx s) \<or> tx_failed (ctx s) then enter_inclusion_fail (leave_timed s)
      else if scheme_report (ctx s) = Some (iface_node (ctx s))
      then (let s = leave_timed s; s = secure_learnIfaceI_register_scheme (iface_node (ctx s)) (iface_scheme (ctx s)) s
            in if iface_scheme (ctx s) AND 1 > 0 then sl_goto InclusionMode_end s else enter_inclusion_fail s)
      else s)"

definition react_InclusionMode_end :: "sl_env \<Rightarrow> sl_state \<Rightarrow> sl_state" where
  "react_InclusionMode_end env s = (let s = leave s in sl_goto Complete (secure_learnIface_complete env (iface_scheme (ctx s)) s))"

definition react_InclusionMode_waitVerify :: "sl_env \<Rightarrow> sl_state \<Rightarrow> sl_state" where
  "react_InclusionMode_waitVerify env s =
     (if key_verify (ctx s) = Some (iface_node (ctx s))
      then (let s = leave_timed s
            in if isController (ctx s)
               then (let s = secure_learn_setTimer InclusionMode_SendInterit s
                     in sl_goto InclusionMode_SendInterit (secure_learnIfaceI_send_scheme_inherit env (iface_node (ctx s)) (txOptions (ctx s)) s))
               else sl_goto InclusionMode_end (secure_learnIfaceI_register_scheme (iface_node (ctx s)) (iface_scheme (ctx s)) s))
      else if InclusionMode_waitVerify \<in> timeEvents (ctx s) then enter_inclusion_fail (leave_timed s)
      else s)"

definition react_SendReport :: "sl_state \<Rightarrow> sl_state" where
  "react_SendReport s = (if tx_done (ctx s) \<or> tx_failed (ctx s) then sl_goto Idle (leave s) else s)"

definition secure_learn_react :: "sl_env \<Rightarrow> sl_state \<Rightarrow> sl_state option" where
  "secure_learn_react env s =
     (case stateConf (ctx s) of
        LearnMode_Start \<Rightarrow> Some (react_LearnMode_Start env s)
      | LearnMode_Scheme_report \<Rightarrow> Some (react_LearnMode_Scheme_report env s)
      | LearnMode_Fail \<Rightarrow> Some (sl_goto LearnMode_end (leave s))
      | LearnMode_NewKey \<Rightarrow> Some (react_LearnMode_NewKey env s)
      | LearnMode_Inherited \<Rightarrow> Some (react_LearnMode_Inherited s)
      | LearnMode_InsecureNet \<Rightarrow> Some (sl_goto LearnMode_end (leave s))
      | LearnMode_end \<Rightarrow> react_LearnMode_end env s
      | Idle \<Rightarrow> react_Idle env s
      | InclusionMode_SchemeRequest \<Rightarrow> Some (react_InclusionMode_SchemeRequest env s)
      | InclusionMode_SendKey \<Rightarrow> Some (react_InclusionMode_SendKey env s)
      | InclusionMode_SendInterit \<Rightarrow> Some (react_InclusionMode_SendInterit s)
      | InclusionMode_Fail \<Rightarrow> Some (sl_goto InclusionMode_end (leave s))
      | InclusionMode_end \<Rightarrow> Some (react_InclusionMode_end env s)
      | InclusionMode_waitVerify \<Rightarrow> Some (react_InclusionMode_waitVerify env s)
      | Complete \<Rightarrow> Some (sl_goto Idle (leave s))
      | SendReport \<Rightarrow> Some (react_SendReport s)
      | Final \<Rightarrow> Some s
      | Last_state \<Rightarrow> Some s)"

definition secure_learn_runCycle :: "sl_env \<Rightarrow> sl_state \<Rightarrow> sl_state option" where
  "secure_learn_runCycle env s = map_option (upd_ctx secure_learn_clearInEvents) (secure_learn_react env s)"

definition secure_learn_raiseTimeEvent :: "Secure_learnStates \<Rightarrow> Secure_learn \<Rightarrow> Secure_learn" where
  "secure_learn_raiseTimeEvent evid c = c \<lparr> timeEvents := insert evid (timeEvents c) \<rparr>"

definition secure_learn_isActive :: "Secure_learn \<Rightarrow> Secure_learnStates \<Rightarrow> bool" where
  "secure_learn_isActive c st \<longleftrightarrow> st \<noteq> Last_state \<and> stateConf c = st"

section \<open>The rest of the security layer\<close>

text \<open>The process runs cycles until the state no longer changes; \<open>prev\<close> is the state before the last cycle.\<close>

partial_function (option) secure_poll_loop :: "sl_env \<Rightarrow> Secure_learnStates option \<Rightarrow> sl_state \<Rightarrow> sl_state option" where
  "secure_poll_loop env prev s =
     (if prev = Some (stateConf (ctx s)) then Some s
      else Option.bind (secure_learn_runCycle env s) (secure_poll_loop env (Some (stateConf (ctx s)))))"

definition secure_poll :: "sl_env \<Rightarrow> sl_state \<Rightarrow> sl_state option" where
  "secure_poll env s = secure_poll_loop env None s"

definition process_poll :: "sl_state \<Rightarrow> sl_state" where "process_poll s = s \<lparr> sl_poll := True \<rparr>"

definition send_data_callback :: "u8 \<Rightarrow> sl_state \<Rightarrow> sl_state" where
  "send_data_callback status s =
     process_poll (if status = TRANSMIT_COMPLETE_OK then upd_ctx (\<lambda>c. c \<lparr> tx_done := True \<rparr>) s else upd_ctx (\<lambda>c. c \<lparr> tx_failed := True \<rparr>) s)"

definition sl_timeout :: "Secure_learnStates \<Rightarrow> sl_state \<Rightarrow> sl_state" where
  "sl_timeout evid s = process_poll (upd_ctx (secure_learn_raiseTimeEvent evid) s)"

definition security_load_state :: "sl_env \<Rightarrow> sl_state \<Rightarrow> sl_state option" where
  "security_load_state env s =
     map_option (\<lambda>k.
       (let s = (case k of Some key \<Rightarrow> s \<lparr> networkKey := key \<rparr> | None \<Rightarrow> s);
            s = upd_ctx (\<lambda>c. c \<lparr> iface_net_scheme := security_scheme (sl_store s) \<rparr>) s;
            s = set_key env (networkKey s) s
        in s \<lparr> sl_assigned_keys := assigned_keys (sl_store s) \<rparr>)) (keystore_network_key_read KEY_CLASS_S0 (sl_store s))"

definition security_init :: "sl_env \<Rightarrow> sl_state \<Rightarrow> sl_state option" where
  "security_init env s =
     (let s = upd_ctx (\<lambda>c. secure_learn_enter (secure_learn_init c)) s
      in Option.bind (if suc_node env = MyNodeID s then keystore_network_generate_key_if_missing (sl_ks env) (sl_store s) else Some (sl_store s)) (\<lambda>st.
           security_load_state env (s \<lparr> sl_store := st \<lparr> ks_s0 := sec0_init (ks_s0 st) \<rparr> \<rparr>)))"

definition security_set_supported_classes :: "bytes \<Rightarrow> u8 \<Rightarrow> sl_state \<Rightarrow> sl_state" where
  "security_set_supported_classes cl n s = s \<lparr> secureCommandClassesList := cl, secureCommandClassesListCount := n \<rparr>"

text \<open>Reading the random device gives a key or, after a short read, some of its bytes.\<close>

definition dev_urandom :: "sl_env \<Rightarrow> nat \<Rightarrow> bytes \<Rightarrow> bool \<times> bytes" where
  "dev_urandom env k buf = (let b = take (length buf) (urandom_read env k) in (length b = length buf, b @ drop (length b) buf))"

fun urandom_attempts :: "sl_env \<Rightarrow> nat \<Rightarrow> sl_state \<Rightarrow> bool \<times> sl_state" where
  "urandom_attempts env 0 s = (False, s)"
| "urandom_attempts env (Suc n) s =
     (let (success, key) = dev_urandom env (urandom_draws s) (networkKey s);
          s = s \<lparr> networkKey := key, urandom_draws := urandom_draws s + 1 \<rparr>
      in if success then (True, s) else urandom_attempts env n s)"

text \<open>Twelve attempts; when all fail the gateway goes on with the key as it is.\<close>

definition sec0_reset_netkey :: "sl_env \<Rightarrow> sl_state \<Rightarrow> sl_state" where
  "sec0_reset_netkey env s =
     (let (success, s) = urandom_attempts env 12 s
      in if success then s \<lparr> sl_store := (sl_store s) \<lparr> security_netkey := networkKey s \<rparr> \<rparr> else s)"

definition security_set_default :: "sl_env \<Rightarrow> sl_state \<Rightarrow> sl_state option" where
  "security_set_default env s =
     (let s = (if is_controller_library env then sec0_reset_netkey env s else s)
      in Option.bind (security_save_state env (upd_ctx (\<lambda>c. c \<lparr> iface_net_scheme := (if is_controller_library env then supported_schemes c else 0) \<rparr>) s))
           (security_init env))"

definition is_sec0_key_granted :: "sl_state \<Rightarrow> bool" where
  "is_sec0_key_granted s \<longleftrightarrow> sec2_get_my_node_flags (sl_store s) AND NODE_FLAG_SECURITY0 \<noteq> 0"

definition security_learn_begin :: "sl_env \<Rightarrow> nat option \<Rightarrow> sl_state \<Rightarrow> sl_state" where
  "security_learn_begin env cb s =
     (if secure_learn_isActive (ctx s) Idle
      then process_poll (upd_ctx (\<lambda>c. c \<lparr> isController := is_controller_library env, learnRequest := True \<rparr>) (s \<lparr> sl_callback := cb \<rparr>))
      else s)"

text \<open>The node id is a byte.\<close>

definition security_add_begin :: "sl_env \<Rightarrow> u8 \<Rightarrow> u8 \<Rightarrow> bool \<Rightarrow> nat option \<Rightarrow> sl_state \<Rightarrow> bool \<times> sl_state" where
  "security_add_begin env n txopt controller cb s =
     (if secure_learn_isActive (ctx s) Idle \<and> \<not> isNodeSecure env (sl_log s) (ucast n)
      then (True, process_poll (upd_ctx (\<lambda>c. c \<lparr> isController := controller, txOptions := uint txopt, inclusionRequest := Some (uint n) \<rparr>) (s \<lparr> sl_callback := cb \<rparr>)))
      else (False, s))"

definition secure_learn_active_sl :: "sl_state \<Rightarrow> bool" where
  "secure_learn_active_sl s \<longleftrightarrow> \<not> secure_learn_isActive (ctx s) Idle"

definition sec0_abort_inclusion :: "sl_state \<Rightarrow> sl_state" where
  "sec0_abort_inclusion s =
     (if \<not> secure_learn_isActive (ctx s) Idle
      then secure_learn_unsetTimer (upd_ctx (\<lambda>c. secure_learn_enter (secure_learn_init c)) s)
      else s)"

section \<open>The handler of the security command class\<close>

definition lift_s0 :: "(s0_state \<Rightarrow> s0_state option) \<Rightarrow> sl_state \<Rightarrow> sl_state option" where
  "lift_s0 f s = map_option (\<lambda>z. s \<lparr> sl_store := (sl_store s) \<lparr> ks_s0 := z \<rparr> \<rparr>) (f (ks_s0 (sl_store s)))"

text \<open>An encrypted frame: the decrypted command goes to the application, and the sender may be given another nonce.\<close>

definition s0_encapsulated :: "sl_env \<Rightarrow> ts_param_t \<Rightarrow> bytes \<Rightarrow> u8 \<Rightarrow> sl_state \<Rightarrow> sl_state option" where
  "s0_encapsulated env p pCmd cmdLength s =
     (let (len, rxBuffer, z) = sec0_decrypt_message (sl_s0env env s) (ucast (snode p)) (ucast (dnode p)) pCmd cmdLength (ks_s0 (sl_store s));
          s = s \<lparr> sl_store := (sl_store s) \<lparr> ks_s0 := z \<rparr> \<rparr>;
          s = (if len \<noteq> 0 \<and> \<not> isNodeSecure env (sl_log s) (snode p) then secure_learnIfaceI_register_scheme (uint (snode p)) (push_bit 7 1) s else s);
          p = (if len \<noteq> 0 then p \<lparr> ts_scheme := SECURITY_SCHEME_0 \<rparr> else p);
          s = (if len \<noteq> 0 then sl_emit (Sl_command p rxBuffer) s else s)
      in if pCmd ! 1 = 0xC1 then lift_s0 (sec0_send_nonce (sl_s0env env s) p) s else Some s)"

definition security_command :: "sl_env \<Rightarrow> ts_param_t \<Rightarrow> bytes \<Rightarrow> u8 \<Rightarrow> sl_state \<Rightarrow> sl_state option" where
  "security_command env p pCmd cmdLength s =
     (let cmd = pCmd ! 1; from = uint (snode p);
          opt = uint ((if rx_flags p AND RECEIVE_STATUS_LOW_POWER \<noteq> 0 then TRANSMIT_OPTION_LOW_POWER else 0) OR TRANSMIT_OPTION_ACK OR TRANSMIT_OPTION_EXPLORE)
      in if cmd = 0x06 then
           Some (if ts_scheme p = SECURITY_SCHEME_0 \<and> secure_learn_isActive (ctx s) LearnMode_Scheme_report \<and> 18 \<le> cmdLength
                 then (let s = s \<lparr> networkKey := take 16 (drop 2 pCmd) \<rparr>
                       in upd_ctx (\<lambda>c. c \<lparr> txOptions := opt, key_set := Some from \<rparr>) (set_key env (networkKey s) s)) else s)
         else if cmd = 0x04 then
           (let s = (sl_emit Sl_s0_started s) \<lparr> MyNodeID := dnode p \<rparr>
            in Some (if ts_scheme p = NO_SCHEME \<and> 3 \<le> cmdLength
                     then upd_ctx (\<lambda>c. c \<lparr> iface_scheme := uint ((pCmd ! 2 AND 0xFE) OR 1), txOptions := opt, scheme_get := Some from \<rparr>) s else s))
         else if cmd = 0x08 then
           Some (if ts_scheme p = SECURITY_SCHEME_0 \<and> 3 \<le> cmdLength \<and> pCmd ! 2 AND 1 = 0
                 then upd_ctx (\<lambda>c. c \<lparr> txOptions := opt, scheme_inherit := Some from \<rparr>) s else s)
         else if cmd = 0x05 then
           Some (if (ts_scheme p = SECURITY_SCHEME_0 \<or> secure_learn_isActive (ctx s) InclusionMode_SchemeRequest) \<and> 3 \<le> cmdLength
                 then upd_ctx (\<lambda>c. c \<lparr> iface_scheme := uint ((pCmd ! 2 AND 0xFE) OR 1), scheme_report := Some from \<rparr>) s else s)
         else if cmd = 0x07 then
           Some (if ts_scheme p = SECURITY_SCHEME_0 then upd_ctx (\<lambda>c. c \<lparr> key_verify := Some from \<rparr>) s else s)
         else if cmd = 0x02 then
           Some (if ts_scheme p = SECURITY_SCHEME_0
                 then upd_ctx (\<lambda>c. c \<lparr> commandsSupportedRequest := True \<rparr>) (s \<lparr> cur_tsparm := ts_param_make_reply (sl_s0env env s) (cur_tsparm s) p \<rparr>) else s)
         else if cmd = 0x40 then (if ts_scheme p = NO_SCHEME then lift_s0 (sec0_send_nonce (sl_s0env env s) p) s else Some s)
         else if cmd = 0x80 then
           (if ts_scheme p = NO_SCHEME \<and> 10 \<le> cmdLength
            then lift_s0 (sec0_register_nonce (sl_s0env env s) (ucast (snode p)) (ucast (dnode p)) (take 8 (drop 2 pCmd))) s else Some s)
         else if cmd = 0xC1 \<or> cmd = 0x81 then s0_encapsulated env p pCmd cmdLength s
         else Some s)"

definition security_CommandHandler :: "sl_env \<Rightarrow> ts_param_t \<Rightarrow> bytes \<Rightarrow> u8 \<Rightarrow> sl_state \<Rightarrow> sl_state option" where
  "security_CommandHandler env p pCmd cmdLength s =
     (if pCmd ! 0 \<noteq> 0x98 \<and> dnode p \<noteq> MyNodeID s then Some s
      else if secure_learn_isActive (ctx s) Idle \<and> sl_assigned_keys s AND KEY_CLASS_S0 = 0 then Some s
      else if pCmd ! 1 \<in> {0xC1, 0x81} \<and> secure_learn_isActive (ctx s) Idle \<and> (isNodeBad env (sl_log s) (dnode p) \<or> isNodeBad env (sl_log s) (snode p)) then Some s
      else map_option process_poll (security_command env p pCmd cmdLength s))"

end
