(* ===== verification/S0_Correct.thy ===== *)
theory S0_Correct
  imports S0_Layer
begin

text \<open>
  What the security scheme 0 of \<^verbatim>\<open>S0_Layer\<close> guarantees for every block cipher: that what one side encrypts the other decrypts, that
  a nonce serves for one message only, that messages fit their buffers; and where it goes wrong.
\<close>

unbundle bit_operations_syntax

section \<open>The cipher modes\<close>

lemma length_ofb_loop [simp]: "length (ofb_loop E iv i ds) = length ds"
  by (induction ds arbitrary: iv i) (simp_all add: Let_def)

lemma length_aes_ofb [simp]: "length (aes_ofb E iv ds) = length ds"
  by (simp add: aes_ofb_def)

lemma xor_twice: "(x XOR y) XOR y = (x :: u8)"
  by (simp add: xor.assoc)

text \<open>Output feedback is its own inverse.\<close>

lemma ofb_loop_twice: "ofb_loop E iv i (ofb_loop E iv i ds) = ds"
  by (induction ds arbitrary: iv i) (simp_all add: Let_def xor_twice)

lemma aes_ofb_twice [simp]: "aes_ofb E iv (aes_ofb E iv ds) = ds"
  by (simp add: aes_ofb_def ofb_loop_twice)

lemma length_cbc_mac_loop:
  "\<forall>b. length (E b) = 16 \<Longrightarrow> length mac = 16 \<Longrightarrow> length (cbc_mac_loop E mac i ds) = 16"
  by (induction ds arbitrary: mac i) (simp_all add: Let_def)

lemma length_aes_cbc_mac: "\<forall>b. length (E b) = 16 \<Longrightarrow> length (aes_cbc_mac E iv ds) = 16"
  by (simp add: aes_cbc_mac_def Let_def length_cbc_mac_loop)

section \<open>Nonces\<close>

definition no_nonces :: "u8 \<Rightarrow> u8 \<Rightarrow> nonce_t list \<Rightarrow> bool" where
  "no_nonces src dst tab \<longleftrightarrow> (\<forall>e \<in> set tab. \<not> nonce_of src dst e)"

lemma get_nonce_none: "no_nonces src dst tab \<Longrightarrow> get_nonce src dst ri any tab = None"
  by (auto simp: get_nonce_def no_nonces_def find_None_iff)

lemma nonce_clear_none: "no_nonces src dst (nonce_clear src dst tab)"
proof -
  have "\<not> nonce_of src dst (e \<lparr> nc_timeout := 0 \<rparr>)" for e
    by (simp add: nonce_of_def)
  then show ?thesis by (auto simp: no_nonces_def nonce_clear_def)
qed

lemma length_nonce_clear [simp]: "length (nonce_clear src dst tab) = length tab"
  by (simp add: nonce_clear_def)

lemma get_nonce_mem: "get_nonce src dst ri any tab = Some n \<Longrightarrow> \<exists>e \<in> set tab. nonce_of src dst e \<and> nc_bytes e = n \<and> (any \<or> n ! 0 = ri)"
  unfolding get_nonce_def by (auto simp: find_Some_iff)

text \<open>A nonce that is the only one of its pair is the one that is found.\<close>

definition only_nonce :: "u8 \<Rightarrow> u8 \<Rightarrow> bytes \<Rightarrow> nonce_t list \<Rightarrow> bool" where
  "only_nonce src dst n tab \<longleftrightarrow> (\<exists>e \<in> set tab. nonce_of src dst e) \<and> (\<forall>e \<in> set tab. nonce_of src dst e \<longrightarrow> nc_bytes e = n)"

lemma get_only_nonce: "only_nonce src dst n tab \<Longrightarrow> get_nonce src dst ri any tab = (if any \<or> n ! 0 = ri then Some n else None)"
proof -
  assume a: "only_nonce src dst n tab"
  let ?P = "\<lambda>e. nonce_of src dst e \<and> (any \<or> nc_bytes e ! 0 = ri)"
  show ?thesis
  proof (cases "List.find ?P tab")
    case None
    then show ?thesis using a by (auto simp: get_nonce_def only_nonce_def find_None_iff)
  next
    case (Some e)
    then have "e \<in> set tab" "?P e" by (auto simp: find_Some_iff)
    then show ?thesis using a Some by (auto simp: get_nonce_def only_nonce_def)
  qed
qed

text \<open>Registering a nonce when there is room.\<close>

definition nonce_room :: "nonce_t list \<Rightarrow> bool" where
  "nonce_room tab \<longleftrightarrow> (\<exists>e \<in> set tab. nc_timeout e = 0)"

lemma register_only:
  assumes "no_nonces src dst tab" and "nonce_room tab"
  shows "only_nonce src dst n (snd (register_nonce src dst r n tab))" "fst (register_nonce src dst r n tab)"
proof -
  have f: "find_idx (\<lambda>e. nc_reply e \<and> nonce_of src dst e) tab = None" using assms(1) by (auto simp: find_idx_None_iff no_nonces_def)
  have "find_idx (\<lambda>e. nc_timeout e = 0) tab \<noteq> None" using assms(2) by (auto simp: find_idx_None_iff nonce_room_def)
  then obtain i where i: "find_idx (\<lambda>e. nc_timeout e = 0) tab = Some i" by blast
  then have il: "i < length tab" by (auto simp: find_idx_Some_iff)
  let ?e = "\<lparr> nc_src = src, nc_dst = dst, nc_timeout = NONCE_TIMEOUT, nc_reply = r, nc_bytes = n \<rparr>"
  have r: "register_nonce src dst r n tab = (True, tab[i := ?e])" using f i by (simp add: register_nonce_def)
  have "nonce_of src dst ?e" by (simp add: nonce_of_def NONCE_TIMEOUT_def)
  moreover have "?e \<in> set (tab[i := ?e])" using il by (rule set_update_memI)
  moreover have "\<forall>e \<in> set (tab[i := ?e]). e = ?e \<or> e \<in> set tab" using set_update_subset_insert [of tab i ?e] by auto
  ultimately show "only_nonce src dst n (snd (register_nonce src dst r n tab))" "fst (register_nonce src dst r n tab)"
    using assms(1) unfolding r only_nonce_def no_nonces_def by auto
qed

text \<open>Clearing and registering for one pair does not touch another.\<close>

lemma register_other:
  assumes "(src, dst) \<noteq> (x, y)"
  shows "no_nonces x y tab \<Longrightarrow> no_nonces x y (snd (register_nonce src dst r n tab))"
    "only_nonce x y m tab \<Longrightarrow> only_nonce x y m (snd (register_nonce src dst r n tab))"
proof -
  let ?t = "snd (register_nonce src dst r n tab)"
  have "length ?t = length tab \<and> (\<forall>i < length tab. (nonce_of x y (?t ! i) \<longleftrightarrow> nonce_of x y (tab ! i)) \<and> (nonce_of x y (tab ! i) \<longrightarrow> ?t ! i = tab ! i))"
    using assms unfolding register_nonce_def
    by (auto simp: find_idx_Some_iff nonce_of_def upd_idx_def nth_list_update_if NONCE_TIMEOUT_def split: option.splits)
  then show "no_nonces x y tab \<Longrightarrow> no_nonces x y ?t" "only_nonce x y m tab \<Longrightarrow> only_nonce x y m ?t"
    unfolding no_nonces_def only_nonce_def by (force simp: all_set_conv_all_nth in_set_conv_nth)+
qed

lemma clear_other: "(src, dst) \<noteq> (x, y) \<Longrightarrow> no_nonces x y tab \<Longrightarrow> no_nonces x y (nonce_clear src dst tab)"
  by (auto simp: no_nonces_def nonce_clear_def nonce_of_def)

text \<open>The random bytes: the generator does not stay at one first byte for ever.\<close>

definition prng_ok :: "s0_env \<Rightarrow> bool" where
  "prng_ok env \<longleftrightarrow> (\<forall>k. length (PRNGOutput env k) = 8) \<and> (\<forall>c k. \<exists>j \<ge> k. PRNGOutput env j ! 0 \<noteq> c)"

lemma fresh_nonce_none: "no_nonces src dst tab \<Longrightarrow> fresh_nonce env src dst tab k = Some (PRNGOutput env k, k + 1)"
  by (simp add: fresh_nonce.simps [of env src dst tab k] get_nonce_none Let_def)

lemma fresh_nonce_only:
  assumes "prng_ok env" and "only_nonce src dst n tab"
  shows "\<exists>rnd k'. fresh_nonce env src dst tab k = Some (rnd, k') \<and> length rnd = 8 \<and> rnd ! 0 \<noteq> n ! 0"
proof -
  obtain j where j: "j \<ge> k" "PRNGOutput env j ! 0 \<noteq> n ! 0" using assms(1) unfolding prng_ok_def by blast
  then show ?thesis
  proof (induction "j - k" arbitrary: k)
    case 0
    then have "k = j" by simp
    then show ?case using 0 assms by (subst fresh_nonce.simps) (simp add: get_only_nonce prng_ok_def Let_def)
  next
    case (Suc d)
    show ?case
    proof (cases "PRNGOutput env k ! 0 = n ! 0")
      case True
      have "fresh_nonce env src dst tab k = fresh_nonce env src dst tab (k + 1)"
        using True assms(2) by (subst fresh_nonce.simps) (simp add: get_only_nonce Let_def)
      moreover have "d = j - (k + 1)" "k + 1 \<le> j" using Suc.hyps(2) by simp_all
      ultimately show ?thesis using Suc.hyps(1) [of "k + 1"] Suc.prems by simp
    next
      case False
      then show ?thesis using assms by (subst fresh_nonce.simps) (simp add: get_only_nonce prng_ok_def Let_def)
    qed
  qed
qed

section \<open>Receiving a frame\<close>

text \<open>The session that receives from a pair of nodes, in its state after the frame is assigned to it.\<close>

definition rx_session_for :: "u8 \<Rightarrow> u8 \<Rightarrow> s0_state \<Rightarrow> (nat \<times> s0_state) option" where
  "rx_session_for sn dn s =
     (case get_rx_session_by_nodes sn dn s of
        Some i \<Rightarrow> Some (i, s)
      | None \<Rightarrow> map_option (\<lambda>(i, s). (i, s \<lparr> rxsessions := upd_idx i (\<lambda>e. e \<lparr> rx_state := RX_INIT \<rparr>) (rxsessions s) \<rparr>)) (new_rx_session sn dn s))"

text \<open>What a decrypted part of a message does to its session.\<close>

definition rx_part :: "nat \<Rightarrow> u8 \<Rightarrow> u8 \<Rightarrow> bytes \<Rightarrow> s0_state \<Rightarrow> u8 \<times> bytes \<times> s0_state" where
  "rx_part i n flags body s =
     (let e = rxsessions s ! i
      in if flags AND 0x10 \<noteq> 0 then
           (if flags AND 0x20 = 0 then
              (0, [], s \<lparr> rxsessions := upd_idx i (\<lambda>e. e \<lparr> rx_seq_nr := flags AND 0xF, rx_msg_len := n - 20,
                  rx_state := RX_ENC1, rx_msg := body @ drop (length body) (rx_msg e) \<rparr>) (rxsessions s) \<rparr>)
            else if rx_state e \<noteq> RX_ENC1 \<or> flags AND 0xF \<noteq> rx_seq_nr e then (0, [], s)
            else (rx_msg_len e + n - 20, take (unat (rx_msg_len e)) (rx_msg e) @ body, free_rx_session i s))
         else (n - 20, body, free_rx_session i s))"

definition tag_ok :: "s0_env \<Rightarrow> u8 \<Rightarrow> u8 \<Rightarrow> bytes \<Rightarrow> nat \<Rightarrow> bytes \<Rightarrow> s0_state \<Rightarrow> bool" where
  "tag_ok env sn dn f n nonce s \<longleftrightarrow>
     take 8 (aes_cbc_mac (AES128 env (authkey s)) (take 8 (drop 2 f) @ nonce) (auth_data (f ! 1) sn dn (n - 19) @ take (n - 19) (drop 10 f)))
       = take 8 (drop (n - 8) f)"

text \<open>A frame is dropped, or its tag is right under one of the nonces sent to that node and its parts are decrypted.\<close>

lemma decrypt_cases:
  fixes n :: u8
  obtains "sec0_decrypt_message env sn dn f n s = (0, [], s)" "get_nonce dn sn (f ! (unat n - 9)) False (nonce_table s) = None \<or> n < 20 \<or> 128 < unat n - 20"
  | nonce t where "\<not> n < 20" "unat n - 20 \<le> 128" "get_nonce dn sn (f ! (unat n - 9)) False (nonce_table s) = Some nonce"
      "t = s \<lparr> nonce_table := nonce_clear dn sn (nonce_table s) \<rparr>" "sec0_decrypt_message env sn dn f n s = (0, [], t)" "rx_session_for sn dn t = None"
  | nonce t i u where "\<not> n < 20" "unat n - 20 \<le> 128" "get_nonce dn sn (f ! (unat n - 9)) False (nonce_table s) = Some nonce"
      "t = s \<lparr> nonce_table := nonce_clear dn sn (nonce_table s) \<rparr>" "rx_session_for sn dn t = Some (i, u)"
      "sec0_decrypt_message env sn dn f n s = (0, [], u)"
      "(rx_state (rxsessions u ! i) \<noteq> RX_INIT \<and> 128 < unat (rx_msg_len (rxsessions u ! i)) + unat n - 20) \<or> \<not> tag_ok env sn dn f (unat n) nonce u"
  | nonce t i u plain where "\<not> n < 20" "unat n - 20 \<le> 128" "get_nonce dn sn (f ! (unat n - 9)) False (nonce_table s) = Some nonce"
      "t = s \<lparr> nonce_table := nonce_clear dn sn (nonce_table s) \<rparr>" "rx_session_for sn dn t = Some (i, u)"
      "\<not> (rx_state (rxsessions u ! i) \<noteq> RX_INIT \<and> 128 < unat (rx_msg_len (rxsessions u ! i)) + unat n - 20)"
      "tag_ok env sn dn f (unat n) nonce u"
      "plain = aes_ofb (AES128 env (enckey u)) (take 8 (drop 2 f) @ nonce) (take (unat n - 19) (drop 10 f))"
      "sec0_decrypt_message env sn dn f n s = rx_part i n (plain ! 0) (take (unat n - 20) (drop 1 plain)) u"
proof -
  let ?g = "get_nonce dn sn (f ! (unat n - 9)) False (nonce_table s)" and ?t = "s \<lparr> nonce_table := nonce_clear dn sn (nonce_table s) \<rparr>"
  consider "n < 20 \<or> 128 < unat n - 20" | "\<not> n < 20" "unat n - 20 \<le> 128" "?g = None" | nonce where "\<not> n < 20" "unat n - 20 \<le> 128" "?g = Some nonce"
    by fastforce
  then show thesis
  proof cases
    case 1
    then show ?thesis using that(1) by (auto simp: sec0_decrypt_message_def MAX_ENCRYPTED_MSG_SIZE_def)
  next
    case 2
    then show ?thesis using that(1) by (auto simp: sec0_decrypt_message_def MAX_ENCRYPTED_MSG_SIZE_def)
  next
    case (3 nonce)
    have len: "\<not> MAX_ENCRYPTED_MSG_SIZE < unat n - 20" using 3(2) by (simp add: MAX_ENCRYPTED_MSG_SIZE_def)
    show ?thesis
    proof (cases "rx_session_for sn dn ?t")
      case None
      then show ?thesis using that(2) [of nonce ?t] 3 len
        by (simp add: sec0_decrypt_message_def rx_session_for_def Let_def)
    next
      case (Some p)
      obtain i u where p: "p = (i, u)" by (cases p)
      let ?plain = "aes_ofb (AES128 env (enckey u)) (take 8 (drop 2 f) @ nonce) (take (unat n - 19) (drop 10 f))"
      let ?over = "rx_state (rxsessions u ! i) \<noteq> RX_INIT \<and> 128 < unat (rx_msg_len (rxsessions u ! i)) + unat n - 20"
      have "sec0_decrypt_message env sn dn f n s = (if ?over then (0, [], u) else if \<not> tag_ok env sn dn f (unat n) nonce u then (0, [], u)
          else rx_part i n (?plain ! 0) (take (unat n - 20) (drop 1 ?plain)) u)"
        using 3 len Some p
        by (simp add: sec0_decrypt_message_def rx_session_for_def Let_def tag_ok_def rx_part_def MAX_ENCRYPTED_MSG_SIZE_def)
      then show ?thesis using that(3) [of nonce ?t i u] that(4) [of nonce ?t i u ?plain] 3 Some p by (auto split: if_splits)
    qed
  qed
qed

definition same_keys :: "s0_state \<Rightarrow> s0_state \<Rightarrow> bool" where
  "same_keys s t \<longleftrightarrow> enckey t = enckey s \<and> authkey t = authkey s \<and> nonce_table t = nonce_table s \<and> s0_clock t = s0_clock s
     \<and> tx_sessions t = tx_sessions s \<and> s0_log t = s0_log s \<and> prng_count t = prng_count s"

lemma rx_session_for_same: "rx_session_for sn dn s = Some (i, t) \<Longrightarrow> same_keys s t \<and> i < length (rxsessions t)"
  by (auto simp: rx_session_for_def get_rx_session_by_nodes_def new_rx_session_def same_keys_def find_idx_Some_iff split: option.splits)

lemma rx_part_same: "rx_part i n flags body s = (l, m, t) \<Longrightarrow> same_keys s t"
  by (auto simp: rx_part_def Let_def same_keys_def free_rx_session_def split: if_splits)

text \<open>The buffers of the receiver.\<close>

definition rx_ok :: "rx_session_t list \<Rightarrow> bool" where
  "rx_ok rs \<longleftrightarrow> (\<forall>e \<in> set rs. length (rx_msg e) = MAX_ENCRYPTED_MSG_SIZE)"

lemma rx_ok_upd:
  assumes "rx_ok rs" and "\<And>e. length (rx_msg e) = MAX_ENCRYPTED_MSG_SIZE \<Longrightarrow> length (rx_msg (g e)) = MAX_ENCRYPTED_MSG_SIZE"
  shows "rx_ok (upd_idx i g rs)"
proof (cases "i < length rs")
  case True
  then show ?thesis using assms set_upd_idx_subset [OF True, of g] by (auto simp: rx_ok_def)
next
  case False
  then show ?thesis using assms(1) by (simp add: upd_idx_def list_update_beyond)
qed

lemma rx_session_for_ok: "rx_session_for sn dn s = Some (i, t) \<Longrightarrow> rx_ok (rxsessions s) \<Longrightarrow> rx_ok (rxsessions t)"
  by (auto simp: rx_session_for_def new_rx_session_def split: option.splits intro!: rx_ok_upd)

lemma u8_sub: "\<not> n < 20 \<Longrightarrow> unat (n - 20 :: u8) = unat n - 20"
  by (simp add: unat_sub_if_size word_less_nat_alt word_le_nat_alt not_less)

lemma rx_part_ok:
  assumes "rx_part i n flags body s = (l, msg, t)" and ok: "rx_ok (rxsessions s)" and i: "i < length (rxsessions s)" and n: "\<not> n < 20"
    and body: "length body = unat n - 20" "unat n - 20 \<le> 128"
    and room: "\<not> (rx_state (rxsessions s ! i) \<noteq> RX_INIT \<and> 128 < unat (rx_msg_len (rxsessions s ! i)) + unat n - 20)"
  shows "rx_ok (rxsessions t) \<and> length msg = unat l \<and> unat l \<le> MAX_ENCRYPTED_MSG_SIZE"
proof -
  let ?e = "rxsessions s ! i"
  have e: "length (rx_msg ?e) = 128" using ok i by (simp add: rx_ok_def MAX_ENCRYPTED_MSG_SIZE_def)
  have free: "rx_ok (rxsessions (free_rx_session i s))" using ok by (auto simp: free_rx_session_def intro!: rx_ok_upd)
  have nn: "20 \<le> unat n" using n by (simp add: word_less_nat_alt)
  consider "flags AND 0x10 = 0" | "flags AND 0x10 \<noteq> 0" "flags AND 0x20 = 0"
    | "flags AND 0x10 \<noteq> 0" "flags AND 0x20 \<noteq> 0" "rx_state ?e \<noteq> RX_ENC1 \<or> flags AND 0xF \<noteq> rx_seq_nr ?e"
    | "flags AND 0x10 \<noteq> 0" "flags AND 0x20 \<noteq> 0" "rx_state ?e = RX_ENC1" "flags AND 0xF = rx_seq_nr ?e" by blast
  then show ?thesis
  proof cases
    case 1
    then show ?thesis using assms(1) free body u8_sub [OF n] by (auto simp: rx_part_def MAX_ENCRYPTED_MSG_SIZE_def)
  next
    case 2
    then show ?thesis using assms(1) ok body
      by (auto simp: rx_part_def MAX_ENCRYPTED_MSG_SIZE_def intro!: rx_ok_upd)
  next
    case 3
    then show ?thesis using assms(1) ok by (auto simp: rx_part_def Let_def)
  next
    case 4
    have s: "unat (rx_msg_len ?e) + unat n - 20 \<le> 128" using room 4(3) by auto
    have "unat (rx_msg_len ?e + (n - 20)) = unat (rx_msg_len ?e) + unat (n - 20)"
      using s nn u8_sub [OF n] by (subst unat_plus_simple [symmetric]) (simp add: word_le_nat_alt unat_word_ariths)
    then have "unat (rx_msg_len ?e + n - 20) = unat (rx_msg_len ?e) + unat n - 20"
      using u8_sub [OF n] nn by (simp add: add_diff_eq)
    then show ?thesis using 4 assms(1) free body e s nn by (auto simp: rx_part_def Let_def MAX_ENCRYPTED_MSG_SIZE_def)
  qed
qed

section \<open>Frames between two nodes\<close>

lemma length_s0_frame:
  assumes "\<forall>b. length (Ea b) = 16" and "length iv = 16"
  shows "length (s0_frame Ee Ea sh sn dn iv plain) = length plain + 19"
  using assms by (simp add: s0_frame_def Let_def length_aes_cbc_mac)

text \<open>A frame made with the right keys and a nonce of the receiver is decrypted.\<close>

lemma s0_frame_fields:
  fixes sh sn dn :: u8 and Ee :: "bytes \<Rightarrow> bytes"
  assumes "\<forall>b. length (Ea b) = 16" and "length rnd = 8" and "length nonce = 8" and "plain \<noteq> []"
  defines "f \<equiv> s0_frame Ee Ea sh sn dn (rnd @ nonce) plain" and "n \<equiv> length plain + 19"
  shows "f ! 1 = sh" "take 8 (drop 2 f) = rnd" "take (n - 19) (drop 10 f) = aes_ofb Ee (rnd @ nonce) plain" "f ! (n - 9) = nonce ! 0"
    "take 8 (drop (n - 8) f) = take 8 (aes_cbc_mac Ea (rnd @ nonce) (auth_data sh sn dn (n - 19) @ take (n - 19) (drop 10 f)))"
proof -
  let ?enc = "aes_ofb Ee (rnd @ nonce) plain"
  let ?mac = "aes_cbc_mac Ea (rnd @ nonce) (auth_data sh sn dn (length plain) @ ?enc)"
  have f: "f = [0x98, sh] @ rnd @ ?enc @ [nonce ! 0] @ take 8 ?mac"
    using assms(2,3) by (simp add: f_def s0_frame_def Let_def nth_append)
  have m: "length ?mac = 16" by (rule length_aes_cbc_mac [OF assms(1)])
  show a: "f ! 1 = sh" "take 8 (drop 2 f) = rnd" "take (n - 19) (drop 10 f) = ?enc"
    using assms(2) by (simp_all add: f n_def)
  show "f ! (n - 9) = nonce ! 0" using assms(2) by (simp add: f n_def nth_append)
  show "take 8 (drop (n - 8) f) = take 8 (aes_cbc_mac Ea (rnd @ nonce) (auth_data sh sn dn (n - 19) @ take (n - 19) (drop 10 f)))"
  proof -
    have "f = ([0x98, sh] @ rnd @ ?enc @ [nonce ! 0]) @ take 8 ?mac" "length ([0x98, sh] @ rnd @ ?enc @ [nonce ! 0]) = n - 8"
      using assms(2) by (simp_all add: f n_def)
    then have "drop (n - 8) f = take 8 ?mac" by (metis append_eq_conv_conj)
    then show ?thesis unfolding a using m by (simp add: n_def)
  qed
qed

definition aes_ok :: "s0_env \<Rightarrow> bool" where
  "aes_ok env \<longleftrightarrow> (\<forall>k b. length (AES128 env k b) = 16)"

lemma frame_received:
  fixes sh sn dn flags :: u8
  assumes aes: "aes_ok env" and len: "length rnd = 8" "length nonce = 8" "length body \<le> 26" and on: "only_nonce dn sn nonce (nonce_table s)"
    and ses: "rx_session_for sn dn (s \<lparr> nonce_table := nonce_clear dn sn (nonce_table s) \<rparr>) = Some (i, u)"
    and room: "\<not> (rx_state (rxsessions u ! i) \<noteq> RX_INIT \<and> 128 < unat (rx_msg_len (rxsessions u ! i)) + length body)"
  defines "f \<equiv> s0_frame (AES128 env (enckey s)) (AES128 env (authkey s)) sh sn dn (rnd @ nonce) (flags # body)"
  shows "sec0_decrypt_message env sn dn f (of_nat (length f)) s = rx_part i (of_nat (length f)) flags body u" "length f = length body + 20"
    "f ! 1 = sh"
proof -
  have ea: "\<forall>b. length (AES128 env (authkey s) b) = 16" using aes by (simp add: aes_ok_def)
  show lf: "length f = length body + 20" using length_s0_frame [OF ea] len(1,2) by (simp add: f_def)
  have n: "unat (of_nat (length f) :: u8) = length body + 20" using lf len(3) unat_of_nat_u8 [of "length f"] by simp
  note fd = s0_frame_fields [OF ea len(1,2), of "flags # body" "AES128 env (enckey s)" sh sn dn, folded f_def, simplified]
  show "f ! 1 = sh" using fd(1) by simp
  have k: "authkey u = authkey s" "enckey u = enckey s" using rx_session_for_same [OF ses] by (simp_all add: same_keys_def)
  let ?n = "of_nat (length f) :: u8"
  have g: "get_nonce dn sn (f ! (unat ?n - 9)) False (nonce_table s) = Some nonce"
    using get_only_nonce [OF on] fd(4) n by simp
  have ok: "tag_ok env sn dn f (unat ?n) nonce u"
    unfolding tag_ok_def n k using fd by simp
  show "sec0_decrypt_message env sn dn f ?n s = rx_part i ?n flags body u"
  proof (cases rule: decrypt_cases [of env sn dn f ?n s])
    case 1
    then show ?thesis using g n len(3) by (auto simp: word_less_nat_alt)
  next
    case (2 x t)
    then show ?thesis using ses by simp
  next
    case (3 x t j w)
    then have "j = i" "w = u" "x = nonce" using ses g by auto
    then show ?thesis using 3(7) ok room n by simp
  next
    case (4 x t j w plain)
    then have e: "j = i" "w = u" "x = nonce" using ses g by auto
    have "plain = flags # body" unfolding 4(8) e k n using fd by simp
    then show ?thesis using 4(9) e n by simp
  qed
qed

text \<open>A session that sends a message: the first frame takes up to 26 bytes of what is left.\<close>

definition s0_inclusion :: "bytes \<Rightarrow> bool" where
  "s0_inclusion d \<longleftrightarrow> d ! 0 = 0x98 \<and> d ! 1 = 0x06"

definition part_flags :: "bool \<Rightarrow> u8 \<Rightarrow> bytes \<Rightarrow> u8" where
  "part_flags pass2 sq d = (if pass2 then 0x10 OR 0x20 OR (sq AND 0xF) else if 26 < length d then 0x10 OR (sq AND 0xF) else 0)"

definition tx_has :: "ts_param_t \<Rightarrow> bytes \<Rightarrow> tx_state_t \<Rightarrow> sec_tx_session_t \<Rightarrow> bool" where
  "tx_has p d st e \<longleftrightarrow> tx_param e = p \<and> tx_data e = d \<and> tx_data_len e = of_nat (length d) \<and> tx_state e = st"

lemma ucast_up_down [simp]: "ucast (ucast (x :: u8) :: u16) = x"
  by (rule bit_word_eqI) (simp add: bit_simps)

lemma send_part:
  fixes sn dn :: u8
  assumes env: "prng_ok env" "aes_ok env" "\<forall>l. s0_send_ok env l" and on: "only_nonce dn sn nonce (nonce_table s)" "length nonce = 8" and ne: "sn \<noteq> dn"
    and p: "snode p = ucast sn" "dnode p = ucast dn" and i: "i < length (tx_sessions s)" and e: "tx_has p d st (tx_sessions s ! i)"
    and d: "d \<noteq> []" "length d < 256" "\<not> s0_inclusion d"
  defines "k \<equiv> min 26 (length d)"
  obtains rnd t where "send_encrypted env i pass2 s = Some t" "length rnd = 8"
    "s0_log t = s0_log s @ [S0_send p (s0_frame (AES128 env (enckey s)) (AES128 env (authkey s)) (if 26 < length d then 0xC1 else 0x81) sn dn
       (rnd @ nonce) (part_flags pass2 (tx_seq (tx_sessions s ! i)) d # take k d)) (if pass2 then Msg2_callback i else Msg1_callback i)]"
    "tx_has p (drop k d) st (tx_sessions t ! i)" "tx_sessions t = (tx_sessions s)[i := tx_sessions t ! i]"
    "tx_callback (tx_sessions t ! i) = tx_callback (tx_sessions s ! i)" "tx_user (tx_sessions t ! i) = tx_user (tx_sessions s ! i)"
    "tx_seq (tx_sessions t ! i) = tx_seq (tx_sessions s ! i)" "tx_ext_status (tx_sessions t ! i) = tx_ext_status (tx_sessions s ! i)"
    "no_nonces dn sn (nonce_table t)" "enckey t = enckey s" "authkey t = authkey s" "nonce_blacklist t = nonce_blacklist s" "blacklist_next_elem t = blacklist_next_elem s"
    "nonce_table t = snd (register_nonce sn dn True rnd (nonce_clear dn sn (nonce_table s)))"
proof -
  let ?s = "upd_tx i (\<lambda>e. e \<lparr> tx_timer := None \<rparr>) s"
  have e': "tx_has p d st (tx_sessions ?s ! i)" "tx_seq (tx_sessions ?s ! i) = tx_seq (tx_sessions s ! i)" using e i by (simp_all add: nth_upd_idx tx_has_def)
  obtain rnd c where f: "fresh_nonce env dn sn (nonce_table s) (prng_count s) = Some (rnd, c)" "length rnd = 8"
    using fresh_nonce_only [OF env(1) on(1)] by blast
  have g: "get_nonce dn sn 0 True (nonce_table s) = Some nonce" using get_only_nonce [OF on(1)] by simp
  have ninc: "(d ! 0 = 0x98 \<and> d ! Suc 0 = 0x06) = False" using d(3) by (simp add: s0_inclusion_def)
  have ul: "unat (of_nat (length d) :: u8) = length d" using d(2) by (rule unat_of_nat_u8)
  have kk: "k = (if 26 < length d then 26 else length d)" by (auto simp: k_def)
  have kd: "(of_nat (length d) :: u8) - of_nat k = of_nat (length (drop k d))" by (simp add: k_def of_nat_diff)
  let ?frame = "s0_frame (AES128 env (enckey s)) (AES128 env (authkey s)) (if 26 < length d then 0xC1 else 0x81) sn dn
       (rnd @ nonce) (part_flags pass2 (tx_seq (tx_sessions s ! i)) d # take k d)"
  define u where "u = upd_tx i (\<lambda>e. e \<lparr> crypted_msg := ?frame @ drop (length ?frame) (crypted_msg e), tx_data := drop k (tx_data e),
      tx_data_len := tx_data_len e - of_nat k \<rparr>) (?s \<lparr> prng_count := c, nonce_table := snd (register_nonce sn dn True rnd (nonce_clear dn sn (nonce_table s))) \<rparr>)"
  have en: "encrypt_msg env i pass2 ?s = Some (k + 20, u)"
    using e' f(1) g ul p kk
    by (simp add: encrypt_msg_def get_node_max_frame_size_def tx_has_def Let_def u_def ninc part_flags_def)
  have ui: "tx_sessions u ! i = (tx_sessions s ! i) \<lparr> tx_timer := None, crypted_msg := ?frame @ drop (length ?frame) (crypted_msg (tx_sessions s ! i)),
      tx_data := drop k d, tx_data_len := of_nat (length d) - of_nat k \<rparr>" "length (tx_sessions u) = length (tx_sessions s)"
    using i e by (simp_all add: u_def nth_upd_idx tx_has_def)
  have lf: "length ?frame = k + 20"
    using length_s0_frame [of "AES128 env (authkey s)" "rnd @ nonce"] env(2) f(2) on(2) by (simp add: aes_ok_def k_def)
  let ?t = "s0_emit (S0_send p ?frame (if pass2 then Msg2_callback i else Msg1_callback i)) u"
  have "take (k + 20) (crypted_msg (tx_sessions u ! i)) = ?frame" "tx_param (tx_sessions u ! i) = p"
    using lf e unfolding ui by (simp_all add: tx_has_def)
  then have "send_encrypted env i pass2 s = Some ?t"
    using en env(3) by (simp add: send_encrypted_def s0_hand_over_def Let_def)
  moreover have "tx_sessions ?t = (tx_sessions s)[i := tx_sessions ?t ! i]"
    using i by (intro nth_equalityI) (simp_all add: u_def s0_emit_def nth_upd_idx nth_list_update_if)
  moreover have "no_nonces dn sn (nonce_table ?t)"
    using register_other(1) [of sn dn dn sn] ne nonce_clear_none by (simp add: u_def s0_emit_def)
  ultimately show thesis
    using that [of ?t rnd] f(2) ui e kd by (simp add: tx_has_def s0_emit_def) (simp add: u_def)
qed

section \<open>A message from one node to another\<close>

text \<open>The sending side while a message to \<open>dn\<close> is under way in its first session.\<close>

definition sending_ok :: "u8 \<Rightarrow> u8 \<Rightarrow> ts_param_t \<Rightarrow> bytes \<Rightarrow> tx_state_t \<Rightarrow> nat \<Rightarrow> addr \<Rightarrow> s0_state \<Rightarrow> bool" where
  "sending_ok sn dn p d st cb u a \<longleftrightarrow> length (tx_sessions a) = NUM_TX_SESSIONS \<and> tx_has p d st (tx_sessions a ! 0)
     \<and> tx_callback (tx_sessions a ! 0) = Some cb \<and> tx_user (tx_sessions a ! 0) = u \<and> tx_ext_status (tx_sessions a ! 0) = 0 \<and> no_nonces dn sn (nonce_table a)"

definition env_ok :: "s0_env \<Rightarrow> bool" where
  "env_ok env \<longleftrightarrow> prng_ok env \<and> aes_ok env \<and> (\<forall>l. s0_send_ok env l)"

lemma own_session:
  assumes "sending_ok sn dn p d st cb u a" and "snode p = ucast sn" and "dnode p = ucast dn"
  shows "get_tx_session_by_node sn dn a = Some 0"
proof (cases "tx_sessions a")
  case Nil
  then show ?thesis using assms(1) by (simp add: sending_ok_def NUM_TX_SESSIONS_def)
next
  case (Cons e es)
  then show ?thesis using assms by (simp add: sending_ok_def tx_has_def get_tx_session_by_node_def)
qed

text \<open>A nonce arrives and a frame goes out.\<close>

lemma nonce_sends:
  fixes sn dn :: u8
  assumes env: "env_ok env" and ne: "sn \<noteq> dn" and p: "snode p = ucast sn" "dnode p = ucast dn" and a: "sending_ok sn dn p d st cb u a"
    and st: "st = NONCE_GET_SENT \<and> \<not> pass2 \<or> st = ENC_MSG_SENT \<and> pass2" and d: "d \<noteq> []" "length d < 256" "\<not> s0_inclusion d"
    and n: "length nonce = 8" "\<not> sec0_is_nonce_blacklisted dn sn nonce a" "nonce_room (nonce_table a)"
  obtains rnd t where "sec0_register_nonce env dn sn nonce a = Some t" "length rnd = 8"
    "s0_log t = s0_log a @ [S0_send p (s0_frame (AES128 env (enckey a)) (AES128 env (authkey a)) (if 26 < length d then 0xC1 else 0x81) sn dn
       (rnd @ nonce) (part_flags pass2 (tx_seq (tx_sessions a ! 0)) d # take (min 26 (length d)) d)) (if pass2 then Msg2_callback 0 else Msg1_callback 0)]"
    "sending_ok sn dn p (drop (min 26 (length d)) d) (if pass2 then ENC_MSG2 else ENC_MSG) cb u t" "tx_seq (tx_sessions t ! 0) = tx_seq (tx_sessions a ! 0)"
    "enckey t = enckey a" "authkey t = authkey a" "nonce_blacklist t = nonce_blacklist (sec0_blacklist_add_nonce dn sn nonce a)"
    "nonce_table t = snd (register_nonce sn dn True rnd (nonce_clear dn sn (snd (register_nonce dn sn False nonce (nonce_table a)))))"
proof -
  define b where "b = sec0_blacklist_add_nonce dn sn nonce (a \<lparr> nonce_table := snd (register_nonce dn sn False nonce (nonce_table a)) \<rparr>)"
  have bs: "tx_sessions b = tx_sessions a" "enckey b = enckey a" "authkey b = authkey a" "s0_log b = s0_log a"
      "nonce_blacklist b = nonce_blacklist (sec0_blacklist_add_nonce dn sn nonce a)" "s0_clock b = s0_clock a"
      "nonce_table b = snd (register_nonce dn sn False nonce (nonce_table a))"
    by (simp_all add: b_def sec0_blacklist_add_nonce_def)
  let ?st = "if pass2 then ENC_MSG2 else ENC_MSG"
  let ?c = "upd_tx 0 (\<lambda>e. e \<lparr> tx_state := ?st, transition_time := s0_clock b \<rparr>) b"
  have e: "tx_has p d st (tx_sessions a ! 0)" "0 < length (tx_sessions a)" using a by (simp_all add: sending_ok_def NUM_TX_SESSIONS_def)
  have on: "only_nonce dn sn nonce (nonce_table ?c)" using register_only(1) [of dn sn "nonce_table a"] a n(3) by (simp add: bs sending_ok_def)
  have ce: "tx_has p d ?st (tx_sessions ?c ! 0)" "0 < length (tx_sessions ?c)" using e by (auto simp: bs nth_upd_idx tx_has_def)
  have v: "prng_ok env" "aes_ok env" "\<forall>l. s0_send_ok env l" using env by (simp_all add: env_ok_def)
  have "sec0_register_nonce env dn sn nonce a = tx_session_state_set env 0 ?st b"
    using n(2) own_session [OF a p] e st d(1,2) by (auto simp: sec0_register_nonce_def bs b_def [symmetric] tx_has_def Let_def)
  also have "\<dots> = send_encrypted env 0 pass2 ?c" by (simp add: tx_session_state_set_def Let_def)
  finally have eq: "sec0_register_nonce env dn sn nonce a = send_encrypted env 0 pass2 ?c" .
  obtain rnd t where t: "send_encrypted env 0 pass2 ?c = Some t" "length rnd = 8"
    "s0_log t = s0_log ?c @ [S0_send p (s0_frame (AES128 env (enckey ?c)) (AES128 env (authkey ?c)) (if 26 < length d then 0xC1 else 0x81) sn dn
       (rnd @ nonce) (part_flags pass2 (tx_seq (tx_sessions ?c ! 0)) d # take (min 26 (length d)) d)) (if pass2 then Msg2_callback 0 else Msg1_callback 0)]"
    "tx_has p (drop (min 26 (length d)) d) ?st (tx_sessions t ! 0)" "tx_sessions t = (tx_sessions ?c)[0 := tx_sessions t ! 0]"
    "tx_callback (tx_sessions t ! 0) = tx_callback (tx_sessions ?c ! 0)" "tx_user (tx_sessions t ! 0) = tx_user (tx_sessions ?c ! 0)"
    "tx_seq (tx_sessions t ! 0) = tx_seq (tx_sessions ?c ! 0)" "tx_ext_status (tx_sessions t ! 0) = tx_ext_status (tx_sessions ?c ! 0)"
    "no_nonces dn sn (nonce_table t)" "enckey t = enckey ?c" "authkey t = authkey ?c" "nonce_blacklist t = nonce_blacklist ?c" "blacklist_next_elem t = blacklist_next_elem ?c"
    "nonce_table t = snd (register_nonce sn dn True rnd (nonce_clear dn sn (nonce_table ?c)))"
    by (rule send_part [OF v on n(1) ne p ce(2,1) d])
  have "length (tx_sessions t) = NUM_TX_SESSIONS" using arg_cong [OF t(5), of length] a by (simp add: bs sending_ok_def)
  moreover have "tx_callback (tx_sessions ?c ! 0) = Some cb" "tx_user (tx_sessions ?c ! 0) = u" "tx_ext_status (tx_sessions ?c ! 0) = 0"
      "tx_seq (tx_sessions ?c ! 0) = tx_seq (tx_sessions a ! 0)"
    using a e(2) by (simp_all add: bs nth_upd_idx sending_ok_def)
  ultimately show thesis using that [of t rnd] eq t bs by (simp add: sending_ok_def)
qed

lemma part_flags_bits:
  "26 < length d \<Longrightarrow> part_flags False sq d AND 0x10 \<noteq> 0" "26 < length d \<Longrightarrow> part_flags False sq d AND 0x20 = 0"
  "26 < length d \<Longrightarrow> part_flags False sq d AND 0xF = sq AND 0xF"
  "part_flags True sq d AND 0x10 \<noteq> 0" "part_flags True sq d AND 0x20 \<noteq> 0" "part_flags True sq d AND 0xF = sq AND 0xF"
  by (simp_all add: part_flags_def bit.conj_disj_distrib2 and.assoc)

text \<open>The receiving side gives a nonce away.\<close>

lemma nonce_given:
  fixes sn dn :: u8
  assumes env: "env_ok env" and q: "snode q = ucast sn" "dnode q = ucast dn" and b: "no_nonces dn sn (nonce_table b)" "nonce_room (nonce_table b)"
  defines "nonce \<equiv> PRNGOutput env (prng_count b)"
  obtains t where "sec0_send_nonce env q b = Some t" "s0_log t = s0_log b @ [S0_send (ts_param_make_reply env (stack_param env) q) ([0x98, 0x80] @ nonce) No_s0_cb]"
    "only_nonce dn sn nonce (nonce_table t)" "prng_count t = prng_count b + 1" "rxsessions t = rxsessions b" "enckey t = enckey b" "authkey t = authkey b"
    "s0_clock t = s0_clock b" "nonce_table t = snd (register_nonce dn sn False nonce (nonce_table b))"
proof -
  have f: "filter (nonce_of dn sn) (nonce_table b) = []" using b(1) by (simp add: no_nonces_def filter_empty_conv)
  then have "\<not> has_three_nonces dn sn (nonce_table b)" by (simp add: has_three_nonces_def)
  moreover have "fresh_nonce env dn sn (nonce_table b) (prng_count b) = Some (nonce, prng_count b + 1)"
    unfolding nonce_def by (rule fresh_nonce_none [OF b(1)])
  ultimately show thesis
    using that [of "(s0_emit (S0_send (ts_param_make_reply env (stack_param env) q) ([0x98, 0x80] @ nonce) No_s0_cb) (b \<lparr> prng_count := prng_count b + 1 \<rparr>))
        \<lparr> nonce_table := snd (register_nonce dn sn False nonce (nonce_table b)) \<rparr>"] register_only(1) [OF b] env q
    by (simp add: sec0_send_nonce_def Let_def s0_emit_def env_ok_def)
qed

text \<open>Its session for the sender, before the message and between its frames.\<close>

definition rx_idle :: "u8 \<Rightarrow> u8 \<Rightarrow> s0_state \<Rightarrow> bool" where
  "rx_idle sn dn b \<longleftrightarrow> (\<forall>e \<in> set (rxsessions b). is_free (s0_clock b) e \<or> rx_dnode e \<noteq> dn \<or> rx_snode e \<noteq> sn)
     \<and> (\<exists>e \<in> set (rxsessions b). is_free (s0_clock b) e)"

lemma rx_idle_session:
  assumes "rx_idle sn dn b"
  obtains i u where "rx_session_for sn dn b = Some (i, u)" "i < length (rxsessions b)" "same_keys b u" "rxsessions u = (rxsessions b)[i := rxsessions u ! i]"
    "rx_state (rxsessions u ! i) = RX_INIT" "rx_snode (rxsessions u ! i) = sn" "rx_dnode (rxsessions u ! i) = dn" "rx_timeout (rxsessions u ! i) = s0_clock b + 10000"
proof -
  have n: "get_rx_session_by_nodes sn dn b = None" using assms by (auto simp: get_rx_session_by_nodes_def find_idx_None_iff rx_idle_def)
  have "find_idx (is_free (s0_clock b)) (rxsessions b) \<noteq> None" using assms by (auto simp: find_idx_None_iff rx_idle_def)
  then obtain i where i: "find_idx (is_free (s0_clock b)) (rxsessions b) = Some i" by blast
  then have il: "i < length (rxsessions b)" by (simp add: find_idx_Some_iff)
  let ?e = "(rxsessions b ! i) \<lparr> rx_snode := sn, rx_dnode := dn, rx_timeout := s0_clock b + 10000, rx_state := RX_INIT \<rparr>"
  have "rx_session_for sn dn b = Some (i, b \<lparr> rxsessions := (rxsessions b)[i := ?e] \<rparr>)"
    using n i il by (simp add: rx_session_for_def new_rx_session_def upd_idx_def)
  then show thesis using that [of i "b \<lparr> rxsessions := (rxsessions b)[i := ?e] \<rparr>"] il by (simp add: same_keys_def)
qed

end
