(* ===== verification/Secure_Learn_Correct.thy ===== *)
theory Secure_Learn_Correct
  imports Secure_Learn S0_Correct
begin

text \<open>
  The inclusion with security scheme 0 never gets lost: every poll ends, every state that waits has its timer, and outside of the
  moments in which the inclusion key is needed the network key is in use; and the cases in which it goes wrong.
\<close>

unbundle bit_operations_syntax

section \<open>The keys in use\<close>

definition s0_keys :: "s0_state \<Rightarrow> bytes \<times> bytes" where "s0_keys z = (enckey z, authkey z)"

definition derived_keys :: "sl_env \<Rightarrow> bytes \<Rightarrow> bytes \<times> bytes" where
  "derived_keys env k = (AES128 (ks_s0env (sl_ks env)) k (replicate 16 0xAA), AES128 (ks_s0env (sl_ks env)) k (replicate 16 0x55))"

definition sl_keys :: "sl_state \<Rightarrow> bytes \<times> bytes" where "sl_keys s = s0_keys (ks_s0 (sl_store s))"

definition key_in_use :: "sl_env \<Rightarrow> bytes \<Rightarrow> sl_state \<Rightarrow> bool" where
  "key_in_use env k s \<longleftrightarrow> sl_keys s = derived_keys env k"

text \<open>Only \<open>sec0_set_key\<close> changes the keys.\<close>

lemma s0_keys_simps [simp]:
  "s0_keys (s0_emit e z) = s0_keys z" "s0_keys (z \<lparr> tx_sessions := x \<rparr>) = s0_keys z" "s0_keys (z \<lparr> nonce_table := n \<rparr>) = s0_keys z" "s0_keys (z \<lparr> prng_count := k \<rparr>) = s0_keys z"
  "s0_keys (sec0_blacklist_add_nonce a b c z) = s0_keys z" "s0_keys (z \<lparr> rxsessions := r \<rparr>) = s0_keys z"
  by (simp_all add: s0_keys_def s0_emit_def sec0_blacklist_add_nonce_def)

lemma s0_keys_final [simp]: "s0_keys (tx_final i st z) = s0_keys z" "s0_keys (tx_fail i z) = s0_keys z"
  by (simp_all add: tx_fail_def tx_final_def Let_def split: option.split)

lemma s0_keys_hand_over: "(\<And>z. s0_keys (ok z) = s0_keys z) \<Longrightarrow> s0_keys (s0_hand_over env i f cb ok z) = s0_keys z"
  by (simp add: s0_hand_over_def Let_def)

lemma s0_keys_encrypt: "encrypt_msg env i p z = Some (n, y) \<Longrightarrow> s0_keys y = s0_keys z"
  by (auto simp: encrypt_msg_def Let_def split: option.splits)

lemma s0_keys_send_encrypted: "send_encrypted env i p z = Some y \<Longrightarrow> s0_keys y = s0_keys z"
proof -
  assume a: "send_encrypted env i p z = Some y"
  let ?z = "upd_tx i (\<lambda>e. e \<lparr> tx_timer := None \<rparr>) z"
  obtain n x where x: "encrypt_msg env i p ?z = Some (n, x)" using a by (auto simp: send_encrypted_def Let_def)
  then have "s0_keys x = s0_keys z" using s0_keys_encrypt [OF x] by simp
  then show ?thesis using a x s0_keys_hand_over [of id] by (auto simp: send_encrypted_def Let_def split: if_splits)
qed

lemma s0_keys_state_set: "tx_session_state_set env i st z = Some y \<Longrightarrow> s0_keys y = s0_keys z"
  by (cases st) (auto simp: tx_session_state_set_def Let_def s0_keys_hand_over dest!: s0_keys_send_encrypted split: if_splits)

lemma s0_keys_register: "sec0_register_nonce env a b n z = Some y \<Longrightarrow> s0_keys y = s0_keys z"
  by (auto simp: sec0_register_nonce_def Let_def dest!: s0_keys_state_set split: if_splits option.splits)

lemma s0_keys_send_nonce: "sec0_send_nonce env p z = Some y \<Longrightarrow> s0_keys y = s0_keys z"
  by (auto simp: sec0_send_nonce_def Let_def split: if_splits option.splits)

lemma s0_keys_decrypt: "sec0_decrypt_message env a b f n z = (l, m, y) \<Longrightarrow> s0_keys y = s0_keys z"
proof (cases rule: decrypt_cases [of env a b f n z])
  case (4 nonce t i w plain)
  assume "sec0_decrypt_message env a b f n z = (l, m, y)"
  then have "same_keys t w" "same_keys w y" using rx_session_for_same [OF 4(5)] rx_part_same [OF trans [OF 4(9) [symmetric]]] by simp_all
  then show ?thesis using 4(4) by (simp add: same_keys_def s0_keys_def)
next
  case (3 nonce t i u)
  assume "sec0_decrypt_message env a b f n z = (l, m, y)"
  then show ?thesis using 3 rx_session_for_same [OF 3(5)] by (simp add: same_keys_def s0_keys_def)
qed auto

section \<open>What the actions change\<close>

lemma s0_keys_set_key [simp]: "s0_keys (sec0_set_key (ks_s0env (sl_ks env)) k z) = derived_keys env k"
  by (simp add: s0_keys_def sec0_set_key_def derived_keys_def)

lemma set_key_frame [simp]:
  "sl_keys (set_key env k s) = derived_keys env k" "ctx (set_key env k s) = ctx s" "sl_timer (set_key env k s) = sl_timer s"
  "networkKey (set_key env k s) = networkKey s" "sl_callback (set_key env k s) = sl_callback s" "sl_log (set_key env k s) = sl_log s"
  "secureCommandClassesListCount (set_key env k s) = secureCommandClassesListCount s"
  by (simp_all add: set_key_def sl_keys_def)

lemma emit_frame [simp]:
  "sl_keys (sl_emit e s) = sl_keys s" "ctx (sl_emit e s) = ctx s" "sl_timer (sl_emit e s) = sl_timer s" "networkKey (sl_emit e s) = networkKey s"
  "sl_callback (sl_emit e s) = sl_callback s" "sl_log (sl_emit e s) = sl_log s @ [e]" "sl_store (sl_emit e s) = sl_store s"
  "secureCommandClassesListCount (sl_emit e s) = secureCommandClassesListCount s"
  by (simp_all add: sl_emit_def sl_keys_def)

lemma upd_frame [simp]:
  "sl_keys (s \<lparr> ctx := c \<rparr>) = sl_keys s" "sl_keys (s \<lparr> sl_timer := v \<rparr>) = sl_keys s" "sl_keys (s \<lparr> sl_poll := b \<rparr>) = sl_keys s"
  "sl_keys (s \<lparr> sl_callback := q \<rparr>) = sl_keys s" "sl_keys (s \<lparr> secureCommandClassesListCount := n \<rparr>) = sl_keys s" "sl_keys (s \<lparr> MyNodeID := m \<rparr>) = sl_keys s"
  "sl_keys (s \<lparr> cur_tsparm := p \<rparr>) = sl_keys s" "sl_keys (s \<lparr> networkKey := k \<rparr>) = sl_keys s"
  by (simp_all add: sl_keys_def)

text \<open>The sender and the node cache do not change the state of the machine; a refusal is an event.\<close>

definition ctx_core :: "Secure_learn \<Rightarrow> Secure_learn" where
  "ctx_core c = c \<lparr> tx_failed := False \<rparr>"

lemma send_frame [simp]:
  "sl_keys (send_and_raise env n f t sc s) = sl_keys s" "sl_timer (send_and_raise env n f t sc s) = sl_timer s" "networkKey (send_and_raise env n f t sc s) = networkKey s"
  "sl_callback (send_and_raise env n f t sc s) = sl_callback s" "sl_store (send_and_raise env n f t sc s) = sl_store s"
  "stateConf (ctx (send_and_raise env n f t sc s)) = stateConf (ctx s)" "iface_node (ctx (send_and_raise env n f t sc s)) = iface_node (ctx s)"
  "iface_scheme (ctx (send_and_raise env n f t sc s)) = iface_scheme (ctx s)" "isController (ctx (send_and_raise env n f t sc s)) = isController (ctx s)"
  "secureCommandClassesListCount (send_and_raise env n f t sc s) = secureCommandClassesListCount s"
  "timeEvents (ctx (send_and_raise env n f t sc s)) = timeEvents (ctx s)" "txOptions (ctx (send_and_raise env n f t sc s)) = txOptions (ctx s)"
  by (simp_all add: send_and_raise_def Let_def)

lemma send_ex_frame [simp]:
  "sl_keys (send_and_raise_ex env f s) = sl_keys s" "sl_timer (send_and_raise_ex env f s) = sl_timer s" "networkKey (send_and_raise_ex env f s) = networkKey s"
  "stateConf (ctx (send_and_raise_ex env f s)) = stateConf (ctx s)" "iface_scheme (ctx (send_and_raise_ex env f s)) = iface_scheme (ctx s)"
  "sl_callback (send_and_raise_ex env f s) = sl_callback s" "secureCommandClassesListCount (send_and_raise_ex env f s) = secureCommandClassesListCount s"
  by (simp_all add: send_and_raise_ex_def Let_def)

lemmas action_defs = secure_learn_setTimer_def secure_learn_unsetTimer_def secure_learnIface_complete_def secure_learnIfaceL_send_scheme_report_def
  secure_learnIfaceL_set_inclusion_key_def secure_learnIfaceL_send_key_verify_def secure_learnIfaceI_send_scheme_get_def secure_learnIfaceI_send_key_def
  secure_learnIfaceI_send_scheme_inherit_def secure_learnIfaceI_restore_key_def secure_learnIfaceI_register_scheme_def
  sl_goto_def leave_def leave_timed_def enter_learn_fail_def enter_inclusion_fail_def

lemmas react_defs = react_LearnMode_Start_def react_LearnMode_Scheme_report_def react_LearnMode_NewKey_def react_LearnMode_Inherited_def react_LearnMode_end_def
  react_Idle_def react_InclusionMode_SchemeRequest_def react_InclusionMode_SendKey_def react_InclusionMode_SendInterit_def react_InclusionMode_end_def
  react_InclusionMode_waitVerify_def react_SendReport_def

section \<open>Cycles\<close>

definition quiet :: "Secure_learn \<Rightarrow> bool" where
  "quiet c \<longleftrightarrow> secure_learn_clearInEvents c = c"

lemma quietD:
  assumes "quiet c"
  shows "learnRequest c = False" "inclusionRequest c = None" "commandsSupportedRequest c = False" "tx_done c = False" "tx_failed c = False" "scheme_get c = None"
    "scheme_inherit c = None" "key_set c = None" "scheme_report c = None" "key_verify c = None" "timeEvents c = {}"
proof -
  have c: "c = secure_learn_clearInEvents c" using assms by (simp add: quiet_def)
  show "learnRequest c = False" "inclusionRequest c = None" "commandsSupportedRequest c = False" "tx_done c = False" "tx_failed c = False" "scheme_get c = None"
    "scheme_inherit c = None" "key_set c = None" "scheme_report c = None" "key_verify c = None" "timeEvents c = {}"
    by (subst c, simp add: secure_learn_clearInEvents_def)+
qed

lemma quiet_clear [simp]: "quiet (secure_learn_clearInEvents c)"
  by (simp add: quiet_def secure_learn_clearInEvents_def)

lemma clear_frame [simp]:
  "stateConf (secure_learn_clearInEvents c) = stateConf c" "iface_scheme (secure_learn_clearInEvents c) = iface_scheme c" "key_set (secure_learn_clearInEvents c) = None"
  "timeEvents (secure_learn_clearInEvents c) = {}" "iface_node (secure_learn_clearInEvents c) = iface_node c" "isController (secure_learn_clearInEvents c) = isController c"
  by (simp_all add: secure_learn_clearInEvents_def)

definition timed :: "Secure_learnStates set" where
  "timed = {LearnMode_Start, LearnMode_Scheme_report, LearnMode_NewKey, InclusionMode_SchemeRequest, InclusionMode_SendKey, InclusionMode_SendInterit, InclusionMode_waitVerify}"

definition waiting :: "Secure_learnStates set" where
  "waiting = timed \<union> {Idle, SendReport, LearnMode_Inherited}"

definition failing :: "Secure_learnStates set" where
  "failing = {LearnMode_Fail, LearnMode_end, InclusionMode_Fail, InclusionMode_end}"

lemmas state_sets = timed_def waiting_def failing_def

text \<open>
  The timer, and the key in use: always the network key or the inclusion key of zeros, and, as long as no inclusion has been
  aborted (\<open>K\<close>), the network key outside of the states in which the other one is needed.
\<close>

definition sl_inv :: "bool \<Rightarrow> sl_env \<Rightarrow> sl_state \<Rightarrow> bool" where
  "sl_inv K env s \<longleftrightarrow>
     (let c = ctx s; st = stateConf c
      in st \<notin> {Final, Last_state} \<and> length (networkKey s) = 16 \<and> unat (secureCommandClassesListCount s) \<le> 61
       \<and> (if st \<in> timed then sl_timer s = Some st \<or> sl_timer s = None \<and> st \<in> timeEvents c else sl_timer s = None)
       \<and> (key_in_use env (networkKey s) s \<or> key_in_use env (replicate 16 0) s)
       \<and> (K \<longrightarrow> key_in_use env (networkKey s) s \<or> st = LearnMode_Scheme_report \<and> key_set c = None \<or> st = InclusionMode_SendKey \<or> st \<in> failing \<and> iface_scheme c = - 1)
       \<and> (st = InclusionMode_SendKey \<longrightarrow> key_in_use env (replicate 16 0) s))"

lemma save_state_some:
  assumes "length (networkKey s) = 16"
  obtains t where "security_save_state env s = Some t" "ctx t = ctx s" "sl_timer t = sl_timer s" "networkKey t = networkKey s" "sl_callback t = sl_callback s"
    "sl_log t = sl_log s" "key_in_use env (networkKey s) t" "security_netkey (sl_store t) = networkKey s"
    "assigned_keys (sl_store t) = assigned_keys (sl_store s) OR KEY_CLASS_S0"
    "secureCommandClassesListCount t = secureCommandClassesListCount s"
proof -
  have "slot_of KEY_CLASS_S0 = Some Slot_netkey" by (simp add: slot_of_def)
  then show thesis
    using assms by (intro that [of "the (security_save_state env s)"])
      (simp_all add: security_save_state_def keystore_network_key_write_def Let_def key_in_use_def sl_keys_def)
qed

lemma report_fits:
  assumes "unat (secureCommandClassesListCount s) \<le> 61"
  obtains t where "secure_learnIface_send_commands_supported env s = Some t" "sl_keys t = sl_keys s" "sl_timer t = sl_timer s" "networkKey t = networkKey s"
    "stateConf (ctx t) = stateConf (ctx s)" "unat (secureCommandClassesListCount t) \<le> 61" "sl_callback t = sl_callback s"
proof -
  have "unat (61 - secureCommandClassesListCount s) = 61 - unat (secureCommandClassesListCount s)"
    using assms by (simp add: unat_sub_if_size word_le_nat_alt)
  then show thesis
    using assms by (intro that [of "the (secure_learnIface_send_commands_supported env s)"])
      (auto simp: secure_learnIface_send_commands_supported_def Let_def)
qed

lemma key_in_use_goto [simp]: "key_in_use env k (s \<lparr> ctx := c \<rparr>) = key_in_use env k s"
  by (simp add: key_in_use_def)

lemma cycle_inv:
  assumes inv: "sl_inv K env s"
  shows "\<exists>t. secure_learn_runCycle env s = Some t \<and> sl_inv K env t \<and> quiet (ctx t)"
proof -
  let ?ok = "\<lambda>t. let st = stateConf (ctx t)
      in st \<notin> {Final, Last_state} \<and> length (networkKey t) = 16 \<and> unat (secureCommandClassesListCount t) \<le> 61
       \<and> (if st \<in> timed then sl_timer t = Some st else sl_timer t = None)
       \<and> (key_in_use env (networkKey t) t \<or> key_in_use env (replicate 16 0) t)
       \<and> (K \<longrightarrow> key_in_use env (networkKey t) t \<or> st = LearnMode_Scheme_report \<or> st = InclusionMode_SendKey \<or> st \<in> failing \<and> iface_scheme (ctx t) = - 1)
       \<and> (st = InclusionMode_SendKey \<longrightarrow> key_in_use env (replicate 16 0) t)"
  have "\<exists>t. secure_learn_react env s = Some t \<and> ?ok t"
  proof (cases "stateConf (ctx s)")
    case LearnMode_end
    let ?u = "upd_ctx (\<lambda>c. c \<lparr> iface_net_scheme := iface_scheme c \<rparr>) (leave s)"
    have "length (networkKey ?u) = 16" using inv by (simp add: sl_inv_def leave_def sl_goto_def Let_def)
    then obtain t where "security_save_state env ?u = Some t" "ctx t = ctx ?u" "sl_timer t = sl_timer ?u" "networkKey t = networkKey ?u"
        "key_in_use env (networkKey ?u) t" "secureCommandClassesListCount t = secureCommandClassesListCount ?u"
      by (rule save_state_some)
    then show ?thesis using inv LearnMode_end
      by (auto simp: secure_learn_react_def react_defs action_defs sl_inv_def key_in_use_def state_sets Let_def split: option.split)
  next
    case Idle
    have "unat (secureCommandClassesListCount (leave s)) \<le> 61" using inv by (simp add: sl_inv_def leave_def sl_goto_def Let_def)
    then obtain t where t: "secure_learnIface_send_commands_supported env (leave s) = Some t" "sl_keys t = sl_keys (leave s)" "sl_timer t = sl_timer (leave s)"
        "networkKey t = networkKey (leave s)" "unat (secureCommandClassesListCount t) \<le> 61"
      by (rule report_fits)
    then show ?thesis using inv Idle
      by (auto simp: secure_learn_react_def react_defs action_defs sl_inv_def key_in_use_def state_sets Let_def split: option.split)
  qed (use inv in \<open>auto simp: secure_learn_react_def react_defs action_defs sl_inv_def key_in_use_def state_sets Let_def split: option.split\<close>)
  then obtain t where t: "secure_learn_react env s = Some t" "?ok t" by blast
  then show ?thesis by (intro exI [of _ "upd_ctx secure_learn_clearInEvents t"]) (auto simp: secure_learn_runCycle_def sl_inv_def Let_def)
qed

section \<open>Polls\<close>

text \<open>How many cycles a state needs to come to rest when no event is pending.\<close>

fun unrest :: "Secure_learnStates \<Rightarrow> nat" where
  "unrest LearnMode_Fail = 3"
| "unrest LearnMode_InsecureNet = 3"
| "unrest LearnMode_end = 2"
| "unrest InclusionMode_Fail = 3"
| "unrest InclusionMode_end = 2"
| "unrest Complete = 1"
| "unrest _ = 0"

lemma unrest_0: "st \<notin> {Final, Last_state} \<Longrightarrow> unrest st = 0 \<longleftrightarrow> st \<in> waiting"
  by (cases st) (simp_all add: state_sets)

lemma quiet_cycle_rest: "quiet (ctx s) \<Longrightarrow> stateConf (ctx s) \<in> waiting \<Longrightarrow> secure_learn_runCycle env s = Some s"
  using quietD [of "ctx s"]
  by (auto simp: secure_learn_runCycle_def secure_learn_react_def react_defs state_sets quiet_def)

lemma quiet_cycle_unrest:
  "secure_learn_runCycle env s = Some t \<Longrightarrow> 0 < unrest (stateConf (ctx s)) \<Longrightarrow> unrest (stateConf (ctx t)) < unrest (stateConf (ctx s))"
  by (cases "stateConf (ctx s)") (auto simp: secure_learn_runCycle_def secure_learn_react_def react_defs action_defs Let_def)

lemma poll_loop_quiet:
  assumes "sl_inv K env s" and "quiet (ctx s)" and "prev \<noteq> Some (stateConf (ctx s)) \<or> stateConf (ctx s) \<in> waiting"
  shows "\<exists>t. secure_poll_loop env prev s = Some t \<and> sl_inv K env t \<and> quiet (ctx t) \<and> stateConf (ctx t) \<in> waiting"
  using assms
proof (induction "unrest (stateConf (ctx s))" arbitrary: s prev rule: less_induct)
  case less
  have st: "stateConf (ctx s) \<notin> {Final, Last_state}" using less.prems(1) by (simp add: sl_inv_def Let_def)
  show ?case
  proof (cases "stateConf (ctx s) \<in> waiting")
    case True
    then have "secure_poll_loop env prev s = Some s"
      using quiet_cycle_rest [OF less.prems(2) True, of env]
      by (subst secure_poll_loop.simps) (simp add: secure_poll_loop.simps [of env "Some (stateConf (ctx s))"])
    then show ?thesis using less.prems True by blast
  next
    case False
    obtain t where t: "secure_learn_runCycle env s = Some t" "sl_inv K env t" "quiet (ctx t)" using cycle_inv [OF less.prems(1)] by blast
    have u: "unrest (stateConf (ctx t)) < unrest (stateConf (ctx s))"
      using quiet_cycle_unrest [OF t(1)] unrest_0 [OF st] False by simp
    then have "stateConf (ctx t) \<noteq> stateConf (ctx s)" by auto
    then show ?thesis
      using less.hyps [OF u t(2,3), of "Some (stateConf (ctx s))"] t(1) less.prems(3) False
      by (subst secure_poll_loop.simps) auto
  qed
qed

lemma poll_inv:
  assumes "sl_inv K env s"
  shows "\<exists>t. secure_poll env s = Some t \<and> sl_inv K env t \<and> quiet (ctx t) \<and> stateConf (ctx t) \<in> waiting"
proof -
  obtain t where t: "secure_learn_runCycle env s = Some t" "sl_inv K env t" "quiet (ctx t)" using cycle_inv [OF assms] by blast
  have st: "stateConf (ctx s) \<notin> {Final, Last_state}" using assms by (simp add: sl_inv_def Let_def)
  have "Some (stateConf (ctx s)) \<noteq> Some (stateConf (ctx t)) \<or> stateConf (ctx t) \<in> waiting"
    using quiet_cycle_unrest [OF t(1)] unrest_0 [OF st] by fastforce
  then show ?thesis
    using poll_loop_quiet [OF t(2,3), of "Some (stateConf (ctx s))"] t(1) unfolding secure_poll_def by (subst secure_poll_loop.simps) simp
qed

section \<open>Runs\<close>

text \<open>Whatever happens to the module.\<close>

datatype sl_op = Op_learn "nat option" | Op_add u8 u8 bool "nat option" | Op_sent u8 | Op_timer | Op_poll | Op_frame ts_param_t bytes u8 | Op_classes bytes u8 | Op_abort

fun sl_apply :: "sl_env \<Rightarrow> sl_op \<Rightarrow> sl_state \<Rightarrow> sl_state option" where
  "sl_apply env (Op_learn cb) s = Some (security_learn_begin env cb s)"
| "sl_apply env (Op_add n opt ctl cb) s = Some (snd (security_add_begin env n opt ctl cb s))"
| "sl_apply env (Op_sent status) s = Some (send_data_callback status s)"
| "sl_apply env Op_timer s = Some (case sl_timer s of Some ev \<Rightarrow> sl_timeout ev (s \<lparr> sl_timer := None \<rparr>) | None \<Rightarrow> s)"
| "sl_apply env Op_poll s = secure_poll env (s \<lparr> sl_poll := False \<rparr>)"
| "sl_apply env (Op_frame p f n) s = security_CommandHandler env p f n s"
| "sl_apply env (Op_classes cl n) s = Some (security_set_supported_classes cl n s)"
| "sl_apply env Op_abort s = Some (sec0_abort_inclusion s)"

fun sl_run :: "sl_env \<Rightarrow> sl_op list \<Rightarrow> sl_state \<Rightarrow> sl_state option" where
  "sl_run env [] s = Some s"
| "sl_run env (op # ops) s = Option.bind (sl_apply env op s) (sl_run env ops)"

text \<open>
  Frames have the length they are said to have, and a list of classes fits the report.  The calls without an abort are
  those of \<open>sl_allowed\<close>.
\<close>

fun sl_call_ok :: "sl_op \<Rightarrow> bool" where
  "sl_call_ok (Op_frame p f n) \<longleftrightarrow> unat n = length f \<and> 2 \<le> length f"
| "sl_call_ok (Op_classes cl n) \<longleftrightarrow> unat n \<le> 61"
| "sl_call_ok _ \<longleftrightarrow> True"

fun sl_allowed :: "sl_op \<Rightarrow> bool" where
  "sl_allowed (Op_frame p f n) \<longleftrightarrow> unat n = length f \<and> 2 \<le> length f"
| "sl_allowed (Op_classes cl n) \<longleftrightarrow> unat n \<le> 61"
| "sl_allowed Op_abort \<longleftrightarrow> False"
| "sl_allowed _ \<longleftrightarrow> True"

lemma sl_allowed_call: "sl_allowed op \<longleftrightarrow> sl_call_ok op \<and> op \<noteq> Op_abort"
  by (cases op) simp_all

text \<open>Frames change the keys, the timer and the state of the machine only through the key they carry.\<close>

lemma lift_keys:
  assumes "lift_s0 f s = Some t" and "\<And>z. f (ks_s0 (sl_store s)) = Some z \<Longrightarrow> s0_keys z = s0_keys (ks_s0 (sl_store s))"
  shows "ctx t = ctx s" "sl_timer t = sl_timer s" "networkKey t = networkKey s" "secureCommandClassesListCount t = secureCommandClassesListCount s"
    "sl_keys t = sl_keys s" "sl_poll t = sl_poll s"
  using assms by (auto simp: sl_keys_def lift_s0_def)

lemma encapsulated_keys:
  assumes "s0_encapsulated env p f n s = Some t"
  shows "ctx t = ctx s" "sl_timer t = sl_timer s" "networkKey t = networkKey s" "secureCommandClassesListCount t = secureCommandClassesListCount s"
    "sl_keys t = sl_keys s"
proof -
  obtain l m z where d: "sec0_decrypt_message (sl_s0env env s) (ucast (snode p)) (ucast (dnode p)) f n (ks_s0 (sl_store s)) = (l, m, z)"
    by (metis prod_cases3)
  have k: "s0_keys z = s0_keys (ks_s0 (sl_store s))" using s0_keys_decrypt [OF d] .
  define u where "u = s \<lparr> sl_store := (sl_store s) \<lparr> ks_s0 := z \<rparr> \<rparr>"
  define v where "v = (if l \<noteq> 0 \<and> \<not> isNodeSecure env (sl_log u) (snode p) then secure_learnIfaceI_register_scheme (uint (snode p)) (push_bit 7 1) u else u)"
  define q where "q = (if l \<noteq> 0 then p \<lparr> ts_scheme := SECURITY_SCHEME_0 \<rparr> else p)"
  define w where "w = (if l \<noteq> 0 then sl_emit (Sl_command q m) v else v)"
  have w: "ctx w = ctx s" "sl_timer w = sl_timer s" "networkKey w = networkKey s" "secureCommandClassesListCount w = secureCommandClassesListCount s" "sl_keys w = sl_keys s"
    using k by (simp_all add: w_def v_def u_def secure_learnIfaceI_register_scheme_def sl_emit_def sl_keys_def)
  have "(if f ! 1 = 0xC1 then lift_s0 (sec0_send_nonce (sl_s0env env w) q) w else Some w) = Some t"
    using assms unfolding s0_encapsulated_def d Let_def by (simp only: prod.case u_def v_def w_def q_def)
  then have r: "f ! 1 = 0xC1 \<Longrightarrow> lift_s0 (sec0_send_nonce (sl_s0env env w) q) w = Some t" "f ! 1 \<noteq> 0xC1 \<Longrightarrow> t = w" by simp_all
  have "ctx t = ctx w \<and> sl_timer t = sl_timer w \<and> networkKey t = networkKey w \<and> secureCommandClassesListCount t = secureCommandClassesListCount w \<and> sl_keys t = sl_keys w"
  proof (cases "f ! 1 = 0xC1")
    case True
    then show ?thesis using lift_keys [OF r(1) [OF True]] s0_keys_send_nonce by blast
  next
    case False
    then show ?thesis using r(2) by blast
  qed
  then show "ctx t = ctx s" "sl_timer t = sl_timer s" "networkKey t = networkKey s" "secureCommandClassesListCount t = secureCommandClassesListCount s" "sl_keys t = sl_keys s"
    unfolding w by blast+
qed

text \<open>A step that leaves timer, keys and state of the machine alone and does not hide a new key.\<close>

lemma sl_inv_frame:
  assumes "sl_inv K env s" and "stateConf (ctx t) = stateConf (ctx s)" and "timeEvents (ctx t) = timeEvents (ctx s)" and "sl_timer t = sl_timer s"
    and "networkKey t = networkKey s" and "sl_keys t = sl_keys s" and "unat (secureCommandClassesListCount t) \<le> 61" and "key_set (ctx t) = key_set (ctx s)"
    and "iface_scheme (ctx t) = iface_scheme (ctx s) \<or> stateConf (ctx s) \<in> waiting"
  shows "sl_inv K env t"
proof -
  have "stateConf (ctx s) \<in> failing \<and> iface_scheme (ctx s) = - 1 \<Longrightarrow> iface_scheme (ctx t) = - 1"
    using assms(9) by (auto simp: state_sets)
  then show ?thesis using assms(1,7) unfolding sl_inv_def key_in_use_def Let_def assms(2-6,8) by blast
qed

lemma frame_inv:
  assumes t: "security_command env p f n s = Some t" and inv: "sl_inv K env s" and st: "stateConf (ctx s) \<in> waiting" and f: "unat n = length f"
  shows "sl_inv K env t \<and> stateConf (ctx t) = stateConf (ctx s)"
proof -
  have c: "unat (secureCommandClassesListCount s) \<le> 61" using inv by (simp add: sl_inv_def Let_def)
  consider "f ! 1 = 0x06" "ts_scheme p = SECURITY_SCHEME_0 \<and> secure_learn_isActive (ctx s) LearnMode_Scheme_report \<and> 18 \<le> n"
    | "f ! 1 = 0x40" "lift_s0 (sec0_send_nonce (sl_s0env env s) p) s = Some t"
    | "f ! 1 = 0x80" "lift_s0 (sec0_register_nonce (sl_s0env env s) (ucast (snode p)) (ucast (dnode p)) (take 8 (drop 2 f))) s = Some t"
    | "s0_encapsulated env p f n s = Some t"
    | "stateConf (ctx t) = stateConf (ctx s)" "timeEvents (ctx t) = timeEvents (ctx s)" "sl_timer t = sl_timer s" "networkKey t = networkKey s" "sl_keys t = sl_keys s"
      "secureCommandClassesListCount t = secureCommandClassesListCount s" "key_set (ctx t) = key_set (ctx s)"
    using t unfolding security_command_def Let_def by (auto split: if_splits)
  then show ?thesis
  proof cases
    case 1
    have "18 \<le> length f" using 1(2) f by (simp add: word_le_nat_alt)
    then show ?thesis using 1 t inv by (auto simp: security_command_def Let_def sl_inv_def key_in_use_def secure_learn_isActive_def state_sets)
  next
    case 2
    then show ?thesis using lift_keys [OF 2(2)] s0_keys_send_nonce inv c by (auto intro!: sl_inv_frame [OF inv])
  next
    case 3
    then show ?thesis using lift_keys [OF 3(2)] s0_keys_register inv c by (auto intro!: sl_inv_frame [OF inv])
  next
    case 4
    then show ?thesis using encapsulated_keys [OF 4] c by (auto intro!: sl_inv_frame [OF inv])
  next
    case 5
    then show ?thesis using c st by (auto intro!: sl_inv_frame [OF inv])
  qed
qed

end
