(* ===== verification/S0_Run.thy ===== *)
theory S0_Run
  imports S0_Correct
begin

text \<open>
  A whole exchange with security scheme 0: one node sends a message, the two nodes exchange nonces and frames, and the other node
  has the message.
\<close>

unbundle bit_operations_syntax

section \<open>The sending side\<close>

text \<open>A node that can send to \<open>dn\<close>: a free session, none to the same node, no nonce of it yet, and room for nonces.\<close>

definition nonce_slots :: "nonce_t list \<Rightarrow> nat" where
  "nonce_slots tab = length (filter (\<lambda>e. nc_timeout e = 0) tab)"

lemma nonce_slots_room: "0 < nonce_slots tab \<Longrightarrow> nonce_room tab"
  by (auto simp: nonce_slots_def nonce_room_def filter_empty_conv)

lemma nonce_slots_update: "nonce_slots tab \<le> Suc (nonce_slots (tab[i := e]))"
  unfolding nonce_slots_def by (induction tab arbitrary: i) (auto split: nat.split)

lemma nonce_slots_register: "nonce_slots tab \<le> Suc (nonce_slots (snd (register_nonce src dst r n tab)))"
  unfolding register_nonce_def by (auto simp: upd_idx_def intro: nonce_slots_update split: option.split)

lemma nonce_slots_clear: "nonce_slots tab \<le> nonce_slots (nonce_clear src dst tab)"
  unfolding nonce_slots_def nonce_clear_def by (induction tab) (auto simp: nonce_of_def)

lemma clear_room:
  assumes "only_nonce src dst n tab"
  shows "nonce_room (nonce_clear src dst tab)"
proof -
  obtain e where "e \<in> set tab" "nonce_of src dst e" using assms by (auto simp: only_nonce_def)
  then have "e \<lparr> nc_timeout := 0 \<rparr> \<in> set (nonce_clear src dst tab)" by (force simp: nonce_clear_def)
  moreover have "nc_timeout (e \<lparr> nc_timeout := 0 \<rparr>) = 0" by simp
  ultimately show ?thesis unfolding nonce_room_def by blast
qed

definition s0_can_send :: "u8 \<Rightarrow> u8 \<Rightarrow> s0_state \<Rightarrow> bool" where
  "s0_can_send sn dn a \<longleftrightarrow> length (tx_sessions a) = NUM_TX_SESSIONS \<and> dnode (tx_param (tx_sessions a ! 0)) = 0
     \<and> tx_ext_status (tx_sessions a ! 0) = 0 \<and> get_tx_session_by_node sn dn a = None \<and> no_nonces dn sn (nonce_table a) \<and> 3 \<le> nonce_slots (nonce_table a)"

text \<open>What the steps of a session leave alone.\<close>

definition same_store :: "s0_state \<Rightarrow> s0_state \<Rightarrow> bool" where
  "same_store a t \<longleftrightarrow> nonce_table t = nonce_table a \<and> nonce_blacklist t = nonce_blacklist a \<and> enckey t = enckey a \<and> authkey t = authkey a"

lemma message_started:
  fixes sn dn :: u8
  assumes env: "env_ok env" and p: "snode p = ucast sn" "dnode p = ucast dn" and a: "s0_can_send sn dn a" and d: "length d < 256"
  obtains t where "sec0_send_data env p d (of_nat (length d)) (Some cb) u a = Some (True, t)" "sending_ok sn dn p d NONCE_GET cb u t" "same_store a t"
    "s0_log t = s0_log a @ [S0_send p [0x98, 0x40] (Noce_get_callback 0)]"
proof -
  obtain e es where es: "tx_sessions a = e # es" using a by (cases "tx_sessions a") (auto simp: s0_can_send_def NUM_TX_SESSIONS_def)
  have f: "find_idx (\<lambda>e. dnode (tx_param e) = 0) (tx_sessions a) = Some 0" "get_tx_session_by_node sn dn a = None"
    using a es by (simp_all add: s0_can_send_def)
  define t where "t = snd (the (sec0_send_data env p d (of_nat (length d)) (Some cb) u a))"
  note defs = t_def sec0_send_data_def tx_session_state_set_def s0_hand_over_def s0_emit_def Let_def upd_idx_def
  have v: "s0_send_ok env l" for l using env by (simp add: env_ok_def)
  have t: "sec0_send_data env p d (of_nat (length d)) (Some cb) u a = Some (True, t)" "nonce_table t = nonce_table a" "nonce_blacklist t = nonce_blacklist a"
      "enckey t = enckey a" "authkey t = authkey a" "s0_log t = s0_log a @ [S0_send p [0x98, 0x40] (Noce_get_callback 0)]"
    using es f v p by (auto simp: defs)
  have "length (tx_sessions t) = NUM_TX_SESSIONS" "tx_has p d NONCE_GET (tx_sessions t ! 0)" "tx_callback (tx_sessions t ! 0) = Some cb"
      "tx_user (tx_sessions t ! 0) = u" "tx_ext_status (tx_sessions t ! 0) = 0"
    using a es f v p by (auto simp: defs tx_has_def s0_can_send_def)
  then show thesis using a t by (intro that [of t]) (simp_all add: sending_ok_def same_store_def s0_can_send_def)
qed

lemma nonce_asked:
  assumes "sending_ok sn dn p d NONCE_GET cb u a"
  obtains t where "noce_get_callback env TRANSMIT_COMPLETE_OK 0 a = Some t" "sending_ok sn dn p d NONCE_GET_SENT cb u t" "same_store a t" "s0_log t = s0_log a"
proof -
  obtain e es where es: "tx_sessions a = e # es" using assms by (cases "tx_sessions a") (auto simp: sending_ok_def NUM_TX_SESSIONS_def)
  define t where "t = the (noce_get_callback env TRANSMIT_COMPLETE_OK 0 a)"
  have t: "noce_get_callback env TRANSMIT_COMPLETE_OK 0 a = Some t" "nonce_table t = nonce_table a" "nonce_blacklist t = nonce_blacklist a"
      "enckey t = enckey a" "authkey t = authkey a" "s0_log t = s0_log a"
    using assms es by (auto simp: t_def noce_get_callback_def tx_session_state_set_def Let_def sending_ok_def tx_has_def upd_idx_def)
  have "length (tx_sessions t) = NUM_TX_SESSIONS" "tx_has p d NONCE_GET_SENT (tx_sessions t ! 0)" "tx_callback (tx_sessions t ! 0) = Some cb"
      "tx_user (tx_sessions t ! 0) = u" "tx_ext_status (tx_sessions t ! 0) = 0"
    using assms es by (auto simp: t_def noce_get_callback_def tx_session_state_set_def Let_def sending_ok_def tx_has_def upd_idx_def)
  then show thesis using assms t by (intro that [of t]) (simp_all add: sending_ok_def same_store_def)
qed

text \<open>The report for a frame: the message goes on or is done.\<close>

lemma frame_reported:
  assumes a: "sending_ok sn dn p d st cb u a" and st: "st = ENC_MSG \<and> \<not> pass2 \<or> st = ENC_MSG2 \<and> pass2" and d: "length d < 256"
  obtains t where "(if pass2 then msg2_callback else msg1_callback) env TRANSMIT_COMPLETE_OK 0 None a = Some t" "same_store a t"
    "tx_seq (tx_sessions t ! 0) = tx_seq (tx_sessions a ! 0)"
    "if pass2 \<or> d = [] then dnode (tx_param (tx_sessions t ! 0)) = 0 \<and> s0_log t = s0_log a @ [S0_report cb TRANSMIT_COMPLETE_OK u (Some 0)]
     else sending_ok sn dn p d ENC_MSG_SENT cb u t \<and> s0_log t = s0_log a"
proof -
  obtain e es where es: "tx_sessions a = e # es" using a by (cases "tx_sessions a") (auto simp: sending_ok_def NUM_TX_SESSIONS_def)
  have e: "tx_state e = st" "tx_data_len e = of_nat (length d)" "tx_callback e = Some cb" "tx_user e = u" "tx_ext_status e = 0"
    using a es by (simp_all add: sending_ok_def tx_has_def)
  have z: "(of_nat (length d) :: u8) = 0 \<longleftrightarrow> d = []" using d unat_of_nat_u8 [of "length d"] by (subst unat_eq_0 [symmetric]) simp
  have ses: "length es = 1" "tx_param e = p" "tx_data e = d" "no_nonces dn sn (nonce_table a)" using a es by (simp_all add: sending_ok_def tx_has_def NUM_TX_SESSIONS_def)
  note defs = msg1_callback_def msg2_callback_def msg_callback_def tx_session_state_set_def Let_def tx_final_def s0_emit_def same_store_def upd_idx_def
  define t where "t = the ((if pass2 then msg2_callback else msg1_callback) env TRANSMIT_COMPLETE_OK 0 None a)"
  consider "pass2" "st = ENC_MSG2" | "\<not> pass2" "d = []" "st = ENC_MSG" | "\<not> pass2" "d \<noteq> []" "st = ENC_MSG" using st by blast
  then show thesis
  proof cases
    case 1
    then show ?thesis using es e by (intro that [of t]) (simp_all add: t_def defs)
  next
    case 2
    then show ?thesis using es e by (intro that [of t]) (simp_all add: t_def defs)
  next
    case 3
    then show ?thesis using es e z ses by (intro that [of t]) (simp_all add: t_def defs sending_ok_def tx_has_def NUM_TX_SESSIONS_def)
  qed
qed

section \<open>One round: a nonce one way, a frame the other\<close>

fun s0_sent_frame :: "s0_effect \<Rightarrow> bytes" where
  "s0_sent_frame (S0_send p f c) = f"
| "s0_sent_frame _ = []"

text \<open>Node \<open>a\<close> sends with the parameters \<open>p\<close>, node \<open>b\<close> sees its frames with the parameters \<open>q\<close>.\<close>

definition s0_round :: "s0_env \<Rightarrow> s0_env \<Rightarrow> ts_param_t \<Rightarrow> ts_param_t \<Rightarrow> bool \<Rightarrow> s0_state \<Rightarrow> s0_state \<Rightarrow> (bytes \<times> u8 \<times> bytes \<times> s0_state \<times> s0_state) option" where
  "s0_round ea eb p q pass2 a b =
     (let sn = ucast (snode p); dn = ucast (dnode p)
      in Option.bind (sec0_send_nonce eb q b) (\<lambda>b.
           Option.bind (sec0_register_nonce ea dn sn (drop 2 (s0_sent_frame (last (s0_log b)))) a) (\<lambda>a.
             let f = s0_sent_frame (last (s0_log a))
             in Option.bind ((if pass2 then msg2_callback else msg1_callback) ea TRANSMIT_COMPLETE_OK 0 None a) (\<lambda>a.
                  let (l, msg, b) = sec0_decrypt_message eb sn dn f (of_nat (length f)) b in Some (f, l, msg, a, b)))))"

lemma blacklist_add:
  assumes "sec0_is_nonce_blacklisted src dst n t" and "nonce_blacklist t = nonce_blacklist (sec0_blacklist_add_nonce src dst m a)" and "n \<noteq> m"
  shows "sec0_is_nonce_blacklisted src dst n a"
proof -
  obtain e where e: "e \<in> set (nonce_blacklist t)" "bl_in_use e" "bl_nonce e = n" "bl_src e = src" "bl_dst e = dst"
    using assms(1) by (auto simp: sec0_is_nonce_blacklisted_def list_ex_iff)
  then have "e = \<lparr> bl_nonce = m, bl_src = src, bl_dst = dst, bl_in_use = True \<rparr> \<or> e \<in> set (nonce_blacklist a)"
    using assms(2) set_update_subset_insert by (fastforce simp: sec0_blacklist_add_nonce_def)
  moreover have "e \<noteq> \<lparr> bl_nonce = m, bl_src = src, bl_dst = dst, bl_in_use = True \<rparr>" using e(3) assms(3) by (metis nonce_blacklist_t.select_convs(1))
  ultimately show ?thesis using e by (auto simp: sec0_is_nonce_blacklisted_def list_ex_iff)
qed

text \<open>What a round comes to: the frame \<open>f\<close> that \<open>a\<close> sends, the states \<open>c\<close> of \<open>a\<close> afterwards and \<open>e\<close> of \<open>b\<close> before it gets the frame.\<close>

definition round_gives :: "s0_env \<Rightarrow> s0_env \<Rightarrow> u8 \<Rightarrow> u8 \<Rightarrow> ts_param_t \<Rightarrow> ts_param_t \<Rightarrow> bytes \<Rightarrow> bool \<Rightarrow> nat \<Rightarrow> addr \<Rightarrow> s0_state \<Rightarrow> s0_state
    \<Rightarrow> bytes \<Rightarrow> s0_state \<Rightarrow> s0_state \<Rightarrow> bytes \<Rightarrow> bool" where
  "round_gives ea eb sn dn p q d pass2 cb u a b rnd c e f \<longleftrightarrow>
     (let rest = drop (min 26 (length d)) d; nonce = PRNGOutput eb (prng_count b)
      in length rnd = 8 \<and> length nonce = 8
       \<and> f = s0_frame (AES128 ea (enckey a)) (AES128 ea (authkey a)) (if 26 < length d then 0xC1 else 0x81) sn dn
           (rnd @ nonce) (part_flags pass2 (tx_seq (tx_sessions a ! 0)) d # take (min 26 (length d)) d)
       \<and> s0_round ea eb p q pass2 a b = (let (l, msg, b') = sec0_decrypt_message eb sn dn f (of_nat (length f)) e in Some (f, l, msg, c, b'))
       \<and> only_nonce dn sn nonce (nonce_table e) \<and> prng_count e = prng_count b + 1 \<and> rxsessions e = rxsessions b \<and> enckey e = enckey b \<and> authkey e = authkey b
       \<and> s0_clock e = s0_clock b
       \<and> (if pass2 \<or> rest = [] then dnode (tx_param (tx_sessions c ! 0)) = 0 \<and> last (s0_log c) = S0_report cb TRANSMIT_COMPLETE_OK u (Some 0)
          else sending_ok sn dn p rest ENC_MSG_SENT cb u c)
       \<and> tx_seq (tx_sessions c ! 0) = tx_seq (tx_sessions a ! 0) \<and> enckey c = enckey a \<and> authkey c = authkey a
       \<and> nonce_slots (nonce_table a) \<le> nonce_slots (nonce_table c) + 2
       \<and> (\<forall>m. m \<noteq> nonce \<longrightarrow> \<not> sec0_is_nonce_blacklisted dn sn m a \<longrightarrow> \<not> sec0_is_nonce_blacklisted dn sn m c))"

lemma round_frame:
  fixes sn dn :: u8
  assumes env: "env_ok ea" "env_ok eb" and ne: "sn \<noteq> dn" and p: "snode p = ucast sn" "dnode p = ucast dn" and q: "snode q = ucast sn" "dnode q = ucast dn"
    and a: "sending_ok sn dn p d st cb u a" "0 < nonce_slots (nonce_table a)" and b: "no_nonces dn sn (nonce_table b)" "nonce_room (nonce_table b)"
    and st: "st = NONCE_GET_SENT \<and> \<not> pass2 \<or> st = ENC_MSG_SENT \<and> pass2" and d: "d \<noteq> []" "length d < 256" "\<not> s0_inclusion d"
    and n: "\<not> sec0_is_nonce_blacklisted dn sn (PRNGOutput eb (prng_count b)) a"
  defines "rest \<equiv> drop (min 26 (length d)) d" and "nonce \<equiv> PRNGOutput eb (prng_count b)"
  obtains rnd c e f where "round_gives ea eb sn dn p q d pass2 cb u a b rnd c e f"
proof -
  obtain e where e: "sec0_send_nonce eb q b = Some e" "s0_log e = s0_log b @ [S0_send (ts_param_make_reply eb (stack_param eb) q) ([0x98, 0x80] @ nonce) No_s0_cb]"
    "only_nonce dn sn nonce (nonce_table e)" "prng_count e = prng_count b + 1" "rxsessions e = rxsessions b" "enckey e = enckey b" "authkey e = authkey b"
    "s0_clock e = s0_clock b"
    using nonce_given [OF env(2) q b] unfolding nonce_def by metis
  have ln: "length nonce = 8" using env(2) by (simp add: env_ok_def prng_ok_def nonce_def)
  have room: "nonce_room (nonce_table a)" using a(2) by (intro nonce_slots_room) simp
  let ?f = "\<lambda>rnd. s0_frame (AES128 ea (enckey a)) (AES128 ea (authkey a)) (if 26 < length d then 0xC1 else 0x81) sn dn
       (rnd @ nonce) (part_flags pass2 (tx_seq (tx_sessions a ! 0)) d # take (min 26 (length d)) d)"
  obtain rnd t where t: "sec0_register_nonce ea dn sn nonce a = Some t" "length rnd = 8"
    "s0_log t = s0_log a @ [S0_send p (?f rnd) (if pass2 then Msg2_callback 0 else Msg1_callback 0)]"
    "sending_ok sn dn p rest (if pass2 then ENC_MSG2 else ENC_MSG) cb u t" "tx_seq (tx_sessions t ! 0) = tx_seq (tx_sessions a ! 0)"
    "enckey t = enckey a" "authkey t = authkey a" "nonce_blacklist t = nonce_blacklist (sec0_blacklist_add_nonce dn sn nonce a)"
    "nonce_table t = snd (register_nonce sn dn True rnd (nonce_clear dn sn (snd (register_nonce dn sn False nonce (nonce_table a)))))"
    using nonce_sends [OF env(1) ne p a(1) st d(1-3) ln n [folded nonce_def] room] unfolding rest_def by metis
  have rest: "length rest < 256" using d by (auto simp: rest_def)
  have st': "(if pass2 then ENC_MSG2 else ENC_MSG) = ENC_MSG \<and> \<not> pass2 \<or> (if pass2 then ENC_MSG2 else ENC_MSG) = ENC_MSG2 \<and> pass2" by simp
  obtain c where c: "(if pass2 then msg2_callback else msg1_callback) ea TRANSMIT_COMPLETE_OK 0 None t = Some c" "same_store t c"
    "tx_seq (tx_sessions c ! 0) = tx_seq (tx_sessions t ! 0)"
    "if pass2 \<or> rest = [] then dnode (tx_param (tx_sessions c ! 0)) = 0 \<and> s0_log c = s0_log t @ [S0_report cb TRANSMIT_COMPLETE_OK u (Some 0)]
     else sending_ok sn dn p rest ENC_MSG_SENT cb u c \<and> s0_log c = s0_log t"
    using frame_reported [OF t(4) st' rest] by metis
  have "s0_round ea eb p q pass2 a b = (let (l, msg, b') = sec0_decrypt_message eb sn dn (?f rnd) (of_nat (length (?f rnd))) e in Some (?f rnd, l, msg, c, b'))"
    using e(1,2) t(1,3) c(1) by (simp add: s0_round_def p Let_def)
  moreover have "nonce_slots (nonce_table a) \<le> nonce_slots (nonce_table c) + 2"
  proof -
    let ?t1 = "snd (register_nonce dn sn False nonce (nonce_table a))"
    have "nonce_slots (nonce_table a) \<le> Suc (nonce_slots ?t1)" "nonce_slots ?t1 \<le> nonce_slots (nonce_clear dn sn ?t1)"
        "nonce_slots (nonce_clear dn sn ?t1) \<le> Suc (nonce_slots (nonce_table t))"
      unfolding t(9) by (rule nonce_slots_register nonce_slots_clear)+
    moreover have "nonce_table c = nonce_table t" using c(2) by (simp add: same_store_def)
    ultimately show ?thesis by simp
  qed
  moreover have "\<forall>m. m \<noteq> nonce \<longrightarrow> \<not> sec0_is_nonce_blacklisted dn sn m a \<longrightarrow> \<not> sec0_is_nonce_blacklisted dn sn m c"
    using blacklist_add [of dn sn _ c nonce a] c(2) t(8) by (auto simp: same_store_def)
  ultimately show thesis
    using t(2) ln e c(2,3,4) t(5-7)
    by (intro that [of rnd c e "?f rnd"]) (simp add: round_gives_def same_store_def rest_def [symmetric] nonce_def [symmetric])
qed

section \<open>The receiving side\<close>

text \<open>Between the two frames of a message the receiver holds the first part.\<close>

definition rx_half :: "u8 \<Rightarrow> u8 \<Rightarrow> u8 \<Rightarrow> bytes \<Rightarrow> s0_state \<Rightarrow> bool" where
  "rx_half sn dn sq x b \<longleftrightarrow> (\<exists>i < length (rxsessions b). get_rx_session_by_nodes sn dn b = Some i \<and> rx_state (rxsessions b ! i) = RX_ENC1
     \<and> rx_seq_nr (rxsessions b ! i) = sq AND 0xF \<and> rx_msg_len (rxsessions b ! i) = of_nat (length x) \<and> take (length x) (rx_msg (rxsessions b ! i)) = x)"

lemma rx_idle_clear: "rx_idle sn dn b \<Longrightarrow> rx_idle sn dn (b \<lparr> nonce_table := tab \<rparr>)"
  by (simp add: rx_idle_def)

lemma of_nat_frame_len: "(of_nat (length x + 20) :: u8) - 20 = of_nat (length x)"
  by simp

lemma single_received:
  fixes sn dn sq :: u8
  assumes aes: "aes_ok env" and len: "length rnd = 8" "length nonce = 8" "length x \<le> 26" and on: "only_nonce dn sn nonce (nonce_table b)" and idle: "rx_idle sn dn b"
  defines "f \<equiv> s0_frame (AES128 env (enckey b)) (AES128 env (authkey b)) 0x81 sn dn (rnd @ nonce) (part_flags False sq x # x)"
  obtains t where "sec0_decrypt_message env sn dn f (of_nat (length f)) b = (of_nat (length x), x, t)" "no_nonces dn sn (nonce_table t)" "f ! 1 = 0x81"
proof -
  let ?b = "b \<lparr> nonce_table := nonce_clear dn sn (nonce_table b) \<rparr>"
  obtain i u where u: "rx_session_for sn dn ?b = Some (i, u)" "same_keys ?b u" "rx_state (rxsessions u ! i) = RX_INIT"
    using rx_idle_session [OF rx_idle_clear [OF idle]] by metis
  have flags: "part_flags False sq x = 0" using len(3) by (simp add: part_flags_def)
  note r = frame_received [OF aes len on u(1), of "0x81" "part_flags False sq x", folded f_def]
  have nn: "no_nonces dn sn (nonce_table u)" using u(2) nonce_clear_none by (simp add: same_keys_def)
  have "sec0_decrypt_message env sn dn f (of_nat (length f)) b = (of_nat (length x), x, free_rx_session i u)" "f ! 1 = 0x81"
    using r u(3) flags by (simp_all add: rx_part_def)
  then show thesis using nn that by (simp add: free_rx_session_def)
qed

lemma first_received:
  fixes sn dn sq :: u8
  assumes aes: "aes_ok env" and len: "length rnd = 8" "length nonce = 8" "26 < length d" and on: "only_nonce dn sn nonce (nonce_table b)" and idle: "rx_idle sn dn b"
  defines "f \<equiv> s0_frame (AES128 env (enckey b)) (AES128 env (authkey b)) 0xC1 sn dn (rnd @ nonce) (part_flags False sq d # take 26 d)"
  obtains t where "sec0_decrypt_message env sn dn f (of_nat (length f)) b = (0, [], t)" "no_nonces dn sn (nonce_table t)" "f ! 1 = 0xC1"
    "rx_half sn dn sq (take 26 d) t" "enckey t = enckey b" "authkey t = authkey b" "prng_count t = prng_count b" "nonce_room (nonce_table t)"
proof -
  let ?b = "b \<lparr> nonce_table := nonce_clear dn sn (nonce_table b) \<rparr>"
  obtain i u where u: "rx_session_for sn dn ?b = Some (i, u)" "i < length (rxsessions ?b)" "same_keys ?b u" "rxsessions u = (rxsessions ?b)[i := rxsessions u ! i]"
    "rx_state (rxsessions u ! i) = RX_INIT" "rx_snode (rxsessions u ! i) = sn" "rx_dnode (rxsessions u ! i) = dn" "rx_timeout (rxsessions u ! i) = s0_clock ?b + 10000"
    by (rule rx_idle_session [OF rx_idle_clear [OF idle]])
  have l: "length (take 26 d) \<le> 26" by simp
  note r = frame_received [OF aes len(1,2) l on u(1), of "0xC1" "part_flags False sq d", folded f_def]
  note fl = part_flags_bits(1,2,3) [OF len(3), of sq]
  let ?g = "\<lambda>e. e \<lparr> rx_seq_nr := sq AND 0xF, rx_msg_len := 26, rx_state := RX_ENC1, rx_msg := take 26 d @ drop 26 (rx_msg e) \<rparr>"
  let ?t = "u \<lparr> rxsessions := upd_idx i ?g (rxsessions u) \<rparr>"
  have lu: "length (rxsessions u) = length (rxsessions b)" using arg_cong [OF u(4), of length] by simp
  have il: "i < length (rxsessions u)" using u(2) lu by simp
  have "sec0_decrypt_message env sn dn f (of_nat (length f)) b = (0, [], ?t)" "f ! 1 = 0xC1"
    using r u(5) fl len(3) by (simp_all add: rx_part_def)
  moreover have ti: "rxsessions ?t ! i = ?g (rxsessions u ! i)" using il by (simp add: nth_upd_idx)
  moreover have "get_rx_session_by_nodes sn dn ?t = Some i"
  proof -
    have clk: "s0_clock u = s0_clock b" using u(3) by (simp add: same_keys_def)
    have "\<not> (\<not> is_free (s0_clock b) (rxsessions ?t ! j) \<and> rx_dnode (rxsessions ?t ! j) = dn \<and> rx_snode (rxsessions ?t ! j) = sn)" if j: "j < i" for j
    proof -
      have "rxsessions ?t ! j = rxsessions b ! j" using j il u(4) by (simp add: nth_upd_idx) (metis nth_list_update_neq nat_neq_iff)
      moreover have "rxsessions b ! j \<in> set (rxsessions b)" using j u(2) by simp
      ultimately show ?thesis using idle by (auto simp: rx_idle_def)
    qed
    then show ?thesis unfolding get_rx_session_by_nodes_def find_idx_Some_iff using ti il u(6-8) clk by (simp add: is_free_def)
  qed
  moreover have "no_nonces dn sn (nonce_table ?t)" using u(3) nonce_clear_none by (simp add: same_keys_def)
  moreover have "nonce_room (nonce_table ?t)"
    using clear_room [OF on] u(3) by (simp add: same_keys_def)
  ultimately show thesis using that [of ?t] il len(3) u(3) by (auto simp: rx_half_def same_keys_def)
qed

lemma second_received:
  fixes sh sn dn sq :: u8 and z :: bytes
  assumes aes: "aes_ok env" and len: "length rnd = 8" "length nonce = 8" "length x = 26" "length y \<le> 26" and on: "only_nonce dn sn nonce (nonce_table b)"
    and half: "rx_half sn dn sq x b"
  defines "f \<equiv> s0_frame (AES128 env (enckey b)) (AES128 env (authkey b)) sh sn dn (rnd @ nonce) (part_flags True sq z # y)"
  obtains t where "sec0_decrypt_message env sn dn f (of_nat (length f)) b = (of_nat (length (x @ y)), x @ y, t)" "no_nonces dn sn (nonce_table t)"
proof -
  let ?b = "b \<lparr> nonce_table := nonce_clear dn sn (nonce_table b) \<rparr>"
  obtain i where i: "get_rx_session_by_nodes sn dn b = Some i" "rx_state (rxsessions b ! i) = RX_ENC1"
     "rx_seq_nr (rxsessions b ! i) = sq AND 0xF" "rx_msg_len (rxsessions b ! i) = of_nat (length x)" "take (length x) (rx_msg (rxsessions b ! i)) = x"
    using half unfolding rx_half_def by blast
  have ses: "rx_session_for sn dn ?b = Some (i, ?b)" using i(1) by (simp add: rx_session_for_def get_rx_session_by_nodes_def)
  have room: "\<not> (rx_state (rxsessions ?b ! i) \<noteq> RX_INIT \<and> 128 < unat (rx_msg_len (rxsessions ?b ! i)) + length y)"
    using i(4) len(3,4) by simp
  note r = frame_received [OF aes len(1,2,4) on ses room, of sh "part_flags True sq z", folded f_def]
  have "sec0_decrypt_message env sn dn f (of_nat (length f)) b = (of_nat (length (x @ y)), x @ y, free_rx_session i ?b)"
    using r i len(3) part_flags_bits(4-6) [of sq z] by (simp add: rx_part_def)
  then show thesis using that nonce_clear_none by (simp add: free_rx_session_def)
qed

section \<open>The whole message\<close>

definition s0_exchange :: "s0_env \<Rightarrow> s0_env \<Rightarrow> ts_param_t \<Rightarrow> ts_param_t \<Rightarrow> bytes \<Rightarrow> nat \<Rightarrow> addr \<Rightarrow> s0_state \<Rightarrow> s0_state \<Rightarrow> (u8 \<times> bytes \<times> s0_state \<times> s0_state) option" where
  "s0_exchange ea eb p q d cb u a b =
     Option.bind (sec0_send_data ea p d (of_nat (length d)) (Some cb) u a) (\<lambda>(ok, a). if \<not> ok then None else
       Option.bind (noce_get_callback ea TRANSMIT_COMPLETE_OK 0 a) (\<lambda>a.
         Option.bind (s0_round ea eb p q False a b) (\<lambda>(f, l, msg, a, b).
           if f ! 1 = 0xC1 then map_option (\<lambda>(f, l, msg, a, b). (l, msg, a, b)) (s0_round ea eb p q True a b) else Some (l, msg, a, b))))"

text \<open>Both nodes: keys, parameters and nonces fit together.\<close>

definition s0_peers :: "s0_env \<Rightarrow> s0_env \<Rightarrow> u8 \<Rightarrow> u8 \<Rightarrow> ts_param_t \<Rightarrow> ts_param_t \<Rightarrow> s0_state \<Rightarrow> s0_state \<Rightarrow> bool" where
  "s0_peers ea eb sn dn p q a b \<longleftrightarrow> env_ok ea \<and> env_ok eb \<and> AES128 eb = AES128 ea \<and> sn \<noteq> dn
     \<and> snode p = ucast sn \<and> dnode p = ucast dn \<and> snode q = ucast sn \<and> dnode q = ucast dn \<and> enckey b = enckey a \<and> authkey b = authkey a
     \<and> s0_can_send sn dn a \<and> no_nonces dn sn (nonce_table b) \<and> nonce_room (nonce_table b) \<and> rx_idle sn dn b
     \<and> (let m = PRNGOutput eb (prng_count b); n = PRNGOutput eb (prng_count b + 1)
        in m \<noteq> n \<and> \<not> sec0_is_nonce_blacklisted dn sn m a \<and> \<not> sec0_is_nonce_blacklisted dn sn n a)"

text \<open>What holds of both nodes when a round begins.\<close>

definition round_ready :: "s0_env \<Rightarrow> s0_env \<Rightarrow> u8 \<Rightarrow> u8 \<Rightarrow> ts_param_t \<Rightarrow> ts_param_t \<Rightarrow> s0_state \<Rightarrow> s0_state \<Rightarrow> bool" where
  "round_ready ea eb sn dn p q a b \<longleftrightarrow> env_ok ea \<and> env_ok eb \<and> AES128 eb = AES128 ea \<and> sn \<noteq> dn
     \<and> snode p = ucast sn \<and> dnode p = ucast dn \<and> snode q = ucast sn \<and> dnode q = ucast dn \<and> enckey b = enckey a \<and> authkey b = authkey a
     \<and> no_nonces dn sn (nonce_table b) \<and> nonce_room (nonce_table b) \<and> \<not> sec0_is_nonce_blacklisted dn sn (PRNGOutput eb (prng_count b)) a"

lemma round_readyD:
  assumes "round_ready ea eb sn dn p q a b"
  shows "env_ok ea" "env_ok eb" "sn \<noteq> dn" "snode p = ucast sn" "dnode p = ucast dn" "snode q = ucast sn" "dnode q = ucast dn"
    "no_nonces dn sn (nonce_table b)" "nonce_room (nonce_table b)" "\<not> sec0_is_nonce_blacklisted dn sn (PRNGOutput eb (prng_count b)) a"
    "aes_ok eb" "AES128 eb = AES128 ea" "enckey b = enckey a" "authkey b = authkey a"
  using assms unfolding round_ready_def env_ok_def by blast+

lemma short_round:
  assumes r: "round_ready ea eb sn dn p q a b" and a: "sending_ok sn dn p d NONCE_GET_SENT cb u a" "0 < nonce_slots (nonce_table a)" and b: "rx_idle sn dn b"
    and d: "d \<noteq> []" "length d \<le> 26" "\<not> s0_inclusion d"
  obtains f c t where "s0_round ea eb p q False a b = Some (f, of_nat (length d), d, c, t)" "f ! 1 = 0x81" "no_nonces dn sn (nonce_table t)"
    "dnode (tx_param (tx_sessions c ! 0)) = 0" "last (s0_log c) = S0_report cb TRANSMIT_COMPLETE_OK u (Some 0)"
proof -
  note rr = round_readyD [OF r]
  have l: "length d < 256" using d(2) by simp
  obtain rnd c e f where g: "round_gives ea eb sn dn p q d False cb u a b rnd c e f"
    using round_frame [OF rr(1-7) a rr(8,9) _ d(1) l d(3) rr(10), of False] by blast
  then have x: "length rnd = 8" "length (PRNGOutput eb (prng_count b)) = 8"
      "f = s0_frame (AES128 ea (enckey a)) (AES128 ea (authkey a)) 0x81 sn dn (rnd @ PRNGOutput eb (prng_count b)) (part_flags False (tx_seq (tx_sessions a ! 0)) d # d)"
      "s0_round ea eb p q False a b = (let (l, msg, b') = sec0_decrypt_message eb sn dn f (of_nat (length f)) e in Some (f, l, msg, c, b'))"
      "only_nonce dn sn (PRNGOutput eb (prng_count b)) (nonce_table e)" "rxsessions e = rxsessions b" "enckey e = enckey b" "authkey e = authkey b" "s0_clock e = s0_clock b"
    and c: "dnode (tx_param (tx_sessions c ! 0)) = 0" "last (s0_log c) = S0_report cb TRANSMIT_COMPLETE_OK u (Some 0)"
    using d(2) by (simp_all add: round_gives_def min_def Let_def split: if_splits)
  have idle: "rx_idle sn dn e" using b x(6,9) by (simp add: rx_idle_def)
  have f: "f = s0_frame (AES128 eb (enckey e)) (AES128 eb (authkey e)) 0x81 sn dn (rnd @ PRNGOutput eb (prng_count b)) (part_flags False (tx_seq (tx_sessions a ! 0)) d # d)"
    using x(3,7,8) rr(12-14) by simp
  obtain t where "sec0_decrypt_message eb sn dn f (of_nat (length f)) e = (of_nat (length d), d, t)" "no_nonces dn sn (nonce_table t)" "f ! 1 = 0x81"
    unfolding f by (rule single_received [OF rr(11) x(1,2) d(2) x(5) idle])
  then show thesis using that x(4) c by simp
qed

lemma first_round:
  assumes r: "round_ready ea eb sn dn p q a b" and a: "sending_ok sn dn p d NONCE_GET_SENT cb u a" "3 \<le> nonce_slots (nonce_table a)" and b: "rx_idle sn dn b"
    and d: "26 < length d" "length d < 256" "\<not> s0_inclusion d" and n: "PRNGOutput eb (prng_count b) \<noteq> PRNGOutput eb (prng_count b + 1)"
      "\<not> sec0_is_nonce_blacklisted dn sn (PRNGOutput eb (prng_count b + 1)) a"
  obtains f c t where "s0_round ea eb p q False a b = Some (f, 0, [], c, t)" "f ! 1 = 0xC1" "round_ready ea eb sn dn p q c t"
    "sending_ok sn dn p (drop 26 d) ENC_MSG_SENT cb u c" "rx_half sn dn (tx_seq (tx_sessions c ! 0)) (take 26 d) t"
    "nonce_slots (nonce_table a) \<le> nonce_slots (nonce_table c) + 2"
proof -
  note rr = round_readyD [OF r]
  have sl: "0 < nonce_slots (nonce_table a)" "d \<noteq> []" using a(2) d(1) by auto
  obtain rnd c e f where g: "round_gives ea eb sn dn p q d False cb u a b rnd c e f"
    using round_frame [OF rr(1-7) a(1) sl(1) rr(8,9) _ sl(2) d(2,3) rr(10), of False] by blast
  then have x: "length rnd = 8" "length (PRNGOutput eb (prng_count b)) = 8"
      "f = s0_frame (AES128 ea (enckey a)) (AES128 ea (authkey a)) 0xC1 sn dn (rnd @ PRNGOutput eb (prng_count b)) (part_flags False (tx_seq (tx_sessions a ! 0)) d # take 26 d)"
      "s0_round ea eb p q False a b = (let (l, msg, b') = sec0_decrypt_message eb sn dn f (of_nat (length f)) e in Some (f, l, msg, c, b'))"
      "only_nonce dn sn (PRNGOutput eb (prng_count b)) (nonce_table e)" "rxsessions e = rxsessions b" "enckey e = enckey b" "authkey e = authkey b" "s0_clock e = s0_clock b"
      "prng_count e = prng_count b + 1"
    and c: "sending_ok sn dn p (drop 26 d) ENC_MSG_SENT cb u c" "tx_seq (tx_sessions c ! 0) = tx_seq (tx_sessions a ! 0)" "enckey c = enckey a" "authkey c = authkey a"
      "nonce_slots (nonce_table a) \<le> nonce_slots (nonce_table c) + 2"
      "\<forall>m. m \<noteq> PRNGOutput eb (prng_count b) \<longrightarrow> \<not> sec0_is_nonce_blacklisted dn sn m a \<longrightarrow> \<not> sec0_is_nonce_blacklisted dn sn m c"
    using d(1) by (simp_all add: round_gives_def min_def Let_def split: if_splits)
  have idle: "rx_idle sn dn e" using b x(6,9) by (simp add: rx_idle_def)
  have f: "f = s0_frame (AES128 eb (enckey e)) (AES128 eb (authkey e)) 0xC1 sn dn (rnd @ PRNGOutput eb (prng_count b)) (part_flags False (tx_seq (tx_sessions a ! 0)) d # take 26 d)"
    using x(3,7,8) rr(12-14) by simp
  obtain t where t: "sec0_decrypt_message eb sn dn f (of_nat (length f)) e = (0, [], t)" "no_nonces dn sn (nonce_table t)" "f ! 1 = 0xC1"
    "rx_half sn dn (tx_seq (tx_sessions a ! 0)) (take 26 d) t" "enckey t = enckey e" "authkey t = authkey e" "prng_count t = prng_count e" "nonce_room (nonce_table t)"
    unfolding f by (rule first_received [OF rr(11) x(1,2) d(1) x(5) idle])
  have bl: "\<not> sec0_is_nonce_blacklisted dn sn (PRNGOutput eb (prng_count b + 1)) c" using c(6) n by metis
  have "round_ready ea eb sn dn p q c t"
    using rr t bl c(3,4) x(7,8,10) unfolding round_ready_def by metis
  then show thesis using that x(4) c t by simp
qed

lemma second_round:
  assumes r: "round_ready ea eb sn dn p q a b" and a: "sending_ok sn dn p d ENC_MSG_SENT cb u a" "0 < nonce_slots (nonce_table a)"
    and b: "rx_half sn dn (tx_seq (tx_sessions a ! 0)) x b" and d: "d \<noteq> []" "length d < 256" "\<not> s0_inclusion d" "length x = 26"
  obtains f c t where "s0_round ea eb p q True a b = Some (f, of_nat (length (x @ take 26 d)), x @ take 26 d, c, t)" "no_nonces dn sn (nonce_table t)"
    "dnode (tx_param (tx_sessions c ! 0)) = 0" "last (s0_log c) = S0_report cb TRANSMIT_COMPLETE_OK u (Some 0)"
proof -
  note rr = round_readyD [OF r]
  let ?sq = "tx_seq (tx_sessions a ! 0)" and ?sh = "if 26 < length d then 0xC1 else 0x81 :: u8"
  have tk: "take (min 26 (length d)) d = take 26 d" "length (take 26 d) \<le> 26" by (simp_all add: min_def)
  obtain rnd c e f where g: "round_gives ea eb sn dn p q d True cb u a b rnd c e f"
    using round_frame [OF rr(1-7) a rr(8,9) _ d(1,2,3) rr(10), of True] by blast
  then have x: "length rnd = 8" "length (PRNGOutput eb (prng_count b)) = 8"
      "f = s0_frame (AES128 ea (enckey a)) (AES128 ea (authkey a)) ?sh sn dn (rnd @ PRNGOutput eb (prng_count b)) (part_flags True ?sq d # take 26 d)"
      "s0_round ea eb p q True a b = (let (l, msg, b') = sec0_decrypt_message eb sn dn f (of_nat (length f)) e in Some (f, l, msg, c, b'))"
      "only_nonce dn sn (PRNGOutput eb (prng_count b)) (nonce_table e)" "rxsessions e = rxsessions b" "enckey e = enckey b" "authkey e = authkey b" "s0_clock e = s0_clock b"
    and c: "dnode (tx_param (tx_sessions c ! 0)) = 0" "last (s0_log c) = S0_report cb TRANSMIT_COMPLETE_OK u (Some 0)"
    unfolding round_gives_def Let_def tk by simp_all
  have half: "rx_half sn dn ?sq x e" using b x(6,9) by (simp add: rx_half_def get_rx_session_by_nodes_def)
  have f: "f = s0_frame (AES128 eb (enckey e)) (AES128 eb (authkey e)) ?sh sn dn (rnd @ PRNGOutput eb (prng_count b)) (part_flags True ?sq d # take 26 d)"
    using x(3,7,8) rr(12-14) by simp
  obtain t where "sec0_decrypt_message eb sn dn f (of_nat (length f)) e = (of_nat (length (x @ take 26 d)), x @ take 26 d, t)" "no_nonces dn sn (nonce_table t)"
    unfolding f by (rule second_received [OF rr(11) x(1,2) d(4) tk(2) x(5) half])
  then show thesis using that x(4) c by simp
qed

text \<open>Whatever its length, the first 52 bytes of a message arrive, and success is reported.\<close>

lemma s0_exchange_result:
  assumes peers: "s0_peers ea eb sn dn p q a b" and d: "d \<noteq> []" "length d < 256" "\<not> s0_inclusion d" "26 < length d \<Longrightarrow> \<not> s0_inclusion (drop 26 d)"
  shows "\<exists>a' b'. s0_exchange ea eb p q d cb u a b = Some (of_nat (min 52 (length d)), take 52 d, a', b')
    \<and> last (s0_log a') = S0_report cb TRANSMIT_COMPLETE_OK u (Some 0) \<and> dnode (tx_param (tx_sessions a' ! 0)) = 0 \<and> no_nonces dn sn (nonce_table b')"
proof -
  have can: "s0_can_send sn dn a" and idle: "rx_idle sn dn b" and n: "PRNGOutput eb (prng_count b) \<noteq> PRNGOutput eb (prng_count b + 1)"
      "\<not> sec0_is_nonce_blacklisted dn sn (PRNGOutput eb (prng_count b + 1)) a" and ready: "round_ready ea eb sn dn p q a b"
    using peers unfolding s0_peers_def Let_def round_ready_def by blast+
  note rr = round_readyD [OF ready]
  obtain a1 where a1: "sec0_send_data ea p d (of_nat (length d)) (Some cb) u a = Some (True, a1)" "sending_ok sn dn p d NONCE_GET cb u a1" "same_store a a1"
    by (rule message_started [OF rr(1,4,5) can d(2)])
  obtain a2 where a2: "noce_get_callback ea TRANSMIT_COMPLETE_OK 0 a1 = Some a2" "sending_ok sn dn p d NONCE_GET_SENT cb u a2" "same_store a1 a2"
    by (rule nonce_asked [OF a1(2)])
  have slots: "3 \<le> nonce_slots (nonce_table a2)" "0 < nonce_slots (nonce_table a2)" using can a1(3) a2(3) by (simp_all add: s0_can_send_def same_store_def)
  have r2: "round_ready ea eb sn dn p q a2 b" and n2: "\<not> sec0_is_nonce_blacklisted dn sn (PRNGOutput eb (prng_count b + 1)) a2"
    using ready n(2) a1(3) a2(3) by (simp_all add: round_ready_def same_store_def sec0_is_nonce_blacklisted_def)
  show ?thesis
  proof (cases "length d \<le> 26")
    case True
    obtain f c t where "s0_round ea eb p q False a2 b = Some (f, of_nat (length d), d, c, t)" "f ! 1 = 0x81" "no_nonces dn sn (nonce_table t)"
      "dnode (tx_param (tx_sessions c ! 0)) = 0" "last (s0_log c) = S0_report cb TRANSMIT_COMPLETE_OK u (Some 0)"
      by (rule short_round [OF r2 a2(2) slots(2) idle d(1) True d(3)])
    then show ?thesis using a1(1) a2(1) True by (simp add: s0_exchange_def min_absorb2)
  next
    case False
    then have l: "26 < length d" and rest: "drop 26 d \<noteq> []" "length (drop 26 d) < 256" "length (take 26 d) = 26" using d(2) by simp_all
    have all: "take 26 d @ take 26 (drop 26 d) = take 52 d" using take_add [of 26 26 d] by simp
    obtain f c t where c: "s0_round ea eb p q False a2 b = Some (f, 0, [], c, t)" "f ! 1 = 0xC1" "round_ready ea eb sn dn p q c t"
      "sending_ok sn dn p (drop 26 d) ENC_MSG_SENT cb u c" "rx_half sn dn (tx_seq (tx_sessions c ! 0)) (take 26 d) t"
      "nonce_slots (nonce_table a2) \<le> nonce_slots (nonce_table c) + 2"
      by (rule first_round [OF r2 a2(2) slots(1) idle l d(2,3) n(1) n2])
    have slots': "0 < nonce_slots (nonce_table c)" using c(6) slots by simp
    obtain g c' t' where "s0_round ea eb p q True c t = Some (g, of_nat (length (take 52 d)), take 52 d, c', t')" "no_nonces dn sn (nonce_table t')"
      "dnode (tx_param (tx_sessions c' ! 0)) = 0" "last (s0_log c') = S0_report cb TRANSMIT_COMPLETE_OK u (Some 0)"
      by (rule second_round [OF c(3,4) slots' c(5) rest(1,2) d(4) [OF l] rest(3), unfolded all])
    then show ?thesis using a1(1) a2(1) c(1,2) by (simp add: s0_exchange_def min.commute)
  qed
qed

section \<open>A sample exchange\<close>

definition sample_s0_env :: s0_env where
  "sample_s0_env = \<lparr> my_node = 1, GetCacheEntryFlag = (\<lambda>_. 1), SupportsCmdClass = (\<lambda>_ _. False),
     AES128 = (\<lambda>k b. map (\<lambda>x. 3 * x + 7) (take 16 (b @ k @ replicate 16 0))), PRNGOutput = (\<lambda>k. [of_nat k, 1, 2, 3, 4, 5, 6, 7]),
     s0_send_ok = (\<lambda>_. True), secure_learn_active = (\<lambda>_. False),
     stack_param = \<lparr> snode = 0, dnode = 0, sendpoint = 0, dendpoint = 0, tx_flags = 0, rx_flags = 0, ts_scheme = NO_SCHEME, node_list = nodemask_clear,
       is_mcast_with_folloup = False, force_verify_delivery = False, is_multicommand = False, discard_timeout = 0 \<rparr> \<rparr>"

definition sample_s0_param :: ts_param_t where
  "sample_s0_param = (stack_param sample_s0_env) \<lparr> snode := 2, dnode := 1, ts_scheme := SECURITY_SCHEME_0 \<rparr>"

definition s0_boot :: s0_state where
  "s0_boot =
     (let n = \<lparr> nc_src = 0, nc_dst = 0, nc_timeout = 0, nc_reply = False, nc_bytes = replicate 8 0 \<rparr>;
          r = \<lparr> rx_snode = 0, rx_dnode = 0, rx_state = RX_SESSION_DONE, rx_seq_nr = 0, rx_msg = replicate 128 0, rx_msg_len = 0, rx_timeout = 0 \<rparr>;
          e = \<lparr> tx_param = stack_param sample_s0_env, tx_data = [], tx_data_len = 0, tx_state = NONCE_GET, tx_code = 0, transition_time = 0, tx_timer = None,
            crypted_msg = replicate 46 0, tx_seq = 0, tx_user = 0, tx_callback = None, tx_ext_status = 0 \<rparr>
      in \<lparr> nonce_table = replicate NONCE_TABLE_SIZE n, nonce_blacklist = [], blacklist_next_elem = 0, tx_sessions = [e, e], rxsessions = [r, r],
           enckey = replicate 16 1, authkey = replicate 16 2, enckeyz = replicate 16 3, authkeyz = replicate 16 4, seq_static = 0, prng_count = 0,
           s0_clock = 5, nonce_timer = None, s0_log = [] \<rparr>)"

lemma sample_env_ok: "env_ok sample_s0_env"
proof -
  have "\<exists>j \<ge> k. (of_nat j :: u8) \<noteq> c" for c :: u8 and k
  proof (cases "(of_nat k :: u8) = c")
    case True
    have "(of_nat (k + 1) :: u8) \<noteq> of_nat k" by simp
    then show ?thesis using True by (intro exI [of _ "k + 1"]) auto
  qed auto
  then have "prng_ok sample_s0_env" by (simp add: prng_ok_def sample_s0_env_def)
  moreover have "aes_ok sample_s0_env" by (auto simp: aes_ok_def sample_s0_env_def)
  ultimately show ?thesis by (simp add: env_ok_def sample_s0_env_def)
qed

lemma sample_peers: "s0_peers sample_s0_env sample_s0_env 2 1 sample_s0_param sample_s0_param s0_boot s0_boot"
proof -
  have t: "nonce_table s0_boot = replicate 15 \<lparr> nc_src = 0, nc_dst = 0, nc_timeout = 0, nc_reply = False, nc_bytes = replicate 8 0 \<rparr>"
    by (simp add: s0_boot_def Let_def NONCE_TABLE_SIZE_def)
  have "no_nonces 1 2 (nonce_table s0_boot)" "nonce_slots (nonce_table s0_boot) = 15" "nonce_room (nonce_table s0_boot)"
    unfolding t by (simp_all add: no_nonces_def nonce_of_def nonce_slots_def nonce_room_def)
  moreover have "get_tx_session_by_node 2 1 s0_boot = None" "rx_idle 2 1 s0_boot"
    by (simp_all add: get_tx_session_by_node_def s0_boot_def sample_s0_env_def Let_def rx_idle_def is_free_def)
  moreover have "length (tx_sessions s0_boot) = NUM_TX_SESSIONS" "dnode (tx_param (tx_sessions s0_boot ! 0)) = 0" "tx_ext_status (tx_sessions s0_boot ! 0) = 0"
      "nonce_blacklist s0_boot = []" "prng_count s0_boot = 0"
    by (simp_all add: s0_boot_def sample_s0_env_def Let_def NUM_TX_SESSIONS_def)
  moreover have "PRNGOutput sample_s0_env 0 \<noteq> PRNGOutput sample_s0_env 1" "snode sample_s0_param = 2" "dnode sample_s0_param = 1"
    by (simp_all add: sample_s0_env_def sample_s0_param_def)
  ultimately show ?thesis
    using sample_env_ok by (simp add: s0_peers_def s0_can_send_def sec0_is_nonce_blacklisted_def Let_def)
qed

text \<open>A frame that the sample node accepts.\<close>

definition sample_s0_rx :: s0_state where
  "sample_s0_rx = s0_boot \<lparr> nonce_table := snd (register_nonce 1 2 False (PRNGOutput sample_s0_env 9) (nonce_table s0_boot)) \<rparr>"

definition sample_s0_frame :: bytes where
  "sample_s0_frame = s0_frame (AES128 sample_s0_env (enckey sample_s0_rx)) (AES128 sample_s0_env (authkey sample_s0_rx)) 0x81 2 1
     (PRNGOutput sample_s0_env 4 @ PRNGOutput sample_s0_env 9) (part_flags False 0 [0x25, 0x01, 0xFF] # [0x25, 0x01, 0xFF])"

lemma sample_received:
  obtains t where "sec0_decrypt_message sample_s0_env 2 1 sample_s0_frame (of_nat (length sample_s0_frame)) sample_s0_rx = (3, [0x25, 0x01, 0xFF], t)"
proof -
  have b: "no_nonces 1 2 (nonce_table s0_boot)" "nonce_room (nonce_table s0_boot)" "rx_idle 2 1 s0_boot" and aes: "aes_ok sample_s0_env"
    using sample_peers sample_env_ok by (auto simp: s0_peers_def env_ok_def)
  have on: "only_nonce 1 2 (PRNGOutput sample_s0_env 9) (nonce_table sample_s0_rx)" "rx_idle 2 1 sample_s0_rx"
    using register_only(1) [OF b(1,2)] b(3) by (simp_all add: sample_s0_rx_def rx_idle_def)
  have l: "length (PRNGOutput sample_s0_env k) = 8" for k by (simp add: sample_s0_env_def)
  show thesis
    using single_received [OF aes l l _ on, of "[0x25, 0x01, 0xFF]" 4 0] that unfolding sample_s0_frame_def by fastforce
qed

section \<open>What the scheme guarantees\<close>

text \<open>
  C10.  Messages of up to 52 bytes get through: two nodes with the same keys exchange nonces and one or two encrypted frames, the receiver
  has exactly the bytes that were sent, the sender reports success and frees its session, and the nonces of the receiver are used up.
  The cipher may be any function on blocks; neither half of the message may look like the key of an inclusion, which is encrypted with another key.
\<close>

theorem s0_message_delivered:
  assumes "s0_peers ea eb sn dn p q a b" and "d \<noteq> []" and "length d \<le> 52" and "\<not> s0_inclusion d" and "26 < length d \<Longrightarrow> \<not> s0_inclusion (drop 26 d)"
  shows "\<exists>a' b'. s0_exchange ea eb p q d cb u a b = Some (of_nat (length d), d, a', b')
    \<and> last (s0_log a') = S0_report cb TRANSMIT_COMPLETE_OK u (Some 0) \<and> dnode (tx_param (tx_sessions a' ! 0)) = 0 \<and> no_nonces dn sn (nonce_table b')"
  using s0_exchange_result [OF assms(1,2) _ assms(4,5), of cb u] assms(3) by (simp add: min_absorb2)

lemma s0_message_delivered_witness:
  "\<exists>a b. s0_exchange sample_s0_env sample_s0_env sample_s0_param sample_s0_param (replicate 30 0x25) 7 9 s0_boot s0_boot = Some (30, replicate 30 0x25, a, b)
     \<and> last (s0_log a) = S0_report 7 TRANSMIT_COMPLETE_OK 9 (Some 0)"
  using s0_message_delivered [OF sample_peers, of "replicate 30 0x25" 7 9] by (auto simp: s0_inclusion_def)

text \<open>
  C38.  A message of more than 52 bytes is cut: it has two frames of 26 bytes each, the receiver takes the first 52 bytes for the
  message, and the sender reports that all of it was sent.
\<close>

theorem s0_long_message_cut:
  assumes "s0_peers ea eb sn dn p q a b" and "52 < length d" and "length d < 256" and "\<not> s0_inclusion d" and "\<not> s0_inclusion (drop 26 d)"
  shows "\<exists>a' b'. s0_exchange ea eb p q d cb u a b = Some (52, take 52 d, a', b') \<and> last (s0_log a') = S0_report cb TRANSMIT_COMPLETE_OK u (Some 0)"
proof -
  have "d \<noteq> []" using assms(2) by auto
  then show ?thesis using s0_exchange_result [OF assms(1) _ assms(3,4,5), of cb u] assms(2) by (auto simp: min_absorb1)
qed

lemma s0_long_message_cut_witness:
  "\<exists>a b. s0_exchange sample_s0_env sample_s0_env sample_s0_param sample_s0_param (replicate 60 0x25) 7 9 s0_boot s0_boot = Some (52, replicate 52 0x25, a, b)
     \<and> last (s0_log a) = S0_report 7 TRANSMIT_COMPLETE_OK 9 (Some 0)"
  using s0_long_message_cut [OF sample_peers, of "replicate 60 0x25" 7 9] by (simp add: s0_inclusion_def)

text \<open>
  C11.  A message is accepted only if it is authenticated with a nonce that was sent to its sender and is still in the table, and
  with it all nonces of that sender are used up: whatever frame follows, the same or another, is dropped until the
  sender has been given a new nonce.
\<close>

theorem s0_message_accepted_once:
  assumes "sec0_decrypt_message env sn dn f n s = (l, msg, t)" and "l \<noteq> 0"
  shows "(\<exists>e \<in> set (nonce_table s). nonce_of dn sn e \<and> nc_bytes e ! 0 = f ! (unat n - 9) \<and> tag_ok env sn dn f (unat n) (nc_bytes e) s)
    \<and> (\<forall>g m. sec0_decrypt_message env sn dn g m t = (0, [], t))"
proof -
  obtain nonce u i w plain where d: "get_nonce dn sn (f ! (unat n - 9)) False (nonce_table s) = Some nonce"
      "u = s \<lparr> nonce_table := nonce_clear dn sn (nonce_table s) \<rparr>" "rx_session_for sn dn u = Some (i, w)" "tag_ok env sn dn f (unat n) nonce w"
      "sec0_decrypt_message env sn dn f n s = rx_part i n (plain ! 0) (take (unat n - 20) (drop 1 plain)) w"
    using assms
  proof (cases rule: decrypt_cases [of env sn dn f n s])
    case (4 nonce u i w plain)
    then show ?thesis using that by blast
  qed auto
  have k: "same_keys u w" "same_keys w t" using rx_session_for_same [OF d(3)] rx_part_same [OF trans [OF d(5) [symmetric] assms(1)]] by simp_all
  have none: "no_nonces dn sn (nonce_table t)" using k d(2) nonce_clear_none by (simp add: same_keys_def)
  have "sec0_decrypt_message env sn dn g m t = (0, [], t)" for g m
    using get_nonce_none [OF none] by (cases rule: decrypt_cases [of env sn dn g m t]) auto
  moreover have "tag_ok env sn dn f (unat n) nonce s" using d(2,4) k(1) by (simp add: tag_ok_def same_keys_def)
  ultimately show ?thesis using get_nonce_mem [OF d(1)] by blast
qed

lemma s0_message_accepted_once_witness:
  "\<exists>t. sec0_decrypt_message sample_s0_env 2 1 sample_s0_frame (of_nat (length sample_s0_frame)) sample_s0_rx = (3, [0x25, 0x01, 0xFF], t)
     \<and> (\<forall>g m. sec0_decrypt_message sample_s0_env 2 1 g m t = (0, [], t))"
proof -
  obtain t where t: "sec0_decrypt_message sample_s0_env 2 1 sample_s0_frame (of_nat (length sample_s0_frame)) sample_s0_rx = (3, [0x25, 0x01, 0xFF], t)"
    by (rule sample_received)
  then show ?thesis using s0_message_accepted_once [OF t] by simp
qed

text \<open>
  C37.  Whatever frame arrives, the message the receiver writes is as long as it says and has at most 128 bytes, the size of the buffer
  the caller provides, and the buffers of the sessions keep their size.
\<close>

theorem s0_message_fits:
  assumes "rx_ok (rxsessions s)" and "unat n \<le> length f" and "sec0_decrypt_message env sn dn f n s = (l, msg, t)"
  shows "rx_ok (rxsessions t) \<and> length msg = unat l \<and> unat l \<le> MAX_ENCRYPTED_MSG_SIZE"
proof (cases rule: decrypt_cases [of env sn dn f n s])
  case 1
  then show ?thesis using assms by simp
next
  case (2 nonce u)
  then show ?thesis using assms by simp
next
  case (3 nonce u i w)
  then show ?thesis using assms rx_session_for_ok [OF 3(5)] by simp
next
  case (4 nonce u i w plain)
  have w: "rx_ok (rxsessions w)" "i < length (rxsessions w)" using rx_session_for_ok [OF 4(5)] rx_session_for_same [OF 4(5)] assms(1) 4(4) by simp_all
  have nn: "20 \<le> unat n" using 4(1) by (simp add: word_less_nat_alt)
  have "length (take (unat n - 20) (drop 1 plain)) = unat n - 20" using 4(8) assms(2) nn by simp
  then show ?thesis using rx_part_ok [OF trans [OF 4(9) [symmetric] assms(3)] w 4(1) _ 4(2,6)] by simp
qed

lemma s0_message_fits_witness:
  "\<exists>t. sec0_decrypt_message sample_s0_env 2 1 sample_s0_frame (of_nat (length sample_s0_frame)) sample_s0_rx = (3, [0x25, 0x01, 0xFF], t)
     \<and> rx_ok (rxsessions t)"
proof -
  obtain t where t: "sec0_decrypt_message sample_s0_env 2 1 sample_s0_frame (of_nat (length sample_s0_frame)) sample_s0_rx = (3, [0x25, 0x01, 0xFF], t)"
    by (rule sample_received)
  have "rx_ok (rxsessions sample_s0_rx)" by (simp add: sample_s0_rx_def s0_boot_def Let_def rx_ok_def MAX_ENCRYPTED_MSG_SIZE_def)
  moreover have "unat (of_nat (length sample_s0_frame) :: u8) \<le> length sample_s0_frame" by (simp add: unat_of_nat)
  ultimately show ?thesis using s0_message_fits [OF _ _ t] t by blast
qed

end
