(* ===== verification/Secure_Learn_Run.thy ===== *)
theory Secure_Learn_Run
  imports Secure_Learn_Correct S0_Run
begin

text \<open>
  Runs of the security layer from its start: what holds in every state that frames, reports, timers and requests can lead to, the
  inclusion of a node from begin to end, and the runs that go wrong.
\<close>

unbundle bit_operations_syntax

section \<open>Reachable states\<close>

definition sl_good :: "bool \<Rightarrow> sl_env \<Rightarrow> sl_state \<Rightarrow> bool" where
  "sl_good K env s \<longleftrightarrow> sl_inv K env s \<and> stateConf (ctx s) \<in> waiting \<and> (quiet (ctx s) \<or> sl_poll s)"

lemma sl_inv_poll [simp]: "sl_inv K env (s \<lparr> sl_poll := b \<rparr>) = sl_inv K env s"
  by (simp add: sl_inv_def key_in_use_def Let_def)

lemma quiet_frame [simp]: "ctx (s \<lparr> sl_poll := b \<rparr>) = ctx s"
  by simp

lemma quiet_iff:
  "quiet c \<longleftrightarrow> \<not> learnRequest c \<and> inclusionRequest c = None \<and> \<not> commandsSupportedRequest c \<and> \<not> tx_done c \<and> \<not> tx_failed c \<and> scheme_get c = None
     \<and> scheme_inherit c = None \<and> key_set c = None \<and> scheme_report c = None \<and> key_verify c = None \<and> timeEvents c = {}"
  by (cases c) (auto simp: quiet_def secure_learn_clearInEvents_def)

text \<open>Raising an event and polling keeps all of it.\<close>

lemma raise_good:
  assumes "sl_good K env s" and "stateConf (ctx t) = stateConf (ctx s)" and "timeEvents (ctx t) = timeEvents (ctx s)" and "sl_timer t = sl_timer s"
    and "networkKey t = networkKey s" and "sl_keys t = sl_keys s" and "secureCommandClassesListCount t = secureCommandClassesListCount s"
    and "key_set (ctx t) = key_set (ctx s)"
  shows "sl_good K env (process_poll t)"
proof -
  have "unat (secureCommandClassesListCount t) \<le> 61" using assms(1,7) by (simp add: sl_good_def sl_inv_def Let_def)
  moreover have g: "sl_inv K env s" "stateConf (ctx s) \<in> waiting" using assms(1) by (simp_all add: sl_good_def)
  ultimately have "sl_inv K env t" using sl_inv_frame [OF g(1) assms(2-6) _ assms(8)] by blast
  then show ?thesis using g(2) assms(2) by (simp add: sl_good_def process_poll_def)
qed

lemma timer_good:
  assumes "sl_good K env s" and "sl_timer s = Some ev"
  shows "sl_good K env (sl_timeout ev (s \<lparr> sl_timer := None \<rparr>))"
proof -
  have "ev = stateConf (ctx s)" "ev \<in> timed" using assms by (auto simp: sl_good_def sl_inv_def Let_def split: if_splits)
  then show ?thesis
    using assms by (auto simp: sl_good_def sl_inv_def key_in_use_def Let_def sl_timeout_def process_poll_def secure_learn_raiseTimeEvent_def)
qed

lemma handler_good:
  assumes "sl_good K env s" and "security_CommandHandler env p f n s = Some t" and "unat n = length f"
  shows "sl_good K env t"
proof (cases "t = s")
  case False
  then obtain u where u: "security_command env p f n s = Some u" "t = process_poll u"
    using assms(2) by (auto simp: security_CommandHandler_def split: if_splits)
  have "sl_inv K env u \<and> stateConf (ctx u) = stateConf (ctx s)"
    using assms(1,3) by (intro frame_inv [OF u(1)]) (simp_all add: sl_good_def)
  then show ?thesis using assms(1) u(2) by (simp add: sl_good_def process_poll_def)
qed (use assms in simp)

lemma abort_good:
  assumes "sl_good K env s" and "\<not> K"
  shows "sl_good K env (sec0_abort_inclusion s)"
  using assms by (auto simp: sec0_abort_inclusion_def sl_good_def sl_inv_def key_in_use_def Let_def state_sets quiet_iff secure_learn_isActive_def
      secure_learn_unsetTimer_def secure_learn_init_def secure_learn_enter_def secure_learn_clearInEvents_def)

lemma sl_apply_good:
  assumes g: "sl_good K env s" and "sl_call_ok op" and ab: "op = Op_abort \<Longrightarrow> \<not> K" and t: "sl_apply env op s = Some t"
  shows "sl_good K env t"
proof (cases op)
  case (Op_learn cb)
  then show ?thesis using g t by (auto simp: security_learn_begin_def intro!: raise_good [OF g])
next
  case (Op_add n opt ctl cb)
  then show ?thesis using g t by (auto simp: security_add_begin_def intro!: raise_good [OF g])
next
  case (Op_sent status)
  then show ?thesis using t by (cases "status = TRANSMIT_COMPLETE_OK") (auto simp: send_data_callback_def intro!: raise_good [OF g])
next
  case Op_timer
  then show ?thesis using g t timer_good by (auto split: option.splits)
next
  case Op_poll
  have "sl_inv K env (s \<lparr> sl_poll := False \<rparr>)" using g by (simp add: sl_good_def)
  then show ?thesis using poll_inv Op_poll t by (fastforce simp: sl_good_def)
next
  case (Op_frame p f n)
  then show ?thesis using handler_good [OF g] t assms(2) by auto
next
  case (Op_classes cl n)
  then show ?thesis using g t assms(2) by (auto simp: sl_good_def security_set_supported_classes_def sl_keys_def intro!: sl_inv_frame [of _ env s])
next
  case Op_abort
  then show ?thesis using abort_good [OF g] ab t by simp
qed

text \<open>The start: random keys are long enough, and the keys in the store have their length.\<close>

definition store_ok :: "ks_state \<Rightarrow> bool" where
  "store_ok st \<longleftrightarrow> ks_inv st \<and> length (security_netkey st) = 16"

definition sl_startable :: "sl_env \<Rightarrow> sl_state \<Rightarrow> bool" where
  "sl_startable env s \<longleftrightarrow> store_ok (sl_store s) \<and> length (networkKey s) = 16 \<and> sl_timer s = None \<and> unat (secureCommandClassesListCount s) \<le> 61
     \<and> (\<forall>n. 16 \<le> length (S2_get_hw_random (sl_ks env) n))"

lemma init_good:
  assumes s: "sl_startable env s"
  obtains t where "security_init env s = Some t" "sl_good K env t" "stateConf (ctx t) = Idle" "quiet (ctx t)"
proof -
  have S0: "KEY_CLASS_S0 \<in> set key_classes" by (simp add: key_classes_def)
  have inv: "ks_inv (sl_store s)" using s by (simp add: sl_startable_def store_ok_def)
  obtain g where g: "keystore_network_generate_key_if_missing (sl_ks env) (sl_store s) = Some g" "ks_inv g"
      "case ks_abs (sl_store s) KEY_CLASS_S0 of Some k \<Rightarrow> ks_abs g KEY_CLASS_S0 = Some k
       | None \<Rightarrow> \<exists>n. ks_abs g KEY_CLASS_S0 = Some (take 16 (S2_get_hw_random (sl_ks env) n))"
    using generated_keys [OF inv] S0 by metis
  define st where "st = (if suc_node env = MyNodeID s then g else sl_store s)"
  have old: "ks_abs (sl_store s) KEY_CLASS_S0 = Some k \<Longrightarrow> length k = 16" for k
    using s by (auto simp: ks_abs_def slot_of_def sl_startable_def store_ok_def split: if_splits)
  have len: "length k = 16" if k: "ks_abs st KEY_CLASS_S0 = Some k" for k
    using k g(3) old s by (auto simp: st_def sl_startable_def split: if_splits option.splits)
  have ab: "ks_abs (st \<lparr> ks_s0 := z \<rparr>) KEY_CLASS_S0 = ks_abs st KEY_CLASS_S0" for z by (simp add: ks_abs_def split: option.split)
  let ?u = "(upd_ctx (\<lambda>c. secure_learn_enter (secure_learn_init c)) s) \<lparr> sl_store := st \<lparr> ks_s0 := sec0_init (ks_s0 st) \<rparr> \<rparr>"
  have "security_init env s = security_load_state env ?u"
    using g(1) by (auto simp: security_init_def Let_def st_def)
  moreover have "keystore_network_key_read KEY_CLASS_S0 (sl_store ?u) = Some (ks_abs st KEY_CLASS_S0)"
    using key_read_map [OF S0, of "sl_store ?u"] ab by simp
  ultimately have i: "security_init env s = Some
      (let k = (case ks_abs st KEY_CLASS_S0 of Some k \<Rightarrow> k | None \<Rightarrow> networkKey s)
       in (set_key env k (upd_ctx (\<lambda>c. c \<lparr> iface_net_scheme := security_scheme st \<rparr>) (?u \<lparr> networkKey := k \<rparr>))) \<lparr> sl_assigned_keys := assigned_keys st \<rparr>)"
    by (cases "ks_abs st KEY_CLASS_S0") (simp_all add: security_load_state_def Let_def set_key_def)
  have lk: "length (case ks_abs st KEY_CLASS_S0 of Some k \<Rightarrow> k | None \<Rightarrow> networkKey s) = 16"
    using len s by (auto simp: sl_startable_def split: option.split)
  have fr: "sl_keys (v \<lparr> sl_assigned_keys := m \<rparr>) = sl_keys v" for v m by (simp add: sl_keys_def)
  show thesis
    using s lk by (intro that [OF i])
      (simp_all add: Let_def fr sl_good_def sl_inv_def key_in_use_def sl_startable_def state_sets secure_learn_init_def secure_learn_enter_def
        quiet_def secure_learn_clearInEvents_def)
qed

lemma allowed_good: "sl_good K env s \<Longrightarrow> sl_allowed op \<Longrightarrow> sl_apply env op s = Some t \<Longrightarrow> sl_good K env t"
  using sl_apply_good [of K env s op t] by (simp add: sl_allowed_call)

inductive sl_reachable :: "sl_env \<Rightarrow> sl_state \<Rightarrow> bool" for env where
  start: "sl_startable env s \<Longrightarrow> security_init env s = Some t \<Longrightarrow> sl_reachable env t"
| step: "sl_reachable env s \<Longrightarrow> sl_allowed op \<Longrightarrow> sl_apply env op s = Some t \<Longrightarrow> sl_reachable env t"

lemma reachable_good: "sl_reachable env s \<Longrightarrow> sl_good True env s"
proof (induction rule: sl_reachable.induct)
  case (start s t)
  obtain u where "security_init env s = Some u" "sl_good True env u" by (rule init_good [OF start(1)])
  then show ?case using start(2) by simp
next
  case (step s op t)
  show ?case using allowed_good [OF step.IH step.hyps(2,3)] .
qed

text \<open>The same with inclusions that are aborted.\<close>

inductive sl_reachable_any :: "sl_env \<Rightarrow> sl_state \<Rightarrow> bool" for env where
  start: "sl_startable env s \<Longrightarrow> security_init env s = Some t \<Longrightarrow> sl_reachable_any env t"
| step: "sl_reachable_any env s \<Longrightarrow> sl_call_ok op \<Longrightarrow> sl_apply env op s = Some t \<Longrightarrow> sl_reachable_any env t"

lemma any_reachable_good: "sl_reachable_any env s \<Longrightarrow> sl_good False env s"
proof (induction rule: sl_reachable_any.induct)
  case (start s t)
  obtain u where "security_init env s = Some u" "sl_good False env u" by (rule init_good [OF start(1)])
  then show ?case using start(2) by simp
next
  case (step s op t)
  show ?case using sl_apply_good [OF step.IH step.hyps(2) _ step.hyps(3)] by simp
qed

lemma reachable_any: "sl_reachable env s \<Longrightarrow> sl_reachable_any env s"
  by (induction rule: sl_reachable.induct) (auto simp: sl_allowed_call intro: sl_reachable_any.intros)

lemma run_reachable: "sl_reachable env s \<Longrightarrow> list_all sl_allowed ops \<Longrightarrow> sl_run env ops s = Some t \<Longrightarrow> sl_reachable env t"
proof (induction ops arbitrary: s)
  case (Cons op ops)
  then obtain u where "sl_apply env op s = Some u" "sl_run env ops u = Some t" by (auto simp: bind_eq_Some_conv)
  then show ?case using Cons.IH [of u] Cons.prems(1,2) sl_reachable.step by auto
qed simp

section \<open>A sample\<close>

definition sample_sl_env :: sl_env where
  "sample_sl_env = \<lparr> sl_ks = \<lparr> ks_s0env = sample_s0_env, S2_get_hw_random = (\<lambda>n. replicate 16 (of_nat n)), AES_CTR_DRBG_Generate = (\<lambda>n. replicate 64 (of_nat n)) \<rparr>,
     sl_send_ok = (\<lambda>_. True), sl_node_flags = (\<lambda>_ _. 0), gw_net_scheme = (\<lambda>_. SECURITY_SCHEME_0), is_controller_library = True, suc_node = 1,
     SecureClassesPAN = [], urandom_read = (\<lambda>_. replicate 16 5) \<rparr>"

definition sample_sl :: sl_state where
  "sample_sl = \<lparr> ctx = \<lparr> stateConf = Last_state, supported_schemes = 0, txOptions = 0, isController = False, iface_node = 0, iface_scheme = 0, iface_net_scheme = 0,
       learnRequest = False, inclusionRequest = None, commandsSupportedRequest = False, tx_done = False, tx_failed = False, scheme_get = None, scheme_inherit = None,
       key_set = None, scheme_report = None, key_verify = None, timeEvents = {} \<rparr>,
     sl_timer = None, sl_callback = None, cur_tsparm = sample_s0_param, secureCommandClassesList = [], secureCommandClassesListCount = 0, sl_assigned_keys = 0,
     networkKey = replicate 16 0, sl_store = ks_boot, MyNodeID = 1, sl_poll = False, urandom_draws = 0, sl_log = [] \<rparr>"

lemma sample_startable: "sl_startable (sample_sl_env \<lparr> sl_send_ok := ok \<rparr>) sample_sl"
  by (simp add: sl_startable_def sample_sl_env_def sample_sl_def store_ok_def ks_inv_def ks_boot_def)

lemma sample_started:
  obtains s where "sl_reachable (sample_sl_env \<lparr> sl_send_ok := ok \<rparr>) s" "stateConf (ctx s) = Idle" "quiet (ctx s)"
  using init_good [OF sample_startable, of ok] sl_reachable.start [OF sample_startable] by metis

text \<open>Its node is the one that keeps the keys, so it has a key of scheme 0.\<close>

lemma init_assigned:
  assumes "security_init env s = Some t" and "suc_node env = MyNodeID s" and "ks_inv (sl_store s)"
  shows "sl_assigned_keys t AND KEY_CLASS_S0 \<noteq> 0"
proof -
  have S0: "KEY_CLASS_S0 \<in> set key_classes" by (simp add: key_classes_def)
  obtain g where g: "keystore_network_generate_key_if_missing (sl_ks env) (sl_store s) = Some g"
      and k: "case ks_abs (sl_store s) KEY_CLASS_S0 of Some k \<Rightarrow> ks_abs g KEY_CLASS_S0 = Some k
       | None \<Rightarrow> \<exists>n. ks_abs g KEY_CLASS_S0 = Some (take 16 (S2_get_hw_random (sl_ks env) n))"
    using generated_keys [OF assms(3)] S0 by metis
  have "ks_abs g KEY_CLASS_S0 \<noteq> None" using k by (cases "ks_abs (sl_store s) KEY_CLASS_S0") auto
  then have a: "assigned_keys g AND KEY_CLASS_S0 \<noteq> 0" by (auto simp: ks_abs_def and.commute split: option.splits)
  let ?u = "(upd_ctx (\<lambda>c. secure_learn_enter (secure_learn_init c)) s) \<lparr> sl_store := g \<lparr> ks_s0 := sec0_init (ks_s0 g) \<rparr> \<rparr>"
  have "security_load_state env ?u = Some t" using assms(1,2) g by (simp add: security_init_def Let_def)
  then obtain k where "t = (let s = (case k of Some key \<Rightarrow> ?u \<lparr> networkKey := key \<rparr> | None \<Rightarrow> ?u);
            s = upd_ctx (\<lambda>c. c \<lparr> iface_net_scheme := security_scheme (sl_store s) \<rparr>) s;
            s = set_key env (networkKey s) s
        in s \<lparr> sl_assigned_keys := assigned_keys (sl_store s) \<rparr>)"
    unfolding security_load_state_def by blast
  then have "sl_assigned_keys t = assigned_keys g" by (cases k) (simp_all add: Let_def set_key_def)
  then show ?thesis using a by simp
qed

lemma sample_assigned:
  obtains s where "sl_reachable (sample_sl_env \<lparr> sl_send_ok := ok \<rparr>) s" "stateConf (ctx s) = Idle" "quiet (ctx s)" "sl_assigned_keys s AND KEY_CLASS_S0 \<noteq> 0"
proof -
  let ?e = "sample_sl_env \<lparr> sl_send_ok := ok \<rparr>"
  obtain s where s: "security_init ?e sample_sl = Some s" "stateConf (ctx s) = Idle" "quiet (ctx s)" by (rule init_good [OF sample_startable])
  have "suc_node ?e = MyNodeID sample_sl" "ks_inv (sl_store sample_sl)" by (simp_all add: sample_sl_env_def sample_sl_def ks_inv_def ks_boot_def)
  then show thesis using that s init_assigned [OF s(1)] sl_reachable.start [OF sample_startable s(1)] by blast
qed

lemma sample_env_eq: "sample_sl_env \<lparr> sl_send_ok := (\<lambda>_. True) \<rparr> = sample_sl_env"
  by (simp add: sample_sl_env_def)

section \<open>What always holds\<close>

text \<open>
  C12.  In every state the layer can get into, also by inclusions that are aborted, a poll ends and leaves the machine in a state that waits; each
  of the seven states of an inclusion that wait for the other side
  (\<^term>\<open>timed\<close>) has its timer running or its time event pending with a poll requested; and the key in use is the network key
  or the inclusion key of zeros.  As long as no inclusion has been aborted it is the network key, except
  between the scheme report and the new key when the gateway is included, and while the key is sent when it includes a node; an
  abort in these two states leaves the inclusion key in use.  Two waiting states besides \<^verbatim>\<open>Idle\<close> have no timer, as in the
  code: the one after an inherited scheme and the one that sends the report of the supported commands.  Lists of more than 61
  supported classes are left out.
\<close>

theorem secure_learn_safe:
  assumes "sl_reachable_any env s"
  shows "(\<exists>t. secure_poll env s = Some t \<and> stateConf (ctx t) \<in> timed \<union> {Idle, SendReport, LearnMode_Inherited})
    \<and> (stateConf (ctx s) \<in> timed \<longrightarrow> sl_timer s = Some (stateConf (ctx s)) \<or> stateConf (ctx s) \<in> timeEvents (ctx s) \<and> sl_poll s)
    \<and> (key_in_use env (networkKey s) s \<or> key_in_use env (replicate 16 0) s)
    \<and> (sl_reachable env s \<longrightarrow> key_in_use env (networkKey s) s \<or> stateConf (ctx s) \<in> {LearnMode_Scheme_report, InclusionMode_SendKey})"
proof -
  have g: "sl_inv False env s" "quiet (ctx s) \<or> sl_poll s" using any_reachable_good [OF assms] by (simp_all add: sl_good_def)
  have "stateConf (ctx s) \<in> timed \<longrightarrow> sl_timer s = Some (stateConf (ctx s)) \<or> stateConf (ctx s) \<in> timeEvents (ctx s) \<and> sl_poll s"
    using g quietD(11) [of "ctx s"] by (auto simp: sl_inv_def Let_def)
  moreover have "key_in_use env (networkKey s) s \<or> stateConf (ctx s) \<in> {LearnMode_Scheme_report, InclusionMode_SendKey}" if "sl_reachable env s"
    using reachable_good [OF that] by (auto simp: sl_good_def sl_inv_def Let_def state_sets)
  moreover have "key_in_use env (networkKey s) s \<or> key_in_use env (replicate 16 0) s" using g(1) by (auto simp: sl_inv_def Let_def)
  ultimately show ?thesis using poll_inv [OF g(1)] unfolding waiting_def by blast
qed

lemma secure_learn_safe_witness:
  "\<exists>s. sl_reachable_any sample_sl_env s \<and> (\<exists>t. secure_poll sample_sl_env s = Some t) \<and> key_in_use sample_sl_env (networkKey s) s"
proof -
  obtain s where s: "sl_reachable sample_sl_env s" "stateConf (ctx s) = Idle" using sample_started [of "\<lambda>_. True"] unfolding sample_env_eq by metis
  then show ?thesis using secure_learn_safe [OF reachable_any [OF s(1)]] reachable_any [OF s(1)] by auto
qed

section \<open>Coming to rest\<close>

definition flags_of :: "int \<Rightarrow> u8" where
  "flags_of sc = (if sc > 0 then NODE_FLAG_SECURITY0 else if sc < 0 then NODE_FLAG_KNOWN_BAD else 0)"

text \<open>The end of an inclusion: the machine rests in \<open>Idle\<close> and the callback has been told.\<close>

definition ended :: "sl_state \<Rightarrow> sl_state \<Rightarrow> u8 \<Rightarrow> bool" where
  "ended s t flags \<longleftrightarrow> stateConf (ctx t) = Idle \<and> quiet (ctx t) \<and> networkKey t = networkKey s \<and> sl_callback t = sl_callback s
     \<and> sl_log t = sl_log s @ (case sl_callback s of None \<Rightarrow> [] | Some cb \<Rightarrow> [Sl_complete cb flags])"

text \<open>From a state on its way to the end: the machine comes to rest in \<open>Idle\<close>, and the callback is told.\<close>

lemma settle_steps:
  assumes "prev \<noteq> Some (stateConf (ctx s))" and "secure_learn_runCycle env s = Some t"
  shows "secure_poll_loop env prev s = secure_poll_loop env (Some (stateConf (ctx s))) t"
  using assms by (subst secure_poll_loop.simps) simp

lemma settle_complete:
  assumes "quiet (ctx s)" and "stateConf (ctx s) = Complete" and "prev \<noteq> Some Complete"
  shows "secure_poll_loop env prev s = Some (sl_goto Idle s)"
proof -
  let ?t = "sl_goto Idle s"
  have q: "quiet (ctx ?t)" using assms(1) by (simp add: quiet_iff sl_goto_def)
  have "secure_learn_runCycle env s = Some ?t"
    using assms(2) q by (simp add: secure_learn_runCycle_def secure_learn_react_def leave_def sl_goto_def quiet_def)
  moreover have "secure_learn_runCycle env ?t = Some ?t" using q by (intro quiet_cycle_rest) (simp_all add: sl_goto_def state_sets)
  ultimately show ?thesis
    using assms(2,3) settle_steps [of prev s env ?t] settle_steps [of "Some Complete" ?t env ?t]
    by (simp add: sl_goto_def secure_poll_loop.simps [of env "Some Idle"])
qed

lemma settle_inclusion_end:
  assumes "quiet (ctx s)" and "stateConf (ctx s) = InclusionMode_end" and "prev \<noteq> Some InclusionMode_end"
  shows "\<exists>t. secure_poll_loop env prev s = Some t \<and> ended s t (flags_of (iface_scheme (ctx s)))"
proof -
  let ?u = "react_InclusionMode_end env s"
  have u: "secure_learn_runCycle env s = Some (upd_ctx secure_learn_clearInEvents ?u)"
    using assms(2) by (simp add: secure_learn_runCycle_def secure_learn_react_def)
  have "stateConf (ctx ?u) = Complete" by (simp add: react_InclusionMode_end_def Let_def sl_goto_def)
  then have "secure_poll_loop env prev s = Some (sl_goto Idle (upd_ctx secure_learn_clearInEvents ?u))"
    using settle_steps [OF _ u, of prev] settle_complete [of "upd_ctx secure_learn_clearInEvents ?u" "Some InclusionMode_end" env] assms(2,3) by simp
  then show ?thesis
    by (auto simp: ended_def sl_goto_def quiet_iff secure_learn_clearInEvents_def react_InclusionMode_end_def Let_def leave_def secure_learnIface_complete_def flags_of_def
        split: option.split)
qed

lemma settle_step_to:
  assumes "quiet (ctx s)" and "prev \<noteq> Some (stateConf (ctx s))" and "secure_learn_react env s = Some (sl_goto st (leave s))"
  shows "secure_poll_loop env prev s = secure_poll_loop env (Some (stateConf (ctx s))) (sl_goto st s)" "quiet (ctx (sl_goto st s))"
proof -
  show q: "quiet (ctx (sl_goto st s))" using assms(1) by (simp add: quiet_iff sl_goto_def)
  then have "secure_learn_runCycle env s = Some (sl_goto st s)"
    using assms(3) by (simp add: secure_learn_runCycle_def leave_def sl_goto_def quiet_def)
  then show "secure_poll_loop env prev s = secure_poll_loop env (Some (stateConf (ctx s))) (sl_goto st s)"
    by (rule settle_steps [OF assms(2)])
qed

lemma settle_inclusion_fail:
  assumes "quiet (ctx s)" and "stateConf (ctx s) = InclusionMode_Fail" and "prev \<noteq> Some InclusionMode_Fail"
  shows "\<exists>t. secure_poll_loop env prev s = Some t \<and> ended s t (flags_of (iface_scheme (ctx s)))"
proof -
  have r: "secure_learn_react env s = Some (sl_goto InclusionMode_end (leave s))" using assms(2) by (simp add: secure_learn_react_def)
  note st = settle_step_to [OF assms(1) _ r, of prev]
  show ?thesis
    using st assms(2,3) settle_inclusion_end [of "sl_goto InclusionMode_end s" "Some InclusionMode_Fail" env] by (simp add: sl_goto_def ended_def)
qed

text \<open>At the end of a learn mode the key is stored, whatever the result.\<close>

definition key_stored :: "bytes \<Rightarrow> sl_state \<Rightarrow> bool" where
  "key_stored k t \<longleftrightarrow> security_netkey (sl_store t) = k \<and> assigned_keys (sl_store t) AND KEY_CLASS_S0 \<noteq> 0"

lemma settle_learn_end:
  assumes "quiet (ctx s)" and "stateConf (ctx s) = LearnMode_end" and "prev \<noteq> Some LearnMode_end" and "length (networkKey s) = 16"
  shows "\<exists>t. secure_poll_loop env prev s = Some t \<and> ended s t (flags_of (iface_scheme (ctx s))) \<and> key_stored (networkKey s) t"
proof -
  let ?v = "upd_ctx (\<lambda>c. c \<lparr> iface_net_scheme := iface_scheme c \<rparr>) (leave s)"
  have "length (networkKey ?v) = 16" using assms(4) by (simp add: leave_def sl_goto_def)
  then obtain w where w: "security_save_state env ?v = Some w" "ctx w = ctx ?v" "networkKey w = networkKey ?v" "sl_callback w = sl_callback ?v" "sl_log w = sl_log ?v"
      "security_netkey (sl_store w) = networkKey ?v" "assigned_keys (sl_store w) = assigned_keys (sl_store ?v) OR KEY_CLASS_S0"
    by (rule save_state_some)
  have k: "assigned_keys (sl_store w) AND KEY_CLASS_S0 \<noteq> 0" unfolding w(7) by (simp add: KEY_CLASS_S0_def bit.conj_disj_distrib2)
  let ?u = "sl_goto Complete (secure_learnIface_complete env (iface_scheme (ctx w)) w)"
  have u: "secure_learn_runCycle env s = Some (upd_ctx secure_learn_clearInEvents ?u)"
    using assms(2) w(1) by (simp add: secure_learn_runCycle_def secure_learn_react_def react_LearnMode_end_def)
  have "stateConf (ctx ?u) = Complete" by (simp add: sl_goto_def)
  then have "secure_poll_loop env prev s = Some (sl_goto Idle (upd_ctx secure_learn_clearInEvents ?u))"
    using settle_steps [OF _ u, of prev] settle_complete [of "upd_ctx secure_learn_clearInEvents ?u" "Some LearnMode_end" env] assms(2,3) by simp
  moreover have "security_netkey (sl_store (secure_learnIface_complete env sc w)) = security_netkey (sl_store w)"
      "assigned_keys (sl_store (secure_learnIface_complete env sc w)) = assigned_keys (sl_store w)" for sc
    by (simp_all add: secure_learnIface_complete_def Let_def set_key_def split: option.split)
  then have "key_stored (networkKey s) (sl_goto Idle (upd_ctx secure_learn_clearInEvents ?u))"
    using w(6) k by (simp add: key_stored_def sl_goto_def leave_def)
  moreover have "ended s (sl_goto Idle (upd_ctx secure_learn_clearInEvents ?u)) (flags_of (iface_scheme (ctx s)))"
    using w(2-5) by (auto simp: ended_def sl_goto_def quiet_iff secure_learn_clearInEvents_def Let_def leave_def secure_learnIface_complete_def flags_of_def split: option.split)
  ultimately show ?thesis by blast
qed

lemma settle_learn_fail:
  assumes "quiet (ctx s)" and "stateConf (ctx s) = st" and "st = LearnMode_Fail \<or> st = LearnMode_InsecureNet" and "prev \<noteq> Some st" and "length (networkKey s) = 16"
  shows "\<exists>t. secure_poll_loop env prev s = Some t \<and> ended s t (flags_of (iface_scheme (ctx s))) \<and> key_stored (networkKey s) t"
proof -
  have r: "secure_learn_react env s = Some (sl_goto LearnMode_end (leave s))" using assms(2,3) by (auto simp: secure_learn_react_def)
  note stp = settle_step_to [OF assms(1) _ r, of prev]
  have "Some st \<noteq> Some LearnMode_end" using assms(3) by auto
  then show ?thesis
    using stp assms(2,4,5) settle_learn_end [of "sl_goto LearnMode_end s" "Some st" env] by (simp add: sl_goto_def ended_def)
qed

section \<open>Timeouts\<close>

text \<open>The first cycle of a poll.\<close>

lemma poll_first:
  assumes "secure_learn_react env s = Some u" and "stateConf (ctx u) \<noteq> stateConf (ctx s)"
  shows "secure_poll env s = secure_poll_loop env (Some (stateConf (ctx s))) (upd_ctx secure_learn_clearInEvents u)"
  unfolding secure_poll_def using assms settle_steps [of None s env] by (simp add: secure_learn_runCycle_def)

text \<open>When nothing else has happened, a time event leads to failure, or to the insecure end of a learn mode that nobody answered.\<close>

definition timeout_scheme :: "sl_state \<Rightarrow> int" where
  "timeout_scheme s = (if stateConf (ctx s) = LearnMode_Start then (if isController (ctx s) then 0 else iface_scheme (ctx s)) else - 1)"

lemma timeout_react:
  assumes "quiet (ctx s)" and "stateConf (ctx s) \<in> timed"
  defines "v \<equiv> (upd_ctx (secure_learn_raiseTimeEvent (stateConf (ctx s))) (s \<lparr> sl_timer := None \<rparr>)) \<lparr> sl_poll := False \<rparr>"
  obtains u where "secure_learn_react env v = Some u" "iface_scheme (ctx u) = timeout_scheme s" "networkKey u = networkKey s" "sl_callback u = sl_callback s"
    "stateConf (ctx u) \<in> {LearnMode_Fail, LearnMode_InsecureNet, LearnMode_end, InclusionMode_Fail}"
    "stateConf (ctx u) = InclusionMode_Fail \<longleftrightarrow> stateConf (ctx s) \<notin> {LearnMode_Start, LearnMode_Scheme_report, LearnMode_NewKey}"
    "\<exists>l. sl_log u = sl_log s @ l \<and> (l = [] \<or> l = [Sl_node_flag (of_int (iface_node (ctx s))) 0 NODE_FLAG_SECURITY0])"
proof -
  have q: "\<not> tx_done (ctx s)" "\<not> tx_failed (ctx s)" "scheme_get (ctx s) = None" "scheme_inherit (ctx s) = None" "key_set (ctx s) = None" "scheme_report (ctx s) = None"
      "key_verify (ctx s) = None" using assms(1) by (simp_all add: quiet_iff)
  show thesis
    using assms(2) q
    by (cases "isController (ctx s)"; intro that [of "the (secure_learn_react env v)"])
      (auto simp: v_def timed_def secure_learn_react_def react_defs action_defs secure_learn_raiseTimeEvent_def timeout_scheme_def Let_def)
qed

lemma times_out:
  assumes g: "sl_good True env s" and q: "quiet (ctx s)" and st: "stateConf (ctx s) \<in> timed"
  shows "\<exists>t l. sl_run env [Op_timer, Op_poll] s = Some t \<and> stateConf (ctx t) = Idle \<and> key_in_use env (networkKey s) t \<and> networkKey t = networkKey s
    \<and> sl_log t = sl_log s @ l @ (case sl_callback s of None \<Rightarrow> [] | Some cb \<Rightarrow> [Sl_complete cb (flags_of (timeout_scheme s))])
    \<and> (l = [] \<or> l = [Sl_node_flag (of_int (iface_node (ctx s))) 0 NODE_FLAG_SECURITY0])
    \<and> (stateConf (ctx s) \<in> {LearnMode_Start, LearnMode_Scheme_report, LearnMode_NewKey} \<longrightarrow> key_stored (networkKey s) t)"
proof -
  have tm: "sl_timer s = Some (stateConf (ctx s))" and len: "length (networkKey s) = 16"
    using g st quietD(11) [OF q] by (simp_all add: sl_good_def sl_inv_def Let_def)
  let ?v = "(upd_ctx (secure_learn_raiseTimeEvent (stateConf (ctx s))) (s \<lparr> sl_timer := None \<rparr>)) \<lparr> sl_poll := False \<rparr>"
  have run: "sl_run env [Op_timer, Op_poll] s = secure_poll env ?v"
    using tm by (cases "secure_poll env ?v") (simp_all add: sl_timeout_def process_poll_def)
  obtain u l where u: "secure_learn_react env ?v = Some u" "iface_scheme (ctx u) = timeout_scheme s" "networkKey u = networkKey s" "sl_callback u = sl_callback s"
      "stateConf (ctx u) \<in> {LearnMode_Fail, LearnMode_InsecureNet, LearnMode_end, InclusionMode_Fail}" "sl_log u = sl_log s @ l"
      "l = [] \<or> l = [Sl_node_flag (of_int (iface_node (ctx s))) 0 NODE_FLAG_SECURITY0]"
      "stateConf (ctx u) = InclusionMode_Fail \<longleftrightarrow> stateConf (ctx s) \<notin> {LearnMode_Start, LearnMode_Scheme_report, LearnMode_NewKey}"
    by (rule timeout_react [OF q st, of env]) blast
  let ?u = "upd_ctx secure_learn_clearInEvents u" and ?prev = "Some (stateConf (ctx s))"
  have ne: "stateConf (ctx u) \<noteq> stateConf (ctx s)" using u(5) st by (auto simp: timed_def)
  have p: "secure_poll env ?v = secure_poll_loop env ?prev ?u" using poll_first [OF u(1)] ne by (simp add: secure_learn_raiseTimeEvent_def)
  have qu: "quiet (ctx ?u)" "?prev \<noteq> Some (stateConf (ctx ?u))" "length (networkKey ?u) = 16" using ne u(3) len by simp_all
  have "\<exists>t. secure_poll_loop env ?prev ?u = Some t \<and> ended ?u t (flags_of (iface_scheme (ctx ?u)))
      \<and> (stateConf (ctx u) \<noteq> InclusionMode_Fail \<longrightarrow> key_stored (networkKey ?u) t)"
    using u(5) settle_learn_fail [OF qu(1) _ _ _ qu(3), of _ ?prev env] settle_learn_end [OF qu(1) _ _ qu(3), of ?prev env]
      settle_inclusion_fail [OF qu(1), of ?prev env] qu(2)
    by (elim insertE emptyE) auto
  then obtain t where t: "secure_poll env ?v = Some t" "ended ?u t (flags_of (timeout_scheme s))"
      "stateConf (ctx u) \<noteq> InclusionMode_Fail \<longrightarrow> key_stored (networkKey s) t" using p u(2,3) by auto
  have "sl_good True env t" using run t(1) g allowed_good [of True env s Op_timer] allowed_good [of True env _ Op_poll t] tm
    by (auto simp: sl_timeout_def process_poll_def)
  then have "key_in_use env (networkKey t) t" using t(2) by (auto simp: sl_good_def sl_inv_def Let_def ended_def state_sets)
  then show ?thesis using run t u(3,4,6-8) by (auto simp: ended_def)
qed

section \<open>Single steps\<close>

lemma sl_run_append: "sl_run env (xs @ ys) s = Option.bind (sl_run env xs s) (sl_run env ys)"
  by (induction xs arbitrary: s) (simp_all add: fun_eq_iff bind_eq_None_conv split: Option.bind_split)

lemma sl_run_two: "sl_apply env op s = Some v \<Longrightarrow> sl_apply env op' v = Some t \<Longrightarrow> sl_run env [op, op'] s = Some t"
  by simp

lemma poll_rest:
  assumes "secure_learn_react env s = Some u" and "stateConf (ctx u) \<in> waiting"
  shows "secure_poll env s = Some (upd_ctx secure_learn_clearInEvents u)"
proof (cases "stateConf (ctx u) = stateConf (ctx s)")
  case True
  then show ?thesis using assms(1) settle_steps [of None s env] secure_poll_loop.simps [of env "Some (stateConf (ctx s))"]
    by (simp add: secure_poll_def secure_learn_runCycle_def)
next
  case False
  let ?u = "upd_ctx secure_learn_clearInEvents u"
  have "secure_learn_runCycle env ?u = Some ?u" using assms(2) by (intro quiet_cycle_rest) simp_all
  then show ?thesis
    using poll_first [OF assms(1) False] False settle_steps [of "Some (stateConf (ctx s))" ?u env ?u] secure_poll_loop.simps [of env "Some (stateConf (ctx ?u))" ?u]
    by simp
qed

text \<open>An operation that raises an event and the poll that follows.\<close>

lemma op_poll:
  assumes "sl_good True env s" and "sl_allowed op" and "sl_apply env op s = Some v" and "secure_learn_react env (v \<lparr> sl_poll := False \<rparr>) = Some u"
    and "stateConf (ctx u) \<in> waiting"
  shows "sl_run env [op, Op_poll] s = Some (upd_ctx secure_learn_clearInEvents u)" "sl_good True env (upd_ctx secure_learn_clearInEvents u)"
proof -
  have p: "sl_apply env Op_poll v = Some (upd_ctx secure_learn_clearInEvents u)" using poll_rest [OF assms(4,5)] by simp
  then show "sl_run env [op, Op_poll] s = Some (upd_ctx secure_learn_clearInEvents u)" by (rule sl_run_two [OF assms(3)])
  show "sl_good True env (upd_ctx secure_learn_clearInEvents u)"
    using allowed_good [OF allowed_good [OF assms(1-3)] _ p] by simp
qed

definition at_rest :: "sl_env \<Rightarrow> Secure_learnStates \<Rightarrow> sl_state \<Rightarrow> bool" where
  "at_rest env st s \<longleftrightarrow> sl_good True env s \<and> quiet (ctx s) \<and> stateConf (ctx s) = st"

lemma learn_started:
  assumes "at_rest env Idle s"
  obtains t where "sl_run env [Op_learn cb, Op_poll] s = Some t" "at_rest env LearnMode_Start t" "sl_callback t = cb"
proof -
  let ?v = "security_learn_begin env cb s"
  let ?u = "the (secure_learn_react env (?v \<lparr> sl_poll := False \<rparr>))"
  have st: "stateConf (ctx s) = Idle" and g: "sl_good True env s" using assms by (simp_all add: at_rest_def)
  have u: "secure_learn_react env (?v \<lparr> sl_poll := False \<rparr>) = Some ?u" "stateConf (ctx ?u) = LearnMode_Start" "sl_callback ?u = cb"
    using st by (simp_all add: security_learn_begin_def secure_learn_isActive_def process_poll_def secure_learn_react_def react_Idle_def action_defs)
  have a: "sl_apply env (Op_learn cb) s = Some ?v" "sl_allowed (Op_learn cb)" by simp_all
  show thesis
    using op_poll [OF g a(2,1) u(1)] u(2,3) by (intro that [of "upd_ctx secure_learn_clearInEvents ?u"]) (simp_all add: at_rest_def state_sets)
qed

lemma scheme_asked:
  assumes r: "at_rest env LearnMode_Start s" and p: "ts_scheme p = NO_SCHEME"
  obtains t where "sl_run env [Op_frame p [0x98, 0x04, x] 3, Op_poll] s = Some t" "at_rest env LearnMode_Scheme_report t" "sl_callback t = sl_callback s"
    "iface_node (ctx t) = uint (snode p)"
proof -
  have st: "stateConf (ctx s) = LearnMode_Start" and g: "sl_good True env s" and q: "quiet (ctx s)" using r by (simp_all add: at_rest_def)
  let ?op = "Op_frame p [0x98, 0x04, x] 3"
  let ?v = "the (sl_apply env ?op s)"
  let ?u = "the (secure_learn_react env (?v \<lparr> sl_poll := False \<rparr>))"
  have a: "sl_apply env ?op s = Some ?v" "sl_allowed ?op"
    using st by (simp_all add: security_CommandHandler_def security_command_def secure_learn_isActive_def Let_def)
  have u: "secure_learn_react env (?v \<lparr> sl_poll := False \<rparr>) = Some ?u" "stateConf (ctx ?u) = LearnMode_Scheme_report" "sl_callback ?u = sl_callback s"
      "iface_node (ctx ?u) = uint (snode p)"
    using st p by (simp_all add: security_CommandHandler_def security_command_def secure_learn_isActive_def process_poll_def secure_learn_react_def
        react_LearnMode_Start_def action_defs Let_def)
  show thesis
    using op_poll [OF g a(2,1) u(1)] u(2-4) by (intro that [of "upd_ctx secure_learn_clearInEvents ?u"]) (simp_all add: at_rest_def state_sets)
qed

text \<open>Sample states of a learn mode.\<close>

lemma sample_learning:
  obtains s where "sl_reachable sample_sl_env s" "at_rest sample_sl_env LearnMode_Scheme_report s" "iface_node (ctx s) = 2" "sl_callback s = Some 5"
proof -
  obtain s where s: "sl_reachable sample_sl_env s" "stateConf (ctx s) = Idle" "quiet (ctx s)" using sample_started [of "\<lambda>_. True"] unfolding sample_env_eq by metis
  have r: "at_rest sample_sl_env Idle s" using s reachable_good by (simp add: at_rest_def)
  obtain t where t: "sl_run sample_sl_env [Op_learn (Some 5), Op_poll] s = Some t" "at_rest sample_sl_env LearnMode_Start t" "sl_callback t = Some 5"
    by (rule learn_started [OF r])
  let ?p = "sample_s0_param \<lparr> ts_scheme := NO_SCHEME \<rparr>"
  obtain u where u: "sl_run sample_sl_env [Op_frame ?p [0x98, 0x04, 0] 3, Op_poll] t = Some u" "at_rest sample_sl_env LearnMode_Scheme_report u"
      "sl_callback u = sl_callback t" "iface_node (ctx u) = uint (snode ?p)"
    by (rule scheme_asked [OF t(2), of ?p]) simp
  have "sl_reachable sample_sl_env t" by (rule run_reachable [OF s(1) _ t(1)]) simp
  then have "sl_reachable sample_sl_env u" by (rule run_reachable [OF _ _ u(1)]) simp
  then show thesis using u t(3) by (intro that [of u]) (simp_all add: sample_s0_param_def)
qed



section \<open>A foreign key\<close>

text \<open>
  C39.  While the gateway waits for the network key it takes a key from any node: a key from another node than the one that
  includes it replaces the network key at once.  The machine ignores the key, times out and reports failure, but the key has
  been stored, is marked as granted and stays in use.
\<close>

theorem foreign_key_taken:
  assumes r: "sl_reachable env s" and q: "quiet (ctx s)" and st: "stateConf (ctx s) = LearnMode_Scheme_report"
    and p: "ts_scheme p = SECURITY_SCHEME_0" "uint (snode p) \<noteq> iface_node (ctx s)" and k: "length k = 16" and cb: "sl_callback s = Some cb"
  shows "\<exists>t. sl_run env [Op_frame p ([0x98, 0x06] @ k) 18, Op_poll, Op_timer, Op_poll] s = Some t \<and> stateConf (ctx t) = Idle
    \<and> last (sl_log t) = Sl_complete cb NODE_FLAG_KNOWN_BAD \<and> networkKey t = k \<and> key_stored k t \<and> key_in_use env k t"
proof -
  have g: "sl_good True env s" by (rule reachable_good [OF r])
  let ?c = "\<lambda>c. c \<lparr> txOptions := uint ((if rx_flags p AND RECEIVE_STATUS_LOW_POWER \<noteq> 0 then TRANSMIT_OPTION_LOW_POWER else 0) OR TRANSMIT_OPTION_ACK OR TRANSMIT_OPTION_EXPLORE),
      key_set := Some (uint (snode p)) \<rparr>"
  define u where "u = process_poll (upd_ctx ?c (set_key env k (s \<lparr> networkKey := k \<rparr>)))"
  define v where "v = upd_ctx secure_learn_clearInEvents (u \<lparr> sl_poll := False \<rparr>)"
  have a: "sl_apply env (Op_frame p ([0x98, 0x06] @ k) 18) s = Some u"
    using st p(1) k by (simp add: security_CommandHandler_def security_command_def secure_learn_isActive_def u_def Let_def)
  have "secure_learn_react env (u \<lparr> sl_poll := False \<rparr>) = Some (u \<lparr> sl_poll := False \<rparr>)"
    using st p(2) q by (simp add: u_def process_poll_def secure_learn_react_def react_LearnMode_Scheme_report_def quiet_iff)
  moreover have su: "stateConf (ctx u) = LearnMode_Scheme_report" using st by (simp add: u_def process_poll_def)
  ultimately have b: "sl_apply env Op_poll u = Some v" using poll_rest [of env "u \<lparr> sl_poll := False \<rparr>"] by (simp add: v_def state_sets)
  have gv: "sl_good True env v" using allowed_good [OF allowed_good [OF g _ a] _ b] k by simp
  have v: "quiet (ctx v)" "stateConf (ctx v) \<in> timed" "stateConf (ctx v) = LearnMode_Scheme_report" "networkKey v = k" "sl_callback v = Some cb"
    using su cb by (simp_all add: v_def timed_def u_def process_poll_def)
  obtain t l where t: "sl_run env [Op_timer, Op_poll] v = Some t" "stateConf (ctx t) = Idle" "key_in_use env k t" "networkKey t = k"
      "sl_log t = sl_log v @ l @ [Sl_complete cb (flags_of (timeout_scheme v))]" "key_stored k t"
    using times_out [OF gv v(1,2)] v(3-5) by auto
  have "sl_run env [Op_frame p ([0x98, 0x06] @ k) 18, Op_poll, Op_timer, Op_poll] s = Some t"
    using a b t(1) by (simp only: sl_run.simps Option.bind_lunit)
  then show ?thesis using t(2-6) v(3) by (simp add: timeout_scheme_def flags_of_def)
qed

lemma foreign_key_taken_witness:
  "\<exists>s t. sl_reachable sample_sl_env s \<and> iface_node (ctx s) = 2 \<and> stateConf (ctx t) = Idle
     \<and> sl_run sample_sl_env [Op_frame (sample_s0_param \<lparr> snode := 9 \<rparr>) ([0x98, 0x06] @ replicate 16 7) 18, Op_poll, Op_timer, Op_poll] s = Some t
     \<and> networkKey t = replicate 16 7 \<and> key_stored (replicate 16 7) t"
proof -
  obtain s where s: "sl_reachable sample_sl_env s" "at_rest sample_sl_env LearnMode_Scheme_report s" "iface_node (ctx s) = 2" "sl_callback s = Some 5"
    by (rule sample_learning)
  let ?p = "sample_s0_param \<lparr> snode := 9 \<rparr>"
  have "quiet (ctx s)" "stateConf (ctx s) = LearnMode_Scheme_report" "ts_scheme ?p = SECURITY_SCHEME_0" "uint (snode ?p) \<noteq> iface_node (ctx s)"
    using s by (simp_all add: at_rest_def sample_s0_param_def)
  then show ?thesis using foreign_key_taken [OF s(1), of ?p "replicate 16 7" 5] s(1,3,4) by fastforce
qed

section \<open>Including a node\<close>

lemma scheme_odd: "uint ((x AND 0xFE) OR 1 :: u8) AND 1 = 1" "0 < uint ((x AND 0xFE) OR 1 :: u8)"
proof -
  have o: "odd (uint ((x AND 0xFE) OR 1 :: u8))" by (simp add: unsigned_or_eq even_or_iff)
  then show "uint ((x AND 0xFE) OR 1 :: u8) AND 1 = 1" by (simp add: and_one_eq mod_2_eq_odd)
  have "uint ((x AND 0xFE) OR 1 :: u8) \<noteq> 0" using o by auto
  then show "0 < uint ((x AND 0xFE) OR 1 :: u8)" using uint_ge_0 [of "(x AND 0xFE) OR 1"] by linarith
qed

lemma uint_node: "uint (ucast (n :: u8) :: nodeid) = uint n"
  using uint_lt2p [of n] by (simp add: unsigned_ucast_eq take_bit_int_eq_self)

lemma send_and_raise_ok: "sl_send_ok env (sl_log s @ [Sl_send ((ts_set_std (sl_s0env env s) (of_int n) (stack_param (ks_s0env (sl_ks env)))) \<lparr> ts_scheme := sc, tx_flags := of_int t \<rparr>) f])
    \<Longrightarrow> send_and_raise env n f t sc s = sl_emit (Sl_send ((ts_set_std (sl_s0env env s) (of_int n) (stack_param (ks_s0env (sl_ks env)))) \<lparr> ts_scheme := sc, tx_flags := of_int t \<rparr>) f) s"
  by (simp add: send_and_raise_def Let_def)

text \<open>The inclusion of node \<open>n\<close> on its way: the callback, the key and what has been sent so far.\<close>

definition being_included :: "sl_env \<Rightarrow> Secure_learnStates \<Rightarrow> u8 \<Rightarrow> nat \<Rightarrow> bytes \<Rightarrow> sl_effect list \<Rightarrow> sl_state \<Rightarrow> bool" where
  "being_included env st n cb k l s \<longleftrightarrow> at_rest env st s \<and> iface_node (ctx s) = uint n \<and> \<not> isController (ctx s) \<and> sl_callback s = Some cb \<and> networkKey s = k \<and> sl_log s = l"

lemma inclusion_started:
  assumes r: "at_rest env Idle s" and ok: "\<forall>l. sl_send_ok env l" and n: "\<not> isNodeSecure env (sl_log s) (ucast n)"
  obtains t q where "sl_run env [Op_add n opt False (Some cb), Op_poll] s = Some t"
    "being_included env InclusionMode_SchemeRequest n cb (networkKey s) (sl_log s @ [Sl_send q [0x98, 0x04, 0]]) t" "dnode q = ucast n" "ts_scheme q = NO_SCHEME"
proof -
  have st: "stateConf (ctx s) = Idle" and g: "sl_good True env s" and q: "\<not> learnRequest (ctx s)" using r by (simp_all add: at_rest_def quiet_iff)
  let ?op = "Op_add n opt False (Some cb)"
  let ?v = "the (sl_apply env ?op s)"
  let ?u = "the (secure_learn_react env (?v \<lparr> sl_poll := False \<rparr>))"
  have a: "sl_apply env ?op s = Some ?v" "sl_allowed ?op" by simp_all
  have u: "secure_learn_react env (?v \<lparr> sl_poll := False \<rparr>) = Some ?u" "stateConf (ctx ?u) = InclusionMode_SchemeRequest"
      "\<exists>q. sl_log ?u = sl_log s @ [Sl_send q [0x98, 0x04, 0]] \<and> dnode q = ucast n \<and> ts_scheme q = NO_SCHEME"
      "iface_node (ctx ?u) = uint n" "\<not> isController (ctx ?u)" "sl_callback ?u = Some cb" "networkKey ?u = networkKey s"
    using st n q ok by (simp_all add: security_add_begin_def secure_learn_isActive_def process_poll_def secure_learn_react_def react_Idle_def action_defs Let_def
        send_and_raise_ok ts_set_std_def)
  then obtain q where "sl_log ?u = sl_log s @ [Sl_send q [0x98, 0x04, 0]]" "dnode q = ucast n" "ts_scheme q = NO_SCHEME" by blast
  then show thesis
    using op_poll [OF g a(2,1) u(1)] u(2,4-7)
    by (intro that [of "upd_ctx secure_learn_clearInEvents ?u" q]) (simp_all add: being_included_def at_rest_def state_sets)
qed

lemma scheme_reported:
  assumes r: "being_included env InclusionMode_SchemeRequest n cb k l s" and ok: "\<forall>l. sl_send_ok env l" and p: "snode p = ucast n"
  obtains t q where "sl_run env [Op_frame p [0x98, 0x05, x] 3, Op_poll] s = Some t" "0 < iface_scheme (ctx t)" "iface_scheme (ctx t) AND 1 = 1"
    "being_included env InclusionMode_SendKey n cb k (l @ [Sl_node_flag (ucast n) NODE_FLAG_SECURITY0 NODE_FLAG_SECURITY0, Sl_send q ([0x98, 0x06] @ k)]) t"
    "dnode q = ucast n" "ts_scheme q = SECURITY_SCHEME_0" "key_in_use env (replicate 16 0) t"
proof -
  have st: "stateConf (ctx s) = InclusionMode_SchemeRequest" "iface_node (ctx s) = uint n" "\<not> isController (ctx s)" "sl_callback s = Some cb" "networkKey s = k" "sl_log s = l"
      and g: "sl_good True env s" using r by (simp_all add: being_included_def at_rest_def)
  let ?op = "Op_frame p [0x98, 0x05, x] 3"
  let ?v = "the (sl_apply env ?op s)"
  let ?u = "the (secure_learn_react env (?v \<lparr> sl_poll := False \<rparr>))"
  note up = uint_node [of n]
  have a: "sl_apply env ?op s = Some ?v" "sl_allowed ?op"
    using st by (simp_all add: security_CommandHandler_def security_command_def secure_learn_isActive_def Let_def)
  have u: "secure_learn_react env (?v \<lparr> sl_poll := False \<rparr>) = Some ?u" "stateConf (ctx ?u) = InclusionMode_SendKey"
      "\<exists>q. sl_log ?u = l @ [Sl_node_flag (ucast n) NODE_FLAG_SECURITY0 NODE_FLAG_SECURITY0, Sl_send q ([0x98, 0x06] @ k)] \<and> dnode q = ucast n \<and> ts_scheme q = SECURITY_SCHEME_0"
      "iface_node (ctx ?u) = uint n" "\<not> isController (ctx ?u)" "sl_callback ?u = Some cb" "networkKey ?u = k"
      "iface_scheme (ctx ?u) = uint ((x AND 0xFE) OR 1)" "key_in_use env (replicate 16 0) ?u"
    using st ok p up scheme_odd [of x]
    by (simp_all add: security_CommandHandler_def security_command_def secure_learn_isActive_def process_poll_def secure_learn_react_def
        react_InclusionMode_SchemeRequest_def action_defs Let_def send_and_raise_ok ts_set_std_def key_in_use_def)
  then obtain q where "sl_log ?u = l @ [Sl_node_flag (ucast n) NODE_FLAG_SECURITY0 NODE_FLAG_SECURITY0, Sl_send q ([0x98, 0x06] @ k)]" "dnode q = ucast n"
    "ts_scheme q = SECURITY_SCHEME_0" by blast
  then show thesis
    using op_poll [OF g a(2,1) u(1)] u(2,4-9) scheme_odd [of x]
    by (intro that [of "upd_ctx secure_learn_clearInEvents ?u" q]) (simp_all add: being_included_def at_rest_def state_sets key_in_use_def)
qed

lemma key_sent:
  assumes r: "being_included env InclusionMode_SendKey n cb k l s"
  obtains t where "sl_run env [Op_sent TRANSMIT_COMPLETE_OK, Op_poll] s = Some t" "iface_scheme (ctx t) = iface_scheme (ctx s)"
    "being_included env InclusionMode_waitVerify n cb k l t" "key_in_use env k t"
proof -
  have st: "stateConf (ctx s) = InclusionMode_SendKey" "iface_node (ctx s) = uint n" "\<not> isController (ctx s)" "sl_callback s = Some cb" "networkKey s = k" "sl_log s = l"
      "timeEvents (ctx s) = {}" "\<not> tx_failed (ctx s)" and g: "sl_good True env s" using r by (simp_all add: being_included_def at_rest_def quiet_iff)
  let ?op = "Op_sent TRANSMIT_COMPLETE_OK"
  let ?v = "the (sl_apply env ?op s)"
  let ?u = "the (secure_learn_react env (?v \<lparr> sl_poll := False \<rparr>))"
  have a: "sl_apply env ?op s = Some ?v" "sl_allowed ?op" by simp_all
  have u: "secure_learn_react env (?v \<lparr> sl_poll := False \<rparr>) = Some ?u" "stateConf (ctx ?u) = InclusionMode_waitVerify" "sl_log ?u = l" "iface_node (ctx ?u) = uint n"
      "\<not> isController (ctx ?u)" "sl_callback ?u = Some cb" "networkKey ?u = k" "iface_scheme (ctx ?u) = iface_scheme (ctx s)" "key_in_use env k ?u"
    using st by (simp_all add: send_data_callback_def process_poll_def secure_learn_react_def react_InclusionMode_SendKey_def action_defs Let_def key_in_use_def)
  then show thesis
    using op_poll [OF g a(2,1) u(1)] by (intro that [of "upd_ctx secure_learn_clearInEvents ?u"]) (simp_all add: being_included_def at_rest_def state_sets key_in_use_def)
qed

lemma key_verified:
  assumes r: "being_included env InclusionMode_waitVerify n cb k l s" and p: "snode p = ucast n" "ts_scheme p = SECURITY_SCHEME_0"
    and sc: "0 < iface_scheme (ctx s)" "iface_scheme (ctx s) AND 1 = 1"
  obtains t where "sl_run env [Op_frame p [0x98, 0x07] 2, Op_poll] s = Some t" "at_rest env Idle t" "networkKey t = k" "key_in_use env k t"
    "sl_log t = l @ [Sl_node_flag (ucast n) NODE_FLAG_SECURITY0 NODE_FLAG_SECURITY0, Sl_complete cb NODE_FLAG_SECURITY0]"
proof -
  have st: "stateConf (ctx s) = InclusionMode_waitVerify" "iface_node (ctx s) = uint n" "\<not> isController (ctx s)" "sl_callback s = Some cb" "networkKey s = k" "sl_log s = l"
      and g: "sl_good True env s" using r by (simp_all add: being_included_def at_rest_def)
  let ?op = "Op_frame p [0x98, 0x07] 2"
  let ?v = "the (sl_apply env ?op s)"
  let ?w = "?v \<lparr> sl_poll := False \<rparr>"
  let ?u = "the (secure_learn_react env ?w)"
  have a: "sl_apply env ?op s = Some ?v" "sl_allowed ?op"
    using st by (simp_all add: security_CommandHandler_def security_command_def secure_learn_isActive_def Let_def)
  have u: "secure_learn_react env ?w = Some ?u" "stateConf (ctx ?u) = InclusionMode_end" "stateConf (ctx ?w) = InclusionMode_waitVerify"
      "sl_log ?u = l @ [Sl_node_flag (ucast n) NODE_FLAG_SECURITY0 NODE_FLAG_SECURITY0]" "sl_callback ?u = Some cb" "networkKey ?u = k" "iface_scheme (ctx ?u) = iface_scheme (ctx s)"
    using st p sc(2) uint_node [of n]
    by (simp_all add: security_CommandHandler_def security_command_def secure_learn_isActive_def process_poll_def secure_learn_react_def
        react_InclusionMode_waitVerify_def action_defs Let_def)
  have pl: "secure_poll env ?w = secure_poll_loop env (Some InclusionMode_waitVerify) (upd_ctx secure_learn_clearInEvents ?u)"
    using poll_first [OF u(1)] u(2,3) by simp
  obtain t where t: "secure_poll env ?w = Some t" "ended (upd_ctx secure_learn_clearInEvents ?u) t NODE_FLAG_SECURITY0"
    using settle_inclusion_end [of "upd_ctx secure_learn_clearInEvents ?u" "Some InclusionMode_waitVerify" env] u(2,7) sc(1) unfolding pl by (auto simp: flags_of_def)
  have "sl_apply env Op_poll ?v = Some t" using t(1) by simp
  then have run: "sl_run env [?op, Op_poll] s = Some t" by (rule sl_run_two [OF a(1)])
  have "sl_good True env t" using allowed_good [OF allowed_good [OF g a(2,1)], of Op_poll t] t(1) by simp
  moreover have "key_in_use env (networkKey t) t" if "sl_good True env t" using that t(2) by (auto simp: sl_good_def sl_inv_def Let_def ended_def state_sets)
  ultimately show thesis using run t(2) u(4-6) by (intro that [of t]) (simp_all add: ended_def at_rest_def)
qed

text \<open>
  C13.  The gateway includes a node that is not a controller: it asks for the schemes and, when the node has reported them, sends the
  network key; at that moment, and until the sender has reported the frame, the inclusion key of zeros is the key in use.  Then it takes its own key back
  into use, and when the node has verified the key the node is registered, the callback is told and the machine is idle.  That
  happens for every network key and for every node that is not yet known to be secure, as long as the sender takes the frames and reports the key as sent.
\<close>

theorem s0_inclusion_succeeds:
  assumes r: "sl_reachable env s" "stateConf (ctx s) = Idle" "quiet (ctx s)" and ok: "\<forall>l. sl_send_ok env l" and n: "\<not> isNodeSecure env (sl_log s) (ucast n)"
    and p: "snode p = ucast n" "snode p' = ucast n" "ts_scheme p' = SECURITY_SCHEME_0"
  shows "\<exists>u v t q q'. sl_run env [Op_add n opt False (Some cb), Op_poll, Op_frame p [0x98, 0x05, x] 3, Op_poll] s = Some u
    \<and> last (sl_log u) = Sl_send q' ([0x98, 0x06] @ networkKey s) \<and> stateConf (ctx u) = InclusionMode_SendKey \<and> key_in_use env (replicate 16 0) u
    \<and> sl_run env [Op_sent TRANSMIT_COMPLETE_OK, Op_poll] u = Some v \<and> stateConf (ctx v) = InclusionMode_waitVerify \<and> key_in_use env (networkKey s) v
    \<and> sl_run env [Op_frame p' [0x98, 0x07] 2, Op_poll] v = Some t
    \<and> stateConf (ctx t) = Idle \<and> networkKey t = networkKey s \<and> key_in_use env (networkKey s) t \<and> dnode q = ucast n \<and> dnode q' = ucast n \<and> ts_scheme q' = SECURITY_SCHEME_0
    \<and> sl_log t = sl_log s @ [Sl_send q [0x98, 0x04, 0], Sl_node_flag (ucast n) NODE_FLAG_SECURITY0 NODE_FLAG_SECURITY0, Sl_send q' ([0x98, 0x06] @ networkKey s),
         Sl_node_flag (ucast n) NODE_FLAG_SECURITY0 NODE_FLAG_SECURITY0, Sl_complete cb NODE_FLAG_SECURITY0]"
proof -
  have rest: "at_rest env Idle s" using r reachable_good by (simp add: at_rest_def)
  obtain s1 q where s1: "sl_run env [Op_add n opt False (Some cb), Op_poll] s = Some s1"
    "being_included env InclusionMode_SchemeRequest n cb (networkKey s) (sl_log s @ [Sl_send q [0x98, 0x04, 0]]) s1" "dnode q = ucast n"
    by (rule inclusion_started [OF rest ok n])
  obtain s2 q' where s2: "sl_run env [Op_frame p [0x98, 0x05, x] 3, Op_poll] s1 = Some s2" "0 < iface_scheme (ctx s2)" "iface_scheme (ctx s2) AND 1 = 1"
    "being_included env InclusionMode_SendKey n cb (networkKey s) ((sl_log s @ [Sl_send q [0x98, 0x04, 0]])
       @ [Sl_node_flag (ucast n) NODE_FLAG_SECURITY0 NODE_FLAG_SECURITY0, Sl_send q' ([0x98, 0x06] @ networkKey s)]) s2"
    "dnode q' = ucast n" "ts_scheme q' = SECURITY_SCHEME_0"
    by (rule scheme_reported [OF s1(2) ok p(1)])
  obtain s3 where s3: "sl_run env [Op_sent TRANSMIT_COMPLETE_OK, Op_poll] s2 = Some s3" "iface_scheme (ctx s3) = iface_scheme (ctx s2)"
    "being_included env InclusionMode_waitVerify n cb (networkKey s) ((sl_log s @ [Sl_send q [0x98, 0x04, 0]])
       @ [Sl_node_flag (ucast n) NODE_FLAG_SECURITY0 NODE_FLAG_SECURITY0, Sl_send q' ([0x98, 0x06] @ networkKey s)]) s3"
    by (rule key_sent [OF s2(4)])
  have sc: "0 < iface_scheme (ctx s3)" "iface_scheme (ctx s3) AND 1 = 1" using s2(2,3) s3(2) by simp_all
  obtain t where t: "sl_run env [Op_frame p' [0x98, 0x07] 2, Op_poll] s3 = Some t" "at_rest env Idle t" "networkKey t = networkKey s" "key_in_use env (networkKey s) t"
    "sl_log t = ((sl_log s @ [Sl_send q [0x98, 0x04, 0]]) @ [Sl_node_flag (ucast n) NODE_FLAG_SECURITY0 NODE_FLAG_SECURITY0, Sl_send q' ([0x98, 0x06] @ networkKey s)])
       @ [Sl_node_flag (ucast n) NODE_FLAG_SECURITY0 NODE_FLAG_SECURITY0, Sl_complete cb NODE_FLAG_SECURITY0]"
    by (rule key_verified [OF s3(3) p(2,3) sc])
  have "sl_run env ([Op_add n opt False (Some cb), Op_poll] @ [Op_frame p [0x98, 0x05, x] 3, Op_poll]) s = Some s2"
    unfolding sl_run_append s1(1) s2(1) Option.bind_lunit ..
  moreover have "stateConf (ctx s2) = InclusionMode_SendKey" "key_in_use env (replicate 16 0) s2" "last (sl_log s2) = Sl_send q' ([0x98, 0x06] @ networkKey s)"
    using s2(4) by (simp_all add: being_included_def at_rest_def sl_good_def sl_inv_def Let_def)
  moreover have "stateConf (ctx s3) = InclusionMode_waitVerify" "key_in_use env (networkKey s) s3"
    using s3(3) by (auto simp: being_included_def at_rest_def sl_good_def sl_inv_def Let_def state_sets)
  ultimately show ?thesis using t s1(3) s2(5,6) s3(1)
    by (intro exI [of _ s2] exI [of _ s3] exI [of _ t] exI [of _ q] exI [of _ q']) (simp add: at_rest_def del: sl_run.simps)
qed

lemma s0_inclusion_succeeds_witness:
  "\<exists>s u v t. sl_reachable sample_sl_env s \<and> sl_run sample_sl_env [Op_add 2 0 False (Some 5), Op_poll, Op_frame sample_s0_param [0x98, 0x05, 0] 3, Op_poll] s = Some u
     \<and> key_in_use sample_sl_env (replicate 16 0) u \<and> sl_run sample_sl_env [Op_sent TRANSMIT_COMPLETE_OK, Op_poll] u = Some v
     \<and> sl_run sample_sl_env [Op_frame sample_s0_param [0x98, 0x07] 2, Op_poll] v = Some t
     \<and> stateConf (ctx t) = Idle \<and> last (sl_log t) = Sl_complete 5 NODE_FLAG_SECURITY0"
proof -
  obtain s where s: "sl_reachable sample_sl_env s" "stateConf (ctx s) = Idle" "quiet (ctx s)" using sample_started [of "\<lambda>_. True"] unfolding sample_env_eq by metis
  have p: "\<forall>l. sl_send_ok sample_sl_env l" "\<not> isNodeSecure sample_sl_env (sl_log s) (ucast (2 :: u8))" "snode sample_s0_param = ucast (2 :: u8)"
      "ts_scheme sample_s0_param = SECURITY_SCHEME_0"
    by (simp_all add: sample_sl_env_def sample_s0_param_def isNodeSecure_def node_flag_defs)
  obtain u v t q q' where "sl_run sample_sl_env [Op_add 2 0 False (Some 5), Op_poll, Op_frame sample_s0_param [0x98, 0x05, 0] 3, Op_poll] s = Some u"
      "key_in_use sample_sl_env (replicate 16 0) u" "sl_run sample_sl_env [Op_sent TRANSMIT_COMPLETE_OK, Op_poll] u = Some v"
      "sl_run sample_sl_env [Op_frame sample_s0_param [0x98, 0x07] 2, Op_poll] v = Some t" "stateConf (ctx t) = Idle"
      "sl_log t = sl_log s @ [Sl_send q [0x98, 0x04, 0], Sl_node_flag (ucast (2 :: u8)) NODE_FLAG_SECURITY0 NODE_FLAG_SECURITY0, Sl_send q' ([0x98, 0x06] @ networkKey s),
         Sl_node_flag (ucast (2 :: u8)) NODE_FLAG_SECURITY0 NODE_FLAG_SECURITY0, Sl_complete 5 NODE_FLAG_SECURITY0]"
    using s0_inclusion_succeeds [OF s p(1,2,3,3,4), of 0 5 0] by blast
  then show ?thesis using s(1) by (intro exI [of _ s] exI [of _ u] exI [of _ v] exI [of _ t]) simp
qed

section \<open>A refused report\<close>

lemma frame_events:
  assumes "security_command env p f n s = Some t"
  shows "stateConf (ctx t) = stateConf (ctx s) \<and> tx_done (ctx t) = tx_done (ctx s) \<and> tx_failed (ctx t) = tx_failed (ctx s)"
proof -
  have l: "ctx t = ctx s" if "lift_s0 g s = Some t" for g using that by (auto simp: lift_s0_def)
  have e: "ctx t = ctx s" if "s0_encapsulated env p f n s = Some t" using encapsulated_keys(1) [OF that] .
  show ?thesis using assms l e unfolding security_command_def Let_def by (auto split: if_splits)
qed

fun no_report :: "sl_op \<Rightarrow> bool" where
  "no_report (Op_sent _) \<longleftrightarrow> False"
| "no_report Op_abort \<longleftrightarrow> False"
| "no_report _ \<longleftrightarrow> True"

definition report_stuck :: "sl_state \<Rightarrow> bool" where
  "report_stuck s \<longleftrightarrow> stateConf (ctx s) = SendReport \<and> \<not> tx_done (ctx s) \<and> \<not> tx_failed (ctx s)"

lemma stuck_apply:
  assumes s: "report_stuck s" and op: "no_report op" and t: "sl_apply env op s = Some t"
  shows "report_stuck t"
proof (cases op)
  case Op_poll
  let ?s = "s \<lparr> sl_poll := False \<rparr>"
  have "secure_learn_react env ?s = Some ?s" "stateConf (ctx ?s) \<in> waiting"
    using s by (simp_all add: report_stuck_def secure_learn_react_def react_SendReport_def state_sets)
  then show ?thesis using poll_rest [of env ?s ?s] t Op_poll s by (auto simp: report_stuck_def secure_learn_clearInEvents_def)
next
  case (Op_frame p f n)
  then show ?thesis using t s frame_events [of env p f n s]
    by (auto simp: report_stuck_def security_CommandHandler_def process_poll_def split: if_splits)
qed (use assms in \<open>auto simp: report_stuck_def security_learn_begin_def security_add_begin_def secure_learn_isActive_def sl_timeout_def process_poll_def
      secure_learn_raiseTimeEvent_def security_set_supported_classes_def split: option.splits\<close>)

lemma stuck_run: "report_stuck s \<Longrightarrow> list_all no_report ops \<Longrightarrow> sl_run env ops s = Some t \<Longrightarrow> report_stuck t"
proof (induction ops arbitrary: s)
  case (Cons op ops)
  then obtain u where "sl_apply env op s = Some u" "sl_run env ops u = Some t" by (auto simp: bind_eq_Some_conv)
  then show ?case using Cons.IH [of u] Cons.prems(1,2) stuck_apply by auto
qed simp

lemma report_logs: "secure_learnIface_send_commands_supported env s = Some t \<Longrightarrow> \<exists>q f. sl_log t = sl_log s @ [Sl_send q f]"
  by (auto simp: secure_learnIface_send_commands_supported_def send_and_raise_ex_def Let_def split: if_splits)

text \<open>
  C40.  When the sender refuses the report of the supported commands, the failure is raised in the cycle that clears all
  events at its end, and it is lost.  The state has no timer: without a report for some other frame or an abort the machine
  stays there for ever, and no node can be included.
\<close>

theorem refused_report_blocks:
  assumes r: "sl_reachable env s" "stateConf (ctx s) = Idle" "quiet (ctx s)" and no: "\<forall>q f. \<not> sl_send_ok env (sl_log s @ [Sl_send q f])"
    and p: "ts_scheme p = SECURITY_SCHEME_0" "sl_assigned_keys s AND KEY_CLASS_S0 \<noteq> 0"
  shows "\<exists>t. sl_run env [Op_frame p [0x98, 0x02] 2, Op_poll] s = Some t \<and> (\<exists>q f. sl_log t = sl_log s @ [Sl_send q f]) \<and> \<not> sl_send_ok env (sl_log t)
    \<and> \<not> tx_failed (ctx t) \<and> (\<forall>ops u. list_all no_report ops \<longrightarrow> sl_run env ops t = Some u \<longrightarrow> stateConf (ctx u) = SendReport \<and> \<not> fst (security_add_begin env n opt ctl cb u))"
proof -
  have g: "sl_good True env s" by (rule reachable_good [OF r(1)])
  let ?op = "Op_frame p [0x98, 0x02] 2"
  let ?v = "the (sl_apply env ?op s)"
  have a: "sl_apply env ?op s = Some ?v" "sl_allowed ?op"
    using r(2) p by (simp_all add: security_CommandHandler_def security_command_def secure_learn_isActive_def Let_def)
  have v: "stateConf (ctx ?v) = Idle" "commandsSupportedRequest (ctx ?v)" "\<not> learnRequest (ctx ?v)" "inclusionRequest (ctx ?v) = None" "sl_log ?v = sl_log s"
    using r p by (simp_all add: security_CommandHandler_def security_command_def secure_learn_isActive_def process_poll_def Let_def quiet_iff)
  have "sl_good True env ?v" by (rule allowed_good [OF g a(2,1)])
  then have "unat (secureCommandClassesListCount (leave (?v \<lparr> sl_poll := False \<rparr>))) \<le> 61" by (simp add: sl_good_def sl_inv_def Let_def leave_def sl_goto_def)
  then obtain w where w: "secure_learnIface_send_commands_supported env (leave (?v \<lparr> sl_poll := False \<rparr>)) = Some w" by (rule report_fits)
  then have re: "secure_learn_react env (?v \<lparr> sl_poll := False \<rparr>) = Some (sl_goto SendReport w)" using v by (simp add: secure_learn_react_def react_Idle_def)
  let ?t = "upd_ctx secure_learn_clearInEvents (sl_goto SendReport w)"
  have run: "sl_run env [?op, Op_poll] s = Some ?t" by (rule op_poll(1) [OF g a(2,1) re]) (simp add: sl_goto_def state_sets)
  have "report_stuck ?t" by (simp add: report_stuck_def sl_goto_def secure_learn_clearInEvents_def)
  then have "stateConf (ctx u) = SendReport \<and> \<not> fst (security_add_begin env n opt ctl cb u)" if "list_all no_report ops" "sl_run env ops ?t = Some u" for ops u
    using stuck_run [OF _ that] by (simp add: report_stuck_def security_add_begin_def secure_learn_isActive_def)
  moreover have "\<exists>q f. sl_log ?t = sl_log s @ [Sl_send q f]" using report_logs [OF w] v(5) by (simp add: leave_def sl_goto_def)
  ultimately show ?thesis using run no by (intro exI [of _ ?t]) (auto simp: sl_goto_def secure_learn_clearInEvents_def)
qed

lemma refused_report_blocks_witness:
  "\<exists>s t. sl_run (sample_sl_env \<lparr> sl_send_ok := (\<lambda>_. False) \<rparr>) [Op_frame sample_s0_param [0x98, 0x02] 2, Op_poll] s = Some t \<and> stateConf (ctx s) = Idle
     \<and> (\<forall>ops u. list_all no_report ops \<longrightarrow> sl_run (sample_sl_env \<lparr> sl_send_ok := (\<lambda>_. False) \<rparr>) ops t = Some u \<longrightarrow> stateConf (ctx u) = SendReport)"
proof -
  let ?e = "sample_sl_env \<lparr> sl_send_ok := (\<lambda>_. False) \<rparr>"
  obtain s where s: "sl_reachable ?e s" "stateConf (ctx s) = Idle" "quiet (ctx s)" "sl_assigned_keys s AND KEY_CLASS_S0 \<noteq> 0"
    by (rule sample_assigned)
  have "\<forall>q f. \<not> sl_send_ok ?e (sl_log s @ [Sl_send q f])" "ts_scheme sample_s0_param = SECURITY_SCHEME_0" by (simp_all add: sample_s0_param_def)
  then obtain t where "sl_run ?e [Op_frame sample_s0_param [0x98, 0x02] 2, Op_poll] s = Some t"
      "\<forall>ops u. list_all no_report ops \<longrightarrow> sl_run ?e ops t = Some u \<longrightarrow> stateConf (ctx u) = SendReport \<and> \<not> fst (security_add_begin ?e 0 0 False None u)"
    using refused_report_blocks [OF s(1-3) _ _ s(4), of sample_s0_param 0 0 False None] by blast
  then show ?thesis using s(2) by (intro exI [of _ s] exI [of _ t]) simp
qed

text \<open>
  Aborting an inclusion while the key is being sent stops the machine but leaves the inclusion key in use: afterwards every
  frame of the network is encrypted and checked with the key of zeros instead of the network key.
\<close>

theorem abort_keeps_inclusion_key:
  assumes "sl_reachable env s" and "stateConf (ctx s) = InclusionMode_SendKey"
  shows "stateConf (ctx (sec0_abort_inclusion s)) = Idle \<and> sl_timer (sec0_abort_inclusion s) = None \<and> networkKey (sec0_abort_inclusion s) = networkKey s
    \<and> key_in_use env (replicate 16 0) (sec0_abort_inclusion s)"
proof -
  have "key_in_use env (replicate 16 0) s" using reachable_good [OF assms(1)] assms(2) by (simp add: sl_good_def sl_inv_def Let_def)
  then show ?thesis
    using assms(2) by (simp add: sec0_abort_inclusion_def secure_learn_isActive_def secure_learn_unsetTimer_def secure_learn_enter_def key_in_use_def)
qed

lemma abort_keeps_inclusion_key_witness:
  "\<exists>s. sl_reachable sample_sl_env s \<and> stateConf (ctx (sec0_abort_inclusion s)) = Idle \<and> key_in_use sample_sl_env (replicate 16 0) (sec0_abort_inclusion s)"
proof -
  obtain s where s: "sl_reachable sample_sl_env s" "stateConf (ctx s) = Idle" "quiet (ctx s)" using sample_started [of "\<lambda>_. True"] unfolding sample_env_eq by metis
  have r: "at_rest sample_sl_env Idle s" using s reachable_good by (simp add: at_rest_def)
  have p: "\<forall>l. sl_send_ok sample_sl_env l" "\<not> isNodeSecure sample_sl_env (sl_log s) (ucast (2 :: u8))" "snode sample_s0_param = ucast (2 :: u8)"
    by (simp_all add: sample_sl_env_def sample_s0_param_def isNodeSecure_def node_flag_defs)
  obtain t q where t: "sl_run sample_sl_env [Op_add 2 0 False (Some 5), Op_poll] s = Some t"
    "being_included sample_sl_env InclusionMode_SchemeRequest 2 5 (networkKey s) (sl_log s @ [Sl_send q [0x98, 0x04, 0]]) t"
    by (rule inclusion_started [OF r p(1,2)])
  obtain u q' where u: "sl_run sample_sl_env [Op_frame sample_s0_param [0x98, 0x05, 0] 3, Op_poll] t = Some u"
    "being_included sample_sl_env InclusionMode_SendKey 2 5 (networkKey s) ((sl_log s @ [Sl_send q [0x98, 0x04, 0]])
      @ [Sl_node_flag (ucast (2 :: u8)) NODE_FLAG_SECURITY0 NODE_FLAG_SECURITY0, Sl_send q' ([0x98, 0x06] @ networkKey s)]) u"
    by (rule scheme_reported [OF t(2) p(1,3)])
  have "sl_reachable sample_sl_env t" by (rule run_reachable [OF s(1) _ t(1)]) simp
  then have ru: "sl_reachable sample_sl_env u" by (rule run_reachable [OF _ _ u(1)]) simp
  then show ?thesis using abort_keeps_inclusion_key [OF ru] u(2) by (auto simp: being_included_def at_rest_def)
qed

end
