(* ===== verification/Temp_Assoc.thy ===== *)
theory Temp_Assoc
  imports Nodemask Pool_List Mailbox
begin

text \<open>
  Temporary associations (\<^verbatim>\<open>src/Bridge_temp_assoc.c\<close>) and the bridge around them (\<^verbatim>\<open>src/Bridge.c\<close>).  A client of the IP network is given a virtual
  node of the Z-Wave network, so that answers to that node can be sent back to the client.  The associations are blocks of a pool in a list,
  oldest first; when there are no more virtual nodes the oldest association is taken away from its client, unless it is locked.

  The packet of the client, the configuration, the controller and the IP associations are parameters that see the log.  \<open>None\<close> is an access
  through a null pointer, a write outside an array or a walk along a list that does not end.
\<close>

unbundle bit_operations_syntax

section \<open>State\<close>

definition MAX_LR_TEMP_ASSOCIATIONS :: nat where "MAX_LR_TEMP_ASSOCIATIONS = 4"
definition MAX_CLASSIC_TEMP_ASSOCIATIONS :: nat where "MAX_CLASSIC_TEMP_ASSOCIATIONS = 4"
definition MAX_TEMP_ASSOCIATIONS :: nat where "MAX_TEMP_ASSOCIATIONS = MAX_LR_TEMP_ASSOCIATIONS + MAX_CLASSIC_TEMP_ASSOCIATIONS"
definition TEMP_ASSOC_VIRTUAL_ADD_RETRY_MAX :: nat where "TEMP_ASSOC_VIRTUAL_ADD_RETRY_MAX = 10"
definition lr_temp_assoc_virtual_nodeids :: "nodeid list" where "lr_temp_assoc_virtual_nodeids = [4002, 4003, 4004, 4005]"
definition ASSIGN_COMPLETE :: u8 where "ASSIGN_COMPLETE = 0"
definition ASSIGN_NODEID_DONE :: u8 where "ASSIGN_NODEID_DONE = 1"

lemmas ta_limits = MAX_LR_TEMP_ASSOCIATIONS_def MAX_CLASSIC_TEMP_ASSOCIATIONS_def MAX_TEMP_ASSOCIATIONS_def TEMP_ASSOC_VIRTUAL_ADD_RETRY_MAX_def

record temp_association_t =
  virtual_id :: nodeid
  virtual_id_static :: nodeid
  resource_ip :: bytes
  resource_endpoint :: u8
  resource_port :: u16
  was_dtls :: u8
  is_long_range :: bool

definition zero_association :: temp_association_t where
  "zero_association = \<lparr> virtual_id = 0, virtual_id_static = 0, resource_ip = replicate 16 0, resource_endpoint = 0, resource_port = 0, was_dtls = 0, is_long_range = False \<rparr>"

datatype bridge_state_t = Booting | Initialized | Initfail

text \<open>
  The calls into other modules: storing the virtual nodes, asking the controller for one, telling the router that the bridge is ready, the IP
  associations, the node information of virtual nodes, the end of an inclusion, and a packet to the client.
\<close>

datatype ta_effect = Ta_persist "nodeid list" | Ta_learn | Ta_initialized | Ta_ip_init | Ta_ip_persist | Ta_ip_unpersist | Ta_slave_info bytes | Ta_add_stop
  | Ta_logical_udp bytes

record ta_env =
  unsolicited_dest :: bytes
  unsolicited_port :: u16
  single_classic_temp_association :: bool
  gw_node :: nodeid
  suc_of :: "ta_effect list \<Rightarrow> nodeid"
  learn_accepted :: "ta_effect list \<Rightarrow> bool"
  is_ip_assoc_create_in_progress :: "ta_effect list \<Rightarrow> bool"
  stored_virtual_nodes :: "ta_effect list \<Rightarrow> nodeid list"
  controller_virtual_nodes :: "ta_effect list \<Rightarrow> bytes"
  controller_capabilities :: "ta_effect list \<Rightarrow> u8"
  sec0_granted :: "ta_effect list \<Rightarrow> bool"

text \<open>What is read of the packet in the backup buffer; the node is that of the destination address.\<close>

record zip_packet =
  srcipaddr :: bytes
  srcport :: u16
  sEndpoint :: u8
  dest_node :: nodeid

record ta_state =
  temp_association_table :: addr
  ta_next :: links
  ta_at :: "addr \<Rightarrow> temp_association_t"
  temp_association_pool :: memb
  temp_assoc_virtual_nodeids :: "nodeid list"
  temp_assoc_virtual_nodeid_count :: nat
  temp_assoc_add_virtual_node_retry_count :: nat
  temp_assoc_next_nodeid_idx :: nat
  lr_temp_assoc_next_nodeid_idx :: nat
  locked_a :: addr
  reset_fw_timer :: "addr option"
  virtual_add_delay_timer :: bool
  virtual_add_timer :: bool
  bridge_state :: bridge_state_t
  virtual_nodes_mask :: bytes
  ta_log :: "ta_effect list"

text \<open>The association of the unsolicited destination is outside the pool.\<close>

definition unsol_temp_assoc :: addr where "unsol_temp_assoc = MAX_TEMP_ASSOCIATIONS + 1"

definition ta_emit :: "ta_effect \<Rightarrow> ta_state \<Rightarrow> ta_state" where
  "ta_emit e s = s \<lparr> ta_log := ta_log s @ [e] \<rparr>"

definition upd_assoc :: "addr \<Rightarrow> (temp_association_t \<Rightarrow> temp_association_t) \<Rightarrow> ta_state \<Rightarrow> ta_state" where
  "upd_assoc a f s = s \<lparr> ta_at := (ta_at s)(a := f (ta_at s a)) \<rparr>"

section \<open>Virtual nodes\<close>

definition temp_assoc_init :: "ta_state \<Rightarrow> ta_state" where
  "temp_assoc_init s = s \<lparr> temp_association_table := 0, temp_association_pool := memb_init MAX_TEMP_ASSOCIATIONS, temp_assoc_virtual_nodeid_count := 0,
     temp_assoc_virtual_nodeids := replicate MAX_CLASSIC_TEMP_ASSOCIATIONS 0, locked_a := 0, reset_fw_timer := None,
     temp_assoc_add_virtual_node_retry_count := 0, temp_assoc_next_nodeid_idx := 0, lr_temp_assoc_next_nodeid_idx := 0 \<rparr>"

definition temp_assoc_persist_virtual_nodeids :: "ta_state \<Rightarrow> ta_state" where
  "temp_assoc_persist_virtual_nodeids s = ta_emit (Ta_persist (take (temp_assoc_virtual_nodeid_count s) (temp_assoc_virtual_nodeids s))) s"

definition temp_assoc_unpersist_virtual_nodeids :: "ta_env \<Rightarrow> ta_state \<Rightarrow> ta_state" where
  "temp_assoc_unpersist_virtual_nodeids env s =
     (let l = take MAX_CLASSIC_TEMP_ASSOCIATIONS (stored_virtual_nodes env (ta_log s))
      in s \<lparr> temp_assoc_virtual_nodeid_count := length l, temp_assoc_virtual_nodeids := l @ drop (length l) (temp_assoc_virtual_nodeids s) \<rparr>)"

definition temp_assoc_add_virtual_nodes :: "ta_env \<Rightarrow> ta_state \<Rightarrow> ta_state" where
  "temp_assoc_add_virtual_nodes env s =
     (if temp_assoc_virtual_nodeid_count s < MAX_CLASSIC_TEMP_ASSOCIATIONS then
        if temp_assoc_add_virtual_node_retry_count s < TEMP_ASSOC_VIRTUAL_ADD_RETRY_MAX then
          (let s = ta_emit Ta_learn (s \<lparr> temp_assoc_add_virtual_node_retry_count := temp_assoc_add_virtual_node_retry_count s + 1 \<rparr>)
           in if learn_accepted env (ta_log s) then s else s \<lparr> virtual_add_timer := True \<rparr>)
        else ta_emit Ta_initialized (s \<lparr> bridge_state := Initfail \<rparr>)
      else ta_emit Ta_initialized (s \<lparr> bridge_state := Initialized \<rparr>))"

definition temp_assoc_resume_init :: "ta_env \<Rightarrow> ta_state \<Rightarrow> ta_state" where
  "temp_assoc_resume_init env s =
     (if TEMP_ASSOC_VIRTUAL_ADD_RETRY_MAX \<le> temp_assoc_add_virtual_node_retry_count s
      then temp_assoc_add_virtual_nodes env (s \<lparr> temp_assoc_add_virtual_node_retry_count := 0 \<rparr>) else s)"

definition temp_assoc_delayed_add_virtual_nodes :: "ta_state \<Rightarrow> ta_state" where
  "temp_assoc_delayed_add_virtual_nodes s = s \<lparr> virtual_add_delay_timer := True \<rparr>"

definition is_virtual_node :: "nodeid \<Rightarrow> ta_state \<Rightarrow> bool" where
  "is_virtual_node nid s \<longleftrightarrow> is_classic_node nid \<and> BIT8_TST (unat nid - 1) (virtual_nodes_mask s) \<noteq> 0 \<or> nid \<le> 4005 \<and> 4002 \<le> nid"

text \<open>The report of the controller.  A node id that is not a classic one would set a bit outside the mask.\<close>

definition temp_assoc_virtual_add_callback :: "ta_env \<Rightarrow> u8 \<Rightarrow> nodeid \<Rightarrow> ta_state \<Rightarrow> ta_state option" where
  "temp_assoc_virtual_add_callback env bStatus newID s =
     (if bStatus = ASSIGN_NODEID_DONE then
        map_option (\<lambda>s.
          (let s = s \<lparr> temp_assoc_add_virtual_node_retry_count := 0 \<rparr>
           in if suc_of env (ta_log s) = gw_node env then temp_assoc_add_virtual_nodes env s else s \<lparr> virtual_add_timer := True \<rparr>))
          (if is_virtual_node newID s then Some s
           else if MAX_CLASSIC_TEMP_ASSOCIATIONS \<le> temp_assoc_virtual_nodeid_count s \<or> \<not> is_classic_node newID then None
           else Some (temp_assoc_persist_virtual_nodeids
             (s \<lparr> temp_assoc_virtual_nodeids := (temp_assoc_virtual_nodeids s)[temp_assoc_virtual_nodeid_count s := newID],
                  temp_assoc_virtual_nodeid_count := temp_assoc_virtual_nodeid_count s + 1,
                  virtual_nodes_mask := BIT8_SET (unat newID - 1) (virtual_nodes_mask s) \<rparr>)))
      else if bStatus = ASSIGN_COMPLETE then Some (s \<lparr> virtual_add_timer := True \<rparr>)
      else Some s)"

section \<open>Associations\<close>

definition temp_assoc_register_fw_lock :: "addr \<Rightarrow> ta_state \<Rightarrow> ta_state" where
  "temp_assoc_register_fw_lock a s = s \<lparr> locked_a := a, reset_fw_timer := Some a \<rparr>"

definition temp_assoc_fw_lock_release_on_timeout :: "ta_state \<Rightarrow> ta_state" where
  "temp_assoc_fw_lock_release_on_timeout s = s \<lparr> locked_a := 0, reset_fw_timer := None \<rparr>"

definition temp_assoc_lookup_by_virtual_nodeid :: "nodeid \<Rightarrow> ta_state \<Rightarrow> addr option" where
  "temp_assoc_lookup_by_virtual_nodeid v s = list_find (\<lambda>a. virtual_id (ta_at s a) = v) (ta_next s) (list_head (temp_association_table s))"

text \<open>The comparison starts at the static virtual node and leaves out the one in use.\<close>

definition same_association :: "temp_association_t \<Rightarrow> temp_association_t \<Rightarrow> bool" where
  "same_association a b \<longleftrightarrow> a \<lparr> virtual_id := 0 \<rparr> = b \<lparr> virtual_id := 0 \<rparr>"

definition temp_assoc_add_to_association_table :: "addr \<Rightarrow> ta_state \<Rightarrow> ta_state option" where
  "temp_assoc_add_to_association_table new_a s =
     Option.bind (list_find (\<lambda>a. same_association (ta_at s new_a) (ta_at s a)) (ta_next s) (list_head (temp_association_table s))) (\<lambda>a.
       if a \<noteq> 0 then Some (s \<lparr> temp_association_pool := snd (memb_free (temp_association_pool s) new_a) \<rparr>)
       else map_option (\<lambda>(l, nxt). s \<lparr> temp_association_table := l, ta_next := nxt \<rparr>) (list_add (temp_association_table s) new_a (ta_next s)))"

definition check_available_temp_assoc :: "ta_env \<Rightarrow> zip_packet \<Rightarrow> ta_state \<Rightarrow> bool" where
  "check_available_temp_assoc env p s \<longleftrightarrow>
     (let classic_temp_associations = (if single_classic_temp_association env then 1 else MAX_CLASSIC_TEMP_ASSOCIATIONS)
      in is_lr_node (dest_node p) \<and> lr_temp_assoc_next_nodeid_idx s < MAX_LR_TEMP_ASSOCIATIONS
         \<or> is_classic_node (dest_node p) \<and> temp_assoc_next_nodeid_idx s < classic_temp_associations)"

text \<open>The node for a new association.\<close>

definition assign_virtual_node :: "zip_packet \<Rightarrow> addr \<Rightarrow> ta_state \<Rightarrow> ta_state" where
  "assign_virtual_node p a s =
     (if lr_temp_assoc_next_nodeid_idx s < MAX_LR_TEMP_ASSOCIATIONS \<and> is_lr_node (dest_node p) then
        (upd_assoc a (\<lambda>e. e \<lparr> virtual_id_static := lr_temp_assoc_virtual_nodeids ! lr_temp_assoc_next_nodeid_idx s, is_long_range := True \<rparr>) s)
          \<lparr> lr_temp_assoc_next_nodeid_idx := lr_temp_assoc_next_nodeid_idx s + 1 \<rparr>
      else if temp_assoc_next_nodeid_idx s < temp_assoc_virtual_nodeid_count s \<and> is_classic_node (dest_node p) then
        (upd_assoc a (\<lambda>e. e \<lparr> virtual_id_static := temp_assoc_virtual_nodeids s ! temp_assoc_next_nodeid_idx s, is_long_range := False \<rparr>) s)
          \<lparr> temp_assoc_next_nodeid_idx := temp_assoc_next_nodeid_idx s + 1 \<rparr>
      else upd_assoc a (\<lambda>e. e \<lparr> virtual_id_static := 0 \<rparr>) s)"

definition temp_assoc_get_new_or_reuse_oldest :: "ta_env \<Rightarrow> zip_packet \<Rightarrow> ta_state \<Rightarrow> (addr \<times> ta_state) option" where
  "temp_assoc_get_new_or_reuse_oldest env p s =
     Option.bind (list_length (temp_association_table s) (ta_next s)) (\<lambda>n.
       let s = (if n = 0 then s \<lparr> locked_a := 0, reset_fw_timer := None \<rparr> else s)
       in if check_available_temp_assoc env p s
          then (let (a, pool) = memb_alloc (temp_association_pool s)
                in if a = 0 then None
                   else Some (a, assign_virtual_node p a (upd_assoc a (\<lambda>_. zero_association) (s \<lparr> temp_association_pool := pool \<rparr>))))
          else Option.bind (list_find (\<lambda>a. a \<noteq> locked_a s \<and> is_long_range (ta_at s a) = is_lr_node (dest_node p)) (ta_next s) (list_head (temp_association_table s))) (\<lambda>a.
                 if a = 0 then Some (0, s)
                 else map_option (\<lambda>(l, nxt). (a, s \<lparr> temp_association_table := l, ta_next := nxt \<rparr>)) (list_remove (temp_association_table s) a (ta_next s))))"

definition from_unsolicited :: "ta_env \<Rightarrow> zip_packet \<Rightarrow> bool" where
  "from_unsolicited env p \<longleftrightarrow> unsolicited_dest env = srcipaddr p \<and> unsolicited_port env = uip_htons (srcport p)"

definition temp_assoc_lookup_by_zip_client :: "ta_env \<Rightarrow> zip_packet \<Rightarrow> u8 \<Rightarrow> ta_state \<Rightarrow> (addr \<times> ta_state) option" where
  "temp_assoc_lookup_by_zip_client env p dtls s =
     (if from_unsolicited env p
      then Some (unsol_temp_assoc, upd_assoc unsol_temp_assoc (\<lambda>e. e \<lparr> resource_endpoint := sEndpoint p, was_dtls := dtls,
             resource_port := uip_htons (unsolicited_port env), resource_ip := unsolicited_dest env, virtual_id := gw_node env \<rparr>) s)
      else map_option (\<lambda>a. (a, s)) (list_find (\<lambda>a. resource_ip (ta_at s a) = srcipaddr p \<and> resource_port (ta_at s a) = srcport p
             \<and> resource_endpoint (ta_at s a) = sEndpoint p \<and> was_dtls (ta_at s a) = dtls \<and> is_long_range (ta_at s a) = is_lr_node (dest_node p))
             (ta_next s) (list_head (temp_association_table s))))"

definition temp_assoc_setup_and_save :: "ta_env \<Rightarrow> zip_packet \<Rightarrow> addr \<Rightarrow> ta_state \<Rightarrow> (bool \<times> ta_state) option" where
  "temp_assoc_setup_and_save env p a s =
     (let s = upd_assoc a (\<lambda>e. e \<lparr> resource_port := srcport p, resource_endpoint := sEndpoint p, resource_ip := srcipaddr p,
                is_long_range := is_lr_node (dest_node p) \<rparr>) s;
          s = upd_assoc a (\<lambda>e. e \<lparr> virtual_id := (if from_unsolicited env p then gw_node env else virtual_id_static e) \<rparr>) s
      in if virtual_id (ta_at s a) = 0 then Some (False, s \<lparr> temp_association_pool := snd (memb_free (temp_association_pool s) a) \<rparr>)
         else map_option (\<lambda>s. (True, if is_long_range (ta_at s a) then s else temp_assoc_persist_virtual_nodeids s)) (temp_assoc_add_to_association_table a s))"

definition is_assoc_create_in_progress :: "ta_env \<Rightarrow> ta_state \<Rightarrow> bool" where
  "is_assoc_create_in_progress env s \<longleftrightarrow> is_ip_assoc_create_in_progress env (ta_log s)"

definition temp_assoc_create :: "ta_env \<Rightarrow> zip_packet \<Rightarrow> u8 \<Rightarrow> ta_state \<Rightarrow> (addr \<times> ta_state) option" where
  "temp_assoc_create env p dtls s =
     (if is_assoc_create_in_progress env s then Some (0, s)
      else Option.bind (temp_assoc_lookup_by_zip_client env p dtls s) (\<lambda>(a, s).
        if a \<noteq> 0 then Some (a, s)
        else Option.bind (temp_assoc_get_new_or_reuse_oldest env p s) (\<lambda>(a, s).
          if a = 0 then Some (0, s)
          else map_option (\<lambda>(ok, s). (if ok then a else 0, s)) (temp_assoc_setup_and_save env p a (upd_assoc a (\<lambda>e. e \<lparr> was_dtls := dtls \<rparr>) s)))))"

section \<open>The bridge\<close>

definition get_multichannel_dest_endpoint :: "bytes \<Rightarrow> u8" where
  "get_multichannel_dest_endpoint p =
     (if p ! 0 = 0x60 \<and> p ! 1 = 0x0D then if p ! 3 AND 0x80 \<noteq> 0 then 0xFF else p ! 3 AND 0x7F else 0)"

definition bridge_virtual_node_commandhandler :: "bytes \<Rightarrow> ta_state \<Rightarrow> bool \<times> ta_state" where
  "bridge_virtual_node_commandhandler pCmd s = (True, ta_emit (Ta_logical_udp pCmd) s)"

definition copy_virtual_nodes_mask_from_controller :: "ta_env \<Rightarrow> ta_state \<Rightarrow> ta_state" where
  "copy_virtual_nodes_mask_from_controller env s = s \<lparr> virtual_nodes_mask := controller_virtual_nodes env (ta_log s) \<rparr>"

definition bridge_init :: "ta_env \<Rightarrow> ta_state \<Rightarrow> ta_state" where
  "bridge_init env s =
     (let s = temp_assoc_init (ta_emit Ta_ip_init s);
          s = s \<lparr> bridge_state := Booting \<rparr>;
          s = ta_emit (Ta_slave_info (if sec0_granted env (ta_log s) then [0x98, 0x9F] else [0])) s;
          s = temp_assoc_unpersist_virtual_nodeids env (ta_emit Ta_ip_unpersist s);
          s = copy_virtual_nodes_mask_from_controller env s;
          cap = controller_capabilities env (ta_log s)
      in if cap AND 0x04 \<noteq> 0 \<or> cap AND 0x01 = 0 then temp_assoc_delayed_add_virtual_nodes (ta_emit Ta_add_stop s)
         else ta_emit Ta_initialized (s \<lparr> bridge_state := Initfail \<rparr>))"

definition bridge_clear_association_tables :: "ta_state \<Rightarrow> ta_state" where
  "bridge_clear_association_tables s = temp_assoc_persist_virtual_nodeids (temp_assoc_init (ta_emit Ta_ip_persist (ta_emit Ta_ip_init s)))"

definition resume_bridge_init :: "ta_env \<Rightarrow> ta_state \<Rightarrow> ta_state" where
  "resume_bridge_init env s = temp_assoc_resume_init env s"

definition bridge_reset :: "ta_state \<Rightarrow> ta_state" where
  "bridge_reset s = (bridge_clear_association_tables s) \<lparr> bridge_state := Booting \<rparr>"

definition bridge_idle :: "ta_env \<Rightarrow> ta_state \<Rightarrow> bool" where
  "bridge_idle env s \<longleftrightarrow> bridge_state s = Initialized \<and> \<not> is_assoc_create_in_progress env s"

end
