(* ===== verification/Temp_Assoc_Correct.thy ===== *)
theory Temp_Assoc_Correct
  imports Temp_Assoc
begin

text \<open>
  The table of temporary associations as a queue of sessions, each a client with its virtual node, in the order in which they were
  created; and that every operation keeps it well formed.
\<close>

unbundle bit_operations_syntax

section \<open>Sessions\<close>

type_synonym client = "bytes \<times> u16 \<times> u8 \<times> u8 \<times> bool"

definition client_of :: "temp_association_t \<Rightarrow> client" where
  "client_of e = (resource_ip e, resource_port e, resource_endpoint e, was_dtls e, is_long_range e)"

definition client_lr :: "client \<Rightarrow> bool" where "client_lr c = snd (snd (snd (snd c)))"

definition packet_client :: "zip_packet \<Rightarrow> u8 \<Rightarrow> client" where
  "packet_client p dtls = (srcipaddr p, srcport p, sEndpoint p, dtls, is_lr_node (dest_node p))"

definition session_of :: "temp_association_t \<Rightarrow> client \<times> nodeid" where "session_of e = (client_of e, virtual_id e)"

abbreviation vid :: "ta_state \<Rightarrow> addr \<Rightarrow> nodeid" where "vid s a \<equiv> virtual_id (ta_at s a)"

text \<open>The virtual nodes that the associations use, and those that can be used.\<close>

definition nodes_in_use :: "ta_state \<Rightarrow> nodeid list" where
  "nodes_in_use s = take (temp_assoc_next_nodeid_idx s) (temp_assoc_virtual_nodeids s) @ take (lr_temp_assoc_next_nodeid_idx s) lr_temp_assoc_virtual_nodeids"

definition virtual_nodes_of :: "bool \<Rightarrow> ta_state \<Rightarrow> nodeid list" where
  "virtual_nodes_of lr s = (if lr then lr_temp_assoc_virtual_nodeids else take (temp_assoc_virtual_nodeid_count s) (temp_assoc_virtual_nodeids s))"

definition nodes_ok :: "ta_state \<Rightarrow> bool" where
  "nodes_ok s \<longleftrightarrow> length (temp_assoc_virtual_nodeids s) = MAX_CLASSIC_TEMP_ASSOCIATIONS \<and> temp_assoc_virtual_nodeid_count s \<le> MAX_CLASSIC_TEMP_ASSOCIATIONS
     \<and> temp_assoc_next_nodeid_idx s \<le> temp_assoc_virtual_nodeid_count s \<and> lr_temp_assoc_next_nodeid_idx s \<le> MAX_LR_TEMP_ASSOCIATIONS
     \<and> distinct (virtual_nodes_of False s) \<and> list_all is_classic_node (virtual_nodes_of False s)"

definition assoc_ok :: "temp_association_t \<Rightarrow> bool" where
  "assoc_ok e \<longleftrightarrow> virtual_id_static e = virtual_id e \<and> (is_long_range e \<longleftrightarrow> \<not> is_classic_node (virtual_id e))"

definition ta_rel :: "ta_state \<Rightarrow> addr list \<Rightarrow> bool" where
  "ta_rel s xs \<longleftrightarrow> pool_list MAX_TEMP_ASSOCIATIONS (temp_association_table s) (ta_next s) (temp_association_pool s) xs \<and> nodes_ok s
     \<and> list_all (\<lambda>a. assoc_ok (ta_at s a)) xs \<and> distinct (map (vid s) xs) \<and> set (map (vid s) xs) = set (nodes_in_use s)
     \<and> distinct (map (\<lambda>a. client_of (ta_at s a)) xs)"

definition sessions :: "ta_state \<Rightarrow> addr list \<Rightarrow> (client \<times> nodeid) list" where
  "sessions s xs = map (\<lambda>a. session_of (ta_at s a)) xs"

section \<open>What creating an association does\<close>

text \<open>How many associations of a kind there may be.\<close>

definition spec_room :: "ta_env \<Rightarrow> nodeid \<Rightarrow> (client \<times> nodeid) list \<Rightarrow> bool" where
  "spec_room env n ss \<longleftrightarrow>
     (let used = length (filter (\<lambda>x. client_lr (fst x) = is_lr_node n) ss)
      in is_lr_node n \<and> used < 4 \<or> is_classic_node n \<and> used < (if single_classic_temp_association env then 1 else 4))"

text \<open>
  A known client keeps its session.  A new one gets the first unused virtual node of its kind, or, when all that are allowed are in use, the node
  of the oldest session of the kind that is not locked.
\<close>

definition spec_create :: "bool \<Rightarrow> client \<Rightarrow> nodeid list \<Rightarrow> nodeid option \<Rightarrow> (client \<times> nodeid) list \<Rightarrow> nodeid option \<times> (client \<times> nodeid) list" where
  "spec_create room c nodes locked ss =
     (case find (\<lambda>x. fst x = c) ss of
        Some x \<Rightarrow> (Some (snd x), ss)
      | None \<Rightarrow>
          if room then (case find (\<lambda>v. v \<notin> snd ` set ss) nodes of Some v \<Rightarrow> (Some v, ss @ [(c, v)]) | None \<Rightarrow> (None, ss))
          else (case find (\<lambda>x. Some (snd x) \<noteq> locked \<and> client_lr (fst x) = client_lr c) ss of
                  Some x \<Rightarrow> (Some (snd x), remove1 x ss @ [(c, snd x)])
                | None \<Rightarrow> (None, ss)))"

definition locked_node :: "ta_state \<Rightarrow> addr list \<Rightarrow> nodeid option" where
  "locked_node s xs = (if locked_a s \<in> set xs then Some (vid s (locked_a s)) else None)"

section \<open>Lists and nodes\<close>

lemma find_first: "find P xs = (case filter P xs of [] \<Rightarrow> None | x # _ \<Rightarrow> Some x)"
  by (induction xs) (auto split: list.splits)

lemma find_map_cases:
  assumes "0 \<notin> set xs"
  obtains (none) "first_or_null (filter P xs) = 0" "find (\<lambda>y. \<exists>a \<in> set xs. y = f a \<and> P a) (map f xs) = None" "\<forall>a \<in> set xs. \<not> P a"
    | (some) us a vs where "first_or_null (filter P xs) = a" "a \<noteq> 0" "xs = us @ a # vs" "P a" "\<forall>b \<in> set us. \<not> P b"
proof (cases "filter P xs")
  case Nil
  then have "\<forall>a \<in> set xs. \<not> P a" by (simp add: filter_empty_conv)
  then show thesis using none Nil by (auto simp: first_or_null_def find_None_iff)
next
  case (Cons a l)
  then obtain us vs where d: "xs = us @ a # vs" "\<forall>b \<in> set us. \<not> P b" "P a" by (auto simp: filter_eq_Cons_iff)
  moreover have "a \<noteq> 0" using assms d(1) by auto
  ultimately show thesis using some [of a us vs] Cons by (simp add: first_or_null_def)
qed

lemma find_here: "xs = us @ a # vs \<Longrightarrow> P a \<Longrightarrow> \<forall>b \<in> set us. \<not> P b \<Longrightarrow> find P xs = Some a"
  by (auto simp: find_first filter_empty_conv)

lemma lr_nodes: "distinct lr_temp_assoc_virtual_nodeids" "length lr_temp_assoc_virtual_nodeids = 4" "v \<in> set lr_temp_assoc_virtual_nodeids \<Longrightarrow> \<not> is_classic_node v \<and> v \<noteq> 0"
  by (auto simp: lr_temp_assoc_virtual_nodeids_def is_classic_node_def node_limits)

lemma node_kinds: "is_lr_node n \<Longrightarrow> \<not> is_classic_node n"
  by (auto simp: is_lr_node_def is_classic_node_def node_limits)

lemma classic_nonzero: "is_classic_node n \<Longrightarrow> n \<noteq> 0"
  by (auto simp: is_classic_node_def)

lemma in_use_ok:
  assumes "nodes_ok s"
  shows "distinct (nodes_in_use s)" "length (nodes_in_use s) = temp_assoc_next_nodeid_idx s + lr_temp_assoc_next_nodeid_idx s"
    "filter is_classic_node (nodes_in_use s) = take (temp_assoc_next_nodeid_idx s) (temp_assoc_virtual_nodeids s)"
    "filter (\<lambda>v. \<not> is_classic_node v) (nodes_in_use s) = take (lr_temp_assoc_next_nodeid_idx s) lr_temp_assoc_virtual_nodeids"
    "v \<in> set (nodes_in_use s) \<Longrightarrow> v \<noteq> 0"
proof -
  let ?c = "take (temp_assoc_next_nodeid_idx s) (temp_assoc_virtual_nodeids s)" and ?l = "take (lr_temp_assoc_next_nodeid_idx s) lr_temp_assoc_virtual_nodeids"
  have c: "distinct ?c" "\<forall>v \<in> set ?c. is_classic_node v"
  proof -
    have "?c = take (temp_assoc_next_nodeid_idx s) (virtual_nodes_of False s)" using assms by (simp add: nodes_ok_def virtual_nodes_of_def min_def)
    then show "distinct ?c" "\<forall>v \<in> set ?c. is_classic_node v" using assms by (auto simp: nodes_ok_def list_all_iff dest: in_set_takeD)
  qed
  have l: "distinct ?l" "\<forall>v \<in> set ?l. \<not> is_classic_node v \<and> v \<noteq> 0" using lr_nodes(1,3) by (auto dest: in_set_takeD)
  show "distinct (nodes_in_use s)" using c l by (auto simp: nodes_in_use_def)
  show "length (nodes_in_use s) = temp_assoc_next_nodeid_idx s + lr_temp_assoc_next_nodeid_idx s"
    using assms by (simp add: nodes_in_use_def nodes_ok_def lr_nodes(2) ta_limits)
  show "filter is_classic_node (nodes_in_use s) = ?c" "filter (\<lambda>v. \<not> is_classic_node v) (nodes_in_use s) = ?l"
    using c(2) l(2) by (auto simp: nodes_in_use_def filter_id_conv filter_empty_conv)
  show "v \<in> set (nodes_in_use s) \<Longrightarrow> v \<noteq> 0" using c(2) l(2) classic_nonzero by (auto simp: nodes_in_use_def)
qed

lemma distinct_length_filter: "distinct (map f xs) \<Longrightarrow> set (map f xs) = set ys \<Longrightarrow> distinct ys \<Longrightarrow> length (filter (\<lambda>x. P (f x)) xs) = length (filter P ys)"
proof -
  assume a: "distinct (map f xs)" "set (map f xs) = set ys" "distinct ys"
  have "length (filter (\<lambda>x. P (f x)) xs) = length (filter P (map f xs))" by (simp add: filter_map comp_def)
  also have "\<dots> = card (set (filter P (map f xs)))" using distinct_card [OF distinct_filter [OF a(1)]] by simp
  also have "\<dots> = card (set (filter P ys))" using a(2) by simp
  also have "\<dots> = length (filter P ys)" using distinct_card [OF distinct_filter [OF a(3)]] by simp
  finally show ?thesis .
qed

lemma ta_rel_counts:
  assumes r: "ta_rel s xs"
  shows "length xs = temp_assoc_next_nodeid_idx s + lr_temp_assoc_next_nodeid_idx s"
    "length (filter (\<lambda>x. client_lr (fst x) = lr) (sessions s xs)) = (if lr then lr_temp_assoc_next_nodeid_idx s else temp_assoc_next_nodeid_idx s)"
proof -
  have n: "nodes_ok s" and d: "distinct (map (vid s) xs)" "set (map (vid s) xs) = set (nodes_in_use s)" using r by (simp_all add: ta_rel_def)
  note u = in_use_ok [OF n]
  show "length xs = temp_assoc_next_nodeid_idx s + lr_temp_assoc_next_nodeid_idx s"
    using distinct_length_filter [OF d u(1), of "\<lambda>_. True"] u(2) by simp
  have f: "filter (\<lambda>x. client_lr (fst x) = lr) (sessions s xs) = map (\<lambda>a. session_of (ta_at s a)) (filter (\<lambda>a. (\<not> is_classic_node (vid s a)) = lr) xs)"
  proof -
    have "filter (\<lambda>a. is_long_range (ta_at s a) = lr) xs = filter (\<lambda>a. (\<not> is_classic_node (vid s a)) = lr) xs"
      using r by (intro filter_cong) (auto simp: ta_rel_def list_all_iff assoc_ok_def)
    then show ?thesis by (simp add: sessions_def filter_map comp_def session_of_def client_lr_def client_of_def)
  qed
  show "length (filter (\<lambda>x. client_lr (fst x) = lr) (sessions s xs)) = (if lr then lr_temp_assoc_next_nodeid_idx s else temp_assoc_next_nodeid_idx s)"
    unfolding f using distinct_length_filter [OF d u(1), of "\<lambda>v. (\<not> is_classic_node v) = lr"] u(3,4) n
    by (cases lr) (simp_all add: nodes_ok_def lr_nodes(2) ta_limits)
qed

text \<open>The first unused node is the next one in its array.\<close>

lemma first_unused:
  assumes r: "ta_rel s xs"
  shows "find (\<lambda>v. v \<notin> snd ` set (sessions s xs)) (virtual_nodes_of lr s) =
    (let i = (if lr then lr_temp_assoc_next_nodeid_idx s else temp_assoc_next_nodeid_idx s) in if i < length (virtual_nodes_of lr s) then Some (virtual_nodes_of lr s ! i) else None)"
proof -
  have n: "nodes_ok s" using r by (simp add: ta_rel_def)
  note u = in_use_ok [OF n]
  let ?i = "if lr then lr_temp_assoc_next_nodeid_idx s else temp_assoc_next_nodeid_idx s" and ?l = "virtual_nodes_of lr s"
  have used: "snd ` set (sessions s xs) = set (nodes_in_use s)"
  proof -
    have "snd ` set (sessions s xs) = set (map (vid s) xs)" by (simp add: sessions_def session_of_def image_image)
    then show ?thesis using r by (simp add: ta_rel_def)
  qed
  have d: "distinct ?l" using n lr_nodes(1) by (simp add: nodes_ok_def virtual_nodes_of_def)
  have k: "v \<in> set ?l \<Longrightarrow> is_classic_node v \<longleftrightarrow> \<not> lr" for v
    using n lr_nodes(3) by (auto simp: nodes_ok_def virtual_nodes_of_def list_all_iff split: if_splits)
  have t: "take ?i ?l = filter (\<lambda>v. is_classic_node v \<longleftrightarrow> \<not> lr) (nodes_in_use s)"
    using u(3,4) n by (cases lr) (simp_all add: virtual_nodes_of_def nodes_ok_def min_def)
  have m: "v \<in> set (nodes_in_use s) \<longleftrightarrow> v \<in> set (take ?i ?l)" if "v \<in> set ?l" for v
    unfolding t using k [OF that] by simp
  show ?thesis
  proof (cases "?i < length ?l")
    case True
    have s: "?l = take ?i ?l @ ?l ! ?i # drop (Suc ?i) ?l" using True by (rule id_take_nth_drop)
    have "?l ! ?i \<notin> set (take ?i ?l)" using d s by (metis distinct_append disjoint_iff list.set_intros(1))
    then have "?l ! ?i \<notin> set (nodes_in_use s)" using m [of "?l ! ?i"] nth_mem [OF True] by simp
    moreover have "\<forall>b \<in> set (take ?i ?l). \<not> b \<notin> set (nodes_in_use s)" using m by (meson in_set_takeD)
    ultimately have "find (\<lambda>v. v \<notin> set (nodes_in_use s)) ?l = Some (?l ! ?i)" by (rule find_here [OF s])
    then show ?thesis using True by (simp add: used Let_def)
  next
    case False
    then have "take ?i ?l = ?l" by simp
    then have "find (\<lambda>v. v \<notin> set (nodes_in_use s)) ?l = None" using m by (auto simp: find_None_iff)
    then show ?thesis using False by (simp add: used Let_def)
  qed
qed


section \<open>Creating an association\<close>

text \<open>A state with another list of blocks, where one block has a new content.\<close>

lemma ta_rel_other:
  assumes "ta_rel s xs" "ta_next t = ta_next s" "temp_association_table t = temp_association_table s" "temp_association_pool t = temp_association_pool s"
    "\<forall>a \<in> set xs. ta_at t a = ta_at s a" "nodes_ok t" "nodes_in_use t = nodes_in_use s"
  shows "ta_rel t xs" "sessions t xs = sessions s xs"
proof -
  have m: "map (vid t) xs = map (vid s) xs" "map (\<lambda>a. client_of (ta_at t a)) xs = map (\<lambda>a. client_of (ta_at s a)) xs"
    "list_all (\<lambda>a. assoc_ok (ta_at t a)) xs = list_all (\<lambda>a. assoc_ok (ta_at s a)) xs" "sessions t xs = sessions s xs"
    using assms(5) by (auto simp: sessions_def list_all_iff)
  show "ta_rel t xs" unfolding ta_rel_def m assms(2-4,7) using assms(1,6) unfolding ta_rel_def by blast
  show "sessions t xs = sessions s xs" by (rule m(4))
qed

lemma ta_rel_nonnull: "ta_rel s xs \<Longrightarrow> 0 \<notin> set xs"
  using pool_list_nonnull by (auto simp: ta_rel_def)

lemma ta_find: "ta_rel s xs \<Longrightarrow> list_find P (ta_next s) (list_head (temp_association_table s)) = Some (first_or_null (filter P xs))"
  by (auto simp: ta_rel_def intro: pool_list_find)

lemma known_client:
  assumes r: "ta_rel s xs" and p: "\<not> from_unsolicited env p"
  obtains (found) us a vs where "temp_assoc_lookup_by_zip_client env p dtls s = Some (a, s)" "a \<noteq> 0" "xs = us @ a # vs" "client_of (ta_at s a) = packet_client p dtls"
      "find (\<lambda>x. fst x = packet_client p dtls) (sessions s xs) = Some (session_of (ta_at s a))"
    | (unknown) "temp_assoc_lookup_by_zip_client env p dtls s = Some (0, s)" "find (\<lambda>x. fst x = packet_client p dtls) (sessions s xs) = None"
      "\<forall>a \<in> set xs. client_of (ta_at s a) \<noteq> packet_client p dtls"
proof -
  let ?P = "\<lambda>a. client_of (ta_at s a) = packet_client p dtls"
  have l: "temp_assoc_lookup_by_zip_client env p dtls s = Some (first_or_null (filter ?P xs), s)"
    using p ta_find [OF r] by (simp add: temp_assoc_lookup_by_zip_client_def client_of_def packet_client_def conj_ac)
  show thesis
  proof (rule find_map_cases [OF ta_rel_nonnull [OF r], of ?P])
    assume "first_or_null (filter ?P xs) = 0" "\<forall>a \<in> set xs. \<not> ?P a"
    then show thesis using unknown l by (auto simp: find_None_iff sessions_def session_of_def)
  next
    fix us a vs
    assume a: "first_or_null (filter ?P xs) = a" "a \<noteq> 0" "xs = us @ a # vs" "?P a" "\<forall>b \<in> set us. \<not> ?P b"
    have e: "sessions s xs = map (\<lambda>a. session_of (ta_at s a)) us @ session_of (ta_at s a) # map (\<lambda>a. session_of (ta_at s a)) vs" by (simp add: sessions_def a(3))
    have "find (\<lambda>x. fst x = packet_client p dtls) (sessions s xs) = Some (session_of (ta_at s a))"
      by (rule find_here [OF e]) (use a(4,5) in \<open>auto simp: session_of_def\<close>)
    then show thesis using found [of a us vs] l a by simp
  qed
qed


text \<open>The fields that say which virtual nodes there are and how many of them are in use.\<close>

definition same_nodes :: "ta_state \<Rightarrow> ta_state \<Rightarrow> bool" where
  "same_nodes s t \<longleftrightarrow> temp_assoc_virtual_nodeids t = temp_assoc_virtual_nodeids s \<and> temp_assoc_virtual_nodeid_count t = temp_assoc_virtual_nodeid_count s
     \<and> temp_assoc_next_nodeid_idx t = temp_assoc_next_nodeid_idx s \<and> lr_temp_assoc_next_nodeid_idx t = lr_temp_assoc_next_nodeid_idx s"

lemma same_nodesD: "same_nodes s t \<Longrightarrow> nodes_ok t = nodes_ok s" "same_nodes s t \<Longrightarrow> nodes_in_use t = nodes_in_use s" "same_nodes s t \<Longrightarrow> virtual_nodes_of lr t = virtual_nodes_of lr s"
  by (simp_all add: same_nodes_def nodes_ok_def nodes_in_use_def virtual_nodes_of_def)

lemma same_static: "same_association x y \<Longrightarrow> virtual_id_static x = virtual_id_static y"
proof -
  assume "same_association x y"
  then have "virtual_id_static (x \<lparr> virtual_id := 0 \<rparr>) = virtual_id_static (y \<lparr> virtual_id := 0 \<rparr>)" by (simp only: same_association_def)
  then show ?thesis by simp
qed

text \<open>A block \<open>a\<close> that is in the pool but not in the list becomes the youngest association.\<close>

lemma setup_saves:
  assumes il: "is_list (ta_next u) (temp_association_table u) ys"
    and m: "memb_ok (temp_association_pool u)" "length (temp_association_pool u) = MAX_TEMP_ASSOCIATIONS" "used_blocks (temp_association_pool u) = insert a (set ys)" "a \<notin> set ys"
    and v: "virtual_id_static (ta_at u a) \<noteq> 0" "virtual_id_static (ta_at u a) \<notin> vid u ` set ys" "list_all (\<lambda>a. assoc_ok (ta_at u a)) ys" and p: "\<not> from_unsolicited env p"
  obtains t where "temp_assoc_setup_and_save env p a (upd_assoc a (\<lambda>e. e \<lparr> was_dtls := dtls \<rparr>) u) = Some (True, t)"
    "pool_list MAX_TEMP_ASSOCIATIONS (temp_association_table t) (ta_next t) (temp_association_pool t) (ys @ [a])" "\<forall>b \<in> set ys. ta_at t b = ta_at u b"
    "client_of (ta_at t a) = packet_client p dtls" "vid t a = virtual_id_static (ta_at u a)" "virtual_id_static (ta_at t a) = virtual_id_static (ta_at u a)" "same_nodes u t" "locked_a t = locked_a u"
proof -
  let ?e = "(ta_at u a) \<lparr> was_dtls := dtls, resource_port := srcport p, resource_endpoint := sEndpoint p, resource_ip := srcipaddr p,
      is_long_range := is_lr_node (dest_node p), virtual_id := virtual_id_static (ta_at u a) \<rparr>"
  let ?w = "u \<lparr> ta_at := (ta_at u)(a := ?e) \<rparr>"
  have a0: "a \<noteq> 0" using m(3) by (auto simp: used_blocks_def)
  have ne: "virtual_id_static (ta_at u b) \<noteq> virtual_id_static (ta_at u a)" if "b \<in> set ys" for b using v(2,3) that by (auto simp: list_all_iff assoc_ok_def image_iff)
  have "\<not> same_association ?e (ta_at ?w b)" if "b \<in> set ys" for b
    using ne [OF that] that m(4) same_static [of ?e "ta_at ?w b"] by auto
  then have f: "filter (\<lambda>b. same_association ?e (ta_at ?w b)) ys = []" by (simp add: filter_empty_conv)
  obtain l nxt where l: "list_add (temp_association_table u) a (ta_next u) = Some (l, nxt)" "is_list nxt l (ys @ [a])"
    using list_add_linked [OF il a0] m(4) by (auto simp: remove1_idem)
  let ?x = "?w \<lparr> temp_association_table := l, ta_next := nxt \<rparr>"
  have add: "temp_assoc_add_to_association_table a ?w = Some ?x"
    using l(1) f list_find_linked [of "ta_next u" "temp_association_table u" ys] il
    by (simp add: temp_assoc_add_to_association_table_def is_list_def first_or_null_def list_head_def)
  let ?t = "if is_lr_node (dest_node p) then ?x else temp_assoc_persist_virtual_nodeids ?x"
  have "temp_assoc_setup_and_save env p a (upd_assoc a (\<lambda>e. e \<lparr> was_dtls := dtls \<rparr>) u) = Some (True, ?t)"
    using v(1) p add by (simp add: temp_assoc_setup_and_save_def upd_assoc_def Let_def)
  moreover have "pool_list MAX_TEMP_ASSOCIATIONS l nxt (temp_association_pool u) (ys @ [a])" using m l(2) by (auto simp: pool_list_def)
  ultimately show thesis using m(4)
    by (intro that [of ?t]) (auto simp: temp_assoc_persist_virtual_nodeids_def ta_emit_def client_of_def packet_client_def same_nodes_def)
qed


lemma room_iff:
  assumes "ta_rel s xs"
  shows "check_available_temp_assoc env p s \<longleftrightarrow> spec_room env (dest_node p) (sessions s xs)"
  unfolding check_available_temp_assoc_def spec_room_def Let_def ta_rel_counts(2) [OF assms] using node_kinds [of "dest_node p"]
  by (auto simp: ta_limits)

text \<open>The youngest association is added to those that are there.\<close>

lemma ta_rel_snoc:
  assumes pl: "pool_list MAX_TEMP_ASSOCIATIONS (temp_association_table t) (ta_next t) (temp_association_pool t) (ys @ [a])" and n: "nodes_ok t"
    and same: "\<forall>b \<in> set ys. ta_at t b = ta_at s b" and ok: "list_all (\<lambda>a. assoc_ok (ta_at s a)) ys" "assoc_ok (ta_at t a)"
    and d: "distinct (map (vid s) ys)" "vid t a \<notin> vid s ` set ys" "insert (vid t a) (vid s ` set ys) = set (nodes_in_use t)"
    and c: "distinct (map (\<lambda>a. client_of (ta_at s a)) ys)" "\<forall>b \<in> set ys. client_of (ta_at s b) \<noteq> client_of (ta_at t a)"
  shows "ta_rel t (ys @ [a])" "sessions t (ys @ [a]) = sessions s ys @ [session_of (ta_at t a)]"
proof -
  have m: "map (vid t) ys = map (vid s) ys" "map (\<lambda>a. client_of (ta_at t a)) ys = map (\<lambda>a. client_of (ta_at s a)) ys"
    "list_all (\<lambda>a. assoc_ok (ta_at t a)) ys = list_all (\<lambda>a. assoc_ok (ta_at s a)) ys" "sessions t ys = sessions s ys"
    using same by (auto simp: sessions_def list_all_iff)
  have "distinct (map (vid t) (ys @ [a]))" "set (map (vid t) (ys @ [a])) = set (nodes_in_use t)"
    unfolding map_append m(1) using d by auto
  moreover have "distinct (map (\<lambda>a. client_of (ta_at t a)) (ys @ [a]))" unfolding map_append m(2) using c by auto
  moreover have "list_all (\<lambda>a. assoc_ok (ta_at t a)) (ys @ [a])" using ok m(3) by simp
  ultimately show "ta_rel t (ys @ [a])" using pl n unfolding ta_rel_def by blast
  show "sessions t (ys @ [a]) = sessions s ys @ [session_of (ta_at t a)]" using m(4) by (simp add: sessions_def)
qed

text \<open>What the result of a call is: the association, the state and its list of blocks.\<close>

definition created :: "ta_env \<Rightarrow> zip_packet \<Rightarrow> u8 \<Rightarrow> ta_state \<Rightarrow> addr list \<Rightarrow> addr \<Rightarrow> ta_state \<Rightarrow> addr list \<Rightarrow> bool" where
  "created env p dtls s xs a t ys \<longleftrightarrow> ta_rel t ys
     \<and> (if a = 0 then None else Some (vid t a), sessions t ys)
         = spec_create (spec_room env (dest_node p) (sessions s xs)) (packet_client p dtls) (virtual_nodes_of (is_lr_node (dest_node p)) s) (locked_node s xs) (sessions s xs)
     \<and> (a \<noteq> 0 \<longrightarrow> a \<in> set ys \<and> client_of (ta_at t a) = packet_client p dtls)
     \<and> temp_assoc_virtual_nodeids t = temp_assoc_virtual_nodeids s \<and> temp_assoc_virtual_nodeid_count t = temp_assoc_virtual_nodeid_count s
     \<and> (xs \<noteq> [] \<longrightarrow> locked_a t = locked_a s) \<and> (locked_a s \<in> set xs \<longrightarrow> locked_a s \<in> set ys \<and> ta_at t (locked_a s) = ta_at s (locked_a s))"


lemma find_SomeD: "find P xs = Some x \<Longrightarrow> x \<in> set xs \<and> P x"
  by (auto simp: find_Some_iff)

lemma assigned_node:
  fixes a pool
  assumes r: "ta_rel s xs" and av: "check_available_temp_assoc env p s"
  defines "u \<equiv> assign_virtual_node p a (upd_assoc a (\<lambda>_. zero_association) (s \<lparr> temp_association_pool := pool \<rparr>))"
    and "new \<equiv> find (\<lambda>v. v \<notin> snd ` set (sessions s xs)) (virtual_nodes_of (is_lr_node (dest_node p)) s)"
  shows "virtual_id_static (ta_at u a) = (case new of None \<Rightarrow> 0 | Some v \<Rightarrow> v)"
    "\<And>v. new = Some v \<Longrightarrow> nodes_ok u \<and> set (nodes_in_use u) = insert v (set (nodes_in_use s)) \<and> v \<noteq> 0 \<and> (is_classic_node v \<longleftrightarrow> \<not> is_lr_node (dest_node p))"
    "new = None \<Longrightarrow> same_nodes s u"
proof -
  have n: "nodes_ok s" using r by (simp add: ta_rel_def)
  have "virtual_id_static (ta_at u a) = (case new of None \<Rightarrow> 0 | Some v \<Rightarrow> v)
    \<and> (\<forall>v. new = Some v \<longrightarrow> nodes_ok u \<and> set (nodes_in_use u) = insert v (set (nodes_in_use s)))
    \<and> (new = None \<longrightarrow> same_nodes s u)"
  proof (cases "is_lr_node (dest_node p)")
    case True
    then have i: "lr_temp_assoc_next_nodeid_idx s < 4" using av node_kinds by (auto simp: check_available_temp_assoc_def ta_limits Let_def)
    then have "new = Some (lr_temp_assoc_virtual_nodeids ! lr_temp_assoc_next_nodeid_idx s)"
      using True lr_nodes(2) unfolding new_def first_unused [OF r] by (simp add: virtual_nodes_of_def)
    moreover have "take (Suc (lr_temp_assoc_next_nodeid_idx s)) lr_temp_assoc_virtual_nodeids
        = take (lr_temp_assoc_next_nodeid_idx s) lr_temp_assoc_virtual_nodeids @ [lr_temp_assoc_virtual_nodeids ! lr_temp_assoc_next_nodeid_idx s]"
      using i lr_nodes(2) by (simp add: take_Suc_conv_app_nth)
    ultimately show ?thesis using True i n
      by (auto simp: u_def assign_virtual_node_def upd_assoc_def nodes_ok_def nodes_in_use_def virtual_nodes_of_def ta_limits)
  next
    case False
    let ?i = "temp_assoc_next_nodeid_idx s"
    have cl: "is_classic_node (dest_node p)" using av False by (auto simp: check_available_temp_assoc_def Let_def)
    have len: "length (virtual_nodes_of False s) = temp_assoc_virtual_nodeid_count s" using n by (simp add: nodes_ok_def virtual_nodes_of_def)
    show ?thesis
    proof (cases "?i < temp_assoc_virtual_nodeid_count s")
      case True
      then have "new = Some (temp_assoc_virtual_nodeids s ! ?i)"
        using False unfolding new_def first_unused [OF r] by (simp add: len) (simp add: virtual_nodes_of_def)
      moreover have "take (Suc ?i) (temp_assoc_virtual_nodeids s) = take ?i (temp_assoc_virtual_nodeids s) @ [temp_assoc_virtual_nodeids s ! ?i]"
        using True n by (simp add: take_Suc_conv_app_nth nodes_ok_def)
      ultimately show ?thesis using True False cl n
        by (auto simp: u_def assign_virtual_node_def upd_assoc_def nodes_ok_def nodes_in_use_def virtual_nodes_of_def)
    next
      case no: False
      then have "new = None" using False unfolding new_def first_unused [OF r] by (simp add: len)
      then show ?thesis using False no by (simp add: u_def assign_virtual_node_def upd_assoc_def same_nodes_def)
    qed
  qed
  moreover have "v \<noteq> 0 \<and> (is_classic_node v \<longleftrightarrow> \<not> is_lr_node (dest_node p))" if "new = Some v" for v
  proof -
    have "v \<in> set (virtual_nodes_of (is_lr_node (dest_node p)) s)" using that find_SomeD unfolding new_def by fast
    then show ?thesis using n lr_nodes(3) classic_nonzero by (auto simp: nodes_ok_def virtual_nodes_of_def list_all_iff split: if_splits)
  qed
  ultimately show "virtual_id_static (ta_at u a) = (case new of None \<Rightarrow> 0 | Some v \<Rightarrow> v)"
    "\<And>v. new = Some v \<Longrightarrow> nodes_ok u \<and> set (nodes_in_use u) = insert v (set (nodes_in_use s)) \<and> v \<noteq> 0 \<and> (is_classic_node v \<longleftrightarrow> \<not> is_lr_node (dest_node p))"
    "new = None \<Longrightarrow> same_nodes s u"
    by blast+
qed

lemma assigned_frame:
  fixes p a s pool
  defines "u \<equiv> assign_virtual_node p a (upd_assoc a (\<lambda>_. zero_association) (s \<lparr> temp_association_pool := pool \<rparr>))"
  shows "ta_next u = ta_next s" "temp_association_table u = temp_association_table s" "temp_association_pool u = pool" "b \<noteq> a \<Longrightarrow> ta_at u b = ta_at s b"
    "temp_assoc_virtual_nodeids u = temp_assoc_virtual_nodeids s" "temp_assoc_virtual_nodeid_count u = temp_assoc_virtual_nodeid_count s" "locked_a u = locked_a s"
  by (auto simp: u_def assign_virtual_node_def upd_assoc_def)


lemma new_created:
  assumes r: "ta_rel s xs" and av: "check_available_temp_assoc env p s" and p: "\<not> from_unsolicited env p"
    and un: "find (\<lambda>x. fst x = packet_client p dtls) (sessions s xs) = None" "\<forall>b \<in> set xs. client_of (ta_at s b) \<noteq> packet_client p dtls"
  obtains a pool ok t where "memb_alloc (temp_association_pool s) = (a, pool)" "a \<noteq> 0"
    "temp_assoc_setup_and_save env p a (upd_assoc a (\<lambda>e. e \<lparr> was_dtls := dtls \<rparr>)
       (assign_virtual_node p a (upd_assoc a (\<lambda>_. zero_association) (s \<lparr> temp_association_pool := pool \<rparr>)))) = Some (ok, t)"
    "created env p dtls s xs (if ok then a else 0) t (if ok then xs @ [a] else xs)"
proof -
  have pl: "pool_list MAX_TEMP_ASSOCIATIONS (temp_association_table s) (ta_next s) (temp_association_pool s) xs" and n: "nodes_ok s" using r by (simp_all add: ta_rel_def)
  have "length xs < MAX_TEMP_ASSOCIATIONS"
    using ta_rel_counts(1) [OF r] n av by (auto simp: check_available_temp_assoc_def nodes_ok_def ta_limits Let_def split: if_splits)
  then obtain a pool where a: "memb_alloc (temp_association_pool s) = (a, pool)" "a \<noteq> 0" "a \<notin> set xs" using pool_list_append [OF pl] by blast
  note m = memb_alloc_Some [OF a(1,2)]
  define u where "u = assign_virtual_node p a (upd_assoc a (\<lambda>_. zero_association) (s \<lparr> temp_association_pool := pool \<rparr>))"
  define new where "new = find (\<lambda>v. v \<notin> snd ` set (sessions s xs)) (virtual_nodes_of (is_lr_node (dest_node p)) s)"
  note an = assigned_node [OF r av, where a = a and pool = pool, folded u_def new_def]
  note fr = assigned_frame [where p = p and a = a and s = s and pool = pool, folded u_def]
  have at: "\<forall>b \<in> set xs. ta_at u b = ta_at s b" using fr(4) a(3) by metis
  have spec: "spec_create (spec_room env (dest_node p) (sessions s xs)) (packet_client p dtls) (virtual_nodes_of (is_lr_node (dest_node p)) s) (locked_node s xs) (sessions s xs)
      = (case new of Some v \<Rightarrow> (Some v, sessions s xs @ [(packet_client p dtls, v)]) | None \<Rightarrow> (None, sessions s xs))"
    using un(1) av room_iff [OF r] by (simp add: spec_create_def new_def)
  show thesis
  proof (cases new)
    case None
    let ?w = "upd_assoc a (\<lambda>e. e \<lparr> was_dtls := dtls, resource_port := srcport p, resource_endpoint := sEndpoint p, resource_ip := srcipaddr p,
        is_long_range := is_lr_node (dest_node p), virtual_id := 0 \<rparr>) u"
    let ?t = "?w \<lparr> temp_association_pool := snd (memb_free pool a) \<rparr>"
    have e: "temp_assoc_setup_and_save env p a (upd_assoc a (\<lambda>e. e \<lparr> was_dtls := dtls \<rparr>) u) = Some (False, ?t)"
      using an(1) None p fr(3) by (simp add: temp_assoc_setup_and_save_def upd_assoc_def Let_def)
    have "memb_ok pool" "a \<in> used_blocks pool" using m pl by (simp_all add: pool_list_def)
    note mf = memb_free_used [OF this]
    have pl': "pool_list MAX_TEMP_ASSOCIATIONS (temp_association_table s) (ta_next s) (snd (memb_free pool a)) xs"
      using pl mf m a(3) by (simp add: pool_list_def)
    have sn: "same_nodes s ?t" using an(3) [OF None] by (simp add: same_nodes_def upd_assoc_def)
    have "ta_rel (s \<lparr> temp_association_pool := snd (memb_free pool a) \<rparr>) xs" using r pl' unfolding ta_rel_def by (simp add: nodes_ok_def nodes_in_use_def virtual_nodes_of_def)
    then have "ta_rel ?t xs" "sessions ?t xs = sessions (s \<lparr> temp_association_pool := snd (memb_free pool a) \<rparr>) xs"
      by (rule ta_rel_other; use at fr a(3) same_nodesD(1,2) [OF sn] n in \<open>auto simp: upd_assoc_def nodes_in_use_def\<close>)+
    moreover have "ta_at ?t b = ta_at s b" if "b \<in> set xs" for b using that at a(3) by (auto simp: upd_assoc_def)
    ultimately have "created env p dtls s xs 0 ?t xs" using spec None sn fr(7) by (simp add: created_def sessions_def same_nodes_def upd_assoc_def)
    then show thesis using that [of a pool False ?t] a e by (simp add: u_def)
  next
    case (Some v)
    have nn: "v \<notin> set (nodes_in_use s)" "vid s ` set xs = set (nodes_in_use s)"
    proof -
      show vs: "vid s ` set xs = set (nodes_in_use s)" using r by (simp add: ta_rel_def)
      have "v \<notin> snd ` set (sessions s xs)" using find_SomeD Some unfolding new_def by fast
      then show "v \<notin> set (nodes_in_use s)" unfolding vs [symmetric] by (simp add: sessions_def session_of_def image_image)
    qed
    have v: "virtual_id_static (ta_at u a) = v" "nodes_ok u" "set (nodes_in_use u) = insert v (set (nodes_in_use s))" "v \<noteq> 0"
        "is_classic_node v \<longleftrightarrow> \<not> is_lr_node (dest_node p)" using an(1,2) Some by auto
    have vu: "vid u ` set xs = vid s ` set xs" "list_all (\<lambda>a. assoc_ok (ta_at u a)) xs" using at r by (auto simp: ta_rel_def list_all_iff)
    have "is_list (ta_next u) (temp_association_table u) xs" "memb_ok (temp_association_pool u)" "length (temp_association_pool u) = MAX_TEMP_ASSOCIATIONS"
        "used_blocks (temp_association_pool u) = insert a (set xs)" "virtual_id_static (ta_at u a) \<noteq> 0" "virtual_id_static (ta_at u a) \<notin> vid u ` set xs"
      using pl fr m v vu nn by (simp_all add: pool_list_def)
    from setup_saves [OF this(1-4) a(3) this(5,6) vu(2) p, of dtls] obtain t where
        t: "temp_assoc_setup_and_save env p a (upd_assoc a (\<lambda>e. e \<lparr> was_dtls := dtls \<rparr>) u) = Some (True, t)"
        "pool_list MAX_TEMP_ASSOCIATIONS (temp_association_table t) (ta_next t) (temp_association_pool t) (xs @ [a])" "\<forall>b \<in> set xs. ta_at t b = ta_at u b"
        "client_of (ta_at t a) = packet_client p dtls" "vid t a = v" "virtual_id_static (ta_at t a) = v" "same_nodes u t" "locked_a t = locked_a u"
      unfolding v(1) by blast
    have ok: "assoc_ok (ta_at t a)" using t(4-6) v(5) by (auto simp: assoc_ok_def client_of_def packet_client_def)
    have "ta_rel t (xs @ [a])" "sessions t (xs @ [a]) = sessions s xs @ [session_of (ta_at t a)]"
      by (rule ta_rel_snoc [OF t(2)]; use same_nodesD [OF t(7)] v at t(3-5) ok nn un(2) r in \<open>auto simp: ta_rel_def\<close>)+
    then have "created env p dtls s xs a t (xs @ [a])" using spec Some t(3-5,7,8) at fr(5-7) a(2) by (simp add: created_def session_of_def same_nodes_def)
    then show thesis using that [of a pool True t] a t(1) by (simp add: u_def)
  qed
qed


text \<open>The oldest association that may be taken, and what becomes of it.\<close>

lemma recycled:
  assumes r: "ta_rel s xs" and av: "\<not> check_available_temp_assoc env p s" and p: "\<not> from_unsolicited env p"
    and un: "find (\<lambda>x. fst x = packet_client p dtls) (sessions s xs) = None" "\<forall>b \<in> set xs. client_of (ta_at s b) \<noteq> packet_client p dtls"
    and a: "a \<noteq> 0" "xs = us @ a # vs" "a \<noteq> locked_a s" "is_long_range (ta_at s a) = is_lr_node (dest_node p)"
      "\<forall>b \<in> set us. \<not> (b \<noteq> locked_a s \<and> is_long_range (ta_at s b) = is_lr_node (dest_node p))"
  obtains l nxt t where "list_remove (temp_association_table s) a (ta_next s) = Some (l, nxt)"
    "temp_assoc_setup_and_save env p a (upd_assoc a (\<lambda>e. e \<lparr> was_dtls := dtls \<rparr>) (s \<lparr> temp_association_table := l, ta_next := nxt \<rparr>)) = Some (True, t)"
    "created env p dtls s xs a t (remove1 a xs @ [a])"
proof -
  have pl: "pool_list MAX_TEMP_ASSOCIATIONS (temp_association_table s) (ta_next s) (temp_association_pool s) xs" and n: "nodes_ok s"
    and ok: "list_all (\<lambda>a. assoc_ok (ta_at s a)) xs" and d: "distinct (map (vid s) xs)" and vs: "vid s ` set xs = set (nodes_in_use s)" using r by (simp_all add: ta_rel_def)
  have il: "is_list (ta_next s) (temp_association_table s) xs" and dx: "distinct xs" using pl by (simp_all add: pool_list_def is_list_def)
  let ?ys = "remove1 a xs"
  have ys: "?ys = us @ vs" using dx by (simp add: a(2) remove1_append)
  obtain l nxt where l: "list_remove (temp_association_table s) a (ta_next s) = Some (l, nxt)" "is_list nxt l ?ys" using list_remove_linked [OF il] by blast
  let ?u = "s \<lparr> temp_association_table := l, ta_next := nxt \<rparr>"
  have ao: "assoc_ok (ta_at s a)" "list_all (\<lambda>a. assoc_ok (ta_at s a)) ?ys" unfolding ys using ok unfolding a(2) by auto
  have st: "virtual_id_static (ta_at s a) = vid s a" using ao(1) by (simp add: assoc_ok_def)
  have v0: "vid s a \<noteq> 0" using in_use_ok(5) [OF n, of "vid s a"] vs by (auto simp: a(2))
  have vn: "vid s a \<notin> vid s ` set ?ys" unfolding ys using d unfolding a(2) by auto
  have "memb_ok (temp_association_pool s)" "length (temp_association_pool s) = MAX_TEMP_ASSOCIATIONS" "used_blocks (temp_association_pool s) = insert a (set ?ys)" "a \<notin> set ?ys"
    unfolding ys using pl dx unfolding a(2) by (auto simp: pool_list_def)
  from setup_saves [of ?u ?ys a env p dtls, simplified, OF l(2) this(1,2,3) _ _ _ ao(2) p] this(4) v0 vn st obtain t where
      t: "temp_assoc_setup_and_save env p a (upd_assoc a (\<lambda>e. e \<lparr> was_dtls := dtls \<rparr>) ?u) = Some (True, t)"
      "pool_list MAX_TEMP_ASSOCIATIONS (temp_association_table t) (ta_next t) (temp_association_pool t) (?ys @ [a])" "\<forall>b \<in> set ?ys. ta_at t b = ta_at s b"
      "client_of (ta_at t a) = packet_client p dtls" "vid t a = vid s a" "virtual_id_static (ta_at t a) = vid s a" "same_nodes ?u t" "locked_a t = locked_a s"
    by auto
  have sn: "same_nodes s t" using t(7) by (simp add: same_nodes_def)
  have okt: "assoc_ok (ta_at t a)" using t(4-6) ao(1) a(4) by (auto simp: assoc_ok_def client_of_def packet_client_def)
  have dc: "distinct (map (\<lambda>a. client_of (ta_at s a)) ?ys)" "distinct (map (vid s) ?ys)" "insert (vid s a) (vid s ` set ?ys) = vid s ` set xs"
    unfolding ys using r unfolding ta_rel_def a(2) by auto
  have nc: "\<forall>b \<in> set ?ys. client_of (ta_at s b) \<noteq> packet_client p dtls" unfolding ys using un(2) unfolding a(2) by auto
  have rel: "ta_rel t (?ys @ [a])" "sessions t (?ys @ [a]) = sessions s ?ys @ [session_of (ta_at t a)]"
    by (rule ta_rel_snoc [OF t(2)]; use same_nodesD [OF sn] n t(3-5) okt ao(2) vn dc vs nc in \<open>auto\<close>)+
  have "find (\<lambda>x. Some (snd x) \<noteq> locked_node s xs \<and> client_lr (fst x) = is_lr_node (dest_node p)) (sessions s xs) = Some (session_of (ta_at s a))"
  proof (rule find_here)
    show "sessions s xs = map (\<lambda>a. session_of (ta_at s a)) us @ session_of (ta_at s a) # map (\<lambda>a. session_of (ta_at s a)) vs" by (simp add: sessions_def a(2))
    have inj: "b = c" if "b \<in> set xs" "c \<in> set xs" "vid s b = vid s c" for b c using d that by (auto simp: distinct_map dest: inj_onD)
    have L: "Some (vid s b) \<noteq> locked_node s xs \<longleftrightarrow> b \<noteq> locked_a s" if "b \<in> set xs" for b using inj that by (auto simp: locked_node_def)
    show "Some (snd (session_of (ta_at s a))) \<noteq> locked_node s xs \<and> client_lr (fst (session_of (ta_at s a))) = is_lr_node (dest_node p)"
      using L [of a] a by (simp add: session_of_def client_of_def client_lr_def)
    show "\<forall>x \<in> set (map (\<lambda>a. session_of (ta_at s a)) us). \<not> (Some (snd x) \<noteq> locked_node s xs \<and> client_lr (fst x) = is_lr_node (dest_node p))"
      using L a(2,5) by (auto simp: session_of_def client_of_def client_lr_def)
  qed
  moreover have "remove1 (session_of (ta_at s a)) (sessions s xs) = sessions s ?ys"
  proof -
    have "session_of (ta_at s a) \<notin> set (sessions s us)" using d by (auto simp: sessions_def session_of_def a(2))
    then show ?thesis unfolding ys unfolding a(2) by (simp add: sessions_def remove1_append)
  qed
  moreover have "locked_a s \<in> set xs \<longrightarrow> locked_a s \<in> set ?ys" using a(3) by (simp add: in_set_remove1)
  ultimately have "created env p dtls s xs a t (?ys @ [a])"
    using rel un(1) av room_iff [OF r] t(3-5,8) a(1) sn
    by (simp add: created_def spec_create_def session_of_def packet_client_def client_lr_def same_nodes_def)
  then show thesis using that l(1) t(1) by blast
qed


lemma none_to_take:
  assumes "\<forall>a \<in> set xs. \<not> (a \<noteq> locked_a s \<and> is_long_range (ta_at s a) = lr)"
  shows "find (\<lambda>x. Some (snd x) \<noteq> locked_node s xs \<and> client_lr (fst x) = lr) (sessions s xs) = None"
  using assms by (auto simp: find_None_iff sessions_def session_of_def client_of_def client_lr_def locked_node_def)

text \<open>A call for a client other than the unsolicited destination.\<close>

lemma create_rel:
  assumes r: "ta_rel s xs" and i: "\<not> is_assoc_create_in_progress env s" and p: "\<not> from_unsolicited env p"
  obtains a t ys where "temp_assoc_create env p dtls s = Some (a, t)" "created env p dtls s xs a t ys"
proof (rule known_client [OF r p, of dtls])
  fix us a vs
  assume a: "temp_assoc_lookup_by_zip_client env p dtls s = Some (a, s)" "a \<noteq> 0" "xs = us @ a # vs" "client_of (ta_at s a) = packet_client p dtls"
    "find (\<lambda>x. fst x = packet_client p dtls) (sessions s xs) = Some (session_of (ta_at s a))"
  have "created env p dtls s xs a s xs" using r a(2-5) by (simp add: created_def spec_create_def session_of_def)
  then show thesis using that [of a s xs] i a(1,2) by (simp add: temp_assoc_create_def)
next
  assume l: "temp_assoc_lookup_by_zip_client env p dtls s = Some (0, s)" and un: "find (\<lambda>x. fst x = packet_client p dtls) (sessions s xs) = None"
    "\<forall>a \<in> set xs. client_of (ta_at s a) \<noteq> packet_client p dtls"
  let ?s = "if xs = [] then s \<lparr> locked_a := 0, reset_fw_timer := None \<rparr> else s"
  have r': "ta_rel ?s xs" and ss: "sessions ?s xs = sessions s xs"
    by (rule ta_rel_other [OF r]; use r in \<open>auto simp: ta_rel_def nodes_ok_def nodes_in_use_def virtual_nodes_of_def\<close>)+
  have at: "ta_at ?s = ta_at s" by simp
  have un': "find (\<lambda>x. fst x = packet_client p dtls) (sessions ?s xs) = None" "\<forall>a \<in> set xs. client_of (ta_at ?s a) \<noteq> packet_client p dtls"
    using un unfolding ss at by simp_all
  have c: "created env p dtls ?s xs a t ys \<Longrightarrow> created env p dtls s xs a t ys" for a t ys
    by (auto simp: created_def locked_node_def virtual_nodes_of_def sessions_def)
  have len: "list_length (temp_association_table s) (ta_next s) = Some (length xs)"
    using r list_length_linked by (auto simp: ta_rel_def pool_list_def is_list_def)
  have e: "temp_assoc_create env p dtls s = Option.bind (temp_assoc_get_new_or_reuse_oldest env p s) (\<lambda>(a, s).
      if a = 0 then Some (0, s) else map_option (\<lambda>(ok, s). (if ok then a else 0, s)) (temp_assoc_setup_and_save env p a (upd_assoc a (\<lambda>e. e \<lparr> was_dtls := dtls \<rparr>) s)))"
    using i l by (simp add: temp_assoc_create_def)
  show thesis
  proof (cases "check_available_temp_assoc env p ?s")
    case True
    obtain a pool ok t where n: "memb_alloc (temp_association_pool ?s) = (a, pool)" "a \<noteq> 0"
        "temp_assoc_setup_and_save env p a (upd_assoc a (\<lambda>e. e \<lparr> was_dtls := dtls \<rparr>)
           (assign_virtual_node p a (upd_assoc a (\<lambda>_. zero_association) (?s \<lparr> temp_association_pool := pool \<rparr>)))) = Some (ok, t)"
        "created env p dtls ?s xs (if ok then a else 0) t (if ok then xs @ [a] else xs)"
      by (rule new_created [OF r' True p un'])
    have "temp_assoc_get_new_or_reuse_oldest env p s = Some (a, assign_virtual_node p a (upd_assoc a (\<lambda>_. zero_association) (?s \<lparr> temp_association_pool := pool \<rparr>)))"
      using True n(1,2) unfolding temp_assoc_get_new_or_reuse_oldest_def len by (simp add: Let_def split: if_splits)
    then have "temp_assoc_create env p dtls s = Some (if ok then a else 0, t)" using n(2,3) unfolding e by simp
    then show thesis using c [OF n(4)] by (rule that)
  next
    case False
    let ?P = "\<lambda>a. a \<noteq> locked_a ?s \<and> is_long_range (ta_at ?s a) = is_lr_node (dest_node p)"
    have g: "temp_assoc_get_new_or_reuse_oldest env p s = (let a = first_or_null (filter ?P xs) in if a = 0 then Some (0, ?s)
        else map_option (\<lambda>(l, nxt). (a, ?s \<lparr> temp_association_table := l, ta_next := nxt \<rparr>)) (list_remove (temp_association_table ?s) a (ta_next ?s)))"
      using False ta_find [OF r', of ?P] unfolding temp_assoc_get_new_or_reuse_oldest_def len by (simp add: Let_def split: if_splits)
    show thesis
    proof (rule find_map_cases [OF ta_rel_nonnull [OF r'], of ?P])
      assume z: "first_or_null (filter ?P xs) = 0" "\<forall>a \<in> set xs. \<not> ?P a"
      have "find (\<lambda>x. Some (snd x) \<noteq> locked_node ?s xs \<and> client_lr (fst x) = is_lr_node (dest_node p)) (sessions ?s xs) = None"
        by (rule none_to_take [OF z(2)])
      then have "created env p dtls ?s xs 0 ?s xs"
        using r' un'(1) False room_iff [OF r'] by (simp add: created_def spec_create_def packet_client_def client_lr_def)
      moreover have "temp_assoc_create env p dtls s = Some (0, ?s)" unfolding e g z(1) by simp
      ultimately show thesis by (intro that [OF _ c])
    next
      fix us a vs
      assume a: "first_or_null (filter ?P xs) = a" "a \<noteq> 0" "xs = us @ a # vs" "?P a" "\<forall>b \<in> set us. \<not> ?P b"
      obtain l nxt t where t: "list_remove (temp_association_table ?s) a (ta_next ?s) = Some (l, nxt)"
          "temp_assoc_setup_and_save env p a (upd_assoc a (\<lambda>e. e \<lparr> was_dtls := dtls \<rparr>) (?s \<lparr> temp_association_table := l, ta_next := nxt \<rparr>)) = Some (True, t)"
          "created env p dtls ?s xs a t (remove1 a xs @ [a])"
        by (rule recycled [OF r' False p un' a(2,3) conjunct1 [OF a(4)] conjunct2 [OF a(4)] a(5)])
      have "temp_assoc_create env p dtls s = Some (a, t)" unfolding e g a(1) using a(2) t(1,2) by simp
      then show thesis using c [OF t(3)] by (rule that)
    qed
  qed
qed


section \<open>The table as it is read from memory\<close>

partial_function (option) list_walk :: "links \<Rightarrow> addr \<Rightarrow> addr list option" where
  "list_walk nxt p = (if p = 0 then Some [] else Option.bind (list_walk nxt (nxt p)) (\<lambda>l. Some (p # l)))"

lemma list_walk_linked: "linked nxt p xs \<Longrightarrow> list_walk nxt p = Some xs"
  by (induction xs arbitrary: p) (simp_all add: list_walk.simps)

definition ta_blocks :: "ta_state \<Rightarrow> addr list" where
  "ta_blocks s = the (list_walk (ta_next s) (temp_association_table s))"

definition ta_sessions :: "ta_state \<Rightarrow> (client \<times> nodeid) list" where "ta_sessions s = sessions s (ta_blocks s)"

definition ta_inv :: "ta_state \<Rightarrow> bool" where "ta_inv s \<longleftrightarrow> ta_rel s (ta_blocks s)"

lemma ta_rel_blocks: "ta_rel s xs \<Longrightarrow> ta_blocks s = xs"
  using list_walk_linked by (auto simp: ta_rel_def pool_list_def is_list_def ta_blocks_def)

lemma ta_invI: "ta_rel s xs \<Longrightarrow> ta_inv s"
  using ta_rel_blocks by (auto simp: ta_inv_def)

lemma ta_inv_other:
  assumes "ta_inv s" "ta_next t = ta_next s" "temp_association_table t = temp_association_table s" "temp_association_pool t = temp_association_pool s"
    "\<forall>a \<in> set (ta_blocks s). ta_at t a = ta_at s a" "nodes_ok t" "nodes_in_use t = nodes_in_use s"
  shows "ta_inv t" "ta_blocks t = ta_blocks s" "ta_sessions t = ta_sessions s"
proof -
  have r: "ta_rel t (ta_blocks s)" "sessions t (ta_blocks s) = sessions s (ta_blocks s)"
    by (rule ta_rel_other [OF _ assms(2-7)]; use assms(1) in \<open>simp add: ta_inv_def\<close>)+
  then show "ta_inv t" "ta_blocks t = ta_blocks s" "ta_sessions t = ta_sessions s" using ta_rel_blocks [OF r(1)] ta_invI [OF r(1)] by (simp_all add: ta_sessions_def)
qed

lemma blocks_bound: "ta_inv s \<Longrightarrow> a \<in> set (ta_blocks s) \<Longrightarrow> a \<noteq> 0 \<and> a \<le> MAX_TEMP_ASSOCIATIONS"
  by (auto simp: ta_inv_def ta_rel_def pool_list_def used_blocks_def)

lemma lookup_here:
  assumes i: "ta_inv s" and a: "a \<in> set (ta_blocks s)"
  shows "temp_assoc_lookup_by_virtual_nodeid (vid s a) s = Some a"
proof -
  have r: "ta_rel s (ta_blocks s)" and d: "distinct (map (vid s) (ta_blocks s))" using i by (simp_all add: ta_inv_def ta_rel_def)
  have "\<not> (vid s b = vid s a)" if "b \<in> set us" "ta_blocks s = us @ a # vs" for b us vs
    using d that(1) unfolding that(2) by (auto simp: image_iff)
  then have "filter (\<lambda>b. vid s b = vid s a) (ta_blocks s) \<noteq> [] \<and> hd (filter (\<lambda>b. vid s b = vid s a) (ta_blocks s)) = a"
    using split_list [OF a] by (auto simp: filter_empty_conv)
  then have "first_or_null (filter (\<lambda>b. vid s b = vid s a) (ta_blocks s)) = a" by (auto simp: first_or_null_def split: list.split)
  then show ?thesis using ta_find [OF r] by (simp add: temp_assoc_lookup_by_virtual_nodeid_def)
qed

end
