(* ===== verification/Temp_Assoc_Run.thy ===== *)
theory Temp_Assoc_Run
  imports Temp_Assoc_Correct
begin

text \<open>
  Temporary associations and the bridge over time: the calls in any order, that answers to a virtual node always find the client it was
  given to, that a locked association stays, and that the start of the bridge comes to an end.
\<close>

unbundle bit_operations_syntax

section \<open>Any order of calls\<close>

datatype ta_op = Do_create zip_packet u8 | Do_lock addr | Do_unlock | Do_delay | Do_timer | Do_report u8 nodeid | Do_resume | Do_reset

fun ta_apply :: "ta_env \<Rightarrow> ta_op \<Rightarrow> ta_state \<Rightarrow> ta_state option" where
  "ta_apply env (Do_create p dtls) s = map_option snd (temp_assoc_create env p dtls s)"
| "ta_apply env (Do_lock a) s = Some (temp_assoc_register_fw_lock a s)"
| "ta_apply env Do_unlock s = Some (if reset_fw_timer s = None then s else temp_assoc_fw_lock_release_on_timeout s)"
| "ta_apply env Do_delay s = Some (if virtual_add_delay_timer s then temp_assoc_add_virtual_nodes env (s \<lparr> virtual_add_delay_timer := False \<rparr>) else s)"
| "ta_apply env Do_timer s = Some (if virtual_add_timer s then temp_assoc_add_virtual_nodes env (s \<lparr> virtual_add_timer := False \<rparr>) else s)"
| "ta_apply env (Do_report st n) s = temp_assoc_virtual_add_callback env st n s"
| "ta_apply env Do_resume s = Some (resume_bridge_init env s)"
| "ta_apply env Do_reset s = Some (bridge_reset s)"

text \<open>A report that a node was added is about a new node, and comes when there is room for it.\<close>

fun ta_allowed :: "ta_op \<Rightarrow> ta_state \<Rightarrow> bool" where
  "ta_allowed (Do_report st n) s \<longleftrightarrow> (st = ASSIGN_NODEID_DONE \<longrightarrow> is_virtual_node n s
     \<or> is_classic_node n \<and> n \<notin> set (virtual_nodes_of False s) \<and> temp_assoc_virtual_nodeid_count s < MAX_CLASSIC_TEMP_ASSOCIATIONS)"
| "ta_allowed op s \<longleftrightarrow> True"

text \<open>The stored virtual nodes are different nodes.\<close>

definition stored_ok :: "ta_env \<Rightarrow> bool" where
  "stored_ok env \<longleftrightarrow> (\<forall>l. distinct (stored_virtual_nodes env l) \<and> list_all is_classic_node (stored_virtual_nodes env l))"

inductive ta_reachable :: "ta_env \<Rightarrow> ta_state \<Rightarrow> bool" for env where
  start: "stored_ok env \<Longrightarrow> ta_reachable env (bridge_init env s)"
| step: "ta_reachable env s \<Longrightarrow> ta_allowed op s \<Longrightarrow> ta_apply env op s = Some t \<Longrightarrow> ta_reachable env t"

section \<open>The invariant\<close>

definition table_frame :: "ta_state \<Rightarrow> ta_state \<Rightarrow> bool" where
  "table_frame s t \<longleftrightarrow> ta_next t = ta_next s \<and> temp_association_table t = temp_association_table s \<and> temp_association_pool t = temp_association_pool s \<and> ta_at t = ta_at s"

lemma ta_frame_inv: "ta_inv s \<Longrightarrow> table_frame s t \<Longrightarrow> same_nodes s t \<Longrightarrow> ta_inv t"
  using ta_inv_other(1) [of s t] same_nodesD(1,2) [of s t] by (auto simp: table_frame_def ta_inv_def ta_rel_def)

lemma add_virtual_nodes_frame: "table_frame s (temp_assoc_add_virtual_nodes env s)" "same_nodes s (temp_assoc_add_virtual_nodes env s)"
  by (auto simp: table_frame_def same_nodes_def temp_assoc_add_virtual_nodes_def ta_emit_def Let_def)

lemma ta_init_inv: "ta_inv (temp_assoc_init s)"
  by (rule ta_invI [of _ "[]"])
     (simp add: ta_rel_def temp_assoc_init_def pool_list_init nodes_ok_def nodes_in_use_def virtual_nodes_of_def)

lemma bridge_init_facts:
  fixes env s
  defines "b \<equiv> bridge_init env s" and "l \<equiv> ta_log s @ [Ta_ip_init, Ta_slave_info (if sec0_granted env (ta_log s @ [Ta_ip_init]) then [0x98, 0x9F] else [0]), Ta_ip_unpersist]"
  shows "temp_association_table b = 0" "temp_association_pool b = memb_init MAX_TEMP_ASSOCIATIONS" "temp_assoc_next_nodeid_idx b = 0" "lr_temp_assoc_next_nodeid_idx b = 0"
    "temp_assoc_add_virtual_node_retry_count b = 0" "virtual_add_timer b = virtual_add_timer s" "virtual_nodes_mask b = controller_virtual_nodes env l"
    "temp_assoc_virtual_nodeids b = take 4 (stored_virtual_nodes env l) @ drop (length (take 4 (stored_virtual_nodes env l))) (replicate 4 0)"
    "temp_assoc_virtual_nodeid_count b = length (take 4 (stored_virtual_nodes env l))"
  by (simp_all add: b_def l_def bridge_init_def temp_assoc_unpersist_virtual_nodeids_def copy_virtual_nodes_mask_from_controller_def temp_assoc_delayed_add_virtual_nodes_def
        ta_emit_def temp_assoc_init_def ta_limits Let_def)

lemma ta_bridge_init_inv:
  assumes "stored_ok env"
  shows "ta_inv (bridge_init env s)"
proof (rule ta_invI [of _ "[]"])
  note f = bridge_init_facts [of env s]
  have "nodes_ok (bridge_init env s)" "nodes_in_use (bridge_init env s) = []"
    using assms by (auto simp: f nodes_ok_def nodes_in_use_def virtual_nodes_of_def stored_ok_def ta_limits list_all_iff dest: in_set_takeD)
  then show "ta_rel (bridge_init env s) []" by (simp add: ta_rel_def f pool_list_init)
qed

lemma ta_report_inv:
  assumes i: "ta_inv s" and al: "ta_allowed (Do_report st n) s"
  obtains t where "temp_assoc_virtual_add_callback env st n s = Some t" "ta_inv t"
proof -
  define w where "w = (if is_virtual_node n s then s else temp_assoc_persist_virtual_nodeids
             (s \<lparr> temp_assoc_virtual_nodeids := (temp_assoc_virtual_nodeids s)[temp_assoc_virtual_nodeid_count s := n],
                  temp_assoc_virtual_nodeid_count := temp_assoc_virtual_nodeid_count s + 1,
                  virtual_nodes_mask := BIT8_SET (unat n - 1) (virtual_nodes_mask s) \<rparr>))"
  let ?w = "w \<lparr> temp_assoc_add_virtual_node_retry_count := 0 \<rparr>"
  let ?t = "if suc_of env (ta_log ?w) = gw_node env then temp_assoc_add_virtual_nodes env ?w else ?w \<lparr> virtual_add_timer := True \<rparr>"
  show thesis
  proof (cases "st = ASSIGN_NODEID_DONE")
    case True
    have n: "nodes_ok s" using i by (simp add: ta_inv_def ta_rel_def)
    have "nodes_ok w \<and> nodes_in_use w = nodes_in_use s"
    proof (cases "is_virtual_node n s")
      case False
      let ?c = "temp_assoc_virtual_nodeid_count s" and ?l = "temp_assoc_virtual_nodeids s"
      have c: "is_classic_node n" "n \<notin> set (take ?c ?l)" "?c < length ?l" using al True False n by (auto simp: virtual_nodes_of_def nodes_ok_def)
      have "take (Suc ?c) (?l[?c := n]) = take ?c ?l @ [n]" using c(3) by (simp add: take_Suc_conv_app_nth)
      moreover have "take (temp_assoc_next_nodeid_idx s) (?l[?c := n]) = take (temp_assoc_next_nodeid_idx s) ?l" using n by (simp add: nodes_ok_def)
      ultimately show ?thesis using n c False
        by (auto simp: w_def temp_assoc_persist_virtual_nodeids_def ta_emit_def nodes_ok_def nodes_in_use_def virtual_nodes_of_def)
    qed (simp add: w_def n)
    then have "ta_inv w" by (intro ta_inv_other(1) [OF i]) (auto simp: w_def temp_assoc_persist_virtual_nodeids_def ta_emit_def)
    then have "ta_inv ?w" by (rule ta_frame_inv) (simp_all add: table_frame_def same_nodes_def)
    then have "ta_inv ?t" using ta_frame_inv [OF _ add_virtual_nodes_frame] ta_frame_inv [of ?w "?w \<lparr> virtual_add_timer := True \<rparr>"] by (simp add: table_frame_def same_nodes_def)
    moreover have "temp_assoc_virtual_add_callback env st n s = Some ?t"
      using True al by (auto simp: temp_assoc_virtual_add_callback_def w_def Let_def)
    ultimately show thesis using that by blast
  next
    case False
    have "ta_inv (s \<lparr> virtual_add_timer := True \<rparr>)" using i by (rule ta_frame_inv) (simp_all add: table_frame_def same_nodes_def)
    then show thesis using that [of "if st = ASSIGN_COMPLETE then s \<lparr> virtual_add_timer := True \<rparr> else s"] i False by (simp add: temp_assoc_virtual_add_callback_def)
  qed
qed

lemma unsol_not_used: "ta_inv s \<Longrightarrow> unsol_temp_assoc \<notin> set (ta_blocks s)"
  using blocks_bound [of s unsol_temp_assoc] by (auto simp: unsol_temp_assoc_def)

text \<open>The unsolicited destination gets the association outside the table, with the node of the gateway.\<close>

definition for_unsolicited :: "ta_env \<Rightarrow> zip_packet \<Rightarrow> u8 \<Rightarrow> temp_association_t \<Rightarrow> bool" where
  "for_unsolicited env p dtls e \<longleftrightarrow> virtual_id e = gw_node env \<and> resource_ip e = srcipaddr p \<and> resource_port e = srcport p
     \<and> resource_endpoint e = sEndpoint p \<and> was_dtls e = dtls"

lemma unsolicited_create:
  assumes i: "ta_inv s" and u: "\<not> is_assoc_create_in_progress env s" "from_unsolicited env p"
  obtains t where "temp_assoc_create env p dtls s = Some (unsol_temp_assoc, t)" "ta_inv t" "ta_blocks t = ta_blocks s" "ta_sessions t = ta_sessions s"
    "locked_a t = locked_a s" "\<forall>a. a \<noteq> unsol_temp_assoc \<longrightarrow> ta_at t a = ta_at s a" "for_unsolicited env p dtls (ta_at t unsol_temp_assoc)"
proof -
  let ?t = "upd_assoc unsol_temp_assoc (\<lambda>e. e \<lparr> resource_endpoint := sEndpoint p, was_dtls := dtls,
           resource_port := uip_htons (unsolicited_port env), resource_ip := unsolicited_dest env, virtual_id := gw_node env \<rparr>) s"
  note n = unsol_not_used [OF i]
  have "ta_inv ?t" "ta_blocks ?t = ta_blocks s" "ta_sessions ?t = ta_sessions s"
    by (rule ta_inv_other [OF i]; use n i in \<open>auto simp: upd_assoc_def ta_inv_def ta_rel_def nodes_ok_def nodes_in_use_def virtual_nodes_of_def\<close>)+
  moreover have "temp_assoc_create env p dtls s = Some (unsol_temp_assoc, ?t)" using u by (simp add: temp_assoc_create_def temp_assoc_lookup_by_zip_client_def unsol_temp_assoc_def)
  moreover have "for_unsolicited env p dtls (ta_at ?t unsol_temp_assoc)"
    using u(2) by (simp add: for_unsolicited_def upd_assoc_def from_unsolicited_def uip_htons_twice)
  ultimately show thesis by (intro that [of ?t]) (simp_all add: upd_assoc_def)
qed

text \<open>A look-up never leaves the table.\<close>

lemma lookup_in_table:
  assumes "ta_inv s" "temp_assoc_lookup_by_virtual_nodeid v s = Some a" "a \<noteq> 0"
  shows "a \<in> set (ta_blocks s)"
proof -
  have r: "ta_rel s (ta_blocks s)" using assms(1) by (simp add: ta_inv_def)
  have a: "first_or_null (filter (\<lambda>b. vid s b = v) (ta_blocks s)) = a" using assms(2) ta_find [OF r] by (simp add: temp_assoc_lookup_by_virtual_nodeid_def)
  then show ?thesis using assms(3) by (cases "filter (\<lambda>b. vid s b = v) (ta_blocks s)") (auto simp: first_or_null_def filter_eq_Cons_iff)
qed

text \<open>Every call for an association returns and keeps the locked association.\<close>

lemma ta_create_inv:
  assumes i: "ta_inv s"
  obtains a t where "temp_assoc_create env p dtls s = Some (a, t)" "ta_inv t"
    "locked_a s \<in> set (ta_blocks s) \<Longrightarrow> locked_a t = locked_a s \<and> locked_a s \<in> set (ta_blocks t) \<and> ta_at t (locked_a s) = ta_at s (locked_a s)"
proof -
  consider (busy) "is_assoc_create_in_progress env s" | (unsol) "\<not> is_assoc_create_in_progress env s" "from_unsolicited env p"
    | (client) "\<not> is_assoc_create_in_progress env s" "\<not> from_unsolicited env p" by blast
  then show thesis
  proof cases
    case busy
    then show thesis using that [of 0 s] i by (simp add: temp_assoc_create_def)
  next
    case unsol
    obtain t where t: "temp_assoc_create env p dtls s = Some (unsol_temp_assoc, t)" "ta_inv t" "ta_blocks t = ta_blocks s" "locked_a t = locked_a s"
        "\<forall>a. a \<noteq> unsol_temp_assoc \<longrightarrow> ta_at t a = ta_at s a" by (rule unsolicited_create [OF i unsol, of dtls])
    moreover have "locked_a s \<noteq> unsol_temp_assoc" if "locked_a s \<in> set (ta_blocks s)" using that unsol_not_used [OF i] by auto
    ultimately show thesis by (intro that [of unsol_temp_assoc t]) auto
  next
    case client
    have "ta_rel s (ta_blocks s)" using i by (simp add: ta_inv_def)
    then obtain a t ys where t: "temp_assoc_create env p dtls s = Some (a, t)" "created env p dtls s (ta_blocks s) a t ys" by (rule create_rel [OF _ client])
    have r: "ta_rel t ys" using t(2) by (simp add: created_def)
    show thesis using that [of a t] t ta_invI [OF r] ta_rel_blocks [OF r] by (auto simp: created_def)
  qed
qed

lemma ta_reachable_inv: "ta_reachable env s \<Longrightarrow> ta_inv s"
proof (induction rule: ta_reachable.induct)
  case (start s)
  then show ?case by (rule ta_bridge_init_inv)
next
  case (step s op t)
  have F: "ta_inv u" if "table_frame s u" "same_nodes s u" for u using ta_frame_inv [OF step.IH that] .
  have A: "ta_inv (temp_assoc_add_virtual_nodes env u)" if "table_frame s u" "same_nodes s u" for u
    using ta_frame_inv [OF F [OF that] add_virtual_nodes_frame] .
  show ?case
  proof (cases op)
    case (Do_create p dtls)
    obtain a u where "temp_assoc_create env p dtls s = Some (a, u)" "ta_inv u" by (rule ta_create_inv [OF step.IH])
    then show ?thesis using step.hyps Do_create by simp
  next
    case (Do_report st n)
    have "ta_allowed (Do_report st n) s" using step.hyps(2) Do_report by simp
    then obtain u where "temp_assoc_virtual_add_callback env st n s = Some u" "ta_inv u" by (rule ta_report_inv [OF step.IH])
    then show ?thesis using step.hyps Do_report by simp
  next
    case Do_reset
    have "ta_inv (bridge_reset s)"
      by (rule ta_frame_inv [OF ta_init_inv [of s]]) (simp_all add: bridge_reset_def bridge_clear_association_tables_def temp_assoc_persist_virtual_nodeids_def ta_emit_def
            temp_assoc_init_def table_frame_def same_nodes_def)
    then show ?thesis using step.hyps Do_reset by simp
  qed (use step.hyps F A in \<open>auto simp: table_frame_def same_nodes_def temp_assoc_register_fw_lock_def temp_assoc_fw_lock_release_on_timeout_def
        resume_bridge_init_def temp_assoc_resume_init_def split: if_splits\<close>)
qed


section \<open>A sample\<close>

definition sample_ta_env :: ta_env where
  "sample_ta_env = \<lparr> unsolicited_dest = replicate 16 9, unsolicited_port = 4123, single_classic_temp_association = False, gw_node = 1, suc_of = (\<lambda>_. 1),
     learn_accepted = (\<lambda>_. True), is_ip_assoc_create_in_progress = (\<lambda>_. False), stored_virtual_nodes = (\<lambda>_. [10, 11]), controller_virtual_nodes = (\<lambda>_. replicate 29 0),
     controller_capabilities = (\<lambda>_. 0), sec0_granted = (\<lambda>_. True) \<rparr>"

definition sample_ta :: ta_state where
  "sample_ta = \<lparr> temp_association_table = 0, ta_next = (\<lambda>_. 0), ta_at = (\<lambda>_. zero_association), temp_association_pool = [], temp_assoc_virtual_nodeids = [],
     temp_assoc_virtual_nodeid_count = 0, temp_assoc_add_virtual_node_retry_count = 0, temp_assoc_next_nodeid_idx = 0, lr_temp_assoc_next_nodeid_idx = 0, locked_a = 0,
     reset_fw_timer = None, virtual_add_delay_timer = False, virtual_add_timer = False, bridge_state = Booting, virtual_nodes_mask = [], ta_log = [] \<rparr>"

definition sample_zip_packet :: zip_packet where
  "sample_zip_packet = \<lparr> srcipaddr = replicate 16 5, srcport = 7, sEndpoint = 0, dest_node = 300 \<rparr>"

abbreviation sample_bridge :: ta_state where "sample_bridge \<equiv> bridge_init sample_ta_env sample_ta"

lemma sample_reachable: "ta_reachable sample_ta_env sample_bridge"
  by (rule ta_reachable.start) (simp add: stored_ok_def sample_ta_env_def is_classic_node_def node_limits)

lemma sample_client: "\<not> is_assoc_create_in_progress sample_ta_env s" "\<not> from_unsolicited sample_ta_env sample_zip_packet"
  by (simp_all add: is_assoc_create_in_progress_def sample_ta_env_def from_unsolicited_def sample_zip_packet_def)

lemma sample_blocks: "ta_blocks sample_bridge = []"
  by (simp add: ta_blocks_def bridge_init_facts list_walk.simps)

section \<open>Sessions\<close>

text \<open>
  C16.  The table of temporary associations is a bounded queue of sessions.  Reachable are the states after any calls, timers, locks and resets in any order,
  with stored virtual nodes that are different classic nodes and reports of the controller that name an already virtual node or a new classic node for which there is room.
  There every call for a client returns.  While an IP association is being created there is no association and nothing changes.
  The unsolicited destination gets the one association outside the table, with the node of the gateway.  For every other client the call does what
  the specification says, a client being the address, port, end point, use of DTLS and kind of destination: a known client keeps its virtual node;
  a new one gets the first unused node of its kind, classic or long range, or, when the
  allowed number of that kind is in use or the destination is of neither kind, the node of the oldest session that is not locked, long range or not as the destination is;
  otherwise there is none and the sessions stay as they are.
\<close>

theorem temp_assoc_create_refines:
  assumes "ta_reachable env s"
  shows "\<exists>a t. temp_assoc_create env p dtls s = Some (a, t)
    \<and> (if is_assoc_create_in_progress env s then a = 0 \<and> t = s
       else if from_unsolicited env p then a = unsol_temp_assoc \<and> for_unsolicited env p dtls (ta_at t a) \<and> ta_sessions t = ta_sessions s
       else (if a = 0 then None else Some (virtual_id (ta_at t a)), ta_sessions t)
         = spec_create (spec_room env (dest_node p) (ta_sessions s)) (packet_client p dtls) (virtual_nodes_of (is_lr_node (dest_node p)) s) (locked_node s (ta_blocks s)) (ta_sessions s))"
proof -
  have i: "ta_inv s" by (rule ta_reachable_inv [OF assms])
  consider (busy) "is_assoc_create_in_progress env s" | (unsol) "\<not> is_assoc_create_in_progress env s" "from_unsolicited env p"
    | (client) "\<not> is_assoc_create_in_progress env s" "\<not> from_unsolicited env p" by blast
  then show ?thesis
  proof cases
    case busy
    then show ?thesis by (simp add: temp_assoc_create_def)
  next
    case unsol
    obtain t where "temp_assoc_create env p dtls s = Some (unsol_temp_assoc, t)" "ta_sessions t = ta_sessions s" "for_unsolicited env p dtls (ta_at t unsol_temp_assoc)"
      by (rule unsolicited_create [OF i unsol, of dtls])
    then show ?thesis using unsol by simp
  next
    case client
    have "ta_rel s (ta_blocks s)" using i by (simp add: ta_inv_def)
    then obtain a t ys where t: "temp_assoc_create env p dtls s = Some (a, t)" "created env p dtls s (ta_blocks s) a t ys" by (rule create_rel [OF _ client])
    then have "ta_blocks t = ys" by (intro ta_rel_blocks) (simp add: created_def)
    then show ?thesis using t client by (intro exI [of _ a] exI [of _ t]) (simp add: created_def ta_sessions_def)
  qed
qed

lemma temp_assoc_create_refines_witness:
  "\<exists>a t. temp_assoc_create sample_ta_env sample_zip_packet 1 sample_bridge = Some (a, t) \<and> ta_sessions t = [((replicate 16 5, 7, 0, 1, True), 4002)]"
  using temp_assoc_create_refines [OF sample_reachable, of sample_zip_packet 1] unfolding if_not_P [OF sample_client(1)] if_not_P [OF sample_client(2)]
  by (auto simp: ta_sessions_def sample_blocks sessions_def spec_create_def spec_room_def sample_zip_packet_def is_lr_node_def node_limits virtual_nodes_of_def
      lr_temp_assoc_virtual_nodeids_def packet_client_def)

text \<open>
  C17.  Where answers go.  After a call that returned an association in a reachable state (as for the specification of the table), an answer to a virtual
  node of the table goes to the client that holds the node now: every association of the table is found by its virtual node, so that no virtual node stands for two
  clients, and the association of the call holds the address, port, end point and use of DTLS of its client.  A client whose node was given to a later one has lost it, and answers to it go to the
  later client.  The association of the unsolicited destination is in no table, and no look-up ever returns it.
\<close>

theorem temp_assoc_answer_returns:
  assumes "ta_reachable env s" and "temp_assoc_create env p dtls s = Some (a, t)" and "a \<noteq> 0"
  shows "(\<forall>b \<in> set (ta_blocks t). temp_assoc_lookup_by_virtual_nodeid (virtual_id (ta_at t b)) t = Some b)
    \<and> (if from_unsolicited env p then a = unsol_temp_assoc \<and> for_unsolicited env p dtls (ta_at t a) \<and> (\<forall>v. temp_assoc_lookup_by_virtual_nodeid v t \<noteq> Some a)
       else client_of (ta_at t a) = packet_client p dtls \<and> temp_assoc_lookup_by_virtual_nodeid (virtual_id (ta_at t a)) t = Some a)"
proof -
  have n: "\<not> is_assoc_create_in_progress env s" using assms(2,3) by (auto simp: temp_assoc_create_def)
  have i: "ta_inv s" by (rule ta_reachable_inv [OF assms(1)])
  show ?thesis
  proof (cases "from_unsolicited env p")
    case True
    have "a = unsol_temp_assoc \<and> ta_inv t \<and> for_unsolicited env p dtls (ta_at t unsol_temp_assoc)"
      by (rule unsolicited_create [OF i n True, of dtls]) (use assms(2) in simp)
    moreover from this have "temp_assoc_lookup_by_virtual_nodeid v t \<noteq> Some a" for v using lookup_in_table [of t v a] unsol_not_used [of t] assms(3) by blast
    ultimately show ?thesis using True lookup_here by auto
  next
    case False
    have "ta_rel s (ta_blocks s)" using i by (simp add: ta_inv_def)
    then obtain b u ys where u: "temp_assoc_create env p dtls s = Some (b, u)" "created env p dtls s (ta_blocks s) b u ys" by (rule create_rel [OF _ n False])
    have r: "ta_rel t ys" "a \<in> set ys" "client_of (ta_at t a) = packet_client p dtls" using u assms(2,3) by (auto simp: created_def)
    have j: "ta_inv t" "ta_blocks t = ys" using ta_invI [OF r(1)] ta_rel_blocks [OF r(1)] by simp_all
    show ?thesis using False r(2,3) lookup_here [OF j(1)] j(2) by auto
  qed
qed

lemma temp_assoc_answer_returns_witness:
  "\<exists>a t. temp_assoc_create sample_ta_env sample_zip_packet 1 sample_bridge = Some (a, t) \<and> a \<noteq> 0 \<and> resource_ip (ta_at t a) = replicate 16 5
     \<and> temp_assoc_lookup_by_virtual_nodeid (virtual_id (ta_at t a)) t = Some a"
proof -
  have "ta_rel sample_bridge []" using ta_reachable_inv [OF sample_reachable] by (simp add: ta_inv_def sample_blocks)
  then obtain a t ys where t: "temp_assoc_create sample_ta_env sample_zip_packet 1 sample_bridge = Some (a, t)" "created sample_ta_env sample_zip_packet 1 sample_bridge [] a t ys"
    by (rule create_rel [OF _ sample_client])
  then have "a \<noteq> 0" by (auto simp: created_def spec_create_def spec_room_def sample_zip_packet_def is_lr_node_def node_limits virtual_nodes_of_def
      lr_temp_assoc_virtual_nodeids_def sessions_def split: if_splits)
  then show ?thesis using temp_assoc_answer_returns [OF sample_reachable t(1)] sample_client(2) t(1) by (auto simp: client_of_def packet_client_def sample_zip_packet_def)
qed

text \<open>Any number of calls for associations, one after the other.\<close>

primrec create_all :: "ta_env \<Rightarrow> (zip_packet \<times> u8) list \<Rightarrow> ta_state \<Rightarrow> ta_state option" where
  "create_all env [] s = Some s"
| "create_all env (x # xs) s = Option.bind (temp_assoc_create env (fst x) (snd x) s) (\<lambda>(_, t). create_all env xs t)"

lemma lock_kept:
  "ta_inv s \<Longrightarrow> locked_a s \<in> set (ta_blocks s) \<Longrightarrow> \<exists>t. create_all env ps s = Some t \<and> ta_inv t \<and> locked_a s \<in> set (ta_blocks t) \<and> ta_at t (locked_a s) = ta_at s (locked_a s)"
proof (induction ps arbitrary: s)
  case (Cons x ps)
  obtain a t where t: "temp_assoc_create env (fst x) (snd x) s = Some (a, t)" "ta_inv t"
    "locked_a t = locked_a s \<and> locked_a s \<in> set (ta_blocks t) \<and> ta_at t (locked_a s) = ta_at s (locked_a s)"
    using ta_create_inv [OF Cons.prems(1), of env "fst x" "snd x"] Cons.prems(2) by blast
  then show ?case using Cons.IH [of t] by auto
qed simp

text \<open>
  C18.  A firmware update is not disturbed: however many clients ask for associations after an association has been locked, it keeps its
  client and its virtual node, and is found by that node.
\<close>

theorem locked_association_stays:
  assumes "ta_reachable env s" and "a \<in> set (ta_blocks s)"
  shows "\<exists>t. create_all env ps (temp_assoc_register_fw_lock a s) = Some t \<and> ta_at t a = ta_at s a \<and> temp_assoc_lookup_by_virtual_nodeid (virtual_id (ta_at s a)) t = Some a"
proof -
  let ?s = "temp_assoc_register_fw_lock a s"
  have i: "ta_inv s" by (rule ta_reachable_inv [OF assms(1)])
  have l: "ta_inv ?s" "ta_blocks ?s = ta_blocks s"
    by (rule ta_inv_other [OF i]; use i in \<open>auto simp: temp_assoc_register_fw_lock_def ta_inv_def ta_rel_def nodes_ok_def nodes_in_use_def virtual_nodes_of_def\<close>)+
  obtain t where "create_all env ps ?s = Some t" "ta_inv t" "a \<in> set (ta_blocks t)" "ta_at t a = ta_at s a"
    using lock_kept [OF l(1), of env ps] l(2) assms(2) by (auto simp: temp_assoc_register_fw_lock_def)
  then show ?thesis using lookup_here [of t a] by auto
qed


lemma sample_session:
  obtains s a where "ta_reachable sample_ta_env s" "a \<in> set (ta_blocks s)" "client_of (ta_at s a) = packet_client sample_zip_packet 1"
proof -
  have "ta_rel sample_bridge []" using ta_reachable_inv [OF sample_reachable] by (simp add: ta_inv_def sample_blocks)
  then obtain a t ys where t: "temp_assoc_create sample_ta_env sample_zip_packet 1 sample_bridge = Some (a, t)" "created sample_ta_env sample_zip_packet 1 sample_bridge [] a t ys"
    by (rule create_rel [OF _ sample_client])
  then have "a \<noteq> 0" by (auto simp: created_def spec_create_def spec_room_def sample_zip_packet_def is_lr_node_def node_limits virtual_nodes_of_def
      lr_temp_assoc_virtual_nodeids_def sessions_def split: if_splits)
  moreover have "ta_blocks t = ys" using t(2) by (intro ta_rel_blocks) (simp add: created_def)
  moreover have "ta_reachable sample_ta_env t" by (rule ta_reachable.step [OF sample_reachable, of "Do_create sample_zip_packet 1"]) (simp_all add: t(1))
  ultimately show thesis using that [of t a] t(2) by (simp add: created_def)
qed

lemma locked_association_stays_witness:
  "\<exists>s a t. create_all sample_ta_env (replicate 100 (sample_zip_packet \<lparr> srcport := 8 \<rparr>, 0)) (temp_assoc_register_fw_lock a s) = Some t \<and> resource_ip (ta_at t a) = replicate 16 5
     \<and> temp_assoc_lookup_by_virtual_nodeid (virtual_id (ta_at s a)) t = Some a"
proof -
  obtain s a where s: "ta_reachable sample_ta_env s" "a \<in> set (ta_blocks s)" "client_of (ta_at s a) = packet_client sample_zip_packet 1" by (rule sample_session)
  obtain t where t: "create_all sample_ta_env (replicate 100 (sample_zip_packet \<lparr> srcport := 8 \<rparr>, 0)) (temp_assoc_register_fw_lock a s) = Some t"
      "ta_at t a = ta_at s a" "temp_assoc_lookup_by_virtual_nodeid (virtual_id (ta_at s a)) t = Some a"
    using locked_association_stays [OF s(1,2), of "replicate 100 (sample_zip_packet \<lparr> srcport := 8 \<rparr>, 0)"] by blast
  have "resource_ip (ta_at t a) = replicate 16 5" using s(3) t(2) by (simp add: client_of_def packet_client_def sample_zip_packet_def)
  then show ?thesis using t(1,3) by blast
qed

section \<open>The start of the bridge\<close>

text \<open>
  After the start one of two timers runs, or the controller has been asked for a virtual node and reports.  \<open>rep\<close> chooses the report from
  all that has happened.
\<close>

definition settle_step :: "ta_env \<Rightarrow> (ta_state \<Rightarrow> u8 \<times> nodeid) \<Rightarrow> ta_state \<Rightarrow> ta_state option" where
  "settle_step env rep s =
     (if virtual_add_delay_timer s then ta_apply env Do_delay s
      else if virtual_add_timer s then ta_apply env Do_timer s
      else ta_apply env (Do_report (fst (rep s)) (snd (rep s))) s)"

fun settle :: "ta_env \<Rightarrow> (ta_state \<Rightarrow> u8 \<times> nodeid) \<Rightarrow> nat \<Rightarrow> ta_state \<Rightarrow> ta_state option" where
  "settle env rep 0 s = Some s"
| "settle env rep (Suc n) s = (if bridge_state s = Booting then Option.bind (settle_step env rep s) (settle env rep n) else Some s)"

text \<open>The controller reports a failure or a node that is not yet a virtual node.\<close>

definition good_reports :: "(ta_state \<Rightarrow> u8 \<times> nodeid) \<Rightarrow> bool" where
  "good_reports rep \<longleftrightarrow> (\<forall>s. fst (rep s) = ASSIGN_COMPLETE \<or> fst (rep s) = ASSIGN_NODEID_DONE \<and> is_classic_node (snd (rep s)) \<and> \<not> is_virtual_node (snd (rep s)) s)"

definition settling :: "ta_state \<Rightarrow> bool" where
  "settling s \<longleftrightarrow> temp_assoc_virtual_nodeid_count s \<le> 4 \<and> temp_assoc_add_virtual_node_retry_count s \<le> 10
     \<and> (bridge_state s = Booting \<longrightarrow> temp_assoc_virtual_nodeid_count s < 4 \<or> virtual_add_timer s \<or> virtual_add_delay_timer s)
     \<and> (bridge_state s = Initialized \<longrightarrow> temp_assoc_virtual_nodeid_count s = 4) \<and> (bridge_state s = Initfail \<longrightarrow> temp_assoc_virtual_nodeid_count s < 4)"

definition to_go :: "ta_state \<Rightarrow> nat" where
  "to_go s = (4 - temp_assoc_virtual_nodeid_count s) * 24 + 2 * (10 - temp_assoc_add_virtual_node_retry_count s) + (if virtual_add_delay_timer s then 2 else 0) + (if virtual_add_timer s then 1 else 2)"

lemma to_go_bound: "to_go s \<le> 120"
proof -
  have "(4 - temp_assoc_virtual_nodeid_count s) * 24 \<le> 96" "2 * (10 - temp_assoc_add_virtual_node_retry_count s) \<le> 20" by arith+
  moreover have "(if virtual_add_delay_timer s then 2 else 0) \<le> (2 :: nat)" "(if virtual_add_timer s then 1 else 2) \<le> (2 :: nat)" by simp_all
  ultimately show ?thesis unfolding to_go_def by linarith
qed

lemma attempt_settles:
  fixes env s
  assumes "temp_assoc_virtual_nodeid_count s \<le> 4" "temp_assoc_add_virtual_node_retry_count s \<le> 10" "bridge_state s = Booting"
  defines "t \<equiv> temp_assoc_add_virtual_nodes env s"
  shows "settling t" "bridge_state t = Booting \<Longrightarrow> to_go t + 2 \<le> to_go s"
  using assms(1-3) by (auto simp: t_def temp_assoc_add_virtual_nodes_def settling_def to_go_def ta_emit_def ta_limits Let_def split: if_splits)

lemma step_settles:
  assumes s: "settling s" "bridge_state s = Booting" and g: "good_reports rep"
  obtains t where "settle_step env rep s = Some t" "settling t" "bridge_state t = Booting \<longrightarrow> to_go t < to_go s"
proof (cases "virtual_add_delay_timer s")
  case True
  let ?s = "s \<lparr> virtual_add_delay_timer := False \<rparr>"
  have "to_go ?s \<le> to_go s" by (simp add: to_go_def)
  moreover have "settling (temp_assoc_add_virtual_nodes env ?s)"
      "bridge_state (temp_assoc_add_virtual_nodes env ?s) = Booting \<Longrightarrow> to_go (temp_assoc_add_virtual_nodes env ?s) + 2 \<le> to_go ?s"
    by (rule attempt_settles; use s in \<open>simp add: settling_def\<close>)+
  moreover have "settle_step env rep s = Some (temp_assoc_add_virtual_nodes env ?s)" using True by (simp add: settle_step_def)
  ultimately show thesis by (intro that [of "temp_assoc_add_virtual_nodes env ?s"]) auto
next
  case nd: False
  show thesis
  proof (cases "virtual_add_timer s")
    case True
    let ?s = "s \<lparr> virtual_add_timer := False \<rparr>"
    have "to_go ?s \<le> to_go s + 1" using True by (simp add: to_go_def)
    moreover have "settling (temp_assoc_add_virtual_nodes env ?s)"
        "bridge_state (temp_assoc_add_virtual_nodes env ?s) = Booting \<Longrightarrow> to_go (temp_assoc_add_virtual_nodes env ?s) + 2 \<le> to_go ?s"
      by (rule attempt_settles; use s in \<open>simp add: settling_def\<close>)+
    moreover have "settle_step env rep s = Some (temp_assoc_add_virtual_nodes env ?s)" using True nd by (simp add: settle_step_def)
    ultimately show thesis by (intro that [of "temp_assoc_add_virtual_nodes env ?s"]) auto
  next
    case False
    have c: "temp_assoc_virtual_nodeid_count s < 4" using s nd False by (simp add: settling_def)
    show thesis
    proof (cases "fst (rep s) = ASSIGN_COMPLETE")
      case True
      then show thesis using that [of "s \<lparr> virtual_add_timer := True \<rparr>"] s nd False c
        by (simp add: settle_step_def temp_assoc_virtual_add_callback_def ASSIGN_COMPLETE_def ASSIGN_NODEID_DONE_def settling_def to_go_def)
    next
      case no: False
      then have d: "fst (rep s) = ASSIGN_NODEID_DONE" "is_classic_node (snd (rep s))" "\<not> is_virtual_node (snd (rep s)) s" using g by (auto simp: good_reports_def)
      define w where "w = (temp_assoc_persist_virtual_nodeids (s \<lparr> temp_assoc_virtual_nodeids := (temp_assoc_virtual_nodeids s)[temp_assoc_virtual_nodeid_count s := snd (rep s)],
          temp_assoc_virtual_nodeid_count := temp_assoc_virtual_nodeid_count s + 1, virtual_nodes_mask := BIT8_SET (unat (snd (rep s)) - 1) (virtual_nodes_mask s) \<rparr>))
          \<lparr> temp_assoc_add_virtual_node_retry_count := 0 \<rparr>"
      let ?t = "if suc_of env (ta_log w) = gw_node env then temp_assoc_add_virtual_nodes env w else w \<lparr> virtual_add_timer := True \<rparr>"
      have e: "settle_step env rep s = Some ?t" using d c nd False by (simp add: w_def settle_step_def temp_assoc_virtual_add_callback_def ta_limits Let_def)
      have w: "temp_assoc_virtual_nodeid_count w = Suc (temp_assoc_virtual_nodeid_count s)" "temp_assoc_add_virtual_node_retry_count w = 0" "bridge_state w = Booting"
          "virtual_add_timer w = False" "virtual_add_delay_timer w = False"
        using s nd False by (simp_all add: w_def temp_assoc_persist_virtual_nodeids_def ta_emit_def)
      have lt: "to_go w < to_go s" "to_go (w \<lparr> virtual_add_timer := True \<rparr>) < to_go s" using w c nd False s(1) by (simp_all add: to_go_def settling_def)
      have a: "settling (temp_assoc_add_virtual_nodes env w)" "bridge_state (temp_assoc_add_virtual_nodes env w) = Booting \<Longrightarrow> to_go (temp_assoc_add_virtual_nodes env w) + 2 \<le> to_go w"
        by (rule attempt_settles; use w c in simp)+
      have b: "settling (w \<lparr> virtual_add_timer := True \<rparr>)" using w c by (simp add: settling_def)
      have "settling ?t" "bridge_state ?t = Booting \<longrightarrow> to_go ?t < to_go s" using a b lt by auto
      then show thesis using that [of ?t] e by blast
    qed
  qed
qed

lemma settles: "settling s \<Longrightarrow> good_reports rep \<Longrightarrow> (bridge_state s = Booting \<longrightarrow> to_go s \<le> n) \<Longrightarrow> \<exists>t. settle env rep n s = Some t \<and> settling t \<and> bridge_state t \<noteq> Booting"
proof (induction n arbitrary: s)
  case 0
  then show ?case by (auto simp: to_go_def split: if_splits)
next
  case (Suc n)
  show ?case
  proof (cases "bridge_state s = Booting")
    case True
    obtain t where t: "settle_step env rep s = Some t" "settling t" "bridge_state t = Booting \<longrightarrow> to_go t < to_go s" by (rule step_settles [OF Suc.prems(1) True Suc.prems(2), where env = env])
    have "bridge_state t = Booting \<longrightarrow> to_go t \<le> n" using t(3) Suc.prems(3) True by linarith
    then show ?thesis using Suc.IH [OF t(2) Suc.prems(2)] t(1) True by simp
  qed (use Suc.prems in simp)
qed

text \<open>
  C19.  The start of the bridge ends when the controller reports, each time, a failure or a classic node that is not yet a virtual node: whatever requests it accepts, after at most
  120 reports and expired timers the bridge is initialised, with all four virtual nodes, or has given up with fewer.  Without that condition it need not end (reports of nodes that already are virtual, and other statuses, see below).
\<close>

theorem bridge_start_ends:
  assumes "good_reports rep"
  shows "\<exists>t. settle env rep 120 (bridge_init env s) = Some t
    \<and> (bridge_state t = Initialized \<and> temp_assoc_virtual_nodeid_count t = MAX_CLASSIC_TEMP_ASSOCIATIONS \<or> bridge_state t = Initfail)"
proof -
  let ?s = "bridge_init env s"
  note f = bridge_init_facts [of env s]
  have "bridge_state ?s = Initfail \<or> bridge_state ?s = Booting \<and> virtual_add_delay_timer ?s"
    by (auto simp: bridge_init_def temp_assoc_delayed_add_virtual_nodes_def ta_emit_def temp_assoc_init_def temp_assoc_unpersist_virtual_nodeids_def
        copy_virtual_nodes_mask_from_controller_def Let_def)
  then show ?thesis
  proof
    assume b: "bridge_state ?s = Booting \<and> virtual_add_delay_timer ?s"
    then have "settling ?s" "to_go ?s \<le> 120" using to_go_bound by (simp_all add: settling_def f)
    then obtain t where "settle env rep 120 ?s = Some t" "settling t" "bridge_state t \<noteq> Booting" using settles [of ?s rep 120 env] assms by blast
    then show ?thesis by (cases "bridge_state t") (auto simp: settling_def ta_limits)
  next
    assume "bridge_state ?s = Initfail"
    moreover from this have "settle env rep 120 ?s = Some ?s" by (simp add: numeral_eq_Suc)
    ultimately show ?thesis by blast
  qed
qed


definition sample_reports :: "ta_state \<Rightarrow> u8 \<times> nodeid" where
  "sample_reports s = (case find (\<lambda>n. is_classic_node n \<and> \<not> is_virtual_node n s) [2, 3, 4] of None \<Rightarrow> (ASSIGN_COMPLETE, 0) | Some n \<Rightarrow> (ASSIGN_NODEID_DONE, n))"

lemma bridge_start_ends_witness: "\<exists>t. settle sample_ta_env sample_reports 120 sample_bridge = Some t \<and> bridge_state t \<noteq> Booting"
proof -
  have "good_reports sample_reports" by (auto simp: good_reports_def sample_reports_def dest: find_SomeD split: option.split)
  then show ?thesis using bridge_start_ends [of sample_reports sample_ta_env sample_ta] by auto
qed

section \<open>A start that never ends\<close>

text \<open>
  The controller reports, each time, a node that already is a virtual node, or a status that is none of the two the code knows (whose assertion prints a message and goes on).
\<close>

definition idle_reports :: "(ta_state \<Rightarrow> u8 \<times> nodeid) \<Rightarrow> bool" where
  "idle_reports rep \<longleftrightarrow> (\<forall>s. fst (rep s) = ASSIGN_NODEID_DONE \<and> is_virtual_node (snd (rep s)) s \<or> fst (rep s) \<notin> {ASSIGN_NODEID_DONE, ASSIGN_COMPLETE})"

text \<open>Every accepted request is followed by a report that sets the number of attempts back, so the limit is never reached.\<close>

definition hanging :: "ta_state \<Rightarrow> bool" where
  "hanging s \<longleftrightarrow> bridge_state s = Booting \<and> temp_assoc_virtual_nodeid_count s < MAX_CLASSIC_TEMP_ASSOCIATIONS
     \<and> temp_assoc_add_virtual_node_retry_count s + (if virtual_add_delay_timer s then 1 else 0) + (if virtual_add_timer s then 1 else 0) \<le> 2"

lemma attempt_hangs:
  assumes "bridge_state s = Booting" "temp_assoc_virtual_nodeid_count s < MAX_CLASSIC_TEMP_ASSOCIATIONS" "\<forall>l. learn_accepted env l"
    "temp_assoc_add_virtual_node_retry_count s + (if virtual_add_delay_timer s then 1 else 0) + (if virtual_add_timer s then 1 else 0) < 2"
  shows "hanging (temp_assoc_add_virtual_nodes env s)"
  using assms by (auto simp: temp_assoc_add_virtual_nodes_def hanging_def ta_emit_def ta_limits Let_def)

lemma step_hangs:
  assumes h: "hanging s" and g: "idle_reports rep" and e: "\<forall>l. learn_accepted env l"
  obtains t where "settle_step env rep s = Some t" "hanging t" "temp_assoc_virtual_nodeid_count t = temp_assoc_virtual_nodeid_count s"
proof -
  have c: "temp_assoc_virtual_nodeid_count (temp_assoc_add_virtual_nodes env u) = temp_assoc_virtual_nodeid_count u" for u
    by (simp add: temp_assoc_add_virtual_nodes_def ta_emit_def Let_def)
  consider (delay) "virtual_add_delay_timer s" | (timer) "\<not> virtual_add_delay_timer s" "virtual_add_timer s"
    | (known) "\<not> virtual_add_delay_timer s" "\<not> virtual_add_timer s" "fst (rep s) = ASSIGN_NODEID_DONE" "is_virtual_node (snd (rep s)) s"
    | (other) "\<not> virtual_add_delay_timer s" "\<not> virtual_add_timer s" "fst (rep s) \<notin> {ASSIGN_NODEID_DONE, ASSIGN_COMPLETE}"
    using g by (auto simp: idle_reports_def)
  then show thesis
  proof cases
    case delay
    let ?s = "s \<lparr> virtual_add_delay_timer := False \<rparr>"
    have "hanging (temp_assoc_add_virtual_nodes env ?s)" by (rule attempt_hangs) (use h e delay in \<open>auto simp: hanging_def\<close>)
    then show thesis using that [of "temp_assoc_add_virtual_nodes env ?s"] delay by (simp add: settle_step_def c)
  next
    case timer
    let ?s = "s \<lparr> virtual_add_timer := False \<rparr>"
    have "hanging (temp_assoc_add_virtual_nodes env ?s)" by (rule attempt_hangs) (use h e timer in \<open>auto simp: hanging_def\<close>)
    then show thesis using that [of "temp_assoc_add_virtual_nodes env ?s"] timer by (simp add: settle_step_def c)
  next
    case known
    let ?s = "s \<lparr> temp_assoc_add_virtual_node_retry_count := 0 \<rparr>"
    let ?t = "if suc_of env (ta_log ?s) = gw_node env then temp_assoc_add_virtual_nodes env ?s else ?s \<lparr> virtual_add_timer := True \<rparr>"
    have "hanging (temp_assoc_add_virtual_nodes env ?s)" by (rule attempt_hangs) (use h e known in \<open>auto simp: hanging_def\<close>)
    moreover have "hanging (?s \<lparr> virtual_add_timer := True \<rparr>)" using h known by (simp add: hanging_def)
    moreover have "settle_step env rep s = Some ?t" using known by (simp add: settle_step_def temp_assoc_virtual_add_callback_def Let_def)
    ultimately show thesis using that [of ?t] by (simp add: c)
  next
    case other
    then show thesis using that [of s] h by (simp add: settle_step_def temp_assoc_virtual_add_callback_def)
  qed
qed

lemma hangs:
  "hanging s \<Longrightarrow> idle_reports rep \<Longrightarrow> \<forall>l. learn_accepted env l
    \<Longrightarrow> \<exists>t. settle env rep k s = Some t \<and> hanging t \<and> temp_assoc_virtual_nodeid_count t = temp_assoc_virtual_nodeid_count s"
proof (induction k arbitrary: s)
  case 0
  then show ?case by simp
next
  case (Suc k)
  obtain t where t: "settle_step env rep s = Some t" "hanging t" "temp_assoc_virtual_nodeid_count t = temp_assoc_virtual_nodeid_count s"
    by (rule step_hangs [OF Suc.prems])
  have "bridge_state s = Booting" using Suc.prems(1) by (simp add: hanging_def)
  then show ?case using Suc.IH [OF t(2) Suc.prems(2,3)] t(1,3) by simp
qed

text \<open>
  C25.  The start of the bridge can go on for ever.  When fewer than four virtual nodes are stored, the capabilities of the controller let the bridge begin, and the controller accepts every request and reports each time a node that
  already is a virtual node, or an unknown status, then after any number of reports and expired timers the bridge still boots and has no further virtual node: the report
  sets the number of attempts back, and the limit of ten is never reached.
\<close>

theorem bridge_start_hangs:
  assumes "idle_reports rep" and "\<forall>l. learn_accepted env l" and "\<forall>l. length (stored_virtual_nodes env l) < MAX_CLASSIC_TEMP_ASSOCIATIONS"
    and "bridge_state (bridge_init env s) = Booting"
  shows "\<exists>t. settle env rep k (bridge_init env s) = Some t \<and> bridge_state t = Booting
    \<and> temp_assoc_virtual_nodeid_count t = temp_assoc_virtual_nodeid_count (bridge_init env s)"
proof -
  note f = bridge_init_facts [of env s]
  have "hanging (bridge_init env s)" using assms(3,4) by (simp add: hanging_def f ta_limits)
  then show ?thesis using hangs [OF _ assms(1,2)] by (auto simp: hanging_def)
qed

definition known_reports :: "ta_state \<Rightarrow> u8 \<times> nodeid" where
  "known_reports s = (if is_virtual_node 10 s then (ASSIGN_NODEID_DONE, 10) else (2, 0))"

definition known_env :: ta_env where
  "known_env = sample_ta_env \<lparr> controller_virtual_nodes := (\<lambda>_. 0 # 2 # replicate 27 0) \<rparr>"

lemma bridge_start_hangs_witness:
  "fst (known_reports (bridge_init known_env sample_ta)) = ASSIGN_NODEID_DONE
   \<and> (\<exists>t. settle known_env known_reports 1000 (bridge_init known_env sample_ta) = Some t \<and> bridge_state t = Booting \<and> temp_assoc_virtual_nodeid_count t = 2)"
proof -
  have "idle_reports known_reports" by (simp add: idle_reports_def known_reports_def ASSIGN_NODEID_DONE_def ASSIGN_COMPLETE_def)
  moreover have "\<forall>l. learn_accepted known_env l" "\<forall>l. length (stored_virtual_nodes known_env l) < MAX_CLASSIC_TEMP_ASSOCIATIONS"
    by (simp_all add: known_env_def sample_ta_env_def ta_limits)
  moreover have "bridge_state (bridge_init known_env sample_ta) = Booting"
    by (simp add: bridge_init_def known_env_def sample_ta_env_def temp_assoc_delayed_add_virtual_nodes_def ta_emit_def temp_assoc_unpersist_virtual_nodeids_def
        copy_virtual_nodes_mask_from_controller_def Let_def)
  moreover have "temp_assoc_virtual_nodeid_count (bridge_init known_env sample_ta) = 2" by (simp add: bridge_init_facts known_env_def sample_ta_env_def)
  moreover have "is_virtual_node 10 (bridge_init known_env sample_ta)"
    by (simp add: is_virtual_node_def bridge_init_facts known_env_def BIT8_TST_def is_classic_node_def node_limits)
  ultimately show ?thesis using bridge_start_hangs [of known_reports known_env sample_ta 1000] by (auto simp: known_reports_def)
qed

section \<open>Two requests at once\<close>

text \<open>
  When the tenth attempt has been accepted and its report is outstanding, the bridge can be resumed and asks for another node.  If only one
  more node is needed, the second of the two reports writes past the array of virtual nodes.
\<close>

theorem resume_overruns_array:
  assumes s: "temp_assoc_virtual_nodeid_count s = 3" "temp_assoc_add_virtual_node_retry_count s = TEMP_ASSOC_VIRTUAL_ADD_RETRY_MAX" "length (virtual_nodes_mask s) = 29"
    and e: "\<forall>l. learn_accepted env l" "\<forall>l. suc_of env l = gw_node env"
    and n: "is_classic_node m" "is_classic_node n" "m \<noteq> n" "\<not> is_virtual_node m s" "\<not> is_virtual_node n s"
  shows "\<exists>t. temp_assoc_virtual_add_callback env ASSIGN_NODEID_DONE m (resume_bridge_init env s) = Some t \<and> bridge_state t = Initialized
    \<and> temp_assoc_virtual_add_callback env ASSIGN_NODEID_DONE n t = None"
proof -
  let ?r = "resume_bridge_init env s"
  have r: "temp_assoc_virtual_nodeid_count ?r = 3" "virtual_nodes_mask ?r = virtual_nodes_mask s" using s(1,2) e(1)
    by (simp_all add: resume_bridge_init_def temp_assoc_resume_init_def temp_assoc_add_virtual_nodes_def ta_emit_def ta_limits Let_def)
  let ?t = "the (temp_assoc_virtual_add_callback env ASSIGN_NODEID_DONE m ?r)"
  have v: "is_virtual_node k ?r = is_virtual_node k s" for k by (simp add: is_virtual_node_def r(2))
  have t: "temp_assoc_virtual_add_callback env ASSIGN_NODEID_DONE m ?r = Some ?t" "temp_assoc_virtual_nodeid_count ?t = 4" "bridge_state ?t = Initialized"
      "virtual_nodes_mask ?t = BIT8_SET (unat m - 1) (virtual_nodes_mask s)"
    using n r e v by (simp_all add: temp_assoc_virtual_add_callback_def temp_assoc_add_virtual_nodes_def temp_assoc_persist_virtual_nodeids_def ta_emit_def ta_limits Let_def)
  have b: "unat m - 1 < 232" "unat n - 1 < 232" "unat m - 1 \<noteq> unat n - 1"
    using n(1-3) by (auto simp: is_classic_node_def node_limits word_unat_eq_iff)
  then have "BIT8_TST (unat n - 1) (virtual_nodes_mask ?t) = BIT8_TST (unat n - 1) (virtual_nodes_mask s)"
    unfolding t(4) BIT8_TST_bit using s(3) by (subst bit_BIT8_SET) auto
  then have "\<not> is_virtual_node n ?t" using n(5) by (simp add: is_virtual_node_def)
  then have "temp_assoc_virtual_add_callback env ASSIGN_NODEID_DONE n ?t = None" using t(2) by (simp add: temp_assoc_virtual_add_callback_def ta_limits)
  then show ?thesis using t(1,3) by blast
qed

end
