(* ===== verification/Spec2Isabelle.thy ===== *)
theory Spec2Isabelle
  imports Nodemask Crc Mcast_Group Zgw_Str Provisioning_Cc Conhandle Ext_Header Node_Address Mailbox_Correct Nm_Queue Send_Data_Run Send_Request Secure_Learn_Run Temp_Assoc_Run
begin

text \<open>
  The Z/IP gateway connects an IP network with a Z-Wave radio network.  A frame from an IP client arrives
  as a Z/IP packet; its extended header is parsed, its destination address is mapped to a node, and the frame either
  goes to a command class handler of the gateway itself or into the queues for the Z-Wave network.  From the queues
  one frame at a time is given to the sender; a frame that a sleeping node did not take moves to the mailbox
  and is sent when the node wakes up.  The serial frame layer carries the traffic to the Z-Wave chip.  Around this path
  stand the provisioning list, the multicast groups and the network management queue.

  \<^bold>\<open>Theories and sources.\<close>  Paths are relative to \<^verbatim>\<open>src/\<close> of the gateway unless they start with
  \<^verbatim>\<open>contiki\<close>.  Names of definitions are those of the C functions and types.

  \<^item> \<open>Zgw_Prelude\<close>: integer types, bit lemmas, lists updated by index.  \<open>Slot_Table\<close>: the locale of tables of slots searched by
    key and what such a table stands for.  \<open>Pool_List\<close>: lists whose items are blocks of a pool.
  \<^item> \<open>Contiki_Mem\<close> (\<^verbatim>\<open>contiki/core/lib/list.c\<close>, \<^verbatim>\<open>memb.c\<close>): linked lists as a function from addresses to
    addresses with 0 the null pointer, pools as reference counts.  Lists in memory implement lists, and double
    insertion, removal and loops over them are shown to end.
  \<^item> \<open>Packet_Queue\<close> (\<^verbatim>\<open>contiki/core/net/uip-packetqueue.c\<close>): the queues over the shared pool implement first-in
    first-out lists of packets, every operation keeps the pool accounted for, and lifetimes run out.
  \<^item> \<open>Node_Queue\<close> (\<^verbatim>\<open>node_queue.c\<close>): both queues, the timers, the retry rules, and a sender that may report its result
    during or after the call.  Sending is shown against a specification on two abstract queues.
  \<^item> \<open>Mailbox\<close> and \<open>Mailbox_Correct\<close> (\<^verbatim>\<open>Mailbox.c\<close>): the message list, the state machine, which calls itself through the
    senders, proxy sessions and the command class; that it never fails as long as it keeps no messages for another gateway, that a wake-up
    delivers all messages of the node in order, what is dropped and when.
  \<^item> \<open>Nm_Queue\<close> (\<^verbatim>\<open>CC_NetworkManagement_queue.c\<close>): commands to sleeping nodes, run one at a time after a wake-up.
  \<^item> \<open>Ts_Param\<close>, \<open>Send_Data\<close>, \<open>Send_Data_Correct\<close> and \<open>Send_Data_Run\<close> (\<^verbatim>\<open>transport/ZW_SendDataAppl.c\<close>, \<^verbatim>\<open>zw_frame_buffer.c\<close>): the choice of
    the security scheme, the encapsulations, the two queues of frames with their sessions, buffers, locks and timers.  No call follows a dangling
    pointer in any order of calls and reports, a plain frame is sent and reported once, and where the sender goes wrong.
  \<^item> \<open>Send_Request\<close> (\<^verbatim>\<open>transport/ZW_SendRequest.c\<close>): requests that wait for their answers; none is stuck, an answer reaches its request.
  \<^item> \<open>S0_Layer\<close>, \<open>S0_Correct\<close> and \<open>S0_Run\<close> (\<^verbatim>\<open>transport/Security_Scheme0.c\<close>): nonces, encryption in one or two frames, decryption.  For
    every block cipher a message arrives as it was sent, each nonce serves once, and what arrives fits its buffer.
  \<^item> \<open>Key_Store\<close> (\<^verbatim>\<open>transport/s2_keystore.c\<close>, parts of \<^verbatim>\<open>S2_wrap.c\<close>): the network keys implement a map from key classes to keys.
  \<^item> \<open>Secure_Learn\<close>, \<open>Secure_Learn_Correct\<close> and \<open>Secure_Learn_Run\<close> (\<^verbatim>\<open>src-gen/Secure_learn.c\<close> beside \<^verbatim>\<open>src/\<close>, \<^verbatim>\<open>transport/security_layer.c\<close>): the inclusion
    with security scheme 0.  In any order of frames, reports, timers, polls and aborts the machine comes to rest in a waiting state, a state that waits for the other side has a timer and,
    without aborts, the right key is in use; an inclusion succeeds when the node answers and ends when it does not; and where keys or events get lost.
  \<^item> \<open>Temp_Assoc\<close>, \<open>Temp_Assoc_Correct\<close> and \<open>Temp_Assoc_Run\<close> (\<^verbatim>\<open>Bridge_temp_assoc.c\<close>, \<^verbatim>\<open>Bridge.c\<close>): virtual nodes given to IP clients, as a bounded queue of
    sessions; answers find the client that holds the virtual node, a locked session stays, and when the start of the bridge ends and when it does not.
  \<^item> \<open>Command_Handler\<close> (\<^verbatim>\<open>command_handler.c\<close>): registration, security check and dispatch; apart from the two exceptions
    in the code no handler runs below its security level, or when its class is disabled.
  \<^item> \<open>Ext_Header\<close> (\<^verbatim>\<open>multicast_tlv.c\<close>): parser and writer of the extended header on the packet bytes.
  \<^item> \<open>Node_Address\<close> (\<^verbatim>\<open>ipv46_nat.c\<close>, \<^verbatim>\<open>zip_router_ipv6_utils.c\<close>): addresses of nodes and back.
  \<^item> \<open>Provisioning\<close> and \<open>Provisioning_Cc\<close> (\<^verbatim>\<open>provisioning_list.c\<close>, \<^verbatim>\<open>CC_provisioning_list.c\<close>): the device table with its
    TLV lists implements a finite map, survives a restart through its store file, and the command class reads and changes it.
  \<^item> \<open>Conhandle\<close> (\<^verbatim>\<open>serialapi/conhandle.c\<close>): the byte-wise receiver and the transmitter with retries; what is sent is
    received, single errors are detected.
  \<^item> \<open>Nodemask\<close>, \<open>Crc\<close>, \<open>Zgw_Str\<close>, \<open>Mcast_Group\<close> (\<^verbatim>\<open>utls/\<close>, \<^verbatim>\<open>crc32alg.c\<close>, \<^verbatim>\<open>multicast_group_manager.c\<close>): sets of nodes,
    checksums against polynomial and bit-by-bit references, validation of names, the table of multicast groups.

  This theory holds what spans components: the way of an undelivered frame through queue and mailbox.

  \<^bold>\<open>State and effects.\<close>  The static variables of a module are a record that each function takes and returns.
  A call into code of another module that the model does not contain is either logged in the record as an effect or,
  when its result matters, answered by a record of functions of that log (the environment, \<open>mb_env\<close>
  and similar).  A theorem that holds for every environment holds for every behaviour of that code.  An access
  through a null pointer, a write outside a buffer and a loop that does not end are the value \<open>None\<close>; that a call returns is
  always proved and not assumed.  A failed assertion is not an error of the model: the gateway is built with
  \<^verbatim>\<open>contiki/core/lib/assert.c\<close>, which prints a message and returns.  Integers have the width of their C type; lengths and indices are natural numbers where the
  source compares them before they could wrap.

  \<^bold>\<open>Bounds and recursion.\<close>  There is no fuel: loops over lists in memory are partial functions or structural
  recursion over the list, and the theorems show that they return.  Sequences of events (reports of the sender, completion
  reports, wake-ups) are lists or numbers of events chosen by the theorem, long enough to drain the queue they are about.

  \<^bold>\<open>Not modelled.\<close>  Sockets, TLS, DHCP and the IP stack are input and output around the core.  The ciphers and SQLite are
  third-party code.  Printing and logging are left out everywhere.  Still to come: the
  sender for queue and mailbox in \<^verbatim>\<open>ClassicZIPNode.c\<close>, which is a parameter now; the network management state machine
  (\<^verbatim>\<open>CC_NetworkManagement.c\<close>); the node database (\<^verbatim>\<open>ResourceDirectory.c\<close>), of which the modules above read
  modes and states through parameters; permanent associations (\<^verbatim>\<open>Bridge_ip_assoc.c\<close>); the remaining command classes; the
  rest of the wrapper of the S2 library and that library itself.
\<close>

section \<open>From the node queue to the mailbox\<close>

lemma destipaddr_take: "40 \<le> k \<Longrightarrow> destipaddr (take k b) = destipaddr b"
  by (simp add: destipaddr_def drop_take min_def)

text \<open>
  C5.  The path of a frame to a sleeping node, across the node queue and the mailbox.  A frame
  that \<^verbatim>\<open>queue_send_done\<close> moves to the mailbox is posted there as it was queued.  When the mailbox has room, the
  frame is kept, and when its node wakes up
  it is handed to the sender again, whole, after the older messages to the node; when the mailbox is full the frame is
  refused, its sender is told, and no message of the mailbox changes (the queue drops the frame all the same).  The mailbox is in the
  service mode, idle and without a session of a proxy; the frame and the older messages to the node have at least 52 bytes and the frame is not
  an ICMP frame; the node is in the resource directory, does not count as failing, is not being probed and wakes up on
  schedule; the sender takes every frame and reports it as sent.
\<close>

theorem undelivered_frame_reaches_node:
  assumes "queue_move_to_mailbox (queue_env env) mode (buf, len) s = (True, s')" and "f = sent_frame (buf, len)"
    and "length (uip_buf s) = PACKET_BUF_SIZE" and "52 \<le> length f" and "length f \<le> PACKET_BUF_SIZE" and "f ! 6 \<noteq> 58"
    and "n = mb_get_dnode env f" and "n \<noteq> 0"
    and "bufs_ok env" and "patient env" and "service_ok mb xs" and "state (mb_state mb) = MB_STATE_IDLE"
    and "cfg_mb_mode mb = ENABLE_MAILBOX_SERVICE"
    and "nm_idle env" and "\<not> rd_probe_in_progress env" and "rd_get_node_dbe env n = Some d"
    and "\<not> node_failing env n" and "\<not> wakeup_off_schedule env d"
    and "\<forall>p. for_node env n mb p \<longrightarrow> 52 \<le> unat (data_len (mb_entry mb p))"
  shows "nq_log s' = nq_log s @ [Mb_post_uipbuf f]
    \<and> (if MAX_MAILBOX_ENTRIES \<le> length xs
       then (let m = mb \<lparr> mb_uip_buf := uip_buf s', mb_uip_len := of_nat (length f) \<rparr>
             in mb_post_uipbuf env None 0 m = Some (False, mb_send_queue_full env m))
       else \<exists>t u. mb_post_uipbuf env None 0 (mb \<lparr> mb_uip_buf := uip_buf s', mb_uip_len := of_nat (length f) \<rparr>) = Some (True, t)
        \<and> (let older = map (msg_of mb) (filter (for_node env n mb) xs); ms = older @ [f]; silent = \<not> list_ex more_info ms
           in Option.bind (mb_wakeup_event env n False t) (reports_sent env (length ms)) = Some u
            \<and> mb_log u = mb_log mb @ map (Classic_input n) ms @ [final_effect n silent]))"
proof -
  define b where "b = f @ drop (length f) (uip_buf s)"
  define k :: u16 where "k = of_nat (length f)"
  define m0 where "m0 = mb \<lparr> mb_uip_buf := b, mb_uip_len := k \<rparr>"
  have s': "s' = nq_emit (Mb_post_uipbuf f) (s \<lparr> uip_buf := b, uip_len := 0 \<rparr>)"
    using assms(1,2) by (auto simp: queue_move_to_mailbox_def b_def Let_def split: if_splits)
  have b: "length b = PACKET_BUF_SIZE" "take (length f) b = f" "b ! 6 = f ! 6"
    using assms(3-5) by (simp_all add: b_def nth_append)
  have "destipaddr b = destipaddr f"
    using assms(4) by (simp add: destipaddr_def b_def)
  then have dn: "mb_get_dnode env b = n" using assms(7) by (simp add: mb_get_dnode_def)
  have k: "unat k = length f" using assms(5) by (simp add: k_def PACKET_BUF_SIZE_def unat_of_nat take_bit_nat_eq_self)
  have ok0: "service_ok m0 xs" using assms(11) b(1) by (auto simp: service_ok_def mb_inv_def m0_def)
  then have inv0: "mb_inv m0 xs" by (simp add: service_ok_def)
  have pre: "cfg_mb_mode m0 = ENABLE_MAILBOX_SERVICE" "UIP_IPUDPH_LEN \<le> unat (mb_uip_len m0)" "unat (mb_uip_len m0) \<le> PACKET_BUF_SIZE"
    "mb_uip_buf m0 ! 6 \<noteq> 58" "\<not> node_failing env (mb_get_dnode env (mb_uip_buf m0))"
    using assms(4,5,6,13,17) k b(3) dn by (simp_all add: m0_def UIP_IPUDPH_LEN_def)
  have posted: "nq_log s' = nq_log s @ [Mb_post_uipbuf f]" "uip_buf s' = b" by (simp_all add: s' nq_emit_def)
  have full: "mb_post_uipbuf env None 0 m0 = Some (False, mb_send_queue_full env m0)" if "MAX_MAILBOX_ENTRIES \<le> length xs"
    by (rule post_full [OF inv0 _ pre(1,2,4)]) (use that in simp)
  have room: "length xs < MAX_MAILBOX_ENTRIES" if "\<not> MAX_MAILBOX_ENTRIES \<le> length xs"
    using that by simp
  show ?thesis
  proof (cases "MAX_MAILBOX_ENTRIES \<le> length xs")
    case True
    then show ?thesis using full posted by (simp add: m0_def k_def Let_def)
  next
    case False
    obtain t m l nxt pool where p: "mb_post_uipbuf env None 0 m0 = Some (True, t)" "memb_alloc (mb_memb m0) = (m, pool)"
        "t = m0 \<lparr> mb_memb := pool, mb_entry := (mb_entry m0)(m := posted_entry env m0 (mb_entry m0 m)), mb_list := l, mb_next := nxt \<rparr>"
        "mb_inv t (xs @ [m])" "msg_of t m = take (unat (mb_uip_len m0)) (mb_uip_buf m0)"
      by (rule post_stored [OF inv0 room [OF False] pre, of 0])
    have ok: "service_ok t (xs @ [m])" by (rule posted_service [OF ok0 p(4,3)])
    have mf: "msg_of t m = f" "data_len (mb_entry t m) = k" using p(3,5) k b(2) by (simp_all add: m0_def posted_entry_def)
    have old: "mb_entry t q = mb_entry mb q" if "q \<noteq> m" for q using p(3) that by (simp add: m0_def)
    have x: "m \<notin> set xs" using p(4) by (simp add: mb_inv_def is_list_def)
    have "destipaddr (data (mb_entry t m)) = destipaddr f"
      using destipaddr_take [of "unat k" "data (mb_entry t m)"] mf k assms(4) by (simp add: msg_of_def)
    then have fm: "for_node env n t m" using assms(7) by (simp add: for_node_def mb_get_dnode_def)
    have same: "mb_entry t q = mb_entry mb q" if "q \<in> set xs" for q using old [of q] x that by metis
    have fo: "for_node env n t q = for_node env n mb q" "msg_of t q = msg_of mb q" if "q \<in> set xs" for q
      using same [OF that] by (simp_all add: for_node_def msg_of_def)
    have ms: "map (msg_of t) (filter (for_node env n t) (xs @ [m])) = map (msg_of mb) (filter (for_node env n mb) xs) @ [f]"
      using fm fo mf(1) by (simp cong: filter_cong map_cong)
    have lens: "\<forall>q. for_node env n t q \<longrightarrow> 52 \<le> unat (data_len (mb_entry t q))"
      using assms(4,19) old mf(2) k by (metis for_node_def)
    have "state (mb_state t) = MB_STATE_IDLE" "cfg_mb_mode t = ENABLE_MAILBOX_SERVICE" "mb_log t = mb_log mb"
      using assms(12,13) p(3) by (simp_all add: m0_def)
    with wakeup_delivery [OF assms(9,10) ok _ _ assms(14,15,8,16,17,18) lens] ms
    have "\<exists>u. (let ms = map (msg_of mb) (filter (for_node env n mb) xs) @ [f]; silent = \<not> list_ex more_info ms
        in Option.bind (mb_wakeup_event env n False t) (reports_sent env (length ms)) = Some u
          \<and> mb_log u = mb_log mb @ map (Classic_input n) ms @ [final_effect n silent])"
      by (metis (no_types, lifting) length_map)
    then show ?thesis using p(1) posted False by (auto simp: m0_def k_def)
  qed
qed

definition sample_nq :: node_queue where
  "sample_nq = \<lparr> nq_packets = packetqueue_init, queue_state = QS_SENDING_FIRST, black_list_crc32 = [0, 0], black_list_n = 0,
     uip_buf = replicate PACKET_BUF_SIZE 0, uip_len = 0, queue_timer = True, nq_log = [] \<rparr>"

theorem undelivered_frame_reaches_node_witness:
  "\<exists>s' t u. queue_move_to_mailbox (queue_env sample_mb_env) MODE_MAILBOX (sample_packet, 60) sample_nq = (True, s')
    \<and> nq_log s' = [Mb_post_uipbuf sample_packet]
    \<and> mb_post_uipbuf sample_mb_env None 0 (mb_boot \<lparr> mb_uip_buf := uip_buf s', mb_uip_len := 60 \<rparr>) = Some (True, t)
    \<and> Option.bind (mb_wakeup_event sample_mb_env 5 False t) (reports_sent sample_mb_env 1) = Some u
    \<and> mb_log u = [Classic_input 5 sample_packet, Send_appl 5 [0x84, 0x08]]"
proof -
  have nw: "\<not> is_wu_no_more_info_frame (queue_env sample_mb_env) sample_packet"
    by (simp add: is_wu_no_more_info_frame_def sample_packet_def UIP_IPUDPH_LEN_def nth_append Let_def)
  have f: "sample_packet = sent_frame (sample_packet, 60)" by (simp add: sent_frame_def)
  have "mb_conf_mode (queue_env sample_mb_env) = 1" by (simp add: sample_mb_env_def)
  then have "fst (queue_move_to_mailbox (queue_env sample_mb_env) MODE_MAILBOX (sample_packet, 60) sample_nq)"
    using nw by (simp add: queue_move_to_mailbox_def Let_def)
  then obtain s' where s': "queue_move_to_mailbox (queue_env sample_mb_env) MODE_MAILBOX (sample_packet, 60) sample_nq = (True, s')"
    by (cases "queue_move_to_mailbox (queue_env sample_mb_env) MODE_MAILBOX (sample_packet, 60) sample_nq") auto
  have n: "mb_get_dnode sample_mb_env sample_packet = 5" "sample_packet ! 6 \<noteq> 58" "\<not> more_info sample_packet"
    by (simp_all add: mb_get_dnode_def sample_mb_env_def destipaddr_def sample_packet_def more_info_def UIP_IPUDPH_LEN_def nth_append)
  have e: "patient sample_mb_env" "\<not> wakeup_off_schedule sample_mb_env \<lparr> wakeUp_interval = 100, lastAwake = 4900 \<rparr>"
    by (simp_all add: patient_def sample_mb_env_def wakeup_off_schedule_def)
  have b: "state (mb_state mb_boot) = MB_STATE_IDLE" "mb_log mb_boot = []" "\<not> for_node sample_mb_env 5 mb_boot p" for p
    by (simp_all add: mb_boot_def mb_zero_def mb_init_def for_node_def mb_get_dnode_def sample_mb_env_def destipaddr_def MAX_MAIL_BOX_PAYLOAD_def)
  have l: "length (uip_buf sample_nq) = PACKET_BUF_SIZE" "nq_log sample_nq = []" by (simp_all add: sample_nq_def)
  show ?thesis
    using undelivered_frame_reaches_node [OF s' f l(1) _ _ n(2) n(1) [symmetric] _ sample_bufs e(1) sample_service(2) b(1) _ _ _ _ _ e(2)]
      s' n(3) b(2,3) l(2)
    by (auto simp: PACKET_BUF_SIZE_def MAX_MAILBOX_ENTRIES_def final_effect_def Let_def)
qed

end
